(* ===== verification/Prelude.thy ===== *)
theory Prelude
  imports Main "HOL-Library.Word"
begin

text \<open>
  The vocabulary every component of the development shares.
  \<^item> machine integers: \<open>u8\<close>, \<open>u16\<close>, \<open>u32\<close>;
  \<^item> return codes of the SDK (\<open>ret_code\<close>, from nrf_error.h and nrf_esb_error_codes.h);
  \<^item> runs of C code that may go wrong: a value of type \<open>'a result\<close> is \<open>Inr a\<close> when the code
    returns, and \<open>Inl f\<close> when it has no defined continuation (\<open>fault\<close>), sequenced by
    \<open>then_do\<close> and reasoned about by the predicate \<open>ok\<close>;
  \<^item> bounds-checked array reads, writes and \<open>memcpy\<close>;
  \<^item> ring buffers (\<open>ring_slice\<close>) and busy-wait loops (\<open>busy_wait\<close>);
  \<^item> the interfaces: \<open>bounded_queue\<close> (a FIFO queue with a capacity) and \<open>machine\<close>
    (a transition system with an invariant).
\<close>

section \<open>Machine integers\<close>

type_synonym u8 = "8 word"
type_synonym u16 = "16 word"
type_synonym u32 = "32 word"

lemma unat_less: "unat (b :: u8) < 256"
  using unsigned_less [of b] by simp

lemma unat_less_u16: "unat (h :: u16) < 65536"
  using unsigned_less [of h] by simp

text \<open>Conversion to a wider type keeps the value.\<close>

lemma unat_widen [simp]:
  "unat (ucast (b :: u8) :: u16) = unat b"
  "unat (ucast (b :: u8) :: u32) = unat b"
  "unat (ucast (h :: u16) :: u32) = unat h"
  using unat_less [of b] unat_less_u16 [of h]
  by (simp_all add: unsigned_ucast_eq take_bit_nat_eq_self_iff)

section \<open>Return codes\<close>

text \<open>
  \<open>uint32_t\<close> / \<open>ret_code_t\<close> results; only the codes the modelled functions return are
  listed, under the names of the headers.
\<close>

datatype ret_code =
    NRF_SUCCESS
  | NRF_ERROR_INTERNAL
  | NRF_ERROR_NO_MEM
  | NRF_ERROR_NOT_FOUND
  | NRF_ERROR_NOT_SUPPORTED
  | NRF_ERROR_INVALID_PARAM
  | NRF_ERROR_INVALID_STATE
  | NRF_ERROR_INVALID_LENGTH
  | NRF_ERROR_INVALID_DATA
  | NRF_ERROR_DATA_SIZE
  | NRF_ERROR_NULL
  | NRF_ERROR_INVALID_ADDR
  | NRF_ERROR_BUSY
  | NRF_ERROR_FORBIDDEN
  | NRF_ERROR_BUFFER_EMPTY
  | NRF_ESB_ERROR_NOT_IN_RX_MODE

section \<open>Code that may have no defined continuation\<close>

text \<open>
  \<open>Null_Deref\<close>: a null function or data pointer is followed; \<open>Out_Of_Bounds\<close>: an array is
  read or written outside its object; \<open>Hang\<close>: a busy-wait never ends; \<open>Reset\<close>:
  \<open>NVIC_SystemReset\<close> restarts the chip; \<open>Uninitialised\<close>: a variable is read before it is set;
  \<open>Bad_Shift\<close>: a shift by a negative amount or by the width of the type.
\<close>

datatype fault = Null_Deref | Out_Of_Bounds | Hang | Reset | Uninitialised | Bad_Shift

type_synonym 'a result = "fault + 'a"

definition then_do :: "'a result \<Rightarrow> ('a \<Rightarrow> 'b result) \<Rightarrow> 'b result" where
  "then_do m f = (case m of Inl e \<Rightarrow> Inl e | Inr a \<Rightarrow> f a)"

lemma then_do_simps [simp]:
  "then_do (Inr a) f = f a"
  "then_do (Inl e) f = Inl e"
  by (simp_all add: then_do_def)

lemma then_do_Inr_iff: "then_do m f = Inr b \<longleftrightarrow> (\<exists>a. m = Inr a \<and> f a = Inr b)"
  by (cases m) simp_all

lemma then_do_Inl_iff: "then_do m f = Inl e \<longleftrightarrow> m = Inl e \<or> (\<exists>a. m = Inr a \<and> f a = Inl e)"
  by (cases m) simp_all

text \<open>\<open>ok m P\<close>: the code returns, and what it returns satisfies \<open>P\<close> (total correctness).\<close>

definition ok :: "'a result \<Rightarrow> ('a \<Rightarrow> bool) \<Rightarrow> bool" where
  "ok m P \<longleftrightarrow> (case m of Inl _ \<Rightarrow> False | Inr a \<Rightarrow> P a)"

named_theorems ok_rules \<open>weakest preconditions of the run-time primitives\<close>

lemma ok_Inr [simp, ok_rules]: "ok (Inr a) P = P a"
  by (simp add: ok_def)

lemma ok_Inl [simp, ok_rules]: "ok (Inl e) P = False"
  by (simp add: ok_def)

lemma ok_then_do [simp, ok_rules]: "ok (then_do m f) P = ok m (\<lambda>a. ok (f a) P)"
  by (cases m) simp_all

lemma ok_if: "ok (if c then m else n) P = ((c \<longrightarrow> ok m P) \<and> (\<not> c \<longrightarrow> ok n P))"
  by simp

lemma ok_iff: "ok m P \<longleftrightarrow> (\<exists>a. m = Inr a \<and> P a)"
  by (cases m) simp_all

lemma ok_mono: "ok m P \<Longrightarrow> (\<And>a. P a \<Longrightarrow> Q a) \<Longrightarrow> ok m Q"
  by (cases m) simp_all

lemma ok_conj: "ok m (\<lambda>a. P a \<and> Q a) \<longleftrightarrow> ok m P \<and> ok m Q"
  by (cases m) auto

lemma ok_then_doI: "ok m P \<Longrightarrow> (\<And>a. P a \<Longrightarrow> ok (f a) Q) \<Longrightarrow> ok (then_do m f) Q"
  by (cases m) simp_all

lemma okE:
  assumes "ok m P"
  obtains a where "m = Inr a" and "P a"
  using assms by (cases m) auto

lemma ok_result: "ok m P \<Longrightarrow> m = Inr a \<Longrightarrow> P a"
  by simp

text \<open>\<open>post m P\<close>: if the code returns, what it returns satisfies \<open>P\<close>.\<close>

definition post :: "'a result \<Rightarrow> ('a \<Rightarrow> bool) \<Rightarrow> bool" where
  "post m P \<longleftrightarrow> (case m of Inl _ \<Rightarrow> True | Inr a \<Rightarrow> P a)"

lemma post_simps [simp]:
  "post (Inr a) P = P a"
  "post (Inl e) P = True"
  "post (then_do m f) P = post m (\<lambda>a. post (f a) P)"
  by (simp_all add: post_def then_do_def split: sum.split)

lemma post_mono: "post m P \<Longrightarrow> (\<And>a. P a \<Longrightarrow> Q a) \<Longrightarrow> post m Q"
  by (cases m) simp_all

lemma post_mono_Inr: "post m P \<Longrightarrow> (\<And>a. m = Inr a \<Longrightarrow> P a \<Longrightarrow> Q a) \<Longrightarrow> post m Q"
  by (cases m) simp_all

lemma postD: "post m P \<Longrightarrow> m = Inr a \<Longrightarrow> P a"
  by simp

lemma post_True [simp]: "post m (\<lambda>_. True)"
  by (cases m) simp_all

lemma ok_post: "ok m P \<Longrightarrow> post m P"
  by (cases m) simp_all

lemma ok_postI: "ok m P \<Longrightarrow> post m Q \<Longrightarrow> ok m Q"
  by (cases m) simp_all

text \<open>A \<open>for\<close> loop over given index values; the body may go wrong.\<close>

fun for_each :: "('i \<Rightarrow> 's \<Rightarrow> 's result) \<Rightarrow> 'i list \<Rightarrow> 's \<Rightarrow> 's result" where
  "for_each body [] s = Inr s"
| "for_each body (i # is) s = then_do (body i s) (for_each body is)"

lemma for_each_append:
  "for_each body (xs @ ys) s = then_do (for_each body xs s) (for_each body ys)"
proof (induction xs arbitrary: s)
  case (Cons x xs)
  then show ?case by (cases "body x s") simp_all
qed simp

text \<open>A loop over \<open>0, \<dots>, n - 1\<close> establishes \<open>I n\<close> if each round takes \<open>I k\<close> to \<open>I (k + 1)\<close>.\<close>

lemma for_each_upt:
  assumes "I 0 s" and "\<And>k t. k < n \<Longrightarrow> I k t \<Longrightarrow> ok (body k t) (I (Suc k))"
  shows "ok (for_each body [0..<n] s) (I n)"
  using assms
proof (induction n)
  case (Suc n)
  have "ok (for_each body [0..<n] s) (I n)" by (rule Suc.IH) (use Suc.prems in auto)
  then show ?case
    using Suc.prems(2) [of n] by (auto simp: for_each_append elim!: ok_mono)
qed simp

text \<open>\<open>(uint8_t)(0x01 << n)\<close> with \<open>n\<close> an \<open>int\<close>; a negative or too large \<open>n\<close> is undefined.\<close>

definition shl1_u8 :: "int \<Rightarrow> u8 result" where
  "shl1_u8 n = (if 0 \<le> n \<and> n < 31 then Inr (ucast (push_bit (nat n) 1 :: u32)) else Inl Bad_Shift)"

lemma ok_shl1_u8 [simp, ok_rules]:
  "ok (shl1_u8 n) P \<longleftrightarrow> 0 \<le> n \<and> n < 31 \<and> P (push_bit (nat n) 1)"
proof -
  have "(ucast (push_bit k 1 :: u32) :: u8) = push_bit k 1" if "k < 31" for k
    by (rule bit_word_eqI) (use that in \<open>auto simp: bit_simps\<close>)
  then show ?thesis by (auto simp: shl1_u8_def)
qed

section \<open>Error codes of calls\<close>

text \<open>\<open>APP_ERROR_CHECK(call)\<close>: an error code resets the chip.\<close>

definition app_error_check :: "(ret_code \<times> 's) result \<Rightarrow> 's result" where
  "app_error_check m = then_do m (\<lambda>(r, s). if r \<noteq> NRF_SUCCESS then Inl Reset else Inr s)"

text \<open>\<open>APP_ERROR_CHECK_BOOL(c)\<close>.\<close>

definition app_error_check_bool :: "bool \<Rightarrow> unit result" where
  "app_error_check_bool c = (if c then Inr () else Inl Reset)"

text \<open>\<open>(void) call\<close>: the code is ignored.\<close>

definition ignore_code :: "(ret_code \<times> 's) result \<Rightarrow> 's result" where
  "ignore_code m = then_do m (\<lambda>(r, s). Inr s)"

lemma ok_app_error_check [simp, ok_rules]:
  "ok (app_error_check m) P \<longleftrightarrow> ok m (\<lambda>(r, s). r = NRF_SUCCESS \<and> P s)"
  by (cases m) (auto simp: app_error_check_def split: if_splits)

lemma ok_app_error_check_bool [simp, ok_rules]: "ok (app_error_check_bool c) P \<longleftrightarrow> c \<and> P ()"
  by (simp add: app_error_check_bool_def)

lemma ok_ignore_code [simp, ok_rules]: "ok (ignore_code m) P \<longleftrightarrow> ok m (\<lambda>(r, s). P s)"
  by (cases m) (auto simp: ignore_code_def)

lemma post_app_error_check [simp]:
  "post (app_error_check m) P \<longleftrightarrow> post m (\<lambda>(r, s). r = NRF_SUCCESS \<longrightarrow> P s)"
  by (cases m) (auto simp: app_error_check_def)

lemma post_app_error_check_bool [simp]: "post (app_error_check_bool c) P \<longleftrightarrow> (c \<longrightarrow> P ())"
  by (simp add: app_error_check_bool_def)

lemma post_ignore_code [simp]: "post (ignore_code m) P \<longleftrightarrow> post m (\<lambda>(r, s). P s)"
  by (cases m) (auto simp: ignore_code_def)

section \<open>Arrays\<close>

definition load_at :: "'a list \<Rightarrow> nat \<Rightarrow> 'a result" where
  "load_at xs i = (if i < length xs then Inr (xs ! i) else Inl Out_Of_Bounds)"

definition store_at :: "'a list \<Rightarrow> nat \<Rightarrow> 'a \<Rightarrow> 'a list result" where
  "store_at xs i x = (if i < length xs then Inr (xs[i := x]) else Inl Out_Of_Bounds)"

text \<open>\<open>memcpy(&dst[d], &src[s], n)\<close> on two distinct arrays.\<close>

definition memcpy :: "'a list \<Rightarrow> nat \<Rightarrow> 'a list \<Rightarrow> nat \<Rightarrow> nat \<Rightarrow> 'a list result" where
  "memcpy dst d src s n =
     (if d + n \<le> length dst \<and> s + n \<le> length src
      then Inr (take d dst @ take n (drop s src) @ drop (d + n) dst)
      else Inl Out_Of_Bounds)"

lemma ok_load_at [simp, ok_rules]: "ok (load_at xs i) P \<longleftrightarrow> i < length xs \<and> P (xs ! i)"
  by (simp add: load_at_def)

lemma ok_store_at [simp, ok_rules]:
  "ok (store_at xs i x) P \<longleftrightarrow> i < length xs \<and> P (xs[i := x])"
  by (simp add: store_at_def)

lemma ok_memcpy [simp, ok_rules]:
  "ok (memcpy dst d src s n) P \<longleftrightarrow>
     d + n \<le> length dst \<and> s + n \<le> length src \<and>
     P (take d dst @ take n (drop s src) @ drop (d + n) dst)"
  by (auto simp: memcpy_def)

lemma post_array_ops [simp]:
  "post (load_at xs i) P \<longleftrightarrow> (i < length xs \<longrightarrow> P (xs ! i))"
  "post (store_at xs i x) P' \<longleftrightarrow> (i < length xs \<longrightarrow> P' (xs[i := x]))"
  "post (memcpy dst d src k n) P' \<longleftrightarrow>
     (d + n \<le> length dst \<and> k + n \<le> length src \<longrightarrow>
      P' (take d dst @ take n (drop k src) @ drop (d + n) dst))"
  by (auto simp: load_at_def store_at_def memcpy_def)

lemma load_at_Inr_iff: "load_at xs i = Inr x \<longleftrightarrow> i < length xs \<and> x = xs ! i"
  by (auto simp: load_at_def)

lemma store_at_Inr_iff: "store_at xs i x = Inr ys \<longleftrightarrow> i < length xs \<and> ys = xs[i := x]"
  by (auto simp: store_at_def)

lemma memcpy_Inr_iff:
  "memcpy dst d src s n = Inr r \<longleftrightarrow>
     d + n \<le> length dst \<and> s + n \<le> length src \<and>
     r = take d dst @ take n (drop s src) @ drop (d + n) dst"
  by (auto simp: memcpy_def)

lemmas array_ops_Inr = load_at_Inr_iff store_at_Inr_iff memcpy_Inr_iff then_do_Inr_iff

lemma length_memcpy: "memcpy dst d src s n = Inr r \<Longrightarrow> length r = length dst"
  by (auto simp: memcpy_Inr_iff)

lemma list_all_list_updateI: "list_all P xs \<Longrightarrow> P x \<Longrightarrow> list_all P (xs[i := x])"
  using set_update_subset_insert by (fastforce simp: list_all_iff)

lemma list_all_nthD: "list_all P xs \<Longrightarrow> i < length xs \<Longrightarrow> P (xs ! i)"
  by (simp add: list_all_length)

section \<open>Busy-wait loops\<close>

text \<open>
  \<open>while (EVENT == 0);\<close> where \<open>ev k\<close> is what the \<open>k\<close>-th read of the register gives: \<open>Some\<close>
  of the first read that is set, \<open>None\<close> if no read is.
\<close>

partial_function (option) busy_wait :: "(nat \<Rightarrow> bool) \<Rightarrow> nat \<Rightarrow> nat option" where
  "busy_wait ev k = (if ev k then Some k else busy_wait ev (Suc k))"

definition wait_event :: "(nat \<Rightarrow> bool) \<Rightarrow> unit result" where
  "wait_event ev = (case busy_wait ev 0 of None \<Rightarrow> Inl Hang | Some _ \<Rightarrow> Inr ())"

lemma busy_wait_sound: "busy_wait ev k = Some j \<Longrightarrow> ev j"
proof (rule busy_wait.raw_induct [where P = "\<lambda>ev k j. ev j"])
  fix f :: "(nat \<Rightarrow> bool) \<Rightarrow> nat \<Rightarrow> nat option" and ev k j
  assume IH: "\<And>ev k j. f ev k = Some j \<Longrightarrow> ev j"
    and eq: "(if ev k then Some k else f ev (Suc k)) = Some j"
  show "ev j" using eq IH by (cases "ev k") auto
qed

lemma busy_wait_complete: "ev (k + d) \<Longrightarrow> \<exists>j. busy_wait ev k = Some j"
proof (induction d arbitrary: k)
  case 0
  then show ?case by (simp add: busy_wait.simps)
next
  case (Suc d)
  then have "\<exists>j. busy_wait ev (Suc k) = Some j" by simp
  then show ?case by (subst busy_wait.simps) auto
qed

lemma wait_event_iff: "wait_event ev = Inr () \<longleftrightarrow> (\<exists>k. ev k)"
proof -
  have "\<exists>j. busy_wait ev 0 = Some j" if "ev k" for k
    using busy_wait_complete [of ev 0 k] that by simp
  then show ?thesis
    by (auto simp: wait_event_def dest: busy_wait_sound split: option.splits)
qed

lemma ok_wait_event [simp, ok_rules]: "ok (wait_event ev) P \<longleftrightarrow> (\<exists>k. ev k) \<and> P ()"
proof -
  have "wait_event ev = Inl Hang \<or> wait_event ev = Inr ()"
    by (auto simp: wait_event_def split: option.splits)
  then show ?thesis using wait_event_iff [of ev] by auto
qed

lemma post_wait_event [simp]: "post (wait_event ev) P \<longleftrightarrow> ((\<exists>k. ev k) \<longrightarrow> P ())"
  using ok_wait_event [of ev P] wait_event_iff [of ev]
  by (cases "wait_event ev") auto

lemma wait_event_cases: "wait_event ev = (if \<exists>k. ev k then Inr () else Inl Hang)"
  using wait_event_iff [of ev] by (auto simp: wait_event_def split: option.splits)

section \<open>Ring buffers\<close>

text \<open>The \<open>n\<close> elements of a circular array that start at index \<open>st\<close>.\<close>

definition ring_slice :: "'a list \<Rightarrow> nat \<Rightarrow> nat \<Rightarrow> 'a list" where
  "ring_slice buf st n = map (\<lambda>i. buf ! ((st + i) mod length buf)) [0..<n]"

lemma length_ring_slice [simp]: "length (ring_slice buf st n) = n"
  by (simp add: ring_slice_def)

lemma ring_slice_0 [simp]: "ring_slice buf st 0 = []"
  by (simp add: ring_slice_def)

lemma ring_slice_nth: "i < n \<Longrightarrow> ring_slice buf st n ! i = buf ! ((st + i) mod length buf)"
  by (simp add: ring_slice_def)

lemma ring_slice_Nil_iff [simp]: "ring_slice buf st n = [] \<longleftrightarrow> n = 0"
  by (simp add: ring_slice_def)

lemma mod_add_inj_less:
  assumes "i < n" and "n < (m :: nat)"
  shows "(st + i) mod m \<noteq> (st + n) mod m"
proof
  assume "(st + i) mod m = (st + n) mod m"
  then have "m dvd (st + n) - (st + i)"
    by (metis assms(1) mod_eq_dvd_iff_nat nat_add_left_cancel_le less_imp_le)
  then have "m dvd n - i" by simp
  with assms show False using dvd_imp_le [of m "n - i"] by simp
qed

lemma ring_slice_snoc:
  assumes "n < length buf"
  shows "ring_slice (buf[(st + n) mod length buf := x]) st (Suc n) = ring_slice buf st n @ [x]"
proof (rule nth_equalityI)
  fix i assume "i < length (ring_slice (buf[(st + n) mod length buf := x]) st (Suc n))"
  then have i: "i < Suc n" by simp
  have m: "(st + i) mod length buf < length buf" for i
    by (rule mod_less_divisor) (use assms in linarith)
  show "ring_slice (buf[(st + n) mod length buf := x]) st (Suc n) ! i
      = (ring_slice buf st n @ [x]) ! i"
    using i assms m mod_add_inj_less [of i n "length buf" st]
    by (cases "i = n") (auto simp: ring_slice_nth nth_append nth_list_update)
qed simp

lemma ring_slice_tl:
  assumes "0 < n"
  shows "ring_slice buf (Suc st mod length buf) (n - 1) = tl (ring_slice buf st n)"
proof (rule nth_equalityI)
  fix i assume "i < length (ring_slice buf (Suc st mod length buf) (n - 1))"
  then have "i < n - 1" by simp
  then show "ring_slice buf (Suc st mod length buf) (n - 1) ! i = tl (ring_slice buf st n) ! i"
    by (simp add: ring_slice_nth nth_tl mod_simps)
qed simp

lemma ring_slice_hd: "0 < n \<Longrightarrow> hd (ring_slice buf st n) = buf ! (st mod length buf)"
  using ring_slice_nth [of 0 n buf st] by (simp add: hd_conv_nth)

lemma ring_slice_st_mod: "ring_slice buf (st mod length buf) n = ring_slice buf st n"
  by (simp add: ring_slice_def mod_simps)

text \<open>An index that steps by one and wraps to 0 at the size.\<close>

lemma wrap_index_mod: "i < (m :: nat) \<Longrightarrow> (if m \<le> Suc i then 0 else Suc i) = Suc i mod m"
  by (cases "Suc i = m") auto

section \<open>Interfaces\<close>

subsection \<open>A FIFO queue with a capacity\<close>

locale bounded_queue =
  fixes qinv :: "'q \<Rightarrow> bool"
    and qabs :: "'q \<Rightarrow> 'a list"
    and qcap :: "'q \<Rightarrow> nat"
    and enq :: "'a \<Rightarrow> 'q \<Rightarrow> 'q"
    and deq :: "'q \<Rightarrow> 'q"
    and front :: "'q \<Rightarrow> 'a"
  assumes bounded: "qinv q \<Longrightarrow> length (qabs q) \<le> qcap q"
    and enq_inv: "qinv q \<Longrightarrow> length (qabs q) < qcap q \<Longrightarrow> qinv (enq x q)"
    and enq_abs: "qinv q \<Longrightarrow> length (qabs q) < qcap q \<Longrightarrow> qabs (enq x q) = qabs q @ [x]"
    and enq_cap: "qinv q \<Longrightarrow> length (qabs q) < qcap q \<Longrightarrow> qcap (enq x q) = qcap q"
    and deq_inv: "qinv q \<Longrightarrow> qabs q \<noteq> [] \<Longrightarrow> qinv (deq q)"
    and deq_abs: "qinv q \<Longrightarrow> qabs q \<noteq> [] \<Longrightarrow> qabs (deq q) = tl (qabs q)"
    and deq_cap: "qinv q \<Longrightarrow> qabs q \<noteq> [] \<Longrightarrow> qcap (deq q) = qcap q"
    and front_abs: "qinv q \<Longrightarrow> qabs q \<noteq> [] \<Longrightarrow> front q = hd (qabs q)"
begin

lemma enq_many:
  "qinv q \<Longrightarrow> length (qabs q) + length xs \<le> qcap q \<Longrightarrow>
     qinv (fold enq xs q) \<and> qabs (fold enq xs q) = qabs q @ xs \<and> qcap (fold enq xs q) = qcap q"
proof (induction xs arbitrary: q)
  case Nil
  then show ?case by simp
next
  case (Cons x xs)
  then have "length (qabs q) < qcap q" by simp
  with Cons show ?case by (simp add: enq_inv enq_abs enq_cap)
qed

lemma deq_many:
  "qinv q \<Longrightarrow> n \<le> length (qabs q) \<Longrightarrow>
     qinv ((deq ^^ n) q) \<and> qabs ((deq ^^ n) q) = drop n (qabs q) \<and> qcap ((deq ^^ n) q) = qcap q"
proof (induction n)
  case 0
  then show ?case by simp
next
  case (Suc n)
  then have IH: "qinv ((deq ^^ n) q)" "qabs ((deq ^^ n) q) = drop n (qabs q)"
      "qcap ((deq ^^ n) q) = qcap q" by simp_all
  with Suc.prems have ne: "qabs ((deq ^^ n) q) \<noteq> []" by simp
  show ?case using deq_inv [OF IH(1) ne] deq_abs [OF IH(1) ne] deq_cap [OF IH(1) ne] IH
    by (simp add: drop_Suc tl_drop)
qed

text \<open>An element that enters leaves after exactly the elements that were ahead of it.\<close>

lemma fifo_order:
  assumes "qinv q" and "length (qabs q) < qcap q"
  shows "front ((deq ^^ length (qabs q)) (enq x q)) = x"
proof -
  have e: "qinv (enq x q)" "qabs (enq x q) = qabs q @ [x]"
    using assms by (simp_all add: enq_inv enq_abs)
  have d: "qinv ((deq ^^ length (qabs q)) (enq x q))"
      "qabs ((deq ^^ length (qabs q)) (enq x q)) = [x]"
    using deq_many [OF e(1), of "length (qabs q)"] e(2) by simp_all
  show ?thesis using front_abs [OF d(1)] d(2) by simp
qed

lemma deq_length: "qinv q \<Longrightarrow> qabs q \<noteq> [] \<Longrightarrow> length (qabs (deq q)) = length (qabs q) - 1"
  by (simp add: deq_abs)

lemma enq_not_empty: "qinv q \<Longrightarrow> length (qabs q) < qcap q \<Longrightarrow> qabs (enq x q) \<noteq> []"
  by (simp add: enq_abs)

end

subsection \<open>A transition system with an inductive invariant\<close>

locale machine =
  fixes start :: "'s \<Rightarrow> bool"
    and step :: "'s \<Rightarrow> 's \<Rightarrow> bool"
    and inv :: "'s \<Rightarrow> bool"
  assumes start_inv: "start s \<Longrightarrow> inv s"
    and step_inv: "inv s \<Longrightarrow> step s t \<Longrightarrow> inv t"
begin

lemma run_inv: "step\<^sup>*\<^sup>* s t \<Longrightarrow> inv s \<Longrightarrow> inv t"
  by (induction rule: rtranclp_induct) (auto intro: step_inv)

lemma reachable_inv: "start s \<Longrightarrow> step\<^sup>*\<^sup>* s t \<Longrightarrow> inv t"
  by (rule run_inv [OF _ start_inv])

end

end
