(* ===== verification/EsbTypes.thy ===== *)
theory EsbTypes
  imports Prelude
begin

unbundle bit_operations_syntax

text \<open>
  Data and state of the Enhanced ShockBurst module
  (components/proprietary_rf/esb/nrf_esb.h and nrf_esb.c): the public types, the
  registers of the peripherals the module drives (RADIO, TIMER2, PPI, NVIC), and the static
  variables of nrf_esb.c as one record \<open>esb\<close>.

  Conventions. A pointer into the TX FIFO is the index of the slot it points to; a function pointer
  is a value of an enumeration with one constructor per function that is ever assigned to it; a
  pointer argument that may be \<open>NULL\<close> is an \<open>option\<close>. Registers written with "set" and "clear"
  semantics (INTENSET/INTENCLR, CHENSET/CHENCLR) are one field each, updated by OR and AND NOT; a
  write to a task register is appended to a log of tasks.
\<close>

section \<open>Public types (nrf_esb.h)\<close>

definition NRF_ESB_MAX_PAYLOAD_LENGTH :: nat where
  "NRF_ESB_MAX_PAYLOAD_LENGTH = 32"

definition NRF_ESB_TX_FIFO_SIZE :: nat where
  "NRF_ESB_TX_FIFO_SIZE = 8"

definition NRF_ESB_RX_FIFO_SIZE :: nat where
  "NRF_ESB_RX_FIFO_SIZE = 8"

definition NRF_ESB_PIPE_COUNT :: nat where
  "NRF_ESB_PIPE_COUNT = 9"

definition NRF_ESB_PID_MAX :: nat where
  "NRF_ESB_PID_MAX = 3"

lemmas esb_sizes [simp] = NRF_ESB_MAX_PAYLOAD_LENGTH_def NRF_ESB_TX_FIFO_SIZE_def
  NRF_ESB_RX_FIFO_SIZE_def NRF_ESB_PIPE_COUNT_def NRF_ESB_PID_MAX_def

datatype nrf_esb_protocol_t = NRF_ESB_PROTOCOL_ESB | NRF_ESB_PROTOCOL_ESB_DPL

datatype nrf_esb_mode_t = NRF_ESB_MODE_PTX | NRF_ESB_MODE_PRX

datatype nrf_esb_bitrate_t = NRF_ESB_BITRATE_2MBPS | NRF_ESB_BITRATE_1MBPS
  | NRF_ESB_BITRATE_250KBPS | NRF_ESB_BITRATE_1MBPS_BLE

datatype nrf_esb_crc_t = NRF_ESB_CRC_16BIT | NRF_ESB_CRC_8BIT | NRF_ESB_CRC_OFF

datatype nrf_esb_tx_power_t = NRF_ESB_TX_POWER_4DBM | NRF_ESB_TX_POWER_0DBM
  | NRF_ESB_TX_POWER_NEG4DBM | NRF_ESB_TX_POWER_NEG8DBM | NRF_ESB_TX_POWER_NEG12DBM
  | NRF_ESB_TX_POWER_NEG16DBM | NRF_ESB_TX_POWER_NEG20DBM | NRF_ESB_TX_POWER_NEG30DBM

datatype nrf_esb_tx_mode_t = NRF_ESB_TXMODE_AUTO | NRF_ESB_TXMODE_MANUAL
  | NRF_ESB_TXMODE_MANUAL_START

datatype nrf_esb_evt_id_t = NRF_ESB_EVENT_TX_SUCCESS | NRF_ESB_EVENT_TX_FAILED
  | NRF_ESB_EVENT_RX_RECEIVED

text \<open>The register values the enumerators stand for (nrf51_bitfields.h).\<close>

fun bitrate_value :: "nrf_esb_bitrate_t \<Rightarrow> u32" where
  "bitrate_value NRF_ESB_BITRATE_2MBPS = 1"
| "bitrate_value NRF_ESB_BITRATE_1MBPS = 0"
| "bitrate_value NRF_ESB_BITRATE_250KBPS = 2"
| "bitrate_value NRF_ESB_BITRATE_1MBPS_BLE = 3"

fun crc_value :: "nrf_esb_crc_t \<Rightarrow> u32" where
  "crc_value NRF_ESB_CRC_16BIT = 2"
| "crc_value NRF_ESB_CRC_8BIT = 1"
| "crc_value NRF_ESB_CRC_OFF = 0"

fun tx_power_value :: "nrf_esb_tx_power_t \<Rightarrow> u32" where
  "tx_power_value NRF_ESB_TX_POWER_4DBM = 0x04"
| "tx_power_value NRF_ESB_TX_POWER_0DBM = 0x00"
| "tx_power_value NRF_ESB_TX_POWER_NEG4DBM = 0xFC"
| "tx_power_value NRF_ESB_TX_POWER_NEG8DBM = 0xF8"
| "tx_power_value NRF_ESB_TX_POWER_NEG12DBM = 0xF4"
| "tx_power_value NRF_ESB_TX_POWER_NEG16DBM = 0xF0"
| "tx_power_value NRF_ESB_TX_POWER_NEG20DBM = 0xEC"
| "tx_power_value NRF_ESB_TX_POWER_NEG30DBM = 0xD8"

record nrf_esb_payload_t =
  pl_length :: u8
  pl_pipe :: u8
  pl_rssi :: u8  \<comment> \<open>\<open>int8_t\<close>, read back with \<open>sint\<close>\<close>
  pl_noack :: u8
  pl_pid :: u8
  pl_data :: "u8 list"

record nrf_esb_evt_t =
  evt_id :: nrf_esb_evt_id_t
  tx_attempts :: u32

record nrf_esb_config_t =
  cf_protocol :: nrf_esb_protocol_t
  cf_mode :: nrf_esb_mode_t
  cf_event_handler :: bool  \<comment> \<open>is the handler pointer non-null?\<close>
  cf_bitrate :: nrf_esb_bitrate_t
  cf_crc :: nrf_esb_crc_t
  cf_tx_output_power :: nrf_esb_tx_power_t
  cf_retransmit_delay :: u16
  cf_retransmit_count :: u16
  cf_tx_mode :: nrf_esb_tx_mode_t
  cf_radio_irq_priority :: u8
  cf_event_irq_priority :: u8
  cf_payload_length :: u8
  cf_selective_auto_ack :: bool

definition NRF_ESB_DEFAULT_CONFIG :: nrf_esb_config_t where
  "NRF_ESB_DEFAULT_CONFIG =
     \<lparr>cf_protocol = NRF_ESB_PROTOCOL_ESB_DPL, cf_mode = NRF_ESB_MODE_PTX,
      cf_event_handler = False, cf_bitrate = NRF_ESB_BITRATE_2MBPS, cf_crc = NRF_ESB_CRC_16BIT,
      cf_tx_output_power = NRF_ESB_TX_POWER_0DBM, cf_retransmit_delay = 250,
      cf_retransmit_count = 0, cf_tx_mode = NRF_ESB_TXMODE_AUTO, cf_radio_irq_priority = 1,
      cf_event_irq_priority = 2, cf_payload_length = 32, cf_selective_auto_ack = False\<rparr>"

definition NRF_ESB_LEGACY_CONFIG :: nrf_esb_config_t where
  "NRF_ESB_LEGACY_CONFIG =
     \<lparr>cf_protocol = NRF_ESB_PROTOCOL_ESB, cf_mode = NRF_ESB_MODE_PTX,
      cf_event_handler = False, cf_bitrate = NRF_ESB_BITRATE_2MBPS, cf_crc = NRF_ESB_CRC_8BIT,
      cf_tx_output_power = NRF_ESB_TX_POWER_0DBM, cf_retransmit_delay = 600,
      cf_retransmit_count = 3, cf_tx_mode = NRF_ESB_TXMODE_AUTO, cf_radio_irq_priority = 1,
      cf_event_irq_priority = 2, cf_payload_length = 32, cf_selective_auto_ack = False\<rparr>"

section \<open>Module types (nrf_esb.c)\<close>

datatype nrf_esb_mainstate_t =
    NRF_ESB_STATE_IDLE
  | NRF_ESB_STATE_PTX_TX
  | NRF_ESB_STATE_PTX_TX_ACK
  | NRF_ESB_STATE_PTX_RX_ACK
  | NRF_ESB_STATE_PRX
  | NRF_ESB_STATE_PRX_SEND_ACK

record pipe_info_t =
  pi_crc :: u16
  pi_pid :: u8
  pi_ack_payload :: bool

definition pipe_info_zero :: pipe_info_t where
  "pipe_info_zero = \<lparr>pi_crc = 0, pi_pid = 0, pi_ack_payload = False\<rparr>"

text \<open>
  The two FIFO structs have the same fields and the same size; \<open>p_payload[i]\<close> always points to
  the \<open>i\<close>-th element of the static array, so the FIFO holds the payloads themselves. The three
  counters are \<open>uint32_t\<close> in the source and stay below 9 (\<open>fifo_bounds\<close> of theory EsbFifo).
\<close>

record nrf_esb_payload_fifo_t =
  p_payload :: "nrf_esb_payload_t list"
  entry_point :: nat
  exit_point :: nat
  count :: nat

record nrf_esb_address_t =
  base_addr_p0 :: "u8 list"
  base_addr_p1 :: "u8 list"
  pipe_prefixes :: "u8 list"
  num_pipes :: u8
  addr_length :: u8
  rx_pipes_enabled :: u8
  rf_channel :: u8

definition NRF_ESB_ADDR_DEFAULT :: nrf_esb_address_t where
  "NRF_ESB_ADDR_DEFAULT =
     \<lparr>base_addr_p0 = [0xE7, 0xE7, 0xE7, 0xE7], base_addr_p1 = [0xC2, 0xC2, 0xC2, 0xC2],
      pipe_prefixes = [0xE7, 0xC2, 0xC3, 0xC4, 0xC5, 0xC6, 0xC7, 0xC8],
      num_pipes = 8, addr_length = 5, rx_pipes_enabled = 0xFF, rf_channel = 2\<rparr>"

text \<open>The functions the pointer \<open>on_radio_disabled\<close> is ever set to.\<close>

datatype radio_handler =
    No_handler
  | On_radio_disabled_tx_noack
  | On_radio_disabled_tx
  | On_radio_disabled_tx_wait_for_ack
  | On_radio_disabled_rx
  | On_radio_disabled_rx_ack

section \<open>Peripherals\<close>

datatype packet_buffer = Tx_buffer | Rx_buffer | Local_buffer  \<comment> \<open>a variable of the application\<close>

datatype radio_task = TASKS_TXEN | TASKS_RXEN | TASKS_DISABLE | TASKS_START | TASKS_RSSISTART

datatype timer_task = TIMER_TASKS_START | TIMER_TASKS_STOP | TIMER_TASKS_CLEAR

datatype ppi_event = EVENTS_RADIO_READY | EVENTS_RADIO_ADDRESS | EVENTS_TIMER_COMPARE0
  | EVENTS_TIMER_COMPARE1

datatype ppi_task = PPI_TIMER_TASKS_START | PPI_TIMER_TASKS_STOP | PPI_RADIO_TASKS_DISABLE
  | PPI_RADIO_TASKS_TXEN

record radio_regs =
  SHORTS :: u32
  INTEN :: u32
  PCNF0 :: u32
  PCNF1 :: u32
  BASE0 :: u32
  BASE1 :: u32
  PREFIX0 :: u32
  PREFIX1 :: u32
  TXPOWER :: u32
  MODE :: u32
  CRCCNF :: u32
  CRCINIT :: u32
  CRCPOLY :: u32
  TXADDRESS :: u32
  RXADDRESSES :: u32
  FREQUENCY :: u32
  PACKETPTR :: packet_buffer
  EVENTS_READY :: bool
  EVENTS_ADDRESS :: bool
  EVENTS_PAYLOAD :: bool
  EVENTS_END :: bool
  EVENTS_DISABLED :: bool
  CRCSTATUS :: u32
  RXMATCH :: u32
  RXCRC :: u32
  RSSISAMPLE :: u32
  RADIO_TASKS :: "radio_task list"
  disabled_poll :: "nat \<Rightarrow> bool"  \<comment> \<open>hardware: the \<open>k\<close>-th read of EVENTS_DISABLED after TASKS_DISABLE\<close>

record periph_regs =
  TIMER_PRESCALER :: u32
  TIMER_BITMODE :: u32
  TIMER_SHORTS :: u32
  TIMER_CC0 :: u32
  TIMER_CC1 :: u32
  EVENTS_COMPARE0 :: bool
  EVENTS_COMPARE1 :: bool
  TIMER_TASKS :: "timer_task list"
  PPI_CHEN :: u32
  PPI_CH :: "nat \<Rightarrow> (ppi_event \<times> ppi_task) option"
  RADIO_IRQ_enabled :: bool
  RADIO_IRQ_pending :: bool
  RADIO_IRQ_priority :: u8
  ESB_EVT_IRQ_enabled :: bool
  ESB_EVT_IRQ_pending :: bool
  ESB_EVT_IRQ_priority :: u8

text \<open>Register masks.\<close>

definition RADIO_SHORTS_DISABLED_TXEN_Msk :: u32 where
  "RADIO_SHORTS_DISABLED_TXEN_Msk = push_bit 2 1"

definition RADIO_SHORTS_DISABLED_RXEN_Msk :: u32 where
  "RADIO_SHORTS_DISABLED_RXEN_Msk = push_bit 3 1"

definition RADIO_SHORTS_COMMON :: u32 where
  "RADIO_SHORTS_COMMON = push_bit 0 1 OR push_bit 1 1 OR push_bit 4 1 OR push_bit 8 1"

definition RADIO_INTENSET_READY_Msk :: u32 where
  "RADIO_INTENSET_READY_Msk = push_bit 0 1"

definition RADIO_INTENSET_END_Msk :: u32 where
  "RADIO_INTENSET_END_Msk = push_bit 3 1"

definition RADIO_INTENSET_DISABLED_Msk :: u32 where
  "RADIO_INTENSET_DISABLED_Msk = push_bit 4 1"

definition NRF_ESB_PPI_TIMER_START :: nat where "NRF_ESB_PPI_TIMER_START = 10"
definition NRF_ESB_PPI_TIMER_STOP :: nat where "NRF_ESB_PPI_TIMER_STOP = 11"
definition NRF_ESB_PPI_RX_TIMEOUT :: nat where "NRF_ESB_PPI_RX_TIMEOUT = 12"
definition NRF_ESB_PPI_TX_START :: nat where "NRF_ESB_PPI_TX_START = 13"

definition NRF_ESB_INT_TX_SUCCESS_MSK :: u32 where "NRF_ESB_INT_TX_SUCCESS_MSK = 0x01"
definition NRF_ESB_INT_TX_FAILED_MSK :: u32 where "NRF_ESB_INT_TX_FAILED_MSK = 0x02"
definition NRF_ESB_INT_RX_DATA_RECEIVED_MSK :: u32 where "NRF_ESB_INT_RX_DATA_RECEIVED_MSK = 0x04"

lemmas reg_masks = RADIO_SHORTS_DISABLED_TXEN_Msk_def RADIO_SHORTS_DISABLED_RXEN_Msk_def
  RADIO_SHORTS_COMMON_def RADIO_INTENSET_READY_Msk_def RADIO_INTENSET_END_Msk_def
  RADIO_INTENSET_DISABLED_Msk_def

lemmas ppi_channels = NRF_ESB_PPI_TIMER_START_def NRF_ESB_PPI_TIMER_STOP_def
  NRF_ESB_PPI_RX_TIMEOUT_def NRF_ESB_PPI_TX_START_def

lemmas int_masks = NRF_ESB_INT_TX_SUCCESS_MSK_def NRF_ESB_INT_TX_FAILED_MSK_def
  NRF_ESB_INT_RX_DATA_RECEIVED_MSK_def

section \<open>The module's state\<close>

record esb =
  m_esb_initialized :: bool
  m_nrf_esb_mainstate :: nrf_esb_mainstate_t
  mp_current_payload :: "nat option"
  m_event_handler :: bool
  m_esb_addr :: nrf_esb_address_t
  m_config_local :: nrf_esb_config_t
  m_tx_fifo :: nrf_esb_payload_fifo_t
  m_rx_fifo :: nrf_esb_payload_fifo_t
  m_tx_payload_buffer :: "u8 list"
  m_rx_payload_buffer :: "u8 list"
  m_interrupt_flags :: u32
  m_pids :: "u8 list"
  m_rx_pipe_info :: "pipe_info_t list"
  m_retransmits_remaining :: u32
  m_last_tx_attempts :: u32
  m_wait_for_ack_timeout_us :: u32
  on_radio_disabled :: radio_handler
  update_rf_payload_format_fn :: "nrf_esb_protocol_t option"
  radio :: radio_regs
  periph :: periph_regs

text \<open>Register writes: \<open>wr\<close> on the radio, \<open>wp\<close> on timer, PPI and NVIC.\<close>

definition wr :: "(radio_regs \<Rightarrow> radio_regs) \<Rightarrow> esb \<Rightarrow> esb" where
  "wr f s = s\<lparr>radio := f (radio s)\<rparr>"

definition wp :: "(periph_regs \<Rightarrow> periph_regs) \<Rightarrow> esb \<Rightarrow> esb" where
  "wp f s = s\<lparr>periph := f (periph s)\<rparr>"

definition radio_task :: "radio_task \<Rightarrow> radio_regs \<Rightarrow> radio_regs" where
  "radio_task t r = r\<lparr>RADIO_TASKS := RADIO_TASKS r @ [t]\<rparr>"

definition timer_task :: "timer_task \<Rightarrow> periph_regs \<Rightarrow> periph_regs" where
  "timer_task t p = p\<lparr>TIMER_TASKS := TIMER_TASKS p @ [t]\<rparr>"

definition chenset :: "u32 \<Rightarrow> periph_regs \<Rightarrow> periph_regs" where
  "chenset m p = p\<lparr>PPI_CHEN := PPI_CHEN p OR m\<rparr>"

definition chenclr :: "u32 \<Rightarrow> periph_regs \<Rightarrow> periph_regs" where
  "chenclr m p = p\<lparr>PPI_CHEN := PPI_CHEN p AND NOT m\<rparr>"

definition DISABLE_RF_IRQ :: "esb \<Rightarrow> esb" where
  "DISABLE_RF_IRQ s = wp (\<lambda>p. p\<lparr>RADIO_IRQ_enabled := False\<rparr>) s"

definition ENABLE_RF_IRQ :: "esb \<Rightarrow> esb" where
  "ENABLE_RF_IRQ s = wp (\<lambda>p. p\<lparr>RADIO_IRQ_enabled := True\<rparr>) s"

definition set_pending_evt_irq :: "esb \<Rightarrow> esb" where
  "set_pending_evt_irq s = wp (\<lambda>p. p\<lparr>ESB_EVT_IRQ_pending := True\<rparr>) s"

definition raise_flag :: "u32 \<Rightarrow> esb \<Rightarrow> esb" where
  "raise_flag m s = s\<lparr>m_interrupt_flags := m_interrupt_flags s OR m\<rparr>"

text \<open>
  Writing a register never touches the module's variables: one simp set moves every
  projection of the module state past the register writes.
\<close>

named_theorems esb_writes \<open>register writes and flag updates, unfolded\<close>

declare wr_def [esb_writes] wp_def [esb_writes] radio_task_def [esb_writes]
  timer_task_def [esb_writes] chenset_def [esb_writes] chenclr_def [esb_writes]
  DISABLE_RF_IRQ_def [esb_writes] ENABLE_RF_IRQ_def [esb_writes]
  set_pending_evt_irq_def [esb_writes] raise_flag_def [esb_writes]

lemma wr_sel [simp]:
  "m_esb_initialized (wr f s) = m_esb_initialized s"
  "m_nrf_esb_mainstate (wr f s) = m_nrf_esb_mainstate s"
  "mp_current_payload (wr f s) = mp_current_payload s"
  "m_esb_addr (wr f s) = m_esb_addr s"
  "m_config_local (wr f s) = m_config_local s"
  "m_tx_fifo (wr f s) = m_tx_fifo s"
  "m_rx_fifo (wr f s) = m_rx_fifo s"
  "m_tx_payload_buffer (wr f s) = m_tx_payload_buffer s"
  "m_rx_payload_buffer (wr f s) = m_rx_payload_buffer s"
  "m_interrupt_flags (wr f s) = m_interrupt_flags s"
  "m_pids (wr f s) = m_pids s"
  "m_rx_pipe_info (wr f s) = m_rx_pipe_info s"
  "m_retransmits_remaining (wr f s) = m_retransmits_remaining s"
  "m_last_tx_attempts (wr f s) = m_last_tx_attempts s"
  "m_wait_for_ack_timeout_us (wr f s) = m_wait_for_ack_timeout_us s"
  "on_radio_disabled (wr f s) = on_radio_disabled s"
  "update_rf_payload_format_fn (wr f s) = update_rf_payload_format_fn s"
  "m_event_handler (wr f s) = m_event_handler s"
  "radio (wr f s) = f (radio s)"
  "periph (wr f s) = periph s"
  by (simp_all add: wr_def)

lemma wp_sel [simp]:
  "m_esb_initialized (wp f s) = m_esb_initialized s"
  "m_nrf_esb_mainstate (wp f s) = m_nrf_esb_mainstate s"
  "mp_current_payload (wp f s) = mp_current_payload s"
  "m_esb_addr (wp f s) = m_esb_addr s"
  "m_config_local (wp f s) = m_config_local s"
  "m_tx_fifo (wp f s) = m_tx_fifo s"
  "m_rx_fifo (wp f s) = m_rx_fifo s"
  "m_tx_payload_buffer (wp f s) = m_tx_payload_buffer s"
  "m_rx_payload_buffer (wp f s) = m_rx_payload_buffer s"
  "m_interrupt_flags (wp f s) = m_interrupt_flags s"
  "m_pids (wp f s) = m_pids s"
  "m_rx_pipe_info (wp f s) = m_rx_pipe_info s"
  "m_retransmits_remaining (wp f s) = m_retransmits_remaining s"
  "m_last_tx_attempts (wp f s) = m_last_tx_attempts s"
  "m_wait_for_ack_timeout_us (wp f s) = m_wait_for_ack_timeout_us s"
  "on_radio_disabled (wp f s) = on_radio_disabled s"
  "update_rf_payload_format_fn (wp f s) = update_rf_payload_format_fn s"
  "m_event_handler (wp f s) = m_event_handler s"
  "radio (wp f s) = radio s"
  "periph (wp f s) = f (periph s)"
  by (simp_all add: wp_def)

text \<open>Updates of the module's variables commute with register writes; they move inwards.\<close>

lemma wr_wp_upd [simp]:
  "(wp g s)\<lparr>m_esb_initialized := x0\<rparr> = wp g (s\<lparr>m_esb_initialized := x0\<rparr>)"
  "(wr h s)\<lparr>m_esb_initialized := x0\<rparr> = wr h (s\<lparr>m_esb_initialized := x0\<rparr>)"
  "(wp g s)\<lparr>m_nrf_esb_mainstate := x1\<rparr> = wp g (s\<lparr>m_nrf_esb_mainstate := x1\<rparr>)"
  "(wr h s)\<lparr>m_nrf_esb_mainstate := x1\<rparr> = wr h (s\<lparr>m_nrf_esb_mainstate := x1\<rparr>)"
  "(wp g s)\<lparr>mp_current_payload := x2\<rparr> = wp g (s\<lparr>mp_current_payload := x2\<rparr>)"
  "(wr h s)\<lparr>mp_current_payload := x2\<rparr> = wr h (s\<lparr>mp_current_payload := x2\<rparr>)"
  "(wp g s)\<lparr>m_esb_addr := x3\<rparr> = wp g (s\<lparr>m_esb_addr := x3\<rparr>)"
  "(wr h s)\<lparr>m_esb_addr := x3\<rparr> = wr h (s\<lparr>m_esb_addr := x3\<rparr>)"
  "(wp g s)\<lparr>m_config_local := x4\<rparr> = wp g (s\<lparr>m_config_local := x4\<rparr>)"
  "(wr h s)\<lparr>m_config_local := x4\<rparr> = wr h (s\<lparr>m_config_local := x4\<rparr>)"
  "(wp g s)\<lparr>m_tx_fifo := x5\<rparr> = wp g (s\<lparr>m_tx_fifo := x5\<rparr>)"
  "(wr h s)\<lparr>m_tx_fifo := x5\<rparr> = wr h (s\<lparr>m_tx_fifo := x5\<rparr>)"
  "(wp g s)\<lparr>m_rx_fifo := x6\<rparr> = wp g (s\<lparr>m_rx_fifo := x6\<rparr>)"
  "(wr h s)\<lparr>m_rx_fifo := x6\<rparr> = wr h (s\<lparr>m_rx_fifo := x6\<rparr>)"
  "(wp g s)\<lparr>m_tx_payload_buffer := x7\<rparr> = wp g (s\<lparr>m_tx_payload_buffer := x7\<rparr>)"
  "(wr h s)\<lparr>m_tx_payload_buffer := x7\<rparr> = wr h (s\<lparr>m_tx_payload_buffer := x7\<rparr>)"
  "(wp g s)\<lparr>m_rx_payload_buffer := x8\<rparr> = wp g (s\<lparr>m_rx_payload_buffer := x8\<rparr>)"
  "(wr h s)\<lparr>m_rx_payload_buffer := x8\<rparr> = wr h (s\<lparr>m_rx_payload_buffer := x8\<rparr>)"
  "(wp g s)\<lparr>m_interrupt_flags := x9\<rparr> = wp g (s\<lparr>m_interrupt_flags := x9\<rparr>)"
  "(wr h s)\<lparr>m_interrupt_flags := x9\<rparr> = wr h (s\<lparr>m_interrupt_flags := x9\<rparr>)"
  "(wp g s)\<lparr>m_pids := x10\<rparr> = wp g (s\<lparr>m_pids := x10\<rparr>)"
  "(wr h s)\<lparr>m_pids := x10\<rparr> = wr h (s\<lparr>m_pids := x10\<rparr>)"
  "(wp g s)\<lparr>m_rx_pipe_info := x11\<rparr> = wp g (s\<lparr>m_rx_pipe_info := x11\<rparr>)"
  "(wr h s)\<lparr>m_rx_pipe_info := x11\<rparr> = wr h (s\<lparr>m_rx_pipe_info := x11\<rparr>)"
  "(wp g s)\<lparr>m_retransmits_remaining := x12\<rparr> = wp g (s\<lparr>m_retransmits_remaining := x12\<rparr>)"
  "(wr h s)\<lparr>m_retransmits_remaining := x12\<rparr> = wr h (s\<lparr>m_retransmits_remaining := x12\<rparr>)"
  "(wp g s)\<lparr>m_last_tx_attempts := x13\<rparr> = wp g (s\<lparr>m_last_tx_attempts := x13\<rparr>)"
  "(wr h s)\<lparr>m_last_tx_attempts := x13\<rparr> = wr h (s\<lparr>m_last_tx_attempts := x13\<rparr>)"
  "(wp g s)\<lparr>m_wait_for_ack_timeout_us := x14\<rparr> = wp g (s\<lparr>m_wait_for_ack_timeout_us := x14\<rparr>)"
  "(wr h s)\<lparr>m_wait_for_ack_timeout_us := x14\<rparr> = wr h (s\<lparr>m_wait_for_ack_timeout_us := x14\<rparr>)"
  "(wp g s)\<lparr>on_radio_disabled := x15\<rparr> = wp g (s\<lparr>on_radio_disabled := x15\<rparr>)"
  "(wr h s)\<lparr>on_radio_disabled := x15\<rparr> = wr h (s\<lparr>on_radio_disabled := x15\<rparr>)"
  "(wp g s)\<lparr>update_rf_payload_format_fn := x16\<rparr> = wp g (s\<lparr>update_rf_payload_format_fn := x16\<rparr>)"
  "(wr h s)\<lparr>update_rf_payload_format_fn := x16\<rparr> = wr h (s\<lparr>update_rf_payload_format_fn := x16\<rparr>)"
  "(wp g s)\<lparr>m_event_handler := x17\<rparr> = wp g (s\<lparr>m_event_handler := x17\<rparr>)"
  "(wr h s)\<lparr>m_event_handler := x17\<rparr> = wr h (s\<lparr>m_event_handler := x17\<rparr>)"
  by (simp_all add: wr_def wp_def)

section \<open>The state at reset\<close>

definition payload_zero :: nrf_esb_payload_t where
  "payload_zero = \<lparr>pl_length = 0, pl_pipe = 0, pl_rssi = 0, pl_noack = 0, pl_pid = 0,
     pl_data = replicate NRF_ESB_MAX_PAYLOAD_LENGTH 0\<rparr>"

definition config_zero :: nrf_esb_config_t where
  "config_zero =
     \<lparr>cf_protocol = NRF_ESB_PROTOCOL_ESB, cf_mode = NRF_ESB_MODE_PTX,
      cf_event_handler = False, cf_bitrate = NRF_ESB_BITRATE_1MBPS, cf_crc = NRF_ESB_CRC_OFF,
      cf_tx_output_power = NRF_ESB_TX_POWER_0DBM, cf_retransmit_delay = 0,
      cf_retransmit_count = 0, cf_tx_mode = NRF_ESB_TXMODE_AUTO, cf_radio_irq_priority = 0,
      cf_event_irq_priority = 0, cf_payload_length = 0, cf_selective_auto_ack = False\<rparr>"

text \<open>Static variables start at their initialisers, the others at zero; the registers are arbitrary.\<close>

definition esb_reset :: "radio_regs \<Rightarrow> periph_regs \<Rightarrow> esb" where
  "esb_reset r p =
     \<lparr>m_esb_initialized = False, m_nrf_esb_mainstate = NRF_ESB_STATE_IDLE,
      mp_current_payload = None, m_event_handler = False,
      m_esb_addr = NRF_ESB_ADDR_DEFAULT, m_config_local = config_zero,
      m_tx_fifo = \<lparr>p_payload = replicate NRF_ESB_TX_FIFO_SIZE payload_zero,
                   entry_point = 0, exit_point = 0, count = 0\<rparr>,
      m_rx_fifo = \<lparr>p_payload = replicate NRF_ESB_RX_FIFO_SIZE payload_zero,
                   entry_point = 0, exit_point = 0, count = 0\<rparr>,
      m_tx_payload_buffer = replicate (NRF_ESB_MAX_PAYLOAD_LENGTH + 2) 0,
      m_rx_payload_buffer = replicate (NRF_ESB_MAX_PAYLOAD_LENGTH + 2) 0,
      m_interrupt_flags = 0,
      m_pids = replicate NRF_ESB_PIPE_COUNT 0,
      m_rx_pipe_info = replicate NRF_ESB_PIPE_COUNT pipe_info_zero,
      m_retransmits_remaining = 0, m_last_tx_attempts = 0, m_wait_for_ack_timeout_us = 0,
      on_radio_disabled = No_handler, update_rf_payload_format_fn = None,
      radio = r, periph = p\<rparr>"

end
