(* ===== verification/EsbFifo.thy ===== *)
theory EsbFifo
  imports EsbTypes
begin

text \<open>
  The payload FIFOs of nrf_esb.c. \<open>fifo_push\<close> and \<open>fifo_pop\<close> are the two index updates the
  module's functions share (write the slot at \<open>entry_point\<close> and advance it; advance \<open>exit_point\<close>).
  The abstract queue is \<open>fifo_contents\<close>, the \<open>count\<close> payloads from \<open>exit_point\<close> on. The interface
  \<open>bounded_queue\<close> is interpreted on them.
\<close>

section \<open>Operations\<close>

text \<open>\<open>if (++i >= SIZE) i = 0;\<close>\<close>

definition fifo_next :: "nat \<Rightarrow> nat" where
  "fifo_next i = (if Suc i \<ge> NRF_ESB_TX_FIFO_SIZE then 0 else Suc i)"

definition fifo_push :: "nrf_esb_payload_t \<Rightarrow> nrf_esb_payload_fifo_t \<Rightarrow> nrf_esb_payload_fifo_t" where
  "fifo_push x f = f\<lparr>p_payload := (p_payload f)[entry_point f := x],
                     entry_point := fifo_next (entry_point f), count := count f + 1\<rparr>"

definition fifo_pop :: "nrf_esb_payload_fifo_t \<Rightarrow> nrf_esb_payload_fifo_t" where
  "fifo_pop f = f\<lparr>exit_point := fifo_next (exit_point f), count := count f - 1\<rparr>"

definition fifo_head :: "nrf_esb_payload_fifo_t \<Rightarrow> nrf_esb_payload_t" where
  "fifo_head f = p_payload f ! exit_point f"

definition fifo_clear :: "nrf_esb_payload_fifo_t \<Rightarrow> nrf_esb_payload_fifo_t" where
  "fifo_clear f = f\<lparr>entry_point := 0, exit_point := 0, count := 0\<rparr>"

definition reset_fifos :: "esb \<Rightarrow> esb" where
  "reset_fifos s = s\<lparr>m_tx_fifo := fifo_clear (m_tx_fifo s), m_rx_fifo := fifo_clear (m_rx_fifo s)\<rparr>"

text \<open>The loops only make \<open>p_payload[i]\<close> point to the \<open>i\<close>-th payload, which the model has built in.\<close>

definition initialize_fifos :: "esb \<Rightarrow> esb" where
  "initialize_fifos s = reset_fifos s"

definition tx_fifo_remove_last :: "esb \<Rightarrow> esb" where
  "tx_fifo_remove_last s =
     (if count (m_tx_fifo s) > 0
      then (let s1 = DISABLE_RF_IRQ s;
                s2 = s1\<lparr>m_tx_fifo := fifo_pop (m_tx_fifo s1)\<rparr>
            in ENABLE_RF_IRQ s2)
      else s)"

section \<open>Invariants\<close>

text \<open>Bounds that every operation keeps, \<open>nrf_esb_pop_tx\<close> included.\<close>

definition fifo_bounds :: "nrf_esb_payload_fifo_t \<Rightarrow> bool" where
  "fifo_bounds f \<longleftrightarrow> length (p_payload f) = NRF_ESB_TX_FIFO_SIZE \<and>
     entry_point f < NRF_ESB_TX_FIFO_SIZE \<and> exit_point f < NRF_ESB_TX_FIFO_SIZE \<and>
     count f \<le> NRF_ESB_TX_FIFO_SIZE"

text \<open>The bounds, and the counters agree: \<open>entry_point\<close> is \<open>count\<close> slots after \<open>exit_point\<close>.\<close>

definition fifo_inv :: "nrf_esb_payload_fifo_t \<Rightarrow> bool" where
  "fifo_inv f \<longleftrightarrow> fifo_bounds f \<and>
     entry_point f = (exit_point f + count f) mod NRF_ESB_TX_FIFO_SIZE"

definition fifo_contents :: "nrf_esb_payload_fifo_t \<Rightarrow> nrf_esb_payload_t list" where
  "fifo_contents f = ring_slice (p_payload f) (exit_point f) (count f)"

lemma length_fifo_contents [simp]: "length (fifo_contents f) = count f"
  by (simp add: fifo_contents_def)

lemma fifo_contents_Nil_iff [simp]: "fifo_contents f = [] \<longleftrightarrow> count f = 0"
  by (simp add: fifo_contents_def)

lemma fifo_next_less [simp]: "fifo_next i < NRF_ESB_TX_FIFO_SIZE"
  by (simp add: fifo_next_def)

lemma fifo_next_mod: "i < NRF_ESB_TX_FIFO_SIZE \<Longrightarrow> fifo_next i = Suc i mod NRF_ESB_TX_FIFO_SIZE"
  unfolding fifo_next_def by (rule wrap_index_mod)

lemma fifo_bounds_inv: "fifo_inv f \<Longrightarrow> fifo_bounds f"
  by (simp add: fifo_inv_def)

lemma fifo_bounds_push:
  "fifo_bounds f \<Longrightarrow> count f < NRF_ESB_TX_FIFO_SIZE \<Longrightarrow> fifo_bounds (fifo_push x f)"
  using fifo_next_less by (auto simp: fifo_bounds_def fifo_push_def simp del: esb_sizes)

lemma fifo_bounds_pop: "fifo_bounds f \<Longrightarrow> fifo_bounds (fifo_pop f)"
  using fifo_next_less by (auto simp: fifo_bounds_def fifo_pop_def simp del: esb_sizes)

lemma fifo_bounds_clear: "fifo_bounds f \<Longrightarrow> fifo_bounds (fifo_clear f)"
  by (simp add: fifo_bounds_def fifo_clear_def)

lemma fifo_inv_push:
  assumes "fifo_inv f" and "count f < NRF_ESB_TX_FIFO_SIZE"
  shows "fifo_inv (fifo_push x f)"
  using assms fifo_bounds_push [of f x] fifo_next_mod [of "entry_point f"]
  by (auto simp: fifo_inv_def fifo_bounds_def fifo_push_def mod_simps)

lemma fifo_inv_pop:
  assumes "fifo_inv f" and "0 < count f"
  shows "fifo_inv (fifo_pop f)"
proof -
  obtain c where "count f = Suc c" using assms(2) by (cases "count f") auto
  then have "(Suc (exit_point f) mod 8 + (count f - 1)) mod 8 = (exit_point f + count f) mod 8"
    by (simp add: mod_simps)
  then show ?thesis
    using assms fifo_bounds_pop [of f] fifo_next_mod [of "exit_point f"]
    by (auto simp: fifo_inv_def fifo_bounds_def fifo_pop_def)
qed

lemma fifo_inv_clear: "fifo_bounds f \<Longrightarrow> fifo_inv (fifo_clear f)"
  by (simp add: fifo_inv_def fifo_bounds_def fifo_clear_def)

lemma fifo_contents_clear [simp]: "fifo_contents (fifo_clear f) = []"
  by (simp add: fifo_clear_def)

lemma fifo_contents_push:
  assumes "fifo_inv f" and "count f < NRF_ESB_TX_FIFO_SIZE"
  shows "fifo_contents (fifo_push x f) = fifo_contents f @ [x]"
  using assms ring_slice_snoc [of "count f" "p_payload f" "exit_point f" x]
  by (simp add: fifo_inv_def fifo_bounds_def fifo_push_def fifo_contents_def)

lemma fifo_contents_pop:
  assumes "fifo_inv f" and "0 < count f"
  shows "fifo_contents (fifo_pop f) = tl (fifo_contents f)"
  using assms ring_slice_tl [of "count f" "p_payload f" "exit_point f"]
    fifo_next_mod [of "exit_point f"]
  by (simp add: fifo_inv_def fifo_bounds_def fifo_pop_def fifo_contents_def)

lemma fifo_head_contents:
  assumes "fifo_inv f" and "0 < count f"
  shows "fifo_head f = hd (fifo_contents f)"
  using assms ring_slice_hd [of "count f" "p_payload f" "exit_point f"]
  by (simp add: fifo_inv_def fifo_bounds_def fifo_head_def fifo_contents_def)

lemma fifo_count_le: "fifo_inv f \<Longrightarrow> count f \<le> NRF_ESB_TX_FIFO_SIZE"
  by (simp add: fifo_inv_def fifo_bounds_def)

interpretation esb_fifo: bounded_queue fifo_inv fifo_contents "\<lambda>_. NRF_ESB_TX_FIFO_SIZE"
  fifo_push fifo_pop fifo_head
  using fifo_count_le
  by unfold_locales
    (auto simp: fifo_inv_push fifo_inv_pop fifo_contents_push fifo_contents_pop fifo_head_contents)

lemmas fifo_lemmas = fifo_bounds_push fifo_bounds_pop fifo_bounds_clear fifo_inv_push fifo_inv_pop
  fifo_inv_clear fifo_contents_push fifo_contents_pop fifo_head_contents

lemma tx_fifo_remove_last_fifo:
  "m_tx_fifo (tx_fifo_remove_last s) =
     (if count (m_tx_fifo s) > 0 then fifo_pop (m_tx_fifo s) else m_tx_fifo s)"
  by (simp add: tx_fifo_remove_last_def Let_def esb_writes)

end
