(* ===== verification/EsbRadio.thy ===== *)
theory EsbRadio
  imports EsbFifo
begin

text \<open>
  Radio configuration of nrf_esb.c: address conversion between the nRF24L and the nRF5
  bit order, packet format, transmission power, bit rate, protocol and CRC registers, and the
  timer and PPI set-up. The lemmas give the conversion its meaning (a reversal of all 32 bits, the
  same on both branches of the conditional compilation) and the frame rules of the register
  writes.
\<close>

unbundle bit_operations_syntax

section \<open>Addresses\<close>

text \<open>Reading four bytes as a little-endian 32-bit value: \<open>*(uint32_t*)p_inp\<close>.\<close>

definition le_word :: "u8 \<Rightarrow> u8 \<Rightarrow> u8 \<Rightarrow> u8 \<Rightarrow> u32" where
  "le_word b0 b1 b2 b3 = ucast b0 OR push_bit 8 (ucast b1) OR push_bit 16 (ucast b2)
     OR push_bit 24 (ucast b3)"

definition load_u32 :: "u8 list \<Rightarrow> nat \<Rightarrow> u32 result" where
  "load_u32 bs i =
     (if i + 3 < length bs then Inr (le_word (bs ! i) (bs ! (i + 1)) (bs ! (i + 2)) (bs ! (i + 3)))
      else Inl Out_Of_Bounds)"

text \<open>The CMSIS intrinsics: byte reversal and bit reversal.\<close>

definition REV :: "u32 \<Rightarrow> u32" where
  "REV w = push_bit 24 (w AND 0xFF) OR push_bit 8 (w AND 0xFF00) OR drop_bit 8 (w AND 0xFF0000)
     OR drop_bit 24 (w AND 0xFF000000)"

definition RBIT :: "u32 \<Rightarrow> u32" where
  "RBIT w = word_reverse w"

definition swap_bits :: "u32 \<Rightarrow> u32" where
  "swap_bits inp0 =
     (let inp1 = drop_bit 4 (inp0 AND 0xF0F0F0F0) OR push_bit 4 (inp0 AND 0x0F0F0F0F);
          inp2 = drop_bit 2 (inp1 AND 0xCCCCCCCC) OR push_bit 2 (inp1 AND 0x33333333)
      in drop_bit 1 (inp2 AND 0xAAAAAAAA) OR push_bit 1 (inp2 AND 0x55555555))"

text \<open>The branch taken on a Cortex-M4.\<close>

definition swap_bits_m4 :: "u32 \<Rightarrow> u32" where
  "swap_bits_m4 inp = REV (RBIT inp)"

definition bytewise_bit_swap :: "u8 list \<Rightarrow> nat \<Rightarrow> u32 result" where
  "bytewise_bit_swap bs i = then_do (load_u32 bs i) (\<lambda>inp. Inr (swap_bits inp))"

definition addr_conv :: "u8 list \<Rightarrow> u32 result" where
  "addr_conv p_addr = then_do (bytewise_bit_swap p_addr 0) (\<lambda>w. Inr (REV w))"

lemma ok_load_u32 [simp, ok_rules]:
  "ok (load_u32 bs i) P \<longleftrightarrow>
     i + 3 < length bs \<and> P (le_word (bs ! i) (bs ! (i + 1)) (bs ! (i + 2)) (bs ! (i + 3)))"
  by (simp add: load_u32_def)

lemma ok_bytewise_bit_swap [simp, ok_rules]:
  "ok (bytewise_bit_swap bs i) P \<longleftrightarrow>
     i + 3 < length bs \<and>
     P (swap_bits (le_word (bs ! i) (bs ! (i + 1)) (bs ! (i + 2)) (bs ! (i + 3))))"
  by (simp add: bytewise_bit_swap_def)

lemma ok_addr_conv [simp, ok_rules]:
  "ok (addr_conv bs) P \<longleftrightarrow>
     3 < length bs \<and> P (REV (swap_bits (le_word (bs ! 0) (bs ! 1) (bs ! 2) (bs ! 3))))"
  by (simp add: addr_conv_def numeral_2_eq_2 numeral_3_eq_3)

text \<open>Bit by bit, a word of 32 bits is compared by 32 instances.\<close>

lemma u32_eq_bits:
  assumes "list_all (\<lambda>i. bit a i = bit b i)
    [0, 1, 2, 3, 4, 5, 6, 7, 8, 9, 10, 11, 12, 13, 14, 15,
     16, 17, 18, 19, 20, 21, 22, 23, 24, 25, 26, 27, 28, 29, 30, 31]"
  shows "(a :: u32) = b"
proof (rule bit_word_eqI)
  fix i assume "i < LENGTH(32)"
  then have "i \<in> set [0..<32]" by simp
  moreover have "[0..<32] = [0, 1, 2, 3, 4, 5, 6, 7, 8, 9, 10, 11, 12, 13, 14, 15,
     16, 17, 18, 19, 20, 21, 22, 23, 24, 25, 26, 27, 28, 29, 30, 31]" by (simp add: upt_rec)
  ultimately show "bit a i = bit b i" using assms by (simp only: list_all_iff)
qed

lemma bit_word_reverse_u32: "i < 32 \<Longrightarrow> bit (word_reverse (w :: u32)) i = bit w (31 - i)"
  by (simp add: word_reverse_def bit_horner_sum_bit_iff rev_nth)

lemmas bit_step = bit_or_iff bit_and_iff bit_push_bit_iff bit_drop_bit_eq comp_def

lemma REV_swap_bits: "REV (swap_bits w) = RBIT w"
  by (rule u32_eq_bits, unfold REV_def swap_bits_def Let_def bit_step)
    (simp add: RBIT_def bit_word_reverse_u32)

lemma REV_REV: "REV (REV w) = w"
  by (rule u32_eq_bits) (simp add: REV_def bit_simps)

lemma swap_bits_m4_eq: "swap_bits w = swap_bits_m4 w"
  by (metis REV_REV REV_swap_bits swap_bits_m4_def)

lemma RBIT_RBIT: "RBIT (RBIT w) = w"
  by (rule u32_eq_bits) (simp add: RBIT_def bit_word_reverse_u32)


section \<open>Packet format\<close>

definition update_rf_payload_format_esb_dpl :: "u32 \<Rightarrow> esb \<Rightarrow> esb" where
  "update_rf_payload_format_esb_dpl payload_length s =
     wr (\<lambda>r. r\<lparr>PCNF0 := push_bit 8 0 OR push_bit 0 6 OR push_bit 16 3,
             PCNF1 := push_bit 25 0 OR push_bit 24 1
               OR push_bit 16 (ucast (addr_length (m_esb_addr s)) - 1)
               OR push_bit 8 0 OR push_bit 0 (of_nat NRF_ESB_MAX_PAYLOAD_LENGTH)\<rparr>) s"

definition update_rf_payload_format_esb :: "u32 \<Rightarrow> esb \<Rightarrow> esb" where
  "update_rf_payload_format_esb payload_length s =
     wr (\<lambda>r. r\<lparr>PCNF0 := push_bit 8 1 OR push_bit 0 0 OR push_bit 16 1,
             PCNF1 := push_bit 25 0 OR push_bit 24 1
               OR push_bit 16 (ucast (addr_length (m_esb_addr s)) - 1)
               OR push_bit 8 payload_length OR push_bit 0 payload_length\<rparr>) s"

text \<open>The call through the function pointer \<open>update_rf_payload_format\<close>, null until the first \<open>nrf_esb_init\<close>.\<close>

definition update_rf_payload_format :: "u32 \<Rightarrow> esb \<Rightarrow> esb result" where
  "update_rf_payload_format payload_length s =
     (case update_rf_payload_format_fn s of
        None \<Rightarrow> Inl Null_Deref
      | Some NRF_ESB_PROTOCOL_ESB_DPL \<Rightarrow> Inr (update_rf_payload_format_esb_dpl payload_length s)
      | Some NRF_ESB_PROTOCOL_ESB \<Rightarrow> Inr (update_rf_payload_format_esb payload_length s))"

text \<open>The two registers the call writes, as values.\<close>

definition pcnf_regs :: "nrf_esb_protocol_t \<Rightarrow> u8 \<Rightarrow> u32 \<Rightarrow> radio_regs \<Rightarrow> radio_regs" where
  "pcnf_regs proto alen n r =
     (case proto of
        NRF_ESB_PROTOCOL_ESB_DPL \<Rightarrow>
          r\<lparr>PCNF0 := 0x30006, PCNF1 := 0x1000000 OR push_bit 16 (ucast alen - 1) OR 32\<rparr>
      | NRF_ESB_PROTOCOL_ESB \<Rightarrow>
          r\<lparr>PCNF0 := 0x10100,
            PCNF1 := 0x1000000 OR push_bit 16 (ucast alen - 1) OR push_bit 8 n OR n\<rparr>)"

lemma update_rf_payload_format_eq:
  "update_rf_payload_format n s =
     (case update_rf_payload_format_fn s of
        None \<Rightarrow> Inl Null_Deref
      | Some p \<Rightarrow> Inr (wr (pcnf_regs p (addr_length (m_esb_addr s)) n) s))"
  by (auto simp: update_rf_payload_format_def update_rf_payload_format_esb_dpl_def
      update_rf_payload_format_esb_def pcnf_regs_def wr_def push_bit_eq_mult
      split: option.splits nrf_esb_protocol_t.splits)

lemma ok_update_rf_payload_format [simp, ok_rules]:
  "ok (update_rf_payload_format n s) P \<longleftrightarrow>
     (\<exists>p. update_rf_payload_format_fn s = Some p \<and>
          P (wr (pcnf_regs p (addr_length (m_esb_addr s)) n) s))"
  by (auto simp: update_rf_payload_format_eq split: option.splits)

lemma pcnf_regs_frame [simp]:
  "SHORTS (pcnf_regs p a n r) = SHORTS r"
  "INTEN (pcnf_regs p a n r) = INTEN r"
  "PACKETPTR (pcnf_regs p a n r) = PACKETPTR r"
  "TXADDRESS (pcnf_regs p a n r) = TXADDRESS r"
  "RXMATCH (pcnf_regs p a n r) = RXMATCH r"
  "RXCRC (pcnf_regs p a n r) = RXCRC r"
  "CRCSTATUS (pcnf_regs p a n r) = CRCSTATUS r"
  "RSSISAMPLE (pcnf_regs p a n r) = RSSISAMPLE r"
  "FREQUENCY (pcnf_regs p a n r) = FREQUENCY r"
  "EVENTS_END (pcnf_regs p a n r) = EVENTS_END r"
  "EVENTS_READY (pcnf_regs p a n r) = EVENTS_READY r"
  "EVENTS_DISABLED (pcnf_regs p a n r) = EVENTS_DISABLED r"
  "RADIO_TASKS (pcnf_regs p a n r) = RADIO_TASKS r"
  "disabled_poll (pcnf_regs p a n r) = disabled_poll r"
  by (simp_all add: pcnf_regs_def split: nrf_esb_protocol_t.split)

section \<open>Addresses, power, bit rate, protocol and CRC\<close>

definition NRF_ESB_ADDR_UPDATE_MASK_BASE0 :: u8 where
  "NRF_ESB_ADDR_UPDATE_MASK_BASE0 = push_bit 0 1"
definition NRF_ESB_ADDR_UPDATE_MASK_BASE1 :: u8 where
  "NRF_ESB_ADDR_UPDATE_MASK_BASE1 = push_bit 1 1"
definition NRF_ESB_ADDR_UPDATE_MASK_PREFIX :: u8 where
  "NRF_ESB_ADDR_UPDATE_MASK_PREFIX = push_bit 2 1"

definition update_radio_addresses :: "u8 \<Rightarrow> esb \<Rightarrow> esb result" where
  "update_radio_addresses update_mask s0 =
     then_do (if update_mask AND NRF_ESB_ADDR_UPDATE_MASK_BASE0 \<noteq> 0
              then then_do (addr_conv (base_addr_p0 (m_esb_addr s0)))
                     (\<lambda>w. Inr (wr (\<lambda>r. r\<lparr>BASE0 := w\<rparr>) s0))
              else Inr s0) (\<lambda>s1.
     then_do (if update_mask AND NRF_ESB_ADDR_UPDATE_MASK_BASE1 \<noteq> 0
              then then_do (addr_conv (base_addr_p1 (m_esb_addr s1)))
                     (\<lambda>w. Inr (wr (\<lambda>r. r\<lparr>BASE1 := w\<rparr>) s1))
              else Inr s1) (\<lambda>s2.
     if update_mask AND NRF_ESB_ADDR_UPDATE_MASK_PREFIX \<noteq> 0
     then then_do (bytewise_bit_swap (pipe_prefixes (m_esb_addr s2)) 0) (\<lambda>w0.
          then_do (bytewise_bit_swap (pipe_prefixes (m_esb_addr s2)) 4) (\<lambda>w1.
            Inr (wr (\<lambda>r. r\<lparr>PREFIX0 := w0, PREFIX1 := w1\<rparr>) s2)))
     else Inr s2))"

definition update_radio_tx_power :: "esb \<Rightarrow> esb" where
  "update_radio_tx_power s =
     wr (\<lambda>r. r\<lparr>TXPOWER := push_bit 0 (tx_power_value (cf_tx_output_power (m_config_local s)))\<rparr>) s"

definition RX_WAIT_FOR_ACK_TIMEOUT_US :: "nrf_esb_bitrate_t \<Rightarrow> u32" where
  "RX_WAIT_FOR_ACK_TIMEOUT_US b =
     (case b of NRF_ESB_BITRATE_2MBPS \<Rightarrow> 48
      | NRF_ESB_BITRATE_1MBPS \<Rightarrow> 64
      | NRF_ESB_BITRATE_250KBPS \<Rightarrow> 250
      | NRF_ESB_BITRATE_1MBPS_BLE \<Rightarrow> 64)"

definition update_radio_bitrate :: "esb \<Rightarrow> esb" where
  "update_radio_bitrate s =
     (let b = cf_bitrate (m_config_local s)
      in (wr (\<lambda>r. r\<lparr>MODE := push_bit 0 (bitrate_value b)\<rparr>) s)
           \<lparr>m_wait_for_ack_timeout_us := RX_WAIT_FOR_ACK_TIMEOUT_US b\<rparr>)"

definition update_radio_protocol :: "esb \<Rightarrow> esb" where
  "update_radio_protocol s =
     (case cf_protocol (m_config_local s) of
        NRF_ESB_PROTOCOL_ESB_DPL \<Rightarrow> s\<lparr>update_rf_payload_format_fn := Some NRF_ESB_PROTOCOL_ESB_DPL\<rparr>
      | NRF_ESB_PROTOCOL_ESB \<Rightarrow> s\<lparr>update_rf_payload_format_fn := Some NRF_ESB_PROTOCOL_ESB\<rparr>)"

definition update_radio_crc :: "esb \<Rightarrow> esb" where
  "update_radio_crc s =
     (let c = cf_crc (m_config_local s);
          s1 = wr (\<lambda>r. r\<lparr>CRCCNF := push_bit 0 (crc_value c)\<rparr>) s
      in if crc_value c = 2 then wr (\<lambda>r. r\<lparr>CRCINIT := 0xFFFF, CRCPOLY := 0x11021\<rparr>) s1
         else if crc_value c = 1 then wr (\<lambda>r. r\<lparr>CRCINIT := 0xFF, CRCPOLY := 0x107\<rparr>) s1
         else s1)"

definition update_radio_parameters :: "esb \<Rightarrow> esb result" where
  "update_radio_parameters s =
     (let s1 = update_radio_tx_power s;
          s2 = update_radio_bitrate s1;
          s3 = update_radio_protocol s2;
          s4 = update_radio_crc s3
      in update_rf_payload_format (ucast (cf_payload_length (m_config_local s4))) s4)"

section \<open>Timer and PPI\<close>

definition sys_timer_init :: "esb \<Rightarrow> esb" where
  "sys_timer_init s =
     wp (\<lambda>p. p\<lparr>TIMER_PRESCALER := 4, TIMER_BITMODE := 0,
             TIMER_SHORTS := push_bit 1 1 OR push_bit 9 1\<rparr>) s"

definition ppi_init :: "esb \<Rightarrow> esb" where
  "ppi_init s =
     wp (\<lambda>p. p\<lparr>PPI_CH := (PPI_CH p)
       (NRF_ESB_PPI_TIMER_START := Some (EVENTS_RADIO_READY, PPI_TIMER_TASKS_START),
        NRF_ESB_PPI_TIMER_STOP := Some (EVENTS_RADIO_ADDRESS, PPI_TIMER_TASKS_STOP),
        NRF_ESB_PPI_RX_TIMEOUT := Some (EVENTS_TIMER_COMPARE0, PPI_RADIO_TASKS_DISABLE),
        NRF_ESB_PPI_TX_START := Some (EVENTS_TIMER_COMPARE1, PPI_RADIO_TASKS_TXEN))\<rparr>) s"

text \<open>The channel masks the handlers write to CHENSET and CHENCLR.\<close>

definition ppi_rx_channels :: u32 where
  "ppi_rx_channels = push_bit NRF_ESB_PPI_TIMER_START 1 OR push_bit NRF_ESB_PPI_RX_TIMEOUT 1
     OR push_bit NRF_ESB_PPI_TIMER_STOP 1"

definition ppi_tx_channel :: u32 where
  "ppi_tx_channel = push_bit NRF_ESB_PPI_TX_START 1"

definition ppi_all_channels :: u32 where
  "ppi_all_channels = push_bit NRF_ESB_PPI_TIMER_START 1 OR push_bit NRF_ESB_PPI_TIMER_STOP 1
     OR push_bit NRF_ESB_PPI_RX_TIMEOUT 1 OR push_bit NRF_ESB_PPI_TX_START 1"

end
