(* ===== verification/EsbTx.thy ===== *)
theory EsbTx
  imports EsbRadio
begin

text \<open>
  The primary transmitter (PTX) of nrf_esb.c: starting a transaction, and the three
  handlers of the radio's DISABLED event that drive it (transmission without acknowledgment,
  end of a transmission that waits for one, end of the receive window). Includes
  \<open>rx_fifo_push_rfbuf\<close>, which both the transmitter (acknowledgment payloads) and the receiver
  use.
\<close>

unbundle bit_operations_syntax

section \<open>The transmit buffer\<close>

text \<open>\<open>buf[0] = b0; buf[1] = b1; memcpy(&buf[2], data, n);\<close>\<close>

definition tx_buffer_set :: "u8 \<Rightarrow> u8 \<Rightarrow> u8 list \<Rightarrow> nat \<Rightarrow> esb \<Rightarrow> esb result" where
  "tx_buffer_set b0 b1 data n s =
     then_do (store_at (m_tx_payload_buffer s) 0 b0) (\<lambda>buf0.
     then_do (store_at buf0 1 b1) (\<lambda>buf1.
     then_do (memcpy buf1 2 data 0 n) (\<lambda>buf2.
     Inr (s\<lparr>m_tx_payload_buffer := buf2\<rparr>))))"

lemma ok_tx_buffer_set [simp, ok_rules]:
  "ok (tx_buffer_set b0 b1 data n s) P \<longleftrightarrow>
     2 + n \<le> length (m_tx_payload_buffer s) \<and> n \<le> length data \<and>
     P (s\<lparr>m_tx_payload_buffer :=
          [b0, b1] @ take n data @ drop (2 + n) (m_tx_payload_buffer s)\<rparr>)"
proof (cases "2 + n \<le> length (m_tx_payload_buffer s)")
  case True
  then obtain x y zs where "m_tx_payload_buffer s = x # y # zs"
    by (metis Suc_le_length_iff add_2_eq_Suc)
  then show ?thesis by (auto simp: tx_buffer_set_def)
next
  case False
  then show ?thesis by (auto simp: tx_buffer_set_def)
qed

section \<open>Receiving into the RX FIFO\<close>

text \<open>The length the received packet is given: \<open>None\<close> when the packet is refused.\<close>

definition rx_length :: "esb \<Rightarrow> u8 option" where
  "rx_length s =
     (if cf_protocol (m_config_local s) = NRF_ESB_PROTOCOL_ESB_DPL
      then (if unat (m_rx_payload_buffer s ! 0) > NRF_ESB_MAX_PAYLOAD_LENGTH then None
            else Some (m_rx_payload_buffer s ! 0))
      else if cf_mode (m_config_local s) = NRF_ESB_MODE_PTX then Some 0
      else Some (cf_payload_length (m_config_local s)))"

definition rx_fifo_push_rfbuf :: "u8 \<Rightarrow> u8 \<Rightarrow> esb \<Rightarrow> (bool \<times> esb) result" where
  "rx_fifo_push_rfbuf pipe pid s =
     (if count (m_rx_fifo s) < NRF_ESB_RX_FIFO_SIZE
      then (case rx_length s of
              None \<Rightarrow> Inr (False, s)
            | Some len \<Rightarrow>
                then_do (load_at (p_payload (m_rx_fifo s)) (entry_point (m_rx_fifo s))) (\<lambda>slot.
                then_do (memcpy (pl_data slot) 0 (m_rx_payload_buffer s) 2 (unat len)) (\<lambda>d.
                Inr (True, s\<lparr>m_rx_fifo :=
                  fifo_push (slot\<lparr>pl_length := len, pl_data := d, pl_pipe := pipe,
                               pl_rssi := ucast (RSSISAMPLE (radio s)), pl_pid := pid\<rparr>)
                    (m_rx_fifo s)\<rparr>))))
      else Inr (False, s))"

section \<open>Starting a transaction\<close>

definition payload_ack :: "nrf_esb_payload_t \<Rightarrow> esb \<Rightarrow> bool" where
  "payload_ack p s \<longleftrightarrow> pl_noack p = 0 \<or> \<not> cf_selective_auto_ack (m_config_local s)"

text \<open>Configuration shared by the two branches that wait for an acknowledgment.\<close>

definition start_tx_ack :: "esb \<Rightarrow> esb" where
  "start_tx_ack s =
     (wr (\<lambda>r. r\<lparr>SHORTS := RADIO_SHORTS_COMMON OR RADIO_SHORTS_DISABLED_RXEN_Msk,
              INTEN := INTEN r OR (RADIO_INTENSET_DISABLED_Msk OR RADIO_INTENSET_READY_Msk)\<rparr>) s)
       \<lparr>m_retransmits_remaining := ucast (cf_retransmit_count (m_config_local s)),
        on_radio_disabled := On_radio_disabled_tx,
        m_nrf_esb_mainstate := NRF_ESB_STATE_PTX_TX_ACK\<rparr>"

definition start_tx_noack :: "esb \<Rightarrow> esb" where
  "start_tx_noack s =
     (wr (\<lambda>r. r\<lparr>SHORTS := RADIO_SHORTS_COMMON, INTEN := INTEN r OR RADIO_INTENSET_DISABLED_Msk\<rparr>) s)
       \<lparr>on_radio_disabled := On_radio_disabled_tx_noack,
        m_nrf_esb_mainstate := NRF_ESB_STATE_PTX_TX\<rparr>"

definition start_tx_radio :: "nrf_esb_payload_t \<Rightarrow> esb \<Rightarrow> esb" where
  "start_tx_radio p s =
     wr (\<lambda>r. radio_task TASKS_TXEN (r\<lparr>EVENTS_ADDRESS := False, EVENTS_PAYLOAD := False,
                 EVENTS_DISABLED := False\<rparr>))
       (wp (\<lambda>q. q\<lparr>RADIO_IRQ_pending := False, RADIO_IRQ_enabled := True\<rparr>)
         (wr (\<lambda>r. r\<lparr>TXADDRESS := ucast (pl_pipe p), RXADDRESSES := push_bit (unat (pl_pipe p)) 1,
                   FREQUENCY := ucast (rf_channel (m_esb_addr s)), PACKETPTR := Tx_buffer\<rparr>) s))"

definition start_tx_transaction :: "esb \<Rightarrow> esb result" where
  "start_tx_transaction s0 =
     (let s1 = s0\<lparr>m_last_tx_attempts := 1,
                  mp_current_payload := Some (exit_point (m_tx_fifo s0))\<rparr>
      in then_do (load_at (p_payload (m_tx_fifo s1)) (exit_point (m_tx_fifo s1))) (\<lambda>p.
         then_do
           (case cf_protocol (m_config_local s1) of
              NRF_ESB_PROTOCOL_ESB \<Rightarrow>
                then_do (update_rf_payload_format (ucast (pl_length p)) s1) (\<lambda>s2.
                then_do (tx_buffer_set (pl_pid p) 0 (pl_data p) (unat (pl_length p)) s2) (\<lambda>s3.
                Inr (start_tx_ack s3)))
            | NRF_ESB_PROTOCOL_ESB_DPL \<Rightarrow>
                (let ack = payload_ack p s1
                 in then_do (tx_buffer_set (pl_length p)
                              (push_bit 1 (pl_pid p) OR (if ack then 0x00 else 0x01))
                              (pl_data p) (unat (pl_length p)) s1) (\<lambda>s2.
                    Inr (if ack then start_tx_ack s2 else start_tx_noack s2)))) (\<lambda>s4.
         Inr (start_tx_radio p s4))))"

section \<open>The radio's DISABLED event in transmitter states\<close>

definition on_radio_disabled_tx_noack :: "esb \<Rightarrow> esb result" where
  "on_radio_disabled_tx_noack s0 =
     (let s1 = tx_fifo_remove_last (raise_flag NRF_ESB_INT_TX_SUCCESS_MSK s0)
      in if count (m_tx_fifo s1) = 0
         then Inr (set_pending_evt_irq (s1\<lparr>m_nrf_esb_mainstate := NRF_ESB_STATE_IDLE\<rparr>))
         else start_tx_transaction (set_pending_evt_irq s1))"

definition on_radio_disabled_tx :: "esb \<Rightarrow> esb result" where
  "on_radio_disabled_tx s0 =
     (let s1 = wr (\<lambda>r. r\<lparr>SHORTS := RADIO_SHORTS_COMMON\<rparr>) s0;
          s2 = wp (\<lambda>p. timer_task TIMER_TASKS_CLEAR
                 (p\<lparr>TIMER_CC0 := m_wait_for_ack_timeout_us s1,
                    TIMER_CC1 := ucast (cf_retransmit_delay (m_config_local s1)) - 130\<rparr>)) s1;
          s3 = wp (\<lambda>p. chenclr ppi_tx_channel (chenset ppi_rx_channels
                 (p\<lparr>EVENTS_COMPARE0 := False, EVENTS_COMPARE1 := False\<rparr>))) s2;
          s4 = wr (\<lambda>r. r\<lparr>EVENTS_END := False\<rparr>) s3
      in then_do (if cf_protocol (m_config_local s4) = NRF_ESB_PROTOCOL_ESB
                  then update_rf_payload_format 0 s4 else Inr s4) (\<lambda>s5.
         Inr ((wr (\<lambda>r. r\<lparr>PACKETPTR := Rx_buffer\<rparr>) s5)
                \<lparr>on_radio_disabled := On_radio_disabled_tx_wait_for_ack,
                 m_nrf_esb_mainstate := NRF_ESB_STATE_PTX_RX_ACK\<rparr>)))"

text \<open>The three outcomes of the receive window: acknowledged, given up, to be sent again.\<close>

definition tx_ack_payload :: "esb \<Rightarrow> esb result" where
  "tx_ack_payload s =
     (if cf_protocol (m_config_local s) \<noteq> NRF_ESB_PROTOCOL_ESB \<and> 0 < m_rx_payload_buffer s ! 0
      then then_do (rx_fifo_push_rfbuf (ucast (TXADDRESS (radio s))) 0 s) (\<lambda>(pushed, s1).
           Inr (if pushed then raise_flag NRF_ESB_INT_RX_DATA_RECEIVED_MSK s1 else s1))
      else Inr s)"

definition tx_next :: "esb \<Rightarrow> esb result" where
  "tx_next s =
     (if count (m_tx_fifo s) = 0 \<or> cf_tx_mode (m_config_local s) = NRF_ESB_TXMODE_MANUAL
      then Inr (set_pending_evt_irq (s\<lparr>m_nrf_esb_mainstate := NRF_ESB_STATE_IDLE\<rparr>))
      else start_tx_transaction (set_pending_evt_irq s))"

definition tx_acknowledged :: "esb \<Rightarrow> esb result" where
  "tx_acknowledged s0 =
     (let s1 = raise_flag NRF_ESB_INT_TX_SUCCESS_MSK
                 (wp (\<lambda>p. chenclr ppi_tx_channel (timer_task TIMER_TASKS_STOP p)) s0);
          s2 = tx_fifo_remove_last (s1\<lparr>m_last_tx_attempts :=
                 ucast (cf_retransmit_count (m_config_local s1)) - m_retransmits_remaining s1 + 1\<rparr>)
      in then_do (tx_ack_payload s2) tx_next)"

definition tx_given_up :: "esb \<Rightarrow> esb" where
  "tx_given_up s0 =
     (let s1 = wp (\<lambda>p. chenclr ppi_tx_channel (timer_task TIMER_TASKS_STOP p)) s0;
          s2 = raise_flag NRF_ESB_INT_TX_FAILED_MSK
                 (s1\<lparr>m_last_tx_attempts := ucast (cf_retransmit_count (m_config_local s1)) + 1\<rparr>)
      in set_pending_evt_irq (s2\<lparr>m_nrf_esb_mainstate := NRF_ESB_STATE_IDLE\<rparr>))"

definition tx_retransmit :: "esb \<Rightarrow> esb result" where
  "tx_retransmit s0 =
     (let s1 = wr (\<lambda>r. r\<lparr>SHORTS := RADIO_SHORTS_COMMON OR RADIO_SHORTS_DISABLED_RXEN_Msk\<rparr>) s0
      in case mp_current_payload s1 of
           None \<Rightarrow> Inl Null_Deref
         | Some i \<Rightarrow>
             then_do (load_at (p_payload (m_tx_fifo s1)) i) (\<lambda>p.
             then_do (update_rf_payload_format (ucast (pl_length p)) s1) (\<lambda>s2.
             let s3 = (wr (\<lambda>r. r\<lparr>PACKETPTR := Tx_buffer\<rparr>) s2)
                        \<lparr>on_radio_disabled := On_radio_disabled_tx,
                         m_nrf_esb_mainstate := NRF_ESB_STATE_PTX_TX_ACK\<rparr>;
                 s4 = wp (\<lambda>q. chenset ppi_tx_channel (timer_task TIMER_TASKS_START q)) s3
             in Inr (if EVENTS_COMPARE1 (periph s4) then wr (radio_task TASKS_TXEN) s4 else s4))))"

definition on_radio_disabled_tx_wait_for_ack :: "esb \<Rightarrow> esb result" where
  "on_radio_disabled_tx_wait_for_ack s0 =
     (let s1 = wp (chenclr ppi_rx_channels) s0
      in if EVENTS_END (radio s1) \<and> CRCSTATUS (radio s1) \<noteq> 0
         then tx_acknowledged s1
         else (let remaining = m_retransmits_remaining s1;
                   s2 = s1\<lparr>m_retransmits_remaining := remaining - 1\<rparr>
               in if remaining = 0 then Inr (tx_given_up s2) else tx_retransmit s2))"

end
