(* ===== verification/EsbRx.thy ===== *)
theory EsbRx
  imports EsbTx
begin

text \<open>
  The primary receiver (PRX) of nrf_esb.c: the handler of the DISABLED event after a packet
  (duplicate detection, acknowledgment with or without payload, delivery to the RX FIFO), the handler
  after an acknowledgment, and the interrupt handler that dispatches the events.
\<close>

unbundle bit_operations_syntax

section \<open>Restarting the receiver\<close>

definition clear_events_restart_rx :: "esb \<Rightarrow> esb result" where
  "clear_events_restart_rx s0 =
     (let s1 = wr (\<lambda>r. r\<lparr>SHORTS := RADIO_SHORTS_COMMON\<rparr>) s0
      in then_do (update_rf_payload_format (ucast (cf_payload_length (m_config_local s1))) s1) (\<lambda>s2.
         let s3 = wr (\<lambda>r. radio_task TASKS_DISABLE
                        (r\<lparr>PACKETPTR := Rx_buffer, EVENTS_DISABLED := False\<rparr>)) s2
         in then_do (wait_event (disabled_poll (radio s3))) (\<lambda>_.
            Inr (wr (\<lambda>r. radio_task TASKS_RXEN
                       (r\<lparr>EVENTS_DISABLED := False,
                          SHORTS := RADIO_SHORTS_COMMON OR RADIO_SHORTS_DISABLED_TXEN_Msk\<rparr>)) s3))))"

section \<open>A packet has been received\<close>

text \<open>Is the packet in the buffer the one the pipe saw last (same CRC and same packet ID)?\<close>

definition rx_is_retransmit :: "pipe_info_t \<Rightarrow> esb \<Rightarrow> bool" where
  "rx_is_retransmit pinfo s \<longleftrightarrow>
     RXCRC (radio s) = ucast (pi_crc pinfo) \<and> drop_bit 1 (m_rx_payload_buffer s ! 1) = pi_pid pinfo"

definition rx_wants_ack :: "esb \<Rightarrow> bool" where
  "rx_wants_ack s \<longleftrightarrow> \<not> cf_selective_auto_ack (m_config_local s) \<or> m_rx_payload_buffer s ! 1 AND 0x01 = 0"

text \<open>
  The acknowledgment of the dynamic protocol: with the payload at the head of the TX FIFO when that
  is meant for the pipe (the previous one is done when the pipe has shown a new packet), else empty.
\<close>

definition ack_payload_done :: "pipe_info_t \<Rightarrow> bool \<Rightarrow> esb \<Rightarrow> esb" where
  "ack_payload_done pinfo retransmit_payload s =
     (if pi_ack_payload pinfo \<and> \<not> retransmit_payload
      then raise_flag NRF_ESB_INT_TX_SUCCESS_MSK (s\<lparr>m_tx_fifo := fifo_pop (m_tx_fifo s)\<rparr>)
      else s)"

definition ack_with_payload :: "nat \<Rightarrow> pipe_info_t \<Rightarrow> esb \<Rightarrow> esb result" where
  "ack_with_payload pipe pinfo s0 =
     (let s1 = s0\<lparr>m_rx_pipe_info := (m_rx_pipe_info s0)[pipe := pinfo\<lparr>pi_ack_payload := True\<rparr>],
                 mp_current_payload := Some (exit_point (m_tx_fifo s0))\<rparr>
      in then_do (load_at (p_payload (m_tx_fifo s1)) (exit_point (m_tx_fifo s1))) (\<lambda>cur.
         then_do (update_rf_payload_format (ucast (pl_length cur)) s1) (\<lambda>s2.
         then_do (store_at (m_tx_payload_buffer s2) 0 (pl_length cur)) (\<lambda>buf0.
         then_do (memcpy buf0 2 (pl_data cur) 0 (unat (pl_length cur))) (\<lambda>buf2.
         Inr (s2\<lparr>m_tx_payload_buffer := buf2\<rparr>))))))"

definition ack_without_payload :: "nat \<Rightarrow> pipe_info_t \<Rightarrow> esb \<Rightarrow> esb result" where
  "ack_without_payload pipe pinfo s0 =
     (let s1 = s0\<lparr>m_rx_pipe_info := (m_rx_pipe_info s0)[pipe := pinfo\<lparr>pi_ack_payload := False\<rparr>]\<rparr>
      in then_do (update_rf_payload_format 0 s1) (\<lambda>s2.
         then_do (store_at (m_tx_payload_buffer s2) 0 0) (\<lambda>buf0.
         Inr (s2\<lparr>m_tx_payload_buffer := buf0\<rparr>))))"

definition rx_prepare_ack_dpl :: "nat \<Rightarrow> bool \<Rightarrow> esb \<Rightarrow> esb result" where
  "rx_prepare_ack_dpl pipe retransmit_payload s =
     then_do (load_at (m_rx_pipe_info s) pipe) (\<lambda>pinfo.
     then_do
       (if count (m_tx_fifo s) > 0 \<and> unat (pl_pipe (fifo_head (m_tx_fifo s))) = pipe
        then ack_with_payload pipe pinfo (ack_payload_done pinfo retransmit_payload s)
        else ack_without_payload pipe pinfo s) (\<lambda>s1.
     then_do (load_at (m_rx_payload_buffer s1) 1) (\<lambda>b1.
     then_do (store_at (m_tx_payload_buffer s1) 1 b1) (\<lambda>buf1.
     Inr (s1\<lparr>m_tx_payload_buffer := buf1\<rparr>)))))"

definition rx_prepare_ack_esb :: "esb \<Rightarrow> esb result" where
  "rx_prepare_ack_esb s =
     then_do (update_rf_payload_format 0 s) (\<lambda>s1.
     then_do (load_at (m_rx_payload_buffer s1) 0) (\<lambda>b0.
     then_do (store_at (m_tx_payload_buffer s1) 0 b0) (\<lambda>buf0.
     then_do (store_at buf0 1 0) (\<lambda>buf1.
     Inr (s1\<lparr>m_tx_payload_buffer := buf1\<rparr>)))))"

definition rx_send_ack :: "nat \<Rightarrow> bool \<Rightarrow> esb \<Rightarrow> esb result" where
  "rx_send_ack pipe retransmit_payload s0 =
     (let s1 = wr (\<lambda>r. r\<lparr>SHORTS := RADIO_SHORTS_COMMON OR RADIO_SHORTS_DISABLED_RXEN_Msk\<rparr>) s0
      in then_do (case cf_protocol (m_config_local s1) of
                    NRF_ESB_PROTOCOL_ESB_DPL \<Rightarrow> rx_prepare_ack_dpl pipe retransmit_payload s1
                  | NRF_ESB_PROTOCOL_ESB \<Rightarrow> rx_prepare_ack_esb s1) (\<lambda>s2.
         Inr ((wr (\<lambda>r. r\<lparr>TXADDRESS := RXMATCH r, PACKETPTR := Tx_buffer\<rparr>) s2)
                \<lparr>m_nrf_esb_mainstate := NRF_ESB_STATE_PRX_SEND_ACK,
                 on_radio_disabled := On_radio_disabled_rx_ack\<rparr>)))"

text \<open>The packet goes to the RX FIFO and, if it got in, a received event is raised.\<close>

definition rx_deliver :: "u8 \<Rightarrow> u8 \<Rightarrow> esb \<Rightarrow> esb result" where
  "rx_deliver pipe pid s =
     then_do (rx_fifo_push_rfbuf pipe pid s) (\<lambda>(pushed, s1).
       Inr (if pushed
            then set_pending_evt_irq (raise_flag NRF_ESB_INT_RX_DATA_RECEIVED_MSK s1)
            else s1))"

definition on_radio_disabled_rx :: "esb \<Rightarrow> esb result" where
  "on_radio_disabled_rx s0 =
     (if CRCSTATUS (radio s0) = 0 then clear_events_restart_rx s0
      else if count (m_rx_fifo s0) \<ge> NRF_ESB_RX_FIFO_SIZE then clear_events_restart_rx s0
      else
        (let pipe = unat (RXMATCH (radio s0)) in
         then_do (load_at (m_rx_pipe_info s0) pipe) (\<lambda>pinfo.
         let retransmit_payload = rx_is_retransmit pinfo s0;
             send_rx_event = \<not> retransmit_payload;
             pinfo1 = pinfo\<lparr>pi_pid := drop_bit 1 (m_rx_payload_buffer s0 ! 1),
                            pi_crc := ucast (RXCRC (radio s0))\<rparr>;
             s1 = s0\<lparr>m_rx_pipe_info := (m_rx_pipe_info s0)[pipe := pinfo1]\<rparr>
         in then_do (if rx_wants_ack s1 then rx_send_ack pipe retransmit_payload s1
                     else clear_events_restart_rx s1) (\<lambda>s2.
            if send_rx_event then rx_deliver (ucast (RXMATCH (radio s2))) (pi_pid pinfo1) s2
            else Inr s2))))"

definition on_radio_disabled_rx_ack :: "esb \<Rightarrow> esb result" where
  "on_radio_disabled_rx_ack s0 =
     (let s1 = wr (\<lambda>r. r\<lparr>SHORTS := RADIO_SHORTS_COMMON OR RADIO_SHORTS_DISABLED_TXEN_Msk\<rparr>) s0
      in then_do (update_rf_payload_format (ucast (cf_payload_length (m_config_local s1))) s1) (\<lambda>s2.
         Inr ((wr (\<lambda>r. r\<lparr>PACKETPTR := Rx_buffer\<rparr>) s2)
                \<lparr>on_radio_disabled := On_radio_disabled_rx,
                 m_nrf_esb_mainstate := NRF_ESB_STATE_PRX\<rparr>)))"

section \<open>The radio interrupt\<close>

definition call_on_radio_disabled :: "esb \<Rightarrow> esb result" where
  "call_on_radio_disabled s =
     (case on_radio_disabled s of
        No_handler \<Rightarrow> Inr s
      | On_radio_disabled_tx_noack \<Rightarrow> on_radio_disabled_tx_noack s
      | On_radio_disabled_tx \<Rightarrow> on_radio_disabled_tx s
      | On_radio_disabled_tx_wait_for_ack \<Rightarrow> on_radio_disabled_tx_wait_for_ack s
      | On_radio_disabled_rx \<Rightarrow> on_radio_disabled_rx s
      | On_radio_disabled_rx_ack \<Rightarrow> on_radio_disabled_rx_ack s)"

text \<open>
  \<open>on_radio_end\<close> is null throughout the module, so the END event is only cleared; the debug
  pins are off in the build.
\<close>

definition RADIO_IRQHandler :: "esb \<Rightarrow> esb result" where
  "RADIO_IRQHandler s0 =
     (let s1 = (if EVENTS_READY (radio s0) \<and> INTEN (radio s0) AND RADIO_INTENSET_READY_Msk \<noteq> 0
                then wr (\<lambda>r. r\<lparr>EVENTS_READY := False\<rparr>) s0 else s0);
          s2 = (if EVENTS_END (radio s1) \<and> INTEN (radio s1) AND RADIO_INTENSET_END_Msk \<noteq> 0
                then wr (\<lambda>r. r\<lparr>EVENTS_END := False\<rparr>) s1 else s1)
      in if EVENTS_DISABLED (radio s2) \<and> INTEN (radio s2) AND RADIO_INTENSET_DISABLED_Msk \<noteq> 0
         then call_on_radio_disabled (wr (\<lambda>r. r\<lparr>EVENTS_DISABLED := False\<rparr>) s2)
         else Inr s2)"

end
