(* ===== verification/EsbApi.thy ===== *)
theory EsbApi
  imports EsbRx
begin

text \<open>
  The public interface of nrf_esb.c, one definition per function: each takes the module
  state and its arguments and returns the return code with the new state. The event interrupt handler is
  generic in the application's state, because it calls the application's event handler.
\<close>

unbundle bit_operations_syntax

type_synonym 's api = "'s \<Rightarrow> (ret_code \<times> 's) result"

section \<open>Initialisation\<close>

definition nrf_esb_disable :: "esb api" where
  "nrf_esb_disable s0 =
     (let s1 = (wp (chenclr ppi_all_channels) s0)\<lparr>m_nrf_esb_mainstate := NRF_ESB_STATE_IDLE\<rparr>;
          s2 = (reset_fifos s1)
                 \<lparr>m_rx_pipe_info := replicate NRF_ESB_PIPE_COUNT pipe_info_zero,
                  m_pids := replicate NRF_ESB_PIPE_COUNT 0\<rparr>;
          s3 = wr (\<lambda>r. r\<lparr>SHORTS := push_bit 0 1 OR push_bit 1 1\<rparr>)
                 (wp (\<lambda>p. p\<lparr>ESB_EVT_IRQ_enabled := False\<rparr>) s2)
      in Inr (NRF_SUCCESS, s3))"

definition nrf_esb_init :: "nrf_esb_config_t option \<Rightarrow> esb api" where
  "nrf_esb_init p_config s0 =
     (case p_config of
        None \<Rightarrow> Inr (NRF_ERROR_NULL, s0)
      | Some config \<Rightarrow>
          then_do (if m_esb_initialized s0 then nrf_esb_disable s0 else Inr (NRF_SUCCESS, s0))
            (\<lambda>(err_code, s1).
          if err_code \<noteq> NRF_SUCCESS then Inr (err_code, s1)
          else
            (let s2 = s1\<lparr>m_event_handler := cf_event_handler config, m_config_local := config,
                        m_interrupt_flags := 0,
                        m_rx_pipe_info := replicate NRF_ESB_PIPE_COUNT pipe_info_zero,
                        m_pids := replicate NRF_ESB_PIPE_COUNT 0\<rparr>
             in then_do (update_radio_parameters s2) (\<lambda>s3.
                let s4 = ppi_init (sys_timer_init (initialize_fifos s3));
                    s5 = wp (\<lambda>p. p\<lparr>RADIO_IRQ_priority := cf_radio_irq_priority (m_config_local s4) AND 0x03,
                                 ESB_EVT_IRQ_priority := cf_event_irq_priority (m_config_local s4) AND 0x03,
                                 ESB_EVT_IRQ_enabled := True\<rparr>) s4
                in Inr (NRF_SUCCESS, s5\<lparr>m_nrf_esb_mainstate := NRF_ESB_STATE_IDLE,
                                        m_esb_initialized := True\<rparr>)))))"

definition nrf_esb_suspend :: "esb api" where
  "nrf_esb_suspend s0 =
     (if m_nrf_esb_mainstate s0 \<noteq> NRF_ESB_STATE_IDLE then Inr (NRF_ERROR_BUSY, s0)
      else Inr (NRF_SUCCESS,
                (wp (chenclr ppi_all_channels) s0)\<lparr>m_nrf_esb_mainstate := NRF_ESB_STATE_IDLE\<rparr>))"

definition nrf_esb_is_idle :: "esb \<Rightarrow> bool" where
  "nrf_esb_is_idle s \<longleftrightarrow> m_nrf_esb_mainstate s = NRF_ESB_STATE_IDLE"

section \<open>The event interrupt\<close>

definition nrf_esb_get_clear_interrupts :: "esb \<Rightarrow> (ret_code \<times> u32 option \<times> esb) result" where
  "nrf_esb_get_clear_interrupts s0 =
     (if \<not> m_esb_initialized s0 then Inr (NRF_ERROR_INVALID_STATE, None, s0)
      else (let s1 = DISABLE_RF_IRQ s0;
                interrupts = m_interrupt_flags s1;
                s2 = ENABLE_RF_IRQ (s1\<lparr>m_interrupt_flags := 0\<rparr>)
            in Inr (NRF_SUCCESS, Some interrupts, s2)))"

text \<open>
  \<open>get\<close> reads the module's state inside the application's state, and \<open>put\<close> replaces it; \<open>handler\<close> is
  the function \<open>m_event_handler\<close> points to, called once for each flag, in the order success, failure,
  reception. A pointer that became null between two calls is a null call.
\<close>

definition deliver_event ::
    "('s \<Rightarrow> esb) \<Rightarrow> (nrf_esb_evt_t \<Rightarrow> 's \<Rightarrow> 's result) \<Rightarrow> bool \<Rightarrow> nrf_esb_evt_t \<Rightarrow> 's \<Rightarrow> 's result" where
  "deliver_event get handler flagged evt a =
     (if \<not> flagged then Inr a
      else if m_event_handler (get a) then handler evt a
      else Inl Null_Deref)"

definition ESB_EVT_IRQHandler ::
    "('s \<Rightarrow> esb) \<Rightarrow> (esb \<Rightarrow> 's \<Rightarrow> 's) \<Rightarrow> (nrf_esb_evt_t \<Rightarrow> 's \<Rightarrow> 's result) \<Rightarrow> 's \<Rightarrow> 's result" where
  "ESB_EVT_IRQHandler get put handler a0 =
     (let attempts = m_last_tx_attempts (get a0)
      in then_do (nrf_esb_get_clear_interrupts (get a0)) (\<lambda>(err_code, flags, s1).
         let a1 = put s1 a0
         in case flags of
              None \<Rightarrow> Inr a1
            | Some interrupts \<Rightarrow>
                if err_code = NRF_SUCCESS \<and> m_event_handler (get a1)
                then then_do (deliver_event get handler
                       (interrupts AND NRF_ESB_INT_TX_SUCCESS_MSK \<noteq> 0)
                       \<lparr>evt_id = NRF_ESB_EVENT_TX_SUCCESS, tx_attempts = attempts\<rparr> a1) (\<lambda>a2.
                     then_do (deliver_event get handler
                       (interrupts AND NRF_ESB_INT_TX_FAILED_MSK \<noteq> 0)
                       \<lparr>evt_id = NRF_ESB_EVENT_TX_FAILED, tx_attempts = attempts\<rparr> a2) (\<lambda>a3.
                     deliver_event get handler
                       (interrupts AND NRF_ESB_INT_RX_DATA_RECEIVED_MSK \<noteq> 0)
                       \<lparr>evt_id = NRF_ESB_EVENT_RX_RECEIVED, tx_attempts = attempts\<rparr> a3))
                else Inr a1))"

section \<open>Sending and receiving\<close>

text \<open>\<open>VERIFY_PAYLOAD_LENGTH\<close>: the length is refused.\<close>

definition bad_payload_length :: "nrf_esb_payload_t \<Rightarrow> esb \<Rightarrow> bool" where
  "bad_payload_length p s \<longleftrightarrow>
     pl_length p = 0 \<or> unat (pl_length p) > NRF_ESB_MAX_PAYLOAD_LENGTH \<or>
     (cf_protocol (m_config_local s) = NRF_ESB_PROTOCOL_ESB \<and>
      pl_length p > cf_payload_length (m_config_local s))"

definition next_pid :: "u8 \<Rightarrow> u8" where
  "next_pid pid = of_nat ((unat pid + 1) mod (NRF_ESB_PID_MAX + 1))"

text \<open>The part between \<open>DISABLE_RF_IRQ\<close> and \<open>ENABLE_RF_IRQ\<close>, and what follows it.\<close>

definition tx_enqueue :: "nrf_esb_payload_t \<Rightarrow> esb \<Rightarrow> esb result" where
  "tx_enqueue p s0 =
     (let s1 = DISABLE_RF_IRQ s0 in
      then_do (load_at (m_pids s1) (unat (pl_pipe p))) (\<lambda>pid.
      Inr (ENABLE_RF_IRQ (s1\<lparr>
        m_pids := (m_pids s1)[unat (pl_pipe p) := next_pid pid],
        m_tx_fifo := fifo_push (p\<lparr>pl_pid := next_pid pid\<rparr>) (m_tx_fifo s1)\<rparr>))))"

definition tx_auto_start :: "esb \<Rightarrow> esb result" where
  "tx_auto_start s =
     (if cf_mode (m_config_local s) = NRF_ESB_MODE_PTX \<and>
         cf_tx_mode (m_config_local s) = NRF_ESB_TXMODE_AUTO \<and>
         m_nrf_esb_mainstate s = NRF_ESB_STATE_IDLE
      then start_tx_transaction s else Inr s)"

definition nrf_esb_write_payload :: "nrf_esb_payload_t option \<Rightarrow> esb api" where
  "nrf_esb_write_payload p_pl s0 =
     (if \<not> m_esb_initialized s0 then Inr (NRF_ERROR_INVALID_STATE, s0)
      else case p_pl of
        None \<Rightarrow> Inr (NRF_ERROR_NULL, s0)
      | Some p \<Rightarrow>
          if bad_payload_length p s0 then Inr (NRF_ERROR_INVALID_LENGTH, s0)
          else if count (m_tx_fifo s0) \<ge> NRF_ESB_TX_FIFO_SIZE then Inr (NRF_ERROR_NO_MEM, s0)
          else if cf_mode (m_config_local s0) = NRF_ESB_MODE_PTX \<and> pl_noack p \<noteq> 0 \<and>
                  \<not> cf_selective_auto_ack (m_config_local s0)
          then Inr (NRF_ERROR_NOT_SUPPORTED, s0)
          else then_do (tx_enqueue p s0) (\<lambda>s1.
               then_do (tx_auto_start s1) (\<lambda>s2. Inr (NRF_SUCCESS, s2))))"

text \<open>
  \<open>nrf_esb_read_rx_payload\<close> copies into the caller's payload \<open>p\<close>, keeping its \<open>noack\<close> field and
  the bytes of its \<open>data\<close> beyond the received length.
\<close>

definition nrf_esb_read_rx_payload ::
    "nrf_esb_payload_t option \<Rightarrow> esb \<Rightarrow> (ret_code \<times> nrf_esb_payload_t option \<times> esb) result" where
  "nrf_esb_read_rx_payload p_pl s0 =
     (if \<not> m_esb_initialized s0 then Inr (NRF_ERROR_INVALID_STATE, p_pl, s0)
      else case p_pl of
        None \<Rightarrow> Inr (NRF_ERROR_NULL, None, s0)
      | Some p \<Rightarrow>
          if count (m_rx_fifo s0) = 0 then Inr (NRF_ERROR_NOT_FOUND, Some p, s0)
          else
            (let s1 = DISABLE_RF_IRQ s0;
                 h = fifo_head (m_rx_fifo s1)
             in then_do (memcpy (pl_data p) 0 (pl_data h) 0 (unat (pl_length h))) (\<lambda>d.
                let s2 = s1\<lparr>m_rx_fifo := fifo_pop (m_rx_fifo s1)\<rparr>
                in Inr (NRF_SUCCESS,
                     Some (p\<lparr>pl_length := pl_length h, pl_pipe := pl_pipe h, pl_rssi := pl_rssi h,
                            pl_pid := pl_pid h, pl_data := d\<rparr>),
                     ENABLE_RF_IRQ s2))))"

definition nrf_esb_start_tx :: "esb api" where
  "nrf_esb_start_tx s0 =
     (if m_nrf_esb_mainstate s0 \<noteq> NRF_ESB_STATE_IDLE then Inr (NRF_ERROR_BUSY, s0)
      else if count (m_tx_fifo s0) = 0 then Inr (NRF_ERROR_BUFFER_EMPTY, s0)
      else then_do (start_tx_transaction s0) (\<lambda>s1. Inr (NRF_SUCCESS, s1)))"

definition nrf_esb_start_rx :: "esb api" where
  "nrf_esb_start_rx s0 =
     (if m_nrf_esb_mainstate s0 \<noteq> NRF_ESB_STATE_IDLE then Inr (NRF_ERROR_BUSY, s0)
      else
        (let s1 = (wr (\<lambda>r. r\<lparr>INTEN := 0, EVENTS_DISABLED := False,
                            SHORTS := RADIO_SHORTS_COMMON OR RADIO_SHORTS_DISABLED_TXEN_Msk\<rparr>) s0)
                    \<lparr>on_radio_disabled := On_radio_disabled_rx\<rparr>;
             s2 = (wr (\<lambda>r. r\<lparr>INTEN := INTEN r OR RADIO_INTENSET_DISABLED_Msk\<rparr>) s1)
                    \<lparr>m_nrf_esb_mainstate := NRF_ESB_STATE_PRX\<rparr>;
             s3 = wr (\<lambda>r. r\<lparr>RXADDRESSES := ucast (rx_pipes_enabled (m_esb_addr s2)),
                           FREQUENCY := ucast (rf_channel (m_esb_addr s2)),
                           PACKETPTR := Rx_buffer\<rparr>) s2;
             s4 = wp (\<lambda>p. p\<lparr>RADIO_IRQ_pending := False, RADIO_IRQ_enabled := True\<rparr>) s3;
             s5 = wr (\<lambda>r. radio_task TASKS_RXEN
                       (r\<lparr>EVENTS_ADDRESS := False, EVENTS_PAYLOAD := False,
                          EVENTS_DISABLED := False\<rparr>)) s4
         in Inr (NRF_SUCCESS, s5)))"

definition nrf_esb_stop_rx :: "esb api" where
  "nrf_esb_stop_rx s0 =
     (if m_nrf_esb_mainstate s0 = NRF_ESB_STATE_PRX
      then
        (let s1 = (wr (\<lambda>r. radio_task TASKS_DISABLE
                        (r\<lparr>SHORTS := 0, INTEN := 0, EVENTS_DISABLED := False\<rparr>)) s0)
                    \<lparr>on_radio_disabled := No_handler\<rparr>
         in then_do (wait_event (disabled_poll (radio s1))) (\<lambda>_.
            Inr (NRF_SUCCESS,
                 (wr (\<lambda>r. r\<lparr>EVENTS_DISABLED := True\<rparr>) s1)
                   \<lparr>m_nrf_esb_mainstate := NRF_ESB_STATE_IDLE\<rparr>)))
      else Inr (NRF_ESB_ERROR_NOT_IN_RX_MODE, s0))"

section \<open>Queue management\<close>

definition nrf_esb_flush_tx :: "esb api" where
  "nrf_esb_flush_tx s0 =
     (if \<not> m_esb_initialized s0 then Inr (NRF_ERROR_INVALID_STATE, s0)
      else (let s1 = DISABLE_RF_IRQ s0;
                s2 = s1\<lparr>m_tx_fifo := fifo_clear (m_tx_fifo s1)\<rparr>
            in Inr (NRF_SUCCESS, ENABLE_RF_IRQ s2)))"

text \<open>As the source has it: \<open>entry_point\<close> is advanced and \<open>count\<close> decreased.\<close>

definition nrf_esb_pop_tx :: "esb api" where
  "nrf_esb_pop_tx s0 =
     (if \<not> m_esb_initialized s0 then Inr (NRF_ERROR_INVALID_STATE, s0)
      else if \<not> count (m_tx_fifo s0) > 0 then Inr (NRF_ERROR_BUFFER_EMPTY, s0)
      else (let s1 = DISABLE_RF_IRQ s0;
                f = m_tx_fifo s1;
                s2 = s1\<lparr>m_tx_fifo := f\<lparr>entry_point := fifo_next (entry_point f),
                                       count := count f - 1\<rparr>\<rparr>
            in Inr (NRF_SUCCESS, ENABLE_RF_IRQ s2)))"

definition nrf_esb_flush_rx :: "esb api" where
  "nrf_esb_flush_rx s0 =
     (if \<not> m_esb_initialized s0 then Inr (NRF_ERROR_INVALID_STATE, s0)
      else (let s1 = DISABLE_RF_IRQ s0;
                s2 = s1\<lparr>m_rx_fifo := fifo_clear (m_rx_fifo s1),
                        m_rx_pipe_info := replicate NRF_ESB_PIPE_COUNT pipe_info_zero\<rparr>
            in Inr (NRF_SUCCESS, ENABLE_RF_IRQ s2)))"

section \<open>Addresses and radio parameters\<close>

definition set_addr :: "(nrf_esb_address_t \<Rightarrow> nrf_esb_address_t) \<Rightarrow> esb \<Rightarrow> esb" where
  "set_addr f s = s\<lparr>m_esb_addr := f (m_esb_addr s)\<rparr>"

definition nrf_esb_set_address_length :: "u8 \<Rightarrow> esb api" where
  "nrf_esb_set_address_length len s0 =
     (if m_nrf_esb_mainstate s0 \<noteq> NRF_ESB_STATE_IDLE then Inr (NRF_ERROR_BUSY, s0)
      else if \<not> (len > 2 \<and> len < 6) then Inr (NRF_ERROR_INVALID_PARAM, s0)
      else (let s1 = set_addr (\<lambda>a. a\<lparr>addr_length := len\<rparr>) s0
            in then_do (update_rf_payload_format (ucast (cf_payload_length (m_config_local s1))) s1)
                 (\<lambda>s2. Inr (NRF_SUCCESS, s2))))"

definition nrf_esb_set_base_address_0 :: "u8 list option \<Rightarrow> esb api" where
  "nrf_esb_set_base_address_0 p_addr s0 =
     (if m_nrf_esb_mainstate s0 \<noteq> NRF_ESB_STATE_IDLE then Inr (NRF_ERROR_BUSY, s0)
      else case p_addr of
        None \<Rightarrow> Inr (NRF_ERROR_NULL, s0)
      | Some addr \<Rightarrow>
          then_do (memcpy (base_addr_p0 (m_esb_addr s0)) 0 addr 0 4) (\<lambda>b.
          then_do (update_radio_addresses NRF_ESB_ADDR_UPDATE_MASK_BASE0
                    (set_addr (\<lambda>a. a\<lparr>base_addr_p0 := b\<rparr>) s0))
            (\<lambda>s1. Inr (NRF_SUCCESS, s1))))"

definition nrf_esb_set_base_address_1 :: "u8 list option \<Rightarrow> esb api" where
  "nrf_esb_set_base_address_1 p_addr s0 =
     (if m_nrf_esb_mainstate s0 \<noteq> NRF_ESB_STATE_IDLE then Inr (NRF_ERROR_BUSY, s0)
      else case p_addr of
        None \<Rightarrow> Inr (NRF_ERROR_NULL, s0)
      | Some addr \<Rightarrow>
          then_do (memcpy (base_addr_p1 (m_esb_addr s0)) 0 addr 0 4) (\<lambda>b.
          then_do (update_radio_addresses NRF_ESB_ADDR_UPDATE_MASK_BASE1
                    (set_addr (\<lambda>a. a\<lparr>base_addr_p1 := b\<rparr>) s0))
            (\<lambda>s1. Inr (NRF_SUCCESS, s1))))"

text \<open>\<open>0xFF >> (8 - x)\<close>\<close>

definition BIT_MASK_UINT_8 :: "u8 \<Rightarrow> u8" where
  "BIT_MASK_UINT_8 x = ucast (drop_bit (8 - unat x) (0xFF :: u32))"

definition nrf_esb_set_prefixes :: "u8 list option \<Rightarrow> u8 \<Rightarrow> esb api" where
  "nrf_esb_set_prefixes p_prefixes n s0 =
     (if m_nrf_esb_mainstate s0 \<noteq> NRF_ESB_STATE_IDLE then Inr (NRF_ERROR_BUSY, s0)
      else case p_prefixes of
        None \<Rightarrow> Inr (NRF_ERROR_NULL, s0)
      | Some prefixes \<Rightarrow>
          if \<not> n < 9 then Inr (NRF_ERROR_INVALID_PARAM, s0)
          else
            then_do (memcpy (pipe_prefixes (m_esb_addr s0)) 0 prefixes 0 (unat n)) (\<lambda>b.
            then_do (update_radio_addresses NRF_ESB_ADDR_UPDATE_MASK_PREFIX
                      (set_addr (\<lambda>a. a\<lparr>pipe_prefixes := b, num_pipes := n,
                                      rx_pipes_enabled := BIT_MASK_UINT_8 n\<rparr>) s0))
              (\<lambda>s1. Inr (NRF_SUCCESS, s1))))"

definition nrf_esb_update_prefix :: "u8 \<Rightarrow> u8 \<Rightarrow> esb api" where
  "nrf_esb_update_prefix pipe prefix s0 =
     (if m_nrf_esb_mainstate s0 \<noteq> NRF_ESB_STATE_IDLE then Inr (NRF_ERROR_BUSY, s0)
      else if \<not> pipe < 8 then Inr (NRF_ERROR_INVALID_PARAM, s0)
      else
        then_do (store_at (pipe_prefixes (m_esb_addr s0)) (unat pipe) prefix) (\<lambda>b.
        then_do (update_radio_addresses NRF_ESB_ADDR_UPDATE_MASK_PREFIX
                  (set_addr (\<lambda>a. a\<lparr>pipe_prefixes := b\<rparr>) s0))
          (\<lambda>s1. Inr (NRF_SUCCESS, s1))))"

definition nrf_esb_enable_pipes :: "u8 \<Rightarrow> esb api" where
  "nrf_esb_enable_pipes enable_mask s0 =
     (if m_nrf_esb_mainstate s0 \<noteq> NRF_ESB_STATE_IDLE then Inr (NRF_ERROR_BUSY, s0)
      else Inr (NRF_SUCCESS, set_addr (\<lambda>a. a\<lparr>rx_pipes_enabled := enable_mask\<rparr>) s0))"

definition nrf_esb_set_rf_channel :: "u32 \<Rightarrow> esb api" where
  "nrf_esb_set_rf_channel channel s0 =
     (if m_nrf_esb_mainstate s0 \<noteq> NRF_ESB_STATE_IDLE then Inr (NRF_ERROR_BUSY, s0)
      else if \<not> channel \<le> 125 then Inr (NRF_ERROR_INVALID_PARAM, s0)
      else Inr (NRF_SUCCESS, set_addr (\<lambda>a. a\<lparr>rf_channel := ucast channel\<rparr>) s0))"

text \<open>The out-parameter is modelled by the value stored through it, if it is not null.\<close>

definition nrf_esb_get_rf_channel :: "u32 option \<Rightarrow> esb \<Rightarrow> (ret_code \<times> u32 option) result" where
  "nrf_esb_get_rf_channel p_channel s =
     (case p_channel of
        None \<Rightarrow> Inr (NRF_ERROR_NULL, None)
      | Some _ \<Rightarrow> Inr (NRF_SUCCESS, Some (ucast (rf_channel (m_esb_addr s)))))"

definition nrf_esb_set_tx_power :: "nrf_esb_tx_power_t \<Rightarrow> esb api" where
  "nrf_esb_set_tx_power tx_output_power s0 =
     (if m_nrf_esb_mainstate s0 \<noteq> NRF_ESB_STATE_IDLE then Inr (NRF_ERROR_BUSY, s0)
      else if cf_tx_output_power (m_config_local s0) \<noteq> tx_output_power
      then Inr (NRF_SUCCESS, update_radio_tx_power
             (s0\<lparr>m_config_local := (m_config_local s0)\<lparr>cf_tx_output_power := tx_output_power\<rparr>\<rparr>))
      else Inr (NRF_SUCCESS, s0))"

end
