(* ===== verification/EsbInv.thy ===== *)
theory EsbInv
  imports EsbApi
begin

text \<open>
  The run-time invariant of the ESB module and its preservation by every function of
  nrf_esb.c. \<open>esb_inv\<close> says what the code relies on between calls (array sizes, FIFO indices in range,
  packet lengths, a non-null format function once the module is initialised, the DISABLED handler in
  agreement with the main state). Each \<open>_ok\<close> lemma is total correctness: the function returns,
  without a null call, an access out of bounds or an endless wait, and the invariant holds again.
\<close>

unbundle bit_operations_syntax

section \<open>The invariant\<close>

definition payload_ok :: "nrf_esb_payload_t \<Rightarrow> bool" where
  "payload_ok p \<longleftrightarrow> length (pl_data p) = 32 \<and> unat (pl_length p) \<le> 32"

text \<open>In each state but IDLE the DISABLED handler is the one that state needs.\<close>

fun handler_of :: "nrf_esb_mainstate_t \<Rightarrow> radio_handler option" where
  "handler_of NRF_ESB_STATE_IDLE = None"
| "handler_of NRF_ESB_STATE_PTX_TX = Some On_radio_disabled_tx_noack"
| "handler_of NRF_ESB_STATE_PTX_TX_ACK = Some On_radio_disabled_tx"
| "handler_of NRF_ESB_STATE_PTX_RX_ACK = Some On_radio_disabled_tx_wait_for_ack"
| "handler_of NRF_ESB_STATE_PRX = Some On_radio_disabled_rx"
| "handler_of NRF_ESB_STATE_PRX_SEND_ACK = Some On_radio_disabled_rx_ack"

definition arrays_ok :: "esb \<Rightarrow> bool" where
  "arrays_ok s \<longleftrightarrow>
     length (m_tx_payload_buffer s) = 34 \<and> length (m_rx_payload_buffer s) = 34 \<and>
     length (m_pids s) = 9 \<and> length (m_rx_pipe_info s) = 9 \<and>
     length (base_addr_p0 (m_esb_addr s)) = 4 \<and> length (base_addr_p1 (m_esb_addr s)) = 4 \<and>
     length (pipe_prefixes (m_esb_addr s)) = 8"

definition fifos_ok :: "esb \<Rightarrow> bool" where
  "fifos_ok s \<longleftrightarrow>
     fifo_bounds (m_tx_fifo s) \<and> list_all payload_ok (p_payload (m_tx_fifo s)) \<and>
     fifo_bounds (m_rx_fifo s) \<and> list_all payload_ok (p_payload (m_rx_fifo s))"

definition control_ok :: "esb \<Rightarrow> bool" where
  "control_ok s \<longleftrightarrow>
     (m_esb_initialized s \<or> on_radio_disabled s \<noteq> No_handler \<or> 0 < count (m_tx_fifo s)
        \<longrightarrow> update_rf_payload_format_fn s \<noteq> None) \<and>
     (on_radio_disabled s \<in> {On_radio_disabled_tx, On_radio_disabled_tx_wait_for_ack}
        \<longrightarrow> mp_current_payload s \<noteq> None) \<and>
     (\<forall>i. mp_current_payload s = Some i \<longrightarrow> i < 8) \<and>
     (\<forall>h. handler_of (m_nrf_esb_mainstate s) = Some h \<longrightarrow> on_radio_disabled s = h) \<and>
     unat (cf_payload_length (m_config_local s)) \<le> 32"

text \<open>
  What the radio does: RXMATCH is a logical address, and after TASKS_DISABLE the DISABLED event is
  raised after some number of reads.
\<close>

definition radio_ok :: "radio_regs \<Rightarrow> bool" where
  "radio_ok r \<longleftrightarrow> unat (RXMATCH r) < 8 \<and> (\<exists>k. disabled_poll r k)"

definition esb_inv :: "esb \<Rightarrow> bool" where
  "esb_inv s \<longleftrightarrow> arrays_ok s \<and> fifos_ok s \<and> control_ok s \<and> radio_ok (radio s)"

lemmas inv_defs = esb_inv_def arrays_ok_def fifos_ok_def control_ok_def radio_ok_def

section \<open>Frame rules\<close>

text \<open>Register writes other than RXMATCH and the poll leave the invariant alone.\<close>

lemma esb_inv_wp [simp]: "esb_inv (wp f s) = esb_inv s"
  by (simp add: inv_defs wp_def)

lemma esb_inv_wr:
  "RXMATCH (f (radio s)) = RXMATCH (radio s) \<Longrightarrow>
   disabled_poll (f (radio s)) = disabled_poll (radio s) \<Longrightarrow> esb_inv (wr f s) = esb_inv s"
  by (simp add: inv_defs wr_def)

section \<open>Transmitter\<close>

lemma payload_okD: "payload_ok p \<Longrightarrow> unat (pl_length p) \<le> length (pl_data p)"
  by (simp add: payload_ok_def)

lemma slot_ok:
  "fifos_ok s \<Longrightarrow> i < 8 \<Longrightarrow> i < length (p_payload (m_tx_fifo s)) \<and> payload_ok (p_payload (m_tx_fifo s) ! i)"
  by (simp add: fifos_ok_def fifo_bounds_def list_all_length)

lemma start_tx_transaction_ok:
  assumes "esb_inv s" and "update_rf_payload_format_fn s \<noteq> None"
  shows "ok (start_tx_transaction s) esb_inv"
proof -
  have slot: "payload_ok (p_payload (m_tx_fifo s) ! exit_point (m_tx_fifo s))"
    "exit_point (m_tx_fifo s) < length (p_payload (m_tx_fifo s))" "exit_point (m_tx_fifo s) < 8"
    using assms slot_ok [of s "exit_point (m_tx_fifo s)"]
    by (auto simp: esb_inv_def fifos_ok_def fifo_bounds_def)
  show ?thesis
    using assms slot
    by (auto simp: start_tx_transaction_def Let_def start_tx_ack_def start_tx_noack_def
        start_tx_radio_def inv_defs payload_ok_def radio_task_def
        split: nrf_esb_protocol_t.split)
qed


lemma tx_fifo_remove_last_sel [simp]:
  "m_esb_initialized (tx_fifo_remove_last s) = m_esb_initialized s"
  "m_nrf_esb_mainstate (tx_fifo_remove_last s) = m_nrf_esb_mainstate s"
  "mp_current_payload (tx_fifo_remove_last s) = mp_current_payload s"
  "m_esb_addr (tx_fifo_remove_last s) = m_esb_addr s"
  "m_config_local (tx_fifo_remove_last s) = m_config_local s"
  "m_rx_fifo (tx_fifo_remove_last s) = m_rx_fifo s"
  "m_tx_payload_buffer (tx_fifo_remove_last s) = m_tx_payload_buffer s"
  "m_rx_payload_buffer (tx_fifo_remove_last s) = m_rx_payload_buffer s"
  "m_interrupt_flags (tx_fifo_remove_last s) = m_interrupt_flags s"
  "m_pids (tx_fifo_remove_last s) = m_pids s"
  "m_rx_pipe_info (tx_fifo_remove_last s) = m_rx_pipe_info s"
  "m_retransmits_remaining (tx_fifo_remove_last s) = m_retransmits_remaining s"
  "m_last_tx_attempts (tx_fifo_remove_last s) = m_last_tx_attempts s"
  "on_radio_disabled (tx_fifo_remove_last s) = on_radio_disabled s"
  "update_rf_payload_format_fn (tx_fifo_remove_last s) = update_rf_payload_format_fn s"
  "radio (tx_fifo_remove_last s) = radio s"
  by (simp_all add: tx_fifo_remove_last_def Let_def DISABLE_RF_IRQ_def ENABLE_RF_IRQ_def)

lemma p_payload_pop [simp]: "p_payload (fifo_pop f) = p_payload f"
  by (simp add: fifo_pop_def)

lemma count_pop [simp]: "count (fifo_pop f) = count f - 1"
  by (simp add: fifo_pop_def)

lemma fifo_ops_p_payload [simp]:
  "p_payload (fifo_clear f) = p_payload f"
  "p_payload (fifo_push x f) = (p_payload f)[entry_point f := x]"
  "count (fifo_clear f) = 0"
  "count (fifo_push x f) = Suc (count f)"
  by (simp_all add: fifo_clear_def fifo_push_def)

lemma esb_inv_remove_last: "esb_inv s \<Longrightarrow> esb_inv (tx_fifo_remove_last s)"
  by (auto simp: inv_defs tx_fifo_remove_last_fifo fifo_bounds_pop)

lemma raise_flag_sel [simp]:
  "raise_flag m s = s\<lparr>m_interrupt_flags := m_interrupt_flags s OR m\<rparr>"
  by (simp add: raise_flag_def)

lemma set_pending_evt_irq_wp [simp]:
  "set_pending_evt_irq s = wp (\<lambda>p. p\<lparr>ESB_EVT_IRQ_pending := True\<rparr>) s"
  by (simp add: set_pending_evt_irq_def)

text \<open>Updates of variables the invariant does not constrain.\<close>

lemma esb_inv_free [simp]:
  "esb_inv (s\<lparr>m_interrupt_flags := x\<rparr>) = esb_inv s"
  "esb_inv (s\<lparr>m_last_tx_attempts := y\<rparr>) = esb_inv s"
  "esb_inv (s\<lparr>m_retransmits_remaining := y\<rparr>) = esb_inv s"
  by (simp_all add: inv_defs)

text \<open>IDLE asks nothing of the handler.\<close>

lemma esb_inv_idle: "esb_inv s \<Longrightarrow> esb_inv (s\<lparr>m_nrf_esb_mainstate := NRF_ESB_STATE_IDLE\<rparr>)"
  by (simp add: inv_defs)

lemma inv_fn:
  "esb_inv s \<Longrightarrow> 0 < count (m_tx_fifo s) \<or> on_radio_disabled s \<noteq> No_handler \<or> m_esb_initialized s \<Longrightarrow>
     update_rf_payload_format_fn s \<noteq> None"
  by (auto simp: inv_defs)

lemma on_radio_disabled_tx_noack_ok:
  assumes "esb_inv s"
  shows "ok (on_radio_disabled_tx_noack s) esb_inv"
proof -
  let ?s1 = "tx_fifo_remove_last (raise_flag NRF_ESB_INT_TX_SUCCESS_MSK s)"
  have i: "esb_inv ?s1" using assms by (intro esb_inv_remove_last) simp
  show ?thesis
  proof (cases "count (m_tx_fifo ?s1) = 0")
    case True
    then show ?thesis using i by (simp add: on_radio_disabled_tx_noack_def Let_def esb_inv_idle)
  next
    case False
    with i have "update_rf_payload_format_fn ?s1 \<noteq> None" by (intro inv_fn) auto
    with i have "ok (start_tx_transaction (set_pending_evt_irq ?s1)) esb_inv"
      by (intro start_tx_transaction_ok) simp_all
    with False show ?thesis by (simp add: on_radio_disabled_tx_noack_def Let_def)
  qed
qed

lemma on_radio_disabled_tx_ok:
  assumes "esb_inv s" and "on_radio_disabled s = On_radio_disabled_tx"
  shows "ok (on_radio_disabled_tx s) esb_inv"
  using assms by (auto simp: on_radio_disabled_tx_def Let_def inv_defs)

lemma rx_length_bound:
  assumes "rx_length s = Some len" and "unat (cf_payload_length (m_config_local s)) \<le> 32"
  shows "unat len \<le> 32"
  using assms by (auto simp: rx_length_def split: if_splits)

lemma rx_fifo_push_rfbuf_ok:
  assumes "esb_inv s"
  shows "ok (rx_fifo_push_rfbuf pipe pid s) (\<lambda>(pushed, s').
    esb_inv s' \<and> (\<exists>f. s' = s\<lparr>m_rx_fifo := f\<rparr>))"
proof (cases "count (m_rx_fifo s) < NRF_ESB_RX_FIFO_SIZE \<and> rx_length s \<noteq> None")
  case False
  then have "rx_fifo_push_rfbuf pipe pid s = Inr (False, s)"
    by (auto simp: rx_fifo_push_rfbuf_def)
  moreover have "\<exists>f. s = s\<lparr>m_rx_fifo := f\<rparr>" by (rule exI [of _ "m_rx_fifo s"]) simp
  ultimately show ?thesis using assms by simp
next
  case True
  then obtain len where len: "rx_length s = Some len" and c: "count (m_rx_fifo s) < 8" by auto
  have l32: "unat len \<le> 32" using rx_length_bound [OF len] assms by (simp add: inv_defs)
  have e: "entry_point (m_rx_fifo s) < length (p_payload (m_rx_fifo s))"
    "payload_ok (p_payload (m_rx_fifo s) ! entry_point (m_rx_fifo s))"
    using assms by (auto simp: inv_defs fifo_bounds_def list_all_length)
  show ?thesis
    using assms len l32 c e
    by (auto simp: rx_fifo_push_rfbuf_def inv_defs payload_ok_def fifo_bounds_push
        intro!: list_all_list_updateI)
qed

lemma tx_ack_payload_ok:
  assumes "esb_inv s"
  shows "ok (tx_ack_payload s) esb_inv"
  using assms
  by (auto simp: tx_ack_payload_def intro!: ok_mono [OF rx_fifo_push_rfbuf_ok])

lemma tx_next_ok:
  assumes "esb_inv s"
  shows "ok (tx_next s) esb_inv"
  using assms inv_fn [of s] start_tx_transaction_ok [of "set_pending_evt_irq s"]
  by (auto simp: tx_next_def esb_inv_idle)

lemma tx_acknowledged_ok:
  assumes "esb_inv s"
  shows "ok (tx_acknowledged s) esb_inv"
proof -
  have "ok (then_do (tx_ack_payload t) tx_next) esb_inv" if "esb_inv t" for t
    using that by (auto intro!: ok_mono [OF tx_ack_payload_ok] tx_next_ok)
  then show ?thesis
    using assms unfolding tx_acknowledged_def Let_def by (simp add: esb_inv_remove_last)
qed

lemma tx_given_up_inv: "esb_inv s \<Longrightarrow> esb_inv (tx_given_up s)"
  by (simp add: tx_given_up_def Let_def esb_inv_idle)

lemma tx_retransmit_ok:
  assumes "esb_inv s" and "on_radio_disabled s = On_radio_disabled_tx_wait_for_ack"
  shows "ok (tx_retransmit s) esb_inv"
proof -
  obtain i where i: "mp_current_payload s = Some i" "i < 8"
    using assms by (auto simp: inv_defs)
  have "i < length (p_payload (m_tx_fifo s))"
    using assms i slot_ok [of s i] by (auto simp: esb_inv_def)
  then show ?thesis using assms i by (auto simp: tx_retransmit_def Let_def inv_defs radio_task_def)
qed

lemma on_radio_disabled_tx_wait_for_ack_ok:
  assumes "esb_inv s" and "on_radio_disabled s = On_radio_disabled_tx_wait_for_ack"
  shows "ok (on_radio_disabled_tx_wait_for_ack s) esb_inv"
  using assms
  by (auto simp: on_radio_disabled_tx_wait_for_ack_def Let_def
      intro!: tx_acknowledged_ok tx_given_up_inv tx_retransmit_ok)

section \<open>Receiver\<close>

lemma clear_events_restart_rx_ok:
  assumes "esb_inv s" and "update_rf_payload_format_fn s \<noteq> None"
  shows "ok (clear_events_restart_rx s) (\<lambda>t. esb_inv t \<and> (\<exists>r. t = s\<lparr>radio := r\<rparr>))"
  using assms by (auto simp: clear_events_restart_rx_def Let_def inv_defs radio_task_def wr_def)


lemma head_ok:
  "esb_inv s \<Longrightarrow> payload_ok (p_payload (m_tx_fifo s) ! exit_point (m_tx_fifo s)) \<and>
     exit_point (m_tx_fifo s) < length (p_payload (m_tx_fifo s)) \<and> exit_point (m_tx_fifo s) < 8"
  by (auto simp: inv_defs fifo_bounds_def list_all_length)

text \<open>What the receive handlers keep: the invariant and a format function.\<close>

definition esb_live :: "esb \<Rightarrow> bool" where
  "esb_live s \<longleftrightarrow> esb_inv s \<and> update_rf_payload_format_fn s \<noteq> None"

lemma ack_payload_done_live: "esb_live s \<Longrightarrow> esb_live (ack_payload_done pinfo b s)"
  by (auto simp: ack_payload_done_def esb_live_def inv_defs fifo_bounds_pop)

lemma ack_with_payload_ok:
  assumes "esb_live s"
  shows "ok (ack_with_payload pipe pinfo s) esb_live"
  using assms head_ok [of s]
  by (auto simp: ack_with_payload_def Let_def esb_live_def inv_defs payload_ok_def)

lemma ack_without_payload_ok:
  assumes "esb_live s"
  shows "ok (ack_without_payload pipe pinfo s) esb_live"
  using assms by (auto simp: ack_without_payload_def Let_def esb_live_def inv_defs)

lemma rx_prepare_ack_dpl_ok:
  assumes live: "esb_live s" and pipe: "pipe < 9"
  shows "ok (rx_prepare_ack_dpl pipe b s) esb_live"
proof -
  have len: "pipe < length (m_rx_pipe_info s)" using assms by (simp add: esb_live_def inv_defs)
  have fin: "ok (then_do (load_at (m_rx_payload_buffer t) 1) (\<lambda>b1.
       then_do (store_at (m_tx_payload_buffer t) 1 b1) (\<lambda>buf1.
       Inr (t\<lparr>m_tx_payload_buffer := buf1\<rparr>)))) esb_live" if "esb_live t" for t
    using that by (auto simp: esb_live_def inv_defs)
  have "ok (if c then ack_with_payload pipe pinfo (ack_payload_done pinfo b s)
            else ack_without_payload pipe pinfo s) esb_live" for c pinfo
    using ack_with_payload_ok [OF ack_payload_done_live [OF live]] ack_without_payload_ok [OF live]
    by simp
  note step = ok_then_doI [OF this fin]
  show ?thesis
    unfolding rx_prepare_ack_dpl_def
  proof (rule ok_then_doI [where P = "\<lambda>_. True"])
    show "ok (load_at (m_rx_pipe_info s) pipe) (\<lambda>_. True)" using len by simp
  qed (rule step)
qed

lemma rx_prepare_ack_esb_ok:
  assumes "esb_live s"
  shows "ok (rx_prepare_ack_esb s) esb_live"
  using assms by (auto simp: rx_prepare_ack_esb_def esb_live_def inv_defs)

lemma rx_send_ack_ok:
  assumes "esb_live s" and "pipe < 9"
  shows "ok (rx_send_ack pipe b s) esb_live"
proof -
  let ?s1 = "wr (\<lambda>r. r\<lparr>SHORTS := RADIO_SHORTS_COMMON OR RADIO_SHORTS_DISABLED_RXEN_Msk\<rparr>) s"
  have l: "esb_live ?s1" using assms(1) by (simp add: esb_live_def esb_inv_wr)
  have fin: "esb_live ((wr (\<lambda>r. r\<lparr>TXADDRESS := RXMATCH r, PACKETPTR := Tx_buffer\<rparr>) t)
      \<lparr>m_nrf_esb_mainstate := NRF_ESB_STATE_PRX_SEND_ACK,
       on_radio_disabled := On_radio_disabled_rx_ack\<rparr>)" if "esb_live t" for t
    using that by (auto simp: esb_live_def inv_defs)
  show ?thesis
    using ok_mono [OF rx_prepare_ack_dpl_ok [OF l assms(2)] fin]
      ok_mono [OF rx_prepare_ack_esb_ok [OF l] fin]
    by (simp add: rx_send_ack_def Let_def split: nrf_esb_protocol_t.split)
qed

lemma rx_deliver_ok: "esb_inv s \<Longrightarrow> ok (rx_deliver pipe pid s) esb_inv"
  by (auto simp: rx_deliver_def intro!: ok_mono [OF rx_fifo_push_rfbuf_ok])

lemma on_radio_disabled_rx_ok:
  assumes inv: "esb_inv s" and h: "on_radio_disabled s = On_radio_disabled_rx"
  shows "ok (on_radio_disabled_rx s) esb_inv"
proof -
  have fn: "update_rf_payload_format_fn s \<noteq> None" using inv_fn [OF inv] h by simp
  have restart: "ok (clear_events_restart_rx t) esb_inv" if "esb_live t" for t
    using that clear_events_restart_rx_ok [of t] by (auto simp: esb_live_def ok_iff)
  have pipe: "unat (RXMATCH (radio s)) < 9" "length (m_rx_pipe_info s) = 9"
    using inv by (auto simp: inv_defs)
  have live: "esb_live (s\<lparr>m_rx_pipe_info := (m_rx_pipe_info s)[i := x]\<rparr>)" for i x
    using inv fn by (auto simp: esb_live_def inv_defs)
  have ack: "ok (rx_send_ack (unat (RXMATCH (radio s))) b t) esb_inv" if "esb_live t" for b t
    by (rule ok_mono [OF rx_send_ack_ok [OF that pipe(1)]]) (simp add: esb_live_def)
  show ?thesis
    using inv fn restart [of s] pipe
    by (auto simp: on_radio_disabled_rx_def Let_def esb_live_def [of s] ok_if
        intro!: ok_mono [OF ack] ok_mono [OF restart] rx_deliver_ok live)
qed

lemma on_radio_disabled_rx_ack_ok:
  assumes inv: "esb_inv s" and h: "on_radio_disabled s = On_radio_disabled_rx_ack"
  shows "ok (on_radio_disabled_rx_ack s) esb_inv"
  using inv_fn [OF inv] h inv by (auto simp: on_radio_disabled_rx_ack_def Let_def inv_defs)

section \<open>Interrupts\<close>

lemma call_on_radio_disabled_ok: "esb_inv s \<Longrightarrow> ok (call_on_radio_disabled s) esb_inv"
  by (simp add: call_on_radio_disabled_def on_radio_disabled_tx_noack_ok on_radio_disabled_tx_ok
      on_radio_disabled_tx_wait_for_ack_ok on_radio_disabled_rx_ok on_radio_disabled_rx_ack_ok
      split: radio_handler.split)

lemma RADIO_IRQHandler_ok:
  assumes "esb_inv s"
  shows "ok (RADIO_IRQHandler s) esb_inv"
  using assms by (auto simp: RADIO_IRQHandler_def Let_def esb_inv_wr intro!: call_on_radio_disabled_ok)

lemma nrf_esb_get_clear_interrupts_ok:
  "esb_inv s \<Longrightarrow> ok (nrf_esb_get_clear_interrupts s) (\<lambda>(_, _, t). esb_inv t)"
  by (simp add: nrf_esb_get_clear_interrupts_def DISABLE_RF_IRQ_def ENABLE_RF_IRQ_def Let_def)


section \<open>The public functions\<close>

text \<open>A call of the interface, and what the documentation asks of its caller.\<close>

datatype esb_call =
    Call_init "nrf_esb_config_t option"
  | Call_disable
  | Call_suspend
  | Call_write "nrf_esb_payload_t option"
  | Call_read "nrf_esb_payload_t option"
  | Call_start_tx
  | Call_start_rx
  | Call_stop_rx
  | Call_flush_tx
  | Call_pop_tx
  | Call_flush_rx
  | Call_set_address_length u8
  | Call_set_base_address_0 "u8 list option"
  | Call_set_base_address_1 "u8 list option"
  | Call_set_prefixes "u8 list option" u8
  | Call_update_prefix u8 u8
  | Call_enable_pipes u8
  | Call_set_rf_channel u32
  | Call_set_tx_power nrf_esb_tx_power_t

fun run_call :: "esb_call \<Rightarrow> esb api" where
  "run_call (Call_init c) s = nrf_esb_init c s"
| "run_call Call_disable s = nrf_esb_disable s"
| "run_call Call_suspend s = nrf_esb_suspend s"
| "run_call (Call_write p) s = nrf_esb_write_payload p s"
| "run_call (Call_read p) s = then_do (nrf_esb_read_rx_payload p s) (\<lambda>(r, _, t). Inr (r, t))"
| "run_call Call_start_tx s = nrf_esb_start_tx s"
| "run_call Call_start_rx s = nrf_esb_start_rx s"
| "run_call Call_stop_rx s = nrf_esb_stop_rx s"
| "run_call Call_flush_tx s = nrf_esb_flush_tx s"
| "run_call Call_pop_tx s = nrf_esb_pop_tx s"
| "run_call Call_flush_rx s = nrf_esb_flush_rx s"
| "run_call (Call_set_address_length n) s = nrf_esb_set_address_length n s"
| "run_call (Call_set_base_address_0 a) s = nrf_esb_set_base_address_0 a s"
| "run_call (Call_set_base_address_1 a) s = nrf_esb_set_base_address_1 a s"
| "run_call (Call_set_prefixes p n) s = nrf_esb_set_prefixes p n s"
| "run_call (Call_update_prefix p x) s = nrf_esb_update_prefix p x s"
| "run_call (Call_enable_pipes m) s = nrf_esb_enable_pipes m s"
| "run_call (Call_set_rf_channel c) s = nrf_esb_set_rf_channel c s"
| "run_call (Call_set_tx_power p) s = nrf_esb_set_tx_power p s"

fun call_pre :: "esb_call \<Rightarrow> esb \<Rightarrow> bool" where
  "call_pre (Call_init (Some c)) s \<longleftrightarrow> unat (cf_payload_length c) \<le> 32"
| "call_pre (Call_write (Some p)) s \<longleftrightarrow> unat (pl_pipe p) < 9 \<and> length (pl_data p) = 32"
| "call_pre (Call_read (Some p)) s \<longleftrightarrow> length (pl_data p) = 32"
| "call_pre Call_start_rx s \<longleftrightarrow> m_esb_initialized s"
| "call_pre (Call_set_address_length n) s \<longleftrightarrow> m_esb_initialized s"
| "call_pre (Call_set_base_address_0 (Some a)) s \<longleftrightarrow> 4 \<le> length a"
| "call_pre (Call_set_base_address_1 (Some a)) s \<longleftrightarrow> 4 \<le> length a"
| "call_pre (Call_set_prefixes (Some a) n) s \<longleftrightarrow> unat n \<le> length a"
| "call_pre _ s \<longleftrightarrow> True"

text \<open>Result triples keep the invariant in their state component.\<close>

definition keeps_inv :: "ret_code \<times> esb \<Rightarrow> bool" where
  "keeps_inv rt \<longleftrightarrow> esb_inv (snd rt)"

lemma keeps_inv_pair [simp]: "keeps_inv (r, t) = esb_inv t"
  by (simp add: keeps_inv_def)

lemma nrf_esb_disable_ok: "esb_inv s \<Longrightarrow> ok (nrf_esb_disable s) keeps_inv"
  by (auto simp: nrf_esb_disable_def Let_def reset_fifos_def inv_defs fifo_bounds_clear)

lemma esb_inv_timeout [simp]: "esb_inv (s\<lparr>m_wait_for_ack_timeout_us := x\<rparr>) = esb_inv s"
  by (simp add: inv_defs)

lemma esb_live_protocol: "esb_inv s \<Longrightarrow> esb_live (update_radio_protocol s)"
  by (auto simp: update_radio_protocol_def esb_live_def inv_defs split: nrf_esb_protocol_t.split)

lemma esb_live_wr:
  "RXMATCH (f (radio s)) = RXMATCH (radio s) \<Longrightarrow>
   disabled_poll (f (radio s)) = disabled_poll (radio s) \<Longrightarrow> esb_live (wr f s) = esb_live s"
  by (simp add: esb_live_def esb_inv_wr)

lemma esb_live_crc: "esb_live s \<Longrightarrow> esb_live (update_radio_crc s)"
  by (auto simp: update_radio_crc_def Let_def esb_live_wr)

lemma update_radio_parameters_ok:
  assumes "esb_inv s"
  shows "ok (update_radio_parameters s) esb_live"
proof -
  have "esb_inv (update_radio_bitrate (update_radio_tx_power s))"
    using assms by (simp add: update_radio_bitrate_def update_radio_tx_power_def esb_inv_wr Let_def)
  from esb_live_crc [OF esb_live_protocol [OF this]]
  show ?thesis by (auto simp: update_radio_parameters_def Let_def esb_live_wr esb_live_def esb_inv_wr)
qed

lemma esb_inv_initialize:
  assumes "esb_live s"
  shows "esb_inv (initialize_fifos s)"
  using assms by (simp add: initialize_fifos_def reset_fifos_def esb_live_def inv_defs fifo_bounds_clear)

lemma nrf_esb_init_ok:
  assumes "esb_inv s" and "call_pre (Call_init c) s"
  shows "ok (nrf_esb_init c s) keeps_inv"
proof (cases c)
  case None
  then show ?thesis using assms by (simp add: nrf_esb_init_def)
next
  case (Some cf)
  have d: "ok (if m_esb_initialized s then nrf_esb_disable s else Inr (NRF_SUCCESS, s))
      (\<lambda>(r, t). r = NRF_SUCCESS \<and> esb_inv t)"
    using nrf_esb_disable_ok [OF assms(1)] assms(1)
    by (simp add: nrf_esb_disable_def Let_def)
  have cfg: "esb_inv (t\<lparr>m_event_handler := cf_event_handler cf, m_config_local := cf,
      m_interrupt_flags := 0, m_rx_pipe_info := replicate 9 pipe_info_zero,
      m_pids := replicate 9 0\<rparr>)" if "esb_inv t" for t
    using that assms Some by (auto simp: inv_defs)
  have fin: "esb_inv ((initialize_fifos t)\<lparr>m_nrf_esb_mainstate := NRF_ESB_STATE_IDLE,
      m_esb_initialized := True\<rparr>)" if "esb_live t" for t
    using that esb_inv_initialize [OF that]
    by (auto simp: esb_live_def inv_defs initialize_fifos_def reset_fifos_def)
  show ?thesis
    unfolding nrf_esb_init_def Some option.case
    by (rule ok_then_doI [OF d])
      (auto simp: Let_def ppi_init_def sys_timer_init_def
        intro!: ok_mono [OF update_radio_parameters_ok [OF cfg]] fin)
qed

lemma tx_enqueue_ok:
  assumes "esb_live s" and "unat (pl_pipe p) < 9" and "payload_ok p" and "count (m_tx_fifo s) < 8"
  shows "ok (tx_enqueue p s) esb_live"
  using assms
  by (auto simp: tx_enqueue_def Let_def DISABLE_RF_IRQ_def ENABLE_RF_IRQ_def esb_live_def inv_defs
      fifo_bounds_push payload_ok_def intro!: list_all_list_updateI)

lemma tx_auto_start_ok: "esb_live s \<Longrightarrow> ok (tx_auto_start s) esb_inv"
  by (simp add: tx_auto_start_def esb_live_def start_tx_transaction_ok)

lemma nrf_esb_write_payload_ok:
  assumes inv: "esb_inv s" and pre: "call_pre (Call_write p) s"
  shows "ok (nrf_esb_write_payload p s) keeps_inv"
proof -
  have live: "esb_live s" if "m_esb_initialized s"
    using that inv inv_fn [OF inv] by (simp add: esb_live_def)
  have run: "ok (then_do (tx_enqueue q s) (\<lambda>s1. then_do (tx_auto_start s1)
      (\<lambda>s2. Inr (NRF_SUCCESS, s2)))) keeps_inv"
    if "p = Some q" "m_esb_initialized s" "\<not> bad_payload_length q s" "count (m_tx_fifo s) < 8" for q
  proof (rule ok_then_doI [OF tx_enqueue_ok [OF live]])
    fix t assume "esb_live t"
    from tx_auto_start_ok [OF this]
    show "ok (then_do (tx_auto_start t) (\<lambda>s2. Inr (NRF_SUCCESS, s2))) keeps_inv" by simp
  qed (use that pre in \<open>auto simp: bad_payload_length_def payload_ok_def\<close>)
  show ?thesis
    using inv run by (auto simp: nrf_esb_write_payload_def split: option.split simp del: ok_then_do)
qed

lemma nrf_esb_read_rx_payload_ok:
  assumes "esb_inv s" and "call_pre (Call_read p) s"
  shows "ok (nrf_esb_read_rx_payload p s) (\<lambda>(_, _, t). esb_inv t)"
proof -
  have h: "payload_ok (fifo_head (m_rx_fifo s))"
    using assms(1) by (auto simp: fifo_head_def inv_defs fifo_bounds_def list_all_length)
  show ?thesis
    using assms h
    by (cases p) (auto simp: nrf_esb_read_rx_payload_def Let_def DISABLE_RF_IRQ_def ENABLE_RF_IRQ_def
        payload_ok_def inv_defs fifo_bounds_pop)
qed

lemma nrf_esb_start_tx_ok:
  assumes "esb_inv s"
  shows "ok (nrf_esb_start_tx s) keeps_inv"
  using assms inv_fn [OF assms] ok_mono [OF start_tx_transaction_ok [OF assms]]
  by (auto simp: nrf_esb_start_tx_def)

lemma nrf_esb_start_rx_ok:
  assumes "esb_inv s" and "m_esb_initialized s"
  shows "ok (nrf_esb_start_rx s) keeps_inv"
  using assms by (auto simp: nrf_esb_start_rx_def Let_def inv_defs radio_task_def)

lemma nrf_esb_stop_rx_ok: "esb_inv s \<Longrightarrow> ok (nrf_esb_stop_rx s) keeps_inv"
  by (auto simp: nrf_esb_stop_rx_def Let_def inv_defs radio_task_def)

lemma nrf_esb_suspend_ok: "esb_inv s \<Longrightarrow> ok (nrf_esb_suspend s) keeps_inv"
  by (simp add: nrf_esb_suspend_def esb_inv_idle)

lemma flush_ok:
  assumes "esb_inv s"
  shows "ok (nrf_esb_flush_tx s) keeps_inv" "ok (nrf_esb_flush_rx s) keeps_inv"
    "ok (nrf_esb_pop_tx s) keeps_inv"
  using assms
  by (auto simp: nrf_esb_flush_tx_def nrf_esb_flush_rx_def nrf_esb_pop_tx_def Let_def
      DISABLE_RF_IRQ_def ENABLE_RF_IRQ_def inv_defs fifo_bounds_clear)
    (auto simp: fifo_bounds_def fifo_next_def)

end
