(* ===== verification/EsbMachine.thy ===== *)
theory EsbMachine
  imports EsbInv
begin

text \<open>
  The ESB module as a transition system: calls of its interface, its interrupts and the
  radio's own changes, in any order. The interface \<open>machine\<close> is interpreted on it with
  \<open>esb_inv\<close> as the invariant, and a second time, without \<open>nrf_esb_pop_tx\<close>, with the stronger
  invariant that both FIFOs are queues.
\<close>

unbundle bit_operations_syntax

section \<open>The configuration calls\<close>

lemma update_radio_addresses_ok:
  assumes "esb_inv s"
  shows "ok (update_radio_addresses m s) esb_inv"
proof -
  have "length (base_addr_p0 (m_esb_addr s)) = 4" "length (base_addr_p1 (m_esb_addr s)) = 4"
    "length (pipe_prefixes (m_esb_addr s)) = 8"
    using assms by (simp_all add: esb_inv_def arrays_ok_def)
  then show ?thesis using assms by (auto simp: update_radio_addresses_def esb_inv_wr ok_if)
qed

lemma set_addr_sel [simp]:
  "m_esb_initialized (set_addr f s) = m_esb_initialized s"
  "update_rf_payload_format_fn (set_addr f s) = update_rf_payload_format_fn s"
  "m_config_local (set_addr f s) = m_config_local s"
  "m_esb_addr (set_addr f s) = f (m_esb_addr s)"
  "radio (set_addr f s) = radio s"
  by (simp_all add: set_addr_def)

text \<open>An update of the address record that keeps the array sizes.\<close>

lemma esb_inv_set_addr:
  assumes "esb_inv s" and "length (base_addr_p0 (f (m_esb_addr s))) = 4"
    and "length (base_addr_p1 (f (m_esb_addr s))) = 4"
    and "length (pipe_prefixes (f (m_esb_addr s))) = 8"
  shows "esb_inv (set_addr f s)"
  using assms by (simp add: set_addr_def inv_defs)

lemma addr_sizes:
  "esb_inv s \<Longrightarrow> length (base_addr_p0 (m_esb_addr s)) = 4"
  "esb_inv s \<Longrightarrow> length (base_addr_p1 (m_esb_addr s)) = 4"
  "esb_inv s \<Longrightarrow> length (pipe_prefixes (m_esb_addr s)) = 8"
  by (simp_all add: esb_inv_def arrays_ok_def)

lemma nrf_esb_set_address_length_ok:
  assumes "esb_inv s" and "m_esb_initialized s"
  shows "ok (nrf_esb_set_address_length n s) keeps_inv"
  using assms inv_fn [of s]
  by (auto simp: nrf_esb_set_address_length_def Let_def esb_inv_wr addr_sizes
      intro!: esb_inv_set_addr)

lemma after_addresses:
  "esb_inv s \<Longrightarrow>
   ok (then_do (update_radio_addresses m s) (\<lambda>t. Inr (NRF_SUCCESS, t))) keeps_inv"
  using update_radio_addresses_ok [of s m] by simp

lemmas addr_call_rules = after_addresses esb_inv_set_addr

lemma nrf_esb_set_base_address_ok:
  assumes "esb_inv s" and "case p of None \<Rightarrow> True | Some a \<Rightarrow> 4 \<le> length a"
  shows "ok (nrf_esb_set_base_address_0 p s) keeps_inv"
    "ok (nrf_esb_set_base_address_1 p s) keeps_inv"
  using assms
  by (auto simp: nrf_esb_set_base_address_0_def nrf_esb_set_base_address_1_def addr_sizes
      split: option.splits intro!: ok_mono [OF update_radio_addresses_ok] esb_inv_set_addr)

lemma nrf_esb_set_prefixes_ok:
  assumes "esb_inv s" and "case p of None \<Rightarrow> True | Some a \<Rightarrow> unat n \<le> length a"
  shows "ok (nrf_esb_set_prefixes p n s) keeps_inv"
proof -
  have "unat n \<le> 8" if "n < 9" using that by (simp add: word_less_nat_alt)
  then show ?thesis
    using assms
    by (auto simp: nrf_esb_set_prefixes_def addr_sizes
        split: option.splits intro!: ok_mono [OF update_radio_addresses_ok] esb_inv_set_addr)
qed

lemma nrf_esb_update_prefix_ok:
  assumes "esb_inv s"
  shows "ok (nrf_esb_update_prefix pipe x s) keeps_inv"
proof -
  have "unat pipe < 8" if "pipe < 8" using that by (simp add: word_less_nat_alt)
  then show ?thesis
    using assms
    by (auto simp: nrf_esb_update_prefix_def addr_sizes
        intro!: ok_mono [OF update_radio_addresses_ok] esb_inv_set_addr)
qed

lemma radio_setting_calls_ok:
  assumes "esb_inv s"
  shows "ok (nrf_esb_enable_pipes m s) keeps_inv" "ok (nrf_esb_set_rf_channel c s) keeps_inv"
    "ok (nrf_esb_set_tx_power p s) keeps_inv"
  using assms
  by (auto simp: nrf_esb_enable_pipes_def nrf_esb_set_rf_channel_def nrf_esb_set_tx_power_def
      update_radio_tx_power_def addr_sizes intro!: esb_inv_set_addr)
    (auto simp: inv_defs)

section \<open>Every call\<close>

lemma call_pre_option:
  "call_pre (Call_set_base_address_0 p) s = (case p of None \<Rightarrow> True | Some a \<Rightarrow> 4 \<le> length a)"
  "call_pre (Call_set_base_address_1 p) s = (case p of None \<Rightarrow> True | Some a \<Rightarrow> 4 \<le> length a)"
  "call_pre (Call_set_prefixes p n) s = (case p of None \<Rightarrow> True | Some a \<Rightarrow> unat n \<le> length a)"
  by (cases p; simp)+

lemma run_call_ok:
  assumes "esb_inv s" and "call_pre c s"
  shows "ok (run_call c s) keeps_inv"
proof (cases c)
  case (Call_read p)
  with assms have "ok (nrf_esb_read_rx_payload p s) (\<lambda>(_, _, t). esb_inv t)"
    by (intro nrf_esb_read_rx_payload_ok) simp_all
  with Call_read show ?thesis by (auto simp: ok_iff)
next
  case (Call_init x)
  with assms show ?thesis using nrf_esb_init_ok [of s x] by simp
next
  case (Call_write x)
  with assms show ?thesis using nrf_esb_write_payload_ok [of s x] by simp
qed (use assms in \<open>simp_all add: nrf_esb_disable_ok nrf_esb_suspend_ok nrf_esb_start_tx_ok
    nrf_esb_start_rx_ok nrf_esb_stop_rx_ok flush_ok nrf_esb_set_address_length_ok
    nrf_esb_set_base_address_ok nrf_esb_set_prefixes_ok nrf_esb_update_prefix_ok
    radio_setting_calls_ok call_pre_option\<close>)

section \<open>Frame: what a function leaves alone\<close>

text \<open>Most functions change neither FIFO.\<close>

definition same_fifos :: "esb \<Rightarrow> esb \<Rightarrow> bool" where
  "same_fifos s t \<longleftrightarrow> m_tx_fifo t = m_tx_fifo s \<and> m_rx_fifo t = m_rx_fifo s"

definition queues :: "esb \<Rightarrow> bool" where
  "queues s \<longleftrightarrow> fifo_inv (m_tx_fifo s) \<and> fifo_inv (m_rx_fifo s)"

lemma queues_same: "same_fifos s t \<Longrightarrow> queues s \<Longrightarrow> queues t"
  by (simp add: same_fifos_def queues_def)

lemma post_same: "post m (same_fifos s) \<Longrightarrow> queues s \<Longrightarrow> post m queues"
  by (rule post_mono [OF _ queues_same])

lemma post_update_rf_payload_format [simp]:
  "post (update_rf_payload_format n s) P \<longleftrightarrow>
     (\<forall>p. update_rf_payload_format_fn s = Some p \<longrightarrow>
          P (wr (pcnf_regs p (addr_length (m_esb_addr s)) n) s))"
  by (auto simp: update_rf_payload_format_eq split: option.splits)

lemma post_tx_buffer_set: "post (tx_buffer_set b0 b1 d n s) (same_fifos s)"
  by (simp add: tx_buffer_set_def same_fifos_def)

lemma same_fifos_trans: "same_fifos s t \<Longrightarrow> same_fifos t u \<Longrightarrow> same_fifos s u"
  by (simp add: same_fifos_def)

lemma start_tx_sel [simp]:
  "m_tx_fifo (start_tx_ack s) = m_tx_fifo s" "m_rx_fifo (start_tx_ack s) = m_rx_fifo s"
  "m_tx_fifo (start_tx_noack s) = m_tx_fifo s" "m_rx_fifo (start_tx_noack s) = m_rx_fifo s"
  "m_tx_fifo (start_tx_radio p s) = m_tx_fifo s" "m_rx_fifo (start_tx_radio p s) = m_rx_fifo s"
  by (simp_all add: start_tx_ack_def start_tx_noack_def start_tx_radio_def)

lemma start_tx_transaction_fifos: "post (start_tx_transaction s) (same_fifos s)"
  by (auto simp: start_tx_transaction_def Let_def tx_buffer_set_def same_fifos_def
      split: nrf_esb_protocol_t.split)

lemma clear_events_restart_rx_fifos: "post (clear_events_restart_rx s) (same_fifos s)"
  by (auto simp: clear_events_restart_rx_def Let_def same_fifos_def)

lemma on_radio_disabled_tx_fifos: "post (on_radio_disabled_tx s) (same_fifos s)"
  by (auto simp: on_radio_disabled_tx_def Let_def same_fifos_def)

lemma tx_retransmit_fifos: "post (tx_retransmit s) (same_fifos s)"
  by (auto simp: tx_retransmit_def Let_def same_fifos_def split: option.split)

lemma on_radio_disabled_rx_ack_fifos: "post (on_radio_disabled_rx_ack s) (same_fifos s)"
  by (auto simp: on_radio_disabled_rx_ack_def Let_def same_fifos_def)

lemma update_radio_parameters_fifos: "post (update_radio_parameters s) (same_fifos s)"
  by (auto simp: update_radio_parameters_def update_radio_tx_power_def update_radio_bitrate_def
      update_radio_protocol_def update_radio_crc_def Let_def same_fifos_def
      split: nrf_esb_protocol_t.split)

lemma update_radio_addresses_fifos: "post (update_radio_addresses m s) (same_fifos s)"
proof -
  have a: "post (addr_conv bs) (\<lambda>_. True)" "post (bytewise_bit_swap bs i) (\<lambda>_. True)" for bs i
    by simp_all
  show ?thesis
    by (auto simp: update_radio_addresses_def same_fifos_def addr_conv_def bytewise_bit_swap_def
        load_u32_def)
qed

section \<open>Functions that change a FIFO keep it a queue\<close>

lemma rx_fifo_push_rfbuf_fifos:
  "post (rx_fifo_push_rfbuf pipe pid s) (\<lambda>(_, t).
     m_tx_fifo t = m_tx_fifo s \<and> (fifo_inv (m_rx_fifo s) \<longrightarrow> fifo_inv (m_rx_fifo t)))"
  by (auto simp: rx_fifo_push_rfbuf_def fifo_inv_push split: option.split)

lemma rx_fifo_push_rfbuf_queues:
  "queues s \<Longrightarrow> post (rx_fifo_push_rfbuf pipe pid s) (\<lambda>(_, t). queues t)"
  by (rule post_mono [OF rx_fifo_push_rfbuf_fifos]) (auto simp: queues_def)

lemma queues_sel [simp]:
  "queues (wr f s) = queues s" "queues (wp g s) = queues s"
  "queues (s\<lparr>m_interrupt_flags := x\<rparr>) = queues s"
  "queues (s\<lparr>m_nrf_esb_mainstate := st\<rparr>) = queues s"
  "queues (s\<lparr>m_last_tx_attempts := y\<rparr>) = queues s"
  "queues (s\<lparr>m_retransmits_remaining := y\<rparr>) = queues s"
  "queues (s\<lparr>on_radio_disabled := h\<rparr>) = queues s"
  "queues (s\<lparr>m_tx_payload_buffer := b\<rparr>) = queues s"
  "queues (s\<lparr>m_rx_payload_buffer := b\<rparr>) = queues s"
  "queues (s\<lparr>m_rx_pipe_info := ps\<rparr>) = queues s"
  "queues (s\<lparr>mp_current_payload := i\<rparr>) = queues s"
  "queues (set_addr g' s) = queues s"
  by (simp_all add: queues_def set_addr_def)

lemma queues_remove_last: "queues s \<Longrightarrow> queues (tx_fifo_remove_last s)"
  by (simp add: queues_def tx_fifo_remove_last_fifo fifo_inv_pop)

lemmas queue_frames = post_same [OF start_tx_transaction_fifos]
  post_same [OF clear_events_restart_rx_fifos] post_same [OF on_radio_disabled_tx_fifos]
  post_same [OF tx_retransmit_fifos] post_same [OF on_radio_disabled_rx_ack_fifos]
  post_same [OF update_radio_addresses_fifos]

lemma on_radio_disabled_tx_noack_queues: "queues s \<Longrightarrow> post (on_radio_disabled_tx_noack s) queues"
  by (auto simp: on_radio_disabled_tx_noack_def Let_def queues_remove_last intro!: queue_frames)

lemma tx_next_queues: "queues s \<Longrightarrow> post (tx_next s) queues"
  by (auto simp: tx_next_def intro!: queue_frames)

lemma tx_ack_payload_queues: "queues s \<Longrightarrow> post (tx_ack_payload s) queues"
  by (auto simp: tx_ack_payload_def intro!: post_mono [OF rx_fifo_push_rfbuf_queues])

lemma tx_acknowledged_queues: "queues s \<Longrightarrow> post (tx_acknowledged s) queues"
  unfolding tx_acknowledged_def Let_def post_simps
  by (rule post_mono [OF tx_ack_payload_queues]) (simp_all add: queues_remove_last tx_next_queues)

lemma wait_for_ack_queues: "queues s \<Longrightarrow> post (on_radio_disabled_tx_wait_for_ack s) queues"
  by (auto simp: on_radio_disabled_tx_wait_for_ack_def Let_def tx_given_up_def
      intro!: tx_acknowledged_queues queue_frames)

lemma ack_with_payload_queues: "queues s \<Longrightarrow> post (ack_with_payload pipe pinfo s) queues"
  by (auto simp: ack_with_payload_def Let_def)

lemma ack_without_payload_queues: "queues s \<Longrightarrow> post (ack_without_payload pipe pinfo s) queues"
  by (auto simp: ack_without_payload_def Let_def)

lemma ack_payload_done_queues:
  "queues s \<Longrightarrow> 0 < count (m_tx_fifo s) \<Longrightarrow> queues (ack_payload_done pinfo b s)"
  by (auto simp: ack_payload_done_def queues_def fifo_inv_pop)

lemma rx_prepare_ack_dpl_queues: "queues s \<Longrightarrow> post (rx_prepare_ack_dpl pipe b s) queues"
  by (auto simp: rx_prepare_ack_dpl_def ack_payload_done_queues
      intro!: post_mono [OF ack_with_payload_queues] post_mono [OF ack_without_payload_queues])

lemma rx_send_ack_queues: "queues s \<Longrightarrow> post (rx_send_ack pipe b s) queues"
  by (auto simp: rx_send_ack_def Let_def rx_prepare_ack_esb_def
      split: nrf_esb_protocol_t.split intro!: post_mono [OF rx_prepare_ack_dpl_queues])

lemma rx_deliver_queues: "queues s \<Longrightarrow> post (rx_deliver pipe pid s) queues"
  by (auto simp: rx_deliver_def intro!: post_mono [OF rx_fifo_push_rfbuf_queues])

lemma on_radio_disabled_rx_queues: "queues s \<Longrightarrow> post (on_radio_disabled_rx s) queues"
  by (auto simp: on_radio_disabled_rx_def Let_def
      intro!: queue_frames post_mono [OF rx_send_ack_queues] rx_deliver_queues
        post_mono [OF post_same [OF clear_events_restart_rx_fifos]])

lemma RADIO_IRQHandler_queues: "queues s \<Longrightarrow> post (RADIO_IRQHandler s) queues"
proof -
  have "post (call_on_radio_disabled t) queues" if "queues t" for t
    using that by (auto simp: call_on_radio_disabled_def
        on_radio_disabled_tx_noack_queues wait_for_ack_queues on_radio_disabled_rx_queues
        intro: queue_frames split: radio_handler.split)
  then show "queues s \<Longrightarrow> post (RADIO_IRQHandler s) queues"
    by (simp add: RADIO_IRQHandler_def Let_def)
qed

lemma queues_reset: "queues s \<Longrightarrow> queues (reset_fifos s)"
  by (simp add: queues_def reset_fifos_def fifo_inv_clear fifo_bounds_inv)

lemma nrf_esb_init_queues: "queues s \<Longrightarrow> post (nrf_esb_init c s) (\<lambda>(_, t). queues t)"
proof -
  assume q: "queues s"
  have d: "post (nrf_esb_disable s) (\<lambda>(r, t). queues t)"
    using queues_reset [of "wp (chenclr ppi_all_channels) s"] q
    by (simp add: nrf_esb_disable_def Let_def queues_def reset_fifos_def fifo_inv_clear fifo_bounds_inv)
  have u: "post (update_radio_parameters t) queues" if "queues t" for t
    using post_same [OF update_radio_parameters_fifos that] .
  have p: "queues (s\<lparr>m_event_handler := e, m_config_local := cf, m_interrupt_flags := 0,
      m_rx_pipe_info := ps, m_pids := pd\<rparr>)" if "queues s" for s e cf ps pd
    using that by (simp add: queues_def)
  have i: "queues ((initialize_fifos t)\<lparr>m_nrf_esb_mainstate := ms, m_esb_initialized := b\<rparr>)"
    if "queues t" for t ms b
    using queues_reset [OF that] by (simp add: queues_def initialize_fifos_def)
  show ?thesis
  proof (cases c)
    case None
    then show ?thesis using q by (simp add: nrf_esb_init_def)
  next
    case (Some cf)
    have "post (if m_esb_initialized s then nrf_esb_disable s else Inr (NRF_SUCCESS, s))
        (\<lambda>(r, t). queues t)"
      using d q by simp
    then show ?thesis
      unfolding nrf_esb_init_def Some option.case post_simps
      by (rule post_mono)
        (auto simp: Let_def ppi_init_def sys_timer_init_def intro!: post_mono [OF u] i p)
  qed
qed

lemma tx_enqueue_queues:
  "queues s \<Longrightarrow> count (m_tx_fifo s) < NRF_ESB_TX_FIFO_SIZE \<Longrightarrow> post (tx_enqueue p s) queues"
  by (auto simp: tx_enqueue_def Let_def DISABLE_RF_IRQ_def ENABLE_RF_IRQ_def queues_def fifo_inv_push)

lemma nrf_esb_write_payload_queues:
  assumes "queues s"
  shows "post (nrf_esb_write_payload p s) (\<lambda>(_, t). queues t)"
proof -
  have "post (tx_auto_start t) queues" if "queues t" for t
    using that by (auto simp: tx_auto_start_def intro: queue_frames)
  then show ?thesis using assms
    by (auto simp: nrf_esb_write_payload_def split: option.split
        intro!: post_mono [OF tx_enqueue_queues])
qed

lemma nrf_esb_read_rx_payload_queues:
  "queues s \<Longrightarrow> post (nrf_esb_read_rx_payload p s) (\<lambda>(_, _, t). queues t)"
  by (auto simp: nrf_esb_read_rx_payload_def Let_def DISABLE_RF_IRQ_def ENABLE_RF_IRQ_def
      queues_def fifo_inv_pop split: option.split)

lemma start_stop_queues:
  assumes "queues s"
  shows "post (nrf_esb_start_tx s) (\<lambda>(_, t). queues t)"
    "post (nrf_esb_start_rx s) (\<lambda>(_, t). queues t)"
    "post (nrf_esb_stop_rx s) (\<lambda>(_, t). queues t)"
    "post (nrf_esb_suspend s) (\<lambda>(_, t). queues t)"
    "post (nrf_esb_disable s) (\<lambda>(_, t). queues t)"
  using assms queues_reset [OF assms]
  by (auto simp: nrf_esb_start_tx_def nrf_esb_start_rx_def nrf_esb_stop_rx_def nrf_esb_suspend_def
      nrf_esb_disable_def Let_def intro!: post_mono [OF post_same [OF start_tx_transaction_fifos]])
    (simp_all add: queues_def reset_fifos_def)

lemma flush_queues:
  assumes "queues s"
  shows "post (nrf_esb_flush_tx s) (\<lambda>(_, t). queues t)"
    "post (nrf_esb_flush_rx s) (\<lambda>(_, t). queues t)"
  using assms
  by (auto simp: nrf_esb_flush_tx_def nrf_esb_flush_rx_def Let_def DISABLE_RF_IRQ_def
      ENABLE_RF_IRQ_def queues_def fifo_inv_clear fifo_bounds_inv)

lemma address_calls_queues:
  assumes "queues s"
  shows "post (nrf_esb_set_address_length n s) (\<lambda>(_, t). queues t)"
    "post (nrf_esb_set_base_address_0 a s) (\<lambda>(_, t). queues t)"
    "post (nrf_esb_set_base_address_1 a s) (\<lambda>(_, t). queues t)"
    "post (nrf_esb_set_prefixes a n s) (\<lambda>(_, t). queues t)"
    "post (nrf_esb_update_prefix n m s) (\<lambda>(_, t). queues t)"
    "post (nrf_esb_enable_pipes m s) (\<lambda>(_, t). queues t)"
    "post (nrf_esb_set_rf_channel c s) (\<lambda>(_, t). queues t)"
    "post (nrf_esb_set_tx_power q s) (\<lambda>(_, t). queues t)"
  using assms
  by (auto simp: nrf_esb_set_address_length_def nrf_esb_set_base_address_0_def
      nrf_esb_set_base_address_1_def nrf_esb_set_prefixes_def nrf_esb_update_prefix_def
      nrf_esb_enable_pipes_def nrf_esb_set_rf_channel_def nrf_esb_set_tx_power_def
      update_radio_tx_power_def Let_def split: option.split
      intro!: post_mono [OF post_same [OF update_radio_addresses_fifos]])
    (simp add: queues_def)

lemma run_call_queues:
  assumes "queues s" and "c \<noteq> Call_pop_tx"
  shows "post (run_call c s) (\<lambda>(_, t). queues t)"
proof (cases c)
  case (Call_read p)
  then show ?thesis using nrf_esb_read_rx_payload_queues [OF assms(1), of p]
    by (cases "nrf_esb_read_rx_payload p s") auto
qed (use assms in \<open>simp_all add: nrf_esb_init_queues nrf_esb_write_payload_queues
    start_stop_queues flush_queues address_calls_queues\<close>)

section \<open>The transition system\<close>

text \<open>
  \<open>adm\<close> restricts the calls. The radio may at any time raise events and change its status
  registers, fill the receive buffer while it is the packet pointer, and the timer may reach its
  compare values. A call runs to its end before the next step (the sections that share data with
  the interrupt are those between \<open>DISABLE_RF_IRQ\<close> and \<open>ENABLE_RF_IRQ\<close>).
\<close>

inductive esb_step :: "(esb_call \<Rightarrow> bool) \<Rightarrow> esb \<Rightarrow> esb \<Rightarrow> bool" for adm where
  call: "adm c \<Longrightarrow> call_pre c s \<Longrightarrow> run_call c s = Inr (r, t) \<Longrightarrow> esb_step adm s t"
| radio_irq: "RADIO_IRQ_enabled (periph s) \<Longrightarrow> RADIO_IRQHandler s = Inr t \<Longrightarrow> esb_step adm s t"
| event_irq: "nrf_esb_get_clear_interrupts s = Inr (r, flags, t) \<Longrightarrow> esb_step adm s t"
| radio_events: "unat rxm < 8 \<Longrightarrow> \<exists>k. poll k \<Longrightarrow>
    esb_step adm s (wr (\<lambda>r. r\<lparr>EVENTS_READY := e1, EVENTS_ADDRESS := e2, EVENTS_PAYLOAD := e3,
      EVENTS_END := e4, EVENTS_DISABLED := e5, CRCSTATUS := crcs, RXMATCH := rxm, RXCRC := crc,
      RSSISAMPLE := rssi, disabled_poll := poll\<rparr>) s)"
| radio_packet: "PACKETPTR (radio s) = Rx_buffer \<Longrightarrow> length b = 34 \<Longrightarrow>
    esb_step adm s (s\<lparr>m_rx_payload_buffer := b\<rparr>)"
| timer_events: "esb_step adm s (wp (\<lambda>p. p\<lparr>EVENTS_COMPARE0 := e1, EVENTS_COMPARE1 := e2\<rparr>) s)"

inductive_cases esb_stepE: "esb_step adm s t"

definition esb_start :: "esb \<Rightarrow> bool" where
  "esb_start s \<longleftrightarrow> (\<exists>r p. radio_ok r \<and> s = esb_reset r p)"

lemma esb_reset_inv: "radio_ok r \<Longrightarrow> esb_inv (esb_reset r p)"
  by (simp add: inv_defs esb_reset_def fifo_bounds_def payload_ok_def payload_zero_def
      NRF_ESB_ADDR_DEFAULT_def config_zero_def list_all_iff)

lemma esb_reset_queues: "queues (esb_reset r p)"
  by (simp add: queues_def esb_reset_def fifo_inv_def fifo_bounds_def)

lemma esb_step_inv:
  assumes "esb_inv s" and "esb_step adm s t"
  shows "esb_inv t"
  using assms(2)
proof cases
  case (call c r)
  then show ?thesis using ok_result [OF run_call_ok [OF assms(1)]] by fastforce
next
  case radio_irq
  then show ?thesis using ok_result [OF RADIO_IRQHandler_ok [OF assms(1)]] by blast
next
  case (event_irq r flags)
  then show ?thesis using ok_result [OF nrf_esb_get_clear_interrupts_ok [OF assms(1)]] by fastforce
qed (use assms(1) in \<open>auto simp: inv_defs\<close>)

lemma esb_step_queues:
  assumes "queues s" and "esb_step (\<lambda>c. c \<noteq> Call_pop_tx) s t"
  shows "queues t"
  using assms(2)
proof cases
  case (call c r)
  then show ?thesis using postD [OF run_call_queues [OF assms(1)]] by fastforce
next
  case radio_irq
  then show ?thesis using postD [OF RADIO_IRQHandler_queues [OF assms(1)]] by blast
next
  case (event_irq r flags)
  then show ?thesis using assms(1)
    by (auto simp: nrf_esb_get_clear_interrupts_def Let_def DISABLE_RF_IRQ_def ENABLE_RF_IRQ_def
        split: if_splits)
qed (use assms(1) in simp_all)

interpretation esb_machine: machine esb_start "esb_step adm" esb_inv for adm
  by unfold_locales (auto simp: esb_start_def esb_reset_inv intro: esb_step_inv)

interpretation esb_queue_machine: machine esb_start "esb_step (\<lambda>c. c \<noteq> Call_pop_tx)" queues
  by unfold_locales (auto simp: esb_start_def esb_reset_queues intro: esb_step_queues)

definition esb_reachable :: "(esb_call \<Rightarrow> bool) \<Rightarrow> esb \<Rightarrow> bool" where
  "esb_reachable adm t \<longleftrightarrow> (\<exists>s. esb_start s \<and> (esb_step adm)\<^sup>*\<^sup>* s t)"

lemma esb_reachable_inv: "esb_reachable adm s \<Longrightarrow> esb_inv s"
  unfolding esb_reachable_def using esb_machine.reachable_inv by blast

lemma esb_reachable_queues: "esb_reachable (\<lambda>c. c \<noteq> Call_pop_tx) s \<Longrightarrow> queues s"
  unfolding esb_reachable_def using esb_queue_machine.reachable_inv by blast

end
