(* ===== verification/EsbSpec.thy ===== *)
theory EsbSpec
  imports EsbMachine
begin

text \<open>
  What the ESB module promises its callers, stated on an abstract state: two bounded queues
  of payloads and a packet-ID counter per pipe. The sending and reading functions refine the operations
  on that state (\<open>spec_write\<close>, \<open>spec_read\<close>), every error code included; \<open>nrf_esb_pop_tx\<close> does not.
\<close>

unbundle bit_operations_syntax

section \<open>The abstract state\<close>

record esb_view =
  tx_queue :: "nrf_esb_payload_t list"
  rx_queue :: "nrf_esb_payload_t list"
  pid_counters :: "u8 list"

definition view :: "esb \<Rightarrow> esb_view" where
  "view s = \<lparr>tx_queue = fifo_contents (m_tx_fifo s), rx_queue = fifo_contents (m_rx_fifo s),
             pid_counters = m_pids s\<rparr>"

lemma view_same:
  "same_fifos s t \<Longrightarrow> m_pids t = m_pids s \<Longrightarrow> view t = view s"
  by (simp add: view_def same_fifos_def)

section \<open>Writing\<close>

text \<open>The return code, in the order of the checks.\<close>

definition write_code :: "nrf_esb_payload_t option \<Rightarrow> esb \<Rightarrow> ret_code" where
  "write_code p s =
     (if \<not> m_esb_initialized s then NRF_ERROR_INVALID_STATE
      else case p of
        None \<Rightarrow> NRF_ERROR_NULL
      | Some q \<Rightarrow>
          if bad_payload_length q s then NRF_ERROR_INVALID_LENGTH
          else if length (tx_queue (view s)) \<ge> NRF_ESB_TX_FIFO_SIZE then NRF_ERROR_NO_MEM
          else if cf_mode (m_config_local s) = NRF_ESB_MODE_PTX \<and> pl_noack q \<noteq> 0 \<and>
                  \<not> cf_selective_auto_ack (m_config_local s)
          then NRF_ERROR_NOT_SUPPORTED
          else NRF_SUCCESS)"

text \<open>A successful write appends the payload under the pipe's next packet ID.\<close>

definition spec_write :: "nrf_esb_payload_t \<Rightarrow> esb_view \<Rightarrow> esb_view" where
  "spec_write p v =
     (let pid = next_pid (pid_counters v ! unat (pl_pipe p))
      in v\<lparr>tx_queue := tx_queue v @ [p\<lparr>pl_pid := pid\<rparr>],
           pid_counters := (pid_counters v)[unat (pl_pipe p) := pid]\<rparr>)"

lemma start_tx_transaction_pids: "post (start_tx_transaction s) (\<lambda>t. m_pids t = m_pids s)"
  by (auto simp: start_tx_transaction_def Let_def tx_buffer_set_def start_tx_ack_def
      start_tx_noack_def start_tx_radio_def split: nrf_esb_protocol_t.split)

lemma start_tx_transaction_view: "post (start_tx_transaction s) (\<lambda>t. view t = view s)"
proof (cases "start_tx_transaction s")
  case (Inr t)
  then show ?thesis
    using postD [OF start_tx_transaction_fifos Inr] postD [OF start_tx_transaction_pids Inr]
    by (simp add: view_same)
qed simp

lemma tx_enqueue_view:
  assumes "queues s" and "count (m_tx_fifo s) < NRF_ESB_TX_FIFO_SIZE"
  shows "post (tx_enqueue p s) (\<lambda>t. view t = spec_write p (view s))"
  using assms
  by (auto simp: tx_enqueue_def Let_def DISABLE_RF_IRQ_def ENABLE_RF_IRQ_def view_def
      spec_write_def queues_def fifo_contents_push)

lemma tx_auto_start_view: "post (tx_auto_start s) (\<lambda>t. view t = view s)"
  by (simp add: tx_auto_start_def start_tx_transaction_view)

lemma write_payload_refines:
  assumes "esb_inv s" and "queues s" and "call_pre (Call_write p) s"
  shows "ok (nrf_esb_write_payload p s) (\<lambda>(r, t). r = write_code p s \<and>
     (if r = NRF_SUCCESS then view t = spec_write (the p) (view s) else t = s))"
proof (rule ok_postI [OF nrf_esb_write_payload_ok [OF assms(1,3)]])
  show "post (nrf_esb_write_payload p s) (\<lambda>(r, t). r = write_code p s \<and>
     (if r = NRF_SUCCESS then view t = spec_write (the p) (view s) else t = s))"
    using assms(2)
    by (auto simp: nrf_esb_write_payload_def write_code_def view_def [of s] split: option.split
        intro!: post_mono [OF tx_enqueue_view] post_mono [OF tx_auto_start_view])
qed

section \<open>Reading\<close>

definition read_code :: "nrf_esb_payload_t option \<Rightarrow> esb \<Rightarrow> ret_code" where
  "read_code p s =
     (if \<not> m_esb_initialized s then NRF_ERROR_INVALID_STATE
      else if p = None then NRF_ERROR_NULL
      else if rx_queue (view s) = [] then NRF_ERROR_NOT_FOUND
      else NRF_SUCCESS)"

text \<open>A successful read takes the oldest payload and copies it into the caller's.\<close>

definition spec_read :: "nrf_esb_payload_t \<Rightarrow> esb_view \<Rightarrow> nrf_esb_payload_t \<times> esb_view" where
  "spec_read p v =
     (let h = hd (rx_queue v)
      in (p\<lparr>pl_length := pl_length h, pl_pipe := pl_pipe h, pl_rssi := pl_rssi h,
           pl_pid := pl_pid h,
           pl_data := take (unat (pl_length h)) (pl_data h)
                      @ drop (unat (pl_length h)) (pl_data p)\<rparr>,
          v\<lparr>rx_queue := tl (rx_queue v)\<rparr>))"

lemma read_rx_payload_refines:
  assumes "esb_inv s" and "queues s" and "call_pre (Call_read p) s"
  shows "ok (nrf_esb_read_rx_payload p s) (\<lambda>(r, q, t). r = read_code p s \<and>
     (if r = NRF_SUCCESS then map_option (\<lambda>x. (x, view t)) q = Some (spec_read (the p) (view s))
      else q = p \<and> t = s))"
proof (rule ok_postI [OF nrf_esb_read_rx_payload_ok [OF assms(1,3)]])
  show "post (nrf_esb_read_rx_payload p s) (\<lambda>(r, q, t). r = read_code p s \<and>
     (if r = NRF_SUCCESS then map_option (\<lambda>x. (x, view t)) q = Some (spec_read (the p) (view s))
      else q = p \<and> t = s))"
    using assms(2)
    by (auto simp: nrf_esb_read_rx_payload_def read_code_def view_def spec_read_def Let_def
        DISABLE_RF_IRQ_def ENABLE_RF_IRQ_def queues_def fifo_contents_pop fifo_head_contents
        split: option.split)
qed

section \<open>Packet IDs\<close>

lemma unat_next_pid: "unat (next_pid p) = (unat p + 1) mod 4"
  by (simp add: next_pid_def unat_of_nat)

lemma next_pid_neq: "next_pid p \<noteq> p"
proof
  assume "next_pid p = p"
  then have "(unat p + 1) mod 4 = unat p" using unat_next_pid [of p] by simp
  then show False by presburger
qed

lemma next_pid_iterate: "unat ((next_pid ^^ n) 0) = n mod 4"
proof (induction n)
  case (Suc n)
  then show ?case by (simp add: unat_next_pid mod_simps)
qed simp

section \<open>The function that does not refine the queue\<close>

text \<open>
  \<open>nrf_esb_pop_tx\<close> drops the newest payload from the part of the ring that \<open>count\<close> and
  \<open>exit_point\<close> describe, and leaves \<open>entry_point\<close> two slots beyond it.
\<close>

lemma ring_slice_butlast: "0 < n \<Longrightarrow> ring_slice buf st (n - 1) = butlast (ring_slice buf st n)"
  by (cases n) (simp_all add: ring_slice_def)

lemma ring_slice_update_other:
  assumes "j < length buf" and "\<And>i. i < n \<Longrightarrow> (st + i) mod length buf \<noteq> j"
  shows "ring_slice (buf[j := x]) st n = ring_slice buf st n"
proof -
  have "buf[j := x] ! ((st + i) mod length buf) = buf ! ((st + i) mod length buf)" if "i < n" for i
    using assms(2) [OF that] by simp
  then show ?thesis by (simp add: ring_slice_def)
qed

definition pop_tx_fifo :: "nrf_esb_payload_fifo_t \<Rightarrow> nrf_esb_payload_fifo_t" where
  "pop_tx_fifo f = f\<lparr>entry_point := fifo_next (entry_point f), count := count f - 1\<rparr>"

lemma nrf_esb_pop_tx_fifo:
  "m_esb_initialized s \<Longrightarrow> 0 < count (m_tx_fifo s) \<Longrightarrow>
   ok (nrf_esb_pop_tx s) (\<lambda>(r, t). r = NRF_SUCCESS \<and> m_tx_fifo t = pop_tx_fifo (m_tx_fifo s))"
  by (simp add: nrf_esb_pop_tx_def Let_def DISABLE_RF_IRQ_def ENABLE_RF_IRQ_def pop_tx_fifo_def)

lemma pop_tx_fifo_contents:
  "0 < count f \<Longrightarrow> fifo_contents (pop_tx_fifo f) = butlast (fifo_contents f)"
  using ring_slice_butlast [of "count f" "p_payload f" "exit_point f"]
  by (simp add: pop_tx_fifo_def fifo_contents_def)

text \<open>The next payload lands behind a hole: the queue shows the dropped payload again instead of it.\<close>

lemma push_after_pop_tx:
  assumes "fifo_inv f" and "0 < count f" and "Suc (count f) < NRF_ESB_TX_FIFO_SIZE"
  shows "fifo_contents (fifo_push x (pop_tx_fifo f)) = fifo_contents f"
proof -
  let ?j = "fifo_next (entry_point f)"
  have len: "length (p_payload f) = 8" and e: "entry_point f = (exit_point f + count f) mod 8"
    using assms(1) by (simp_all add: fifo_inv_def fifo_bounds_def)
  have j: "?j = (exit_point f + Suc (count f)) mod 8"
    using e by (simp add: fifo_next_mod mod_simps)
  have "(exit_point f + i) mod 8 \<noteq> ?j" if "i < count f" for i
    using that assms(3) mod_add_inj_less [of i "Suc (count f)" 8 "exit_point f"] j by simp
  then have "ring_slice ((p_payload f)[?j := x]) (exit_point f) (count f)
      = ring_slice (p_payload f) (exit_point f) (count f)"
    by (intro ring_slice_update_other) (simp_all add: len fifo_next_def)
  then show ?thesis using assms(2)
    by (simp add: fifo_push_def pop_tx_fifo_def fifo_contents_def)
qed

end
