(* ===== verification/EsbLink.thy ===== *)
theory EsbLink
  imports EsbSpec
begin

text \<open>
  One packet over the air: what the transmitter puts into its buffer, how often it sends it,
  and what the receiver makes of the bytes. \<open>ptx_round\<close> is one transmission followed by its receive
  window; the lemmas follow a transaction from its start to success or failure, for every sequence
  of outcomes, and a packet from the sender's FIFO to the receiver's.
\<close>

unbundle bit_operations_syntax

section \<open>The start of a transaction\<close>

text \<open>The packet ID and flag byte of the dynamic protocol.\<close>

definition pid_byte :: "u8 \<Rightarrow> bool \<Rightarrow> u8" where
  "pid_byte pid ack = push_bit 1 pid OR (if ack then 0x00 else 0x01)"

lemma pid_byte_pid: "unat pid < 128 \<Longrightarrow> drop_bit 1 (pid_byte pid ack) = pid"
proof (rule bit_word_eqI)
  fix i assume p: "unat pid < 128" and i: "i < LENGTH(8)"
  have "\<not> bit pid 7"
    using p by (simp add: bit_iff_odd_drop_bit drop_bit_eq_div word_arith_nat_div unat_of_nat
        flip: unat_eq_0)
  then show "bit (drop_bit 1 (pid_byte pid ack)) i = bit pid i"
    using i unfolding pid_byte_def bit_drop_bit_eq comp_def bit_or_iff bit_push_bit_iff
    by (cases "i = 7") (auto simp: bit_1_iff)
qed

lemma pid_byte_noack: "pid_byte pid ack AND 1 = (if ack then 0 else 1)"
  by (rule bit_word_eqI, unfold pid_byte_def bit_and_iff bit_or_iff bit_push_bit_iff)
    (auto simp: bit_1_iff)

text \<open>The head of the TX FIFO is sent, and nothing else of the module changes but its control state.\<close>

definition needs_ack :: "esb \<Rightarrow> bool" where
  "needs_ack s \<longleftrightarrow> cf_protocol (m_config_local s) = NRF_ESB_PROTOCOL_ESB
     \<or> payload_ack (fifo_head (m_tx_fifo s)) s"

definition same_setup :: "esb \<Rightarrow> esb \<Rightarrow> bool" where
  "same_setup s t \<longleftrightarrow> m_config_local t = m_config_local s \<and> m_pids t = m_pids s \<and>
     m_esb_initialized t = m_esb_initialized s \<and> m_rx_pipe_info t = m_rx_pipe_info s \<and>
     m_rx_payload_buffer t = m_rx_payload_buffer s"

lemma same_setup_refl [simp]: "same_setup s s"
  by (simp add: same_setup_def)

lemma same_setup_trans: "same_setup s t \<Longrightarrow> same_setup t u \<Longrightarrow> same_setup s u"
  by (simp add: same_setup_def)

lemma start_tx_transaction_post:
  "post (start_tx_transaction s) (\<lambda>t. same_fifos s t \<and> same_setup s t \<and>
     m_interrupt_flags t = m_interrupt_flags s \<and> m_last_tx_attempts t = 1 \<and>
     (if needs_ack s
      then m_nrf_esb_mainstate t = NRF_ESB_STATE_PTX_TX_ACK \<and>
           on_radio_disabled t = On_radio_disabled_tx \<and>
           m_retransmits_remaining t = ucast (cf_retransmit_count (m_config_local s))
      else m_nrf_esb_mainstate t = NRF_ESB_STATE_PTX_TX \<and>
           on_radio_disabled t = On_radio_disabled_tx_noack))"
  by (auto simp: start_tx_transaction_def Let_def tx_buffer_set_def start_tx_ack_def
      start_tx_noack_def start_tx_radio_def same_fifos_def same_setup_def needs_ack_def
      payload_ack_def fifo_head_def split: nrf_esb_protocol_t.split)

lemma start_tx_transaction_buffer:
  assumes "cf_protocol (m_config_local s) = NRF_ESB_PROTOCOL_ESB_DPL"
  shows "post (start_tx_transaction s) (\<lambda>t.
     let p = fifo_head (m_tx_fifo s); n = unat (pl_length p); buf = m_tx_payload_buffer t in
     2 + n \<le> length buf \<and> n \<le> length (pl_data p) \<and>
     buf ! 0 = pl_length p \<and> buf ! 1 = pid_byte (pl_pid p) (payload_ack p s) \<and>
     take n (drop 2 buf) = take n (pl_data p))"
proof -
  have set: "post (tx_buffer_set b0 b1 d n u) (\<lambda>t. 2 + n \<le> length (m_tx_payload_buffer t) \<and>
      n \<le> length d \<and> m_tx_payload_buffer t ! 0 = b0 \<and> m_tx_payload_buffer t ! 1 = b1 \<and>
      take n (drop 2 (m_tx_payload_buffer t)) = take n d)" for b0 b1 d n u
    by (cases "m_tx_payload_buffer u" rule: list.exhaust [case_names Nil Cons];
        cases "tl (m_tx_payload_buffer u)")
      (auto simp: tx_buffer_set_def)
  have fin: "m_tx_payload_buffer (start_tx_radio p (if c then start_tx_ack u else start_tx_noack u))
      = m_tx_payload_buffer u" for p c u
    by (simp add: start_tx_radio_def start_tx_ack_def start_tx_noack_def)
  show ?thesis
    using assms
    by (auto simp: start_tx_transaction_def Let_def fin fifo_head_def pid_byte_def payload_ack_def
        intro!: post_mono [OF set])
qed

section \<open>Transmissions and receive windows\<close>

text \<open>
  A round: the DISABLED event at the end of the transmission, then the one at the end of the receive
  window, in which the radio has received a packet (\<open>e\<close>) with CRC status \<open>c\<close>.
\<close>

definition ptx_round :: "bool \<times> u32 \<Rightarrow> esb \<Rightarrow> esb result" where
  "ptx_round ec s =
     then_do (call_on_radio_disabled s) (\<lambda>t.
       call_on_radio_disabled (wr (\<lambda>r. r\<lparr>EVENTS_END := fst ec, CRCSTATUS := snd ec\<rparr>) t))"

fun ptx_rounds :: "(bool \<times> u32) list \<Rightarrow> esb \<Rightarrow> esb result" where
  "ptx_rounds [] s = Inr s"
| "ptx_rounds (ec # ecs) s = then_do (ptx_round ec s) (ptx_rounds ecs)"

definition acked :: "bool \<times> u32 \<Rightarrow> bool" where
  "acked ec \<longleftrightarrow> fst ec \<and> snd ec \<noteq> 0"

lemma on_radio_disabled_tx_post:
  "post (on_radio_disabled_tx s) (\<lambda>t. same_fifos s t \<and> same_setup s t \<and>
     m_interrupt_flags t = m_interrupt_flags s \<and>
     m_retransmits_remaining t = m_retransmits_remaining s \<and>
     m_nrf_esb_mainstate t = NRF_ESB_STATE_PTX_RX_ACK \<and>
     on_radio_disabled t = On_radio_disabled_tx_wait_for_ack)"
  by (auto simp: on_radio_disabled_tx_def Let_def same_fifos_def same_setup_def)

lemma tx_retransmit_post:
  "post (tx_retransmit s) (\<lambda>t. same_fifos s t \<and> same_setup s t \<and>
     m_interrupt_flags t = m_interrupt_flags s \<and>
     m_retransmits_remaining t = m_retransmits_remaining s \<and>
     m_nrf_esb_mainstate t = NRF_ESB_STATE_PTX_TX_ACK \<and>
     on_radio_disabled t = On_radio_disabled_tx)"
  by (auto simp: tx_retransmit_def Let_def same_fifos_def same_setup_def split: option.split)

definition lost_result :: "esb \<Rightarrow> esb \<Rightarrow> bool" where
  "lost_result s t \<longleftrightarrow> same_fifos s t \<and> same_setup s t \<and>
     (if m_retransmits_remaining s = 0
      then m_nrf_esb_mainstate t = NRF_ESB_STATE_IDLE \<and>
           m_interrupt_flags t = m_interrupt_flags s OR NRF_ESB_INT_TX_FAILED_MSK \<and>
           m_last_tx_attempts t = ucast (cf_retransmit_count (m_config_local s)) + 1
      else m_nrf_esb_mainstate t = NRF_ESB_STATE_PTX_TX_ACK \<and>
           on_radio_disabled t = On_radio_disabled_tx \<and>
           m_interrupt_flags t = m_interrupt_flags s \<and>
           m_retransmits_remaining t = m_retransmits_remaining s - 1)"

lemma ptx_round_ok:
  assumes "esb_inv s"
  shows "ok (ptx_round ec s) esb_inv"
  unfolding ptx_round_def
proof (rule ok_then_doI [OF call_on_radio_disabled_ok [OF assms]])
  fix t assume "esb_inv t"
  then show "ok (call_on_radio_disabled (wr (\<lambda>r. r\<lparr>EVENTS_END := fst ec, CRCSTATUS := snd ec\<rparr>) t))
      esb_inv"
    by (intro call_on_radio_disabled_ok) (simp add: esb_inv_wr)
qed

lemma wait_for_ack_lost:
  assumes "\<not> (EVENTS_END (radio s) \<and> CRCSTATUS (radio s) \<noteq> 0)"
  shows "post (on_radio_disabled_tx_wait_for_ack s) (lost_result s)"
  using assms
  by (auto simp: on_radio_disabled_tx_wait_for_ack_def Let_def lost_result_def tx_given_up_def
      same_fifos_def same_setup_def intro!: post_mono [OF tx_retransmit_post])

lemma ptx_round_lost:
  assumes "on_radio_disabled s = On_radio_disabled_tx" and "\<not> acked ec"
  shows "post (ptx_round ec s) (lost_result s)"
  using assms
  by (auto simp: ptx_round_def call_on_radio_disabled_def acked_def
      intro!: post_mono [OF on_radio_disabled_tx_post] post_mono [OF wait_for_ack_lost])
    (auto simp: lost_result_def same_fifos_def same_setup_def)

text \<open>
  After an acknowledgment the head of the TX FIFO is done, and the attempts are counted, unless
  the next transaction has already started the count again.
\<close>

definition acked_result :: "esb \<Rightarrow> esb \<Rightarrow> bool" where
  "acked_result s t \<longleftrightarrow>
     m_tx_fifo t = (if 0 < count (m_tx_fifo s) then fifo_pop (m_tx_fifo s) else m_tx_fifo s) \<and>
     m_config_local t = m_config_local s \<and>
     m_interrupt_flags t AND NRF_ESB_INT_TX_SUCCESS_MSK = NRF_ESB_INT_TX_SUCCESS_MSK \<and>
     (if count (m_tx_fifo t) = 0 \<or> cf_tx_mode (m_config_local s) = NRF_ESB_TXMODE_MANUAL
      then m_nrf_esb_mainstate t = NRF_ESB_STATE_IDLE \<and>
           m_last_tx_attempts t =
             ucast (cf_retransmit_count (m_config_local s)) - m_retransmits_remaining s + 1
      else m_last_tx_attempts t = 1)"

lemma success_flag [simp]:
  "(x OR NRF_ESB_INT_TX_SUCCESS_MSK) AND NRF_ESB_INT_TX_SUCCESS_MSK = NRF_ESB_INT_TX_SUCCESS_MSK"
  "((x OR NRF_ESB_INT_TX_SUCCESS_MSK) OR y) AND NRF_ESB_INT_TX_SUCCESS_MSK = NRF_ESB_INT_TX_SUCCESS_MSK"
  by (rule bit_word_eqI; auto simp: bit_simps)+

lemma rx_fifo_push_rfbuf_frame:
  "post (rx_fifo_push_rfbuf pipe pid s) (\<lambda>(_, t). \<exists>f. t = s\<lparr>m_rx_fifo := f\<rparr>)"
proof -
  have "\<exists>f. s = s\<lparr>m_rx_fifo := f\<rparr>" by (rule exI [of _ "m_rx_fifo s"]) simp
  then show ?thesis by (auto simp: rx_fifo_push_rfbuf_def split: option.split)
qed

lemma tx_ack_payload_post:
  "post (tx_ack_payload s) (\<lambda>t. m_tx_fifo t = m_tx_fifo s \<and> m_config_local t = m_config_local s \<and>
     m_last_tx_attempts t = m_last_tx_attempts s \<and>
     (m_interrupt_flags t = m_interrupt_flags s \<or>
      m_interrupt_flags t = m_interrupt_flags s OR NRF_ESB_INT_RX_DATA_RECEIVED_MSK))"
  by (auto simp: tx_ack_payload_def intro!: post_mono [OF rx_fifo_push_rfbuf_frame])

lemma tx_next_post:
  "post (tx_next s) (\<lambda>t. m_tx_fifo t = m_tx_fifo s \<and> m_config_local t = m_config_local s \<and>
     m_interrupt_flags t = m_interrupt_flags s \<and>
     (if count (m_tx_fifo s) = 0 \<or> cf_tx_mode (m_config_local s) = NRF_ESB_TXMODE_MANUAL
      then m_nrf_esb_mainstate t = NRF_ESB_STATE_IDLE \<and> m_last_tx_attempts t = m_last_tx_attempts s
      else m_last_tx_attempts t = 1))"
  by (auto simp: tx_next_def same_fifos_def same_setup_def
      intro!: post_mono [OF start_tx_transaction_post])

lemma tx_acknowledged_post: "post (tx_acknowledged s) (acked_result s)"
proof -
  let ?f = "m_interrupt_flags s OR NRF_ESB_INT_TX_SUCCESS_MSK"
  have fin: "post (tx_next a) (acked_result s)"
    if "m_tx_fifo a = (if 0 < count (m_tx_fifo s) then fifo_pop (m_tx_fifo s) else m_tx_fifo s)"
      and "m_config_local a = m_config_local s"
      and "m_last_tx_attempts a =
        ucast (cf_retransmit_count (m_config_local s)) - m_retransmits_remaining s + 1"
      and "m_interrupt_flags a AND NRF_ESB_INT_TX_SUCCESS_MSK = NRF_ESB_INT_TX_SUCCESS_MSK" for a
    by (rule post_mono [OF tx_next_post]) (use that in \<open>simp add: acked_result_def\<close>)
  show ?thesis
    unfolding tx_acknowledged_def Let_def post_simps
    by (rule post_mono [OF tx_ack_payload_post], rule fin)
      (auto simp: tx_fifo_remove_last_fifo simp del: count_pop)
qed

lemma wait_for_ack_acked:
  assumes "EVENTS_END (radio s)" and "CRCSTATUS (radio s) \<noteq> 0"
  shows "post (on_radio_disabled_tx_wait_for_ack s) (acked_result s)"
  using assms
  by (auto simp: on_radio_disabled_tx_wait_for_ack_def Let_def
      intro!: post_mono [OF tx_acknowledged_post])
    (simp add: acked_result_def)

lemma ptx_round_acked:
  assumes "on_radio_disabled s = On_radio_disabled_tx" and "acked ec"
  shows "post (ptx_round ec s) (acked_result s)"
  using assms
  by (auto simp: ptx_round_def call_on_radio_disabled_def acked_def
      intro!: post_mono [OF on_radio_disabled_tx_post] post_mono [OF wait_for_ack_acked])
    (auto simp: acked_result_def same_fifos_def same_setup_def)

text \<open>Any number of lost rounds, as many as are left or fewer.\<close>

lemma unat_pred: "w \<noteq> 0 \<Longrightarrow> unat (w - 1) = unat w - 1" for w :: u32
  by (rule unat_minus_one)

definition waiting :: "esb \<Rightarrow> bool" where
  "waiting s \<longleftrightarrow> esb_inv s \<and> on_radio_disabled s = On_radio_disabled_tx"

lemma lost_rounds:
  assumes "waiting s" and "length ecs \<le> unat (m_retransmits_remaining s)"
    and "list_all (\<lambda>ec. \<not> acked ec) ecs"
  shows "ok (ptx_rounds ecs s) (\<lambda>t. waiting t \<and> same_fifos s t \<and> same_setup s t \<and>
     m_interrupt_flags t = m_interrupt_flags s \<and>
     unat (m_retransmits_remaining t) = unat (m_retransmits_remaining s) - length ecs)"
  using assms
proof (induction ecs arbitrary: s)
  case Nil
  then show ?case by (simp add: same_fifos_def)
next
  case (Cons ec ecs)
  have nz: "m_retransmits_remaining s \<noteq> 0"
    using Cons.prems(2) by (auto simp flip: unat_eq_0)
  have "ok (ptx_round ec s) (\<lambda>t. esb_inv t \<and> lost_result s t)"
    unfolding ok_conj using Cons.prems ptx_round_ok [of s ec] ptx_round_lost [of s ec]
    by (auto simp: waiting_def intro: ok_postI)
  then obtain t where t: "ptx_round ec s = Inr t" "esb_inv t" "lost_result s t"
    by (auto simp: ok_iff)
  have u: "unat (m_retransmits_remaining t) = unat (m_retransmits_remaining s) - 1"
    using t(3) nz by (simp add: lost_result_def unat_pred)
  have "ok (ptx_rounds ecs t) (\<lambda>v. waiting v \<and> same_fifos t v \<and> same_setup t v \<and>
     m_interrupt_flags v = m_interrupt_flags t \<and>
     unat (m_retransmits_remaining v) = unat (m_retransmits_remaining t) - length ecs)"
    using Cons.prems t nz u by (intro Cons.IH) (auto simp: waiting_def lost_result_def)
  then show ?case
    using t(1,3) nz u by (auto simp: lost_result_def same_fifos_def same_setup_def elim!: ok_mono)
qed

lemma ptx_rounds_append:
  "ptx_rounds (xs @ ys) s = then_do (ptx_rounds xs s) (ptx_rounds ys)"
proof (induction xs arbitrary: s)
  case (Cons x xs)
  then show ?case by (cases "ptx_round x s") simp_all
qed simp

section \<open>The receiver\<close>

text \<open>What sending an acknowledgment or restarting the receiver leaves alone.\<close>

definition rx_same :: "esb \<Rightarrow> esb \<Rightarrow> bool" where
  "rx_same s t \<longleftrightarrow> m_rx_fifo t = m_rx_fifo s \<and> m_rx_payload_buffer t = m_rx_payload_buffer s \<and>
     m_config_local t = m_config_local s \<and> m_esb_initialized t = m_esb_initialized s \<and>
     RXMATCH (radio t) = RXMATCH (radio s) \<and> RSSISAMPLE (radio t) = RSSISAMPLE (radio s) \<and>
     m_interrupt_flags t AND NRF_ESB_INT_RX_DATA_RECEIVED_MSK
       = m_interrupt_flags s AND NRF_ESB_INT_RX_DATA_RECEIVED_MSK"

lemma rx_same_trans: "rx_same s t \<Longrightarrow> rx_same t u \<Longrightarrow> rx_same s u"
  by (simp add: rx_same_def)

lemma other_flag [simp]:
  "(x OR NRF_ESB_INT_TX_SUCCESS_MSK) AND NRF_ESB_INT_RX_DATA_RECEIVED_MSK
     = x AND NRF_ESB_INT_RX_DATA_RECEIVED_MSK"
  by (simp add: int_masks and.commute [of _ 4] bit.conj_disj_distrib)

lemma clear_events_restart_rx_same: "post (clear_events_restart_rx s) (rx_same s)"
  by (auto simp: clear_events_restart_rx_def Let_def rx_same_def radio_task_def)

lemma rx_prepare_ack_dpl_same: "post (rx_prepare_ack_dpl pipe b s) (rx_same s)"
  by (auto simp: rx_prepare_ack_dpl_def ack_with_payload_def ack_without_payload_def
      ack_payload_done_def Let_def rx_same_def)

text \<open>
  The acknowledgment of the packet in the receive buffer is on its way: the radio turns round to
  transmit the TX buffer to the pipe the packet came from (its READY and END shortcuts start and end
  the transmission), and the buffer is the acknowledgment: in the dynamic protocol it has the packet's
  own second byte (packet ID), and a length of 0 unless the head of the TX FIFO is for this pipe; in the
  fixed-length protocol it has the packet's first byte.
\<close>

definition ack_buffer :: "esb \<Rightarrow> u8 list \<Rightarrow> bool" where
  "ack_buffer s buf \<longleftrightarrow> (case cf_protocol (m_config_local s) of
     NRF_ESB_PROTOCOL_ESB_DPL \<Rightarrow> buf ! 1 = m_rx_payload_buffer s ! 1 \<and>
       (count (m_tx_fifo s) > 0 \<and>
          unat (pl_pipe (fifo_head (m_tx_fifo s))) = unat (RXMATCH (radio s)) \<or> buf ! 0 = 0)
   | NRF_ESB_PROTOCOL_ESB \<Rightarrow> buf ! 0 = m_rx_payload_buffer s ! 0 \<and> buf ! 1 = 0)"

definition ack_on_its_way :: "esb \<Rightarrow> esb \<Rightarrow> bool" where
  "ack_on_its_way s t \<longleftrightarrow>
     m_nrf_esb_mainstate t = NRF_ESB_STATE_PRX_SEND_ACK \<and>
     on_radio_disabled t = On_radio_disabled_rx_ack \<and>
     SHORTS (radio t) = RADIO_SHORTS_COMMON OR RADIO_SHORTS_DISABLED_RXEN_Msk \<and>
     PACKETPTR (radio t) = Tx_buffer \<and> TXADDRESS (radio t) = RXMATCH (radio s) \<and>
     ack_buffer s (m_tx_payload_buffer t)"

lemma rx_send_ack_same:
  "post (rx_send_ack (unat (RXMATCH (radio s))) b s) (\<lambda>t. rx_same s t \<and> ack_on_its_way s t)"
proof -
  have d: "post (rx_prepare_ack_dpl pipe b u) (\<lambda>t. rx_same u t \<and> SHORTS (radio t) = SHORTS (radio u) \<and>
      m_tx_payload_buffer t ! 1 = m_rx_payload_buffer u ! 1 \<and>
      (count (m_tx_fifo u) > 0 \<and> unat (pl_pipe (fifo_head (m_tx_fifo u))) = pipe \<or>
         m_tx_payload_buffer t ! 0 = 0))" for pipe u
    by (auto simp: rx_prepare_ack_dpl_def ack_with_payload_def ack_without_payload_def
        ack_payload_done_def Let_def rx_same_def)
  have e: "post (rx_prepare_ack_esb u) (\<lambda>t. rx_same u t \<and> SHORTS (radio t) = SHORTS (radio u) \<and>
      m_tx_payload_buffer t ! 0 = m_rx_payload_buffer u ! 0 \<and> m_tx_payload_buffer t ! 1 = 0)" for u
    by (auto simp: rx_prepare_ack_esb_def rx_same_def)
  show ?thesis
    by (cases "cf_protocol (m_config_local s)";
        auto simp: rx_send_ack_def Let_def intro!: post_mono [OF d] post_mono [OF e])
      (auto simp: rx_same_def ack_on_its_way_def ack_buffer_def)
qed

text \<open>The payload the RX FIFO gets from the receive buffer.\<close>

definition received_as :: "u8 \<Rightarrow> esb \<Rightarrow> nrf_esb_payload_t \<Rightarrow> bool" where
  "received_as len s q \<longleftrightarrow>
     pl_length q = len \<and> pl_pipe q = ucast (RXMATCH (radio s)) \<and>
     pl_rssi q = ucast (RSSISAMPLE (radio s)) \<and>
     pl_pid q = drop_bit 1 (m_rx_payload_buffer s ! 1) \<and>
     take (unat len) (pl_data q) = take (unat len) (drop 2 (m_rx_payload_buffer s))"

lemma received_as_same: "rx_same s t \<Longrightarrow> received_as len t q = received_as len s q"
  by (simp add: received_as_def rx_same_def)

lemma rx_length_same: "rx_same s t \<Longrightarrow> rx_length t = rx_length s"
  by (simp add: rx_length_def rx_same_def)

lemma rx_deliver_post:
  assumes "fifo_inv (m_rx_fifo s)" and "count (m_rx_fifo s) < NRF_ESB_RX_FIFO_SIZE"
    and "rx_length s = Some len"
  shows "post (rx_deliver (ucast (RXMATCH (radio s))) (drop_bit 1 (m_rx_payload_buffer s ! 1)) s)
     (\<lambda>t. (\<exists>q. received_as len s q \<and>
             fifo_contents (m_rx_fifo t) = fifo_contents (m_rx_fifo s) @ [q]) \<and>
          fifo_inv (m_rx_fifo t) \<and> m_esb_initialized t = m_esb_initialized s \<and>
          m_interrupt_flags t AND NRF_ESB_INT_RX_DATA_RECEIVED_MSK \<noteq> 0 \<and>
          (\<forall>v. ack_on_its_way v t = ack_on_its_way v s))"
  using assms
  by (auto simp: rx_deliver_def rx_fifo_push_rfbuf_def fifo_contents_push fifo_inv_push
      received_as_def int_masks bit.conj_disj_distrib2 ack_on_its_way_def)

definition packet_accepted :: "esb \<Rightarrow> bool" where
  "packet_accepted s \<longleftrightarrow> CRCSTATUS (radio s) \<noteq> 0 \<and> count (m_rx_fifo s) < NRF_ESB_RX_FIFO_SIZE"

definition seen_before :: "esb \<Rightarrow> bool" where
  "seen_before s \<longleftrightarrow> rx_is_retransmit (m_rx_pipe_info s ! unat (RXMATCH (radio s))) s"

text \<open>The part that answers: acknowledgment or restart, then the delivery.\<close>

lemma on_radio_disabled_rx_post:
  assumes acc: "packet_accepted s"
  shows "post (on_radio_disabled_rx s) (\<lambda>t. \<exists>u. rx_same s u \<and>
     (rx_wants_ack s \<longrightarrow> ack_on_its_way s u) \<and>
     (if seen_before s then t = u
      else rx_deliver (ucast (RXMATCH (radio u))) (drop_bit 1 (m_rx_payload_buffer u ! 1)) u = Inr t))"
proof -
  let ?pipe = "unat (RXMATCH (radio s))"
  let ?s1 = "\<lambda>x. s\<lparr>m_rx_pipe_info := (m_rx_pipe_info s)[?pipe := x]\<rparr>"
  have same: "rx_same (?s1 x) t = rx_same s t" "rx_wants_ack (?s1 x) = rx_wants_ack s"
    "ack_on_its_way (?s1 x) t = ack_on_its_way s t" "RXMATCH (radio (?s1 x)) = RXMATCH (radio s)" for x t
    by (simp_all add: rx_same_def rx_wants_ack_def ack_on_its_way_def ack_buffer_def
        split: nrf_esb_protocol_t.split)
  have answer: "post (if rx_wants_ack (?s1 x) then rx_send_ack ?pipe b (?s1 x)
      else clear_events_restart_rx (?s1 x)) (\<lambda>u. rx_same s u \<and>
        (rx_wants_ack s \<longrightarrow> ack_on_its_way s u))" for x b
    using rx_send_ack_same [of "?s1 x" b] clear_events_restart_rx_same [of "?s1 x"]
    by (auto simp: same elim!: post_mono)
  have fin: "post (if \<not> c then rx_deliver p d u else Inr u)
      (\<lambda>t. if c then t = u else rx_deliver p d u = Inr t)" for c p d u
    by (cases "rx_deliver p d u") auto
  have run: "on_radio_disabled_rx s =
     then_do (load_at (m_rx_pipe_info s) ?pipe) (\<lambda>pinfo.
       let x = pinfo\<lparr>pi_pid := drop_bit 1 (m_rx_payload_buffer s ! 1),
                     pi_crc := ucast (RXCRC (radio s))\<rparr>
       in then_do (if rx_wants_ack (?s1 x) then rx_send_ack ?pipe (rx_is_retransmit pinfo s) (?s1 x)
                   else clear_events_restart_rx (?s1 x)) (\<lambda>u.
          if \<not> rx_is_retransmit pinfo s
          then rx_deliver (ucast (RXMATCH (radio u))) (pi_pid x) u else Inr u))"
    using acc by (simp add: on_radio_disabled_rx_def packet_accepted_def Let_def not_le)
  have finish: "\<exists>u. rx_same s u \<and>
     (rx_wants_ack s \<longrightarrow> ack_on_its_way s u) \<and>
     (if seen_before s then t = u
      else rx_deliver (ucast (RXMATCH (radio u))) (drop_bit 1 (m_rx_payload_buffer u ! 1)) u = Inr t)"
    if u: "rx_same s u \<and> (rx_wants_ack s \<longrightarrow> ack_on_its_way s u)"
      and t: "if rx_is_retransmit (m_rx_pipe_info s ! ?pipe) s then t = u
        else rx_deliver (ucast (RXMATCH (radio u))) (drop_bit 1 (m_rx_payload_buffer s ! 1)) u = Inr t"
    for u t
  proof (rule exI [of _ u], intro conjI)
    have "m_rx_payload_buffer u = m_rx_payload_buffer s" using u by (simp add: rx_same_def)
    with t show "if seen_before s then t = u else
        rx_deliver (ucast (RXMATCH (radio u))) (drop_bit 1 (m_rx_payload_buffer u ! 1)) u = Inr t"
      by (simp only: seen_before_def)
  qed (use u in blast)+
  show ?thesis
    unfolding run Let_def post_simps post_array_ops
    by (intro impI post_mono [OF answer], rule post_mono [OF fin])
      (rule finish, assumption, simp split: if_splits)
qed

end
