(* ===== verification/EsbSample.thy ===== *)
theory EsbSample
  imports EsbLink
begin

text \<open>
  Concrete states for the instances of the ESB properties: \<open>sample_ptx\<close> and \<open>sample_prx\<close>, a
  transmitter and a receiver in the dynamic protocol, as \<open>nrf_esb_init\<close> and \<open>nrf_esb_start_rx\<close> leave
  them; \<open>sample_tx\<close>, the transmitter with a packet in the air; \<open>sample_packet\<close>, the receiver with that
  packet in its buffer. All are reachable.
\<close>

unbundle bit_operations_syntax

section \<open>Sample states\<close>

definition sample_radio :: radio_regs where
  "sample_radio =
     \<lparr>SHORTS = 0, INTEN = 0, PCNF0 = 0, PCNF1 = 0, BASE0 = 0, BASE1 = 0, PREFIX0 = 0, PREFIX1 = 0,
      TXPOWER = 0, MODE = 0, CRCCNF = 0, CRCINIT = 0, CRCPOLY = 0, TXADDRESS = 0, RXADDRESSES = 0,
      FREQUENCY = 0, PACKETPTR = Tx_buffer, EVENTS_READY = False, EVENTS_ADDRESS = False,
      EVENTS_PAYLOAD = False, EVENTS_END = False, EVENTS_DISABLED = False, CRCSTATUS = 0,
      RXMATCH = 0, RXCRC = 0, RSSISAMPLE = 0, RADIO_TASKS = [], disabled_poll = (\<lambda>k. 3 \<le> k)\<rparr>"

definition sample_periph :: periph_regs where
  "sample_periph =
     \<lparr>TIMER_PRESCALER = 0, TIMER_BITMODE = 0, TIMER_SHORTS = 0, TIMER_CC0 = 0, TIMER_CC1 = 0,
      EVENTS_COMPARE0 = False, EVENTS_COMPARE1 = False, TIMER_TASKS = [], PPI_CHEN = 0,
      PPI_CH = (\<lambda>_. None), RADIO_IRQ_enabled = False, RADIO_IRQ_pending = False,
      RADIO_IRQ_priority = 0, ESB_EVT_IRQ_enabled = False, ESB_EVT_IRQ_pending = False,
      ESB_EVT_IRQ_priority = 0\<rparr>"

definition sample_config :: "nrf_esb_mode_t \<Rightarrow> nrf_esb_config_t" where
  "sample_config mode =
     \<lparr>cf_protocol = NRF_ESB_PROTOCOL_ESB_DPL, cf_mode = mode, cf_event_handler = True,
      cf_bitrate = NRF_ESB_BITRATE_2MBPS, cf_crc = NRF_ESB_CRC_16BIT,
      cf_tx_output_power = NRF_ESB_TX_POWER_0DBM, cf_retransmit_delay = 250,
      cf_retransmit_count = 3, cf_tx_mode = NRF_ESB_TXMODE_AUTO, cf_radio_irq_priority = 1,
      cf_event_irq_priority = 2, cf_payload_length = 32, cf_selective_auto_ack = False\<rparr>"

definition sample_payload :: nrf_esb_payload_t where
  "sample_payload = \<lparr>pl_length = 3, pl_pipe = 1, pl_rssi = 0, pl_noack = 0, pl_pid = 0,
     pl_data = [0xCA, 0xFE, 0x07] @ replicate 29 0\<rparr>"

definition state_of :: "(ret_code \<times> esb) result \<Rightarrow> esb" where
  "state_of m = (case m of Inr (_, t) \<Rightarrow> t | Inl _ \<Rightarrow> esb_reset sample_radio sample_periph)"

definition sample_reset :: esb where
  "sample_reset = esb_reset sample_radio sample_periph"

definition sample_ptx :: esb where
  "sample_ptx = state_of (nrf_esb_init (Some (sample_config NRF_ESB_MODE_PTX)) sample_reset)"

definition sample_tx :: esb where
  "sample_tx = state_of (nrf_esb_write_payload (Some sample_payload) sample_ptx)"

definition sample_prx :: esb where
  "sample_prx = state_of (nrf_esb_start_rx
     (state_of (nrf_esb_init (Some (sample_config NRF_ESB_MODE_PRX)) sample_reset)))"

text \<open>Running a call on a concrete state: its return code is computed, its state is \<open>state_of\<close>.\<close>

definition code_of :: "(ret_code \<times> esb) result \<Rightarrow> ret_code option" where
  "code_of m = (case m of Inr (r, _) \<Rightarrow> Some r | Inl _ \<Rightarrow> None)"

lemma run_state_of: "code_of m = Some r \<Longrightarrow> m = Inr (r, state_of m)"
  by (auto simp: code_of_def state_of_def split: sum.splits)

lemma sample_ptx_run:
  "nrf_esb_init (Some (sample_config NRF_ESB_MODE_PTX)) sample_reset = Inr (NRF_SUCCESS, sample_ptx)"
  unfolding sample_ptx_def by (rule run_state_of) code_simp

lemma sample_tx_run:
  "nrf_esb_write_payload (Some sample_payload) sample_ptx = Inr (NRF_SUCCESS, sample_tx)"
  unfolding sample_tx_def by (rule run_state_of) code_simp

definition sample_prx_idle :: esb where
  "sample_prx_idle = state_of (nrf_esb_init (Some (sample_config NRF_ESB_MODE_PRX)) sample_reset)"

lemma sample_prx_idle_run:
  "nrf_esb_init (Some (sample_config NRF_ESB_MODE_PRX)) sample_reset = Inr (NRF_SUCCESS, sample_prx_idle)"
  unfolding sample_prx_idle_def by (rule run_state_of) code_simp

lemma sample_prx_run: "nrf_esb_start_rx sample_prx_idle = Inr (NRF_SUCCESS, sample_prx)"
  unfolding sample_prx_def sample_prx_idle_def by (rule run_state_of) code_simp

lemma sample_radio_ok: "radio_ok sample_radio"
  by (auto simp: radio_ok_def sample_radio_def)

lemma sample_start: "esb_start sample_reset"
  using sample_radio_ok by (auto simp: esb_start_def sample_reset_def)

lemma sample_reachable_step:
  assumes "esb_reachable adm s" and "adm c" and "call_pre c s" and "run_call c s = Inr (r, t)"
  shows "esb_reachable adm t"
  using assms esb_step.call [of adm c s r t]
  by (auto simp: esb_reachable_def intro: rtranclp.rtrancl_into_rtrancl)

definition queue_calls :: "esb_call \<Rightarrow> bool" where
  "queue_calls c \<longleftrightarrow> c \<noteq> Call_pop_tx"

lemma reachable_no_pop:
  "esb_reachable queue_calls s \<Longrightarrow> esb_inv s \<and> queues s"
  using esb_reachable_inv esb_reachable_queues unfolding queue_calls_def by blast

lemma sample_reset_reachable: "esb_reachable queue_calls sample_reset"
  using sample_start by (auto simp: esb_reachable_def)

lemma sample_ptx_reachable: "esb_reachable queue_calls sample_ptx"
  by (rule sample_reachable_step [OF sample_reset_reachable _ _
        sample_ptx_run [unfolded run_call.simps(1) [symmetric]]])
    (simp_all add: queue_calls_def sample_config_def)

lemma sample_tx_reachable: "esb_reachable queue_calls sample_tx"
  by (rule sample_reachable_step [OF sample_ptx_reachable _ _
        sample_tx_run [unfolded run_call.simps(4) [symmetric]]])
    (simp_all add: queue_calls_def sample_payload_def)

lemma sample_prx_idle_reachable: "esb_reachable queue_calls sample_prx_idle"
  by (rule sample_reachable_step [OF sample_reset_reachable _ _
        sample_prx_idle_run [unfolded run_call.simps(1) [symmetric]]])
    (simp_all add: queue_calls_def sample_config_def)

lemma sample_prx_reachable: "esb_reachable queue_calls sample_prx"
proof (rule sample_reachable_step [OF sample_prx_idle_reachable _ _
        sample_prx_run [unfolded run_call.simps(7) [symmetric]]])
  have "m_esb_initialized sample_prx_idle" by code_simp
  then show "call_pre Call_start_rx sample_prx_idle" by simp
qed (simp add: queue_calls_def)

text \<open>The radio of the receiver has the packet of \<open>sample_tx\<close>, with a good CRC.\<close>

definition sample_events :: esb where
  "sample_events = wr (\<lambda>r. r\<lparr>EVENTS_READY := False, EVENTS_ADDRESS := False, EVENTS_PAYLOAD := False,
     EVENTS_END := False, EVENTS_DISABLED := True, CRCSTATUS := 1, RXMATCH := 1, RXCRC := 0xBEEF,
     RSSISAMPLE := 70, disabled_poll := (\<lambda>k. 3 \<le> k)\<rparr>) sample_prx"

definition sample_packet :: esb where
  "sample_packet = sample_events\<lparr>m_rx_payload_buffer := m_tx_payload_buffer sample_tx\<rparr>"

lemma sample_events_reachable: "esb_reachable queue_calls sample_events"
proof -
  have "esb_step queue_calls sample_prx sample_events"
    unfolding sample_events_def by (rule esb_step.radio_events) auto
  then show ?thesis using sample_prx_reachable
    by (auto simp: esb_reachable_def intro: rtranclp.rtrancl_into_rtrancl)
qed

lemma sample_packet_reachable: "esb_reachable queue_calls sample_packet"
proof -
  have "PACKETPTR (radio sample_events) = Rx_buffer" by code_simp
  moreover have "length (m_tx_payload_buffer sample_tx) = 34" by code_simp
  ultimately have "esb_step queue_calls sample_events sample_packet"
    unfolding sample_packet_def by (rule esb_step.radio_packet)
  then show ?thesis using sample_events_reachable
    by (auto simp: esb_reachable_def intro: rtranclp.rtrancl_into_rtrancl)
qed

lemmas sample_reachable = sample_reset_reachable sample_ptx_reachable sample_tx_reachable
  sample_prx_reachable sample_packet_reachable

lemmas sample_inv = sample_reachable [THEN reachable_no_pop, THEN conjunct1]
lemmas sample_queues = sample_reachable [THEN reachable_no_pop, THEN conjunct2]

end
