(* ===== verification/EsbProps.thy ===== *)
theory EsbProps
  imports EsbSample
begin

text \<open>The properties of the ESB module, each followed by an instance on the sample states.\<close>

unbundle bit_operations_syntax

section \<open>Safety\<close>

text \<open>
  C2. No function of the module goes wrong. In every state reachable from reset by calls of
  the interface, interrupts and changes of the radio and the timer, in any order, the radio interrupt
  returns, and so does every call whose documented precondition holds: no null function is called, no
  array is accessed out of bounds, no busy-wait hangs; and the run-time invariant holds again.
\<close>

theorem esb_no_fault:
  assumes "esb_reachable adm s"
  shows "ok (RADIO_IRQHandler s) esb_inv \<and> (call_pre c s \<longrightarrow> ok (run_call c s) keeps_inv)"
  using RADIO_IRQHandler_ok run_call_ok esb_reachable_inv [OF assms] by blast

theorem esb_no_fault_witness:
  "ok (RADIO_IRQHandler sample_packet) esb_inv \<and>
   ok (run_call (Call_read (Some sample_payload)) sample_packet) keeps_inv"
  using esb_no_fault [OF sample_packet_reachable, of "Call_read (Some sample_payload)"]
  by (simp add: sample_payload_def)

text \<open>
  C12. The state machine and its interrupt handler agree. In every reachable state the handler of the
  DISABLED event is the one the main state needs, the FIFO indices point into the FIFOs, and a format
  function is installed once the module is initialised.
\<close>

theorem esb_state_agrees:
  assumes "esb_reachable adm s"
  shows "(handler_of (m_nrf_esb_mainstate s) = Some h \<longrightarrow> on_radio_disabled s = h) \<and>
    fifo_bounds (m_tx_fifo s) \<and> fifo_bounds (m_rx_fifo s) \<and>
    (m_esb_initialized s \<longrightarrow> update_rf_payload_format_fn s \<noteq> None)"
  using esb_reachable_inv [OF assms] by (auto simp: inv_defs)

theorem esb_state_agrees_witness:
  "on_radio_disabled sample_tx = On_radio_disabled_tx \<and>
    fifo_bounds (m_tx_fifo sample_tx) \<and> fifo_bounds (m_rx_fifo sample_tx) \<and>
    update_rf_payload_format_fn sample_tx \<noteq> None"
proof -
  have "handler_of (m_nrf_esb_mainstate sample_tx) = Some On_radio_disabled_tx" "m_esb_initialized sample_tx"
    by code_simp+
  then show ?thesis
    using esb_state_agrees [OF sample_tx_reachable, of On_radio_disabled_tx] by blast
qed

section \<open>The queues\<close>



text \<open>
  \<open>nrf_esb_read_rx_payload\<close> refines the abstract queue: on success the caller gets the oldest
  received payload (its length, pipe, signal strength, packet ID and bytes) and the queue loses exactly
  that one; on an error nothing changes.
\<close>

theorem read_rx_payload_spec:
  assumes "esb_reachable queue_calls s" and "call_pre (Call_read p) s"
  shows "ok (nrf_esb_read_rx_payload p s) (\<lambda>(r, q, t). r = read_code p s \<and>
     (if r = NRF_SUCCESS then map_option (\<lambda>x. (x, view t)) q = Some (spec_read (the p) (view s))
      else q = p \<and> t = s))"
  using reachable_no_pop [OF assms(1)] assms(2) by (blast intro: read_rx_payload_refines)

theorem read_rx_payload_spec_witness:
  "ok (nrf_esb_read_rx_payload (Some sample_payload) sample_prx) (\<lambda>(r, q, t).
     r = read_code (Some sample_payload) sample_prx \<and>
     (if r = NRF_SUCCESS
      then map_option (\<lambda>x. (x, view t)) q = Some (spec_read (the (Some sample_payload)) (view sample_prx))
      else q = Some sample_payload \<and> t = sample_prx))"
  by (rule read_rx_payload_spec [OF sample_prx_reachable]) (simp add: sample_payload_def)

text \<open>
  First in, first out: a payload put into the TX FIFO of a reachable state becomes its
  head after exactly the payloads that were ahead of it are gone.
\<close>

theorem tx_fifo_order:
  assumes "esb_reachable queue_calls s" and "count (m_tx_fifo s) < NRF_ESB_TX_FIFO_SIZE"
  shows "fifo_head ((fifo_pop ^^ count (m_tx_fifo s)) (fifo_push x (m_tx_fifo s))) = x"
  using reachable_no_pop [OF assms(1)] assms(2) esb_fifo.fifo_order [of "m_tx_fifo s" x]
  by (simp add: queues_def)

theorem tx_fifo_order_witness:
  "fifo_head ((fifo_pop ^^ count (m_tx_fifo sample_tx)) (fifo_push sample_payload (m_tx_fifo sample_tx)))
     = sample_payload"
proof (rule tx_fifo_order [OF sample_tx_reachable])
  show "count (m_tx_fifo sample_tx) < NRF_ESB_TX_FIFO_SIZE" by code_simp
qed

text \<open>
  Two payloads written one after the other to the same pipe carry different packet IDs below 4,
  so a receiver never takes the second for a retransmission of the first.
\<close>

theorem consecutive_pids_differ:
  assumes "esb_reachable queue_calls s"
    and "call_pre (Call_write (Some p)) s" and "call_pre (Call_write (Some q)) t"
    and "nrf_esb_write_payload (Some p) s = Inr (NRF_SUCCESS, t)"
    and "nrf_esb_write_payload (Some q) t = Inr (NRF_SUCCESS, u)"
    and "pl_pipe p = pl_pipe q"
  shows "\<exists>x y. tx_queue (view u) = tx_queue (view s) @ [x, y] \<and>
    pl_pid x \<noteq> pl_pid y \<and> unat (pl_pid x) < 4 \<and> unat (pl_pid y) < 4"
proof -
  have t: "view t = spec_write p (view s)" "esb_inv t" "queues t" "length (m_pids t) = 9"
    using ok_result [OF write_payload_refines assms(4)] reachable_no_pop [OF assms(1)] assms(2)
      ok_result [OF nrf_esb_write_payload_ok assms(4)]
      postD [OF nrf_esb_write_payload_queues assms(4)]
    by (auto simp: esb_inv_def arrays_ok_def)
  then have u: "view u = spec_write q (view t)"
    using ok_result [OF write_payload_refines assms(5)] assms(3) by auto
  have len: "unat (pl_pipe p) < length (pid_counters (view s))"
    using t(1,4) assms(2) by (simp add: spec_write_def Let_def view_def)
  show ?thesis
    using len assms(6) next_pid_neq
    by (simp add: u t(1) spec_write_def Let_def unat_next_pid) metis
qed

definition sample_tx2 :: esb where
  "sample_tx2 = state_of (nrf_esb_write_payload (Some sample_payload) sample_tx)"

lemma sample_tx2_run:
  "nrf_esb_write_payload (Some sample_payload) sample_tx = Inr (NRF_SUCCESS, sample_tx2)"
  unfolding sample_tx2_def by (rule run_state_of) code_simp

theorem consecutive_pids_differ_witness:
  "\<exists>x y. tx_queue (view sample_tx2) = tx_queue (view sample_ptx) @ [x, y] \<and>
    pl_pid x \<noteq> pl_pid y \<and> unat (pl_pid x) < 4 \<and> unat (pl_pid y) < 4"
  by (rule consecutive_pids_differ [OF sample_ptx_reachable _ _ sample_tx_run sample_tx2_run])
    (simp_all add: sample_payload_def)

section \<open>The transmitter\<close>


text \<open>A transmitter in manual mode with a payload in its FIFO, started.\<close>

definition sample_manual_idle :: esb where
  "sample_manual_idle = state_of (nrf_esb_init
     (Some ((sample_config NRF_ESB_MODE_PTX)\<lparr>cf_tx_mode := NRF_ESB_TXMODE_MANUAL\<rparr>)) sample_reset)"

definition sample_manual :: esb where
  "sample_manual = state_of (nrf_esb_write_payload (Some sample_payload) sample_manual_idle)"

definition sample_manual_tx :: esb where
  "sample_manual_tx = state_of (nrf_esb_start_tx sample_manual)"

lemma sample_manual_run: "nrf_esb_start_tx sample_manual = Inr (NRF_SUCCESS, sample_manual_tx)"
  unfolding sample_manual_tx_def by (rule run_state_of) code_simp

lemma sample_manual_reachable: "esb_reachable queue_calls sample_manual"
proof -
  have i: "nrf_esb_init (Some ((sample_config NRF_ESB_MODE_PTX)\<lparr>cf_tx_mode := NRF_ESB_TXMODE_MANUAL\<rparr>))
      sample_reset = Inr (NRF_SUCCESS, sample_manual_idle)"
    unfolding sample_manual_idle_def by (rule run_state_of) code_simp
  have w: "nrf_esb_write_payload (Some sample_payload) sample_manual_idle = Inr (NRF_SUCCESS, sample_manual)"
    unfolding sample_manual_def by (rule run_state_of) code_simp
  have "esb_reachable queue_calls sample_manual_idle"
    by (rule sample_reachable_step [OF sample_reset_reachable _ _
          i [unfolded run_call.simps(1) [symmetric]]])
      (simp_all add: queue_calls_def sample_config_def)
  then show ?thesis
    by (rule sample_reachable_step [OF _ _ _ w [unfolded run_call.simps(4) [symmetric]]])
      (simp_all add: queue_calls_def sample_payload_def)
qed

lemmas sample_manual_inv = sample_manual_reachable [THEN reachable_no_pop]

lemma sample_manual_facts:
  "needs_ack sample_manual" "unat (cf_retransmit_count (m_config_local sample_manual)) = 3"
  by code_simp+


text \<open>
  C3. An acknowledged packet is done: after any number of lost attempts up to the retransmission count
  and one acknowledgment, \<open>TX_SUCCESS\<close> is raised and the packet, and only it, leaves the TX FIFO. If the
  FIFO is then empty the transmitter is IDLE and reports the true number of attempts.
\<close>

theorem ptx_delivers:
  assumes "esb_inv s" and "queues s" and "nrf_esb_start_tx s = Inr (NRF_SUCCESS, s1)" and "needs_ack s"
    and "list_all (\<lambda>ec. \<not> acked ec) ecs" and "acked ec"
    and "length ecs \<le> unat (cf_retransmit_count (m_config_local s))"
  shows "ok (ptx_rounds (ecs @ [ec]) s1) (\<lambda>t.
     fifo_contents (m_tx_fifo t) = tl (fifo_contents (m_tx_fifo s)) \<and>
     m_interrupt_flags t AND NRF_ESB_INT_TX_SUCCESS_MSK \<noteq> 0 \<and>
     (count (m_tx_fifo s) = 1 \<longrightarrow> m_nrf_esb_mainstate t = NRF_ESB_STATE_IDLE \<and>
        unat (m_last_tx_attempts t) = length ecs + 1))"
proof -
  have start: "start_tx_transaction s = Inr s1" and c: "0 < count (m_tx_fifo s)"
    using assms(3) by (auto simp: nrf_esb_start_tx_def then_do_Inr_iff split: if_splits)
  note s1 = postD [OF start_tx_transaction_post start]
  have w: "waiting s1"
    using ok_result [OF nrf_esb_start_tx_ok [OF assms(1)] assms(3)] s1 assms(4)
    by (simp add: waiting_def)
  have n: "unat (m_retransmits_remaining s1) = unat (cf_retransmit_count (m_config_local s))"
    using s1 assms(4) by simp
  obtain t where t: "ptx_rounds ecs s1 = Inr t" "waiting t" "same_fifos s1 t" "same_setup s1 t"
      "unat (m_retransmits_remaining t) = unat (cf_retransmit_count (m_config_local s)) - length ecs"
    using lost_rounds [OF w, of ecs] assms(5,7) by (auto simp: ok_iff n)
  have a: "ok (ptx_round ec t) (acked_result t)"
    using ptx_round_ok [of t ec] ptx_round_acked [of t ec] t(2) assms(6)
    by (auto simp: waiting_def intro: ok_postI)
  have "unat (ucast (cf_retransmit_count (m_config_local s)) - m_retransmits_remaining t + 1 :: u32)
      = length ecs + 1"
    using t(5) assms(7) unat_less_u16 [of "cf_retransmit_count (m_config_local s)"]
    by (simp add: unat_word_ariths unat_sub_if')
  moreover have "fifo_contents (fifo_pop (m_tx_fifo s)) = tl (fifo_contents (m_tx_fifo s))"
    using assms(2) c by (simp add: queues_def fifo_contents_pop)
  ultimately show ?thesis
    using a s1 t c by (auto simp: ptx_rounds_append acked_result_def same_fifos_def same_setup_def
        int_masks elim!: ok_mono)
qed

theorem ptx_delivers_witness:
  "ok (ptx_rounds ([(False, 0), (True, 0)] @ [(True, 1)]) sample_manual_tx) (\<lambda>t.
     fifo_contents (m_tx_fifo t) = tl (fifo_contents (m_tx_fifo sample_manual)) \<and>
     m_interrupt_flags t AND NRF_ESB_INT_TX_SUCCESS_MSK \<noteq> 0 \<and>
     (count (m_tx_fifo sample_manual) = 1 \<longrightarrow> m_nrf_esb_mainstate t = NRF_ESB_STATE_IDLE \<and>
        unat (m_last_tx_attempts t) = length [(False, 0 :: u32), (True, 0)] + 1))"
  by (rule ptx_delivers [OF _ _ sample_manual_run])
    (simp_all add: sample_manual_inv sample_manual_facts acked_def)

text \<open>
  The attempts of a packet are lost when another one waits: in automatic mode the handler starts the
  next transaction, which sets \<open>m_last_tx_attempts\<close> back to 1, before the event interrupt of the
  acknowledged packet can read it, so the event reports one attempt whatever the number of
  retransmissions was.
\<close>

theorem attempts_overwritten:
  assumes "esb_inv s" and "on_radio_disabled s = On_radio_disabled_tx_wait_for_ack"
    and "EVENTS_END (radio s)" and "CRCSTATUS (radio s) \<noteq> 0"
    and "1 < count (m_tx_fifo s)" and "cf_tx_mode (m_config_local s) = NRF_ESB_TXMODE_AUTO"
  shows "ok (on_radio_disabled_tx_wait_for_ack s) (\<lambda>t.
    m_interrupt_flags t AND NRF_ESB_INT_TX_SUCCESS_MSK \<noteq> 0 \<and> m_last_tx_attempts t = 1)"
  by (rule ok_mono [OF ok_postI [OF on_radio_disabled_tx_wait_for_ack_ok wait_for_ack_acked]])
    (use assms in \<open>auto simp: acked_result_def int_masks\<close>)

definition sample_ack_window :: esb where
  "sample_ack_window = (case ptx_rounds [(False, 0), (False, 0)] sample_tx2 of Inr t \<Rightarrow>
     (case on_radio_disabled_tx t of Inr u \<Rightarrow> wr (\<lambda>r. r\<lparr>EVENTS_END := True, CRCSTATUS := 1\<rparr>) u
      | Inl _ \<Rightarrow> sample_reset) | Inl _ \<Rightarrow> sample_reset)"

lemma sample_tx2_inv: "esb_inv sample_tx2"
  using ok_result [OF nrf_esb_write_payload_ok [OF sample_inv(3)] sample_tx2_run]
  by (simp add: sample_payload_def)

lemma sample_ack_window_facts:
  "esb_inv sample_ack_window"
  "on_radio_disabled sample_ack_window = On_radio_disabled_tx_wait_for_ack"
  "EVENTS_END (radio sample_ack_window)" "CRCSTATUS (radio sample_ack_window) = 1"
  "m_tx_fifo sample_ack_window = m_tx_fifo sample_tx2"
  "m_config_local sample_ack_window = m_config_local sample_tx2"
proof -
  have l: "list_all (\<lambda>ec. \<not> acked ec) [(False, 0), (False, 0)]" by (simp add: acked_def)
  have w: "waiting sample_tx2"
    unfolding waiting_def by (rule conjI [OF sample_tx2_inv]) code_simp
  have r: "unat (m_retransmits_remaining sample_tx2) = 3" by code_simp
  obtain t where t: "ptx_rounds [(False, 0), (False, 0)] sample_tx2 = Inr t" "waiting t"
      "same_fifos sample_tx2 t" "same_setup sample_tx2 t"
    using lost_rounds [OF w _ l] r by (auto simp: ok_iff simp del: ptx_rounds.simps)
  obtain u where u: "on_radio_disabled_tx t = Inr u" "esb_inv u"
    using on_radio_disabled_tx_ok [of t] t(2) by (auto simp: waiting_def ok_iff)
  have a: "sample_ack_window = wr (\<lambda>r. r\<lparr>EVENTS_END := True, CRCSTATUS := 1\<rparr>) u"
    unfolding sample_ack_window_def by (simp only: t u sum.case)
  show "esb_inv sample_ack_window" unfolding a by (simp add: esb_inv_wr u)
  show "on_radio_disabled sample_ack_window = On_radio_disabled_tx_wait_for_ack"
    "EVENTS_END (radio sample_ack_window)" "CRCSTATUS (radio sample_ack_window) = 1"
    "m_tx_fifo sample_ack_window = m_tx_fifo sample_tx2"
    "m_config_local sample_ack_window = m_config_local sample_tx2"
    using postD [OF on_radio_disabled_tx_post u(1)] t(3,4)
    by (simp_all add: a same_fifos_def same_setup_def)
qed

theorem attempts_overwritten_witness:
  "ok (on_radio_disabled_tx_wait_for_ack sample_ack_window) (\<lambda>t.
    m_interrupt_flags t AND NRF_ESB_INT_TX_SUCCESS_MSK \<noteq> 0 \<and> m_last_tx_attempts t = 1)"
proof (rule attempts_overwritten [OF sample_ack_window_facts(1,2,3)])
  show "1 < count (m_tx_fifo sample_ack_window)" unfolding sample_ack_window_facts by code_simp
  show "cf_tx_mode (m_config_local sample_ack_window) = NRF_ESB_TXMODE_AUTO"
    unfolding sample_ack_window_facts by code_simp
qed (simp add: sample_ack_window_facts)

section \<open>The receiver\<close>

text \<open>
  C4. A new packet is delivered once and acknowledged. When a packet with a good CRC arrives, the RX
  FIFO has room and the packet is not the last one of its pipe, then one payload with the packet's
  bytes, length, pipe, signal strength and packet ID is appended to the received queue, the reception
  event is raised, and, if the packet asks for it, its acknowledgment is on its way: the radio turns
  round to transmit the TX buffer to that pipe, the buffer is an acknowledgment of this packet, and the
  next DISABLED event is that of the acknowledgment.
\<close>

theorem prx_new_packet:
  assumes "esb_inv s" and "queues s" and "on_radio_disabled s = On_radio_disabled_rx"
    and "packet_accepted s" and "\<not> seen_before s" and "rx_length s = Some len"
  shows "ok (on_radio_disabled_rx s) (\<lambda>t.
     (\<exists>q. received_as len s q \<and> rx_queue (view t) = rx_queue (view s) @ [q]) \<and>
     m_interrupt_flags t AND NRF_ESB_INT_RX_DATA_RECEIVED_MSK \<noteq> 0 \<and>
     (rx_wants_ack s \<longrightarrow> ack_on_its_way s t))"
proof (rule ok_postI [OF on_radio_disabled_rx_ok [OF assms(1,3)]],
    rule post_mono [OF on_radio_disabled_rx_post [OF assms(4)]])
  fix t
  assume "\<exists>u. rx_same s u \<and> (rx_wants_ack s \<longrightarrow> ack_on_its_way s u) \<and>
     (if seen_before s then t = u
      else rx_deliver (ucast (RXMATCH (radio u))) (drop_bit 1 (m_rx_payload_buffer u ! 1)) u = Inr t)"
  then obtain u where u: "rx_same s u"
    "rx_deliver (ucast (RXMATCH (radio u))) (drop_bit 1 (m_rx_payload_buffer u ! 1)) u = Inr t"
    "rx_wants_ack s \<longrightarrow> ack_on_its_way s u"
    using assms(5) by auto
  have f: "m_rx_fifo u = m_rx_fifo s" using u(1) by (simp add: rx_same_def)
  have "fifo_inv (m_rx_fifo u)" "count (m_rx_fifo u) < NRF_ESB_RX_FIFO_SIZE" "rx_length u = Some len"
    using assms(2,4,6) f rx_length_same [OF u(1)] by (simp_all add: queues_def packet_accepted_def)
  from postD [OF rx_deliver_post [OF this] u(2)]
  show "(\<exists>q. received_as len s q \<and> rx_queue (view t) = rx_queue (view s) @ [q]) \<and>
     m_interrupt_flags t AND NRF_ESB_INT_RX_DATA_RECEIVED_MSK \<noteq> 0 \<and>
     (rx_wants_ack s \<longrightarrow> ack_on_its_way s t)"
    using u(3) by (simp add: received_as_same [OF u(1)] view_def f)
qed

lemma sample_packet_facts:
  "on_radio_disabled sample_packet = On_radio_disabled_rx" "packet_accepted sample_packet"
  "\<not> seen_before sample_packet" "rx_length sample_packet = Some 3"
  by code_simp+

theorem prx_new_packet_witness:
  "ok (on_radio_disabled_rx sample_packet) (\<lambda>t.
     (\<exists>q. received_as 3 sample_packet q \<and> rx_queue (view t) = rx_queue (view sample_packet) @ [q]) \<and>
     m_interrupt_flags t AND NRF_ESB_INT_RX_DATA_RECEIVED_MSK \<noteq> 0 \<and>
     (rx_wants_ack sample_packet \<longrightarrow> ack_on_its_way sample_packet t))"
  by (rule prx_new_packet [OF sample_inv(5) sample_queues(5) sample_packet_facts])


text \<open>The packet that was just delivered, heard once more.\<close>

definition sample_again :: esb where
  "sample_again = sample_packet\<lparr>m_rx_pipe_info :=
     (m_rx_pipe_info sample_packet)[1 := \<lparr>pi_crc = 0xBEEF,
        pi_pid = drop_bit 1 (m_rx_payload_buffer sample_packet ! 1), pi_ack_payload = False\<rparr>]\<rparr>"

lemma sample_again_inv: "esb_inv sample_again"
  using sample_inv(5) by (simp add: sample_again_def inv_defs)


text \<open>
  A packet with a bad CRC, or one for which the RX FIFO has no room, is not acknowledged and
  leaves no trace: the queues, the pipes' memory of the last packet and the events stay as they are,
  and the receiver listens again.
\<close>

theorem prx_refuses:
  assumes "esb_inv s" and "on_radio_disabled s = On_radio_disabled_rx"
    and "m_nrf_esb_mainstate s = NRF_ESB_STATE_PRX" and "\<not> packet_accepted s"
  shows "ok (on_radio_disabled_rx s) (\<lambda>t. (\<exists>r. t = s\<lparr>radio := r\<rparr>) \<and>
     m_nrf_esb_mainstate t = NRF_ESB_STATE_PRX \<and>
     RADIO_TASKS (radio t) = RADIO_TASKS (radio s) @ [TASKS_DISABLE, TASKS_RXEN] \<and>
     PACKETPTR (radio t) = Rx_buffer)"
proof -
  have "update_rf_payload_format_fn s \<noteq> None" using inv_fn [OF assms(1)] assms(2) by simp
  then have "ok (clear_events_restart_rx s) (\<lambda>t. (\<exists>r. t = s\<lparr>radio := r\<rparr>) \<and>
     m_nrf_esb_mainstate t = NRF_ESB_STATE_PRX \<and>
     RADIO_TASKS (radio t) = RADIO_TASKS (radio s) @ [TASKS_DISABLE, TASKS_RXEN] \<and>
     PACKETPTR (radio t) = Rx_buffer)"
    using assms(1,3) by (auto simp: clear_events_restart_rx_def Let_def radio_task_def wr_def inv_defs)
  then show ?thesis
    using assms(4) by (auto simp: on_radio_disabled_rx_def packet_accepted_def)
qed

theorem prx_refuses_witness:
  "ok (on_radio_disabled_rx sample_prx) (\<lambda>t. (\<exists>r. t = sample_prx\<lparr>radio := r\<rparr>) \<and>
     m_nrf_esb_mainstate t = NRF_ESB_STATE_PRX \<and>
     RADIO_TASKS (radio t) = RADIO_TASKS (radio sample_prx) @ [TASKS_DISABLE, TASKS_RXEN] \<and>
     PACKETPTR (radio t) = Rx_buffer)"
  by (rule prx_refuses [OF sample_inv(4)]; code_simp)

section \<open>From the sender's call to the receiver's queue\<close>

text \<open>
  C5. In the dynamic-payload protocol (ESB_DPL, set at both ends) a payload arrives as it was written.
  When it is written to an idle transmitter in automatic mode whose TX FIFO is empty,
  \<open>nrf_esb_write_payload\<close> starts its transmission; a listening receiver with room in its RX FIFO, in
  whose buffer the radio puts the transmitter's buffer, with a good CRC and for a pipe that did not see
  it last, appends a payload with the same length, the same bytes and the packet ID the sender's pipe
  counter gave it. (With payloads left in the TX FIFO the call sends the oldest of them; in the
  fixed-length protocol the receiver takes the length from its own configuration.)
\<close>

theorem packet_crosses_link:
  assumes "esb_inv s" and "queues s" and "call_pre (Call_write (Some p)) s"
    and "cf_mode (m_config_local s) = NRF_ESB_MODE_PTX"
    and "cf_tx_mode (m_config_local s) = NRF_ESB_TXMODE_AUTO"
    and "cf_protocol (m_config_local s) = NRF_ESB_PROTOCOL_ESB_DPL"
    and "nrf_esb_is_idle s" and "tx_queue (view s) = []"
    and "nrf_esb_write_payload (Some p) s = Inr (NRF_SUCCESS, t)"
    and "esb_inv r" and "queues r" and "on_radio_disabled r = On_radio_disabled_rx"
    and "cf_protocol (m_config_local r) = NRF_ESB_PROTOCOL_ESB_DPL"
    and "packet_accepted r" and "\<not> seen_before r"
    and "m_rx_payload_buffer r = m_tx_payload_buffer t"
  shows "ok (on_radio_disabled_rx r) (\<lambda>r'. \<exists>q. rx_queue (view r') = rx_queue (view r) @ [q] \<and>
     pl_length q = pl_length p \<and>
     take (unat (pl_length p)) (pl_data q) = take (unat (pl_length p)) (pl_data p) \<and>
     pl_pid q = next_pid (m_pids s ! unat (pl_pipe p)))"
proof -
  let ?pid = "next_pid (m_pids s ! unat (pl_pipe p))"
  have w: "m_esb_initialized s" "\<not> bad_payload_length p s" "count (m_tx_fifo s) < NRF_ESB_TX_FIFO_SIZE"
    and run: "then_do (tx_enqueue p s) (\<lambda>s1. then_do (tx_auto_start s1) (\<lambda>s2. Inr (NRF_SUCCESS, s2)))
      = Inr (NRF_SUCCESS, t)"
    using assms(9) by (auto simp: nrf_esb_write_payload_def split: if_splits)
  then obtain s1 where s1: "tx_enqueue p s = Inr s1" and auto: "tx_auto_start s1 = Inr t"
    by (auto simp: then_do_Inr_iff)
  have fifo: "m_tx_fifo s1 = fifo_push (p\<lparr>pl_pid := ?pid\<rparr>) (m_tx_fifo s)"
    and cfg: "m_config_local s1 = m_config_local s" "m_nrf_esb_mainstate s1 = m_nrf_esb_mainstate s"
    using s1 by (auto simp: tx_enqueue_def Let_def then_do_Inr_iff load_at_Inr_iff DISABLE_RF_IRQ_def
        ENABLE_RF_IRQ_def)
  have c0: "count (m_tx_fifo s) = 0" using assms(8) by (simp add: view_def)
  have "fifo_contents (m_tx_fifo s1) = [p\<lparr>pl_pid := ?pid\<rparr>]" "fifo_inv (m_tx_fifo s1)"
    using assms(2) fifo c0 by (simp_all add: queues_def fifo_contents_push fifo_inv_push)
  then have head: "fifo_head (m_tx_fifo s1) = p\<lparr>pl_pid := ?pid\<rparr>"
    using fifo by (simp add: fifo_head_contents)
  have start: "start_tx_transaction s1 = Inr t"
    using auto assms(4,5,7) cfg by (simp add: tx_auto_start_def nrf_esb_is_idle_def)
  note buf = postD [OF start_tx_transaction_buffer start, unfolded head Let_def cfg, OF assms(6)]
  have len: "rx_length r = Some (pl_length p)"
    using buf assms(13,16) w(2) by (simp add: rx_length_def bad_payload_length_def)
  have pid: "drop_bit 1 (pid_byte ?pid a) = ?pid" for a
    by (rule pid_byte_pid) (simp add: unat_next_pid less_trans [OF mod_less_divisor])
  show ?thesis
    using buf assms(16)
    by (intro ok_mono [OF prx_new_packet [OF assms(10-12,14,15) len]])
      (auto simp: received_as_def pid simp del: One_nat_def)
qed

theorem packet_crosses_link_witness:
  "ok (on_radio_disabled_rx sample_packet) (\<lambda>r'. \<exists>q.
     rx_queue (view r') = rx_queue (view sample_packet) @ [q] \<and>
     pl_length q = pl_length sample_payload \<and>
     take (unat (pl_length sample_payload)) (pl_data q)
       = take (unat (pl_length sample_payload)) (pl_data sample_payload) \<and>
     pl_pid q = next_pid (m_pids sample_ptx ! unat (pl_pipe sample_payload)))"
proof (rule packet_crosses_link [OF sample_inv(2) sample_queues(2) _ _ _ _ _ _ sample_tx_run
      sample_inv(5) sample_queues(5) sample_packet_facts(1) _ sample_packet_facts(2,3)])
  show "call_pre (Call_write (Some sample_payload)) sample_ptx" by (simp add: sample_payload_def)
  show "cf_mode (m_config_local sample_ptx) = NRF_ESB_MODE_PTX" by code_simp
  show "cf_tx_mode (m_config_local sample_ptx) = NRF_ESB_TXMODE_AUTO" by code_simp
  show "cf_protocol (m_config_local sample_ptx) = NRF_ESB_PROTOCOL_ESB_DPL" by code_simp
  show "nrf_esb_is_idle sample_ptx" by code_simp
  have "count (m_tx_fifo sample_ptx) = 0" by code_simp
  then show "tx_queue (view sample_ptx) = []" by (simp add: view_def)
  show "cf_protocol (m_config_local sample_packet) = NRF_ESB_PROTOCOL_ESB_DPL" by code_simp
  show "m_rx_payload_buffer sample_packet = m_tx_payload_buffer sample_tx"
    by (simp add: sample_packet_def)
qed

section \<open>Acknowledgment payloads\<close>

text \<open>The acknowledgment in the buffer carries the payload \<open>q\<close>.\<close>

definition ack_carries :: "nrf_esb_payload_t \<Rightarrow> esb \<Rightarrow> bool" where
  "ack_carries q t \<longleftrightarrow> m_tx_payload_buffer t ! 0 = pl_length q \<and>
     take (unat (pl_length q)) (drop 2 (m_tx_payload_buffer t)) = take (unat (pl_length q)) (pl_data q)"

lemma ack_frame:
  assumes "length xs = 34" and "n \<le> length d"
  shows "(take 2 (xs[0 := a]) @ take n d @ zs)[Suc 0 := b] ! 0 = a"
    "(take 2 (xs[0 := a]) @ take n d @ zs) ! 0 = a"
    "take n (drop 2 ((take 2 (xs[0 := a]) @ take n d @ zs)[Suc 0 := b])) = take n d"
  using assms by (cases xs; cases "tl xs"; simp add: numeral_2_eq_2)+

lemma ok_post_conjI: "ok m P \<Longrightarrow> post m Q \<Longrightarrow> ok m (\<lambda>a. P a \<and> Q a)"
  by (cases m) simp_all

lemma ack_head_prepared:
  assumes "esb_live s" and "pipe < 9" and "0 < count (m_tx_fifo s)"
    and "unat (pl_pipe (fifo_head (m_tx_fifo s))) = pipe"
  shows "ok (rx_prepare_ack_dpl pipe retransmit s) (\<lambda>t. esb_live t \<and>
     pi_ack_payload (m_rx_pipe_info t ! pipe) \<and>
     m_tx_payload_buffer t ! 1 = m_rx_payload_buffer s ! 1 \<and> ack_carries (fifo_head (m_tx_fifo t)) t \<and>
     m_config_local t = m_config_local s \<and> m_esb_initialized t = m_esb_initialized s \<and>
     (if pi_ack_payload (m_rx_pipe_info s ! pipe) \<and> \<not> retransmit
      then m_tx_fifo t = fifo_pop (m_tx_fifo s) \<and> m_interrupt_flags t AND NRF_ESB_INT_TX_SUCCESS_MSK \<noteq> 0
      else m_tx_fifo t = m_tx_fifo s \<and> m_interrupt_flags t = m_interrupt_flags s))"
proof (rule ok_post_conjI [OF rx_prepare_ack_dpl_ok [OF assms(1,2)]])
  have l: "length (m_rx_pipe_info s) = 9" "length (m_tx_payload_buffer s) = 34"
    using assms(1) by (simp_all add: esb_live_def inv_defs)
  show "post (rx_prepare_ack_dpl pipe retransmit s) (\<lambda>t.
     pi_ack_payload (m_rx_pipe_info t ! pipe) \<and>
     m_tx_payload_buffer t ! 1 = m_rx_payload_buffer s ! 1 \<and> ack_carries (fifo_head (m_tx_fifo t)) t \<and>
     m_config_local t = m_config_local s \<and> m_esb_initialized t = m_esb_initialized s \<and>
     (if pi_ack_payload (m_rx_pipe_info s ! pipe) \<and> \<not> retransmit
      then m_tx_fifo t = fifo_pop (m_tx_fifo s) \<and> m_interrupt_flags t AND NRF_ESB_INT_TX_SUCCESS_MSK \<noteq> 0
      else m_tx_fifo t = m_tx_fifo s \<and> m_interrupt_flags t = m_interrupt_flags s))"
    using assms(2-4) l
    by (auto simp: rx_prepare_ack_dpl_def ack_with_payload_def ack_payload_done_def Let_def
        ack_carries_def fifo_head_def int_masks bit.conj_disj_distrib2 ack_frame)
qed

text \<open>
  C11. Acknowledgment payloads leave the TX FIFO by a flag of the pipe. Preparing an acknowledgment in
  the dynamic protocol for a pipe that the head of the TX FIFO is meant for drops the head, with the
  event TX_SUCCESS, exactly if the flag is set and the packet is no retransmission, then sets the flag and
  puts the head that is left into the acknowledgment, whatever pipe that one is meant for. Where none is
  left the flag stays set all the same and the acknowledgment carries what an unused slot of the FIFO
  holds; a payload that is written then for the same pipe is dropped, with TX_SUCCESS, by the next new
  packet, whose acknowledgment carries the slot behind it: no acknowledgment has carried the payload.
\<close>

theorem ack_payload_confirmed:
  assumes "esb_live s" and "queues s" and "pipe < 9" and "0 < count (m_tx_fifo s)"
    and "unat (pl_pipe (fifo_head (m_tx_fifo s))) = pipe"
  shows "ok (rx_prepare_ack_dpl pipe retransmit s) (\<lambda>t.
     (if pi_ack_payload (m_rx_pipe_info s ! pipe) \<and> \<not> retransmit
      then fifo_contents (m_tx_fifo t) = tl (fifo_contents (m_tx_fifo s)) \<and>
        m_interrupt_flags t AND NRF_ESB_INT_TX_SUCCESS_MSK \<noteq> 0
      else fifo_contents (m_tx_fifo t) = fifo_contents (m_tx_fifo s) \<and>
        m_interrupt_flags t = m_interrupt_flags s) \<and>
     pi_ack_payload (m_rx_pipe_info t ! pipe) \<and>
     m_tx_payload_buffer t ! 1 = m_rx_payload_buffer s ! 1 \<and>
     (case fifo_contents (m_tx_fifo t) of
        q # _ \<Rightarrow> ack_carries q t
      | [] \<Rightarrow> ack_carries (p_payload (m_tx_fifo t) ! exit_point (m_tx_fifo t)) t \<and>
          (\<forall>p u. unat (pl_pipe p) = pipe \<longrightarrow> payload_ok p \<longrightarrow> tx_enqueue p t = Inr u \<longrightarrow>
             fifo_contents (m_tx_fifo u) = [p\<lparr>pl_pid := next_pid (m_pids t ! pipe)\<rparr>] \<and>
             m_tx_payload_buffer u = m_tx_payload_buffer t \<and>
             ok (rx_prepare_ack_dpl pipe False u) (\<lambda>v. fifo_contents (m_tx_fifo v) = [] \<and>
               m_interrupt_flags v AND NRF_ESB_INT_TX_SUCCESS_MSK \<noteq> 0 \<and>
               ack_carries (p_payload (m_tx_fifo u) ! fifo_next (exit_point (m_tx_fifo u))) v))))"
proof (rule ok_mono [OF ack_head_prepared [OF assms(1,3-5)]], elim conjE)
  fix t
  let ?drop = "pi_ack_payload (m_rx_pipe_info s ! pipe) \<and> \<not> retransmit"
  assume t: "esb_live t" "pi_ack_payload (m_rx_pipe_info t ! pipe)"
      "m_tx_payload_buffer t ! 1 = m_rx_payload_buffer s ! 1" "ack_carries (fifo_head (m_tx_fifo t)) t"
    and q: "if ?drop then m_tx_fifo t = fifo_pop (m_tx_fifo s) \<and>
         m_interrupt_flags t AND NRF_ESB_INT_TX_SUCCESS_MSK \<noteq> 0
       else m_tx_fifo t = m_tx_fifo s \<and> m_interrupt_flags t = m_interrupt_flags s"
  have f: "fifo_inv (m_tx_fifo s)" "fifo_inv (m_tx_fifo t)"
    using assms(2,4) q fifo_inv_pop by (auto simp: queues_def split: if_splits)
  have queue: "if ?drop then fifo_contents (m_tx_fifo t) = tl (fifo_contents (m_tx_fifo s)) \<and>
         m_interrupt_flags t AND NRF_ESB_INT_TX_SUCCESS_MSK \<noteq> 0
       else fifo_contents (m_tx_fifo t) = fifo_contents (m_tx_fifo s) \<and>
         m_interrupt_flags t = m_interrupt_flags s"
    using q fifo_contents_pop [OF f(1) assms(4)] by (simp split: if_splits)
  have left: "ack_carries x t" if "fifo_contents (m_tx_fifo t) = x # xs" for x xs
    using that t(4) fifo_head_contents [OF f(2)] by (cases "count (m_tx_fifo t)") (auto simp: fifo_contents_def)
  have lost: "fifo_contents (m_tx_fifo u) = [p\<lparr>pl_pid := next_pid (m_pids t ! pipe)\<rparr>] \<and>
       m_tx_payload_buffer u = m_tx_payload_buffer t \<and>
       ok (rx_prepare_ack_dpl pipe False u) (\<lambda>v. fifo_contents (m_tx_fifo v) = [] \<and>
         m_interrupt_flags v AND NRF_ESB_INT_TX_SUCCESS_MSK \<noteq> 0 \<and>
         ack_carries (p_payload (m_tx_fifo u) ! fifo_next (exit_point (m_tx_fifo u))) v)"
    if "fifo_contents (m_tx_fifo t) = []" and "unat (pl_pipe p) = pipe" and "payload_ok p"
      and "tx_enqueue p t = Inr u" for p u
  proof -
    have c: "count (m_tx_fifo t) = 0" using that(1) by simp
    have u: "m_tx_fifo u = fifo_push (p\<lparr>pl_pid := next_pid (m_pids t ! pipe)\<rparr>) (m_tx_fifo t)"
        "m_tx_payload_buffer u = m_tx_payload_buffer t" "m_rx_pipe_info u = m_rx_pipe_info t"
      using that(2,4) by (auto simp: tx_enqueue_def Let_def then_do_Inr_iff load_at_Inr_iff
          DISABLE_RF_IRQ_def ENABLE_RF_IRQ_def)
    have live: "esb_live u" by (rule ok_result [OF tx_enqueue_ok [OF t(1) _ that(3)] that(4)])
      (use that(2) assms(3) c in simp_all)
    have cont: "fifo_contents (m_tx_fifo u) = [p\<lparr>pl_pid := next_pid (m_pids t ! pipe)\<rparr>]"
        "fifo_inv (m_tx_fifo u)"
      using u(1) f(2) c that(1) by (simp_all add: fifo_contents_push fifo_inv_push)
    have pos: "0 < count (m_tx_fifo u)" using u(1) by (simp add: fifo_push_def)
    have head: "unat (pl_pipe (fifo_head (m_tx_fifo u))) = pipe"
      using cont pos that(2) by (simp add: fifo_head_contents)
    show ?thesis
      using cont pos u t(2) fifo_contents_pop [OF cont(2) pos]
      by (intro conjI ok_mono [OF ack_head_prepared [OF live assms(3) pos head]])
        (auto simp: fifo_head_def fifo_pop_def)
  qed
  have last: "case fifo_contents (m_tx_fifo t) of
        q # _ \<Rightarrow> ack_carries q t
      | [] \<Rightarrow> ack_carries (p_payload (m_tx_fifo t) ! exit_point (m_tx_fifo t)) t \<and>
          (\<forall>p u. unat (pl_pipe p) = pipe \<longrightarrow> payload_ok p \<longrightarrow> tx_enqueue p t = Inr u \<longrightarrow>
             fifo_contents (m_tx_fifo u) = [p\<lparr>pl_pid := next_pid (m_pids t ! pipe)\<rparr>] \<and>
             m_tx_payload_buffer u = m_tx_payload_buffer t \<and>
             ok (rx_prepare_ack_dpl pipe False u) (\<lambda>v. fifo_contents (m_tx_fifo v) = [] \<and>
               m_interrupt_flags v AND NRF_ESB_INT_TX_SUCCESS_MSK \<noteq> 0 \<and>
               ack_carries (p_payload (m_tx_fifo u) ! fifo_next (exit_point (m_tx_fifo u))) v))"
  proof (cases "fifo_contents (m_tx_fifo t)")
    case Nil
    show ?thesis
      unfolding Nil list.case
      using t(4) lost [OF Nil] by (intro conjI allI impI) (auto simp only: fifo_head_def)
  qed (use left in simp)
  show "(if ?drop then fifo_contents (m_tx_fifo t) = tl (fifo_contents (m_tx_fifo s)) \<and>
        m_interrupt_flags t AND NRF_ESB_INT_TX_SUCCESS_MSK \<noteq> 0
      else fifo_contents (m_tx_fifo t) = fifo_contents (m_tx_fifo s) \<and>
        m_interrupt_flags t = m_interrupt_flags s) \<and>
     pi_ack_payload (m_rx_pipe_info t ! pipe) \<and>
     m_tx_payload_buffer t ! 1 = m_rx_payload_buffer s ! 1 \<and>
     (case fifo_contents (m_tx_fifo t) of
        q # _ \<Rightarrow> ack_carries q t
      | [] \<Rightarrow> ack_carries (p_payload (m_tx_fifo t) ! exit_point (m_tx_fifo t)) t \<and>
          (\<forall>p u. unat (pl_pipe p) = pipe \<longrightarrow> payload_ok p \<longrightarrow> tx_enqueue p t = Inr u \<longrightarrow>
             fifo_contents (m_tx_fifo u) = [p\<lparr>pl_pid := next_pid (m_pids t ! pipe)\<rparr>] \<and>
             m_tx_payload_buffer u = m_tx_payload_buffer t \<and>
             ok (rx_prepare_ack_dpl pipe False u) (\<lambda>v. fifo_contents (m_tx_fifo v) = [] \<and>
               m_interrupt_flags v AND NRF_ESB_INT_TX_SUCCESS_MSK \<noteq> 0 \<and>
               ack_carries (p_payload (m_tx_fifo u) ! fifo_next (exit_point (m_tx_fifo u))) v)))"
    by (intro conjI queue t(2,3) last)
qed

text \<open>The receiver with one payload for pipe 1 in its TX FIFO that has been sent once.\<close>

definition sample_reply :: esb where
  "sample_reply = sample_packet
     \<lparr>m_tx_fifo := fifo_push sample_payload (m_tx_fifo sample_packet),
      m_rx_pipe_info := (m_rx_pipe_info sample_packet)
        [1 := \<lparr>pi_crc = 0, pi_pid = 0, pi_ack_payload = True\<rparr>]\<rparr>"

lemma sample_reply_live: "esb_live sample_reply" "queues sample_reply"
proof -
  have c: "count (m_tx_fifo sample_packet) = 0" and
    f: "update_rf_payload_format_fn sample_packet = Some NRF_ESB_PROTOCOL_ESB_DPL" by code_simp+
  have p: "payload_ok sample_payload" by (simp add: payload_ok_def sample_payload_def)
  show "esb_live sample_reply"
    using sample_inv(5) c p
    by (auto simp: sample_reply_def esb_live_def inv_defs f fifo_bounds_push list_all_list_updateI)
  show "queues sample_reply"
    using sample_queues(5) c by (simp add: sample_reply_def queues_def fifo_inv_push)
qed

theorem ack_payload_confirmed_witness:
  "ok (rx_prepare_ack_dpl 1 False sample_reply) (\<lambda>t.
     (if pi_ack_payload (m_rx_pipe_info sample_reply ! 1) \<and> \<not> False
      then fifo_contents (m_tx_fifo t) = tl (fifo_contents (m_tx_fifo sample_reply)) \<and>
        m_interrupt_flags t AND NRF_ESB_INT_TX_SUCCESS_MSK \<noteq> 0
      else fifo_contents (m_tx_fifo t) = fifo_contents (m_tx_fifo sample_reply) \<and>
        m_interrupt_flags t = m_interrupt_flags sample_reply) \<and>
     pi_ack_payload (m_rx_pipe_info t ! 1) \<and>
     m_tx_payload_buffer t ! 1 = m_rx_payload_buffer sample_reply ! 1 \<and>
     (case fifo_contents (m_tx_fifo t) of
        q # _ \<Rightarrow> ack_carries q t
      | [] \<Rightarrow> ack_carries (p_payload (m_tx_fifo t) ! exit_point (m_tx_fifo t)) t \<and>
          (\<forall>p u. unat (pl_pipe p) = 1 \<longrightarrow> payload_ok p \<longrightarrow> tx_enqueue p t = Inr u \<longrightarrow>
             fifo_contents (m_tx_fifo u) = [p\<lparr>pl_pid := next_pid (m_pids t ! 1)\<rparr>] \<and>
             m_tx_payload_buffer u = m_tx_payload_buffer t \<and>
             ok (rx_prepare_ack_dpl 1 False u) (\<lambda>v. fifo_contents (m_tx_fifo v) = [] \<and>
               m_interrupt_flags v AND NRF_ESB_INT_TX_SUCCESS_MSK \<noteq> 0 \<and>
               ack_carries (p_payload (m_tx_fifo u) ! fifo_next (exit_point (m_tx_fifo u))) v))))"
proof (rule ack_payload_confirmed [OF sample_reply_live])
  show "0 < count (m_tx_fifo sample_reply)" by code_simp
  show "unat (pl_pipe (fifo_head (m_tx_fifo sample_reply))) = 1" by code_simp
qed simp

section \<open>Addresses\<close>

text \<open>
  The address conversion of the portable branch is the one of the Cortex-M4 branch: three
  mask-and-shift steps reverse the bits of each byte, and with the byte reversal of \<open>addr_conv\<close> the
  whole 32-bit base address, which is its own inverse.
\<close>

theorem address_conversion:
  "swap_bits w = swap_bits_m4 w \<and> addr_conv [b0, b1, b2, b3] = Inr (RBIT (le_word b0 b1 b2 b3)) \<and>
   RBIT (REV (swap_bits w)) = w"
  by (simp add: swap_bits_m4_eq [symmetric] REV_swap_bits RBIT_RBIT addr_conv_def
      bytewise_bit_swap_def load_u32_def eval_nat_numeral)

lemma BIT_MASK_UINT_8_bit: "unat n \<le> 8 \<Longrightarrow> bit (BIT_MASK_UINT_8 n) i \<longleftrightarrow> i < unat n"
proof -
  assume n: "unat n \<le> 8"
  have m: "(0xFF :: u32) = mask 8" by (simp add: mask_eq_exp_minus_1)
  show ?thesis unfolding BIT_MASK_UINT_8_def m using n by (auto simp: bit_simps)
qed

text \<open>
  \<open>nrf_esb_set_prefixes\<close> enables exactly the pipes it gets a prefix for: bit \<open>i\<close> of the mask is set for
  \<open>i < n\<close>, and the first \<open>n\<close> prefixes are the new ones, the others the old.
\<close>

theorem set_prefixes_mask:
  assumes "esb_inv s" and "nrf_esb_is_idle s" and "n < 9" and "unat n \<le> length prefixes"
  shows "ok (nrf_esb_set_prefixes (Some prefixes) n s) (\<lambda>(r, t). r = NRF_SUCCESS \<and>
     (\<forall>i. bit (rx_pipes_enabled (m_esb_addr t)) i = (i < unat n)) \<and>
     pipe_prefixes (m_esb_addr t) =
       take (unat n) prefixes @ drop (unat n) (pipe_prefixes (m_esb_addr s)))"
proof -
  have n: "unat n \<le> 8" using assms(3) by (simp add: word_less_nat_alt)
  have frame: "ok (update_radio_addresses m t) (\<lambda>u. m_esb_addr u = m_esb_addr t)" if "esb_inv t" for m t
    using that addr_sizes [OF that] by (auto simp: update_radio_addresses_def ok_if)
  have inv: "esb_inv (set_addr (\<lambda>a. a\<lparr>pipe_prefixes := take (unat n) prefixes @
      drop (unat n) (pipe_prefixes (m_esb_addr s)), num_pipes := n,
      rx_pipes_enabled := BIT_MASK_UINT_8 n\<rparr>) s)"
    using assms n by (intro esb_inv_set_addr) (auto simp: addr_sizes)
  show ?thesis
    using assms n addr_sizes(3) [OF assms(1)] inv
    by (auto simp: nrf_esb_set_prefixes_def nrf_esb_is_idle_def BIT_MASK_UINT_8_bit
        intro!: ok_mono [OF frame])
qed

theorem set_prefixes_mask_witness:
  "ok (nrf_esb_set_prefixes (Some [0x11, 0x22, 0x33]) 3 sample_ptx) (\<lambda>(r, t). r = NRF_SUCCESS \<and>
     (\<forall>i. bit (rx_pipes_enabled (m_esb_addr t)) i = (i < unat (3 :: u8))) \<and>
     pipe_prefixes (m_esb_addr t) =
       take (unat (3 :: u8)) [0x11, 0x22, 0x33] @ drop (unat (3 :: u8)) (pipe_prefixes (m_esb_addr sample_ptx)))"
proof (rule set_prefixes_mask [OF sample_inv(2)])
  show "nrf_esb_is_idle sample_ptx" by code_simp
qed simp_all

section \<open>Where the module does not do what it says\<close>

text \<open>
  \<open>nrf_esb_pop_tx\<close>, documented to remove the first payload of the TX FIFO, removes the last: it moves
  \<open>entry_point\<close> forward instead of \<open>exit_point\<close>. The next payload is then written behind a hole: the
  queue shows the removed payload again, and not the new one.
\<close>

theorem pop_tx_breaks_queue:
  assumes "queues s" and "m_esb_initialized s"
    and "0 < count (m_tx_fifo s)" and "Suc (count (m_tx_fifo s)) < NRF_ESB_TX_FIFO_SIZE"
  shows "ok (nrf_esb_pop_tx s) (\<lambda>(r, t). r = NRF_SUCCESS \<and>
     tx_queue (view t) = butlast (tx_queue (view s)) \<and>
     fifo_contents (fifo_push x (m_tx_fifo t)) = tx_queue (view s))"
  by (rule ok_mono [OF nrf_esb_pop_tx_fifo [OF assms(2,3)]])
    (use assms push_after_pop_tx [of "m_tx_fifo s" x] in
      \<open>auto simp: view_def queues_def pop_tx_fifo_contents\<close>)

theorem pop_tx_breaks_queue_witness:
  "ok (nrf_esb_pop_tx sample_tx) (\<lambda>(r, t). r = NRF_SUCCESS \<and>
     tx_queue (view t) = butlast (tx_queue (view sample_tx)) \<and>
     fifo_contents (fifo_push payload_zero (m_tx_fifo t)) = tx_queue (view sample_tx))"
  by (rule pop_tx_breaks_queue [OF sample_queues(3)]; code_simp)

text \<open>
  \<open>nrf_esb_start_rx\<close> does not check that the module is initialised: before the first
  \<open>nrf_esb_init\<close> it reports success, and the first packet the radio then discards or restarts on calls
  a null format function.
\<close>

theorem start_rx_before_init_faults:
  "\<exists>t. nrf_esb_start_rx (esb_reset r p) = Inr (NRF_SUCCESS, t) \<and>
       RADIO_IRQHandler (wr (\<lambda>q. q\<lparr>EVENTS_READY := False, EVENTS_END := False, EVENTS_DISABLED := True,
         CRCSTATUS := 0\<rparr>) t) = Inl Null_Deref"
  by (simp add: nrf_esb_start_rx_def esb_reset_def RADIO_IRQHandler_def call_on_radio_disabled_def
      on_radio_disabled_rx_def clear_events_restart_rx_def update_rf_payload_format_def Let_def
      wr_def wp_def radio_task_def RADIO_INTENSET_DISABLED_Msk_def)

end
