(* ===== verification/AppCommon.thy ===== *)
theory AppCommon
  imports EsbMachine
begin

text \<open>
  What the two applications of examples/proprietary_rf share: the constants of app_config.h,
  the flash record of app_common.c (\<open>ds_get\<close>, \<open>ds_update\<close>), the interval timer, the LEDs and the
  glue that runs an ESB call inside the application's state.

  The flash page is a list of 32-bit words. Erasing sets all bits; writing a word can only clear
  bits; both take effect only in the NVMC mode that enables them. The applications' packed structs are
  lists of words, three each.
\<close>

unbundle bit_operations_syntax

section \<open>Configuration (app_config.h, scheme 2)\<close>

definition DS_SIGNATURE :: u32 where "DS_SIGNATURE = 0x12345678"
definition MAXIMUM_CHANNEL_LIST_SIZE :: nat where "MAXIMUM_CHANNEL_LIST_SIZE = 3"
definition MAXIMUM_CHANNELS_PER_REGION :: nat where "MAXIMUM_CHANNELS_PER_REGION = 10"
definition DEFAULT_PAIRING_CHANNEL_LIST :: "u8 list" where
  "DEFAULT_PAIRING_CHANNEL_LIST = [2, 48, 76]"
definition INTERVAL_TIMER_INTERVAL_10MS :: u32 where "INTERVAL_TIMER_INTERVAL_10MS = 40"
definition REGION1_CHANNEL_LIST :: "u8 list" where
  "REGION1_CHANNEL_LIST = [1, 3, 4, 5, 6, 7, 8, 9, 10, 12]"
definition REGION3_CHANNEL_LIST :: "u8 list" where
  "REGION3_CHANNEL_LIST = [32, 35, 36, 39, 41, 42, 44, 46, 50, 52]"
definition REGION5_CHANNEL_LIST :: "u8 list" where
  "REGION5_CHANNEL_LIST = [67, 68, 69, 70, 71, 72, 73, 74, 77, 78]"
definition DEFAULT_PAIRING_ADDRESS_32 :: "u8 list" where
  "DEFAULT_PAIRING_ADDRESS_32 = [0x12, 0x34, 0x67, 0x98]"
definition PIPE_0_PREFIX :: u8 where "PIPE_0_PREFIX = 0x88"
definition ID_PAIR_REQ :: u8 where "ID_PAIR_REQ = 0x1A"
definition ID_PAIR_INFO_GET :: u8 where "ID_PAIR_INFO_GET = 0x1B"
definition DEV_TYPE_DISPLAY :: u8 where "DEV_TYPE_DISPLAY = 1"
definition DEV_TYPE_CONTROLLER :: u8 where "DEV_TYPE_CONTROLLER = 2"
definition MAXIMUM_DISPLAY_DEV :: u8 where "MAXIMUM_DISPLAY_DEV = 4"
definition MAXIMUM_CONTROLLER_DEV :: u8 where "MAXIMUM_CONTROLLER_DEV = 2"
definition BEACON_BYTE1 :: u8 where "BEACON_BYTE1 = 0xee"
definition BEACON_BYTE2 :: u8 where "BEACON_BYTE2 = 0xdd"
definition BEACON_BYTE3_NEW_DATA :: u8 where "BEACON_BYTE3_NEW_DATA = 0x01"
definition BEACON_BYTE3_RESEND :: u8 where "BEACON_BYTE3_RESEND = 0x02"

lemmas app_config = DS_SIGNATURE_def MAXIMUM_CHANNEL_LIST_SIZE_def MAXIMUM_CHANNELS_PER_REGION_def
  DEFAULT_PAIRING_CHANNEL_LIST_def INTERVAL_TIMER_INTERVAL_10MS_def PIPE_0_PREFIX_def
  ID_PAIR_REQ_def ID_PAIR_INFO_GET_def DEV_TYPE_DISPLAY_def DEV_TYPE_CONTROLLER_def
  MAXIMUM_DISPLAY_DEV_def MAXIMUM_CONTROLLER_DEV_def BEACON_BYTE1_def BEACON_BYTE2_def
  BEACON_BYTE3_NEW_DATA_def BEACON_BYTE3_RESEND_def DEFAULT_PAIRING_ADDRESS_32_def

text \<open>\<open>pair_info_t\<close>: eight bytes, the system address, the channel list and the device index.\<close>

definition pair_info_bytes :: "u8 list \<Rightarrow> u8 list \<Rightarrow> u8 \<Rightarrow> u8 list" where
  "pair_info_bytes sys_addr chlist dev_idx = sys_addr @ chlist @ [dev_idx]"

section \<open>Words and bytes\<close>

definition byte_at :: "nat \<Rightarrow> u32 \<Rightarrow> u8" where
  "byte_at k w = ucast (drop_bit (8 * k) w)"

lemma u8_bits:
  assumes "list_all (\<lambda>i. bit a i = bit b i) [0, 1, 2, 3, 4, 5, 6, 7]"
  shows "(a :: u8) = b"
proof (rule bit_word_eqI)
  fix i assume "i < LENGTH(8)"
  then have "i \<in> set [0..<8]" by simp
  moreover have "[0..<8] = [0, 1, 2, 3, 4, 5, 6, 7]" by (simp add: upt_rec)
  ultimately show "bit a i = bit b i" using assms by (simp only: list_all_iff)
qed

lemma u8_high_bits: "8 \<le> i \<Longrightarrow> \<not> bit (b :: u8) i"
  using bit_imp_le_length [of b i] by auto

lemma byte_at_le_word [simp]:
  "byte_at 0 (le_word b0 b1 b2 b3) = b0"
  "byte_at (Suc 0) (le_word b0 b1 b2 b3) = b1"
  "byte_at 1 (le_word b0 b1 b2 b3) = b1"
  "byte_at 2 (le_word b0 b1 b2 b3) = b2"
  "byte_at 3 (le_word b0 b1 b2 b3) = b3"
  by (rule u8_bits, simp add: byte_at_def le_word_def bit_simps u8_high_bits)+

section \<open>Flash\<close>

datatype nvmc_mode = NVMC_CONFIG_WEN_Ren | NVMC_CONFIG_WEN_Wen | NVMC_CONFIG_WEN_Een

record flash =
  flash_page :: "u32 list"
  NVMC_CONFIG :: nvmc_mode
  nvmc_ready :: "nat \<Rightarrow> bool"  \<comment> \<open>hardware: the \<open>k\<close>-th read of READY after an operation\<close>

definition nvmc_config :: "nvmc_mode \<Rightarrow> flash \<Rightarrow> flash" where
  "nvmc_config m f = f\<lparr>NVMC_CONFIG := m\<rparr>"

definition wait_ready :: "flash \<Rightarrow> flash result" where
  "wait_ready f = then_do (wait_event (nvmc_ready f)) (\<lambda>_. Inr f)"

definition erase_page :: "flash \<Rightarrow> flash" where
  "erase_page f =
     (if NVMC_CONFIG f = NVMC_CONFIG_WEN_Een
      then f\<lparr>flash_page := map (\<lambda>_. - 1) (flash_page f)\<rparr> else f)"

definition write_word :: "nat \<Rightarrow> u32 \<Rightarrow> flash \<Rightarrow> flash result" where
  "write_word i w f =
     (if NVMC_CONFIG f = NVMC_CONFIG_WEN_Wen
      then then_do (load_at (flash_page f) i) (\<lambda>old.
           Inr (f\<lparr>flash_page := (flash_page f)[i := old AND w]\<rparr>))
      else Inr f)"

text \<open>\<open>for (i = 0; i < length; i += 4)\<close> runs over the words \<open>k\<close> to \<open>n - 1\<close>.\<close>

fun ds_get_loop :: "nat \<Rightarrow> nat \<Rightarrow> u32 list \<Rightarrow> flash \<Rightarrow> u32 list result" where
  "ds_get_loop k 0 p f = Inr p"
| "ds_get_loop k (Suc n) p f =
     then_do (load_at (flash_page f) k) (\<lambda>w.
     then_do (store_at p k w) (\<lambda>p1. ds_get_loop (Suc k) n p1 f))"

definition ds_get :: "u32 list \<Rightarrow> u16 \<Rightarrow> flash \<Rightarrow> u32 list result" where
  "ds_get p len f = (if unat len mod 4 \<noteq> 0 then Inr p else ds_get_loop 0 (unat len div 4) p f)"

fun ds_update_loop :: "nat \<Rightarrow> nat \<Rightarrow> u32 list \<Rightarrow> flash \<Rightarrow> flash result" where
  "ds_update_loop k 0 p f = Inr f"
| "ds_update_loop k (Suc n) p f =
     then_do (load_at p k) (\<lambda>w.
     then_do (write_word k w f) (\<lambda>f1.
     then_do (wait_ready f1) (\<lambda>f2. ds_update_loop (Suc k) n p f2)))"

definition ds_update :: "u32 list \<Rightarrow> u16 \<Rightarrow> flash \<Rightarrow> flash result" where
  "ds_update p len f0 =
     (if unat len mod 4 \<noteq> 0 then Inr f0
      else
        then_do (wait_ready (nvmc_config NVMC_CONFIG_WEN_Een f0)) (\<lambda>f1.
        then_do (wait_ready (erase_page f1)) (\<lambda>f2.
        then_do (wait_ready (nvmc_config NVMC_CONFIG_WEN_Wen f2)) (\<lambda>f3.
        then_do (ds_update_loop 0 (unat len div 4) p f3) (\<lambda>f4.
        then_do (wait_ready f4) (\<lambda>f5.
        wait_ready (nvmc_config NVMC_CONFIG_WEN_Ren f5)))))))"

text \<open>The loops, in closed form.\<close>

lemma ok_wait_ready [simp, ok_rules]: "ok (wait_ready f) P \<longleftrightarrow> (\<exists>k. nvmc_ready f k) \<and> P f"
  by (simp add: wait_ready_def)

lemma ds_get_loop_ok:
  assumes "k + n \<le> length (flash_page f)" and "k + n \<le> length p"
  shows "ds_get_loop k n p f = Inr (take k p @ take n (drop k (flash_page f)) @ drop (k + n) p)"
  using assms
proof (induction n arbitrary: k p)
  case 0
  then show ?case by simp
next
  case (Suc n)
  have k: "k < length p" "k < length (flash_page f)" using Suc.prems by simp_all
  have "take (Suc k) (p[k := flash_page f ! k]) = take k p @ [flash_page f ! k]"
    using k by (simp add: take_Suc_conv_app_nth)
  moreover have "take (Suc n) (drop k (flash_page f)) = flash_page f ! k # take n (drop (Suc k) (flash_page f))"
    using k by (simp add: Cons_nth_drop_Suc [symmetric])
  ultimately show ?case
    using Suc.prems Suc.IH [of "Suc k" "p[k := flash_page f ! k]"] k
    by (simp add: load_at_def store_at_def)
qed

lemma ds_update_loop_ok:
  assumes "k + n \<le> length (flash_page f)" and "k + n \<le> length p"
    and "NVMC_CONFIG f = NVMC_CONFIG_WEN_Wen" and "nvmc_ready f j"
    and "drop k (flash_page f) = replicate (length (flash_page f) - k) (- 1)"
  shows "ds_update_loop k n p f =
    Inr (f\<lparr>flash_page := take k (flash_page f) @ take n (drop k p) @ drop (k + n) (flash_page f)\<rparr>)"
  using assms
proof (induction n arbitrary: k f)
  case 0
  have "take k (flash_page f) @ drop k (flash_page f) = flash_page f" by simp
  then show ?case by (simp del: append_take_drop_id)
next
  case (Suc n)
  let ?g = "f\<lparr>flash_page := (flash_page f)[k := p ! k]\<rparr>"
  have k: "k < length p" "k < length (flash_page f)" using Suc.prems by simp_all
  have "flash_page f ! k = drop k (flash_page f) ! 0" using k by simp
  then have m1: "flash_page f ! k = - 1" using Suc.prems(5) k by simp
  have "drop (Suc k) (flash_page f) = replicate (length (flash_page f) - Suc k) (- 1)"
    using arg_cong [OF Suc.prems(5), of tl] by (simp add: drop_Suc tl_drop)
  then have IH: "ds_update_loop (Suc k) n p ?g =
      Inr (?g\<lparr>flash_page := take (Suc k) (flash_page ?g) @ take n (drop (Suc k) p)
        @ drop (Suc k + n) (flash_page ?g)\<rparr>)"
    using Suc.prems by (intro Suc.IH) simp_all
  have "take (Suc k) ((flash_page f)[k := p ! k]) = take k (flash_page f) @ [p ! k]"
    using k by (simp add: take_Suc_conv_app_nth)
  moreover have "take (Suc n) (drop k p) = p ! k # take n (drop (Suc k) p)"
    using k by (simp add: Cons_nth_drop_Suc [symmetric])
  moreover have "wait_ready ?g = Inr ?g"
    using Suc.prems(4) wait_event_iff [of "nvmc_ready f"] by (auto simp: wait_ready_def)
  ultimately show ?case
    using IH k m1 Suc.prems(3) by (simp add: write_word_def load_at_def)
qed

lemma ds_update_ok:
  assumes "unat len mod 4 = 0" and "unat len div 4 \<le> length (flash_page f)"
    and "unat len div 4 \<le> length p" and "nvmc_ready f j"
  shows "ds_update p len f = Inr (f\<lparr>NVMC_CONFIG := NVMC_CONFIG_WEN_Ren,
    flash_page := take (unat len div 4) p @ replicate (length (flash_page f) - unat len div 4) (- 1)\<rparr>)"
proof -
  have r: "wait_ready g = Inr g" if "nvmc_ready g = nvmc_ready f" for g
    using assms(4) that wait_event_iff [of "nvmc_ready f"] by (auto simp: wait_ready_def)
  let ?g = "f\<lparr>flash_page := map (\<lambda>_. - 1) (flash_page f), NVMC_CONFIG := NVMC_CONFIG_WEN_Wen\<rparr>"
  have "ds_update_loop 0 (unat len div 4) p ?g = Inr (?g\<lparr>flash_page :=
      take (unat len div 4) p @ drop (unat len div 4) (flash_page ?g)\<rparr>)"
    using assms ds_update_loop_ok [of 0 "unat len div 4" ?g p j]
    by (simp add: map_replicate_const)
  then show ?thesis
    using assms(1) by (simp add: ds_update_def r nvmc_config_def erase_page_def map_replicate_const)
qed

section \<open>LEDs and the interval timer\<close>

datatype led = LED_1 | LED_2 | LED_3 | LED_4

type_synonym leds = "led \<Rightarrow> bool"

definition pin_set :: "led \<Rightarrow> leds \<Rightarrow> leds" where "pin_set l g = g(l := True)"
definition pin_clear :: "led \<Rightarrow> leds \<Rightarrow> leds" where "pin_clear l g = g(l := False)"
definition pin_toggle :: "led \<Rightarrow> leds \<Rightarrow> leds" where "pin_toggle l g = g(l := \<not> g l)"

record interval_timer =
  T0_CC0 :: u32
  T0_irq_enabled :: bool
  T0_running :: bool
  T0_EVENTS_COMPARE :: bool

text \<open>\<open>cc\<close> is the compare value, in microseconds (prescaler 4, 24 bits, cleared on compare).\<close>

definition timer_init :: "u32 \<Rightarrow> interval_timer \<Rightarrow> interval_timer" where
  "timer_init cc t = t\<lparr>T0_CC0 := cc, T0_irq_enabled := True\<rparr>"

definition timer_start :: "interval_timer \<Rightarrow> interval_timer" where
  "timer_start t = t\<lparr>T0_EVENTS_COMPARE := False, T0_running := True\<rparr>"

definition timer_stop :: "interval_timer \<Rightarrow> interval_timer" where
  "timer_stop t = t\<lparr>T0_running := False\<rparr>"

section \<open>ESB calls from the applications\<close>

text \<open>\<open>NRF_ESB_DEFAULT_CONFIG\<close> with the settings both \<open>esb_init\<close> functions make.\<close>

definition app_esb_config :: "bool \<Rightarrow> nrf_esb_config_t" where
  "app_esb_config is_ptx =
     \<lparr>cf_protocol = NRF_ESB_PROTOCOL_ESB_DPL,
      cf_mode = (if is_ptx then NRF_ESB_MODE_PTX else NRF_ESB_MODE_PRX),
      cf_event_handler = True, cf_bitrate = NRF_ESB_BITRATE_2MBPS, cf_crc = NRF_ESB_CRC_16BIT,
      cf_tx_output_power = NRF_ESB_TX_POWER_0DBM, cf_retransmit_delay = 250,
      cf_retransmit_count = 0, cf_tx_mode = NRF_ESB_TXMODE_AUTO, cf_radio_irq_priority = 1,
      cf_event_irq_priority = 2, cf_payload_length = 32, cf_selective_auto_ack = True\<rparr>"

section \<open>The ESB module after \<open>esb_init\<close>\<close>

definition fresh_esb :: "bool \<Rightarrow> esb \<Rightarrow> bool" where
  "fresh_esb is_ptx e \<longleftrightarrow> esb_inv e \<and> queues e \<and> nrf_esb_is_idle e \<and> m_esb_initialized e \<and>
     m_config_local e = app_esb_config is_ptx \<and> count (m_tx_fifo e) = 0 \<and> count (m_rx_fifo e) = 0 \<and>
     m_interrupt_flags e = 0 \<and> m_pids e = replicate 9 0"

lemma update_radio_parameters_frame:
  "post (update_radio_parameters s) (\<lambda>t. m_tx_fifo t = m_tx_fifo s \<and> m_rx_fifo t = m_rx_fifo s \<and>
     m_config_local t = m_config_local s \<and> m_esb_addr t = m_esb_addr s \<and>
     m_interrupt_flags t = m_interrupt_flags s \<and> m_pids t = m_pids s)"
  by (auto simp: update_radio_parameters_def update_radio_tx_power_def update_radio_bitrate_def
      update_radio_protocol_def update_radio_crc_def Let_def split: nrf_esb_protocol_t.split)

lemma nrf_esb_init_post:
  "esb_inv e \<Longrightarrow> post (nrf_esb_init (Some cf) e) (\<lambda>(r, t). r = NRF_SUCCESS \<and>
     m_nrf_esb_mainstate t = NRF_ESB_STATE_IDLE \<and> m_esb_initialized t \<and> m_config_local t = cf \<and>
     count (m_tx_fifo t) = 0 \<and> count (m_rx_fifo t) = 0 \<and> fifo_inv (m_tx_fifo t) \<and> fifo_inv (m_rx_fifo t) \<and>
     m_interrupt_flags t = 0 \<and> m_pids t = replicate 9 0 \<and> m_esb_addr t = m_esb_addr e)"
proof -
  assume inv: "esb_inv e"
  have fb: "fifo_bounds (m_tx_fifo e)" "fifo_bounds (m_rx_fifo e)"
    using inv by (simp_all add: inv_defs)
  have d: "post (if m_esb_initialized e then nrf_esb_disable e else Inr (NRF_SUCCESS, e))
      (\<lambda>(r, t). r = NRF_SUCCESS \<and> fifo_bounds (m_tx_fifo t) \<and> fifo_bounds (m_rx_fifo t) \<and>
         m_esb_addr t = m_esb_addr e)"
    using fb by (simp add: nrf_esb_disable_def Let_def reset_fifos_def fifo_bounds_clear)
  show ?thesis
    unfolding nrf_esb_init_def option.case post_simps
    by (rule post_mono [OF d])
      (auto simp: Let_def ppi_init_def sys_timer_init_def initialize_fifos_def reset_fifos_def
        fifo_inv_clear intro!: post_mono [OF update_radio_parameters_frame])
qed

lemma app_esb_init_ok:
  assumes "esb_inv e"
  shows "ok (nrf_esb_init (Some (app_esb_config is_ptx)) e)
    (\<lambda>(r, t). r = NRF_SUCCESS \<and> fresh_esb is_ptx t \<and> m_esb_addr t = m_esb_addr e)"
proof -
  have "ok (nrf_esb_init (Some (app_esb_config is_ptx)) e) keeps_inv"
    by (rule nrf_esb_init_ok [OF assms]) (simp add: app_esb_config_def)
  then show ?thesis
    using nrf_esb_init_post [OF assms, of "app_esb_config is_ptx"]
    by (auto simp: ok_iff fresh_esb_def nrf_esb_is_idle_def queues_def)
qed

end
