(* ===== verification/Box.thy ===== *)
theory Box
  imports AppCommon
begin

text \<open>
  The box, examples/proprietary_rf/box/main.c: the host that picks the channels, pairs the
  devices, sends the beacons and collects the devices' packets. \<open>box\<close> is its global variables with the
  ESB module, the flash page, the LEDs and the interval timer. The C functions that return nothing and
  read only globals are functions from \<open>box\<close> to \<open>box result\<close>.
\<close>

unbundle bit_operations_syntax

section \<open>State\<close>

datatype box_mode = MODE_NORMAL | MODE_CHANNEL_PICKING | MODE_PAIRING

record box_ds =
  bd_signature :: u32
  bd_chlist :: "u8 list"
  bd_display_slot_idx :: u8
  bd_controller_slot_idx :: u8
  bd_pad :: "u8 \<times> u8 \<times> u8"  \<comment> \<open>the padding of the struct\<close>

text \<open>The struct as the three words that go to the flash, and back.\<close>

definition box_ds_words :: "box_ds \<Rightarrow> u32 list" where
  "box_ds_words d =
     [bd_signature d,
      le_word (bd_chlist d ! 0) (bd_chlist d ! 1) (bd_chlist d ! 2) (bd_display_slot_idx d),
      (case bd_pad d of (p, q, r) \<Rightarrow> le_word (bd_controller_slot_idx d) p q r)]"

definition box_ds_of_words :: "u32 list \<Rightarrow> box_ds" where
  "box_ds_of_words ws =
     \<lparr>bd_signature = ws ! 0,
      bd_chlist = [byte_at 0 (ws ! 1), byte_at 1 (ws ! 1), byte_at 2 (ws ! 1)],
      bd_display_slot_idx = byte_at 3 (ws ! 1), bd_controller_slot_idx = byte_at 0 (ws ! 2),
      bd_pad = (byte_at 1 (ws ! 2), byte_at 2 (ws ! 2), byte_at 3 (ws ! 2))\<rparr>"

record box =
  bx_esb :: esb
  bx_chlist :: "u8 list"
  bx_mode :: box_mode
  bx_pairing_timeout :: u32
  bx_cur_ch_idx :: u8
  bx_beacon :: nrf_esb_payload_t
  bx_rx_payload :: nrf_esb_payload_t
  bx_base_addr_1 :: "u8 list"
  bx_ds :: box_ds
  bx_cur_pairing_dev_type :: u8
  bx_devs_paired_mask :: u8
  bx_devs_data_recv_mask :: u8
  bx_leds :: leds
  bx_timer :: interval_timer
  bx_flash :: flash
  bx_stack :: nrf_esb_payload_t  \<comment> \<open>what an uninitialised local payload holds\<close>

definition gca_available_chlist :: "u8 list list" where
  "gca_available_chlist = [REGION1_CHANNEL_LIST, REGION3_CHANNEL_LIST, REGION5_CHANNEL_LIST]"

definition MAXIMUM_PAIRING_TIMEOUT_MS :: u32 where "MAXIMUM_PAIRING_TIMEOUT_MS = 30000"

text \<open>A call of the ESB module; LEDs and timer.\<close>

definition box_esb :: "esb api \<Rightarrow> box \<Rightarrow> (ret_code \<times> box) result" where
  "box_esb call s = then_do (call (bx_esb s)) (\<lambda>(r, e). Inr (r, s\<lparr>bx_esb := e\<rparr>))"

definition box_led :: "(leds \<Rightarrow> leds) \<Rightarrow> box \<Rightarrow> box" where
  "box_led f s = s\<lparr>bx_leds := f (bx_leds s)\<rparr>"

definition box_timer :: "(interval_timer \<Rightarrow> interval_timer) \<Rightarrow> box \<Rightarrow> box" where
  "box_timer f s = s\<lparr>bx_timer := f (bx_timer s)\<rparr>"

section \<open>Radio set-up and channel hopping\<close>

text \<open>\<open>esb_init\<close> returns the code of \<open>nrf_esb_init\<close> on both ways out of \<open>VERIFY_SUCCESS\<close>.\<close>

definition box_esb_init :: "bool \<Rightarrow> box \<Rightarrow> (ret_code \<times> box) result" where
  "box_esb_init is_ptx s0 =
     then_do (ignore_code (box_esb nrf_esb_disable s0)) (\<lambda>s1.
       box_esb (nrf_esb_init (Some (app_esb_config is_ptx))) s1)"

definition M_ESB_STOP_RX_WAIT_IDLE :: "box \<Rightarrow> box result" where
  "M_ESB_STOP_RX_WAIT_IDLE s0 =
     (if \<not> nrf_esb_is_idle (bx_esb s0)
      then then_do (box_esb nrf_esb_stop_rx s0) (\<lambda>(r, s1).
           if r \<noteq> NRF_SUCCESS then ignore_code (box_esb_init False s1) else Inr s1)
      else Inr s0)"

definition next_ch_idx :: "u8 \<Rightarrow> u8" where
  "next_ch_idx i = (if unat (i + 1) \<ge> MAXIMUM_CHANNEL_LIST_SIZE then 0 else i + 1)"

definition box_hop_channel :: "box \<Rightarrow> box result" where
  "box_hop_channel s0 =
     (let s1 = s0\<lparr>bx_cur_ch_idx := next_ch_idx (bx_cur_ch_idx s0)\<rparr>
      in then_do (M_ESB_STOP_RX_WAIT_IDLE s1) (\<lambda>s2.
         then_do (load_at (bx_chlist s2) (unat (bx_cur_ch_idx s2))) (\<lambda>ch.
         app_error_check (box_esb (nrf_esb_set_rf_channel (ucast ch)) s2))))"

section \<open>Beacons\<close>

definition beacon_resend_mask :: "box \<Rightarrow> u8" where
  "beacon_resend_mask s = NOT (bx_devs_data_recv_mask s) AND bx_devs_paired_mask s"

definition set_beacon_byte :: "nat \<Rightarrow> u8 \<Rightarrow> box \<Rightarrow> box result" where
  "set_beacon_byte i b s =
     then_do (store_at (pl_data (bx_beacon s)) i b) (\<lambda>d.
       Inr (s\<lparr>bx_beacon := (bx_beacon s)\<lparr>pl_data := d\<rparr>\<rparr>))"

definition send_beacon :: "box \<Rightarrow> box result" where
  "send_beacon s0 =
     (let s1 = (if bx_cur_ch_idx s0 = 0 \<and> bx_devs_data_recv_mask s0 \<noteq> bx_devs_paired_mask s0
                then box_led (pin_toggle LED_3) s0 else s0)
      in then_do (if bx_cur_ch_idx s1 = 0
                  then set_beacon_byte 2 BEACON_BYTE3_NEW_DATA (s1\<lparr>bx_devs_data_recv_mask := 0\<rparr>)
                  else then_do (set_beacon_byte 2 BEACON_BYTE3_RESEND s1) (\<lambda>s2.
                       set_beacon_byte 3 (beacon_resend_mask s2) s2)) (\<lambda>s3.
         let s4 = s3\<lparr>bx_beacon := (bx_beacon s3)\<lparr>pl_noack := 1\<rparr>\<rparr>
         in then_do (ignore_code (box_esb (nrf_esb_write_payload (Some (bx_beacon s4))) s4)) (\<lambda>s5.
            Inr (box_led (pin_clear LED_2) s5))))"

section \<open>Normal and pairing mode\<close>

definition box_enter_normal_mode :: "box \<Rightarrow> box result" where
  "box_enter_normal_mode s0 =
     (let s1 = box_timer timer_stop (s0\<lparr>bx_pairing_timeout := 0\<rparr>)
      in then_do (memcpy (bx_chlist s1) 0 (bd_chlist (bx_ds s1)) 0 MAXIMUM_CHANNEL_LIST_SIZE) (\<lambda>chs.
         Inr (box_led (pin_set LED_1) (box_timer timer_start
           (s1\<lparr>bx_chlist := chs, bx_mode := MODE_NORMAL,
              bx_cur_ch_idx := of_nat MAXIMUM_CHANNEL_LIST_SIZE\<rparr>)))))"

text \<open>A request to pair: the pairing information is prepared and set as acknowledgment payload.\<close>

definition pairing_slot :: "u8 \<Rightarrow> box_ds \<Rightarrow> (u8 \<times> u8) option" where
  "pairing_slot dev_type d =
     (if dev_type = DEV_TYPE_DISPLAY
      then (if bd_display_slot_idx d < MAXIMUM_DISPLAY_DEV
            then Some (DEV_TYPE_DISPLAY, bd_display_slot_idx d + 1) else None)
      else if dev_type = DEV_TYPE_CONTROLLER
      then (if bd_controller_slot_idx d < MAXIMUM_CONTROLLER_DEV
            then Some (DEV_TYPE_CONTROLLER, MAXIMUM_DISPLAY_DEV + bd_controller_slot_idx d + 1)
            else None)
      else None)"

definition box_pair_req :: "box \<Rightarrow> box result" where
  "box_pair_req s0 =
     (let s1 = s0\<lparr>bx_cur_pairing_dev_type := 0\<rparr>
      in then_do (load_at (pl_data (bx_rx_payload s1)) 1) (\<lambda>dev_type.
         case pairing_slot dev_type (bx_ds s1) of
           None \<Rightarrow> Inr s1
         | Some (t, dev_idx) \<Rightarrow>
             let s2 = s1\<lparr>bx_cur_pairing_dev_type := t\<rparr> in
             then_do (memcpy (pl_data (bx_stack s2)) 0
               (pair_info_bytes (bx_base_addr_1 s2) (bd_chlist (bx_ds s2)) dev_idx) 0 8) (\<lambda>d.
             let pair_info = (bx_stack s2)\<lparr>pl_data := d, pl_length := 8, pl_pipe := 0\<rparr> in
             then_do (ignore_code (box_esb nrf_esb_flush_tx s2)) (\<lambda>s3.
             ignore_code (box_esb (nrf_esb_write_payload (Some pair_info)) s3)))))"

text \<open>The pairing information has been fetched: the slot is taken.\<close>

definition box_take_slot :: "box \<Rightarrow> box result" where
  "box_take_slot s =
     (let d = bx_ds s
      in if bx_cur_pairing_dev_type s = DEV_TYPE_DISPLAY \<and> bd_display_slot_idx d < MAXIMUM_DISPLAY_DEV
         then then_do (shl1_u8 (6 - uint (bd_display_slot_idx d + 1))) (\<lambda>b.
              Inr (s\<lparr>bx_ds := d\<lparr>bd_display_slot_idx := bd_display_slot_idx d + 1\<rparr>,
                    bx_devs_paired_mask := bx_devs_paired_mask s OR b\<rparr>))
         else if bx_cur_pairing_dev_type s = DEV_TYPE_CONTROLLER \<and>
                 bd_controller_slot_idx d < MAXIMUM_CONTROLLER_DEV
         then then_do (shl1_u8 (2 - uint (bd_controller_slot_idx d + 1))) (\<lambda>b.
              Inr (s\<lparr>bx_ds := d\<lparr>bd_controller_slot_idx := bd_controller_slot_idx d + 1\<rparr>,
                    bx_devs_paired_mask := bx_devs_paired_mask s OR b\<rparr>))
         else Inr s)"

definition box_ds_save :: "box \<Rightarrow> box result" where
  "box_ds_save s =
     then_do (ds_update (box_ds_words (bx_ds s)) 12 (bx_flash s)) (\<lambda>f. Inr (s\<lparr>bx_flash := f\<rparr>))"

definition box_pair_info_get :: "box \<Rightarrow> box result" where
  "box_pair_info_get s0 =
     then_do (ignore_code (box_esb nrf_esb_flush_tx s0)) (\<lambda>s1.
     then_do (box_take_slot s1) (\<lambda>s2.
     let s3 = s2\<lparr>bx_cur_pairing_dev_type := 0\<rparr>
     in if bd_controller_slot_idx (bx_ds s3) = MAXIMUM_CONTROLLER_DEV \<and>
           bd_display_slot_idx (bx_ds s3) = MAXIMUM_DISPLAY_DEV
        then then_do (box_ds_save s3) box_enter_normal_mode
        else Inr s3))"

section \<open>Events of the radio\<close>

text \<open>After a beacon, sent or not, the box listens.\<close>

definition box_tx_done :: "box \<Rightarrow> box result" where
  "box_tx_done s0 =
     then_do (ignore_code (box_esb nrf_esb_flush_rx s0)) (\<lambda>s1.
     then_do (ignore_code (box_esb nrf_esb_flush_tx s1)) (\<lambda>s2.
     if bx_mode s2 = MODE_NORMAL
     then then_do (ignore_code (box_esb_init False s2)) (\<lambda>s3.
          ignore_code (box_esb nrf_esb_start_rx s3))
     else Inr s2))"

definition box_read_rx :: "box \<Rightarrow> (ret_code \<times> box) result" where
  "box_read_rx s =
     then_do (nrf_esb_read_rx_payload (Some (bx_rx_payload s)) (bx_esb s)) (\<lambda>(r, p, e).
       Inr (r, s\<lparr>bx_esb := e, bx_rx_payload := (case p of Some q \<Rightarrow> q | None \<Rightarrow> bx_rx_payload s)\<rparr>))"

definition box_data_received :: "box \<Rightarrow> box result" where
  "box_data_received s =
     (if pl_pipe (bx_rx_payload s) \<noteq> 0 \<and> pl_length (bx_rx_payload s) = 32
      then then_do (shl1_u8 (6 - uint (pl_pipe (bx_rx_payload s)))) (\<lambda>b.
           Inr (s\<lparr>bx_devs_data_recv_mask := bx_devs_data_recv_mask s OR b\<rparr>))
      else Inr s)"

definition box_rx_received :: "box \<Rightarrow> box result" where
  "box_rx_received s0 =
     then_do (box_read_rx s0) (\<lambda>(r, s1).
     if r = NRF_SUCCESS
     then then_do (ignore_code (box_esb nrf_esb_flush_rx s1)) (\<lambda>s2.
       if bx_mode s2 = MODE_PAIRING \<and> pl_length (bx_rx_payload s2) = 2
       then then_do (load_at (pl_data (bx_rx_payload s2)) 0) (\<lambda>b.
            if b = ID_PAIR_REQ then box_pair_req s2
            else if b = ID_PAIR_INFO_GET then box_pair_info_get s2
            else Inr s2)
       else if bx_mode s2 = MODE_NORMAL then box_data_received s2
       else Inr s2)
     else Inr s1)"

fun box_event_handler :: "nrf_esb_evt_t \<Rightarrow> box \<Rightarrow> box result" where
  "box_event_handler evt s =
     (case evt_id evt of
        NRF_ESB_EVENT_TX_SUCCESS \<Rightarrow> box_tx_done (box_led (pin_set LED_2) s)
      | NRF_ESB_EVENT_TX_FAILED \<Rightarrow> box_tx_done s
      | NRF_ESB_EVENT_RX_RECEIVED \<Rightarrow> box_rx_received s)"

definition box_ESB_EVT_IRQHandler :: "box \<Rightarrow> box result" where
  "box_ESB_EVT_IRQHandler = ESB_EVT_IRQHandler bx_esb (\<lambda>e s. s\<lparr>bx_esb := e\<rparr>) box_event_handler"

section \<open>The interval timer\<close>

definition box_interval_timer_event_handler :: "box \<Rightarrow> box result" where
  "box_interval_timer_event_handler s0 =
     then_do (box_hop_channel s0) (\<lambda>s1.
     let s2 = (if bx_cur_ch_idx s1 = 0 then box_led (pin_toggle LED_4) s1 else s1)
     in if bx_mode s2 = MODE_NORMAL
        then then_do (ignore_code (box_esb_init True s2)) send_beacon
        else if bx_mode s2 = MODE_PAIRING then ignore_code (box_esb nrf_esb_start_rx s2)
        else Inr s2)"

end
