(* ===== verification/BoxSetup.thy ===== *)
theory BoxSetup
  imports Box
begin

text \<open>
  The box's set-up: channel picking from RSSI samples, the setup mode and \<open>main\<close>. What the
  hardware supplies (samples, the reads of the event registers, the clock, the chip id, the button) is
  the argument \<open>box_hw\<close>. The lemmas follow the running maximum of the picking loop.
\<close>

unbundle bit_operations_syntax

record box_hw =
  hw_rssi :: "nat \<Rightarrow> nat \<Rightarrow> nat \<Rightarrow> u32"  \<comment> \<open>RSSISAMPLE by region, round and channel\<close>
  hw_ready :: "nat \<Rightarrow> bool"
  hw_rssiend :: "nat \<Rightarrow> bool"
  hw_disabled :: "nat \<Rightarrow> bool"
  hw_hfclk :: "nat \<Rightarrow> bool"
  hw_device_id :: u32
  hw_button_1 :: bool  \<comment> \<open>level of the pin, low when pressed\<close>

section \<open>Channel picking\<close>

record picking =
  pk_rssi :: "u16 list"
  pk_highest :: u16
  pk_selected :: "u8 option"  \<comment> \<open>\<open>selected_ch\<close>, uninitialised at first\<close>
  pk_radio :: radio_regs

definition MAXIMUM_RSSI_SAMPLES :: nat where "MAXIMUM_RSSI_SAMPLES = 256"

text \<open>One measurement: ramp up, start, sample, ramp down.\<close>

definition measure_rssi :: "box_hw \<Rightarrow> u8 \<Rightarrow> radio_regs \<Rightarrow> radio_regs result" where
  "measure_rssi hw ch r0 =
     (let r1 = radio_task TASKS_RXEN (r0\<lparr>FREQUENCY := ucast ch, EVENTS_READY := False\<rparr>)
      in then_do (wait_event (hw_ready hw)) (\<lambda>_.
         let r2 = radio_task TASKS_RSSISTART
                    (radio_task TASKS_START (r1\<lparr>EVENTS_READY := True, EVENTS_END := False\<rparr>))
         in then_do (wait_event (hw_rssiend hw)) (\<lambda>_.
            let r3 = radio_task TASKS_DISABLE (r2\<lparr>EVENTS_DISABLED := False\<rparr>)
            in then_do (wait_event (hw_disabled hw)) (\<lambda>_. Inr (r3\<lparr>EVENTS_DISABLED := True\<rparr>)))))"

definition pick_body :: "box_hw \<Rightarrow> nat \<Rightarrow> nat \<Rightarrow> nat \<Rightarrow> picking \<Rightarrow> picking result" where
  "pick_body hw i n k p0 =
     then_do (load_at gca_available_chlist i) (\<lambda>region.
     then_do (load_at region k) (\<lambda>ch.
     then_do (measure_rssi hw ch (pk_radio p0)) (\<lambda>r.
     then_do (load_at (pk_rssi p0) k) (\<lambda>old.
     let sum = ucast (ucast old + hw_rssi hw i n k :: u32);
         p1 = p0\<lparr>pk_rssi := (pk_rssi p0)[k := sum], pk_radio := r\<rparr>
     in Inr (if pk_highest p1 < sum then p1\<lparr>pk_highest := sum, pk_selected := Some ch\<rparr> else p1)))))"

definition pick_rounds :: "box_hw \<Rightarrow> nat \<Rightarrow> picking \<Rightarrow> picking result" where
  "pick_rounds hw i p =
     for_each (\<lambda>n. for_each (pick_body hw i n) [0..<MAXIMUM_CHANNELS_PER_REGION])
       [0..<MAXIMUM_RSSI_SAMPLES] p"

definition pick_region :: "box_hw \<Rightarrow> nat \<Rightarrow> u8 option \<times> box \<Rightarrow> (u8 option \<times> box) result" where
  "pick_region hw i ps =
     (case ps of (sel, s) \<Rightarrow>
        then_do (pick_rounds hw i \<lparr>pk_rssi = replicate MAXIMUM_CHANNELS_PER_REGION 0, pk_highest = 0,
                   pk_selected = sel, pk_radio = radio (bx_esb s)\<rparr>) (\<lambda>p.
        case pk_selected p of
          None \<Rightarrow> Inl Uninitialised
        | Some ch \<Rightarrow>
            then_do (store_at (bd_chlist (bx_ds s)) i ch) (\<lambda>chs.
            Inr (Some ch, s\<lparr>bx_ds := (bx_ds s)\<lparr>bd_chlist := chs\<rparr>,
                            bx_esb := wr (\<lambda>_. pk_radio p) (bx_esb s)\<rparr>))))"

definition do_channel_list_generation :: "box_hw \<Rightarrow> box \<Rightarrow> box result" where
  "do_channel_list_generation hw s0 =
     (let s1 = s0\<lparr>bx_esb := wr (\<lambda>r. r\<lparr>PACKETPTR := Local_buffer\<rparr>) (bx_esb s0)\<rparr>
      in then_do (for_each (pick_region hw) [0..<MAXIMUM_CHANNEL_LIST_SIZE] (None, s1))
           (\<lambda>(_, s2). Inr s2))"

section \<open>Setup mode and start\<close>

definition box_enter_setup_mode :: "box_hw \<Rightarrow> box \<Rightarrow> box result" where
  "box_enter_setup_mode hw s0 =
     then_do (do_channel_list_generation hw (s0\<lparr>bx_mode := MODE_CHANNEL_PICKING\<rparr>)) (\<lambda>s1.
     then_do (app_error_check (box_esb_init False s1)) (\<lambda>s2.
     then_do (memcpy (bx_chlist s2) 0 DEFAULT_PAIRING_CHANNEL_LIST 0 MAXIMUM_CHANNEL_LIST_SIZE) (\<lambda>chs.
     let s3 = s2\<lparr>bx_chlist := chs, bx_cur_ch_idx := 0\<rparr> in
     then_do (load_at (bx_chlist s3) 0) (\<lambda>ch.
     then_do (app_error_check (box_esb (nrf_esb_set_rf_channel (ucast ch)) s3)) (\<lambda>s4.
     let s5 = s4\<lparr>bx_devs_paired_mask := 0, bx_pairing_timeout := MAXIMUM_PAIRING_TIMEOUT_MS,
                bx_mode := MODE_PAIRING,
                bx_ds := (bx_ds s4)\<lparr>bd_controller_slot_idx := 0, bd_display_slot_idx := 0\<rparr>\<rparr> in
     then_do (app_error_check (box_esb nrf_esb_start_rx s5)) (\<lambda>s6.
     Inr (box_led (pin_clear LED_1) (box_timer timer_start s6))))))))"

definition host_chip_id_read :: "box_hw \<Rightarrow> u8 list" where
  "host_chip_id_read hw = map (\<lambda>i. ucast (drop_bit (i * 8) (hw_device_id hw) AND 0xff)) [0..<4]"

text \<open>The mask of paired devices, recomputed from the slots at start-up.\<close>

definition boot_paired_mask :: "box_ds \<Rightarrow> u8 result" where
  "boot_paired_mask d =
     then_do (for_each (\<lambda>i m. then_do (shl1_u8 (5 - int i)) (\<lambda>b. Inr (m OR b)))
                [0..<unat (bd_display_slot_idx d)] 0) (\<lambda>m.
     for_each (\<lambda>i m. then_do (shl1_u8 (1 - int i)) (\<lambda>b. Inr (m OR b)))
       [0..<unat (bd_controller_slot_idx d)] m)"

text \<open>\<open>force_setup\<close> and the state after the stored record has been looked at.\<close>

definition box_boot_record :: "box \<Rightarrow> (bool \<times> box) result" where
  "box_boot_record s =
     (if bd_signature (bx_ds s) \<noteq> DS_SIGNATURE
      then Inr (True, s\<lparr>bx_ds := (bx_ds s)\<lparr>bd_signature := DS_SIGNATURE\<rparr>\<rparr>)
      else if bd_controller_slot_idx (bx_ds s) = 0 \<and> bd_display_slot_idx (bx_ds s) = 0
      then Inr (True, s)
      else then_do (boot_paired_mask (bx_ds s)) (\<lambda>m. Inr (False, s\<lparr>bx_devs_paired_mask := m\<rparr>)))"

text \<open>A call whose error code ends \<open>main\<close> (\<open>VERIFY_SUCCESS\<close>).\<close>

definition verify_success :: "(ret_code \<times> 's) result \<Rightarrow> ('s \<Rightarrow> (ret_code \<times> 's) result) \<Rightarrow>
    (ret_code \<times> 's) result" where
  "verify_success m f = then_do m (\<lambda>(r, s). if r = NRF_SUCCESS then f s else Inr (r, s))"

text \<open>\<open>main\<close> up to the idle loop (\<open>NRF_SUCCESS\<close>) or an early return of an error code.\<close>

definition box_main :: "box_hw \<Rightarrow> box \<Rightarrow> (ret_code \<times> box) result" where
  "box_main hw s0 =
     (let s1 = s0\<lparr>bx_leds := \<lambda>_. True\<rparr>
      in then_do (wait_event (hw_hfclk hw)) (\<lambda>_.
         let s2 = box_timer (timer_init (INTERVAL_TIMER_INTERVAL_10MS * 100)) s1;
             s3 = s2\<lparr>bx_base_addr_1 := host_chip_id_read hw\<rparr>
         in then_do (ds_get (box_ds_words (bx_ds s3)) 12 (bx_flash s3)) (\<lambda>ws.
            then_do (box_boot_record (s3\<lparr>bx_ds := box_ds_of_words ws\<rparr>)) (\<lambda>(force_setup, s4).
            verify_success (box_esb (nrf_esb_set_base_address_0 (Some DEFAULT_PAIRING_ADDRESS_32)) s4) (\<lambda>s5.
            verify_success (box_esb (nrf_esb_set_base_address_1 (Some (bx_base_addr_1 s5))) s5) (\<lambda>s6.
            verify_success (box_esb (nrf_esb_set_prefixes
              (Some [PIPE_0_PREFIX, 1, 2, 3, 4, 5, 6]) 7) s6) (\<lambda>s7.
            then_do (if force_setup \<or> \<not> hw_button_1 hw then box_enter_setup_mode hw s7
                     else box_enter_normal_mode s7) (\<lambda>s8. Inr (NRF_SUCCESS, s8)))))))))"

section \<open>The running maximum of the picking loop\<close>

text \<open>What has been summed up for channel \<open>k\<close> of region \<open>i\<close> after \<open>n\<close> rounds.\<close>

definition rssi_total :: "box_hw \<Rightarrow> nat \<Rightarrow> nat \<Rightarrow> nat \<Rightarrow> nat" where
  "rssi_total hw i n k = (\<Sum>m<n. unat (hw_rssi hw i m k))"

text \<open>Samples are 7 bits wide, and the busy-waits end.\<close>

definition hw_ok :: "box_hw \<Rightarrow> bool" where
  "hw_ok hw \<longleftrightarrow> (\<forall>i n k. unat (hw_rssi hw i n k) < 128) \<and> (\<exists>j. hw_ready hw j) \<and>
     (\<exists>j. hw_rssiend hw j) \<and> (\<exists>j. hw_disabled hw j) \<and> (\<exists>j. hw_hfclk hw j)"

lemma rssi_total_bound: "hw_ok hw \<Longrightarrow> rssi_total hw i n k \<le> 127 * n"
proof (induction n)
  case (Suc n)
  have "unat (hw_rssi hw i n k) < 128" using Suc.prems by (simp add: hw_ok_def)
  then show ?case using Suc by (simp add: rssi_total_def)
qed (simp add: rssi_total_def)

lemma ok_measure_rssi:
  "hw_ok hw \<Longrightarrow> ok (measure_rssi hw ch r) (\<lambda>r'. disabled_poll r' = disabled_poll r \<and> RXMATCH r' = RXMATCH r)"
  by (simp add: measure_rssi_def Let_def hw_ok_def radio_task_def)

text \<open>
  The loop invariant, after \<open>n\<close> rounds and \<open>k\<close> channels of the next: the sums are exact, the
  highest is at least every sum, and it is the present or a former sum of the selected channel.
\<close>

definition sums :: "box_hw \<Rightarrow> nat \<Rightarrow> nat \<Rightarrow> nat \<Rightarrow> nat \<Rightarrow> nat" where
  "sums hw i n k j = rssi_total hw i (if j < k then Suc n else n) j"

definition picking_inv :: "box_hw \<Rightarrow> u8 list \<Rightarrow> nat \<Rightarrow> u8 option \<Rightarrow> radio_regs \<Rightarrow> nat \<Rightarrow> nat \<Rightarrow> picking \<Rightarrow> bool"
where
  "picking_inv hw region i sel0 r0 n k p \<longleftrightarrow>
     length (pk_rssi p) = 10 \<and>
     (\<forall>j<10. unat (pk_rssi p ! j) = sums hw i n k j) \<and>
     (\<forall>j<10. sums hw i n k j \<le> unat (pk_highest p)) \<and>
     (if pk_highest p = 0 then pk_selected p = sel0
      else \<exists>j<10. pk_selected p = Some (region ! j) \<and> unat (pk_highest p) \<le> sums hw i n k j) \<and>
     disabled_poll (pk_radio p) = disabled_poll r0 \<and> RXMATCH (pk_radio p) = RXMATCH r0"

lemma sums_Suc:
  "sums hw i n (Suc k) j = (if j = k then sums hw i n k j + unat (hw_rssi hw i n k) else sums hw i n k j)"
  by (auto simp: sums_def rssi_total_def)

lemma sums_round: "j < 10 \<Longrightarrow> sums hw i n 10 j = sums hw i (Suc n) 0 j"
  by (simp add: sums_def)

lemma region_lengths:
  "i < 3 \<Longrightarrow> i < length gca_available_chlist \<and> length (gca_available_chlist ! i) = 10"
  by (auto simp: gca_available_chlist_def REGION1_CHANNEL_LIST_def REGION3_CHANNEL_LIST_def
      REGION5_CHANNEL_LIST_def less_Suc_eq numeral_3_eq_3)

lemma sum_u16:
  assumes "unat (a :: u16) + unat (b :: u32) < 65536"
  shows "unat (ucast (ucast a + b :: u32) :: u16) = unat a + unat b"
proof -
  have "unat (ucast a + b :: u32) = unat a + unat b"
    using assms by (simp add: unat_word_ariths)
  then show ?thesis using assms by (simp add: unsigned_ucast_eq take_bit_nat_eq_self_iff)
qed

text \<open>Adding one reading to channel \<open>k\<close>'s sum, and then raising the maximum when the sum exceeds it.\<close>

lemma sample_added:
  assumes hw: "hw_ok hw" and n: "n < 256" and k: "k < 10" and inv: "picking_inv hw reg i sel0 r0 n k p"
  defines "acc \<equiv> ucast (ucast (pk_rssi p ! k) + hw_rssi hw i n k :: u32) :: u16"
  shows "unat acc = sums hw i n (Suc k) k"
    and "j < 10 \<Longrightarrow> unat ((pk_rssi p)[k := acc] ! j) = sums hw i n (Suc k) j"
proof -
  have old: "unat (pk_rssi p ! k) = sums hw i n k k" using inv k by (simp add: picking_inv_def)
  have "unat (hw_rssi hw i n k) < 128" using hw by (simp add: hw_ok_def)
  then have b: "sums hw i n k k + unat (hw_rssi hw i n k) < 65536"
    using rssi_total_bound [OF hw, of i n k] n by (simp add: sums_def)
  show new: "unat acc = sums hw i n (Suc k) k"
    using sum_u16 [of "pk_rssi p ! k" "hw_rssi hw i n k"] old b by (simp add: sums_Suc acc_def)
  show "unat ((pk_rssi p)[k := acc] ! j) = sums hw i n (Suc k) j" if "j < 10"
    using inv new that by (cases "j = k") (simp_all add: picking_inv_def sums_Suc)
qed

lemma picking_inv_step:
  assumes k: "k < 10" and inv: "picking_inv hw reg i sel0 r0 n k p"
    and new: "unat acc = sums hw i n (Suc k) k"
    and upd: "\<And>j. j < 10 \<Longrightarrow> unat ((pk_rssi p)[k := acc] ! j) = sums hw i n (Suc k) j"
    and r: "disabled_poll r = disabled_poll r0" "RXMATCH r = RXMATCH r0"
  shows "picking_inv hw reg i sel0 r0 n (Suc k)
      (let p1 = p\<lparr>pk_rssi := (pk_rssi p)[k := acc], pk_radio := r\<rparr>
       in if pk_highest p1 < acc then p1\<lparr>pk_highest := acc, pk_selected := Some (reg ! k)\<rparr> else p1)"
proof (cases "pk_highest p < acc")
  case True
  then have t: "unat (pk_highest p) < sums hw i n (Suc k) k" using new by (simp add: word_less_nat_alt)
  have "sums hw i n (Suc k) j \<le> sums hw i n (Suc k) k" if "j < 10" for j
    using inv t that by (cases "j = k") (auto simp: picking_inv_def sums_Suc intro: le_trans less_imp_le)
  then show ?thesis
    using inv True k r upd new t by (auto simp: picking_inv_def Let_def intro!: exI [of _ k])
next
  case False
  then have f: "sums hw i n (Suc k) k \<le> unat (pk_highest p)"
    using new by (simp add: word_less_nat_alt not_less)
  have mono: "sums hw i n k j \<le> sums hw i n (Suc k) j" for j by (simp add: sums_Suc)
  have hi: "sums hw i n (Suc k) j \<le> unat (pk_highest p)" if "j < 10" for j
    using inv f that by (cases "j = k") (simp_all add: picking_inv_def sums_Suc)
  have sel: "if pk_highest p = 0 then pk_selected p = sel0
    else \<exists>j<10. pk_selected p = Some (reg ! j) \<and> unat (pk_highest p) \<le> sums hw i n (Suc k) j"
    using inv mono unfolding picking_inv_def by (meson le_trans)
  show ?thesis using inv False r upd hi sel by (simp add: picking_inv_def Let_def)
qed

lemma pick_body_ok:
  assumes hw: "hw_ok hw" and i: "i < 3" and n: "n < 256" and k: "k < 10"
    and inv: "picking_inv hw (gca_available_chlist ! i) i sel0 r0 n k p"
  shows "ok (pick_body hw i n k p) (picking_inv hw (gca_available_chlist ! i) i sel0 r0 n (Suc k))"
proof -
  let ?reg = "gca_available_chlist ! i"
  let ?sum = "ucast (ucast (pk_rssi p ! k) + hw_rssi hw i n k :: u32) :: u16"
  note step = picking_inv_step [OF k inv sample_added [OF hw n k inv]]
  have r0: "disabled_poll (pk_radio p) = disabled_poll r0" "RXMATCH (pk_radio p) = RXMATCH r0"
    using inv by (simp_all add: picking_inv_def)
  have m: "ok (measure_rssi hw ch (pk_radio p)) (\<lambda>r. disabled_poll r = disabled_poll r0 \<and> RXMATCH r = RXMATCH r0)" for ch
    using ok_measure_rssi [OF hw, of ch "pk_radio p"] by (simp add: r0)
  have len: "length (pk_rssi p) = 10" using inv by (simp add: picking_inv_def)
  show ?thesis
    unfolding pick_body_def ok_then_do ok_load_at
  proof (intro conjI ok_mono [OF m])
    fix r :: radio_regs assume "disabled_poll r = disabled_poll r0 \<and> RXMATCH r = RXMATCH r0"
    then show "ok (let sum = ?sum; p1 = p\<lparr>pk_rssi := (pk_rssi p)[k := sum], pk_radio := r\<rparr>
        in Inr (if pk_highest p1 < sum then p1\<lparr>pk_highest := sum, pk_selected := Some (?reg ! k)\<rparr> else p1))
      (picking_inv hw ?reg i sel0 r0 n (Suc k))"
      using step [of r] by (simp add: Let_def split del: if_split)
  qed (use region_lengths [OF i] k len in auto)
qed

lemma pick_rounds_ok:
  assumes "hw_ok hw" and "i < 3"
  shows "ok (pick_rounds hw i \<lparr>pk_rssi = replicate MAXIMUM_CHANNELS_PER_REGION 0, pk_highest = 0,
      pk_selected = sel0, pk_radio = r0\<rparr>)
    (picking_inv hw (gca_available_chlist ! i) i sel0 r0 MAXIMUM_RSSI_SAMPLES 0)"
  unfolding pick_rounds_def
proof (rule for_each_upt)
  show "picking_inv hw (gca_available_chlist ! i) i sel0 r0 0 0
      \<lparr>pk_rssi = replicate MAXIMUM_CHANNELS_PER_REGION 0, pk_highest = 0, pk_selected = sel0, pk_radio = r0\<rparr>"
    by (simp add: picking_inv_def sums_def rssi_total_def MAXIMUM_CHANNELS_PER_REGION_def)
next
  fix n p
  assume n: "n < MAXIMUM_RSSI_SAMPLES"
    and inv: "picking_inv hw (gca_available_chlist ! i) i sel0 r0 n 0 p"
  have "ok (for_each (pick_body hw i n) [0..<MAXIMUM_CHANNELS_PER_REGION] p)
      (picking_inv hw (gca_available_chlist ! i) i sel0 r0 n MAXIMUM_CHANNELS_PER_REGION)"
    by (rule for_each_upt [where I = "picking_inv hw (gca_available_chlist ! i) i sel0 r0 n"])
      (use n assms inv in \<open>auto simp: MAXIMUM_RSSI_SAMPLES_def MAXIMUM_CHANNELS_PER_REGION_def intro: pick_body_ok\<close>)
  then show "ok (for_each (pick_body hw i n) [0..<MAXIMUM_CHANNELS_PER_REGION] p)
      (picking_inv hw (gca_available_chlist ! i) i sel0 r0 (Suc n) 0)"
    by (rule ok_mono)
      (auto simp: picking_inv_def sums_round MAXIMUM_CHANNELS_PER_REGION_def cong: conj_cong split: if_splits)
qed

text \<open>The channel of region \<open>i\<close> with the largest total; RSSI samples are negated dBm, so the quietest.\<close>

definition quietest :: "box_hw \<Rightarrow> nat \<Rightarrow> u8 \<Rightarrow> bool" where
  "quietest hw i ch \<longleftrightarrow> (\<exists>k<10. ch = gca_available_chlist ! i ! k \<and>
     (\<forall>j<10. rssi_total hw i MAXIMUM_RSSI_SAMPLES j \<le> rssi_total hw i MAXIMUM_RSSI_SAMPLES k))"

lemma picked_quietest:
  assumes "picking_inv hw (gca_available_chlist ! i) i sel0 r0 MAXIMUM_RSSI_SAMPLES 0 p"
    and "\<exists>j<10. 0 < rssi_total hw i MAXIMUM_RSSI_SAMPLES j"
  shows "\<exists>ch. pk_selected p = Some ch \<and> quietest hw i ch"
proof -
  have le: "rssi_total hw i MAXIMUM_RSSI_SAMPLES j \<le> unat (pk_highest p)" if "j < 10" for j
    using assms(1) that by (simp add: picking_inv_def sums_def)
  with assms(2) have "pk_highest p \<noteq> 0" by fastforce
  then obtain k where k: "k < 10" "pk_selected p = Some (gca_available_chlist ! i ! k)"
      "unat (pk_highest p) \<le> rssi_total hw i MAXIMUM_RSSI_SAMPLES k"
    using assms(1) by (auto simp: picking_inv_def sums_def)
  then show ?thesis using le by (auto simp: quietest_def intro!: exI [of _ k] intro: le_trans)
qed

text \<open>What picking leaves of the box: everything but the channels in the record and the radio.\<close>

definition picked :: "box \<Rightarrow> box \<Rightarrow> bool" where
  "picked s t \<longleftrightarrow> (\<exists>chs f. t = s\<lparr>bx_ds := (bx_ds s)\<lparr>bd_chlist := chs\<rparr>, bx_esb := wr f (bx_esb s)\<rparr> \<and>
     length chs = length (bd_chlist (bx_ds s)) \<and>
     disabled_poll (f (radio (bx_esb s))) = disabled_poll (radio (bx_esb s)) \<and>
     RXMATCH (f (radio (bx_esb s))) = RXMATCH (radio (bx_esb s)))"

lemma picked_trans: "picked s t \<Longrightarrow> picked t u \<Longrightarrow> picked s u"
proof -
  assume "picked s t" and "picked t u"
  then obtain f g chs chs' where
    t: "t = s\<lparr>bx_ds := (bx_ds s)\<lparr>bd_chlist := chs\<rparr>, bx_esb := wr f (bx_esb s)\<rparr>"
      "length chs = length (bd_chlist (bx_ds s))"
      "disabled_poll (f (radio (bx_esb s))) = disabled_poll (radio (bx_esb s))"
      "RXMATCH (f (radio (bx_esb s))) = RXMATCH (radio (bx_esb s))" and
    u: "u = t\<lparr>bx_ds := (bx_ds t)\<lparr>bd_chlist := chs'\<rparr>, bx_esb := wr g (bx_esb t)\<rparr>"
      "length chs' = length (bd_chlist (bx_ds t))"
      "disabled_poll (g (radio (bx_esb t))) = disabled_poll (radio (bx_esb t))"
      "RXMATCH (g (radio (bx_esb t))) = RXMATCH (radio (bx_esb t))"
    unfolding picked_def by blast
  show ?thesis
    unfolding picked_def
    by (rule exI [of _ chs'], rule exI [of _ "g \<circ> f"]) (use t u in \<open>simp add: wr_def\<close>)
qed

lemma picked_box: "picked s t \<Longrightarrow> length (bd_chlist (bx_ds t)) = length (bd_chlist (bx_ds s))"
  by (auto simp: picked_def)

lemma pick_region_ok:
  assumes "hw_ok hw" and "i < 3" and "\<exists>j<10. 0 < rssi_total hw i MAXIMUM_RSSI_SAMPLES j"
    and "length (bd_chlist (bx_ds s)) = 3"
  shows "ok (pick_region hw i (sel, s)) (\<lambda>(_, t). picked s t \<and>
     (\<exists>ch. bd_chlist (bx_ds t) = (bd_chlist (bx_ds s))[i := ch] \<and> quietest hw i ch))"
  unfolding pick_region_def prod.case ok_then_do
proof (rule ok_mono [OF pick_rounds_ok [OF assms(1,2)]])
  fix p assume p: "picking_inv hw (gca_available_chlist ! i) i sel (radio (bx_esb s)) MAXIMUM_RSSI_SAMPLES 0 p"
  then obtain ch where ch: "pk_selected p = Some ch" "quietest hw i ch"
    using picked_quietest [OF _ assms(3)] by blast
  have "picked s (s\<lparr>bx_ds := (bx_ds s)\<lparr>bd_chlist := (bd_chlist (bx_ds s))[i := ch]\<rparr>,
      bx_esb := wr (\<lambda>_. pk_radio p) (bx_esb s)\<rparr>)"
    unfolding picked_def
    by (rule exI [of _ "(bd_chlist (bx_ds s))[i := ch]"], rule exI [of _ "\<lambda>_. pk_radio p"])
      (use p in \<open>simp add: picking_inv_def\<close>)
  then show "ok (case pk_selected p of None \<Rightarrow> Inl Uninitialised
      | Some ch \<Rightarrow> then_do (store_at (bd_chlist (bx_ds s)) i ch)
          (\<lambda>chs. Inr (Some ch, s\<lparr>bx_ds := (bx_ds s)\<lparr>bd_chlist := chs\<rparr>,
             bx_esb := wr (\<lambda>_. pk_radio p) (bx_esb s)\<rparr>)))
      (\<lambda>(_, t). picked s t \<and> (\<exists>ch. bd_chlist (bx_ds t) = (bd_chlist (bx_ds s))[i := ch] \<and> quietest hw i ch))"
    using ch assms(2,4) by (auto intro!: exI [of _ ch])
qed

lemma channel_list_ok:
  assumes "hw_ok hw" and "\<And>i. i < 3 \<Longrightarrow> \<exists>j<10. 0 < rssi_total hw i MAXIMUM_RSSI_SAMPLES j"
    and "length (bd_chlist (bx_ds s)) = 3"
  shows "ok (do_channel_list_generation hw s) (\<lambda>t. picked s t \<and>
     (\<forall>i<3. quietest hw i (bd_chlist (bx_ds t) ! i)))"
proof -
  let ?s1 = "s\<lparr>bx_esb := wr (\<lambda>r. r\<lparr>PACKETPTR := Local_buffer\<rparr>) (bx_esb s)\<rparr>"
  have p1: "picked s ?s1" unfolding picked_def
    by (rule exI [of _ "bd_chlist (bx_ds s)"], rule exI [of _ "\<lambda>r. r\<lparr>PACKETPTR := Local_buffer\<rparr>"]) simp
  have "ok (for_each (pick_region hw) [0..<MAXIMUM_CHANNEL_LIST_SIZE] (None, ?s1))
     (\<lambda>(_, t). picked s t \<and> (\<forall>i<MAXIMUM_CHANNEL_LIST_SIZE. quietest hw i (bd_chlist (bx_ds t) ! i)))"
  proof (rule for_each_upt [where I = "\<lambda>n (_, t). picked s t \<and>
      (\<forall>i<n. quietest hw i (bd_chlist (bx_ds t) ! i))"])
    fix k and st :: "u8 option \<times> box"
    assume k: "k < MAXIMUM_CHANNEL_LIST_SIZE"
      and I: "case st of (_, t) \<Rightarrow> picked s t \<and> (\<forall>i<k. quietest hw i (bd_chlist (bx_ds t) ! i))"
    obtain sel t where st: "st = (sel, t)" by (cases st)
    have len: "length (bd_chlist (bx_ds t)) = 3" using I assms(3) picked_box [of s t] by (simp add: st)
    have k3: "k < 3" using k by (simp add: MAXIMUM_CHANNEL_LIST_SIZE_def)
    show "ok (pick_region hw k st) (\<lambda>(_, t). picked s t \<and>
        (\<forall>i<Suc k. quietest hw i (bd_chlist (bx_ds t) ! i)))"
      unfolding st
      by (rule ok_mono [OF pick_region_ok [OF assms(1) k3 assms(2) [OF k3] len]])
        (use I k3 len in \<open>auto simp: st nth_list_update less_Suc_eq elim: picked_trans\<close>)
  qed (use p1 in simp)
  then show ?thesis
    by (auto simp: do_channel_list_generation_def Let_def MAXIMUM_CHANNEL_LIST_SIZE_def elim!: ok_mono)
qed

end
