(* ===== verification/AppEsb.thy ===== *)
theory AppEsb
  imports AppCommon EsbLink
begin

text \<open>
  The ESB module as the two applications use it: what a call does to a module that
  \<open>esb_init\<close> has just set up, and to one that is listening. The interface \<open>esb_client\<close> says how an application
  keeps the module inside its own state, and what the event interrupt does for its handler.
\<close>

unbundle bit_operations_syntax

lemma start_tx_transaction_addr: "post (start_tx_transaction s) (\<lambda>t. m_esb_addr t = m_esb_addr s)"
  by (auto simp: start_tx_transaction_def Let_def tx_buffer_set_def start_tx_ack_def
      start_tx_noack_def start_tx_radio_def split: nrf_esb_protocol_t.split)

text \<open>A payload that is accepted whatever the pipe.\<close>

definition sendable :: "nrf_esb_payload_t \<Rightarrow> bool" where
  "sendable p \<longleftrightarrow> length (pl_data p) = 32 \<and> 0 < unat (pl_length p) \<and> unat (pl_length p) \<le> 32 \<and>
     unat (pl_pipe p) < 9"

lemma fresh_reachable_facts:
  "fresh_esb b e \<Longrightarrow> esb_inv e \<and> queues e"
  by (simp add: fresh_esb_def)

text \<open>Writing to a fresh transmitter starts the transmission of that payload.\<close>

lemma fresh_write_starts:
  assumes e: "fresh_esb True e" and p: "sendable p"
  shows "ok (nrf_esb_write_payload (Some p) e) (\<lambda>(r, t). r = NRF_SUCCESS \<and> esb_inv t \<and> queues t \<and>
     tx_queue (view t) = [p\<lparr>pl_pid := next_pid 0\<rparr>] \<and> m_esb_addr t = m_esb_addr e \<and>
     m_config_local t = app_esb_config True \<and> m_interrupt_flags t = 0 \<and>
     m_nrf_esb_mainstate t = (if pl_noack p = 0 then NRF_ESB_STATE_PTX_TX_ACK else NRF_ESB_STATE_PTX_TX))"
proof -
  have pre: "call_pre (Call_write (Some p)) e" using p by (simp add: sendable_def)
  have inv: "esb_inv e" "queues e" using e by (simp_all add: fresh_esb_def)
  have code: "write_code (Some p) e = NRF_SUCCESS"
    using e p by (auto simp: write_code_def fresh_esb_def bad_payload_length_def sendable_def
        app_esb_config_def view_def)
  have q: "tx_queue (spec_write p (view e)) = [p\<lparr>pl_pid := next_pid 0\<rparr>]"
    using e p by (simp add: spec_write_def view_def fresh_esb_def Let_def sendable_def)
  obtain t where t: "nrf_esb_write_payload (Some p) e = Inr (NRF_SUCCESS, t)" "esb_inv t" "queues t"
      "tx_queue (view t) = [p\<lparr>pl_pid := next_pid 0\<rparr>]"
    using write_payload_refines [OF inv pre] nrf_esb_write_payload_ok [OF inv(1) pre]
      nrf_esb_write_payload_queues [OF inv(2), of "Some p"] q by (auto simp: ok_iff code)
  have run: "then_do (tx_enqueue p e) (\<lambda>s1. then_do (tx_auto_start s1) (\<lambda>s2. Inr (NRF_SUCCESS, s2)))
      = Inr (NRF_SUCCESS, t)"
    using t(1) by (auto simp: nrf_esb_write_payload_def split: if_splits)
  then obtain s1 where s1: "tx_enqueue p e = Inr s1" "tx_auto_start s1 = Inr t"
    by (auto simp: then_do_Inr_iff)
  have f: "m_tx_fifo s1 = fifo_push (p\<lparr>pl_pid := next_pid 0\<rparr>) (m_tx_fifo e)"
    "m_config_local s1 = m_config_local e" "m_nrf_esb_mainstate s1 = m_nrf_esb_mainstate e"
    "m_esb_addr s1 = m_esb_addr e" "m_interrupt_flags s1 = m_interrupt_flags e"
    using s1(1) e p by (auto simp: tx_enqueue_def Let_def then_do_Inr_iff load_at_Inr_iff DISABLE_RF_IRQ_def
        ENABLE_RF_IRQ_def fresh_esb_def sendable_def)
  have "fifo_contents (m_tx_fifo s1) = [p\<lparr>pl_pid := next_pid 0\<rparr>]" "fifo_inv (m_tx_fifo s1)"
    using e f(1) by (simp_all add: fresh_esb_def queues_def fifo_contents_push fifo_inv_push)
  then have head: "fifo_head (m_tx_fifo s1) = p\<lparr>pl_pid := next_pid 0\<rparr>"
    using f(1) by (simp add: fifo_head_contents)
  have start: "start_tx_transaction s1 = Inr t"
    using s1(2) e f by (simp add: tx_auto_start_def nrf_esb_is_idle_def fresh_esb_def app_esb_config_def)
  show ?thesis
    using t postD [OF start_tx_transaction_post start] postD [OF start_tx_transaction_addr start] e f head
    by (auto simp: ok_iff needs_ack_def payload_ack_def fresh_esb_def same_setup_def app_esb_config_def)
qed

lemma nrf_esb_stop_rx_post:
  "post (nrf_esb_stop_rx s) (\<lambda>(r, t). m_esb_addr t = m_esb_addr s \<and>
     (if r = NRF_SUCCESS then nrf_esb_is_idle t else t = s))"
  by (simp add: nrf_esb_stop_rx_def Let_def nrf_esb_is_idle_def)

lemma nrf_esb_set_rf_channel_ok:
  "nrf_esb_is_idle s \<Longrightarrow> c \<le> 125 \<Longrightarrow> esb_inv s \<Longrightarrow>
   ok (nrf_esb_set_rf_channel c s) (\<lambda>(r, t). r = NRF_SUCCESS \<and> esb_inv t \<and> nrf_esb_is_idle t \<and>
     rf_channel (m_esb_addr t) = ucast c)"
  using radio_setting_calls_ok(2) [of s c]
  by (simp add: nrf_esb_set_rf_channel_def nrf_esb_is_idle_def set_addr_def)

lemma fresh_start_rx:
  assumes "fresh_esb False e"
  shows "ok (nrf_esb_start_rx e) (\<lambda>(r, t). r = NRF_SUCCESS \<and> esb_inv t \<and> queues t \<and>
     m_nrf_esb_mainstate t = NRF_ESB_STATE_PRX \<and> m_esb_addr t = m_esb_addr e \<and>
     m_config_local t = app_esb_config False \<and> FREQUENCY (radio t) = ucast (rf_channel (m_esb_addr e)))"
proof -
  have e: "esb_inv e" "m_esb_initialized e" "queues e" "nrf_esb_is_idle e"
    "m_config_local e = app_esb_config False"
    using assms by (simp_all add: fresh_esb_def)
  have "post (nrf_esb_start_rx e) (\<lambda>(r, t). r = NRF_SUCCESS \<and> queues t \<and>
     m_nrf_esb_mainstate t = NRF_ESB_STATE_PRX \<and> m_esb_addr t = m_esb_addr e \<and>
     m_config_local t = app_esb_config False \<and> FREQUENCY (radio t) = ucast (rf_channel (m_esb_addr e)))"
    using e by (simp add: nrf_esb_start_rx_def Let_def nrf_esb_is_idle_def radio_task_def)
  then show ?thesis using nrf_esb_start_rx_ok [OF e(1,2)] by (auto simp: ok_iff)
qed

section \<open>Address calls of an idle module\<close>

lemma update_radio_addresses_frame:
  "post (update_radio_addresses m s) (\<lambda>t. m_nrf_esb_mainstate t = m_nrf_esb_mainstate s)"
  by (auto simp: update_radio_addresses_def addr_conv_def bytewise_bit_swap_def load_u32_def)

lemma address_calls_idle:
  assumes "esb_inv e" and "nrf_esb_is_idle e"
  shows "4 \<le> length a \<Longrightarrow> ok (nrf_esb_set_base_address_0 (Some a) e)
      (\<lambda>(r, t). r = NRF_SUCCESS \<and> esb_inv t \<and> nrf_esb_is_idle t)"
    "4 \<le> length a \<Longrightarrow> ok (nrf_esb_set_base_address_1 (Some a) e)
      (\<lambda>(r, t). r = NRF_SUCCESS \<and> esb_inv t \<and> nrf_esb_is_idle t)"
    "n < 9 \<Longrightarrow> unat n \<le> length a \<Longrightarrow> ok (nrf_esb_set_prefixes (Some a) n e)
      (\<lambda>(r, t). r = NRF_SUCCESS \<and> esb_inv t \<and> nrf_esb_is_idle t)"
    "pipe < 8 \<Longrightarrow> ok (nrf_esb_update_prefix pipe x e)
      (\<lambda>(r, t). r = NRF_SUCCESS \<and> esb_inv t \<and> nrf_esb_is_idle t)"
proof -
  have p: "post (update_radio_addresses m t) nrf_esb_is_idle" if "nrf_esb_is_idle t" for m t
    by (rule post_mono [OF update_radio_addresses_frame]) (use that in \<open>simp add: nrf_esb_is_idle_def\<close>)
  have i: "nrf_esb_is_idle (set_addr f e)" for f
    using assms(2) by (simp add: nrf_esb_is_idle_def set_addr_def)
  have idle: "m_nrf_esb_mainstate e = NRF_ESB_STATE_IDLE" using assms(2) by (simp add: nrf_esb_is_idle_def)
  show "4 \<le> length a \<Longrightarrow> ok (nrf_esb_set_base_address_0 (Some a) e)
      (\<lambda>(r, t). r = NRF_SUCCESS \<and> esb_inv t \<and> nrf_esb_is_idle t)"
  proof -
    assume a: "4 \<le> length a"
    have "post (nrf_esb_set_base_address_0 (Some a) e) (\<lambda>(r, t). r = NRF_SUCCESS \<and> nrf_esb_is_idle t)"
      using idle by (auto simp: nrf_esb_set_base_address_0_def intro!: post_mono [OF p] i)
    then show ?thesis
      using nrf_esb_set_base_address_ok(1) [OF assms(1), of "Some a"] a by (auto simp: ok_iff)
  qed
  show "4 \<le> length a \<Longrightarrow> ok (nrf_esb_set_base_address_1 (Some a) e)
      (\<lambda>(r, t). r = NRF_SUCCESS \<and> esb_inv t \<and> nrf_esb_is_idle t)"
  proof -
    assume a: "4 \<le> length a"
    have "post (nrf_esb_set_base_address_1 (Some a) e) (\<lambda>(r, t). r = NRF_SUCCESS \<and> nrf_esb_is_idle t)"
      using idle by (auto simp: nrf_esb_set_base_address_1_def intro!: post_mono [OF p] i)
    then show ?thesis
      using nrf_esb_set_base_address_ok(2) [OF assms(1), of "Some a"] a by (auto simp: ok_iff)
  qed
  show "n < 9 \<Longrightarrow> unat n \<le> length a \<Longrightarrow> ok (nrf_esb_set_prefixes (Some a) n e)
      (\<lambda>(r, t). r = NRF_SUCCESS \<and> esb_inv t \<and> nrf_esb_is_idle t)"
  proof -
    assume n: "n < 9" "unat n \<le> length a"
    have "post (nrf_esb_set_prefixes (Some a) n e) (\<lambda>(r, t). r = NRF_SUCCESS \<and> nrf_esb_is_idle t)"
      using idle n by (auto simp: nrf_esb_set_prefixes_def intro!: post_mono [OF p] i)
    then show ?thesis
      using nrf_esb_set_prefixes_ok [OF assms(1), where p = "Some a" and n = n] n by (auto simp: ok_iff)
  qed
  show "pipe < 8 \<Longrightarrow> ok (nrf_esb_update_prefix pipe x e)
      (\<lambda>(r, t). r = NRF_SUCCESS \<and> esb_inv t \<and> nrf_esb_is_idle t)"
  proof -
    assume q: "pipe < 8"
    have "post (nrf_esb_update_prefix pipe x e) (\<lambda>(r, t). r = NRF_SUCCESS \<and> nrf_esb_is_idle t)"
      using idle q by (auto simp: nrf_esb_update_prefix_def intro!: post_mono [OF p] i)
    then show ?thesis
      using nrf_esb_update_prefix_ok [OF assms(1), of pipe x] by (auto simp: ok_iff)
  qed
qed

section \<open>The client's interface\<close>

text \<open>The state after \<open>nrf_esb_get_clear_interrupts\<close>.\<close>

definition cleared :: "esb \<Rightarrow> esb" where
  "cleared e = ENABLE_RF_IRQ ((DISABLE_RF_IRQ e)\<lparr>m_interrupt_flags := 0\<rparr>)"

lemma get_clear_cleared:
  "m_esb_initialized e \<Longrightarrow>
   nrf_esb_get_clear_interrupts e = Inr (NRF_SUCCESS, Some (m_interrupt_flags e), cleared e)"
  by (simp add: nrf_esb_get_clear_interrupts_def cleared_def Let_def DISABLE_RF_IRQ_def)

lemma cleared_sel [simp]:
  "m_event_handler (cleared e) = m_event_handler e" "m_interrupt_flags (cleared e) = 0"
  "m_config_local (cleared e) = m_config_local e" "m_esb_initialized (cleared e) = m_esb_initialized e"
  "m_nrf_esb_mainstate (cleared e) = m_nrf_esb_mainstate e" "m_tx_fifo (cleared e) = m_tx_fifo e"
  "m_rx_fifo (cleared e) = m_rx_fifo e" "m_esb_addr (cleared e) = m_esb_addr e"
  by (simp_all add: cleared_def DISABLE_RF_IRQ_def ENABLE_RF_IRQ_def)

lemma cleared_inv: "esb_inv e \<Longrightarrow> esb_inv (cleared e)"
  by (simp add: cleared_def DISABLE_RF_IRQ_def ENABLE_RF_IRQ_def)

lemma deliver_event_False [simp]: "deliver_event get handler False evt = Inr"
  by (rule ext) (simp add: deliver_event_def)

locale esb_client =
  fixes get :: "'s \<Rightarrow> esb"
    and put :: "esb \<Rightarrow> 's \<Rightarrow> 's"
    and call :: "esb api \<Rightarrow> 's api"
    and handler :: "nrf_esb_evt_t \<Rightarrow> 's \<Rightarrow> 's result"
  assumes get_put [simp]: "get (put e s) = e"
    and put_get [simp]: "put (get s) s = s"
    and put_put [simp]: "put e (put e' s) = put e s"
    and call_put: "call f s = then_do (f (get s)) (\<lambda>(r, e). Inr (r, put e s))"
begin

lemma ok_call: "ok (call f s) P \<longleftrightarrow> ok (f (get s)) (\<lambda>(r, e). P (r, put e s))"
  by (cases "f (get s)") (auto simp: call_put)

lemma call_frame: "call f s = Inr (r, t) \<Longrightarrow> \<exists>e. f (get s) = Inr (r, e) \<and> t = put e s"
  by (auto simp: call_put then_do_Inr_iff)

text \<open>No flag: nothing is delivered. One flag: the handler runs once, for that event.\<close>

lemma irq_no_event:
  assumes "m_esb_initialized (get s)" and "m_interrupt_flags (get s) = 0"
  shows "ESB_EVT_IRQHandler get put handler s = Inr (put (cleared (get s)) s)"
  using assms by (simp add: ESB_EVT_IRQHandler_def get_clear_cleared Let_def)

lemma irq_one_event:
  assumes "m_esb_initialized (get s)" and "m_event_handler (get s)"
    and "(m_interrupt_flags (get s), evt) \<in> {(NRF_ESB_INT_TX_SUCCESS_MSK, NRF_ESB_EVENT_TX_SUCCESS),
      (NRF_ESB_INT_TX_FAILED_MSK, NRF_ESB_EVENT_TX_FAILED),
      (NRF_ESB_INT_RX_DATA_RECEIVED_MSK, NRF_ESB_EVENT_RX_RECEIVED)}"
  shows "ESB_EVT_IRQHandler get put handler s =
    handler \<lparr>evt_id = evt, tx_attempts = m_last_tx_attempts (get s)\<rparr> (put (cleared (get s)) s)"
proof -
  have "then_do m Inr = m" for m :: "'s result" by (cases m) simp_all
  then show ?thesis
    using assms by (auto simp: ESB_EVT_IRQHandler_def get_clear_cleared deliver_event_def int_masks Let_def)
qed

end

end
