(* ===== verification/BoxProps.thy ===== *)
theory BoxProps
  imports BoxSetup AppEsb EsbSample
begin

text \<open>
  The box's properties: the beacon of each interval, the bookkeeping of pairing and reception
  masks, the picked channels and the stored record.
\<close>

unbundle bit_operations_syntax

interpretation box_client: esb_client bx_esb "\<lambda>e s. s\<lparr>bx_esb := e\<rparr>" box_esb box_event_handler
  by unfold_locales (simp_all add: box_esb_def)

section \<open>The state the box runs in\<close>

definition box_ok :: "box \<Rightarrow> bool" where
  "box_ok s \<longleftrightarrow> esb_inv (bx_esb s) \<and> length (bx_chlist s) = 3 \<and> list_all (\<lambda>c. c \<le> 125) (bx_chlist s) \<and>
     length (pl_data (bx_beacon s)) = 32 \<and> pl_length (bx_beacon s) = 10 \<and> pl_pipe (bx_beacon s) = 0 \<and>
     length (pl_data (bx_rx_payload s)) = 32 \<and> length (pl_data (bx_stack s)) = 32 \<and>
     length (bd_chlist (bx_ds s)) = 3 \<and> length (bx_base_addr_1 s) = 4 \<and>
     3 \<le> length (flash_page (bx_flash s)) \<and> (\<exists>k. nvmc_ready (bx_flash s) k)"

lemma box_ok_esb:
  "box_ok s \<Longrightarrow> esb_inv e \<Longrightarrow> box_ok (s\<lparr>bx_esb := e\<rparr>)"
  by (simp add: box_ok_def)

lemma next_ch_idx_less: "unat (next_ch_idx i) < 3"
  by (simp add: next_ch_idx_def MAXIMUM_CHANNEL_LIST_SIZE_def)

text \<open>\<open>hop_channel\<close> cycles through the list: \<open>0, 1, 2, 0, ...\<close>\<close>

lemma next_ch_idx_cycle: "unat i < 3 \<Longrightarrow> unat (next_ch_idx i) = (unat i + 1) mod 3"
proof -
  assume i: "unat i < 3"
  then have "unat (i + 1) = unat i + 1" by (simp add: unat_word_ariths)
  then show ?thesis using i by (auto simp: next_ch_idx_def MAXIMUM_CHANNEL_LIST_SIZE_def mod_Suc)
qed

lemma box_esb_init_ok:
  assumes "esb_inv (bx_esb s)"
  shows "ok (box_esb_init b s) (\<lambda>(r, t). r = NRF_SUCCESS \<and>
    (\<exists>e. t = s\<lparr>bx_esb := e\<rparr> \<and> fresh_esb b e \<and> m_esb_addr e = m_esb_addr (bx_esb s)))"
proof -
  obtain e where e: "nrf_esb_disable (bx_esb s) = Inr (NRF_SUCCESS, e)" "esb_inv e"
      "m_esb_addr e = m_esb_addr (bx_esb s)"
    using nrf_esb_disable_ok [OF assms] by (auto simp: nrf_esb_disable_def Let_def ok_iff reset_fifos_def)
  have "ok (nrf_esb_init (Some (app_esb_config b)) e) (\<lambda>(r, t). r = NRF_SUCCESS \<and> fresh_esb b t \<and>
      m_esb_addr t = m_esb_addr (bx_esb s))"
    using app_esb_init_ok [OF e(2)] e(3) by simp
  then show ?thesis
    using e(1) by (auto simp: box_esb_init_def box_client.call_put ignore_code_def elim!: ok_mono)
qed

lemma stop_rx_wait_idle_ok:
  assumes "esb_inv (bx_esb s)"
  shows "ok (M_ESB_STOP_RX_WAIT_IDLE s) (\<lambda>t. \<exists>e. t = s\<lparr>bx_esb := e\<rparr> \<and> esb_inv e \<and> nrf_esb_is_idle e \<and>
    m_esb_addr e = m_esb_addr (bx_esb s))"
proof (cases "nrf_esb_is_idle (bx_esb s)")
  case True
  have "s = s\<lparr>bx_esb := bx_esb s\<rparr>" by simp
  with True assms show ?thesis unfolding M_ESB_STOP_RX_WAIT_IDLE_def by (simp only: if_False ok_Inr not_not simp_thms) blast
next
  case False
  obtain r e where e: "nrf_esb_stop_rx (bx_esb s) = Inr (r, e)" "esb_inv e"
      "m_esb_addr e = m_esb_addr (bx_esb s)" "r = NRF_SUCCESS \<longrightarrow> nrf_esb_is_idle e"
    using nrf_esb_stop_rx_ok [OF assms] nrf_esb_stop_rx_post [of "bx_esb s"] by (auto simp: ok_iff)
  have i: "ok (box_esb_init False (s\<lparr>bx_esb := e\<rparr>)) (\<lambda>(r, t). \<exists>e'. t = s\<lparr>bx_esb := e'\<rparr> \<and> esb_inv e' \<and>
      nrf_esb_is_idle e' \<and> m_esb_addr e' = m_esb_addr (bx_esb s))"
    by (rule ok_mono [OF box_esb_init_ok]) (use e in \<open>auto simp: fresh_esb_def\<close>)
  show ?thesis
    using False e i by (auto simp: M_ESB_STOP_RX_WAIT_IDLE_def box_client.call_put)
qed

lemma ucast_back [simp]: "(ucast (ucast (b :: u8) :: u32) :: u8) = b"
  by (rule bit_word_eqI) (auto simp: bit_simps)

lemma box_hop_channel_ok:
  assumes "box_ok s"
  shows "ok (box_hop_channel s) (\<lambda>t. let i = next_ch_idx (bx_cur_ch_idx s) in
    \<exists>e. t = s\<lparr>bx_cur_ch_idx := i, bx_esb := e\<rparr> \<and> esb_inv e \<and> nrf_esb_is_idle e \<and>
        rf_channel (m_esb_addr e) = bx_chlist s ! unat i)"
proof -
  let ?i = "next_ch_idx (bx_cur_ch_idx s)"
  have len: "unat ?i < length (bx_chlist s)" using assms next_ch_idx_less by (simp add: box_ok_def)
  then have ch: "ucast (bx_chlist s ! unat ?i) \<le> (125 :: u32)"
    using assms by (simp add: box_ok_def list_all_length word_le_nat_alt)
  have fin: "ok (box_esb (nrf_esb_set_rf_channel (ucast (bx_chlist s ! unat ?i))) (s\<lparr>bx_cur_ch_idx := ?i, bx_esb := e\<rparr>))
      (\<lambda>(r, t). r = NRF_SUCCESS \<and> (\<exists>e. t = s\<lparr>bx_cur_ch_idx := ?i, bx_esb := e\<rparr> \<and> esb_inv e \<and>
        nrf_esb_is_idle e \<and> rf_channel (m_esb_addr e) = bx_chlist s ! unat ?i))"
    if "esb_inv e" "nrf_esb_is_idle e" for e
    unfolding box_client.ok_call
    by (rule ok_mono [OF nrf_esb_set_rf_channel_ok]) (use that ch in auto)
  have inv: "esb_inv (bx_esb (s\<lparr>bx_cur_ch_idx := ?i\<rparr>))" using assms by (simp add: box_ok_def)
  show ?thesis
    unfolding box_hop_channel_def Let_def
    by (rule ok_then_doI [OF stop_rx_wait_idle_ok [OF inv]]) (use len fin in auto)
qed

section \<open>The beacon\<close>

text \<open>The beacon the box prepares: for channel 0 a request for new data, else the missing devices.\<close>

definition beacon_data :: "u8 list \<Rightarrow> u8 \<Rightarrow> u8 \<Rightarrow> u8 \<Rightarrow> u8 list" where
  "beacon_data d idx recv paired =
     (if idx = 0 then d[2 := BEACON_BYTE3_NEW_DATA]
      else d[2 := BEACON_BYTE3_RESEND, 3 := NOT recv AND paired])"

lemma send_beacon_ok:
  assumes "box_ok s" and "fresh_esb True (bx_esb s)"
  shows "ok (send_beacon s) (\<lambda>t. box_ok t \<and>
     tx_queue (view (bx_esb t)) = [(bx_beacon s)\<lparr>pl_noack := 1, pl_pid := next_pid 0, pl_data :=
       beacon_data (pl_data (bx_beacon s)) (bx_cur_ch_idx s) (bx_devs_data_recv_mask s) (bx_devs_paired_mask s)\<rparr>] \<and>
     m_nrf_esb_mainstate (bx_esb t) = NRF_ESB_STATE_PTX_TX \<and>
     m_esb_addr (bx_esb t) = m_esb_addr (bx_esb s) \<and>
     bx_devs_data_recv_mask t = (if bx_cur_ch_idx s = 0 then 0 else bx_devs_data_recv_mask s) \<and>
     bx_cur_ch_idx t = bx_cur_ch_idx s \<and> bx_mode t = bx_mode s \<and> bx_devs_paired_mask t = bx_devs_paired_mask s)"
proof -
  let ?d = "beacon_data (pl_data (bx_beacon s)) (bx_cur_ch_idx s) (bx_devs_data_recv_mask s) (bx_devs_paired_mask s)"
  let ?b = "(bx_beacon s)\<lparr>pl_data := ?d, pl_noack := 1\<rparr>"
  have d: "length ?d = 32" using assms(1) by (simp add: beacon_data_def box_ok_def)
  have "sendable ?b" using assms(1) d by (simp add: sendable_def box_ok_def)
  note w = fresh_write_starts [OF assms(2) this]
  have fin: "ok (ignore_code (box_esb (nrf_esb_write_payload (Some ?b)) t)) (\<lambda>u. \<exists>e. u = t\<lparr>bx_esb := e\<rparr> \<and>
      esb_inv e \<and> tx_queue (view e) = [?b\<lparr>pl_pid := next_pid 0\<rparr>] \<and>
      m_nrf_esb_mainstate e = NRF_ESB_STATE_PTX_TX \<and> m_esb_addr e = m_esb_addr (bx_esb s))"
    if "bx_esb t = bx_esb s" for t
    unfolding ok_ignore_code box_client.ok_call that by (rule ok_mono [OF w]) auto
  have len: "2 < length (pl_data (bx_beacon s))" "3 < length (pl_data (bx_beacon s))"
    using assms(1) by (simp_all add: box_ok_def)
  show ?thesis
  proof (cases "bx_cur_ch_idx s = 0")
    case True
    have dd: "?d = (pl_data (bx_beacon s))[2 := BEACON_BYTE3_NEW_DATA]"
      using True by (simp add: beacon_data_def)
    note f = fin [unfolded dd] and d' = d [unfolded dd]
    show ?thesis
      unfolding dd using True len assms(1) d'
      by (auto simp: send_beacon_def Let_def set_beacon_byte_def box_led_def box_ok_def
          simp del: ok_ignore_code intro!: ok_mono [OF f])
  next
    case False
    have dd: "?d = (pl_data (bx_beacon s))[2 := BEACON_BYTE3_RESEND,
        3 := NOT (bx_devs_data_recv_mask s) AND bx_devs_paired_mask s]"
      using False by (simp add: beacon_data_def)
    note f = fin [unfolded dd] and d' = d [unfolded dd]
    show ?thesis
      unfolding dd using False len assms(1) d'
      by (auto simp: send_beacon_def Let_def set_beacon_byte_def box_led_def box_ok_def
          beacon_resend_mask_def simp del: ok_ignore_code intro!: ok_mono [OF f])
  qed
qed

text \<open>What one interval leaves behind: the next channel and one beacon in the air.\<close>

definition beacon_sent :: "box \<Rightarrow> box \<Rightarrow> bool" where
  "beacon_sent s t \<longleftrightarrow> (let i = next_ch_idx (bx_cur_ch_idx s) in
    box_ok t \<and> bx_cur_ch_idx t = i \<and> rf_channel (m_esb_addr (bx_esb t)) = bx_chlist s ! unat i \<and>
    m_nrf_esb_mainstate (bx_esb t) = NRF_ESB_STATE_PTX_TX \<and>
    bx_devs_data_recv_mask t = (if i = 0 then 0 else bx_devs_data_recv_mask s) \<and>
    (\<exists>b. tx_queue (view (bx_esb t)) = [b] \<and> pl_noack b = 1 \<and>
      (if i = 0 then pl_data b ! 2 = BEACON_BYTE3_NEW_DATA
       else pl_data b ! 2 = BEACON_BYTE3_RESEND \<and>
            (\<forall>j<8. bit (pl_data b ! 3) j =
               (bit (bx_devs_paired_mask s) j \<and> \<not> bit (bx_devs_data_recv_mask s) j)))))"

lemma beacon_after_init:
  assumes "box_ok s" and "fresh_esb True e"
    and "rf_channel (m_esb_addr e) = bx_chlist s ! unat (next_ch_idx (bx_cur_ch_idx s))"
  shows "ok (send_beacon (s\<lparr>bx_cur_ch_idx := next_ch_idx (bx_cur_ch_idx s), bx_leds := g, bx_esb := e\<rparr>))
    (beacon_sent s)"
proof -
  let ?u = "s\<lparr>bx_cur_ch_idx := next_ch_idx (bx_cur_ch_idx s), bx_leds := g, bx_esb := e\<rparr>"
  have "box_ok ?u" "fresh_esb True (bx_esb ?u)" "length (pl_data (bx_beacon s)) = 32"
    using assms(1,2) by (simp_all add: box_ok_def fresh_esb_def)
  then show ?thesis
    by (intro ok_mono [OF send_beacon_ok])
      (auto simp: beacon_sent_def Let_def assms(3) beacon_data_def bit_simps)
qed

lemma init_then_beacon:
  assumes "box_ok s" and "esb_inv e"
    and "rf_channel (m_esb_addr e) = bx_chlist s ! unat (next_ch_idx (bx_cur_ch_idx s))"
  shows "ok (then_do (ignore_code (box_esb_init True
      (s\<lparr>bx_cur_ch_idx := next_ch_idx (bx_cur_ch_idx s), bx_leds := g, bx_esb := e\<rparr>))) send_beacon)
    (beacon_sent s)"
proof (rule ok_then_doI)
  show "ok (ignore_code (box_esb_init True
      (s\<lparr>bx_cur_ch_idx := next_ch_idx (bx_cur_ch_idx s), bx_leds := g, bx_esb := e\<rparr>)))
    (\<lambda>u. \<exists>e g. u = s\<lparr>bx_cur_ch_idx := next_ch_idx (bx_cur_ch_idx s), bx_leds := g, bx_esb := e\<rparr> \<and>
       fresh_esb True e \<and>
       rf_channel (m_esb_addr e) = bx_chlist s ! unat (next_ch_idx (bx_cur_ch_idx s)))"
    unfolding ok_ignore_code by (rule ok_mono [OF box_esb_init_ok]) (use assms in auto)
qed (auto intro: beacon_after_init [OF assms(1)])

lemma start_rx_on_channel:
  "nrf_esb_is_idle e \<Longrightarrow> post (nrf_esb_start_rx e) (\<lambda>(r, t). m_nrf_esb_mainstate t = NRF_ESB_STATE_PRX \<and>
     m_esb_addr t = m_esb_addr e \<and> FREQUENCY (radio t) = ucast (rf_channel (m_esb_addr e)))"
  "nrf_esb_is_idle e \<Longrightarrow> ok (nrf_esb_start_rx e) (\<lambda>_. True)"
  by (simp_all add: nrf_esb_start_rx_def Let_def nrf_esb_is_idle_def radio_task_def)

text \<open>
  C13. Every interval the box hops to the next channel of its list. In normal mode it then sends one
  beacon there, without acknowledgment: on the first channel the beacon asks every device for new data
  and the reception mask is cleared; on the others bit \<open>j\<close> of its fourth byte is set exactly for the
  devices that are paired and whose packet has not been received. In pairing mode it listens on that
  channel instead and sends nothing; while channels are being picked the radio is left idle.
\<close>

theorem box_beacon:
  assumes "box_ok s"
  shows "ok (box_interval_timer_event_handler s) (\<lambda>t. let i = next_ch_idx (bx_cur_ch_idx s) in
    bx_cur_ch_idx t = i \<and> rf_channel (m_esb_addr (bx_esb t)) = bx_chlist s ! unat i \<and>
    (case bx_mode s of
       MODE_NORMAL \<Rightarrow> box_ok t \<and> m_nrf_esb_mainstate (bx_esb t) = NRF_ESB_STATE_PTX_TX \<and>
         bx_devs_data_recv_mask t = (if i = 0 then 0 else bx_devs_data_recv_mask s) \<and>
         (\<exists>b. tx_queue (view (bx_esb t)) = [b] \<and> pl_noack b = 1 \<and>
           (if i = 0 then pl_data b ! 2 = BEACON_BYTE3_NEW_DATA
            else pl_data b ! 2 = BEACON_BYTE3_RESEND \<and>
                 (\<forall>j<8. bit (pl_data b ! 3) j =
                    (bit (bx_devs_paired_mask s) j \<and> \<not> bit (bx_devs_data_recv_mask s) j))))
     | MODE_PAIRING \<Rightarrow> m_nrf_esb_mainstate (bx_esb t) = NRF_ESB_STATE_PRX \<and>
         FREQUENCY (radio (bx_esb t)) = ucast (bx_chlist s ! unat i) \<and>
         bx_devs_data_recv_mask t = bx_devs_data_recv_mask s \<and> bx_beacon t = bx_beacon s
     | MODE_CHANNEL_PICKING \<Rightarrow> nrf_esb_is_idle (bx_esb t) \<and>
         bx_devs_data_recv_mask t = bx_devs_data_recv_mask s \<and> bx_beacon t = bx_beacon s))"
proof -
  let ?i = "next_ch_idx (bx_cur_ch_idx s)"
  let ?led = "\<lambda>a. if bx_cur_ch_idx a = 0 then box_led (pin_toggle LED_4) a else a"
  define g where "g = (if ?i = 0 then pin_toggle LED_4 (bx_leds s) else bx_leds s)"
  show ?thesis
    unfolding box_interval_timer_event_handler_def Let_def
  proof (rule ok_then_doI [OF box_hop_channel_ok [OF assms, unfolded Let_def]])
    fix a assume "\<exists>e. a = s\<lparr>bx_cur_ch_idx := ?i, bx_esb := e\<rparr> \<and> esb_inv e \<and> nrf_esb_is_idle e \<and>
      rf_channel (m_esb_addr e) = bx_chlist s ! unat ?i"
    then obtain e where a: "a = s\<lparr>bx_cur_ch_idx := ?i, bx_leds := bx_leds s, bx_esb := e\<rparr>" "esb_inv e"
      "rf_channel (m_esb_addr e) = bx_chlist s ! unat ?i" "nrf_esb_is_idle e" by auto
    have u: "?led a = s\<lparr>bx_cur_ch_idx := ?i, bx_leds := g, bx_esb := e\<rparr>"
      by (simp add: a(1) box_led_def g_def)
    note beacon = init_then_beacon [OF assms a(2,3), of g]
    obtain r f where rx: "nrf_esb_start_rx e = Inr (r, f)" "m_nrf_esb_mainstate f = NRF_ESB_STATE_PRX"
        "m_esb_addr f = m_esb_addr e" "FREQUENCY (radio f) = ucast (rf_channel (m_esb_addr e))"
      using start_rx_on_channel [OF a(4)] by (auto simp: ok_iff)
    show "ok (if bx_mode (?led a) = MODE_NORMAL
        then then_do (ignore_code (box_esb_init True (?led a))) send_beacon
        else if bx_mode (?led a) = MODE_PAIRING then ignore_code (box_esb nrf_esb_start_rx (?led a))
        else Inr (?led a)) (\<lambda>t.
    bx_cur_ch_idx t = ?i \<and> rf_channel (m_esb_addr (bx_esb t)) = bx_chlist s ! unat ?i \<and>
    (case bx_mode s of
       MODE_NORMAL \<Rightarrow> box_ok t \<and> m_nrf_esb_mainstate (bx_esb t) = NRF_ESB_STATE_PTX_TX \<and>
         bx_devs_data_recv_mask t = (if ?i = 0 then 0 else bx_devs_data_recv_mask s) \<and>
         (\<exists>b. tx_queue (view (bx_esb t)) = [b] \<and> pl_noack b = 1 \<and>
           (if ?i = 0 then pl_data b ! 2 = BEACON_BYTE3_NEW_DATA
            else pl_data b ! 2 = BEACON_BYTE3_RESEND \<and>
                 (\<forall>j<8. bit (pl_data b ! 3) j =
                    (bit (bx_devs_paired_mask s) j \<and> \<not> bit (bx_devs_data_recv_mask s) j))))
     | MODE_PAIRING \<Rightarrow> m_nrf_esb_mainstate (bx_esb t) = NRF_ESB_STATE_PRX \<and>
         FREQUENCY (radio (bx_esb t)) = ucast (bx_chlist s ! unat ?i) \<and>
         bx_devs_data_recv_mask t = bx_devs_data_recv_mask s \<and> bx_beacon t = bx_beacon s
     | MODE_CHANNEL_PICKING \<Rightarrow> nrf_esb_is_idle (bx_esb t) \<and>
         bx_devs_data_recv_mask t = bx_devs_data_recv_mask s \<and> bx_beacon t = bx_beacon s))"
    proof (cases "bx_mode s")
      case MODE_NORMAL
      then show ?thesis
        unfolding u using beacon by (auto simp: beacon_sent_def Let_def elim!: ok_mono)
    next
      case MODE_PAIRING
      then show ?thesis
        unfolding u using rx a(3) by (simp add: ignore_code_def box_client.call_put)
    next
      case MODE_CHANNEL_PICKING
      then show ?thesis unfolding u using a(3,4) by simp
    qed
  qed
qed

text \<open>A box in normal mode, with two displays and a controller paired, one display heard.\<close>

definition sample_flash :: flash where
  "sample_flash = \<lparr>flash_page = replicate 256 0, NVMC_CONFIG = NVMC_CONFIG_WEN_Ren,
     nvmc_ready = (\<lambda>k. 2 \<le> k)\<rparr>"

definition sample_timer :: interval_timer where
  "sample_timer = \<lparr>T0_CC0 = 4000, T0_irq_enabled = True, T0_running = True, T0_EVENTS_COMPARE = False\<rparr>"

definition sample_box :: box where
  "sample_box =
     \<lparr>bx_esb = sample_ptx, bx_chlist = [3, 36, 70], bx_mode = MODE_NORMAL, bx_pairing_timeout = 0,
      bx_cur_ch_idx = 0,
      bx_beacon = sample_payload\<lparr>pl_length := 10, pl_pipe := 0, pl_data := [0xee, 0xdd] @ replicate 30 0\<rparr>,
      bx_rx_payload = sample_payload, bx_base_addr_1 = [1, 2, 3, 4],
      bx_ds = \<lparr>bd_signature = DS_SIGNATURE, bd_chlist = [3, 36, 70], bd_display_slot_idx = 2,
               bd_controller_slot_idx = 1, bd_pad = (0, 0, 0)\<rparr>,
      bx_cur_pairing_dev_type = 0, bx_devs_paired_mask = 0x32, bx_devs_data_recv_mask = 0x10,
      bx_leds = (\<lambda>_. True), bx_timer = sample_timer, bx_flash = sample_flash,
      bx_stack = sample_payload\<rparr>"

lemma sample_box_ok: "box_ok sample_box"
  using sample_inv(2) by (auto simp: box_ok_def sample_box_def sample_payload_def sample_flash_def)

theorem box_beacon_witness:
  "ok (box_interval_timer_event_handler sample_box) (\<lambda>t. let i = next_ch_idx (bx_cur_ch_idx sample_box) in
    bx_cur_ch_idx t = i \<and> rf_channel (m_esb_addr (bx_esb t)) = bx_chlist sample_box ! unat i \<and>
    (case bx_mode sample_box of
       MODE_NORMAL \<Rightarrow> box_ok t \<and> m_nrf_esb_mainstate (bx_esb t) = NRF_ESB_STATE_PTX_TX \<and>
         bx_devs_data_recv_mask t = (if i = 0 then 0 else bx_devs_data_recv_mask sample_box) \<and>
         (\<exists>b. tx_queue (view (bx_esb t)) = [b] \<and> pl_noack b = 1 \<and>
           (if i = 0 then pl_data b ! 2 = BEACON_BYTE3_NEW_DATA
            else pl_data b ! 2 = BEACON_BYTE3_RESEND \<and>
                 (\<forall>j<8. bit (pl_data b ! 3) j =
                    (bit (bx_devs_paired_mask sample_box) j \<and> \<not> bit (bx_devs_data_recv_mask sample_box) j))))
     | MODE_PAIRING \<Rightarrow> m_nrf_esb_mainstate (bx_esb t) = NRF_ESB_STATE_PRX \<and>
         FREQUENCY (radio (bx_esb t)) = ucast (bx_chlist sample_box ! unat i) \<and>
         bx_devs_data_recv_mask t = bx_devs_data_recv_mask sample_box \<and> bx_beacon t = bx_beacon sample_box
     | MODE_CHANNEL_PICKING \<Rightarrow> nrf_esb_is_idle (bx_esb t) \<and>
         bx_devs_data_recv_mask t = bx_devs_data_recv_mask sample_box \<and> bx_beacon t = bx_beacon sample_box))"
  by (rule box_beacon [OF sample_box_ok])

section \<open>Pairing and reception masks\<close>

text \<open>Bit \<open>6 - idx\<close> belongs to device \<open>idx\<close>; displays are 1 to 4, controllers 5 and 6.\<close>

definition slot_taken :: "nat \<Rightarrow> nat \<Rightarrow> nat \<Rightarrow> bool" where
  "slot_taken d c i \<longleftrightarrow> (2 \<le> i \<and> i < 6 \<and> 6 \<le> i + d) \<or> (i < 2 \<and> 2 \<le> i + c)"

definition slots_ok :: "box \<Rightarrow> bool" where
  "slots_ok s \<longleftrightarrow> unat (bd_display_slot_idx (bx_ds s)) \<le> 4 \<and> unat (bd_controller_slot_idx (bx_ds s)) \<le> 2 \<and>
     (\<forall>i. bit (bx_devs_paired_mask s) i =
        slot_taken (unat (bd_display_slot_idx (bx_ds s))) (unat (bd_controller_slot_idx (bx_ds s))) i)"

lemma bit_push1 [simp]: "bit (push_bit n 1 :: u8) i \<longleftrightarrow> i = n \<and> n < 8"
  by (auto simp: bit_simps)

lemma unat_inc_u8: "unat (x :: u8) < 255 \<Longrightarrow> unat (x + 1) = unat x + 1"
  by (simp add: unat_word_ariths)

lemma pairing_slot_cases:
  "pairing_slot ty d = Some (t, idx) \<Longrightarrow>
    (t = 1 \<and> unat (bd_display_slot_idx d) < 4 \<and> unat idx = unat (bd_display_slot_idx d) + 1) \<or>
    (t = 2 \<and> unat (bd_controller_slot_idx d) < 2 \<and> unat idx = unat (bd_controller_slot_idx d) + 5)"
  by (auto simp: pairing_slot_def app_config word_less_nat_alt unat_word_ariths split: if_splits)

lemma for_each_or:
  assumes "\<And>i. i < n \<Longrightarrow> 0 \<le> f i \<and> f i < 8"
  shows "ok (for_each (\<lambda>i m. then_do (shl1_u8 (f i)) (\<lambda>b. Inr (m OR b))) [0..<n] m0)
    (\<lambda>m. \<forall>j. bit m j = (bit m0 j \<or> (\<exists>i<n. j = nat (f i))))"
proof (rule for_each_upt [where I = "\<lambda>n m. \<forall>j. bit m j = (bit m0 j \<or> (\<exists>i<n. j = nat (f i)))"])
  fix k and m :: u8
  assume k: "k < n" and I: "\<forall>j. bit m j = (bit m0 j \<or> (\<exists>i<k. j = nat (f i)))"
  have f: "0 \<le> f k" "f k < 8" using assms [OF k] by simp_all
  have "bit (m OR push_bit (nat (f k)) 1) j = (bit m0 j \<or> (\<exists>i<Suc k. j = nat (f i)))" for j
    using I f by (auto simp: bit_or_iff less_Suc_eq simp del: push_bit_of_1)
  then show "ok (then_do (shl1_u8 (f k)) (\<lambda>b. Inr (m OR b)))
      (\<lambda>m. \<forall>j. bit m j = (bit m0 j \<or> (\<exists>i<Suc k. j = nat (f i))))"
    using f by (simp del: push_bit_of_1)
qed simp

lemma boot_paired_mask_ok:
  assumes "unat (bd_display_slot_idx d) \<le> 4" and "unat (bd_controller_slot_idx d) \<le> 2"
  shows "ok (boot_paired_mask d) (\<lambda>m. \<forall>i. bit m i =
    slot_taken (unat (bd_display_slot_idx d)) (unat (bd_controller_slot_idx d)) i)"
proof -
  let ?d = "unat (bd_display_slot_idx d)" and ?c = "unat (bd_controller_slot_idx d)"
  have 1: "ok (for_each (\<lambda>i m. then_do (shl1_u8 (5 - int i)) (\<lambda>b. Inr (m OR b))) [0..<?d] 0)
      (\<lambda>m. \<forall>j. bit m j = (\<exists>i<?d. j = nat (5 - int i)))"
    by (rule ok_mono [OF for_each_or]) (use assms in auto)
  have 2: "ok (for_each (\<lambda>i m. then_do (shl1_u8 (1 - int i)) (\<lambda>b. Inr (m OR b))) [0..<?c] m)
      (\<lambda>m'. \<forall>j. bit m' j = (bit m j \<or> (\<exists>i<?c. j = nat (1 - int i))))" for m
    by (rule for_each_or) (use assms in auto)
  have disp: "(\<exists>i<?d. j = nat (5 - int i)) \<longleftrightarrow> 2 \<le> j \<and> j < 6 \<and> 6 \<le> j + ?d" for j
    using assms(1) by (auto intro: exI [of _ "5 - j"])
  have ctrl: "(\<exists>i<?c. j = nat (1 - int i)) \<longleftrightarrow> j < 2 \<and> 2 \<le> j + ?c" for j
    using assms(2) by (auto intro: exI [of _ "1 - j"])
  show ?thesis
    unfolding boot_paired_mask_def
    by (rule ok_then_doI [OF 1], rule ok_mono [OF 2]) (auto simp: disp ctrl slot_taken_def)
qed

lemma slot_taken_Suc:
  "d < 4 \<Longrightarrow> slot_taken (Suc d) c i = (slot_taken d c i \<or> i = 5 - d)"
  "c < 2 \<Longrightarrow> slot_taken d (Suc c) i = (slot_taken d c i \<or> i = 1 - c)"
  by (auto simp: slot_taken_def)

lemma slot_free: "d < 4 \<Longrightarrow> \<not> slot_taken d c (5 - d)" "c < 2 \<Longrightarrow> \<not> slot_taken d c (1 - c)"
  by (auto simp: slot_taken_def)

lemma shl1_u8_Inr: "0 \<le> n \<Longrightarrow> n < 31 \<Longrightarrow> shl1_u8 n = Inr (push_bit (nat n) 1)"
  using ok_shl1_u8 [of n "\<lambda>x. x = push_bit (nat n) 1"] by (auto simp: ok_iff)

lemma bit_or_push1: "k < 8 \<Longrightarrow> bit (m OR push_bit k 1 :: u8) i = (bit m i \<or> i = k)"
  by (auto simp: bit_or_iff simp del: push_bit_of_1)

lemma shl1_slot:
  assumes "unat (x :: u8) < k" and "k \<le> 8"
  shows "shl1_u8 (int k - uint (x + 1)) = Inr (push_bit (k - 1 - unat x) 1)"
proof -
  have "uint (x + 1) = int (unat x + 1)"
    using assms unat_inc_u8 [of x] by (simp only: uint_nat)
  then have "int k - uint (x + 1) = int (k - 1 - unat x)" using assms(1) by linarith
  then show ?thesis using assms by (simp only: shl1_u8_Inr nat_int)
qed

lemma take_slot_display:
  assumes "unat (bd_display_slot_idx (bx_ds s)) < 4"
  shows "box_take_slot (s\<lparr>bx_cur_pairing_dev_type := 1\<rparr>) = Inr (s\<lparr>bx_cur_pairing_dev_type := 1,
    bx_ds := (bx_ds s)\<lparr>bd_display_slot_idx := bd_display_slot_idx (bx_ds s) + 1\<rparr>,
    bx_devs_paired_mask := bx_devs_paired_mask s
      OR push_bit (5 - unat (bd_display_slot_idx (bx_ds s))) 1\<rparr>)"
  using assms shl1_slot [of "bd_display_slot_idx (bx_ds s)" 6]
  by (simp add: box_take_slot_def Let_def app_config word_less_nat_alt del: push_bit_of_1)

lemma take_slot_controller:
  assumes "unat (bd_controller_slot_idx (bx_ds s)) < 2"
  shows "box_take_slot (s\<lparr>bx_cur_pairing_dev_type := 2\<rparr>) = Inr (s\<lparr>bx_cur_pairing_dev_type := 2,
    bx_ds := (bx_ds s)\<lparr>bd_controller_slot_idx := bd_controller_slot_idx (bx_ds s) + 1\<rparr>,
    bx_devs_paired_mask := bx_devs_paired_mask s
      OR push_bit (1 - unat (bd_controller_slot_idx (bx_ds s))) 1\<rparr>)"
  using assms shl1_slot [of "bd_controller_slot_idx (bx_ds s)" 2]
  by (simp add: box_take_slot_def Let_def app_config word_less_nat_alt del: push_bit_of_1)

text \<open>A slot that is offered is free; taking it sets its bit of the mask and no other.\<close>

lemma take_slot_free_bit:
  assumes "slots_ok s" and "pairing_slot ty (bx_ds s) = Some (t, idx)"
  shows "1 \<le> unat idx \<and> unat idx \<le> 6 \<and> \<not> bit (bx_devs_paired_mask s) (6 - unat idx) \<and>
    ok (box_take_slot (s\<lparr>bx_cur_pairing_dev_type := t\<rparr>)) (\<lambda>u. slots_ok u \<and>
      (\<forall>i. bit (bx_devs_paired_mask u) i = (bit (bx_devs_paired_mask s) i \<or> i = 6 - unat idx)))"
proof -
  let ?d = "bd_display_slot_idx (bx_ds s)" and ?c = "bd_controller_slot_idx (bx_ds s)"
  note inc = unat_inc_u8 [of ?d] unat_inc_u8 [of ?c]
  consider "t = 1" "unat ?d < 4" "unat idx = unat ?d + 1" | "t = 2" "unat ?c < 2" "unat idx = unat ?c + 5"
    using pairing_slot_cases [OF assms(2)] by blast
  then show ?thesis
  proof cases
    case 1
    then show ?thesis
      using assms(1) inc take_slot_display [OF 1(2)]
      by (auto simp: slots_ok_def slot_taken_Suc slot_free [simplified] bit_or_push1 simp del: push_bit_of_1)
  next
    case 2
    then show ?thesis
      using assms(1) inc take_slot_controller [OF 2(2)]
      by (auto simp: slots_ok_def slot_taken_Suc slot_free [simplified] bit_or_push1 simp del: push_bit_of_1)
  qed
qed

lemma sample_box_slots: "slots_ok sample_box"
proof -
  have "bit (0x32 :: u8) i = slot_taken 2 1 i" for i
  proof (cases "i < 8")
    case True
    then have "i \<in> {0, 1, 2, 3, 4, 5, 6, 7}" by auto
    then show ?thesis by (auto simp: slot_taken_def bit_simps)
  next
    case False
    then show ?thesis by (auto simp: slot_taken_def u8_high_bits)
  qed
  then show ?thesis by (simp add: slots_ok_def sample_box_def)
qed

text \<open>
  A restart keeps the paired devices: the mask that start-up recomputes from the stored slot counters
  is the one that pairing had built up bit by bit.
\<close>

theorem boot_mask_agrees:
  assumes "slots_ok s"
  shows "boot_paired_mask (bx_ds s) = Inr (bx_devs_paired_mask s)"
proof -
  have "ok (boot_paired_mask (bx_ds s)) (\<lambda>m. m = bx_devs_paired_mask s)"
    by (rule ok_mono [OF boot_paired_mask_ok])
      (use assms in \<open>auto simp: slots_ok_def intro: bit_word_eqI\<close>)
  then show ?thesis by (auto simp: ok_iff)
qed

theorem boot_mask_agrees_witness:
  "boot_paired_mask (bx_ds sample_box) = Inr (bx_devs_paired_mask sample_box)"
  by (rule boot_mask_agrees [OF sample_box_slots])

section \<open>The stored record\<close>

text \<open>
  C17. What the box stores it finds again: reading the flash page after \<open>ds_update\<close> gives the signature,
  the channel list and the slot counters that were written, whatever the page held before.
\<close>

theorem box_record_roundtrip:
  assumes "box_ok s"
  shows "ok (box_ds_save s) (\<lambda>t. ok (ds_get (box_ds_words d0) 12 (bx_flash t))
    (\<lambda>ws. box_ds_of_words ws = bx_ds s))"
proof -
  obtain j where j: "nvmc_ready (bx_flash s) j" using assms by (auto simp: box_ok_def)
  have len: "3 \<le> length (flash_page (bx_flash s))" using assms by (simp add: box_ok_def)
  have upd: "ds_update (box_ds_words (bx_ds s)) 12 (bx_flash s) =
      Inr ((bx_flash s)\<lparr>NVMC_CONFIG := NVMC_CONFIG_WEN_Ren, flash_page := box_ds_words (bx_ds s)
        @ replicate (length (flash_page (bx_flash s)) - 3) (- 1)\<rparr>)"
    using ds_update_ok [of 12 "bx_flash s" "box_ds_words (bx_ds s)" j] j len
    by (simp add: box_ds_words_def)
  have get: "ds_get (box_ds_words d0) 12 f = Inr (take 3 (flash_page f))" if "3 \<le> length (flash_page f)" for f
    using ds_get_loop_ok [of 0 3 f "box_ds_words d0"] that by (simp add: ds_get_def box_ds_words_def)
  obtain a b c where "bd_chlist (bx_ds s) = [a, b, c]"
    using assms by (auto simp: box_ok_def length_Suc_conv numeral_3_eq_3)
  then have "box_ds_of_words (box_ds_words (bx_ds s)) = bx_ds s"
    by (cases "bx_ds s"; cases "bd_pad (bx_ds s)")
      (simp add: box_ds_of_words_def box_ds_words_def)
  moreover have "length (box_ds_words (bx_ds s)) = 3" by (simp add: box_ds_words_def)
  ultimately show ?thesis
    using len by (simp add: box_ds_save_def upd get)
qed

theorem box_record_roundtrip_witness:
  "ok (box_ds_save sample_box) (\<lambda>t. ok (ds_get (box_ds_words (bx_ds sample_box)) 12 (bx_flash t))
    (\<lambda>ws. box_ds_of_words ws = bx_ds sample_box))"
  by (rule box_record_roundtrip [OF sample_box_ok])

section \<open>Channel picking\<close>

text \<open>
  C16. Channel picking ends and picks, in each of the three regions, a channel whose RSSI samples add up
  to the region's maximum (RSSISAMPLE is the negated level, so the quietest channel); the 16-bit sums of
  256 seven-bit samples do not overflow. It needs one non-zero sample in each region: without one the
  code stores an uninitialised variable.
\<close>

theorem picks_quietest_channels:
  assumes "hw_ok hw" and "\<And>i. i < 3 \<Longrightarrow> \<exists>j<10. 0 < rssi_total hw i MAXIMUM_RSSI_SAMPLES j"
    and "length (bd_chlist (bx_ds s)) = 3"
  shows "ok (do_channel_list_generation hw s) (\<lambda>t.
     \<forall>i<3. quietest hw i (bd_chlist (bx_ds t) ! i))"
  by (rule ok_mono [OF channel_list_ok [OF assms]]) simp_all

definition sample_hw :: box_hw where
  "sample_hw = \<lparr>hw_rssi = (\<lambda>i n k. of_nat ((i + n + 3 * k) mod 100)), hw_ready = (\<lambda>k. 2 \<le> k),
     hw_rssiend = (\<lambda>_. True), hw_disabled = (\<lambda>k. 1 \<le> k), hw_hfclk = (\<lambda>_. True),
     hw_device_id = 0xCAFE, hw_button_1 = True\<rparr>"

lemma sample_hw_ok: "hw_ok sample_hw"
proof -
  have "unat (of_nat (m mod 100) :: u32) < 128" for m
    by (simp add: unat_of_nat less_trans [OF mod_less_divisor])
  then show ?thesis by (auto simp: hw_ok_def sample_hw_def)
qed

lemma sample_hw_heard:
  assumes "i < 3"
  shows "\<exists>j<10. 0 < rssi_total sample_hw i MAXIMUM_RSSI_SAMPLES j"
proof (rule exI [of _ 1], intro conjI)
  consider "i = 0" | "i = 1" | "i = 2" using assms by linarith
  then have "0 < unat (hw_rssi sample_hw i 0 1)" by cases (simp_all add: sample_hw_def)
  moreover have "unat (hw_rssi sample_hw i 0 1) \<le> rssi_total sample_hw i MAXIMUM_RSSI_SAMPLES 1"
    unfolding rssi_total_def by (rule member_le_sum) (simp_all add: MAXIMUM_RSSI_SAMPLES_def)
  ultimately show "0 < rssi_total sample_hw i MAXIMUM_RSSI_SAMPLES 1" by linarith
qed simp

theorem picks_quietest_channels_witness:
  "ok (do_channel_list_generation sample_hw sample_box) (\<lambda>t.
     \<forall>i<3. quietest sample_hw i (bd_chlist (bx_ds t) ! i))"
  by (rule picks_quietest_channels [OF sample_hw_ok sample_hw_heard])
    (simp_all add: sample_box_def)

section \<open>Reception\<close>

lemma box_data_received_ok:
  assumes "1 \<le> unat (pl_pipe (bx_rx_payload s))" and "unat (pl_pipe (bx_rx_payload s)) \<le> 6"
    and "pl_length (bx_rx_payload s) = 32"
  shows "ok (box_data_received s) (\<lambda>t. (\<forall>i. bit (bx_devs_data_recv_mask t) i =
     (bit (bx_devs_data_recv_mask s) i \<or> i = 6 - unat (pl_pipe (bx_rx_payload s)))) \<and>
     bx_devs_paired_mask t = bx_devs_paired_mask s \<and> bx_beacon t = bx_beacon s)"
proof -
  let ?p = "pl_pipe (bx_rx_payload s)"
  have "6 - uint ?p = int (6 - unat ?p)" using assms(2) uint_nat [of ?p] by linarith
  then have "shl1_u8 (6 - uint ?p) = Inr (push_bit (6 - unat ?p) 1)"
    by (simp only: shl1_u8_Inr nat_int)
  moreover have "?p \<noteq> 0" using assms(1) by auto
  ultimately show ?thesis
    using assms(3) by (simp add: box_data_received_def bit_or_push1 del: push_bit_of_1)
qed

end
