(* ===== verification/Device.thy ===== *)
theory Device
  imports AppCommon
begin

text \<open>
  A device, examples/proprietary_rf/device/main.c: it pairs with a box, then listens for the
  box's beacons and answers with its data, or with the data it sent before when the box asks for that
  again. \<open>device\<close> is its global variables with the ESB module, the flash page, the LEDs, the interval
  timer and a log of the delays.

  \<open>while (!nrf_esb_is_idle());\<close> is a fault \<open>Hang\<close> when the module is not idle: a receiver never becomes
  idle by itself, and the device only gets there from a receiver or when it is idle.
\<close>

unbundle bit_operations_syntax

section \<open>State\<close>

datatype device_mode = MODE_NORMAL | MODE_PAIRING

datatype pair_state = PAIR_STATE_NONE | PAIR_STATE_SEND_REQ | PAIR_STATE_WAIT_FOR_INFO

record device_ds =
  dd_signature :: u32
  dd_chlist :: "u8 list"
  dd_sys_address_32 :: "u8 list"
  dd_dev_idx :: u8

definition device_ds_words :: "device_ds \<Rightarrow> u32 list" where
  "device_ds_words d =
     [dd_signature d,
      le_word (dd_chlist d ! 0) (dd_chlist d ! 1) (dd_chlist d ! 2) (dd_sys_address_32 d ! 0),
      le_word (dd_sys_address_32 d ! 1) (dd_sys_address_32 d ! 2) (dd_sys_address_32 d ! 3)
        (dd_dev_idx d)]"

definition device_ds_of_words :: "u32 list \<Rightarrow> device_ds" where
  "device_ds_of_words ws =
     \<lparr>dd_signature = ws ! 0,
      dd_chlist = [byte_at 0 (ws ! 1), byte_at 1 (ws ! 1), byte_at 2 (ws ! 1)],
      dd_sys_address_32 = [byte_at 3 (ws ! 1), byte_at 0 (ws ! 2), byte_at 1 (ws ! 2), byte_at 2 (ws ! 2)],
      dd_dev_idx = byte_at 3 (ws ! 2)\<rparr>"

record device =
  dv_esb :: esb
  dv_tx_data_payload :: "nrf_esb_payload_t list"
  dv_rx_payload :: nrf_esb_payload_t
  dv_chlist :: "u8 list"
  dv_mode :: device_mode
  dv_pairing_timeout :: u32
  dv_cur_ch_idx :: u8
  dv_ds :: device_ds
  dv_dev_type :: u8
  dv_pair_state :: pair_state
  dv_scan_timeout :: u32
  dv_cur_payload_idx :: u8
  dv_force_hop_channel :: bool
  dv_sync_timeout :: u32
  dv_leds :: leds
  dv_timer :: interval_timer
  dv_flash :: flash
  dv_delays :: "u32 list"
  dv_stack :: nrf_esb_payload_t

definition BEACON_SCAN_SHORT_TIMEOUT_MS :: u32 where
  "BEACON_SCAN_SHORT_TIMEOUT_MS = INTERVAL_TIMER_INTERVAL_10MS div 10"

definition BEACON_SCAN_LONG_TIMEOUT_MS :: u32 where
  "BEACON_SCAN_LONG_TIMEOUT_MS =
     INTERVAL_TIMER_INTERVAL_10MS div 10 * (of_nat MAXIMUM_CHANNEL_LIST_SIZE + 1)"

definition DEVICE_PAIRING_TIMEOUT_MS :: u32 where "DEVICE_PAIRING_TIMEOUT_MS = 60000"

definition APP_PACKET_DELAY_US :: u32 where "APP_PACKET_DELAY_US = 350"

lemmas scan_timeouts = BEACON_SCAN_SHORT_TIMEOUT_MS_def BEACON_SCAN_LONG_TIMEOUT_MS_def
  INTERVAL_TIMER_INTERVAL_10MS_def MAXIMUM_CHANNEL_LIST_SIZE_def

definition dev_esb :: "esb api \<Rightarrow> device \<Rightarrow> (ret_code \<times> device) result" where
  "dev_esb call s = then_do (call (dv_esb s)) (\<lambda>(r, e). Inr (r, s\<lparr>dv_esb := e\<rparr>))"

definition dev_led :: "(leds \<Rightarrow> leds) \<Rightarrow> device \<Rightarrow> device" where
  "dev_led f s = s\<lparr>dv_leds := f (dv_leds s)\<rparr>"

definition dev_timer :: "(interval_timer \<Rightarrow> interval_timer) \<Rightarrow> device \<Rightarrow> device" where
  "dev_timer f s = s\<lparr>dv_timer := f (dv_timer s)\<rparr>"

definition nrf_delay_us :: "u32 \<Rightarrow> device \<Rightarrow> device" where
  "nrf_delay_us us s = s\<lparr>dv_delays := dv_delays s @ [us]\<rparr>"

section \<open>Radio set-up, hopping and packets\<close>

definition dev_esb_init :: "bool \<Rightarrow> device \<Rightarrow> (ret_code \<times> device) result" where
  "dev_esb_init is_ptx s = dev_esb (nrf_esb_init (Some (app_esb_config is_ptx))) s"

definition dev_next_ch_idx :: "u8 \<Rightarrow> u8" where
  "dev_next_ch_idx i = (if unat (i + 1) \<ge> MAXIMUM_CHANNEL_LIST_SIZE then 0 else i + 1)"

definition dev_hop_channel :: "device \<Rightarrow> device result" where
  "dev_hop_channel s0 =
     (let s1 = s0\<lparr>dv_cur_ch_idx := dev_next_ch_idx (dv_cur_ch_idx s0)\<rparr>
      in if \<not> nrf_esb_is_idle (dv_esb s1) then Inl Hang
         else then_do (load_at (dv_chlist s1) (unat (dv_cur_ch_idx s1))) (\<lambda>ch.
              app_error_check (dev_esb (nrf_esb_set_rf_channel (ucast ch)) s1)))"

definition is_beacon_packet :: "nrf_esb_payload_t \<Rightarrow> bool" where
  "is_beacon_packet p \<longleftrightarrow> pl_pipe p = 0 \<and> pl_length p = 10 \<and>
     pl_data p ! 0 = BEACON_BYTE1 \<and> pl_data p ! 1 = BEACON_BYTE2"

text \<open>The two-byte requests of the pairing are built in an uninitialised local payload.\<close>

definition send_request :: "u8 \<Rightarrow> u8 \<Rightarrow> device \<Rightarrow> device result" where
  "send_request b0 b1 s0 =
     then_do (ignore_code (dev_esb nrf_esb_flush_tx s0)) (\<lambda>s1.
     then_do (store_at (pl_data (dv_stack s1)) 0 b0) (\<lambda>d0.
     then_do (store_at d0 1 b1) (\<lambda>d1.
     ignore_code (dev_esb (nrf_esb_write_payload (Some
       ((dv_stack s1)\<lparr>pl_data := d1, pl_length := 2, pl_pipe := 0, pl_noack := 0\<rparr>))) s1))))"

definition send_pairing_req :: "device \<Rightarrow> device result" where
  "send_pairing_req s = send_request ID_PAIR_REQ (dv_dev_type s) s"

definition send_get_info_req :: "device \<Rightarrow> device result" where
  "send_get_info_req s = send_request ID_PAIR_INFO_GET 0 s"

definition other_buffer :: "u8 \<Rightarrow> u8" where
  "other_buffer idx = (if idx = 0 then 1 else 0)"

definition send_device_data :: "bool \<Rightarrow> device \<Rightarrow> device result" where
  "send_device_data is_retransmit s0 =
     then_do (ignore_code (dev_esb nrf_esb_flush_tx s0)) (\<lambda>s1.
     let idx = (if is_retransmit then other_buffer (dv_cur_payload_idx s0) else dv_cur_payload_idx s0) in
     then_do (load_at (dv_tx_data_payload s1) (unat idx)) (\<lambda>p.
     let s2 = s1\<lparr>dv_tx_data_payload := (dv_tx_data_payload s1)[unat idx := p\<lparr>pl_noack := 0\<rparr>]\<rparr> in
     then_do (ignore_code (dev_esb (nrf_esb_write_payload (Some (p\<lparr>pl_noack := 0\<rparr>))) s2)) (\<lambda>s3.
     let s4 = (if \<not> is_retransmit
               then s3\<lparr>dv_cur_payload_idx := other_buffer (dv_cur_payload_idx s3)\<rparr> else s3)
     in Inr (dev_led (pin_clear LED_2) s4))))"

section \<open>Normal and pairing mode\<close>

definition dev_enter_normal_mode :: "device \<Rightarrow> device result" where
  "dev_enter_normal_mode s0 =
     (let s1 = (dev_led (pin_set LED_1) s0)
                 \<lparr>dv_mode := MODE_NORMAL, dv_pairing_timeout := 0, dv_pair_state := PAIR_STATE_NONE\<rparr>;
          s2 = dev_timer timer_stop s1
      in then_do (ignore_code (dev_esb_init False s2)) (\<lambda>s3.
         then_do (ignore_code (dev_esb
           (nrf_esb_set_base_address_1 (Some (dd_sys_address_32 (dv_ds s3)))) s3)) (\<lambda>s4.
         then_do (ignore_code (dev_esb (nrf_esb_update_prefix 1 (dd_dev_idx (dv_ds s4))) s4)) (\<lambda>s5.
         then_do (memcpy (dv_chlist s5) 0 (dd_chlist (dv_ds s5)) 0 MAXIMUM_CHANNEL_LIST_SIZE) (\<lambda>chs.
         Inr (dev_timer timer_start (s5\<lparr>dv_chlist := chs,
           dv_cur_ch_idx := of_nat MAXIMUM_CHANNEL_LIST_SIZE,
           dv_scan_timeout := BEACON_SCAN_LONG_TIMEOUT_MS, dv_sync_timeout := 0,
           dv_force_hop_channel := True\<rparr>)))))))"

definition do_pairing :: "device \<Rightarrow> device result" where
  "do_pairing s0 =
     then_do (ignore_code (dev_esb_init True (dev_led (pin_clear LED_1) s0))) (\<lambda>s1.
     then_do (memcpy (dv_chlist s1) 0 DEFAULT_PAIRING_CHANNEL_LIST 0 MAXIMUM_CHANNEL_LIST_SIZE) (\<lambda>chs.
     let s2 = s1\<lparr>dv_chlist := chs, dv_cur_ch_idx := 0\<rparr> in
     then_do (load_at (dv_chlist s2) 0) (\<lambda>ch.
     then_do (app_error_check (dev_esb (nrf_esb_set_rf_channel (ucast ch)) s2)) (\<lambda>s3.
     send_pairing_req (s3\<lparr>dv_pairing_timeout := DEVICE_PAIRING_TIMEOUT_MS, dv_mode := MODE_PAIRING,
                         dv_pair_state := PAIR_STATE_SEND_REQ\<rparr>)))))"

text \<open>After its own transmission the device listens on the next channel.\<close>

definition listen_next_channel :: "device \<Rightarrow> device result" where
  "listen_next_channel s0 =
     then_do (dev_hop_channel (s0\<lparr>dv_scan_timeout := BEACON_SCAN_SHORT_TIMEOUT_MS\<rparr>)) (\<lambda>s1.
     then_do (ignore_code (dev_esb_init False s1)) (\<lambda>s2.
     then_do (ignore_code (dev_esb nrf_esb_start_rx s2)) (\<lambda>s3.
     Inr (dev_timer timer_start s3))))"

section \<open>Events of the radio\<close>

definition dev_tx_success :: "device \<Rightarrow> device result" where
  "dev_tx_success s =
     (case dv_mode s of
        MODE_PAIRING \<Rightarrow>
          (if dv_pair_state s = PAIR_STATE_SEND_REQ
           then send_get_info_req (nrf_delay_us 800 (s\<lparr>dv_pair_state := PAIR_STATE_WAIT_FOR_INFO\<rparr>))
           else Inr s)
      | MODE_NORMAL \<Rightarrow> listen_next_channel (dev_led (pin_set LED_2) s))"

definition dev_tx_failed :: "device \<Rightarrow> device result" where
  "dev_tx_failed s0 =
     then_do (ignore_code (dev_esb nrf_esb_flush_tx s0)) (\<lambda>s1.
     case dv_mode s1 of
       MODE_PAIRING \<Rightarrow>
         then_do (dev_hop_channel s1) (\<lambda>s2.
         if dv_pair_state s2 = PAIR_STATE_WAIT_FOR_INFO then send_get_info_req s2
         else send_pairing_req s2)
     | MODE_NORMAL \<Rightarrow>
         then_do (listen_next_channel (dev_led (pin_set LED_2) s1)) (\<lambda>s2.
         Inr (dev_led (pin_set LED_4) (nrf_delay_us 20 (dev_led (pin_clear LED_4) s2)))))"

text \<open>\<open>(data[3] & (1 << (6 - dev_idx))) == (1 << (6 - dev_idx))\<close>\<close>

definition resend_asked :: "device \<Rightarrow> bool result" where
  "resend_asked s =
     (let p = dv_rx_payload s; n = 6 - uint (dd_dev_idx (dv_ds s))
      in if pl_data p ! 2 = BEACON_BYTE3_RESEND
         then (if 0 \<le> n \<and> n < 31
               then (let m = push_bit (nat n) 1 :: u32 in Inr (ucast (pl_data p ! 3) AND m = m))
               else Inl Bad_Shift)
         else Inr False)"

definition dev_beacon_received :: "device \<Rightarrow> device result" where
  "dev_beacon_received s0 =
     (let s1 = s0\<lparr>dv_sync_timeout := BEACON_SCAN_LONG_TIMEOUT_MS\<rparr>;
          new_data = (pl_data (dv_rx_payload s1) ! 2 = BEACON_BYTE3_NEW_DATA)
      in then_do (if new_data then Inr False else resend_asked s1) (\<lambda>is_resend.
         let s2 = (if is_resend then dev_led (pin_toggle LED_3) s1 else s1)
         in if new_data \<or> is_resend
            then then_do (ignore_code (dev_esb nrf_esb_stop_rx (dev_timer timer_stop s2))) (\<lambda>s3.
                 then_do (ignore_code (dev_esb_init True s3)) (\<lambda>s4.
                 send_device_data is_resend
                   (nrf_delay_us (APP_PACKET_DELAY_US * (ucast (dd_dev_idx (dv_ds s4)) - 1)) s4)))
            else then_do (ignore_code (dev_esb nrf_esb_stop_rx (dev_timer timer_stop s2))) (\<lambda>s3.
                 then_do (ignore_code (dev_esb_init False s3)) (\<lambda>s4.
                 Inr (dev_timer timer_start (s4\<lparr>dv_scan_timeout := BEACON_SCAN_SHORT_TIMEOUT_MS,
                                               dv_force_hop_channel := True\<rparr>))))))"

definition dev_pair_info_received :: "device \<Rightarrow> device result" where
  "dev_pair_info_received s0 =
     (if pl_length (dv_rx_payload s0) = 8
      then let d = pl_data (dv_rx_payload s0);
               s1 = s0\<lparr>dv_ds := (dv_ds s0)\<lparr>dd_sys_address_32 := take 4 d,
                       dd_chlist := take 3 (drop 4 d), dd_dev_idx := d ! 7\<rparr>\<rparr>
           in then_do (ds_update (device_ds_words (dv_ds s1)) 12 (dv_flash s1)) (\<lambda>f.
              dev_enter_normal_mode (s1\<lparr>dv_flash := f\<rparr>))
      else Inr s0)"

text \<open>The return code of the read is ignored: a failed read leaves the old \<open>rx_payload\<close>.\<close>

definition dev_read_rx :: "device \<Rightarrow> device result" where
  "dev_read_rx s =
     then_do (nrf_esb_read_rx_payload (Some (dv_rx_payload s)) (dv_esb s)) (\<lambda>(_, p, e).
       Inr (s\<lparr>dv_esb := e, dv_rx_payload := (case p of Some q \<Rightarrow> q | None \<Rightarrow> dv_rx_payload s)\<rparr>))"

definition dev_rx_received :: "device \<Rightarrow> device result" where
  "dev_rx_received s0 =
     then_do (dev_read_rx s0) (\<lambda>s1.
     if dv_mode s1 = MODE_PAIRING \<and> dv_pair_state s1 = PAIR_STATE_WAIT_FOR_INFO
     then dev_pair_info_received s1
     else if dv_mode s1 = MODE_NORMAL
     then (if is_beacon_packet (dv_rx_payload s1) then dev_beacon_received s1 else Inr s1)
     else Inr s1)"

fun dev_event_handler :: "nrf_esb_evt_t \<Rightarrow> device \<Rightarrow> device result" where
  "dev_event_handler evt s =
     (case evt_id evt of
        NRF_ESB_EVENT_TX_SUCCESS \<Rightarrow> dev_tx_success s
      | NRF_ESB_EVENT_TX_FAILED \<Rightarrow> dev_tx_failed s
      | NRF_ESB_EVENT_RX_RECEIVED \<Rightarrow> dev_rx_received s)"

definition dev_ESB_EVT_IRQHandler :: "device \<Rightarrow> device result" where
  "dev_ESB_EVT_IRQHandler = ESB_EVT_IRQHandler dv_esb (\<lambda>e s. s\<lparr>dv_esb := e\<rparr>) dev_event_handler"

section \<open>The interval timer\<close>

definition dec :: "u32 \<Rightarrow> u32" where
  "dec x = (if x \<noteq> 0 then x - 1 else x)"

definition dev_interval_timer_event_handler :: "device \<Rightarrow> device result" where
  "dev_interval_timer_event_handler s0 =
     (if dv_scan_timeout s0 \<noteq> 0 \<or> dv_sync_timeout s0 \<noteq> 0 \<or> dv_force_hop_channel s0
      then let s1 = s0\<lparr>dv_scan_timeout := dec (dv_scan_timeout s0),
                       dv_sync_timeout := dec (dv_sync_timeout s0)\<rparr>
           in if dv_scan_timeout s1 = 0 \<or> dv_force_hop_channel s1
              then let s2 = s1\<lparr>dv_force_hop_channel := False,
                       dv_scan_timeout := (if dv_sync_timeout s1 = 0 then BEACON_SCAN_LONG_TIMEOUT_MS
                                           else BEACON_SCAN_SHORT_TIMEOUT_MS)\<rparr>
                   in then_do (ignore_code (dev_esb nrf_esb_stop_rx s2)) (\<lambda>s3.
                      then_do (dev_hop_channel s3) (\<lambda>s4.
                      ignore_code (dev_esb nrf_esb_start_rx s4)))
              else Inr s1
      else Inr s0)"

section \<open>Start\<close>

record device_hw =
  hw_hfclk_poll :: "nat \<Rightarrow> bool"
  hw_pin_1 :: bool
  hw_pin_2 :: bool

definition dev_boot_record :: "device_hw \<Rightarrow> device \<Rightarrow> device" where
  "dev_boot_record hw s0 =
     (let s1 = (if dd_signature (dv_ds s0) \<noteq> DS_SIGNATURE
                then s0\<lparr>dv_ds := (dv_ds s0)\<lparr>dd_signature := DS_SIGNATURE\<rparr>\<rparr> else s0)
      in if \<not> hw_pin_2 hw then s1\<lparr>dv_dev_type := DEV_TYPE_CONTROLLER\<rparr> else s1)"

definition dev_verify :: "(ret_code \<times> 's) result \<Rightarrow> ('s \<Rightarrow> (ret_code \<times> 's) result) \<Rightarrow>
    (ret_code \<times> 's) result" where
  "dev_verify m f = then_do m (\<lambda>(r, s). if r = NRF_SUCCESS then f s else Inr (r, s))"

definition dev_main :: "device_hw \<Rightarrow> device \<Rightarrow> (ret_code \<times> device) result" where
  "dev_main hw s0 =
     (let s1 = s0\<lparr>dv_leds := \<lambda>_. True\<rparr>
      in then_do (wait_event (hw_hfclk_poll hw)) (\<lambda>_.
         let s2 = dev_timer (timer_init 1000) s1
         in then_do (ds_get (device_ds_words (dv_ds s2)) 12 (dv_flash s2)) (\<lambda>ws.
            let s3 = dev_boot_record hw (s2\<lparr>dv_ds := device_ds_of_words ws\<rparr>) in
            dev_verify (dev_esb (nrf_esb_set_base_address_0 (Some DEFAULT_PAIRING_ADDRESS_32)) s3) (\<lambda>s4.
            dev_verify (dev_esb (nrf_esb_set_base_address_1
              (Some (dd_sys_address_32 (dv_ds s4)))) s4) (\<lambda>s5.
            let prefixes = [PIPE_0_PREFIX,
                   if dd_signature (dv_ds s5) = DS_SIGNATURE \<and> dd_dev_idx (dv_ds s5) \<noteq> 0xff
                   then dd_dev_idx (dv_ds s5) else 0xff] in
            dev_verify (dev_esb (nrf_esb_set_prefixes (Some prefixes)
              (if dd_dev_idx (dv_ds s5) = 0xff then 1 else 2)) s5) (\<lambda>s6.
            then_do (if dd_dev_idx (dv_ds s6) = 0xff \<or> \<not> hw_pin_1 hw then do_pairing s6
                     else dev_enter_normal_mode s6) (\<lambda>s7.
            Inr (NRF_SUCCESS, dev_timer timer_start s7))))))))"

end
