(* ===== verification/DeviceProps.thy ===== *)
theory DeviceProps
  imports Device AppEsb EsbSample
begin

text \<open>
  The device's properties: what it answers to a beacon, with which of its two buffers, how
  the interval timer moves it through the channels, and what it makes of its stored record.
\<close>

unbundle bit_operations_syntax

interpretation dev_client: esb_client dv_esb "\<lambda>e s. s\<lparr>dv_esb := e\<rparr>" dev_esb dev_event_handler
  by unfold_locales (simp_all add: dev_esb_def)

section \<open>The state the device runs in\<close>

definition dev_ok :: "device \<Rightarrow> bool" where
  "dev_ok s \<longleftrightarrow> esb_inv (dv_esb s) \<and> length (dv_chlist s) = 3 \<and> list_all (\<lambda>c. c \<le> 125) (dv_chlist s) \<and>
     length (dv_tx_data_payload s) = 2 \<and> list_all sendable (dv_tx_data_payload s) \<and>
     unat (dv_cur_payload_idx s) < 2 \<and>
     length (pl_data (dv_rx_payload s)) = 32 \<and> length (pl_data (dv_stack s)) = 32 \<and>
     length (dd_chlist (dv_ds s)) = 3 \<and> length (dd_sys_address_32 (dv_ds s)) = 4 \<and>
     3 \<le> length (flash_page (dv_flash s)) \<and> (\<exists>k. nvmc_ready (dv_flash s) k)"

lemma other_buffer_other: "unat i < 2 \<Longrightarrow> other_buffer (other_buffer i) = i"
proof -
  assume "unat i < 2"
  then have "unat i = 0 \<or> unat i = unat (1 :: u8)" by auto
  then have "i = 0 \<or> i = 1" by (metis unat_eq_0 word_unat_eq_iff)
  then show ?thesis by (auto simp: other_buffer_def)
qed

lemma other_buffer_less: "unat (other_buffer i) < 2"
  by (simp add: other_buffer_def)

lemma dev_esb_init_ok:
  assumes "esb_inv (dv_esb s)"
  shows "ok (dev_esb_init b s) (\<lambda>(r, t). r = NRF_SUCCESS \<and>
    (\<exists>e. t = s\<lparr>dv_esb := e\<rparr> \<and> fresh_esb b e \<and> m_esb_addr e = m_esb_addr (dv_esb s)))"
  unfolding dev_esb_init_def dev_client.ok_call
  by (rule ok_mono [OF app_esb_init_ok [OF assms]]) auto

lemma dev_stop_rx_ok:
  assumes "esb_inv (dv_esb s)"
  shows "ok (dev_esb nrf_esb_stop_rx s) (\<lambda>(r, t). \<exists>e. t = s\<lparr>dv_esb := e\<rparr> \<and> esb_inv e \<and>
    m_esb_addr e = m_esb_addr (dv_esb s) \<and>
    (m_nrf_esb_mainstate (dv_esb s) \<in> {NRF_ESB_STATE_PRX, NRF_ESB_STATE_IDLE} \<longrightarrow> nrf_esb_is_idle e) \<and>
    m_esb_initialized e = m_esb_initialized (dv_esb s))"
proof -
  have "post (nrf_esb_stop_rx (dv_esb s)) (\<lambda>(r, t). m_esb_addr t = m_esb_addr (dv_esb s) \<and>
    (m_nrf_esb_mainstate (dv_esb s) \<in> {NRF_ESB_STATE_PRX, NRF_ESB_STATE_IDLE} \<longrightarrow> nrf_esb_is_idle t) \<and>
    m_esb_initialized t = m_esb_initialized (dv_esb s))"
    by (auto simp: nrf_esb_stop_rx_def Let_def nrf_esb_is_idle_def)
  then show ?thesis
    using nrf_esb_stop_rx_ok [OF assms] unfolding dev_client.ok_call by (auto simp: ok_iff)
qed

section \<open>Sending data\<close>

text \<open>The buffer that goes out, and the one that is current afterwards.\<close>

definition sent_buffer :: "bool \<Rightarrow> u8 \<Rightarrow> u8" where
  "sent_buffer is_retransmit cur = (if is_retransmit then other_buffer cur else cur)"

lemma fresh_flush:
  assumes "fresh_esb b e"
  shows "ok (nrf_esb_flush_tx e) (\<lambda>(r, t). fresh_esb b t \<and> m_esb_addr t = m_esb_addr e)"
proof -
  have "post (nrf_esb_flush_tx e) (\<lambda>(r, t). queues t \<and> nrf_esb_is_idle t \<and> m_esb_initialized t \<and>
      m_config_local t = app_esb_config b \<and> count (m_tx_fifo t) = 0 \<and> count (m_rx_fifo t) = 0 \<and>
      m_interrupt_flags t = 0 \<and> m_pids t = replicate 9 0 \<and> m_esb_addr t = m_esb_addr e)"
    using assms by (simp add: nrf_esb_flush_tx_def Let_def DISABLE_RF_IRQ_def ENABLE_RF_IRQ_def
        fresh_esb_def nrf_esb_is_idle_def queues_def fifo_inv_clear fifo_bounds_inv)
  moreover have "ok (nrf_esb_flush_tx e) keeps_inv" by (rule flush_ok) (use assms in \<open>simp add: fresh_esb_def\<close>)
  ultimately show ?thesis by (auto simp: ok_iff fresh_esb_def)
qed

text \<open>What \<open>send_device_data\<close> leaves behind: one buffer in the air, the index advanced for new data.\<close>

definition data_sent :: "bool \<Rightarrow> device \<Rightarrow> device \<Rightarrow> bool" where
  "data_sent re s t \<longleftrightarrow> dev_ok t \<and>
    tx_queue (view (dv_esb t)) = [(dv_tx_data_payload s ! unat (sent_buffer re (dv_cur_payload_idx s)))
      \<lparr>pl_noack := 0, pl_pid := next_pid 0\<rparr>] \<and>
    m_nrf_esb_mainstate (dv_esb t) = NRF_ESB_STATE_PTX_TX_ACK \<and>
    m_esb_addr (dv_esb t) = m_esb_addr (dv_esb s) \<and>
    map pl_data (dv_tx_data_payload t) = map pl_data (dv_tx_data_payload s) \<and>
    dv_cur_payload_idx t = (if re then dv_cur_payload_idx s else other_buffer (dv_cur_payload_idx s)) \<and>
    dv_delays t = dv_delays s \<and> dv_mode t = dv_mode s"

lemma dev_flush_fresh:
  assumes "fresh_esb True (dv_esb s)"
  shows "ok (ignore_code (dev_esb nrf_esb_flush_tx s)) (\<lambda>t. \<exists>e. t = s\<lparr>dv_esb := e\<rparr> \<and> fresh_esb True e \<and>
      m_esb_addr e = m_esb_addr (dv_esb s))"
  unfolding ok_ignore_code dev_client.ok_call by (rule ok_mono [OF fresh_flush [OF assms]]) auto

lemma dev_write_starts:
  assumes "fresh_esb True (dv_esb u)" and "sendable p" and "pl_noack p = 0"
  shows "ok (ignore_code (dev_esb (nrf_esb_write_payload (Some p)) u)) (\<lambda>t. \<exists>e. t = u\<lparr>dv_esb := e\<rparr> \<and>
      esb_inv e \<and> tx_queue (view e) = [p\<lparr>pl_pid := next_pid 0\<rparr>] \<and>
      m_nrf_esb_mainstate e = NRF_ESB_STATE_PTX_TX_ACK \<and> m_esb_addr e = m_esb_addr (dv_esb u))"
  unfolding ok_ignore_code dev_client.ok_call
  by (rule ok_mono [OF fresh_write_starts [OF assms(1,2)]]) (use assms(3) in auto)

text \<open>Clearing the no-acknowledgment flag of a buffer keeps the buffers sendable and their bytes.\<close>

lemma clear_noack_buffers:
  assumes "dev_ok s" and "k < length (dv_tx_data_payload s)"
  defines "p \<equiv> (dv_tx_data_payload s ! k)\<lparr>pl_noack := 0\<rparr>"
  shows "sendable p" and "list_all sendable ((dv_tx_data_payload s)[k := p])"
    and "map pl_data ((dv_tx_data_payload s)[k := p]) = map pl_data (dv_tx_data_payload s)"
proof -
  show "sendable p"
    using list_all_nthD [of sendable "dv_tx_data_payload s" k] assms by (simp add: dev_ok_def sendable_def)
  then show "list_all sendable ((dv_tx_data_payload s)[k := p])"
    using assms(1) by (simp add: dev_ok_def list_all_list_updateI)
  show "map pl_data ((dv_tx_data_payload s)[k := p]) = map pl_data (dv_tx_data_payload s)"
    using assms(2) by (simp add: p_def map_update) (metis length_map list_update_id nth_map)
qed

lemma send_device_data_ok:
  assumes "dev_ok s" and "fresh_esb True (dv_esb s)"
  shows "ok (send_device_data re s) (data_sent re s)"
proof -
  define kb where "kb = sent_buffer re (dv_cur_payload_idx s)"
  have k: "unat kb < length (dv_tx_data_payload s)"
    using assms(1) other_buffer_less by (simp add: dev_ok_def sent_buffer_def kb_def)
  note buf = clear_noack_buffers [OF assms(1) k]
  have idx: "(if re then other_buffer (dv_cur_payload_idx s) else dv_cur_payload_idx s) = kb"
    by (simp add: sent_buffer_def kb_def)
  show ?thesis
    unfolding send_device_data_def idx
  proof (rule ok_then_doI [OF dev_flush_fresh [OF assms(2)]])
    fix a assume "\<exists>e. a = s\<lparr>dv_esb := e\<rparr> \<and> fresh_esb True e \<and> m_esb_addr e = m_esb_addr (dv_esb s)"
    then obtain e where a: "a = s\<lparr>dv_esb := e\<rparr>" "fresh_esb True e" "m_esb_addr e = m_esb_addr (dv_esb s)"
      by blast
    show "ok (let idx = kb in
       then_do (load_at (dv_tx_data_payload a) (unat idx)) (\<lambda>p.
         let s2 = a\<lparr>dv_tx_data_payload := (dv_tx_data_payload a)[unat idx := p\<lparr>pl_noack := 0\<rparr>]\<rparr> in
         then_do (ignore_code (dev_esb (nrf_esb_write_payload (Some (p\<lparr>pl_noack := 0\<rparr>))) s2)) (\<lambda>s3.
         let s4 = (if \<not> re then s3\<lparr>dv_cur_payload_idx := other_buffer (dv_cur_payload_idx s3)\<rparr> else s3)
         in Inr (dev_led (pin_clear LED_2) s4)))) (data_sent re s)"
      using k a assms(1) buf other_buffer_less
      by (auto simp: Let_def dev_led_def simp del: ok_ignore_code intro!: ok_mono [OF dev_write_starts])
        (auto simp: dev_ok_def data_sent_def kb_def)
  qed
qed

lemma send_device_data_sync:
  "post (send_device_data re s) (\<lambda>t. dv_sync_timeout t = dv_sync_timeout s)"
proof (cases "send_device_data re s")
  case (Inr t)
  then have "dv_sync_timeout t = dv_sync_timeout s"
    by (auto simp: send_device_data_def dev_esb_def ignore_code_def then_do_Inr_iff load_at_Inr_iff
        Let_def dev_led_def split: if_splits prod.splits)
  with Inr show ?thesis by simp
qed simp

section \<open>Answering a beacon\<close>

text \<open>What the beacon in \<open>rx_payload\<close> asks of this device.\<close>

definition wants_new :: "device \<Rightarrow> bool" where
  "wants_new s \<longleftrightarrow> pl_data (dv_rx_payload s) ! 2 = BEACON_BYTE3_NEW_DATA"

definition wants_again :: "device \<Rightarrow> bool" where
  "wants_again s \<longleftrightarrow> pl_data (dv_rx_payload s) ! 2 = BEACON_BYTE3_RESEND \<and>
     bit (pl_data (dv_rx_payload s) ! 3) (6 - unat (dd_dev_idx (dv_ds s)))"

lemma and_bit_eq:
  assumes "k < 32"
  shows "(a AND push_bit k 1 = (push_bit k 1 :: u32)) = bit a k"
proof
  assume "a AND push_bit k 1 = push_bit k 1"
  from arg_cong [OF this, of "\<lambda>x. bit x k"] show "bit a k"
    using assms by (simp add: bit_and_iff bit_push_bit_iff bit_1_iff del: push_bit_of_1)
next
  assume "bit a k"
  then show "a AND push_bit k 1 = push_bit k 1"
    by (intro bit_word_eqI) (auto simp: bit_and_iff bit_push_bit_iff bit_1_iff simp del: push_bit_of_1)
qed

lemma resend_asked_eq:
  assumes "unat (dd_dev_idx (dv_ds s)) \<le> 6"
  shows "resend_asked s = Inr (wants_again s)"
proof -
  let ?i = "dd_dev_idx (dv_ds s)" and ?b = "pl_data (dv_rx_payload s) ! 3"
  have n: "6 - uint ?i = int (6 - unat ?i)" using assms uint_nat [of ?i] by linarith
  have "bit (ucast ?b :: u32) k = bit ?b k" if "k < 8" for k
    using that by (simp add: bit_simps)
  then show ?thesis
    using and_bit_eq [of "6 - unat ?i" "ucast ?b"]
    by (auto simp: resend_asked_def Let_def wants_again_def n simp del: push_bit_of_1)
qed

lemma dev_ok_esb: "dev_ok s \<Longrightarrow> esb_inv e \<Longrightarrow> dev_ok (s\<lparr>dv_esb := e\<rparr>)"
  by (simp add: dev_ok_def)

text \<open>The radio is turned round: receiver stopped and set up again in the given role.\<close>

lemma stop_and_init:
  assumes "esb_inv (dv_esb s)"
  shows "ok (then_do (ignore_code (dev_esb nrf_esb_stop_rx s)) (\<lambda>t. ignore_code (dev_esb_init b t)))
    (\<lambda>u. \<exists>e. u = s\<lparr>dv_esb := e\<rparr> \<and> fresh_esb b e \<and> m_esb_addr e = m_esb_addr (dv_esb s))"
  unfolding ok_then_do ok_ignore_code
  by (rule ok_mono [OF dev_stop_rx_ok [OF assms]])
    (auto intro!: ok_mono [OF dev_esb_init_ok])

lemma then_do_assoc: "then_do (then_do m f) g = then_do m (\<lambda>a. then_do (f a) g)"
  by (cases m) simp_all

text \<open>The state \<open>t\<close> after the beacon in \<open>s\<close>.\<close>

definition beacon_answered :: "device \<Rightarrow> device \<Rightarrow> bool" where
  "beacon_answered s t \<longleftrightarrow>
    dev_ok t \<and> dv_sync_timeout t = BEACON_SCAN_LONG_TIMEOUT_MS \<and>
    (if wants_new s \<or> wants_again s
     then tx_queue (view (dv_esb t)) =
            [(dv_tx_data_payload s ! unat (sent_buffer (\<not> wants_new s) (dv_cur_payload_idx s)))
               \<lparr>pl_noack := 0, pl_pid := next_pid 0\<rparr>] \<and>
          m_nrf_esb_mainstate (dv_esb t) = NRF_ESB_STATE_PTX_TX_ACK \<and>
          dv_cur_payload_idx t = (if wants_new s then other_buffer (dv_cur_payload_idx s)
                                  else dv_cur_payload_idx s) \<and>
          dv_delays t = dv_delays s @ [APP_PACKET_DELAY_US * (ucast (dd_dev_idx (dv_ds s)) - 1)]
     else tx_queue (view (dv_esb t)) = [] \<and> nrf_esb_is_idle (dv_esb t) \<and> dv_force_hop_channel t \<and>
          dv_cur_payload_idx t = dv_cur_payload_idx s \<and> dv_delays t = dv_delays s)"

text \<open>Waiting the device's share of the interval before the answer changes only the delays.\<close>

lemma send_after_delay:
  assumes "dev_ok s" and "u = s\<lparr>dv_esb := e\<rparr>" and "fresh_esb True e"
  shows "ok (send_device_data re (nrf_delay_us us u)) (\<lambda>t. dev_ok t \<and>
      dv_sync_timeout t = dv_sync_timeout s \<and>
      tx_queue (view (dv_esb t)) = [(dv_tx_data_payload s ! unat (sent_buffer re (dv_cur_payload_idx s)))
        \<lparr>pl_noack := 0, pl_pid := next_pid 0\<rparr>] \<and>
      m_nrf_esb_mainstate (dv_esb t) = NRF_ESB_STATE_PTX_TX_ACK \<and>
      dv_cur_payload_idx t = (if re then dv_cur_payload_idx s else other_buffer (dv_cur_payload_idx s)) \<and>
      dv_delays t = dv_delays s @ [us])"
proof -
  have "dev_ok (nrf_delay_us us u)" "fresh_esb True (dv_esb (nrf_delay_us us u))"
    using assms by (simp_all add: nrf_delay_us_def dev_ok_def fresh_esb_def)
  from send_device_data_ok [OF this, of re] send_device_data_sync [of re "nrf_delay_us us u"]
  show ?thesis using assms(2) by (auto simp: ok_iff nrf_delay_us_def data_sent_def)
qed

lemma dev_beacon_received_ok:
  assumes "dev_ok s" and "1 \<le> unat (dd_dev_idx (dv_ds s))" and "unat (dd_dev_idx (dv_ds s)) \<le> 6"
  shows "ok (dev_beacon_received s) (beacon_answered s)"
proof -
  let ?s1 = "s\<lparr>dv_sync_timeout := BEACON_SCAN_LONG_TIMEOUT_MS\<rparr>"
  define re where "re = (\<not> wants_new s \<and> wants_again s)"
  define s2 where "s2 = dev_timer timer_stop (if re then dev_led (pin_toggle LED_3) ?s1 else ?s1)"
  have s2: "dev_ok s2" "dv_esb s2 = dv_esb s" "dv_tx_data_payload s2 = dv_tx_data_payload s"
    "dv_cur_payload_idx s2 = dv_cur_payload_idx s" "dv_delays s2 = dv_delays s" "dv_ds s2 = dv_ds s"
    "dv_sync_timeout s2 = BEACON_SCAN_LONG_TIMEOUT_MS"
    using assms(1) by (simp_all add: s2_def dev_timer_def dev_led_def dev_ok_def)
  have asked: "(if wants_new s then Inr False else resend_asked ?s1) = Inr re"
    using resend_asked_eq [of ?s1] assms(3) by (simp add: re_def wants_again_def)
  have eq: "dev_beacon_received s =
    (if wants_new s \<or> re
     then then_do (then_do (ignore_code (dev_esb nrf_esb_stop_rx s2)) (\<lambda>t. ignore_code (dev_esb_init True t)))
       (\<lambda>s4. send_device_data re
          (nrf_delay_us (APP_PACKET_DELAY_US * (ucast (dd_dev_idx (dv_ds s4)) - 1)) s4))
     else then_do (then_do (ignore_code (dev_esb nrf_esb_stop_rx s2)) (\<lambda>t. ignore_code (dev_esb_init False t)))
       (\<lambda>s4. Inr (dev_timer timer_start (s4\<lparr>dv_scan_timeout := BEACON_SCAN_SHORT_TIMEOUT_MS,
           dv_force_hop_channel := True\<rparr>))))"
    using asked by (simp add: dev_beacon_received_def Let_def wants_new_def s2_def then_do_assoc split del: if_split cong: if_cong)
  note turn = stop_and_init [of s2, unfolded s2(2)]
  have inv: "esb_inv (dv_esb s)" using assms(1) by (simp add: dev_ok_def)
  note send = send_after_delay [OF s2(1), of _ _ re]
  show ?thesis
  proof (cases "wants_new s \<or> wants_again s")
    case True
    then have c: "wants_new s \<or> re" "(\<not> wants_new s) = re" by (auto simp: re_def)
    show ?thesis
      unfolding eq if_P [OF c(1)]
      by (rule ok_then_doI [OF turn [OF inv]], elim exE conjE, rule ok_mono [OF send])
        (use True c s2 in \<open>auto simp: beacon_answered_def\<close>)
  next
    case False
    then have c: "\<not> (wants_new s \<or> re)" by (auto simp: re_def)
    show ?thesis
      unfolding eq if_not_P [OF c]
      by (rule ok_then_doI [OF turn [OF inv]], elim exE conjE)
        (use False s2 in \<open>auto simp: beacon_answered_def dev_timer_def dev_ok_def fresh_esb_def view_def\<close>)
  qed
qed


definition sample_data :: "u8 \<Rightarrow> nrf_esb_payload_t" where
  "sample_data b = sample_payload\<lparr>pl_length := 32, pl_pipe := 1, pl_data := replicate 32 b\<rparr>"

text \<open>Device 3 in normal mode, with a resend beacon for devices 1 and 3 in \<open>rx_payload\<close>.\<close>

definition sample_device :: device where
  "sample_device =
     \<lparr>dv_esb = sample_prx, dv_tx_data_payload = [sample_data 0x12, sample_data 0x0f],
      dv_rx_payload = sample_payload\<lparr>pl_length := 10, pl_pipe := 0,
        pl_data := [0xee, 0xdd, 0x02, 0x28] @ replicate 28 0\<rparr>,
      dv_chlist = [3, 36, 70], dv_mode = MODE_NORMAL, dv_pairing_timeout = 0, dv_cur_ch_idx = 1,
      dv_ds = \<lparr>dd_signature = DS_SIGNATURE, dd_chlist = [3, 36, 70], dd_sys_address_32 = [1, 2, 3, 4],
               dd_dev_idx = 3\<rparr>,
      dv_dev_type = DEV_TYPE_DISPLAY, dv_pair_state = PAIR_STATE_NONE, dv_scan_timeout = 4,
      dv_cur_payload_idx = 1, dv_force_hop_channel = False, dv_sync_timeout = 10,
      dv_leds = (\<lambda>_. True),
      dv_timer = \<lparr>T0_CC0 = 1000, T0_irq_enabled = True, T0_running = True, T0_EVENTS_COMPARE = False\<rparr>,
      dv_flash = \<lparr>flash_page = replicate 256 0, NVMC_CONFIG = NVMC_CONFIG_WEN_Ren,
                  nvmc_ready = (\<lambda>k. 2 \<le> k)\<rparr>,
      dv_delays = [], dv_stack = sample_payload\<rparr>"

lemma sample_device_ok: "dev_ok sample_device"
  using sample_inv(4)
  by (auto simp: dev_ok_def sample_device_def sample_payload_def sample_data_def sendable_def)

lemma sample_device_idx: "dd_dev_idx (dv_ds sample_device) = 3"
  by (simp add: sample_device_def)


text \<open>
  A resend repeats the data it replaces: after the device has sent new data, and while nothing else
  switches the buffers, a resend puts the same bytes in the air again.
\<close>

theorem resend_repeats_data:
  assumes "dev_ok s" and "fresh_esb True (dv_esb s)" and "send_device_data False s = Inr t"
    and "dev_ok u" and "fresh_esb True (dv_esb u)"
    and "dv_cur_payload_idx u = dv_cur_payload_idx t" and "dv_tx_data_payload u = dv_tx_data_payload t"
  shows "ok (send_device_data True u) (\<lambda>v. map pl_data (tx_queue (view (dv_esb v)))
    = map pl_data (tx_queue (view (dv_esb t))) \<and> dv_cur_payload_idx v = dv_cur_payload_idx t)"
proof -
  note t = ok_result [OF send_device_data_ok [OF assms(1,2)] assms(3), unfolded data_sent_def]
  have k: "unat (dv_cur_payload_idx s) < length (dv_tx_data_payload s)"
    "length (dv_tx_data_payload t) = length (dv_tx_data_payload s)"
    using assms(1) t by (simp_all add: dev_ok_def)
  have "sent_buffer True (dv_cur_payload_idx u) = dv_cur_payload_idx s"
    using t assms(1,6) other_buffer_other by (simp add: sent_buffer_def dev_ok_def)
  moreover have "pl_data (dv_tx_data_payload t ! unat (dv_cur_payload_idx s))
      = pl_data (dv_tx_data_payload s ! unat (dv_cur_payload_idx s))"
    using t k by (metis nth_map)
  ultimately show ?thesis
    using t assms(6,7)
    by (auto simp: sent_buffer_def data_sent_def intro!: ok_mono [OF send_device_data_ok [OF assms(4,5)]])
qed

section \<open>Scanning\<close>

lemma start_rx_idle:
  assumes "esb_inv e" and "m_esb_initialized e" and "nrf_esb_is_idle e"
  shows "ok (nrf_esb_start_rx e) (\<lambda>(r, t). r = NRF_SUCCESS \<and> esb_inv t \<and>
     m_nrf_esb_mainstate t = NRF_ESB_STATE_PRX \<and> m_esb_addr t = m_esb_addr e)"
proof -
  have "post (nrf_esb_start_rx e) (\<lambda>(r, t). r = NRF_SUCCESS \<and>
     m_nrf_esb_mainstate t = NRF_ESB_STATE_PRX \<and> m_esb_addr t = m_esb_addr e)"
    using assms(3) by (simp add: nrf_esb_start_rx_def Let_def nrf_esb_is_idle_def)
  then show ?thesis using nrf_esb_start_rx_ok [OF assms(1,2)] by (auto simp: ok_iff)
qed

lemma dev_next_ch_idx_less: "unat (dev_next_ch_idx i) < 3"
  by (simp add: dev_next_ch_idx_def MAXIMUM_CHANNEL_LIST_SIZE_def)

lemma ucast_u8_u32_u8 [simp]: "(ucast (ucast (b :: u8) :: u32) :: u8) = b"
  by (rule bit_word_eqI) (auto simp: bit_simps)

lemma dev_hop_channel_ok:
  assumes "dev_ok s" and "nrf_esb_is_idle (dv_esb s)"
  shows "ok (dev_hop_channel s) (\<lambda>t. let i = dev_next_ch_idx (dv_cur_ch_idx s) in
    \<exists>e. t = s\<lparr>dv_cur_ch_idx := i, dv_esb := e\<rparr> \<and> esb_inv e \<and> nrf_esb_is_idle e \<and>
        m_esb_initialized e = m_esb_initialized (dv_esb s) \<and>
        rf_channel (m_esb_addr e) = dv_chlist s ! unat i)"
proof -
  let ?i = "dev_next_ch_idx (dv_cur_ch_idx s)"
  have len: "unat ?i < length (dv_chlist s)" using assms(1) dev_next_ch_idx_less by (simp add: dev_ok_def)
  then have ch: "ucast (dv_chlist s ! unat ?i) \<le> (125 :: u32)"
    using assms(1) by (simp add: dev_ok_def list_all_length word_le_nat_alt)
  have "ok (nrf_esb_set_rf_channel (ucast (dv_chlist s ! unat ?i)) (dv_esb s)) (\<lambda>(r, t).
      r = NRF_SUCCESS \<and> esb_inv t \<and> nrf_esb_is_idle t \<and> m_esb_initialized t = m_esb_initialized (dv_esb s) \<and>
      rf_channel (m_esb_addr t) = dv_chlist s ! unat ?i)"
    using nrf_esb_set_rf_channel_ok [OF assms(2) ch] assms ch
    by (simp add: nrf_esb_set_rf_channel_def nrf_esb_is_idle_def dev_ok_def)
  then show ?thesis
    using assms(2) len by (auto simp: dev_hop_channel_def Let_def dev_client.ok_call elim!: ok_mono)
qed

lemma hop_and_listen:
  assumes "dev_ok s" and "nrf_esb_is_idle (dv_esb s)" and "m_esb_initialized (dv_esb s)"
  shows "ok (then_do (dev_hop_channel s) (\<lambda>t. ignore_code (dev_esb nrf_esb_start_rx t))) (\<lambda>u. \<exists>e.
    u = s\<lparr>dv_cur_ch_idx := dev_next_ch_idx (dv_cur_ch_idx s), dv_esb := e\<rparr> \<and> esb_inv e \<and>
    m_nrf_esb_mainstate e = NRF_ESB_STATE_PRX \<and>
    rf_channel (m_esb_addr e) = dv_chlist s ! unat (dev_next_ch_idx (dv_cur_ch_idx s)))"
  unfolding ok_then_do ok_ignore_code
proof (rule ok_mono [OF dev_hop_channel_ok [OF assms(1,2), unfolded Let_def]], elim exE conjE)
  fix t e
  assume t: "t = s\<lparr>dv_cur_ch_idx := dev_next_ch_idx (dv_cur_ch_idx s), dv_esb := e\<rparr>"
    "esb_inv e" "nrf_esb_is_idle e" "m_esb_initialized e = m_esb_initialized (dv_esb s)"
    "rf_channel (m_esb_addr e) = dv_chlist s ! unat (dev_next_ch_idx (dv_cur_ch_idx s))"
  have "m_esb_initialized e" using t(4) assms(3) by simp
  from start_rx_idle [OF t(2) this t(3)]
  show "ok (dev_esb nrf_esb_start_rx t) (\<lambda>(r, u). \<exists>e.
    u = s\<lparr>dv_cur_ch_idx := dev_next_ch_idx (dv_cur_ch_idx s), dv_esb := e\<rparr> \<and> esb_inv e \<and>
    m_nrf_esb_mainstate e = NRF_ESB_STATE_PRX \<and>
    rf_channel (m_esb_addr e) = dv_chlist s ! unat (dev_next_ch_idx (dv_cur_ch_idx s)))"
    using t(1,5) by (auto simp: dev_client.ok_call elim!: ok_mono)
qed

text \<open>When the interval timer makes the device hop, and what the timer does in either case.\<close>

definition hop_due :: "device \<Rightarrow> bool" where
  "hop_due s \<longleftrightarrow> dv_force_hop_channel s \<or>
     (dec (dv_scan_timeout s) = 0 \<and> (dv_scan_timeout s \<noteq> 0 \<or> dv_sync_timeout s \<noteq> 0))"

definition scan_restarted :: "device \<Rightarrow> device" where
  "scan_restarted s = s\<lparr>dv_scan_timeout := dec (dv_scan_timeout s), dv_sync_timeout := dec (dv_sync_timeout s),
     dv_force_hop_channel := False, dv_scan_timeout := (if dec (dv_sync_timeout s) = 0
       then BEACON_SCAN_LONG_TIMEOUT_MS else BEACON_SCAN_SHORT_TIMEOUT_MS)\<rparr>"

lemma interval_stays:
  assumes "\<not> hop_due s"
  shows "dev_interval_timer_event_handler s = Inr (s\<lparr>dv_scan_timeout := dec (dv_scan_timeout s),
      dv_sync_timeout := dec (dv_sync_timeout s)\<rparr>)"
proof (cases "dv_scan_timeout s = 0")
  case True
  with assms have z: "dv_sync_timeout s = 0" by (auto simp: dec_def hop_due_def)
  have "s\<lparr>dv_scan_timeout := 0, dv_sync_timeout := 0\<rparr> = s"
    using True z by (intro device.equality) simp_all
  with True z assms show ?thesis by (simp add: dev_interval_timer_event_handler_def dec_def hop_due_def)
next
  case False
  with assms show ?thesis by (auto simp: dev_interval_timer_event_handler_def Let_def hop_due_def)
qed

lemma interval_hops:
  assumes "hop_due s"
  shows "dev_interval_timer_event_handler s =
      then_do (ignore_code (dev_esb nrf_esb_stop_rx (scan_restarted s))) (\<lambda>s3.
      then_do (dev_hop_channel s3) (\<lambda>s4. ignore_code (dev_esb nrf_esb_start_rx s4)))"
proof -
  have c1: "dv_scan_timeout s \<noteq> 0 \<or> dv_sync_timeout s \<noteq> 0 \<or> dv_force_hop_channel s"
    and c2: "dec (dv_scan_timeout s) = 0 \<or> dv_force_hop_channel s" using assms by (auto simp: hop_due_def)
  show ?thesis
    unfolding dev_interval_timer_event_handler_def if_P [OF c1] Let_def scan_restarted_def using c2 by simp
qed

lemma stop_hop_listen:
  assumes "dev_ok s" and "m_esb_initialized (dv_esb s)"
    and "m_nrf_esb_mainstate (dv_esb s) \<in> {NRF_ESB_STATE_PRX, NRF_ESB_STATE_IDLE}"
  shows "ok (then_do (ignore_code (dev_esb nrf_esb_stop_rx s)) (\<lambda>s3.
      then_do (dev_hop_channel s3) (\<lambda>s4. ignore_code (dev_esb nrf_esb_start_rx s4)))) (\<lambda>t. \<exists>e.
    t = s\<lparr>dv_cur_ch_idx := dev_next_ch_idx (dv_cur_ch_idx s), dv_esb := e\<rparr> \<and> esb_inv e \<and>
    m_nrf_esb_mainstate e = NRF_ESB_STATE_PRX \<and>
    rf_channel (m_esb_addr e) = dv_chlist s ! unat (dev_next_ch_idx (dv_cur_ch_idx s)))"
proof (rule ok_then_doI)
  have "esb_inv (dv_esb s)" using assms(1) by (simp only: dev_ok_def)
  then show "ok (ignore_code (dev_esb nrf_esb_stop_rx s)) (\<lambda>u. \<exists>e. u = s\<lparr>dv_esb := e\<rparr> \<and> esb_inv e \<and>
      nrf_esb_is_idle e \<and> m_esb_initialized e)"
    unfolding ok_ignore_code by (rule ok_mono [OF dev_stop_rx_ok]) (use assms(2,3) in fastforce)+
next
  fix u assume "\<exists>e. u = s\<lparr>dv_esb := e\<rparr> \<and> esb_inv e \<and> nrf_esb_is_idle e \<and> m_esb_initialized e"
  then obtain e where u: "u = s\<lparr>dv_esb := e\<rparr>" "esb_inv e" "nrf_esb_is_idle e" "m_esb_initialized e"
    by blast
  have "dev_ok u" using assms(1) u(2) by (simp add: u(1) dev_ok_def)
  then show "ok (then_do (dev_hop_channel u) (\<lambda>s4. ignore_code (dev_esb nrf_esb_start_rx s4))) (\<lambda>t. \<exists>e.
    t = s\<lparr>dv_cur_ch_idx := dev_next_ch_idx (dv_cur_ch_idx s), dv_esb := e\<rparr> \<and> esb_inv e \<and>
    m_nrf_esb_mainstate e = NRF_ESB_STATE_PRX \<and>
    rf_channel (m_esb_addr e) = dv_chlist s ! unat (dev_next_ch_idx (dv_cur_ch_idx s)))"
    using hop_and_listen [of u] u by simp
qed

text \<open>
  The interval timer of a listening device. Both timeouts count down and stop at zero; when the scan
  timeout runs out or a hop was forced, the device goes on to the next channel of its list, listens there
  and restarts the scan timeout, with the long one once it has lost the beacons for so long that the
  synchronisation timeout is over; otherwise it stays where it is.
\<close>

theorem device_scans_channels:
  assumes "dev_ok s" and "m_esb_initialized (dv_esb s)"
    and "m_nrf_esb_mainstate (dv_esb s) \<in> {NRF_ESB_STATE_PRX, NRF_ESB_STATE_IDLE}"
  shows "ok (dev_interval_timer_event_handler s) (\<lambda>t. let i = dev_next_ch_idx (dv_cur_ch_idx s);
      scan = dec (dv_scan_timeout s); sync = dec (dv_sync_timeout s) in
    dev_ok t \<and>
    (if dv_force_hop_channel s \<or> (scan = 0 \<and> (dv_scan_timeout s \<noteq> 0 \<or> dv_sync_timeout s \<noteq> 0))
     then dv_cur_ch_idx t = i \<and> rf_channel (m_esb_addr (dv_esb t)) = dv_chlist s ! unat i \<and>
          m_nrf_esb_mainstate (dv_esb t) = NRF_ESB_STATE_PRX \<and> \<not> dv_force_hop_channel t \<and>
          dv_scan_timeout t = (if sync = 0 then BEACON_SCAN_LONG_TIMEOUT_MS
                               else BEACON_SCAN_SHORT_TIMEOUT_MS) \<and>
          dv_sync_timeout t = sync
     else t = s\<lparr>dv_scan_timeout := scan, dv_sync_timeout := sync\<rparr>))"
proof (cases "hop_due s")
  case False
  then show ?thesis
    using interval_stays [OF False] assms(1) by (auto simp: hop_due_def Let_def dev_ok_def)
next
  case True
  have "dev_ok (scan_restarted s)" "dv_esb (scan_restarted s) = dv_esb s"
    using assms(1) by (simp_all add: scan_restarted_def dev_ok_def)
  note hop = stop_hop_listen [OF this(1), unfolded this(2), OF assms(2,3)]
  show ?thesis
    unfolding interval_hops [OF True] Let_def if_P [OF True [unfolded hop_due_def]]
    by (rule ok_mono [OF hop]) (use assms(1) in \<open>auto simp: dev_ok_def scan_restarted_def\<close>)
qed

theorem device_scans_channels_witness:
  "ok (dev_interval_timer_event_handler sample_device) (\<lambda>t.
    let i = dev_next_ch_idx (dv_cur_ch_idx sample_device);
      scan = dec (dv_scan_timeout sample_device); sync = dec (dv_sync_timeout sample_device) in
    dev_ok t \<and>
    (if dv_force_hop_channel sample_device \<or>
        (scan = 0 \<and> (dv_scan_timeout sample_device \<noteq> 0 \<or> dv_sync_timeout sample_device \<noteq> 0))
     then dv_cur_ch_idx t = i \<and> rf_channel (m_esb_addr (dv_esb t)) = dv_chlist sample_device ! unat i \<and>
          m_nrf_esb_mainstate (dv_esb t) = NRF_ESB_STATE_PRX \<and> \<not> dv_force_hop_channel t \<and>
          dv_scan_timeout t = (if sync = 0 then BEACON_SCAN_LONG_TIMEOUT_MS
                               else BEACON_SCAN_SHORT_TIMEOUT_MS) \<and>
          dv_sync_timeout t = sync
     else t = sample_device\<lparr>dv_scan_timeout := scan, dv_sync_timeout := sync\<rparr>))"
proof (rule device_scans_channels [OF sample_device_ok])
  have "m_esb_initialized sample_prx" "m_nrf_esb_mainstate sample_prx = NRF_ESB_STATE_PRX" by code_simp+
  then show "m_esb_initialized (dv_esb sample_device)"
    "m_nrf_esb_mainstate (dv_esb sample_device) \<in> {NRF_ESB_STATE_PRX, NRF_ESB_STATE_IDLE}"
    by (simp_all add: sample_device_def)
qed

text \<open>Two runs of the sender: new data from \<open>sample_sender\<close>, and the resend from the state after it.\<close>

definition sample_sender :: device where
  "sample_sender = sample_device\<lparr>dv_esb := state_of (nrf_esb_init (Some (app_esb_config True)) sample_reset)\<rparr>"

definition sample_sent :: device where
  "sample_sent = (case send_device_data False sample_sender of Inr t \<Rightarrow> t | Inl _ \<Rightarrow> sample_sender)"

definition sample_resender :: device where
  "sample_resender = sample_sent\<lparr>dv_esb := dv_esb sample_sender\<rparr>"

lemma sample_sender_ok: "dev_ok sample_sender" "fresh_esb True (dv_esb sample_sender)"
proof -
  have "ok (nrf_esb_init (Some (app_esb_config True)) sample_reset)
      (\<lambda>(r, t). r = NRF_SUCCESS \<and> fresh_esb True t \<and> m_esb_addr t = m_esb_addr sample_reset)"
    by (rule app_esb_init_ok [OF sample_inv(1)])
  then have "fresh_esb True (state_of (nrf_esb_init (Some (app_esb_config True)) sample_reset))"
    by (auto simp: ok_iff state_of_def)
  then show "fresh_esb True (dv_esb sample_sender)" "dev_ok sample_sender"
    using sample_device_ok by (simp_all add: sample_sender_def dev_ok_def fresh_esb_def)
qed

lemma sample_sent_run: "send_device_data False sample_sender = Inr sample_sent"
  using send_device_data_ok [OF sample_sender_ok, of False] by (auto simp: ok_iff sample_sent_def)

theorem resend_repeats_data_witness:
  "ok (send_device_data True sample_resender) (\<lambda>v. map pl_data (tx_queue (view (dv_esb v)))
    = map pl_data (tx_queue (view (dv_esb sample_sent))) \<and>
    dv_cur_payload_idx v = dv_cur_payload_idx sample_sent)"
proof (rule resend_repeats_data [OF sample_sender_ok sample_sent_run])
  have "dev_ok sample_sent"
    using ok_result [OF send_device_data_ok [OF sample_sender_ok] sample_sent_run] by (simp add: data_sent_def)
  then show "dev_ok sample_resender"
    using sample_sender_ok by (simp add: sample_resender_def dev_ok_def)
qed (use sample_sender_ok in \<open>simp_all add: sample_resender_def\<close>)

section \<open>The stored record\<close>

lemma device_record_words:
  assumes "length (dd_chlist d) = 3" and "length (dd_sys_address_32 d) = 4"
  shows "device_ds_of_words (device_ds_words d) = d"
proof -
  obtain a b c where "dd_chlist d = [a, b, c]"
    using assms(1) by (auto simp: length_Suc_conv numeral_3_eq_3)
  moreover obtain w x y z where "dd_sys_address_32 d = [w, x, y, z]"
    using assms(2) by (auto simp: length_Suc_conv eval_nat_numeral)
  ultimately show ?thesis
    by (cases d) (simp add: device_ds_of_words_def device_ds_words_def)
qed

text \<open>A call that is made on an idle module and leaves it idle, in the device's state.\<close>

lemma dev_address_call:
  assumes "ok (call (dv_esb s)) (\<lambda>(r, t). r = NRF_SUCCESS \<and> esb_inv t \<and> nrf_esb_is_idle t)"
  shows "ok (dev_esb call s) (\<lambda>(r, t). r = NRF_SUCCESS \<and>
    (\<exists>e. t = s\<lparr>dv_esb := e\<rparr> \<and> esb_inv e \<and> nrf_esb_is_idle e))"
  unfolding dev_client.ok_call by (rule ok_mono [OF assms]) auto

lemma ok_dev_verify:
  "ok m (\<lambda>(r, t). r = NRF_SUCCESS \<and> P t) \<Longrightarrow> (\<And>t. P t \<Longrightarrow> ok (f t) Q) \<Longrightarrow> ok (dev_verify m f) Q"
  by (auto simp: dev_verify_def ok_iff)

lemma dev_enter_normal_mode_ok:
  assumes "dev_ok s"
  shows "ok (dev_enter_normal_mode s) (\<lambda>t. dv_mode t = MODE_NORMAL \<and> dv_ds t = dv_ds s \<and>
    dv_chlist t = dd_chlist (dv_ds s) \<and> esb_inv (dv_esb t) \<and> nrf_esb_is_idle (dv_esb t) \<and>
    dv_force_hop_channel t \<and> dv_timer t = timer_start (timer_stop (dv_timer s)) \<and> dv_flash t = dv_flash s)"
proof -
  let ?s2 = "dev_timer timer_stop ((dev_led (pin_set LED_1) s)
    \<lparr>dv_mode := MODE_NORMAL, dv_pairing_timeout := 0, dv_pair_state := PAIR_STATE_NONE\<rparr>)"
  let ?Q = "\<lambda>u. \<exists>e. u = ?s2\<lparr>dv_esb := e\<rparr> \<and> esb_inv e \<and> nrf_esb_is_idle e"
  have len: "length (dd_sys_address_32 (dv_ds s)) = 4" "length (dd_chlist (dv_ds s)) = 3"
    "length (dv_chlist s) = 3" using assms by (simp_all add: dev_ok_def)
  have i: "ok (ignore_code (dev_esb_init False ?s2)) ?Q"
    unfolding ok_ignore_code
    by (rule ok_mono [OF dev_esb_init_ok])
      (use assms in \<open>auto simp: dev_timer_def dev_led_def dev_ok_def fresh_esb_def\<close>)
  have a: "ok (ignore_code (dev_esb (nrf_esb_set_base_address_1 (Some (dd_sys_address_32 (dv_ds u)))) u)) ?Q"
    if q: "?Q u" for u
  proof -
    obtain e where u: "u = ?s2\<lparr>dv_esb := e\<rparr>" "esb_inv e" "nrf_esb_is_idle e" using q by blast
    have "ok (dev_esb (nrf_esb_set_base_address_1 (Some (dd_sys_address_32 (dv_ds u)))) u) (\<lambda>(r, t).
        r = NRF_SUCCESS \<and> (\<exists>e. t = u\<lparr>dv_esb := e\<rparr> \<and> esb_inv e \<and> nrf_esb_is_idle e))"
      by (rule dev_address_call, rule address_calls_idle)
        (use u len in \<open>simp_all add: dev_timer_def dev_led_def\<close>)
    then show ?thesis using u(1) by (auto elim!: ok_mono)
  qed
  have x: "ok (ignore_code (dev_esb (nrf_esb_update_prefix 1 (dd_dev_idx (dv_ds u))) u)) ?Q"
    if q: "?Q u" for u
  proof -
    obtain e where u: "u = ?s2\<lparr>dv_esb := e\<rparr>" "esb_inv e" "nrf_esb_is_idle e" using q by blast
    have "ok (dev_esb (nrf_esb_update_prefix 1 (dd_dev_idx (dv_ds u))) u) (\<lambda>(r, t).
        r = NRF_SUCCESS \<and> (\<exists>e. t = u\<lparr>dv_esb := e\<rparr> \<and> esb_inv e \<and> nrf_esb_is_idle e))"
      by (rule dev_address_call, rule address_calls_idle) (use u in simp_all)
    then show ?thesis using u(1) by (auto elim!: ok_mono)
  qed
  have fin: "ok (then_do (memcpy (dv_chlist u) 0 (dd_chlist (dv_ds u)) 0 MAXIMUM_CHANNEL_LIST_SIZE) (\<lambda>chs.
      Inr (dev_timer timer_start (u\<lparr>dv_chlist := chs,
           dv_cur_ch_idx := of_nat MAXIMUM_CHANNEL_LIST_SIZE,
           dv_scan_timeout := BEACON_SCAN_LONG_TIMEOUT_MS, dv_sync_timeout := 0,
           dv_force_hop_channel := True\<rparr>)))) (\<lambda>t. dv_mode t = MODE_NORMAL \<and> dv_ds t = dv_ds s \<and>
    dv_chlist t = dd_chlist (dv_ds s) \<and> esb_inv (dv_esb t) \<and> nrf_esb_is_idle (dv_esb t) \<and>
    dv_force_hop_channel t \<and> dv_timer t = timer_start (timer_stop (dv_timer s)) \<and> dv_flash t = dv_flash s)" if "?Q u" for u
    using that len by (auto simp: dev_timer_def dev_led_def MAXIMUM_CHANNEL_LIST_SIZE_def)
  show ?thesis
    unfolding dev_enter_normal_mode_def Let_def
    by (rule ok_then_doI [OF i], rule ok_then_doI [OF a], assumption,
        rule ok_then_doI [OF x], assumption, rule fin)
qed

text \<open>The three address calls of \<open>main\<close> succeed and change the radio module only.\<close>

lemma dev_addresses_set:
  assumes "dev_ok s" and "nrf_esb_is_idle (dv_esb s)"
    and "\<And>e. esb_inv e \<Longrightarrow> nrf_esb_is_idle e \<Longrightarrow> ok (k (s\<lparr>dv_esb := e\<rparr>)) Q"
  shows "ok (dev_verify (dev_esb (nrf_esb_set_base_address_0 (Some DEFAULT_PAIRING_ADDRESS_32)) s) (\<lambda>s4.
      dev_verify (dev_esb (nrf_esb_set_base_address_1 (Some (dd_sys_address_32 (dv_ds s4)))) s4) (\<lambda>s5.
      dev_verify (dev_esb (nrf_esb_set_prefixes (Some [PIPE_0_PREFIX,
             if dd_signature (dv_ds s5) = DS_SIGNATURE \<and> dd_dev_idx (dv_ds s5) \<noteq> 0xff
             then dd_dev_idx (dv_ds s5) else 0xff])
        (if dd_dev_idx (dv_ds s5) = 0xff then 1 else 2)) s5) k))) Q"
proof -
  let ?Q = "\<lambda>u. \<exists>e. u = s\<lparr>dv_esb := e\<rparr> \<and> esb_inv e \<and> nrf_esb_is_idle e"
  have call: "ok (dev_esb call u) (\<lambda>(r, t). r = NRF_SUCCESS \<and> ?Q t)"
    if "?Q u" "\<And>e. esb_inv e \<Longrightarrow> nrf_esb_is_idle e \<Longrightarrow>
      ok (call e) (\<lambda>(r, t). r = NRF_SUCCESS \<and> esb_inv t \<and> nrf_esb_is_idle t)" for u call
    using that(1) by (auto intro!: ok_mono [OF dev_address_call] that(2))
  have len: "length (dd_sys_address_32 (dv_ds u)) = 4" and "?Q s" if "?Q u" for u
    using that assms(1,2) by (auto simp: dev_ok_def intro!: exI [of _ "dv_esb s"])
  show ?thesis
    by (rule ok_dev_verify [OF call], (use assms(1,2) in \<open>auto simp: dev_ok_def intro!: exI [of _ "dv_esb s"]\<close>) [1],
        rule address_calls_idle, assumption+, simp add: DEFAULT_PAIRING_ADDRESS_32_def,
        rule ok_dev_verify [OF call], assumption, rule address_calls_idle, assumption+, simp add: len,
        rule ok_dev_verify [OF call], assumption, rule address_calls_idle, assumption+, simp, simp,
        use assms(3) in blast)
qed

text \<open>The stored record, as \<open>main\<close> reads it back at start-up.\<close>

lemma boot_record_read:
  assumes "dev_ok s"
  shows "ds_get (device_ds_words d) 12 (dv_flash (dev_timer (timer_init 1000) (s\<lparr>dv_leds := l\<rparr>)))
    = Inr (take 3 (flash_page (dv_flash s)))"
  using assms ds_get_loop_ok [of 0 3 "dv_flash s" "device_ds_words d"]
  by (simp add: ds_get_def device_ds_words_def dev_timer_def dev_ok_def)

lemma boot_record_facts:
  fixes s hw defines "t \<equiv> dev_boot_record hw ((dev_timer (timer_init 1000) (s\<lparr>dv_leds := \<lambda>_. True\<rparr>))
      \<lparr>dv_ds := device_ds_of_words (take 3 (flash_page (dv_flash s)))\<rparr>)"
  assumes "dev_ok s"
  shows "dev_ok t" and "dv_esb t = dv_esb s" and "dd_signature (dv_ds t) = DS_SIGNATURE"
    and "dd_dev_idx (dv_ds t) = byte_at 3 (flash_page (dv_flash s) ! 2)"
  using assms by (simp_all add: dev_boot_record_def dev_timer_def dev_ok_def device_ds_of_words_def Let_def)

text \<open>
  A device takes an unsigned record for a pairing. Start-up repairs a wrong signature instead of
  rejecting the record, so whatever bytes the flash page holds, if the index byte is not \<open>0xFF\<close> and the
  pairing button is released, the device enters normal mode with that content.
\<close>

theorem device_ignores_signature:
  assumes "dev_ok s" and "nrf_esb_is_idle (dv_esb s)" and "\<exists>j. hw_hfclk_poll hw j" and "hw_pin_1 hw"
    and "byte_at 3 (flash_page (dv_flash s) ! 2) \<noteq> 0xff"
  shows "ok (dev_main hw s) (\<lambda>(r, t). r = NRF_SUCCESS \<and> dv_mode t = MODE_NORMAL \<and>
     dd_dev_idx (dv_ds t) = byte_at 3 (flash_page (dv_flash s) ! 2) \<and>
     dd_signature (dv_ds t) = DS_SIGNATURE)"
proof -
  let ?s3 = "dev_boot_record hw ((dev_timer (timer_init 1000) (s\<lparr>dv_leds := \<lambda>_. True\<rparr>))
      \<lparr>dv_ds := device_ds_of_words (take 3 (flash_page (dv_flash s)))\<rparr>)"
  note s3 = boot_record_facts [OF assms(1), of hw]
  show ?thesis
    unfolding dev_main_def Let_def boot_record_read [OF assms(1)] ok_then_do ok_wait_event ok_Inr
  proof (rule conjI [OF assms(3)], rule dev_addresses_set [OF s3(1)])
    show "nrf_esb_is_idle (dv_esb ?s3)" using assms(2) by (simp only: s3(2))
  next
    fix e assume e: "esb_inv e" "nrf_esb_is_idle e"
    let ?u = "?s3\<lparr>dv_esb := e\<rparr>"
    have "dev_ok ?u" using s3(1) e(1) by (simp add: dev_ok_def)
    then have "ok (dev_enter_normal_mode ?u) (\<lambda>v. dv_mode v = MODE_NORMAL \<and> dv_ds v = dv_ds ?s3)"
      by (intro ok_mono [OF dev_enter_normal_mode_ok]) simp_all
    then show "ok (then_do (if dd_dev_idx (dv_ds ?u) = 0xff \<or> \<not> hw_pin_1 hw then do_pairing ?u
          else dev_enter_normal_mode ?u) (\<lambda>v. Inr (NRF_SUCCESS, dev_timer timer_start v)))
        (\<lambda>(r, t). r = NRF_SUCCESS \<and> dv_mode t = MODE_NORMAL \<and>
          dd_dev_idx (dv_ds t) = byte_at 3 (flash_page (dv_flash s) ! 2) \<and>
          dd_signature (dv_ds t) = DS_SIGNATURE)"
      using s3(3,4) assms(4,5) by (auto simp: dev_timer_def elim!: ok_mono)
  qed
qed

theorem device_ignores_signature_witness:
  "ok (dev_main \<lparr>hw_hfclk_poll = \<lambda>j. j = 2, hw_pin_1 = True, hw_pin_2 = True\<rparr>
       (sample_device\<lparr>dv_esb := sample_ptx, dv_flash := (dv_flash sample_device)\<lparr>flash_page := [7, 7, 7, 7]\<rparr>\<rparr>))
     (\<lambda>(r, t). r = NRF_SUCCESS \<and> dv_mode t = MODE_NORMAL \<and> dd_dev_idx (dv_ds t) = 0 \<and>
       dd_signature (dv_ds t) = DS_SIGNATURE)"
proof -
  let ?s = "sample_device\<lparr>dv_esb := sample_ptx, dv_flash := (dv_flash sample_device)\<lparr>flash_page := [7, 7, 7, 7]\<rparr>\<rparr>"
  have "dev_ok ?s" using sample_device_ok sample_inv by (simp add: dev_ok_def)
  moreover have "nrf_esb_is_idle (dv_esb ?s)" by simp code_simp
  ultimately show ?thesis
    using device_ignores_signature [of ?s "\<lparr>hw_hfclk_poll = \<lambda>j. j = 2, hw_pin_1 = True, hw_pin_2 = True\<rparr>"]
    by (simp add: byte_at_def)
qed

end
