(* ===== verification/LibCommon.thy ===== *)
theory LibCommon
  imports Prelude
begin

text \<open>
  What the library components share: powers of two as index masks (\<open>IS_POWER_OF_TWO\<close> of
  app_util.h), the value of a run that is known to return, the slots of an array that holds records of one width, and the interface \<open>stream_codec\<close> of a
  byte-stuffing encoder with its decoder.
\<close>

unbundle bit_operations_syntax

section \<open>Runs\<close>

text \<open>The value of a run, or \<open>d\<close> if it goes wrong.\<close>

definition value_or :: "'a \<Rightarrow> 'a result \<Rightarrow> 'a" where
  "value_or d m = (case m of Inl _ \<Rightarrow> d | Inr a \<Rightarrow> a)"

lemma value_or_Inr [simp]: "value_or d (Inr a) = a"
  by (simp add: value_or_def)

section \<open>Searches\<close>

lemma find_upt_first:
  assumes "i < n" and "P i" and "\<And>j. j < i \<Longrightarrow> \<not> P j"
  shows "find P [0..<n] = Some i"
  using assms by (auto simp: find_Some_iff intro!: exI [of _ i])

section \<open>Powers of two\<close>

definition IS_POWER_OF_TWO :: "'a::len word \<Rightarrow> bool" where
  "IS_POWER_OF_TWO a \<longleftrightarrow> a \<noteq> 0 \<and> (a - 1) AND a = 0"

lemma nat_power_of_two: "n \<noteq> 0 \<Longrightarrow> (n - 1) AND n = (0 :: nat) \<Longrightarrow> \<exists>k. n = 2 ^ k"
proof (induction n rule: less_induct)
  case (less n)
  show ?case
  proof (cases "even n")
    case True
    then obtain m where m: "n = 2 * m" "m \<noteq> 0" using less.prems(1) by (auto elim!: evenE)
    then obtain j where j: "m = Suc j" by (cases m) simp_all
    have "(2 * j + 1) AND (2 * m) = 2 * (j AND m)" by (subst and_nat_rec) simp
    then have "(n - 1) AND n = 2 * ((m - 1) AND m)" using m(1) j by simp
    then have "(m - 1) AND m = 0" using less.prems(2) by simp
    then obtain k where "m = 2 ^ k" using less.IH [of m] m by auto
    then have "n = 2 ^ Suc k" using m(1) by simp
    then show ?thesis by blast
  next
    case False
    then obtain m where m: "n = 2 * m + 1" by (auto elim!: oddE)
    have "(2 * m) AND (2 * m + 1) = 2 * m"
      by (simp add: and_nat_rec [of "2 * m"])
    then have "m = 0" using less.prems(2) m by simp
    then have "n = 2 ^ 0" using m by simp
    then show ?thesis by blast
  qed
qed

lemma power_of_two_iff: "IS_POWER_OF_TWO (a :: 'a::len word) \<longleftrightarrow> (\<exists>k < LENGTH('a). a = 2 ^ k)"
proof
  assume a: "IS_POWER_OF_TWO a"
  then have "unat a \<noteq> 0" by (simp add: IS_POWER_OF_TWO_def unat_eq_0)
  moreover have "unat (a - 1) = unat a - 1"
    using a by (simp add: IS_POWER_OF_TWO_def unat_minus_one)
  then have "(unat a - 1) AND unat a = 0"
    using a unsigned_and_eq [of "a - 1" a, where 'a = nat] by (simp add: IS_POWER_OF_TWO_def)
  ultimately obtain k where k: "unat a = 2 ^ k" using nat_power_of_two by blast
  then have "k < LENGTH('a)" using unsigned_less [of a, where 'a = nat] by simp
  moreover have "a = of_nat (unat a)" by simp
  then have "a = 2 ^ k" by (simp only: k of_nat_power of_nat_numeral)
  ultimately show "\<exists>k < LENGTH('a). a = 2 ^ k" by blast
next
  assume "\<exists>k < LENGTH('a). a = 2 ^ k"
  then obtain k where k: "k < LENGTH('a)" "a = 2 ^ k" by blast
  have "(2 ^ k - 1) AND (2 ^ k :: 'a word) = 0"
    by (rule bit_word_eqI) (simp add: bit_simps mask_eq_exp_minus_1 [symmetric])
  moreover have "(2 :: 'a word) ^ k \<noteq> 0" using k(1) by (metis exp_eq_zero_iff linorder_not_le)
  ultimately show "IS_POWER_OF_TWO a" by (simp add: IS_POWER_OF_TWO_def k)
qed

text \<open>Masking with \<open>2 ^ k - 1\<close> is the remainder by \<open>2 ^ k\<close>.\<close>

lemma unat_and_mask: "unat ((x :: 'a::len word) AND mask k) = unat x mod 2 ^ k"
proof -
  have "unat (x AND mask k) = take_bit k (unat x)"
    by (simp only: take_bit_eq_mask [symmetric] unsigned_take_bit_eq)
  then show ?thesis by (simp only: take_bit_eq_mod)
qed

lemma unat_of_nat_u32: "n < 2 ^ 32 \<Longrightarrow> unat (of_nat n :: u32) = n"
  by (simp add: unsigned_of_nat take_bit_nat_eq_self_iff)

lemma ucast_mask16: "k \<le> 16 \<Longrightarrow> (ucast (mask k :: u16) :: u32) = mask k"
  by (rule bit_word_eqI) (auto simp: bit_simps)

section \<open>Slots of an array\<close>

text \<open>Positions on a ring of \<open>m\<close> slots.\<close>

lemma ring_end: "a < m \<Longrightarrow> b < m \<Longrightarrow> (a + (b + m - a) mod m) mod m = (b :: nat)"
  by (simp add: mod_simps)

lemma ring_distance: "a < m \<Longrightarrow> l < m \<Longrightarrow> ((a + l) mod m + m - a) mod m = (l :: nat)"
  by (cases "a + l < m") (auto simp: mod_if)

text \<open>Writing one slot of an array leaves the others alone.\<close>

lemma take_drop_other_slot:
  assumes "i \<noteq> e" and "n \<le> w" and "z \<le> w" and "e * w + n \<le> length D" and "length xs = n"
  shows "take z (drop (i * w) (take (e * w) D @ xs @ drop (e * w + n) D)) = take z (drop (i * w) (D :: 'a list))"
proof (cases "i < e")
  case True
  then have "i * w + w \<le> e * w" by (metis add.commute mult_Suc mult_le_mono1 Suc_leI)
  then have "i * w + z \<le> e * w" using assms(3) by simp
  then have c: "take z (drop (i * w) X) = take z (drop (i * w) (take (e * w) X))" for X :: "'a list"
    by (simp add: drop_take min_def)
  have "e * w \<le> length D" using assms(4) by simp
  then show ?thesis by (subst (1 2) c) simp
next
  case False
  then have "Suc e * w \<le> i * w" using assms(1) by (intro mult_le_mono1) simp
  then have "e * w + n \<le> i * w" using assms(2) by simp
  then have "e * w \<le> i * w" "e \<le> i" "e * w + n + (i * w - (e * w + n)) = i * w" using False by simp_all
  then show ?thesis using assms(4,5) by (simp add: min_def)
qed

lemma take_drop_this_slot:
  "e * w + n \<le> length D \<Longrightarrow> length xs = n \<Longrightarrow>
   take n (drop (e * w) (take (e * w) D @ xs @ drop (e * w + n) D)) = (xs :: 'a list)"
  by simp

section \<open>Byte stuffing\<close>

text \<open>
  A decoder reads a stream byte by byte. \<open>enc b\<close> is what the encoder sends for the byte \<open>b\<close>,
  \<open>good b\<close> holds if it can be sent; \<open>stuffing\<close> are the decoder states between two bytes of a packet, \<open>acc\<close> is what
  has been decoded, \<open>room\<close> how many bytes it can still take.
\<close>

locale stream_codec =
  fixes enc :: "u8 \<Rightarrow> u8 list"
    and good :: "u8 \<Rightarrow> bool"
    and feed :: "u8 list \<Rightarrow> 's \<Rightarrow> 's result"
    and stuffing :: "'s \<Rightarrow> bool"
    and acc :: "'s \<Rightarrow> u8 list"
    and room :: "'s \<Rightarrow> nat"
  assumes feed_Nil: "feed [] s = Inr s"
    and feed_append: "feed (xs @ ys) s = then_do (feed xs s) (feed ys)"
    and feed_enc: "stuffing s \<Longrightarrow> good b \<Longrightarrow> 0 < room s \<Longrightarrow>
      ok (feed (enc b) s) (\<lambda>t. stuffing t \<and> acc t = acc s @ [b] \<and> room s = Suc (room t))"
begin

text \<open>What is encoded is decoded, as far as there is room.\<close>

lemma feed_all:
  "stuffing s \<Longrightarrow> list_all good bs \<Longrightarrow> length bs \<le> room s \<Longrightarrow>
   ok (feed (concat (map enc bs)) s) (\<lambda>t. stuffing t \<and> acc t = acc s @ bs \<and> room t + length bs = room s)"
proof (induction bs arbitrary: s)
  case Nil
  then show ?case by (simp add: feed_Nil)
next
  case (Cons b bs)
  have "ok (feed (enc b) s) (\<lambda>t. stuffing t \<and> acc t = acc s @ [b] \<and> room s = Suc (room t))"
    using Cons.prems by (intro feed_enc) simp_all
  then obtain t where t: "feed (enc b) s = Inr t" "stuffing t" "acc t = acc s @ [b]" "room s = Suc (room t)"
    by (auto simp: ok_iff)
  have "ok (feed (concat (map enc bs)) t)
      (\<lambda>u. stuffing u \<and> acc u = acc t @ bs \<and> room u + length bs = room t)"
    using Cons.prems t by (intro Cons.IH) simp_all
  then show ?case using t by (auto simp: feed_append elim!: ok_mono)
qed

end

end
