(* ===== verification/System.thy ===== *)
theory System
  imports BoxProps DeviceProps LibCommon
begin

text \<open>
  The box and its devices together: what a beacon makes each device do, and what the pairing
  exchange leaves on the device. The packets between them are the payloads one side queues and the
  other finds in \<open>rx_payload\<close>; that the link carries a payload unchanged is proved for the ESB module.
\<close>

unbundle bit_operations_syntax

section \<open>Beacons\<close>

text \<open>The device has read the payload that the box has put in its queue.\<close>

definition heard :: "box \<Rightarrow> device \<Rightarrow> bool" where
  "heard b d \<longleftrightarrow> (case tx_queue (view (bx_esb b)) of
      [] \<Rightarrow> False
    | p # _ \<Rightarrow> pl_length (dv_rx_payload d) = pl_length p \<and>
        take (unat (pl_length p)) (pl_data (dv_rx_payload d)) = take (unat (pl_length p)) (pl_data p))"

definition dev_bit :: "device \<Rightarrow> nat" where
  "dev_bit d = 6 - unat (dd_dev_idx (dv_ds d))"

definition missing :: "box \<Rightarrow> nat \<Rightarrow> bool" where
  "missing b i \<longleftrightarrow> bit (bx_devs_paired_mask b) i \<and> \<not> bit (bx_devs_data_recv_mask b) i"

lemma take_nth: "take n xs = take n ys \<Longrightarrow> i < n \<Longrightarrow> xs ! i = ys ! i"
  by (metis nth_take)

text \<open>What the device makes of a beacon it has heard.\<close>

lemma beacon_heard:
  assumes "box_ok b" and "fresh_esb True (bx_esb b)"
  shows "ok (send_beacon b) (\<lambda>b'. \<forall>d. heard b' d \<longrightarrow>
    (wants_new d \<longleftrightarrow> bx_cur_ch_idx b = 0) \<and>
    (wants_again d \<longleftrightarrow> bx_cur_ch_idx b \<noteq> 0 \<and> missing b (dev_bit d)))"
proof -
  let ?d = "beacon_data (pl_data (bx_beacon b)) (bx_cur_ch_idx b) (bx_devs_data_recv_mask b) (bx_devs_paired_mask b)"
  have len: "length (pl_data (bx_beacon b)) = 32" "pl_length (bx_beacon b) = 10"
    using assms(1) by (simp_all add: box_ok_def)
  have rd: "pl_data (dv_rx_payload d) ! 2 = ?d ! 2 \<and> pl_data (dv_rx_payload d) ! 3 = ?d ! 3"
    if "heard b' d" "tx_queue (view (bx_esb b')) = [(bx_beacon b)\<lparr>pl_noack := 1, pl_pid := next_pid 0, pl_data := ?d\<rparr>]"
    for b' d
    using that len(2) by (auto simp: heard_def dest: take_nth [where i = 2] take_nth [where i = 3])
  have bytes: "?d ! 2 = (if bx_cur_ch_idx b = 0 then BEACON_BYTE3_NEW_DATA else BEACON_BYTE3_RESEND)"
    "bx_cur_ch_idx b \<noteq> 0 \<Longrightarrow> ?d ! 3 = NOT (bx_devs_data_recv_mask b) AND bx_devs_paired_mask b"
    using len(1) by (simp_all add: beacon_data_def)
  have kinds: "BEACON_BYTE3_NEW_DATA \<noteq> BEACON_BYTE3_RESEND" by (simp add: app_config)
  have 8: "dev_bit d < 8" for d by (simp add: dev_bit_def)
  show ?thesis
    by (rule ok_mono [OF send_beacon_ok [OF assms]])
      (use rd bytes kinds 8 in \<open>auto simp: wants_new_def wants_again_def missing_def dev_bit_def bit_simps\<close>)
qed

text \<open>
  C1. A resend beacon reaches exactly the devices whose data is missing: a device with index 1 to 6
  that hears the beacon of channel 1 or 2 transmits again if and only if the box has it paired and has not
  got its packet in this interval; on channel 0 every device that hears the beacon transmits.
\<close>

theorem beacon_reaches_missing:
  assumes "box_ok b" and "fresh_esb True (bx_esb b)" and "send_beacon b = Inr b'" and "heard b' d"
    and "dev_ok d" and "1 \<le> unat (dd_dev_idx (dv_ds d))" and "unat (dd_dev_idx (dv_ds d)) \<le> 6"
  shows "ok (dev_beacon_received d) (\<lambda>d'. tx_queue (view (dv_esb d')) \<noteq> [] \<longleftrightarrow>
      bx_cur_ch_idx b = 0 \<or> missing b (dev_bit d))"
proof -
  have "wants_new d \<longleftrightarrow> bx_cur_ch_idx b = 0"
    "wants_again d \<longleftrightarrow> bx_cur_ch_idx b \<noteq> 0 \<and> missing b (dev_bit d)"
    using ok_result [OF beacon_heard [OF assms(1,2)] assms(3)] assms(4) by blast+
  then show ?thesis
    by (intro ok_mono [OF dev_beacon_received_ok [OF assms(5-7)]])
      (auto simp: beacon_answered_def split: if_splits)
qed

definition sample_beaconing :: box where
  "sample_beaconing = sample_box\<lparr>bx_cur_ch_idx := 1,
     bx_esb := state_of (nrf_esb_init (Some (app_esb_config True)) sample_reset)\<rparr>"

lemma sample_beaconing_ok: "box_ok sample_beaconing" "fresh_esb True (bx_esb sample_beaconing)"
proof -
  have "fresh_esb True (dv_esb sample_sender)" by (rule sample_sender_ok)
  then show "fresh_esb True (bx_esb sample_beaconing)"
    by (simp add: sample_beaconing_def sample_sender_def)
  then show "box_ok sample_beaconing"
    using sample_box_ok by (simp add: sample_beaconing_def box_ok_def fresh_esb_def)
qed

lemma sample_send_beacon:
  "send_beacon sample_beaconing = Inr (value_or sample_beaconing (send_beacon sample_beaconing))"
  using send_beacon_ok [OF sample_beaconing_ok] by (auto simp: ok_iff)

text \<open>Device 4, which the box has paired, with the beacon in its \<open>rx_payload\<close>.\<close>

definition sample_hearer :: "u8 \<Rightarrow> box \<Rightarrow> device" where
  "sample_hearer i b = sample_device\<lparr>dv_ds := (dv_ds sample_device)\<lparr>dd_dev_idx := i\<rparr>,
     dv_rx_payload := hd (tx_queue (view (bx_esb b)))\<rparr>"

lemma sample_hearer_ok:
  assumes "box_ok b" and "fresh_esb True (bx_esb b)" and "send_beacon b = Inr b'"
  shows "heard b' (sample_hearer i b')" and "dev_ok (sample_hearer i b')"
proof -
  note q = ok_result [OF send_beacon_ok [OF assms(1,2)] assms(3)]
  show "heard b' (sample_hearer i b')" using q by (simp add: heard_def sample_hearer_def)
  have "length (pl_data (hd (tx_queue (view (bx_esb b'))))) = 32"
    using q assms(1) by (simp add: beacon_data_def box_ok_def)
  then show "dev_ok (sample_hearer i b')"
    using sample_device_ok by (simp add: sample_hearer_def dev_ok_def)
qed

theorem beacon_reaches_missing_witness:
  "ok (dev_beacon_received (sample_hearer 2 (value_or sample_beaconing (send_beacon sample_beaconing))))
     (\<lambda>d'. tx_queue (view (dv_esb d')) = [])"
proof -
  have "\<not> missing sample_beaconing 4" "bx_cur_ch_idx sample_beaconing \<noteq> 0"
    by (simp_all add: missing_def sample_beaconing_def sample_box_def bit_numeral_rec)
  then show ?thesis
    using beacon_reaches_missing [OF sample_beaconing_ok sample_send_beacon
        sample_hearer_ok [OF sample_beaconing_ok sample_send_beacon, of 2]]
    by (simp add: sample_hearer_def dev_bit_def)
qed


definition sample_hearing :: box where
  "sample_hearing = sample_beaconing\<lparr>bx_rx_payload := sample_payload\<lparr>pl_length := 32, pl_pipe := 3\<rparr>\<rparr>"


section \<open>Pairing\<close>

text \<open>The box listens: an initialised receiver.\<close>

definition box_listens :: "box \<Rightarrow> bool" where
  "box_listens b \<longleftrightarrow> box_ok b \<and> queues (bx_esb b) \<and> m_esb_initialized (bx_esb b) \<and>
     m_config_local (bx_esb b) = app_esb_config False"

lemma listening_write:
  assumes "esb_inv e" and "queues e" and "m_esb_initialized e" and "m_config_local e = app_esb_config False"
    and "count (m_tx_fifo e) = 0" and "sendable p"
  shows "ok (nrf_esb_write_payload (Some p) e) (\<lambda>(r, t). r = NRF_SUCCESS \<and> esb_inv t \<and>
    (\<exists>i. tx_queue (view t) = [p\<lparr>pl_pid := i\<rparr>]))"
proof -
  have pre: "call_pre (Call_write (Some p)) e" using assms(6) by (simp add: sendable_def)
  have "write_code (Some p) e = NRF_SUCCESS"
    using assms by (auto simp: write_code_def bad_payload_length_def sendable_def app_esb_config_def view_def)
  moreover have "tx_queue (spec_write p (view e)) = [p\<lparr>pl_pid := next_pid (m_pids e ! unat (pl_pipe p))\<rparr>]"
    using assms(5) by (simp add: spec_write_def view_def Let_def)
  ultimately show ?thesis
    using write_payload_refines [OF assms(1,2) pre] nrf_esb_write_payload_ok [OF assms(1) pre]
    by (auto simp: ok_iff)
qed

lemma flush_tx_frame:
  assumes "esb_inv e" and "queues e" and "m_esb_initialized e"
  shows "ok (nrf_esb_flush_tx e) (\<lambda>(r, t). esb_inv t \<and> queues t \<and> m_esb_initialized t \<and>
    m_config_local t = m_config_local e \<and> count (m_tx_fifo t) = 0)"
proof -
  have "post (nrf_esb_flush_tx e) (\<lambda>(r, t). queues t \<and> m_esb_initialized t \<and>
      m_config_local t = m_config_local e \<and> count (m_tx_fifo t) = 0)"
    using assms by (simp add: nrf_esb_flush_tx_def Let_def DISABLE_RF_IRQ_def ENABLE_RF_IRQ_def
        queues_def fifo_inv_clear fifo_bounds_inv)
  then show ?thesis using flush_ok(1) [OF assms(1)] by (auto simp: ok_iff)
qed

lemma box_pair_req_ok:
  assumes "box_listens b" and "pairing_slot (pl_data (bx_rx_payload b) ! 1) (bx_ds b) = Some (ty, idx)"
  shows "ok (box_pair_req b) (\<lambda>b'.
    (\<exists>e. b' = b\<lparr>bx_cur_pairing_dev_type := ty, bx_esb := e\<rparr> \<and> esb_inv e) \<and>
    (\<exists>p. tx_queue (view (bx_esb b')) = [p] \<and> pl_length p = 8 \<and>
         take 8 (pl_data p) = pair_info_bytes (bx_base_addr_1 b) (bd_chlist (bx_ds b)) idx))"
proof -
  let ?i = "pair_info_bytes (bx_base_addr_1 b) (bd_chlist (bx_ds b)) idx"
  let ?p = "(bx_stack b)\<lparr>pl_data := ?i @ drop 8 (pl_data (bx_stack b)), pl_length := 8, pl_pipe := 0\<rparr>"
  let ?b = "b\<lparr>bx_cur_pairing_dev_type := ty\<rparr>"
  let ?Q = "\<lambda>u. \<exists>e. u = ?b\<lparr>bx_esb := e\<rparr> \<and> esb_inv e \<and> queues e \<and> m_esb_initialized e \<and>
    m_config_local e = app_esb_config False \<and> count (m_tx_fifo e) = 0"
  have b: "box_ok b" "esb_inv (bx_esb b)" "queues (bx_esb b)" "m_esb_initialized (bx_esb b)"
    "m_config_local (bx_esb b) = app_esb_config False"
    using assms(1) by (simp_all add: box_listens_def box_ok_def)
  have len: "length ?i = 8" "length (pl_data (bx_rx_payload b)) = 32" "length (pl_data (bx_stack b)) = 32"
    using b(1) by (simp_all add: pair_info_bytes_def box_ok_def)
  have f: "ok (ignore_code (box_esb nrf_esb_flush_tx ?b)) ?Q"
    unfolding ok_ignore_code box_client.ok_call
    by (rule ok_mono [OF flush_tx_frame]) (use b in auto)
  have w: "ok (ignore_code (box_esb (nrf_esb_write_payload (Some ?p)) u)) (\<lambda>b'.
      (\<exists>e. b' = ?b\<lparr>bx_esb := e\<rparr> \<and> esb_inv e) \<and>
      (\<exists>p. tx_queue (view (bx_esb b')) = [p] \<and> pl_length p = 8 \<and> take 8 (pl_data p) = ?i))" if "?Q u" for u
  proof -
    obtain e where u: "u = ?b\<lparr>bx_esb := e\<rparr>" "esb_inv e" "queues e" "m_esb_initialized e"
      "m_config_local e = app_esb_config False" "count (m_tx_fifo e) = 0" using \<open>?Q u\<close> by blast
    have "sendable ?p" using len by (simp add: sendable_def)
    from listening_write [OF u(2-6) this] show ?thesis
      unfolding ok_ignore_code box_client.ok_call using len(1) u(1) by (auto elim!: ok_mono)
  qed
  have c: "memcpy (pl_data (bx_stack b)) 0 ?i 0 8 = Inr (?i @ drop 8 (pl_data (bx_stack b)))"
    using len by (simp add: memcpy_def)
  have "box_pair_req b = then_do (ignore_code (box_esb nrf_esb_flush_tx ?b))
      (\<lambda>u. ignore_code (box_esb (nrf_esb_write_payload (Some ?p)) u))"
    using assms(2) len c by (simp add: box_pair_req_def Let_def load_at_def)
  then show ?thesis by (simp only: ok_then_doI [OF f w])
qed

text \<open>The device has read the acknowledgment payload, and takes it over.\<close>

lemma dev_pair_info_received_ok:
  assumes "dev_ok d" and "pl_length (dv_rx_payload d) = 8"
    and "take 8 (pl_data (dv_rx_payload d)) = pair_info_bytes addr chs idx"
    and "length addr = 4" and "length chs = 3"
  shows "ok (dev_pair_info_received d) (\<lambda>t. dv_mode t = MODE_NORMAL \<and>
    dv_ds t = (dv_ds d)\<lparr>dd_sys_address_32 := addr, dd_chlist := chs, dd_dev_idx := idx\<rparr> \<and>
    dv_chlist t = chs \<and>
    take 3 (flash_page (dv_flash t)) = device_ds_words (dv_ds t))"
proof -
  let ?d = "pl_data (dv_rx_payload d)"
  let ?ds = "(dv_ds d)\<lparr>dd_sys_address_32 := addr, dd_chlist := chs, dd_dev_idx := idx\<rparr>"
  obtain j where j: "nvmc_ready (dv_flash d) j" using assms(1) by (auto simp: dev_ok_def)
  have len: "3 \<le> length (flash_page (dv_flash d))" "length ?d = 32" using assms(1) by (simp_all add: dev_ok_def)
  have t: "take 8 ?d = addr @ chs @ [idx]" using assms(3) by (simp add: pair_info_bytes_def)
  have "take 4 ?d = take 4 (take 8 ?d)" "take 3 (drop 4 ?d) = take 3 (drop 4 (take 8 ?d))"
    "?d ! 7 = take 8 ?d ! 7"
    by (simp_all add: drop_take)
  then have parts: "take 4 ?d = addr" "take 3 (drop 4 ?d) = chs" "?d ! 7 = idx"
    unfolding t using assms(4,5) by (simp_all add: nth_append)
  define f where "f = (dv_flash d)\<lparr>NVMC_CONFIG := NVMC_CONFIG_WEN_Ren, flash_page := device_ds_words ?ds
        @ replicate (length (flash_page (dv_flash d)) - 3) (- 1)\<rparr>"
  have upd: "ds_update (device_ds_words ?ds) 12 (dv_flash d) = Inr f"
    using ds_update_ok [of 12 "dv_flash d" "device_ds_words ?ds" j] j len
    by (simp add: device_ds_words_def f_def)
  have eq: "dev_pair_info_received d = dev_enter_normal_mode (d\<lparr>dv_ds := ?ds, dv_flash := f\<rparr>)"
    using assms(2) parts upd by (simp add: dev_pair_info_received_def Let_def)
  have "dev_ok (d\<lparr>dv_ds := ?ds, dv_flash := f\<rparr>)"
    using assms(1,4,5) j by (auto simp: dev_ok_def f_def device_ds_words_def)
  from dev_enter_normal_mode_ok [OF this] show ?thesis
    unfolding eq by (rule ok_mono) (simp add: f_def device_ds_words_def)
qed

text \<open>
  C6. The pairing exchange agrees on both sides: the acknowledgment payload the box prepares for a
  request of a free slot gives the device that reads it the box's address, its channel list and the
  index of that slot; the device is then in normal mode and finds the same record in flash.
\<close>

theorem pairing_exchange:
  assumes "box_listens b" and "pairing_slot (pl_data (bx_rx_payload b) ! 1) (bx_ds b) = Some (ty, idx)"
    and "box_pair_req b = Inr b'" and "heard b' d" and "dev_ok d"
  shows "bx_cur_pairing_dev_type b' = ty \<and> ok (dev_pair_info_received d) (\<lambda>t. dv_mode t = MODE_NORMAL \<and>
      dd_sys_address_32 (dv_ds t) = bx_base_addr_1 b \<and> dd_chlist (dv_ds t) = bd_chlist (bx_ds b) \<and>
      dd_dev_idx (dv_ds t) = idx \<and> dv_chlist t = bd_chlist (bx_ds b) \<and>
      take 3 (flash_page (dv_flash t)) = device_ds_words (dv_ds t))"
proof -
  note p = ok_result [OF box_pair_req_ok [OF assms(1,2)] assms(3)]
  have len: "length (bx_base_addr_1 b) = 4" "length (bd_chlist (bx_ds b)) = 3"
    using assms(1) by (simp_all add: box_listens_def box_ok_def)
  have "pl_length (dv_rx_payload d) = 8"
    "take 8 (pl_data (dv_rx_payload d)) = pair_info_bytes (bx_base_addr_1 b) (bd_chlist (bx_ds b)) idx"
    using p assms(4) by (auto simp: heard_def)
  from dev_pair_info_received_ok [OF assms(5) this len] p show ?thesis
    by (auto elim!: ok_mono)
qed

text \<open>The second controller asks: it becomes device 6.\<close>

definition sample_pairing :: box where
  "sample_pairing = sample_box\<lparr>
     bx_esb := state_of (nrf_esb_init (Some (app_esb_config False)) sample_reset),
     bx_rx_payload := sample_payload\<lparr>pl_length := 2, pl_pipe := 0, pl_data := [ID_PAIR_REQ, DEV_TYPE_CONTROLLER] @ replicate 30 0\<rparr>\<rparr>"

lemma sample_pairing_ok: "box_listens sample_pairing"
  "pairing_slot (pl_data (bx_rx_payload sample_pairing) ! 1) (bx_ds sample_pairing) = Some (DEV_TYPE_CONTROLLER, 6)"
proof -
  have "ok (nrf_esb_init (Some (app_esb_config False)) sample_reset)
      (\<lambda>(r, t). r = NRF_SUCCESS \<and> fresh_esb False t \<and> m_esb_addr t = m_esb_addr sample_reset)"
    by (rule app_esb_init_ok [OF sample_inv(1)])
  then have "fresh_esb False (bx_esb sample_pairing)"
    by (auto simp: ok_iff state_of_def sample_pairing_def)
  then show "box_listens sample_pairing"
    using sample_box_ok
    by (simp add: box_listens_def box_ok_def fresh_esb_def sample_pairing_def sample_payload_def)
  show "pairing_slot (pl_data (bx_rx_payload sample_pairing) ! 1) (bx_ds sample_pairing) =
      Some (DEV_TYPE_CONTROLLER, 6)"
    by (simp add: sample_pairing_def sample_box_def pairing_slot_def app_config)
qed

definition sample_joining :: device where
  "sample_joining = sample_device\<lparr>dv_rx_payload := sample_payload\<lparr>pl_length := 8,
     pl_data := pair_info_bytes [1, 2, 3, 4] [3, 36, 70] 6 @ replicate 24 0\<rparr>\<rparr>"

theorem pairing_exchange_witness:
  "ok (dev_pair_info_received sample_joining) (\<lambda>t. dv_mode t = MODE_NORMAL \<and>
      dd_sys_address_32 (dv_ds t) = [1, 2, 3, 4] \<and> dd_dev_idx (dv_ds t) = 6)"
proof -
  obtain b' where b': "box_pair_req sample_pairing = Inr b'" "bx_cur_pairing_dev_type b' = DEV_TYPE_CONTROLLER"
    "\<exists>p. tx_queue (view (bx_esb b')) = [p] \<and> pl_length p = 8 \<and>
       take 8 (pl_data p) = pair_info_bytes [1, 2, 3, 4] [3, 36, 70] 6"
    using box_pair_req_ok [OF sample_pairing_ok]
    by (auto simp: ok_iff sample_pairing_def sample_box_def)
  have "heard b' sample_joining"
    using b'(3) by (auto simp: heard_def sample_joining_def pair_info_bytes_def)
  moreover have "dev_ok sample_joining"
    using sample_device_ok by (simp add: sample_joining_def dev_ok_def pair_info_bytes_def)
  ultimately show ?thesis
    using pairing_exchange [OF sample_pairing_ok b'(1), of sample_joining]
    by (auto simp: sample_pairing_def sample_box_def elim!: ok_mono)
qed

text \<open>What the handlers of the pairing requests need of the box.\<close>

definition pairing_ok :: "box \<Rightarrow> bool" where
  "pairing_ok b \<longleftrightarrow> esb_inv (bx_esb b) \<and> length (bx_chlist b) = 3 \<and> length (bd_chlist (bx_ds b)) = 3 \<and>
     3 \<le> length (flash_page (bx_flash b)) \<and> (\<exists>k. nvmc_ready (bx_flash b) k)"

lemma box_ds_save_ok:
  assumes "pairing_ok s"
  shows "ok (box_ds_save s) (\<lambda>t. \<exists>f. t = s\<lparr>bx_flash := f\<rparr> \<and> pairing_ok t)"
proof -
  obtain j where j: "nvmc_ready (bx_flash s) j" using assms by (auto simp: pairing_ok_def)
  have l: "3 \<le> length (flash_page (bx_flash s))" "length (box_ds_words (bx_ds s)) = 3"
    using assms by (simp_all add: pairing_ok_def box_ds_words_def)
  show ?thesis
    using ds_update_ok [of 12 "bx_flash s" "box_ds_words (bx_ds s)" j] j l assms
    by (auto simp: box_ds_save_def pairing_ok_def)
qed

lemma box_enter_normal_mode_frame:
  assumes "pairing_ok s"
  shows "ok (box_enter_normal_mode s) (\<lambda>t. pairing_ok t \<and> bx_ds t = bx_ds s \<and>
    bx_devs_paired_mask t = bx_devs_paired_mask s \<and>
    bx_cur_pairing_dev_type t = bx_cur_pairing_dev_type s)"
  using assms by (simp add: box_enter_normal_mode_def Let_def pairing_ok_def box_timer_def box_led_def
      MAXIMUM_CHANNEL_LIST_SIZE_def)

text \<open>The fetch takes the slot of the pending request, and the request is no longer pending.\<close>

lemma box_pair_info_get_ok:
  assumes "pairing_ok b"
    and "\<And>e. box_take_slot (b\<lparr>bx_esb := e\<rparr>) = Inr (b\<lparr>bx_esb := e, bx_ds := d, bx_devs_paired_mask := m\<rparr>)"
    and "length (bd_chlist d) = 3"
  shows "ok (box_pair_info_get b) (\<lambda>t. pairing_ok t \<and> bx_ds t = d \<and> bx_devs_paired_mask t = m \<and>
    bx_cur_pairing_dev_type t = 0)"
proof -
  let ?t = "\<lambda>e. b\<lparr>bx_esb := e, bx_ds := d, bx_devs_paired_mask := m, bx_cur_pairing_dev_type := 0\<rparr>"
  have f: "ok (ignore_code (box_esb nrf_esb_flush_tx b)) (\<lambda>t. \<exists>e. t = b\<lparr>bx_esb := e\<rparr> \<and> esb_inv e)"
    unfolding ok_ignore_code box_client.ok_call
    using flush_ok(1) [of "bx_esb b"] assms(1) by (auto simp: pairing_ok_def elim!: ok_mono)
  have full: "ok (then_do (box_ds_save (?t e)) box_enter_normal_mode) (\<lambda>t. pairing_ok t \<and> bx_ds t = d \<and>
      bx_devs_paired_mask t = m \<and> bx_cur_pairing_dev_type t = 0)" if e: "esb_inv e" for e
  proof -
    have "pairing_ok (?t e)" using assms(1,3) e by (simp add: pairing_ok_def)
    then show ?thesis
      by (rule ok_then_doI [OF box_ds_save_ok])
        (auto elim!: ok_mono [OF box_enter_normal_mode_frame])
  qed
  show ?thesis
    unfolding box_pair_info_get_def
  proof (rule ok_then_doI [OF f])
    fix t assume "\<exists>e. t = b\<lparr>bx_esb := e\<rparr> \<and> esb_inv e"
    then obtain e where t: "t = b\<lparr>bx_esb := e\<rparr>" "esb_inv e" by blast
    have "pairing_ok (?t e)" using assms(1,3) t(2) by (simp add: pairing_ok_def)
    then show "ok (then_do (box_take_slot t) (\<lambda>s2. let s3 = s2\<lparr>bx_cur_pairing_dev_type := 0\<rparr> in
        if bd_controller_slot_idx (bx_ds s3) = MAXIMUM_CONTROLLER_DEV \<and>
           bd_display_slot_idx (bx_ds s3) = MAXIMUM_DISPLAY_DEV
        then then_do (box_ds_save s3) box_enter_normal_mode else Inr s3))
      (\<lambda>t. pairing_ok t \<and> bx_ds t = d \<and> bx_devs_paired_mask t = m \<and> bx_cur_pairing_dev_type t = 0)"
      using full [OF t(2)] by (simp add: t(1) assms(2) Let_def)
  qed
qed

lemma box_pair_info_get_idle:
  assumes "pairing_ok b" and "bx_cur_pairing_dev_type b = 0"
  shows "ok (box_pair_info_get b) (\<lambda>t. pairing_ok t \<and> bx_ds t = bx_ds b \<and>
    bx_devs_paired_mask t = bx_devs_paired_mask b \<and> bx_cur_pairing_dev_type t = 0)"
  by (rule box_pair_info_get_ok [OF assms(1)])
    (use assms in \<open>simp_all add: box_take_slot_def Let_def app_config pairing_ok_def\<close>)

lemma box_pair_info_get_takes:
  assumes "pairing_ok b" and "slots_ok b" and "pairing_slot ty (bx_ds b) = Some (t, idx)"
    and "bx_cur_pairing_dev_type b = t"
  shows "ok (box_pair_info_get b) (\<lambda>u. pairing_ok u \<and> slots_ok u \<and> bx_cur_pairing_dev_type u = 0 \<and>
    (\<forall>i. bit (bx_devs_paired_mask u) i = (bit (bx_devs_paired_mask b) i \<or> i = 6 - unat idx)))"
proof -
  have eq: "b\<lparr>bx_esb := e\<rparr> = (b\<lparr>bx_esb := e\<rparr>)\<lparr>bx_cur_pairing_dev_type := t\<rparr>" for e
    using assms(4) by simp
  obtain d m where take: "\<And>e. box_take_slot (b\<lparr>bx_esb := e\<rparr>)
      = Inr (b\<lparr>bx_esb := e, bx_ds := d, bx_devs_paired_mask := m\<rparr>)" "bd_chlist d = bd_chlist (bx_ds b)"
  proof -
    consider "t = 1" "unat (bd_display_slot_idx (bx_ds b)) < 4" | "t = 2" "unat (bd_controller_slot_idx (bx_ds b)) < 2"
      using pairing_slot_cases [OF assms(3)] by blast
    then show ?thesis
    proof cases
      case 1
      show ?thesis
        by (rule that [where d = "(bx_ds b)\<lparr>bd_display_slot_idx := bd_display_slot_idx (bx_ds b) + 1\<rparr>"
              and m = "bx_devs_paired_mask b OR push_bit (5 - unat (bd_display_slot_idx (bx_ds b))) 1"])
          (subst eq, use 1 assms(4) take_slot_display in \<open>simp_all del: push_bit_of_1\<close>)
    next
      case 2
      show ?thesis
        by (rule that [where d = "(bx_ds b)\<lparr>bd_controller_slot_idx := bd_controller_slot_idx (bx_ds b) + 1\<rparr>"
              and m = "bx_devs_paired_mask b OR push_bit (1 - unat (bd_controller_slot_idx (bx_ds b))) 1"])
          (subst eq, use 2 assms(4) take_slot_controller in \<open>simp_all del: push_bit_of_1\<close>)
    qed
  qed
  have "ok (box_take_slot b) (\<lambda>u. slots_ok u \<and>
      (\<forall>i. bit (bx_devs_paired_mask u) i = (bit (bx_devs_paired_mask b) i \<or> i = 6 - unat idx)))"
    using take_slot_free_bit [OF assms(2,3)] by (simp add: eq [of "bx_esb b", simplified, symmetric])
  then have slot: "slots_ok (b\<lparr>bx_ds := d, bx_devs_paired_mask := m\<rparr>)"
      "\<forall>i. bit m i = (bit (bx_devs_paired_mask b) i \<or> i = 6 - unat idx)"
    using take(1) [of "bx_esb b"] by simp_all
  have "length (bd_chlist d) = 3" using assms(1) take(2) by (simp add: pairing_ok_def)
  from box_pair_info_get_ok [OF assms(1) take(1) this] show ?thesis
    by (rule ok_mono) (use slot in \<open>auto simp: slots_ok_def\<close>)
qed



end
