(* ===== verification/AppFifo.thy ===== *)
theory AppFifo
  imports LibCommon
begin

text \<open>
  The byte FIFO of components/libraries/fifo/app_fifo.c. The two positions are free-running
  32-bit counters that are never reduced; the buffer is indexed by a position AND the mask, and the length is their
  difference modulo \<open>2 ^ 32\<close>. The abstract queue is \<open>fifo_bytes\<close>; \<open>fifo_ok\<close> is the invariant
  that \<open>app_fifo_init\<close> establishes and every operation keeps, also when a counter wraps around.
\<close>

unbundle bit_operations_syntax

section \<open>The FIFO and its operations\<close>

record app_fifo_t =
  p_buf :: "u8 list"
  buf_size_mask :: u16
  read_pos :: u32
  write_pos :: u32

definition fifo_length :: "app_fifo_t \<Rightarrow> u32" where
  "fifo_length f = write_pos f - read_pos f"

definition fifo_put :: "u8 \<Rightarrow> app_fifo_t \<Rightarrow> app_fifo_t result" where
  "fifo_put b f =
     then_do (store_at (p_buf f) (unat (write_pos f AND ucast (buf_size_mask f))) b) (\<lambda>buf.
       Inr (f\<lparr>p_buf := buf, write_pos := write_pos f + 1\<rparr>))"

definition fifo_peek :: "u16 \<Rightarrow> app_fifo_t \<Rightarrow> u8 result" where
  "fifo_peek index f = load_at (p_buf f) (unat ((read_pos f + ucast index) AND ucast (buf_size_mask f)))"

definition fifo_get :: "app_fifo_t \<Rightarrow> (u8 \<times> app_fifo_t) result" where
  "fifo_get f = then_do (fifo_peek 0 f) (\<lambda>b. Inr (b, f\<lparr>read_pos := read_pos f + 1\<rparr>))"

definition app_fifo_init :: "u8 list option \<Rightarrow> u16 \<Rightarrow> app_fifo_t \<Rightarrow> ret_code \<times> app_fifo_t" where
  "app_fifo_init buf buf_size f =
     (case buf of
        None \<Rightarrow> (NRF_ERROR_NULL, f)
      | Some b \<Rightarrow>
          if \<not> IS_POWER_OF_TWO buf_size then (NRF_ERROR_INVALID_LENGTH, f)
          else (NRF_SUCCESS, f\<lparr>p_buf := b, buf_size_mask := buf_size - 1, read_pos := 0, write_pos := 0\<rparr>))"

definition app_fifo_put :: "u8 \<Rightarrow> app_fifo_t \<Rightarrow> (ret_code \<times> app_fifo_t) result" where
  "app_fifo_put b f =
     (if fifo_length f \<le> ucast (buf_size_mask f)
      then then_do (fifo_put b f) (\<lambda>t. Inr (NRF_SUCCESS, t))
      else Inr (NRF_ERROR_NO_MEM, f))"

definition app_fifo_get :: "app_fifo_t \<Rightarrow> (ret_code \<times> u8 option \<times> app_fifo_t) result" where
  "app_fifo_get f =
     (if fifo_length f \<noteq> 0
      then then_do (fifo_get f) (\<lambda>(b, t). Inr (NRF_SUCCESS, Some b, t))
      else Inr (NRF_ERROR_NOT_FOUND, None, f))"

definition app_fifo_peek :: "u16 \<Rightarrow> app_fifo_t \<Rightarrow> (ret_code \<times> u8 option) result" where
  "app_fifo_peek index f =
     (if fifo_length f > ucast index
      then then_do (fifo_peek index f) (\<lambda>b. Inr (NRF_SUCCESS, Some b))
      else Inr (NRF_ERROR_NOT_FOUND, None))"

definition app_fifo_flush :: "app_fifo_t \<Rightarrow> ret_code \<times> app_fifo_t" where
  "app_fifo_flush f = (NRF_SUCCESS, f\<lparr>read_pos := write_pos f\<rparr>)"

text \<open>The loops of \<open>app_fifo_read\<close> and \<open>app_fifo_write\<close>: \<open>n\<close> rounds are left, \<open>index\<close> is \<open>i\<close>.\<close>

fun fifo_read_loop :: "nat \<Rightarrow> nat \<Rightarrow> u8 list \<Rightarrow> app_fifo_t \<Rightarrow> (u8 list \<times> app_fifo_t) result" where
  "fifo_read_loop 0 i a f = Inr (a, f)"
| "fifo_read_loop (Suc n) i a f =
     then_do (fifo_get f) (\<lambda>(b, f1).
     then_do (store_at a i b) (\<lambda>a1. fifo_read_loop n (Suc i) a1 f1))"

fun fifo_write_loop :: "nat \<Rightarrow> nat \<Rightarrow> u8 list \<Rightarrow> app_fifo_t \<Rightarrow> app_fifo_t result" where
  "fifo_write_loop 0 i a f = Inr f"
| "fifo_write_loop (Suc n) i a f =
     then_do (load_at a i) (\<lambda>b. then_do (fifo_put b f) (\<lambda>f1. fifo_write_loop n (Suc i) a f1))"

text \<open>The results: return code, byte array, size and FIFO.\<close>

definition app_fifo_read :: "app_fifo_t option \<Rightarrow> u8 list option \<Rightarrow> u32 option \<Rightarrow>
    (ret_code \<times> u8 list option \<times> u32 option \<times> app_fifo_t option) result" where
  "app_fifo_read p_fifo a p_size =
     (case p_fifo of None \<Rightarrow> Inr (NRF_ERROR_NULL, a, p_size, p_fifo) | Some f \<Rightarrow>
     (case p_size of None \<Rightarrow> Inr (NRF_ERROR_NULL, a, p_size, p_fifo) | Some requested_len \<Rightarrow>
      let byte_count = fifo_length f; read_size = min requested_len byte_count
      in if byte_count = 0 then Inr (NRF_ERROR_NOT_FOUND, a, Some byte_count, Some f)
         else case a of
                None \<Rightarrow> Inr (NRF_SUCCESS, None, Some byte_count, Some f)
              | Some arr \<Rightarrow>
                  then_do (fifo_read_loop (unat read_size) 0 arr f) (\<lambda>(arr1, f1).
                    Inr (NRF_SUCCESS, Some arr1, Some read_size, Some f1))))"

definition app_fifo_write :: "app_fifo_t option \<Rightarrow> u8 list option \<Rightarrow> u32 option \<Rightarrow>
    (ret_code \<times> u32 option \<times> app_fifo_t option) result" where
  "app_fifo_write p_fifo a p_size =
     (case p_fifo of None \<Rightarrow> Inr (NRF_ERROR_NULL, p_size, p_fifo) | Some f \<Rightarrow>
     (case p_size of None \<Rightarrow> Inr (NRF_ERROR_NULL, p_size, p_fifo) | Some requested_len \<Rightarrow>
      let available_count = ucast (buf_size_mask f) - fifo_length f + 1;
          write_size = min requested_len available_count
      in if available_count = 0 then Inr (NRF_ERROR_NO_MEM, Some available_count, Some f)
         else case a of
                None \<Rightarrow> Inr (NRF_SUCCESS, Some available_count, Some f)
              | Some arr \<Rightarrow>
                  then_do (fifo_write_loop (unat write_size) 0 arr f) (\<lambda>f1.
                    Inr (NRF_SUCCESS, Some write_size, Some f1))))"

section \<open>Invariant and abstract queue\<close>

definition fifo_cap :: "app_fifo_t \<Rightarrow> nat" where
  "fifo_cap f = unat (buf_size_mask f) + 1"

definition fifo_ok :: "app_fifo_t \<Rightarrow> bool" where
  "fifo_ok f \<longleftrightarrow> (\<exists>k<16. buf_size_mask f = mask k) \<and> fifo_cap f \<le> length (p_buf f) \<and>
     unat (fifo_length f) \<le> fifo_cap f"

definition fifo_bytes :: "app_fifo_t \<Rightarrow> u8 list" where
  "fifo_bytes f = ring_slice (take (fifo_cap f) (p_buf f)) (unat (read_pos f)) (unat (fifo_length f))"

lemma length_fifo_bytes: "length (fifo_bytes f) = unat (fifo_length f)"
  by (simp add: fifo_bytes_def)

lemma fifo_bytes_Nil_iff: "fifo_bytes f = [] \<longleftrightarrow> fifo_length f = 0"
  by (simp add: fifo_bytes_def unat_eq_0)

lemma unat_mask_u16: "k < 16 \<Longrightarrow> unat (mask k :: u16) = 2 ^ k - 1"
proof -
  assume k: "k < 16"
  have "unat (mask k :: u16) = take_bit k (unat (- 1 :: u16))"
    by (simp only: take_bit_minus_one_eq_mask [symmetric] unsigned_take_bit_eq)
  also have "\<dots> = mask k" using k by (auto intro!: bit_eqI simp: unsigned_minus_1_eq_mask bit_simps)
  finally show ?thesis by (simp add: mask_eq_exp_minus_1)
qed

lemma fifo_capE:
  assumes "fifo_ok f"
  obtains k where "k < 16" and "fifo_cap f = 2 ^ k" and "ucast (buf_size_mask f) = (mask k :: u32)"
proof -
  obtain k where "k < 16" "buf_size_mask f = mask k" using assms by (auto simp: fifo_ok_def)
  then show thesis using that [of k] unat_mask_u16 [of k] by (simp add: fifo_cap_def ucast_mask16)
qed

lemma fifo_cap_le: "fifo_ok f \<Longrightarrow> fifo_cap f \<le> 32768"
  by (erule fifo_capE) (simp add: power_increasing [of _ 15 "2::nat", simplified])

text \<open>A position AND the mask is the position modulo the size.\<close>

lemma fifo_index:
  "fifo_ok f \<Longrightarrow> unat (x AND ucast (buf_size_mask f) :: u32) = unat x mod fifo_cap f"
  by (erule fifo_capE) (simp add: unat_and_mask)

lemma mod_cap_mod:
  assumes "fifo_ok f"
  shows "n mod 4294967296 mod fifo_cap f = n mod fifo_cap f"
proof -
  obtain k where k: "k < 16" "fifo_cap f = 2 ^ k" using assms by (rule fifo_capE)
  have "(2 :: nat) ^ k dvd 2 ^ 32" using k(1) by (intro le_imp_power_dvd) simp
  then show ?thesis using k(2) mod_mod_cancel [of "2 ^ k" "2 ^ 32 :: nat" n] by simp
qed

lemma write_index:
  assumes "fifo_ok f"
  shows "unat (write_pos f) mod fifo_cap f = (unat (read_pos f) + unat (fifo_length f)) mod fifo_cap f"
proof -
  have "write_pos f = read_pos f + fifo_length f" by (simp add: fifo_length_def)
  then have "unat (write_pos f) = (unat (read_pos f) + unat (fifo_length f)) mod 4294967296"
    by (simp add: unat_word_ariths)
  then show ?thesis by (simp add: mod_cap_mod [OF assms])
qed

lemma unat_Suc_small: "unat (x :: u32) < 32768 \<Longrightarrow> unat (x + 1) = Suc (unat x)"
  by (simp add: unat_word_ariths)

lemma fifo_put_ok:
  assumes "fifo_ok f" and "length (fifo_bytes f) < fifo_cap f"
  shows "ok (fifo_put b f) (\<lambda>t. fifo_ok t \<and> fifo_bytes t = fifo_bytes f @ [b] \<and> fifo_cap t = fifo_cap f)"
proof -
  let ?i = "unat (write_pos f) mod fifo_cap f" and ?n = "unat (fifo_length f)"
  let ?t = "f\<lparr>p_buf := (p_buf f)[?i := b], write_pos := write_pos f + 1\<rparr>"
  have cap: "0 < fifo_cap f" "fifo_cap f \<le> length (p_buf f)"
    using assms(1) by (simp_all add: fifo_cap_def fifo_ok_def)
  have i: "?i < length (p_buf f)" using mod_less_divisor [OF cap(1)] cap(2) by (rule order.strict_trans2)
  have n: "?n < fifo_cap f" using assms(2) by (simp add: length_fifo_bytes)
  have "fifo_length ?t = fifo_length f + 1" by (simp add: fifo_length_def)
  then have len: "unat (fifo_length ?t) = Suc ?n"
    using n fifo_cap_le [OF assms(1)] by (simp add: unat_Suc_small)
  have c: "fifo_cap ?t = fifo_cap f" by (simp add: fifo_cap_def)
  have "fifo_ok ?t" using assms(1) n len c by (simp add: fifo_ok_def)
  moreover have "length (take (fifo_cap f) (p_buf f)) = fifo_cap f" using cap(2) by simp
  then have "ring_slice ((take (fifo_cap f) (p_buf f))[?i := b]) (unat (read_pos f)) (Suc ?n) = fifo_bytes f @ [b]"
    using ring_slice_snoc [of ?n "take (fifo_cap f) (p_buf f)" "unat (read_pos f)" b] n
    by (simp only: fifo_bytes_def write_index [OF assms(1)])
  then have "fifo_bytes ?t = fifo_bytes f @ [b]"
    by (simp only: fifo_bytes_def c len) (simp add: take_update_swap)
  ultimately show ?thesis
    using i c by (simp add: fifo_put_def fifo_index [OF assms(1)])
qed

lemma fifo_get_ok:
  assumes "fifo_ok f" and "fifo_bytes f \<noteq> []"
  shows "ok (fifo_get f) (\<lambda>(b, t). fifo_ok t \<and> b = hd (fifo_bytes f) \<and> fifo_bytes t = tl (fifo_bytes f) \<and>
    fifo_cap t = fifo_cap f)"
proof -
  let ?n = "unat (fifo_length f)" and ?t = "f\<lparr>read_pos := read_pos f + 1\<rparr>"
  let ?buf = "take (fifo_cap f) (p_buf f)"
  have cap: "0 < fifo_cap f" "fifo_cap f \<le> length (p_buf f)"
    using assms(1) by (simp_all add: fifo_cap_def fifo_ok_def)
  have buf: "length ?buf = fifo_cap f" using cap by simp
  have n: "0 < ?n" using assms(2) by (simp add: fifo_bytes_Nil_iff unat_gt_0)
  have i: "unat (read_pos f) mod fifo_cap f < fifo_cap f" using cap(1) by simp
  have "fifo_length ?t = fifo_length f - 1" by (simp add: fifo_length_def)
  then have len: "unat (fifo_length ?t) = ?n - 1"
    using n by (simp add: unat_minus_one unat_gt_0)
  have c: "fifo_cap ?t = fifo_cap f" by (simp add: fifo_cap_def)
  have ok: "fifo_ok ?t" using assms(1) len c by (auto simp: fifo_ok_def)
  have "unat (read_pos f + 1) mod fifo_cap f = Suc (unat (read_pos f)) mod fifo_cap f"
    using mod_cap_mod [OF assms(1), of "Suc (unat (read_pos f))"] by (simp add: unat_word_ariths)
  then have "ring_slice ?buf (unat (read_pos f + 1)) (?n - 1) =
      ring_slice ?buf (Suc (unat (read_pos f)) mod length ?buf) (?n - 1)"
    using ring_slice_st_mod [of ?buf "unat (read_pos f + 1)"] buf by metis
  then have "fifo_bytes ?t = tl (fifo_bytes f)"
    using ring_slice_tl [OF n, of ?buf "unat (read_pos f)"] by (simp add: fifo_bytes_def c len)
  moreover have "hd (fifo_bytes f) = p_buf f ! (unat (read_pos f) mod fifo_cap f)"
    using ring_slice_hd [OF n, of ?buf "unat (read_pos f)"] buf i by (simp add: fifo_bytes_def)
  moreover have "unat (read_pos f) mod fifo_cap f < length (p_buf f)" using i cap(2) by (rule order.strict_trans2)
  ultimately show ?thesis
    using ok c by (simp add: fifo_get_def fifo_peek_def fifo_index [OF assms(1)])
qed

section \<open>The queue interface\<close>

definition fifo_deq :: "app_fifo_t \<Rightarrow> app_fifo_t" where
  "fifo_deq f = snd (value_or (0, f) (fifo_get f))"

definition fifo_front :: "app_fifo_t \<Rightarrow> u8" where
  "fifo_front f = fst (value_or (0, f) (fifo_get f))"

definition fifo_enq :: "u8 \<Rightarrow> app_fifo_t \<Rightarrow> app_fifo_t" where
  "fifo_enq b f = value_or f (fifo_put b f)"

interpretation app_fifo: bounded_queue fifo_ok fifo_bytes fifo_cap fifo_enq fifo_deq fifo_front
proof unfold_locales
  fix f b
  assume f: "fifo_ok f"
  show "length (fifo_bytes f) \<le> fifo_cap f" using f by (simp add: fifo_ok_def length_fifo_bytes)
  {
    assume "length (fifo_bytes f) < fifo_cap f"
    from fifo_put_ok [OF f this, of b]
    show "fifo_ok (fifo_enq b f)" "fifo_bytes (fifo_enq b f) = fifo_bytes f @ [b]"
      "fifo_cap (fifo_enq b f) = fifo_cap f"
      by (auto simp: ok_iff fifo_enq_def)
  }
  assume "fifo_bytes f \<noteq> []"
  from fifo_get_ok [OF f this]
  show "fifo_ok (fifo_deq f)" "fifo_bytes (fifo_deq f) = tl (fifo_bytes f)"
    "fifo_cap (fifo_deq f) = fifo_cap f" "fifo_front f = hd (fifo_bytes f)"
    by (auto simp: ok_iff fifo_deq_def fifo_front_def)
qed

lemma fifo_put_enq:
  "fifo_ok f \<Longrightarrow> length (fifo_bytes f) < fifo_cap f \<Longrightarrow> fifo_put b f = Inr (fifo_enq b f)"
  using fifo_put_ok [of f b] by (auto simp: ok_iff fifo_enq_def)

lemma fifo_get_deq:
  "fifo_ok f \<Longrightarrow> fifo_bytes f \<noteq> [] \<Longrightarrow> fifo_get f = Inr (fifo_front f, fifo_deq f)"
  using fifo_get_ok [of f] by (auto simp: ok_iff fifo_deq_def fifo_front_def)

section \<open>The loops\<close>

lemma fifo_write_loop_eq:
  "fifo_ok f \<Longrightarrow> i + n \<le> length a \<Longrightarrow> length (fifo_bytes f) + n \<le> fifo_cap f \<Longrightarrow>
   fifo_write_loop n i a f = Inr (fold fifo_enq (take n (drop i a)) f)"
proof (induction n arbitrary: i f)
  case (Suc n)
  then have i: "i < length a" and room: "length (fifo_bytes f) < fifo_cap f" by simp_all
  have "take (Suc n) (drop i a) = a ! i # take n (drop (Suc i) a)"
    using i by (simp add: Cons_nth_drop_Suc [symmetric])
  moreover have "fifo_write_loop n (Suc i) a (fifo_enq (a ! i) f)
      = Inr (fold fifo_enq (take n (drop (Suc i) a)) (fifo_enq (a ! i) f))"
    using Suc.prems room by (intro Suc.IH)
      (simp_all only: app_fifo.enq_inv app_fifo.enq_abs app_fifo.enq_cap, simp_all)
  ultimately show ?case using i fifo_put_enq [OF Suc.prems(1) room] by (simp add: load_at_def)
qed simp

lemma fifo_read_loop_ok:
  "fifo_ok f \<Longrightarrow> i + n \<le> length a \<Longrightarrow> n \<le> length (fifo_bytes f) \<Longrightarrow>
   ok (fifo_read_loop n i a f) (\<lambda>(a1, t). t = (fifo_deq ^^ n) f \<and>
     a1 = take i a @ take n (fifo_bytes f) @ drop (i + n) a)"
proof (induction n arbitrary: i a f)
  case (Suc n)
  then have i: "i < length a" and ne: "fifo_bytes f \<noteq> []" by auto
  let ?a = "a[i := hd (fifo_bytes f)]" and ?f = "fifo_deq f"
  have "ok (fifo_read_loop n (Suc i) ?a ?f) (\<lambda>(a1, t). t = (fifo_deq ^^ n) ?f \<and>
      a1 = take (Suc i) ?a @ take n (fifo_bytes ?f) @ drop (Suc i + n) ?a)"
    by (intro Suc.IH) (use Suc.prems app_fifo.deq_inv [OF Suc.prems(1) ne]
        app_fifo.deq_abs [OF Suc.prems(1) ne] in simp_all)
  moreover have "take (Suc i) ?a = take i a @ [hd (fifo_bytes f)]"
    using i by (simp add: take_Suc_conv_app_nth)
  moreover have "take (Suc n) (fifo_bytes f) = hd (fifo_bytes f) # take n (fifo_bytes ?f)"
    using ne app_fifo.deq_abs [OF Suc.prems(1) ne] by (cases "fifo_bytes f") simp_all
  ultimately show ?case
    using i fifo_get_deq [OF Suc.prems(1) ne] app_fifo.front_abs [OF Suc.prems(1) ne]
    by (auto simp: store_at_def funpow_swap1 elim!: ok_mono)
qed simp

lemma fifo_free_space:
  assumes "fifo_ok f"
  shows "unat (ucast (buf_size_mask f) - fifo_length f + 1 :: u32) = fifo_cap f - length (fifo_bytes f)"
proof -
  have "unat (fifo_length f) \<le> unat (buf_size_mask f) + 1"
    using assms by (simp add: fifo_ok_def fifo_cap_def)
  moreover have m: "unat (ucast (buf_size_mask f) + 1 :: u32) = unat (buf_size_mask f) + 1"
    using fifo_cap_le [OF assms] by (simp add: fifo_cap_def unat_Suc_small)
  ultimately have "unat ((ucast (buf_size_mask f) + 1) - fifo_length f) = unat (buf_size_mask f) + 1 - unat (fifo_length f)"
    by (simp only: unat_sub word_le_nat_alt)
  then show ?thesis by (simp add: fifo_cap_def length_fifo_bytes algebra_simps)
qed

lemma unat_min: "unat (min (a :: u32) b) = min (unat a) (unat b)"
  by (simp add: min_def word_le_nat_alt)

lemma app_fifo_write_ok:
  assumes "fifo_ok f" and "unat n \<le> length xs" and "length (fifo_bytes f) < fifo_cap f"
  shows "ok (app_fifo_write (Some f) (Some xs) (Some n)) (\<lambda>(r, m, t). r = NRF_SUCCESS \<and>
    (let k = min (unat n) (fifo_cap f - length (fifo_bytes f)) in map_option unat m = Some k \<and>
    (\<exists>u. t = Some u \<and> fifo_ok u \<and> fifo_cap u = fifo_cap f \<and> fifo_bytes u = fifo_bytes f @ take k xs)))"
proof -
  let ?free = "ucast (buf_size_mask f) - fifo_length f + 1 :: u32"
  let ?k = "min (unat n) (fifo_cap f - length (fifo_bytes f))"
  have free: "unat ?free = fifo_cap f - length (fifo_bytes f)" by (rule fifo_free_space [OF assms(1)])
  then have ne: "?free \<noteq> 0" using assms(3) by (metis diff_is_0_eq leD unat_eq_0)
  have k: "unat (min n ?free) = ?k" by (simp only: unat_min free)
  have loop: "fifo_write_loop ?k 0 xs f = Inr (fold fifo_enq (take ?k xs) f)"
    using fifo_write_loop_eq [OF assms(1), of 0 ?k xs] assms(2,3) by simp
  have len: "length (fifo_bytes f) + length (take ?k xs) \<le> fifo_cap f" using assms(3) by simp
  show ?thesis
    using app_fifo.enq_many [OF assms(1) len]
    by (simp add: app_fifo_write_def Let_def ne k loop)
qed

lemma app_fifo_read_ok:
  assumes "fifo_ok f" and "fifo_bytes f \<noteq> []" and "length (fifo_bytes f) \<le> length a"
    and "length (fifo_bytes f) \<le> unat n"
  shows "ok (app_fifo_read (Some f) (Some a) (Some n)) (\<lambda>(r, b, m, t). r = NRF_SUCCESS \<and>
    b = Some (fifo_bytes f @ drop (length (fifo_bytes f)) a) \<and>
    map_option unat m = Some (length (fifo_bytes f)) \<and>
    (\<exists>u. t = Some u \<and> fifo_ok u \<and> fifo_bytes u = []))"
proof -
  let ?l = "length (fifo_bytes f)"
  have ne: "fifo_length f \<noteq> 0" using assms(2) by (simp add: fifo_bytes_Nil_iff)
  have "fifo_length f \<le> n" using assms(4) by (simp add: word_le_nat_alt length_fifo_bytes)
  then have m: "min n (fifo_length f) = fifo_length f" by (rule min.absorb2)
  have loop: "ok (fifo_read_loop ?l 0 a f) (\<lambda>(a1, t). t = (fifo_deq ^^ ?l) f \<and>
      a1 = take 0 a @ take ?l (fifo_bytes f) @ drop (0 + ?l) a)"
    using assms by (intro fifo_read_loop_ok) simp_all
  have "fifo_ok ((fifo_deq ^^ ?l) f)" "fifo_bytes ((fifo_deq ^^ ?l) f) = []"
    using app_fifo.deq_many [OF assms(1), of ?l] by simp_all
  then show ?thesis
    using loop by (auto simp: app_fifo_read_def Let_def ne m ok_iff length_fifo_bytes)
qed

section \<open>Properties\<close>

lemma app_fifo_init_ok:
  "fst (app_fifo_init (Some b) n f) = NRF_SUCCESS \<longleftrightarrow> (\<exists>k<16. n = 2 ^ k)"
  "\<exists>k<16. n = 2 ^ k \<Longrightarrow> unat n \<le> length b \<Longrightarrow>
   fifo_ok (snd (app_fifo_init (Some b) n f)) \<and> fifo_bytes (snd (app_fifo_init (Some b) n f)) = [] \<and>
   fifo_cap (snd (app_fifo_init (Some b) n f)) = unat n"
proof -
  have p: "IS_POWER_OF_TWO n \<longleftrightarrow> (\<exists>k<16. n = 2 ^ k)" by (simp add: power_of_two_iff)
  then show "fst (app_fifo_init (Some b) n f) = NRF_SUCCESS \<longleftrightarrow> (\<exists>k<16. n = 2 ^ k)"
    by (simp add: app_fifo_init_def)
  assume k: "\<exists>k<16. n = 2 ^ k" and b: "unat n \<le> length b"
  then have "n \<noteq> 0" using p by (auto simp: IS_POWER_OF_TWO_def)
  then have "unat (n - 1) + 1 = unat n" by (simp add: unat_minus_one unat_gt_0 Suc_leI)
  moreover have "\<exists>k<16. n - 1 = mask k" using k by (auto simp: mask_eq_exp_minus_1)
  ultimately show "fifo_ok (snd (app_fifo_init (Some b) n f)) \<and> fifo_bytes (snd (app_fifo_init (Some b) n f)) = [] \<and>
     fifo_cap (snd (app_fifo_init (Some b) n f)) = unat n"
    using p k b by (simp add: app_fifo_init_def fifo_ok_def fifo_bytes_def fifo_cap_def fifo_length_def)
qed

text \<open>
  C25. \<open>app_fifo_put\<close> and \<open>app_fifo_get\<close> are a bounded queue of \<open>mask + 1\<close> bytes, whatever the two
  free-running positions are, a wrap-around at \<open>2 ^ 32\<close> included: a byte is appended if and only if there is
  room, the oldest one is taken if and only if there is one, and on an error nothing changes.
\<close>

theorem fifo_put_get:
  assumes "fifo_ok f"
  shows "ok (app_fifo_put b f) (\<lambda>(r, t). fifo_ok t \<and>
      (if length (fifo_bytes f) < fifo_cap f then r = NRF_SUCCESS \<and> fifo_bytes t = fifo_bytes f @ [b]
       else r = NRF_ERROR_NO_MEM \<and> t = f)) \<and>
    ok (app_fifo_get f) (\<lambda>(r, c, t). fifo_ok t \<and>
      (case fifo_bytes f of
         [] \<Rightarrow> r = NRF_ERROR_NOT_FOUND \<and> c = None \<and> t = f
       | x # xs \<Rightarrow> r = NRF_SUCCESS \<and> c = Some x \<and> fifo_bytes t = xs))"
proof
  have "fifo_length f \<le> ucast (buf_size_mask f) \<longleftrightarrow> length (fifo_bytes f) < fifo_cap f"
    by (auto simp: word_le_nat_alt length_fifo_bytes fifo_cap_def less_Suc_eq_le)
  then show "ok (app_fifo_put b f) (\<lambda>(r, t). fifo_ok t \<and>
      (if length (fifo_bytes f) < fifo_cap f then r = NRF_SUCCESS \<and> fifo_bytes t = fifo_bytes f @ [b]
       else r = NRF_ERROR_NO_MEM \<and> t = f))"
    using assms fifo_put_ok [OF assms, of b] by (auto simp: app_fifo_put_def elim!: ok_mono)
  show "ok (app_fifo_get f) (\<lambda>(r, c, t). fifo_ok t \<and>
      (case fifo_bytes f of
         [] \<Rightarrow> r = NRF_ERROR_NOT_FOUND \<and> c = None \<and> t = f
       | x # xs \<Rightarrow> r = NRF_SUCCESS \<and> c = Some x \<and> fifo_bytes t = xs))"
    using assms fifo_get_ok [OF assms]
    by (cases "fifo_bytes f") (auto simp: app_fifo_get_def fifo_bytes_Nil_iff [symmetric] elim!: ok_mono)
qed

text \<open>Two bytes in a FIFO of four, with the write position about to wrap around.\<close>

definition sample_fifo :: app_fifo_t where
  "sample_fifo = \<lparr>p_buf = [0, 0, 7, 8], buf_size_mask = 3, read_pos = 0xFFFFFFFE, write_pos = 0\<rparr>"

lemma sample_fifo_ok: "fifo_ok sample_fifo"
proof -
  have "(3 :: u16) = mask 2" by (simp add: mask_eq_exp_minus_1)
  then have "\<exists>k<16. buf_size_mask sample_fifo = mask k"
    by (intro exI [of _ 2]) (simp add: sample_fifo_def)
  moreover have "fifo_length sample_fifo = 2" by (simp add: fifo_length_def sample_fifo_def)
  ultimately show ?thesis by (simp add: fifo_ok_def fifo_cap_def sample_fifo_def)
qed

lemma sample_fifo_bytes: "fifo_bytes sample_fifo = [7, 8]" "fifo_cap sample_fifo = 4"
proof -
  have "fifo_length sample_fifo = 2" by (simp add: fifo_length_def sample_fifo_def)
  moreover show c: "fifo_cap sample_fifo = 4" by (simp add: fifo_cap_def sample_fifo_def)
  moreover have "[0..<2] = [0, 1]" by (simp add: upt_rec)
  ultimately show "fifo_bytes sample_fifo = [7, 8]"
    by (simp add: fifo_bytes_def ring_slice_def sample_fifo_def)
qed

theorem fifo_put_get_witness:
  "ok (app_fifo_put 9 sample_fifo) (\<lambda>(r, t). r = NRF_SUCCESS \<and> fifo_bytes t = [7, 8, 9]) \<and>
   ok (app_fifo_get sample_fifo) (\<lambda>(r, c, t). r = NRF_SUCCESS \<and> c = Some 7 \<and> fifo_bytes t = [8])"
  using fifo_put_get [OF sample_fifo_ok, of 9] unfolding sample_fifo_bytes
  by (auto elim!: ok_mono)

text \<open>
  Bytes pass through the FIFO in order and unchanged: what \<open>app_fifo_write\<close> accepts, all of it when
  there is room, \<open>app_fifo_read\<close> hands out behind what was there before, and the FIFO is then empty.
\<close>

theorem fifo_passes_bytes:
  assumes "fifo_ok f" and "xs \<noteq> []" and "length xs = unat n"
    and "length (fifo_bytes f) + length xs \<le> fifo_cap f"
    and "length (fifo_bytes f) + length xs \<le> length a" and "length (fifo_bytes f) + length xs \<le> unat m"
  shows "ok (app_fifo_write (Some f) (Some xs) (Some n)) (\<lambda>(r, k, t). r = NRF_SUCCESS \<and> k = Some n \<and>
    ok (app_fifo_read t (Some a) (Some m)) (\<lambda>(r', b, k', t'). r' = NRF_SUCCESS \<and>
      map_option (take (length (fifo_bytes f) + length xs)) b = Some (fifo_bytes f @ xs) \<and>
      map_option unat k' = Some (length (fifo_bytes f) + length xs) \<and>
      map_option fifo_bytes t' = Some []))"
proof -
  have room: "length (fifo_bytes f) < fifo_cap f" using assms(2,4) by (cases xs) simp_all
  have k: "min (unat n) (fifo_cap f - length (fifo_bytes f)) = length xs" using assms(3,4) by simp
  have w: "ok (app_fifo_write (Some f) (Some xs) (Some n)) (\<lambda>(r, k, t). r = NRF_SUCCESS \<and> k = Some n \<and>
      (\<exists>u. t = Some u \<and> fifo_ok u \<and> fifo_bytes u = fifo_bytes f @ xs))"
    by (rule ok_mono [OF app_fifo_write_ok [OF assms(1) _ room]])
      (use assms(3) in \<open>auto simp: Let_def k word_unat_eq_iff\<close>)
  have r: "ok (app_fifo_read (Some u) (Some a) (Some m)) (\<lambda>(r', b, k', t'). r' = NRF_SUCCESS \<and>
      map_option (take (length (fifo_bytes f) + length xs)) b = Some (fifo_bytes f @ xs) \<and>
      map_option unat k' = Some (length (fifo_bytes f) + length xs) \<and>
      map_option fifo_bytes t' = Some [])" if "fifo_ok u" "fifo_bytes u = fifo_bytes f @ xs" for u
    by (rule ok_mono [OF app_fifo_read_ok [OF that(1), of a m]])
      (use that assms in auto)
  show ?thesis by (rule ok_mono [OF w]) (use r in auto)
qed

theorem fifo_passes_bytes_witness:
  "ok (app_fifo_write (Some sample_fifo) (Some [1, 2]) (Some 2)) (\<lambda>(r, k, t). r = NRF_SUCCESS \<and> k = Some 2 \<and>
    ok (app_fifo_read t (Some (replicate 5 0)) (Some 5)) (\<lambda>(r', b, k', t'). r' = NRF_SUCCESS \<and>
      map_option (take 4) b = Some [7, 8, 1, 2] \<and> map_option unat k' = Some 4 \<and>
      map_option fifo_bytes t' = Some []))"
proof -
  have len: "length (fifo_bytes sample_fifo) + length [1, 2 :: u8] = 4" by (simp add: sample_fifo_bytes)
  show ?thesis
    using fifo_passes_bytes [OF sample_fifo_ok, of "[1, 2]" 2 "replicate 5 0" 5, unfolded len, unfolded sample_fifo_bytes]
    by simp
qed

end
