(* ===== verification/Slip.thy ===== *)
theory Slip
  imports LibCommon
begin

text \<open>
  The SLIP codec of components/libraries/slip/slip.c: the encoder \<open>slip_encode\<close> and the
  byte-wise decoder \<open>slip_decoding_add_char\<close>. The two disagree on the escape byte, so the interface
  \<open>stream_codec\<close> holds for packets without that byte only.

  The output index of the encoder counts bytes of a buffer in memory and cannot wrap around; it is a
  natural number.
\<close>

unbundle bit_operations_syntax

section \<open>The encoder\<close>

definition SLIP_END :: u8 where "SLIP_END = 0xC0"
definition SLIP_ESC :: u8 where "SLIP_ESC = 0xDB"
definition SLIP_ESC_END :: u8 where "SLIP_ESC_END = 0xDC"
definition SLIP_ESC_ESC :: u8 where "SLIP_ESC_ESC = 0xDD"

lemmas slip_codes = SLIP_END_def SLIP_ESC_def SLIP_ESC_END_def SLIP_ESC_ESC_def

text \<open>The \<open>switch\<close> of the encoder; the first escape is \<open>END ESC_END\<close>, not \<open>ESC ESC_END\<close>.\<close>

definition slip_code :: "u8 \<Rightarrow> u8 list" where
  "slip_code c =
     (if c = SLIP_END then [SLIP_END, SLIP_ESC_END]
      else if c = SLIP_ESC then [SLIP_ESC, SLIP_ESC_ESC]
      else [c])"

text \<open>\<open>p_output[output_index++] = c;\<close> for the given bytes.\<close>

fun slip_emit :: "u8 list \<Rightarrow> u8 list \<Rightarrow> nat \<Rightarrow> (u8 list \<times> nat) result" where
  "slip_emit [] out i = Inr (out, i)"
| "slip_emit (c # cs) out i = then_do (store_at out i c) (\<lambda>out1. slip_emit cs out1 (Suc i))"

text \<open>The \<open>for\<close> loop; \<open>n\<close> bytes of the input are left from index \<open>k\<close> on.\<close>

fun slip_encode_loop :: "nat \<Rightarrow> nat \<Rightarrow> u8 list \<Rightarrow> nat \<Rightarrow> u8 list \<Rightarrow> nat \<Rightarrow> (u8 list \<times> nat) result" where
  "slip_encode_loop 0 k inp limit out i = Inr (out, i)"
| "slip_encode_loop (Suc n) k inp limit out i =
     (if i < limit
      then then_do (load_at inp k) (\<lambda>c.
           then_do (slip_emit (slip_code c) out i) (\<lambda>(out1, i1).
           slip_encode_loop n (Suc k) inp limit out1 i1))
      else Inr (out, i))"

definition slip_encode :: "u8 list \<Rightarrow> u8 list \<Rightarrow> u32 \<Rightarrow> u32 \<Rightarrow> (u32 \<times> u8 list) result" where
  "slip_encode out inp input_length output_buffer_length =
     then_do (slip_encode_loop (unat input_length) 0 inp (unat output_buffer_length) out 0) (\<lambda>(out1, i).
     then_do (slip_emit [SLIP_END, SLIP_END] out1 i) (\<lambda>(out2, i2). Inr (of_nat i2, out2)))"

section \<open>The decoder\<close>

datatype slip_state_t = SLIP_DECODING | SLIP_END_RECEIVED | SLIP_ESC_RECEIVED
  | SLIP_CLEARING_INVALID_PACKET

record buffer_t =
  sb_buffer :: "u8 list"
  current_index :: u32
  current_length :: u32
  sb_len :: u32

definition slip_store :: "u8 \<Rightarrow> buffer_t \<Rightarrow> buffer_t result" where
  "slip_store c b =
     then_do (store_at (sb_buffer b) (unat (current_index b)) c) (\<lambda>buf.
       Inr (b\<lparr>sb_buffer := buf, current_index := current_index b + 1,
              current_length := current_length b + 1\<rparr>))"

definition slip_decoding_add_char ::
    "u8 \<Rightarrow> buffer_t \<Rightarrow> slip_state_t \<Rightarrow> (ret_code \<times> buffer_t \<times> slip_state_t) result" where
  "slip_decoding_add_char c b st =
     (case st of
        SLIP_DECODING \<Rightarrow>
          if c = SLIP_END then Inr (NRF_ERROR_BUSY, b, SLIP_END_RECEIVED)
          else if c = SLIP_ESC then Inr (NRF_ERROR_BUSY, b, SLIP_END_RECEIVED)
          else then_do (slip_store c b) (\<lambda>b1. Inr (NRF_ERROR_BUSY, b1, st))
      | SLIP_ESC_RECEIVED \<Rightarrow>
          if c = SLIP_ESC_ESC
          then then_do (slip_store SLIP_ESC b) (\<lambda>b1. Inr (NRF_ERROR_BUSY, b1, SLIP_DECODING))
          else Inr (NRF_ERROR_INVALID_DATA, b, SLIP_CLEARING_INVALID_PACKET)
      | SLIP_END_RECEIVED \<Rightarrow>
          if c = SLIP_ESC_END
          then then_do (slip_store SLIP_END b) (\<lambda>b1. Inr (NRF_ERROR_BUSY, b1, SLIP_DECODING))
          else Inr (NRF_SUCCESS, b, SLIP_DECODING)
      | SLIP_CLEARING_INVALID_PACKET \<Rightarrow>
          if c = SLIP_END
          then Inr (NRF_ERROR_BUSY, b\<lparr>current_index := 0, current_length := 0\<rparr>, SLIP_DECODING)
          else Inr (NRF_ERROR_BUSY, b, st))"

text \<open>A stream: bytes are fed in as long as the answer is \<open>NRF_ERROR_BUSY\<close>.\<close>

type_synonym slip_run = "ret_code \<times> buffer_t \<times> slip_state_t"

fun slip_feed :: "u8 list \<Rightarrow> slip_run \<Rightarrow> slip_run result" where
  "slip_feed [] s = Inr s"
| "slip_feed (c # cs) (r, b, st) =
     (if r = NRF_ERROR_BUSY then then_do (slip_decoding_add_char c b st) (slip_feed cs)
      else Inr (r, b, st))"

section \<open>What the encoder writes\<close>

lemma slip_emit_ok:
  "i + length cs \<le> length out \<Longrightarrow>
   slip_emit cs out i = Inr (take i out @ cs @ drop (i + length cs) out, i + length cs)"
proof (induction cs arbitrary: out i)
  case (Cons c cs)
  have "take (Suc i) (out[i := c]) = take i out @ [c]"
    using Cons.prems by (simp add: take_Suc_conv_app_nth)
  then show ?case using Cons by (simp add: store_at_def)
qed simp

lemma slip_emit_fault:
  "cs \<noteq> [] \<Longrightarrow> length out < i + length cs \<Longrightarrow> slip_emit cs out i = Inl Out_Of_Bounds"
proof (induction cs arbitrary: out i)
  case (Cons c cs)
  then show ?case by (cases "cs = []") (auto simp: store_at_def)
qed simp

lemma slip_emit_index: "slip_emit cs out i = Inr (out1, j) \<Longrightarrow> j = i + length cs \<and> length out1 = length out"
proof (induction cs arbitrary: out i)
  case (Cons c cs)
  from Cons.prems obtain o1 where "o1 = out[i := c]" "slip_emit cs o1 (Suc i) = Inr (out1, j)"
    by (auto simp: store_at_Inr_iff then_do_Inr_iff)
  from Cons.IH [OF this(2)] this(1) show ?case by simp
qed simp

definition slip_codes_of :: "u8 list \<Rightarrow> u8 list" where
  "slip_codes_of xs = concat (map slip_code xs)"

lemma slip_codes_of_simps [simp]:
  "slip_codes_of [] = []"
  "slip_codes_of (x # xs) = slip_code x @ slip_codes_of xs"
  "slip_codes_of (xs @ ys) = slip_codes_of xs @ slip_codes_of ys"
  by (simp_all add: slip_codes_of_def)

lemma slip_code_length: "1 \<le> length (slip_code c)" "length (slip_code c) \<le> 2"
  by (simp_all add: slip_code_def)

lemma slip_encode_loop_ok:
  "k + n = length inp \<Longrightarrow> i + length (slip_codes_of (drop k inp)) \<le> limit \<Longrightarrow>
   i + length (slip_codes_of (drop k inp)) \<le> length out \<Longrightarrow>
   slip_encode_loop n k inp limit out i =
     Inr (take i out @ slip_codes_of (drop k inp) @ drop (i + length (slip_codes_of (drop k inp))) out,
          i + length (slip_codes_of (drop k inp)))"
proof (induction n arbitrary: k out i)
  case (Suc n)
  let ?c = "inp ! k"
  have k: "k < length inp" using Suc.prems(1) by simp
  have d: "drop k inp = ?c # drop (Suc k) inp" using k by (simp add: Cons_nth_drop_Suc)
  have i: "i < limit" using Suc.prems(2) slip_code_length(1) [of ?c] by (simp add: d)
  have e: "slip_emit (slip_code ?c) out i =
      Inr (take i out @ slip_code ?c @ drop (i + length (slip_code ?c)) out, i + length (slip_code ?c))"
    using Suc.prems(3) by (intro slip_emit_ok) (simp add: d)
  let ?out = "take i out @ slip_code ?c @ drop (i + length (slip_code ?c)) out"
    and ?i = "i + length (slip_code ?c)"
  have io: "?i \<le> length out" using Suc.prems(3) by (simp add: d)
  have "slip_encode_loop n (Suc k) inp limit ?out ?i =
     Inr (take ?i ?out @ slip_codes_of (drop (Suc k) inp) @ drop (?i + length (slip_codes_of (drop (Suc k) inp))) ?out,
          ?i + length (slip_codes_of (drop (Suc k) inp)))"
    using Suc.prems io by (intro Suc.IH) (simp_all add: d)
  moreover have "take ?i ?out = take i out @ slip_code ?c" using io by simp
  moreover have "drop (?i + m) ?out = drop (?i + m) out" for m
    using io by (simp add: add.commute drop_drop [symmetric] del: drop_drop)
  ultimately show ?case using k i e by (simp add: d load_at_def add.assoc)
qed simp

lemma slip_encode_ok:
  assumes "length (slip_codes_of inp) \<le> unat limit" and "length (slip_codes_of inp) + 2 \<le> length out"
    and "length inp = unat n"
  shows "ok (slip_encode out inp n limit) (\<lambda>(r, t). r = of_nat (length (slip_codes_of inp) + 2) \<and>
    take (length (slip_codes_of inp) + 2) t = slip_codes_of inp @ [SLIP_END, SLIP_END])"
proof -
  let ?m = "length (slip_codes_of inp)"
  have l: "slip_encode_loop (unat n) 0 inp (unat limit) out 0 = Inr (slip_codes_of inp @ drop ?m out, ?m)"
    using slip_encode_loop_ok [of 0 "unat n" inp 0 "unat limit" out] assms by simp
  have "slip_emit [SLIP_END, SLIP_END] (slip_codes_of inp @ drop ?m out) ?m =
      Inr (slip_codes_of inp @ [SLIP_END, SLIP_END] @ drop (?m + 2) (slip_codes_of inp @ drop ?m out), ?m + 2)"
    using slip_emit_ok [of ?m "[SLIP_END, SLIP_END]" "slip_codes_of inp @ drop ?m out"] assms(2) by simp
  then show ?thesis by (simp add: slip_encode_def l)
qed

lemma slip_emit_Inl: "slip_emit cs out i = Inl e \<Longrightarrow> e = Out_Of_Bounds"
  by (induction cs arbitrary: out i) (auto simp: then_do_Inl_iff store_at_def split: if_splits)

lemma slip_encode_loop_Inl: "slip_encode_loop n k inp limit out i = Inl e \<Longrightarrow> e = Out_Of_Bounds"
  by (induction n arbitrary: k out i)
    (auto simp: then_do_Inl_iff load_at_def dest: slip_emit_Inl split: if_splits prod.splits)

text \<open>At the end of the loop the output index is at the limit, or the input is used up.\<close>

lemma slip_encode_loop_index:
  "slip_encode_loop n k inp limit out i = Inr (out1, j) \<Longrightarrow>
   length out1 = length out \<and> i \<le> j \<and> (limit \<le> j \<or> i + n \<le> j) \<and> j \<le> max i (limit + 1)"
proof (induction n arbitrary: k out i)
  case (Suc n)
  show ?case
  proof (cases "i < limit")
    case True
    with Suc.prems obtain c o1 i1 where e: "slip_emit (slip_code c) out i = Inr (o1, i1)"
      "slip_encode_loop n (Suc k) inp limit o1 i1 = Inr (out1, j)"
      by (auto simp: then_do_Inr_iff)
    from Suc.IH [OF e(2)] slip_emit_index [OF e(1)] slip_code_length [of c] True show ?thesis by auto
  qed (use Suc.prems in auto)
qed simp

section \<open>The decoder as a codec\<close>

lemma slip_feed_append: "slip_feed (xs @ ys) s = then_do (slip_feed xs s) (slip_feed ys)"
proof (induction xs arbitrary: s)
  case (Cons x xs)
  obtain r b st where s: "s = (r, b, st)" by (cases s) auto
  show ?case
  proof (cases "r = NRF_ERROR_BUSY")
    case True
    then show ?thesis using Cons.IH by (cases "slip_decoding_add_char x b st") (simp_all add: s)
  next
    case False
    then have "slip_feed ys (r, b, st) = Inr (r, b, st)" by (cases ys) simp_all
    with False show ?thesis by (simp add: s)
  qed
qed simp

definition slip_stuffing :: "slip_run \<Rightarrow> bool" where
  "slip_stuffing s \<longleftrightarrow> (case s of (r, b, st) \<Rightarrow> r = NRF_ERROR_BUSY \<and> st = SLIP_DECODING \<and>
     unat (current_index b) \<le> length (sb_buffer b) \<and> length (sb_buffer b) < 2 ^ 32)"

definition slip_acc :: "slip_run \<Rightarrow> u8 list" where
  "slip_acc s = (case s of (_, b, _) \<Rightarrow> take (unat (current_index b)) (sb_buffer b))"

definition slip_room :: "slip_run \<Rightarrow> nat" where
  "slip_room s = (case s of (_, b, _) \<Rightarrow> length (sb_buffer b) - unat (current_index b))"

lemma slip_store_ok:
  assumes "unat (current_index b) < length (sb_buffer b)" and "length (sb_buffer b) < 2 ^ 32"
  shows "ok (slip_store c b) (\<lambda>t. length (sb_buffer t) = length (sb_buffer b) \<and>
    unat (current_index t) = Suc (unat (current_index b)) \<and>
    take (unat (current_index t)) (sb_buffer t) = take (unat (current_index b)) (sb_buffer b) @ [c])"
proof -
  have "unat (current_index b + 1) = Suc (unat (current_index b))"
    using assms by (simp add: unat_word_ariths)
  then show ?thesis using assms(1) by (simp add: slip_store_def take_Suc_conv_app_nth)
qed

interpretation slip: stream_codec slip_code "\<lambda>c. c \<noteq> SLIP_ESC" slip_feed slip_stuffing slip_acc slip_room
proof unfold_locales
  show "slip_feed [] s = Inr s" for s by simp
  show "slip_feed (xs @ ys) s = then_do (slip_feed xs s) (slip_feed ys)" for xs ys s by (rule slip_feed_append)
  fix s c assume st: "slip_stuffing s" and c: "c \<noteq> SLIP_ESC" and room: "0 < slip_room s"
  obtain b where s: "s = (NRF_ERROR_BUSY, b, SLIP_DECODING)" "unat (current_index b) \<le> length (sb_buffer b)"
    "length (sb_buffer b) < 2 ^ 32" using st by (cases s) (auto simp: slip_stuffing_def)
  have store: "ok (slip_store c b) (\<lambda>t. slip_stuffing (NRF_ERROR_BUSY, t, SLIP_DECODING) \<and>
      slip_acc (NRF_ERROR_BUSY, t, SLIP_DECODING) = slip_acc s @ [c] \<and>
      slip_room s = Suc (slip_room (NRF_ERROR_BUSY, t, SLIP_DECODING)))" for c
    by (rule ok_mono [OF slip_store_ok])
      (use s room in \<open>auto simp: slip_stuffing_def slip_acc_def slip_room_def\<close>)
  show "ok (slip_feed (slip_code c) s) (\<lambda>t. slip_stuffing t \<and> slip_acc t = slip_acc s @ [c] \<and>
      slip_room s = Suc (slip_room t))"
  proof (cases "c = SLIP_END")
    case True
    have "SLIP_END \<noteq> SLIP_ESC" "SLIP_ESC_END \<noteq> SLIP_END" by (simp_all add: slip_codes)
    then show ?thesis using store [of SLIP_END]
      by (simp add: s(1) True slip_code_def slip_decoding_add_char_def)
  next
    case False
    then show ?thesis using store [of c] c by (simp add: s(1) slip_code_def slip_decoding_add_char_def)
  qed
qed

definition slip_start :: "u8 list \<Rightarrow> slip_run" where
  "slip_start buf = (NRF_ERROR_BUSY, \<lparr>sb_buffer = buf, current_index = 0, current_length = 0,
     sb_len = of_nat (length buf)\<rparr>, SLIP_DECODING)"

lemma slip_start_ok:
  "length buf < 2 ^ 32 \<Longrightarrow> slip_stuffing (slip_start buf) \<and> slip_acc (slip_start buf) = [] \<and>
     slip_room (slip_start buf) = length buf"
  by (simp add: slip_start_def slip_stuffing_def slip_acc_def slip_room_def)

text \<open>The two end bytes finish the packet.\<close>

lemma slip_finish:
  assumes "slip_stuffing s"
  shows "ok (slip_feed [SLIP_END, SLIP_END] s) (\<lambda>t. fst t = NRF_SUCCESS \<and> slip_acc t = slip_acc s)"
proof -
  obtain b where "s = (NRF_ERROR_BUSY, b, SLIP_DECODING)"
    using assms by (cases s) (auto simp: slip_stuffing_def)
  moreover have "SLIP_END \<noteq> SLIP_ESC_END" by (simp add: slip_codes)
  ultimately show ?thesis by (simp add: slip_decoding_add_char_def slip_acc_def)
qed

text \<open>The decoder takes the escape byte for an end, and the byte after it finishes the packet.\<close>

lemma slip_escape:
  assumes "slip_stuffing s"
  shows "ok (slip_feed (slip_code SLIP_ESC @ rest) s) (\<lambda>t. fst t = NRF_SUCCESS \<and> slip_acc t = slip_acc s)"
proof -
  obtain b where s: "s = (NRF_ERROR_BUSY, b, SLIP_DECODING)"
    using assms by (cases s) (auto simp: slip_stuffing_def)
  have stop: "slip_feed rest (NRF_SUCCESS, b, SLIP_DECODING) = Inr (NRF_SUCCESS, b, SLIP_DECODING)"
    by (cases rest) simp_all
  have "SLIP_ESC \<noteq> SLIP_END" "SLIP_ESC_ESC \<noteq> SLIP_ESC_END" by (simp_all add: slip_codes)
  then show ?thesis
    by (simp add: s slip_code_def slip_decoding_add_char_def slip_acc_def stop)
qed

section \<open>Properties\<close>

text \<open>
  A packet without the escape byte \<open>0xDB\<close> survives: what \<open>slip_encode\<close> writes, fed byte by byte to
  \<open>slip_decoding_add_char\<close> with an empty buffer, ends with \<open>NRF_SUCCESS\<close> and the bytes of the packet.
\<close>

theorem slip_roundtrip:
  assumes "list_all (\<lambda>c. c \<noteq> SLIP_ESC) inp" and "length inp = unat n"
    and "length (slip_codes_of inp) \<le> unat limit" and "length (slip_codes_of inp) + 2 \<le> length out"
    and "length (slip_codes_of inp) + 2 < 2 ^ 32" and "length inp \<le> length buf" and "length buf < 2 ^ 32"
  shows "ok (slip_encode out inp n limit) (\<lambda>(r, t).
    ok (slip_feed (take (unat r) t) (slip_start buf)) (\<lambda>s. fst s = NRF_SUCCESS \<and> slip_acc s = inp))"
proof -
  let ?m = "length (slip_codes_of inp) + 2"
  have "unat (of_nat ?m :: u32) = ?m" using assms(5) by (rule unat_of_nat_u32)
  moreover have "ok (slip_feed (slip_codes_of inp @ [SLIP_END, SLIP_END]) (slip_start buf))
      (\<lambda>s. fst s = NRF_SUCCESS \<and> slip_acc s = inp)"
    unfolding slip_feed_append slip_codes_of_def
    by (rule ok_then_doI [OF slip.feed_all [OF _ assms(1)]])
      (use slip_start_ok [OF assms(7)] assms(6) in \<open>auto elim!: ok_mono dest: slip_finish\<close>)
  ultimately show ?thesis
    by (intro ok_mono [OF slip_encode_ok [OF assms(3,4,2)]]) auto
qed

theorem slip_roundtrip_witness:
  "ok (slip_encode (replicate 9 0) [1, SLIP_END, 2] 3 9) (\<lambda>(r, t).
    ok (slip_feed (take (unat r) t) (slip_start (replicate 5 0)))
      (\<lambda>s. fst s = NRF_SUCCESS \<and> slip_acc s = [1, SLIP_END, 2]))"
  by (rule slip_roundtrip) (simp_all add: slip_code_def slip_codes)

text \<open>
  A packet with an escape byte does not survive: the encoder sends \<open>ESC ESC_ESC\<close>, on \<open>ESC\<close> the decoder goes to
  the state for a received \<open>END\<close>, and the next byte then ends the packet. The decoder reports success with the
  bytes before the escape byte, whatever follows.
\<close>

theorem slip_escape_truncates:
  assumes "list_all (\<lambda>c. c \<noteq> SLIP_ESC) xs" and "length xs \<le> length buf" and "length buf < 2 ^ 32"
  shows "ok (slip_feed (slip_codes_of (xs @ SLIP_ESC # ys) @ [SLIP_END, SLIP_END]) (slip_start buf))
    (\<lambda>s. fst s = NRF_SUCCESS \<and> slip_acc s = xs)"
proof -
  have "slip_codes_of (xs @ SLIP_ESC # ys) @ [SLIP_END, SLIP_END] = concat (map slip_code xs)
      @ (slip_code SLIP_ESC @ (slip_codes_of ys @ [SLIP_END, SLIP_END]))"
    by (simp add: slip_codes_of_def)
  then show ?thesis
    unfolding slip_feed_append [of "concat _"]
    by (simp only: slip_feed_append [of "concat _"])
      (rule ok_then_doI [OF slip.feed_all [OF _ assms(1)]],
       use slip_start_ok [OF assms(3)] assms(2) in \<open>auto elim!: ok_mono dest: slip_escape\<close>)
qed

theorem slip_escape_truncates_witness:
  "ok (slip_feed (slip_codes_of [1, 2, SLIP_ESC, 3] @ [SLIP_END, SLIP_END]) (slip_start (replicate 8 0)))
    (\<lambda>s. fst s = NRF_SUCCESS \<and> slip_acc s = [1, 2])"
  using slip_escape_truncates [of "[1, 2]" "replicate 8 0" "[3]"] by (simp add: slip_codes)

text \<open>
  \<open>slip_encode\<close> writes past the buffer it is told the size of: the loop stops at the limit, but the
  two end bytes, and the second byte of an escape, are written without a check. Every input that fills an output
  buffer of exactly \<open>output_buffer_length\<close> bytes is written out of bounds.
\<close>

theorem slip_encode_overflows:
  assumes "length out = unat limit" and "unat limit \<le> unat n" and "length inp = unat n"
  shows "slip_encode out inp n limit = Inl Out_Of_Bounds"
proof (cases "slip_encode_loop (unat n) 0 inp (unat limit) out 0")
  case (Inl e)
  then show ?thesis using slip_encode_loop_Inl [OF Inl] by (simp add: slip_encode_def)
next
  case (Inr r)
  obtain out1 i where r: "r = (out1, i)" by (cases r)
  have "length out1 = length out \<and> unat limit \<le> i"
    using slip_encode_loop_index [OF Inr [unfolded r]] assms(2) by auto
  then have "slip_emit [SLIP_END, SLIP_END] out1 i = Inl Out_Of_Bounds"
    using assms(1) by (intro slip_emit_fault) simp_all
  then show ?thesis by (simp add: slip_encode_def Inr r)
qed

theorem slip_encode_overflows_witness:
  "slip_encode [0, 0] [1, 2, 3] 3 2 = Inl Out_Of_Bounds"
  by (rule slip_encode_overflows) simp_all

end
