(* ===== verification/Crc.thy ===== *)
theory Crc
  imports LibCommon
begin

text \<open>
  The checksums of components/libraries/crc16/crc16.c and crc32/crc32.c. CRC-16 is computed there
  without a table and without a loop over the bits; \<open>ccitt_byte\<close> is the textbook algorithm it has to agree with. Both sides
  are linear over XOR, so that they agree everywhere if they agree on the sixteen powers of two.
\<close>

unbundle bit_operations_syntax

section \<open>The functions\<close>

definition crc16_step :: "u8 \<Rightarrow> u16 \<Rightarrow> u16" where
  "crc16_step b crc0 =
     (let crc1 = ucast (ucast (drop_bit 8 crc0) :: u8) OR push_bit 8 crc0;
          crc2 = crc1 XOR ucast b;
          crc3 = crc2 XOR ucast (drop_bit 4 (ucast (crc2 AND 0xFF) :: u8));
          crc4 = crc3 XOR push_bit 4 (push_bit 8 crc3)
      in crc4 XOR push_bit 1 (push_bit 4 (crc4 AND 0xFF)))"

fun crc16_loop :: "nat \<Rightarrow> nat \<Rightarrow> u8 list \<Rightarrow> u16 \<Rightarrow> u16 result" where
  "crc16_loop 0 i data crc = Inr crc"
| "crc16_loop (Suc n) i data crc =
     then_do (load_at data i) (\<lambda>b. crc16_loop n (Suc i) data (crc16_step b crc))"

definition crc16_compute :: "u8 list \<Rightarrow> u32 \<Rightarrow> u16 option \<Rightarrow> u16 result" where
  "crc16_compute data data_size p_crc =
     crc16_loop (unat data_size) 0 data (case p_crc of None \<Rightarrow> 0xFFFF | Some c \<Rightarrow> c)"

definition crc32_shift :: "u32 \<Rightarrow> u32" where
  "crc32_shift crc = drop_bit 1 crc XOR (0xEDB88320 AND (if crc AND 1 \<noteq> 0 then 0xFFFFFFFF else 0))"

definition crc32_step :: "u8 \<Rightarrow> u32 \<Rightarrow> u32" where
  "crc32_step b crc = (crc32_shift ^^ 8) (crc XOR ucast b)"

fun crc32_loop :: "nat \<Rightarrow> nat \<Rightarrow> u8 list \<Rightarrow> u32 \<Rightarrow> u32 result" where
  "crc32_loop 0 i data crc = Inr crc"
| "crc32_loop (Suc n) i data crc =
     then_do (load_at data i) (\<lambda>b. crc32_loop n (Suc i) data (crc32_step b crc))"

definition crc32_compute :: "u8 list \<Rightarrow> u32 \<Rightarrow> u32 option \<Rightarrow> u32 result" where
  "crc32_compute data data_size p_crc =
     then_do (crc32_loop (unat data_size) 0 data (case p_crc of None \<Rightarrow> 0xFFFFFFFF | Some c \<Rightarrow> NOT c))
       (\<lambda>crc. Inr (NOT crc))"

text \<open>The loops are folds over the bytes.\<close>

lemma crc16_loop_fold:
  "i + n \<le> length data \<Longrightarrow> crc16_loop n i data crc = Inr (fold crc16_step (take n (drop i data)) crc)"
proof (induction n arbitrary: i crc)
  case (Suc n)
  then have "take (Suc n) (drop i data) = data ! i # take n (drop (Suc i) data)"
    by (simp add: Cons_nth_drop_Suc [symmetric])
  with Suc show ?case by (simp add: load_at_def)
qed simp

lemma crc32_loop_fold:
  "i + n \<le> length data \<Longrightarrow> crc32_loop n i data crc = Inr (fold crc32_step (take n (drop i data)) crc)"
proof (induction n arbitrary: i crc)
  case (Suc n)
  then have "take (Suc n) (drop i data) = data ! i # take n (drop (Suc i) data)"
    by (simp add: Cons_nth_drop_Suc [symmetric])
  with Suc show ?case by (simp add: load_at_def)
qed simp

lemma crc16_compute_fold:
  "length data = unat n \<Longrightarrow> crc16_compute data n c =
     Inr (fold crc16_step data (case c of None \<Rightarrow> 0xFFFF | Some x \<Rightarrow> x))"
  by (simp add: crc16_compute_def crc16_loop_fold)

lemma crc32_compute_fold:
  "length data = unat n \<Longrightarrow> crc32_compute data n c =
     Inr (NOT (fold crc32_step data (case c of None \<Rightarrow> 0xFFFFFFFF | Some x \<Rightarrow> NOT x)))"
  by (simp add: crc32_compute_def crc32_loop_fold)

section \<open>Linear functions on words\<close>

definition linear_xor :: "('a::len word \<Rightarrow> 'b::len word) \<Rightarrow> bool" where
  "linear_xor f \<longleftrightarrow> (\<forall>x y. f (x XOR y) = f x XOR f y)"

lemma linear_xorI: "(\<And>x y. f (x XOR y) = f x XOR f y) \<Longrightarrow> linear_xor f"
  by (simp add: linear_xor_def)

lemma linear_xor_0: "linear_xor f \<Longrightarrow> f 0 = 0"
  by (metis linear_xor_def xor_self_eq)

lemma linear_xor_compose: "linear_xor f \<Longrightarrow> linear_xor g \<Longrightarrow> linear_xor (\<lambda>x. f (g x))"
  by (simp add: linear_xor_def)

lemma linear_xor_funpow: "linear_xor (f :: 'a::len word \<Rightarrow> 'a word) \<Longrightarrow> linear_xor (f ^^ n)"
  by (induction n) (simp_all add: linear_xor_def)

lemma linear_xor_add: "linear_xor f \<Longrightarrow> linear_xor g \<Longrightarrow> linear_xor (\<lambda>x. f x XOR g x)"
  by (simp add: linear_xor_def ac_simps)

lemma take_bit_Suc_xor:
  "take_bit (Suc n) x = take_bit n x XOR (if bit x n then push_bit n 1 else 0 :: 'a::len word)"
  by (rule bit_word_eqI) (auto simp: bit_simps less_Suc_eq)

text \<open>Two linear functions that agree on the powers of two agree.\<close>

lemma linear_xor_eqI:
  fixes f g :: "'a::len word \<Rightarrow> 'b::len word"
  assumes "linear_xor f" and "linear_xor g" and "\<And>i. i < LENGTH('a) \<Longrightarrow> f (push_bit i 1) = g (push_bit i 1)"
  shows "f x = g x"
proof -
  have "n \<le> LENGTH('a) \<Longrightarrow> f (take_bit n x) = g (take_bit n x)" for n
  proof (induction n)
    case 0
    then show ?case by (simp add: linear_xor_0 [OF assms(1)] linear_xor_0 [OF assms(2)])
  next
    case (Suc n)
    have h: "h (take_bit (Suc n) x) = h (take_bit n x) XOR (if bit x n then h (push_bit n 1) else 0)"
      if "linear_xor h" for h :: "'a word \<Rightarrow> 'b word"
      using that linear_xor_0 [OF that] unfolding take_bit_Suc_xor linear_xor_def by simp
    show ?case unfolding h [OF assms(1)] h [OF assms(2)] using Suc assms(3) [of n] by simp
  qed
  from this [of "LENGTH('a)"] show ?thesis by simp
qed

section \<open>CRC-16 is CRC-CCITT\<close>

definition ccitt_shift :: "u16 \<Rightarrow> u16" where
  "ccitt_shift crc = push_bit 1 crc XOR (if bit crc 15 then 0x1021 else 0)"

definition ccitt_byte :: "u8 \<Rightarrow> u16 \<Rightarrow> u16" where
  "ccitt_byte b crc = (ccitt_shift ^^ 8) (crc XOR push_bit 8 (ucast b))"

definition crc16_mix :: "u16 \<Rightarrow> u16" where
  "crc16_mix = crc16_step 0"

lemma linear_ccitt: "linear_xor (ccitt_shift ^^ 8)"
proof (rule linear_xor_funpow, rule linear_xorI)
  fix x y :: u16
  show "ccitt_shift (x XOR y) = ccitt_shift x XOR ccitt_shift y"
    by (rule bit_word_eqI) (auto simp: ccitt_shift_def bit_simps)
qed

lemma crc16_step_split: "crc16_step b crc = crc16_mix (crc XOR push_bit 8 (ucast b))"
proof -
  have "(ucast (ucast (drop_bit 8 crc) :: u8) OR push_bit 8 crc) XOR ucast b =
      (ucast (ucast (drop_bit 8 (crc XOR push_bit 8 (ucast b))) :: u8)
        OR push_bit 8 (crc XOR push_bit 8 (ucast b)) :: u16)"
    by (rule bit_word_eqI) (auto simp: bit_simps dest: bit_imp_le_length)
  then show ?thesis by (simp only: crc16_step_def crc16_mix_def Let_def ucast_0 xor.right_neutral)
qed

lemma linear_crc16_mix: "linear_xor crc16_mix"
proof -
  define s0 where "s0 x = (ucast (ucast (drop_bit 8 x) :: u8) OR push_bit 8 x)" for x :: u16
  define s1 where "s1 x = x XOR (ucast (drop_bit 4 (ucast (x AND 0xFF) :: u8)))" for x :: u16
  define s2 where "s2 x = x XOR push_bit 4 (push_bit 8 x)" for x :: u16
  define s3 where "s3 x = x XOR push_bit 1 (push_bit 4 (x AND 0xFF))" for x :: u16
  have "linear_xor s0" "linear_xor s1" "linear_xor s2" "linear_xor s3"
    by (rule linear_xorI, rule bit_word_eqI,
        auto simp: s0_def s1_def s2_def s3_def bit_simps dest: bit_imp_le_length)+
  moreover have "crc16_mix x = s3 (s2 (s1 (s0 x)))" for x
    by (simp add: crc16_mix_def crc16_step_def Let_def s0_def s1_def s2_def s3_def)
  ultimately show ?thesis by (simp add: linear_xor_def)
qed

lemma funpow_8: "(f ^^ 8) x = f (f (f (f (f (f (f (f x)))))))"
  by (simp add: eval_nat_numeral)

lemma crc16_mix_basis: "i < 16 \<Longrightarrow> crc16_mix (push_bit i 1) = (ccitt_shift ^^ 8) (push_bit i 1)"
proof -
  assume "i < 16"
  then have "i \<in> {0, 1, 2, 3, 4, 5, 6, 7, 8, 9, 10, 11, 12, 13, 14, 15}" by (simp, presburger)
  then show ?thesis
    by (elim insertE emptyE; hypsubst) (simp_all add: funpow_8 ccitt_shift_def crc16_mix_def crc16_step_def)
qed

lemma crc16_step_ccitt: "crc16_step b crc = ccitt_byte b crc"
proof -
  have "crc16_mix x = (ccitt_shift ^^ 8) x" for x
    by (rule linear_xor_eqI [OF linear_crc16_mix linear_ccitt]) (simp add: crc16_mix_basis del: push_bit_of_1)
  then show ?thesis by (simp add: crc16_step_split ccitt_byte_def)
qed

section \<open>Both checksums detect a changed byte\<close>

lemma inj_fold: "(\<And>b. inj (f b)) \<Longrightarrow> inj (fold f bs)"
proof (induction bs)
  case (Cons b bs)
  then have "inj (fold f bs \<circ> f b)" by (simp add: inj_compose)
  then show ?case by (simp add: comp_def)
qed simp

text \<open>A checksum whose every step can be undone, in the checksum and in the byte, tells messages apart that differ in one byte.\<close>

lemma fold_one_byte_neq:
  assumes "\<And>b. inj (f b)" and "\<And>c. inj (\<lambda>b. f b c)" and "x \<noteq> y"
  shows "fold f (bs @ x # cs) c \<noteq> fold f (bs @ y # cs) c"
proof -
  have "f x (fold f bs c) \<noteq> f y (fold f bs c)"
    using assms(2) [of "fold f bs c"] assms(3) by (auto dest: injD)
  then show ?thesis using inj_fold [of f cs, OF assms(1)] by (auto dest: injD)
qed

lemma xor_right_cancel: "x XOR c = y XOR c \<longleftrightarrow> x = (y :: 'a::len word)"
  by (metis xor.assoc xor.right_neutral xor_self_eq)

lemma inj_xor: "inj (\<lambda>x :: 'a::len word. x XOR c)"
  by (rule injI) (simp add: xor_right_cancel)

lemma inj_ccitt_shift: "inj ccitt_shift"
proof (rule injI)
  fix x y assume e: "ccitt_shift x = ccitt_shift y"
  have "bit x 15 = bit y 15"
  proof -
    have "bit (ccitt_shift z) 0 = bit z 15" for z
      by (simp add: ccitt_shift_def bit_xor_iff bit_push_bit_iff bit_0 even_xor_iff)
    then show ?thesis using e by metis
  qed
  with e have p: "push_bit 1 x = push_bit 1 y"
    by (auto simp: ccitt_shift_def xor_right_cancel split: if_splits)
  show "x = y"
  proof (rule bit_word_eqI)
    fix n assume "n < LENGTH(16)"
    then consider "n = 15" | "Suc n < 16" by fastforce
    then show "bit x n = bit y n"
    proof cases
      case 2
      have "bit (push_bit 1 x) (Suc n) = bit (push_bit 1 y) (Suc n)" by (simp only: p)
      then show ?thesis using 2 by (simp only: bit_push_bit_iff) simp
    qed (simp add: \<open>bit x 15 = bit y 15\<close>)
  qed
qed

lemma inj_crc32_shift: "inj crc32_shift"
proof (rule injI)
  fix x y assume e: "crc32_shift x = crc32_shift y"
  have top: "bit (crc32_shift z) 31 = bit z 0" for z
    using bit_imp_le_length [of z 32] by (auto simp: crc32_shift_def bit_xor_iff bit_drop_bit_eq bit_and_iff and_one_eq bit_0 mod2_eq_if)
  then have b0: "bit x 0 = bit y 0" using e by metis
  have "x AND 1 = y AND 1" using b0 by (simp add: and_one_eq mod2_eq_if bit_0)
  with e have d: "drop_bit 1 x = drop_bit 1 y"
    by (simp only: crc32_shift_def xor_right_cancel)
  show "x = y"
  proof (rule bit_word_eqI)
    fix n assume "n < LENGTH(32)"
    show "bit x n = bit y n"
    proof (cases n)
      case (Suc m)
      have "bit (drop_bit 1 x) m = bit (drop_bit 1 y) m" using d by simp
      then show ?thesis using Suc by (simp add: bit_simps)
    qed (simp add: b0)
  qed
qed

lemma inj_funpow: "inj (f :: 'a \<Rightarrow> 'a) \<Longrightarrow> inj (f ^^ n)"
proof (induction n)
  case (Suc n)
  then have "inj (f \<circ> f ^^ n)" by (simp add: inj_compose)
  then show ?case by (simp add: comp_def)
qed simp

lemma inj_crc16_step: "inj (crc16_step b)" "inj (\<lambda>b. crc16_step b c)"
proof -
  have i: "inj (ccitt_shift ^^ 8)" by (rule inj_funpow [OF inj_ccitt_shift])
  show "inj (crc16_step b)"
    using inj_compose [OF i inj_xor [of "push_bit 8 (ucast b)"]]
    by (simp add: crc16_step_ccitt [abs_def] ccitt_byte_def comp_def)
  have j: "inj (\<lambda>b :: u8. push_bit 8 (ucast b) :: u16)"
  proof (rule injI, rule bit_word_eqI)
    fix x y :: u8 and n assume e: "push_bit 8 (ucast x) = (push_bit 8 (ucast y) :: u16)" and n: "n < LENGTH(8)"
    have "bit (push_bit 8 (ucast x) :: u16) (n + 8) = bit (push_bit 8 (ucast y) :: u16) (n + 8)" using e by simp
    then show "bit x n = bit y n" using n by (simp add: bit_simps)
  qed
  show "inj (\<lambda>b. crc16_step b c)"
    using inj_compose [OF i inj_compose [OF inj_xor [of c] j]]
    by (simp add: crc16_step_ccitt ccitt_byte_def comp_def xor.commute)
qed

lemma inj_crc32_step: "inj (crc32_step b)" "inj (\<lambda>b. crc32_step b c)"
proof -
  have i: "inj (crc32_shift ^^ 8)" by (rule inj_funpow [OF inj_crc32_shift])
  show "inj (crc32_step b)"
    using inj_compose [OF i inj_xor [of "ucast b"]] by (simp add: crc32_step_def [abs_def] comp_def)
  have j: "inj (ucast :: u8 \<Rightarrow> u32)" by (rule injI) (simp add: word_eq_iff_unsigned [where 'a = nat] unsigned_ucast_eq)
  show "inj (\<lambda>b. crc32_step b c)"
    using inj_compose [OF i inj_compose [OF inj_xor [of c] j]]
    by (simp add: crc32_step_def comp_def xor.commute)
qed

section \<open>The properties\<close>

text \<open>
  C26. crc16_compute, which handles a byte with shifts of whole bytes and nibbles, computes the bitwise CRC-CCITT
  (polynomial 0x1021, most significant bit first, start value 0xFFFF, no final XOR) of every message.
\<close>

theorem crc16_ccitt:
  assumes "length data = unat n"
  shows "crc16_compute data n c = Inr (fold ccitt_byte data (case c of None \<Rightarrow> 0xFFFF | Some x \<Rightarrow> x))"
  using assms by (cases c) (simp_all add: crc16_compute_fold crc16_step_ccitt [abs_def])

theorem crc16_ccitt_witness:
  "crc16_compute [0x31, 0x32, 0x33] 3 None = Inr (fold ccitt_byte [0x31, 0x32, 0x33] 0xFFFF)"
  using crc16_ccitt [of "[0x31, 0x32, 0x33]" 3 None] by simp

text \<open>
  Both checksums detect every change of a single byte, whatever stands before and behind it and whatever the start value is:
  the values of the two messages differ.
\<close>

theorem crc_detects:
  assumes "x \<noteq> y" and "length (bs @ x # cs) = unat n"
  shows "crc16_compute (bs @ x # cs) n c \<noteq> crc16_compute (bs @ y # cs) n c \<and>
    crc32_compute (bs @ x # cs) n d \<noteq> crc32_compute (bs @ y # cs) n d"
  using assms fold_one_byte_neq [OF inj_crc16_step assms(1)] fold_one_byte_neq [OF inj_crc32_step assms(1)]
  by (simp add: crc16_compute_fold crc32_compute_fold)

theorem crc_detects_witness:
  "crc16_compute [1, 2, 3] 3 None \<noteq> crc16_compute [1, 7, 3] 3 None \<and>
   crc32_compute [1, 2, 3] 3 None \<noteq> crc32_compute [1, 7, 3] 3 None"
  using crc_detects [of 2 7 "[1]" "[3]" 3 None None] by simp

end
