(* ===== verification/DrvUart.thy ===== *)
theory DrvUart
  imports LibCommon
begin

text \<open>
  The UART driver components/drivers_nrf/uart/nrf_drv_uart.c, in the configuration without
  EasyDMA (\<open>UART_IN_USE\<close>): control block, transfers, abort and interrupt handler. The state holds the
  control block, the registers the driver touches and the byte arrays its pointers refer to
  (\<open>d_mem\<close>, by address). It is an extensible record: the layers above add their own variables, and a callback
  is a function on the whole state.

  Pins, baud rate and the interrupt priority are not part of the state.
\<close>

unbundle bit_operations_syntax

section \<open>Control block and registers\<close>

text \<open>What one read of the event registers (and of RXD) gives while the driver polls.\<close>

record uart_events =
  at_txdrdy :: bool
  at_rxdrdy :: bool
  at_error :: bool
  at_rxto :: bool
  at_rxd :: u8

record uart_drv =
  d_initialized :: bool
  d_handler :: bool
  d_tx_buffer :: nat
  d_rx_buffer :: nat
  d_rx_secondary_buffer :: nat
  d_tx_counter :: u16
  d_tx_buffer_length :: u8
  d_rx_buffer_length :: u8
  d_rx_secondary_buffer_length :: u8
  d_rx_counter :: u8
  d_rx_enabled :: bool
  EV_TXDRDY :: bool
  EV_RXDRDY :: bool
  EV_ERROR :: bool
  EV_RXTO :: bool
  INT_TXDRDY :: bool
  INT_RXDRDY :: bool
  INT_ERROR :: bool
  INT_RXTO :: bool
  RXD :: u8
  TXD_sent :: "u8 list"
  ERRORSRC :: u32
  uart_enabled :: bool
  tx_running :: bool
  rx_running :: bool
  d_mem :: "nat \<Rightarrow> u8 list"
  hw_events :: "nat \<Rightarrow> uart_events"
  hw_reads :: nat

text \<open>The events the driver reports; \<open>p_data\<close> is an address.\<close>

datatype nrf_drv_uart_event_t =
    NRF_DRV_UART_EVT_TX_DONE u8 nat
  | NRF_DRV_UART_EVT_RX_DONE u8 nat
  | NRF_DRV_UART_EVT_ERROR u32 u8 nat

definition TX_COUNTER_ABORT_REQ_VALUE :: u16 where "TX_COUNTER_ABORT_REQ_VALUE = 256"

definition drv_call ::
    "(nrf_drv_uart_event_t \<Rightarrow> 'm uart_drv_scheme \<Rightarrow> 'm uart_drv_scheme result) \<Rightarrow>
     nrf_drv_uart_event_t \<Rightarrow> 'm uart_drv_scheme \<Rightarrow> 'm uart_drv_scheme result" where
  "drv_call h e s = (if d_handler s then h e s else Inl Null_Deref)"

text \<open>A polling loop ends at the first read that has one of the awaited events.\<close>

definition poll_until :: "(uart_events \<Rightarrow> bool) \<Rightarrow> 'm uart_drv_scheme \<Rightarrow> (uart_events \<times> 'm uart_drv_scheme) result" where
  "poll_until ev s =
     (case busy_wait (\<lambda>k. ev (hw_events s k)) (hw_reads s) of
        None \<Rightarrow> Inl Hang
      | Some k \<Rightarrow> Inr (hw_events s k, s\<lparr>hw_reads := Suc k\<rparr>))"

section \<open>Start and stop\<close>

definition interrupts_enable :: "'m uart_drv_scheme \<Rightarrow> 'm uart_drv_scheme" where
  "interrupts_enable s = s\<lparr>EV_TXDRDY := False, EV_RXTO := False, INT_TXDRDY := True, INT_RXTO := True\<rparr>"

definition interrupts_disable :: "'m uart_drv_scheme \<Rightarrow> 'm uart_drv_scheme" where
  "interrupts_disable s =
     s\<lparr>INT_RXDRDY := False, INT_TXDRDY := False, INT_ERROR := False, INT_RXTO := False\<rparr>"

definition nrf_drv_uart_init :: "bool \<Rightarrow> 'm uart_drv_scheme \<Rightarrow> ret_code \<times> 'm uart_drv_scheme" where
  "nrf_drv_uart_init event_handler s =
     (if d_initialized s then (NRF_ERROR_INVALID_STATE, s)
      else
        let s1 = s\<lparr>d_handler := event_handler\<rparr>;
            s2 = (if d_handler s1 then interrupts_enable s1 else s1)
        in (NRF_SUCCESS, s2\<lparr>uart_enabled := True, d_rx_buffer_length := 0, d_rx_secondary_buffer_length := 0,
              d_tx_buffer_length := 0, d_initialized := True, d_rx_enabled := False\<rparr>))"

definition nrf_drv_uart_uninit :: "'m uart_drv_scheme \<Rightarrow> 'm uart_drv_scheme" where
  "nrf_drv_uart_uninit s =
     (let s1 = s\<lparr>uart_enabled := False\<rparr>;
          s2 = (if d_handler s1 then interrupts_disable s1 else s1)
      in s2\<lparr>d_initialized := False, d_handler := False\<rparr>)"

section \<open>Transmission\<close>

definition tx_byte :: "'m uart_drv_scheme \<Rightarrow> 'm uart_drv_scheme result" where
  "tx_byte s =
     then_do (load_at (d_mem s (d_tx_buffer s)) (unat (d_tx_counter s))) (\<lambda>txd.
       Inr (s\<lparr>EV_TXDRDY := False, d_tx_counter := d_tx_counter s + 1, TXD_sent := TXD_sent s @ [txd]\<rparr>))"

text \<open>The polling loop of a driver without event handler; \<open>n\<close> bytes at most are left.\<close>

fun tx_poll_loop :: "nat \<Rightarrow> 'm uart_drv_scheme \<Rightarrow> 'm uart_drv_scheme result" where
  "tx_poll_loop 0 s = Inr s"
| "tx_poll_loop (Suc n) s =
     (if d_tx_counter s < ucast (d_tx_buffer_length s)
      then then_do (poll_until at_txdrdy s) (\<lambda>(e, s1).
           then_do (if d_tx_counter s1 \<noteq> TX_COUNTER_ABORT_REQ_VALUE then tx_byte s1 else Inr s1) (\<lambda>s2.
           tx_poll_loop n s2))
      else Inr s)"

definition nrf_drv_uart_tx_for_uart :: "'m uart_drv_scheme \<Rightarrow> (ret_code \<times> 'm uart_drv_scheme) result" where
  "nrf_drv_uart_tx_for_uart s =
     then_do (tx_byte (s\<lparr>EV_TXDRDY := False, tx_running := True\<rparr>)) (\<lambda>s1.
       if d_handler s1 then Inr (NRF_SUCCESS, s1)
       else
         then_do (tx_poll_loop 255 s1) (\<lambda>s2.
         if d_tx_counter s2 = TX_COUNTER_ABORT_REQ_VALUE
         then Inr (NRF_ERROR_FORBIDDEN, s2\<lparr>d_tx_buffer_length := 0\<rparr>)
         else then_do (poll_until at_txdrdy s2) (\<lambda>(e, s3).
           Inr (NRF_SUCCESS, s3\<lparr>tx_running := False, d_tx_buffer_length := 0\<rparr>))))"

definition nrf_drv_uart_tx_in_progress :: "'m uart_drv_scheme \<Rightarrow> bool" where
  "nrf_drv_uart_tx_in_progress s \<longleftrightarrow> d_tx_buffer_length s \<noteq> 0"

definition nrf_drv_uart_tx :: "nat \<Rightarrow> u8 \<Rightarrow> 'm uart_drv_scheme \<Rightarrow> (ret_code \<times> 'm uart_drv_scheme) result" where
  "nrf_drv_uart_tx p_data len s =
     (if nrf_drv_uart_tx_in_progress s then Inr (NRF_ERROR_BUSY, s)
      else nrf_drv_uart_tx_for_uart
             (s\<lparr>d_tx_buffer_length := len, d_tx_buffer := p_data, d_tx_counter := 0\<rparr>))"

section \<open>Reception\<close>

definition uart_rx_enable :: "'m uart_drv_scheme \<Rightarrow> 'm uart_drv_scheme" where
  "uart_rx_enable s = s\<lparr>EV_ERROR := False, EV_RXDRDY := False, rx_running := True\<rparr>"

text \<open>A byte that arrives while no buffer is set is lost.\<close>

definition rx_byte :: "u8 \<Rightarrow> 'm uart_drv_scheme \<Rightarrow> 'm uart_drv_scheme result" where
  "rx_byte rxd s =
     (if d_rx_buffer_length s = 0 then Inr (s\<lparr>EV_RXDRDY := False\<rparr>)
      else then_do (store_at (d_mem s (d_rx_buffer s)) (unat (d_rx_counter s)) rxd) (\<lambda>buf.
        Inr (s\<lparr>EV_RXDRDY := False, d_mem := (d_mem s)(d_rx_buffer s := buf), d_rx_counter := d_rx_counter s + 1\<rparr>)))"

fun rx_poll_loop :: "nat \<Rightarrow> 'm uart_drv_scheme \<Rightarrow> (uart_events \<times> 'm uart_drv_scheme) result" where
  "rx_poll_loop 0 s = Inl Hang"
| "rx_poll_loop (Suc n) s =
     then_do (poll_until (\<lambda>e. at_rxdrdy e \<or> at_rxto e \<or> at_error e) s) (\<lambda>(e, s1).
       if at_error e \<or> at_rxto e then Inr (e, s1)
       else then_do (rx_byte (at_rxd e) s1) (\<lambda>s2.
         if d_rx_counter s2 < d_rx_buffer_length s2 then rx_poll_loop n s2 else Inr (e, s2)))"

definition nrf_drv_uart_rx_for_uart :: "bool \<Rightarrow> 'm uart_drv_scheme \<Rightarrow> (ret_code \<times> 'm uart_drv_scheme) result" where
  "nrf_drv_uart_rx_for_uart second_buffer s =
     (let s1 = (if \<not> d_rx_enabled s \<and> \<not> second_buffer then uart_rx_enable s else s)
      in if d_handler s1 then Inr (NRF_SUCCESS, s1\<lparr>INT_RXDRDY := True, INT_ERROR := True\<rparr>)
         else then_do (rx_poll_loop 256 (s1\<lparr>EV_RXTO := False\<rparr>)) (\<lambda>(e, s2).
           let s3 = s2\<lparr>d_rx_buffer_length := 0\<rparr>
           in if at_error e then Inr (NRF_ERROR_INTERNAL, s3)
              else if at_rxto e then Inr (NRF_ERROR_FORBIDDEN, s3)
              else Inr (NRF_SUCCESS, s3\<lparr>rx_running := d_rx_enabled s3\<rparr>)))"

definition nrf_drv_uart_rx :: "nat \<Rightarrow> u8 \<Rightarrow> 'm uart_drv_scheme \<Rightarrow> (ret_code \<times> 'm uart_drv_scheme) result" where
  "nrf_drv_uart_rx p_data len s =
     (let s1 = (if d_handler s then s\<lparr>INT_RXDRDY := False, INT_ERROR := False\<rparr> else s)
      in if d_rx_buffer_length s1 \<noteq> 0 \<and> d_rx_secondary_buffer_length s1 \<noteq> 0
         then Inr (NRF_ERROR_BUSY,
                if d_handler s1 then s1\<lparr>INT_RXDRDY := True, INT_ERROR := True\<rparr> else s1)
         else if d_rx_buffer_length s1 \<noteq> 0
         then nrf_drv_uart_rx_for_uart True
                (s1\<lparr>d_rx_secondary_buffer := p_data, d_rx_secondary_buffer_length := len\<rparr>)
         else nrf_drv_uart_rx_for_uart False
                (s1\<lparr>d_rx_buffer_length := len, d_rx_buffer := p_data, d_rx_counter := 0,
                   d_rx_secondary_buffer_length := 0\<rparr>))"

definition nrf_drv_uart_rx_enable :: "'m uart_drv_scheme \<Rightarrow> 'm uart_drv_scheme" where
  "nrf_drv_uart_rx_enable s = (if d_rx_enabled s then s else (uart_rx_enable s)\<lparr>d_rx_enabled := True\<rparr>)"

definition nrf_drv_uart_rx_disable :: "'m uart_drv_scheme \<Rightarrow> 'm uart_drv_scheme" where
  "nrf_drv_uart_rx_disable s = s\<lparr>rx_running := False, d_rx_enabled := False\<rparr>"

definition nrf_drv_uart_errorsrc_get :: "'m uart_drv_scheme \<Rightarrow> u32 \<times> 'm uart_drv_scheme" where
  "nrf_drv_uart_errorsrc_get s = (ERRORSRC s, s\<lparr>EV_ERROR := False, ERRORSRC := 0\<rparr>)"

section \<open>Events, abort and interrupt handler\<close>

type_synonym 'm drv_handler = "nrf_drv_uart_event_t \<Rightarrow> 'm uart_drv_scheme \<Rightarrow> 'm uart_drv_scheme result"

definition rx_done_event :: "'m drv_handler \<Rightarrow> u8 \<Rightarrow> nat \<Rightarrow> 'm uart_drv_scheme \<Rightarrow> 'm uart_drv_scheme result" where
  "rx_done_event h bytes p_data s = drv_call h (NRF_DRV_UART_EVT_RX_DONE bytes p_data) s"

definition tx_done_event :: "'m drv_handler \<Rightarrow> u8 \<Rightarrow> 'm uart_drv_scheme \<Rightarrow> 'm uart_drv_scheme result" where
  "tx_done_event h bytes s =
     drv_call h (NRF_DRV_UART_EVT_TX_DONE bytes (d_tx_buffer s)) (s\<lparr>d_tx_buffer_length := 0\<rparr>)"

definition nrf_drv_uart_tx_abort :: "'m drv_handler \<Rightarrow> 'm uart_drv_scheme \<Rightarrow> 'm uart_drv_scheme result" where
  "nrf_drv_uart_tx_abort h s =
     (let s1 = s\<lparr>tx_running := False\<rparr>
      in if d_handler s1 then tx_done_event h (ucast (d_tx_counter s1)) s1
         else Inr (s1\<lparr>d_tx_counter := TX_COUNTER_ABORT_REQ_VALUE\<rparr>))"

definition nrf_drv_uart_rx_abort :: "'m uart_drv_scheme \<Rightarrow> 'm uart_drv_scheme" where
  "nrf_drv_uart_rx_abort s = s\<lparr>INT_RXDRDY := False, INT_ERROR := False, rx_running := False\<rparr>"

definition irq_error :: "'m drv_handler \<Rightarrow> 'm uart_drv_scheme \<Rightarrow> 'm uart_drv_scheme result" where
  "irq_error h s =
     (let s1 = s\<lparr>EV_ERROR := False, INT_RXDRDY := False, INT_ERROR := False\<rparr>;
          s2 = (if d_rx_enabled s1 then s1 else s1\<lparr>rx_running := False\<rparr>)
      in drv_call h (NRF_DRV_UART_EVT_ERROR (ERRORSRC s2) (d_rx_buffer_length s2) (d_rx_buffer s2))
           (s2\<lparr>ERRORSRC := 0, d_rx_buffer_length := 0, d_rx_secondary_buffer_length := 0\<rparr>))"

definition irq_rxdrdy :: "'m drv_handler \<Rightarrow> 'm uart_drv_scheme \<Rightarrow> 'm uart_drv_scheme result" where
  "irq_rxdrdy h s =
     then_do (rx_byte (RXD s) s) (\<lambda>s1.
       if d_rx_buffer_length s1 = d_rx_counter s1
       then
         if d_rx_secondary_buffer_length s1 \<noteq> 0
         then rx_done_event h (d_rx_counter s1) (d_rx_buffer s1)
                (s1\<lparr>d_rx_buffer_length := d_rx_secondary_buffer_length s1, d_rx_buffer := d_rx_secondary_buffer s1,
                   d_rx_secondary_buffer_length := 0, d_rx_counter := 0\<rparr>)
         else
           let s2 = (if d_rx_enabled s1 then s1 else s1\<lparr>rx_running := False\<rparr>)
           in rx_done_event h (d_rx_counter s2) (d_rx_buffer s2)
                (s2\<lparr>INT_RXDRDY := False, INT_ERROR := False, d_rx_buffer_length := 0\<rparr>)
       else Inr s1)"

definition irq_txdrdy :: "'m drv_handler \<Rightarrow> 'm uart_drv_scheme \<Rightarrow> 'm uart_drv_scheme result" where
  "irq_txdrdy h s =
     (if d_tx_counter s < ucast (d_tx_buffer_length s) then tx_byte s
      else
        let s1 = s\<lparr>EV_TXDRDY := False\<rparr>
        in if d_tx_buffer_length s1 \<noteq> 0 then tx_done_event h (d_tx_buffer_length s1) s1 else Inr s1)"

definition irq_rxto :: "'m drv_handler \<Rightarrow> 'm uart_drv_scheme \<Rightarrow> 'm uart_drv_scheme result" where
  "irq_rxto h s =
     (let s1 = s\<lparr>EV_RXTO := False\<rparr>;
          s2 = (if d_rx_enabled s1 then s1\<lparr>rx_running := True\<rparr> else s1)
      in if d_rx_buffer_length s2 \<noteq> 0
         then rx_done_event h (d_rx_counter s2) (d_rx_buffer s2) (s2\<lparr>d_rx_buffer_length := 0\<rparr>)
         else Inr s2)"

definition uart_irq_handler :: "'m drv_handler \<Rightarrow> 'm uart_drv_scheme \<Rightarrow> 'm uart_drv_scheme result" where
  "uart_irq_handler h s =
     then_do (if INT_ERROR s \<and> EV_ERROR s then irq_error h s
              else if INT_RXDRDY s \<and> EV_RXDRDY s then irq_rxdrdy h s
              else Inr s) (\<lambda>s1.
     then_do (if EV_TXDRDY s1 then irq_txdrdy h s1 else Inr s1) (\<lambda>s2.
     if EV_RXTO s2 then irq_rxto h s2 else Inr s2))"

section \<open>A transfer that is driven by interrupts\<close>

text \<open>The hardware has sent a byte: TXDRDY is set and the interrupt is served; no other event is pending.\<close>

definition irq_pending :: "'m uart_drv_scheme \<Rightarrow> bool" where
  "irq_pending s \<longleftrightarrow> INT_ERROR s \<and> EV_ERROR s \<or> INT_RXDRDY s \<and> EV_RXDRDY s \<or> EV_RXTO s"

definition txdrdy :: "'m drv_handler \<Rightarrow> 'm uart_drv_scheme \<Rightarrow> 'm uart_drv_scheme result" where
  "txdrdy h s = uart_irq_handler h (s\<lparr>EV_TXDRDY := True\<rparr>)"

text \<open>A byte arrives: it is in RXD and the interrupt is served.\<close>

definition rxdrdy :: "'m drv_handler \<Rightarrow> u8 \<Rightarrow> 'm uart_drv_scheme \<Rightarrow> 'm uart_drv_scheme result" where
  "rxdrdy h b s = uart_irq_handler h (s\<lparr>RXD := b, EV_RXDRDY := True\<rparr>)"

text \<open>What the interrupt handler does after it has served a receive event.\<close>

definition irq_rest :: "'m drv_handler \<Rightarrow> 'm uart_drv_scheme \<Rightarrow> 'm uart_drv_scheme result" where
  "irq_rest h s = then_do (if EV_TXDRDY s then irq_txdrdy h s else Inr s) (\<lambda>t.
     if EV_RXTO t then irq_rxto h t else Inr t)"

text \<open>\<open>n\<close> such interrupts.\<close>

definition txdrdys :: "'m drv_handler \<Rightarrow> nat \<Rightarrow> 'm uart_drv_scheme \<Rightarrow> 'm uart_drv_scheme result" where
  "txdrdys h n = for_each (\<lambda>_. txdrdy h) [0..<n]"

lemma txdrdys_simps [simp]:
  "txdrdys h 0 s = Inr s"
  "txdrdys h (Suc n) s = then_do (txdrdys h n s) (txdrdy h)"
  by (simp_all add: txdrdys_def for_each_append then_do_def split: sum.split)

text \<open>\<open>k\<close> bytes of the transfer have been written to TXD.\<close>

definition tx_progress :: "u8 list \<Rightarrow> nat \<Rightarrow> nat \<Rightarrow> u8 \<Rightarrow> nat \<Rightarrow> 'm uart_drv_scheme \<Rightarrow> bool" where
  "tx_progress before p n len k s \<longleftrightarrow> d_handler s \<and> \<not> irq_pending s \<and> d_tx_buffer s = p \<and>
     d_tx_buffer_length s = len \<and> unat len = n \<and> unat (d_tx_counter s) = k \<and> k \<le> n \<and> n \<le> length (d_mem s p) \<and>
     TXD_sent s = before @ take k (d_mem s p)"

lemma tx_byte_progress:
  assumes "tx_progress before p n len k s" and "k < n"
  shows "ok (tx_byte s) (\<lambda>t. tx_progress before p n len (Suc k) t \<and> d_mem t = d_mem s)"
proof -
  have "n < 256" using assms(1) unat_less [of len] by (simp add: tx_progress_def)
  then have "unat (d_tx_counter s + 1) = Suc k"
    using assms by (simp add: tx_progress_def unat_word_ariths)
  with assms show ?thesis
    by (simp add: tx_byte_def tx_progress_def irq_pending_def take_Suc_conv_app_nth)
qed

lemma uart_tx_start:
  assumes "d_handler s" and "d_tx_buffer_length s = 0" and "\<not> irq_pending s"
    and "len \<noteq> 0" and "unat len \<le> length (d_mem s p)"
  shows "ok (nrf_drv_uart_tx p len s) (\<lambda>(r, t). r = NRF_SUCCESS \<and>
    tx_progress (TXD_sent s) p (unat len) len 1 t \<and> d_mem t = d_mem s)"
proof -
  let ?s = "s\<lparr>d_tx_buffer_length := len, d_tx_buffer := p, d_tx_counter := 0, EV_TXDRDY := False, tx_running := True\<rparr>"
  have "0 < unat len" using assms(4) by (simp add: unat_gt_0)
  then have "ok (tx_byte ?s) (\<lambda>t. tx_progress (TXD_sent s) p (unat len) len (Suc 0) t \<and> d_mem t = d_mem ?s)"
    using assms by (intro tx_byte_progress) (simp_all add: tx_progress_def irq_pending_def)
  then show ?thesis using assms(2)
    by (auto simp: nrf_drv_uart_tx_def nrf_drv_uart_tx_in_progress_def nrf_drv_uart_tx_for_uart_def tx_progress_def
        elim!: ok_mono)
qed

lemma txdrdy_progress:
  assumes "tx_progress before p n len k s" and "k < n"
  shows "ok (txdrdy h s) (\<lambda>t. tx_progress before p n len (Suc k) t \<and> d_mem t = d_mem s)"
proof -
  let ?s = "s\<lparr>EV_TXDRDY := True\<rparr>"
  have p: "tx_progress before p n len k ?s" using assms(1) by (simp add: tx_progress_def irq_pending_def)
  have "d_tx_counter ?s < ucast (d_tx_buffer_length ?s)"
    using assms by (simp add: tx_progress_def word_less_nat_alt)
  then show ?thesis
    using tx_byte_progress [OF p assms(2)] p
    by (auto simp: txdrdy_def uart_irq_handler_def irq_txdrdy_def tx_progress_def irq_pending_def elim!: ok_mono)
qed

lemma txdrdys_progress:
  "tx_progress before p n len 1 s \<Longrightarrow> k < n \<Longrightarrow>
   ok (txdrdys h k s) (\<lambda>t. tx_progress before p n len (Suc k) t \<and> d_mem t = d_mem s)"
proof (induction k)
  case (Suc k)
  then obtain u where u: "txdrdys h k s = Inr u" "tx_progress before p n len (Suc k) u" "d_mem u = d_mem s"
    by (auto simp: ok_iff)
  then show ?case using txdrdy_progress [OF u(2) Suc.prems(2), of h] by simp
qed simp

text \<open>The interrupt after the last byte reports the transfer.\<close>

lemma txdrdy_done:
  assumes "tx_progress before p n len n s" and "0 < n"
  shows "txdrdy h s = then_do (h (NRF_DRV_UART_EVT_TX_DONE len p) (s\<lparr>EV_TXDRDY := False, d_tx_buffer_length := 0\<rparr>))
      (\<lambda>u. if EV_RXTO u then irq_rxto h u else Inr u)"
proof -
  have "\<not> d_tx_counter s < ucast (d_tx_buffer_length s)" "d_tx_buffer_length s \<noteq> 0"
    using assms by (auto simp: tx_progress_def word_less_nat_alt)
  then show ?thesis
    using assms(1)
    by (auto simp: txdrdy_def uart_irq_handler_def irq_txdrdy_def tx_done_event_def drv_call_def tx_progress_def
        irq_pending_def)
qed

text \<open>
  A transfer of the UART driver that is driven by interrupts writes the bytes of the buffer to TXD, each once
  and in order, and the interrupt after the last one reports the whole transfer to the event handler, with the driver free
  for the next transfer already.
\<close>

theorem uart_sends:
  assumes "d_handler s" and "d_tx_buffer_length s = 0" and "\<not> irq_pending s"
    and "len \<noteq> 0" and "unat len \<le> length (d_mem s p)"
  shows "ok (nrf_drv_uart_tx p len s) (\<lambda>(r, t). r = NRF_SUCCESS \<and>
    ok (txdrdys h (unat len - 1) t) (\<lambda>u. TXD_sent u = TXD_sent s @ take (unat len) (d_mem s p) \<and>
      (\<exists>v. d_tx_buffer_length v = 0 \<and> TXD_sent v = TXD_sent u \<and>
        txdrdy h u = then_do (h (NRF_DRV_UART_EVT_TX_DONE len p) v) (\<lambda>w. if EV_RXTO w then irq_rxto h w else Inr w))))"
proof -
  have n: "0 < unat len" using assms(4) by (simp add: unat_gt_0)
  obtain t where t: "nrf_drv_uart_tx p len s = Inr (NRF_SUCCESS, t)" "tx_progress (TXD_sent s) p (unat len) len 1 t"
    "d_mem t = d_mem s" using uart_tx_start [OF assms] by (auto simp: ok_iff)
  obtain u where u: "txdrdys h (unat len - 1) t = Inr u" "tx_progress (TXD_sent s) p (unat len) len (unat len) u"
    "d_mem u = d_mem s" using txdrdys_progress [OF t(2), of "unat len - 1" h] n t(3) by (auto simp: ok_iff)
  let ?v = "u\<lparr>EV_TXDRDY := False, d_tx_buffer_length := 0\<rparr>"
  have "TXD_sent u = TXD_sent s @ take (unat len) (d_mem s p)" using u(2,3) by (simp add: tx_progress_def)
  then show ?thesis
    using txdrdy_done [OF u(2) n, of h] u(1) by (auto simp: t(1) intro!: exI [of _ ?v])
qed

text \<open>A driver that has just been initialised, with two bytes to send; the event handler does nothing.\<close>

definition sample_uart :: uart_drv where
  "sample_uart = \<lparr>d_initialized = True, d_handler = True, d_tx_buffer = 0, d_rx_buffer = 0, d_rx_secondary_buffer = 0,
     d_tx_counter = 0, d_tx_buffer_length = 0, d_rx_buffer_length = 0, d_rx_secondary_buffer_length = 0, d_rx_counter = 0,
     d_rx_enabled = False, EV_TXDRDY = False, EV_RXDRDY = False, EV_ERROR = False, EV_RXTO = False,
     INT_TXDRDY = True, INT_RXDRDY = False, INT_ERROR = False, INT_RXTO = True, RXD = 0, TXD_sent = [],
     ERRORSRC = 0, uart_enabled = True, tx_running = False, rx_running = False, d_mem = (\<lambda>a. [0x41, 0x42]),
     hw_events = (\<lambda>k. \<lparr>at_txdrdy = False, at_rxdrdy = False, at_error = False, at_rxto = False, at_rxd = 0\<rparr>),
     hw_reads = 0\<rparr>"

theorem uart_sends_witness:
  "ok (nrf_drv_uart_tx 0 2 sample_uart) (\<lambda>(r, t). r = NRF_SUCCESS \<and>
     ok (txdrdys (\<lambda>e. Inr) 1 t) (\<lambda>u. TXD_sent u = [0x41, 0x42]))"
  using uart_sends [of sample_uart 2 0 "\<lambda>e. Inr"]
  by (auto simp: sample_uart_def irq_pending_def elim!: ok_mono)

end
