(* ===== verification/AppUart.thy ===== *)
theory AppUart
  imports DrvUart
begin

text \<open>
  The byte-wise UART module components/libraries/uart/app_uart.c (the one without FIFOs), on top of the driver.
  \<open>UART_TX_BUF\<close> and \<open>UART_RX_BUF\<close> are the addresses of its two one-byte buffers.
\<close>

section \<open>State and events\<close>

record app_uart = uart_drv +
  au_event_handler :: bool
  au_rx_done :: bool

definition UART_TX_BUF :: nat where "UART_TX_BUF = 0"
definition UART_RX_BUF :: nat where "UART_RX_BUF = 1"

datatype app_uart_evt_t =
    APP_UART_DATA_READY
  | APP_UART_FIFO_ERROR ret_code
  | APP_UART_COMMUNICATION_ERROR u32
  | APP_UART_TX_EMPTY
  | APP_UART_DATA u8

type_synonym 'm app_uart_event_handler_t = "app_uart_evt_t \<Rightarrow> 'm app_uart_scheme \<Rightarrow> 'm app_uart_scheme result"

definition uart_call :: "'m app_uart_event_handler_t \<Rightarrow> app_uart_evt_t \<Rightarrow> 'm app_uart_scheme \<Rightarrow> 'm app_uart_scheme result" where
  "uart_call h e s = (if au_event_handler s then h e s else Inl Null_Deref)"

fun uart_event_handler ::
    "'m app_uart_event_handler_t \<Rightarrow> nrf_drv_uart_event_t \<Rightarrow> 'm app_uart_scheme \<Rightarrow> 'm app_uart_scheme result" where
  "uart_event_handler h (NRF_DRV_UART_EVT_RX_DONE bytes p_data) s =
     then_do (load_at (d_mem s p_data) 0) (\<lambda>value.
     then_do (nrf_drv_uart_rx UART_RX_BUF 1 s) (\<lambda>(_, s1).
     uart_call h (APP_UART_DATA value) (s1\<lparr>au_rx_done := True\<rparr>)))"
| "uart_event_handler h (NRF_DRV_UART_EVT_ERROR error_mask bytes p_data) s =
     then_do (nrf_drv_uart_rx UART_RX_BUF 1 s) (\<lambda>(_, s1).
     uart_call h (APP_UART_COMMUNICATION_ERROR error_mask) s1)"
| "uart_event_handler h (NRF_DRV_UART_EVT_TX_DONE bytes p_data) s = uart_call h APP_UART_TX_EMPTY s"

section \<open>The interface\<close>

text \<open>\<open>rx_connected\<close>: the RX pin number is not \<open>UART_PIN_DISCONNECTED\<close>.\<close>

definition app_uart_init :: "bool \<Rightarrow> bool \<Rightarrow> 'm app_uart_scheme \<Rightarrow> (ret_code \<times> 'm app_uart_scheme) result" where
  "app_uart_init rx_connected event_handler s =
     (let s1 = s\<lparr>au_event_handler := event_handler, au_rx_done := False\<rparr>;
          (err_code, s2) = nrf_drv_uart_init True s1
      in if err_code \<noteq> NRF_SUCCESS then Inr (err_code, s2)
         else if rx_connected then nrf_drv_uart_rx UART_RX_BUF 1 (nrf_drv_uart_rx_enable s2)
         else Inr (NRF_SUCCESS, s2))"

definition app_uart_get :: "'m app_uart_scheme \<Rightarrow> (ret_code \<times> u8 option \<times> 'm app_uart_scheme) result" where
  "app_uart_get s =
     (if au_rx_done s
      then then_do (load_at (d_mem s UART_RX_BUF) 0) (\<lambda>b. Inr (NRF_SUCCESS, Some b, s\<lparr>au_rx_done := False\<rparr>))
      else Inr (NRF_ERROR_NOT_FOUND, None, s))"

text \<open>The byte is written to the buffer before the driver is asked, also when the driver is busy.\<close>

definition app_uart_put :: "u8 \<Rightarrow> 'm app_uart_scheme \<Rightarrow> (ret_code \<times> 'm app_uart_scheme) result" where
  "app_uart_put byte s =
     then_do (store_at (d_mem s UART_TX_BUF) 0 byte) (\<lambda>buf.
     then_do (nrf_drv_uart_tx UART_TX_BUF 1 (s\<lparr>d_mem := (d_mem s)(UART_TX_BUF := buf)\<rparr>)) (\<lambda>(ret, s1).
       Inr (if ret = NRF_ERROR_BUSY then NRF_ERROR_NO_MEM
            else if ret \<noteq> NRF_SUCCESS then NRF_ERROR_INTERNAL
            else NRF_SUCCESS, s1)))"

definition app_uart_flush :: "'m app_uart_scheme \<Rightarrow> ret_code \<times> 'm app_uart_scheme" where
  "app_uart_flush s = (NRF_SUCCESS, s)"

definition app_uart_close :: "'m app_uart_scheme \<Rightarrow> ret_code \<times> 'm app_uart_scheme" where
  "app_uart_close s = (NRF_SUCCESS, nrf_drv_uart_uninit s)"

section \<open>An open port\<close>

text \<open>
  The driver is initialised with an event handler and no receive event is pending; \<open>port_idle\<close>: no byte is
  being sent, \<open>port_busy\<close>: one is.
\<close>

definition port_open :: "'m app_uart_scheme \<Rightarrow> bool" where
  "port_open s \<longleftrightarrow> d_handler s \<and> au_event_handler s \<and> \<not> irq_pending s \<and>
     length (d_mem s UART_TX_BUF) = 1 \<and> length (d_mem s UART_RX_BUF) = 1"

definition port_idle :: "'m app_uart_scheme \<Rightarrow> bool" where
  "port_idle s \<longleftrightarrow> port_open s \<and> d_tx_buffer_length s = 0"

definition port_busy :: "'m app_uart_scheme \<Rightarrow> bool" where
  "port_busy s \<longleftrightarrow> port_open s \<and> d_tx_buffer_length s = 1 \<and> d_tx_counter s = 1 \<and> d_tx_buffer s = UART_TX_BUF"

lemmas port_defs = port_open_def port_idle_def port_busy_def irq_pending_def UART_TX_BUF_def UART_RX_BUF_def

text \<open>A byte is taken if and only if the port is idle, and goes straight to TXD.\<close>

lemma app_uart_put_idle:
  "port_idle s \<Longrightarrow> app_uart_put b s = Inr (NRF_SUCCESS,
     s\<lparr>d_mem := (d_mem s)(UART_TX_BUF := [b]), d_tx_buffer_length := 1, d_tx_buffer := UART_TX_BUF,
       d_tx_counter := 1, EV_TXDRDY := False, tx_running := True, TXD_sent := TXD_sent s @ [b]\<rparr>)"
  by (cases "d_mem s UART_TX_BUF")
    (auto simp: port_idle_def port_open_def app_uart_put_def store_at_def nrf_drv_uart_tx_def
      nrf_drv_uart_tx_in_progress_def nrf_drv_uart_tx_for_uart_def tx_byte_def load_at_def)

lemma app_uart_put_busy:
  "port_busy s \<Longrightarrow> app_uart_put b s = Inr (NRF_ERROR_NO_MEM, s\<lparr>d_mem := (d_mem s)(UART_TX_BUF := [b])\<rparr>)"
  by (cases "d_mem s UART_TX_BUF")
    (auto simp: port_busy_def port_open_def app_uart_put_def store_at_def nrf_drv_uart_tx_def
      nrf_drv_uart_tx_in_progress_def)

text \<open>The interrupt after a byte tells the module above that the port is idle again.\<close>

lemma txdrdy_port_busy:
  assumes "port_busy s"
  shows "txdrdy (uart_event_handler h) s =
    then_do (h APP_UART_TX_EMPTY (s\<lparr>EV_TXDRDY := False, d_tx_buffer_length := 0\<rparr>))
      (\<lambda>u. if EV_RXTO u then irq_rxto (uart_event_handler h) u else Inr u)"
  using assms
  by (auto simp: txdrdy_def uart_irq_handler_def irq_txdrdy_def tx_done_event_def drv_call_def port_busy_def port_open_def
      irq_pending_def uart_call_def)

end
