(* ===== verification/HciSlip.thy ===== *)
theory HciSlip
  imports AppUart
begin

text \<open>
  The HCI SLIP layer components/libraries/hci/hci_slip.c on top of app_uart.c and the UART driver. The
  function pointers \<open>send_tx_byte\<close> and \<open>handle_rx_byte\<close> are enumerations of the functions they can
  point to. The packet buffers are byte lists; the receive buffer is given away with the event that reports it. The event
  handler of the layer above is a parameter, a function on the whole state, which may call the functions of this
  file.
\<close>

section \<open>State\<close>

definition APP_SLIP_END :: u8 where "APP_SLIP_END = 0xC0"
definition APP_SLIP_ESC :: u8 where "APP_SLIP_ESC = 0xDB"
definition APP_SLIP_ESC_END :: u8 where "APP_SLIP_ESC_END = 0xDC"
definition APP_SLIP_ESC_ESC :: u8 where "APP_SLIP_ESC_ESC = 0xDD"

lemmas app_slip_codes = APP_SLIP_END_def APP_SLIP_ESC_def APP_SLIP_ESC_END_def APP_SLIP_ESC_ESC_def

datatype slip_states_t = SLIP_OFF | SLIP_READY | SLIP_TRANSMITTING

datatype slip_sender = send_tx_byte_default | send_tx_byte_esc | send_tx_byte_encoded | send_tx_byte_end

datatype slip_receiver = handle_rx_byte_default | handle_rx_byte_esc | handle_rx_byte_wait_start

datatype hci_slip_evt_type_t = HCI_SLIP_RX_RDY | HCI_SLIP_TX_DONE | HCI_SLIP_RX_OVERFLOW | HCI_SLIP_ERROR

record hci_slip_evt_t =
  evt_type :: hci_slip_evt_type_t
  packet :: "u8 list option"
  packet_length :: u32

record hci_slip = app_uart +
  m_current_state :: slip_states_t
  m_slip_event_handler :: bool
  mp_tx_buffer :: "u8 list"
  m_tx_buffer_length :: u32
  m_tx_buffer_index :: u32
  mp_rx_buffer :: "u8 list option"
  m_rx_buffer_length :: u32
  m_rx_received_count :: u32
  handle_rx_byte :: slip_receiver
  send_tx_byte :: slip_sender

type_synonym 'm slip_handler = "hci_slip_evt_t \<Rightarrow> 'm hci_slip_scheme \<Rightarrow> 'm hci_slip_scheme result"

text \<open>\<open>if (m_slip_event_handler != NULL) m_slip_event_handler(event);\<close>\<close>

definition slip_notify :: "'m slip_handler \<Rightarrow> hci_slip_evt_t \<Rightarrow> 'm hci_slip_scheme \<Rightarrow> 'm hci_slip_scheme result" where
  "slip_notify up e s = (if m_slip_event_handler s then up e s else Inr s)"

section \<open>Transmission\<close>

definition tx_current :: "'m hci_slip_scheme \<Rightarrow> u8 result" where
  "tx_current s = load_at (mp_tx_buffer s) (unat (m_tx_buffer_index s))"

definition tx_byte_end :: "'m hci_slip_scheme \<Rightarrow> (ret_code \<times> 'm hci_slip_scheme) result" where
  "tx_byte_end s =
     then_do (app_uart_put APP_SLIP_END s) (\<lambda>(err_code, s1).
       Inr (err_code,
         if err_code = NRF_SUCCESS \<and> m_tx_buffer_index s1 = 0 then s1\<lparr>send_tx_byte := send_tx_byte_default\<rparr> else s1))"

definition tx_byte_default :: "'m hci_slip_scheme \<Rightarrow> (ret_code \<times> 'm hci_slip_scheme) result" where
  "tx_byte_default s =
     then_do (tx_current s) (\<lambda>b.
     then_do (app_uart_put b s) (\<lambda>(err_code, s1).
       Inr (err_code,
         if err_code = NRF_SUCCESS then s1\<lparr>m_tx_buffer_index := m_tx_buffer_index s1 + 1\<rparr> else s1)))"

definition tx_byte_encoded :: "'m hci_slip_scheme \<Rightarrow> (ret_code \<times> 'm hci_slip_scheme) result" where
  "tx_byte_encoded s =
     then_do (tx_current s) (\<lambda>b.
     then_do (if b = APP_SLIP_END then app_uart_put APP_SLIP_ESC_END s
              else if b = APP_SLIP_ESC then app_uart_put APP_SLIP_ESC_ESC s
              else Inr (NRF_ERROR_NO_MEM, s)) (\<lambda>(err_code, s1).
       Inr (err_code,
         if err_code = NRF_SUCCESS
         then s1\<lparr>m_tx_buffer_index := m_tx_buffer_index s1 + 1, send_tx_byte := send_tx_byte_default\<rparr> else s1)))"

definition tx_byte_esc :: "'m hci_slip_scheme \<Rightarrow> (ret_code \<times> 'm hci_slip_scheme) result" where
  "tx_byte_esc s =
     then_do (app_uart_put APP_SLIP_ESC s) (\<lambda>(err_code, s1).
       Inr (err_code, if err_code = NRF_SUCCESS then s1\<lparr>send_tx_byte := send_tx_byte_encoded\<rparr> else s1))"

definition call_send_tx_byte :: "'m hci_slip_scheme \<Rightarrow> (ret_code \<times> 'm hci_slip_scheme) result" where
  "call_send_tx_byte s =
     (case send_tx_byte s of
        send_tx_byte_default \<Rightarrow> tx_byte_default s
      | send_tx_byte_esc \<Rightarrow> tx_byte_esc s
      | send_tx_byte_encoded \<Rightarrow> tx_byte_encoded s
      | send_tx_byte_end \<Rightarrow> tx_byte_end s)"

text \<open>
  The loop: \<open>True\<close> if it ends by its condition, \<open>False\<close> if it returns because the UART takes no more. It
  would spin on any other error of the UART, so that it has fuel; every round that goes on has sent a byte.
\<close>

fun transmit_loop :: "nat \<Rightarrow> 'm hci_slip_scheme \<Rightarrow> (bool \<times> 'm hci_slip_scheme) result" where
  "transmit_loop 0 s = Inl Hang"
| "transmit_loop (Suc n) s =
     (if m_tx_buffer_index s < m_tx_buffer_length s
      then
        then_do (tx_current s) (\<lambda>b.
        let s1 = (if (b = APP_SLIP_END \<or> b = APP_SLIP_ESC) \<and> send_tx_byte s = send_tx_byte_default
                  then s\<lparr>send_tx_byte := send_tx_byte_esc\<rparr> else s)
        in then_do (call_send_tx_byte s1) (\<lambda>(err_code, s2).
           if err_code = NRF_ERROR_NO_MEM \<or> err_code = NRF_ERROR_BUSY then Inr (False, s2)
           else transmit_loop n s2))
      else Inr (True, s))"

definition transmit_fuel :: "'m hci_slip_scheme \<Rightarrow> nat" where
  "transmit_fuel s = 2 * unat (m_tx_buffer_length s) + 2"

definition transmit_buffer :: "'m slip_handler \<Rightarrow> 'm hci_slip_scheme \<Rightarrow> 'm hci_slip_scheme result" where
  "transmit_buffer up s =
     then_do (transmit_loop (transmit_fuel s) s) (\<lambda>(completed, s1).
       if \<not> completed then Inr s1
       else
         then_do (call_send_tx_byte (s1\<lparr>send_tx_byte := send_tx_byte_end\<rparr>)) (\<lambda>(err_code, s2).
           if err_code = NRF_SUCCESS
           then
             let s3 = s2\<lparr>m_current_state := SLIP_READY\<rparr>
             in slip_notify up \<lparr>evt_type = HCI_SLIP_TX_DONE, packet = Some (mp_tx_buffer s3),
                  packet_length = m_tx_buffer_index s3\<rparr> s3
           else Inr s2))"

section \<open>Reception\<close>

definition handle_slip_end :: "'m slip_handler \<Rightarrow> 'm hci_slip_scheme \<Rightarrow> 'm hci_slip_scheme result" where
  "handle_slip_end up s =
     (if m_rx_received_count s > 0 \<and> m_slip_event_handler s
      then up \<lparr>evt_type = HCI_SLIP_RX_RDY, packet = mp_rx_buffer s, packet_length = m_rx_received_count s\<rparr>
             (s\<lparr>m_rx_received_count := 0, mp_rx_buffer := None\<rparr>)
      else Inr s)"

definition rx_store :: "u8 \<Rightarrow> 'm hci_slip_scheme \<Rightarrow> 'm hci_slip_scheme result" where
  "rx_store b s =
     (case mp_rx_buffer s of
        None \<Rightarrow> Inl Null_Deref
      | Some buf \<Rightarrow> then_do (store_at buf (unat (m_rx_received_count s)) b) (\<lambda>buf1.
          Inr (s\<lparr>mp_rx_buffer := Some buf1, m_rx_received_count := m_rx_received_count s + 1\<rparr>)))"

definition rx_byte_esc :: "'m slip_handler \<Rightarrow> u8 \<Rightarrow> 'm hci_slip_scheme \<Rightarrow> 'm hci_slip_scheme result" where
  "rx_byte_esc up byte s =
     then_do (if byte = APP_SLIP_END then handle_slip_end up s
              else if byte = APP_SLIP_ESC_END then rx_store APP_SLIP_END s
              else if byte = APP_SLIP_ESC_ESC then rx_store APP_SLIP_ESC s
              else rx_store byte s) (\<lambda>s1.
       Inr (s1\<lparr>handle_rx_byte := handle_rx_byte_default\<rparr>))"

definition rx_byte_default :: "'m slip_handler \<Rightarrow> u8 \<Rightarrow> 'm hci_slip_scheme \<Rightarrow> 'm hci_slip_scheme result" where
  "rx_byte_default up byte s =
     (if byte = APP_SLIP_END then handle_slip_end up s
      else if byte = APP_SLIP_ESC then Inr (s\<lparr>handle_rx_byte := handle_rx_byte_esc\<rparr>)
      else rx_store byte s)"

definition rx_byte_wait_start :: "u8 \<Rightarrow> 'm hci_slip_scheme \<Rightarrow> 'm hci_slip_scheme" where
  "rx_byte_wait_start byte s =
     (if byte = APP_SLIP_END then s\<lparr>handle_rx_byte := handle_rx_byte_default\<rparr> else s)"

definition call_handle_rx_byte :: "'m slip_handler \<Rightarrow> u8 \<Rightarrow> 'm hci_slip_scheme \<Rightarrow> 'm hci_slip_scheme result" where
  "call_handle_rx_byte up byte s =
     (case handle_rx_byte s of
        handle_rx_byte_default \<Rightarrow> rx_byte_default up byte s
      | handle_rx_byte_esc \<Rightarrow> rx_byte_esc up byte s
      | handle_rx_byte_wait_start \<Rightarrow> Inr (rx_byte_wait_start byte s))"

definition rx_buffer_overflowed :: "'m slip_handler \<Rightarrow> 'm hci_slip_scheme \<Rightarrow> (bool \<times> 'm hci_slip_scheme) result" where
  "rx_buffer_overflowed up s =
     (if mp_rx_buffer s = None \<or> m_rx_received_count s \<ge> m_rx_buffer_length s
      then then_do (slip_notify up \<lparr>evt_type = HCI_SLIP_RX_OVERFLOW, packet = mp_rx_buffer s,
                      packet_length = m_rx_received_count s\<rparr> s) (\<lambda>s1. Inr (True, s1))
      else Inr (False, s))"

definition slip_uart_eventhandler ::
    "'m slip_handler \<Rightarrow> app_uart_evt_t \<Rightarrow> 'm hci_slip_scheme \<Rightarrow> 'm hci_slip_scheme result" where
  "slip_uart_eventhandler up uart_event s =
     then_do (if uart_event = APP_UART_TX_EMPTY \<and> m_current_state s = SLIP_TRANSMITTING
              then transmit_buffer up s else Inr s) (\<lambda>s1.
       case uart_event of
         APP_UART_DATA value \<Rightarrow> then_do (rx_buffer_overflowed up s1) (\<lambda>(overflowed, s2).
           if overflowed then Inr s2 else call_handle_rx_byte up value s2)
       | _ \<Rightarrow> Inr s1)"

section \<open>The interface\<close>

definition slip_uart_open :: "bool \<Rightarrow> 'm hci_slip_scheme \<Rightarrow> (ret_code \<times> 'm hci_slip_scheme) result" where
  "slip_uart_open rx_connected s =
     then_do (app_uart_init rx_connected True s) (\<lambda>(err_code, s1).
       Inr (err_code, if err_code = NRF_SUCCESS then s1\<lparr>m_current_state := SLIP_READY\<rparr> else s1))"

definition hci_slip_evt_handler_register :: "bool \<Rightarrow> 'm hci_slip_scheme \<Rightarrow> ret_code \<times> 'm hci_slip_scheme" where
  "hci_slip_evt_handler_register event_handler s = (NRF_SUCCESS, s\<lparr>m_slip_event_handler := event_handler\<rparr>)"

definition hci_slip_open :: "bool \<Rightarrow> 'm hci_slip_scheme \<Rightarrow> (ret_code \<times> 'm hci_slip_scheme) result" where
  "hci_slip_open rx_connected s =
     (if m_current_state s = SLIP_OFF then slip_uart_open rx_connected s else Inr (NRF_SUCCESS, s))"

definition hci_slip_close :: "'m hci_slip_scheme \<Rightarrow> ret_code \<times> 'm hci_slip_scheme" where
  "hci_slip_close s = app_uart_close (s\<lparr>m_current_state := SLIP_OFF\<rparr>)"

definition hci_slip_write ::
    "'m slip_handler \<Rightarrow> u8 list option \<Rightarrow> u32 \<Rightarrow> 'm hci_slip_scheme \<Rightarrow> (ret_code \<times> 'm hci_slip_scheme) result" where
  "hci_slip_write up p_buffer len s =
     (case p_buffer of
        None \<Rightarrow> Inr (NRF_ERROR_INVALID_ADDR, s)
      | Some buf \<Rightarrow>
          (case m_current_state s of
             SLIP_READY \<Rightarrow>
               then_do (transmit_buffer up
                 (s\<lparr>m_tx_buffer_index := 0, m_tx_buffer_length := len, mp_tx_buffer := buf,
                    m_current_state := SLIP_TRANSMITTING, send_tx_byte := send_tx_byte_end\<rparr>)) (\<lambda>s1.
               Inr (NRF_SUCCESS, s1))
           | SLIP_TRANSMITTING \<Rightarrow> Inr (NRF_ERROR_NO_MEM, s)
           | SLIP_OFF \<Rightarrow> Inr (NRF_ERROR_INVALID_STATE, s)))"

definition hci_slip_rx_buffer_register ::
    "u8 list option \<Rightarrow> u32 \<Rightarrow> 'm hci_slip_scheme \<Rightarrow> ret_code \<times> 'm hci_slip_scheme" where
  "hci_slip_rx_buffer_register p_buffer len s =
     (NRF_SUCCESS, s\<lparr>mp_rx_buffer := p_buffer, m_rx_buffer_length := len, m_rx_received_count := 0,
        handle_rx_byte := handle_rx_byte_wait_start\<rparr>)"

end
