(* ===== verification/HciProps.thy ===== *)
theory HciProps
  imports HciSlip
begin

text \<open>
  Properties of the HCI SLIP layer: what it puts on the wire whatever the moments at which the UART refuses a byte, and
  what it delivers of a stream. The decoder is an instance of \<open>stream_codec\<close>.
\<close>

section \<open>The wire format\<close>

definition hci_code :: "u8 \<Rightarrow> u8 list" where
  "hci_code b =
     (if b = APP_SLIP_END then [APP_SLIP_ESC, APP_SLIP_ESC_END]
      else if b = APP_SLIP_ESC then [APP_SLIP_ESC, APP_SLIP_ESC_ESC]
      else [b])"

definition hci_codes :: "u8 list \<Rightarrow> u8 list" where
  "hci_codes bs = concat (map hci_code bs)"

definition hci_frame :: "u8 list \<Rightarrow> u8 list" where
  "hci_frame bs = [APP_SLIP_END] @ hci_codes bs @ [APP_SLIP_END]"

lemma hci_codes_simps [simp]:
  "hci_codes [] = []"
  "hci_codes (b # bs) = hci_code b @ hci_codes bs"
  by (simp_all add: hci_codes_def)

definition special :: "u8 \<Rightarrow> bool" where
  "special b \<longleftrightarrow> b = APP_SLIP_END \<or> b = APP_SLIP_ESC"

lemma hci_code_special: "special b \<Longrightarrow>
    hci_code b = [APP_SLIP_ESC, if b = APP_SLIP_END then APP_SLIP_ESC_END else APP_SLIP_ESC_ESC]"
  by (auto simp: special_def hci_code_def)

lemma hci_code_plain: "\<not> special b \<Longrightarrow> hci_code b = [b]"
  by (simp add: special_def hci_code_def)

section \<open>Transmission\<close>

text \<open>What is left to send, by the position in the packet and the function that sends the next byte.\<close>

definition to_send :: "'m hci_slip_scheme \<Rightarrow> u8 list" where
  "to_send s =
     (let rest = hci_codes (drop (unat (m_tx_buffer_index s)) (mp_tx_buffer s)) @ [APP_SLIP_END]
      in case send_tx_byte s of
           send_tx_byte_end \<Rightarrow> if m_tx_buffer_index s = 0 then APP_SLIP_END # rest else rest
         | send_tx_byte_encoded \<Rightarrow> tl rest
         | _ \<Rightarrow> rest)"

definition tx_pointer_ok :: "'m hci_slip_scheme \<Rightarrow> bool" where
  "tx_pointer_ok s \<longleftrightarrow>
     (case send_tx_byte s of
        send_tx_byte_default \<Rightarrow> True
      | send_tx_byte_end \<Rightarrow> m_tx_buffer_index s = 0 \<or> m_tx_buffer_index s = m_tx_buffer_length s
      | _ \<Rightarrow> m_tx_buffer_index s < m_tx_buffer_length s \<and> special (mp_tx_buffer s ! unat (m_tx_buffer_index s)))"

definition tx_inv :: "u8 list \<Rightarrow> u8 list \<Rightarrow> 'm hci_slip_scheme \<Rightarrow> bool" where
  "tx_inv before bs s \<longleftrightarrow> m_current_state s = SLIP_TRANSMITTING \<and> mp_tx_buffer s = bs \<and> bs \<noteq> [] \<and>
     length bs = unat (m_tx_buffer_length s) \<and> m_tx_buffer_index s \<le> m_tx_buffer_length s \<and>
     tx_pointer_ok s \<and> TXD_sent s @ to_send s = before @ hci_frame bs"

lemmas tx_defs = tx_inv_def tx_pointer_ok_def to_send_def

text \<open>The port is not touched by the variables of this layer.\<close>

lemma port_frame [simp]:
  "port_busy (s\<lparr>send_tx_byte := f\<rparr>) = port_busy s"
  "port_busy (s\<lparr>m_tx_buffer_index := i\<rparr>) = port_busy s"
  "port_idle (s\<lparr>send_tx_byte := f\<rparr>) = port_idle s"
  by (simp_all add: port_defs)

lemma port_busy_mem [simp]:
  "port_busy (s\<lparr>d_mem := (d_mem s)(UART_TX_BUF := [b])\<rparr>) = port_busy s" if "port_busy s"
  using that by (simp add: port_defs)

lemma tx_inv_mem [simp]: "tx_inv before bs (s\<lparr>d_mem := m\<rparr>) = tx_inv before bs s"
  by (cases "send_tx_byte s") (simp_all add: tx_defs)

text \<open>The test at the head of the loop only escapes the byte at the position.\<close>

definition escape_current :: "'m hci_slip_scheme \<Rightarrow> 'm hci_slip_scheme" where
  "escape_current s =
     (if special (mp_tx_buffer s ! unat (m_tx_buffer_index s)) \<and> send_tx_byte s = send_tx_byte_default
      then s\<lparr>send_tx_byte := send_tx_byte_esc\<rparr> else s)"

lemma transmit_loop_unfold:
  "length (mp_tx_buffer s) = unat (m_tx_buffer_length s) \<Longrightarrow> m_tx_buffer_index s < m_tx_buffer_length s \<Longrightarrow>
   transmit_loop (Suc n) s = then_do (call_send_tx_byte (escape_current s)) (\<lambda>(err_code, t).
     if err_code = NRF_ERROR_NO_MEM \<or> err_code = NRF_ERROR_BUSY then Inr (False, t) else transmit_loop n t)"
  by (simp add: tx_current_def load_at_def word_less_nat_alt escape_current_def special_def Let_def)

lemma escape_current_inv: "tx_inv before bs s \<Longrightarrow> m_tx_buffer_index s < m_tx_buffer_length s \<Longrightarrow>
    tx_inv before bs (escape_current s)"
  by (auto simp: escape_current_def tx_defs)

lemma escape_current_simps [simp]:
  "TXD_sent (escape_current s) = TXD_sent s"
  "m_tx_buffer_index (escape_current s) = m_tx_buffer_index s"
  "m_tx_buffer_length (escape_current s) = m_tx_buffer_length s"
  "port_busy (escape_current s) = port_busy s"
  "port_idle (escape_current s) = port_idle s"
  "hci_slip.more (escape_current s) = hci_slip.more s"
  by (simp_all add: escape_current_def)

lemma escape_current_plain:
  "send_tx_byte (escape_current s) = send_tx_byte_default \<Longrightarrow>
   \<not> special (mp_tx_buffer (escape_current s) ! unat (m_tx_buffer_index (escape_current s)))"
  by (auto simp: escape_current_def split: if_splits)

text \<open>A busy UART refuses the byte, and only the one-byte buffer of app_uart.c changes.\<close>

lemma call_send_busy:
  assumes "tx_inv before bs s" and "port_busy s"
    and "send_tx_byte s = send_tx_byte_end \<or> m_tx_buffer_index s < m_tx_buffer_length s"
  shows "ok (call_send_tx_byte s) (\<lambda>(r, t). r = NRF_ERROR_NO_MEM \<and> tx_inv before bs t \<and> port_busy t \<and>
    TXD_sent t = TXD_sent s \<and> m_tx_buffer_index t = m_tx_buffer_index s \<and> send_tx_byte t = send_tx_byte s \<and>
    hci_slip.more t = hci_slip.more s)"
proof -
  note put = app_uart_put_busy [OF assms(2)]
  have cur: "m_tx_buffer_index s < m_tx_buffer_length s \<Longrightarrow> unat (m_tx_buffer_index s) < length (mp_tx_buffer s)"
    using assms(1) by (simp add: tx_inv_def word_less_nat_alt)
  show ?thesis
  proof (cases "send_tx_byte s")
    case send_tx_byte_encoded
    then have "special (mp_tx_buffer s ! unat (m_tx_buffer_index s))"
      using assms(1) by (auto simp: tx_inv_def tx_pointer_ok_def)
    then show ?thesis using send_tx_byte_encoded assms cur
      by (auto simp: call_send_tx_byte_def tx_byte_encoded_def tx_current_def special_def put)
  qed (use assms cur in \<open>auto simp: call_send_tx_byte_def tx_byte_default_def tx_byte_esc_def tx_byte_end_def
    tx_current_def put\<close>)
qed

lemma transmit_loop_busy:
  assumes "tx_inv before bs s" and "port_busy s" and "0 < n"
  shows "ok (transmit_loop n s) (\<lambda>(completed, t). tx_inv before bs t \<and> port_busy t \<and> TXD_sent t = TXD_sent s \<and>
    hci_slip.more t = hci_slip.more s \<and> (completed \<longrightarrow> m_tx_buffer_index t = m_tx_buffer_length t))"
proof -
  obtain m where m: "n = Suc m" using assms(3) by (cases n) auto
  show ?thesis
  proof (cases "m_tx_buffer_index s < m_tx_buffer_length s")
    case True
    have l: "length (mp_tx_buffer s) = unat (m_tx_buffer_length s)" using assms(1) by (simp add: tx_inv_def)
    show ?thesis
      using call_send_busy [OF escape_current_inv [OF assms(1) True]] True assms(2)
      by (auto simp: m transmit_loop_unfold [OF l True] simp del: transmit_loop.simps elim!: ok_mono)
  next
    case False
    then show ?thesis using assms by (auto simp: m tx_inv_def)
  qed
qed

text \<open>The part of \<open>transmit_buffer\<close> after the loop.\<close>

definition transmit_end :: "'m slip_handler \<Rightarrow> 'm hci_slip_scheme \<Rightarrow> 'm hci_slip_scheme result" where
  "transmit_end up s =
     then_do (call_send_tx_byte (s\<lparr>send_tx_byte := send_tx_byte_end\<rparr>)) (\<lambda>(err_code, t).
       if err_code = NRF_SUCCESS
       then slip_notify up \<lparr>evt_type = HCI_SLIP_TX_DONE, packet = Some (mp_tx_buffer t), packet_length = m_tx_buffer_index t\<rparr>
              (t\<lparr>m_current_state := SLIP_READY\<rparr>)
       else Inr t)"

lemma transmit_buffer_end:
  "transmit_buffer up s = then_do (transmit_loop (transmit_fuel s) s) (\<lambda>(completed, t).
     if \<not> completed then Inr t else transmit_end up t)"
  by (simp only: transmit_buffer_def transmit_end_def Let_def slip_notify_def) (simp cong: if_cong)

lemma tx_inv_end:
  "tx_inv before bs s \<Longrightarrow> m_tx_buffer_index s = m_tx_buffer_length s \<Longrightarrow>
   tx_inv before bs (s\<lparr>send_tx_byte := send_tx_byte_end\<rparr>)"
  by (auto simp: tx_defs Let_def unat_eq_0 split: slip_sender.splits if_splits)

lemma transmit_end_busy:
  assumes "tx_inv before bs s" and "port_busy s" and "m_tx_buffer_index s = m_tx_buffer_length s"
  shows "ok (transmit_end up s) (\<lambda>t. tx_inv before bs t \<and> port_busy t \<and> TXD_sent t = TXD_sent s \<and>
    hci_slip.more t = hci_slip.more s)"
  using call_send_busy [OF tx_inv_end [OF assms(1,3)]] assms(2)
  by (auto simp: transmit_end_def elim!: ok_mono)

text \<open>While the UART is busy nothing is sent and nothing is lost.\<close>

lemma transmit_rest_busy:
  assumes "tx_inv before bs s" and "port_busy s" and "0 < n"
  shows "ok (then_do (transmit_loop n s) (\<lambda>(completed, t). if \<not> completed then Inr t else transmit_end up t))
    (\<lambda>t. tx_inv before bs t \<and> port_busy t \<and> TXD_sent t = TXD_sent s \<and>
    hci_slip.more t = hci_slip.more s)"
  using transmit_loop_busy [OF assms] transmit_end_busy [of before bs _ up]
  by (auto simp: ok_iff split: prod.splits) metis

text \<open>An idle UART takes the next byte.\<close>

definition sent_one :: "'m hci_slip_scheme \<Rightarrow> 'm hci_slip_scheme \<Rightarrow> bool" where
  "sent_one s t \<longleftrightarrow> port_busy t \<and> length (TXD_sent t) = Suc (length (TXD_sent s)) \<and>
     hci_slip.more t = hci_slip.more s"

lemma unat_Suc_below: "(i :: u32) < n \<Longrightarrow> unat (i + 1) = Suc (unat i)"
proof -
  assume "i < n"
  then have "unat i + 1 < 2 ^ 32" using unsigned_less [of n, where 'a = nat] by (simp add: word_less_nat_alt)
  then show ?thesis by (simp add: unat_word_ariths)
qed

lemma call_send_idle:
  assumes "tx_inv before bs s" and "port_idle s" and "m_tx_buffer_index s < m_tx_buffer_length s"
    and plain: "send_tx_byte s = send_tx_byte_default \<Longrightarrow> \<not> special (mp_tx_buffer s ! unat (m_tx_buffer_index s))"
  shows "ok (call_send_tx_byte s) (\<lambda>(r, t). r = NRF_SUCCESS \<and> tx_inv before bs t \<and> sent_one s t)"
proof -
  let ?i = "unat (m_tx_buffer_index s)"
  note put = app_uart_put_idle [OF assms(2)]
  have l: "?i < length bs" "length bs = unat (m_tx_buffer_length s)" "mp_tx_buffer s = bs"
    using assms(1,3) by (auto simp: tx_inv_def word_less_nat_alt)
  have d: "drop ?i bs = bs ! ?i # drop (Suc ?i) bs" using l by (simp add: Cons_nth_drop_Suc)
  have i1: "unat (m_tx_buffer_index s + 1) = Suc ?i" using unat_Suc_below [OF assms(3)] .
  have i2: "m_tx_buffer_index s + 1 \<le> m_tx_buffer_length s" "m_tx_buffer_index s + 1 \<noteq> 0"
    using l i1 by (auto simp: word_le_nat_alt unat_eq_0 [symmetric])
  show ?thesis
  proof (cases "send_tx_byte s")
    case send_tx_byte_default
    then show ?thesis using assms plain l d i1 i2
      by (auto simp: call_send_tx_byte_def tx_byte_default_def tx_current_def tx_defs sent_one_def hci_code_plain
        put port_defs Let_def)
  next
    case send_tx_byte_esc
    then show ?thesis using assms l d i1 i2
      by (auto simp: call_send_tx_byte_def tx_byte_esc_def tx_defs sent_one_def hci_code_special put port_defs Let_def)
  next
    case send_tx_byte_encoded
    then show ?thesis using assms l d i1 i2
      by (auto simp: call_send_tx_byte_def tx_byte_encoded_def tx_current_def tx_defs sent_one_def hci_code_special
        special_def put port_defs Let_def)
  next
    case send_tx_byte_end
    then show ?thesis using assms l
      by (auto simp: call_send_tx_byte_def tx_byte_end_def tx_defs sent_one_def put port_defs Let_def)
  qed
qed

lemma to_send_Suc_0:
  assumes "tx_inv before bs s"
  shows "length (to_send s) = Suc 0 \<longleftrightarrow> m_tx_buffer_index s = m_tx_buffer_length s"
proof (cases "m_tx_buffer_index s < m_tx_buffer_length s")
  case True
  then have "unat (m_tx_buffer_index s) < length bs" "mp_tx_buffer s = bs"
    using assms by (auto simp: tx_inv_def word_less_nat_alt)
  then have "to_send s \<noteq> []" "hci_codes (drop (unat (m_tx_buffer_index s)) (mp_tx_buffer s)) =
      hci_code (bs ! unat (m_tx_buffer_index s)) @ hci_codes (drop (Suc (unat (m_tx_buffer_index s))) bs)"
    "hci_code (bs ! unat (m_tx_buffer_index s)) \<noteq> []"
    by (auto simp: to_send_def Let_def Cons_nth_drop_Suc [symmetric] hci_code_def split: slip_sender.splits)
  moreover have "send_tx_byte s = send_tx_byte_encoded \<Longrightarrow> length (hci_code (bs ! unat (m_tx_buffer_index s))) = 2"
    using assms \<open>mp_tx_buffer s = bs\<close> by (auto simp: tx_inv_def tx_pointer_ok_def hci_code_special)
  ultimately show ?thesis using True
    by (cases "send_tx_byte s") (auto simp: to_send_def Let_def)
next
  case False
  then have e: "m_tx_buffer_index s = m_tx_buffer_length s" using assms by (auto simp: tx_inv_def)
  then have "m_tx_buffer_index s \<noteq> 0" using assms by (auto simp: tx_inv_def)
  then show ?thesis using assms e
    by (cases "send_tx_byte s") (auto simp: tx_defs)
qed

text \<open>An idle UART: the next byte is sent; if it is not the last one the transmission stays pending.\<close>

lemma transmit_idle:
  assumes "tx_inv before bs s" and "port_idle s" and "length (to_send s) \<noteq> Suc 0"
  shows "ok (transmit_buffer up s) (\<lambda>t. tx_inv before bs t \<and> sent_one s t)"
proof -
  have i: "m_tx_buffer_index s < m_tx_buffer_length s"
    using assms(1,3) to_send_Suc_0 [OF assms(1)] by (auto simp: tx_inv_def)
  have l: "length (mp_tx_buffer s) = unat (m_tx_buffer_length s)" using assms(1) by (simp add: tx_inv_def)
  have f: "transmit_fuel s = Suc (Suc (2 * unat (m_tx_buffer_length s)))" by (simp add: transmit_fuel_def)
  have "0 < unat (m_tx_buffer_length s)" using i by (simp add: word_less_nat_alt)
  obtain t where t: "call_send_tx_byte (escape_current s) = Inr (NRF_SUCCESS, t)" "tx_inv before bs t"
      "sent_one s t"
    using call_send_idle [OF escape_current_inv [OF assms(1) i]] assms(2) i escape_current_plain [of s]
    by (auto simp: ok_iff sent_one_def)
  then show ?thesis
    using transmit_rest_busy [OF t(2), of "Suc (2 * unat (m_tx_buffer_length s))" up]
    by (auto simp: transmit_buffer_end f transmit_loop_unfold [OF l i] sent_one_def
        simp del: transmit_loop.simps elim!: ok_mono)
qed

lemma transmit_idle_last:
  assumes "tx_inv before bs s" and "port_idle s" and "length (to_send s) = Suc 0"
  shows "\<exists>v. transmit_buffer up s = slip_notify up \<lparr>evt_type = HCI_SLIP_TX_DONE, packet = Some bs,
      packet_length = of_nat (length bs)\<rparr> v \<and> TXD_sent v = before @ hci_frame bs \<and>
      m_current_state v = SLIP_READY \<and> m_slip_event_handler v = m_slip_event_handler s"
proof -
  have i: "m_tx_buffer_index s = m_tx_buffer_length s" "m_tx_buffer_length s \<noteq> 0"
    using assms(1,3) to_send_Suc_0 [OF assms(1)] by (auto simp: tx_inv_def)
  then have e: "to_send s = [APP_SLIP_END]"
    using assms by (cases "send_tx_byte s") (auto simp: tx_defs)
  have f: "transmit_fuel s = Suc (2 * unat (m_tx_buffer_length s) + 1)" by (simp add: transmit_fuel_def)
  have b: "mp_tx_buffer s = bs" "of_nat (length bs) = m_tx_buffer_length s" "TXD_sent s @ to_send s = before @ hci_frame bs"
    using assms(1) by (auto simp: tx_inv_def)
  have "port_idle (s\<lparr>send_tx_byte := send_tx_byte_end\<rparr>)" using assms(2) by simp
  note put = app_uart_put_idle [OF this]
  show ?thesis
    using i e b by (auto simp: transmit_buffer_end f transmit_end_def call_send_tx_byte_def tx_byte_end_def put)
qed

text \<open>The interrupt of the UART, served by the three layers.\<close>

definition hci_txdrdy :: "'m slip_handler \<Rightarrow> 'm hci_slip_scheme \<Rightarrow> 'm hci_slip_scheme result" where
  "hci_txdrdy up = txdrdy (uart_event_handler (slip_uart_eventhandler up))"

definition hci_txdrdys :: "'m slip_handler \<Rightarrow> nat \<Rightarrow> 'm hci_slip_scheme \<Rightarrow> 'm hci_slip_scheme result" where
  "hci_txdrdys up = txdrdys (uart_event_handler (slip_uart_eventhandler up))"

lemma hci_txdrdys_simps [simp]:
  "hci_txdrdys up 0 s = Inr s"
  "hci_txdrdys up (Suc n) s = then_do (hci_txdrdys up n s) (hci_txdrdy up)"
  by (simp_all add: hci_txdrdys_def hci_txdrdy_def)

lemma tx_inv_idle [simp]:
  "tx_inv before bs (s\<lparr>EV_TXDRDY := False, d_tx_buffer_length := 0\<rparr>) = tx_inv before bs s"
  "to_send (s\<lparr>EV_TXDRDY := False, d_tx_buffer_length := 0\<rparr>) = to_send s"
  by (cases "send_tx_byte s"; simp add: tx_defs)+

lemma port_busy_idle: "port_busy s \<Longrightarrow> port_idle (s\<lparr>EV_TXDRDY := False, d_tx_buffer_length := 0\<rparr>)"
  by (simp add: port_defs)

lemma hci_txdrdy_unfold:
  assumes "tx_inv before bs s" and "port_busy s"
  shows "hci_txdrdy up s = then_do (transmit_buffer up (s\<lparr>EV_TXDRDY := False, d_tx_buffer_length := 0\<rparr>))
    (\<lambda>u. if EV_RXTO u then irq_rxto (uart_event_handler (slip_uart_eventhandler up)) u else Inr u)"
  using assms(1) txdrdy_port_busy [OF assms(2), of "slip_uart_eventhandler up"]
  by (simp add: hci_txdrdy_def slip_uart_eventhandler_def tx_inv_def then_do_def split: sum.split)

lemma hci_txdrdy_more:
  assumes "tx_inv before bs s" and "port_busy s" and "length (to_send s) \<noteq> Suc 0"
  shows "ok (hci_txdrdy up s) (\<lambda>t. tx_inv before bs t \<and> sent_one s t)"
proof -
  let ?s = "s\<lparr>EV_TXDRDY := False, d_tx_buffer_length := 0\<rparr>"
  have "ok (transmit_buffer up ?s) (\<lambda>t. tx_inv before bs t \<and> sent_one ?s t)"
    using assms port_busy_idle [OF assms(2)] by (intro transmit_idle) simp_all
  then show ?thesis
    by (auto simp: hci_txdrdy_unfold [OF assms(1,2)] sent_one_def port_defs elim!: ok_mono)
qed

lemma sent_prefix:
  "tx_inv before bs s \<Longrightarrow> length (TXD_sent s) = length before + k \<Longrightarrow> TXD_sent s = before @ take k (hci_frame bs)"
  by (auto simp: tx_inv_def dest: arg_cong [of _ _ "take (length before + k)"])

lemma hci_frame_length: "bs \<noteq> [] \<Longrightarrow> 3 \<le> length (hci_frame bs)"
  by (cases bs) (auto simp: hci_frame_def hci_code_def)

lemma to_send_length:
  "tx_inv before bs s \<Longrightarrow> length (TXD_sent s) + length (to_send s) = length before + length (hci_frame bs)"
  by (auto simp: tx_inv_def dest: arg_cong [of _ _ length])

lemma hci_write_start:
  assumes "m_current_state s = SLIP_READY" and "port_idle s" and "bs \<noteq> []" and "length bs < 2 ^ 32"
  shows "ok (hci_slip_write up (Some bs) (of_nat (length bs)) s) (\<lambda>(r, t). r = NRF_SUCCESS \<and>
    tx_inv (TXD_sent s) bs t \<and> sent_one s t)"
proof -
  let ?s = "s\<lparr>m_tx_buffer_index := 0, m_tx_buffer_length := of_nat (length bs), mp_tx_buffer := bs,
      m_current_state := SLIP_TRANSMITTING, send_tx_byte := send_tx_byte_end\<rparr>"
  have l: "unat (of_nat (length bs) :: u32) = length bs" using assms(4) by (rule unat_of_nat_u32)
  have inv: "tx_inv (TXD_sent s) bs ?s"
    using assms(3) l by (simp add: tx_defs hci_frame_def)
  have "length (to_send ?s) \<noteq> Suc 0" by (simp add: to_send_def)
  then have "ok (transmit_buffer up ?s) (\<lambda>t. tx_inv (TXD_sent s) bs t \<and> sent_one ?s t)"
    using assms(2) inv by (intro transmit_idle) (simp_all add: port_defs)
  then show ?thesis using assms(1)
    by (auto simp: hci_slip_write_def sent_one_def elim!: ok_mono)
qed

lemma hci_txdrdys_more:
  assumes "tx_inv before bs s" and "port_busy s" and "length (TXD_sent s) = Suc (length before)"
    and "Suc k < length (hci_frame bs)"
  shows "ok (hci_txdrdys up k s) (\<lambda>t. tx_inv before bs t \<and> port_busy t \<and> length (TXD_sent t) = length before + Suc k)"
  using assms(4)
proof (induction k)
  case (Suc k)
  then obtain t where t: "hci_txdrdys up k s = Inr t" "tx_inv before bs t" "port_busy t"
      "length (TXD_sent t) = length before + Suc k"
    by (auto simp: ok_iff)
  have "length (to_send t) \<noteq> Suc 0" using to_send_length [OF t(2)] t(4) Suc.prems by simp
  then show ?case using hci_txdrdy_more [OF t(2,3), of up] t(1,4)
    by (auto simp: sent_one_def elim!: ok_mono)
qed (use assms in simp)

text \<open>
  C18. \<open>hci_slip_write\<close> puts a packet on the wire, one byte per interrupt of the UART although the UART
  refuses every second attempt: after \<open>k\<close> interrupts the first \<open>k + 1\<close> bytes of the SLIP frame are out, and the
  interrupt after the last but one sends the end byte and reports the packet to the layer above (if it has registered a handler), which may
  write the next packet at once.
\<close>

theorem hci_slip_sends:
  assumes "m_current_state s = SLIP_READY" and "port_idle s" and "bs \<noteq> []" and "length bs < 2 ^ 32"
    and "k + 1 < length (hci_frame bs)"
  shows "ok (hci_slip_write up (Some bs) (of_nat (length bs)) s) (\<lambda>(r, t). r = NRF_SUCCESS \<and>
    ok (hci_txdrdys up k t) (\<lambda>u. TXD_sent u = TXD_sent s @ take (k + 1) (hci_frame bs) \<and>
      m_current_state u = SLIP_TRANSMITTING \<and>
      (k + 2 = length (hci_frame bs) \<longrightarrow>
        (\<exists>v. TXD_sent v = TXD_sent s @ hci_frame bs \<and> m_current_state v = SLIP_READY \<and>
          hci_txdrdy up u =
            then_do (slip_notify up \<lparr>evt_type = HCI_SLIP_TX_DONE, packet = Some bs, packet_length = of_nat (length bs)\<rparr> v)
              (\<lambda>w. if EV_RXTO w then irq_rxto (uart_event_handler (slip_uart_eventhandler up)) w else Inr w)))))"
proof -
  obtain t where t: "hci_slip_write up (Some bs) (of_nat (length bs)) s = Inr (NRF_SUCCESS, t)"
      "tx_inv (TXD_sent s) bs t" "port_busy t" "length (TXD_sent t) = Suc (length (TXD_sent s))"
    using hci_write_start [OF assms(1-4), of up] by (auto simp: ok_iff sent_one_def)
  obtain u where u: "hci_txdrdys up k t = Inr u" "tx_inv (TXD_sent s) bs u" "port_busy u"
      "length (TXD_sent u) = length (TXD_sent s) + (k + 1)"
    using hci_txdrdys_more [OF t(2-4), of k up] assms(5) by (auto simp: ok_iff)
  have last: "\<exists>v. TXD_sent v = TXD_sent s @ hci_frame bs \<and> m_current_state v = SLIP_READY \<and>
      hci_txdrdy up u =
        then_do (slip_notify up \<lparr>evt_type = HCI_SLIP_TX_DONE, packet = Some bs, packet_length = of_nat (length bs)\<rparr> v)
          (\<lambda>w. if EV_RXTO w then irq_rxto (uart_event_handler (slip_uart_eventhandler up)) w else Inr w)"
    if "k + 2 = length (hci_frame bs)"
  proof -
    have "length (to_send u) = Suc 0" using u(4) to_send_length [OF u(2)] that by simp
    then obtain v where "TXD_sent v = TXD_sent s @ hci_frame bs" "m_current_state v = SLIP_READY"
      "transmit_buffer up (u\<lparr>EV_TXDRDY := False, d_tx_buffer_length := 0\<rparr>) =
        slip_notify up \<lparr>evt_type = HCI_SLIP_TX_DONE, packet = Some bs, packet_length = of_nat (length bs)\<rparr> v"
      using transmit_idle_last [of "TXD_sent s" bs "u\<lparr>EV_TXDRDY := False, d_tx_buffer_length := 0\<rparr>" up]
        port_busy_idle [OF u(3)] u(2) by auto
    then show ?thesis by (intro exI [of _ v]) (simp add: hci_txdrdy_unfold [OF u(2,3)])
  qed
  have "m_current_state u = SLIP_TRANSMITTING" using u(2) by (simp add: tx_inv_def)
  then show ?thesis using t(1) u(1) sent_prefix [OF u(2,4)] last by simp
qed

text \<open>A port that has been opened, and a packet with both special bytes.\<close>

definition sample_slip :: hci_slip where
  "sample_slip = \<lparr>d_initialized = True, d_handler = True, d_tx_buffer = 0, d_rx_buffer = 1, d_rx_secondary_buffer = 0,
     d_tx_counter = 0, d_tx_buffer_length = 0, d_rx_buffer_length = 1, d_rx_secondary_buffer_length = 0, d_rx_counter = 0,
     d_rx_enabled = True, EV_TXDRDY = False, EV_RXDRDY = False, EV_ERROR = False, EV_RXTO = False,
     INT_TXDRDY = True, INT_RXDRDY = True, INT_ERROR = True, INT_RXTO = True, RXD = 0, TXD_sent = [],
     ERRORSRC = 0, uart_enabled = True, tx_running = False, rx_running = True, d_mem = (\<lambda>a. [0]),
     hw_events = (\<lambda>k. \<lparr>at_txdrdy = False, at_rxdrdy = False, at_error = False, at_rxto = False, at_rxd = 0\<rparr>),
     hw_reads = 0, au_event_handler = True, au_rx_done = False,
     m_current_state = SLIP_READY, m_slip_event_handler = True, mp_tx_buffer = [], m_tx_buffer_length = 0,
     m_tx_buffer_index = 0, mp_rx_buffer = None, m_rx_buffer_length = 0, m_rx_received_count = 0,
     handle_rx_byte = handle_rx_byte_wait_start, send_tx_byte = send_tx_byte_default\<rparr>"

theorem hci_slip_sends_witness:
  "ok (hci_slip_write (\<lambda>e. Inr) (Some [0x41, 0xC0]) 2 sample_slip) (\<lambda>(r, t). r = NRF_SUCCESS \<and>
    ok (hci_txdrdys (\<lambda>e. Inr) 2 t) (\<lambda>u. TXD_sent u = [0xC0, 0x41, 0xDB]))"
  using hci_slip_sends [of sample_slip "[0x41, 0xC0]" 2 "\<lambda>e. Inr"]
  by (auto simp: sample_slip_def port_defs hci_frame_def hci_code_def app_slip_codes elim!: ok_mono)

section \<open>Reception\<close>

definition port_receiving :: "'m app_uart_scheme \<Rightarrow> bool" where
  "port_receiving s \<longleftrightarrow> d_handler s \<and> au_event_handler s \<and> \<not> EV_ERROR s \<and> \<not> EV_RXTO s \<and> \<not> EV_TXDRDY s \<and>
     INT_RXDRDY s \<and> d_rx_enabled s \<and> d_rx_buffer s = UART_RX_BUF \<and> d_rx_buffer_length s = 1 \<and>
     d_rx_secondary_buffer_length s = 0 \<and> d_rx_counter s = 0 \<and> length (d_mem s UART_RX_BUF) = 1"

definition byte_received :: "u8 \<Rightarrow> 'm app_uart_scheme \<Rightarrow> 'm app_uart_scheme" where
  "byte_received b s = s\<lparr>RXD := b, EV_RXDRDY := False, d_mem := (d_mem s)(UART_RX_BUF := [b]),
     d_rx_buffer_length := 1, d_rx_buffer := UART_RX_BUF, d_rx_counter := 0, d_rx_secondary_buffer_length := 0,
     INT_RXDRDY := True, INT_ERROR := True, au_rx_done := True\<rparr>"

text \<open>The driver hands the byte over with the receiver ready for the next one.\<close>

lemma rxdrdy_receiving:
  assumes "port_receiving s"
  shows "rxdrdy (uart_event_handler h) b s =
    then_do (h (APP_UART_DATA b) (byte_received b s)) (irq_rest (uart_event_handler h))"
proof -
  obtain x where "d_mem s UART_RX_BUF = [x]"
    using assms by (cases "d_mem s UART_RX_BUF") (auto simp: port_receiving_def)
  then show ?thesis using assms
    by (simp add: rxdrdy_def uart_irq_handler_def irq_rxdrdy_def rx_byte_def rx_done_event_def drv_call_def
      nrf_drv_uart_rx_def nrf_drv_uart_rx_for_uart_def uart_call_def port_receiving_def byte_received_def store_at_def
      load_at_def irq_rest_def [abs_def])
qed

text \<open>A byte and a stream of bytes, served by the three layers.\<close>

definition hci_rx :: "'m slip_handler \<Rightarrow> u8 \<Rightarrow> 'm hci_slip_scheme \<Rightarrow> 'm hci_slip_scheme result" where
  "hci_rx up = rxdrdy (uart_event_handler (slip_uart_eventhandler up))"

fun hci_rxs :: "'m slip_handler \<Rightarrow> u8 list \<Rightarrow> 'm hci_slip_scheme \<Rightarrow> 'm hci_slip_scheme result" where
  "hci_rxs up [] s = Inr s"
| "hci_rxs up (b # bs) s = then_do (hci_rx up b s) (hci_rxs up bs)"

lemma hci_rxs_append: "hci_rxs up (xs @ ys) s = then_do (hci_rxs up xs s) (hci_rxs up ys)"
proof (induction xs arbitrary: s)
  case (Cons x xs)
  then show ?case by (cases "hci_rx up x s") simp_all
qed simp

text \<open>A receive buffer is registered and the layer is inside a packet.\<close>

definition rx_open :: "'m hci_slip_scheme \<Rightarrow> bool" where
  "rx_open s \<longleftrightarrow> port_receiving s \<and> m_slip_event_handler s \<and>
     (case mp_rx_buffer s of None \<Rightarrow> False | Some buf \<Rightarrow> unat (m_rx_buffer_length s) \<le> length buf) \<and>
     m_rx_received_count s \<le> m_rx_buffer_length s"

definition rx_stuffing :: "'m hci_slip_scheme \<Rightarrow> bool" where
  "rx_stuffing s \<longleftrightarrow> rx_open s \<and> handle_rx_byte s = handle_rx_byte_default"

definition rx_acc :: "'m hci_slip_scheme \<Rightarrow> u8 list" where
  "rx_acc s = (case mp_rx_buffer s of None \<Rightarrow> [] | Some buf \<Rightarrow> take (unat (m_rx_received_count s)) buf)"

definition rx_room :: "'m hci_slip_scheme \<Rightarrow> nat" where
  "rx_room s = unat (m_rx_buffer_length s) - unat (m_rx_received_count s)"

lemmas rx_defs = rx_open_def rx_stuffing_def rx_acc_def rx_room_def

text \<open>While there is room, a byte goes to the function that \<open>handle_rx_byte\<close> points to.\<close>

lemma hci_rx_room:
  assumes "rx_open s" and "0 < rx_room s"
  shows "hci_rx up b s = then_do (call_handle_rx_byte up b (byte_received b s))
    (irq_rest (uart_event_handler (slip_uart_eventhandler up)))"
  using assms
  by (auto simp: hci_rx_def rxdrdy_receiving rx_defs slip_uart_eventhandler_def rx_buffer_overflowed_def byte_received_def
      word_le_nat_alt word_less_nat_alt split: option.splits)

text \<open>Without room it is dropped and an overflow is reported, an end byte too.\<close>

lemma hci_rx_full:
  assumes "rx_open s" and "rx_room s = 0"
  shows "hci_rx up b s = then_do (up \<lparr>evt_type = HCI_SLIP_RX_OVERFLOW, packet = mp_rx_buffer s,
      packet_length = m_rx_received_count s\<rparr> (byte_received b s)) (irq_rest (uart_event_handler (slip_uart_eventhandler up)))"
  using assms
  by (auto simp: hci_rx_def rxdrdy_receiving rx_defs slip_uart_eventhandler_def rx_buffer_overflowed_def slip_notify_def
      byte_received_def word_le_nat_alt then_do_def split: option.splits sum.splits)

lemma irq_rest_quiet: "port_receiving s \<Longrightarrow> irq_rest h s = Inr s"
  by (simp add: irq_rest_def port_receiving_def)

lemma rx_open_received:
  "rx_open s \<Longrightarrow> rx_open (byte_received b s)"
  "rx_acc (byte_received b s) = rx_acc s"
  "rx_room (byte_received b s) = rx_room s"
  "handle_rx_byte (byte_received b s) = handle_rx_byte s"
  by (cases "mp_rx_buffer s"; simp add: rx_defs byte_received_def port_receiving_def)+

lemma rx_open_pointer [simp]:
  "rx_open (s\<lparr>handle_rx_byte := f\<rparr>) = rx_open s"
  "rx_acc (s\<lparr>handle_rx_byte := f\<rparr>) = rx_acc s"
  "rx_room (s\<lparr>handle_rx_byte := f\<rparr>) = rx_room s"
  by (cases "mp_rx_buffer s"; simp add: rx_defs port_receiving_def)+

lemma rx_openD: "rx_open s \<Longrightarrow> port_receiving s"
  by (simp add: rx_open_def)

lemma rx_store_ok:
  assumes "rx_open s" and "0 < rx_room s"
  shows "ok (rx_store b s) (\<lambda>t. rx_open t \<and> rx_acc t = rx_acc s @ [b] \<and> rx_room s = Suc (rx_room t) \<and>
    handle_rx_byte t = handle_rx_byte s)"
proof -
  have lt: "m_rx_received_count s < m_rx_buffer_length s"
    using assms by (auto simp: rx_room_def word_less_nat_alt)
  have u: "unat (m_rx_received_count s + 1) = Suc (unat (m_rx_received_count s))" by (rule unat_Suc_below [OF lt])
  show ?thesis using assms lt u
    by (auto simp: rx_store_def rx_defs port_receiving_def word_le_nat_alt word_less_nat_alt take_Suc_conv_app_nth
        split: option.splits)
qed

lemma hci_rx_code:
  assumes "rx_stuffing s" and "0 < rx_room s"
  shows "ok (hci_rxs up (hci_code b) s) (\<lambda>t. rx_stuffing t \<and> rx_acc t = rx_acc s @ [b] \<and> rx_room s = Suc (rx_room t))"
proof -
  have o: "rx_open s" "handle_rx_byte s = handle_rx_byte_default" using assms(1) by (simp_all add: rx_stuffing_def)
  let ?s = "\<lambda>c. byte_received c s"
  have store: "ok (rx_store c (?s d)) (\<lambda>t. rx_open t \<and> port_receiving t \<and> rx_acc t = rx_acc s @ [c] \<and>
      rx_room s = Suc (rx_room t) \<and> handle_rx_byte t = handle_rx_byte_default)" for c d
    using rx_store_ok [of "?s d" c] assms(2) o by (auto simp: rx_open_received dest: rx_openD elim!: ok_mono)
  show ?thesis
  proof (cases "special b")
    case False
    then show ?thesis using store [of b b] o assms(2)
      by (auto simp: hci_code_plain hci_rx_room call_handle_rx_byte_def rx_open_received rx_byte_default_def special_def
          rx_stuffing_def irq_rest_quiet elim!: ok_mono)
  next
    case True
    let ?c = "if b = APP_SLIP_END then APP_SLIP_ESC_END else APP_SLIP_ESC_ESC"
    let ?t = "(?s APP_SLIP_ESC)\<lparr>handle_rx_byte := handle_rx_byte_esc\<rparr>"
    have t: "rx_open ?t" "rx_room ?t = rx_room s" "rx_acc ?t = rx_acc s" "port_receiving ?t"
      using o by (simp_all add: rx_open_received rx_openD)
    have esc: "hci_rx up APP_SLIP_ESC s = Inr ?t"
      using o assms(2) t(4) by (simp add: hci_rx_room call_handle_rx_byte_def rx_open_received rx_byte_default_def
          irq_rest_quiet app_slip_codes)
    let ?u = "byte_received ?c ?t"
    have u: "rx_open ?u" "rx_room ?u = rx_room s" "rx_acc ?u = rx_acc s" "handle_rx_byte ?u = handle_rx_byte_esc"
      using t by (simp_all add: rx_open_received)
    have "call_handle_rx_byte up ?c ?u = then_do (rx_store b ?u) (\<lambda>v. Inr (v\<lparr>handle_rx_byte := handle_rx_byte_default\<rparr>))"
      using u(4) True by (auto simp: call_handle_rx_byte_def rx_byte_esc_def special_def app_slip_codes)
    moreover have "ok (rx_store b ?u) (\<lambda>t. rx_open t \<and> rx_acc t = rx_acc s @ [b] \<and> rx_room s = Suc (rx_room t))"
      using rx_store_ok [of ?u b] u assms(2) by (auto elim!: ok_mono)
    ultimately have "ok (hci_rx up ?c ?t) (\<lambda>t. rx_stuffing t \<and> rx_acc t = rx_acc s @ [b] \<and> rx_room s = Suc (rx_room t))"
      using t assms(2)
      by (auto simp: hci_rx_room rx_stuffing_def irq_rest_quiet rx_openD elim!: ok_mono)
    then show ?thesis using True esc by (simp add: hci_code_special)
  qed
qed

interpretation hci_decoder: stream_codec hci_code "\<lambda>_. True" "hci_rxs up" rx_stuffing rx_acc rx_room for up
  by unfold_locales (simp_all add: hci_rxs_append hci_rx_code)

text \<open>A buffer has been registered, and the opening byte and the packet have arrived.\<close>

lemma hci_receive_packet:
  assumes "port_receiving s" and "m_slip_event_handler s" and "unat len \<le> length buf"
    and "length bs \<le> unat len" and "0 < unat len"
  shows "ok (hci_rxs up (APP_SLIP_END # hci_codes bs) (snd (hci_slip_rx_buffer_register (Some buf) len s)))
    (\<lambda>t. rx_stuffing t \<and> rx_acc t = bs \<and> rx_room t + length bs = unat len)"
proof -
  let ?s = "snd (hci_slip_rx_buffer_register (Some buf) len s)"
  have s: "rx_open ?s" "rx_room ?s = unat len" "rx_acc ?s = []" "handle_rx_byte ?s = handle_rx_byte_wait_start"
    using assms by (simp_all add: hci_slip_rx_buffer_register_def rx_defs port_receiving_def)
  let ?t = "(byte_received APP_SLIP_END ?s)\<lparr>handle_rx_byte := handle_rx_byte_default\<rparr>"
  have t: "rx_stuffing ?t" "rx_room ?t = unat len" "rx_acc ?t = []" "port_receiving ?t"
    using s by (simp_all add: rx_open_received rx_stuffing_def rx_openD)
  have "hci_rx up APP_SLIP_END ?s = Inr ?t"
    using s assms(5) t(4) by (simp add: hci_rx_room call_handle_rx_byte_def rx_open_received rx_byte_wait_start_def
        irq_rest_quiet)
  moreover have "ok (hci_rxs up (hci_codes bs) ?t) (\<lambda>u. rx_stuffing u \<and> rx_acc u = bs \<and> rx_room u + length bs = unat len)"
    using hci_decoder.feed_all [OF t(1), of bs up] t assms(4) by (simp add: hci_codes_def list_all_iff)
  ultimately show ?thesis by simp
qed

lemma hci_rxs_frame:
  "hci_rxs up (hci_frame bs) s = then_do (hci_rxs up (APP_SLIP_END # hci_codes bs) s) (hci_rx up APP_SLIP_END)"
  by (simp add: hci_frame_def hci_rxs_append then_do_def split: sum.splits)

text \<open>
  C19. The frame that \<open>hci_slip_write\<close> sends is decoded to the packet: when its bytes arrive at a UART with
  an open SLIP layer and a registered receive buffer that is longer than the packet, the end byte
  hands the buffer to the layer above, with the packet at its start and with its length, and takes it away from
  the decoder.
\<close>

theorem hci_slip_receives:
  assumes "port_receiving s" and "m_slip_event_handler s" and "unat len \<le> length buf"
    and "length bs < unat len" and "bs \<noteq> []"
  shows "\<exists>buf1 v. take (length bs) buf1 = bs \<and> mp_rx_buffer v = None \<and> m_rx_received_count v = 0 \<and>
    hci_rxs up (hci_frame bs) (snd (hci_slip_rx_buffer_register (Some buf) len s)) =
      then_do (up \<lparr>evt_type = HCI_SLIP_RX_RDY, packet = Some buf1, packet_length = of_nat (length bs)\<rparr> v)
        (irq_rest (uart_event_handler (slip_uart_eventhandler up)))"
proof -
  obtain t where t: "hci_rxs up (APP_SLIP_END # hci_codes bs) (snd (hci_slip_rx_buffer_register (Some buf) len s)) = Inr t"
      "rx_stuffing t" "rx_acc t = bs" "rx_room t + length bs = unat len"
    using hci_receive_packet [OF assms(1-3), of bs up] assms(4) by (auto simp: ok_iff)
  have o: "rx_open t" "0 < rx_room t" using t assms(4) by (simp_all add: rx_stuffing_def)
  obtain buf1 where b: "mp_rx_buffer t = Some buf1" "unat (m_rx_buffer_length t) \<le> length buf1"
    using o(1) by (auto simp: rx_open_def split: option.splits)
  have c: "unat (m_rx_received_count t) = length bs" "take (length bs) buf1 = bs"
    using t(3) b o(1) by (auto simp: rx_acc_def rx_open_def word_le_nat_alt)
  have "0 < length bs" using assms(5) by simp
  let ?v = "(byte_received APP_SLIP_END t)\<lparr>m_rx_received_count := 0, mp_rx_buffer := None\<rparr>"
  have "0 < m_rx_received_count t" "m_rx_received_count t = of_nat (length bs)"
    using c(1) \<open>0 < length bs\<close> by (simp_all add: word_less_nat_alt c(1) [symmetric])
  then have "hci_rx up APP_SLIP_END t =
      then_do (up \<lparr>evt_type = HCI_SLIP_RX_RDY, packet = Some buf1, packet_length = of_nat (length bs)\<rparr> ?v)
        (irq_rest (uart_event_handler (slip_uart_eventhandler up)))"
    using t(2) b(1) hci_rx_room [OF o, of up APP_SLIP_END] assms(2)
    by (simp add: call_handle_rx_byte_def rx_byte_default_def handle_slip_end_def byte_received_def rx_stuffing_def
        rx_open_def)
  then show ?thesis using c(2) by (intro exI [of _ buf1] exI [of _ ?v]) (simp add: hci_rxs_frame t(1) del: hci_rxs.simps)
qed

text \<open>The layer above stops the run with a fault that tells whether the event is the right one.\<close>

definition sample_upper :: "hci_slip_evt_t \<Rightarrow> hci_slip \<Rightarrow> hci_slip result" where
  "sample_upper e s = Inl (if map_option (take (length [0x41 :: u8, 0xC0])) (packet e) = Some [0x41, 0xC0] \<and> packet_length e = 2
     then (if evt_type e = HCI_SLIP_RX_RDY then Reset else Hang) else Null_Deref)"

lemma sample_frame: "hci_frame [0x41, 0xC0] = [0xC0, 0x41, 0xDB, 0xDC, 0xC0]"
  by (simp add: hci_frame_def hci_code_def app_slip_codes)

lemma sample_slip_receiving: "port_receiving sample_slip" "m_slip_event_handler sample_slip"
  by (simp_all add: sample_slip_def port_receiving_def UART_RX_BUF_def)

theorem hci_slip_receives_witness:
  "hci_rxs sample_upper [0xC0, 0x41, 0xDB, 0xDC, 0xC0]
     (snd (hci_slip_rx_buffer_register (Some [0, 0, 0]) 3 sample_slip)) = Inl Reset"
  using hci_slip_receives [OF sample_slip_receiving, of 3 "[0, 0, 0]" "[0x41, 0xC0]" sample_upper]
  by (auto simp: sample_frame sample_upper_def simp del: hci_rxs.simps)

text \<open>
  A packet that fills the receive buffer exactly is lost: the check for room comes before the byte is looked at,
  so that its end byte is reported as an overflow and the packet is never delivered.
\<close>

theorem hci_slip_exact_fit:
  assumes "port_receiving s" and "m_slip_event_handler s" and "unat len \<le> length buf"
    and "length bs = unat len" and "bs \<noteq> []"
  shows "\<exists>buf1 v. take (length bs) buf1 = bs \<and>
    hci_rxs up (hci_frame bs) (snd (hci_slip_rx_buffer_register (Some buf) len s)) =
      then_do (up \<lparr>evt_type = HCI_SLIP_RX_OVERFLOW, packet = Some buf1, packet_length = len\<rparr> v)
        (irq_rest (uart_event_handler (slip_uart_eventhandler up)))"
proof -
  have "0 < unat len" using assms(5) by (simp add: assms(4) [symmetric])
  then obtain t where t: "hci_rxs up (APP_SLIP_END # hci_codes bs) (snd (hci_slip_rx_buffer_register (Some buf) len s)) = Inr t"
      "rx_stuffing t" "rx_acc t = bs" "rx_room t + length bs = unat len"
    using hci_receive_packet [OF assms(1-3), of bs up] assms(4) by (auto simp: ok_iff)
  have o: "rx_open t" "rx_room t = 0" using t assms(4) by (simp_all add: rx_stuffing_def)
  obtain buf1 where b: "mp_rx_buffer t = Some buf1" "unat (m_rx_buffer_length t) \<le> length buf1"
    using o(1) by (auto simp: rx_open_def split: option.splits)
  have c: "unat (m_rx_received_count t) = length bs" "take (length bs) buf1 = bs"
    using t(3) b o(1) by (auto simp: rx_acc_def rx_open_def word_le_nat_alt)
  have "m_rx_received_count t = len" using c(1) assms(4) by (simp add: word_eq_iff_unsigned [where 'a = nat])
  then show ?thesis using b(1) c(2) hci_rx_full [OF o, of up APP_SLIP_END]
    by (intro exI [of _ buf1] exI [of _ "byte_received APP_SLIP_END t"]) (simp add: hci_rxs_frame t(1) del: hci_rxs.simps)
qed

theorem hci_slip_exact_fit_witness:
  "hci_rxs sample_upper [0xC0, 0x41, 0xDB, 0xDC, 0xC0]
     (snd (hci_slip_rx_buffer_register (Some [0, 0]) 2 sample_slip)) = Inl Hang"
  using hci_slip_exact_fit [OF sample_slip_receiving, of 2 "[0, 0]" "[0x41, 0xC0]" sample_upper]
  by (auto simp: sample_frame sample_upper_def simp del: hci_rxs.simps)

end
