(* ===== verification/HciMemPool.thy ===== *)
theory HciMemPool
  imports LibCommon
begin

text \<open>
  The memory pool of the HCI transport, components/libraries/hci/hci_mem_pool.c. The receive buffers
  are a ring of \<open>HCI_RX_BUF_QUEUE_SIZE\<close> (a power of two, at most 32) buffers; a buffer is named by
  its index, and its contents are not modelled. Going round the ring a buffer is free, produced (it is being filled or
  waits for the reader), extracted (the reader works on it) and free again. The two configuration constants are
  fields of the state.
\<close>

unbundle bit_operations_syntax

section \<open>State and operations\<close>

record hci_mem_pool =
  HCI_RX_BUF_QUEUE_SIZE :: u32
  HCI_RX_BUF_SIZE :: u32
  m_is_tx_allocated :: bool
  rx_lengths :: "u32 list"
  free_window_count :: u32
  free_available_count :: u32
  read_available_count :: u32
  write_index :: u32
  read_index :: u32
  free_index :: u32

definition pool_mask :: "hci_mem_pool \<Rightarrow> u32" where
  "pool_mask s = HCI_RX_BUF_QUEUE_SIZE s - 1"

text \<open>\<open>1u << i\<close>.\<close>

definition bit_of :: "u32 \<Rightarrow> u32 result" where
  "bit_of i = (if i < 32 then Inr (push_bit (unat i) 1) else Inl Bad_Shift)"

definition hci_mem_pool_open :: "hci_mem_pool \<Rightarrow> ret_code \<times> hci_mem_pool" where
  "hci_mem_pool_open s = (NRF_SUCCESS, s\<lparr>m_is_tx_allocated := False,
     free_window_count := HCI_RX_BUF_QUEUE_SIZE s, free_available_count := 0, read_available_count := 0,
     write_index := 0, read_index := 0, free_index := 0\<rparr>)"

definition hci_mem_pool_close :: "hci_mem_pool \<Rightarrow> ret_code \<times> hci_mem_pool" where
  "hci_mem_pool_close s = (NRF_SUCCESS, s)"

text \<open>There is one transmit buffer; \<open>True\<close> in the result: the caller got it.\<close>

definition hci_mem_pool_tx_alloc :: "bool \<Rightarrow> hci_mem_pool \<Rightarrow> ret_code \<times> bool \<times> hci_mem_pool" where
  "hci_mem_pool_tx_alloc pp_buffer s =
     (if \<not> pp_buffer then (NRF_ERROR_NULL, False, s)
      else if \<not> m_is_tx_allocated s then (NRF_SUCCESS, True, s\<lparr>m_is_tx_allocated := True\<rparr>)
      else (NRF_ERROR_NO_MEM, False, s))"

definition hci_mem_pool_tx_free :: "hci_mem_pool \<Rightarrow> ret_code \<times> hci_mem_pool" where
  "hci_mem_pool_tx_free s = (NRF_SUCCESS, s\<lparr>m_is_tx_allocated := False\<rparr>)"

definition hci_mem_pool_rx_produce ::
    "u32 \<Rightarrow> bool \<Rightarrow> hci_mem_pool \<Rightarrow> (ret_code \<times> u32 option \<times> hci_mem_pool) result" where
  "hci_mem_pool_rx_produce length' pp_buffer s =
     (if \<not> pp_buffer then Inr (NRF_ERROR_NULL, None, s)
      else if free_window_count s \<noteq> 0
      then
        if length' \<le> HCI_RX_BUF_SIZE s
        then then_do (bit_of (write_index s)) (\<lambda>b.
          Inr (NRF_SUCCESS, Some (write_index s),
            s\<lparr>free_window_count := free_window_count s - 1, read_available_count := read_available_count s + 1,
              free_index := free_index s OR b, write_index := (write_index s + 1) AND pool_mask s\<rparr>))
        else Inr (NRF_ERROR_DATA_SIZE, None, s)
      else Inr (NRF_ERROR_NO_MEM, None, s))"

text \<open>The search for the buffer: it goes round the ring up to the read index.\<close>

fun consume_find :: "nat \<Rightarrow> u32 \<Rightarrow> u32 \<Rightarrow> hci_mem_pool \<Rightarrow> (ret_code \<times> u32 \<times> hci_mem_pool) result" where
  "consume_find 0 p_buffer i s = Inl Hang"
| "consume_find (Suc n) p_buffer i s =
     (if i = p_buffer
      then then_do (bit_of i) (\<lambda>b. Inr (NRF_SUCCESS, i, s\<lparr>free_index := free_index s XOR b\<rparr>))
      else
        let i1 = (i + 1) AND pool_mask s
        in if i1 \<noteq> read_index s then consume_find n p_buffer i1 s else Inr (NRF_ERROR_INVALID_ADDR, i1, s))"

text \<open>
  The release loop. After the first round \<open>start_index\<close> is always the index behind the consumed
  buffer; it does not move on.
\<close>

fun consume_release :: "nat \<Rightarrow> u32 \<Rightarrow> u32 \<Rightarrow> hci_mem_pool \<Rightarrow> hci_mem_pool result" where
  "consume_release 0 start_index consume_index s = Inl Hang"
| "consume_release (Suc n) start_index consume_index s =
     then_do (bit_of start_index) (\<lambda>b.
       if free_index s AND b = 0 \<and> free_available_count s \<noteq> 0
       then consume_release n ((consume_index + 1) AND pool_mask s) consume_index
              (s\<lparr>free_available_count := free_available_count s - 1, free_window_count := free_window_count s + 1\<rparr>)
       else Inr s)"

text \<open>The fuel: the search visits every slot at most once, the release loop counts \<open>free_available_count\<close> down.\<close>

definition hci_mem_pool_rx_consume :: "u32 \<Rightarrow> hci_mem_pool \<Rightarrow> (ret_code \<times> hci_mem_pool) result" where
  "hci_mem_pool_rx_consume p_buffer s =
     (if free_available_count s \<noteq> 0
      then
        let start_index = (read_index s - free_available_count s) AND pool_mask s
        in then_do (consume_find (unat (HCI_RX_BUF_QUEUE_SIZE s)) p_buffer start_index s) (\<lambda>(err_code, consume_index, s1).
           then_do (consume_release (Suc (unat (free_available_count s1))) start_index consume_index s1) (\<lambda>s2.
           Inr (err_code, s2)))
      else Inr (NRF_ERROR_NO_MEM, s))"

definition hci_mem_pool_rx_data_size_set :: "u32 \<Rightarrow> hci_mem_pool \<Rightarrow> (ret_code \<times> hci_mem_pool) result" where
  "hci_mem_pool_rx_data_size_set length' s =
     (let index = (write_index s - 1) AND pool_mask s
      in then_do (store_at (rx_lengths s) (unat index) length') (\<lambda>l. Inr (NRF_SUCCESS, s\<lparr>rx_lengths := l\<rparr>)))"

definition hci_mem_pool_rx_extract ::
    "bool \<Rightarrow> bool \<Rightarrow> hci_mem_pool \<Rightarrow> (ret_code \<times> (u32 \<times> u32) option \<times> hci_mem_pool) result" where
  "hci_mem_pool_rx_extract pp_buffer p_length s =
     (if \<not> pp_buffer \<or> \<not> p_length then Inr (NRF_ERROR_NULL, None, s)
      else if read_available_count s \<noteq> 0
      then then_do (load_at (rx_lengths s) (unat (read_index s))) (\<lambda>l.
        Inr (NRF_SUCCESS, Some (read_index s, l),
          s\<lparr>read_available_count := read_available_count s - 1, free_available_count := free_available_count s + 1,
            read_index := (read_index s + 1) AND pool_mask s\<rparr>))
      else Inr (NRF_ERROR_NO_MEM, None, s))"

section \<open>The ring\<close>

definition ring_size :: "hci_mem_pool \<Rightarrow> nat" where
  "ring_size s = unat (HCI_RX_BUF_QUEUE_SIZE s)"

text \<open>The oldest buffer that has been extracted and not released.\<close>

definition ring_base :: "hci_mem_pool \<Rightarrow> nat" where
  "ring_base s = (unat (read_index s) + ring_size s - unat (free_available_count s)) mod ring_size s"

definition ring_seg :: "nat \<Rightarrow> nat \<Rightarrow> nat \<Rightarrow> nat list" where
  "ring_seg m st n = map (\<lambda>k. (st + k) mod m) [0..<n]"

text \<open>The buffers the reader works on, and those produced before them, oldest first.\<close>

definition extracted :: "hci_mem_pool \<Rightarrow> nat list" where
  "extracted s = ring_seg (ring_size s) (ring_base s) (unat (free_available_count s))"

definition produced :: "hci_mem_pool \<Rightarrow> nat list" where
  "produced s = ring_seg (ring_size s) (unat (read_index s)) (unat (read_available_count s))"

definition ring_ok :: "hci_mem_pool \<Rightarrow> bool" where
  "ring_ok s \<longleftrightarrow> (\<exists>k\<le>5. HCI_RX_BUF_QUEUE_SIZE s = 2 ^ k) \<and> length (rx_lengths s) = ring_size s \<and>
     unat (read_index s) < ring_size s \<and>
     unat (write_index s) = (unat (read_index s) + unat (read_available_count s)) mod ring_size s \<and>
     unat (free_window_count s) + unat (free_available_count s) + unat (read_available_count s) = ring_size s"

text \<open>With the buffers returned in order, the bits of \<open>free_index\<close> are the buffers in use.\<close>

definition pool_ok :: "hci_mem_pool \<Rightarrow> bool" where
  "pool_ok s \<longleftrightarrow> ring_ok s \<and> (\<forall>i < ring_size s. bit (free_index s) i \<longleftrightarrow> i \<in> set (extracted s @ produced s))"

lemma pool_mask_frame [simp]:
  "pool_mask (s\<lparr>free_index := x\<rparr>) = pool_mask s"
  "pool_mask (s\<lparr>free_available_count := c\<rparr>) = pool_mask s"
  "pool_mask (s\<lparr>free_window_count := c\<rparr>) = pool_mask s"
  by (simp_all add: pool_mask_def)

lemma ring_frame [simp]:
  "ring_size (s\<lparr>free_index := x\<rparr>) = ring_size s"
  "ring_base (s\<lparr>free_index := x\<rparr>) = ring_base s"
  by (simp_all add: ring_size_def ring_base_def)

lemma mem_mask_unat:
  assumes "ring_ok s"
  shows "unat (x AND pool_mask s) = unat x mod ring_size s" and "0 < ring_size s" and "ring_size s \<le> 32"
proof -
  obtain k where k: "k \<le> 5" "HCI_RX_BUF_QUEUE_SIZE s = 2 ^ k" using assms by (auto simp: ring_ok_def)
  have "2 ^ k \<le> (2 :: nat) ^ 5" using k(1) by (intro power_increasing) simp_all
  then have m: "ring_size s = 2 ^ k" "(2 :: nat) ^ k \<le> 32"
    using k \<open>2 ^ k \<le> 2 ^ 5\<close> unat_of_nat_u32 [of "2 ^ k"] by (simp_all add: ring_size_def)
  have "pool_mask s = mask k" using k by (simp add: pool_mask_def mask_eq_exp_minus_1)
  then show "unat (x AND pool_mask s) = unat x mod ring_size s" using m by (simp add: unat_and_mask)
  show "0 < ring_size s" "ring_size s \<le> 32" using m by simp_all
qed

lemma length_ring_seg [simp]: "length (ring_seg m st n) = n"
  by (simp add: ring_seg_def)

lemma ring_seg_mod: "ring_seg m (st mod m) n = ring_seg m st n"
  by (simp add: ring_seg_def mod_simps)

lemma ring_seg_append: "ring_seg m st (a + b) = ring_seg m st a @ ring_seg m ((st + a) mod m) b"
proof -
  have "[a..<a + b] = map (\<lambda>k. k + a) [0..<b]" by (simp add: map_add_upt add.commute)
  then show ?thesis
    by (simp add: ring_seg_mod) (simp add: ring_seg_def upt_add_eq_append [of 0 a b] comp_def ac_simps)
qed

lemma ring_seg_Suc: "ring_seg m st (Suc n) = ring_seg m st n @ [(st + n) mod m]"
  by (simp add: ring_seg_def)

lemma ring_seg_Cons: "st < m \<Longrightarrow> ring_seg m st (Suc n) = st # ring_seg m (Suc st mod m) n"
  using ring_seg_append [of m st 1 n] by (simp add: ring_seg_def)

lemma distinct_ring_seg: "n \<le> m \<Longrightarrow> distinct (ring_seg m st n)"
proof (induction n)
  case (Suc n)
  have "(st + n) mod m \<notin> set (ring_seg m st n)"
  proof
    assume "(st + n) mod m \<in> set (ring_seg m st n)"
    then obtain k where "k < n" "(st + k) mod m = (st + n) mod m" by (auto simp: ring_seg_def)
    then show False using mod_add_inj_less [of k n m st] Suc.prems by simp
  qed
  then show ?case using Suc by (simp add: ring_seg_Suc)
qed (simp add: ring_seg_def)

lemma ring_base_less: "ring_ok s \<Longrightarrow> ring_base s < ring_size s"
  using mem_mask_unat(2) by (simp add: ring_base_def)

lemma base_to_read: "ring_ok s \<Longrightarrow> (ring_base s + unat (free_available_count s)) mod ring_size s = unat (read_index s)"
  by (simp add: ring_base_def ring_ok_def mod_simps)

lemma in_use_seg:
  "ring_ok s \<Longrightarrow> extracted s @ produced s =
     ring_seg (ring_size s) (ring_base s) (unat (free_available_count s) + unat (read_available_count s))"
  by (simp add: extracted_def produced_def ring_seg_append base_to_read)

lemma in_use_distinct: "ring_ok s \<Longrightarrow> distinct (extracted s @ produced s)"
  by (simp only: in_use_seg) (rule distinct_ring_seg, simp add: ring_ok_def)

text \<open>The index where the search starts is the oldest extracted buffer.\<close>

lemma start_index_base:
  assumes "ring_ok s"
  shows "unat ((read_index s - free_available_count s) AND pool_mask s) = ring_base s"
proof -
  let ?n = "HCI_RX_BUF_QUEUE_SIZE s"
  have n: "ring_size s \<le> 32" "unat (read_index s) < ring_size s" "unat (free_available_count s) \<le> ring_size s"
    using mem_mask_unat(3) [OF assms] assms by (simp_all add: ring_ok_def)
  have "unat (read_index s + ?n) = unat (read_index s) + ring_size s"
    using n by (simp add: unat_word_ariths ring_size_def)
  moreover from this have "unat (read_index s + ?n - free_available_count s) =
      unat (read_index s) + ring_size s - unat (free_available_count s)"
    using n by (subst unat_sub) (simp_all add: word_le_nat_alt)
  moreover have "(read_index s + ?n - free_available_count s) AND pool_mask s =
      (read_index s - free_available_count s) AND pool_mask s"
  proof -
    obtain k where k: "k \<le> 5" "?n = 2 ^ k" using assms by (auto simp: ring_ok_def)
    have "unat ((x + 2 ^ k) AND mask k) = unat (x AND mask k)" for x :: u32
    proof -
      have "unat (2 ^ k :: u32) = 2 ^ k" using k assms unat_of_nat_u32 [of "2 ^ k"] power_increasing [of k 5 "2 :: nat"] by simp
      moreover have "(2 :: nat) ^ k dvd 2 ^ 32" using k(1) by (intro le_imp_power_dvd) simp
      ultimately show ?thesis by (simp add: unat_and_mask unat_word_ariths mod_mod_cancel)
    qed
    then have "(x + 2 ^ k) AND mask k = x AND mask k" for x :: u32
      by (simp add: word_eq_iff_unsigned [where 'a = nat])
    from this [of "read_index s - free_available_count s"] show ?thesis
      using k by (simp add: pool_mask_def mask_eq_exp_minus_1 algebra_simps)
  qed
  ultimately show ?thesis using mem_mask_unat(1) [OF assms] by (metis ring_base_def)
qed

lemma step_index:
  assumes "ring_ok s" and "unat i < ring_size s"
  shows "unat ((i + 1) AND pool_mask s) = Suc (unat i) mod ring_size s"
  using assms mem_mask_unat [OF assms(1)] by (simp add: unat_word_ariths)

text \<open>Bits of \<open>free_index\<close>.\<close>

lemma bit_of_ok: "unat i < 32 \<Longrightarrow> bit_of i = Inr (push_bit (unat i) 1)"
  by (simp add: bit_of_def word_less_nat_alt)

lemma and_bit_0_iff: "i < 32 \<Longrightarrow> (x :: u32) AND push_bit i 1 = 0 \<longleftrightarrow> \<not> bit x i"
proof
  assume "x AND push_bit i 1 = 0" and "i < 32"
  then have "\<not> bit (x AND push_bit i 1) i" by simp
  then show "\<not> bit x i" using \<open>i < 32\<close> by (simp add: bit_and_iff bit_push_bit_iff del: push_bit_of_1)
next
  assume "\<not> bit x i"
  then show "x AND push_bit i 1 = 0" by (intro bit_word_eqI) (auto simp: bit_and_iff bit_push_bit_iff bit_1_iff simp del: push_bit_of_1)
qed

lemma bit_set_clear:
  "j < 32 \<Longrightarrow> i < 32 \<Longrightarrow> bit ((x :: u32) OR push_bit i 1) j \<longleftrightarrow> j = i \<or> bit x j"
  "j < 32 \<Longrightarrow> i < 32 \<Longrightarrow> bit x i \<Longrightarrow> bit ((x :: u32) XOR push_bit i 1) j \<longleftrightarrow> j \<noteq> i \<and> bit x j"
  by (auto simp: bit_simps)

section \<open>The pool used in order\<close>

lemma produce_ok:
  assumes s: "pool_ok s" and w: "free_window_count s \<noteq> 0" and len: "len \<le> HCI_RX_BUF_SIZE s"
  shows "ok (hci_mem_pool_rx_produce len True s) (\<lambda>(r, b, t). r = NRF_SUCCESS \<and> b = Some (write_index s) \<and> pool_ok t \<and>
    extracted t = extracted s \<and> produced t = produced s @ [unat (write_index s)] \<and>
    unat (write_index s) \<notin> set (extracted s @ produced s))"
proof -
  let ?m = "ring_size s" and ?w = "unat (write_index s)" and ?a = "unat (free_available_count s)" and ?r = "unat (read_available_count s)"
  have o: "ring_ok s" using s by (simp add: pool_ok_def)
  note m = mem_mask_unat(2,3) [OF o]
  have c: "unat (free_window_count s) + ?a + ?r = ?m" "0 < unat (free_window_count s)"
    using o w by (simp_all add: ring_ok_def unat_gt_0)
  have wi: "?w = (unat (read_index s) + ?r) mod ?m" using o by (simp add: ring_ok_def)
  then have wl: "?w < ?m" using m by simp
  then have wl2: "?w < 32" using m by simp
  let ?t = "s\<lparr>free_window_count := free_window_count s - 1, read_available_count := read_available_count s + 1,
      free_index := free_index s OR push_bit ?w 1, write_index := (write_index s + 1) AND pool_mask s\<rparr>"
  have run: "hci_mem_pool_rx_produce len True s = Inr (NRF_SUCCESS, Some (write_index s), ?t)"
    using w len wl2 by (simp add: hci_mem_pool_rx_produce_def bit_of_ok)
  have f: "ring_size ?t = ?m" "ring_base ?t = ring_base s" "extracted ?t = extracted s"
    by (simp_all add: ring_size_def ring_base_def extracted_def)
  have r1: "unat (read_available_count s + 1) = Suc ?r" "unat (free_window_count s - 1) = unat (free_window_count s) - 1"
    using c m by (simp_all add: unat_word_ariths unat_minus_one w)
  have p: "produced ?t = produced s @ [?w]"
    by (simp add: produced_def r1 ring_seg_Suc wi ring_size_def)
  have wn: "unat ((write_index s + 1) AND pool_mask s) = Suc ?w mod ?m" by (rule step_index [OF o wl])
  have "ring_ok ?t"
    unfolding ring_ok_def f(1) using o c wn wi by (simp add: ring_ok_def r1 mod_simps)
  moreover have "bit (free_index ?t) i \<longleftrightarrow> i \<in> set (extracted ?t @ produced ?t)" if "i < ?m" for i
    unfolding p f using s that m wl2 by (auto simp: pool_ok_def bit_set_clear simp del: push_bit_of_1)
  ultimately have "pool_ok ?t" unfolding pool_ok_def f(1) by blast
  moreover have "?w \<notin> set (extracted s @ produced s)"
    using in_use_distinct [OF \<open>ring_ok ?t\<close>] unfolding p f by simp
  ultimately show ?thesis unfolding run using p f(3) by simp
qed

lemma extract_ok:
  assumes s: "pool_ok s" and r: "read_available_count s \<noteq> 0"
  shows "ok (hci_mem_pool_rx_extract True True s) (\<lambda>(r, b, t). r = NRF_SUCCESS \<and>
    b = Some (read_index s, rx_lengths s ! unat (read_index s)) \<and> pool_ok t \<and>
    extracted t = extracted s @ [unat (read_index s)] \<and> produced s = unat (read_index s) # produced t)"
proof -
  let ?m = "ring_size s" and ?i = "unat (read_index s)" and ?a = "unat (free_available_count s)"
  have o: "ring_ok s" using s by (simp add: pool_ok_def)
  note m = mem_mask_unat(2,3) [OF o]
  have i: "?i < ?m" "length (rx_lengths s) = ?m" using o by (simp_all add: ring_ok_def)
  obtain l where l: "unat (read_available_count s) = Suc l"
    using r by (cases "unat (read_available_count s)") (auto simp: unat_eq_0)
  have c: "unat (free_window_count s) + ?a + Suc l = ?m" using o by (simp add: ring_ok_def l)
  let ?t = "s\<lparr>read_available_count := read_available_count s - 1, free_available_count := free_available_count s + 1,
      read_index := (read_index s + 1) AND pool_mask s\<rparr>"
  have run: "hci_mem_pool_rx_extract True True s = Inr (NRF_SUCCESS, Some (read_index s, rx_lengths s ! ?i), ?t)"
    using r i by (simp add: hci_mem_pool_rx_extract_def load_at_def)
  have n: "unat (read_available_count s - 1) = l" "unat (free_available_count s + 1) = Suc ?a"
    using c m r l by (simp_all add: unat_word_ariths unat_minus_one)
  have rn: "unat ((read_index s + 1) AND pool_mask s) = Suc ?i mod ?m" by (rule step_index [OF o i(1)])
  have f: "ring_size ?t = ?m" by (simp add: ring_size_def)
  have b: "ring_base ?t = ring_base s"
  proof -
    have "(Suc ?i mod ?m + ?m - Suc ?a) mod ?m = (?i + ?m - ?a) mod ?m"
    proof -
      have "Suc ?i mod ?m + ?m - Suc ?a = Suc ?i mod ?m + (?m - Suc ?a)" "?i + ?m - ?a = Suc ?i + (?m - Suc ?a)"
        using c by simp_all
      then show ?thesis by (simp only: mod_add_left_eq)
    qed
    then show ?thesis by (simp add: ring_base_def f n rn)
  qed
  have e: "extracted ?t = extracted s @ [?i]"
    using base_to_read [OF o] by (simp add: extracted_def f b n ring_seg_Suc)
  have p: "produced s = ?i # produced ?t"
    by (simp add: produced_def f l n rn ring_seg_Cons [OF i(1)])
  have "ring_ok ?t"
    unfolding ring_ok_def f using o c rn by (simp add: ring_ok_def n l mod_simps)
  then have "pool_ok ?t" using s by (simp add: pool_ok_def f e p)
  then show ?thesis unfolding run using e p by simp
qed

text \<open>Returning the oldest extracted buffer.\<close>

lemma unat_pred_Suc: "unat x = Suc l \<Longrightarrow> unat (x - 1) = l"
  by (cases "x = 0") (auto simp: unat_minus_one)

text \<open>Releasing the oldest buffer in use clears its bit; the rest of the ring is untouched.\<close>

definition oldest_released :: "hci_mem_pool \<Rightarrow> hci_mem_pool" where
  "oldest_released s = s\<lparr>free_index := free_index s XOR push_bit (ring_base s) 1,
     free_available_count := free_available_count s - 1, free_window_count := free_window_count s + 1\<rparr>"

lemma oldest_in_use:
  assumes s: "pool_ok s" and l: "unat (free_available_count s) = Suc l"
  defines "rest \<equiv> ring_seg (ring_size s) (Suc (ring_base s) mod ring_size s) l"
  shows "extracted s = ring_base s # rest"
    and "ring_base s \<notin> set rest \<union> set (produced s)"
    and "j < ring_size s \<Longrightarrow> bit (free_index s XOR push_bit (ring_base s) 1) j \<longleftrightarrow>
      j \<in> set rest \<union> set (produced s)"
proof -
  have o: "ring_ok s" using s by (simp add: pool_ok_def)
  have b: "ring_base s < ring_size s" "ring_base s < 32"
    using ring_base_less [OF o] mem_mask_unat(2,3) [OF o] by simp_all
  show e: "extracted s = ring_base s # rest"
    by (simp add: extracted_def l rest_def ring_seg_Cons [OF b(1)])
  show dist: "ring_base s \<notin> set rest \<union> set (produced s)"
    using in_use_distinct [OF o] by (simp add: e)
  have "bit (free_index s) (ring_base s)" using s b(1) by (simp add: pool_ok_def e)
  then show "bit (free_index s XOR push_bit (ring_base s) 1) j \<longleftrightarrow> j \<in> set rest \<union> set (produced s)"
    if "j < ring_size s" using s that mem_mask_unat(3) [OF o] b dist
    by (auto simp: bit_set_clear pool_ok_def e simp del: push_bit_of_1)
qed

lemma oldest_released_ok:
  assumes s: "pool_ok s" and l: "unat (free_available_count s) = Suc l"
  shows "pool_ok (oldest_released s) \<and> extracted s = ring_base s # extracted (oldest_released s) \<and>
    produced (oldest_released s) = produced s"
proof -
  let ?t = "oldest_released s" and ?m = "ring_size s" and ?b = "ring_base s"
  have o: "ring_ok s" using s by (simp add: pool_ok_def)
  have c: "unat (free_window_count s) + Suc l + unat (read_available_count s) = ?m"
    using o by (simp add: ring_ok_def l)
  then have n: "unat (free_available_count s - 1) = l"
      "unat (free_window_count s + 1) = Suc (unat (free_window_count s))"
    using mem_mask_unat(2,3) [OF o] unat_pred_Suc [OF l] by (auto simp: unat_word_ariths)
  have f: "ring_size ?t = ?m" "produced ?t = produced s"
    by (simp_all add: ring_size_def produced_def oldest_released_def)
  have "unat (read_index s) + ?m - l = Suc (unat (read_index s) + ?m - Suc l)" using c by simp
  then have "ring_base ?t = Suc (unat (read_index s) + ?m - Suc l) mod ?m"
    unfolding ring_base_def [of ?t] f by (simp add: n oldest_released_def)
  then have base: "ring_base ?t = Suc ?b mod ?m" by (simp add: ring_base_def [of s] l mod_Suc_eq)
  have e1: "extracted ?t = ring_seg ?m (Suc ?b mod ?m) l"
    unfolding extracted_def [of ?t] f base by (simp add: n oldest_released_def)
  have "ring_ok ?t" unfolding ring_ok_def f using o c by (simp add: ring_ok_def n oldest_released_def)
  then have "pool_ok ?t"
    unfolding pool_ok_def f e1 using oldest_in_use(3) [OF s l] by (simp add: oldest_released_def)
  then show ?thesis using oldest_in_use(1) [OF s l] e1 f by simp
qed

lemma consume_release_oldest:
  assumes s: "pool_ok s" and l: "unat (free_available_count s) = Suc l" and p: "unat p = ring_base s"
  shows "consume_release (Suc (Suc l)) p p (s\<lparr>free_index := free_index s XOR push_bit (ring_base s) 1\<rparr>)
    = Inr (oldest_released s)"
proof -
  let ?m = "ring_size s" and ?b = "ring_base s" and ?i = "(p + 1) AND pool_mask s"
  have o: "ring_ok s" using s by (simp add: pool_ok_def)
  note m = mem_mask_unat(2,3) [OF o] and clear = oldest_in_use(2,3) [OF s l]
  have b: "?b < ?m" "?b < 32" using ring_base_less [OF o] m by simp_all
  have a: "free_available_count s \<noteq> 0" and n: "unat (free_available_count s - 1) = l"
    using l unat_pred_Suc [OF l] by auto
  have i: "unat ?i = Suc ?b mod ?m" using step_index [OF o, of p] b(1) p by simp
  have i32: "unat ?i < 32" unfolding i using m by (meson less_le_trans mod_less_divisor)
  have first: "(free_index s XOR push_bit ?b 1) AND push_bit ?b 1 = 0"
    using clear(2) [OF b(1)] clear(1) by (simp only: and_bit_0_iff [OF b(2)]) simp
  have stop: "bit (free_index s XOR push_bit ?b 1) (Suc ?b mod ?m)" if "l \<noteq> 0"
    using clear(2) [of "Suc ?b mod ?m"] that m by (cases l) (simp_all add: ring_seg_Cons)
  have "l \<noteq> 0" if "free_available_count s - 1 \<noteq> 0" using that n by (metis unat_eq_0)
  then have second: "\<not> ((free_index s XOR push_bit ?b 1) AND push_bit (unat ?i) 1 = 0 \<and>
      free_available_count s - 1 \<noteq> 0)"
    unfolding and_bit_0_iff [OF i32] unfolding i using stop by blast
  show ?thesis
    using first second a b(2) p i32
    by (auto simp: bit_of_ok [of p] bit_of_ok [of ?i] oldest_released_def simp del: push_bit_of_1)
qed

lemma consume_oldest:
  assumes s: "pool_ok s" and a: "free_available_count s \<noteq> 0" and p: "unat p_buffer = ring_base s"
  shows "ok (hci_mem_pool_rx_consume p_buffer s) (\<lambda>(r, t). r = NRF_SUCCESS \<and> pool_ok t \<and>
    extracted s = unat p_buffer # extracted t \<and> produced t = produced s)"
proof -
  have o: "ring_ok s" using s by (simp add: pool_ok_def)
  note m = mem_mask_unat(2,3) [OF o]
  have b: "ring_base s < 32" using ring_base_less [OF o] m by simp
  have st: "(read_index s - free_available_count s) AND pool_mask s = p_buffer"
    using start_index_base [OF o] p by (simp add: word_eq_iff_unsigned [where 'a = nat])
  obtain l where l: "unat (free_available_count s) = Suc l"
    using a by (cases "unat (free_available_count s)") (auto simp: unat_eq_0)
  obtain m1 where m1: "unat (HCI_RX_BUF_QUEUE_SIZE s) = Suc m1"
    using m(1) by (cases "unat (HCI_RX_BUF_QUEUE_SIZE s)") (simp_all add: ring_size_def)
  have "hci_mem_pool_rx_consume p_buffer s = Inr (NRF_SUCCESS, oldest_released s)"
    using consume_release_oldest [OF s l p] a b p
    by (simp add: hci_mem_pool_rx_consume_def Let_def st m1 bit_of_ok l del: push_bit_of_1 consume_release.simps)
  then show ?thesis using oldest_released_ok [OF s l] p by simp
qed

text \<open>
  Used in order, the pool is a ring that never gives a buffer away twice: a produced buffer is one that is neither
  waiting for the reader nor being read, the reader gets the buffers in the order in which they were produced, with the lengths that were set, and
  returning the oldest one makes exactly that one free again.
\<close>

theorem mem_pool_in_order:
  assumes "pool_ok s"
  shows "(free_window_count s \<noteq> 0 \<and> len \<le> HCI_RX_BUF_SIZE s \<longrightarrow>
      ok (hci_mem_pool_rx_produce len True s) (\<lambda>(r, b, t). r = NRF_SUCCESS \<and> b = Some (write_index s) \<and> pool_ok t \<and>
        extracted t = extracted s \<and> produced t = produced s @ [unat (write_index s)] \<and>
        unat (write_index s) \<notin> set (extracted s @ produced s))) \<and>
    (read_available_count s \<noteq> 0 \<longrightarrow>
      ok (hci_mem_pool_rx_extract True True s) (\<lambda>(r, b, t). r = NRF_SUCCESS \<and>
        b = Some (read_index s, rx_lengths s ! unat (read_index s)) \<and> pool_ok t \<and>
        extracted t = extracted s @ [unat (read_index s)] \<and> produced s = unat (read_index s) # produced t)) \<and>
    (free_available_count s \<noteq> 0 \<and> unat p_buffer = hd (extracted s) \<longrightarrow>
      ok (hci_mem_pool_rx_consume p_buffer s) (\<lambda>(r, t). r = NRF_SUCCESS \<and> pool_ok t \<and>
        extracted s = unat p_buffer # extracted t \<and> produced t = produced s))"
proof -
  have "hd (extracted s) = ring_base s" if a: "free_available_count s \<noteq> 0"
  proof -
    obtain l where "unat (free_available_count s) = Suc l"
      using a by (cases "unat (free_available_count s)") (auto simp: unat_eq_0)
    moreover have "ring_base s < ring_size s" using assms ring_base_less by (simp add: pool_ok_def)
    ultimately show ?thesis by (simp add: extracted_def ring_seg_Cons)
  qed
  then show ?thesis
    using produce_ok [OF assms] extract_ok [OF assms] consume_oldest [OF assms] by simp
qed

text \<open>Four buffers; buffer 1 is being read, buffer 2 waits, buffers 3 and 0 are free.\<close>

definition sample_pool :: hci_mem_pool where
  "sample_pool = \<lparr>HCI_RX_BUF_QUEUE_SIZE = 4, HCI_RX_BUF_SIZE = 600, m_is_tx_allocated = False,
     rx_lengths = [0, 10, 20, 0], free_window_count = 2, free_available_count = 1, read_available_count = 1,
     write_index = 3, read_index = 2, free_index = 6\<rparr>"

lemma sample_pool_segments: "extracted sample_pool = [1]" "produced sample_pool = [2]" "ring_size sample_pool = 4"
  by (simp_all add: extracted_def produced_def ring_seg_def ring_base_def ring_size_def sample_pool_def)

lemma sample_pool_ok: "pool_ok sample_pool"
proof -
  have "(4 :: u32) = 2 ^ 2" by simp
  then have "\<exists>k\<le>5. HCI_RX_BUF_QUEUE_SIZE sample_pool = 2 ^ k"
    by (intro exI [of _ 2]) (simp add: sample_pool_def)
  then have "ring_ok sample_pool"
    by (simp add: ring_ok_def sample_pool_segments) (simp add: sample_pool_def)
  moreover have "bit (6 :: u32) i \<longleftrightarrow> i = 1 \<or> i = 2" if "i < 4" for i
    using that by (auto simp: less_Suc_eq eval_nat_numeral bit_0 bit_Suc)
  ultimately show ?thesis
    by (simp add: pool_ok_def sample_pool_segments) (simp add: sample_pool_def)
qed

theorem mem_pool_in_order_witness:
  "ok (hci_mem_pool_rx_produce 5 True sample_pool) (\<lambda>(r, b, t). b = Some 3 \<and> produced t = [2, 3]) \<and>
   ok (hci_mem_pool_rx_extract True True sample_pool) (\<lambda>(r, b, t). b = Some (2, 20) \<and> extracted t = [1, 2]) \<and>
   ok (hci_mem_pool_rx_consume 1 sample_pool) (\<lambda>(r, t). r = NRF_SUCCESS \<and> extracted t = [])"
proof -
  have f: "free_window_count sample_pool = 2" "read_available_count sample_pool = 1" "free_available_count sample_pool = 1"
    "write_index sample_pool = 3" "read_index sample_pool = 2" "rx_lengths sample_pool ! 2 = 20" "HCI_RX_BUF_SIZE sample_pool = 600"
    by (simp_all add: sample_pool_def)
  show ?thesis
    using mem_pool_in_order [OF sample_pool_ok, of 5 1]
    by (auto simp: f sample_pool_segments elim!: ok_mono)
qed

text \<open>The release loop, once it looks at a returned buffer, does not move on and releases everything.\<close>

lemma consume_release_all:
  assumes "unat ((c + 1) AND pool_mask s) < 32" and "\<not> bit (free_index s) (unat ((c + 1) AND pool_mask s))"
    and "unat (free_available_count s) = n" and "unat (free_window_count s) + n < 2 ^ 32"
  shows "ok (consume_release (Suc n) ((c + 1) AND pool_mask s) c s) (\<lambda>t. free_available_count t = 0 \<and>
    unat (free_window_count t) = unat (free_window_count s) + n)"
  using assms
proof (induction n arbitrary: s)
  case 0
  then show ?case by (simp add: bit_of_ok unat_eq_0 del: push_bit_of_1)
next
  case (Suc n)
  let ?t = "s\<lparr>free_available_count := free_available_count s - 1, free_window_count := free_window_count s + 1\<rparr>"
  have ne: "free_available_count s \<noteq> 0" using Suc.prems(3) by auto
  have m: "pool_mask ?t = pool_mask s" by (simp add: pool_mask_def)
  have w: "unat (free_window_count s + 1) = Suc (unat (free_window_count s))"
    using Suc.prems(4) by (simp add: unat_word_ariths)
  have "ok (consume_release (Suc n) ((c + 1) AND pool_mask ?t) c ?t) (\<lambda>u. free_available_count u = 0 \<and>
      unat (free_window_count u) = unat (free_window_count ?t) + n)"
    using Suc.IH [of ?t, unfolded m] Suc.prems ne w
    by (simp add: m unat_minus_one del: consume_release.simps)
  then show ?case
    using Suc.prems(1,2) ne w m
    by (subst consume_release.simps) (simp add: bit_of_ok and_bit_0_iff del: push_bit_of_1 consume_release.simps)
qed

lemma extracted_two:
  assumes o: "ring_ok s" and e: "extracted s = unat (a :: u32) # unat b # rest"
  shows "unat (free_available_count s) = Suc (Suc (length rest))" and "a \<noteq> b"
    and "unat a = ring_base s" and "unat b = Suc (ring_base s) mod ring_size s"
proof -
  show len: "unat (free_available_count s) = Suc (Suc (length rest))"
    using arg_cong [OF e, of length] by (simp add: extracted_def)
  have "ring_base s < ring_size s" "Suc (ring_base s) mod ring_size s < ring_size s"
    using ring_base_less [OF o] mem_mask_unat(2) [OF o] by simp_all
  with e show "unat a = ring_base s" "unat b = Suc (ring_base s) mod ring_size s"
    by (auto simp: extracted_def len ring_seg_Cons)
  show "a \<noteq> b" using in_use_distinct [OF o] by (auto simp: e)
qed

text \<open>Returning the second oldest buffer first.\<close>

lemma consume_second:
  assumes s: "pool_ok s" and e: "extracted s = unat (a :: u32) # unat b # rest"
  shows "hci_mem_pool_rx_consume b s = Inr (NRF_SUCCESS, s\<lparr>free_index := free_index s XOR push_bit (unat b) 1\<rparr>)"
proof -
  let ?m = "ring_size s"
  have o: "ring_ok s" using s by (simp add: pool_ok_def)
  note m = mem_mask_unat(2,3) [OF o]
  note len = extracted_two(1) [OF o e] and ne = extracted_two(2) [OF o e] and ab = extracted_two(3,4) [OF o e]
  have av: "free_available_count s \<noteq> 0" using len by auto
  have bl: "ring_base s < ?m" by (rule ring_base_less [OF o])
  have "Suc (ring_base s) mod ?m < ?m" using m by simp
  have st: "(read_index s - free_available_count s) AND pool_mask s = a"
    using start_index_base [OF o] ab(1) by (simp add: word_eq_iff_unsigned [where 'a = nat])
  have nx: "(a + 1) AND pool_mask s = b"
    using step_index [OF o, of a] bl ab by (simp add: word_eq_iff_unsigned [where 'a = nat])
  have "b \<noteq> read_index s"
  proof
    assume "b = read_index s"
    then have "(Suc (ring_base s)) mod ?m = (Suc (ring_base s) + Suc (length rest)) mod ?m"
      using base_to_read [OF o] ab(2) len by simp
    moreover have "Suc (Suc (length rest)) \<le> ?m" using o len by (simp add: ring_ok_def)
    ultimately show False using mod_add_inj_less [of 0 "Suc (length rest)" ?m "Suc (ring_base s)"] by simp
  qed
  moreover have "unat b < 32" "unat a < 32" using m(2) bl \<open>Suc (ring_base s) mod ?m < ?m\<close> unfolding ab by linarith+
  moreover obtain m2 where "unat (HCI_RX_BUF_QUEUE_SIZE s) = Suc (Suc m2)"
    using o len by (cases "unat (HCI_RX_BUF_QUEUE_SIZE s)"; cases "unat (HCI_RX_BUF_QUEUE_SIZE s) - 1")
      (auto simp: ring_ok_def ring_size_def)
  moreover have "bit (free_index s) (unat a)" using s bl ab(1) by (simp add: pool_ok_def e)
  moreover have "unat a \<noteq> unat b" using ne by (simp add: word_eq_iff_unsigned [where 'a = nat])
  ultimately show ?thesis
    using av ne nx
    by (simp add: hci_mem_pool_rx_consume_def Let_def st bit_of_ok and_bit_0_iff bit_simps del: push_bit_of_1)
qed

text \<open>Returning the oldest buffer when the next one has been returned already.\<close>

lemma consume_then_all:
  assumes o: "ring_ok s" and a: "unat p_buffer = ring_base s" "free_available_count s \<noteq> 0"
    and bits: "bit (free_index s) (ring_base s)" "\<not> bit (free_index s) (Suc (ring_base s) mod ring_size s)"
  shows "ok (hci_mem_pool_rx_consume p_buffer s) (\<lambda>(r, t). r = NRF_SUCCESS \<and> free_available_count t = 0 \<and>
    unat (free_window_count t) = unat (free_window_count s) + unat (free_available_count s))"
proof -
  let ?b = "ring_base s" and ?i = "(p_buffer + 1) AND pool_mask s"
  note m = mem_mask_unat(2,3) [OF o]
  have b: "?b < ring_size s" "?b < 32" using ring_base_less [OF o] m by simp_all
  have st: "(read_index s - free_available_count s) AND pool_mask s = p_buffer"
    using start_index_base [OF o] a(1) by (simp add: word_eq_iff_unsigned [where 'a = nat])
  have i: "unat ?i = Suc ?b mod ring_size s" using step_index [OF o, of p_buffer] b(1) a(1) by simp
  also have "\<dots> < ring_size s" using m by simp
  finally have i32: "unat ?i < 32" using m by simp
  obtain l where l: "unat (free_available_count s) = Suc l"
    using a(2) by (cases "unat (free_available_count s)") (auto simp: unat_eq_0)
  obtain m1 where m1: "unat (HCI_RX_BUF_QUEUE_SIZE s) = Suc m1"
    using m(1) by (cases "unat (HCI_RX_BUF_QUEUE_SIZE s)") (simp_all add: ring_size_def)
  have c: "unat (free_window_count s) + Suc l \<le> 32" using o m l by (simp add: ring_ok_def)
  let ?s = "s\<lparr>free_index := free_index s XOR push_bit ?b 1\<rparr>"
  let ?t = "?s\<lparr>free_available_count := free_available_count s - 1, free_window_count := free_window_count s + 1\<rparr>"
  have n: "unat (free_available_count s - 1) = l" "unat (free_window_count s + 1) = Suc (unat (free_window_count s))"
    using c l a by (simp_all add: unat_word_ariths unat_minus_one)
  have pm: "pool_mask ?t = pool_mask s" by (simp add: pool_mask_def)
  have "\<not> bit (free_index ?t) (unat ?i)"
    using bits b i i32 by (auto simp: bit_set_clear simp del: push_bit_of_1)
  then have rest: "ok (consume_release (Suc l) ?i p_buffer ?t) (\<lambda>u. free_available_count u = 0 \<and>
      unat (free_window_count u) = Suc (unat (free_window_count s)) + l)"
    using consume_release_all [of p_buffer ?t l, unfolded pm] i32 n c by (simp del: consume_release.simps)
  have clear: "(free_index s XOR push_bit ?b 1) AND push_bit ?b 1 = 0"
    unfolding and_bit_0_iff [OF b(2)] using bits(1) b by (simp add: bit_set_clear del: push_bit_of_1)
  have "consume_release (Suc (Suc l)) p_buffer p_buffer ?s = consume_release (Suc l) ?i p_buffer ?t"
    by (subst consume_release.simps)
      (simp add: bit_of_ok a b clear del: push_bit_of_1 consume_release.simps)
  then show ?thesis
    using rest a b(2) l
    by (auto simp: hci_mem_pool_rx_consume_def Let_def st m1 bit_of_ok simp del: push_bit_of_1 consume_release.simps elim!: ok_mono)
qed

text \<open>
  Returned out of order, buffers are released while the reader still works on them: when the second oldest buffer is returned
  first and the oldest one after it, the pool counts every extracted buffer as free, also those that have not been returned, and
  will have new packets written into them.
\<close>

theorem consume_releases_used_buffers:
  assumes "pool_ok s" and "extracted s = unat a # unat b # rest"
  shows "ok (hci_mem_pool_rx_consume b s) (\<lambda>(r, t). r = NRF_SUCCESS \<and> free_available_count t = free_available_count s \<and>
    ok (hci_mem_pool_rx_consume a t) (\<lambda>(r, u). r = NRF_SUCCESS \<and> free_available_count u = 0 \<and>
      unat (free_window_count u) = unat (free_window_count s) + length (extracted s)))"
proof -
  have o: "ring_ok s" using assms(1) by (simp add: pool_ok_def)
  note m = mem_mask_unat(2,3) [OF o]
  let ?t = "s\<lparr>free_index := free_index s XOR push_bit (unat b) 1\<rparr>"
  have f: "ring_size ?t = ring_size s" "ring_base ?t = ring_base s" by (simp_all add: ring_size_def ring_base_def)
  have len: "unat (free_available_count s) = length (extracted s)" by (simp add: extracted_def)
  have bl: "ring_base s < ring_size s" "Suc (ring_base s) mod ring_size s < ring_size s"
    using ring_base_less [OF o] m by simp_all
  note ab = extracted_two(3,4) [OF o assms(2)]
  have "unat a \<noteq> unat b"
    using extracted_two(2) [OF o assms(2)] by (simp add: word_eq_iff_unsigned [where 'a = nat])
  moreover have "bit (free_index s) (unat a)" "bit (free_index s) (unat b)"
    using assms bl ab by (simp_all add: pool_ok_def)
  moreover have "unat a < 32" "unat b < 32" using m(2) bl unfolding ab by linarith+
  ultimately have "bit (free_index ?t) (unat a)" "\<not> bit (free_index ?t) (unat b)"
    by (simp_all add: bit_set_clear del: push_bit_of_1)
  then have bits: "bit (free_index ?t) (ring_base s)" "\<not> bit (free_index ?t) (Suc (ring_base s) mod ring_size s)"
    by (simp_all only: ab not_False_eq_True)
  have "ring_ok ?t" using o unfolding ring_ok_def f by simp
  moreover have "free_available_count ?t \<noteq> 0" using len assms(2) by auto
  ultimately have "ok (hci_mem_pool_rx_consume a ?t) (\<lambda>(r, u). r = NRF_SUCCESS \<and> free_available_count u = 0 \<and>
    unat (free_window_count u) = unat (free_window_count ?t) + unat (free_available_count ?t))"
    using ab(1) bits by (intro consume_then_all) (simp_all del: push_bit_of_1)
  then show ?thesis using consume_second [OF assms] len by (auto elim!: ok_mono)
qed

definition sample_pool_extracted :: hci_mem_pool where
  "sample_pool_extracted = sample_pool\<lparr>read_index := 3, free_available_count := 2, read_available_count := 0\<rparr>"

theorem consume_releases_used_buffers_witness:
  "ok (hci_mem_pool_rx_consume 2 sample_pool_extracted) (\<lambda>(r, t). r = NRF_SUCCESS \<and>
    ok (hci_mem_pool_rx_consume 1 t) (\<lambda>(r, u). r = NRF_SUCCESS \<and> unat (free_window_count u) = 4))"
proof -
  have "hci_mem_pool_rx_extract True True sample_pool = Inr (NRF_SUCCESS, Some (2, 20), sample_pool_extracted)"
    by (simp add: hci_mem_pool_rx_extract_def sample_pool_def sample_pool_extracted_def load_at_def pool_mask_def)
  then have p: "pool_ok sample_pool_extracted" "extracted sample_pool_extracted = [1, 2]"
    using extract_ok [OF sample_pool_ok] sample_pool_segments by (auto simp: ok_iff sample_pool_def)
  show ?thesis
    using consume_releases_used_buffers [OF p(1), of 1 2 "[]"] p(2)
    by (auto simp: sample_pool_extracted_def sample_pool_def elim!: ok_mono)
qed

end
