(* ===== verification/HciTransport.thy ===== *)
theory HciTransport
  imports HciProps HciMemPool Crc
begin

text \<open>
  The reliable transport components/libraries/hci/hci_transport.c: packets with a header, sequence numbers and a
  CRC over the SLIP layer, one of them in the air at a time, repeated on a timeout and acknowledged by the
  peer. The variables of the SLIP layer and of the UART below it are part of the state; the memory pool is a
  component of it.

  Pointers into the pool are the index of a receive buffer, or an offset into the transmit buffer. The SLIP
  layer holds the contents of the buffers it was given; \<open>slip_rx_ref\<close> and \<open>slip_tx_ref\<close> name these buffers, so that what is
  received reaches them (\<open>rx_commit\<close>), and a store into a buffer that is being sent changes what is sent
  (\<open>tx_sync\<close>). The two callbacks of the application and the answers of the app_timer module are parameters (\<open>transport_env\<close>).
\<close>

unbundle bit_operations_syntax

section \<open>State\<close>

definition PKT_HDR_SIZE :: u32 where "PKT_HDR_SIZE = 4"
definition PKT_CRC_SIZE :: u32 where "PKT_CRC_SIZE = 2"
definition PKT_TYPE_VENDOR_SPECIFIC :: u32 where "PKT_TYPE_VENDOR_SPECIFIC = 14"
definition PKT_TYPE_ACK :: u32 where "PKT_TYPE_ACK = 0"
definition DATA_INTEGRITY_MASK :: u32 where "DATA_INTEGRITY_MASK = 0x40"
definition RELIABLE_PKT_MASK :: u32 where "RELIABLE_PKT_MASK = 0x80"
definition INITIAL_ACK_NUMBER_EXPECTED :: u32 where "INITIAL_ACK_NUMBER_EXPECTED = 1"
definition INVALID_PKT_TYPE :: u32 where "INVALID_PKT_TYPE = 0xFFFFFFFF"
definition MAX_RETRY_COUNT :: u32 where "MAX_RETRY_COUNT = 5"
definition ACK_BUF_SIZE :: u32 where "ACK_BUF_SIZE = 5"

lemmas hci_consts = PKT_HDR_SIZE_def PKT_CRC_SIZE_def PKT_TYPE_VENDOR_SPECIFIC_def PKT_TYPE_ACK_def
  DATA_INTEGRITY_MASK_def RELIABLE_PKT_MASK_def INITIAL_ACK_NUMBER_EXPECTED_def INVALID_PKT_TYPE_def
  MAX_RETRY_COUNT_def ACK_BUF_SIZE_def

datatype tx_state_t = TX_STATE_IDLE | TX_STATE_PENDING | TX_STATE_ACTIVE

datatype tx_event_t = TX_EVENT_STATE_ENTRY | TX_EVENT_SLIP_TX_DONE | TX_EVENT_TIMEOUT | TX_EVENT_VALID_RX_ACK

datatype hci_transport_tx_done_result_t = HCI_TRANSPORT_TX_DONE_SUCCESS | HCI_TRANSPORT_TX_DONE_FAILURE

text \<open>The memory a receive buffer and a packet for transmission can lie in.\<close>

datatype rx_ref = Rx_none | Rx_pool u32 | Rx_ack

datatype tx_ref = Tx_ack | Tx_app nat

record hci_transport = hci_slip +
  m_tx_state :: tx_state_t
  m_transport_tx_done_handle :: bool
  m_transport_event_handle :: bool
  mp_slip_used_rx_buffer :: "u32 option"
  m_packet_expected_seq_number :: u32
  m_packet_transmit_seq_number :: u32
  tp_tx_buffer :: "nat option"
  tp_tx_buffer_length :: u32
  m_is_slip_decode_ready :: bool
  m_tx_retry_counter :: u32
  m_tx_done_result_code :: hci_transport_tx_done_result_t
  m_rx_ack_buffer :: "u8 list"
  ack_packet :: "u8 list"
  pool :: hci_mem_pool
  pool_rx :: "u32 \<Rightarrow> u8 list"
  pool_tx :: "u8 list"
  tp_timer_running :: bool
  slip_rx_ref :: rx_ref
  slip_tx_ref :: tx_ref

datatype app_timer_call = Timer_create | Timer_start | Timer_stop

record 's transport_env =
  app_timer_code :: "app_timer_call \<Rightarrow> ret_code"
  app_tx_done :: "hci_transport_tx_done_result_t \<Rightarrow> 's \<Rightarrow> 's result"
  app_rx_ready :: "'s \<Rightarrow> 's result"

type_synonym 'm tp_env = "'m hci_transport_scheme transport_env"
type_synonym 'm tp_up = "'m hci_transport_ext slip_handler"
type_synonym 'm tp = "'m hci_transport_scheme"

section \<open>The buffers the SLIP layer works on\<close>

definition rx_contents :: "rx_ref \<Rightarrow> 'm tp \<Rightarrow> u8 list option" where
  "rx_contents r s =
     (case r of Rx_none \<Rightarrow> None | Rx_pool i \<Rightarrow> Some (pool_rx s i) | Rx_ack \<Rightarrow> Some (m_rx_ack_buffer s))"

definition rx_commit :: "u8 list option \<Rightarrow> 'm tp \<Rightarrow> 'm tp" where
  "rx_commit p s =
     (case p of
        None \<Rightarrow> s
      | Some buf \<Rightarrow>
          (case slip_rx_ref s of
             Rx_none \<Rightarrow> s
           | Rx_pool i \<Rightarrow> s\<lparr>pool_rx := (pool_rx s)(i := buf)\<rparr>
           | Rx_ack \<Rightarrow> s\<lparr>m_rx_ack_buffer := buf\<rparr>))"

definition tx_contents :: "tx_ref \<Rightarrow> 'm tp \<Rightarrow> u8 list" where
  "tx_contents r s = (case r of Tx_ack \<Rightarrow> ack_packet s | Tx_app p \<Rightarrow> drop p (pool_tx s))"

definition tx_sync :: "'m tp \<Rightarrow> 'm tp" where
  "tx_sync s =
     (if m_current_state s = SLIP_TRANSMITTING
      then s\<lparr>mp_tx_buffer := take (length (mp_tx_buffer s)) (tx_contents (slip_tx_ref s) s)\<rparr> else s)"

text \<open>\<open>APP_ERROR_CHECK(hci_slip_rx_buffer_register(...))\<close> and \<open>hci_slip_write\<close> on a named buffer.\<close>

definition register_rx :: "rx_ref \<Rightarrow> u32 \<Rightarrow> 'm tp \<Rightarrow> 'm tp result" where
  "register_rx r len s =
     app_error_check (Inr (hci_slip_rx_buffer_register (rx_contents r s) len (s\<lparr>slip_rx_ref := r\<rparr>)))"

definition slip_write :: "'m tp_up \<Rightarrow> tx_ref option \<Rightarrow> u32 \<Rightarrow> 'm tp \<Rightarrow> (ret_code \<times> 'm tp) result" where
  "slip_write up r len s =
     (case r of
        None \<Rightarrow> hci_slip_write up None len s
      | Some b \<Rightarrow> hci_slip_write up (Some (take (unat len) (tx_contents b s))) len
                    (if m_current_state s = SLIP_READY then s\<lparr>slip_tx_ref := b\<rparr> else s))"

section \<open>Packets\<close>

text \<open>\<open>uint16_encode\<close> (both bytes) and \<open>uint16_decode\<close> of app_util.h.\<close>

definition uint16_encode :: "u16 \<Rightarrow> u8 \<times> u8" where
  "uint16_encode v = (ucast (v AND 0x00FF), ucast (drop_bit 8 (v AND 0xFF00)))"

definition uint16_decode :: "u8 \<Rightarrow> u8 \<Rightarrow> u16" where
  "uint16_decode b0 b1 = ucast b0 OR push_bit 8 (ucast b1)"

definition header_sum :: "u8 list \<Rightarrow> u32 result" where
  "header_sum p =
     then_do (load_at p 0) (\<lambda>b0. then_do (load_at p 1) (\<lambda>b1.
     then_do (load_at p 2) (\<lambda>b2. then_do (load_at p 3) (\<lambda>b3.
     Inr ((ucast b0 + ucast b1 + ucast b2 + ucast b3) AND 0xFF)))))"

definition is_rx_pkt_valid :: "u8 list \<Rightarrow> u32 \<Rightarrow> bool result" where
  "is_rx_pkt_valid p length' =
     (if length' \<le> PKT_HDR_SIZE then Inr False
      else
        then_do (load_at p 0) (\<lambda>b0.
        if ucast b0 AND DATA_INTEGRITY_MASK = 0 then Inr False
        else if ucast b0 AND RELIABLE_PKT_MASK = 0 then Inr False
        else then_do (load_at p 1) (\<lambda>b1.
        if ucast b1 AND 0x0F \<noteq> PKT_TYPE_VENDOR_SPECIFIC then Inr False
        else then_do (header_sum p) (\<lambda>expected_checksum.
          if expected_checksum \<noteq> 0 then Inr False
          else
            then_do (crc16_compute p (length' - PKT_CRC_SIZE) None) (\<lambda>crc_calculated.
            then_do (load_at p (unat (length' - PKT_CRC_SIZE))) (\<lambda>c0.
            then_do (load_at p (unat (length' - PKT_CRC_SIZE) + 1)) (\<lambda>c1.
            Inr (crc_calculated = uint16_decode c0 c1))))))))"

definition packet_number_expected_get :: "'m tp \<Rightarrow> u8" where
  "packet_number_expected_get s = ucast (m_packet_expected_seq_number s)"

definition header_checksum_calculate :: "u8 list \<Rightarrow> u8 result" where
  "header_checksum_calculate p_hdr =
     then_do (load_at p_hdr 0) (\<lambda>b0. then_do (load_at p_hdr 1) (\<lambda>b1. then_do (load_at p_hdr 2) (\<lambda>b2.
     let checksum = (ucast b0 + ucast b1 + ucast b2 :: u32) AND 0xFF
     in Inr (ucast (NOT checksum + 1)))))"

definition ack_transmit :: "'m tp_up \<Rightarrow> 'm tp \<Rightarrow> 'm tp result" where
  "ack_transmit up s =
     (let b0 = push_bit 3 (packet_number_expected_get s)
      in then_do (header_checksum_calculate [b0, 0, 0]) (\<lambda>b3.
         ignore_code (slip_write up (Some Tx_ack) PKT_HDR_SIZE (tx_sync (s\<lparr>ack_packet := [b0, 0, 0, b3]\<rparr>)))))"

definition packet_seq_nmbr_extract :: "u8 list \<Rightarrow> u8 result" where
  "packet_seq_nmbr_extract p = then_do (load_at p 0) (\<lambda>b0. Inr (b0 AND 0x07))"

definition packet_number_expected_inc :: "'m tp \<Rightarrow> 'm tp" where
  "packet_number_expected_inc s =
     s\<lparr>m_packet_expected_seq_number := (m_packet_expected_seq_number s + 1) AND 0x07\<rparr>"

definition packet_type_decode :: "u8 list \<Rightarrow> u32 \<Rightarrow> u32 result" where
  "packet_type_decode p length' =
     (if length' \<ge> PKT_HDR_SIZE then then_do (load_at p 1) (\<lambda>b1. Inr (ucast b1 AND 0x0F))
      else Inr INVALID_PKT_TYPE)"

section \<open>Reception of packets\<close>

text \<open>The next buffer for the SLIP layer: one of the pool, or the small one for acknowledgments.\<close>

definition produce_and_register :: "'m tp \<Rightarrow> 'm tp result" where
  "produce_and_register s =
     then_do (hci_mem_pool_rx_produce (HCI_RX_BUF_SIZE (pool s)) True (pool s)) (\<lambda>(err_code, b, q).
     let s1 = s\<lparr>mp_slip_used_rx_buffer := b, pool := q\<rparr> in
     then_do (app_error_check_bool (err_code = NRF_SUCCESS \<or> err_code = NRF_ERROR_NO_MEM)) (\<lambda>_.
     case (err_code, b) of
       (NRF_SUCCESS, Some i) \<Rightarrow> register_rx (Rx_pool i) (HCI_RX_BUF_SIZE (pool s)) s1
     | _ \<Rightarrow> register_rx Rx_ack ACK_BUF_SIZE s1))"

definition register_used :: "'m tp \<Rightarrow> 'm tp result" where
  "register_used s =
     register_rx (case mp_slip_used_rx_buffer s of None \<Rightarrow> Rx_none | Some i \<Rightarrow> Rx_pool i)
       (HCI_RX_BUF_SIZE (pool s)) s"

definition rx_vendor_specific_pkt_type_handle ::
    "'m tp_env \<Rightarrow> 'm tp_up \<Rightarrow> u8 list \<Rightarrow> u32 \<Rightarrow> 'm tp \<Rightarrow> 'm tp result" where
  "rx_vendor_specific_pkt_type_handle env up p length' s =
     then_do (is_rx_pkt_valid p length') (\<lambda>valid.
     if valid
     then then_do (packet_seq_nmbr_extract p) (\<lambda>rx_seq_number.
       if packet_number_expected_get s = rx_seq_number
       then
         then_do (ack_transmit up (packet_number_expected_inc s)) (\<lambda>s1.
         let s2 = s1\<lparr>m_is_slip_decode_ready := True\<rparr> in
         then_do (app_error_check (hci_mem_pool_rx_data_size_set length' (pool s2))) (\<lambda>q.
         then_do (produce_and_register (s2\<lparr>pool := q\<rparr>)) (\<lambda>s3.
         if m_transport_event_handle s3 then app_rx_ready env s3 else Inr s3)))
       else then_do (register_used s) (ack_transmit up))
     else register_used s)"

section \<open>The transmitter's state machine\<close>

definition packet_number_to_transmit_get :: "'m tp \<Rightarrow> u8" where
  "packet_number_to_transmit_get s = ucast (m_packet_transmit_seq_number s)"

definition expected_ack_number_get :: "'m tp \<Rightarrow> u8" where
  "expected_ack_number_get s = (packet_number_to_transmit_get s + 1) AND 0x07"

definition rx_ack_pkt_type_handle :: "u8 list \<Rightarrow> 'm tp \<Rightarrow> bool result" where
  "rx_ack_pkt_type_handle p s =
     then_do (header_sum p) (\<lambda>expected_checksum.
     if expected_checksum \<noteq> 0 then Inr False
     else then_do (load_at p 0) (\<lambda>b0. Inr (drop_bit 3 b0 AND 0x07 = expected_ack_number_get s)))"

definition packet_number_tx_inc :: "'m tp \<Rightarrow> 'm tp" where
  "packet_number_tx_inc s =
     s\<lparr>m_packet_transmit_seq_number := (m_packet_transmit_seq_number s + 1) AND 0x07\<rparr>"

text \<open>The calls of the app_timer module: an error code resets the chip.\<close>

definition timer_start_checked :: "'m tp_env \<Rightarrow> 'm tp \<Rightarrow> 'm tp result" where
  "timer_start_checked env s = app_error_check (Inr (app_timer_code env Timer_start, s\<lparr>tp_timer_running := True\<rparr>))"

definition timer_stop_checked :: "'m tp_env \<Rightarrow> 'm tp \<Rightarrow> 'm tp result" where
  "timer_stop_checked env s = app_error_check (Inr (app_timer_code env Timer_stop, s\<lparr>tp_timer_running := False\<rparr>))"

text \<open>\<open>tx_sm_event_handle(TX_EVENT_STATE_ENTRY)\<close>; no entry changes the state again.\<close>

definition tx_sm_entry :: "'m tp_env \<Rightarrow> 'm tp \<Rightarrow> 'm tp result" where
  "tx_sm_entry env s =
     (case m_tx_state s of
        TX_STATE_IDLE \<Rightarrow> then_do (timer_stop_checked env s) (\<lambda>s1.
          if m_transport_tx_done_handle s1 then app_tx_done env (m_tx_done_result_code s1) s1 else Inr s1)
      | TX_STATE_PENDING \<Rightarrow> Inr s
      | TX_STATE_ACTIVE \<Rightarrow> timer_start_checked env (s\<lparr>m_tx_retry_counter := 0\<rparr>))"

definition tx_sm_state_change :: "'m tp_env \<Rightarrow> tx_state_t \<Rightarrow> 'm tp \<Rightarrow> 'm tp result" where
  "tx_sm_state_change env new_state s = tx_sm_entry env (s\<lparr>m_tx_state := new_state\<rparr>)"

text \<open>\<open>hci_slip_write(mp_tx_buffer, m_tx_buffer_length + PKT_HDR_SIZE + PKT_CRC_SIZE)\<close>.\<close>

definition write_tx_packet :: "'m tp_up \<Rightarrow> 'm tp \<Rightarrow> (ret_code \<times> 'm tp) result" where
  "write_tx_packet up s =
     slip_write up (map_option Tx_app (tp_tx_buffer s)) (tp_tx_buffer_length s + PKT_HDR_SIZE + PKT_CRC_SIZE) s"

definition tx_sm_event_handle :: "'m tp_env \<Rightarrow> 'm tp_up \<Rightarrow> tx_event_t \<Rightarrow> 'm tp \<Rightarrow> 'm tp result" where
  "tx_sm_event_handle env up event s =
     (if event = TX_EVENT_STATE_ENTRY then tx_sm_entry env s
      else case m_tx_state s of
        TX_STATE_IDLE \<Rightarrow> Inr s
      | TX_STATE_PENDING \<Rightarrow>
          if event = TX_EVENT_SLIP_TX_DONE
          then then_do (app_error_check (write_tx_packet up s)) (tx_sm_state_change env TX_STATE_ACTIVE)
          else Inr s
      | TX_STATE_ACTIVE \<Rightarrow>
          (case event of
             TX_EVENT_VALID_RX_ACK \<Rightarrow> tx_sm_state_change env TX_STATE_IDLE (packet_number_tx_inc s)
           | TX_EVENT_TIMEOUT \<Rightarrow>
               if m_tx_retry_counter s \<noteq> MAX_RETRY_COUNT
               then ignore_code (write_tx_packet up (s\<lparr>m_tx_retry_counter := m_tx_retry_counter s + 1\<rparr>))
               else tx_sm_state_change env TX_STATE_IDLE (s\<lparr>m_tx_done_result_code := HCI_TRANSPORT_TX_DONE_FAILURE\<rparr>)
           | _ \<Rightarrow> Inr s))"

section \<open>Events of the SLIP layer and of the timer\<close>

definition rx_drop :: "'m tp \<Rightarrow> 'm tp result" where
  "rx_drop s = (if mp_slip_used_rx_buffer s \<noteq> None then register_used s else produce_and_register s)"

definition slip_rx_ready :: "'m tp_env \<Rightarrow> 'm tp_up \<Rightarrow> u8 list \<Rightarrow> u32 \<Rightarrow> 'm tp \<Rightarrow> 'm tp result" where
  "slip_rx_ready env up p length' s =
     then_do (packet_type_decode p length') (\<lambda>return_code.
     if return_code = PKT_TYPE_VENDOR_SPECIFIC then rx_vendor_specific_pkt_type_handle env up p length' s
     else if return_code = PKT_TYPE_ACK
     then then_do (rx_ack_pkt_type_handle p s) (\<lambda>valid.
          then_do (if valid
                   then tx_sm_event_handle env up TX_EVENT_VALID_RX_ACK
                          (s\<lparr>m_tx_done_result_code := HCI_TRANSPORT_TX_DONE_SUCCESS\<rparr>)
                   else Inr s) rx_drop)
     else rx_drop s)"

definition slip_event_handle :: "'m tp_env \<Rightarrow> 'm tp_up \<Rightarrow> 'm tp_up" where
  "slip_event_handle env up event s0 =
     (case evt_type event of
        HCI_SLIP_TX_DONE \<Rightarrow> tx_sm_event_handle env up TX_EVENT_SLIP_TX_DONE s0
      | HCI_SLIP_RX_RDY \<Rightarrow>
          (case packet event of
             None \<Rightarrow> Inl Null_Deref
           | Some p \<Rightarrow> slip_rx_ready env up p (packet_length event) (rx_commit (Some p) s0))
      | HCI_SLIP_RX_OVERFLOW \<Rightarrow> register_rx Rx_ack ACK_BUF_SIZE (rx_commit (packet event) s0)
      | HCI_SLIP_ERROR \<Rightarrow> Inl Reset)"

text \<open>
  The handler the SLIP layer calls. \<open>hci_slip_write\<close> could call it again from inside it, if the UART took a whole packet at
  once, so that it has fuel; the byte-wise UART never does.
\<close>

fun slip_handler :: "nat \<Rightarrow> 'm tp_env \<Rightarrow> 'm tp_up" where
  "slip_handler 0 env event s = Inl Hang"
| "slip_handler (Suc n) env event s = slip_event_handle env (slip_handler n env) event s"

definition hci_transport_timeout_handle :: "'m tp_env \<Rightarrow> 'm tp_up \<Rightarrow> 'm tp \<Rightarrow> 'm tp result" where
  "hci_transport_timeout_handle env up s = tx_sm_event_handle env up TX_EVENT_TIMEOUT s"

section \<open>The interface\<close>

definition hci_transport_evt_handler_reg :: "bool \<Rightarrow> 'm tp \<Rightarrow> (ret_code \<times> 'm tp) result" where
  "hci_transport_evt_handler_reg h s =
     then_do (app_error_check (Inr (hci_slip_evt_handler_register True (s\<lparr>m_transport_event_handle := h\<rparr>)))) (\<lambda>s1.
     Inr (if h then NRF_SUCCESS else NRF_ERROR_NULL, s1))"

definition hci_transport_tx_done_register :: "bool \<Rightarrow> 'm tp \<Rightarrow> (ret_code \<times> 'm tp) result" where
  "hci_transport_tx_done_register h s =
     then_do (app_error_check (Inr (hci_slip_evt_handler_register True (s\<lparr>m_transport_tx_done_handle := h\<rparr>)))) (\<lambda>s1.
     Inr (if h then NRF_SUCCESS else NRF_ERROR_NULL, s1))"

definition hci_transport_open :: "'m tp_env \<Rightarrow> bool \<Rightarrow> 'm tp \<Rightarrow> (ret_code \<times> 'm tp) result" where
  "hci_transport_open env rx_connected s =
     (let s1 = s\<lparr>tp_tx_buffer := None, tp_tx_buffer_length := 0, m_tx_retry_counter := 0,
                 m_is_slip_decode_ready := False, m_tx_state := TX_STATE_IDLE,
                 m_packet_expected_seq_number := INITIAL_ACK_NUMBER_EXPECTED,
                 m_packet_transmit_seq_number := INITIAL_ACK_NUMBER_EXPECTED,
                 m_tx_done_result_code := HCI_TRANSPORT_TX_DONE_FAILURE\<rparr>
      in if app_timer_code env Timer_create \<noteq> NRF_SUCCESS then Inr (NRF_ERROR_INTERNAL, s1)
         else
           let (r1, q) = hci_mem_pool_open (pool s1); s2 = s1\<lparr>pool := q\<rparr>
           in if r1 \<noteq> NRF_SUCCESS then Inr (r1, s2)
              else
                then_do (hci_slip_open rx_connected s2) (\<lambda>(r2, s3).
                if r2 \<noteq> NRF_SUCCESS then Inr (r2, s3)
                else
                  then_do (hci_mem_pool_rx_produce (HCI_RX_BUF_SIZE (pool s3)) True (pool s3)) (\<lambda>(r3, b, q3).
                  let s4 = s3\<lparr>mp_slip_used_rx_buffer := b, pool := q3\<rparr> in
                  if r3 \<noteq> NRF_SUCCESS then Inr (NRF_ERROR_INTERNAL, s4)
                  else then_do (register_used s4) (\<lambda>s5. Inr (NRF_SUCCESS, s5)))))"

definition hci_transport_close :: "'m tp_env \<Rightarrow> 'm tp \<Rightarrow> (ret_code \<times> 'm tp) result" where
  "hci_transport_close env s =
     (let s1 = s\<lparr>m_transport_tx_done_handle := False, m_transport_event_handle := False\<rparr>
      in then_do (app_error_check (Inr (hci_mem_pool_close (pool s1)))) (\<lambda>q.
         then_do (app_error_check (Inr (hci_slip_close (s1\<lparr>pool := q\<rparr>)))) (\<lambda>s2.
         then_do (app_error_check_bool (app_timer_code env Timer_stop \<noteq> NRF_ERROR_NO_MEM)) (\<lambda>_.
         Inr (NRF_SUCCESS, s2\<lparr>tp_timer_running := False\<rparr>)))))"

definition hci_transport_tx_alloc :: "bool \<Rightarrow> 'm tp \<Rightarrow> ret_code \<times> nat option \<times> 'm tp" where
  "hci_transport_tx_alloc pp_memory s =
     (let (err_code, got, q) = hci_mem_pool_tx_alloc pp_memory (pool s)
      in (err_code, if err_code = NRF_SUCCESS \<and> got then Some (unat PKT_HDR_SIZE) else None, s\<lparr>pool := q\<rparr>))"

definition hci_transport_tx_free :: "'m tp \<Rightarrow> ret_code \<times> 'm tp" where
  "hci_transport_tx_free s = (let (r, q) = hci_mem_pool_tx_free (pool s) in (r, s\<lparr>pool := q\<rparr>))"

definition tx_packet_byte_zero_construct :: "'m tp \<Rightarrow> u8" where
  "tx_packet_byte_zero_construct s =
     ucast (DATA_INTEGRITY_MASK OR RELIABLE_PKT_MASK OR push_bit 3 (ucast (packet_number_expected_get s)) OR
            ucast (packet_number_to_transmit_get s) :: u32)"

text \<open>Header and CRC around the payload at offset \<open>p + 4\<close> of the transmit buffer.\<close>

definition build_packet :: "'m tp \<Rightarrow> nat \<Rightarrow> u8 list result" where
  "build_packet s p =
     (let (t0, t1) = uint16_encode (ucast (push_bit 4 (tp_tx_buffer_length s) OR PKT_TYPE_VENDOR_SPECIFIC)) in
      then_do (store_at (pool_tx s) p (tx_packet_byte_zero_construct s)) (\<lambda>m1.
      then_do (store_at m1 (p + 1) t0) (\<lambda>m2.
      then_do (store_at m2 (p + 2) t1) (\<lambda>m3.
      then_do (header_checksum_calculate (drop p m3)) (\<lambda>c.
      then_do (store_at m3 (p + 3) c) (\<lambda>m4.
      then_do (crc16_compute (drop p m4) (PKT_HDR_SIZE + tp_tx_buffer_length s) None) (\<lambda>crc.
      let (c0, c1) = uint16_encode crc; i = p + unat (PKT_HDR_SIZE + tp_tx_buffer_length s) in
      then_do (store_at m4 i c0) (\<lambda>m5. store_at m5 (i + 1) c1))))))))"

definition pkt_write_handle :: "'m tp_env \<Rightarrow> 'm tp_up \<Rightarrow> 'm tp \<Rightarrow> (ret_code \<times> 'm tp) result" where
  "pkt_write_handle env up s =
     (case tp_tx_buffer s of
        None \<Rightarrow> Inl Null_Deref
      | Some p0 \<Rightarrow>
          if p0 < unat PKT_HDR_SIZE then Inl Out_Of_Bounds
          else
            let p = p0 - unat PKT_HDR_SIZE; s1 = s\<lparr>tp_tx_buffer := Some p\<rparr>
            in then_do (build_packet s1 p) (\<lambda>m.
               then_do (write_tx_packet up (tx_sync (s1\<lparr>pool_tx := m\<rparr>))) (\<lambda>(err_code, s2).
               if err_code = NRF_SUCCESS
               then then_do (tx_sm_state_change env TX_STATE_ACTIVE s2) (\<lambda>s3. Inr (NRF_SUCCESS, s3))
               else if err_code = NRF_ERROR_NO_MEM
               then then_do (tx_sm_state_change env TX_STATE_PENDING s2) (\<lambda>s3. Inr (NRF_SUCCESS, s3))
               else Inr (err_code, s2))))"

definition hci_transport_pkt_write ::
    "'m tp_env \<Rightarrow> 'm tp_up \<Rightarrow> nat option \<Rightarrow> u16 \<Rightarrow> 'm tp \<Rightarrow> (ret_code \<times> 'm tp) result" where
  "hci_transport_pkt_write env up p_buffer length' s =
     (if p_buffer = None then Inr (NRF_ERROR_NULL, s)
      else if m_tx_state s = TX_STATE_IDLE
      then pkt_write_handle env up (s\<lparr>tp_tx_buffer := p_buffer, tp_tx_buffer_length := ucast length'\<rparr>)
      else Inr (NRF_ERROR_NO_MEM, s))"

text \<open>The result is the buffer (the caller gets a pointer behind its header) and the length.\<close>

definition hci_transport_rx_pkt_extract ::
    "bool \<Rightarrow> bool \<Rightarrow> 'm tp \<Rightarrow> (ret_code \<times> (u32 option \<times> u16) option \<times> 'm tp) result" where
  "hci_transport_rx_pkt_extract pp_buffer p_length s =
     (if \<not> pp_buffer \<or> \<not> p_length then Inr (NRF_ERROR_NULL, None, s)
      else if m_is_slip_decode_ready s
      then
        then_do (hci_mem_pool_rx_extract True True (pool s)) (\<lambda>(err_code, b, q).
        let len = (case b of None \<Rightarrow> 0 | Some (_, l) \<Rightarrow> l) - (PKT_HDR_SIZE + PKT_CRC_SIZE)
        in Inr (err_code, Some (map_option fst b, ucast len), s\<lparr>m_is_slip_decode_ready := False, pool := q\<rparr>))
      else Inr (NRF_ERROR_NO_MEM, None, s))"

definition hci_transport_rx_pkt_consume :: "u32 \<Rightarrow> 'm tp \<Rightarrow> (ret_code \<times> 'm tp) result" where
  "hci_transport_rx_pkt_consume buffer s =
     then_do (hci_mem_pool_rx_consume buffer (pool s)) (\<lambda>(r, q). Inr (r, s\<lparr>pool := q\<rparr>))"

end
