(* ===== verification/HciPacket.thy ===== *)
theory HciPacket
  imports HciTransport
begin

text \<open>
  The packets of the HCI transport: header, checksum and CRC as \<open>build_packet\<close> lays them out and as the receiver checks
  them; acknowledgments; and what a write to the SLIP layer does in every state of it.
\<close>

unbundle bit_operations_syntax

section \<open>Checksums and fields\<close>

lemma down_add: "(ucast (x + y :: u32) :: u8) = ucast x + ucast y"
  by (transfer, simp add: take_bit_add, subst (2) take_bit_add [symmetric], simp add: take_bit_add)

lemma down_up: "(ucast (ucast a :: u32) :: u8) = (a :: u8)"
  by (rule bit_word_eqI) (simp add: bit_simps)

lemma down_neg: "(ucast (NOT x + 1 :: u32) :: u8) = - ucast x"
proof -
  have "ucast (NOT x + 1) + ucast x = (ucast (NOT x + 1 + x) :: u8)" by (simp only: down_add)
  also have "NOT x + 1 + x = 0" by (simp add: minus_eq_not_minus_1 [symmetric] not_eq_complement)
  finally show ?thesis by (simp add: eq_neg_iff_add_eq_0)
qed

lemma and_FF: "(x :: u32) AND 0xFF = take_bit 8 x"
  by (simp add: take_bit_eq_mask mask_eq_exp_minus_1)

lemma down_mask: "(ucast (x AND 0xFF :: u32) :: u8) = ucast x"
  unfolding and_FF by (rule bit_word_eqI) (simp add: bit_simps)

lemma mask_zero: "(x :: u32) AND 0xFF = 0 \<longleftrightarrow> (ucast x :: u8) = 0"
  unfolding and_FF by (simp add: word_eq_iff_unsigned [where 'a = nat] unsigned_ucast_eq unsigned_take_bit_eq)

lemma checksum_neg: "(ucast (NOT (x AND 0xFF) + 1 :: u32) :: u8) = - ucast x"
  by (simp only: down_neg down_mask)

text \<open>The fourth header byte makes the sum of the header zero.\<close>

lemma header_checksum: "header_checksum_calculate (b0 # b1 # b2 # r) = Inr (- (b0 + b1 + b2))"
proof -
  have "header_checksum_calculate (b0 # b1 # b2 # r)
      = Inr (ucast (NOT ((ucast b0 + ucast b1 + ucast b2 :: u32) AND 0xFF) + 1))"
    by (simp add: header_checksum_calculate_def load_at_def Let_def numeral_2_eq_2)
  then show ?thesis unfolding checksum_neg by (simp only: down_add down_up)
qed

lemma header_sum_zero:
  "header_sum (b0 # b1 # b2 # b3 # r) = Inr v \<Longrightarrow> v = 0 \<longleftrightarrow> b0 + b1 + b2 + b3 = 0"
  by (auto simp: header_sum_def load_at_def mask_zero down_add down_up numeral_2_eq_2 numeral_3_eq_3)

lemma header_sum_ok: "\<exists>v. header_sum (b0 # b1 # b2 # b3 # r) = Inr v"
  by (simp add: header_sum_def load_at_def)

lemma uint16_roundtrip: "uint16_decode (fst (uint16_encode v)) (snd (uint16_encode v)) = v"
proof (rule bit_word_eqI)
  fix n assume n: "n < LENGTH(16)"
  have m: "(0x00FF :: u16) = mask 8" "(0xFF00 :: u16) = push_bit 8 (mask 8)"
    by (simp_all add: mask_eq_exp_minus_1)
  show "bit (uint16_decode (fst (uint16_encode v)) (snd (uint16_encode v))) n = bit v n"
    unfolding uint16_decode_def uint16_encode_def m
    using n by (cases "n < 8") (auto simp: bit_simps)
qed

text \<open>A number below 8 next to the flags of the first byte.\<close>

definition first_byte :: "u8 \<Rightarrow> u8 \<Rightarrow> u8" where
  "first_byte ack seq = 0xC0 OR push_bit 3 ack OR seq"

lemma bit_less_exp: "(x :: 'a::len word) < 2 ^ k \<Longrightarrow> bit x n \<Longrightarrow> n < k"
  using less_mask_eq [of x k] by (metis bit_and_iff bit_mask_iff)

lemma first_byte_flags:
  "ucast (first_byte a q) AND DATA_INTEGRITY_MASK \<noteq> 0"
  "ucast (first_byte a q) AND RELIABLE_PKT_MASK \<noteq> 0"
proof -
  have "bit (ucast (first_byte a q) AND (0x40 :: u32)) 6" "bit (ucast (first_byte a q) AND (0x80 :: u32)) 7"
    by (simp_all add: first_byte_def bit_simps)
  then show "ucast (first_byte a q) AND DATA_INTEGRITY_MASK \<noteq> 0"
    "ucast (first_byte a q) AND RELIABLE_PKT_MASK \<noteq> 0"
    by (auto simp: hci_consts)
qed

lemma first_byte_fields:
  assumes "a < 2 ^ 3" and "q < 2 ^ 3"
  shows "first_byte a q AND 0x07 = q" and "drop_bit 3 (first_byte a q) AND 0x07 = a"
proof -
  have m: "(0x07 :: u8) = mask 3" by (simp add: mask_eq_exp_minus_1)
  have c: "(0xC0 :: u8) = push_bit 6 (mask 2)" by (simp add: mask_eq_exp_minus_1)
  have b: "bit a n \<Longrightarrow> n < 3" "bit q n \<Longrightarrow> n < 3" for n
    using bit_less_exp [OF assms(1)] bit_less_exp [OF assms(2)] by auto
  show "first_byte a q AND 0x07 = q"
    unfolding first_byte_def m c by (rule bit_word_eqI) (auto simp: bit_simps dest: b)
  show "drop_bit 3 (first_byte a q) AND 0x07 = a"
    unfolding first_byte_def m c by (rule bit_word_eqI) (auto simp: bit_simps dest: b)
qed

lemma type_field: "ucast (fst (uint16_encode (ucast (push_bit 4 l OR PKT_TYPE_VENDOR_SPECIFIC)))) AND 0x0F
    = PKT_TYPE_VENDOR_SPECIFIC" for l :: u32
proof (rule bit_word_eqI)
  fix n assume "n < LENGTH(32)"
  have m: "(0x0F :: u32) = mask 4" "(0x00FF :: u16) = mask 8" by (simp_all add: mask_eq_exp_minus_1)
  have e: "bit (14 :: u32) n \<Longrightarrow> n < 4" using bit_less_exp [of "14 :: u32" 4 n] by simp
  show "bit (ucast (fst (uint16_encode (ucast (push_bit 4 l OR PKT_TYPE_VENDOR_SPECIFIC)))) AND (0x0F :: u32)) n
    = bit PKT_TYPE_VENDOR_SPECIFIC n"
    unfolding uint16_encode_def m using e by (auto simp: bit_simps hci_consts)
qed

section \<open>Building a packet\<close>

lemma split_packet:
  assumes "p + n + 6 \<le> length tx"
  obtains x0 x1 x2 x3 y0 y1 where
    "tx = take p tx @ x0 # x1 # x2 # x3 # take n (drop (p + 4) tx) @ y0 # y1 # drop (p + n + 6) tx"
proof -
  have *: "drop i tx = tx ! i # drop (Suc i) tx" if "i < p + n + 6" for i
    using that assms by (simp add: Cons_nth_drop_Suc)
  have "tx = take p tx @ drop p tx" by simp
  also have "drop p tx = tx ! p # tx ! (p + 1) # tx ! (p + 2) # tx ! (p + 3) # drop (p + 4) tx"
    using * [of p] * [of "p + 1"] * [of "p + 2"] * [of "p + 3"] by (simp add: eval_nat_numeral)
  also have "drop (p + 4) tx = take n (drop (p + 4) tx) @ drop (p + n + 4) tx"
    by (metis (no_types) append_take_drop_id drop_drop add.commute add.left_commute)
  also have "drop (p + n + 4) tx = tx ! (p + n + 4) # tx ! (p + n + 5) # drop (p + n + 6) tx"
    using * [of "p + n + 4"] * [of "p + n + 5"] by (simp add: eval_nat_numeral)
  finally show thesis by (rule that)
qed

text \<open>A packet: header, payload, CRC.\<close>

definition packet_header :: "u8 \<Rightarrow> u8 \<Rightarrow> u32 \<Rightarrow> u8 list" where
  "packet_header ack seq len =
     (let (t0, t1) = uint16_encode (ucast (push_bit 4 len OR PKT_TYPE_VENDOR_SPECIFIC)); b0 = first_byte ack seq
      in [b0, t0, t1, - (b0 + t0 + t1)])"

definition hci_packet :: "u8 \<Rightarrow> u8 \<Rightarrow> u8 list \<Rightarrow> u8 list" where
  "hci_packet ack seq payload =
     (let body = packet_header ack seq (of_nat (length payload)) @ payload;
          (c0, c1) = uint16_encode (fold crc16_step body 0xFFFF)
      in body @ [c0, c1])"

lemma length_hci_packet [simp]: "length (hci_packet a q d) = length d + 6"
  by (simp add: hci_packet_def packet_header_def Let_def split: prod.split)

lemma byte_zero: "tx_packet_byte_zero_construct s =
    first_byte (packet_number_expected_get s) (packet_number_to_transmit_get s)"
proof -
  have c: "DATA_INTEGRITY_MASK OR RELIABLE_PKT_MASK = ucast (0xC0 :: u8)" by (simp add: hci_consts)
  show ?thesis
    unfolding tx_packet_byte_zero_construct_def first_byte_def or.assoc [symmetric] c
    by (rule bit_word_eqI) (auto simp: bit_simps)
qed

lemma crc16_prefix: "unat k = length xs \<Longrightarrow> crc16_compute (xs @ ys) k None = Inr (fold crc16_step xs 0xFFFF)"
  by (simp add: crc16_compute_def crc16_loop_fold)

lemma store_at_end: "length A = i \<Longrightarrow> store_at (A @ x # R) i v = Inr (A @ v # R)"
  by (auto simp: store_at_def)

text \<open>The stores, one after the other.\<close>

lemma build_packet_split:
  assumes tx: "pool_tx s = A @ x0 # x1 # x2 # x3 # D @ y0 # y1 # R"
    and l: "length A = p" "length D = n" and len: "tp_tx_buffer_length s = of_nat n" "n < 2 ^ 16"
  shows "build_packet s p = Inr (A @
    hci_packet (packet_number_expected_get s) (packet_number_to_transmit_get s) D @ R)"
proof -
  let ?b = "first_byte (packet_number_expected_get s) (packet_number_to_transmit_get s)"
  obtain t0 t1 where t: "uint16_encode (ucast (push_bit 4 (of_nat n :: u32) OR PKT_TYPE_VENDOR_SPECIFIC)) = (t0, t1)"
    by (cases "uint16_encode (ucast (push_bit 4 (of_nat n :: u32) OR PKT_TYPE_VENDOR_SPECIFIC))")
  let ?h = "[?b, t0, t1, - (?b + t0 + t1)]"
  obtain c0 c1 where c: "uint16_encode (fold crc16_step (?h @ D) 0xFFFF) = (c0, c1)"
    by (cases "uint16_encode (fold crc16_step (?h @ D) 0xFFFF)")
  have n: "unat (PKT_HDR_SIZE + of_nat n) = n + 4"
    using len(2) by (simp add: hci_consts unat_word_ariths unat_of_nat_u32)
  have s1: "store_at (pool_tx s) p ?b = Inr (A @ ?b # x1 # x2 # x3 # D @ y0 # y1 # R)"
    using l by (simp add: tx store_at_def list_update_append)
  have s2: "store_at (A @ ?b # x1 # x2 # x3 # D @ y0 # y1 # R) (p + 1) t0
      = Inr (A @ ?b # t0 # x2 # x3 # D @ y0 # y1 # R)"
    using l by (simp add: store_at_def list_update_append)
  have s3: "store_at (A @ ?b # t0 # x2 # x3 # D @ y0 # y1 # R) (p + 2) t1
      = Inr (A @ ?b # t0 # t1 # x3 # D @ y0 # y1 # R)"
    using l by (simp add: store_at_def list_update_append numeral_2_eq_2)
  have s4: "store_at (A @ ?b # t0 # t1 # x3 # D @ y0 # y1 # R) (p + 3) (- (?b + t0 + t1))
      = Inr (A @ ?h @ D @ y0 # y1 # R)"
    using l by (simp add: store_at_def list_update_append numeral_3_eq_3)
  have crc: "crc16_compute (drop p (A @ ?h @ D @ y0 # y1 # R)) (PKT_HDR_SIZE + of_nat n) None
      = Inr (fold crc16_step (?h @ D) 0xFFFF)"
    using l crc16_prefix [of "PKT_HDR_SIZE + of_nat n" "?h @ D" "y0 # y1 # R"] by (simp add: n)
  have s5: "store_at (A @ ?h @ D @ y0 # y1 # R) (p + (n + 4)) c0 = Inr (A @ ?h @ D @ c0 # y1 # R)"
    using l store_at_end [of "A @ ?h @ D" "p + (n + 4)"] by simp
  have s6: "store_at (A @ ?h @ D @ c0 # y1 # R) (p + (n + 4) + 1) c1 = Inr (A @ ?h @ D @ c0 # c1 # R)"
    using l store_at_end [of "A @ ?h @ D @ [c0]" "p + (n + 4) + 1"] by simp
  have d: "drop p (A @ ?b # t0 # t1 # x3 # D @ y0 # y1 # R) = ?b # t0 # t1 # x3 # D @ y0 # y1 # R"
    using l by simp
  show ?thesis
    unfolding build_packet_def len(1) t prod.case byte_zero s1 s2 s3 s4 then_do_simps d header_checksum crc c Let_def n s5 s6
    using c by (simp add: hci_packet_def packet_header_def Let_def t l)
qed

lemma build_packet_ok:
  assumes "tp_tx_buffer_length s = of_nat n" and "n < 2 ^ 16" and "p + n + 6 \<le> length (pool_tx s)"
  shows "build_packet s p = Inr (take p (pool_tx s) @
    hci_packet (packet_number_expected_get s) (packet_number_to_transmit_get s) (take n (drop (p + 4) (pool_tx s))) @
    drop (p + n + 6) (pool_tx s))"
proof -
  let ?d = "take n (drop (p + 4) (pool_tx s))"
  obtain x0 x1 x2 x3 y0 y1 where tx: "pool_tx s =
      take p (pool_tx s) @ x0 # x1 # x2 # x3 # ?d @ y0 # y1 # drop (p + n + 6) (pool_tx s)"
    by (rule split_packet [OF assms(3)])
  show ?thesis by (rule build_packet_split [OF tx]) (use assms in simp_all)
qed

text \<open>The receiver's check accepts it, whatever follows it in the buffer.\<close>

lemma hci_packet_valid:
  assumes "length d + 6 < 2 ^ 32"
  shows "is_rx_pkt_valid (hci_packet a q d @ R) (of_nat (length d + 6)) = Inr True"
proof -
  obtain t0 t1 where t: "uint16_encode (ucast (push_bit 4 (of_nat (length d) :: u32) OR PKT_TYPE_VENDOR_SPECIFIC)) = (t0, t1)"
    by (cases "uint16_encode (ucast (push_bit 4 (of_nat (length d) :: u32) OR PKT_TYPE_VENDOR_SPECIFIC))")
  let ?b = "first_byte a q"
  let ?h = "[?b, t0, t1, - (?b + t0 + t1)]"
  obtain c0 c1 where c: "uint16_encode (fold crc16_step (?h @ d) 0xFFFF) = (c0, c1)"
    by (cases "uint16_encode (fold crc16_step (?h @ d) 0xFFFF)")
  have p: "hci_packet a q d @ R = ?b # t0 # t1 # (- (?b + t0 + t1)) # d @ c0 # c1 # R"
    using c by (simp add: hci_packet_def packet_header_def Let_def t)
  have l: "unat (of_nat (length d + 6) :: u32) = length d + 6" using assms by (rule unat_of_nat_u32)
  have l2: "unat (of_nat (length d + 6) - PKT_CRC_SIZE) = length d + 4"
    using l by (simp add: hci_consts unat_sub word_le_nat_alt del: of_nat_add)
  have l4: "\<not> of_nat (length d + 6) \<le> PKT_HDR_SIZE"
    using l by (simp add: hci_consts word_le_nat_alt del: of_nat_add)
  have ty: "ucast t0 AND 0x0F = PKT_TYPE_VENDOR_SPECIFIC" using type_field [of "of_nat (length d)"] t by simp
  obtain v where v: "header_sum (hci_packet a q d @ R) = Inr v" "v = 0"
    using header_sum_ok [of ?b t0 t1 "- (?b + t0 + t1)" "d @ c0 # c1 # R"]
      header_sum_zero [of ?b t0 t1 "- (?b + t0 + t1)" "d @ c0 # c1 # R"]
    unfolding p by auto
  have crc: "crc16_compute (hci_packet a q d @ R) (of_nat (length d + 6) - PKT_CRC_SIZE) None
      = Inr (fold crc16_step (?h @ d) 0xFFFF)"
    unfolding p using crc16_prefix [of "of_nat (length d + 6) - PKT_CRC_SIZE" "?h @ d" "c0 # c1 # R"]
    by (simp add: l2 del: of_nat_add)
  have "uint16_decode c0 c1 = fold crc16_step (?h @ d) 0xFFFF"
    using uint16_roundtrip [of "fold crc16_step (?h @ d) 0xFFFF"] by (simp only: c fst_conv snd_conv)
  moreover have "load_at (hci_packet a q d @ R) 0 = Inr ?b" "load_at (hci_packet a q d @ R) 1 = Inr t0"
    "load_at (hci_packet a q d @ R) (length d + 4) = Inr c0"
    "load_at (hci_packet a q d @ R) (length d + 4 + 1) = Inr c1"
    unfolding p by (simp_all add: load_at_def nth_append)
  ultimately show ?thesis
    using l4 ty v crc first_byte_flags [of a q] by (simp add: is_rx_pkt_valid_def l2 del: of_nat_add)
qed

lemma hci_packet_payload: "take (length d) (drop 4 (hci_packet a q d)) = d"
  by (simp add: hci_packet_def packet_header_def Let_def split: prod.split)

lemma hci_packet_fields:
  assumes "a < 2 ^ 3" and "q < 2 ^ 3" and "length d + 6 < 2 ^ 32"
  shows "packet_seq_nmbr_extract (hci_packet a q d @ R) = Inr q"
    and "packet_type_decode (hci_packet a q d @ R) (of_nat (length d + 6)) = Inr PKT_TYPE_VENDOR_SPECIFIC"
proof -
  obtain t0 t1 where t: "uint16_encode (ucast (push_bit 4 (of_nat (length d) :: u32) OR PKT_TYPE_VENDOR_SPECIFIC)) = (t0, t1)"
    by (cases "uint16_encode (ucast (push_bit 4 (of_nat (length d) :: u32) OR PKT_TYPE_VENDOR_SPECIFIC))")
  have l: "unat (of_nat (length d + 6) :: u32) = length d + 6" using assms(3) by (rule unat_of_nat_u32)
  have "\<exists>c R'. hci_packet a q d @ R = first_byte a q # t0 # t1 # c # d @ R'"
    by (simp add: hci_packet_def packet_header_def t Let_def split: prod.split)
  then obtain c R' where p: "hci_packet a q d @ R = first_byte a q # t0 # t1 # c # d @ R'" by blast
  show "packet_seq_nmbr_extract (hci_packet a q d @ R) = Inr q"
    unfolding p using first_byte_fields(1) [OF assms(1,2)] by (simp add: packet_seq_nmbr_extract_def load_at_def)
  have "\<not> of_nat (length d + 6) < (4 :: u32)" using l by (simp add: word_less_nat_alt del: of_nat_add)
  then show "packet_type_decode (hci_packet a q d @ R) (of_nat (length d + 6)) = Inr PKT_TYPE_VENDOR_SPECIFIC"
    unfolding p using type_field [of "of_nat (length d)"] t
    by (simp add: packet_type_decode_def load_at_def hci_consts not_less del: of_nat_add)
qed

section \<open>The SLIP layer below\<close>

text \<open>Between two packets the UART is idle or still busy with the end byte of the last one.\<close>

definition slip_live :: "'m hci_slip_scheme \<Rightarrow> bool" where
  "slip_live s \<longleftrightarrow> (m_current_state s = SLIP_READY \<longrightarrow> port_idle s \<or> port_busy s)"

text \<open>The variables of the transport are what follows those of the SLIP layer in the state.\<close>

lemma more_fields:
  assumes "hci_slip.more t = hci_slip.more (s :: 'm tp)"
  shows "m_tx_state t = m_tx_state s" "m_transport_tx_done_handle t = m_transport_tx_done_handle s"
    "m_transport_event_handle t = m_transport_event_handle s" "mp_slip_used_rx_buffer t = mp_slip_used_rx_buffer s"
    "m_packet_expected_seq_number t = m_packet_expected_seq_number s"
    "m_packet_transmit_seq_number t = m_packet_transmit_seq_number s"
    "tp_tx_buffer t = tp_tx_buffer s" "tp_tx_buffer_length t = tp_tx_buffer_length s"
    "m_is_slip_decode_ready t = m_is_slip_decode_ready s" "m_tx_retry_counter t = m_tx_retry_counter s"
    "m_tx_done_result_code t = m_tx_done_result_code s" "m_rx_ack_buffer t = m_rx_ack_buffer s"
    "ack_packet t = ack_packet s" "pool t = pool s" "pool_rx t = pool_rx s" "pool_tx t = pool_tx s"
    "tp_timer_running t = tp_timer_running s" "slip_rx_ref t = slip_rx_ref s" "slip_tx_ref t = slip_tx_ref s"
  using assms by (cases s; cases t; simp)+

lemma hci_write_ready:
  assumes "m_current_state s = SLIP_READY" and "slip_live s" and "bs \<noteq> []" and "length bs < 2 ^ 32"
  shows "ok (hci_slip_write up (Some bs) (of_nat (length bs)) s) (\<lambda>(r, t). r = NRF_SUCCESS \<and>
    tx_inv (TXD_sent s) bs t \<and> port_busy t \<and> hci_slip.more t = hci_slip.more s)"
proof (cases "port_idle s")
  case True
  show ?thesis
    using hci_write_start [OF assms(1) True assms(3,4), of up] by (auto simp: sent_one_def elim!: ok_mono)
next
  case False
  let ?s = "s\<lparr>m_tx_buffer_index := 0, m_tx_buffer_length := of_nat (length bs), mp_tx_buffer := bs,
      m_current_state := SLIP_TRANSMITTING, send_tx_byte := send_tx_byte_end\<rparr>"
  have l: "unat (of_nat (length bs) :: u32) = length bs" using assms(4) by (rule unat_of_nat_u32)
  have "tx_inv (TXD_sent s) bs ?s" using assms(3) l by (simp add: tx_defs hci_frame_def)
  moreover have "port_busy s" using False assms(1,2) by (simp add: slip_live_def)
  then have "port_busy ?s" by (simp add: port_defs)
  ultimately show ?thesis
    using transmit_rest_busy [of "TXD_sent s" bs ?s "transmit_fuel ?s" up] assms(1)
    by (auto simp: hci_slip_write_def transmit_buffer_end transmit_fuel_def elim!: ok_mono)
qed

lemma slip_write_ok:
  assumes "slip_live s" and "0 < len" and "unat len \<le> length (tx_contents b s)"
  shows "ok (slip_write up (Some b) len s) (\<lambda>(r, t). slip_live t \<and>
    (if m_current_state s = SLIP_READY
     then r = NRF_SUCCESS \<and> tx_inv (TXD_sent s) (take (unat len) (tx_contents b s)) t \<and>
       hci_slip.more t = hci_slip.more (s\<lparr>slip_tx_ref := b\<rparr>)
     else r = (if m_current_state s = SLIP_OFF then NRF_ERROR_INVALID_STATE else NRF_ERROR_NO_MEM) \<and> t = s))"
proof (cases "m_current_state s = SLIP_READY")
  case True
  let ?s = "s\<lparr>slip_tx_ref := b\<rparr>" and ?bs = "take (unat len) (tx_contents b s)"
  have l: "length ?bs = unat len" using assms(3) by simp
  have "slip_live ?s" using assms(1) by (simp add: slip_live_def port_defs)
  moreover have "?bs \<noteq> []" using l assms(2) by (auto simp: word_less_nat_alt simp del: length_take)
  moreover have "length ?bs < 2 ^ 32" using l unsigned_less [of len, where 'a = nat] by simp
  ultimately have "ok (hci_slip_write up (Some ?bs) (of_nat (length ?bs)) ?s) (\<lambda>(r, t). r = NRF_SUCCESS \<and>
      tx_inv (TXD_sent s) ?bs t \<and> port_busy t \<and> hci_slip.more t = hci_slip.more ?s)"
    using hci_write_ready [of ?s ?bs up] True by simp
  then show ?thesis
    unfolding l using True by (auto simp: slip_write_def slip_live_def tx_inv_def elim!: ok_mono)
next
  case False
  then show ?thesis using assms(1)
    by (cases "m_current_state s") (simp_all add: slip_write_def hci_slip_write_def)
qed

lemma tx_contents_simps [simp]:
  "tx_contents Tx_ack s = ack_packet s"
  "tx_contents (Tx_app p) s = drop p (pool_tx s)"
  by (simp_all add: tx_contents_def)

lemma tx_sync_simps [simp]:
  "hci_slip.more (tx_sync s) = hci_slip.more s"
  "slip_live (tx_sync s) = slip_live s"
  "m_current_state (tx_sync s) = m_current_state s"
  "TXD_sent (tx_sync s) = TXD_sent s"
  "tx_contents b (tx_sync s) = tx_contents b s"
  "ack_packet (tx_sync s) = ack_packet s"
  by (auto simp: tx_sync_def slip_live_def port_defs tx_contents_def split: tx_ref.split)

lemma slip_live_frame [simp]:
  "slip_live (s\<lparr>m_tx_state := v1\<rparr>) = slip_live s"
  "slip_live (s\<lparr>mp_slip_used_rx_buffer := v2\<rparr>) = slip_live s"
  "slip_live (s\<lparr>m_packet_expected_seq_number := v3\<rparr>) = slip_live s"
  "slip_live (s\<lparr>m_packet_transmit_seq_number := v4\<rparr>) = slip_live s"
  "slip_live (s\<lparr>tp_tx_buffer := v5\<rparr>) = slip_live s"
  "slip_live (s\<lparr>tp_tx_buffer_length := v6\<rparr>) = slip_live s"
  "slip_live (s\<lparr>m_is_slip_decode_ready := v7\<rparr>) = slip_live s"
  "slip_live (s\<lparr>m_tx_retry_counter := v8\<rparr>) = slip_live s"
  "slip_live (s\<lparr>m_tx_done_result_code := v9\<rparr>) = slip_live s"
  "slip_live (s\<lparr>m_rx_ack_buffer := v10\<rparr>) = slip_live s"
  "slip_live (s\<lparr>ack_packet := v11\<rparr>) = slip_live s"
  "slip_live (s\<lparr>pool := v12\<rparr>) = slip_live s"
  "slip_live (s\<lparr>pool_rx := v13\<rparr>) = slip_live s"
  "slip_live (s\<lparr>pool_tx := v14\<rparr>) = slip_live s"
  "slip_live (s\<lparr>tp_timer_running := v15\<rparr>) = slip_live s"
  "slip_live (s\<lparr>slip_rx_ref := v16\<rparr>) = slip_live s"
  "slip_live (s\<lparr>slip_tx_ref := v17\<rparr>) = slip_live s"
  by (simp_all add: slip_live_def port_defs)

section \<open>Acknowledgments\<close>

definition ack_bytes :: "u8 \<Rightarrow> u8 list" where
  "ack_bytes e = [push_bit 3 e, 0, 0, - push_bit 3 e]"

lemma ack_transmit_ok:
  assumes "slip_live s"
  shows "ok (ack_transmit up s) (\<lambda>t. slip_live t \<and>
    (\<exists>b. hci_slip.more t = hci_slip.more (s\<lparr>ack_packet := ack_bytes (packet_number_expected_get s), slip_tx_ref := b\<rparr>)) \<and>
    (m_current_state s = SLIP_READY \<longrightarrow> tx_inv (TXD_sent s) (ack_bytes (packet_number_expected_get s)) t))"
proof -
  let ?a = "ack_bytes (packet_number_expected_get s)"
  let ?s = "tx_sync (s\<lparr>ack_packet := ?a\<rparr>)"
  have live: "slip_live ?s" using assms by simp
  have c: "tx_contents Tx_ack ?s = ?a" "unat PKT_HDR_SIZE = 4" "0 < PKT_HDR_SIZE" "length ?a = 4"
    by (simp_all add: tx_contents_def hci_consts ack_bytes_def)
  have run: "ack_transmit up s = ignore_code (slip_write up (Some Tx_ack) PKT_HDR_SIZE ?s)"
    by (simp add: ack_transmit_def header_checksum ack_bytes_def Let_def)
  have "hci_slip.more (?s\<lparr>slip_tx_ref := b\<rparr>) = hci_slip.more (s\<lparr>ack_packet := ?a, slip_tx_ref := b\<rparr>)" for b
    by (cases s) (simp add: tx_sync_def)
  moreover have "\<exists>b. hci_slip.more (s\<lparr>ack_packet := ?a\<rparr>) = hci_slip.more (s\<lparr>ack_packet := ?a, slip_tx_ref := b\<rparr>)"
    by (rule exI [of _ "slip_tx_ref s"]) (cases s, simp)
  moreover have "ok (slip_write up (Some Tx_ack) PKT_HDR_SIZE ?s) (\<lambda>(r, t). slip_live t \<and>
      (if m_current_state s = SLIP_READY
       then tx_inv (TXD_sent s) ?a t \<and> hci_slip.more t = hci_slip.more (?s\<lparr>slip_tx_ref := Tx_ack\<rparr>) else t = ?s))"
    by (rule ok_mono [OF slip_write_ok [OF live c(3), of Tx_ack up]]) (auto simp: c split: if_splits)
  ultimately show ?thesis
    unfolding run ok_ignore_code by (auto elim!: ok_mono split: if_splits)
qed

lemma ack_accepted:
  assumes "e < 2 ^ 3"
  shows "rx_ack_pkt_type_handle (ack_bytes e @ R) s = Inr (e = expected_ack_number_get s)"
proof -
  have m: "(0x07 :: u8) = mask 3" by (simp add: mask_eq_exp_minus_1)
  have b: "bit e n \<Longrightarrow> n < 3" for n using bit_less_exp [OF assms] .
  have "drop_bit 3 (push_bit 3 e) AND 0x07 = e"
    unfolding m by (intro bit_word_eqI) (auto simp: bit_simps dest: b)
  then show ?thesis
    using header_sum_ok [of "push_bit 3 e" 0 0 "- push_bit 3 e" R]
      header_sum_zero [of "push_bit 3 e" 0 0 "- push_bit 3 e" R]
    by (auto simp: rx_ack_pkt_type_handle_def ack_bytes_def load_at_def)
qed

end
