(* ===== verification/HciTransportProps.thy ===== *)
theory HciTransportProps
  imports HciPacket
begin

text \<open>
  Properties of the HCI transport: the receiver keeps a queue of packets, delivers a packet in sequence once and only
  acknowledges a duplicate; a packet and its acknowledgment cross the link; a packet is given up after the
  last repetition.
\<close>

unbundle bit_operations_syntax

section \<open>The queue of received packets\<close>

text \<open>
  The packets the application can still extract, oldest first: those in the produced buffers, except for the one the SLIP
  layer is filling.
\<close>

definition waiting_buffers :: "'m tp \<Rightarrow> nat list" where
  "waiting_buffers s =
     (if mp_slip_used_rx_buffer s = None then produced (pool s) else butlast (produced (pool s)))"

definition rx_packets :: "'m tp \<Rightarrow> u8 list list" where
  "rx_packets s = map (\<lambda>i. take (unat (rx_lengths (pool s) ! i)) (pool_rx s (of_nat i))) (waiting_buffers s)"

definition rx_inv :: "'m tp \<Rightarrow> bool" where
  "rx_inv s \<longleftrightarrow> pool_ok (pool s) \<and> slip_live s \<and>
     (\<forall>i. mp_slip_used_rx_buffer s = Some i \<longrightarrow> produced (pool s) \<noteq> [] \<and> last (produced (pool s)) = unat i) \<and>
     (\<forall>j \<in> set (waiting_buffers s). unat (rx_lengths (pool s) ! j) \<le> length (pool_rx s (of_nat j)))"

lemma rx_packets_cong:
  "pool t = pool s \<Longrightarrow> pool_rx t = pool_rx s \<Longrightarrow> mp_slip_used_rx_buffer t = mp_slip_used_rx_buffer s \<Longrightarrow>
   rx_packets t = rx_packets s"
  by (simp add: rx_packets_def waiting_buffers_def)

lemma last_produced:
  assumes "ring_ok q" and "produced q \<noteq> []"
  shows "unat ((write_index q - 1) AND pool_mask q) = last (produced q)"
proof -
  note m = mem_mask_unat [OF assms(1)]
  obtain n where n: "unat (read_available_count q) = Suc n"
    using assms(2) by (cases "unat (read_available_count q)") (simp_all add: produced_def ring_seg_def)
  have l: "last (produced q) = (unat (read_index q) + n) mod ring_size q"
    by (simp add: produced_def n ring_seg_Suc)
  have w: "unat (write_index q) = Suc (unat (read_index q) + n) mod ring_size q"
    using assms(1) by (simp add: ring_ok_def n)
  show ?thesis
  proof (cases "write_index q = 0")
    case True
    obtain k where k: "k \<le> 5" "HCI_RX_BUF_QUEUE_SIZE q = 2 ^ k" using assms(1) by (auto simp: ring_ok_def)
    have "Suc (unat (read_index q) + n) mod ring_size q = 0" using w True by simp
    then have "(unat (read_index q) + n) mod ring_size q = ring_size q - 1"
      using m(2) by (metis Suc_pred' mod_Suc nat.distinct(1) diff_Suc_1)
    moreover have "(2 ^ 32 - 1) mod ring_size q = ring_size q - (1 :: nat)"
    proof -
      have "k = 0 \<or> k = 1 \<or> k = 2 \<or> k = 3 \<or> k = 4 \<or> k = 5" using k(1) by linarith
      then show ?thesis using k(2) by (auto simp: ring_size_def)
    qed
    ultimately show ?thesis using True m(1) [of "-1"] l by (simp add: unsigned_minus_1_eq_mask mask_eq_exp_minus_1)
  next
    case False
    then have "Suc (unat (read_index q) + n) mod ring_size q = Suc ((unat (read_index q) + n) mod ring_size q)"
      using w by (metis mod_Suc unat_eq_0)
    then have "unat (write_index q - 1) = (unat (read_index q) + n) mod ring_size q"
      using w by (intro unat_pred_Suc) simp
    then show ?thesis using m(1,2) l by simp
  qed
qed

lemma ring_ok_lengths [simp]:
  "length l = length (rx_lengths q) \<Longrightarrow> pool_ok (q\<lparr>rx_lengths := l\<rparr>) = pool_ok q"
  by (simp add: pool_ok_def ring_ok_def ring_size_def extracted_def produced_def ring_base_def)

lemma produced_lengths [simp]: "produced (q\<lparr>rx_lengths := l\<rparr>) = produced q"
  by (simp add: produced_def ring_size_def)

text \<open>The size goes to the buffer that has been filled.\<close>

lemma data_size_set_ok:
  assumes "pool_ok q" and "produced q \<noteq> []"
  shows "hci_mem_pool_rx_data_size_set len q
    = Inr (NRF_SUCCESS, q\<lparr>rx_lengths := (rx_lengths q)[last (produced q) := len]\<rparr>)"
proof -
  have o: "ring_ok q" using assms(1) by (simp add: pool_ok_def)
  have "last (produced q) < length (rx_lengths q)"
    using last_produced [OF o assms(2)] mem_mask_unat(1,2) [OF o] o by (metis mod_less_divisor ring_ok_def)
  then show ?thesis
    by (simp add: hci_mem_pool_rx_data_size_set_def last_produced [OF o assms(2)] store_at_def)
qed

lemma register_rx_run:
  "register_rx r len s = Inr (s\<lparr>slip_rx_ref := r, mp_rx_buffer := rx_contents r s, m_rx_buffer_length := len,
     m_rx_received_count := 0, handle_rx_byte := handle_rx_byte_wait_start\<rparr>)"
  by (simp add: register_rx_def hci_slip_rx_buffer_register_def app_error_check_def)

lemma slip_live_rx [simp]:
  "slip_live (s\<lparr>mp_rx_buffer := b, m_rx_buffer_length := l, m_rx_received_count := c, handle_rx_byte := h\<rparr>) = slip_live s"
  by (simp add: slip_live_def port_defs)

lemma tx_inv_rx [simp]:
  "tx_inv before bs (s\<lparr>mp_rx_buffer := b, m_rx_buffer_length := l, m_rx_received_count := c, handle_rx_byte := h\<rparr>)
    = tx_inv before bs s"
  by (cases "send_tx_byte s") (simp_all add: tx_defs)

lemma tx_inv_pool [simp]:
  "tx_inv before bs (s\<lparr>pool := q\<rparr>) = tx_inv before bs s"
  "tx_inv before bs (s\<lparr>mp_slip_used_rx_buffer := u\<rparr>) = tx_inv before bs s"
  "tx_inv before bs (s\<lparr>slip_rx_ref := r\<rparr>) = tx_inv before bs s"
  "tx_inv before bs (s\<lparr>m_is_slip_decode_ready := y\<rparr>) = tx_inv before bs s"
  by (cases "send_tx_byte s"; simp add: tx_defs)+

text \<open>A new buffer for the SLIP layer, if the pool has one.\<close>

definition next_buffer :: "'m tp \<Rightarrow> 'm tp \<Rightarrow> bool" where
  "next_buffer s t \<longleftrightarrow> pool_ok (pool t) \<and> slip_live t = slip_live s \<and> rx_lengths (pool t) = rx_lengths (pool s) \<and>
     (\<exists>b q r. hci_slip.more t = hci_slip.more (s\<lparr>mp_slip_used_rx_buffer := b, pool := q, slip_rx_ref := r\<rparr>)) \<and>
     (case mp_slip_used_rx_buffer t of
        None \<Rightarrow> produced (pool t) = produced (pool s)
      | Some i \<Rightarrow> produced (pool t) = produced (pool s) @ [unat i]) \<and>
     (\<forall>before bs. tx_inv before bs t = tx_inv before bs s)"

lemma rx_produce_lengths:
  "hci_mem_pool_rx_produce len pp q = Inr (r, b, q') \<Longrightarrow> rx_lengths q' = rx_lengths q"
  by (auto simp: hci_mem_pool_rx_produce_def then_do_Inr_iff split: if_splits)

lemma produce_and_register_ok:
  assumes "pool_ok (pool s)"
  shows "ok (produce_and_register s) (next_buffer s)"
proof (cases "free_window_count (pool s) = 0")
  case True
  then have "hci_mem_pool_rx_produce (HCI_RX_BUF_SIZE (pool s)) True (pool s) = Inr (NRF_ERROR_NO_MEM, None, pool s)"
    by (simp add: hci_mem_pool_rx_produce_def)
  then show ?thesis using assms
    by (simp add: produce_and_register_def Let_def register_rx_run app_error_check_bool_def next_buffer_def)
      (rule exI [of _ None], rule exI [of _ "pool s"], rule exI [of _ Rx_ack], cases s, simp)
next
  case False
  from produce_ok [OF assms False order_refl]
  obtain q where q: "hci_mem_pool_rx_produce (HCI_RX_BUF_SIZE (pool s)) True (pool s)
      = Inr (NRF_SUCCESS, Some (write_index (pool s)), q)" "pool_ok q"
      "produced q = produced (pool s) @ [unat (write_index (pool s))]"
    by (auto simp: ok_iff)
  then show ?thesis using rx_produce_lengths [OF q(1)]
    by (simp add: produce_and_register_def Let_def register_rx_run app_error_check_bool_def next_buffer_def)
      (rule exI [of _ "Some (write_index (pool s))"], rule exI [of _ q],
       rule exI [of _ "Rx_pool (write_index (pool s))"], cases s, simp)
qed

text \<open>The transmitting side is untouched by reception.\<close>

definition same_tx :: "'m tp \<Rightarrow> 'm tp \<Rightarrow> bool" where
  "same_tx s t \<longleftrightarrow> m_tx_state t = m_tx_state s \<and> tp_tx_buffer t = tp_tx_buffer s \<and>
     tp_tx_buffer_length t = tp_tx_buffer_length s \<and> m_tx_retry_counter t = m_tx_retry_counter s \<and>
     m_packet_transmit_seq_number t = m_packet_transmit_seq_number s \<and> pool_tx t = pool_tx s"

definition queue_same :: "'m tp \<Rightarrow> 'm tp \<Rightarrow> bool" where
  "queue_same s t \<longleftrightarrow> rx_packets t = rx_packets s \<and> m_is_slip_decode_ready t = m_is_slip_decode_ready s \<and>
     m_packet_expected_seq_number t = m_packet_expected_seq_number s"

text \<open>
  The acknowledgment that names the number expected in \<open>t\<close> is what the SLIP layer sends after the bytes that were out in \<open>s\<close>,
  if it was free.
\<close>

definition ack_sent :: "'m tp \<Rightarrow> 'm tp \<Rightarrow> bool" where
  "ack_sent s t \<longleftrightarrow>
     (m_current_state s = SLIP_READY \<longrightarrow> tx_inv (TXD_sent s) (ack_bytes (packet_number_expected_get t)) t)"

text \<open>\<open>p\<close>, \<open>len\<close> bytes of it received, is the next packet in the queue of \<open>t\<close>.\<close>

definition delivered :: "u8 list \<Rightarrow> u32 \<Rightarrow> 'm tp \<Rightarrow> 'm tp \<Rightarrow> bool" where
  "delivered p len s t \<longleftrightarrow> rx_packets t = rx_packets s @ [take (unat len) p] \<and> m_is_slip_decode_ready t \<and>
     m_packet_expected_seq_number t = (m_packet_expected_seq_number s + 1) AND 7"

lemma produced_bound: "ring_ok q \<Longrightarrow> j \<in> set (produced q) \<Longrightarrow> j < 32 \<and> j < length (rx_lengths q)"
proof -
  assume o: "ring_ok q" and j: "j \<in> set (produced q)"
  then have "j < ring_size q" using mem_mask_unat(2) [OF o] by (auto simp: produced_def ring_seg_def)
  then show ?thesis using mem_mask_unat(3) [OF o] o by (simp add: ring_ok_def)
qed

lemma packets_after_fill:
  assumes inv: "rx_inv s" and u: "mp_slip_used_rx_buffer s = Some i" and p: "pool_rx s i = p"
  shows "map (\<lambda>j. take (unat ((rx_lengths (pool s))[unat i := len] ! j)) (pool_rx s (of_nat j))) (produced (pool s))
    = rx_packets s @ [take (unat len) p]"
    and "unat len \<le> length p \<Longrightarrow> j \<in> set (produced (pool s)) \<Longrightarrow>
      unat ((rx_lengths (pool s))[unat i := len] ! j) \<le> length (pool_rx s (of_nat j))"
proof -
  have o: "ring_ok (pool s)" using inv by (simp add: rx_inv_def pool_ok_def)
  have "produced (pool s) \<noteq> []" "last (produced (pool s)) = unat i" using inv u by (simp_all add: rx_inv_def)
  then obtain B where B: "produced (pool s) = B @ [unat i]" by (cases "produced (pool s)" rule: rev_cases) auto
  have "distinct (B @ [unat i])" using in_use_distinct [OF o] B by simp
  then have "j \<noteq> unat i" if "j \<in> set B" for j using that by auto
  moreover have "unat i < length (rx_lengths (pool s))" using produced_bound [OF o, of "unat i"] B by simp
  ultimately show "map (\<lambda>j. take (unat ((rx_lengths (pool s))[unat i := len] ! j)) (pool_rx s (of_nat j))) (produced (pool s))
      = rx_packets s @ [take (unat len) p]"
    and "unat len \<le> length p \<Longrightarrow> j \<in> set (produced (pool s)) \<Longrightarrow>
      unat ((rx_lengths (pool s))[unat i := len] ! j) \<le> length (pool_rx s (of_nat j))"
    using u p inv
    by (auto simp: rx_packets_def waiting_buffers_def B rx_inv_def nth_list_update intro!: map_cong)
qed

lemma valid_length: "is_rx_pkt_valid p len = Inr True \<Longrightarrow> unat len \<le> length p"
proof -
  assume v: "is_rx_pkt_valid p len = Inr True"
  then have "PKT_HDR_SIZE < len" by (auto simp: is_rx_pkt_valid_def not_le split: if_splits)
  then have "unat (len - PKT_CRC_SIZE) = unat len - 2"
    by (subst unat_sub) (auto simp: hci_consts word_less_nat_alt word_le_nat_alt)
  then show ?thesis
    using v by (auto simp: is_rx_pkt_valid_def then_do_Inr_iff load_at_Inr_iff split: if_splits)
qed

lemma waiting_buffers_cong:
  "pool t = pool s \<Longrightarrow> mp_slip_used_rx_buffer t = mp_slip_used_rx_buffer s \<Longrightarrow> waiting_buffers t = waiting_buffers s"
  by (simp add: waiting_buffers_def)

lemma rx_vendor_in_sequence:
  assumes inv: "rx_inv s" and u: "mp_slip_used_rx_buffer s = Some i" and p: "pool_rx s i = p"
    and valid: "is_rx_pkt_valid p len = Inr True"
    and seq: "packet_seq_nmbr_extract p = Inr (packet_number_expected_get s)"
  obtains t where "rx_vendor_specific_pkt_type_handle env up p len s
      = (if m_transport_event_handle s then app_rx_ready env t else Inr t)"
    "rx_inv t" "delivered p len s t" "same_tx s t" "ack_packet t = ack_bytes (packet_number_expected_get t)" "ack_sent s t"
proof -
  have pr: "produced (pool s) \<noteq> []" "last (produced (pool s)) = unat i" "pool_ok (pool s)" "slip_live s"
    using inv u by (simp_all add: rx_inv_def)
  let ?s0 = "packet_number_expected_inc s"
  have live0: "slip_live ?s0" using pr(4) by (simp add: packet_number_expected_inc_def)
  obtain s1 b where s1: "ack_transmit up ?s0 = Inr s1" "slip_live s1"
      "hci_slip.more s1 = hci_slip.more (?s0\<lparr>ack_packet := ack_bytes (packet_number_expected_get ?s0), slip_tx_ref := b\<rparr>)"
      "m_current_state ?s0 = SLIP_READY \<longrightarrow> tx_inv (TXD_sent ?s0) (ack_bytes (packet_number_expected_get ?s0)) s1"
    using ack_transmit_ok [OF live0, of up] by (auto simp: ok_iff)
  note f1 = more_fields [OF s1(3)]
  let ?q = "(pool s)\<lparr>rx_lengths := (rx_lengths (pool s))[unat i := len]\<rparr>"
  let ?s2 = "s1\<lparr>m_is_slip_decode_ready := True, pool := ?q\<rparr>"
  have pool1: "pool s1 = pool s" using f1 by (simp add: packet_number_expected_inc_def)
  have size: "app_error_check (hci_mem_pool_rx_data_size_set len (pool s)) = Inr ?q"
    using data_size_set_ok [OF pr(3,1), of len] by (simp add: pr(2) app_error_check_def)
  have "pool_ok (pool ?s2)" using pr(3) by simp
  then obtain t where t: "produce_and_register ?s2 = Inr t" "next_buffer ?s2 t"
    using produce_and_register_ok [of ?s2] by (auto simp: ok_iff)
  then obtain b' q' r' where "hci_slip.more t
      = hci_slip.more (?s2\<lparr>mp_slip_used_rx_buffer := b', pool := q', slip_rx_ref := r'\<rparr>)"
    by (auto simp: next_buffer_def)
  note f2 = more_fields [OF this]
  have e: "m_packet_expected_seq_number t = (m_packet_expected_seq_number s + 1) AND 7"
    using f1 f2 by (simp add: packet_number_expected_inc_def)
  have "rx_packets t = map (\<lambda>j. take (unat (rx_lengths ?q ! j)) (pool_rx s (of_nat j))) (produced (pool s))"
    using t(2) f1 f2
    by (auto simp: rx_packets_def waiting_buffers_def next_buffer_def packet_number_expected_inc_def split: option.splits)
  then have "delivered p len s t"
    using packets_after_fill(1) [OF inv u p, of len] e f2 by (simp add: delivered_def)
  moreover have "unat (rx_lengths (pool t) ! j) \<le> length (pool_rx t (of_nat j))" if "j \<in> set (waiting_buffers t)" for j
    using that packets_after_fill(2) [OF inv u p valid_length [OF valid], of j] t(2) f1 f2
    by (auto simp: waiting_buffers_def next_buffer_def packet_number_expected_inc_def split: option.splits)
  then have "rx_inv t"
    using t(2) s1(2) by (auto simp: rx_inv_def next_buffer_def split: option.splits)
  moreover have "same_tx s t" using f1 f2 by (simp add: same_tx_def packet_number_expected_inc_def)
  moreover have "ack_packet t = ack_bytes (packet_number_expected_get t)"
    using f1 f2 e by (simp add: packet_number_expected_inc_def packet_number_expected_get_def)
  moreover have "ack_sent s t"
    using s1(4) t(2) e by (simp add: ack_sent_def next_buffer_def packet_number_expected_inc_def packet_number_expected_get_def)
  moreover have "rx_vendor_specific_pkt_type_handle env up p len s
      = (if m_transport_event_handle s then app_rx_ready env t else Inr t)"
    using f1 f2 valid seq s1(1) size t(1)
    by (simp add: rx_vendor_specific_pkt_type_handle_def Let_def pool1 packet_number_expected_inc_def)
  ultimately show thesis by (intro that)
qed

lemma register_used_ok:
  assumes "rx_inv s"
  shows "ok (register_used s) (\<lambda>t. rx_inv t \<and> queue_same s t \<and> same_tx s t \<and> ack_packet t = ack_packet s \<and>
    TXD_sent t = TXD_sent s \<and> packet_number_expected_get t = packet_number_expected_get s \<and>
    m_transport_event_handle t = m_transport_event_handle s \<and> m_current_state t = m_current_state s)"
  using assms
  by (cases "mp_slip_used_rx_buffer s") (simp_all add: register_used_def register_rx_run rx_inv_def queue_same_def same_tx_def rx_packets_def
      waiting_buffers_def packet_number_expected_get_def)

lemma rx_vendor_out_of_sequence:
  assumes inv: "rx_inv s" and valid: "is_rx_pkt_valid p len = Inr True"
    and seq: "packet_seq_nmbr_extract p = Inr q" "q \<noteq> packet_number_expected_get s"
  shows "ok (rx_vendor_specific_pkt_type_handle env up p len s) (\<lambda>t. rx_inv t \<and> queue_same s t \<and> same_tx s t \<and>
    ack_packet t = ack_bytes (packet_number_expected_get t) \<and> ack_sent s t)"
proof -
  obtain u where u: "register_used s = Inr u" "rx_inv u" "queue_same s u" "same_tx s u"
      "m_current_state u = m_current_state s" "TXD_sent u = TXD_sent s"
    using register_used_ok [OF inv] by (auto simp: ok_iff)
  have "slip_live u" using u(2) by (simp add: rx_inv_def)
  then obtain t b where t: "ack_transmit up u = Inr t" "slip_live t"
      "hci_slip.more t = hci_slip.more (u\<lparr>ack_packet := ack_bytes (packet_number_expected_get u), slip_tx_ref := b\<rparr>)"
      "m_current_state u = SLIP_READY \<longrightarrow> tx_inv (TXD_sent u) (ack_bytes (packet_number_expected_get u)) t"
    using ack_transmit_ok [of u up] by (auto simp: ok_iff)
  note f = more_fields [OF t(3)]
  have "rx_packets t = rx_packets u" by (rule rx_packets_cong) (use f in simp_all)
  then have "rx_inv t" "queue_same s t" "same_tx s t" "ack_packet t = ack_bytes (packet_number_expected_get t)" "ack_sent s t"
    using u t(2,4) f waiting_buffers_cong [of t u]
    by (simp_all add: rx_inv_def queue_same_def same_tx_def packet_number_expected_get_def ack_sent_def)
  then show ?thesis
    using valid seq u(1) t(1) by (simp add: rx_vendor_specific_pkt_type_handle_def)
qed

text \<open>Storing what was received in the buffer that is being filled changes neither.\<close>

lemma rx_commit_ok:
  fixes p
  assumes "rx_inv s" and "mp_slip_used_rx_buffer s = Some i" and "slip_rx_ref s = Rx_pool i"
  defines "t \<equiv> rx_commit (Some p) s"
  shows "rx_inv t" and "rx_packets t = rx_packets s" and "same_tx s t" and "mp_slip_used_rx_buffer t = Some i"
    and "pool_rx t i = p" and "queue_same s t" and "ack_packet t = ack_packet s" and "TXD_sent t = TXD_sent s"
    and "packet_number_expected_get t = packet_number_expected_get s"
    and "m_transport_event_handle t = m_transport_event_handle s" and "m_current_state t = m_current_state s"
proof -
  have t: "t = s\<lparr>pool_rx := (pool_rx s)(i := p)\<rparr>" using assms(3) by (simp add: t_def rx_commit_def)
  have o: "ring_ok (pool s)" using assms(1) by (simp add: rx_inv_def pool_ok_def)
  have "produced (pool s) \<noteq> []" "last (produced (pool s)) = unat i"
    using assms(1,2) by (simp_all add: rx_inv_def)
  then obtain B where B: "produced (pool s) = B @ [unat i]" by (cases "produced (pool s)" rule: rev_cases) auto
  have ne: "of_nat j \<noteq> i" if "j \<in> set B" for j
  proof
    assume "of_nat j = i"
    moreover have "j < 2 ^ 32" using produced_bound [OF o, of j] B that by simp
    ultimately have "unat i = j" using unat_of_nat_u32 by blast
    then show False using in_use_distinct [OF o] B that by simp
  qed
  then show r: "rx_packets t = rx_packets s"
    using assms(2) by (auto simp: t rx_packets_def waiting_buffers_def B)
  have "waiting_buffers t = B" "waiting_buffers s = B" using assms(2) by (simp_all add: t waiting_buffers_def B)
  then show "rx_inv t" using assms(1,2) ne by (auto simp: rx_inv_def t)
  show "same_tx s t" "mp_slip_used_rx_buffer t = Some i" "pool_rx t i = p" "queue_same s t"
    "ack_packet t = ack_packet s" "TXD_sent t = TXD_sent s"
    "packet_number_expected_get t = packet_number_expected_get s"
    "m_transport_event_handle t = m_transport_event_handle s" "m_current_state t = m_current_state s"
    using assms(1,2) r by (simp_all add: t rx_inv_def same_tx_def queue_same_def packet_number_expected_get_def)
qed

lemma valid_is_vendor:
  assumes "is_rx_pkt_valid p len = Inr True"
  shows "packet_type_decode p len = Inr PKT_TYPE_VENDOR_SPECIFIC"
  using assms
  by (auto simp: is_rx_pkt_valid_def packet_type_decode_def then_do_Inr_iff load_at_Inr_iff split: if_splits)

lemma receive_in_sequence:
  assumes "rx_inv s" and "mp_slip_used_rx_buffer s = Some i" and "slip_rx_ref s = Rx_pool i"
    and "is_rx_pkt_valid p len = Inr True" and "packet_seq_nmbr_extract p = Inr (packet_number_expected_get s)"
  obtains t where "slip_event_handle env up \<lparr>evt_type = HCI_SLIP_RX_RDY, packet = Some p, packet_length = len\<rparr> s
      = (if m_transport_event_handle s then app_rx_ready env t else Inr t)"
    "rx_inv t" "delivered p len s t" "same_tx s t" "ack_packet t = ack_bytes (packet_number_expected_get t)" "ack_sent s t"
proof -
  let ?c = "rx_commit (Some p) s"
  note c = rx_commit_ok [OF assms(1-3), of p]
  have "packet_seq_nmbr_extract p = Inr (packet_number_expected_get ?c)" using assms(5) c(9) by simp
  from rx_vendor_in_sequence [OF c(1,4,5) assms(4) this, of env up]
  obtain t where t: "rx_vendor_specific_pkt_type_handle env up p len ?c
      = (if m_transport_event_handle ?c then app_rx_ready env t else Inr t)"
    "rx_inv t" "delivered p len ?c t" "same_tx ?c t" "ack_packet t = ack_bytes (packet_number_expected_get t)" "ack_sent ?c t" .
  moreover have "delivered p len s t" "same_tx s t" "ack_sent s t"
    using t(3,4,6) c(2,3,6,8,11) by (simp_all add: delivered_def same_tx_def queue_same_def ack_sent_def)
  ultimately show thesis
    using c(10) valid_is_vendor [OF assms(4)]
    by (intro that [of t]) (simp_all add: slip_event_handle_def slip_rx_ready_def)
qed

lemma receive_out_of_sequence:
  assumes "rx_inv s" and "mp_slip_used_rx_buffer s = Some i" and "slip_rx_ref s = Rx_pool i"
    and "is_rx_pkt_valid p len = Inr True" and "packet_seq_nmbr_extract p = Inr q" and "q \<noteq> packet_number_expected_get s"
  shows "ok (slip_event_handle env up \<lparr>evt_type = HCI_SLIP_RX_RDY, packet = Some p, packet_length = len\<rparr> s)
    (\<lambda>t. rx_inv t \<and> queue_same s t \<and> same_tx s t \<and> ack_packet t = ack_bytes (packet_number_expected_get t) \<and> ack_sent s t)"
proof -
  let ?c = "rx_commit (Some p) s"
  note c = rx_commit_ok [OF assms(1-3), of p]
  have "q \<noteq> packet_number_expected_get ?c" using assms(6) c(9) by simp
  from rx_vendor_out_of_sequence [OF c(1) assms(4,5) this, of env up] show ?thesis
    using c(3,6,8,11) valid_is_vendor [OF assms(4)]
    by (auto simp: slip_event_handle_def slip_rx_ready_def queue_same_def same_tx_def ack_sent_def elim!: ok_mono)
qed

text \<open>
  C21. The receiver keeps a queue of packets. A packet that passes the check and has the expected sequence number
  is appended to the queue with the bytes received, the application is told (if it asked to be), and the next number
  modulo 8 is expected; a packet with another number, a repetition, leaves the queue and the number as they
  are. In both cases the frame of an acknowledgment with the number expected next is sent to the peer, if the SLIP layer is
  free; if it is still sending something else, the acknowledgment is left out.
\<close>

theorem hci_transport_queue:
  assumes "rx_inv s" and "mp_slip_used_rx_buffer s = Some i" and "slip_rx_ref s = Rx_pool i"
    and "is_rx_pkt_valid p len = Inr True" and "packet_seq_nmbr_extract p = Inr q"
  shows "\<exists>t. rx_inv t \<and> same_tx s t \<and> ack_packet t = ack_bytes (packet_number_expected_get t) \<and>
    (m_current_state s = SLIP_READY \<longrightarrow> tx_inv (TXD_sent s) (ack_bytes (packet_number_expected_get t)) t) \<and>
    (if q = packet_number_expected_get s
     then delivered p len s t \<and>
       slip_event_handle env up \<lparr>evt_type = HCI_SLIP_RX_RDY, packet = Some p, packet_length = len\<rparr> s
         = (if m_transport_event_handle s then app_rx_ready env t else Inr t)
     else queue_same s t \<and>
       slip_event_handle env up \<lparr>evt_type = HCI_SLIP_RX_RDY, packet = Some p, packet_length = len\<rparr> s = Inr t)"
proof (cases "q = packet_number_expected_get s")
  case True
  obtain t where "slip_event_handle env up \<lparr>evt_type = HCI_SLIP_RX_RDY, packet = Some p, packet_length = len\<rparr> s
      = (if m_transport_event_handle s then app_rx_ready env t else Inr t)"
    "rx_inv t" "delivered p len s t" "same_tx s t" "ack_packet t = ack_bytes (packet_number_expected_get t)" "ack_sent s t"
    using receive_in_sequence [OF assms(1-4) assms(5) [unfolded True], of env up] .
  then show ?thesis using True by (intro exI [of _ t]) (simp add: ack_sent_def)
next
  case False
  with receive_out_of_sequence [OF assms False, of env up] show ?thesis by (auto simp: ok_iff ack_sent_def)
qed

text \<open>
  A packet that is no acknowledgment and fails the check (too short, another type, a wrong flag, checksum or
  CRC) is dropped without a trace: the queue, the expected number and the transmitter stay as they are, nothing is
  sent, and the SLIP layer gets the buffer back.
\<close>

theorem hci_transport_refuses:
  assumes "rx_inv s" and "mp_slip_used_rx_buffer s = Some i" and "slip_rx_ref s = Rx_pool i"
    and "packet_type_decode p len = Inr ty" and "ty \<noteq> PKT_TYPE_ACK"
    and "ty = PKT_TYPE_VENDOR_SPECIFIC \<Longrightarrow> is_rx_pkt_valid p len = Inr False"
  shows "ok (slip_event_handle env up \<lparr>evt_type = HCI_SLIP_RX_RDY, packet = Some p, packet_length = len\<rparr> s)
    (\<lambda>t. rx_inv t \<and> queue_same s t \<and> same_tx s t \<and> TXD_sent t = TXD_sent s \<and> ack_packet t = ack_packet s \<and>
      slip_rx_ref t = Rx_pool i \<and> mp_rx_buffer t = Some p)"
proof -
  let ?c = "rx_commit (Some p) s"
  note c = rx_commit_ok [OF assms(1-3), of p]
  have "slip_event_handle env up \<lparr>evt_type = HCI_SLIP_RX_RDY, packet = Some p, packet_length = len\<rparr> s = register_used ?c"
    using assms(4-6) c(4)
    by (auto simp: slip_event_handle_def slip_rx_ready_def rx_drop_def rx_vendor_specific_pkt_type_handle_def)
  moreover have "ok (register_used ?c) (\<lambda>t. slip_rx_ref t = Rx_pool i \<and> mp_rx_buffer t = Some p)"
    using c(4,5) by (simp add: register_used_def register_rx_run rx_contents_def)
  ultimately show ?thesis
    using register_used_ok [OF c(1)] c(3,6,7,8) by (auto simp: ok_iff queue_same_def same_tx_def)
qed

section \<open>Extraction\<close>

lemma extract_first:
  assumes "rx_inv s" and "m_is_slip_decode_ready s" and "rx_packets s = w # rest"
  shows "ok (hci_transport_rx_pkt_extract True True s) (\<lambda>(r, res, t). r = NRF_SUCCESS \<and> rx_inv t \<and> rx_packets t = rest \<and>
    \<not> m_is_slip_decode_ready t \<and>
    (\<exists>b. res = Some (Some b, ucast (of_nat (length w) - 6 :: u32)) \<and> take (length w) (pool_rx t b) = w))"
proof -
  let ?q = "pool s" and ?i = "read_index (pool s)"
  have "waiting_buffers s \<noteq> []" using assms(3) by (auto simp: rx_packets_def)
  then have ne: "produced ?q \<noteq> []" by (auto simp: waiting_buffers_def split: if_splits)
  then have "read_available_count ?q \<noteq> 0" by (auto simp: produced_def ring_seg_def)
  from extract_ok [OF _ this] assms(1)
  obtain q' where q': "hci_mem_pool_rx_extract True True ?q = Inr (NRF_SUCCESS, Some (?i, rx_lengths ?q ! unat ?i), q')"
      "pool_ok q'" "produced ?q = unat ?i # produced q'"
    by (auto simp: rx_inv_def ok_iff)
  have l': "rx_lengths q' = rx_lengths ?q"
    using q'(1) by (auto simp: hci_mem_pool_rx_extract_def then_do_Inr_iff split: if_splits)
  let ?l = "rx_lengths ?q ! unat ?i" and ?t = "s\<lparr>m_is_slip_decode_ready := False, pool := q'\<rparr>"
  have two: "mp_slip_used_rx_buffer s \<noteq> None \<Longrightarrow> produced q' \<noteq> []"
    using \<open>waiting_buffers s \<noteq> []\<close> q'(3) by (auto simp: waiting_buffers_def)
  have w: "waiting_buffers s = unat ?i # waiting_buffers ?t"
    using q'(3) two by (auto simp: waiting_buffers_def)
  have p: "take (unat ?l) (pool_rx s ?i) = w" and rest: "rx_packets ?t = rest"
    using assms(3) l' by (simp_all add: rx_packets_def w)
  have "unat ?l \<le> length (pool_rx s ?i)" using assms(1) w by (simp add: rx_inv_def)
  then have len: "unat ?l = length w" using arg_cong [OF p, of length] by simp
  then have "?l - (PKT_HDR_SIZE + PKT_CRC_SIZE) = of_nat (length w) - 6"
    unfolding len [symmetric] by (simp add: hci_consts)
  moreover have "rx_inv ?t"
    using assms(1) q'(2,3) two w l' by (auto simp: rx_inv_def)
  ultimately show ?thesis
    using assms(2) q'(1) rest p len by (simp add: hci_transport_rx_pkt_extract_def Let_def)
qed

text \<open>
  The application takes the packets out of the queue in order: it gets the payload of the oldest
  packet, without header and CRC, and its length, and the buffer leaves the queue.
\<close>

theorem hci_transport_extract:
  assumes "rx_inv s" and "m_is_slip_decode_ready s" and "rx_packets s = hci_packet a q d # rest" and "length d < 2 ^ 16"
  shows "ok (hci_transport_rx_pkt_extract True True s) (\<lambda>(r, res, t). r = NRF_SUCCESS \<and> rx_inv t \<and> rx_packets t = rest \<and>
    (\<exists>b. res = Some (Some b, of_nat (length d)) \<and> take (length d) (drop 4 (pool_rx t b)) = d))"
proof -
  have "unat (of_nat (length d) :: u32) = length d" using assms(4) by (simp add: unat_of_nat_u32)
  then have "ucast (of_nat (length d) :: u32) = (of_nat (length d) :: u16)" by (metis of_nat_unat)
  then have l: "ucast (of_nat (length (hci_packet a q d)) - 6 :: u32) = (of_nat (length d) :: u16)" by simp
  have "take (length d) (drop 4 m) = d" if "take (length (hci_packet a q d)) m = hci_packet a q d" for m
  proof -
    have "take (length d) (drop 4 (take (length d + 6) m)) = d" using hci_packet_payload [of d a q] that by simp
    then show ?thesis by (simp add: drop_take)
  qed
  then show ?thesis
    using extract_first [OF assms(1-3)] unfolding l by (auto elim!: ok_mono)
qed

section \<open>Transmission\<close>

lemma tx_inv_frame [simp]:
  "tx_inv before bs (s\<lparr>m_tx_state := v1\<rparr>) = tx_inv before bs s"
  "tx_inv before bs (s\<lparr>m_tx_retry_counter := v2\<rparr>) = tx_inv before bs s"
  "tx_inv before bs (s\<lparr>tp_timer_running := v3\<rparr>) = tx_inv before bs s"
  by (cases "send_tx_byte s"; simp add: tx_defs)+

lemma pkt_write_ok:
  assumes "m_tx_state s = TX_STATE_IDLE" and "m_current_state s = SLIP_READY" and "slip_live s"
    and "app_timer_code env Timer_start = NRF_SUCCESS" and "4 \<le> p" and "p + unat len + 2 \<le> length (pool_tx s)"
  defines "pkt \<equiv> hci_packet (packet_number_expected_get s) (packet_number_to_transmit_get s)
      (take (unat len) (drop p (pool_tx s)))"
  shows "ok (hci_transport_pkt_write env up (Some p) len s) (\<lambda>(r, t). r = NRF_SUCCESS \<and> m_tx_state t = TX_STATE_ACTIVE \<and>
    m_tx_retry_counter t = 0 \<and> tp_timer_running t \<and> tx_inv (TXD_sent s) pkt t \<and>
    tp_tx_buffer t = Some (p - 4) \<and> unat (tp_tx_buffer_length t) = unat len \<and>
    take (unat len + 6) (drop (p - 4) (pool_tx t)) = pkt \<and>
    m_packet_transmit_seq_number t = m_packet_transmit_seq_number s \<and> slip_live t)"
proof -
  let ?n = "unat len" and ?len = "ucast len + PKT_HDR_SIZE + PKT_CRC_SIZE :: u32"
  let ?s1 = "s\<lparr>tp_tx_buffer_length := ucast len, tp_tx_buffer := Some (p - 4)\<rparr>"
  define m R where "m = take (p - 4) (pool_tx s) @ pkt @ drop (p + ?n + 2) (pool_tx s)"
    and "R = drop (p + ?n + 2) (pool_tx s)"
  let ?s2 = "?s1\<lparr>pool_tx := m\<rparr>"
  have h: "unat PKT_HDR_SIZE = 4" "\<not> p < 4" using assms(5) by (simp_all add: hci_consts)
  have n16: "?n < 2 ^ 16" using unat_less_u16 [of len] by simp
  have len: "tp_tx_buffer_length ?s1 = of_nat ?n" by simp
  have build: "build_packet ?s1 (p - 4) = Inr m"
    using build_packet_ok [OF len n16, of "p - 4"] assms(5,6)
    by (simp add: m_def pkt_def packet_number_expected_get_def packet_number_to_transmit_get_def)
  have l: "length pkt = ?n + 6" using assms(6) by (simp add: pkt_def)
  have c: "drop (p - 4) m = pkt @ R" using assms(6) by (simp add: m_def R_def)
  have un: "unat ?len = ?n + 6" using n16 by (simp add: hci_consts unat_word_ariths)
  have s2: "tx_sync ?s2 = ?s2" using assms(2) by (simp add: tx_sync_def)
  have w: "write_tx_packet up ?s2 = slip_write up (Some (Tx_app (p - 4))) ?len ?s2"
    by (simp add: write_tx_packet_def)
  have "slip_live ?s2" "0 < ?len" using assms(3) by (simp_all add: word_less_nat_alt un)
  from slip_write_ok [OF this, of "Tx_app (p - 4)" up]
  have "ok (slip_write up (Some (Tx_app (p - 4))) ?len ?s2) (\<lambda>(r, t). slip_live t \<and> r = NRF_SUCCESS \<and>
      tx_inv (TXD_sent s) pkt t \<and> hci_slip.more t = hci_slip.more (?s2\<lparr>slip_tx_ref := Tx_app (p - 4)\<rparr>))"
    using assms(2) by (simp add: un c l)
  then obtain t where t: "slip_write up (Some (Tx_app (p - 4))) ?len ?s2 = Inr (NRF_SUCCESS, t)" "slip_live t"
      "tx_inv (TXD_sent s) pkt t" "hci_slip.more t = hci_slip.more (?s2\<lparr>slip_tx_ref := Tx_app (p - 4)\<rparr>)"
    by (auto simp: ok_iff)
  note f = more_fields [OF t(4)]
  have run: "hci_transport_pkt_write env up (Some p) len s
      = Inr (NRF_SUCCESS, t\<lparr>m_tx_state := TX_STATE_ACTIVE, m_tx_retry_counter := 0, tp_timer_running := True\<rparr>)"
    using assms(1,4) h
    by (simp add: hci_transport_pkt_write_def pkt_write_handle_def Let_def build s2 w t(1) tx_sm_state_change_def
        tx_sm_entry_def timer_start_checked_def app_error_check_def)
  show ?thesis unfolding run using t(2,3) f c l by simp
qed

text \<open>An acknowledgment with the expected number ends the transmission; any other is dropped.\<close>

definition ack_done :: "'m tp \<Rightarrow> 'm tp \<Rightarrow> bool" where
  "ack_done s t \<longleftrightarrow> m_tx_state t = TX_STATE_IDLE \<and> \<not> tp_timer_running t \<and>
     m_tx_done_result_code t = HCI_TRANSPORT_TX_DONE_SUCCESS \<and>
     m_packet_transmit_seq_number t = (m_packet_transmit_seq_number s + 1) AND 7"

lemma packet_type_ack: "4 \<le> n \<Longrightarrow> packet_type_decode (ack_bytes e @ R) n = Inr PKT_TYPE_ACK"
  by (simp add: packet_type_decode_def ack_bytes_def load_at_def hci_consts)

lemma tx_valid_ack:
  assumes "m_tx_state s = TX_STATE_ACTIVE" and "app_timer_code env Timer_stop = NRF_SUCCESS"
  shows "tx_sm_event_handle env up TX_EVENT_VALID_RX_ACK s =
    (let u = s\<lparr>m_packet_transmit_seq_number := (m_packet_transmit_seq_number s + 1) AND 7, m_tx_state := TX_STATE_IDLE,
               tp_timer_running := False\<rparr>
     in if m_transport_tx_done_handle s then app_tx_done env (m_tx_done_result_code s) u else Inr u)"
  using assms
  by (simp add: tx_sm_event_handle_def tx_sm_state_change_def tx_sm_entry_def timer_stop_checked_def app_error_check_def
      packet_number_tx_inc_def)

lemma ack_event_run:
  assumes "m_tx_state s = TX_STATE_ACTIVE" and "app_timer_code env Timer_stop = NRF_SUCCESS"
    and "e < 2 ^ 3" and "4 \<le> n"
  shows "\<exists>u. slip_event_handle env up \<lparr>evt_type = HCI_SLIP_RX_RDY, packet = Some (ack_bytes e @ R), packet_length = n\<rparr> s
      = (if e = expected_ack_number_get s
         then then_do (if m_transport_tx_done_handle s then app_tx_done env HCI_TRANSPORT_TX_DONE_SUCCESS u else Inr u) rx_drop
         else rx_drop (rx_commit (Some (ack_bytes e @ R)) s)) \<and>
    ack_done s u"
proof -
  define p where "p = ack_bytes e @ R"
  define c where "c = rx_commit (Some p) s"
  have c: "m_tx_state c = m_tx_state s" "m_transport_tx_done_handle c = m_transport_tx_done_handle s"
    "m_packet_transmit_seq_number c = m_packet_transmit_seq_number s" "expected_ack_number_get c = expected_ack_number_get s"
    by (auto simp: c_def rx_commit_def expected_ack_number_get_def packet_number_to_transmit_get_def split: rx_ref.split)
  let ?c = "c\<lparr>m_tx_done_result_code := HCI_TRANSPORT_TX_DONE_SUCCESS\<rparr>"
  let ?u = "?c\<lparr>m_packet_transmit_seq_number := (m_packet_transmit_seq_number s + 1) AND 7, m_tx_state := TX_STATE_IDLE,
      tp_timer_running := False\<rparr>"
  have v: "rx_ack_pkt_type_handle p c = Inr (e = expected_ack_number_get s)"
    using ack_accepted [OF assms(3), of R c] c(4) by (simp add: p_def)
  have ev: "tx_sm_event_handle env up TX_EVENT_VALID_RX_ACK ?c
      = (if m_transport_tx_done_handle s then app_tx_done env HCI_TRANSPORT_TX_DONE_SUCCESS ?u else Inr ?u)"
    using tx_valid_ack [of ?c env up] assms(1,2) c by (simp add: Let_def)
  have "slip_event_handle env up \<lparr>evt_type = HCI_SLIP_RX_RDY, packet = Some p, packet_length = n\<rparr> s
      = then_do (if e = expected_ack_number_get s then tx_sm_event_handle env up TX_EVENT_VALID_RX_ACK ?c else Inr c) rx_drop"
    using packet_type_ack [OF assms(4), of e R]
    by (simp add: slip_event_handle_def slip_rx_ready_def c_def [symmetric] v hci_consts p_def [symmetric])
  moreover have "ack_done s ?u" by (simp add: ack_done_def)
  ultimately show ?thesis
    unfolding p_def [symmetric] c_def [symmetric] ev by (intro exI [of _ ?u]) simp
qed

lemma seq_successor:
  assumes "x < 8" and "m_packet_expected_seq_number r = ((x :: u32) + 1) AND 7" and "m_packet_transmit_seq_number s = x"
  shows "packet_number_expected_get r = expected_ack_number_get s" and "packet_number_expected_get r < 2 ^ 3"
proof -
  have m: "(7 :: u32) = mask 3" "(0x07 :: u8) = mask 3" by (simp_all add: mask_eq_exp_minus_1)
  have "ucast (y AND 7) = (ucast y AND 0x07 :: u8)" for y :: u32
    unfolding m by (rule bit_word_eqI) (auto simp: bit_simps)
  then show e: "packet_number_expected_get r = expected_ack_number_get s"
    using assms by (simp add: packet_number_expected_get_def expected_ack_number_get_def
        packet_number_to_transmit_get_def down_add)
  show "packet_number_expected_get r < 2 ^ 3"
    unfolding e expected_ack_number_get_def m by (simp add: word_less_nat_alt unat_and_mask)
qed

end
