(* ===== verification/HciLink.thy ===== *)
theory HciLink
  imports HciTransportProps
begin

text \<open>
  Two ends of an HCI transport: a packet and its acknowledgment cross the link, repetitions end after the last retry,
  and the two cases in which a packet in the queue does not reach the application as it was sent. Examples of the transport's
  state for all of its properties close the theory.
\<close>

unbundle bit_operations_syntax

section \<open>A packet and its acknowledgment\<close>

text \<open>The bytes of a packet in the transmit buffer of \<open>s\<close>, payload at offset \<open>p\<close>.\<close>

definition packet_at :: "nat \<Rightarrow> u16 \<Rightarrow> 'm tp \<Rightarrow> u8 list" where
  "packet_at p len s = hci_packet (packet_number_expected_get s) (packet_number_to_transmit_get s)
     (take (unat len) (drop p (pool_tx s)))"

lemma number_below: "(x :: u32) < 8 \<Longrightarrow> (ucast x :: u8) < 2 ^ 3"
proof -
  assume x: "x < 8"
  then have "unat x < 8" by (simp add: word_less_nat_alt)
  then show "(ucast x :: u8) < 2 ^ 3" by (simp add: word_less_nat_alt unsigned_ucast_eq take_bit_eq_mod)
qed

lemma seq_differs: "(x :: u8) \<noteq> (x + 1) AND 0x07"
proof
  assume "x = (x + 1) AND 0x07"
  then have "even x = even ((x + 1) AND 0x07)" by simp
  then show False by (simp add: even_and_iff)
qed

lemma packet_at_accepted:
  assumes "m_packet_expected_seq_number s < 8" and "m_packet_transmit_seq_number s < 8"
    and "p + unat len \<le> length (pool_tx s)"
  shows "is_rx_pkt_valid (packet_at p len s @ R) (ucast len + 6) = Inr True"
    and "packet_seq_nmbr_extract (packet_at p len s @ R) = Inr (packet_number_to_transmit_get s)"
    and "length (packet_at p len s) = unat (ucast len + 6 :: u32)"
proof -
  let ?d = "take (unat len) (drop p (pool_tx s))"
  have n: "unat len < 2 ^ 16" using unat_less_u16 [of len] by simp
  have l: "length ?d = unat len" using assms(3) by simp
  have len: "ucast len + 6 = (of_nat (length ?d + 6) :: u32)" using l by simp
  have bound: "length ?d + 6 < 2 ^ 32" using l n by simp
  note f = hci_packet_fields [OF number_below [OF assms(1)] number_below [OF assms(2)] bound]
  show "is_rx_pkt_valid (packet_at p len s @ R) (ucast len + 6) = Inr True"
    unfolding len packet_at_def by (rule hci_packet_valid [OF bound])
  show "packet_seq_nmbr_extract (packet_at p len s @ R) = Inr (packet_number_to_transmit_get s)"
    using f(1) by (simp add: packet_at_def packet_number_expected_get_def packet_number_to_transmit_get_def)
  show "length (packet_at p len s) = unat (ucast len + 6 :: u32)"
    using n l by (simp add: packet_at_def unat_word_ariths)
qed

text \<open>
  C20. A packet crosses the link. A write at one end sends its frame; when the bytes arrive at the other end
  and have the number expected there, the packet is appended to the queue; if they arrive again later, before another packet has
  come, they are not. Each time the receiver sends the frame of the same acknowledgment, if its SLIP layer is free at that moment (else the
  acknowledgment is left out). Its number ends the transmission at the first end: it reports success and its next packet has the
  next number.
\<close>

theorem hci_transport_link:
  assumes tx: "m_tx_state s = TX_STATE_IDLE" "m_current_state s = SLIP_READY" "slip_live s"
      "app_timer_code env Timer_start = NRF_SUCCESS" "app_timer_code env Timer_stop = NRF_SUCCESS"
      "4 \<le> p" "p + unat len + 2 \<le> length (pool_tx s)"
      "m_packet_expected_seq_number s < 8" "m_packet_transmit_seq_number s < 8"
    and rx: "rx_inv r" "mp_slip_used_rx_buffer r = Some i" "slip_rx_ref r = Rx_pool i"
      "m_packet_expected_seq_number r = m_packet_transmit_seq_number s"
  shows "\<exists>s1 r1. hci_transport_pkt_write env up (Some p) len s = Inr (NRF_SUCCESS, s1) \<and>
    tx_inv (TXD_sent s) (packet_at p len s) s1 \<and> m_tx_state s1 = TX_STATE_ACTIVE \<and> rx_inv r1 \<and>
    rx_packets r1 = rx_packets r @ [packet_at p len s] \<and>
    slip_event_handle env' up' \<lparr>evt_type = HCI_SLIP_RX_RDY, packet = Some (packet_at p len s @ R), packet_length = ucast len + 6\<rparr> r
      = (if m_transport_event_handle r then app_rx_ready env' r1 else Inr r1) \<and>
    (m_current_state r = SLIP_READY \<longrightarrow> tx_inv (TXD_sent r) (ack_packet r1) r1) \<and>
    (\<forall>j R' r'. rx_inv r' \<and> m_packet_expected_seq_number r' = m_packet_expected_seq_number r1 \<and>
        mp_slip_used_rx_buffer r' = Some j \<and> slip_rx_ref r' = Rx_pool j \<longrightarrow>
      ok (slip_event_handle env' up' \<lparr>evt_type = HCI_SLIP_RX_RDY, packet = Some (packet_at p len s @ R'),
           packet_length = ucast len + 6\<rparr> r') (\<lambda>r2. rx_packets r2 = rx_packets r' \<and> ack_packet r2 = ack_packet r1 \<and>
        (m_current_state r' = SLIP_READY \<longrightarrow> tx_inv (TXD_sent r') (ack_packet r1) r2))) \<and>
    (\<forall>s2 R'. same_tx s1 s2 \<longrightarrow> (\<exists>s3. ack_done s2 s3 \<and>
      slip_event_handle env up \<lparr>evt_type = HCI_SLIP_RX_RDY, packet = Some (ack_packet r1 @ R'), packet_length = 4\<rparr> s2
      = then_do (if m_transport_tx_done_handle s2 then app_tx_done env HCI_TRANSPORT_TX_DONE_SUCCESS s3 else Inr s3) rx_drop))"
proof -
  let ?p = "packet_at p len s"
  have "p + unat len \<le> length (pool_tx s)" using tx(7) by simp
  note acc = packet_at_accepted [OF tx(8,9) this]
  have num: "packet_number_to_transmit_get s = packet_number_expected_get r"
    using rx(4) by (simp add: packet_number_to_transmit_get_def packet_number_expected_get_def)
  obtain s1 where s1: "hci_transport_pkt_write env up (Some p) len s = Inr (NRF_SUCCESS, s1)" "tx_inv (TXD_sent s) ?p s1"
      "m_tx_state s1 = TX_STATE_ACTIVE" "m_packet_transmit_seq_number s1 = m_packet_transmit_seq_number s"
    using pkt_write_ok [OF tx(1-4,6,7), of up] by (auto simp: ok_iff packet_at_def)
  obtain r1 where r1: "slip_event_handle env' up' \<lparr>evt_type = HCI_SLIP_RX_RDY, packet = Some (?p @ R), packet_length = ucast len + 6\<rparr> r
        = (if m_transport_event_handle r then app_rx_ready env' r1 else Inr r1)"
      "rx_inv r1" "delivered (?p @ R) (ucast len + 6) r r1" "ack_packet r1 = ack_bytes (packet_number_expected_get r1)"
      "ack_sent r r1"
    using receive_in_sequence [OF rx(1-3) acc(1) [of R] acc(2) [of R, unfolded num], of env' up'] .
  have q: "rx_packets r1 = rx_packets r @ [?p]" "m_packet_expected_seq_number r1 = (m_packet_expected_seq_number r + 1) AND 7"
    using r1(3) acc(3) by (simp_all add: delivered_def)
  have e: "packet_number_expected_get r1 = expected_ack_number_get s2" "packet_number_expected_get r1 < 2 ^ 3"
    if "same_tx s1 s2" for s2
    using seq_successor [OF tx(9), of r1 s2] q(2) rx(4) s1(4) that by (simp_all add: same_tx_def)
  have ne: "packet_number_to_transmit_get s \<noteq> packet_number_expected_get r1"
    using e(1) [of s1] s1(4) seq_differs [of "packet_number_to_transmit_get s"]
    by (simp add: same_tx_def expected_ack_number_get_def packet_number_to_transmit_get_def)
  have again: "ok (slip_event_handle env' up' \<lparr>evt_type = HCI_SLIP_RX_RDY, packet = Some (?p @ R'), packet_length = ucast len + 6\<rparr> r')
      (\<lambda>r2. rx_packets r2 = rx_packets r' \<and> ack_packet r2 = ack_packet r1 \<and>
        (m_current_state r' = SLIP_READY \<longrightarrow> tx_inv (TXD_sent r') (ack_packet r1) r2))"
    if "rx_inv r'" "m_packet_expected_seq_number r' = m_packet_expected_seq_number r1"
      "mp_slip_used_rx_buffer r' = Some j" "slip_rx_ref r' = Rx_pool j" for j R' r'
  proof -
    have "packet_number_to_transmit_get s \<noteq> packet_number_expected_get r'"
      using ne that(2) by (simp add: packet_number_expected_get_def)
    from receive_out_of_sequence [OF that(1,3,4) acc(1) [of R'] acc(2) [of R'] this, of env' up'] show ?thesis
      using r1(4) that(2) by (auto simp: queue_same_def packet_number_expected_get_def ack_sent_def elim!: ok_mono)
  qed
  have first: "m_current_state r = SLIP_READY \<longrightarrow> tx_inv (TXD_sent r) (ack_packet r1) r1"
    using r1(4,5) by (simp add: ack_sent_def)
  have acked: "\<exists>s3. ack_done s2 s3 \<and>
      slip_event_handle env up \<lparr>evt_type = HCI_SLIP_RX_RDY, packet = Some (ack_packet r1 @ R'), packet_length = 4\<rparr> s2
      = then_do (if m_transport_tx_done_handle s2 then app_tx_done env HCI_TRANSPORT_TX_DONE_SUCCESS s3 else Inr s3) rx_drop"
    if "same_tx s1 s2" for s2 R'
    using ack_event_run [of s2 env "packet_number_expected_get r1" 4 up R'] e [OF that] that s1(3) tx(5) r1(4)
    by (auto simp: same_tx_def)
  show ?thesis
    by (intro exI [of _ s1] exI [of _ r1]) (use s1 r1(1,2) q(1) first again acked in blast)
qed

section \<open>Repetition\<close>

text \<open>
  \<open>n\<close> timeouts, between which the SLIP layer goes on and packets may be received, while no
  acknowledgment arrives.
\<close>

inductive timed_out :: "'m tp_env \<Rightarrow> 'm tp_up \<Rightarrow> 'm tp \<Rightarrow> nat \<Rightarrow> 'm tp \<Rightarrow> bool" for env up s where
  no_timeout: "timed_out env up s 0 s"
| next_timeout: "timed_out env up s (Suc n) v"
    if "timed_out env up s n t" "same_tx t u" "slip_live u" "hci_transport_timeout_handle env up u = Inr v"

definition transmitting :: "'m tp \<Rightarrow> bool" where
  "transmitting s \<longleftrightarrow> m_tx_state s = TX_STATE_ACTIVE \<and> (\<exists>p. tp_tx_buffer s = Some p \<and>
     p + unat (tp_tx_buffer_length s) + 6 \<le> length (pool_tx s) \<and> unat (tp_tx_buffer_length s) < 2 ^ 16)"

text \<open>The bytes that are repeated.\<close>

definition stored_packet :: "'m tp \<Rightarrow> u8 list" where
  "stored_packet s = take (unat (tp_tx_buffer_length s) + 6) (drop (the (tp_tx_buffer s)) (pool_tx s))"

lemma transmitting_same: "same_tx s t \<Longrightarrow> transmitting t = transmitting s \<and> stored_packet t = stored_packet s"
  by (simp add: same_tx_def transmitting_def stored_packet_def)

lemma timeout_repeats:
  assumes "transmitting s" and "slip_live s" and "m_tx_retry_counter s \<noteq> MAX_RETRY_COUNT"
  shows "ok (hci_transport_timeout_handle env up s) (\<lambda>t. slip_live t \<and> m_tx_retry_counter t = m_tx_retry_counter s + 1 \<and>
    same_tx (s\<lparr>m_tx_retry_counter := m_tx_retry_counter s + 1\<rparr>) t \<and>
    (m_current_state s = SLIP_READY \<longrightarrow> tx_inv (TXD_sent s) (stored_packet s) t))"
proof -
  obtain p where p: "tp_tx_buffer s = Some p" "p + unat (tp_tx_buffer_length s) + 6 \<le> length (pool_tx s)"
      "unat (tp_tx_buffer_length s) < 2 ^ 16" "m_tx_state s = TX_STATE_ACTIVE"
    using assms(1) by (auto simp: transmitting_def)
  let ?s = "s\<lparr>m_tx_retry_counter := m_tx_retry_counter s + 1\<rparr>" and ?len = "tp_tx_buffer_length s + PKT_HDR_SIZE + PKT_CRC_SIZE"
  have l: "unat ?len = unat (tp_tx_buffer_length s) + 6" using p(3) by (simp add: hci_consts unat_word_ariths)
  have "slip_live ?s" "0 < ?len" "unat ?len \<le> length (tx_contents (Tx_app p) ?s)"
    using assms(2) p(2) by (simp_all add: word_less_nat_alt l)
  from slip_write_ok [OF this, of up]
  have "ok (slip_write up (Some (Tx_app p)) ?len ?s) (\<lambda>(r, t). slip_live t \<and>
      (if m_current_state s = SLIP_READY then tx_inv (TXD_sent s) (stored_packet s) t \<and>
         hci_slip.more t = hci_slip.more (?s\<lparr>slip_tx_ref := Tx_app p\<rparr>) else t = ?s))"
    by (rule ok_mono) (auto simp: l p(1) stored_packet_def split: if_splits)
  then obtain r t where t: "slip_write up (Some (Tx_app p)) ?len ?s = Inr (r, t)" "slip_live t"
      "if m_current_state s = SLIP_READY then tx_inv (TXD_sent s) (stored_packet s) t \<and>
         hci_slip.more t = hci_slip.more (?s\<lparr>slip_tx_ref := Tx_app p\<rparr>) else t = ?s"
    by (simp only: ok_iff split_paired_Ex prod.case) blast
  have "hci_transport_timeout_handle env up s = ignore_code (slip_write up (Some (Tx_app p)) ?len ?s)"
    using p(1,4) assms(3)
    by (simp add: hci_transport_timeout_handle_def tx_sm_event_handle_def write_tx_packet_def)
  moreover have "same_tx ?s t \<and> m_tx_retry_counter t = m_tx_retry_counter s + 1"
  proof (cases "m_current_state s = SLIP_READY")
    case True
    then have "hci_slip.more t = hci_slip.more (?s\<lparr>slip_tx_ref := Tx_app p\<rparr>)" using t(3) by simp
    from more_fields [OF this] show ?thesis by (simp add: same_tx_def)
  next
    case False
    then show ?thesis using t(3) by (simp add: same_tx_def)
  qed
  ultimately show ?thesis using t by (simp add: ignore_code_def)
qed

lemma timed_out_transmitting:
  assumes "timed_out env up s n t" and "transmitting s" and "slip_live s" and "m_tx_retry_counter s = 0" and "n \<le> 5"
  shows "transmitting t \<and> slip_live t \<and> m_tx_retry_counter t = of_nat n \<and> stored_packet t = stored_packet s \<and>
    m_packet_transmit_seq_number t = m_packet_transmit_seq_number s"
  using assms(1,5)
proof induction
  case no_timeout
  then show ?case using assms(2-4) by simp
next
  case (next_timeout n t u v)
  then have t: "transmitting t" "m_tx_retry_counter t = of_nat n" "stored_packet t = stored_packet s"
      "m_packet_transmit_seq_number t = m_packet_transmit_seq_number s" by simp_all
  have "m_tx_retry_counter u = of_nat n" using next_timeout.hyps(2) t(2) by (simp add: same_tx_def)
  moreover have "(of_nat n :: u32) \<noteq> 5"
    using next_timeout.prems by (simp add: word_eq_iff_unsigned [where 'a = nat] unat_of_nat_u32)
  ultimately have "ok (hci_transport_timeout_handle env up u) (\<lambda>v. slip_live v \<and> m_tx_retry_counter v = of_nat n + 1 \<and>
      same_tx (u\<lparr>m_tx_retry_counter := of_nat n + 1\<rparr>) v)"
    using timeout_repeats [of u env up] next_timeout.hyps(3) transmitting_same [OF next_timeout.hyps(2)] t(1)
    by (auto simp: hci_consts elim!: ok_mono)
  then show ?case
    using t next_timeout.hyps(2,4) transmitting_same [OF next_timeout.hyps(2)]
    by (auto simp: ok_iff same_tx_def transmitting_def stored_packet_def add.commute)
qed

text \<open>
  C22. Without an acknowledgment a transmission ends. Each of the first five timeouts sends the same packet again (if the
  SLIP layer is free; else it is skipped); the sixth ends it: the timer is stopped, the application is told of the failure, the next packet may be
  written, and it will have the same number.
\<close>

theorem hci_transport_gives_up:
  assumes "transmitting s" and "slip_live s" and "m_tx_retry_counter s = 0" and "timed_out env up s n t" and "n \<le> 5"
    and "same_tx t u" and "slip_live u" and "app_timer_code env Timer_stop = NRF_SUCCESS"
  shows "if n < 5
    then ok (hci_transport_timeout_handle env up u) (\<lambda>v. m_tx_state v = TX_STATE_ACTIVE \<and> timed_out env up s (Suc n) v \<and>
      (m_current_state u = SLIP_READY \<longrightarrow> tx_inv (TXD_sent u) (stored_packet s) v))
    else \<exists>v. m_tx_state v = TX_STATE_IDLE \<and> \<not> tp_timer_running v \<and> m_tx_done_result_code v = HCI_TRANSPORT_TX_DONE_FAILURE \<and>
      m_packet_transmit_seq_number v = m_packet_transmit_seq_number s \<and>
      hci_transport_timeout_handle env up u =
        (if m_transport_tx_done_handle u then app_tx_done env HCI_TRANSPORT_TX_DONE_FAILURE v else Inr v)"
proof (cases "n < 5")
  case True
  note t = timed_out_transmitting [OF assms(4,1-3,5)]
  have u: "transmitting u" "stored_packet u = stored_packet s" "m_tx_retry_counter u = of_nat n"
    using transmitting_same [OF assms(6)] t assms(6) by (simp_all add: same_tx_def)
  have "(of_nat n :: u32) \<noteq> 5"
    using True by (simp add: word_eq_iff_unsigned [where 'a = nat] unat_of_nat_u32)
  then obtain v where "hci_transport_timeout_handle env up u = Inr v"
      "same_tx (u\<lparr>m_tx_retry_counter := m_tx_retry_counter u + 1\<rparr>) v"
      "m_current_state u = SLIP_READY \<longrightarrow> tx_inv (TXD_sent u) (stored_packet u) v"
    using timeout_repeats [OF u(1) assms(7), of env up] u(3) by (auto simp: ok_iff hci_consts)
  then show ?thesis
    using True u next_timeout [OF assms(4,6,7)] by (simp add: same_tx_def transmitting_def)
next
  case False
  then have "n = 5" using assms(5) by simp
  moreover note t = timed_out_transmitting [OF assms(4,1-3,5)]
  ultimately have u: "m_tx_state u = TX_STATE_ACTIVE" "m_tx_retry_counter u = MAX_RETRY_COUNT"
      "m_packet_transmit_seq_number u = m_packet_transmit_seq_number s"
    using assms(6) by (simp_all add: same_tx_def transmitting_def hci_consts)
  let ?v = "u\<lparr>m_tx_done_result_code := HCI_TRANSPORT_TX_DONE_FAILURE, m_tx_state := TX_STATE_IDLE, tp_timer_running := False\<rparr>"
  have "hci_transport_timeout_handle env up u
      = (if m_transport_tx_done_handle u then app_tx_done env HCI_TRANSPORT_TX_DONE_FAILURE ?v else Inr ?v)"
    using u assms(8)
    by (simp add: hci_transport_timeout_handle_def tx_sm_event_handle_def tx_sm_state_change_def tx_sm_entry_def
        timer_stop_checked_def app_error_check_def)
  then show ?thesis using False u(3) by (intro if_not_P [THEN iffD2]) (auto intro!: exI [of _ ?v])
qed

section \<open>Packets that are not extracted as they were sent\<close>

lemma extract_not_ready:
  "\<not> m_is_slip_decode_ready s \<Longrightarrow> hci_transport_rx_pkt_extract True True s = Inr (NRF_ERROR_NO_MEM, None, s)"
  by (simp add: hci_transport_rx_pkt_extract_def)

text \<open>
  One flag stands for all the packets in the queue: extraction clears it, so that with two packets waiting
  the second extraction answers that there is none, until another packet arrives.
\<close>

theorem hci_transport_second_extract:
  assumes "rx_inv s" and "m_is_slip_decode_ready s" and "rx_packets s = w # w' # rest"
  shows "ok (hci_transport_rx_pkt_extract True True s) (\<lambda>(r, res, t). r = NRF_SUCCESS \<and> rx_packets t = w' # rest \<and>
    hci_transport_rx_pkt_extract True True t = Inr (NRF_ERROR_NO_MEM, None, t))"
  using extract_first [OF assms] by (auto simp: extract_not_ready elim!: ok_mono)

text \<open>Five bytes: the CRC over the first three is in the last two, the first of which is the checksum.\<close>

definition short_packet :: "u8 list" where
  "short_packet = [0xC1, 0x2E, 0x30, 0xE1, 0xCE]"

lemma short_packet_valid: "is_rx_pkt_valid (short_packet @ R) 5 = Inr True"
proof -
  have h: "header_sum (short_packet @ R) = Inr 0"
    by (simp add: header_sum_def short_packet_def load_at_def)
  have "crc16_compute ([0xC1, 0x2E, 0x30] @ 0xE1 # 0xCE # R) 3 None = Inr (fold crc16_step [0xC1, 0x2E, 0x30] 0xFFFF)"
    by (rule crc16_prefix) simp
  also have "fold crc16_step [0xC1, 0x2E, 0x30] 0xFFFF = uint16_decode 0xE1 0xCE" by code_simp
  finally show ?thesis using h
    by (simp add: is_rx_pkt_valid_def hci_consts short_packet_def load_at_def)
qed

text \<open>
  The check of a received packet has no lower bound for header and CRC together: five bytes pass it, and
  their payload is extracted with the length 65535.
\<close>

theorem hci_transport_short_packet:
  assumes "rx_inv s" and "mp_slip_used_rx_buffer s = Some i" and "slip_rx_ref s = Rx_pool i"
    and "m_packet_expected_seq_number s = 1" and "\<not> m_transport_event_handle s" and "rx_packets s = []"
  shows "ok (slip_event_handle env up \<lparr>evt_type = HCI_SLIP_RX_RDY, packet = Some (short_packet @ R), packet_length = 5\<rparr> s)
    (\<lambda>t. ok (hci_transport_rx_pkt_extract True True t) (\<lambda>(r, res, u). r = NRF_SUCCESS \<and>
      (\<exists>b. res = Some (b, 0xFFFF))))"
proof -
  have "packet_seq_nmbr_extract (short_packet @ R) = Inr (packet_number_expected_get s)"
    using assms(4) by (simp add: packet_seq_nmbr_extract_def packet_number_expected_get_def short_packet_def load_at_def)
  from receive_in_sequence [OF assms(1-3) short_packet_valid this, of env up]
  obtain t where t: "slip_event_handle env up \<lparr>evt_type = HCI_SLIP_RX_RDY, packet = Some (short_packet @ R), packet_length = 5\<rparr> s
      = Inr t" "rx_inv t" "delivered (short_packet @ R) 5 s t"
    using assms(5) by auto
  have "rx_packets t = [short_packet]" "m_is_slip_decode_ready t"
    using t(3) assms(6) by (simp_all add: delivered_def short_packet_def)
  moreover have "(ucast (of_nat (length short_packet) - 6 :: u32) :: u16) = 0xFFFF"
    unfolding short_packet_def by code_simp
  ultimately show ?thesis
    using extract_first [OF t(2), of short_packet "[]"] unfolding t(1) by (auto elim!: ok_mono)
qed

section \<open>An example\<close>

text \<open>
  An open transport that expects the packet 1 in buffer 2 and has the packet 1 to send, from offset 0 of the transmit
  buffer; the UART is idle.
\<close>

definition sample_tp :: hci_transport where
  "sample_tp = hci_slip.extend sample_slip (hci_transport.fields TX_STATE_IDLE False False (Some 2) 1 1 None 0 False 0
     HCI_TRANSPORT_TX_DONE_FAILURE [0, 0, 0, 0, 0] [] sample_pool (\<lambda>i. [7, 8]) (replicate 20 0x41) False (Rx_pool 2) Tx_ack)"

definition sample_env :: "hci_transport transport_env" where
  "sample_env = \<lparr>app_timer_code = (\<lambda>c. NRF_SUCCESS), app_tx_done = (\<lambda>r. Inr), app_rx_ready = Inr\<rparr>"

definition sample_up :: "hci_slip_evt_t \<Rightarrow> hci_transport \<Rightarrow> hci_transport result" where
  "sample_up e s = Inr s"

lemma sample_tp_fields [simp]:
  "m_tx_state sample_tp = TX_STATE_IDLE" "m_current_state sample_tp = SLIP_READY" "pool sample_tp = sample_pool"
  "mp_slip_used_rx_buffer sample_tp = Some 2" "slip_rx_ref sample_tp = Rx_pool 2" "pool_rx sample_tp = (\<lambda>i. [7, 8])"
  "m_packet_expected_seq_number sample_tp = 1" "m_packet_transmit_seq_number sample_tp = 1"
  "pool_tx sample_tp = replicate 20 0x41" "m_transport_event_handle sample_tp = False" "m_is_slip_decode_ready sample_tp = False"
  "m_tx_retry_counter sample_tp = 0" "m_transport_tx_done_handle sample_tp = False"
  by (simp_all add: sample_tp_def hci_slip.defs hci_transport.defs sample_slip_def)

lemma sample_tp_live: "slip_live sample_tp"
  by (simp add: slip_live_def port_defs sample_tp_def hci_slip.defs hci_transport.defs sample_slip_def)

lemma sample_tp_queue: "waiting_buffers sample_tp = []" "rx_packets sample_tp = []"
  by (simp_all add: waiting_buffers_def rx_packets_def sample_pool_segments)

lemma sample_tp_inv: "rx_inv sample_tp"
  by (simp add: rx_inv_def sample_pool_ok sample_tp_live sample_pool_segments sample_tp_queue)

lemma sample_env_ok: "app_timer_code sample_env c = NRF_SUCCESS" "app_tx_done sample_env r t = Inr t"
  by (simp_all add: sample_env_def)

theorem hci_transport_link_witness:
  "\<exists>s1 r1. hci_transport_pkt_write sample_env sample_up (Some 4) 3 sample_tp = Inr (NRF_SUCCESS, s1) \<and>
    tx_inv (TXD_sent sample_tp) (hci_packet 1 1 [0x41, 0x41, 0x41]) s1 \<and>
    rx_packets r1 = [hci_packet 1 1 [0x41, 0x41, 0x41]] \<and>
    slip_event_handle sample_env sample_up \<lparr>evt_type = HCI_SLIP_RX_RDY,
      packet = Some (hci_packet 1 1 [0x41, 0x41, 0x41]), packet_length = 9\<rparr> sample_tp = Inr r1 \<and>
    tx_inv (TXD_sent sample_tp) (ack_packet r1) r1"
proof -
  have "packet_at 4 3 sample_tp = hci_packet 1 1 [0x41, 0x41, 0x41]"
    by (simp add: packet_at_def packet_number_expected_get_def packet_number_to_transmit_get_def) (simp add: numeral_3_eq_3)
  then show ?thesis
    using hci_transport_link [of sample_tp sample_env 4 3 sample_tp 2 sample_up sample_env sample_up "[]"]
    by (simp add: sample_tp_live sample_env_ok sample_tp_inv sample_tp_queue)
      (elim exE conjE, intro exI conjI, assumption+)
qed

theorem hci_transport_queue_witness:
  "\<exists>t. rx_packets t = [hci_packet 1 1 [0x41]] \<and> packet_number_expected_get t = 2 \<and>
    tx_inv (TXD_sent sample_tp) (ack_bytes 2) t \<and>
    slip_event_handle sample_env sample_up \<lparr>evt_type = HCI_SLIP_RX_RDY, packet = Some (hci_packet 1 1 [0x41]), packet_length = 7\<rparr>
      sample_tp = Inr t"
proof -
  have "is_rx_pkt_valid (hci_packet 1 1 [0x41]) 7 = Inr True"
    using hci_packet_valid [of "[0x41]" 1 1 "[]"] by simp
  moreover have "packet_seq_nmbr_extract (hci_packet 1 1 [0x41]) = Inr 1"
    using hci_packet_fields(1) [of 1 1 "[0x41]" "[]"] by simp
  ultimately show ?thesis
    using hci_transport_queue [OF sample_tp_inv, of 2 "hci_packet 1 1 [0x41]" 7 1 sample_env sample_up]
    by (auto simp: packet_number_expected_get_def delivered_def sample_tp_queue)
qed

theorem hci_transport_refuses_witness:
  "ok (slip_event_handle sample_env sample_up \<lparr>evt_type = HCI_SLIP_RX_RDY, packet = Some [1, 2], packet_length = 2\<rparr> sample_tp)
    (\<lambda>t. rx_packets t = [] \<and> slip_rx_ref t = Rx_pool 2 \<and> mp_rx_buffer t = Some [1, 2])"
  using hci_transport_refuses [OF sample_tp_inv, of 2 "[1, 2]" 2 INVALID_PKT_TYPE sample_env sample_up]
  by (auto simp: packet_type_decode_def hci_consts queue_same_def sample_tp_queue elim!: ok_mono)

theorem hci_transport_short_packet_witness:
  "ok (slip_event_handle sample_env sample_up \<lparr>evt_type = HCI_SLIP_RX_RDY, packet = Some (short_packet @ [0]), packet_length = 5\<rparr>
    sample_tp) (\<lambda>t. ok (hci_transport_rx_pkt_extract True True t) (\<lambda>(r, res, u). r = NRF_SUCCESS))"
  using hci_transport_short_packet [OF sample_tp_inv, of 2 sample_env sample_up "[0]"]
  by (auto simp: sample_tp_queue elim!: ok_mono)

text \<open>The same with one packet of 14 bytes in buffer 2, or two of them in buffers 2 and 3, and no buffer being filled.\<close>

definition sample_queue :: "hci_mem_pool \<Rightarrow> hci_transport" where
  "sample_queue q = sample_tp\<lparr>mp_slip_used_rx_buffer := None, m_is_slip_decode_ready := True, pool := q,
     pool_rx := (\<lambda>i. hci_packet 1 1 (replicate 14 0x41))\<rparr>"

lemma sample_queue_fields [simp]:
  "pool (sample_queue q) = q" "m_is_slip_decode_ready (sample_queue q)" "mp_slip_used_rx_buffer (sample_queue q) = None"
  "pool_rx (sample_queue q) = (\<lambda>i. hci_packet 1 1 (replicate 14 0x41))" "slip_live (sample_queue q)"
  using sample_tp_live by (simp_all add: sample_queue_def)

theorem hci_transport_extract_witness:
  "ok (hci_transport_rx_pkt_extract True True (sample_queue sample_pool)) (\<lambda>(r, res, t). rx_packets t = [] \<and>
    (\<exists>b. res = Some (Some b, 14) \<and> take 14 (drop 4 (pool_rx t b)) = replicate 14 0x41))"
proof -
  have "rx_packets (sample_queue sample_pool) = [hci_packet 1 1 (replicate 14 0x41)]" "rx_inv (sample_queue sample_pool)"
    by (simp_all add: rx_packets_def waiting_buffers_def rx_inv_def sample_pool_segments sample_pool_ok)
      (simp_all add: sample_pool_def)
  from hci_transport_extract [OF this(2) _ this(1)] show ?thesis by (auto elim!: ok_mono)
qed

definition sample_pool_two :: hci_mem_pool where
  "sample_pool_two = sample_pool\<lparr>rx_lengths := [0, 10, 20, 20], free_window_count := 1, read_available_count := 2,
     write_index := 0, free_index := 14\<rparr>"

lemma sample_pool_two_ok: "pool_ok sample_pool_two"
proof -
  have seg: "extracted sample_pool_two = [1]" "produced sample_pool_two = [2, 3]" "ring_size sample_pool_two = 4"
    by (simp_all add: extracted_def produced_def ring_seg_def ring_base_def ring_size_def sample_pool_two_def sample_pool_def
        upt_conv_Cons)
  have "(4 :: u32) = 2 ^ 2" by simp
  then have "\<exists>k\<le>5. HCI_RX_BUF_QUEUE_SIZE sample_pool_two = 2 ^ k"
    by (intro exI [of _ 2]) (simp add: sample_pool_two_def sample_pool_def)
  then have "ring_ok sample_pool_two"
    by (simp add: ring_ok_def seg) (simp add: sample_pool_two_def sample_pool_def)
  moreover have "bit (14 :: u32) i \<longleftrightarrow> i = 1 \<or> i = 2 \<or> i = 3" if "i < 4" for i
    using that by (auto simp: less_Suc_eq eval_nat_numeral bit_0 bit_Suc)
  ultimately show ?thesis
    by (simp add: pool_ok_def seg) (simp add: sample_pool_two_def)
qed

theorem hci_transport_second_extract_witness:
  "ok (hci_transport_rx_pkt_extract True True (sample_queue sample_pool_two)) (\<lambda>(r, res, t).
    rx_packets t = [hci_packet 1 1 (replicate 14 0x41)] \<and>
    hci_transport_rx_pkt_extract True True t = Inr (NRF_ERROR_NO_MEM, None, t))"
proof -
  have seg: "produced sample_pool_two = [2, 3]"
    by (simp add: produced_def ring_seg_def ring_size_def sample_pool_two_def sample_pool_def upt_conv_Cons)
  then have "rx_packets (sample_queue sample_pool_two) =
      [hci_packet 1 1 (replicate 14 0x41), hci_packet 1 1 (replicate 14 0x41)]" "rx_inv (sample_queue sample_pool_two)"
    by (simp_all add: rx_packets_def waiting_buffers_def rx_inv_def sample_pool_two_ok)
      (simp_all add: sample_pool_two_def)
  from hci_transport_second_extract [OF this(2) _ this(1)] show ?thesis by (auto elim!: ok_mono)
qed

text \<open>A packet in the air: five timeouts and the sixth.\<close>

definition sample_sending :: hci_transport where
  "sample_sending = sample_tp\<lparr>m_tx_state := TX_STATE_ACTIVE, tp_tx_buffer := Some 0, tp_tx_buffer_length := 3\<rparr>"

theorem hci_transport_gives_up_witness:
  "\<exists>t v. timed_out sample_env sample_up sample_sending 5 t \<and>
    hci_transport_timeout_handle sample_env sample_up t = Inr v \<and> m_tx_state v = TX_STATE_IDLE \<and>
    m_tx_done_result_code v = HCI_TRANSPORT_TX_DONE_FAILURE"
proof -
  have s: "transmitting sample_sending" "slip_live sample_sending" "m_tx_retry_counter sample_sending = 0"
      "\<not> m_transport_tx_done_handle sample_sending"
    using sample_tp_live by (simp_all add: transmitting_def sample_sending_def)
  note up = hci_transport_gives_up [OF s(1-3), where env = sample_env and up = sample_up, OF _ _ _ _ sample_env_ok(1)]
  have refl: "same_tx t t" for t :: hci_transport by (simp add: same_tx_def)
  have "\<exists>t. timed_out sample_env sample_up sample_sending n t \<and> slip_live t" if "n \<le> 5" for n
    using that
  proof (induction n)
    case 0
    then show ?case using no_timeout s(2) by blast
  next
    case (Suc n)
    then obtain t where t: "timed_out sample_env sample_up sample_sending n t" "slip_live t" by auto
    then obtain v where "timed_out sample_env sample_up sample_sending (Suc n) v"
      using up [OF t(1) _ refl t(2)] Suc.prems by (auto simp: ok_iff)
    then show ?case using timed_out_transmitting [OF _ s(1-3)] Suc.prems by blast
  qed
  then obtain t where t: "timed_out sample_env sample_up sample_sending 5 t" "slip_live t" by blast
  from up [OF t(1) order_refl refl t(2)] show ?thesis
    using t(1) by (auto simp: sample_env_ok split: if_splits)
qed

end
