(* ===== verification/AppUartFifo.thy ===== *)
theory AppUartFifo
  imports AppUart AppFifo
begin

text \<open>
  The buffered UART module components/libraries/uart/app_uart_fifo.c: the other implementation of app_uart.h, with a FIFO in each
  direction between the application and the driver. Its functions carry the suffix \<open>_fifo\<close>; the one-byte buffers of the
  driver are at the addresses \<open>UART_TX_BUF\<close> and \<open>UART_RX_BUF\<close>.
\<close>

section \<open>State and events\<close>

record app_uart_fifo = uart_drv +
  uf_event_handler :: bool
  m_rx_ovf :: bool
  m_rx_fifo :: app_fifo_t
  m_tx_fifo :: app_fifo_t

type_synonym 'm uf_handler = "app_uart_evt_t \<Rightarrow> 'm app_uart_fifo_scheme \<Rightarrow> 'm app_uart_fifo_scheme result"

definition uf_call :: "'m uf_handler \<Rightarrow> app_uart_evt_t \<Rightarrow> 'm app_uart_fifo_scheme \<Rightarrow> 'm app_uart_fifo_scheme result" where
  "uf_call h e s = (if uf_event_handler s then h e s else Inl Null_Deref)"

text \<open>\<open>app_fifo_get(&m_tx_fifo, tx_buffer)\<close>: the byte goes to the one-byte buffer of the driver.\<close>

definition tx_fifo_get :: "'m app_uart_fifo_scheme \<Rightarrow> (ret_code \<times> 'm app_uart_fifo_scheme) result" where
  "tx_fifo_get s =
     then_do (app_fifo_get (m_tx_fifo s)) (\<lambda>(r, b, f).
     case b of
       None \<Rightarrow> Inr (r, s\<lparr>m_tx_fifo := f\<rparr>)
     | Some x \<Rightarrow>
         then_do (store_at (d_mem s UART_TX_BUF) 0 x) (\<lambda>buf.
         Inr (r, s\<lparr>m_tx_fifo := f, d_mem := (d_mem s)(UART_TX_BUF := buf)\<rparr>)))"

fun uart_event_handler_fifo ::
    "'m uf_handler \<Rightarrow> nrf_drv_uart_event_t \<Rightarrow> 'm app_uart_fifo_scheme \<Rightarrow> 'm app_uart_fifo_scheme result" where
  "uart_event_handler_fifo h (NRF_DRV_UART_EVT_RX_DONE bytes p_data) s =
     then_do (load_at (d_mem s p_data) 0) (\<lambda>value.
     then_do (app_fifo_put value (m_rx_fifo s)) (\<lambda>(err_code, f).
     let s1 = s\<lparr>m_rx_fifo := f\<rparr> in
     then_do (if err_code \<noteq> NRF_SUCCESS then uf_call h (APP_UART_FIFO_ERROR err_code) s1
              else if fifo_length (m_rx_fifo s1) \<noteq> 0 then uf_call h APP_UART_DATA_READY s1
              else Inr s1) (\<lambda>s2.
     if fifo_length (m_rx_fifo s2) \<le> ucast (buf_size_mask (m_rx_fifo s2))
     then ignore_code (nrf_drv_uart_rx UART_RX_BUF 1 s2)
     else Inr (s2\<lparr>m_rx_ovf := True\<rparr>))))"
| "uart_event_handler_fifo h (NRF_DRV_UART_EVT_ERROR error_mask bytes p_data) s =
     then_do (ignore_code (nrf_drv_uart_rx UART_RX_BUF 1 s)) (uf_call h (APP_UART_COMMUNICATION_ERROR error_mask))"
| "uart_event_handler_fifo h (NRF_DRV_UART_EVT_TX_DONE bytes p_data) s =
     then_do (tx_fifo_get s) (\<lambda>(r, s1).
     then_do (if r = NRF_SUCCESS then ignore_code (nrf_drv_uart_tx UART_TX_BUF 1 s1) else Inr s1) (\<lambda>s2.
     if fifo_length (m_tx_fifo s2) = 0 then uf_call h APP_UART_TX_EMPTY s2 else Inr s2))"

section \<open>The interface\<close>

text \<open>\<open>p_buffers\<close>: receive buffer and size, transmit buffer and size; \<open>rx_connected\<close>: the RX pin is connected.\<close>

definition app_uart_init_fifo ::
    "((u8 list option \<times> u16) \<times> (u8 list option \<times> u16)) option \<Rightarrow> bool \<Rightarrow> bool \<Rightarrow>
     'm app_uart_fifo_scheme \<Rightarrow> (ret_code \<times> 'm app_uart_fifo_scheme) result" where
  "app_uart_init_fifo p_buffers rx_connected event_handler s0 =
     (let s = s0\<lparr>uf_event_handler := event_handler\<rparr> in
      case p_buffers of
        None \<Rightarrow> Inr (NRF_ERROR_INVALID_PARAM, s)
      | Some ((rx_buf, rx_size), (tx_buf, tx_size)) \<Rightarrow>
          let (r1, rf) = app_fifo_init rx_buf rx_size (m_rx_fifo s); s1 = s\<lparr>m_rx_fifo := rf\<rparr>
          in if r1 \<noteq> NRF_SUCCESS then Inr (r1, s1)
             else
               let (r2, tf) = app_fifo_init tx_buf tx_size (m_tx_fifo s1); s2 = s1\<lparr>m_tx_fifo := tf\<rparr>
               in if r2 \<noteq> NRF_SUCCESS then Inr (r2, s2)
                  else
                    let (r3, s3) = nrf_drv_uart_init True s2
                    in if r3 \<noteq> NRF_SUCCESS then Inr (r3, s3)
                       else
                         let s4 = s3\<lparr>m_rx_ovf := False\<rparr>
                         in if rx_connected then nrf_drv_uart_rx UART_RX_BUF 1 (nrf_drv_uart_rx_enable s4)
                            else Inr (NRF_SUCCESS, s4))"

definition app_uart_flush_fifo :: "'m app_uart_fifo_scheme \<Rightarrow> ret_code \<times> 'm app_uart_fifo_scheme" where
  "app_uart_flush_fifo s =
     (let (r1, rf) = app_fifo_flush (m_rx_fifo s); s1 = s\<lparr>m_rx_fifo := rf\<rparr>
      in if r1 \<noteq> NRF_SUCCESS then (r1, s1)
         else
           let (r2, tf) = app_fifo_flush (m_tx_fifo s1); s2 = s1\<lparr>m_tx_fifo := tf\<rparr>
           in if r2 \<noteq> NRF_SUCCESS then (r2, s2) else (NRF_SUCCESS, s2))"

definition app_uart_get_fifo ::
    "'m app_uart_fifo_scheme \<Rightarrow> (ret_code \<times> u8 option \<times> 'm app_uart_fifo_scheme) result" where
  "app_uart_get_fifo s =
     then_do (app_fifo_get (m_rx_fifo s)) (\<lambda>(err_code, b, f).
     let s1 = s\<lparr>m_rx_fifo := f\<rparr> in
     if m_rx_ovf s
     then then_do (app_error_check (nrf_drv_uart_rx UART_RX_BUF 1 (s1\<lparr>m_rx_ovf := False\<rparr>))) (\<lambda>s2.
          Inr (err_code, b, s2))
     else Inr (err_code, b, s1))"

definition app_uart_put_fifo :: "u8 \<Rightarrow> 'm app_uart_fifo_scheme \<Rightarrow> (ret_code \<times> 'm app_uart_fifo_scheme) result" where
  "app_uart_put_fifo byte s =
     then_do (app_fifo_put byte (m_tx_fifo s)) (\<lambda>(err_code, f).
     let s1 = s\<lparr>m_tx_fifo := f\<rparr> in
     if err_code = NRF_SUCCESS \<and> \<not> nrf_drv_uart_tx_in_progress s1
     then then_do (tx_fifo_get s1) (\<lambda>(r, s2).
          if r = NRF_SUCCESS then nrf_drv_uart_tx UART_TX_BUF 1 s2 else Inr (err_code, s2))
     else Inr (err_code, s1))"

definition app_uart_close_fifo :: "'m app_uart_fifo_scheme \<Rightarrow> ret_code \<times> 'm app_uart_fifo_scheme" where
  "app_uart_close_fifo s = (NRF_SUCCESS, nrf_drv_uart_uninit s)"

end
