(* ===== verification/AppUartFifoProps.thy ===== *)
theory AppUartFifoProps
  imports AppUartFifo
begin

text \<open>
  The buffered UART module under any order of calls and interrupts: what the application puts is sent, what is received the
  application gets, each byte once and in order, and a full receive FIFO stops the receiver instead of losing bytes.
\<close>

section \<open>FIFO operations\<close>

definition has_room :: "app_fifo_t \<Rightarrow> bool" where
  "has_room f \<longleftrightarrow> length (fifo_bytes f) < fifo_cap f"

lemma fifo_room_iff: "fifo_ok f \<Longrightarrow> fifo_length f \<le> ucast (buf_size_mask f) \<longleftrightarrow> has_room f"
  by (simp add: has_room_def length_fifo_bytes fifo_cap_def word_le_nat_alt) linarith

lemma put_room: "fifo_ok f \<Longrightarrow> has_room f \<Longrightarrow> app_fifo_put b f = Inr (NRF_SUCCESS, fifo_enq b f)"
  by (simp add: app_fifo_put_def fifo_room_iff fifo_put_enq has_room_def)

lemma put_full: "fifo_ok f \<Longrightarrow> \<not> has_room f \<Longrightarrow> app_fifo_put b f = Inr (NRF_ERROR_NO_MEM, f)"
  by (simp add: app_fifo_put_def fifo_room_iff)

lemma get_empty: "fifo_bytes f = [] \<Longrightarrow> app_fifo_get f = Inr (NRF_ERROR_NOT_FOUND, None, f)"
  by (simp add: app_fifo_get_def fifo_bytes_Nil_iff)

lemma get_some:
  "fifo_ok f \<Longrightarrow> fifo_bytes f \<noteq> [] \<Longrightarrow> app_fifo_get f = Inr (NRF_SUCCESS, Some (hd (fifo_bytes f)), fifo_deq f)"
  using app_fifo.front_abs [of f] fifo_get_deq [of f] by (simp add: app_fifo_get_def fifo_bytes_Nil_iff)

lemma room_after_get: "fifo_ok f \<Longrightarrow> fifo_bytes f \<noteq> [] \<Longrightarrow> has_room (fifo_deq f)"
  using app_fifo.deq_abs [of f] app_fifo.deq_cap [of f]
  by (cases "fifo_bytes f") (auto simp: has_room_def fifo_ok_def length_fifo_bytes [symmetric])

lemma room_empty: "fifo_bytes f = [] \<Longrightarrow> has_room f"
  by (simp add: has_room_def fifo_cap_def)

lemmas fifo_calls = put_room put_full get_empty get_some app_fifo.enq_inv app_fifo.enq_abs app_fifo.enq_cap
  app_fifo.deq_inv app_fifo.deq_abs app_fifo.deq_cap

section \<open>Invariant\<close>

text \<open>The transmitter is idle and its FIFO empty, or it sends the byte in its buffer.\<close>

definition tx_part :: "'m app_uart_fifo_scheme \<Rightarrow> bool" where
  "tx_part s \<longleftrightarrow> fifo_ok (m_tx_fifo s) \<and> length (d_mem s UART_TX_BUF) = 1 \<and>
     (d_tx_buffer_length s = 0 \<and> fifo_bytes (m_tx_fifo s) = [] \<or>
      d_tx_buffer_length s = 1 \<and> d_tx_counter s = 1 \<and> d_tx_buffer s = UART_TX_BUF)"

text \<open>
  The receiver waits for a byte and its interrupts are enabled, and the FIFO has room for it; or the FIFO is full, the receiver
  is stopped and \<open>m_rx_ovf\<close> tells so. While the byte of a reception is delivered, the receiver is off (\<open>rx_busy\<close>).
\<close>

definition rx_common :: "'m app_uart_fifo_scheme \<Rightarrow> bool" where
  "rx_common s \<longleftrightarrow> fifo_ok (m_rx_fifo s) \<and> length (d_mem s UART_RX_BUF) = 1 \<and> d_rx_enabled s \<and>
     d_rx_secondary_buffer_length s = 0"

definition rx_busy :: "'m app_uart_fifo_scheme \<Rightarrow> bool" where
  "rx_busy s \<longleftrightarrow> rx_common s \<and> d_rx_buffer_length s = 0 \<and> \<not> m_rx_ovf s"

definition rx_part :: "'m app_uart_fifo_scheme \<Rightarrow> bool" where
  "rx_part s \<longleftrightarrow> rx_common s \<and>
     (if m_rx_ovf s then d_rx_buffer_length s = 0 \<and> \<not> has_room (m_rx_fifo s)
      else d_rx_buffer_length s = 1 \<and> d_rx_buffer s = UART_RX_BUF \<and> d_rx_counter s = 0 \<and> INT_RXDRDY s \<and> INT_ERROR s \<and>
           has_room (m_rx_fifo s))"

definition no_event :: "'m app_uart_fifo_scheme \<Rightarrow> bool" where
  "no_event s \<longleftrightarrow> d_handler s \<and> uf_event_handler s \<and> \<not> EV_TXDRDY s \<and> \<not> EV_RXDRDY s \<and> \<not> EV_ERROR s \<and> \<not> EV_RXTO s"

definition uf_inv :: "'m app_uart_fifo_scheme \<Rightarrow> bool" where
  "uf_inv s \<longleftrightarrow> no_event s \<and> tx_part s \<and> rx_part s"

lemmas uf_defs = uf_inv_def no_event_def tx_part_def rx_part_def rx_common_def rx_busy_def

lemma buffers_distinct [simp]: "UART_TX_BUF \<noteq> UART_RX_BUF" "UART_RX_BUF \<noteq> UART_TX_BUF"
  by (simp_all add: UART_TX_BUF_def UART_RX_BUF_def)

text \<open>What is on the line or in the transmit FIFO; what waits in the receive FIFO.\<close>

definition outgoing :: "'m app_uart_fifo_scheme \<Rightarrow> u8 list" where
  "outgoing s = TXD_sent s @ fifo_bytes (m_tx_fifo s)"

definition incoming :: "'m app_uart_fifo_scheme \<Rightarrow> u8 list" where
  "incoming s = fifo_bytes (m_rx_fifo s)"

lemma one_byte: "length xs = 1 \<Longrightarrow> store_at xs 0 x = Inr [x]"
  by (cases xs) (simp_all add: store_at_def)

lemma drv_tx_start:
  assumes "d_handler s" and "d_tx_buffer_length s = 0" and "d_mem s UART_TX_BUF = [x]"
  shows "nrf_drv_uart_tx UART_TX_BUF 1 s = Inr (NRF_SUCCESS, s\<lparr>d_tx_buffer_length := 1, d_tx_buffer := UART_TX_BUF,
    d_tx_counter := 1, EV_TXDRDY := False, tx_running := True, TXD_sent := TXD_sent s @ [x]\<rparr>)"
  using assms
  by (simp add: nrf_drv_uart_tx_def nrf_drv_uart_tx_in_progress_def nrf_drv_uart_tx_for_uart_def tx_byte_def load_at_def)

lemma drv_rx_start:
  assumes "d_handler s" and "d_rx_buffer_length s = 0" and "d_rx_enabled s"
  shows "nrf_drv_uart_rx UART_RX_BUF 1 s = Inr (NRF_SUCCESS, s\<lparr>d_rx_buffer_length := 1, d_rx_buffer := UART_RX_BUF,
    d_rx_counter := 0, d_rx_secondary_buffer_length := 0, INT_RXDRDY := True, INT_ERROR := True\<rparr>)"
  using assms by (simp add: nrf_drv_uart_rx_def nrf_drv_uart_rx_for_uart_def)

section \<open>The calls of the application\<close>

text \<open>
  What the application does with the module: it puts or gets a byte. The state is extended by a log: the bytes the module
  accepted, those it gave to the application, and those the chip received.
\<close>

record uf_client = app_uart_fifo +
  cl_put :: "u8 list"
  cl_got :: "u8 list"
  cl_recv :: "u8 list"

datatype uf_request = Put u8 | Get

fun client_call :: "uf_request \<Rightarrow> 'm uf_client_scheme \<Rightarrow> 'm uf_client_scheme result" where
  "client_call (Put b) s =
     then_do (app_uart_put_fifo b s) (\<lambda>(r, t). Inr (if r = NRF_SUCCESS then t\<lparr>cl_put := cl_put t @ [b]\<rparr> else t))"
| "client_call Get s =
     then_do (app_uart_get_fifo s) (\<lambda>(r, x, t). Inr (case x of None \<Rightarrow> t | Some b \<Rightarrow> t\<lparr>cl_got := cl_got t @ [b]\<rparr>))"

text \<open>The event handler of the application: what it calls may depend on the event and on everything in the state.\<close>

type_synonym 'm uf_script = "app_uart_evt_t \<Rightarrow> 'm uf_client_scheme \<Rightarrow> uf_request list"

definition client_handler :: "'m uf_script \<Rightarrow> app_uart_evt_t \<Rightarrow> 'm uf_client_scheme \<Rightarrow> 'm uf_client_scheme result" where
  "client_handler c e s = for_each client_call (c e s) s"

text \<open>
  The account of the two streams: \<open>p\<close> was on the line or in the transmit FIFO at the start, \<open>g\<close> in the receive FIFO.
\<close>

definition account :: "u8 list \<Rightarrow> u8 list \<Rightarrow> 'm uf_client_scheme \<Rightarrow> bool" where
  "account p g s \<longleftrightarrow> outgoing s = p @ cl_put s \<and> cl_got s @ incoming s = g @ cl_recv s"

lemma put_step:
  fixes s :: "'m uf_client_scheme"
  assumes "no_event s" and "tx_part s"
  shows "ok (app_uart_put_fifo b s) (\<lambda>(r, t). no_event t \<and> tx_part t \<and> rx_part t = rx_part s \<and> rx_busy t = rx_busy s \<and>
    incoming t = incoming s \<and> cl_put t = cl_put s \<and> cl_got t = cl_got s \<and> cl_recv t = cl_recv s \<and>
    (if has_room (m_tx_fifo s) then r = NRF_SUCCESS \<and> outgoing t = outgoing s @ [b]
     else r = NRF_ERROR_NO_MEM \<and> t = s))"
proof (cases "has_room (m_tx_fifo s)")
  case False
  then show ?thesis using assms by (simp add: app_uart_put_fifo_def put_full tx_part_def)
next
  case True
  let ?f = "fifo_enq b (m_tx_fifo s)"
  have f: "fifo_ok (m_tx_fifo s)" "length (fifo_bytes (m_tx_fifo s)) < fifo_cap (m_tx_fifo s)"
    using assms True by (simp_all add: tx_part_def has_room_def)
  note e = app_fifo.enq_inv [OF f, of b] app_fifo.enq_abs [OF f, of b]
  show ?thesis
  proof (cases "d_tx_buffer_length s = 0")
    case idle: True
    then have "fifo_bytes ?f = [b]" using assms e by (simp add: tx_part_def)
    then show ?thesis
      using assms True f e idle app_fifo.deq_inv [OF e(1)] app_fifo.deq_abs [OF e(1)]
      by (simp add: app_uart_put_fifo_def put_room get_some tx_fifo_get_def nrf_drv_uart_tx_in_progress_def one_byte
          drv_tx_start uf_defs outgoing_def incoming_def split: if_splits)
  next
    case False
    then show ?thesis
      using assms True f e
      by (simp add: app_uart_put_fifo_def put_room nrf_drv_uart_tx_in_progress_def uf_defs outgoing_def incoming_def
          split: if_splits)
  qed
qed

lemma get_step:
  fixes s :: "'m uf_client_scheme"
  assumes "no_event s" and "tx_part s" and "rx_part s \<or> rx_busy s"
  shows "ok (app_uart_get_fifo s) (\<lambda>(r, x, t). no_event t \<and> tx_part t \<and> (rx_part s \<longrightarrow> rx_part t) \<and>
    (rx_busy s \<longrightarrow> rx_busy t) \<and> outgoing t = outgoing s \<and> cl_put t = cl_put s \<and> cl_got t = cl_got s \<and>
    cl_recv t = cl_recv s \<and> r = (if incoming s = [] then NRF_ERROR_NOT_FOUND else NRF_SUCCESS) \<and>
    x = (case incoming s of [] \<Rightarrow> None | b # bs \<Rightarrow> Some b) \<and>
    (case x of None \<Rightarrow> [] | Some b \<Rightarrow> [b]) @ incoming t = incoming s)"
proof (cases "fifo_bytes (m_rx_fifo s)")
  case Nil
  then show ?thesis using assms room_empty [OF Nil]
    by (auto simp: app_uart_get_fifo_def get_empty uf_defs outgoing_def incoming_def split: if_splits)
next
  case (Cons b bs)
  have f: "fifo_ok (m_rx_fifo s)" "fifo_bytes (m_rx_fifo s) \<noteq> []"
    using assms(3) Cons by (auto simp: uf_defs)
  then show ?thesis
    using assms Cons app_fifo.deq_inv [OF f] app_fifo.deq_abs [OF f] room_after_get [OF f]
    by (auto simp: app_uart_get_fifo_def get_some drv_rx_start app_error_check_def uf_defs outgoing_def incoming_def
        split: if_splits)
qed

text \<open>A call keeps both states of the receiver, and the account.\<close>

definition kept :: "('m uf_client_scheme \<Rightarrow> bool) \<Rightarrow> u8 list \<Rightarrow> u8 list \<Rightarrow> 'm uf_client_scheme \<Rightarrow> bool" where
  "kept R p g s \<longleftrightarrow> no_event s \<and> tx_part s \<and> R s \<and> account p g s"

lemma log_update [simp]:
  fixes s :: "'m uf_client_scheme"
  shows "no_event (s\<lparr>cl_put := v\<rparr>) = no_event s" "tx_part (s\<lparr>cl_put := v\<rparr>) = tx_part s"
    "rx_part (s\<lparr>cl_put := v\<rparr>) = rx_part s" "rx_busy (s\<lparr>cl_put := v\<rparr>) = rx_busy s"
    "outgoing (s\<lparr>cl_put := v\<rparr>) = outgoing s" "incoming (s\<lparr>cl_put := v\<rparr>) = incoming s"
    "no_event (s\<lparr>cl_got := v\<rparr>) = no_event s" "tx_part (s\<lparr>cl_got := v\<rparr>) = tx_part s"
    "rx_part (s\<lparr>cl_got := v\<rparr>) = rx_part s" "rx_busy (s\<lparr>cl_got := v\<rparr>) = rx_busy s"
    "outgoing (s\<lparr>cl_got := v\<rparr>) = outgoing s" "incoming (s\<lparr>cl_got := v\<rparr>) = incoming s"
    "no_event (s\<lparr>cl_recv := v\<rparr>) = no_event s" "tx_part (s\<lparr>cl_recv := v\<rparr>) = tx_part s"
    "rx_part (s\<lparr>cl_recv := v\<rparr>) = rx_part s"
    "outgoing (s\<lparr>cl_recv := v\<rparr>) = outgoing s" "incoming (s\<lparr>cl_recv := v\<rparr>) = incoming s"
  by (simp_all add: uf_defs outgoing_def incoming_def)

lemma client_call_kept:
  assumes "kept R p g s" and "R = rx_part \<or> R = rx_busy"
  shows "ok (client_call a s) (kept R p g)"
proof (cases a)
  case (Put b)
  show ?thesis using put_step [of s b] assms
    by (auto simp: Put kept_def account_def elim!: ok_mono split: if_splits)
next
  case Get
  have "ok (app_uart_get_fifo s) (\<lambda>(r, x, t). no_event t \<and> tx_part t \<and> R t \<and> outgoing t = outgoing s \<and>
      cl_put t = cl_put s \<and> cl_got t = cl_got s \<and> cl_recv t = cl_recv s \<and>
      (case x of None \<Rightarrow> [] | Some b \<Rightarrow> [b]) @ incoming t = incoming s)"
    using get_step [of s] assms by (auto simp: kept_def elim!: ok_mono)
  then show ?thesis using assms
    by (auto simp: Get kept_def account_def elim!: ok_mono split: option.splits)
qed

lemma client_handler_kept:
  assumes "kept R p g s" and "R = rx_part \<or> R = rx_busy"
  shows "ok (client_handler c e s) (kept R p g)"
proof -
  have "kept R p g u \<Longrightarrow> ok (for_each client_call as u) (kept R p g)" for as u
  proof (induction as arbitrary: u)
    case (Cons a as)
    then show ?case using client_call_kept [OF Cons.prems assms(2), of a] by (auto elim!: ok_mono)
  qed simp
  then show ?thesis using assms(1) by (simp add: client_handler_def)
qed

text \<open>A port that has been opened.\<close>

lemma init_step:
  assumes "\<not> d_initialized s" and "i < 16" and "k < 16" and "2 ^ i \<le> length rx" and "2 ^ k \<le> length tx"
    and "length (d_mem s UART_RX_BUF) = 1" and "length (d_mem s UART_TX_BUF) = 1"
    and "\<not> EV_TXDRDY s" "\<not> EV_RXDRDY s" "\<not> EV_ERROR s"
  shows "ok (app_uart_init_fifo (Some ((Some rx, 2 ^ i), (Some tx, 2 ^ k))) True True s)
    (\<lambda>(r, t). r = NRF_SUCCESS \<and> uf_inv t \<and> outgoing t = TXD_sent s \<and> incoming t = [])"
proof -
  have u: "unat (2 ^ j :: u16) = 2 ^ j" if "j < 16" for j
  proof -
    have "(2 :: nat) ^ j < 2 ^ 16" using that by (intro power_strict_increasing) simp_all
    then have "unat (of_nat (2 ^ j) :: u16) = 2 ^ j"
      using that by (simp only: unsigned_of_nat take_bit_nat_eq_self_iff len_of_numeral_defs) simp
    then show ?thesis by simp
  qed
  have init: "\<exists>f. app_fifo_init (Some b) (2 ^ j) g = (NRF_SUCCESS, f) \<and> fifo_ok f \<and> fifo_bytes f = []"
    if "j < 16" "2 ^ j \<le> length b" for j b g
    using app_fifo_init_ok(1) [of b "2 ^ j" g] app_fifo_init_ok(2) [of "2 ^ j" b g] that u [of j]
    by (cases "app_fifo_init (Some b) (2 ^ j) g") auto
  obtain rf where rf: "app_fifo_init (Some rx) (2 ^ i) (m_rx_fifo s) = (NRF_SUCCESS, rf)" "fifo_ok rf" "fifo_bytes rf = []"
    using init [OF assms(2,4)] by blast
  obtain tf where tf: "app_fifo_init (Some tx) (2 ^ k) (m_tx_fifo s) = (NRF_SUCCESS, tf)" "fifo_ok tf" "fifo_bytes tf = []"
    using init [OF assms(3,5)] by blast
  show ?thesis
    using assms(1,6-) rf tf room_empty [OF rf(3)]
    by (simp add: app_uart_init_fifo_def Let_def nrf_drv_uart_init_def interrupts_enable_def nrf_drv_uart_rx_enable_def
        uart_rx_enable_def drv_rx_start uf_defs outgoing_def incoming_def)
qed

section \<open>Interrupts\<close>

text \<open>The hardware reports a framing, parity or overrun error: the error source is set and the interrupt is served.\<close>

definition line_error :: "'m drv_handler \<Rightarrow> u32 \<Rightarrow> 'm uart_drv_scheme \<Rightarrow> 'm uart_drv_scheme result" where
  "line_error h src s = uart_irq_handler h (s\<lparr>EV_ERROR := True, ERRORSRC := src\<rparr>)"

lemma irq_rest_kept: "kept R p g t \<Longrightarrow> irq_rest h t = Inr t"
  by (simp add: irq_rest_def kept_def no_event_def)

lemma uf_call_client: "kept R p g s \<Longrightarrow> uf_call (client_handler c) e s = client_handler c e s"
  by (simp add: uf_call_def kept_def no_event_def)

lemma sent_step:
  fixes s :: "'m uf_client_scheme"
  assumes "kept rx_part p g s"
  shows "ok (txdrdy (uart_event_handler_fifo (client_handler c)) s) (kept rx_part p g)"
proof -
  let ?h = "uart_event_handler_fifo (client_handler c)" and ?s = "s\<lparr>EV_TXDRDY := False, d_tx_buffer_length := 0\<rparr>"
  have inv: "no_event s" "tx_part s" "rx_part s" using assms by (simp_all add: kept_def)
  show ?thesis
  proof (cases "d_tx_buffer_length s = 0")
    case True
    then show ?thesis using assms
      by (auto simp: txdrdy_def uart_irq_handler_def irq_txdrdy_def kept_def account_def uf_defs outgoing_def incoming_def)
  next
    case False
    then have run: "txdrdy ?h s = then_do (?h (NRF_DRV_UART_EVT_TX_DONE 1 UART_TX_BUF) ?s)
        (\<lambda>u. if EV_RXTO u then irq_rxto ?h u else Inr u)"
      using inv by (auto simp: txdrdy_def uart_irq_handler_def irq_txdrdy_def tx_done_event_def drv_call_def uf_defs)
    have f: "fifo_ok (m_tx_fifo s)" using inv by (simp add: tx_part_def)
    have "\<exists>u. kept rx_part p g u \<and> ?h (NRF_DRV_UART_EVT_TX_DONE 1 UART_TX_BUF) ?s =
        (if fifo_length (m_tx_fifo u) = 0 then uf_call (client_handler c) APP_UART_TX_EMPTY u else Inr u)"
    proof (cases "fifo_bytes (m_tx_fifo s)")
      case Nil
      then have "kept rx_part p g ?s"
        using assms False by (auto simp: kept_def account_def uf_defs outgoing_def incoming_def split: if_splits)
      then show ?thesis using Nil by (intro exI [of _ ?s]) (simp add: tx_fifo_get_def get_empty)
    next
      case (Cons b bs)
      then have ne: "fifo_bytes (m_tx_fifo s) \<noteq> []" by simp
      note e = app_fifo.deq_inv [OF f ne] app_fifo.deq_abs [OF f ne]
      let ?u = "?s\<lparr>m_tx_fifo := fifo_deq (m_tx_fifo s), d_mem := (d_mem s)(UART_TX_BUF := [b]), d_tx_buffer_length := 1,
        d_tx_buffer := UART_TX_BUF, d_tx_counter := 1, EV_TXDRDY := False, tx_running := True, TXD_sent := TXD_sent s @ [b]\<rparr>"
      have "kept rx_part p g ?u"
        using assms Cons e by (auto simp: kept_def account_def uf_defs outgoing_def incoming_def split: if_splits)
      then show ?thesis using inv Cons f
        by (intro exI [of _ ?u]) (simp add: tx_fifo_get_def get_some one_byte drv_tx_start ignore_code_def uf_defs)
    qed
    then obtain u where u: "kept rx_part p g u" "?h (NRF_DRV_UART_EVT_TX_DONE 1 UART_TX_BUF) ?s =
        (if fifo_length (m_tx_fifo u) = 0 then uf_call (client_handler c) APP_UART_TX_EMPTY u else Inr u)" by blast
    have "ok (?h (NRF_DRV_UART_EVT_TX_DONE 1 UART_TX_BUF) ?s) (kept rx_part p g)"
      unfolding u(2) using u(1) client_handler_kept [OF u(1), of c APP_UART_TX_EMPTY] by (simp add: uf_call_client)
    moreover have "\<not> EV_RXTO t" if "kept rx_part p g t" for t :: "'m uf_client_scheme"
      using that by (simp add: kept_def no_event_def)
    ultimately show ?thesis unfolding run by (auto simp: ok_iff)
  qed
qed

lemma arrives_step:
  fixes s :: "'m uf_client_scheme"
  assumes "kept rx_part p g s" and "\<not> m_rx_ovf s"
  shows "ok (rxdrdy (uart_event_handler_fifo (client_handler c)) b (s\<lparr>cl_recv := cl_recv s @ [b]\<rparr>)) (kept rx_part p g)"
proof -
  let ?h = "uart_event_handler_fifo (client_handler c)" and ?f = "fifo_enq b (m_rx_fifo s)"
  have inv: "no_event s" "tx_part s" "rx_part s" using assms by (simp_all add: kept_def)
  have f: "fifo_ok (m_rx_fifo s)" "has_room (m_rx_fifo s)" "length (fifo_bytes (m_rx_fifo s)) < fifo_cap (m_rx_fifo s)"
    using inv(3) assms(2) by (simp_all add: rx_part_def rx_common_def has_room_def)
  note e = app_fifo.enq_inv [OF f(1,3), of b] app_fifo.enq_abs [OF f(1,3), of b]
  have ne: "fifo_length ?f \<noteq> 0" using e(2) by (simp add: fifo_bytes_Nil_iff [symmetric])
  let ?s = "s\<lparr>cl_recv := cl_recv s @ [b], RXD := b, EV_RXDRDY := False, d_mem := (d_mem s)(UART_RX_BUF := [b]),
      d_rx_counter := 1, INT_RXDRDY := False, INT_ERROR := False, d_rx_buffer_length := 0\<rparr>"
  let ?u = "?s\<lparr>m_rx_fifo := ?f\<rparr>"
  have run: "rxdrdy ?h b (s\<lparr>cl_recv := cl_recv s @ [b]\<rparr>) =
      then_do (?h (NRF_DRV_UART_EVT_RX_DONE 1 UART_RX_BUF) ?s) (irq_rest ?h)"
    using inv assms(2)
    by (auto simp: rxdrdy_def uart_irq_handler_def irq_rxdrdy_def rx_byte_def rx_done_event_def drv_call_def uf_defs one_byte
        irq_rest_def [abs_def])
  have u: "kept rx_busy p g ?u"
    using assms e by (auto simp: kept_def account_def uf_defs outgoing_def incoming_def split: if_splits)
  then obtain v where v: "client_handler c APP_UART_DATA_READY ?u = Inr v" "kept rx_busy p g v"
    using client_handler_kept [OF u, of c APP_UART_DATA_READY] by (auto simp: ok_iff)
  have h: "?h (NRF_DRV_UART_EVT_RX_DONE 1 UART_RX_BUF) ?s =
      (if has_room (m_rx_fifo v) then ignore_code (nrf_drv_uart_rx UART_RX_BUF 1 v) else Inr (v\<lparr>m_rx_ovf := True\<rparr>))"
    using f(1,2) ne v u
    by (simp add: load_at_def put_room uf_call_client [OF u] fifo_room_iff kept_def rx_busy_def rx_common_def)
  have "ok (?h (NRF_DRV_UART_EVT_RX_DONE 1 UART_RX_BUF) ?s) (kept rx_part p g)"
    unfolding h using v(2)
    by (auto simp: kept_def account_def drv_rx_start ignore_code_def uf_defs outgoing_def incoming_def)
  then show ?thesis unfolding run by (auto simp: ok_iff irq_rest_kept)
qed

lemma error_step:
  fixes s :: "'m uf_client_scheme"
  assumes "kept rx_part p g s" and "\<not> m_rx_ovf s"
  shows "ok (line_error (uart_event_handler_fifo (client_handler c)) src s) (kept rx_part p g)"
proof -
  let ?h = "uart_event_handler_fifo (client_handler c)" and ?e = "APP_UART_COMMUNICATION_ERROR src"
  let ?u = "s\<lparr>EV_ERROR := False, ERRORSRC := 0, d_rx_buffer_length := 1, d_rx_buffer := UART_RX_BUF, d_rx_counter := 0,
      d_rx_secondary_buffer_length := 0, INT_RXDRDY := True, INT_ERROR := True\<rparr>"
  have inv: "no_event s" "rx_part s" using assms by (simp_all add: kept_def)
  have u: "kept rx_part p g ?u"
    using assms by (auto simp: kept_def account_def uf_defs outgoing_def incoming_def)
  have run: "line_error ?h src s = then_do (uf_call (client_handler c) ?e ?u) (irq_rest ?h)"
    using inv assms(2)
    by (simp add: line_error_def uart_irq_handler_def irq_error_def drv_call_def drv_rx_start ignore_code_def uf_defs
        irq_rest_def [abs_def])
  show ?thesis unfolding run uf_call_client [OF u]
    using client_handler_kept [OF u, of c ?e] by (auto simp: ok_iff irq_rest_kept)
qed

section \<open>Any order of calls and interrupts\<close>

text \<open>
  The application puts or gets a byte; a byte has been sent; a byte arrives; the line has an error. While reception is
  stopped its interrupts are disabled: a byte or an error that comes then waits in the chip, and nothing happens.
\<close>

datatype uf_act = Call uf_request | Sent | Arrives u8 | Line_Error u32

fun uf_do :: "'m uf_script \<Rightarrow> uf_act \<Rightarrow> 'm uf_client_scheme \<Rightarrow> 'm uf_client_scheme result" where
  "uf_do c (Call a) s = client_call a s"
| "uf_do c Sent s = txdrdy (uart_event_handler_fifo (client_handler c)) s"
| "uf_do c (Arrives b) s =
     (if m_rx_ovf s then Inr s
      else rxdrdy (uart_event_handler_fifo (client_handler c)) b (s\<lparr>cl_recv := cl_recv s @ [b]\<rparr>))"
| "uf_do c (Line_Error src) s =
     (if m_rx_ovf s then Inr s else line_error (uart_event_handler_fifo (client_handler c)) src s)"

lemma uf_do_kept:
  assumes "kept rx_part p g s"
  shows "ok (uf_do c a s) (kept rx_part p g)"
proof (cases a)
  case (Call r)
  then show ?thesis using client_call_kept [OF assms, of r] by simp
next
  case Sent
  then show ?thesis using sent_step [OF assms, of c] by simp
next
  case (Arrives b)
  then show ?thesis using arrives_step [OF assms, of c b] assms by simp
next
  case (Line_Error src)
  then show ?thesis using error_step [OF assms, of c src] assms by simp
qed

text \<open>
  C28. With the buffered UART module no byte is lost, repeated or reordered, whatever the order in which the application puts
  and gets bytes, bytes are sent and arrive and the line has errors, and whatever its event handler puts and gets inside the
  interrupts: the bytes on the line and in the transmit FIFO are those the module accepted, and the bytes the
  application got and those in the receive FIFO are those received. A put is accepted unless its FIFO is full, a
  get gives the first byte unless its FIFO is empty. No call and no interrupt goes wrong. The receiver
  is stopped exactly while its FIFO is full, otherwise it waits with its interrupts enabled; the transmitter is
  idle only when its FIFO is empty. Calls and interrupts come one after the other, from any state that app_uart_init leaves
  (uf_inv), without app_uart_flush; the receiver stays enabled, so there is no RXTO event.
\<close>

theorem uart_fifo_streams:
  assumes "uf_inv s"
  shows "ok (for_each (uf_do c) acts (s\<lparr>cl_put := [], cl_got := [], cl_recv := []\<rparr>)) (\<lambda>t. uf_inv t \<and>
    TXD_sent t @ fifo_bytes (m_tx_fifo t) = TXD_sent s @ fifo_bytes (m_tx_fifo s) @ cl_put t \<and>
    cl_got t @ fifo_bytes (m_rx_fifo t) = fifo_bytes (m_rx_fifo s) @ cl_recv t \<and>
    (if length (fifo_bytes (m_rx_fifo t)) = fifo_cap (m_rx_fifo t) then d_rx_buffer_length t = 0
     else d_rx_buffer_length t = 1 \<and> d_rx_buffer t = UART_RX_BUF \<and> INT_RXDRDY t \<and> INT_ERROR t) \<and>
    (d_tx_buffer_length t = 0 \<longrightarrow> fifo_bytes (m_tx_fifo t) = []) \<and>
    (\<forall>b. ok (app_uart_put_fifo b t) (\<lambda>(r, u). r =
       (if length (fifo_bytes (m_tx_fifo t)) = fifo_cap (m_tx_fifo t) then NRF_ERROR_NO_MEM else NRF_SUCCESS))) \<and>
    ok (app_uart_get_fifo t) (\<lambda>(r, x, u).
       case fifo_bytes (m_rx_fifo t) of
         [] \<Rightarrow> r = NRF_ERROR_NOT_FOUND \<and> x = None
       | b # bs \<Rightarrow> r = NRF_SUCCESS \<and> x = Some b))"
proof -
  let ?p = "outgoing s" and ?g = "incoming s" and ?s = "s\<lparr>cl_put := [], cl_got := [], cl_recv := []\<rparr>"
  have steps: "kept rx_part ?p ?g x \<Longrightarrow> ok (for_each (uf_do c) acts x) (kept rx_part ?p ?g)" for x
  proof (induction acts arbitrary: x)
    case (Cons a acts)
    then show ?case using uf_do_kept [OF Cons.prems, of c a] by (auto elim!: ok_mono)
  qed simp
  have full: "length (fifo_bytes f) \<le> fifo_cap f" if "fifo_ok f" for f
    using that by (simp add: length_fifo_bytes fifo_ok_def)
  have "kept rx_part ?p ?g ?s" using assms by (simp add: kept_def uf_inv_def account_def)
  from steps [OF this] show ?thesis
  proof (rule ok_mono)
    fix t assume t: "kept rx_part ?p ?g t"
    then have f: "fifo_ok (m_rx_fifo t)" "fifo_ok (m_tx_fifo t)" "no_event t" "tx_part t" "rx_part t"
      by (simp_all add: kept_def rx_part_def rx_common_def tx_part_def)
    have "ok (app_uart_put_fifo b t) (\<lambda>(r, u). r =
        (if length (fifo_bytes (m_tx_fifo t)) = fifo_cap (m_tx_fifo t) then NRF_ERROR_NO_MEM else NRF_SUCCESS))" for b
      using put_step [OF f(3,4), of b] full [OF f(2)] by (auto simp: has_room_def elim!: ok_mono split: if_splits)
    moreover have "ok (app_uart_get_fifo t) (\<lambda>(r, x, u).
        case fifo_bytes (m_rx_fifo t) of
          [] \<Rightarrow> r = NRF_ERROR_NOT_FOUND \<and> x = None
        | b # bs \<Rightarrow> r = NRF_SUCCESS \<and> x = Some b)"
      using get_step [OF f(3,4)] f(5) by (auto simp: incoming_def elim!: ok_mono split: list.splits)
    moreover have "uf_inv t \<and>
      TXD_sent t @ fifo_bytes (m_tx_fifo t) = TXD_sent s @ fifo_bytes (m_tx_fifo s) @ cl_put t \<and>
      cl_got t @ fifo_bytes (m_rx_fifo t) = fifo_bytes (m_rx_fifo s) @ cl_recv t \<and>
      (if length (fifo_bytes (m_rx_fifo t)) = fifo_cap (m_rx_fifo t) then d_rx_buffer_length t = 0
       else d_rx_buffer_length t = 1 \<and> d_rx_buffer t = UART_RX_BUF \<and> INT_RXDRDY t \<and> INT_ERROR t) \<and>
      (d_tx_buffer_length t = 0 \<longrightarrow> fifo_bytes (m_tx_fifo t) = [])"
      using t full [OF f(1)]
      by (auto simp: kept_def uf_inv_def account_def outgoing_def incoming_def rx_part_def tx_part_def has_room_def
          split: if_splits)
    ultimately show "uf_inv t \<and>
      TXD_sent t @ fifo_bytes (m_tx_fifo t) = TXD_sent s @ fifo_bytes (m_tx_fifo s) @ cl_put t \<and>
      cl_got t @ fifo_bytes (m_rx_fifo t) = fifo_bytes (m_rx_fifo s) @ cl_recv t \<and>
      (if length (fifo_bytes (m_rx_fifo t)) = fifo_cap (m_rx_fifo t) then d_rx_buffer_length t = 0
       else d_rx_buffer_length t = 1 \<and> d_rx_buffer t = UART_RX_BUF \<and> INT_RXDRDY t \<and> INT_ERROR t) \<and>
      (d_tx_buffer_length t = 0 \<longrightarrow> fifo_bytes (m_tx_fifo t) = []) \<and>
      (\<forall>b. ok (app_uart_put_fifo b t) (\<lambda>(r, u). r =
         (if length (fifo_bytes (m_tx_fifo t)) = fifo_cap (m_tx_fifo t) then NRF_ERROR_NO_MEM else NRF_SUCCESS))) \<and>
      ok (app_uart_get_fifo t) (\<lambda>(r, x, u).
         case fifo_bytes (m_rx_fifo t) of
           [] \<Rightarrow> r = NRF_ERROR_NOT_FOUND \<and> x = None
         | b # bs \<Rightarrow> r = NRF_SUCCESS \<and> x = Some b)" by blast
  qed
qed

text \<open>A port that is opened with FIFOs of two and four bytes.\<close>

definition sample_uart_fifo :: uf_client where
  "sample_uart_fifo = app_uart_fifo.extend
     (uart_drv.extend (sample_uart\<lparr>d_initialized := False, d_mem := (\<lambda>a. [0])\<rparr>)
        (app_uart_fifo.fields False False sample_fifo sample_fifo))
     (uf_client.fields [] [] [])"

lemma sample_uart_fifo_opened:
  obtains t where "app_uart_init_fifo (Some ((Some [0, 0], 2), (Some [0, 0, 0, 0], 4))) True True sample_uart_fifo
      = Inr (NRF_SUCCESS, t)"
    "uf_inv t" "outgoing t = []" "incoming t = []"
proof -
  have f: "\<not> d_initialized sample_uart_fifo" "d_mem sample_uart_fifo = (\<lambda>a. [0])" "\<not> EV_TXDRDY sample_uart_fifo"
    "\<not> EV_RXDRDY sample_uart_fifo" "\<not> EV_ERROR sample_uart_fifo" "TXD_sent sample_uart_fifo = []"
    by (simp_all add: sample_uart_fifo_def sample_uart_def uart_drv.defs app_uart_fifo.defs uf_client.defs)
  then show thesis
    using init_step [of sample_uart_fifo 1 2 "[0, 0]" "[0, 0, 0, 0]"] that by (auto simp: ok_iff)
qed


text \<open>An event handler that gets two bytes when the first one arrives, and puts one whenever the transmit FIFO is empty.\<close>

definition sample_script :: "unit uf_script" where
  "sample_script e s =
     (case e of
        APP_UART_DATA_READY \<Rightarrow> (if cl_got s = [] then [Get, Get] else [])
      | APP_UART_TX_EMPTY \<Rightarrow> [Put 9]
      | _ \<Rightarrow> [])"

theorem uart_fifo_streams_witness:
  "\<exists>s. app_uart_init_fifo (Some ((Some [0, 0], 2), (Some [0, 0, 0, 0], 4))) True True sample_uart_fifo = Inr (NRF_SUCCESS, s) \<and>
    ok (for_each (uf_do sample_script) [Call (Put 1), Arrives 7, Sent, Call Get, Arrives 8, Line_Error 4, Arrives 9]
        (s\<lparr>cl_put := [], cl_got := [], cl_recv := []\<rparr>)) (\<lambda>t.
      TXD_sent t @ fifo_bytes (m_tx_fifo t) = cl_put t \<and> cl_got t @ fifo_bytes (m_rx_fifo t) = cl_recv t)"
proof -
  obtain s where s: "app_uart_init_fifo (Some ((Some [0, 0], 2), (Some [0, 0, 0, 0], 4))) True True sample_uart_fifo
      = Inr (NRF_SUCCESS, s)" "uf_inv s" "outgoing s = []" "incoming s = []"
    by (rule sample_uart_fifo_opened)
  from uart_fifo_streams [OF s(2), of sample_script
      "[Call (Put 1), Arrives 7, Sent, Call Get, Arrives 8, Line_Error 4, Arrives 9]"] show ?thesis
    using s(1,3,4) by (auto simp: outgoing_def incoming_def elim!: ok_mono simp del: for_each.simps)
qed

end
