(* ===== verification/Sha256.thy ===== *)
theory Sha256
  imports LibCommon
begin

text \<open>
  SHA-256, components/libraries/sha256/sha256.c: a context collects the message in a block of 64 bytes and
  compresses it into eight words whenever it is full; the last call pads the message and writes the hash.
\<close>

unbundle bit_operations_syntax

type_synonym u64 = "64 word"

record sha256_context_t =
  sc_data :: "u8 list"
  sc_datalen :: u32
  sc_bitlen :: u64
  sc_state :: "u32 list"

definition ROTRIGHT :: "u32 \<Rightarrow> nat \<Rightarrow> u32" where
  "ROTRIGHT a b = drop_bit b a OR push_bit (32 - b) a"

definition CH :: "u32 \<Rightarrow> u32 \<Rightarrow> u32 \<Rightarrow> u32" where
  "CH x y z = (x AND y) XOR (NOT x AND z)"

definition MAJ :: "u32 \<Rightarrow> u32 \<Rightarrow> u32 \<Rightarrow> u32" where
  "MAJ x y z = (x AND y) XOR (x AND z) XOR (y AND z)"

definition EP0 :: "u32 \<Rightarrow> u32" where "EP0 x = ROTRIGHT x 2 XOR ROTRIGHT x 13 XOR ROTRIGHT x 22"
definition EP1 :: "u32 \<Rightarrow> u32" where "EP1 x = ROTRIGHT x 6 XOR ROTRIGHT x 11 XOR ROTRIGHT x 25"
definition SIG0 :: "u32 \<Rightarrow> u32" where "SIG0 x = ROTRIGHT x 7 XOR ROTRIGHT x 18 XOR drop_bit 3 x"
definition SIG1 :: "u32 \<Rightarrow> u32" where "SIG1 x = ROTRIGHT x 17 XOR ROTRIGHT x 19 XOR drop_bit 10 x"

definition sha256_k :: "u32 list" where
  "sha256_k =
    0x428a2f98 # 0x71374491 # 0xb5c0fbcf # 0xe9b5dba5 # 0x3956c25b # 0x59f111f1 # 0x923f82a4 # 0xab1c5ed5 #
    0xd807aa98 # 0x12835b01 # 0x243185be # 0x550c7dc3 # 0x72be5d74 # 0x80deb1fe # 0x9bdc06a7 # 0xc19bf174 #
    0xe49b69c1 # 0xefbe4786 # 0x0fc19dc6 # 0x240ca1cc # 0x2de92c6f # 0x4a7484aa # 0x5cb0a9dc # 0x76f988da #
    0x983e5152 # 0xa831c66d # 0xb00327c8 # 0xbf597fc7 # 0xc6e00bf3 # 0xd5a79147 # 0x06ca6351 # 0x14292967 #
    0x27b70a85 # 0x2e1b2138 # 0x4d2c6dfc # 0x53380d13 # 0x650a7354 # 0x766a0abb # 0x81c2c92e # 0x92722c85 #
    0xa2bfe8a1 # 0xa81a664b # 0xc24b8b70 # 0xc76c51a3 # 0xd192e819 # 0xd6990624 # 0xf40e3585 # 0x106aa070 #
    0x19a4c116 # 0x1e376c08 # 0x2748774c # 0x34b0bcb5 # 0x391c0cb3 # 0x4ed8aa4a # 0x5b9cca4f # 0x682e6ff3 #
    0x748f82ee # 0x78a5636f # 0x84c87814 # 0x8cc70208 # 0x90befffa # 0xa4506ceb # 0xbef9a3f7 # 0xc67178f2 # []"

section \<open>One block\<close>

text \<open>The array \<open>m\<close> of the code is the list of the entries that have been set.\<close>

definition load_block :: "u8 list \<Rightarrow> u32 list" where
  "load_block data = map (\<lambda>i. let j = 4 * i in push_bit 24 (ucast (data ! j)) OR push_bit 16 (ucast (data ! (j + 1))) OR
     push_bit 8 (ucast (data ! (j + 2))) OR ucast (data ! (j + 3))) [0..<16]"

definition extend_block :: "nat \<Rightarrow> u32 list \<Rightarrow> u32 list" where
  "extend_block i m = m @ [SIG1 (m ! (i - 2)) + m ! (i - 7) + SIG0 (m ! (i - 15)) + m ! (i - 16)]"

type_synonym sha_vars = "u32 \<times> u32 \<times> u32 \<times> u32 \<times> u32 \<times> u32 \<times> u32 \<times> u32"

definition sha_round :: "u32 list \<Rightarrow> nat \<Rightarrow> sha_vars \<Rightarrow> sha_vars" where
  "sha_round m i v =
     (let (a, b, c, d, e, f, g, h) = v;
          t1 = h + EP1 e + CH e f g + sha256_k ! i + m ! i;
          t2 = EP0 a + MAJ a b c
      in (t1 + t2, a, b, c, d + t1, e, f, g))"

definition sha256_transform :: "sha256_context_t \<Rightarrow> u8 list \<Rightarrow> sha256_context_t result" where
  "sha256_transform ctx data =
     (if length data < 64 then Inl Out_Of_Bounds
      else
        let m = fold extend_block [16..<64] (load_block data); st = sc_state ctx;
            (a, b, c, d, e, f, g, h) =
              fold (sha_round m) [0..<64] (st ! 0, st ! 1, st ! 2, st ! 3, st ! 4, st ! 5, st ! 6, st ! 7)
        in Inr (ctx\<lparr>sc_state := [st ! 0 + a, st ! 1 + b, st ! 2 + c, st ! 3 + d,
                                 st ! 4 + e, st ! 5 + f, st ! 6 + g, st ! 7 + h]\<rparr>))"

section \<open>The interface\<close>

definition sha256_init :: "sha256_context_t option \<Rightarrow> ret_code \<times> sha256_context_t option" where
  "sha256_init ctx =
     (case ctx of
        None \<Rightarrow> (NRF_ERROR_NULL, None)
      | Some c \<Rightarrow> (NRF_SUCCESS, Some (c\<lparr>sc_datalen := 0, sc_bitlen := 0,
          sc_state := [0x6a09e667, 0xbb67ae85, 0x3c6ef372, 0xa54ff53a,
                       0x510e527f, 0x9b05688c, 0x1f83d9ab, 0x5be0cd19]\<rparr>)))"

definition update_byte :: "u8 list \<Rightarrow> nat \<Rightarrow> sha256_context_t \<Rightarrow> sha256_context_t result" where
  "update_byte data i ctx =
     then_do (load_at data i) (\<lambda>b.
     then_do (store_at (sc_data ctx) (unat (sc_datalen ctx)) b) (\<lambda>d.
     let c1 = ctx\<lparr>sc_data := d, sc_datalen := sc_datalen ctx + 1\<rparr> in
     if sc_datalen c1 = 64
     then then_do (sha256_transform c1 (sc_data c1)) (\<lambda>c2.
          Inr (c2\<lparr>sc_bitlen := sc_bitlen c2 + 512, sc_datalen := 0\<rparr>))
     else Inr c1))"

definition sha256_update ::
    "sha256_context_t option \<Rightarrow> u8 list option \<Rightarrow> u32 \<Rightarrow> (ret_code \<times> sha256_context_t option) result" where
  "sha256_update ctx data len =
     (case ctx of
        None \<Rightarrow> Inr (NRF_ERROR_NULL, None)
      | Some c \<Rightarrow>
          if 0 < len \<and> data = None then Inr (NRF_ERROR_NULL, Some c)
          else then_do (for_each (update_byte (case data of None \<Rightarrow> [] | Some d \<Rightarrow> d)) [0..<unat len] c) (\<lambda>c1.
               Inr (NRF_SUCCESS, Some c1)))"

text \<open>\<open>while (i < n) ctx->data[i++] = 0x00;\<close>\<close>

definition fill_zero :: "nat \<Rightarrow> nat \<Rightarrow> u8 list \<Rightarrow> u8 list result" where
  "fill_zero i n data = for_each (\<lambda>j d. store_at d j 0) [i..<n] data"

definition pad_block :: "sha256_context_t \<Rightarrow> sha256_context_t result" where
  "pad_block ctx =
     (let i = unat (sc_datalen ctx) in
      then_do (store_at (sc_data ctx) i 0x80) (\<lambda>d.
      if i < 56 then then_do (fill_zero (i + 1) 56 d) (\<lambda>d1. Inr (ctx\<lparr>sc_data := d1\<rparr>))
      else
        then_do (fill_zero (i + 1) 64 d) (\<lambda>d1.
        then_do (sha256_transform (ctx\<lparr>sc_data := d1\<rparr>) d1) (\<lambda>c1.
        Inr (c1\<lparr>sc_data := replicate 56 0 @ drop 56 (sc_data c1)\<rparr>)))))"

definition put_bitlen :: "sha256_context_t \<Rightarrow> sha256_context_t" where
  "put_bitlen ctx =
     (let n = sc_bitlen ctx + ucast (sc_datalen ctx) * 8
      in ctx\<lparr>sc_bitlen := n,
             sc_data := (sc_data ctx)[63 := ucast n, 62 := ucast (drop_bit 8 n), 61 := ucast (drop_bit 16 n),
               60 := ucast (drop_bit 24 n), 59 := ucast (drop_bit 32 n), 58 := ucast (drop_bit 40 n),
               57 := ucast (drop_bit 48 n), 56 := ucast (drop_bit 56 n)]\<rparr>)"

text \<open>Byte \<open>i\<close> of every word of the state; the words in reverse order for a little-endian hash.\<close>

definition put_hash :: "u32 list \<Rightarrow> bool \<Rightarrow> u8 list \<Rightarrow> u8 list result" where
  "put_hash st le hash =
     for_each (\<lambda>i. for_each (\<lambda>j h.
       store_at h (i + 4 * j)
         (if le then ucast (drop_bit (i * 8) (st ! (7 - j)) AND 0x000000ff)
          else ucast (drop_bit (24 - i * 8) (st ! j) AND 0x000000ff))) [0..<8]) [0..<4] hash"

definition sha256_final ::
    "sha256_context_t option \<Rightarrow> u8 list option \<Rightarrow> u8 \<Rightarrow>
     (ret_code \<times> sha256_context_t option \<times> u8 list option) result" where
  "sha256_final ctx hash le =
     (case (ctx, hash) of
        (Some c, Some h) \<Rightarrow>
          then_do (pad_block c) (\<lambda>c1.
          let c2 = put_bitlen c1 in
          then_do (sha256_transform c2 (sc_data c2)) (\<lambda>c3.
          then_do (put_hash (sc_state c3) (le \<noteq> 0) h) (\<lambda>h1.
          Inr (NRF_SUCCESS, Some c3, Some h1))))
      | _ \<Rightarrow> Inr (NRF_ERROR_NULL, ctx, hash))"

end
