(* ===== verification/Sha256Props.thy ===== *)
theory Sha256Props
  imports Sha256
begin

text \<open>
  The standard SHA-256 (FIPS 180-4), written from the standard: constants as roots of primes, the message schedule as a recursion, padding of
  the whole message; and the proof that the code's stream of updates computes it.
\<close>

unbundle bit_operations_syntax

section \<open>The standard\<close>

definition first_primes :: "nat list" where
  "first_primes = [
    2, 3, 5, 7, 11, 13, 17, 19, 23, 29, 31, 37, 41, 43, 47, 53,
    59, 61, 67, 71, 73, 79, 83, 89, 97, 101, 103, 107, 109, 113, 127, 131,
    137, 139, 149, 151, 157, 163, 167, 173, 179, 181, 191, 193, 197, 199, 211, 223,
    227, 229, 233, 239, 241, 251, 257, 263, 269, 271, 277, 281, 283, 293, 307, 311]"

text \<open>The first 32 bits of the fraction of the \<open>n\<close>-th root of \<open>p\<close>: the conversion to a word drops the integer part.\<close>

definition floor_root :: "nat \<Rightarrow> nat \<Rightarrow> nat" where
  "floor_root n x = (GREATEST r. r ^ n \<le> x)"

definition root_fraction :: "nat \<Rightarrow> nat \<Rightarrow> u32" where
  "root_fraction n p = of_nat (floor_root n (p * 2 ^ (32 * n)))"

definition std_K :: "nat \<Rightarrow> u32" where
  "std_K t = root_fraction 3 (first_primes ! t)"

definition std_H0 :: "u32 list" where
  "std_H0 = map (root_fraction 2) (take 8 first_primes)"

definition std_Ch :: "u32 \<Rightarrow> u32 \<Rightarrow> u32 \<Rightarrow> u32" where
  "std_Ch x y z = (x AND y) OR (NOT x AND z)"

definition std_Maj :: "u32 \<Rightarrow> u32 \<Rightarrow> u32 \<Rightarrow> u32" where
  "std_Maj x y z = (x AND y) OR (x AND z) OR (y AND z)"

definition std_Sigma0 :: "u32 \<Rightarrow> u32" where
  "std_Sigma0 x = word_rotr 2 x XOR word_rotr 13 x XOR word_rotr 22 x"

definition std_Sigma1 :: "u32 \<Rightarrow> u32" where
  "std_Sigma1 x = word_rotr 6 x XOR word_rotr 11 x XOR word_rotr 25 x"

definition std_sigma0 :: "u32 \<Rightarrow> u32" where
  "std_sigma0 x = word_rotr 7 x XOR word_rotr 18 x XOR drop_bit 3 x"

definition std_sigma1 :: "u32 \<Rightarrow> u32" where
  "std_sigma1 x = word_rotr 17 x XOR word_rotr 19 x XOR drop_bit 10 x"

text \<open>The \<open>t\<close>-th word of a block, most significant byte first, and the message schedule.\<close>

definition std_word :: "u8 list \<Rightarrow> nat \<Rightarrow> u32" where
  "std_word block t = fold (\<lambda>b w. 256 * w + ucast b) (take 4 (drop (4 * t) block)) 0"

fun std_W :: "u8 list \<Rightarrow> nat \<Rightarrow> u32" where
  "std_W block t =
     (if t < 16 then std_word block t
      else std_sigma1 (std_W block (t - 2)) + std_W block (t - 7) + std_sigma0 (std_W block (t - 15)) + std_W block (t - 16))"

declare std_W.simps [simp del]

primrec std_vars :: "u8 list \<Rightarrow> sha_vars \<Rightarrow> nat \<Rightarrow> sha_vars" where
  "std_vars block v 0 = v"
| "std_vars block v (Suc t) =
     (let (a, b, c, d, e, f, g, h) = std_vars block v t;
          T1 = h + std_Sigma1 e + std_Ch e f g + std_K t + std_W block t;
          T2 = std_Sigma0 a + std_Maj a b c
      in (T1 + T2, a, b, c, d + T1, e, f, g))"

definition vars_of :: "u32 list \<Rightarrow> sha_vars" where
  "vars_of H = (H ! 0, H ! 1, H ! 2, H ! 3, H ! 4, H ! 5, H ! 6, H ! 7)"

definition list_of_vars :: "sha_vars \<Rightarrow> u32 list" where
  "list_of_vars v = (case v of (a, b, c, d, e, f, g, h) \<Rightarrow> [a, b, c, d, e, f, g, h])"

definition std_compress :: "u32 list \<Rightarrow> u8 list \<Rightarrow> u32 list" where
  "std_compress H block = map2 (+) H (list_of_vars (std_vars block (vars_of H) 64))"

text \<open>The hash value after the whole blocks at the start of a message.\<close>

function std_blocks :: "u32 list \<Rightarrow> u8 list \<Rightarrow> u32 list" where
  "std_blocks H xs = (if length xs < 64 then H else std_blocks (std_compress H (take 64 xs)) (drop 64 xs))"
  by pat_completeness auto
termination by (relation "measure (\<lambda>(H, xs). length xs)") auto

declare std_blocks.simps [simp del]

text \<open>Bytes of a number, most significant first; the padding of a message of \<open>n\<close> bytes.\<close>

definition be_bytes :: "nat \<Rightarrow> nat \<Rightarrow> u8 list" where
  "be_bytes k n = map (\<lambda>i. of_nat (n div 256 ^ (k - 1 - i))) [0..<k]"

definition std_pad :: "nat \<Rightarrow> u8 list" where
  "std_pad n = 0x80 # replicate ((119 - n mod 64) mod 64) 0 @ be_bytes 8 (8 * n)"

definition std_sha256 :: "u8 list \<Rightarrow> u8 list" where
  "std_sha256 msg = concat (map (\<lambda>w. be_bytes 4 (unat w)) (std_blocks std_H0 (msg @ std_pad (length msg))))"

section \<open>Constants\<close>

lemma floor_rootI: "r ^ n \<le> x \<Longrightarrow> x < Suc r ^ n \<Longrightarrow> floor_root n x = r"
  unfolding floor_root_def
proof (rule Greatest_equality)
  fix y assume r: "r ^ n \<le> x" "x < Suc r ^ n" and y: "y ^ n \<le> x"
  then have "y ^ n < Suc r ^ n" by simp
  then show "y \<le> r" using power_less_imp_less_base [of y n "Suc r"] by simp
qed

lemma root_fractions:
  "list_all2 (\<lambda>p r. r ^ n \<le> p * 2 ^ (32 * n) \<and> p * 2 ^ (32 * n) < Suc r ^ n) ps rs \<Longrightarrow>
   map (root_fraction n) ps = map of_nat rs"
proof (induction rule: list_all2_induct)
  case (Cons p ps r rs)
  then have "floor_root n (p * 2 ^ (32 * n)) = r" by (intro floor_rootI) simp_all
  then show ?case using Cons.IH by (simp add: root_fraction_def)
qed simp

lemma std_H0_eq: "std_H0 = [0x6a09e667, 0xbb67ae85, 0x3c6ef372, 0xa54ff53a, 0x510e527f, 0x9b05688c, 0x1f83d9ab, 0x5be0cd19]"
proof -
  have "map (root_fraction 2) (take 8 first_primes) = map of_nat [
    6074000999, 7439101573, 9603838834, 11363415354,
    14244795007, 15485724812, 17708603819, 18721328409]"
    by (rule root_fractions) (simp add: first_primes_def)
  then show ?thesis by (simp add: std_H0_def)
qed

lemma std_K_eq:
  assumes "t < 64"
  shows "std_K t = sha256_k ! t"
proof -
  have "map (root_fraction 3) first_primes = map of_nat [
    5411319704, 6194414737, 7344290767, 8215976869,
    9551921755, 10098905585, 11043570340, 11460697813,
    12214315672, 13195500289, 13492127166, 14311783875,
    14809980276, 15046980094, 15499789991, 16133124468,
    16720292289, 16907126662, 17444216262, 17784676812,
    17950125167, 18429019306, 18734950876, 19175934170,
    19734090066, 20001703533, 20132865992, 20390182855,
    20516441075, 20764397895, 21588763473, 21813078375,
    22141143685, 22248366392, 22769593852, 22871018771,
    23170020180, 23461497531, 23651862830, 23931792517,
    24205322401, 24295138891, 24734567280, 24820601251,
    24990902297, 25075189284, 25569408389, 26045227120,
    26200031510, 26276752392, 26428864332, 26653801653,
    26727943347, 27092625994, 27306805839, 27517677555,
    27725365998, 27793908591, 27997534228, 28131656200,
    28198240250, 28526537963, 28973835255, 29099129074]"
    by (rule root_fractions) (simp add: first_primes_def)
  then have "map (root_fraction 3) first_primes = sha256_k" by (simp add: sha256_k_def)
  moreover have "length first_primes = 64" by (simp add: first_primes_def)
  ultimately show ?thesis using assms by (metis std_K_def nth_map)
qed

section \<open>One block\<close>

lemma ROTRIGHT_rotr: "b < 32 \<Longrightarrow> ROTRIGHT x b = word_rotr b x"
proof (rule bit_word_eqI)
  fix n assume n: "n < LENGTH(32)" and b: "b < 32"
  show "bit (ROTRIGHT x b) n = bit (word_rotr b x) n"
  proof (cases "n + b < 32")
    case True
    then have "\<not> 32 - b \<le> n" by simp
    then show ?thesis using n True by (simp add: ROTRIGHT_def bit_simps add.commute)
  next
    case False
    then have m: "(n + b) mod 32 = n + b - 32" "n - (32 - b) = n + b - 32" "32 - b \<le> n"
      using n b by (simp_all add: mod_if)
    have "\<not> bit x (n + b)" using False bit_imp_le_length [of x "n + b"] by auto
    then show ?thesis using n m by (simp add: ROTRIGHT_def bit_simps add.commute)
  qed
qed

lemma functions_agree:
  "EP0 = std_Sigma0" "EP1 = std_Sigma1" "SIG0 = std_sigma0" "SIG1 = std_sigma1" "CH = std_Ch" "MAJ = std_Maj"
proof -
  show "EP0 = std_Sigma0" "EP1 = std_Sigma1" "SIG0 = std_sigma0" "SIG1 = std_sigma1"
    by (simp_all add: fun_eq_iff EP0_def EP1_def SIG0_def SIG1_def std_Sigma0_def std_Sigma1_def std_sigma0_def
        std_sigma1_def ROTRIGHT_rotr)
  show "CH = std_Ch" "MAJ = std_Maj"
    by (auto simp: fun_eq_iff CH_def MAJ_def std_Ch_def std_Maj_def intro!: bit_word_eqI simp: bit_simps)
qed

lemma append_byte: "push_bit 8 x OR ucast (b :: u8) = 256 * x + (ucast b :: u32)"
proof -
  have "push_bit 8 x AND (ucast b :: u32) = 0"
    by (rule bit_word_eqI) (auto simp: bit_simps dest: bit_imp_le_length)
  then have "push_bit 8 x OR ucast b = push_bit 8 x + (ucast b :: u32)" by (simp add: disjunctive_add_eq_or)
  then show ?thesis by (simp add: push_bit_eq_mult)
qed

lemma load_block_nth:
  assumes "t < 16" and "64 \<le> length data"
  shows "load_block data ! t = std_word data t"
proof -
  have "take 4 (drop (4 * t) data) = map (\<lambda>i. data ! (4 * t + i)) [0..<4]"
    by (rule nth_equalityI) (use assms in auto)
  also have "\<dots> = [data ! (4 * t), data ! (4 * t + 1), data ! (4 * t + 2), data ! (4 * t + 3)]"
    by (simp add: upt_conv_Cons numeral_3_eq_3)
  finally have b: "take 4 (drop (4 * t) data) = [data ! (4 * t), data ! (4 * t + 1), data ! (4 * t + 2), data ! (4 * t + 3)]" .
  have "std_word data t = push_bit 8 (push_bit 8 (push_bit 8 (ucast (data ! (4 * t))) OR ucast (data ! (4 * t + 1)))
      OR ucast (data ! (4 * t + 2))) OR ucast (data ! (4 * t + 3))"
    unfolding std_word_def b by (simp add: append_byte)
  then show ?thesis using assms(1) by (simp add: load_block_def Let_def push_bit_or push_bit_push_bit or.assoc)
qed

lemma length_load_block [simp]: "length (load_block data) = 16"
  by (simp add: load_block_def)

lemma schedule:
  assumes "64 \<le> length data" and "16 \<le> n"
  shows "length (fold extend_block [16..<n] (load_block data)) = n \<and>
    (\<forall>t<n. fold extend_block [16..<n] (load_block data) ! t = std_W data t)"
  using assms(2)
proof (induction n rule: nat_induct_at_least)
  case base
  then show ?case using assms(1) by (simp add: load_block_nth std_W.simps)
next
  case (Suc n)
  let ?m = "fold extend_block [16..<n] (load_block data)"
  have e: "fold extend_block [16..<Suc n] (load_block data) = extend_block n ?m" using Suc.hyps by simp
  have "SIG1 (?m ! (n - 2)) + ?m ! (n - 7) + SIG0 (?m ! (n - 15)) + ?m ! (n - 16) = std_W data n"
    using Suc by (subst std_W.simps) (simp add: functions_agree)
  then have "extend_block n ?m = ?m @ [std_W data n]" by (simp add: extend_block_def)
  then show ?case
    unfolding e using Suc.IH by (auto simp: nth_append less_Suc_eq)
qed

lemma rounds:
  assumes "64 \<le> length data" and "n \<le> 64"
  shows "fold (sha_round (fold extend_block [16..<64] (load_block data))) [0..<n] v = std_vars data v n"
  using assms(2)
proof (induction n)
  case (Suc n)
  then show ?case
    using schedule [OF assms(1), of 64] by (simp add: sha_round_def functions_agree std_K_eq)
qed simp

lemma std_W_take: "std_W (take 64 d) t = std_W d t"
proof (induction d t rule: std_W.induct)
  case (1 d t)
  show ?case
  proof (cases "t < 16")
    case True
    then have "take 4 (drop (4 * t) (take 64 d)) = take 4 (drop (4 * t) d)" by (simp add: drop_take min_def)
    then show ?thesis using True by (simp add: std_W.simps std_word_def)
  next
    case False
    then show ?thesis using 1 by (subst (1 2) std_W.simps) simp
  qed
qed

lemma std_vars_take: "std_vars (take 64 d) v n = std_vars d v n"
  by (induction n) (simp_all add: std_W_take)

lemma compress_take: "std_compress H (take 64 d) = std_compress H d"
  by (simp add: std_compress_def std_vars_take)

lemma eight_words: "length H = 8 \<Longrightarrow> H = [H ! 0, H ! 1, H ! 2, H ! 3, H ! 4, H ! 5, H ! 6, H ! 7]"
  by (rule nth_equalityI) (auto simp: less_Suc_eq eval_nat_numeral)

lemma transform_std:
  assumes "64 \<le> length d" and "length (sc_state ctx) = 8"
  shows "sha256_transform ctx d = Inr (ctx\<lparr>sc_state := std_compress (sc_state ctx) d\<rparr>)"
proof -
  obtain a b c d' e f g h where v: "std_vars d (vars_of (sc_state ctx)) 64 = (a, b, c, d', e, f, g, h)"
    by (metis surj_pair)
  then have "std_compress (sc_state ctx) d = map2 (+) (sc_state ctx) [a, b, c, d', e, f, g, h]"
    by (simp add: std_compress_def list_of_vars_def)
  also have "\<dots> = [sc_state ctx ! 0 + a, sc_state ctx ! 1 + b, sc_state ctx ! 2 + c, sc_state ctx ! 3 + d',
      sc_state ctx ! 4 + e, sc_state ctx ! 5 + f, sc_state ctx ! 6 + g, sc_state ctx ! 7 + h]"
    by (subst eight_words [OF assms(2)]) simp
  finally show ?thesis
    using assms(1) v rounds [OF assms(1) order_refl, of "vars_of (sc_state ctx)"]
    by (simp add: sha256_transform_def vars_of_def Let_def)
qed

lemma length_compress [simp]: "length H = 8 \<Longrightarrow> length (std_compress H d) = 8"
  by (simp add: std_compress_def list_of_vars_def split: prod.split)

section \<open>A stream of bytes\<close>

lemma std_blocks_append:
  "64 dvd length xs \<Longrightarrow> std_blocks H (xs @ ys) = std_blocks (std_blocks H xs) ys"
proof (induction H xs rule: std_blocks.induct)
  case (1 H xs)
  show ?case
  proof (cases "length xs < 64")
    case True
    then have "xs = []" using 1(2) by (auto dest: dvd_imp_le)
    then show ?thesis by (simp add: std_blocks.simps)
  next
    case False
    then have "64 dvd length (drop 64 xs)" using 1(2) by (simp add: dvd_diff_nat)
    moreover have "std_blocks H (xs @ ys) = std_blocks (std_compress H (take 64 xs)) (drop 64 xs @ ys)"
      "std_blocks H xs = std_blocks (std_compress H (take 64 xs)) (drop 64 xs)"
      using False by (simp_all add: std_blocks.simps [of H])
    ultimately show ?thesis using False 1(1) by simp
  qed
qed

lemma std_blocks_short: "length ys < 64 \<Longrightarrow> 64 dvd length xs \<Longrightarrow> std_blocks H (xs @ ys) = std_blocks H xs"
  by (simp add: std_blocks_append std_blocks.simps [of _ ys])

lemma std_blocks_one: "length ys = 64 \<Longrightarrow> 64 dvd length xs \<Longrightarrow>
    std_blocks H (xs @ ys) = std_compress (std_blocks H xs) ys"
  by (simp add: std_blocks_append std_blocks.simps [of _ ys] std_blocks.simps [of _ "[]"])

lemma length_std_blocks [simp]: "length H = 8 \<Longrightarrow> length (std_blocks H xs) = 8"
  by (induction H xs rule: std_blocks.induct) (subst std_blocks.simps, simp)

text \<open>\<open>xs\<close> has been fed to the context: whole blocks are in the hash value, the rest in the block.\<close>

definition fed :: "u8 list \<Rightarrow> sha256_context_t \<Rightarrow> bool" where
  "fed xs c \<longleftrightarrow> (\<exists>bs r. xs = bs @ r \<and> 64 dvd length bs \<and> length r < 64 \<and> length (sc_data c) = 64 \<and>
     unat (sc_datalen c) = length r \<and> take (length r) (sc_data c) = r \<and>
     sc_bitlen c = of_nat (8 * length bs) \<and> sc_state c = std_blocks std_H0 bs)"

lemma fedI:
  "xs = bs @ r \<Longrightarrow> 64 dvd length bs \<Longrightarrow> length r < 64 \<Longrightarrow> length (sc_data c) = 64 \<Longrightarrow>
   unat (sc_datalen c) = length r \<Longrightarrow> take (length r) (sc_data c) = r \<Longrightarrow> sc_bitlen c = of_nat (8 * length bs) \<Longrightarrow>
   sc_state c = std_blocks std_H0 bs \<Longrightarrow> fed xs c"
  by (auto simp: fed_def)

lemma length_std_H0 [simp]: "length std_H0 = 8"
  by (simp add: std_H0_eq)

lemma fed_init: "length (sc_data c) = 64 \<Longrightarrow> \<exists>c'. sha256_init (Some c) = (NRF_SUCCESS, Some c') \<and> fed [] c'"
  by (auto simp: sha256_init_def fed_def std_H0_eq std_blocks.simps)

lemma fed_byte:
  assumes "fed xs c" and "i < length data"
  shows "ok (update_byte data i c) (fed (xs @ [data ! i]))"
proof -
  obtain bs r where f: "xs = bs @ r" "64 dvd length bs" "length r < 64" "length (sc_data c) = 64"
      "unat (sc_datalen c) = length r" "take (length r) (sc_data c) = r"
      "sc_bitlen c = of_nat (8 * length bs)" "sc_state c = std_blocks std_H0 bs"
    using assms(1) by (auto simp: fed_def)
  let ?b = "data ! i" and ?d = "(sc_data c)[length r := data ! i]"
  have n: "unat (sc_datalen c + 1) = length r + 1"
    using f(3,5) by (simp add: unat_word_ariths)
  have d: "take (length r + 1) ?d = r @ [?b]" using f(3,4,6) by (simp add: take_Suc_conv_app_nth)
  have e: "sc_datalen c + 1 = 64 \<longleftrightarrow> length r + 1 = 64"
    using n by (simp add: word_eq_iff_unsigned [where 'a = nat])
  show ?thesis
  proof (cases "length r + 1 = 64")
    case True
    then have l: "length (r @ [?b]) = 64" "?d = r @ [?b]" using d f(4) by simp_all
    then have "std_compress (std_blocks std_H0 bs) ?d = std_blocks std_H0 (bs @ r @ [?b])"
      using std_blocks_one [OF l(1) f(2), of std_H0] by simp
    moreover have "length (bs @ r @ [?b]) = length bs + 64" using l(1) by simp
    ultimately have "fed (xs @ [?b]) (c\<lparr>sc_data := ?d, sc_state := std_compress (std_blocks std_H0 bs) ?d,
        sc_bitlen := sc_bitlen c + 512, sc_datalen := 0\<rparr>)"
      using f by (intro fedI [of _ "bs @ r @ [?b]" "[]"]) simp_all
    then show ?thesis
      using f assms(2) e True by (simp add: update_byte_def transform_std Let_def)
  next
    case False
    then have "fed (xs @ [?b]) (c\<lparr>sc_data := ?d, sc_datalen := sc_datalen c + 1\<rparr>)"
      using f n d by (intro fedI [of _ bs "r @ [?b]"]) simp_all
    then show ?thesis
      using f(3-5) assms(2) e False by (simp add: update_byte_def Let_def)
  qed
qed

lemma update_fed:
  assumes "fed xs c" and "unat len \<le> length data"
  shows "ok (sha256_update (Some c) (Some data) len) (\<lambda>(r, c'). r = NRF_SUCCESS \<and>
    (\<exists>d. c' = Some d \<and> fed (xs @ take (unat len) data) d))"
proof -
  have "ok (for_each (update_byte data) [0..<unat len] c) (fed (xs @ take (unat len) data))"
  proof (rule for_each_upt)
    fix i t assume "i < unat len" "fed (xs @ take i data) t"
    then show "ok (update_byte data i t) (fed (xs @ take (Suc i) data))"
      using fed_byte [of "xs @ take i data" t i data] assms(2) by (simp add: take_Suc_conv_app_nth)
  qed (use assms(1) in simp)
  then show ?thesis by (auto simp: sha256_update_def elim!: ok_mono)
qed

section \<open>Padding\<close>

lemma fill_zero_ok: "i \<le> n \<Longrightarrow> n \<le> length d \<Longrightarrow> ok (fill_zero i n d) (\<lambda>d'. d' = take i d @ replicate (n - i) 0 @ drop n d)"
proof (induction n rule: dec_induct)
  case base
  then show ?case by (simp add: fill_zero_def)
next
  case (step n)
  then obtain d' where d': "for_each (\<lambda>j d. store_at d j 0) [i..<n] d = Inr d'" "d' = take i d @ replicate (n - i) 0 @ drop n d"
    by (auto simp: fill_zero_def ok_iff)
  have "drop n d = d ! n # drop (Suc n) d" using step by (simp add: Cons_nth_drop_Suc)
  then have "d'[n := 0] = take i d @ replicate (Suc n - i) 0 @ drop (Suc n) d"
    using step by (simp add: d'(2) list_update_append Suc_diff_le replicate_app_Cons_same)
  then show ?case using step d' by (simp add: fill_zero_def for_each_append)
qed

lemma byte_of_nat: "j < 8 \<Longrightarrow> (ucast (drop_bit (8 * j) (of_nat N :: u64)) :: u8) = of_nat (N div 256 ^ j)"
proof (rule bit_word_eqI)
  fix n assume n: "n < LENGTH(8)" and j: "j < 8"
  have "N div 256 ^ j = drop_bit (8 * j) N" by (simp add: drop_bit_eq_div power_mult)
  then show "bit (ucast (drop_bit (8 * j) (of_nat N :: u64)) :: u8) n = bit (of_nat (N div 256 ^ j) :: u8) n"
    using n j by (simp add: bit_simps)
qed

lemma be_bytes_8: "be_bytes 8 N = [of_nat (N div 256 ^ 7), of_nat (N div 256 ^ 6), of_nat (N div 256 ^ 5),
    of_nat (N div 256 ^ 4), of_nat (N div 256 ^ 3), of_nat (N div 256 ^ 2), of_nat (N div 256 ^ 1), of_nat (N div 256 ^ 0)]"
  by (simp add: be_bytes_def upt_conv_Cons)

lemma put_bitlen_data:
  assumes "length (sc_data c) = 64" and "sc_bitlen c + ucast (sc_datalen c) * 8 = of_nat N"
  shows "sc_data (put_bitlen c) = take 56 (sc_data c) @ be_bytes 8 N"
proof -
  define A where "A = take 56 (sc_data c)"
  have A: "length A = 56" using assms(1) by (simp add: A_def)
  have "length (drop 56 (sc_data c)) = 8" using assms(1) by simp
  from eight_words [OF this] obtain x0 x1 x2 x3 x4 x5 x6 x7 where
    "drop 56 (sc_data c) = [x0, x1, x2, x3, x4, x5, x6, x7]" by blast
  then have d: "sc_data c = A @ [x0, x1, x2, x3, x4, x5, x6, x7]" by (metis A_def append_take_drop_id)
  show ?thesis
    using byte_of_nat [of 0 N] byte_of_nat [of 1 N] byte_of_nat [of 2 N] byte_of_nat [of 3 N] byte_of_nat [of 4 N]
      byte_of_nat [of 5 N] byte_of_nat [of 6 N] byte_of_nat [of 7 N]
    by (simp add: put_bitlen_def Let_def assms(2) d A list_update_append be_bytes_8 del: of_nat_mult)
qed

lemma pad_fed:
  assumes "fed msg c"
  shows "ok (pad_block c) (\<lambda>c1. \<exists>bs. 64 dvd length bs \<and> length (sc_data c1) = 64 \<and>
    sc_bitlen c1 + ucast (sc_datalen c1) * 8 = of_nat (8 * length msg) \<and> sc_state c1 = std_blocks std_H0 bs \<and>
    msg @ std_pad (length msg) = bs @ take 56 (sc_data c1) @ be_bytes 8 (8 * length msg))"
proof -
  obtain bs r where f: "msg = bs @ r" "64 dvd length bs" "length r < 64" "length (sc_data c) = 64"
      "unat (sc_datalen c) = length r" "take (length r) (sc_data c) = r"
      "sc_bitlen c = of_nat (8 * length bs)" "sc_state c = std_blocks std_H0 bs"
    using assms by (auto simp: fed_def)
  let ?d = "(sc_data c)[length r := 0x80]"
  have "ucast (sc_datalen c) = (of_nat (length r) :: u64)"
    using f(5) by (metis of_nat_unat)
  then have n: "sc_bitlen c + ucast (sc_datalen c) * 8 = of_nat (8 * length msg)"
    by (simp add: f(1,7) algebra_simps)
  have m: "length msg mod 64 = length r" using f(2,3) by (auto simp: f(1) elim!: dvdE)
  have t: "take (length r + 1) ?d = r @ [0x80]" using f(3,4,6) by (simp add: take_Suc_conv_app_nth)
  show ?thesis
  proof (cases "length r < 56")
    case True
    then have z: "(119 - length r) mod 64 = 56 - (length r + 1)" by (simp add: mod_if)
    from fill_zero_ok [of "length r + 1" 56 ?d] True f(4)
    obtain d1 where d1: "fill_zero (length r + 1) 56 ?d = Inr d1"
        "d1 = r @ [0x80] @ replicate (56 - (length r + 1)) 0 @ drop 56 ?d"
      by (auto simp: ok_iff t [simplified])
    define A where "A = r @ [0x80] @ replicate (56 - (length r + 1)) (0 :: u8)"
    have "length A = 56" "d1 = A @ drop 56 ?d" using True by (simp_all add: A_def d1(2))
    then have "take 56 d1 = A" "length d1 = 64" using f(4) by simp_all
    then have "msg @ std_pad (length msg) = bs @ take 56 d1 @ be_bytes 8 (8 * length msg)"
      unfolding std_pad_def m z by (simp add: f(1) A_def)
    then show ?thesis
      using True f(2,4,5,8) d1(1) n \<open>length d1 = 64\<close> by (auto simp: pad_block_def Let_def)
  next
    case False
    then have z: "(119 - length r) mod 64 = (64 - (length r + 1)) + 56" using f(3) by (simp add: mod_if)
    from fill_zero_ok [of "length r + 1" 64 ?d] f(3,4)
    obtain d1 where d1: "fill_zero (length r + 1) 64 ?d = Inr d1"
        "d1 = r @ [0x80] @ replicate (64 - (length r + 1)) 0"
      by (auto simp: ok_iff t [simplified])
    have l: "length d1 = 64" using f(3) by (simp add: d1(2))
    have "msg @ std_pad (length msg) = (bs @ d1) @ replicate 56 0 @ be_bytes 8 (8 * length msg)"
      unfolding std_pad_def m z replicate_add by (simp add: d1(2) f(1))
    moreover have "std_compress (std_blocks std_H0 bs) d1 = std_blocks std_H0 (bs @ d1)"
      using std_blocks_one [OF l f(2)] by simp
    moreover have "64 dvd length (bs @ d1)" using f(2) l by simp
    ultimately show ?thesis
      using False f(3-5,8) d1(1) n l
      by (auto simp: pad_block_def Let_def transform_std intro!: exI [of _ "bs @ d1"])
  qed
qed

section \<open>The hash\<close>

text \<open>Two nested loops of stores at \<open>i + m * j\<close> fill the first \<open>m * n\<close> entries.\<close>

lemma store_grid:
  assumes "m * n \<le> length h"
  shows "ok (for_each (\<lambda>i. for_each (\<lambda>j h. store_at h (i + m * j) (F i j)) [0..<n]) [0..<m] h)
    (\<lambda>h'. h' = map (\<lambda>p. F (p mod m) (p div m)) [0..<m * n] @ drop (m * n) h)"
proof -
  define good where "good S h' \<longleftrightarrow> length h' = length h \<and>
    (\<forall>p < length h. h' ! p = (if p < m * n \<and> S p then F (p mod m) (p div m) else h ! p))" for S h'
  have step: "good (\<lambda>p. S p \<or> p = i + m * j) (h'[i + m * j := F i j])"
    if "good S h'" "i < m" "j < n" for S h' i j
  proof -
    have "(i + m * j) mod m = i" "(i + m * j) div m = j" using that(2) by simp_all
    moreover have "i + m * j < m * n"
    proof -
      have "i + m * j < m * Suc j" using that(2) by simp
      also have "\<dots> \<le> m * n" using that(3) by (intro mult_le_mono2) simp
      finally show ?thesis .
    qed
    ultimately show ?thesis using that(1) assms by (auto simp: good_def nth_list_update)
  qed
  have cong: "good S' h'" if "good S h'" "\<And>p. p < m * n \<Longrightarrow> S' p = S p" for S S' h'
    using that by (auto simp: good_def)
  have inner: "ok (for_each (\<lambda>j h. store_at h (i + m * j) (F i j)) [0..<n] h') (good (\<lambda>p. p mod m < Suc i))"
    if h: "good (\<lambda>p. p mod m < i) h'" "i < m" for i h'
  proof -
    let ?I = "\<lambda>k. good (\<lambda>p. p mod m < i \<or> p mod m = i \<and> p div m < k)"
    have "ok (for_each (\<lambda>j h. store_at h (i + m * j) (F i j)) [0..<n] h') (?I n)"
    proof (rule for_each_upt)
      show "?I 0 h'" using h(1) by simp
      fix k t assume k: "k < n" "?I k t"
      have "p = i + m * k \<longleftrightarrow> p mod m = i \<and> p div m = k" for p using h(2) by auto
      then have "?I (Suc k) (t[i + m * k := F i k])"
        by (intro cong [OF step [OF k(2) h(2) k(1)]]) (auto simp: less_Suc_eq)
      moreover have "i + m * k < length t"
      proof -
        have "i + m * k < m * Suc k" using h(2) by simp
        also have "\<dots> \<le> m * n" using k(1) by (intro mult_le_mono2) simp
        finally show ?thesis using assms k(2) by (simp add: good_def)
      qed
      ultimately show "ok (store_at t (i + m * k) (F i k)) (?I (Suc k))" by simp
    qed
    moreover have "p div m < n" if "p < m * n" for p using that h(2) by (simp add: less_mult_imp_div_less mult.commute)
    ultimately show ?thesis by (auto elim!: ok_mono cong simp: less_Suc_eq)
  qed
  have "ok (for_each (\<lambda>i. for_each (\<lambda>j h. store_at h (i + m * j) (F i j)) [0..<n]) [0..<m] h) (good (\<lambda>p. p mod m < m))"
    by (rule for_each_upt [where I = "\<lambda>i. good (\<lambda>p. p mod m < i)"]) (auto simp: good_def inner)
  moreover have "h' = map (\<lambda>p. F (p mod m) (p div m)) [0..<m * n] @ drop (m * n) h" if "good (\<lambda>p. p mod m < m) h'" for h'
  proof (rule nth_equalityI)
    show "length h' = length (map (\<lambda>p. F (p mod m) (p div m)) [0..<m * n] @ drop (m * n) h)"
      using that assms by (simp add: good_def)
    fix p assume "p < length h'"
    then show "h' ! p = (map (\<lambda>p. F (p mod m) (p div m)) [0..<m * n] @ drop (m * n) h) ! p"
      using that assms by (cases "m = 0") (auto simp: good_def nth_append)
  qed
  ultimately show ?thesis by (auto elim!: ok_mono)
qed

lemma high_byte: "i < 4 \<Longrightarrow> (ucast (drop_bit (24 - i * 8) (w :: u32) AND 0x000000ff) :: u8) = of_nat (unat w div 256 ^ (3 - i))"
proof -
  assume i: "i < 4"
  have "24 - i * 8 = 8 * (3 - i)" by simp
  then have "unat w div 256 ^ (3 - i) = drop_bit (24 - i * 8) (unat w)" by (simp add: drop_bit_eq_div power_mult)
  moreover have m: "(0x000000ff :: u32) = mask 8" by (simp add: mask_eq_exp_minus_1)
  ultimately show ?thesis
    unfolding m by (intro bit_word_eqI) (simp add: bit_simps)
qed

text \<open>The hash is the words of the state, or the reverse.\<close>

lemma put_hash_ok:
  assumes "length st = 8" and "32 \<le> length h"
  shows "ok (put_hash st le h) (\<lambda>h'. h' =
    (if le then rev else id) (concat (map (\<lambda>w. be_bytes 4 (unat w)) st)) @ drop 32 h)"
proof -
  let ?B = "\<lambda>i w. of_nat (unat w div 256 ^ (3 - i)) :: u8"
  have low: "i < 4 \<Longrightarrow> ucast (drop_bit (i * 8) w AND 0x000000ff) = ?B (3 - i) w" for i and w :: u32
    using high_byte [of "3 - i" w] by (simp add: diff_mult_distrib)
  have digest: "concat (map (\<lambda>w. be_bytes 4 (unat w)) st) = map (\<lambda>p. ?B (p mod 4) (st ! (p div 4))) [0..<32]"
    by (subst eight_words [OF assms(1)]) (simp add: be_bytes_def upt_conv_Cons)
  have rev: "rev (concat (map (\<lambda>w. be_bytes 4 (unat w)) st))
      = map (\<lambda>p. ?B (3 - p mod 4) (st ! (7 - p div 4))) [0..<32]"
    unfolding digest by (simp add: upt_conv_Cons)
  have "ok (put_hash st le h) (\<lambda>h'. h' = map (\<lambda>p. if le then ucast (drop_bit (p mod 4 * 8) (st ! (7 - p div 4)) AND 0x000000ff)
      else ucast (drop_bit (24 - p mod 4 * 8) (st ! (p div 4)) AND 0x000000ff)) [0..<4 * 8] @ drop (4 * 8) h)"
    unfolding put_hash_def by (rule store_grid) (use assms(2) in simp)
  moreover have "map (\<lambda>p. if le then ucast (drop_bit (p mod 4 * 8) (st ! (7 - p div 4)) AND 0x000000ff)
      else ucast (drop_bit (24 - p mod 4 * 8) (st ! (p div 4)) AND 0x000000ff)) [0..<4 * 8]
    = (if le then rev else id) (concat (map (\<lambda>w. be_bytes 4 (unat w)) st))"
  proof (cases le)
    case True
    then show ?thesis unfolding if_P [OF True] rev by (simp add: low)
  next
    case False
    then show ?thesis unfolding if_not_P [OF False] id_apply digest by (simp add: high_byte)
  qed
  ultimately show ?thesis by simp
qed

lemma final_std:
  assumes "fed msg c" and "32 \<le> length h"
  shows "ok (sha256_final (Some c) (Some h) le) (\<lambda>(r, c', h'). r = NRF_SUCCESS \<and>
    h' = Some ((if le \<noteq> 0 then rev else id) (std_sha256 msg) @ drop 32 h))"
proof -
  obtain c1 bs where c1: "pad_block c = Inr c1" "64 dvd length bs" "length (sc_data c1) = 64"
      "sc_bitlen c1 + ucast (sc_datalen c1) * 8 = of_nat (8 * length msg)" "sc_state c1 = std_blocks std_H0 bs"
      "msg @ std_pad (length msg) = bs @ take 56 (sc_data c1) @ be_bytes 8 (8 * length msg)"
    using pad_fed [OF assms(1)] by (auto simp: ok_iff)
  let ?c2 = "put_bitlen c1"
  have d: "sc_data ?c2 = take 56 (sc_data c1) @ be_bytes 8 (8 * length msg)" by (rule put_bitlen_data [OF c1(3,4)])
  have l: "length (sc_data ?c2) = 64" using c1(3) by (simp add: put_bitlen_def Let_def)
  have st: "sc_state ?c2 = std_blocks std_H0 bs" using c1(5) by (simp add: put_bitlen_def Let_def)
  have "std_compress (std_blocks std_H0 bs) (sc_data ?c2) = std_blocks std_H0 (msg @ std_pad (length msg))"
    using std_blocks_one [OF l c1(2), of std_H0] by (simp add: c1(6) d)
  then have t: "sha256_transform ?c2 (sc_data ?c2)
      = Inr (?c2\<lparr>sc_state := std_blocks std_H0 (msg @ std_pad (length msg))\<rparr>)"
    using transform_std [of "sc_data ?c2" ?c2] l st by simp
  show ?thesis
    using put_hash_ok [of "std_blocks std_H0 (msg @ std_pad (length msg))" h "le \<noteq> 0"] assms(2)
    by (auto simp: sha256_final_def Let_def c1(1) t std_sha256_def elim!: ok_mono)
qed

text \<open>Initialisation, any number of updates, and the hash.\<close>

definition sha256_run :: "sha256_context_t \<Rightarrow> u8 list list \<Rightarrow> u8 list \<Rightarrow> u8 \<Rightarrow>
    (ret_code \<times> sha256_context_t option \<times> u8 list option) result" where
  "sha256_run c chunks hash le =
     (let (r, c0) = sha256_init (Some c)
      in then_do (for_each (\<lambda>d c. ignore_code (sha256_update c (Some d) (of_nat (length d)))) chunks c0) (\<lambda>c1.
         sha256_final c1 (Some hash) le))"

lemma updates_fed:
  "fed xs c \<Longrightarrow> \<forall>d \<in> set chunks. length d < 2 ^ 32 \<Longrightarrow>
   ok (for_each (\<lambda>d c. ignore_code (sha256_update c (Some d) (of_nat (length d)))) chunks (Some c))
     (\<lambda>c'. \<exists>e. c' = Some e \<and> fed (xs @ concat chunks) e)"
proof (induction chunks arbitrary: xs c)
  case (Cons d chunks)
  have l: "unat (of_nat (length d) :: u32) = length d" using Cons.prems(2) by (simp add: unat_of_nat_u32)
  from update_fed [OF Cons.prems(1), of "of_nat (length d)" d]
  obtain e where e: "sha256_update (Some c) (Some d) (of_nat (length d)) = Inr (NRF_SUCCESS, Some e)" "fed (xs @ d) e"
    by (auto simp: l ok_iff)
  then show ?case using Cons.IH [OF e(2)] Cons.prems(2) by (simp add: ignore_code_def)
qed simp

text \<open>
  C27. The code computes SHA-256 as the standard (FIPS 180-4) defines it, on the whole message with its padding, however the message is cut into
  pieces for the updates; with \<open>le\<close> the bytes of the hash are in reverse order. Nothing behind the 32 bytes is written.
\<close>

theorem sha256_standard:
  assumes "length (sc_data c) = 64" and "32 \<le> length hash" and "\<forall>d \<in> set chunks. length d < 2 ^ 32"
  shows "ok (sha256_run c chunks hash le) (\<lambda>(r, c', hash'). r = NRF_SUCCESS \<and>
    hash' = Some ((if le \<noteq> 0 then rev else id) (std_sha256 (concat chunks)) @ drop 32 hash))"
proof -
  obtain c0 where c0: "sha256_init (Some c) = (NRF_SUCCESS, Some c0)" "fed [] c0" using fed_init [OF assms(1)] by blast
  obtain e where e: "for_each (\<lambda>d c. ignore_code (sha256_update c (Some d) (of_nat (length d)))) chunks (Some c0) = Inr (Some e)"
      "fed (concat chunks) e"
    using updates_fed [OF c0(2) assms(3)] by (auto simp: ok_iff)
  show ?thesis using final_std [OF e(2) assms(2)] by (simp add: sha256_run_def c0(1) e(1))
qed

text \<open>A context that has been used before, and the message abc in two pieces.\<close>

definition sample_sha :: sha256_context_t where
  "sample_sha = \<lparr>sc_data = replicate 64 7, sc_datalen = 5, sc_bitlen = 512, sc_state = replicate 8 1\<rparr>"

theorem sha256_standard_witness:
  "ok (sha256_run sample_sha [[0x61], [0x62, 0x63]] (replicate 33 7) 1) (\<lambda>(r, c', hash'). r = NRF_SUCCESS \<and>
    hash' = Some (rev (std_sha256 [0x61, 0x62, 0x63]) @ [7]))"
  using sha256_standard [of sample_sha "replicate 33 7" "[[0x61], [0x62, 0x63]]" 1] by (simp add: sample_sha_def)

end
