(* ===== verification/AppScheduler.thy ===== *)
theory AppScheduler
  imports LibCommon
begin

text \<open>
  The event scheduler components/libraries/scheduler/app_scheduler.c, with profiler and pause. The
  queue is the two arrays that the caller's buffer is split into, one of headers and one of event data, of
  \<open>m_queue_size + 1\<close> slots each. Handlers are numbers; what they do is a parameter, a function on the whole state, of
  which the scheduler is the fixed part of an extensible record.

  The indices have 8 bits, so that the queue works as a queue of \<open>m_queue_size\<close> events up to size 255 (\<open>sched_ok\<close>).
\<close>

section \<open>State and operations\<close>

record event_header_t =
  eh_handler :: nat
  event_data_size :: u16

record app_sched =
  m_queue_event_headers :: "event_header_t list"
  m_queue_event_data :: "u8 list"
  m_queue_start_index :: u8
  m_queue_end_index :: u8
  m_queue_event_size :: u16
  m_queue_size :: u16
  m_max_queue_utilization :: u16
  m_scheduler_paused_counter :: u32

definition next_index :: "'m app_sched_scheme \<Rightarrow> u8 \<Rightarrow> u8" where
  "next_index s index = (if ucast index < m_queue_size s then index + 1 else 0)"

definition app_sched_queue_full :: "'m app_sched_scheme \<Rightarrow> bool" where
  "app_sched_queue_full s \<longleftrightarrow> next_index s (m_queue_end_index s) = m_queue_start_index s"

definition app_sched_queue_empty :: "'m app_sched_scheme \<Rightarrow> bool" where
  "app_sched_queue_empty s \<longleftrightarrow> m_queue_end_index s = m_queue_start_index s"

definition app_sched_init ::
    "u16 \<Rightarrow> u16 \<Rightarrow> bool \<Rightarrow> event_header_t list \<Rightarrow> u8 list \<Rightarrow> 'm app_sched_scheme \<Rightarrow> ret_code \<times> 'm app_sched_scheme" where
  "app_sched_init event_size queue_size word_aligned headers data s =
     (if \<not> word_aligned then (NRF_ERROR_INVALID_PARAM, s)
      else (NRF_SUCCESS, s\<lparr>m_queue_event_headers := headers, m_queue_event_data := data, m_queue_end_index := 0,
        m_queue_start_index := 0, m_queue_event_size := event_size, m_queue_size := queue_size,
        m_max_queue_utilization := 0\<rparr>))"

definition queue_utilization :: "'m app_sched_scheme \<Rightarrow> u16" where
  "queue_utilization s =
     (let start = ucast (m_queue_start_index s); end = ucast (m_queue_end_index s)
      in if end \<ge> start then end - start else m_queue_size s + 1 - start + end)"

definition app_sched_queue_space_get :: "'m app_sched_scheme \<Rightarrow> u16" where
  "app_sched_queue_space_get s =
     (let start = ucast (m_queue_start_index s); end = ucast (m_queue_end_index s)
      in m_queue_size s - (if end \<ge> start then end - start else m_queue_size s + 1 - start + end))"

definition queue_utilization_check :: "'m app_sched_scheme \<Rightarrow> 'm app_sched_scheme" where
  "queue_utilization_check s =
     (if queue_utilization s > m_max_queue_utilization s
      then s\<lparr>m_max_queue_utilization := queue_utilization s\<rparr> else s)"

definition app_sched_queue_utilization_get :: "'m app_sched_scheme \<Rightarrow> u16" where
  "app_sched_queue_utilization_get s = m_max_queue_utilization s"

text \<open>The part of \<open>app_sched_event_put\<close> after the critical region: the slot is filled.\<close>

definition store_event ::
    "nat \<Rightarrow> u8 list option \<Rightarrow> u16 \<Rightarrow> nat \<Rightarrow> 'm app_sched_scheme \<Rightarrow> 'm app_sched_scheme result" where
  "store_event event_index p_event_data sz handler s =
     then_do (load_at (m_queue_event_headers s) event_index) (\<lambda>h.
       case p_event_data of
         Some src \<Rightarrow>
           if sz > 0
           then then_do (memcpy (m_queue_event_data s) (event_index * unat (m_queue_event_size s)) src 0 (unat sz)) (\<lambda>data.
             Inr (s\<lparr>m_queue_event_data := data, m_queue_event_headers := (m_queue_event_headers s)[event_index :=
               h\<lparr>eh_handler := handler, event_data_size := sz\<rparr>]\<rparr>))
           else Inr (s\<lparr>m_queue_event_headers := (m_queue_event_headers s)[event_index :=
               h\<lparr>eh_handler := handler, event_data_size := 0\<rparr>]\<rparr>)
       | None \<Rightarrow> Inr (s\<lparr>m_queue_event_headers := (m_queue_event_headers s)[event_index :=
               h\<lparr>eh_handler := handler, event_data_size := 0\<rparr>]\<rparr>))"

definition app_sched_event_put ::
    "u8 list option \<Rightarrow> u16 \<Rightarrow> nat \<Rightarrow> 'm app_sched_scheme \<Rightarrow> (ret_code \<times> 'm app_sched_scheme) result" where
  "app_sched_event_put p_event_data sz handler s =
     (if sz \<le> m_queue_event_size s
      then
        if \<not> app_sched_queue_full s
        then then_do (store_event (unat (m_queue_end_index s)) p_event_data sz handler
               (queue_utilization_check (s\<lparr>m_queue_end_index := next_index s (m_queue_end_index s)\<rparr>))) (\<lambda>t.
             Inr (NRF_SUCCESS, t))
        else Inr (NRF_ERROR_NO_MEM, s)
      else Inr (NRF_ERROR_INVALID_LENGTH, s))"

definition app_sched_pause :: "'m app_sched_scheme \<Rightarrow> 'm app_sched_scheme" where
  "app_sched_pause s =
     (if m_scheduler_paused_counter s < 0xFFFFFFFF
      then s\<lparr>m_scheduler_paused_counter := m_scheduler_paused_counter s + 1\<rparr> else s)"

definition app_sched_resume :: "'m app_sched_scheme \<Rightarrow> 'm app_sched_scheme" where
  "app_sched_resume s =
     (if m_scheduler_paused_counter s > 0
      then s\<lparr>m_scheduler_paused_counter := m_scheduler_paused_counter s - 1\<rparr> else s)"

definition is_app_sched_paused :: "'m app_sched_scheme \<Rightarrow> bool" where
  "is_app_sched_paused s \<longleftrightarrow> m_scheduler_paused_counter s > 0"

text \<open>
  One round of \<open>app_sched_execute\<close>. The handler gets the data of the event and may call the
  functions above; the slot is released after it.
\<close>

type_synonym 'm sched_handlers = "nat \<Rightarrow> u8 list \<Rightarrow> 'm app_sched_scheme \<Rightarrow> 'm app_sched_scheme result"

definition execute_event :: "'m sched_handlers \<Rightarrow> 'm app_sched_scheme \<Rightarrow> 'm app_sched_scheme result" where
  "execute_event call s =
     (let event_index = unat (m_queue_start_index s)
      in then_do (load_at (m_queue_event_headers s) event_index) (\<lambda>h.
         then_do (call (eh_handler h) (take (unat (event_data_size h))
             (drop (event_index * unat (m_queue_event_size s)) (m_queue_event_data s))) s) (\<lambda>t.
         Inr (t\<lparr>m_queue_start_index := next_index t (m_queue_start_index t)\<rparr>))))"

text \<open>The loop: \<open>None\<close> if it does not end, because handlers keep posting events.\<close>

partial_function (option) app_sched_execute ::
    "'m sched_handlers \<Rightarrow> 'm app_sched_scheme \<Rightarrow> 'm app_sched_scheme result option" where
  "app_sched_execute call s =
     (if \<not> is_app_sched_paused s \<and> \<not> app_sched_queue_empty s
      then let r = execute_event call s
           in if isl r then Some r else app_sched_execute call (projr r)
      else Some (Inr s))"

section \<open>The queue\<close>

definition slots :: "'m app_sched_scheme \<Rightarrow> nat" where
  "slots s = unat (m_queue_size s) + 1"

definition sched_len :: "'m app_sched_scheme \<Rightarrow> nat" where
  "sched_len s = (unat (m_queue_end_index s) + slots s - unat (m_queue_start_index s)) mod slots s"

definition slot_index :: "'m app_sched_scheme \<Rightarrow> nat \<Rightarrow> nat" where
  "slot_index s k = (unat (m_queue_start_index s) + k) mod slots s"

definition slot_event :: "'m app_sched_scheme \<Rightarrow> nat \<Rightarrow> nat \<times> u8 list" where
  "slot_event s i = (eh_handler (m_queue_event_headers s ! i),
     take (unat (event_data_size (m_queue_event_headers s ! i)))
       (drop (i * unat (m_queue_event_size s)) (m_queue_event_data s)))"

text \<open>The events in the order in which they were posted.\<close>

definition sched_events :: "'m app_sched_scheme \<Rightarrow> (nat \<times> u8 list) list" where
  "sched_events s = map (\<lambda>k. slot_event s (slot_index s k)) [0..<sched_len s]"

definition sched_ok :: "'m app_sched_scheme \<Rightarrow> bool" where
  "sched_ok s \<longleftrightarrow> slots s \<le> 256 \<and> unat (m_queue_start_index s) < slots s \<and> unat (m_queue_end_index s) < slots s \<and>
     slots s \<le> length (m_queue_event_headers s) \<and>
     slots s * unat (m_queue_event_size s) \<le> length (m_queue_event_data s) \<and>
     (\<forall>k < sched_len s. event_data_size (m_queue_event_headers s ! slot_index s k) \<le> m_queue_event_size s)"

lemma length_sched_events [simp]: "length (sched_events s) = sched_len s"
  by (simp add: sched_events_def)

lemma next_index_mod:
  assumes "unat i < slots s" and "slots s \<le> 256"
  shows "unat (next_index s i) = Suc (unat i) mod slots s"
proof (cases "ucast i < m_queue_size s")
  case True
  then have "unat i < unat (m_queue_size s)" by (simp add: word_less_nat_alt)
  then show ?thesis using assms True
    by (simp add: next_index_def slots_def unat_word_ariths)
next
  case False
  then have "unat i = unat (m_queue_size s)" using assms(1) by (simp add: slots_def word_less_nat_alt)
  then show ?thesis using False by (simp add: next_index_def slots_def)
qed

lemma sched_len_less: "sched_len s < slots s"
  by (simp add: sched_len_def slots_def)

lemma sched_end: "sched_ok s \<Longrightarrow> slot_index s (sched_len s) = unat (m_queue_end_index s)"
  by (simp add: slot_index_def sched_len_def sched_ok_def ring_end)

lemma sched_empty_iff: "sched_ok s \<Longrightarrow> app_sched_queue_empty s \<longleftrightarrow> sched_len s = 0"
  using sched_end [of s]
  by (auto simp: app_sched_queue_empty_def sched_len_def slot_index_def sched_ok_def word_eq_iff_unsigned [where 'a = nat])

lemma sched_full_iff:
  assumes "sched_ok s"
  shows "app_sched_queue_full s \<longleftrightarrow> sched_len s = unat (m_queue_size s)"
proof -
  let ?m = "slots s" and ?a = "unat (m_queue_start_index s)" and ?l = "sched_len s"
  have "unat (next_index s (m_queue_end_index s)) = (?a + Suc ?l) mod ?m"
    using next_index_mod [of "m_queue_end_index s" s] assms sched_end [OF assms]
    by (simp add: sched_ok_def slot_index_def [symmetric]) (simp add: slot_index_def mod_simps flip: sched_end [OF assms])
  moreover have "(?a + Suc ?l) mod ?m = ?a \<longleftrightarrow> Suc ?l = ?m"
  proof
    assume e: "(?a + Suc ?l) mod ?m = ?a"
    show "Suc ?l = ?m"
    proof (rule ccontr)
      assume "Suc ?l \<noteq> ?m"
      then have "Suc ?l < ?m" using sched_len_less [of s] by simp
      from mod_add_inj_less [OF _ this, of 0 ?a] e assms show False by (simp add: sched_ok_def)
    qed
  qed (use assms in \<open>simp add: sched_ok_def\<close>)
  ultimately show ?thesis
    by (auto simp: app_sched_queue_full_def word_eq_iff_unsigned [where 'a = nat] slots_def)
qed

section \<open>Posting an event\<close>

text \<open>The data an event is posted with.\<close>

definition posted :: "u8 list option \<Rightarrow> u16 \<Rightarrow> u8 list" where
  "posted p_event_data sz = (case p_event_data of None \<Rightarrow> [] | Some src \<Rightarrow> take (unat sz) src)"

text \<open>What the store into the slot of an index does.\<close>

lemma store_event_ok:
  assumes "e < length (m_queue_event_headers s)" and "unat sz \<le> unat (m_queue_event_size s)"
    and "Suc e * unat (m_queue_event_size s) \<le> length (m_queue_event_data s)"
    and "case d of None \<Rightarrow> True | Some src \<Rightarrow> unat sz \<le> length src"
  shows "ok (store_event e d sz h s) (\<lambda>t. slot_event t e = (h, posted d sz) \<and>
    event_data_size (m_queue_event_headers t ! e) \<le> m_queue_event_size s \<and>
    (\<forall>i. i \<noteq> e \<longrightarrow> m_queue_event_headers t ! i = m_queue_event_headers s ! i \<and>
      (event_data_size (m_queue_event_headers s ! i) \<le> m_queue_event_size s \<longrightarrow> slot_event t i = slot_event s i)) \<and>
    length (m_queue_event_headers t) = length (m_queue_event_headers s) \<and>
    length (m_queue_event_data t) = length (m_queue_event_data s) \<and>
    m_queue_start_index t = m_queue_start_index s \<and> m_queue_end_index t = m_queue_end_index s \<and>
    m_queue_event_size t = m_queue_event_size s \<and> m_queue_size t = m_queue_size s)"
proof -
  let ?w = "unat (m_queue_event_size s)"
  have le: "e * ?w + unat sz \<le> length (m_queue_event_data s)" using assms(2,3) by simp
  show ?thesis
  proof (cases "\<exists>src. d = Some src \<and> sz > 0")
    case True
    then obtain src where d: "d = Some src" "sz > 0" by blast
    with assms(4) have n: "length (take (unat sz) src) = unat sz" by simp
    show ?thesis
      using assms(1,2,4) d le take_drop_this_slot [OF le n]
        take_drop_other_slot [OF _ assms(2) _ le n]
      by (auto simp: store_event_def slot_event_def posted_def word_le_nat_alt min_def)
  next
    case False
    then have "posted d sz = []" by (cases d) (auto simp: posted_def word_gt_0)
    with False assms(1) show ?thesis
      by (cases d) (auto simp: store_event_def slot_event_def posted_def)
  qed
qed

lemma queue_utilization_check_frame [simp]:
  "m_queue_event_headers (queue_utilization_check s) = m_queue_event_headers s"
  "m_queue_event_data (queue_utilization_check s) = m_queue_event_data s"
  "m_queue_start_index (queue_utilization_check s) = m_queue_start_index s"
  "m_queue_end_index (queue_utilization_check s) = m_queue_end_index s"
  "m_queue_event_size (queue_utilization_check s) = m_queue_event_size s"
  "m_queue_size (queue_utilization_check s) = m_queue_size s"
  by (simp_all add: queue_utilization_check_def)

lemma slot_event_frame [simp]:
  "slot_event (queue_utilization_check s) i = slot_event s i"
  "slot_event (s\<lparr>m_queue_end_index := x\<rparr>) i = slot_event s i"
  by (simp_all add: slot_event_def)

lemma put_event_ok:
  assumes s: "sched_ok s" and full: "\<not> app_sched_queue_full s" and size_ok: "sz \<le> m_queue_event_size s"
    and src: "case d of None \<Rightarrow> True | Some src \<Rightarrow> unat sz \<le> length src"
  shows "ok (app_sched_event_put d sz h s) (\<lambda>(r, t). r = NRF_SUCCESS \<and> sched_ok t \<and>
    sched_events t = sched_events s @ [(h, posted d sz)])"
proof -
  let ?e = "unat (m_queue_end_index s)" and ?l = "sched_len s" and ?m = "slots s"
  let ?s1 = "queue_utilization_check (s\<lparr>m_queue_end_index := next_index s (m_queue_end_index s)\<rparr>)"
  have e: "?e < ?m" "slot_index s ?l = ?e" using s sched_end [OF s] by (simp_all add: sched_ok_def)
  have l: "Suc ?l < ?m" using full sched_len_less [of s] by (simp add: sched_full_iff [OF s] slots_def)
  have "Suc ?e * unat (m_queue_event_size s) \<le> ?m * unat (m_queue_event_size s)"
    using e(1) by (intro mult_le_mono1) simp
  then have bounds: "?e < length (m_queue_event_headers ?s1)" "unat sz \<le> unat (m_queue_event_size ?s1)"
    "Suc ?e * unat (m_queue_event_size ?s1) \<le> length (m_queue_event_data ?s1)"
    using s e(1) size_ok by (simp_all add: sched_ok_def word_le_nat_alt)
  obtain t where t: "store_event ?e d sz h ?s1 = Inr t" "slot_event t ?e = (h, posted d sz)"
      "event_data_size (m_queue_event_headers t ! ?e) \<le> m_queue_event_size s"
      "\<And>i. i \<noteq> ?e \<Longrightarrow> m_queue_event_headers t ! i = m_queue_event_headers s ! i \<and>
        (event_data_size (m_queue_event_headers s ! i) \<le> m_queue_event_size s \<longrightarrow> slot_event t i = slot_event s i)"
      "length (m_queue_event_headers t) = length (m_queue_event_headers s)"
      "length (m_queue_event_data t) = length (m_queue_event_data s)"
      "m_queue_start_index t = m_queue_start_index s" "m_queue_end_index t = next_index s (m_queue_end_index s)"
      "m_queue_event_size t = m_queue_event_size s" "m_queue_size t = m_queue_size s"
    using store_event_ok [OF bounds src, of h] by (auto simp: ok_iff)
  have m: "slots t = ?m" "\<And>k. slot_index t k = slot_index s k"
    using t(7,10) by (simp_all add: slots_def slot_index_def)
  have "unat (m_queue_end_index t) = Suc ?e mod ?m"
    using next_index_mod [OF e(1)] s t(8) by (simp add: sched_ok_def)
  then have e1: "unat (m_queue_end_index t) = (unat (m_queue_start_index s) + Suc ?l) mod ?m"
    using e(2) by (simp add: slot_index_def mod_simps flip: e(2))
  then have l1: "sched_len t = Suc ?l"
    using ring_distance [of "unat (m_queue_start_index s)" ?m "Suc ?l"] l s
    by (simp add: sched_len_def [of t] m t(7) sched_ok_def)
  have ne: "slot_index s k \<noteq> ?e" if "k < ?l" for k
    using mod_add_inj_less [OF that, of ?m "unat (m_queue_start_index s)"] l
    by (simp add: slot_index_def flip: e(2))
  have old: "event_data_size (m_queue_event_headers s ! slot_index s k) \<le> m_queue_event_size s" if "k < ?l" for k
    using s that by (simp add: sched_ok_def)
  have "sched_events t = sched_events s @ [(h, posted d sz)]"
    using t(2,4) ne old by (simp add: sched_events_def l1 m(2) e(2))
  moreover have "sched_ok t"
    using s t(3,4) ne old e1 l1
    by (auto simp: sched_ok_def m t(5-10) less_Suc_eq e(2) mod_less_divisor)
  ultimately show ?thesis
    using full size_ok t(1) by (simp add: app_sched_event_put_def)
qed

lemma sched_len_cases:
  assumes "sched_ok s"
  shows "sched_len s =
    (if unat (m_queue_start_index s) \<le> unat (m_queue_end_index s)
     then unat (m_queue_end_index s) - unat (m_queue_start_index s)
     else unat (m_queue_end_index s) + slots s - unat (m_queue_start_index s))"
proof (cases "unat (m_queue_start_index s) \<le> unat (m_queue_end_index s)")
  case True
  then have e: "unat (m_queue_end_index s) + slots s - unat (m_queue_start_index s) =
      unat (m_queue_end_index s) - unat (m_queue_start_index s) + slots s" by simp
  have "unat (m_queue_end_index s) - unat (m_queue_start_index s) < slots s"
    by (rule le_less_trans [OF diff_le_self]) (use assms in \<open>simp add: sched_ok_def\<close>)
  then show ?thesis unfolding sched_len_def e using True by (simp only: mod_add_self2 mod_less if_True)
next
  case False
  have "unat (m_queue_start_index s) < slots s" "unat (m_queue_end_index s) < slots s"
    using assms by (simp_all add: sched_ok_def)
  then show ?thesis using False by (simp add: sched_len_def)
qed

lemma sched_space:
  assumes "sched_ok s"
  shows "unat (app_sched_queue_space_get s) + sched_len s = unat (m_queue_size s)"
proof -
  let ?a = "m_queue_start_index s" and ?b = "m_queue_end_index s" and ?n = "unat (m_queue_size s)"
  have n: "?n < 256" "unat ?a \<le> ?n" "unat ?b \<le> ?n" using assms by (simp_all add: sched_ok_def slots_def)
  show ?thesis
  proof (cases "unat ?a \<le> unat ?b")
    case True
    then show ?thesis using n
      by (simp add: app_sched_queue_space_get_def sched_len_cases [OF assms] slots_def word_le_nat_alt unat_sub Let_def)
  next
    case False
    have "unat (m_queue_size s + 1) = Suc ?n" using n by (simp add: unat_word_ariths)
    then have "unat (m_queue_size s + 1 - ucast ?a) = Suc ?n - unat ?a"
      using n by (subst unat_sub) (simp_all add: word_le_nat_alt)
    then have "unat (m_queue_size s + 1 - ucast ?a + ucast ?b) = Suc ?n - unat ?a + unat ?b"
      using n False by (simp add: unat_word_ariths)
    then show ?thesis using n False
      by (simp add: app_sched_queue_space_get_def sched_len_cases [OF assms] slots_def word_le_nat_alt unat_sub Let_def)
  qed
qed

section \<open>Executing the events\<close>

lemma sched_events_Cons:
  assumes "sched_ok s" and "sched_len s \<noteq> 0"
  shows "sched_events s = slot_event s (unat (m_queue_start_index s)) #
    map (\<lambda>k. slot_event s (slot_index s (Suc k))) [0..<sched_len s - 1]"
proof -
  obtain l where "sched_len s = Suc l" using assms(2) by (cases "sched_len s") auto
  moreover have "slot_index s 0 = unat (m_queue_start_index s)"
    using assms(1) by (simp add: slot_index_def sched_ok_def)
  ultimately show ?thesis
    by (simp add: sched_events_def upt_conv_Cons map_Suc_upt [symmetric] comp_def del: upt_Suc)
qed

text \<open>Handlers that work on the state of the application only.\<close>

definition app_handlers :: "(nat \<Rightarrow> u8 list \<Rightarrow> 'm \<Rightarrow> 'm) \<Rightarrow> 'm sched_handlers" where
  "app_handlers f h data s = Inr (app_sched.more_update (f h data) s)"

lemma execute_event_ok:
  assumes s: "sched_ok s" and ne: "sched_len s \<noteq> 0"
  shows "ok (execute_event (app_handlers f) s) (\<lambda>t. sched_ok t \<and> sched_events t = tl (sched_events s) \<and>
    app_sched.more t = (case hd (sched_events s) of (h, data) \<Rightarrow> f h data (app_sched.more s)) \<and>
    m_scheduler_paused_counter t = m_scheduler_paused_counter s)"
proof -
  let ?a = "unat (m_queue_start_index s)" and ?m = "slots s"
  let ?u = "app_sched.more_update (f (fst (slot_event s ?a)) (snd (slot_event s ?a))) s"
  let ?t = "?u\<lparr>m_queue_start_index := next_index ?u (m_queue_start_index ?u)\<rparr>"
  have "0 < ?m" by (simp add: slots_def)
  have a: "?a < ?m" "?m \<le> length (m_queue_event_headers s)" using s by (simp_all add: sched_ok_def)
  have run: "execute_event (app_handlers f) s = Inr ?t"
    using a by (simp add: execute_event_def app_handlers_def load_at_def slot_event_def Let_def)
  have "next_index ?u (m_queue_start_index s) = next_index s (m_queue_start_index s)"
    by (simp add: next_index_def)
  then have a1: "unat (m_queue_start_index ?t) = Suc ?a mod ?m"
    using next_index_mod [OF a(1)] s by (simp add: sched_ok_def)
  have m: "slots ?t = ?m" "\<And>i. slot_event ?t i = slot_event s i"
    by (simp_all add: slots_def slot_event_def)
  have ix: "slot_index ?t k = slot_index s (Suc k)" for k
    unfolding slot_index_def m a1 by (simp add: mod_simps)
  obtain l where l: "sched_len s = Suc l" using ne by (cases "sched_len s") auto
  have "unat (m_queue_end_index s) = (Suc ?a mod ?m + l) mod ?m"
    using sched_end [OF s] by (simp add: slot_index_def l mod_simps)
  then have l1: "sched_len ?t = l"
    using ring_distance [of "Suc ?a mod ?m" ?m l] sched_len_less [of s] l
    unfolding sched_len_def [of ?t] m a1 by (simp add: slots_def)
  have "sched_ok ?t"
    using s \<open>0 < ?m\<close> unfolding sched_ok_def m ix l1 a1 by (simp add: l)
  moreover have "sched_events ?t = tl (sched_events s)"
    unfolding sched_events_Cons [OF s ne] sched_events_def [of ?t] l1 m ix by (simp add: l)
  moreover have "hd (sched_events s) = slot_event s ?a" by (simp add: sched_events_Cons [OF s ne])
  ultimately show ?thesis unfolding run by (simp add: case_prod_beta)
qed

lemma app_sched_execute_ok:
  assumes "sched_ok s" and "\<not> is_app_sched_paused s"
  shows "\<exists>t. app_sched_execute (app_handlers f) s = Some (Inr t) \<and> sched_ok t \<and> sched_events t = [] \<and>
    app_sched.more t = fold (\<lambda>(h, data). f h data) (sched_events s) (app_sched.more s)"
  using assms
proof (induction "sched_events s" arbitrary: s)
  case Nil
  then have "sched_len s = 0" by (metis length_sched_events list.size(3))
  then show ?case using Nil by (subst app_sched_execute.simps) (auto simp: sched_empty_iff)
next
  case (Cons e es)
  then have ne: "sched_len s \<noteq> 0" by (metis length_sched_events length_0_conv list.distinct(1))
  obtain t where t: "execute_event (app_handlers f) s = Inr t" "sched_ok t" "sched_events t = es"
      "app_sched.more t = (case e of (h, data) \<Rightarrow> f h data (app_sched.more s))" "\<not> is_app_sched_paused t"
    using execute_event_ok [OF Cons.prems(1) ne, of f] Cons.hyps(2) [symmetric] Cons.prems(2)
    by (auto simp: ok_iff is_app_sched_paused_def)
  have "app_sched_execute (app_handlers f) s = app_sched_execute (app_handlers f) t"
    by (subst app_sched_execute.simps) (use Cons.prems ne t(1) in \<open>simp add: sched_empty_iff Let_def\<close>)
  then show ?case using Cons.hyps(1) [OF t(3) [symmetric] t(2,5)] t(3,4) Cons.hyps(2) [symmetric]
    by (simp add: case_prod_beta)
qed

section \<open>The properties\<close>

text \<open>
  C23. \<open>app_sched_event_put\<close> is the insertion into a queue of \<open>m_queue_size\<close> events (up to 255): it
  refuses an event that is too long or finds no room, and then changes nothing; otherwise it appends the event with a copy of
  its data and disturbs no other. \<open>app_sched_queue_space_get\<close> tells the room that is left.
\<close>

theorem sched_put:
  assumes "sched_ok s" and "case d of None \<Rightarrow> True | Some src \<Rightarrow> unat sz \<le> length src"
  shows "ok (app_sched_event_put d sz h s) (\<lambda>(r, t). sched_ok t \<and>
      (if m_queue_event_size s < sz then r = NRF_ERROR_INVALID_LENGTH \<and> t = s
       else if app_sched_queue_space_get s = 0 then r = NRF_ERROR_NO_MEM \<and> t = s
       else r = NRF_SUCCESS \<and> sched_events t = sched_events s @ [(h, posted d sz)])) \<and>
    unat (app_sched_queue_space_get s) + length (sched_events s) = unat (m_queue_size s)"
proof -
  have "app_sched_queue_space_get s = 0 \<longleftrightarrow> app_sched_queue_full s"
    using sched_space [OF assms(1)] by (auto simp: sched_full_iff [OF assms(1)] unat_eq_0 [symmetric])
  then show ?thesis
    using assms put_event_ok [OF assms(1) _ _ assms(2), of h] sched_space [OF assms(1)]
    by (auto simp: app_sched_event_put_def not_less elim!: ok_mono)
qed

text \<open>
  C24. \<open>app_sched_execute\<close> ends and runs the handler of every posted event once, with its data, in the
  order of posting, and leaves the queue empty, if the handlers work on the state of the application (a handler that always posts
  another event keeps the loop running for ever).
\<close>

theorem sched_execute_all:
  assumes "sched_ok s" and "\<not> is_app_sched_paused s"
  shows "\<exists>t. app_sched_execute (app_handlers f) s = Some (Inr t) \<and> sched_ok t \<and> sched_events t = [] \<and>
    app_sched.more t = fold (\<lambda>(h, data). f h data) (sched_events s) (app_sched.more s)"
  by (rule app_sched_execute_ok [OF assms])

text \<open>A queue of two events of two bytes that wraps around: it holds one event, in slot 2.\<close>

definition sample_sched :: "(nat \<times> u8 list) list app_sched_scheme" where
  "sample_sched = \<lparr>m_queue_event_headers = [\<lparr>eh_handler = 0, event_data_size = 0\<rparr>, \<lparr>eh_handler = 0, event_data_size = 0\<rparr>,
       \<lparr>eh_handler = 7, event_data_size = 1\<rparr>], m_queue_event_data = [1, 2, 3, 4, 5, 6],
     m_queue_start_index = 2, m_queue_end_index = 0, m_queue_event_size = 2, m_queue_size = 2,
     m_max_queue_utilization = 1, m_scheduler_paused_counter = 0, \<dots> = []\<rparr>"

lemma sample_sched_len: "sched_len sample_sched = 1"
  by (simp add: sched_len_def slots_def sample_sched_def)

lemma sample_sched_ok: "sched_ok sample_sched"
  using sample_sched_len by (simp add: sched_ok_def) (simp add: sample_sched_def slots_def slot_index_def)

lemma sample_sched_events: "sched_events sample_sched = [(7, [5])]"
  by (simp add: sched_events_def sample_sched_len) (simp add: sample_sched_def slots_def slot_index_def slot_event_def)

theorem sched_put_witness:
  "ok (app_sched_event_put (Some [8, 9]) 2 3 sample_sched) (\<lambda>(r, t). r = NRF_SUCCESS \<and>
     sched_events t = [(7, [5]), (3, [8, 9])])"
proof -
  have "app_sched_queue_space_get sample_sched \<noteq> 0" "m_queue_event_size sample_sched = 2"
    by (simp_all add: app_sched_queue_space_get_def sample_sched_def)
  then show ?thesis
    using sched_put [OF sample_sched_ok, where d = "Some [8, 9]" and sz = 2 and h = 3]
    by (auto simp: sample_sched_events posted_def elim!: ok_mono)
qed

theorem sched_execute_all_witness:
  "\<exists>t. app_sched_execute (app_handlers (\<lambda>h data log. log @ [(h, data)])) sample_sched = Some (Inr t) \<and>
     app_sched.more t = [(7, [5])]"
  using sched_execute_all [OF sample_sched_ok, of "\<lambda>h data log. log @ [(h, data)]"]
  by (auto simp: sample_sched_events is_app_sched_paused_def) (auto simp: sample_sched_def)

end
