(* ===== verification/AppMailbox.thy ===== *)
theory AppMailbox
  imports LibCommon
begin

text \<open>
  The mailbox components/libraries/mailbox/app_mailbox.c: a ring of items of bounded size in a byte pool, each with its
  size in a 32-bit word (little endian) in front. Pool, constants and control block are one record. A slot is
  \<open>item_sz + 4\<close> bytes; the sizes of the slots are not rounded up to words, and the memory model does not tell whether
  the processor can store a word there.
\<close>

unbundle bit_operations_syntax

section \<open>State and operations\<close>

datatype app_mailbox_overflow_mode_t = APP_MAILBOX_MODE_NO_OVERFLOW | APP_MAILBOX_MODE_OVERFLOW

record app_mailbox_cb_t =
  r_idx :: u8
  w_idx :: u8
  mb_len :: u8
  mb_mode :: app_mailbox_overflow_mode_t

record app_mailbox_t = app_mailbox_cb_t +
  p_pool :: "u8 list"
  item_sz :: u16
  queue_sz :: u8

definition app_mailbox_create :: "app_mailbox_t \<Rightarrow> ret_code \<times> app_mailbox_t" where
  "app_mailbox_create q =
     (NRF_SUCCESS, q\<lparr>r_idx := 0, w_idx := 0, mb_len := 0, mb_mode := APP_MAILBOX_MODE_NO_OVERFLOW\<rparr>)"

definition dequeue :: "app_mailbox_t \<Rightarrow> app_mailbox_t" where
  "dequeue q = (let r = r_idx q + 1
     in q\<lparr>mb_len := mb_len q - 1, r_idx := (if r = queue_sz q then 0 else r)\<rparr>)"

definition enqueue :: "app_mailbox_t \<Rightarrow> app_mailbox_t" where
  "enqueue q = (let w = w_idx q + 1
     in q\<lparr>mb_len := mb_len q + 1, w_idx := (if w = queue_sz q then 0 else w)\<rparr>)"

text \<open>The bytes of the word in front of an item, and the \<open>(uint16_t)\<close> read of it.\<close>

definition size_word :: "u16 \<Rightarrow> u8 list" where
  "size_word n = [ucast n, ucast (drop_bit 8 n), 0, 0]"

definition word_size :: "u8 list \<Rightarrow> u16" where
  "word_size bs = ucast (bs ! 0) OR push_bit 8 (ucast (bs ! 1))"

definition slot_width :: "app_mailbox_t \<Rightarrow> nat" where
  "slot_width q = unat (item_sz q) + 4"

definition store_item :: "u8 list \<Rightarrow> u16 \<Rightarrow> nat \<Rightarrow> app_mailbox_t \<Rightarrow> app_mailbox_t result" where
  "store_item p_item n p_dst q =
     then_do (memcpy (p_pool q) p_dst (size_word n) 0 4) (\<lambda>pool1.
     then_do (memcpy pool1 (p_dst + 4) p_item 0 (unat n)) (\<lambda>pool2.
       Inr (q\<lparr>p_pool := pool2\<rparr>)))"

definition app_mailbox_sized_put :: "u8 list \<Rightarrow> u16 \<Rightarrow> app_mailbox_t \<Rightarrow> (ret_code \<times> app_mailbox_t) result" where
  "app_mailbox_sized_put p_item n q =
     (let full = (mb_len q = queue_sz q);
          do_put = (\<not> (full \<and> mb_mode q = APP_MAILBOX_MODE_NO_OVERFLOW));
          q1 = (if full \<and> do_put then dequeue q else q);
          err_code = (if full then NRF_ERROR_NO_MEM else NRF_SUCCESS)
      in if do_put
         then then_do (store_item p_item n (unat (w_idx q1) * slot_width q1) (enqueue q1)) (\<lambda>q2. Inr (err_code, q2))
         else Inr (err_code, q1))"

definition app_mailbox_put :: "u8 list \<Rightarrow> app_mailbox_t \<Rightarrow> (ret_code \<times> app_mailbox_t) result" where
  "app_mailbox_put p_item q = app_mailbox_sized_put p_item (item_sz q) q"

text \<open>The results: return code, size (if it is written), the caller's buffer and the mailbox.\<close>

definition app_mailbox_sized_get ::
    "u8 list \<Rightarrow> app_mailbox_t \<Rightarrow> (ret_code \<times> u16 option \<times> u8 list \<times> app_mailbox_t) result" where
  "app_mailbox_sized_get p_item q =
     (if mb_len q = 0 then Inr (NRF_ERROR_NO_MEM, None, p_item, q)
      else
        let p_src = unat (r_idx q) * slot_width q; q1 = dequeue q
        in then_do (memcpy [0, 0, 0, 0] 0 (p_pool q1) p_src 4) (\<lambda>word.
           then_do (memcpy p_item 0 (p_pool q1) (p_src + 4) (unat (word_size word))) (\<lambda>item.
             Inr (NRF_SUCCESS, Some (word_size word), item, q1))))"

definition app_mailbox_get :: "u8 list \<Rightarrow> app_mailbox_t \<Rightarrow> (ret_code \<times> u8 list \<times> app_mailbox_t) result" where
  "app_mailbox_get p_item q =
     then_do (app_mailbox_sized_get p_item q) (\<lambda>(err_code, _, item, q1). Inr (err_code, item, q1))"

definition app_mailbox_length_get :: "app_mailbox_t \<Rightarrow> u32" where
  "app_mailbox_length_get q = ucast (mb_len q)"

definition app_mailbox_mode_set :: "app_mailbox_overflow_mode_t \<Rightarrow> app_mailbox_t \<Rightarrow> app_mailbox_t" where
  "app_mailbox_mode_set mode q = q\<lparr>mb_mode := mode\<rparr>"

section \<open>The queue of items\<close>

definition mb_slot :: "app_mailbox_t \<Rightarrow> nat \<Rightarrow> u8 list" where
  "mb_slot q i = take (slot_width q) (drop (i * slot_width q) (p_pool q))"

definition slot_item :: "u8 list \<Rightarrow> u8 list" where
  "slot_item s = take (unat (word_size s)) (drop 4 s)"

definition mb_index :: "app_mailbox_t \<Rightarrow> nat \<Rightarrow> nat" where
  "mb_index q k = (unat (r_idx q) + k) mod unat (queue_sz q)"

definition mb_items :: "app_mailbox_t \<Rightarrow> u8 list list" where
  "mb_items q = map (\<lambda>k. slot_item (mb_slot q (mb_index q k))) [0..<unat (mb_len q)]"

definition mb_ok :: "app_mailbox_t \<Rightarrow> bool" where
  "mb_ok q \<longleftrightarrow> 0 < queue_sz q \<and> r_idx q < queue_sz q \<and> w_idx q < queue_sz q \<and> mb_len q \<le> queue_sz q \<and>
     unat (w_idx q) = mb_index q (unat (mb_len q)) \<and>
     unat (queue_sz q) * slot_width q \<le> length (p_pool q) \<and>
     (\<forall>k < unat (mb_len q). word_size (mb_slot q (mb_index q k)) \<le> item_sz q)"

lemma word_size_word [simp]: "word_size (size_word n @ bs) = n"
proof -
  have "ucast (ucast n :: u8) OR push_bit 8 (ucast (ucast (drop_bit 8 n) :: u8)) = n"
    by (rule bit_word_eqI) (auto simp: bit_simps)
  then show ?thesis by (simp add: word_size_def size_word_def)
qed

lemma length_size_word [simp]: "length (size_word n) = 4"
  by (simp add: size_word_def)

lemma mb_next_index:
  assumes "i < n"
  shows "unat (if i + 1 = n then 0 else i + 1 :: u8) = Suc (unat i) mod unat n"
proof -
  have "unat i < unat n" "unat n < 256" using assms unat_less [of n] by (simp_all add: word_less_nat_alt)
  moreover from this have "unat (i + 1) = Suc (unat i)" by (simp add: unat_word_ariths)
  ultimately show ?thesis by (auto simp: mod_if word_eq_iff_unsigned [where 'a = nat])
qed

text \<open>Taking out the oldest item.\<close>

lemma dequeue_ok:
  assumes "mb_ok q" and "mb_len q \<noteq> 0"
  shows "mb_ok (dequeue q) \<and> mb_items (dequeue q) = tl (mb_items q) \<and> unat (mb_len (dequeue q)) = unat (mb_len q) - 1"
proof -
  let ?d = "dequeue q" and ?n = "unat (queue_sz q)"
  have f: "queue_sz ?d = queue_sz q" "w_idx ?d = w_idx q" "item_sz ?d = item_sz q" "p_pool ?d = p_pool q"
    "slot_width ?d = slot_width q" "\<And>i. mb_slot ?d i = mb_slot q i"
    by (simp_all add: dequeue_def Let_def slot_width_def mb_slot_def)
  have r: "unat (r_idx ?d) = Suc (unat (r_idx q)) mod ?n"
    using mb_next_index [of "r_idx q" "queue_sz q"] assms(1) by (simp add: dequeue_def mb_ok_def Let_def)
  have l: "unat (mb_len ?d) = unat (mb_len q) - 1"
    using assms(2) by (simp add: dequeue_def Let_def unat_minus_one)
  obtain m where m: "unat (mb_len q) = Suc m" using assms(2) by (cases "unat (mb_len q)") (auto simp: unat_eq_0)
  have i: "mb_index ?d k = mb_index q (Suc k)" for k
    by (simp add: mb_index_def f r mod_simps)
  have n0: "0 < ?n" using assms(1) by (simp add: mb_ok_def word_less_nat_alt)
  have "mb_items ?d = tl (mb_items q)"
    by (simp add: mb_items_def l m i f map_Suc_upt [symmetric] upt_conv_Cons comp_def del: upt_Suc)
  moreover have "mb_ok ?d"
    using assms(1) n0 by (simp add: mb_ok_def f i l m word_less_nat_alt word_le_nat_alt r)
  ultimately show ?thesis using l by simp
qed

text \<open>Adding an item while there is room.\<close>

lemma store_item_ok:
  assumes "Suc e * slot_width q \<le> length (p_pool q)" and "n \<le> item_sz q" and "unat n \<le> length p_item"
  shows "ok (store_item p_item n (e * slot_width q) q) (\<lambda>t. (\<exists>pool. t = q\<lparr>p_pool := pool\<rparr>) \<and>
    length (p_pool t) = length (p_pool q) \<and> slot_item (mb_slot t e) = take (unat n) p_item \<and>
    word_size (mb_slot t e) = n \<and> (\<forall>i. i \<noteq> e \<longrightarrow> mb_slot t i = mb_slot q i))"
proof -
  let ?w = "slot_width q" and ?src = "take (unat n) p_item" and ?D = "p_pool q"
  let ?xs = "size_word n @ ?src" and ?m = "4 + unat n"
  let ?pool = "take (e * ?w) ?D @ ?xs @ drop (e * ?w + ?m) ?D"
  have w: "?m \<le> ?w" using assms(2) by (simp add: slot_width_def word_le_nat_alt)
  then have le: "e * ?w + ?m \<le> length ?D" using assms(1) by simp
  have xs: "length ?xs = ?m" using assms(3) by simp
  have run: "store_item p_item n (e * ?w) q = Inr (q\<lparr>p_pool := ?pool\<rparr>)"
  proof -
    let ?pool1 = "take (e * ?w) ?D @ size_word n @ drop (e * ?w + 4) ?D"
    have "memcpy ?D (e * ?w) (size_word n) 0 4 = Inr ?pool1"
      using le by (simp add: memcpy_def)
    moreover have "take (e * ?w + 4) ?pool1 = take (e * ?w) ?D @ size_word n"
      "drop (e * ?w + 4 + unat n) ?pool1 = drop (e * ?w + ?m) ?D" "length ?pool1 = length ?D"
      using le by (simp_all add: ac_simps)
    ultimately show ?thesis
      using le assms(3) by (simp add: store_item_def memcpy_def [of ?pool1])
  qed
  have this_slot: "take ?w (drop (e * ?w) ?pool) = ?xs @ take (?w - ?m) (drop (e * ?w + ?m) ?D)"
    using le w xs by simp
  have other: "take ?w (drop (i * ?w) ?pool) = take ?w (drop (i * ?w) ?D)" if "i \<noteq> e" for i
    using take_drop_other_slot [OF that w order_refl le xs] .
  show ?thesis
    unfolding run using this_slot other le xs assms(3)
    by (auto simp: mb_slot_def slot_width_def slot_item_def)
qed

lemma enqueue_ok:
  assumes q: "mb_ok q" and room: "mb_len q < queue_sz q" and "n \<le> item_sz q" and "unat n \<le> length p_item"
  shows "ok (store_item p_item n (unat (w_idx q) * slot_width q) (enqueue q)) (\<lambda>t. mb_ok t \<and>
    mb_items t = mb_items q @ [take (unat n) p_item] \<and> unat (mb_len t) = Suc (unat (mb_len q)))"
proof -
  let ?e = "enqueue q" and ?n = "unat (queue_sz q)" and ?i = "unat (w_idx q)" and ?l = "unat (mb_len q)"
  have f: "queue_sz ?e = queue_sz q" "r_idx ?e = r_idx q" "item_sz ?e = item_sz q" "p_pool ?e = p_pool q"
    "slot_width ?e = slot_width q" "\<And>i. mb_slot ?e i = mb_slot q i" "\<And>k. mb_index ?e k = mb_index q k"
    by (simp_all add: enqueue_def Let_def slot_width_def mb_slot_def mb_index_def)
  have w: "unat (w_idx ?e) = mb_index q (Suc ?l)"
    using mb_next_index [of "w_idx q" "queue_sz q"] q by (simp add: enqueue_def mb_ok_def Let_def mb_index_def mod_simps)
  have ln: "?l < ?n" "?n < 256" using room unat_less [of "queue_sz q"] by (simp_all add: word_less_nat_alt)
  then have l: "unat (mb_len ?e) = Suc ?l" by (simp add: enqueue_def Let_def unat_word_ariths)
  have i: "?i < ?n" "mb_index q ?l = ?i" using q by (simp_all add: mb_ok_def word_less_nat_alt)
  then have "Suc ?i * slot_width q \<le> ?n * slot_width q" by (intro mult_le_mono1) simp
  then have b: "Suc ?i * slot_width ?e \<le> length (p_pool ?e)" using q by (simp add: f mb_ok_def)
  have ne: "mb_index q k \<noteq> ?i" if "k < ?l" for k
    using mod_add_inj_less [OF that ln(1), of "unat (r_idx q)"] by (simp add: mb_index_def flip: i(2))
  obtain t where t: "store_item p_item n (?i * slot_width q) ?e = Inr t" "\<exists>pool. t = ?e\<lparr>p_pool := pool\<rparr>"
      "length (p_pool t) = length (p_pool q)" "slot_item (mb_slot t ?i) = take (unat n) p_item"
      "word_size (mb_slot t ?i) = n" "\<And>i. i \<noteq> ?i \<Longrightarrow> mb_slot t i = mb_slot q i"
    using store_item_ok [OF b, of n p_item] assms(3,4) by (auto simp: ok_iff f)
  have g: "queue_sz t = queue_sz q" "r_idx t = r_idx q" "item_sz t = item_sz q" "mb_len t = mb_len ?e"
    "w_idx t = w_idx ?e" "slot_width t = slot_width q" "\<And>k. mb_index t k = mb_index q k"
    using t(2) f by (auto simp: slot_width_def mb_index_def)
  have "mb_items t = mb_items q @ [take (unat n) p_item]"
    using t(4,6) ne by (simp add: mb_items_def g l i(2))
  moreover have "w_idx ?e < queue_sz q" using w ln by (simp add: word_less_nat_alt mb_index_def)
  then have "mb_ok t"
    using q t(3,5,6) ne w ln assms(3)
    by (auto simp: mb_ok_def g l i(2) less_Suc_eq word_le_nat_alt [of "mb_len _"])
  ultimately show ?thesis using t(1) g(4) l by simp
qed

text \<open>Taking an item out.\<close>

lemma sized_get_ok:
  assumes q: "mb_ok q" and ne: "mb_len q \<noteq> 0" and dst: "unat (item_sz q) \<le> length dst"
  shows "ok (app_mailbox_sized_get dst q) (\<lambda>(r, sz, d, t). mb_ok t \<and> mb_items t = tl (mb_items q) \<and> r = NRF_SUCCESS \<and>
    sz = Some (of_nat (length (hd (mb_items q)))) \<and> take (length (hd (mb_items q))) d = hd (mb_items q))"
proof -
  let ?r = "unat (r_idx q)" and ?w = "slot_width q" and ?D = "p_pool q"
  let ?off = "?r * ?w" and ?n = "word_size (mb_slot q ?r)"
  have r: "?r < unat (queue_sz q)" using q by (simp add: mb_ok_def word_less_nat_alt)
  then have "Suc ?r * ?w \<le> unat (queue_sz q) * ?w" by (intro mult_le_mono1) simp
  then have le: "?off + ?w \<le> length ?D" using q by (simp add: mb_ok_def)
  have i: "mb_index q 0 = ?r" using r by (simp add: mb_index_def)
  have "0 < unat (mb_len q)" using ne by (simp add: unat_gt_0)
  then have n: "?n \<le> item_sz q" and hd: "hd (mb_items q) = slot_item (mb_slot q ?r)"
    using q by (auto simp: mb_ok_def i mb_items_def hd_map dest: spec [of _ 0])
  have w: "4 + unat ?n \<le> ?w" using n by (simp add: slot_width_def word_le_nat_alt)
  have ws: "word_size (take 4 (drop ?off ?D)) = ?n"
    using le w by (simp add: word_size_def mb_slot_def)
  have "slot_item (mb_slot q ?r) = take (unat ?n) (drop 4 (take ?w (drop ?off ?D)))"
    by (simp add: slot_item_def) (simp add: mb_slot_def)
  then have item: "slot_item (mb_slot q ?r) = take (unat ?n) (drop (?off + 4) ?D)"
    using w by (simp add: drop_take min_def add.commute)
  have nd: "unat ?n \<le> length dst" using n dst by (simp add: word_le_nat_alt)
  have pool: "p_pool (dequeue q) = ?D" by (simp add: dequeue_def Let_def)
  show ?thesis
    using dequeue_ok [OF q ne] ne le w nd
    by (simp add: app_mailbox_sized_get_def Let_def memcpy_def pool ws hd item)
qed

text \<open>Both operations, on every branch.\<close>

lemma sized_put_cases:
  assumes "mb_ok q" and "n \<le> item_sz q" and "unat n \<le> length p_item"
  shows "ok (app_mailbox_sized_put p_item n q) (\<lambda>(r, t). mb_ok t \<and>
      (if length (mb_items q) < unat (queue_sz q)
       then r = NRF_SUCCESS \<and> mb_items t = mb_items q @ [take (unat n) p_item]
       else r = NRF_ERROR_NO_MEM \<and>
         (if mb_mode q = APP_MAILBOX_MODE_NO_OVERFLOW then t = q
          else mb_items t = tl (mb_items q) @ [take (unat n) p_item])))"
proof -
  have len: "length (mb_items q) = unat (mb_len q)" by (simp add: mb_items_def)
  have lq: "mb_len q \<le> queue_sz q" "0 < queue_sz q" using assms(1) by (simp_all add: mb_ok_def)
  show ?thesis
  proof (cases "mb_len q = queue_sz q")
    case False
    then have "mb_len q < queue_sz q" using lq by simp
    then show ?thesis using enqueue_ok [OF assms(1) _ assms(2,3)] False
      by (auto simp: app_mailbox_sized_put_def len word_less_nat_alt Let_def elim!: ok_mono)
  next
    case True
    then have "mb_len q \<noteq> 0" using lq(2) by auto
    note d0 = dequeue_ok [OF assms(1) this]
    have "queue_sz (dequeue q) = queue_sz q" by (simp add: dequeue_def Let_def)
    then have d: "mb_ok (dequeue q)" "mb_items (dequeue q) = tl (mb_items q)"
      "mb_len (dequeue q) < queue_sz (dequeue q)" "item_sz (dequeue q) = item_sz q"
      using d0 lq(2) True by (simp_all add: word_less_nat_alt) (simp add: dequeue_def Let_def)
    then show ?thesis using enqueue_ok [OF d(1,3) _ assms(3)] True assms(1,2)
      by (cases "mb_mode q") (auto simp: app_mailbox_sized_put_def len Let_def elim!: ok_mono)
  qed
qed

lemma sized_get_cases:
  assumes "mb_ok q" and "unat (item_sz q) \<le> length dst"
  shows "ok (app_mailbox_sized_get dst q) (\<lambda>(r, sz, d, t). mb_ok t \<and>
      (case mb_items q of
         [] \<Rightarrow> r = NRF_ERROR_NO_MEM \<and> d = dst \<and> t = q
       | x # xs \<Rightarrow> r = NRF_SUCCESS \<and> sz = Some (of_nat (length x)) \<and> take (length x) d = x \<and> mb_items t = xs))"
proof -
  have len: "length (mb_items q) = unat (mb_len q)" by (simp add: mb_items_def)
  show ?thesis
  proof (cases "mb_items q")
    case Nil
    then have "mb_len q = 0" using len by (simp add: unat_eq_0)
    then show ?thesis using Nil assms(1) by (simp add: app_mailbox_sized_get_def)
  next
    case (Cons x xs)
    then have "mb_len q \<noteq> 0" using len by auto
    then show ?thesis using sized_get_ok [OF assms(1) _ assms(2)] Cons by (auto elim!: ok_mono)
  qed
qed

text \<open>
  The mailbox is a queue of \<open>queue_sz\<close> items of at most \<open>item_sz\<close> bytes each: a put appends a copy of the item
  while there is room; a full mailbox answers NO_MEM and either keeps what it has or, in the overflow mode, drops
  the oldest item for the new one. A get copies the oldest item to the caller, with its size, and removes it, and answers NO_MEM if
  there is none.
\<close>

theorem mailbox_put_get:
  assumes "mb_ok q" and "n \<le> item_sz q" and "unat n \<le> length p_item" and "unat (item_sz q) \<le> length dst"
  shows "ok (app_mailbox_sized_put p_item n q) (\<lambda>(r, t). mb_ok t \<and>
      (if length (mb_items q) < unat (queue_sz q)
       then r = NRF_SUCCESS \<and> mb_items t = mb_items q @ [take (unat n) p_item]
       else r = NRF_ERROR_NO_MEM \<and>
         (if mb_mode q = APP_MAILBOX_MODE_NO_OVERFLOW then t = q
          else mb_items t = tl (mb_items q) @ [take (unat n) p_item]))) \<and>
    ok (app_mailbox_sized_get dst q) (\<lambda>(r, sz, d, t). mb_ok t \<and>
      (case mb_items q of
         [] \<Rightarrow> r = NRF_ERROR_NO_MEM \<and> d = dst \<and> t = q
       | x # xs \<Rightarrow> r = NRF_SUCCESS \<and> sz = Some (of_nat (length x)) \<and> take (length x) d = x \<and> mb_items t = xs))"
  using sized_put_cases [OF assms(1-3)] sized_get_cases [OF assms(1,4)] by (rule conjI)

text \<open>A mailbox of two items of two bytes, with one item in slot 1, in the overflow mode.\<close>

definition sample_mailbox :: app_mailbox_t where
  "sample_mailbox = \<lparr>r_idx = 1, w_idx = 0, mb_len = 1, mb_mode = APP_MAILBOX_MODE_OVERFLOW,
     p_pool = [0, 0, 0, 0, 0, 0, 2, 0, 0, 0, 8, 9], item_sz = 2, queue_sz = 2\<rparr>"

lemma sample_mailbox_items: "mb_items sample_mailbox = [[8, 9]]"
  by (simp add: mb_items_def mb_index_def mb_slot_def slot_width_def slot_item_def word_size_def sample_mailbox_def)

lemma sample_mailbox_ok: "mb_ok sample_mailbox"
  by (simp add: mb_ok_def mb_index_def mb_slot_def slot_width_def word_size_def sample_mailbox_def)

theorem mailbox_put_get_witness:
  "ok (app_mailbox_sized_put [5] 1 sample_mailbox) (\<lambda>(r, t). r = NRF_SUCCESS \<and> mb_items t = [[8, 9], [5]]) \<and>
   ok (app_mailbox_sized_get [0, 0] sample_mailbox) (\<lambda>(r, sz, d, t). r = NRF_SUCCESS \<and> take 2 d = [8, 9] \<and> mb_items t = [])"
proof -
  have q: "queue_sz sample_mailbox = 2" "item_sz sample_mailbox = 2" by (simp_all add: sample_mailbox_def)
  have "ok (app_mailbox_sized_put [5] 1 sample_mailbox) (\<lambda>(r, t). mb_ok t \<and> r = NRF_SUCCESS \<and> mb_items t = [[8, 9], [5]]) \<and>
    ok (app_mailbox_sized_get [0, 0] sample_mailbox) (\<lambda>(r, sz, d, t). mb_ok t \<and> r = NRF_SUCCESS \<and>
      sz = Some 2 \<and> take (length [8 :: u8, 9]) d = [8, 9] \<and> mb_items t = [])"
    using mailbox_put_get [OF sample_mailbox_ok, of 1 "[5]" "[0, 0]"] by (simp add: sample_mailbox_items q)
  then show ?thesis by (auto simp: numeral_2_eq_2 elim!: ok_mono)
qed

end
