(* ===== verification/AppTimer.thy ===== *)
theory AppTimer
  imports LibCommon
begin

text \<open>
  The application timers components/libraries/timer/app_timer.c: a linked list of running timers, each with its ticks after the
  one before it, a queue of start and stop operations, and two interrupts: RTC1 calls the handlers of the
  timers that have expired, SWI updates the list.

  A pointer to a node is an address in \<open>t_node\<close>; \<open>None\<close> is \<open>NULL\<close>. A loop along the list is a
  \<open>partial_function\<close>: on a list that closes on itself it has no result. The COUNTER register is a stream of the values
  that its reads give; delays and interrupt priorities are left out. Timeout handlers and the scheduler function are parameters (\<open>timer_env\<close>), functions on the whole state.
\<close>

unbundle bit_operations_syntax

section \<open>State\<close>

definition MAX_RTC_COUNTER_VAL :: u32 where "MAX_RTC_COUNTER_VAL = 0x00FFFFFF"
definition RTC_COMPARE_OFFSET_MIN :: u32 where "RTC_COMPARE_OFFSET_MIN = 3"
definition CONTEXT_QUEUE_SIZE_MAX :: u8 where "CONTEXT_QUEUE_SIZE_MAX = 2"
definition APP_TIMER_MIN_TIMEOUT_TICKS :: u32 where "APP_TIMER_MIN_TIMEOUT_TICKS = 5"

datatype app_timer_mode_t = APP_TIMER_MODE_SINGLE_SHOT | APP_TIMER_MODE_REPEATED

record timer_node_t =
  ticks_to_expire :: u32
  ticks_at_start :: u32
  ticks_first_interval :: u32
  ticks_periodic_interval :: u32
  is_running :: bool
  timer_mode :: app_timer_mode_t
  p_timeout_handler :: "nat option"
  p_context :: nat
  node_next :: "nat option"

datatype timer_user_op_type_t =
  TIMER_USER_OP_TYPE_NONE | TIMER_USER_OP_TYPE_START | TIMER_USER_OP_TYPE_STOP | TIMER_USER_OP_TYPE_STOP_ALL

record timer_user_op_t =
  op_type :: timer_user_op_type_t
  op_node :: "nat option"
  op_ticks_at_start :: u32
  op_ticks_first_interval :: u32
  op_ticks_periodic_interval :: u32
  op_context :: nat

datatype rtc_task = RTC_START | RTC_STOP | RTC_CLEAR

datatype rtc_event = EV_COMPARE0 | EV_COMPARE1 | EV_COMPARE2 | EV_COMPARE3 | EV_TICK | EV_OVRFLW

record app_timer =
  t_node :: "nat \<Rightarrow> timer_node_t"
  q_first :: u8
  q_last :: u8
  q_size :: u8
  p_user_op_queue :: "timer_user_op_t list option"
  mp_timer_id_head :: "nat option"
  m_ticks_latest :: u32
  m_ticks_elapsed :: "u32 list"
  m_ticks_elapsed_q_read_ind :: u8
  m_ticks_elapsed_q_write_ind :: u8
  m_evt_schedule_func :: bool
  m_rtc1_running :: bool
  m_rtc1_reset :: bool
  m_max_user_op_queue_utilization :: u8
  cfg_with_profiler :: bool
  cfg_keeps_rtc_active :: bool
  rtc_reads :: "nat \<Rightarrow> u32"
  rtc_n :: nat
  rtc_tasks :: "rtc_task list"
  rtc_prescaler :: u32
  rtc_events :: "rtc_event set"
  CC0 :: u32
  rtc_compare0_enabled :: bool
  rtc_irq_enabled :: bool
  rtc_irq_pending :: bool
  swi_irq_enabled :: bool
  swi_irq_pending :: bool

record 's timer_env =
  timeout_handler :: "nat \<Rightarrow> nat \<Rightarrow> 's \<Rightarrow> 's result"
  evt_schedule_func :: "nat option \<Rightarrow> nat \<Rightarrow> 's \<Rightarrow> (ret_code \<times> 's) result"

type_synonym 'm tmr = "'m app_timer_scheme"
type_synonym 'm tmr_env = "'m app_timer_scheme timer_env"

text \<open>A loop that does not end has no continuation.\<close>

definition loop_end :: "'a result option \<Rightarrow> 'a result" where
  "loop_end m = (case m of None \<Rightarrow> Inl Hang | Some r \<Rightarrow> r)"

definition upd_node :: "nat \<Rightarrow> (timer_node_t \<Rightarrow> timer_node_t) \<Rightarrow> 'm tmr \<Rightarrow> 'm tmr" where
  "upd_node a f s = s\<lparr>t_node := (t_node s)(a := f (t_node s a))\<rparr>"

section \<open>RTC1\<close>

definition rtc_trigger :: "rtc_task \<Rightarrow> 'm tmr \<Rightarrow> 'm tmr" where
  "rtc_trigger t s = s\<lparr>rtc_tasks := rtc_tasks s @ [t]\<rparr>"

definition rtc1_init :: "u32 \<Rightarrow> 'm tmr \<Rightarrow> 'm tmr" where
  "rtc1_init prescaler s = s\<lparr>rtc_prescaler := prescaler\<rparr>"

definition rtc1_start :: "'m tmr \<Rightarrow> 'm tmr" where
  "rtc1_start s =
     (rtc_trigger RTC_START (s\<lparr>rtc_compare0_enabled := True, rtc_irq_pending := False, rtc_irq_enabled := True\<rparr>))
       \<lparr>m_rtc1_running := True\<rparr>"

definition rtc1_stop :: "'m tmr \<Rightarrow> 'm tmr" where
  "rtc1_stop s =
     (rtc_trigger RTC_CLEAR (rtc_trigger RTC_STOP (s\<lparr>rtc_irq_enabled := False, rtc_compare0_enabled := False\<rparr>)))
       \<lparr>m_ticks_latest := 0, m_rtc1_running := False\<rparr>"

definition rtc1_counter_get :: "'m tmr \<Rightarrow> u32 \<times> 'm tmr" where
  "rtc1_counter_get s = (rtc_reads s (rtc_n s), s\<lparr>rtc_n := Suc (rtc_n s)\<rparr>)"

definition ticks_diff_get :: "u32 \<Rightarrow> u32 \<Rightarrow> u32" where
  "ticks_diff_get ticks_now ticks_old = (ticks_now - ticks_old) AND MAX_RTC_COUNTER_VAL"

definition rtc1_compare0_set :: "u32 \<Rightarrow> 'm tmr \<Rightarrow> 'm tmr" where
  "rtc1_compare0_set value s = s\<lparr>CC0 := value\<rparr>"

definition timer_timeouts_check_sched :: "'m tmr \<Rightarrow> 'm tmr" where
  "timer_timeouts_check_sched s = s\<lparr>rtc_irq_pending := True\<rparr>"

definition timer_list_handler_sched :: "'m tmr \<Rightarrow> 'm tmr" where
  "timer_list_handler_sched s = s\<lparr>swi_irq_pending := True\<rparr>"

section \<open>The list of running timers\<close>

text \<open>The loop of \<open>timer_list_insert\<close>: the ticks left, \<open>p_previous\<close> and \<open>p_current\<close>.\<close>

partial_function (option) insert_walk ::
    "nat option \<Rightarrow> (nat \<Rightarrow> timer_node_t) \<Rightarrow> u32 \<Rightarrow> nat \<Rightarrow> (u32 \<times> nat \<times> nat option) option" where
  "insert_walk cur nd ticks prev =
     (case cur of
        None \<Rightarrow> Some (ticks, prev, None)
      | Some c \<Rightarrow>
          if ticks > ticks_to_expire (nd c)
          then insert_walk (node_next (nd c)) nd (ticks - ticks_to_expire (nd c)) c
          else Some (ticks, prev, Some c))"

definition timer_list_insert :: "nat \<Rightarrow> 'm tmr \<Rightarrow> 'm tmr result" where
  "timer_list_insert p s =
     (case mp_timer_id_head s of
        None \<Rightarrow> Inr (s\<lparr>mp_timer_id_head := Some p\<rparr>)
      | Some h \<Rightarrow>
          if ticks_to_expire (t_node s p) \<le> ticks_to_expire (t_node s h)
          then
            let s1 = upd_node h (\<lambda>n. n\<lparr>ticks_to_expire := ticks_to_expire n - ticks_to_expire (t_node s p)\<rparr>) s;
                s2 = upd_node p (\<lambda>n. n\<lparr>node_next := Some h\<rparr>) s1
            in Inr (s2\<lparr>mp_timer_id_head := Some p\<rparr>)
          else
            case insert_walk (Some h) (t_node s) (ticks_to_expire (t_node s p)) h of
              None \<Rightarrow> Inl Hang
            | Some (ticks, prev, cur) \<Rightarrow>
                let s1 = (case cur of
                            None \<Rightarrow> s
                          | Some c \<Rightarrow> upd_node c (\<lambda>n. n\<lparr>ticks_to_expire := ticks_to_expire n - ticks\<rparr>) s);
                    s2 = upd_node p (\<lambda>n. n\<lparr>ticks_to_expire := ticks, node_next := cur\<rparr>) s1
                in Inr (upd_node prev (\<lambda>n. n\<lparr>node_next := Some p\<rparr>) s2))"

text \<open>The loop of \<open>timer_list_remove\<close>: \<open>p_previous\<close> and \<open>p_current\<close> at its end.\<close>

partial_function (option) remove_walk ::
    "nat option \<Rightarrow> (nat \<Rightarrow> timer_node_t) \<Rightarrow> nat \<Rightarrow> nat option \<Rightarrow> (nat option \<times> nat option) option" where
  "remove_walk cur nd p prev =
     (case cur of
        None \<Rightarrow> Some (prev, None)
      | Some c \<Rightarrow> if c = p then Some (prev, Some c) else remove_walk (node_next (nd c)) nd p (Some c))"

definition timer_list_remove :: "nat \<Rightarrow> 'm tmr \<Rightarrow> 'm tmr result" where
  "timer_list_remove p s =
     (case remove_walk (mp_timer_id_head s) (t_node s) p (mp_timer_id_head s) of
        None \<Rightarrow> Inl Hang
      | Some (_, None) \<Rightarrow> Inr s
      | Some (None, Some c) \<Rightarrow> Inl Null_Deref
      | Some (Some q, Some c) \<Rightarrow>
          let s1 = (if q = c
                    then
                      let s' = s\<lparr>mp_timer_id_head := node_next (t_node s c)\<rparr>
                      in if mp_timer_id_head s' = None
                         then (rtc_trigger RTC_CLEAR s')\<lparr>m_ticks_latest := 0, m_rtc1_reset := True\<rparr>
                         else s'
                    else s);
              timeout = ticks_to_expire (t_node s1 c);
              s2 = upd_node q (\<lambda>n. n\<lparr>node_next := node_next (t_node s1 c)\<rparr>) s1
          in case node_next (t_node s2 q) of
               None \<Rightarrow> Inr s2
             | Some d \<Rightarrow> Inr (upd_node d (\<lambda>n. n\<lparr>ticks_to_expire := ticks_to_expire n + timeout\<rparr>) s2))"

section \<open>Expired timers\<close>

definition timeout_handler_exec :: "'m tmr_env \<Rightarrow> nat \<Rightarrow> 'm tmr \<Rightarrow> 'm tmr result" where
  "timeout_handler_exec env p s =
     (if m_evt_schedule_func s
      then app_error_check (evt_schedule_func env (p_timeout_handler (t_node s p)) (p_context (t_node s p)) s)
      else case p_timeout_handler (t_node s p) of
             None \<Rightarrow> Inl Null_Deref
           | Some h \<Rightarrow> timeout_handler env h (p_context (t_node s p)) s)"

text \<open>The loop of \<open>timer_timeouts_check\<close>: the ticks left, the ticks consumed and \<open>p_timer\<close>.\<close>

definition expire_one :: "'m tmr_env \<Rightarrow> nat \<Rightarrow> 'm tmr \<Rightarrow> 'm tmr result" where
  "expire_one env p s =
     (if is_running (t_node s p)
      then timeout_handler_exec env p (upd_node p (\<lambda>n. n\<lparr>is_running := False\<rparr>) s) else Inr s)"

partial_function (option) expire_loop ::
    "nat option \<Rightarrow> 'm tmr_env \<Rightarrow> u32 \<Rightarrow> u32 \<Rightarrow> 'm tmr \<Rightarrow> (u32 \<times> 'm tmr) result option" where
  "expire_loop cur env elapsed expired s =
     (case cur of
        None \<Rightarrow> Some (Inr (expired, s))
      | Some p \<Rightarrow>
          if elapsed < ticks_to_expire (t_node s p) then Some (Inr (expired, s))
          else
            case expire_one env p s of
              Inl e \<Rightarrow> Some (Inl e)
            | Inr s1 \<Rightarrow> expire_loop (node_next (t_node s p)) env
                          (elapsed - ticks_to_expire (t_node s p)) (expired + ticks_to_expire (t_node s p)) s1)"

definition next_elapsed_ind :: "u8 \<Rightarrow> u8" where
  "next_elapsed_ind i = (if i + 1 = CONTEXT_QUEUE_SIZE_MAX then 0 else i + 1)"

definition timer_timeouts_check :: "'m tmr_env \<Rightarrow> 'm tmr \<Rightarrow> 'm tmr result" where
  "timer_timeouts_check env s =
     (case mp_timer_id_head s of
        None \<Rightarrow> Inr s
      | Some h \<Rightarrow>
          let (now, s1) = rtc1_counter_get s in
          then_do (loop_end (expire_loop (Some h) env (ticks_diff_get now (m_ticks_latest s1)) 0 s1)) (\<lambda>(expired, s2).
          let w = (if m_ticks_elapsed_q_read_ind s2 = m_ticks_elapsed_q_write_ind s2
                   then next_elapsed_ind (m_ticks_elapsed_q_write_ind s2) else m_ticks_elapsed_q_write_ind s2) in
          then_do (store_at (m_ticks_elapsed s2) (unat w) expired) (\<lambda>el.
          Inr (timer_list_handler_sched (s2\<lparr>m_ticks_elapsed_q_write_ind := w, m_ticks_elapsed := el\<rparr>)))))"

definition elapsed_ticks_acquire :: "'m tmr \<Rightarrow> (bool \<times> u32 \<times> 'm tmr) result" where
  "elapsed_ticks_acquire s =
     (if m_ticks_elapsed_q_read_ind s \<noteq> m_ticks_elapsed_q_write_ind s
      then
        let r = next_elapsed_ind (m_ticks_elapsed_q_read_ind s) in
        then_do (load_at (m_ticks_elapsed s) (unat r)) (\<lambda>t.
        Inr (True, t, s\<lparr>m_ticks_elapsed_q_read_ind := r,
                       m_ticks_latest := (m_ticks_latest s + t) AND MAX_RTC_COUNTER_VAL\<rparr>))
      else Inr (False, 0, s))"

section \<open>Updating the list\<close>

definition next_op :: "u8 \<Rightarrow> 'm tmr \<Rightarrow> u8" where
  "next_op i s = (if i + 1 = q_size s then 0 else i + 1)"

definition load_op :: "u8 \<Rightarrow> 'm tmr \<Rightarrow> timer_user_op_t result" where
  "load_op i s = (case p_user_op_queue s of None \<Rightarrow> Inl Null_Deref | Some q \<Rightarrow> load_at q (unat i))"

partial_function (option) stop_all_loop :: "'m tmr \<Rightarrow> 'm tmr option" where
  "stop_all_loop s =
     (case mp_timer_id_head s of
        None \<Rightarrow> Some s
      | Some h \<Rightarrow> stop_all_loop ((upd_node h (\<lambda>n. n\<lparr>is_running := False\<rparr>) s)
                     \<lparr>mp_timer_id_head := node_next (t_node s h)\<rparr>))"

definition delete_op :: "timer_user_op_t \<Rightarrow> 'm tmr \<Rightarrow> 'm tmr result" where
  "delete_op op s =
     (case op_type op of
        TIMER_USER_OP_TYPE_STOP \<Rightarrow>
          (case op_node op of None \<Rightarrow> Inr s | Some p \<Rightarrow> timer_list_remove p s)
      | TIMER_USER_OP_TYPE_STOP_ALL \<Rightarrow> loop_end (map_option Inr (stop_all_loop s))
      | _ \<Rightarrow> Inr s)"

text \<open>An index of 8 bits that has not reached the end after 256 steps never does.\<close>

fun deletions_loop :: "nat \<Rightarrow> u8 \<Rightarrow> 'm tmr \<Rightarrow> 'm tmr result" where
  "deletions_loop n i s =
     (if i = q_last s then Inr s
      else case n of
        0 \<Rightarrow> Inl Hang
      | Suc m \<Rightarrow> then_do (load_op i s) (\<lambda>op. then_do (delete_op op s) (deletions_loop m (next_op i s))))"

definition list_deletions_handler :: "'m tmr \<Rightarrow> (bool \<times> 'm tmr) result" where
  "list_deletions_handler s =
     then_do (deletions_loop 256 (q_first s) s) (\<lambda>s1. Inr (mp_timer_id_head s1 \<noteq> mp_timer_id_head s, s1))"

partial_function (option) expired_timers_loop ::
    "u32 \<Rightarrow> u32 \<Rightarrow> u32 \<Rightarrow> nat option \<Rightarrow> 'm tmr \<Rightarrow> (nat option \<times> 'm tmr) option" where
  "expired_timers_loop elapsed expired ticks_previous restart s =
     (case mp_timer_id_head s of
        None \<Rightarrow> Some (restart, s)
      | Some p \<Rightarrow>
          if elapsed < ticks_to_expire (t_node s p)
          then Some (restart, upd_node p (\<lambda>n. n\<lparr>ticks_to_expire := ticks_to_expire n - elapsed\<rparr>) s)
          else
            let t = ticks_to_expire (t_node s p); expired1 = expired + t;
                s1 = (upd_node p (\<lambda>n. n\<lparr>ticks_to_expire := 0\<rparr>) s)\<lparr>mp_timer_id_head := node_next (t_node s p)\<rparr>
            in if ticks_periodic_interval (t_node s1 p) \<noteq> 0
               then expired_timers_loop (elapsed - t) expired1 ticks_previous (Some p)
                      (upd_node p (\<lambda>n. n\<lparr>ticks_at_start := (ticks_previous + expired1) AND MAX_RTC_COUNTER_VAL,
                         ticks_first_interval := ticks_periodic_interval n, node_next := restart\<rparr>) s1)
               else expired_timers_loop (elapsed - t) expired1 ticks_previous restart s1)"

definition expired_timers_handler :: "u32 \<Rightarrow> u32 \<Rightarrow> nat option \<Rightarrow> 'm tmr \<Rightarrow> (nat option \<times> 'm tmr) result" where
  "expired_timers_handler ticks_elapsed ticks_previous restart s =
     loop_end (map_option Inr (expired_timers_loop ticks_elapsed 0 ticks_previous restart s))"

text \<open>From a start to the ticks until expiry, counted from \<open>m_ticks_latest\<close>.\<close>

definition prepare_node :: "u32 \<Rightarrow> timer_node_t \<Rightarrow> timer_node_t" where
  "prepare_node latest n =
     (let n1 = n\<lparr>ticks_to_expire :=
            (if (ticks_at_start n - latest) AND MAX_RTC_COUNTER_VAL < MAX_RTC_COUNTER_VAL div 2
             then ticks_diff_get (ticks_at_start n) latest + ticks_first_interval n
             else
               let delta = ticks_diff_get latest (ticks_at_start n)
               in if ticks_first_interval n > delta then ticks_first_interval n - delta else 0)\<rparr>
      in n1\<lparr>ticks_at_start := 0, ticks_first_interval := 0, is_running := True, node_next := None\<rparr>)"

text \<open>The next timer to insert: \<open>None\<close> if the operation is skipped.\<close>

definition take_op :: "'m tmr \<Rightarrow> (nat option \<times> 'm tmr) result" where
  "take_op s =
     then_do (load_op (q_first s) s) (\<lambda>op.
     let s1 = s\<lparr>q_first := next_op (q_first s) s\<rparr> in
     if op_type op \<noteq> TIMER_USER_OP_TYPE_START then Inr (None, s1)
     else case op_node op of
       None \<Rightarrow> Inl Null_Deref
     | Some p \<Rightarrow>
         if is_running (t_node s1 p) then Inr (None, s1)
         else Inr (Some p, upd_node p (\<lambda>n. n\<lparr>
                ticks_at_start := (if m_rtc1_reset s1 then 0 else op_ticks_at_start op),
                ticks_first_interval := op_ticks_first_interval op,
                ticks_periodic_interval := op_ticks_periodic_interval op,
                p_context := op_context op\<rparr>) s1))"

definition insert_prepared :: "nat \<Rightarrow> 'm tmr \<Rightarrow> 'm tmr result" where
  "insert_prepared p s = timer_list_insert p (upd_node p (prepare_node (m_ticks_latest s)) s)"

partial_function (option) insertions_loop :: "nat option \<Rightarrow> 'm tmr \<Rightarrow> 'm tmr result option" where
  "insertions_loop restart s =
     (case restart of
        Some p \<Rightarrow>
          (case insert_prepared p s of
             Inl e \<Rightarrow> Some (Inl e) | Inr s1 \<Rightarrow> insertions_loop (node_next (t_node s p)) s1)
      | None \<Rightarrow>
          if q_first s = q_last s then Some (Inr s)
          else
            case take_op s of
              Inl e \<Rightarrow> Some (Inl e)
            | Inr (None, s1) \<Rightarrow> insertions_loop None s1
            | Inr (Some p, s1) \<Rightarrow>
                (case insert_prepared p s1 of Inl e \<Rightarrow> Some (Inl e) | Inr s2 \<Rightarrow> insertions_loop None s2))"

definition list_insertions_handler :: "nat option \<Rightarrow> 'm tmr \<Rightarrow> (bool \<times> 'm tmr) result" where
  "list_insertions_handler restart s =
     then_do (loop_end (insertions_loop restart s)) (\<lambda>s1. Inr (mp_timer_id_head s1 \<noteq> mp_timer_id_head s, s1))"

definition compare_reg_update :: "'m tmr \<Rightarrow> 'm tmr" where
  "compare_reg_update s =
     (case mp_timer_id_head s of
        Some h \<Rightarrow>
          let to_expire = ticks_to_expire (t_node s h);
              (pre, s1) = rtc1_counter_get s;
              elapsed = ticks_diff_get pre (m_ticks_latest s1) + RTC_COMPARE_OFFSET_MIN;
              cc0 = m_ticks_latest s1;
              s2 = (if m_rtc1_running s1 then s1 else rtc1_start s1);
              cc = (cc0 + (if elapsed < to_expire then to_expire else elapsed)) AND MAX_RTC_COUNTER_VAL;
              s3 = rtc1_compare0_set cc s2;
              (post, s4) = rtc1_counter_get s3
          in if ticks_diff_get post pre + RTC_COMPARE_OFFSET_MIN > ticks_diff_get cc pre
             then let (now, s5) = rtc1_counter_get s4 in timer_timeouts_check_sched (rtc1_compare0_set now s5)
             else s4
      | None \<Rightarrow> if cfg_keeps_rtc_active s then s else rtc1_stop s)"

definition profile_op_queue :: "'m tmr \<Rightarrow> 'm tmr" where
  "profile_op_queue s =
     (if cfg_with_profiler s
      then
        let u = (if q_first s \<le> q_last s then q_last s - q_first s else q_size s + 1 - q_first s + q_last s)
        in if u > m_max_user_op_queue_utilization s then s\<lparr>m_max_user_op_queue_utilization := u\<rparr> else s
      else s)"

definition timer_list_handler :: "'m tmr \<Rightarrow> 'm tmr result" where
  "timer_list_handler s0 =
     (let s = profile_op_queue s0; ticks_previous = m_ticks_latest s in
      then_do (elapsed_ticks_acquire s) (\<lambda>(ticks_have_elapsed, ticks_elapsed, s1).
      then_do (list_deletions_handler s1) (\<lambda>(deleted, s2).
      then_do (if ticks_have_elapsed then expired_timers_handler ticks_elapsed ticks_previous None s2
               else Inr (None, s2)) (\<lambda>(restart, s3).
      then_do (list_insertions_handler restart s3) (\<lambda>(inserted, s4).
      let s5 = (if deleted \<or> ticks_have_elapsed \<or> inserted then compare_reg_update s4 else s4)
      in Inr (s5\<lparr>m_rtc1_reset := False\<rparr>))))))"

section \<open>The operations queue\<close>

text \<open>The index to enqueue at the end and the entry, unless the queue is full.\<close>

definition user_op_alloc :: "'m tmr \<Rightarrow> (u8 \<times> timer_user_op_t) option result" where
  "user_op_alloc s =
     (let last = next_op (q_last s) s
      in if last = q_first s then Inr None
         else then_do (load_op (q_last s) s) (\<lambda>op. Inr (Some (last, op))))"

definition store_op :: "timer_user_op_t \<Rightarrow> 'm tmr \<Rightarrow> 'm tmr" where
  "store_op op s = s\<lparr>p_user_op_queue := map_option (\<lambda>q. q[unat (q_last s) := op]) (p_user_op_queue s)\<rparr>"

definition user_op_enque :: "u8 \<Rightarrow> 'm tmr \<Rightarrow> 'm tmr" where
  "user_op_enque last_index s = s\<lparr>q_last := last_index\<rparr>"

definition timer_start_op_schedule :: "nat \<Rightarrow> u32 \<Rightarrow> u32 \<Rightarrow> nat \<Rightarrow> 'm tmr \<Rightarrow> (ret_code \<times> 'm tmr) result" where
  "timer_start_op_schedule p initial periodic ctx s =
     then_do (user_op_alloc s) (\<lambda>a.
     case a of
       None \<Rightarrow> Inr (NRF_ERROR_NO_MEM, s)
     | Some (last_index, op) \<Rightarrow>
         let (now, s1) = rtc1_counter_get s;
             s2 = store_op (op\<lparr>op_type := TIMER_USER_OP_TYPE_START, op_node := Some p, op_ticks_at_start := now,
                    op_ticks_first_interval := initial, op_ticks_periodic_interval := periodic, op_context := ctx\<rparr>) s1
         in Inr (NRF_SUCCESS, timer_list_handler_sched (user_op_enque last_index s2)))"

definition timer_stop_op_schedule ::
    "nat option \<Rightarrow> timer_user_op_type_t \<Rightarrow> 'm tmr \<Rightarrow> (ret_code \<times> 'm tmr) result" where
  "timer_stop_op_schedule p ty s =
     then_do (user_op_alloc s) (\<lambda>a.
     case a of
       None \<Rightarrow> Inr (NRF_ERROR_NO_MEM, s)
     | Some (last_index, op) \<Rightarrow>
         Inr (NRF_SUCCESS,
              timer_list_handler_sched (user_op_enque last_index (store_op (op\<lparr>op_type := ty, op_node := p\<rparr>) s))))"

section \<open>Interrupts and interface\<close>

definition RTC1_IRQHandler :: "'m tmr_env \<Rightarrow> 'm tmr \<Rightarrow> 'm tmr result" where
  "RTC1_IRQHandler env s = timer_timeouts_check env (s\<lparr>rtc_events := {}\<rparr>)"

definition SWI_IRQHandler :: "'m tmr \<Rightarrow> 'm tmr result" where
  "SWI_IRQHandler s = timer_list_handler s"

text \<open>\<open>p_buffer\<close>: the memory of the queue and whether it is word-aligned.\<close>

definition app_timer_init ::
    "u32 \<Rightarrow> u8 \<Rightarrow> bool \<times> timer_user_op_t list option \<Rightarrow> bool \<Rightarrow> 'm tmr \<Rightarrow> ret_code \<times> 'm tmr" where
  "app_timer_init prescaler op_queue_size p_buffer schedule s =
     (if \<not> fst p_buffer then (NRF_ERROR_INVALID_PARAM, s)
      else if snd p_buffer = None then (NRF_ERROR_INVALID_PARAM, s)
      else
        let s1 = (rtc1_stop s)\<lparr>m_evt_schedule_func := schedule, q_first := 0, q_last := 0, q_size := op_queue_size,
                   p_user_op_queue := snd p_buffer, mp_timer_id_head := None, m_ticks_elapsed_q_read_ind := 0,
                   m_ticks_elapsed_q_write_ind := 0\<rparr>;
            s2 = (if cfg_with_profiler s1 then s1\<lparr>m_max_user_op_queue_utilization := 0\<rparr> else s1);
            s3 = rtc1_init prescaler (s2\<lparr>swi_irq_pending := False, swi_irq_enabled := True\<rparr>);
            (now, s4) = rtc1_counter_get s3
        in (NRF_SUCCESS, s4\<lparr>m_ticks_latest := now\<rparr>))"

definition app_timer_create ::
    "nat option \<Rightarrow> app_timer_mode_t \<Rightarrow> nat option \<Rightarrow> 'm tmr \<Rightarrow> ret_code \<times> 'm tmr" where
  "app_timer_create p_timer_id m handler s =
     (if p_user_op_queue s = None then (NRF_ERROR_INVALID_STATE, s)
      else if handler = None then (NRF_ERROR_INVALID_PARAM, s)
      else case p_timer_id of
        None \<Rightarrow> (NRF_ERROR_INVALID_PARAM, s)
      | Some p \<Rightarrow>
          if is_running (t_node s p) then (NRF_ERROR_INVALID_STATE, s)
          else (NRF_SUCCESS,
                upd_node p (\<lambda>n. n\<lparr>is_running := False, timer_mode := m, p_timeout_handler := handler\<rparr>) s))"

definition app_timer_start :: "nat option \<Rightarrow> u32 \<Rightarrow> nat \<Rightarrow> 'm tmr \<Rightarrow> (ret_code \<times> 'm tmr) result" where
  "app_timer_start timer_id timeout_ticks ctx s =
     (if p_user_op_queue s = None then Inr (NRF_ERROR_INVALID_STATE, s)
      else case timer_id of
        None \<Rightarrow> Inr (NRF_ERROR_INVALID_STATE, s)
      | Some p \<Rightarrow>
          if timeout_ticks < APP_TIMER_MIN_TIMEOUT_TICKS then Inr (NRF_ERROR_INVALID_PARAM, s)
          else if p_timeout_handler (t_node s p) = None then Inr (NRF_ERROR_INVALID_STATE, s)
          else timer_start_op_schedule p timeout_ticks
                 (if timer_mode (t_node s p) = APP_TIMER_MODE_REPEATED then timeout_ticks else 0) ctx s)"

definition app_timer_stop :: "nat option \<Rightarrow> 'm tmr \<Rightarrow> (ret_code \<times> 'm tmr) result" where
  "app_timer_stop timer_id s =
     (if p_user_op_queue s = None then Inr (NRF_ERROR_INVALID_STATE, s)
      else case timer_id of
        None \<Rightarrow> Inr (NRF_ERROR_INVALID_STATE, s)
      | Some p \<Rightarrow>
          if p_timeout_handler (t_node s p) = None then Inr (NRF_ERROR_INVALID_STATE, s)
          else timer_stop_op_schedule (Some p) TIMER_USER_OP_TYPE_STOP
                 (upd_node p (\<lambda>n. n\<lparr>is_running := False\<rparr>) s))"

definition app_timer_stop_all :: "'m tmr \<Rightarrow> (ret_code \<times> 'm tmr) result" where
  "app_timer_stop_all s =
     (if p_user_op_queue s = None then Inr (NRF_ERROR_INVALID_STATE, s)
      else timer_stop_op_schedule None TIMER_USER_OP_TYPE_STOP_ALL s)"

definition app_timer_cnt_get :: "'m tmr \<Rightarrow> u32 \<times> 'm tmr" where
  "app_timer_cnt_get s = rtc1_counter_get s"

definition app_timer_cnt_diff_compute :: "u32 \<Rightarrow> u32 \<Rightarrow> ret_code \<times> u32" where
  "app_timer_cnt_diff_compute ticks_to ticks_from = (NRF_SUCCESS, ticks_diff_get ticks_to ticks_from)"

definition app_timer_op_queue_utilization_get :: "'m tmr \<Rightarrow> u8" where
  "app_timer_op_queue_utilization_get s = m_max_user_op_queue_utilization s"

end
