(* ===== verification/AppTimerList.thy ===== *)
theory AppTimerList
  imports AppTimer
begin

text \<open>
  The list of running timers as an abstract list: \<open>timers s xs\<close> says that the nodes \<open>xs\<close> are linked from the head of the list, and
  \<open>due\<close> adds up their ticks, so that it pairs every timer with the ticks from \<open>m_ticks_latest\<close> to its expiry. Insertion and removal
  change one entry of it.
\<close>

section \<open>Linked nodes\<close>

primrec lseg :: "(nat \<Rightarrow> timer_node_t) \<Rightarrow> nat option \<Rightarrow> nat list \<Rightarrow> nat option \<Rightarrow> bool" where
  "lseg nd p [] q \<longleftrightarrow> p = q"
| "lseg nd p (a # as) q \<longleftrightarrow> p = Some a \<and> lseg nd (node_next (nd a)) as q"

lemma lseg_append: "lseg nd p (xs @ ys) q \<longleftrightarrow> (\<exists>r. lseg nd p xs r \<and> lseg nd r ys q)"
  by (induction xs arbitrary: p) auto

lemma lseg_cong: "(\<And>a. a \<in> set xs \<Longrightarrow> node_next (nd' a) = node_next (nd a)) \<Longrightarrow> lseg nd' p xs q = lseg nd p xs q"
  by (induction xs arbitrary: p) auto

lemma lseg_upd [simp]: "a \<notin> set xs \<Longrightarrow> lseg (nd(a := n)) p xs q = lseg nd p xs q"
  by (rule lseg_cong) auto

definition timers :: "'m tmr \<Rightarrow> nat list \<Rightarrow> bool" where
  "timers s xs \<longleftrightarrow> lseg (t_node s) (mp_timer_id_head s) xs None \<and> distinct xs"

section \<open>Expiry\<close>

abbreviation ticks :: "(nat \<Rightarrow> timer_node_t) \<Rightarrow> nat \<Rightarrow> nat" where
  "ticks nd a \<equiv> unat (ticks_to_expire (nd a))"

primrec due_from :: "nat \<Rightarrow> (nat \<Rightarrow> timer_node_t) \<Rightarrow> nat list \<Rightarrow> (nat \<times> nat) list" where
  "due_from t nd [] = []"
| "due_from t nd (a # as) = (a, t + ticks nd a) # due_from (t + ticks nd a) nd as"

definition span :: "(nat \<Rightarrow> timer_node_t) \<Rightarrow> nat list \<Rightarrow> nat" where
  "span nd xs = sum_list (map (ticks nd) xs)"

lemma span_simps [simp]: "span nd [] = 0" "span nd (a # as) = ticks nd a + span nd as" "span nd (xs @ ys) = span nd xs + span nd ys"
  by (simp_all add: span_def)

lemma due_append: "due_from t nd (xs @ ys) = due_from t nd xs @ due_from (t + span nd xs) nd ys"
  by (induction xs arbitrary: t) (simp_all add: add.assoc)

lemma due_cong: "(\<And>a. a \<in> set xs \<Longrightarrow> ticks nd' a = ticks nd a) \<Longrightarrow> due_from t nd' xs = due_from t nd xs"
  by (induction xs arbitrary: t) auto

lemma due_upd [simp]: "a \<notin> set xs \<Longrightarrow> due_from t (nd(a := n)) xs = due_from t nd xs"
  by (rule due_cong) auto

lemma fst_due [simp]: "map fst (due_from t nd xs) = xs"
  by (induction xs arbitrary: t) simp_all

text \<open>The list is in the order of expiry.\<close>

lemma due_late: "x \<in> set (due_from t nd xs) \<Longrightarrow> t \<le> snd x"
  by (induction xs arbitrary: t) force+

lemma due_takeWhile: "takeWhile (\<lambda>x. snd x \<le> n) (due_from t nd xs) = filter (\<lambda>x. snd x \<le> n) (due_from t nd xs)"
proof (induction xs arbitrary: t)
  case (Cons a as)
  have "\<not> snd x \<le> n" if "\<not> t + ticks nd a \<le> n" "x \<in> set (due_from (t + ticks nd a) nd as)" for x
    using that due_late [of x] by (meson le_trans)
  then show ?case by (simp add: Cons filter_empty_conv)
qed simp

lemma due_dropWhile: "dropWhile (\<lambda>x. snd x \<le> n) (due_from t nd xs) = filter (\<lambda>x. n < snd x) (due_from t nd xs)"
proof (induction xs arbitrary: t)
  case (Cons a as)
  have "n < snd x" if "\<not> t + ticks nd a \<le> n" "x \<in> set (due_from (t + ticks nd a) nd as)" for x
    using that due_late [of x] by (meson not_le le_trans)
  then show ?case by (auto simp: Cons intro!: filter_True [symmetric])
qed simp

lemma in_set_due: "x \<in> set (due_from t nd xs) \<Longrightarrow> fst x \<in> set xs"
  using fst_due [of t nd xs] by (metis image_eqI list.set_map)

lemma due_bounds: "(a, d) \<in> set (due_from t nd xs) \<Longrightarrow> t \<le> d \<and> d \<le> t + span nd xs"
proof (induction xs arbitrary: t)
  case (Cons b xs)
  then consider "(a, d) = (b, t + ticks nd b)" | "(a, d) \<in> set (due_from (t + ticks nd b) nd xs)" by auto
  then show ?case by cases (auto dest: Cons.IH)
qed simp

definition due :: "'m tmr \<Rightarrow> nat list \<Rightarrow> (nat \<times> nat) list" where
  "due s xs = due_from 0 (t_node s) xs"

text \<open>The entry \<open>(p, d)\<close> goes before the first that is due at \<open>d\<close> or later.\<close>

definition insert_due :: "nat \<Rightarrow> nat \<Rightarrow> (nat \<times> nat) list \<Rightarrow> (nat \<times> nat) list" where
  "insert_due p d ds = takeWhile (\<lambda>x. snd x < d) ds @ (p, d) # dropWhile (\<lambda>x. snd x < d) ds"

lemma insert_due_split:
  assumes "\<And>x. x \<in> set ds1 \<Longrightarrow> snd x < d" and "ds2 = [] \<or> d \<le> snd (hd ds2)"
  shows "insert_due p d (ds1 @ ds2) = ds1 @ (p, d) # ds2"
proof -
  have "takeWhile (\<lambda>x. snd x < d) ds2 = [] \<and> dropWhile (\<lambda>x. snd x < d) ds2 = ds2"
    using assms(2) by (cases ds2) auto
  then show ?thesis using assms(1) by (simp add: insert_due_def takeWhile_append2 dropWhile_append2)
qed

section \<open>Insertion\<close>

lemma insert_walk_ok:
  "lseg nd cur xs None \<Longrightarrow>
   \<exists>ys zs t cur'. insert_walk cur nd T prev = Some (t, last (prev # ys), cur') \<and> xs = ys @ zs \<and>
     lseg nd cur ys cur' \<and> lseg nd cur' zs None \<and> unat T = span nd ys + unat t \<and>
     (\<forall>x \<in> set (due_from 0 nd ys). snd x < unat T) \<and> (zs = [] \<or> unat t \<le> ticks nd (hd zs))"
proof (induction xs arbitrary: cur T prev)
  case Nil
  then show ?case by (intro exI [of _ "[]"] exI [of _ T]) (simp add: insert_walk.simps)
next
  case (Cons a xs)
  then have a: "cur = Some a" "lseg nd (node_next (nd a)) xs None" by simp_all
  show ?case
  proof (cases "ticks_to_expire (nd a) < T")
    case False
    moreover have "unat T \<le> ticks nd a" using False by (simp add: word_less_nat_alt)
    ultimately show ?thesis using a
      by - (rule exI [of _ "[]"], rule exI [of _ "a # xs"], rule exI [of _ T], rule exI [of _ cur],
        simp add: insert_walk.simps [of "Some a"])
  next
    case True
    let ?T = "T - ticks_to_expire (nd a)"
    have T: "unat T = ticks nd a + unat ?T" "ticks nd a < unat T"
      using True by (simp_all add: unat_sub word_le_nat_alt word_less_nat_alt)
    from Cons.IH [OF a(2), of ?T a] obtain ys zs t cur' where
      w: "insert_walk (node_next (nd a)) nd ?T a = Some (t, last (a # ys), cur')" "xs = ys @ zs"
        "lseg nd (node_next (nd a)) ys cur'" "lseg nd cur' zs None" "unat ?T = span nd ys + unat t"
        "\<forall>x \<in> set (due_from 0 nd ys). snd x < unat ?T" "zs = [] \<or> unat t \<le> ticks nd (hd zs)"
      by blast
    have shift: "due_from k nd as = map (\<lambda>(b, d). (b, k + d)) (due_from 0 nd as)" for k as
    proof (induction as arbitrary: k)
      case (Cons b as)
      show ?case
        using Cons [of "k + ticks nd b"] Cons [of "ticks nd b"] by (simp add: case_prod_beta add.assoc)
    qed simp
    have "\<forall>x \<in> set (due_from 0 nd (a # ys)). snd x < unat T"
      using w(6) T by (auto simp: shift [of "ticks nd a"])
    then show ?thesis using w a T True
      by - (rule exI [of _ "a # ys"], rule exI [of _ zs], rule exI [of _ t], rule exI [of _ cur'],
        simp add: insert_walk.simps [of "Some a"])
  qed
qed

text \<open>Nodes outside the list, and what else a node holds, stay as they are.\<close>

definition node_data :: "timer_node_t \<Rightarrow> timer_node_t" where
  "node_data n = n\<lparr>ticks_to_expire := 0, node_next := None\<rparr>"

definition same_data :: "'m tmr \<Rightarrow> 'm tmr \<Rightarrow> bool" where
  "same_data s t \<longleftrightarrow> (\<forall>a. node_data (t_node t a) = node_data (t_node s a))"

lemma data_upd:
  "node_data n = node_data (t_node s a) \<Longrightarrow> same_data s (s\<lparr>t_node := (t_node s)(a := n)\<rparr>)"
  by (simp add: same_data_def)

text \<open>
  \<open>timer_list_insert\<close> enters the timer at its place: the expiry of every other timer stays as it is, although the
  ticks of its successor change, and nothing but the links and ticks of the list is touched.
\<close>

lemma insert_ok:
  assumes "timers s xs" and "p \<notin> set xs" and "node_next (t_node s p) = None"
  shows "ok (timer_list_insert p s) (\<lambda>t. \<exists>ys. timers t ys \<and>
    due t ys = insert_due p (ticks (t_node s) p) (due s xs) \<and>
    t = s\<lparr>t_node := t_node t, mp_timer_id_head := mp_timer_id_head t\<rparr> \<and> same_data s t \<and>
    (\<forall>a. a \<notin> insert p (set xs) \<longrightarrow> t_node t a = t_node s a))"
proof (cases xs)
  case Nil
  let ?t = "s\<lparr>mp_timer_id_head := Some p\<rparr>"
  have run: "timer_list_insert p s = Inr ?t"
    using assms(1) Nil by (simp add: timers_def timer_list_insert_def)
  have "timers ?t [p]" using assms(3) by (simp add: timers_def)
  moreover have "due ?t [p] = insert_due p (ticks (t_node s) p) (due s xs)"
    by (simp add: Nil due_def insert_due_def)
  moreover have "same_data s ?t" by (simp add: same_data_def)
  ultimately show ?thesis unfolding run by auto
next
  case (Cons h hs)
  let ?nd = "t_node s" and ?T = "ticks_to_expire (t_node s p)"
  have l: "mp_timer_id_head s = Some h" "lseg ?nd (Some h) xs None" "distinct xs" "h \<noteq> p"
    using assms(1,2) Cons by (auto simp: timers_def)
  show ?thesis
  proof (cases "?T \<le> ticks_to_expire (?nd h)")
    case True
    then have d: "unat (ticks_to_expire (?nd h) - ?T) = ticks ?nd h - unat ?T" "unat ?T \<le> ticks ?nd h"
      by (simp_all add: unat_sub word_le_nat_alt)
    define nd where "nd = ?nd(h := (?nd h)\<lparr>ticks_to_expire := ticks_to_expire (?nd h) - ?T\<rparr>,
      p := (?nd p)\<lparr>node_next := Some h\<rparr>)"
    have run: "timer_list_insert p s = Inr (s\<lparr>t_node := nd, mp_timer_id_head := Some p\<rparr>)"
      using True l by (simp add: timer_list_insert_def upd_node_def nd_def)
    have "lseg nd (Some h) xs None = lseg ?nd (Some h) xs None"
      by (rule lseg_cong) (use assms(2) in \<open>auto simp: nd_def\<close>)
    then have "timers (s\<lparr>t_node := nd, mp_timer_id_head := Some p\<rparr>) (p # xs)"
      using l assms(2) by (simp add: timers_def) (simp add: nd_def)
    moreover have "due_from (ticks ?nd h) nd hs = due_from (ticks ?nd h) ?nd hs"
      by (rule due_cong) (use l(3) assms(2) Cons in \<open>auto simp: nd_def\<close>)
    then have "due_from 0 nd (p # xs) = insert_due p (unat ?T) (due_from 0 ?nd xs)"
      using d l Cons insert_due_split [of "[]" "unat ?T" "due_from 0 ?nd xs" p] by (simp add: nd_def)
    moreover have "same_data s (s\<lparr>t_node := nd, mp_timer_id_head := Some p\<rparr>)"
      by (simp add: same_data_def nd_def node_data_def)
    moreover have "\<forall>a. a \<notin> insert p (set xs) \<longrightarrow> nd a = ?nd a" using Cons by (simp add: nd_def)
    ultimately show ?thesis unfolding run by (auto simp: due_def)
  next
    case False
    obtain ys zs t cur where w: "insert_walk (Some h) ?nd ?T h = Some (t, last (h # ys), cur)" "xs = ys @ zs"
        "lseg ?nd (Some h) ys cur" "lseg ?nd cur zs None" "unat ?T = span ?nd ys + unat t"
        "\<forall>x \<in> set (due_from 0 ?nd ys). snd x < unat ?T" "zs = [] \<or> unat t \<le> ticks ?nd (hd zs)"
      using insert_walk_ok [OF l(2), of ?T h] by blast
    have "ys \<noteq> []"
    proof
      assume "ys = []"
      then have "zs = h # hs" using w(2) Cons by simp
      then have "unat ?T \<le> ticks ?nd h" using w(5,7) \<open>ys = []\<close> by simp
      then show False using False by (simp add: word_le_nat_alt)
    qed
    then obtain ys0 q where ys: "ys = ys0 @ [q]" by (cases ys rule: rev_cases) auto
    have dist: "distinct (ys0 @ q # zs)" "p \<notin> set (ys0 @ q # zs)" using l(3) assms(2) w(2) ys by auto
    have cur: "cur = (case zs of [] \<Rightarrow> None | c # _ \<Rightarrow> Some c)" using w(4) by (cases zs) simp_all
    define nd1 where "nd1 = (case zs of [] \<Rightarrow> ?nd
      | c # _ \<Rightarrow> ?nd(c := (?nd c)\<lparr>ticks_to_expire := ticks_to_expire (?nd c) - t\<rparr>))"
    define nd where "nd = nd1(p := (nd1 p)\<lparr>ticks_to_expire := t, node_next := cur\<rparr>,
      q := (nd1 q)\<lparr>node_next := Some p\<rparr>)"
    have run: "timer_list_insert p s = Inr (s\<lparr>t_node := nd\<rparr>)"
      using False l w(1) ys dist
      by (cases zs) (auto simp: timer_list_insert_def upd_node_def Let_def cur nd_def nd1_def fun_upd_twist)
    have nxt: "node_next (nd1 a) = node_next (?nd a)" for a by (simp add: nd1_def split: list.split)
    have "lseg ?nd (Some h) ys0 (Some q)" using w(3) by (auto simp: ys lseg_append)
    moreover have "lseg nd (Some h) ys0 (Some q) = lseg ?nd (Some h) ys0 (Some q)"
      by (rule lseg_cong) (use dist in \<open>auto simp: nd_def nxt\<close>)
    moreover have "lseg nd cur zs None = lseg ?nd cur zs None"
      by (rule lseg_cong) (use dist in \<open>auto simp: nd_def nxt\<close>)
    moreover have "node_next (nd q) = Some p" "node_next (nd p) = cur" using dist by (auto simp: nd_def)
    ultimately have "lseg nd (Some h) (ys @ p # zs) None" using w(4) by (auto simp: ys lseg_append)
    then have "timers (s\<lparr>t_node := nd\<rparr>) (ys @ p # zs)" using l(1) dist ys by (auto simp: timers_def)
    moreover have "due_from 0 nd (ys @ p # zs) = insert_due p (unat ?T) (due_from 0 ?nd xs)"
    proof -
      have ys_same: "ticks nd a = ticks ?nd a" if "a \<in> set ys" for a
        using that dist by (cases zs) (auto simp: nd_def nd1_def ys)
      then have "due_from 0 nd ys = due_from 0 ?nd ys" "span nd ys = span ?nd ys"
        by (auto intro!: due_cong arg_cong [of _ _ sum_list] simp: span_def)
      moreover have "ticks nd p = unat t" using dist by (auto simp: nd_def)
      moreover have "due_from (unat ?T) nd zs = due_from (span ?nd ys) ?nd zs"
      proof (cases zs)
        case (Cons c cs)
        have "ticks nd c = ticks ?nd c - unat t" "unat t \<le> ticks ?nd c"
          using w(7) dist Cons by (auto simp: nd_def nd1_def unat_sub word_le_nat_alt)
        moreover have "due_from k nd cs = due_from k ?nd cs" for k
          by (rule due_cong) (use dist Cons in \<open>auto simp: nd_def nd1_def\<close>)
        ultimately show ?thesis using w(5) Cons by simp
      qed simp
      moreover have "due_from (span ?nd ys) ?nd zs = [] \<or> unat ?T \<le> snd (hd (due_from (span ?nd ys) ?nd zs))"
        using w(5,7) by (cases zs) auto
      ultimately show ?thesis
        using insert_due_split [of "due_from 0 ?nd ys" "unat ?T" "due_from (span ?nd ys) ?nd zs" p] w(2,5,6)
        by (simp add: due_append)
    qed
    moreover have "same_data s (s\<lparr>t_node := nd\<rparr>)"
      by (cases zs) (auto simp: same_data_def nd_def nd1_def node_data_def)
    moreover have "\<forall>a. a \<notin> insert p (set xs) \<longrightarrow> nd a = ?nd a"
      using w(2) ys by (cases zs) (simp_all add: nd_def nd1_def)
    ultimately show ?thesis unfolding run by (auto simp: due_def)
  qed
qed

section \<open>Removal\<close>

lemma unat_add_u32: "unat a + unat b < 2 ^ 32 \<Longrightarrow> unat (a + b :: u32) = unat a + unat b"
  by (simp add: unat_word_ariths)

lemma remove_walk_found:
  "lseg nd cur (ys @ p # zs) None \<Longrightarrow> p \<notin> set ys \<Longrightarrow>
   remove_walk cur nd p (Some h) = Some (Some (last (h # ys)), Some p)"
proof (induction ys arbitrary: cur h)
  case Nil
  then show ?case by (simp add: remove_walk.simps)
next
  case (Cons a ys)
  then show ?case using Cons.IH [of "node_next (nd a)" a] by (simp add: remove_walk.simps [of "Some a"])
qed

lemma remove_walk_absent:
  "lseg nd cur xs None \<Longrightarrow> p \<notin> set xs \<Longrightarrow> \<exists>q. remove_walk cur nd p q0 = Some (q, None)"
proof (induction xs arbitrary: cur q0)
  case Nil
  then show ?case by (simp add: remove_walk.simps)
next
  case (Cons a xs)
  then show ?case using Cons.IH [of "node_next (nd a)" "Some a"] by (simp add: remove_walk.simps [of "Some a"])
qed

lemma due_removed:
  assumes "p \<notin> set ys" "p \<notin> set zs" "\<And>a. a \<in> set ys \<Longrightarrow> ticks nd' a = ticks nd a"
    and "zs = [] \<or> ticks nd' (hd zs) = ticks nd p + ticks nd (hd zs)" "\<And>a. a \<in> set (tl zs) \<Longrightarrow> ticks nd' a = ticks nd a"
  shows "due_from t nd' (ys @ zs) = filter (\<lambda>x. fst x \<noteq> p) (due_from t nd (ys @ p # zs))"
proof -
  have keep: "filter (\<lambda>x. fst x \<noteq> p) (due_from k nd as) = due_from k nd as" if "p \<notin> set as" for k as
    using that by (auto intro!: filter_True dest: in_set_due)
  have "due_from t nd' ys = due_from t nd ys" by (rule due_cong) (rule assms(3))
  moreover have "span nd' ys = span nd ys" using assms(3) by (auto simp: span_def intro!: arg_cong [of _ _ sum_list])
  moreover have "due_from (t + span nd ys) nd' zs = due_from (t + span nd ys + ticks nd p) nd zs"
    using assms(4,5) by (cases zs) (auto simp: add.assoc intro: due_cong)
  ultimately show ?thesis using assms(1,2) by (simp add: due_append keep)
qed

text \<open>
  \<open>timer_list_remove\<close> takes the timer out and leaves the expiry of every other timer as it is. The sums of ticks must fit 32 bits. When the last
  timer goes the counter is cleared and \<open>m_rtc1_reset\<close> notes it.
\<close>

definition counter_cleared :: "'m tmr \<Rightarrow> 'm tmr" where
  "counter_cleared s = (rtc_trigger RTC_CLEAR s)\<lparr>m_ticks_latest := 0, m_rtc1_reset := True\<rparr>"

lemma remove_ok:
  assumes "timers s xs" and "p \<in> set xs" and "span (t_node s) xs < 2 ^ 32"
  shows "ok (timer_list_remove p s) (\<lambda>t. timers t (remove1 p xs) \<and>
    due t (remove1 p xs) = filter (\<lambda>x. fst x \<noteq> p) (due s xs) \<and> same_data s t \<and>
    t = (if xs = [p] then counter_cleared s else s)\<lparr>t_node := t_node t, mp_timer_id_head := mp_timer_id_head t\<rparr>)"
proof -
  let ?nd = "t_node s"
  obtain ys zs where xs: "xs = ys @ p # zs" "p \<notin> set ys" using assms(2) by (meson split_list_first)
  have d: "distinct (ys @ p # zs)" "lseg ?nd (mp_timer_id_head s) (ys @ p # zs) None"
    using assms(1) xs by (auto simp: timers_def)
  have r1: "remove1 p xs = ys @ zs" using xs by (simp add: remove1_append)
  obtain h where h: "mp_timer_id_head s = Some h" "h = hd (ys @ [p])" using d(2) by (cases ys) auto
  define q where "q = last (h # ys)"
  have walk: "remove_walk (mp_timer_id_head s) ?nd p (mp_timer_id_head s) = Some (Some q, Some p)"
    using remove_walk_found [OF d(2) xs(2)] h(1) by (simp add: q_def)
  have np: "node_next (?nd p) = (case zs of [] \<Rightarrow> None | c # _ \<Rightarrow> Some c)"
    using d(2) by (cases zs) (auto simp: lseg_append)
  define bump where "bump nd = (case zs of [] \<Rightarrow> nd
      | c # _ \<Rightarrow> nd(c := (nd c)\<lparr>ticks_to_expire := ticks_to_expire (nd c) + ticks_to_expire (?nd p)\<rparr>))"
    for nd :: "nat \<Rightarrow> timer_node_t"
  define nd where "nd = bump (?nd(q := (?nd q)\<lparr>node_next := node_next (?nd p)\<rparr>))"
  have nd_next: "node_next (nd a) = (if a = q then node_next (?nd p) else node_next (?nd a))" for a
    by (auto simp: nd_def bump_def split: list.split)
  have nd_ticks: "ticks nd a = ticks ?nd a" if "zs = [] \<or> a \<noteq> hd zs" for a
    using that by (auto simp: nd_def bump_def split: list.split)
  have carry: "zs = [] \<or> ticks nd (hd zs) = ticks ?nd p + ticks ?nd (hd zs)"
  proof (cases zs)
    case (Cons c cs)
    have "ticks_to_expire (nd c) = ticks_to_expire (?nd c) + ticks_to_expire (?nd p)"
      by (simp add: nd_def bump_def Cons)
    moreover have "ticks ?nd c + ticks ?nd p < 2 ^ 32" using assms(3) Cons xs by simp
    ultimately show ?thesis using Cons unat_add_u32 by simp
  qed simp
  have data: "node_data (nd a) = node_data (?nd a)" for a
    by (auto simp: nd_def bump_def node_data_def split: list.split)
  have due: "due_from 0 nd (ys @ zs) = filter (\<lambda>x. fst x \<noteq> p) (due_from 0 ?nd xs)"
    unfolding xs(1) by (rule due_removed; cases zs) (use d(1) carry in \<open>auto intro!: nd_ticks\<close>)
  show ?thesis
  proof (cases ys)
    case Nil
    then have q: "q = p" "h = p" using h by (simp_all add: q_def)
    have "lseg nd (node_next (?nd p)) zs None"
      using d Nil nd_next q by (auto simp: lseg_cong [of zs nd ?nd])
    then have t: "lseg nd (node_next (?nd p)) (remove1 p xs) None \<and> distinct (remove1 p xs)"
      using d(1) r1 Nil by simp
    have run: "timer_list_remove p s = Inr ((if xs = [p] then counter_cleared s else s)
        \<lparr>t_node := nd, mp_timer_id_head := node_next (?nd p)\<rparr>)"
    proof -
      have "(?nd p)\<lparr>node_next := node_next (?nd p)\<rparr> = ?nd p" by simp
      then have nd: "nd = bump ?nd" by (simp only: nd_def q(1) fun_upd_triv)
      then have "zs = [] \<Longrightarrow> nd = t_node (s\<lparr>mp_timer_id_head := None\<rparr>)" by (simp add: bump_def)
      then show ?thesis
        using walk q xs(1) np h(1) Nil d(1)
        by (cases zs) (simp_all add: timer_list_remove_def upd_node_def rtc_trigger_def counter_cleared_def nd bump_def)
    qed
    show ?thesis unfolding run
      using t due r1 data by (auto simp: timers_def AppTimerList.due_def same_data_def counter_cleared_def rtc_trigger_def)
  next
    case (Cons a as)
    then have "ys = butlast ys @ [q]" by (simp add: q_def)
    then obtain ys0 where ys: "ys = ys0 @ [q]" by blast
    have "q \<noteq> p" "xs \<noteq> [p]" using d(1) ys xs by auto
    then have run: "timer_list_remove p s = Inr (s\<lparr>t_node := nd\<rparr>)"
      using walk np
      by (cases zs) (simp_all add: timer_list_remove_def upd_node_def nd_def bump_def)
    have "lseg ?nd (mp_timer_id_head s) ys0 (Some q)" "lseg ?nd (node_next (?nd p)) zs None"
      using d(2) by (auto simp: ys lseg_append)
    moreover have "lseg nd (mp_timer_id_head s) ys0 (Some q) = lseg ?nd (mp_timer_id_head s) ys0 (Some q)"
      by (rule lseg_cong) (use d(1) in \<open>auto simp: nd_next ys\<close>)
    moreover have "lseg nd (node_next (?nd p)) zs None = lseg ?nd (node_next (?nd p)) zs None"
      by (rule lseg_cong) (use d(1) in \<open>auto simp: nd_next ys\<close>)
    ultimately have "lseg nd (mp_timer_id_head s) (ys @ zs) None" by (auto simp: ys lseg_append nd_next)
    then show ?thesis unfolding run
      using due r1 data d(1) \<open>xs \<noteq> [p]\<close> by (auto simp: timers_def AppTimerList.due_def same_data_def)
  qed
qed

lemma remove_absent:
  assumes "timers s xs" and "p \<notin> set xs"
  shows "timer_list_remove p s = Inr s"
proof -
  obtain q where "remove_walk (mp_timer_id_head s) (t_node s) p (mp_timer_id_head s) = Some (q, None)"
    using remove_walk_absent assms by (metis timers_def)
  then show ?thesis by (cases q) (simp_all add: timer_list_remove_def)
qed

end
