(* ===== verification/AppTimerExpiry.thy ===== *)
theory AppTimerExpiry
  imports AppTimerList
begin

text \<open>
  What happens when timers expire: the RTC1 interrupt calls the handlers of the timers that are due, in order of expiry, and
  the SWI interrupt takes them from the list and enters the periodic ones again, one interval after the tick at
  which they were due.
\<close>

unbundle bit_operations_syntax

section \<open>Timeout handlers\<close>

text \<open>
  Handlers may start and stop timers: that queues an operation and touches no link, no ticks and
  not the head of the list.
\<close>

definition same_list :: "'m tmr \<Rightarrow> 'm tmr \<Rightarrow> bool" where
  "same_list s t \<longleftrightarrow> mp_timer_id_head t = mp_timer_id_head s \<and> m_ticks_latest t = m_ticks_latest s \<and>
     (\<forall>a. node_next (t_node t a) = node_next (t_node s a) \<and> ticks_to_expire (t_node t a) = ticks_to_expire (t_node s a))"

definition keeps_list :: "'m tmr_env \<Rightarrow> bool" where
  "keeps_list env \<longleftrightarrow>
     (\<forall>h c s t. timeout_handler env h c s = Inr t \<longrightarrow> same_list s t) \<and>
     (\<forall>h c s r t. evt_schedule_func env h c s = Inr (r, t) \<longrightarrow> same_list s t)"

lemma same_list_refl [simp]: "same_list s s"
  by (simp add: same_list_def)

lemma same_list_trans: "same_list s t \<Longrightarrow> same_list t u \<Longrightarrow> same_list s u"
  by (simp add: same_list_def)

lemma same_list_timers: "same_list s t \<Longrightarrow> timers t xs = timers s xs"
  by (simp add: same_list_def timers_def lseg_cong [of xs "t_node t" "t_node s"])

lemma same_list_due: "same_list s t \<Longrightarrow> due_from k (t_node t) xs = due_from k (t_node s) xs"
  by (rule due_cong) (simp add: same_list_def)

lemma op_schedules_keep_list:
  "timer_start_op_schedule p i n c s = Inr (r, t) \<Longrightarrow> same_list s t"
  "timer_stop_op_schedule q ty s = Inr (r, t) \<Longrightarrow> same_list s t"
  by (auto simp: timer_start_op_schedule_def timer_stop_op_schedule_def then_do_def store_op_def user_op_enque_def
    rtc1_counter_get_def timer_list_handler_sched_def same_list_def Let_def split: sum.splits option.splits)

lemma start_keeps_list: "app_timer_start p n c s = Inr (r, t) \<Longrightarrow> same_list s t"
  by (auto simp: app_timer_start_def split: option.splits if_splits dest: op_schedules_keep_list)

lemma stop_keeps_list: "app_timer_stop p s = Inr (r, t) \<Longrightarrow> same_list s t"
proof -
  have "same_list s (upd_node a (\<lambda>n. n\<lparr>is_running := False\<rparr>) s)" for a
    by (simp add: same_list_def upd_node_def)
  then show "app_timer_stop p s = Inr (r, t) \<Longrightarrow> same_list s t"
    by (auto simp: app_timer_stop_def split: option.splits if_splits
      dest: op_schedules_keep_list intro: same_list_trans)
qed

lemma expire_one_keeps_list:
  assumes "keeps_list env" and "expire_one env p s = Inr t"
  shows "same_list s t"
proof (cases "is_running (t_node s p)")
  case True
  let ?s = "upd_node p (\<lambda>n. n\<lparr>is_running := False\<rparr>) s"
  have "same_list s ?s" by (simp add: same_list_def upd_node_def)
  moreover have "same_list ?s t"
    using assms True by (auto simp: expire_one_def timeout_handler_exec_def app_error_check_def then_do_def
      keeps_list_def split: if_splits option.splits sum.splits prod.splits)
  ultimately show ?thesis by (rule same_list_trans)
qed (use assms in \<open>simp add: expire_one_def\<close>)

section \<open>The RTC1 interrupt\<close>

fun expire_all :: "'m tmr_env \<Rightarrow> nat list \<Rightarrow> 'm tmr \<Rightarrow> 'm tmr result" where
  "expire_all env [] s = Inr s"
| "expire_all env (p # ps) s = then_do (expire_one env p s) (expire_all env ps)"

definition expired_by :: "nat \<Rightarrow> (nat \<times> nat) list \<Rightarrow> (nat \<times> nat) list" where
  "expired_by n ds = takeWhile (\<lambda>x. snd x \<le> n) ds"

primrec last_due :: "nat \<Rightarrow> (nat \<times> nat) list \<Rightarrow> nat" where
  "last_due k [] = k"
| "last_due k (x # xs) = last_due (snd x) xs"

lemma expire_loop_ok:
  assumes "keeps_list env" and "lseg (t_node s) cur xs None" and "unat expired + unat elapsed < 2 ^ 32"
  shows "expire_loop cur env elapsed expired s =
    (let es = expired_by (unat expired + unat elapsed) (due_from (unat expired) (t_node s) xs)
     in Some (then_do (expire_all env (map fst es) s) (\<lambda>t. Inr (of_nat (last_due (unat expired) es), t))))"
  using assms(2,3)
proof (induction xs arbitrary: s cur elapsed expired)
  case Nil
  then show ?case by (simp add: expire_loop.simps expired_by_def then_do_def)
next
  case (Cons p ps)
  let ?k = "ticks_to_expire (t_node s p)"
  have cur: "cur = Some p" "lseg (t_node s) (node_next (t_node s p)) ps None" using Cons.prems(1) by simp_all
  show ?case
  proof (cases "elapsed < ?k")
    case True
    then have "\<not> unat expired + unat ?k \<le> unat expired + unat elapsed" by (simp add: word_less_nat_alt)
    then show ?thesis
      using True cur by (simp add: expire_loop.simps [of "Some p"] expired_by_def then_do_def)
  next
    case False
    then have k: "unat ?k \<le> unat elapsed" by (simp add: word_less_nat_alt)
    have n: "unat (elapsed - ?k) = unat elapsed - unat ?k" "unat (expired + ?k) = unat expired + unat ?k"
      using k Cons.prems(2) by (simp_all add: unat_sub word_le_nat_alt unat_add_u32)
    show ?thesis
    proof (cases "expire_one env p s")
      case (Inl e)
      then show ?thesis using False cur k
        by (simp add: expire_loop.simps [of "Some p"] expired_by_def then_do_def)
    next
      case (Inr t)
      then have st: "same_list s t" by (rule expire_one_keeps_list [OF assms(1)])
      then have "lseg (t_node t) (node_next (t_node s p)) ps None"
        using cur(2) by (simp add: same_list_def lseg_cong [of ps "t_node t" "t_node s"])
      then have "expire_loop (node_next (t_node s p)) env (elapsed - ?k) (expired + ?k) t =
        (let es = expired_by (unat expired + unat elapsed) (due_from (unat expired + unat ?k) (t_node s) ps)
         in Some (then_do (expire_all env (map fst es) t)
           (\<lambda>t. Inr (of_nat (last_due (unat expired + unat ?k) es), t))))"
        using Cons.IH [of t "node_next (t_node s p)" "expired + ?k" "elapsed - ?k"] Cons.prems(2) n k
        by (simp add: same_list_due [OF st])
      then show ?thesis using False cur k Inr
        by (simp add: expire_loop.simps [of "Some p"] expired_by_def then_do_def Let_def split: sum.split)
    qed
  qed
qed

text \<open>
  The reference: of the given timers, one after the other, those that are running are marked as stopped, and their handler is called
  with their context; with a scheduler (\<open>m_evt_schedule_func\<close>) it is posted there instead, and a refusal resets the chip.
\<close>

fun call_handlers :: "'m tmr_env \<Rightarrow> nat list \<Rightarrow> 'm tmr \<Rightarrow> 'm tmr result" where
  "call_handlers env [] s = Inr s"
| "call_handlers env (p # ps) s =
     (if \<not> is_running (t_node s p) then call_handlers env ps s
      else
        let h = p_timeout_handler (t_node s p); c = p_context (t_node s p);
            s1 = s\<lparr>t_node := (t_node s)(p := (t_node s p)\<lparr>is_running := False\<rparr>)\<rparr>
        in then_do
             (if m_evt_schedule_func s
              then (case evt_schedule_func env h c s1 of
                      Inl e \<Rightarrow> Inl e
                    | Inr (r, s2) \<Rightarrow> if r = NRF_SUCCESS then Inr s2 else Inl Reset)
              else (case h of None \<Rightarrow> Inl Null_Deref | Some f \<Rightarrow> timeout_handler env f c s1))
             (call_handlers env ps))"

lemma expire_all_calls: "expire_all env ps s = call_handlers env ps s"
proof (induction ps arbitrary: s)
  case (Cons p ps)
  have "expire_one env p s =
      (if \<not> is_running (t_node s p) then Inr s
       else let h = p_timeout_handler (t_node s p); c = p_context (t_node s p);
                s1 = s\<lparr>t_node := (t_node s)(p := (t_node s p)\<lparr>is_running := False\<rparr>)\<rparr>
            in if m_evt_schedule_func s
               then (case evt_schedule_func env h c s1 of
                       Inl e \<Rightarrow> Inl e
                     | Inr (r, s2) \<Rightarrow> if r = NRF_SUCCESS then Inr s2 else Inl Reset)
               else (case h of None \<Rightarrow> Inl Null_Deref | Some f \<Rightarrow> timeout_handler env f c s1))"
    by (cases "p_timeout_handler (t_node s p)")
      (auto simp: expire_one_def timeout_handler_exec_def upd_node_def app_error_check_def then_do_def Let_def split: sum.split)
  then show ?case using Cons by (simp add: Let_def then_do_def fun_eq_iff split: sum.split)
qed simp

text \<open>
  The ticks of the SWI interrupt are double-buffered: with nothing waiting the other entry is written, else the entry that waits is
  overwritten. Then the interrupt is requested.
\<close>

definition queue_elapsed :: "u32 \<Rightarrow> 'm tmr \<Rightarrow> 'm tmr result" where
  "queue_elapsed n s =
     (let w = (if m_ticks_elapsed_q_read_ind s = m_ticks_elapsed_q_write_ind s
               then (if m_ticks_elapsed_q_write_ind s + 1 = 2 then 0 else m_ticks_elapsed_q_write_ind s + 1)
               else m_ticks_elapsed_q_write_ind s)
      in if unat w < length (m_ticks_elapsed s)
         then Inr (timer_list_handler_sched
           (s\<lparr>m_ticks_elapsed_q_write_ind := w, m_ticks_elapsed := (m_ticks_elapsed s)[unat w := n]\<rparr>))
         else Inl Out_Of_Bounds)"

text \<open>
  C29. The RTC1 interrupt calls the handlers of exactly the running timers that are due within the ticks since \<open>m_ticks_latest\<close>, modulo \<open>2 ^ 24\<close>, in the order of
  their expiry, each with its context and marked as stopped (or posts them to the scheduler, if one is used), and queues for the SWI
  interrupt the ticks at which the last of them was due: no timer fires early or is passed over, whatever the handlers do that leaves
  the list alone, as \<open>app_timer_start\<close> and \<open>app_timer_stop\<close> do.
\<close>

theorem rtc_expires_due_timers:
  assumes "keeps_list env" and "timers s xs" and "xs \<noteq> []"
  shows "RTC1_IRQHandler env s =
    (let e = unat (rtc_reads s (rtc_n s) - m_ticks_latest s) mod 2 ^ 24; es = filter (\<lambda>x. snd x \<le> e) (due s xs)
     in then_do (call_handlers env (map fst es) (s\<lparr>rtc_events := {}, rtc_n := Suc (rtc_n s)\<rparr>)) (queue_elapsed (of_nat (last_due 0 es))))"
proof -
  let ?s = "s\<lparr>rtc_events := {}, rtc_n := Suc (rtc_n s)\<rparr>" and ?e = "ticks_diff_get (rtc_reads s (rtc_n s)) (m_ticks_latest s)"
  obtain p ps where xs: "xs = p # ps" using assms(3) by (cases xs) auto
  have l: "lseg (t_node ?s) (mp_timer_id_head s) xs None" "mp_timer_id_head s = Some p"
    using assms(2) xs by (simp_all add: timers_def)
  have "?e = (rtc_reads s (rtc_n s) - m_ticks_latest s) AND mask 24"
    by (simp add: ticks_diff_get_def MAX_RTC_COUNTER_VAL_def mask_eq_exp_minus_1)
  then have e: "unat ?e = unat (rtc_reads s (rtc_n s) - m_ticks_latest s) mod 2 ^ 24"
    by (simp only: unat_and_mask)
  have "expire_loop (mp_timer_id_head s) env ?e 0 ?s =
    Some (then_do (expire_all env (map fst (filter (\<lambda>x. snd x \<le> unat ?e) (due s xs))) ?s)
      (\<lambda>t. Inr (of_nat (last_due 0 (filter (\<lambda>x. snd x \<le> unat ?e) (due s xs))), t)))"
    using expire_loop_ok [OF assms(1) l(1), of 0 ?e] unsigned_less [of ?e, where 'a = nat]
    by (simp add: due_def Let_def expired_by_def due_takeWhile)
  then show ?thesis
    unfolding e [symmetric] Let_def RTC1_IRQHandler_def timer_timeouts_check_def rtc1_counter_get_def
      expire_all_calls [symmetric]
    using l(2) by (simp add: loop_end_def queue_elapsed_def next_elapsed_ind_def CONTEXT_QUEUE_SIZE_MAX_def store_at_def
        then_do_def Let_def split: sum.split)
qed

section \<open>The SWI interrupt\<close>

text \<open>The start that \<open>expired_timers_handler\<close> gives a periodic timer that was due at tick \<open>d\<close>.\<close>

definition restarts :: "u32 \<Rightarrow> (nat \<times> nat) list \<Rightarrow> (nat \<Rightarrow> timer_node_t) \<Rightarrow> (nat \<Rightarrow> timer_node_t) \<Rightarrow> bool" where
  "restarts prev ps nd nd' \<longleftrightarrow>
     (\<forall>a d. (a, d) \<in> set ps \<longrightarrow> ticks_at_start (nd' a) = (prev + of_nat d) AND MAX_RTC_COUNTER_VAL \<and>
        ticks_first_interval (nd' a) = ticks_periodic_interval (nd a)) \<and>
     (\<forall>a. a \<notin> fst ` set ps \<longrightarrow> ticks_at_start (nd' a) = ticks_at_start (nd a) \<and>
        ticks_first_interval (nd' a) = ticks_first_interval (nd a)) \<and>
     (\<forall>a. ticks_periodic_interval (nd' a) = ticks_periodic_interval (nd a))"

abbreviation periodic :: "(nat \<Rightarrow> timer_node_t) \<Rightarrow> nat \<times> nat \<Rightarrow> bool" where
  "periodic nd x \<equiv> ticks_periodic_interval (nd (fst x)) \<noteq> 0"

lemma expired_timers_loop_ok:
  assumes "lseg (t_node s) (mp_timer_id_head s) xs None" and "lseg (t_node s) restart rs None" and "distinct (xs @ rs)"
    and "unat expired + unat elapsed < 2 ^ 32"
  shows "\<exists>restart' t. expired_timers_loop elapsed expired prev restart s = Some (restart', t) \<and>
    (let n = unat expired + unat elapsed; D = due_from (unat expired) (t_node s) xs;
         ps = filter (periodic (t_node s)) (expired_by n D); zs = map fst (dropWhile (\<lambda>x. snd x \<le> n) D)
     in lseg (t_node t) (mp_timer_id_head t) zs None \<and> due_from n (t_node t) zs = dropWhile (\<lambda>x. snd x \<le> n) D \<and>
        lseg (t_node t) restart' (rev (map fst ps) @ rs) None \<and> restarts prev ps (t_node s) (t_node t) \<and>
        t = s\<lparr>t_node := t_node t, mp_timer_id_head := mp_timer_id_head t\<rparr>)"
  using assms
proof (induction xs arbitrary: s restart rs elapsed expired)
  case Nil
  then show ?case by (simp add: expired_timers_loop.simps expired_by_def restarts_def)
next
  case (Cons p ps)
  let ?k = "ticks_to_expire (t_node s p)"
  have head: "mp_timer_id_head s = Some p" "lseg (t_node s) (node_next (t_node s p)) ps None"
    using Cons.prems(1) by simp_all
  have p: "p \<notin> set ps" "p \<notin> set rs" using Cons.prems(3) by auto
  show ?case
  proof (cases "elapsed < ?k")
    case True
    let ?t = "upd_node p (\<lambda>n. n\<lparr>ticks_to_expire := ?k - elapsed\<rparr>) s"
    have k: "unat (?k - elapsed) = unat ?k - unat elapsed" "unat elapsed < unat ?k"
      using True by (simp_all add: word_less_nat_alt unat_sub word_le_nat_alt)
    have "\<not> unat expired + unat ?k \<le> unat expired + unat elapsed" using k by simp
    moreover have "expired_timers_loop elapsed expired prev restart s = Some (restart, ?t)"
      using True head by (simp add: expired_timers_loop.simps upd_node_def)
    ultimately show ?thesis
      using k head Cons.prems p by (simp add: expired_by_def restarts_def upd_node_def)
  next
    case False
    then have k: "unat ?k \<le> unat elapsed" by (simp add: word_less_nat_alt)
    have n: "unat (elapsed - ?k) = unat elapsed - unat ?k" "unat (expired + ?k) = unat expired + unat ?k"
      using k Cons.prems(4) by (simp_all add: unat_sub word_le_nat_alt unat_add_u32)
    let ?e = "elapsed - ?k" and ?x = "expired + ?k" and ?P = "ticks_periodic_interval (t_node s p) \<noteq> 0"
    define nd where "nd = (t_node s)(p := (if ?P then (t_node s p)\<lparr>ticks_to_expire := 0,
      ticks_at_start := (prev + ?x) AND MAX_RTC_COUNTER_VAL, ticks_first_interval := ticks_periodic_interval (t_node s p),
      node_next := restart\<rparr> else (t_node s p)\<lparr>ticks_to_expire := 0\<rparr>))"
    define u where "u = s\<lparr>mp_timer_id_head := node_next (t_node s p), t_node := nd\<rparr>"
    let ?r = "if ?P then Some p else restart" and ?rs = "if ?P then p # rs else rs"
    have swap: "s\<lparr>t_node := f, mp_timer_id_head := h\<rparr> = s\<lparr>mp_timer_id_head := h, t_node := f\<rparr>" for f h by simp
    have step: "expired_timers_loop elapsed expired prev restart s = expired_timers_loop ?e ?x prev ?r u"
      using False head
      by (subst expired_timers_loop.simps) (simp add: Let_def upd_node_def nd_def u_def swap)
    have "lseg (t_node u) (mp_timer_id_head u) ps None" "lseg (t_node u) ?r ?rs None" "distinct (ps @ ?rs)"
      using head Cons.prems(2,3) p by (simp_all add: u_def nd_def)
    from Cons.IH [OF this, of ?x ?e] Cons.prems(4) n k obtain r t where
      t: "expired_timers_loop ?e ?x prev ?r u = Some (r, t)" and
      post: "let n = unat expired + unat elapsed; D = due_from (unat expired + unat ?k) (t_node u) ps;
         qs = filter (periodic (t_node u)) (expired_by n D); zs = map fst (dropWhile (\<lambda>x. snd x \<le> n) D)
        in lseg (t_node t) (mp_timer_id_head t) zs None \<and> due_from n (t_node t) zs = dropWhile (\<lambda>x. snd x \<le> n) D \<and>
          lseg (t_node t) r (rev (map fst qs) @ ?rs) None \<and> restarts prev qs (t_node u) (t_node t) \<and>
          t = u\<lparr>t_node := t_node t, mp_timer_id_head := mp_timer_id_head t\<rparr>"
      by auto
    let ?n = "unat expired + unat elapsed" and ?D = "due_from (unat expired + unat ?k) (t_node s) ps"
    let ?qs = "filter (periodic (t_node s)) (expired_by ?n ?D)"
    have D: "due_from (unat expired + unat ?k) (t_node u) ps = ?D" using p by (simp add: u_def nd_def)
    have per: "ticks_periodic_interval (nd a) = ticks_periodic_interval (t_node s a)" for a by (simp add: nd_def)
    then have qs: "filter (periodic (t_node u)) (expired_by ?n ?D) = ?qs" by (simp add: u_def)
    have notin: "p \<notin> fst ` set ?qs"
      using p(1) in_set_due [of _ "unat expired + unat ?k" "t_node s" ps]
      by (auto simp: expired_by_def dest!: set_takeWhileD)
    have x: "(of_nat (unat expired + unat ?k) :: u32) = ?x" by simp
    have "restarts prev (if ?P then (p, unat expired + unat ?k) # ?qs else ?qs) (t_node s) (t_node t)"
      using post notin unfolding D qs Let_def restarts_def
      by (auto simp: u_def nd_def x)
    then show ?thesis
      using post t k unfolding step D qs Let_def
      by (auto simp: expired_by_def u_def)
  qed
qed

end
