(* ===== verification/AppTimerUpdate.thy ===== *)
theory AppTimerUpdate
  imports AppTimerExpiry "HOL-Library.Multiset"
begin

text \<open>
  The SWI interrupt: after the timers that have expired are taken from the list, the periodic ones and the ones that the
  application started are entered.
\<close>

unbundle bit_operations_syntax

section \<open>Entering timers\<close>

lemma mset_insert_due [simp]: "mset (insert_due p d ds) = add_mset (p, d) (mset ds)"
  by (simp add: insert_due_def) (metis mset_append takeWhile_dropWhile_id)

definition start_ticks :: "u32 \<Rightarrow> timer_node_t \<Rightarrow> nat" where
  "start_ticks latest n = unat (ticks_to_expire (prepare_node latest n))"

lemma prepared_ok:
  assumes "timers s xs" and "p \<notin> set xs"
  shows "\<exists>t ys. insert_prepared p s = Inr t \<and> timers t ys \<and> set ys = insert p (set xs) \<and>
    due t ys = insert_due p (start_ticks (m_ticks_latest s) (t_node s p)) (due s xs) \<and>
    t = s\<lparr>t_node := t_node t, mp_timer_id_head := mp_timer_id_head t\<rparr> \<and>
    (\<forall>a. a \<notin> insert p (set xs) \<longrightarrow> t_node t a = t_node s a) \<and> (\<forall>a. a \<noteq> p \<longrightarrow> node_data (t_node t a) = node_data (t_node s a)) \<and>
    node_data (t_node t p) = node_data (prepare_node (m_ticks_latest s) (t_node s p))"
proof -
  let ?s = "upd_node p (prepare_node (m_ticks_latest s)) s"
  have "timers ?s xs" "due ?s xs = due s xs"
    using assms by (simp_all add: timers_def upd_node_def due_def)
  moreover have "node_next (t_node ?s p) = None" "ticks (t_node ?s) p = start_ticks (m_ticks_latest s) (t_node s p)"
    by (simp_all add: upd_node_def start_ticks_def prepare_node_def Let_def)
  ultimately obtain t ys where t: "timer_list_insert p ?s = Inr t" "timers t ys"
      "due t ys = insert_due p (start_ticks (m_ticks_latest s) (t_node s p)) (due s xs)"
      "t = ?s\<lparr>t_node := t_node t, mp_timer_id_head := mp_timer_id_head t\<rparr>" "same_data ?s t"
      "\<forall>a. a \<notin> insert p (set xs) \<longrightarrow> t_node t a = t_node ?s a"
    using insert_ok [of ?s xs p] assms(2) unfolding ok_iff by auto
  have "set (map fst (due t ys)) = insert p (set (map fst (due s xs)))"
    unfolding t(3) by (metis (no_types) mset_insert_due fst_conv image_insert list.set_map set_mset_add_mset_insert set_mset_mset)
  then have "set ys = insert p (set xs)" by (simp only: due_def fst_due)
  moreover have "t = s\<lparr>t_node := t_node t, mp_timer_id_head := mp_timer_id_head t\<rparr>"
    by (subst t(4)) (simp add: upd_node_def)
  ultimately show ?thesis
    using t(1,2,3,5,6) by (intro exI [of _ t] exI [of _ ys]) (simp add: insert_prepared_def upd_node_def same_data_def)
qed

lemma insertions_restart_ok:
  assumes "timers s xs" and "lseg (t_node s) r rs None" and "distinct (xs @ rs)" and "q_first s = q_last s"
  shows "\<exists>t ys. insertions_loop r s = Some (Inr t) \<and> timers t ys \<and>
    mset (due t ys) = mset (due s xs) + mset (map (\<lambda>a. (a, start_ticks (m_ticks_latest s) (t_node s a))) rs) \<and>
    t = s\<lparr>t_node := t_node t, mp_timer_id_head := mp_timer_id_head t\<rparr>"
  using assms
proof (induction rs arbitrary: s xs r)
  case Nil
  then show ?case by (auto simp: insertions_loop.simps [of None])
next
  case (Cons p rs)
  then have r: "r = Some p" "p \<notin> set xs" "lseg (t_node s) (node_next (t_node s p)) rs None" by simp_all
  obtain t ys where t: "insert_prepared p s = Inr t" "timers t ys" "set ys = insert p (set xs)"
      "due t ys = insert_due p (start_ticks (m_ticks_latest s) (t_node s p)) (due s xs)"
      "t = s\<lparr>t_node := t_node t, mp_timer_id_head := mp_timer_id_head t\<rparr>"
      "\<forall>a. a \<notin> insert p (set xs) \<longrightarrow> t_node t a = t_node s a"
    using prepared_ok [OF Cons.prems(1) r(2)] by blast
  have same: "t_node t a = t_node s a" if "a \<in> set rs" for a
    using that t(6) Cons.prems(3) by auto
  have "lseg (t_node t) (node_next (t_node s p)) rs None"
    using r(3) same by (simp add: lseg_cong [of rs "t_node t" "t_node s"])
  moreover have "distinct (ys @ rs)" using t(2,3) Cons.prems(3) by (auto simp: timers_def)
  moreover have q: "q_first t = q_first s" "q_last t = q_last s" "m_ticks_latest t = m_ticks_latest s"
    by (subst t(5), simp)+
  then have "q_first t = q_last t" using Cons.prems(4) by simp
  ultimately obtain u zs where u: "insertions_loop (node_next (t_node s p)) t = Some (Inr u)" "timers u zs"
      "mset (due u zs) = mset (due t ys) + mset (map (\<lambda>a. (a, start_ticks (m_ticks_latest t) (t_node t a))) rs)"
      "u = t\<lparr>t_node := t_node u, mp_timer_id_head := mp_timer_id_head u\<rparr>"
    using Cons.IH [OF t(2)] by blast
  have "mset (due u zs) = mset (due s xs) + mset (map (\<lambda>a. (a, start_ticks (m_ticks_latest s) (t_node s a))) (p # rs))"
    using u(3) q(3) same by (simp add: t(4) cong: map_cong)
  moreover have "u = s\<lparr>t_node := t_node u, mp_timer_id_head := mp_timer_id_head u\<rparr>"
    by (subst u(4), subst t(5)) simp
  ultimately show ?case using t(1) u(1,2) r(1) by (simp add: insertions_loop.simps [of "Some p"]) blast
qed

section \<open>Periodic timers\<close>

lemma unat_of_minus: "k \<le> 2 ^ 23 \<Longrightarrow> 0 < k \<Longrightarrow> unat ((- of_nat k :: u32) AND mask 24) = 2 ^ 24 - k"
proof -
  assume k: "k \<le> 2 ^ 23" "0 < k"
  then have "(- of_nat k :: u32) = of_nat (2 ^ 32 - k)" by (simp add: of_nat_diff)
  moreover have "2 ^ 32 - k < 2 ^ 32" using k by simp
  ultimately have "unat (- of_nat k :: u32) = 2 ^ 32 - k" by (simp only: unat_of_nat_u32)
  moreover have "2 ^ 32 - k = (2 ^ 24 - k) + 255 * 2 ^ 24" using k by simp
  ultimately have "unat (- of_nat k :: u32) mod 2 ^ 24 = (2 ^ 24 - k) mod 2 ^ 24" by (simp only: mod_mult_self1)
  then show ?thesis using k by (simp add: unat_and_mask)
qed

lemma masked_diff: "(((x :: u32) AND mask 24) - (y AND mask 24)) AND mask 24 = (x - y) AND mask 24"
  unfolding take_bit_eq_mask [symmetric] by transfer (simp add: take_bit_diff)

text \<open>A timer that starts at tick \<open>d\<close> and enters the list at tick \<open>n\<close> expires one interval after \<open>d\<close>, or at once if that has passed.\<close>

lemma restart_ticks:
  assumes "d \<le> n" and "n - d \<le> 2 ^ 23"
    and "ticks_at_start nd = (prev + of_nat d) AND MAX_RTC_COUNTER_VAL" and "latest = (prev + of_nat n) AND MAX_RTC_COUNTER_VAL"
  shows "start_ticks latest nd = d + unat (ticks_first_interval nd) - n"
proof -
  have M: "MAX_RTC_COUNTER_VAL = mask 24" by (simp add: MAX_RTC_COUNTER_VAL_def mask_eq_exp_minus_1)
  have split: "(of_nat n :: u32) = of_nat d + of_nat (n - d)" using assms(1) by (simp flip: of_nat_add)
  have ahead: "(ticks_at_start nd - latest) AND mask 24 = (- of_nat (n - d)) AND mask 24"
    unfolding assms(3,4) M masked_diff by (simp add: split)
  have behind: "(latest - ticks_at_start nd) AND mask 24 = of_nat (n - d) AND mask 24"
    unfolding assms(3,4) M masked_diff by (simp add: split)
  have delta: "unat (of_nat (n - d) AND mask 24 :: u32) = n - d"
    using assms(2) by (simp add: unat_and_mask unat_of_nat_u32)
  show ?thesis
  proof (cases "d = n")
    case True
    then show ?thesis
      using ahead by (simp add: start_ticks_def prepare_node_def Let_def M ticks_diff_get_def mask_eq_exp_minus_1)
  next
    case False
    then have k: "unat ((- of_nat (n - d) :: u32) AND mask 24) = 2 ^ 24 - (n - d)"
      using assms(1,2) by (intro unat_of_minus) auto
    have "unat (MAX_RTC_COUNTER_VAL div 2) \<le> 2 ^ 24 - (n - d)"
      using assms(2) by (simp add: MAX_RTC_COUNTER_VAL_def)
    then have late: "\<not> (- of_nat (n - d)) AND mask 24 < MAX_RTC_COUNTER_VAL div 2"
      using k by (simp only: word_less_nat_alt not_less)
    let ?i = "ticks_first_interval nd" and ?k = "of_nat (n - d) AND mask 24 :: u32"
    have "start_ticks latest nd = unat (if ?i > ?k then ?i - ?k else 0)"
      using late ahead behind by (simp add: start_ticks_def prepare_node_def Let_def M ticks_diff_get_def)
    also have "\<dots> = unat ?i - (n - d)"
      using delta by (auto simp: word_less_nat_alt unat_sub word_le_nat_alt)
    finally show ?thesis using assms(1) by simp
  qed
qed

section \<open>The interrupt\<close>

lemma compare_keeps [simp]:
  "t_node (compare_reg_update s) = t_node s" "mp_timer_id_head (compare_reg_update s) = mp_timer_id_head s"
  by (auto simp: compare_reg_update_def Let_def rtc1_counter_get_def rtc1_compare0_set_def rtc1_start_def rtc1_stop_def
    rtc_trigger_def timer_timeouts_check_sched_def split: option.splits)

lemma compare_keeps_latest: "mp_timer_id_head s \<noteq> None \<Longrightarrow> m_ticks_latest (compare_reg_update s) = m_ticks_latest s"
  by (auto simp: compare_reg_update_def Let_def rtc1_counter_get_def rtc1_compare0_set_def rtc1_start_def rtc1_stop_def
    rtc_trigger_def timer_timeouts_check_sched_def split: option.splits)

lemma due_shift: "due_from (n + k) nd xs = map (\<lambda>(a, d). (a, d + n)) (due_from k nd xs)"
proof (induction xs arbitrary: k)
  case (Cons a as)
  then show ?case using Cons [of "k + ticks nd a"] by (simp add: ac_simps)
qed simp

lemma due_from_0: "due_from 0 nd xs = map (\<lambda>(a, d). (a, d - n)) (due_from n nd xs)"
  using due_shift [of n 0 nd xs] by (simp add: case_prod_beta comp_def)

lemma profile_same: "\<exists>m. profile_op_queue s = s\<lparr>m_max_user_op_queue_utilization := m\<rparr>"
  by (cases "profile_op_queue s = s")
    (auto simp: profile_op_queue_def Let_def intro: exI [of _ "m_max_user_op_queue_utilization s"])

lemma no_deletions: "q_first s = q_last s \<Longrightarrow> list_deletions_handler s = Inr (False, s)"
  by (simp add: list_deletions_handler_def deletions_loop.simps [of 256])

lemma expired_restart_ok:
  assumes "timers s xs" and "q_first s = q_last s" and "m_ticks_latest s = (prev + n) AND MAX_RTC_COUNTER_VAL"
    and "\<And>a d. (a, d) \<in> set (due s xs) \<Longrightarrow> d \<le> unat n \<Longrightarrow> periodic (t_node s) (a, d) \<Longrightarrow> unat n - d \<le> 2 ^ 23"
  shows "\<exists>r u t ys. expired_timers_handler n prev None s = Inr (r, u) \<and>
    list_insertions_handler r u = Inr (mp_timer_id_head t \<noteq> mp_timer_id_head u, t) \<and> timers t ys \<and>
    mset (due t ys) = mset (map (\<lambda>(a, d). (a, d - unat n)) (filter (\<lambda>x. unat n < snd x) (due s xs))) +
      mset (map (\<lambda>(a, d). (a, d + unat (ticks_periodic_interval (t_node s a)) - unat n))
        (filter (\<lambda>x. snd x \<le> unat n \<and> periodic (t_node s) x) (due s xs))) \<and> m_ticks_latest t = m_ticks_latest s"
proof -
  let ?n = "unat n" and ?D = "due s xs"
  have l: "lseg (t_node s) (mp_timer_id_head s) xs None" "distinct (xs @ [])" using assms(1) by (simp_all add: timers_def)
  define ps where "ps = filter (periodic (t_node s)) (filter (\<lambda>x. snd x \<le> ?n) ?D)"
  define zs where "zs = map fst (filter (\<lambda>x. ?n < snd x) ?D)"
  have "\<exists>r u. expired_timers_loop n 0 prev None s = Some (r, u) \<and> lseg (t_node u) (mp_timer_id_head u) zs None \<and>
      due_from ?n (t_node u) zs = filter (\<lambda>x. ?n < snd x) ?D \<and> lseg (t_node u) r (rev (map fst ps)) None \<and>
      restarts prev ps (t_node s) (t_node u) \<and> u = s\<lparr>t_node := t_node u, mp_timer_id_head := mp_timer_id_head u\<rparr>"
    using expired_timers_loop_ok [of s xs None "[]" 0 n prev] l unsigned_less [of n, where 'a = nat]
    by (simp add: due_def Let_def expired_by_def due_takeWhile due_dropWhile ps_def zs_def)
  then obtain r u where u: "expired_timers_loop n 0 prev None s = Some (r, u)" and
    u2: "lseg (t_node u) (mp_timer_id_head u) zs None" "due_from ?n (t_node u) zs = filter (\<lambda>x. ?n < snd x) ?D"
      "lseg (t_node u) r (rev (map fst ps)) None" "restarts prev ps (t_node s) (t_node u)"
      "u = s\<lparr>t_node := t_node u, mp_timer_id_head := mp_timer_id_head u\<rparr>"
    by blast
  have dist: "distinct (map fst ?D)" using l(2) by (simp add: due_def)
  have "distinct zs" "distinct (map fst ps)"
    using distinct_map_filter [OF dist] distinct_map_filter [OF distinct_map_filter [OF dist]] by (simp_all only: zs_def ps_def)
  moreover have "set zs \<inter> fst ` set ps = {}"
    using dist by (fastforce simp: zs_def ps_def distinct_map inj_on_def)
  ultimately have d: "distinct (zs @ rev (map fst ps))" by auto
  have same: "q_first u = q_first s" "q_last u = q_last s" "m_ticks_latest u = m_ticks_latest s"
    by (subst u2(5), simp)+
  then have q: "q_first u = q_last u" "m_ticks_latest u = m_ticks_latest s" using assms(2) by simp_all
  have "timers u zs" using u2(1) d by (simp add: timers_def)
  from insertions_restart_ok [OF this u2(3) d q(1)] obtain t ys where t: "insertions_loop r u = Some (Inr t)" "timers t ys"
    "mset (due t ys) = mset (due u zs) +
      mset (map (\<lambda>a. (a, start_ticks (m_ticks_latest u) (t_node u a))) (rev (map fst ps)))"
    "t = u\<lparr>t_node := t_node t, mp_timer_id_head := mp_timer_id_head t\<rparr>"
    by blast
  have "m_ticks_latest t = m_ticks_latest u" by (subst t(4)) simp
  then have latest: "m_ticks_latest t = m_ticks_latest s" using q(2) by simp
  have rest: "due u zs = map (\<lambda>(a, d). (a, d - ?n)) (filter (\<lambda>x. ?n < snd x) ?D)"
    using due_from_0 [of "t_node u" zs ?n] u2(2) by (simp add: due_def)
  have start: "start_ticks (m_ticks_latest u) (t_node u a) = d + unat (ticks_periodic_interval (t_node s a)) - ?n"
    if "(a, d) \<in> set ps" for a d
  proof -
    have a: "ticks_at_start (t_node u a) = (prev + of_nat d) AND MAX_RTC_COUNTER_VAL"
      "ticks_first_interval (t_node u a) = ticks_periodic_interval (t_node s a)" "d \<le> ?n"
      using that u2(4) by (auto simp: restarts_def ps_def)
    moreover have "?n - d \<le> 2 ^ 23" using that assms(4) [of a d] by (auto simp: ps_def)
    ultimately show ?thesis using restart_ticks [of d ?n "t_node u a" prev "m_ticks_latest u"] assms(3) q(2) by simp
  qed
  have "map (\<lambda>a. (a, start_ticks (m_ticks_latest u) (t_node u a))) (rev (map fst ps)) =
      rev (map (\<lambda>(a, d). (a, d + unat (ticks_periodic_interval (t_node s a)) - ?n)) ps)"
    using start by (auto simp: case_prod_beta rev_map)
  moreover have "ps = filter (\<lambda>x. snd x \<le> ?n \<and> periodic (t_node s) x) ?D"
    by (simp add: ps_def conj_commute)
  ultimately have "mset (due t ys) = mset (map (\<lambda>(a, d). (a, d - ?n)) (filter (\<lambda>x. ?n < snd x) ?D)) +
      mset (map (\<lambda>(a, d). (a, d + unat (ticks_periodic_interval (t_node s a)) - ?n))
        (filter (\<lambda>x. snd x \<le> ?n \<and> periodic (t_node s) x) ?D))"
    unfolding t(3) rest by (simp only: mset_rev)
  moreover have "expired_timers_handler n prev None s = Inr (r, u)"
    by (simp add: expired_timers_handler_def loop_end_def u)
  moreover have "list_insertions_handler r u = Inr (mp_timer_id_head t \<noteq> mp_timer_id_head u, t)"
    by (simp add: list_insertions_handler_def loop_end_def t(1))
  ultimately show ?thesis using t(2) latest by blast
qed

text \<open>
  C30. Periodic timers do not drift. When the SWI interrupt takes \<open>n\<close> elapsed ticks from its queue and the application has started and
  stopped nothing, every timer due by then leaves the list; a periodic one that was due at tick \<open>d\<close>, no more than \<open>2 ^ 23\<close> ticks before
  \<open>n\<close> (half the range of the counter, about four minutes at 32768 Hz; beyond it the code takes the past start for a future one), enters it again, due one
  interval after \<open>d\<close> however late the interrupt came, and all others keep their expiry. \<open>m_ticks_latest\<close> advances by \<open>n\<close>, modulo
  \<open>2 ^ 24\<close> (unless no timer is left); expiries are counted from it, and one that has passed already becomes 0.
\<close>

theorem periodic_timers_keep_time:
  assumes "timers s xs" and "q_first s = q_last s"
    and "m_ticks_elapsed_q_read_ind s < 2" and "m_ticks_elapsed_q_read_ind s \<noteq> m_ticks_elapsed_q_write_ind s"
    and "m_ticks_elapsed s = [e0, e1]" and "n = unat (if m_ticks_elapsed_q_read_ind s = 0 then e1 else e0)"
    and "\<forall>(a, d) \<in> set (due s xs). d \<le> n \<longrightarrow> ticks_periodic_interval (t_node s a) \<noteq> 0 \<longrightarrow> n - d \<le> 2 ^ 23"
  shows "ok (SWI_IRQHandler s) (\<lambda>t. \<exists>ys. timers t ys \<and>
    (ys \<noteq> [] \<longrightarrow> unat (m_ticks_latest t) = (unat (m_ticks_latest s) + n) mod 2 ^ 24) \<and>
    mset (due t ys) = mset (map (\<lambda>(a, d). (a, d - n)) (filter (\<lambda>x. n < snd x) (due s xs))) +
      mset (map (\<lambda>(a, d). (a, d + unat (ticks_periodic_interval (t_node s a)) - n))
        (filter (\<lambda>x. snd x \<le> n \<and> ticks_periodic_interval (t_node s (fst x)) \<noteq> 0) (due s xs))))"
proof -
  obtain m where m: "profile_op_queue s = s\<lparr>m_max_user_op_queue_utilization := m\<rparr>" using profile_same by blast
  let ?r = "next_elapsed_ind (m_ticks_elapsed_q_read_ind s)" and ?e = "if m_ticks_elapsed_q_read_ind s = 0 then e1 else e0"
  let ?s = "s\<lparr>m_max_user_op_queue_utilization := m, m_ticks_elapsed_q_read_ind := ?r,
    m_ticks_latest := (m_ticks_latest s + ?e) AND MAX_RTC_COUNTER_VAL\<rparr>"
  have "m_ticks_elapsed_q_read_ind s = 0 \<or> m_ticks_elapsed_q_read_ind s = 1"
    using assms(3) by (simp add: word_less_nat_alt word_unat_eq_iff) linarith
  then have acquire: "elapsed_ticks_acquire (profile_op_queue s) = Inr (True, ?e, ?s)"
    using assms(4,5) by (auto simp: elapsed_ticks_acquire_def m next_elapsed_ind_def CONTEXT_QUEUE_SIZE_MAX_def Let_def load_at_def)
  have s: "timers ?s xs" "q_first ?s = q_last ?s" "due ?s xs = due s xs" "t_node ?s = t_node s"
    using assms(1,2) by (simp_all add: timers_def due_def)
  have late: "unat ?e - d \<le> 2 ^ 23" if "(a, d) \<in> set (due ?s xs)" "d \<le> unat ?e" "periodic (t_node ?s) (a, d)" for a d
    using that assms(6,7) s(3,4) by auto
  from expired_restart_ok [OF s(1,2), of "m_ticks_latest s" ?e] assms(6) late obtain r u t ys where
    t: "expired_timers_handler ?e (m_ticks_latest s) None ?s = Inr (r, u)"
      "list_insertions_handler r u = Inr (mp_timer_id_head t \<noteq> mp_timer_id_head u, t)" "timers t ys"
      "mset (due t ys) = mset (map (\<lambda>(a, d). (a, d - n)) (filter (\<lambda>x. n < snd x) (due s xs))) +
        mset (map (\<lambda>(a, d). (a, d + unat (ticks_periodic_interval (t_node s a)) - n))
          (filter (\<lambda>x. snd x \<le> n \<and> periodic (t_node s) x) (due s xs)))"
      "m_ticks_latest t = m_ticks_latest ?s"
    unfolding s(3,4) assms(6) by auto
  have "unat ((m_ticks_latest s + ?e) AND mask 24) = (unat (m_ticks_latest s) + n) mod 2 ^ 24"
    unfolding unat_and_mask assms(6) by (simp add: unat_word_ariths mod_mod_cancel)
  then have latest: "unat (m_ticks_latest (compare_reg_update t)) = (unat (m_ticks_latest s) + n) mod 2 ^ 24" if "ys \<noteq> []"
    using t(3,5) that compare_keeps_latest [of t]
    by (cases ys) (simp_all add: timers_def MAX_RTC_COUNTER_VAL_def mask_eq_exp_minus_1)
  have "SWI_IRQHandler s = Inr ((compare_reg_update t)\<lparr>m_rtc1_reset := False\<rparr>)"
    unfolding SWI_IRQHandler_def timer_list_handler_def Let_def acquire
    using t(1,2) s(2) by (simp add: no_deletions m)
  then show ?thesis using t(3,4) latest by (auto simp: timers_def due_def intro!: exI [of _ ys])
qed

end
