(* ===== verification/AppTimerProps.thy ===== *)
theory AppTimerProps
  imports AppTimerUpdate
begin

text \<open>
  The operations of the application on its timers: the properties of the list of running timers, and the order in
  which queued operations take effect.
\<close>

unbundle bit_operations_syntax

section \<open>The operations queue\<close>

lemma next_op_updates [simp]:
  "next_op i (s\<lparr>t_node := x0\<rparr>) = next_op i s"
  "next_op i (s\<lparr>q_first := x1\<rparr>) = next_op i s"
  "next_op i (s\<lparr>q_last := x2\<rparr>) = next_op i s"
  "next_op i (s\<lparr>p_user_op_queue := x3\<rparr>) = next_op i s"
  "next_op i (s\<lparr>rtc_n := x4\<rparr>) = next_op i s"
  "next_op i (s\<lparr>swi_irq_pending := x5\<rparr>) = next_op i s"
  "next_op i (s\<lparr>m_max_user_op_queue_utilization := x6\<rparr>) = next_op i s"
  "next_op i (s\<lparr>m_ticks_elapsed_q_read_ind := x7\<rparr>) = next_op i s"
  by (simp_all add: next_op_def)

lemma unat_next_op:
  assumes "i < q_size s"
  shows "unat (next_op i s) = Suc (unat i) mod unat (q_size s)"
proof -
  have "Suc (unat i) \<le> unat (q_size s)" using assms by (simp add: word_less_nat_alt Suc_le_eq)
  moreover have "unat (q_size s) < 256" using unsigned_less [of "q_size s", where 'a = nat] by simp
  moreover have "unat (i + 1) = Suc (unat i) mod 256" by (simp add: unat_word_ariths)
  ultimately have u: "unat (i + 1) = Suc (unat i)" by simp
  then show ?thesis
    using \<open>Suc (unat i) \<le> unat (q_size s)\<close> by (auto simp: next_op_def word_unat_eq_iff)
qed

lemma next_op_distinct:
  assumes "i < q_size s" and "3 \<le> q_size s"
  shows "next_op i s < q_size s" "next_op i s \<noteq> i" "next_op (next_op i s) s \<noteq> i" "next_op (next_op i s) s \<noteq> next_op i s"
proof -
  let ?n = "unat (q_size s)" and ?i = "unat i"
  have n: "3 \<le> ?n" "?i < ?n" using assms by (simp_all add: word_less_nat_alt word_le_nat_alt)
  have j: "unat (next_op i s) = (if Suc ?i = ?n then 0 else Suc ?i)"
    using n by (simp add: unat_next_op [OF assms(1)])
  then show l: "next_op i s < q_size s" using n by (auto simp: word_less_nat_alt)
  have k: "unat (next_op (next_op i s) s) = (if Suc ?i = ?n then 1 else if Suc (Suc ?i) = ?n then 0 else Suc (Suc ?i))"
    using n j by (simp add: unat_next_op [OF l])
  show "next_op i s \<noteq> i" using j n by (auto simp: word_unat_eq_iff)
  show "next_op (next_op i s) s \<noteq> i" using j k n by (auto simp: word_unat_eq_iff)
  show "next_op (next_op i s) s \<noteq> next_op i s" using j k n by (auto simp: word_unat_eq_iff split: if_splits)
qed

lemma start_result:
  assumes "p_user_op_queue s = Some q" and "unat (q_last s) < length q" and "next_op (q_last s) s \<noteq> q_first s"
    and "p_timeout_handler (t_node s p) \<noteq> None" and "APP_TIMER_MIN_TIMEOUT_TICKS \<le> n"
    and "op = (q ! unat (q_last s))\<lparr>op_type := TIMER_USER_OP_TYPE_START, op_node := Some p,
      op_ticks_at_start := rtc_reads s (rtc_n s), op_ticks_first_interval := n,
      op_ticks_periodic_interval := (if timer_mode (t_node s p) = APP_TIMER_MODE_REPEATED then n else 0), op_context := c\<rparr>"
  shows "app_timer_start (Some p) n c s = Inr (NRF_SUCCESS, s\<lparr>rtc_n := Suc (rtc_n s), p_user_op_queue := Some (q[unat (q_last s) := op]),
      q_last := next_op (q_last s) s, swi_irq_pending := True\<rparr>)"
  using assms by (auto simp: app_timer_start_def timer_start_op_schedule_def user_op_alloc_def load_op_def load_at_def
    rtc1_counter_get_def store_op_def user_op_enque_def timer_list_handler_sched_def Let_def)

lemma stop_result:
  assumes "p_user_op_queue s = Some q" and "unat (q_last s) < length q" and "next_op (q_last s) s \<noteq> q_first s"
    and "p_timeout_handler (t_node s p) \<noteq> None"
    and "op = (q ! unat (q_last s))\<lparr>op_type := TIMER_USER_OP_TYPE_STOP, op_node := Some p\<rparr>"
  shows "app_timer_stop (Some p) s = Inr (NRF_SUCCESS, s\<lparr>t_node := (t_node s)(p := (t_node s p)\<lparr>is_running := False\<rparr>),
      p_user_op_queue := Some (q[unat (q_last s) := op]), q_last := next_op (q_last s) s, swi_irq_pending := True\<rparr>)"
  using assms by (auto simp: app_timer_stop_def timer_stop_op_schedule_def user_op_alloc_def load_op_def load_at_def
    upd_node_def next_op_def store_op_def user_op_enque_def timer_list_handler_sched_def Let_def)

section \<open>Stopping a timer that has just been started\<close>

text \<open>
  A timer that is started and stopped before the SWI interrupt has run goes on running, although both calls
  report success: the interrupt handles all stop operations in the queue before it handles the first start operation.
\<close>

theorem stop_after_start_is_lost:
  assumes "timers s xs" and "p \<notin> set xs" and "\<not> is_running (t_node s p)" and "p_timeout_handler (t_node s p) \<noteq> None"
    and "p_user_op_queue s = Some q" and "length q = unat (q_size s)" and "3 \<le> q_size s"
    and "q_first s = q_last s" and "q_last s < q_size s" and "m_ticks_elapsed_q_read_ind s = m_ticks_elapsed_q_write_ind s"
    and "APP_TIMER_MIN_TIMEOUT_TICKS \<le> n"
  shows "ok (app_timer_start (Some p) n c s) (\<lambda>(r, s1). r = NRF_SUCCESS \<and>
    ok (app_timer_stop (Some p) s1) (\<lambda>(r, s2). r = NRF_SUCCESS \<and>
    ok (SWI_IRQHandler s2) (\<lambda>t. is_running (t_node t p) \<and> (\<exists>ys. timers t ys \<and> set ys = insert p (set xs)))))"
proof -
  let ?i = "q_last s" let ?j = "next_op ?i s" let ?k = "next_op ?j s"
  note ijk = next_op_distinct [OF assms(9,7)]
  have l: "unat ?i < length q" "unat ?j < length q" "unat ?i \<noteq> unat ?j"
    using assms(6,9) ijk by (auto simp: word_less_nat_alt word_unat_eq_iff)
  define op1 where "op1 = (q ! unat ?i)\<lparr>op_type := TIMER_USER_OP_TYPE_START, op_node := Some p,
    op_ticks_at_start := rtc_reads s (rtc_n s), op_ticks_first_interval := n,
    op_ticks_periodic_interval := (if timer_mode (t_node s p) = APP_TIMER_MODE_REPEATED then n else 0), op_context := c\<rparr>"
  define op2 where "op2 = (q[unat ?i := op1] ! unat ?j)\<lparr>op_type := TIMER_USER_OP_TYPE_STOP, op_node := Some p\<rparr>"
  have run1: "app_timer_start (Some p) n c s = Inr (NRF_SUCCESS, s\<lparr>rtc_n := Suc (rtc_n s),
      p_user_op_queue := Some (q[unat ?i := op1]), q_last := ?j, swi_irq_pending := True\<rparr>)" (is "_ = Inr (_, ?s1)")
    using start_result [OF assms(5) l(1) _ assms(4,11) op1_def] ijk(2) assms(8) by simp
  have run2: "app_timer_stop (Some p) ?s1 = Inr (NRF_SUCCESS, ?s1\<lparr>
      t_node := (t_node s)(p := (t_node s p)\<lparr>is_running := False\<rparr>),
      p_user_op_queue := Some (q[unat ?i := op1, unat ?j := op2]), q_last := ?k, swi_irq_pending := True\<rparr>)" (is "_ = Inr (_, ?s2)")
    using stop_result [of ?s1 "q[unat ?i := op1]" p op2] l assms(4,8) ijk(3) by (simp add: op2_def)
  obtain m where m: "profile_op_queue ?s2 = ?s2\<lparr>m_max_user_op_queue_utilization := m\<rparr>" (is "_ = ?s3") using profile_same by blast
  have s3: "timers ?s3 xs" "q_first ?s3 = ?i" "q_last ?s3 = ?k" "q_size ?s3 = q_size s"
    using assms(1,2,8) by (simp_all add: timers_def)
  have ops: "load_op ?i ?s3 = Inr op1" "load_op ?j ?s3 = Inr op2" using l by (simp_all add: load_op_def load_at_def)
  have "delete_op op1 ?s3 = Inr ?s3" "delete_op op2 ?s3 = Inr ?s3"
    using remove_absent [OF s3(1) assms(2)] by (simp_all add: delete_op_def op1_def op2_def)
  then have "deletions_loop (Suc (Suc 254)) ?i ?s3 = Inr ?s3"
    using ops ijk by (simp add: deletions_loop.simps del: One_nat_def)
  then have del: "list_deletions_handler ?s3 = Inr (False, ?s3)" using s3(2) by (simp add: list_deletions_handler_def)
  obtain s4 where s4: "take_op ?s3 = Inr (Some p, s4)" "timers s4 xs" "q_first s4 = ?j" "q_last s4 = ?k" "q_size s4 = q_size s"
      "p_user_op_queue s4 = p_user_op_queue ?s3"
    using ops(1) s3 assms(2,3) by (simp add: take_op_def op1_def upd_node_def timers_def)
  obtain t ys where t: "insert_prepared p s4 = Inr t" "timers t ys" "set ys = insert p (set xs)"
      "t = s4\<lparr>t_node := t_node t, mp_timer_id_head := mp_timer_id_head t\<rparr>"
      "node_data (t_node t p) = node_data (prepare_node (m_ticks_latest s4) (t_node s4 p))"
    using prepared_ok [OF s4(2) assms(2)] by blast
  have "is_running (node_data (t_node t p))" unfolding t(5) by (simp add: node_data_def prepare_node_def Let_def)
  then have run: "is_running (t_node t p)" by (simp add: node_data_def)
  have same: "q_first t = q_first s4" "q_last t = q_last s4" "q_size t = q_size s4" "p_user_op_queue t = p_user_op_queue s4"
    by (subst t(4), simp)+
  have "load_op ?j t = load_op ?j ?s3" by (simp add: load_op_def same s4)
  moreover have "next_op i t = next_op i s" for i by (simp add: next_op_def same s4(5))
  ultimately have "take_op t = Inr (None, t\<lparr>q_first := ?k\<rparr>)"
    unfolding take_op_def same(1) s4(3) ops(2) by (simp add: op2_def)
  then have "insertions_loop None ?s3 = Some (Inr (t\<lparr>q_first := ?k\<rparr>))"
    using s3 s4 same t(1) ijk by (simp add: insertions_loop.simps [of None])
  then have ins: "list_insertions_handler None ?s3 = Inr (mp_timer_id_head t \<noteq> mp_timer_id_head s, t\<lparr>q_first := ?k\<rparr>)"
    by (simp add: list_insertions_handler_def loop_end_def)
  have acquire: "elapsed_ticks_acquire ?s3 = Inr (False, 0, ?s3)" using assms(10) by (simp add: elapsed_ticks_acquire_def)
  define v where "v = (if mp_timer_id_head t \<noteq> mp_timer_id_head s then compare_reg_update (t\<lparr>q_first := ?k\<rparr>)
    else t\<lparr>q_first := ?k\<rparr>)\<lparr>m_rtc1_reset := False\<rparr>"
  have "SWI_IRQHandler ?s2 = Inr v"
    unfolding SWI_IRQHandler_def timer_list_handler_def Let_def m acquire then_do_simps prod.case del if_False ins
    by (simp add: v_def)
  moreover have "t_node v = t_node t" "timers v ys" using t(2) by (auto simp: v_def timers_def)
  ultimately have "ok (SWI_IRQHandler ?s2) (\<lambda>t. is_running (t_node t p) \<and> (\<exists>ys. timers t ys \<and> set ys = insert p (set xs)))"
    using run t(3) by auto
  then show ?thesis using run1 run2 by simp
qed

section \<open>The list of running timers\<close>

lemma set_insert_due: "due t ys = insert_due p d (due s xs) \<Longrightarrow> set ys = insert p (set xs)"
proof -
  assume d: "due t ys = insert_due p d (due s xs)"
  have "mset (map fst (due t ys)) = add_mset p (mset (map fst (due s xs)))"
    unfolding mset_map d by simp
  then have "mset ys = add_mset p (mset xs)" by (simp only: due_def fst_due)
  then show "set ys = insert p (set xs)" by (metis set_mset_add_mset_insert set_mset_mset)
qed

text \<open>
  C31. \<open>timer_list_insert\<close> enters a timer before the first one that is due at the same tick or later, and the expiry of all other
  timers stays as it is, although the list keeps only differences. Nothing else of the module changes.
\<close>

theorem insert_refines:
  assumes "timers s xs" and "p \<notin> set xs" and "node_next (t_node s p) = None"
  shows "ok (timer_list_insert p s) (\<lambda>t. \<exists>ys. timers t ys \<and> set ys = insert p (set xs) \<and>
    due t ys = insert_due p (unat (ticks_to_expire (t_node s p))) (due s xs) \<and>
    t = s\<lparr>t_node := t_node t, mp_timer_id_head := mp_timer_id_head t\<rparr> \<and> same_data s t)"
  using insert_ok [OF assms] by (rule ok_mono) (use set_insert_due in blast)

text \<open>
  \<open>timer_list_remove\<close> takes exactly the given timer from the list, wherever it stands, and the expiry of all other timers
  stays as it is; a timer that is not in the list changes nothing. When the list becomes empty the counter is cleared and \<open>m_rtc1_reset\<close>
  tells the starts in the queue about it.
\<close>

theorem remove_refines:
  assumes "timers s xs" and "sum_list (map (\<lambda>a. unat (ticks_to_expire (t_node s a))) xs) < 2 ^ 32"
  shows "ok (timer_list_remove p s) (\<lambda>t. timers t (remove1 p xs) \<and>
    due t (remove1 p xs) = filter (\<lambda>x. fst x \<noteq> p) (due s xs) \<and> same_data s t \<and>
    t = (if xs = [p] then s\<lparr>rtc_tasks := rtc_tasks s @ [RTC_CLEAR], m_ticks_latest := 0, m_rtc1_reset := True\<rparr> else s)
      \<lparr>t_node := t_node t, mp_timer_id_head := mp_timer_id_head t\<rparr>)"
proof (cases "p \<in> set xs")
  case True
  have cleared: "counter_cleared s = s\<lparr>rtc_tasks := rtc_tasks s @ [RTC_CLEAR], m_ticks_latest := 0, m_rtc1_reset := True\<rparr>"
    by (simp add: counter_cleared_def rtc_trigger_def)
  show ?thesis by (rule remove_ok [OF assms(1) True, unfolded span_def, OF assms(2), unfolded cleared])
next
  case False
  then have "filter (\<lambda>x. fst x \<noteq> p) (due s xs) = due s xs"
    by (auto simp: due_def intro!: filter_True dest: in_set_due)
  then show ?thesis
    using False assms(1) by (auto simp: remove_absent [OF assms(1) False] remove1_idem same_data_def)
qed

section \<open>Examples\<close>

text \<open>Two running timers, a periodic one due after 10 ticks and another due 5 ticks later, and one that does not run.\<close>

definition sample_node :: "nat \<Rightarrow> timer_node_t" where
  "sample_node a = \<lparr>ticks_to_expire = (if a = 0 then 10 else if a = 1 then 5 else 12), ticks_at_start = 0, ticks_first_interval = 0,
     ticks_periodic_interval = (if a = 0 then 10 else 0), is_running = (a < 2), timer_mode = APP_TIMER_MODE_SINGLE_SHOT,
     p_timeout_handler = Some a, p_context = 0, node_next = (if a = 0 then Some 1 else None)\<rparr>"

definition sample_op :: timer_user_op_t where
  "sample_op = \<lparr>op_type = TIMER_USER_OP_TYPE_NONE, op_node = None, op_ticks_at_start = 0, op_ticks_first_interval = 0,
     op_ticks_periodic_interval = 0, op_context = 0\<rparr>"

definition sample_timers :: app_timer where
  "sample_timers = \<lparr>t_node = sample_node, q_first = 0, q_last = 0, q_size = 4, p_user_op_queue = Some (replicate 4 sample_op),
     mp_timer_id_head = Some 0, m_ticks_latest = 100, m_ticks_elapsed = [0, 0], m_ticks_elapsed_q_read_ind = 0,
     m_ticks_elapsed_q_write_ind = 0, m_evt_schedule_func = False, m_rtc1_running = True, m_rtc1_reset = False,
     m_max_user_op_queue_utilization = 0, cfg_with_profiler = False, cfg_keeps_rtc_active = False, rtc_reads = (\<lambda>_. 112),
     rtc_n = 0, rtc_tasks = [], rtc_prescaler = 0, rtc_events = {EV_COMPARE0}, CC0 = 110, rtc_compare0_enabled = True, rtc_irq_enabled = True,
     rtc_irq_pending = False, swi_irq_enabled = True, swi_irq_pending = False\<rparr>"

text \<open>The RTC1 interrupt has queued 12 ticks.\<close>

definition sample_elapsed :: app_timer where
  "sample_elapsed = sample_timers\<lparr>m_ticks_elapsed := [0, 12], m_ticks_elapsed_q_write_ind := 1\<rparr>"

text \<open>Every timeout handler stops its timer.\<close>

definition sample_timer_env :: "app_timer timer_env" where
  "sample_timer_env = \<lparr>timeout_handler = \<lambda>h c s. then_do (app_timer_stop (Some h) s) (\<lambda>(r, t). Inr t),
     evt_schedule_func = \<lambda>h c s. Inr (NRF_SUCCESS, s)\<rparr>"

lemma sample_timers_ok: "timers sample_timers [0, 1]" "timers sample_elapsed [0, 1]"
  by (simp_all add: timers_def sample_timers_def sample_elapsed_def sample_node_def)

lemma sample_env_keeps: "keeps_list sample_timer_env"
  by (auto simp: keeps_list_def sample_timer_env_def then_do_Inr_iff dest: stop_keeps_list)

theorem stop_after_start_is_lost_witness:
  "ok (app_timer_start (Some 2) 20 0 sample_timers) (\<lambda>(r, s1). r = NRF_SUCCESS \<and>
    ok (app_timer_stop (Some 2) s1) (\<lambda>(r, s2). r = NRF_SUCCESS \<and>
    ok (SWI_IRQHandler s2) (\<lambda>t. is_running (t_node t 2) \<and> (\<exists>ys. timers t ys \<and> set ys = insert 2 (set [0, 1])))))"
  by (rule stop_after_start_is_lost [OF sample_timers_ok(1), where q = "replicate 4 sample_op"])
    (simp_all add: sample_timers_def sample_node_def APP_TIMER_MIN_TIMEOUT_TICKS_def)

theorem insert_refines_witness:
  "ok (timer_list_insert 2 sample_timers) (\<lambda>t. \<exists>ys. timers t ys \<and> set ys = insert 2 (set [0, 1]) \<and>
    due t ys = insert_due 2 (unat (ticks_to_expire (t_node sample_timers 2))) (due sample_timers [0, 1]) \<and>
    t = sample_timers\<lparr>t_node := t_node t, mp_timer_id_head := mp_timer_id_head t\<rparr> \<and> same_data sample_timers t) \<and>
   insert_due 2 (unat (ticks_to_expire (t_node sample_timers 2))) (due sample_timers [0, 1]) = [(0, 10), (2, 12), (1, 15)]"
proof
  show "insert_due 2 (unat (ticks_to_expire (t_node sample_timers 2))) (due sample_timers [0, 1]) = [(0, 10), (2, 12), (1, 15)]"
    by (simp add: due_def insert_due_def sample_timers_def sample_node_def)
qed (rule insert_refines [OF sample_timers_ok(1)]; simp add: sample_timers_def sample_node_def)

theorem remove_refines_witness:
  "ok (timer_list_remove 0 sample_timers) (\<lambda>t. timers t (remove1 0 [0, 1]) \<and>
    due t (remove1 0 [0, 1]) = filter (\<lambda>x. fst x \<noteq> 0) (due sample_timers [0, 1]) \<and> same_data sample_timers t \<and>
    t = (if [0, 1] = [0 :: nat] then sample_timers\<lparr>rtc_tasks := rtc_tasks sample_timers @ [RTC_CLEAR], m_ticks_latest := 0,
        m_rtc1_reset := True\<rparr> else sample_timers)
      \<lparr>t_node := t_node t, mp_timer_id_head := mp_timer_id_head t\<rparr>)"
  by (rule remove_refines [OF sample_timers_ok(1)]) (simp add: sample_timers_def sample_node_def)

theorem rtc_expires_due_timers_witness:
  "RTC1_IRQHandler sample_timer_env sample_timers =
    (let e = unat (rtc_reads sample_timers (rtc_n sample_timers) - m_ticks_latest sample_timers) mod 2 ^ 24;
         es = filter (\<lambda>x. snd x \<le> e) (due sample_timers [0, 1])
     in then_do (call_handlers sample_timer_env (map fst es) (sample_timers\<lparr>rtc_events := {}, rtc_n := Suc (rtc_n sample_timers)\<rparr>))
          (queue_elapsed (of_nat (last_due 0 es))))"
  by (rule rtc_expires_due_timers [OF sample_env_keeps sample_timers_ok(1)]) simp

theorem periodic_timers_keep_time_witness:
  "ok (SWI_IRQHandler sample_elapsed) (\<lambda>t. \<exists>ys. timers t ys \<and>
    (ys \<noteq> [] \<longrightarrow> unat (m_ticks_latest t) = (unat (m_ticks_latest sample_elapsed) + 12) mod 2 ^ 24) \<and>
    mset (due t ys) =
    mset (map (\<lambda>(a, d). (a, d - 12)) (filter (\<lambda>x. 12 < snd x) (due sample_elapsed [0, 1]))) +
      mset (map (\<lambda>(a, d). (a, d + unat (ticks_periodic_interval (t_node sample_elapsed a)) - 12))
        (filter (\<lambda>x. snd x \<le> 12 \<and> ticks_periodic_interval (t_node sample_elapsed (fst x)) \<noteq> 0) (due sample_elapsed [0, 1]))))"
  by (rule periodic_timers_keep_time [OF sample_timers_ok(2), where ?e0.0 = 0 and ?e1.0 = 12])
    (auto simp add: sample_elapsed_def sample_timers_def)

end
