(* ===== verification/Fstorage.thy ===== *)
theory Fstorage
  imports LibCommon
begin

text \<open>
  The flash storage module components/libraries/fstorage/fstorage.c with fstorage_internal_defs.h: a queue of store and
  erase operations that are handed to the SoftDevice piece by piece; the SoftDevice reports the end of each
  piece as a system event. The types of fstorage.h.

  \<open>sd_flash_write\<close> and \<open>sd_flash_page_erase\<close> are functions of the SoftDevice, which is not part of the
  sources: their answers are a stream in the state, and \<open>sd_log\<close> notes what they were asked. An address is a 32-bit word, 0 is \<open>NULL\<close>.
  The registered configurations (section variables) are a list, a pointer to one of them is an index. The callbacks are a parameter,
  a function on the whole state. Queue size, number of retries and largest write are set by the application's configuration.
\<close>

unbundle bit_operations_syntax

section \<open>State\<close>

datatype fs_ret_t =
    FS_SUCCESS
  | FS_ERR_NOT_INITIALIZED
  | FS_ERR_INVALID_CFG
  | FS_ERR_NULL_ARG
  | FS_ERR_INVALID_ARG
  | FS_ERR_INVALID_ADDR
  | FS_ERR_UNALIGNED_ADDR
  | FS_ERR_QUEUE_FULL
  | FS_ERR_OPERATION_TIMEOUT
  | FS_ERR_INTERNAL
  | FS_ERR_FAILURE_SINCE_LAST

datatype fs_evt_id_t = FS_EVT_STORE | FS_EVT_ERASE

record fs_evt_t =
  evt_id :: fs_evt_id_t
  evt_p_context :: nat
  evt_p_data :: u32
  evt_length_words :: u16
  evt_first_page :: u16
  evt_last_page :: u16

record fs_config_t =
  p_start_addr :: u32
  p_end_addr :: u32
  fs_callback :: "nat option"
  num_pages :: u8
  fs_priority :: u8

definition FS_FLAG_INITIALIZED :: u8 where "FS_FLAG_INITIALIZED = push_bit 0 1"
definition FS_FLAG_PROCESSING :: u8 where "FS_FLAG_PROCESSING = push_bit 1 1"
definition FS_FLAG_FLASH_REQ_PENDING :: u8 where "FS_FLAG_FLASH_REQ_PENDING = push_bit 2 1"
definition FS_ERASED_WORD :: u32 where "FS_ERASED_WORD = 0xFFFFFFFF"

datatype fs_op_code_t = FS_OP_NONE | FS_OP_STORE | FS_OP_ERASE

text \<open>The members of the union are read under their own operation code only, after both have been set.\<close>

record fs_op_t =
  op_p_config :: "nat option"
  op_p_context :: nat
  op_op_code :: fs_op_code_t
  st_p_src :: u32
  st_p_dest :: u32
  st_length_words :: u16
  st_offset :: u16
  er_page :: u16
  er_pages_erased :: u16
  er_pages_to_erase :: u16

definition fs_op_zero :: fs_op_t where
  "fs_op_zero = \<lparr>op_p_config = None, op_p_context = 0, op_op_code = FS_OP_NONE, st_p_src = 0, st_p_dest = 0,
     st_length_words = 0, st_offset = 0, er_page = 0, er_pages_erased = 0, er_pages_to_erase = 0\<rparr>"

datatype flash_request = Flash_Write u32 u32 u16 | Page_Erase u16

record fstorage =
  fs_flags :: u8
  fs_op :: "fs_op_t list"
  fs_rp :: u32
  fs_count :: u32
  fs_retry_count :: u8
  fs_data :: "fs_config_t list"
  FS_QUEUE_SIZE :: u32
  FS_OP_MAX_RETRIES :: u8
  FS_MAX_WRITE_SIZE_WORDS :: u16
  FS_PAGE_SIZE :: u32
  cfg_dfu_signing :: bool
  NRFFW0 :: u32
  CODESIZE :: u32
  sd_answers :: "nat \<Rightarrow> ret_code"
  sd_n :: nat
  sd_log :: "flash_request list"

type_synonym 'm fs = "'m fstorage_scheme"
type_synonym 'm fs_cb = "nat \<Rightarrow> fs_evt_t \<Rightarrow> fs_ret_t \<Rightarrow> 'm fs \<Rightarrow> 'm fs result"

datatype sys_evt = NRF_EVT_FLASH_OPERATION_SUCCESS | NRF_EVT_FLASH_OPERATION_ERROR | NRF_EVT_OTHER

definition sd_request :: "flash_request \<Rightarrow> 'm fs \<Rightarrow> ret_code \<times> 'm fs" where
  "sd_request r s = (sd_answers s (sd_n s), s\<lparr>sd_n := Suc (sd_n s), sd_log := sd_log s @ [r]\<rparr>)"

definition FS_PAGE_SIZE_WORDS :: "'m fs \<Rightarrow> u32" where
  "FS_PAGE_SIZE_WORDS s = FS_PAGE_SIZE s div 4"

definition fs_flash_page_end_addr :: "'m fs \<Rightarrow> u32" where
  "fs_flash_page_end_addr s = (if NRFFW0 s \<noteq> FS_ERASED_WORD then NRFFW0 s else CODESIZE s * FS_PAGE_SIZE s)"

section \<open>Configurations\<close>

definition the_config :: "nat option \<Rightarrow> 'm fs \<Rightarrow> fs_config_t result" where
  "the_config p s = (case p of None \<Rightarrow> Inl Null_Deref | Some i \<Rightarrow> load_at (fs_data s) i)"

definition check_config :: "nat option \<Rightarrow> 'm fs \<Rightarrow> bool" where
  "check_config config s =
     (if cfg_dfu_signing s then True
      else case config of None \<Rightarrow> False | Some i \<Rightarrow> i < length (fs_data s))"

section \<open>Operations\<close>

definition send_event :: "'m fs_cb \<Rightarrow> fs_op_t \<Rightarrow> fs_ret_t \<Rightarrow> 'm fs \<Rightarrow> 'm fs result" where
  "send_event cb op result s =
     (let zero = \<lparr>evt_id = FS_EVT_STORE, evt_p_context = 0, evt_p_data = 0, evt_length_words = 0, evt_first_page = 0, evt_last_page = 0\<rparr>;
          evt = (case op_op_code op of
                   FS_OP_STORE \<Rightarrow> zero\<lparr>evt_id := FS_EVT_STORE, evt_p_data := st_p_dest op, evt_length_words := st_length_words op\<rparr>
                 | FS_OP_ERASE \<Rightarrow> zero\<lparr>evt_id := FS_EVT_ERASE, evt_first_page := er_page op - er_pages_erased op,
                                        evt_last_page := er_page op\<rparr>
                 | FS_OP_NONE \<Rightarrow> zero)
      in then_do (the_config (op_p_config op) s) (\<lambda>c.
         case fs_callback c of
           None \<Rightarrow> Inl Null_Deref
         | Some f \<Rightarrow> cb f (evt\<lparr>evt_p_context := op_p_context op\<rparr>) result s))"

definition chunk_len :: "fs_op_t \<Rightarrow> 'm fs \<Rightarrow> u16" where
  "chunk_len op s =
     (if uint (st_length_words op) - uint (st_offset op) < uint (FS_MAX_WRITE_SIZE_WORDS s)
      then st_length_words op - st_offset op else FS_MAX_WRITE_SIZE_WORDS s)"

definition store_execute :: "fs_op_t \<Rightarrow> 'm fs \<Rightarrow> ret_code \<times> 'm fs" where
  "store_execute op s =
     sd_request (Flash_Write (st_p_dest op + 4 * ucast (st_offset op)) (st_p_src op + 4 * ucast (st_offset op)) (chunk_len op s)) s"

definition erase_execute :: "fs_op_t \<Rightarrow> 'm fs \<Rightarrow> ret_code \<times> 'm fs" where
  "erase_execute op s = sd_request (Page_Erase (er_page op)) s"

definition set_flag :: "u8 \<Rightarrow> 'm fs \<Rightarrow> 'm fs" where
  "set_flag f s = s\<lparr>fs_flags := fs_flags s OR f\<rparr>"

definition clear_flag :: "u8 \<Rightarrow> 'm fs \<Rightarrow> 'm fs" where
  "clear_flag f s = s\<lparr>fs_flags := fs_flags s AND NOT f\<rparr>"

definition has_flag :: "u8 \<Rightarrow> 'm fs \<Rightarrow> bool" where
  "has_flag f s \<longleftrightarrow> fs_flags s AND f \<noteq> 0"

definition queue_advance :: "'m fs \<Rightarrow> 'm fs" where
  "queue_advance s =
     (let s1 = s\<lparr>fs_count := fs_count s - 1\<rparr>;
          s2 = (if fs_count s1 = 0 then clear_flag FS_FLAG_PROCESSING s1 else s1);
          s3 = s2\<lparr>fs_rp := fs_rp s2 + 1\<rparr>
      in if fs_rp s3 = FS_QUEUE_SIZE s3 then s3\<lparr>fs_rp := 0\<rparr> else s3)"

text \<open>
  The default case stores \<open>FS_ERR_INTERNAL\<close> in the variable for the SoftDevice's code; as a number that is 9,
  the code \<open>NRF_ERROR_INVALID_LENGTH\<close>.
\<close>

definition queue_process :: "'m fs_cb \<Rightarrow> 'm fs \<Rightarrow> 'm fs result" where
  "queue_process cb s =
     (if fs_count s > 0
      then
        then_do (load_at (fs_op s) (unat (fs_rp s))) (\<lambda>op.
        let (ret, s1) = (case op_op_code op of
              FS_OP_STORE \<Rightarrow> store_execute op s
            | FS_OP_ERASE \<Rightarrow> erase_execute op s
            | FS_OP_NONE \<Rightarrow> (NRF_ERROR_INVALID_LENGTH, s))
        in if ret = NRF_ERROR_BUSY
           then Inr (set_flag FS_FLAG_FLASH_REQ_PENDING (clear_flag FS_FLAG_PROCESSING s1))
           else if ret \<noteq> NRF_SUCCESS then send_event cb op FS_ERR_INTERNAL s1
           else Inr s1)
      else Inr s)"

definition queue_start :: "'m fs_cb \<Rightarrow> 'm fs \<Rightarrow> 'm fs result" where
  "queue_start cb s =
     (if \<not> has_flag FS_FLAG_PROCESSING s \<and> \<not> has_flag FS_FLAG_FLASH_REQ_PENDING s
      then queue_process cb (set_flag FS_FLAG_PROCESSING s) else Inr s)"

definition upd_op :: "nat \<Rightarrow> fs_op_t \<Rightarrow> 'm fs \<Rightarrow> 'm fs" where
  "upd_op i op s = s\<lparr>fs_op := (fs_op s)[i := op]\<rparr>"

definition on_operation_success :: "'m fs_cb \<Rightarrow> nat \<Rightarrow> 'm fs \<Rightarrow> 'm fs result" where
  "on_operation_success cb i s0 =
     (let s = s0\<lparr>fs_retry_count := 0\<rparr> in
      then_do (load_at (fs_op s) i) (\<lambda>op.
      case op_op_code op of
        FS_OP_STORE \<Rightarrow>
          let op1 = op\<lparr>st_offset := st_offset op + chunk_len op s\<rparr>; s1 = upd_op i op1 s
          in if st_offset op1 = st_length_words op1
             then then_do (send_event cb op1 FS_SUCCESS s1) (\<lambda>s2. Inr (queue_advance s2)) else Inr s1
      | FS_OP_ERASE \<Rightarrow>
          let op1 = op\<lparr>er_page := er_page op + 1, er_pages_erased := er_pages_erased op + 1\<rparr>; s1 = upd_op i op1 s
          in if er_pages_erased op1 = er_pages_to_erase op1
             then then_do (send_event cb op1 FS_SUCCESS s1) (\<lambda>s2. Inr (queue_advance s2)) else Inr s1
      | FS_OP_NONE \<Rightarrow> Inr s))"

definition on_operation_failure :: "'m fs_cb \<Rightarrow> nat \<Rightarrow> 'm fs \<Rightarrow> 'm fs result" where
  "on_operation_failure cb i s =
     (let s1 = s\<lparr>fs_retry_count := fs_retry_count s + 1\<rparr> in
      if fs_retry_count s1 > FS_OP_MAX_RETRIES s1
      then then_do (load_at (fs_op s1) i) (\<lambda>op.
           then_do (send_event cb op FS_ERR_OPERATION_TIMEOUT (s1\<lparr>fs_retry_count := 0\<rparr>)) (\<lambda>s2. Inr (queue_advance s2)))
      else Inr s1)"

text \<open>The index of the element, which is set to zero, unless the queue is full.\<close>

definition queue_get_next_free :: "'m fs \<Rightarrow> (nat option \<times> 'm fs) result" where
  "queue_get_next_free s =
     (if fs_count s = FS_QUEUE_SIZE s then Inr (None, s)
      else
        let idx = (if fs_rp s + fs_count s < FS_QUEUE_SIZE s then fs_rp s + fs_count s
                   else fs_rp s + fs_count s - FS_QUEUE_SIZE s);
            s1 = s\<lparr>fs_count := fs_count s + 1\<rparr>
        in then_do (store_at (fs_op s1) (unat idx) fs_op_zero) (\<lambda>q. Inr (Some (unat idx), s1\<lparr>fs_op := q\<rparr>)))"

section \<open>Initialisation\<close>

definition has_space :: "fs_config_t \<Rightarrow> bool" where
  "has_space c \<longleftrightarrow> p_start_addr c \<noteq> 0 \<and> p_end_addr c \<noteq> 0"

text \<open>The inner loop of \<open>fs_init\<close>: \<open>max_priority\<close> and \<open>max_index\<close>.\<close>

definition max_body :: "fs_config_t list \<Rightarrow> nat \<Rightarrow> u8 \<times> u8 \<Rightarrow> u8 \<times> u8" where
  "max_body cs j m =
     (if has_space (cs ! j) then m else if fs_priority (cs ! j) > fst m then (fs_priority (cs ! j), of_nat j) else m)"

definition assign_space :: "nat \<Rightarrow> u32 \<times> 'm fs \<Rightarrow> (u32 \<times> 'm fs) result" where
  "assign_space i x =
     (case x of (p_current_end, s) \<Rightarrow>
      let (max_priority, max_index) = fold (max_body (fs_data s)) [0..<length (fs_data s)] (0, of_nat i) in
      then_do (load_at (fs_data s) (unat max_index)) (\<lambda>c.
      let start = p_current_end - 4 * (ucast (num_pages c) * FS_PAGE_SIZE_WORDS s)
      in Inr (start, s\<lparr>fs_data := (fs_data s)[unat max_index := c\<lparr>p_start_addr := start, p_end_addr := p_current_end\<rparr>]\<rparr>)))"

definition fs_init :: "'m fs \<Rightarrow> (fs_ret_t \<times> 'm fs) result" where
  "fs_init s =
     (if has_flag FS_FLAG_INITIALIZED s then Inr (FS_SUCCESS, s)
      else
        let configs_to_init = length (filter (\<lambda>c. \<not> has_space c) (fs_data s)) in
        then_do (for_each assign_space [0..<configs_to_init] (fs_flash_page_end_addr s, s)) (\<lambda>(_, s1).
        Inr (FS_SUCCESS, set_flag FS_FLAG_INITIALIZED s1)))"

definition fs_fake_init :: "'m fs \<Rightarrow> fs_ret_t \<times> 'm fs" where
  "fs_fake_init s = (FS_SUCCESS, set_flag FS_FLAG_INITIALIZED s)"

section \<open>Interface\<close>

definition fs_store :: "'m fs_cb \<Rightarrow> nat option \<Rightarrow> u32 \<Rightarrow> u32 \<Rightarrow> u16 \<Rightarrow> nat \<Rightarrow> 'm fs \<Rightarrow> (fs_ret_t \<times> 'm fs) result" where
  "fs_store cb p_config p_dest p_src length_words p_context s =
     (if \<not> has_flag FS_FLAG_INITIALIZED s then Inr (FS_ERR_NOT_INITIALIZED, s)
      else if \<not> check_config p_config s then Inr (FS_ERR_INVALID_CFG, s)
      else if p_src = 0 \<or> p_dest = 0 then Inr (FS_ERR_NULL_ARG, s)
      else if p_src AND 0x03 \<noteq> 0 \<or> p_dest AND 0x03 \<noteq> 0 then Inr (FS_ERR_UNALIGNED_ADDR, s)
      else
        then_do (the_config p_config s) (\<lambda>c.
        if p_start_addr c > p_dest \<or> p_end_addr c < p_dest + 4 * ucast length_words then Inr (FS_ERR_INVALID_ADDR, s)
        else if length_words = 0 then Inr (FS_ERR_INVALID_ARG, s)
        else
          then_do (queue_get_next_free s) (\<lambda>(p_op, s1).
          case p_op of
            None \<Rightarrow> Inr (FS_ERR_QUEUE_FULL, s1)
          | Some i \<Rightarrow>
              then_do (load_at (fs_op s1) i) (\<lambda>op.
              then_do (queue_start cb (upd_op i (op\<lparr>op_p_context := p_context, op_p_config := p_config, op_op_code := FS_OP_STORE,
                  st_p_src := p_src, st_p_dest := p_dest, st_length_words := length_words\<rparr>) s1)) (\<lambda>s2.
              Inr (FS_SUCCESS, s2))))))"

definition fs_erase :: "'m fs_cb \<Rightarrow> nat option \<Rightarrow> u32 \<Rightarrow> u16 \<Rightarrow> nat \<Rightarrow> 'm fs \<Rightarrow> (fs_ret_t \<times> 'm fs) result" where
  "fs_erase cb p_config p_page_addr pages p_context s =
     (if \<not> has_flag FS_FLAG_INITIALIZED s then Inr (FS_ERR_NOT_INITIALIZED, s)
      else if \<not> check_config p_config s then Inr (FS_ERR_INVALID_CFG, s)
      else if p_page_addr = 0 then Inr (FS_ERR_NULL_ARG, s)
      else if p_page_addr AND (FS_PAGE_SIZE s - 1) \<noteq> 0 then Inr (FS_ERR_UNALIGNED_ADDR, s)
      else
        then_do (the_config p_config s) (\<lambda>c.
        if p_page_addr < p_start_addr c \<or> p_page_addr + 4 * (FS_PAGE_SIZE_WORDS s * ucast pages) > p_end_addr c
        then Inr (FS_ERR_INVALID_ADDR, s)
        else if pages = 0 then Inr (FS_ERR_INVALID_ARG, s)
        else
          then_do (queue_get_next_free s) (\<lambda>(p_op, s1).
          case p_op of
            None \<Rightarrow> Inr (FS_ERR_QUEUE_FULL, s1)
          | Some i \<Rightarrow>
              then_do (load_at (fs_op s1) i) (\<lambda>op.
              then_do (queue_start cb (upd_op i (op\<lparr>op_p_context := p_context, op_p_config := p_config, op_op_code := FS_OP_ERASE,
                  er_page := ucast (p_page_addr div FS_PAGE_SIZE s), er_pages_to_erase := pages\<rparr>) s1)) (\<lambda>s2.
              Inr (FS_SUCCESS, s2))))))"

text \<open>The pointer for the count: \<open>None\<close> is \<open>NULL\<close>.\<close>

definition fs_queued_op_count_get :: "u32 option \<Rightarrow> 'm fs \<Rightarrow> fs_ret_t \<times> u32 option" where
  "fs_queued_op_count_get p s =
     (case p of None \<Rightarrow> (FS_ERR_NULL_ARG, None) | Some _ \<Rightarrow> (FS_SUCCESS, Some (fs_count s)))"

definition fs_sys_event_handler :: "'m fs_cb \<Rightarrow> sys_evt \<Rightarrow> 'm fs \<Rightarrow> 'm fs result" where
  "fs_sys_event_handler cb sys_evt s =
     (let i = unat (fs_rp s) in
      then_do (if has_flag FS_FLAG_PROCESSING s
               then case sys_evt of
                      NRF_EVT_FLASH_OPERATION_SUCCESS \<Rightarrow> on_operation_success cb i s
                    | NRF_EVT_FLASH_OPERATION_ERROR \<Rightarrow> on_operation_failure cb i s
                    | NRF_EVT_OTHER \<Rightarrow> Inr s
               else if has_flag FS_FLAG_FLASH_REQ_PENDING s
               then let s1 = clear_flag FS_FLAG_FLASH_REQ_PENDING s
                    in Inr (if fs_count s1 > 0 then set_flag FS_FLAG_PROCESSING s1 else s1)
               else Inr s)
        (queue_process cb))"

end
