(* ===== verification/FstorageQueue.thy ===== *)
theory FstorageQueue
  imports Fstorage
begin

text \<open>
  The operations queue of fstorage as a bounded queue, its flags, and the requests to the SoftDevice that are within the flash space of
  a configuration.
\<close>

unbundle bit_operations_syntax

section \<open>Flags\<close>

lemmas fs_flag_defs = FS_FLAG_INITIALIZED_def FS_FLAG_PROCESSING_def FS_FLAG_FLASH_REQ_PENDING_def

lemma has_flag_bit: "has_flag (push_bit k 1) s = bit (fs_flags s) k"
  by (simp add: has_flag_def bit_iff_and_push_bit_not_eq_0)

lemma has_flag_set [simp]:
  "has_flag FS_FLAG_PROCESSING (set_flag FS_FLAG_PROCESSING s)"
  "has_flag FS_FLAG_FLASH_REQ_PENDING (set_flag FS_FLAG_FLASH_REQ_PENDING s)"
  "has_flag FS_FLAG_INITIALIZED (set_flag FS_FLAG_INITIALIZED s)"
  "has_flag FS_FLAG_PROCESSING (set_flag FS_FLAG_FLASH_REQ_PENDING s) = has_flag FS_FLAG_PROCESSING s"
  "has_flag FS_FLAG_PROCESSING (set_flag FS_FLAG_INITIALIZED s) = has_flag FS_FLAG_PROCESSING s"
  "has_flag FS_FLAG_FLASH_REQ_PENDING (set_flag FS_FLAG_PROCESSING s) = has_flag FS_FLAG_FLASH_REQ_PENDING s"
  "has_flag FS_FLAG_FLASH_REQ_PENDING (set_flag FS_FLAG_INITIALIZED s) = has_flag FS_FLAG_FLASH_REQ_PENDING s"
  "has_flag FS_FLAG_INITIALIZED (set_flag FS_FLAG_PROCESSING s) = has_flag FS_FLAG_INITIALIZED s"
  "has_flag FS_FLAG_INITIALIZED (set_flag FS_FLAG_FLASH_REQ_PENDING s) = has_flag FS_FLAG_INITIALIZED s"
  unfolding fs_flag_defs has_flag_bit by (auto simp: set_flag_def bit_simps)

lemma has_flag_clear [simp]:
  "\<not> has_flag FS_FLAG_PROCESSING (clear_flag FS_FLAG_PROCESSING s)"
  "\<not> has_flag FS_FLAG_FLASH_REQ_PENDING (clear_flag FS_FLAG_FLASH_REQ_PENDING s)"
  "has_flag FS_FLAG_PROCESSING (clear_flag FS_FLAG_FLASH_REQ_PENDING s) = has_flag FS_FLAG_PROCESSING s"
  "has_flag FS_FLAG_FLASH_REQ_PENDING (clear_flag FS_FLAG_PROCESSING s) = has_flag FS_FLAG_FLASH_REQ_PENDING s"
  "has_flag FS_FLAG_INITIALIZED (clear_flag FS_FLAG_PROCESSING s) = has_flag FS_FLAG_INITIALIZED s"
  "has_flag FS_FLAG_INITIALIZED (clear_flag FS_FLAG_FLASH_REQ_PENDING s) = has_flag FS_FLAG_INITIALIZED s"
  unfolding fs_flag_defs has_flag_bit by (auto simp: clear_flag_def bit_simps)

lemma has_flag_cong: "fs_flags t = fs_flags s \<Longrightarrow> has_flag f t = has_flag f s"
  by (simp add: has_flag_def)

section \<open>The queue\<close>

definition fs_ring :: "'m fs \<Rightarrow> bool" where
  "fs_ring s \<longleftrightarrow> length (fs_op s) = unat (FS_QUEUE_SIZE s) \<and> unat (FS_QUEUE_SIZE s) < 2 ^ 31 \<and> fs_rp s < FS_QUEUE_SIZE s \<and>
     fs_count s \<le> FS_QUEUE_SIZE s"

definition fs_queue :: "'m fs \<Rightarrow> fs_op_t list" where
  "fs_queue s = ring_slice (fs_op s) (unat (fs_rp s)) (unat (fs_count s))"

definition fs_free :: "'m fs \<Rightarrow> nat" where
  "fs_free s = (unat (fs_rp s) + unat (fs_count s)) mod unat (FS_QUEUE_SIZE s)"

definition fs_put :: "fs_op_t \<Rightarrow> 'm fs \<Rightarrow> 'm fs" where
  "fs_put op s = s\<lparr>fs_count := fs_count s + 1, fs_op := (fs_op s)[fs_free s := op]\<rparr>"

lemma fs_queue_Nil [simp]: "fs_queue s = [] \<longleftrightarrow> fs_count s = 0"
  by (simp add: fs_queue_def unat_eq_0)

lemma length_fs_queue [simp]: "length (fs_queue s) = unat (fs_count s)"
  by (simp add: fs_queue_def)

lemma fs_ring_bounds:
  assumes "fs_ring s"
  shows "unat (fs_rp s) < unat (FS_QUEUE_SIZE s)" "unat (fs_count s) \<le> unat (FS_QUEUE_SIZE s)"
    "length (fs_op s) = unat (FS_QUEUE_SIZE s)" "unat (FS_QUEUE_SIZE s) < 2 ^ 31"
  using assms by (simp_all add: fs_ring_def word_less_nat_alt word_le_nat_alt)

lemma fs_head:
  assumes "fs_ring s" and "0 < fs_count s"
  shows "load_at (fs_op s) (unat (fs_rp s)) = Inr (hd (fs_queue s))"
  using assms fs_ring_bounds [OF assms(1)]
  by (simp add: fs_queue_def ring_slice_hd load_at_def word_less_nat_alt)

lemma fs_put_ok:
  assumes "fs_ring s" and "fs_count s < FS_QUEUE_SIZE s"
  shows "fs_ring (fs_put op s)" "fs_queue (fs_put op s) = fs_queue s @ [op]"
proof -
  note b = fs_ring_bounds [OF assms(1)]
  have c: "unat (fs_count s) < unat (FS_QUEUE_SIZE s)" using assms(2) by (simp add: word_less_nat_alt)
  then have u: "unat (fs_count s + 1) = Suc (unat (fs_count s))" using b by (simp add: unat_word_ariths)
  then show "fs_ring (fs_put op s)" using assms(1) c b by (simp add: fs_ring_def fs_put_def word_le_nat_alt)
  show "fs_queue (fs_put op s) = fs_queue s @ [op]"
    using ring_slice_snoc [of "unat (fs_count s)" "fs_op s" "unat (fs_rp s)" op] u c b
    by (simp add: fs_queue_def fs_put_def fs_free_def)
qed

lemma queue_advance_ok:
  assumes "fs_ring s" and "0 < fs_count s"
  shows "fs_ring (queue_advance s)" "fs_queue (queue_advance s) = tl (fs_queue s)"
    "FS_QUEUE_SIZE (queue_advance s) = FS_QUEUE_SIZE s"
proof -
  note b = fs_ring_bounds [OF assms(1)]
  have c: "0 < unat (fs_count s)" using assms(2) by (simp add: word_less_nat_alt)
  then have u: "unat (fs_count s - 1) = unat (fs_count s) - 1" by (simp add: unat_minus_one unat_gt_0)
  have r: "unat (fs_rp s + 1) = Suc (unat (fs_rp s))" using b by (simp add: unat_word_ariths)
  then have w: "unat (if fs_rp s + 1 = FS_QUEUE_SIZE s then 0 else fs_rp s + 1) = Suc (unat (fs_rp s)) mod unat (FS_QUEUE_SIZE s)"
    using b(1) by (auto simp: word_unat_eq_iff)
  have s: "fs_op (queue_advance s) = fs_op s" "FS_QUEUE_SIZE (queue_advance s) = FS_QUEUE_SIZE s"
      "fs_count (queue_advance s) = fs_count s - 1"
      "fs_rp (queue_advance s) = (if fs_rp s + 1 = FS_QUEUE_SIZE s then 0 else fs_rp s + 1)"
    by (simp_all add: queue_advance_def Let_def clear_flag_def)
  have "unat (fs_rp (queue_advance s)) < unat (FS_QUEUE_SIZE s)" unfolding s w using b(1) by simp
  then show "fs_ring (queue_advance s)"
    using b u unfolding fs_ring_def s(1-3) by (simp add: word_less_nat_alt word_le_nat_alt)
  show "fs_queue (queue_advance s) = tl (fs_queue s)"
    unfolding fs_queue_def s(1,3) u using ring_slice_tl [OF c, of "fs_op s" "unat (fs_rp s)"] w b(3) by (simp add: s(4))
  show "FS_QUEUE_SIZE (queue_advance s) = FS_QUEUE_SIZE s" by (rule s(2))
qed

interpretation fsq: bounded_queue fs_ring fs_queue "\<lambda>s. unat (FS_QUEUE_SIZE s)" fs_put queue_advance "\<lambda>s. fs_op s ! unat (fs_rp s)"
proof (unfold_locales, goal_cases)
  case (1 q)
  then show ?case using fs_ring_bounds by simp
next
  case (8 q)
  then show ?case using fs_head [of q] fs_ring_bounds [of q] by (simp add: word_neq_0_conv load_at_def)
qed (simp_all add: fs_put_ok queue_advance_ok word_less_nat_alt [symmetric] word_neq_0_conv, simp_all add: fs_put_def)

lemma fs_set_head:
  assumes "fs_ring s" and "0 < fs_count s"
  shows "fs_ring (upd_op (unat (fs_rp s)) op s)" "fs_queue (upd_op (unat (fs_rp s)) op s) = op # tl (fs_queue s)"
proof -
  note b = fs_ring_bounds [OF assms(1)]
  show "fs_ring (upd_op (unat (fs_rp s)) op s)" using assms(1) by (simp add: fs_ring_def upd_op_def)
  have "unat (fs_rp s) \<noteq> Suc (unat (fs_rp s) + i) mod unat (FS_QUEUE_SIZE s)" if "Suc i < unat (fs_count s)" for i
    using mod_add_inj_less [of 0 "Suc i" "unat (FS_QUEUE_SIZE s)" "unat (fs_rp s)"] that b by simp
  then show "fs_queue (upd_op (unat (fs_rp s)) op s) = op # tl (fs_queue s)"
    using assms(2) b
    by (intro nth_equalityI) (auto simp: fs_queue_def upd_op_def ring_slice_nth nth_Cons nth_tl nth_list_update
      word_less_nat_alt split: nat.split)
qed

lemma get_free_ok:
  assumes "fs_ring s"
  shows "queue_get_next_free s = Inr (if fs_count s = FS_QUEUE_SIZE s then (None, s) else (Some (fs_free s), fs_put fs_op_zero s))"
proof (cases "fs_count s = FS_QUEUE_SIZE s")
  case False
  note b = fs_ring_bounds [OF assms(1)]
  have c: "unat (fs_count s) < unat (FS_QUEUE_SIZE s)"
    using False b(2) by (simp add: word_unat_eq_iff)
  have u: "unat (fs_rp s + fs_count s) = unat (fs_rp s) + unat (fs_count s)" using b c by (simp add: unat_word_ariths)
  let ?idx = "if fs_rp s + fs_count s < FS_QUEUE_SIZE s then fs_rp s + fs_count s else fs_rp s + fs_count s - FS_QUEUE_SIZE s"
  have "unat ?idx = fs_free s"
    using u c b by (auto simp: fs_free_def word_less_nat_alt word_le_nat_alt unat_sub mod_if)
  moreover have "fs_free s < length (fs_op s)" using b by (simp add: fs_free_def)
  ultimately show ?thesis
    using False by (simp add: queue_get_next_free_def Let_def store_at_def fs_put_def)
qed (simp add: queue_get_next_free_def)

lemma upd_put [simp]: "upd_op (fs_free s) op (fs_put x s) = fs_put op s"
  by (simp add: upd_op_def fs_put_def fs_free_def)

lemma load_put: "fs_ring s \<Longrightarrow> load_at (fs_op (fs_put op s)) (fs_free s) = Inr op"
  using fs_ring_bounds [of s] by (simp add: load_at_def fs_put_def fs_free_def)

section \<open>What the SoftDevice is asked\<close>

text \<open>A flash request stays within the space of a configuration.\<close>

definition in_space :: "'m fs \<Rightarrow> fs_config_t \<Rightarrow> flash_request \<Rightarrow> bool" where
  "in_space s c r \<longleftrightarrow> (case r of
     Flash_Write d src n \<Rightarrow> unat (p_start_addr c) \<le> unat d \<and> unat d + 4 * unat n \<le> unat (p_end_addr c) \<and>
       0 < n \<and> n \<le> FS_MAX_WRITE_SIZE_WORDS s
   | Page_Erase p \<Rightarrow> unat (p_start_addr c) \<le> unat p * unat (FS_PAGE_SIZE s) \<and>
       (unat p + 1) * unat (FS_PAGE_SIZE s) \<le> unat (p_end_addr c))"

definition request_ok :: "'m fs \<Rightarrow> flash_request \<Rightarrow> bool" where
  "request_ok s r \<longleftrightarrow> (\<exists>c \<in> set (fs_data s). in_space s c r)"

text \<open>An operation in the queue, with what is left of it.\<close>

definition op_ok :: "'m fs \<Rightarrow> fs_op_t \<Rightarrow> bool" where
  "op_ok s op \<longleftrightarrow> (\<exists>i c. op_p_config op = Some i \<and> i < length (fs_data s) \<and> c = fs_data s ! i \<and>
     (case op_op_code op of
        FS_OP_NONE \<Rightarrow> False
      | FS_OP_STORE \<Rightarrow> unat (p_start_addr c) \<le> unat (st_p_dest op) \<and>
          unat (st_p_dest op) + 4 * unat (st_length_words op) \<le> unat (p_end_addr c) \<and> st_offset op < st_length_words op
      | FS_OP_ERASE \<Rightarrow> unat (p_start_addr c) \<le> unat (er_page op) * unat (FS_PAGE_SIZE s) \<and>
          (unat (er_page op) + (unat (er_pages_to_erase op) - unat (er_pages_erased op))) * unat (FS_PAGE_SIZE s) \<le> unat (p_end_addr c) \<and>
          er_pages_erased op < er_pages_to_erase op))"

text \<open>What no call and no event changes.\<close>

definition same_config :: "'m fs \<Rightarrow> 'm fs \<Rightarrow> bool" where
  "same_config s t \<longleftrightarrow> fs_data t = fs_data s \<and> FS_QUEUE_SIZE t = FS_QUEUE_SIZE s \<and>
     FS_MAX_WRITE_SIZE_WORDS t = FS_MAX_WRITE_SIZE_WORDS s \<and> FS_PAGE_SIZE t = FS_PAGE_SIZE s \<and>
     cfg_dfu_signing t = cfg_dfu_signing s \<and> has_flag FS_FLAG_INITIALIZED t = has_flag FS_FLAG_INITIALIZED s"

lemma same_config_refl [simp]: "same_config s s"
  by (simp add: same_config_def)

lemma same_config_trans: "same_config s t \<Longrightarrow> same_config t u \<Longrightarrow> same_config s u"
  by (simp add: same_config_def)

lemma same_config_fields:
  assumes "same_config s t"
  shows "fs_data t = fs_data s" "FS_MAX_WRITE_SIZE_WORDS t = FS_MAX_WRITE_SIZE_WORDS s" "FS_PAGE_SIZE t = FS_PAGE_SIZE s"
    "FS_QUEUE_SIZE t = FS_QUEUE_SIZE s"
  using assms by (simp_all add: same_config_def)

lemma same_config_ok:
  assumes "same_config s t"
  shows "op_ok t op = op_ok s op" "request_ok t r = request_ok s r"
  unfolding op_ok_def request_ok_def in_space_def same_config_fields [OF assms] by (rule refl)+

end
