(* ===== verification/Fds.thy ===== *)
theory Fds
  imports FstorageQueue Crc
begin

text \<open>
  The flash data storage components/libraries/fds/fds.c with fds.h and fds_internal_defs.h: records with a header of three
  words, written one after the other to virtual pages of flash; every change is an operation in a queue, carried out as
  requests to the flash storage module (\<open>Fstorage\<close>), whose callback continues it. This theory has the types, the state, pages,
  searching and the two queues.

  The state extends that of the flash storage module. An address is a 32-bit word, 0 is \<open>NULL\<close>, \<open>fds_mem\<close> gives the word at an address;
  flash changes behind the program, when the SoftDevice carries out a request. The structures of a header are in memory as on the chip:
  little endian, two 16-bit members in a word. Array sizes (set by sdk_config.h) are the lengths of the lists.
  What is read of an uninitialised variable is a field of the state (\<open>uninit_op\<close>, \<open>uninit_evt\<close>).
\<close>

unbundle bit_operations_syntax

section \<open>Types\<close>

text \<open>
  Codes are numbers: some functions pass on a code of the flash storage module as their own.
\<close>

definition FDS_SUCCESS :: u32 where "FDS_SUCCESS = 0"
definition FDS_ERR_OPERATION_TIMEOUT :: u32 where "FDS_ERR_OPERATION_TIMEOUT = 1"
definition FDS_ERR_NOT_INITIALIZED :: u32 where "FDS_ERR_NOT_INITIALIZED = 2"
definition FDS_ERR_UNALIGNED_ADDR :: u32 where "FDS_ERR_UNALIGNED_ADDR = 3"
definition FDS_ERR_INVALID_ARG :: u32 where "FDS_ERR_INVALID_ARG = 4"
definition FDS_ERR_NULL_ARG :: u32 where "FDS_ERR_NULL_ARG = 5"
definition FDS_ERR_NO_OPEN_RECORDS :: u32 where "FDS_ERR_NO_OPEN_RECORDS = 6"
definition FDS_ERR_NO_SPACE_IN_FLASH :: u32 where "FDS_ERR_NO_SPACE_IN_FLASH = 7"
definition FDS_ERR_NO_SPACE_IN_QUEUES :: u32 where "FDS_ERR_NO_SPACE_IN_QUEUES = 8"
definition FDS_ERR_RECORD_TOO_LARGE :: u32 where "FDS_ERR_RECORD_TOO_LARGE = 9"
definition FDS_ERR_NOT_FOUND :: u32 where "FDS_ERR_NOT_FOUND = 10"
definition FDS_ERR_NO_PAGES :: u32 where "FDS_ERR_NO_PAGES = 11"
definition FDS_ERR_USER_LIMIT_REACHED :: u32 where "FDS_ERR_USER_LIMIT_REACHED = 12"
definition FDS_ERR_CRC_CHECK_FAILED :: u32 where "FDS_ERR_CRC_CHECK_FAILED = 13"
definition FDS_ERR_BUSY :: u32 where "FDS_ERR_BUSY = 14"
definition FDS_ERR_INTERNAL :: u32 where "FDS_ERR_INTERNAL = 15"

fun fs_code :: "fs_ret_t \<Rightarrow> u32" where
  "fs_code FS_SUCCESS = 0"
| "fs_code FS_ERR_NOT_INITIALIZED = 1"
| "fs_code FS_ERR_INVALID_CFG = 2"
| "fs_code FS_ERR_NULL_ARG = 3"
| "fs_code FS_ERR_INVALID_ARG = 4"
| "fs_code FS_ERR_INVALID_ADDR = 5"
| "fs_code FS_ERR_UNALIGNED_ADDR = 6"
| "fs_code FS_ERR_QUEUE_FULL = 7"
| "fs_code FS_ERR_OPERATION_TIMEOUT = 8"
| "fs_code FS_ERR_INTERNAL = 9"
| "fs_code FS_ERR_FAILURE_SINCE_LAST = 10"

definition FDS_OP_EXECUTING :: u32 where "FDS_OP_EXECUTING = fs_code FS_SUCCESS"
definition FDS_OP_COMPLETED :: u32 where "FDS_OP_COMPLETED = 0x1D1D"

lemmas fds_codes =
  FDS_SUCCESS_def FDS_ERR_OPERATION_TIMEOUT_def FDS_ERR_NOT_INITIALIZED_def FDS_ERR_UNALIGNED_ADDR_def FDS_ERR_INVALID_ARG_def
  FDS_ERR_NULL_ARG_def FDS_ERR_NO_OPEN_RECORDS_def FDS_ERR_NO_SPACE_IN_FLASH_def FDS_ERR_NO_SPACE_IN_QUEUES_def
  FDS_ERR_RECORD_TOO_LARGE_def FDS_ERR_NOT_FOUND_def FDS_ERR_NO_PAGES_def FDS_ERR_USER_LIMIT_REACHED_def
  FDS_ERR_CRC_CHECK_FAILED_def FDS_ERR_BUSY_def FDS_ERR_INTERNAL_def FDS_OP_EXECUTING_def FDS_OP_COMPLETED_def

definition FDS_FILE_ID_INVALID :: u16 where "FDS_FILE_ID_INVALID = 0xFFFF"
definition FDS_RECORD_KEY_DIRTY :: u16 where "FDS_RECORD_KEY_DIRTY = 0"

record fds_tl_t =
  record_key :: u16
  tl_length_words :: u16

record fds_ic_t =
  file_id :: u16
  crc16 :: u16

record fds_header_t =
  h_tl :: fds_tl_t
  h_ic :: fds_ic_t
  record_id :: u32

record fds_record_desc_t =
  d_record_id :: u32
  d_p_record :: u32
  d_gc_run_count :: u16
  d_record_is_open :: bool

record fds_flash_record_t =
  fr_p_header :: u32
  fr_p_data :: u32

record fds_record_chunk_t =
  ch_p_data :: u32
  ch_length_words :: u16

record fds_record_t =
  rec_file_id :: u16
  rec_key :: u16
  rec_p_chunks :: "fds_record_chunk_t list"
  rec_num_chunks :: u16

record fds_reserve_token_t =
  rt_page :: u16
  rt_length_words :: u16

record fds_find_token_t =
  ft_p_addr :: u32
  ft_page :: u16

datatype fds_evt_id_t = FDS_EVT_INIT | FDS_EVT_WRITE | FDS_EVT_UPDATE | FDS_EVT_DEL_RECORD | FDS_EVT_DEL_FILE | FDS_EVT_GC

text \<open>The members \<open>write\<close> and \<open>del\<close> of the union begin with the same three fields.\<close>

record fds_evt_t =
  ev_id :: fds_evt_id_t
  ev_result :: u32
  ev_record_id :: u32
  ev_file_id :: u16
  ev_record_key :: u16
  ev_is_record_updated :: bool

record fds_stat_t =
  open_records :: u16
  valid_records :: u16
  dirty_records :: u16
  stat_words_reserved :: u16
  words_used :: u16
  largest_contig :: u16
  freeable_words :: u16

definition FDS_PAGE_TAG_SIZE :: nat where "FDS_PAGE_TAG_SIZE = 2"
definition FDS_PAGE_TAG_WORD_0 :: nat where "FDS_PAGE_TAG_WORD_0 = 0"
definition FDS_PAGE_TAG_WORD_1 :: nat where "FDS_PAGE_TAG_WORD_1 = 1"
definition FDS_PAGE_TAG_MAGIC :: u32 where "FDS_PAGE_TAG_MAGIC = 0xDEADC0DE"
definition FDS_PAGE_TAG_SWAP :: u32 where "FDS_PAGE_TAG_SWAP = 0xF11E01FF"
definition FDS_PAGE_TAG_DATA :: u32 where "FDS_PAGE_TAG_DATA = 0xF11E01FE"
definition FDS_ERASED_WORD :: u32 where "FDS_ERASED_WORD = 0xFFFFFFFF"
definition FDS_OFFSET_TL :: nat where "FDS_OFFSET_TL = 0"
definition FDS_OFFSET_IC :: nat where "FDS_OFFSET_IC = 1"
definition FDS_OFFSET_ID :: nat where "FDS_OFFSET_ID = 2"
definition FDS_OFFSET_DATA :: nat where "FDS_OFFSET_DATA = 3"
definition FDS_HEADER_SIZE_TL :: u16 where "FDS_HEADER_SIZE_TL = 1"
definition FDS_HEADER_SIZE_IC :: u16 where "FDS_HEADER_SIZE_IC = 1"
definition FDS_HEADER_SIZE_ID :: u16 where "FDS_HEADER_SIZE_ID = 1"
definition FDS_HEADER_SIZE :: nat where "FDS_HEADER_SIZE = 3"

definition FDS_FLAG_INITIALIZING :: u8 where "FDS_FLAG_INITIALIZING = push_bit 0 1"
definition FDS_FLAG_INITIALIZED :: u8 where "FDS_FLAG_INITIALIZED = push_bit 1 1"
definition FDS_FLAG_PROCESSING :: u8 where "FDS_FLAG_PROCESSING = push_bit 2 1"
definition FDS_FLAG_VERIFY_CRC :: u8 where "FDS_FLAG_VERIFY_CRC = push_bit 3 1"

datatype fds_page_type_t = FDS_PAGE_DATA | FDS_PAGE_SWAP | FDS_PAGE_ERASED | FDS_PAGE_UNDEFINED

record fds_page_t =
  page_type :: fds_page_type_t
  p_addr :: u32
  write_offset :: u16
  words_reserved :: u16
  records_open :: u16
  can_gc :: bool

record fds_swap_page_t =
  sw_p_addr :: u32
  sw_write_offset :: u16

datatype fds_op_code_t =
  FDS_OP_NONE | FDS_OP_INIT | FDS_OP_WRITE | FDS_OP_UPDATE | FDS_OP_DEL_RECORD | FDS_OP_DEL_FILE | FDS_OP_GC

datatype fds_init_step_t = FDS_OP_INIT_TAG_SWAP | FDS_OP_INIT_TAG_DATA | FDS_OP_INIT_ERASE_SWAP | FDS_OP_INIT_PROMOTE_SWAP

datatype fds_write_step_t =
    FDS_OP_WRITE_HEADER_BEGIN
  | FDS_OP_WRITE_HEADER_FINALIZE
  | FDS_OP_WRITE_RECORD_ID
  | FDS_OP_WRITE_CHUNKS
  | FDS_OP_WRITE_FIND_RECORD
  | FDS_OP_WRITE_FLAG_DIRTY
  | FDS_OP_WRITE_DONE

datatype fds_delete_step_t = FDS_OP_DEL_RECORD_FLAG_DIRTY | FDS_OP_DEL_FILE_FLAG_DIRTY | FDS_OP_DEL_DONE

text \<open>The members of the union are read under their own operation code only.\<close>

record fds_op_t =
  op_code :: fds_op_code_t
  i_step :: fds_init_step_t
  w_header :: fds_header_t
  w_step :: fds_write_step_t
  w_page :: u16
  w_chunk_offset :: u16
  w_chunk_count :: u8
  w_record_to_delete :: u32
  del_step :: fds_delete_step_t
  del_file_id :: u16
  del_record_key :: u16
  del_record_to_delete :: u32

record fds_op_queue_t =
  oq_op :: "fds_op_t list"
  oq_rp :: u32
  oq_count :: u32

record fds_chunk_queue_t =
  cq_chunk :: "fds_record_chunk_t list"
  cq_rp :: u32
  cq_count :: u32

datatype fds_gc_state_t =
    GC_BEGIN
  | GC_NEXT_PAGE
  | GC_FIND_NEXT_RECORD
  | GC_COPY_RECORD
  | GC_ERASE_PAGE
  | GC_DISCARD_SWAP
  | GC_PROMOTE_SWAP
  | GC_TAG_NEW_SWAP

record fds_gc_data_t =
  gc_state :: fds_gc_state_t
  gc_cur_page :: u16
  gc_p_record_src :: u32
  gc_run_count :: u16
  do_gc_page :: "bool list"
  gc_resume :: bool

definition PAGE_ERASED :: u32 where "PAGE_ERASED = 1"
definition PAGE_DATA :: u32 where "PAGE_DATA = 2"
definition SWAP_EMPTY :: u32 where "SWAP_EMPTY = 4"
definition SWAP_DIRTY :: u32 where "SWAP_DIRTY = 8"

definition NO_PAGES :: u32 where "NO_PAGES = 0"
definition FRESH_INSTALL :: u32 where "FRESH_INSTALL = PAGE_ERASED"
definition TAG_SWAP :: u32 where "TAG_SWAP = PAGE_ERASED OR PAGE_DATA"
definition TAG_DATA :: u32 where "TAG_DATA = PAGE_ERASED OR SWAP_EMPTY"
definition TAG_DATA_INST :: u32 where "TAG_DATA_INST = PAGE_ERASED OR PAGE_DATA OR SWAP_EMPTY"
definition PROMOTE_SWAP :: u32 where "PROMOTE_SWAP = PAGE_ERASED OR SWAP_DIRTY"
definition PROMOTE_SWAP_INST :: u32 where "PROMOTE_SWAP_INST = PAGE_ERASED OR PAGE_DATA OR SWAP_DIRTY"
definition DISCARD_SWAP :: u32 where "DISCARD_SWAP = PAGE_DATA OR SWAP_DIRTY"
definition ALREADY_INSTALLED :: u32 where "ALREADY_INSTALLED = PAGE_DATA OR SWAP_EMPTY"

lemmas fds_init_opts =
  PAGE_ERASED_def PAGE_DATA_def SWAP_EMPTY_def SWAP_DIRTY_def NO_PAGES_def FRESH_INSTALL_def TAG_SWAP_def TAG_DATA_def
  TAG_DATA_INST_def PROMOTE_SWAP_def PROMOTE_SWAP_INST_def DISCARD_SWAP_def ALREADY_INSTALLED_def

text \<open>
  Besides the variables of fds.c: \<open>we_desc\<close> and \<open>fd_tok\<close> are the static variables of \<open>write_execute\<close> and of
  \<open>file_find_and_delete\<close>; \<open>fds_cfg\<close> is the index of \<open>fs_config\<close> among the registered configurations; \<open>fds_evts\<close>
  notes the events sent; then memory and the addresses the linker gives to what is written to flash:
  the header in element \<open>i\<close> of the operation queue, the two page tags, the word of a dirty record.
\<close>

record fds = fstorage +
  m_flags :: u8
  m_users :: u8
  m_cb_table :: "nat option list"
  m_latest_rec_id :: u32
  m_op_queue :: fds_op_queue_t
  m_chunk_queue :: fds_chunk_queue_t
  m_pages :: "fds_page_t list"
  m_swap_page :: fds_swap_page_t
  m_gc :: fds_gc_data_t
  we_desc :: fds_record_desc_t
  fd_tok :: fds_find_token_t
  FDS_VIRTUAL_PAGE_SIZE :: nat
  FDS_PHY_PAGE_SIZE :: nat
  cfg_fds_crc :: bool
  fds_cfg :: nat
  fds_mem :: "u32 \<Rightarrow> u32"
  op_header_addr :: "nat \<Rightarrow> u32"
  page_tag_swap_addr :: u32
  page_tag_data_addr :: u32
  tl_dirty_addr :: u32
  uninit_op :: fds_op_t
  uninit_evt :: fds_evt_t
  fds_evts :: "fds_evt_t list"

type_synonym 'm fds_st = "'m fds_scheme"
type_synonym 'm fds_fs_cb = "nat \<Rightarrow> fs_evt_t \<Rightarrow> fs_ret_t \<Rightarrow> 'm fds_scheme \<Rightarrow> 'm fds_scheme result"
type_synonym 'm fds_user_cb = "nat \<Rightarrow> fds_evt_t \<Rightarrow> 'm fds_scheme \<Rightarrow> 'm fds_scheme result"

definition FDS_MAX_PAGES :: "'m fds_st \<Rightarrow> nat" where "FDS_MAX_PAGES s = length (m_pages s)"
definition FDS_VIRTUAL_PAGES :: "'m fds_st \<Rightarrow> nat" where "FDS_VIRTUAL_PAGES s = Suc (FDS_MAX_PAGES s)"
definition FDS_PAGE_SIZE :: "'m fds_st \<Rightarrow> nat" where "FDS_PAGE_SIZE s = FDS_VIRTUAL_PAGE_SIZE s"
definition FDS_PHY_PAGES_IN_VPAGE :: "'m fds_st \<Rightarrow> nat" where
  "FDS_PHY_PAGES_IN_VPAGE s = FDS_VIRTUAL_PAGE_SIZE s div FDS_PHY_PAGE_SIZE s"
definition FDS_OP_QUEUE_SIZE :: "'m fds_st \<Rightarrow> u32" where "FDS_OP_QUEUE_SIZE s = of_nat (length (oq_op (m_op_queue s)))"
definition FDS_CHUNK_QUEUE_SIZE :: "'m fds_st \<Rightarrow> u32" where "FDS_CHUNK_QUEUE_SIZE s = of_nat (length (cq_chunk (m_chunk_queue s)))"
definition FDS_MAX_USERS :: "'m fds_st \<Rightarrow> nat" where "FDS_MAX_USERS s = length (m_cb_table s)"

definition fds_op_zero :: fds_op_t where
  "fds_op_zero = \<lparr>op_code = FDS_OP_NONE, i_step = FDS_OP_INIT_TAG_SWAP,
     w_header = \<lparr>h_tl = \<lparr>record_key = 0, tl_length_words = 0\<rparr>, h_ic = \<lparr>file_id = 0, crc16 = 0\<rparr>, record_id = 0\<rparr>,
     w_step = FDS_OP_WRITE_HEADER_BEGIN, w_page = 0, w_chunk_offset = 0, w_chunk_count = 0, w_record_to_delete = 0,
     del_step = FDS_OP_DEL_RECORD_FLAG_DIRTY, del_file_id = 0, del_record_key = 0, del_record_to_delete = 0\<rparr>"

section \<open>Memory\<close>

text \<open>\<open>p + n\<close> for a pointer to words; past the end of memory it is undefined.\<close>

definition ptr_add :: "u32 \<Rightarrow> nat \<Rightarrow> u32 result" where
  "ptr_add p n = (if unat p + 4 * n < 2 ^ 32 then Inr (p + of_nat (4 * n)) else Inl Out_Of_Bounds)"

definition tl_of_word :: "u32 \<Rightarrow> fds_tl_t" where
  "tl_of_word w = \<lparr>record_key = ucast w, tl_length_words = ucast (drop_bit 16 w)\<rparr>"

definition word_of_tl :: "fds_tl_t \<Rightarrow> u32" where
  "word_of_tl t = ucast (record_key t) OR push_bit 16 (ucast (tl_length_words t))"

definition ic_of_word :: "u32 \<Rightarrow> fds_ic_t" where
  "ic_of_word w = \<lparr>file_id = ucast w, crc16 = ucast (drop_bit 16 w)\<rparr>"

definition word_of_ic :: "fds_ic_t \<Rightarrow> u32" where
  "word_of_ic t = ucast (file_id t) OR push_bit 16 (ucast (crc16 t))"

text \<open>\<open>(fds_header_t * )p\<close>.\<close>

definition header_at :: "(u32 \<Rightarrow> u32) \<Rightarrow> u32 \<Rightarrow> fds_header_t" where
  "header_at m p = \<lparr>h_tl = tl_of_word (m p), h_ic = ic_of_word (m (p + 4)), record_id = m (p + 8)\<rparr>"

definition word_bytes :: "u32 \<Rightarrow> u8 list" where
  "word_bytes w = [ucast w, ucast (drop_bit 8 w), ucast (drop_bit 16 w), ucast (drop_bit 24 w)]"

definition mem_bytes :: "(u32 \<Rightarrow> u32) \<Rightarrow> u32 \<Rightarrow> nat \<Rightarrow> u8 list" where
  "mem_bytes m p n = concat (map (\<lambda>k. word_bytes (m (p + of_nat (4 * k)))) [0..<n])"

definition is_word_aligned :: "u32 \<Rightarrow> bool" where
  "is_word_aligned p \<longleftrightarrow> p AND 0x03 = 0"

end
