(* ===== verification/FdsPages.thy ===== *)
theory FdsPages
  imports Fds
begin

text \<open>
  The pages of the flash data storage and the search for records in them, the queues of operations and of chunks, and
  the survey of the pages at initialisation (fds.c, from \<open>flag_set\<close> to \<open>pages_init\<close>). A search that runs along the headers
  ends because every jump is over at least a header, and memory ends.
\<close>

unbundle bit_operations_syntax

section \<open>Flags and events\<close>

definition flag_set :: "u8 \<Rightarrow> 'm fds_st \<Rightarrow> 'm fds_st" where
  "flag_set f s = s\<lparr>m_flags := m_flags s OR f\<rparr>"

definition flag_clear :: "u8 \<Rightarrow> 'm fds_st \<Rightarrow> 'm fds_st" where
  "flag_clear f s = s\<lparr>m_flags := m_flags s AND NOT f\<rparr>"

definition flag_is_set :: "u8 \<Rightarrow> 'm fds_st \<Rightarrow> bool" where
  "flag_is_set f s \<longleftrightarrow> m_flags s AND f \<noteq> 0"

definition event_send :: "'m fds_user_cb \<Rightarrow> fds_evt_t \<Rightarrow> 'm fds_st \<Rightarrow> 'm fds_st result" where
  "event_send users evt s =
     for_each (\<lambda>user s. then_do (load_at (m_cb_table s) user) (\<lambda>cb.
         case cb of None \<Rightarrow> Inr s | Some f \<Rightarrow> users f evt s))
       [0..<FDS_MAX_USERS s] (s\<lparr>fds_evts := fds_evts s @ [evt]\<rparr>)"

definition event_prepare :: "fds_op_t \<Rightarrow> fds_evt_t \<Rightarrow> fds_evt_t" where
  "event_prepare op evt =
     (case op_code op of
        FDS_OP_INIT \<Rightarrow> evt\<lparr>ev_id := FDS_EVT_INIT\<rparr>
      | FDS_OP_WRITE \<Rightarrow> evt\<lparr>ev_id := FDS_EVT_WRITE, ev_file_id := file_id (h_ic (w_header op)),
          ev_record_key := record_key (h_tl (w_header op)), ev_record_id := record_id (w_header op)\<rparr>
      | FDS_OP_UPDATE \<Rightarrow> evt\<lparr>ev_id := FDS_EVT_UPDATE, ev_file_id := file_id (h_ic (w_header op)),
          ev_record_key := record_key (h_tl (w_header op)), ev_record_id := record_id (w_header op),
          ev_is_record_updated := (w_step op = FDS_OP_WRITE_DONE)\<rparr>
      | FDS_OP_DEL_RECORD \<Rightarrow> evt\<lparr>ev_id := FDS_EVT_DEL_RECORD, ev_file_id := del_file_id op,
          ev_record_key := del_record_key op, ev_record_id := del_record_to_delete op\<rparr>
      | FDS_OP_DEL_FILE \<Rightarrow> evt\<lparr>ev_id := FDS_EVT_DEL_FILE, ev_file_id := del_file_id op,
          ev_record_key := FDS_RECORD_KEY_DIRTY\<rparr>
      | FDS_OP_GC \<Rightarrow> evt\<lparr>ev_id := FDS_EVT_GC\<rparr>
      | FDS_OP_NONE \<Rightarrow> evt)"

section \<open>Pages\<close>

definition header_is_valid :: "fds_header_t \<Rightarrow> bool" where
  "header_is_valid h \<longleftrightarrow> file_id (h_ic h) \<noteq> FDS_FILE_ID_INVALID \<and> record_key (h_tl h) \<noteq> FDS_RECORD_KEY_DIRTY"

definition the_fds_config :: "'m fds_st \<Rightarrow> fs_config_t result" where
  "the_fds_config s = load_at (fs_data s) (fds_cfg s)"

definition address_is_valid :: "u32 \<Rightarrow> 'm fds_st \<Rightarrow> bool result" where
  "address_is_valid p s =
     then_do (the_fds_config s) (\<lambda>c.
     Inr (p \<noteq> 0 \<and> p \<ge> p_start_addr c \<and> p \<le> p_end_addr c \<and> is_word_aligned p))"

text \<open>\<open>p_chunk\<close> is an array; the early return ends the loop.\<close>

fun chunk_is_aligned :: "fds_record_chunk_t list \<Rightarrow> nat \<Rightarrow> nat \<Rightarrow> bool result" where
  "chunk_is_aligned p_chunk i 0 = Inr True"
| "chunk_is_aligned p_chunk i (Suc n) =
     then_do (load_at p_chunk i) (\<lambda>c.
     if \<not> is_word_aligned (ch_p_data c) then Inr False else chunk_is_aligned p_chunk (Suc i) n)"

definition page_identify :: "u32 \<Rightarrow> 'm fds_st \<Rightarrow> fds_page_type_t" where
  "page_identify p s =
     (let w = (\<lambda>k. fds_mem s (p + of_nat (4 * k))) in
      if w FDS_PAGE_TAG_WORD_0 \<noteq> FDS_PAGE_TAG_MAGIC then FDS_PAGE_UNDEFINED
      else if w FDS_PAGE_TAG_WORD_1 = FDS_PAGE_TAG_SWAP then FDS_PAGE_SWAP
      else if w FDS_PAGE_TAG_WORD_1 = FDS_PAGE_TAG_DATA then FDS_PAGE_DATA
      else FDS_PAGE_UNDEFINED)"

definition page_is_erased :: "u32 \<Rightarrow> 'm fds_st \<Rightarrow> bool" where
  "page_is_erased p s \<longleftrightarrow> list_all (\<lambda>i. fds_mem s (p + of_nat (4 * i)) = FDS_ERASED_WORD) [0..<FDS_PAGE_SIZE s]"

definition page_has_space :: "fds_page_t \<Rightarrow> u16 \<Rightarrow> 'm fds_st \<Rightarrow> bool" where
  "page_has_space pg length_words s \<longleftrightarrow>
     unat (length_words + write_offset pg + words_reserved pg) < FDS_PAGE_SIZE s"

definition page_contains :: "u32 \<Rightarrow> 'm fds_st \<Rightarrow> nat \<Rightarrow> bool" where
  "page_contains p_rec s i \<longleftrightarrow>
     p_rec > p_addr (m_pages s ! i) \<and> p_rec < p_addr (m_pages s ! i) + of_nat (4 * FDS_PAGE_SIZE s)"

text \<open>\<open>None\<close> is \<open>FDS_ERR_NOT_FOUND\<close>, with \<open>*p_page\<close> not set.\<close>

definition page_from_record :: "u32 \<Rightarrow> 'm fds_st \<Rightarrow> u16 option" where
  "page_from_record p_rec s = map_option of_nat (find (page_contains p_rec s) [0..<FDS_MAX_PAGES s])"

text \<open>The loop of \<open>page_scan\<close>: the pointer, \<open>*words_written\<close>, \<open>dirty_record_found\<close>, \<open>m_latest_rec_id\<close>.\<close>

function page_scan_loop :: "(u32 \<Rightarrow> u32) \<Rightarrow> u32 \<Rightarrow> u32 \<Rightarrow> u16 \<Rightarrow> bool \<Rightarrow> u32 \<Rightarrow> (u16 \<times> bool \<times> u32) result" where
  "page_scan_loop m p_end p words dirty latest =
     (if p < p_end \<and> m p \<noteq> FDS_ERASED_WORD
      then
        let h = header_at m p;
            dirty' = (dirty \<or> \<not> header_is_valid h);
            latest' = (if header_is_valid h \<and> record_id h > latest then record_id h else latest);
            n = FDS_HEADER_SIZE + unat (tl_length_words (h_tl h))
        in if unat p + 4 * n < 2 ^ 32
           then page_scan_loop m p_end (p + of_nat (4 * n)) (words + of_nat n) dirty' latest'
           else Inl Out_Of_Bounds
      else Inr (words, dirty, latest))"
  by pat_completeness auto

lemma jump_forward:
  assumes "unat (p :: u32) + 4 * n < 2 ^ 32"
  shows "unat (p + of_nat (4 * n)) = unat p + 4 * n"
proof -
  have "unat (of_nat (4 * n) :: u32) = 4 * n" by (rule unat_of_nat_u32) (use assms in simp)
  then show ?thesis using assms by (subst unat_add_lem [THEN iffD1]) simp_all
qed

termination page_scan_loop
proof (relation "measure (\<lambda>(m, e, p, _). 2 ^ 32 - unat p)", goal_cases)
  case (2 m p_end p words dirty latest h dirty' latest' n)
  from jump_forward [OF 2(6)] 2(5,6) show ?case by (simp add: FDS_HEADER_SIZE_def)
qed simp

definition page_scan :: "u32 \<Rightarrow> 'm fds_st \<Rightarrow> (u16 \<times> bool \<times> 'm fds_st) result" where
  "page_scan p s =
     then_do (ptr_add p (FDS_PAGE_SIZE s)) (\<lambda>p_end.
     then_do (ptr_add p FDS_PAGE_TAG_SIZE) (\<lambda>p1.
     then_do (page_scan_loop (fds_mem s) p_end p1 (of_nat FDS_PAGE_TAG_SIZE) False (m_latest_rec_id s)) (\<lambda>(words, dirty, latest).
     Inr (words, dirty, s\<lparr>m_latest_rec_id := latest\<rparr>))))"

text \<open>Change element \<open>i\<close> of \<open>m_pages\<close>.\<close>

definition upd_page :: "nat \<Rightarrow> (fds_page_t \<Rightarrow> fds_page_t) \<Rightarrow> 'm fds_st \<Rightarrow> 'm fds_st result" where
  "upd_page i f s =
     then_do (load_at (m_pages s) i) (\<lambda>pg. Inr (s\<lparr>m_pages := (m_pages s)[i := f pg]\<rparr>))"

definition page_offsets_update :: "nat \<Rightarrow> u16 \<Rightarrow> 'm fds_st \<Rightarrow> 'm fds_st result" where
  "page_offsets_update i length_words =
     upd_page i (\<lambda>pg. pg\<lparr>write_offset := write_offset pg + (of_nat FDS_HEADER_SIZE + length_words),
                         words_reserved := words_reserved pg - (of_nat FDS_HEADER_SIZE + length_words)\<rparr>)"

text \<open>A request to the flash storage module; \<open>cb\<close> stands for the callbacks of its configurations.\<close>

definition store_words :: "'m fds_fs_cb \<Rightarrow> u32 \<Rightarrow> u32 \<Rightarrow> u16 \<Rightarrow> 'm fds_st \<Rightarrow> (u32 \<times> 'm fds_st) result" where
  "store_words cb p_dest p_src length_words s =
     then_do (fs_store cb (Some (fds_cfg s)) p_dest p_src length_words 0 s) (\<lambda>(r, s1). Inr (fs_code r, s1))"

definition erase_vpage :: "'m fds_fs_cb \<Rightarrow> u32 \<Rightarrow> 'm fds_st \<Rightarrow> (u32 \<times> 'm fds_st) result" where
  "erase_vpage cb p s =
     then_do (fs_erase cb (Some (fds_cfg s)) p (of_nat (FDS_PHY_PAGES_IN_VPAGE s)) 0 s) (\<lambda>(r, s1). Inr (fs_code r, s1))"

definition page_tag_write_swap :: "'m fds_fs_cb \<Rightarrow> 'm fds_st \<Rightarrow> (u32 \<times> 'm fds_st) result" where
  "page_tag_write_swap cb s =
     store_words cb (sw_p_addr (m_swap_page s)) (page_tag_swap_addr s) (of_nat FDS_PAGE_TAG_SIZE) s"

definition page_tag_write_data :: "'m fds_fs_cb \<Rightarrow> u32 \<Rightarrow> 'm fds_st \<Rightarrow> (u32 \<times> 'm fds_st) result" where
  "page_tag_write_data cb p s = store_words cb p (page_tag_data_addr s) (of_nat FDS_PAGE_TAG_SIZE) s"

text \<open>The result with \<open>*p_page\<close>, which is set on success only.\<close>

definition write_space_reserve :: "u16 \<Rightarrow> 'm fds_st \<Rightarrow> u32 \<times> u16 option \<times> 'm fds_st" where
  "write_space_reserve length_words s =
     (let total_len_words = length_words + of_nat FDS_HEADER_SIZE :: u16 in
      if int (unat total_len_words) \<ge> int (FDS_PAGE_SIZE s) - int FDS_PAGE_TAG_SIZE then (FDS_ERR_RECORD_TOO_LARGE, None, s)
      else
        case find (\<lambda>i. page_type (m_pages s ! i) = FDS_PAGE_DATA \<and> page_has_space (m_pages s ! i) total_len_words s)
               [0..<FDS_MAX_PAGES s] of
          None \<Rightarrow> (FDS_ERR_NO_SPACE_IN_FLASH, None, s)
        | Some i \<Rightarrow> (FDS_SUCCESS, Some (of_nat i), s\<lparr>m_pages := (m_pages s)[i := (m_pages s ! i)
              \<lparr>words_reserved := words_reserved (m_pages s ! i) + total_len_words\<rparr>]\<rparr>))"

definition write_space_free :: "u16 \<Rightarrow> u16 \<Rightarrow> 'm fds_st \<Rightarrow> 'm fds_st result" where
  "write_space_free length_words page =
     upd_page (unat page) (\<lambda>pg. pg\<lparr>words_reserved := words_reserved pg - (length_words + of_nat FDS_HEADER_SIZE)\<rparr>)"

definition record_id_new :: "'m fds_st \<Rightarrow> u32 \<times> 'm fds_st" where
  "record_id_new s = (m_latest_rec_id s + 1, s\<lparr>m_latest_rec_id := m_latest_rec_id s + 1\<rparr>)"

section \<open>Searching\<close>

text \<open>The loop of \<open>record_find_next\<close>: the address of the next valid record.\<close>

function next_valid :: "(u32 \<Rightarrow> u32) \<Rightarrow> u32 \<Rightarrow> u32 \<Rightarrow> u32 option result" where
  "next_valid m p_end p =
     (if p < p_end \<and> m p \<noteq> FDS_ERASED_WORD
      then
        let h = header_at m p; n = FDS_HEADER_SIZE + unat (tl_length_words (h_tl h))
        in if header_is_valid h then Inr (Some p)
           else if unat p + 4 * n < 2 ^ 32 then next_valid m p_end (p + of_nat (4 * n)) else Inl Out_Of_Bounds
      else Inr None)"
  by pat_completeness auto

termination next_valid
proof (relation "measure (\<lambda>(m, e, p). 2 ^ 32 - unat p)", goal_cases)
  case (2 m p_end p h n)
  from jump_forward [OF 2(5)] 2(3,5) show ?case by (simp add: FDS_HEADER_SIZE_def)
qed simp

declare page_scan_loop.simps [simp del] next_valid.simps [simp del]

definition record_find_next :: "nat \<Rightarrow> u32 \<Rightarrow> 'm fds_st \<Rightarrow> u32 option result" where
  "record_find_next page p_record s =
     then_do (load_at (m_pages s) page) (\<lambda>pg.
     then_do (if p_record \<noteq> 0
              then ptr_add p_record (FDS_HEADER_SIZE + unat (tl_length_words (h_tl (header_at (fds_mem s) p_record))))
              else ptr_add (p_addr pg) FDS_PAGE_TAG_SIZE) (\<lambda>p.
     then_do (ptr_add (p_addr pg) (FDS_PAGE_SIZE s)) (\<lambda>p_end.
     next_valid (fds_mem s) p_end p)))"


text \<open>A record that is found lies further on, so that the loops over the records of a page end.\<close>

lemma next_valid_unfold:
  "next_valid m e p =
     (if p < e \<and> m p \<noteq> FDS_ERASED_WORD
      then if header_is_valid (header_at m p) then Inr (Some p)
           else then_do (ptr_add p (FDS_HEADER_SIZE + unat (tl_length_words (h_tl (header_at m p))))) (next_valid m e)
      else Inr None)"
  by (subst next_valid.simps) (simp add: Let_def ptr_add_def)

lemma ptr_add_Inr: "ptr_add p n = Inr q \<longleftrightarrow> unat q = unat p + 4 * n"
proof
  assume "ptr_add p n = Inr q"
  then have "unat p + 4 * n < 2 ^ 32" "q = p + of_nat (4 * n)" by (simp_all add: ptr_add_def split: if_splits)
  then show "unat q = unat p + 4 * n" by (simp only: jump_forward)
next
  assume q: "unat q = unat p + 4 * n"
  then have l: "unat p + 4 * n < 2 ^ 32" using unsigned_less [of q, where 'a = nat] by simp
  then have "unat q = unat (p + of_nat (4 * n))" using q by (simp only: jump_forward)
  then have "q = p + of_nat (4 * n)" by (simp only: unsigned_word_eqI)
  then show "ptr_add p n = Inr q" using l by (simp only: ptr_add_def if_True)
qed

lemma next_valid_ge:
  assumes "next_valid m e p = Inr (Some q)"
  shows "p \<le> q"
  using assms
proof (induction "2 ^ 32 - unat p" arbitrary: p rule: less_induct)
  case (less p)
  show ?case
  proof (cases "next_valid m e p = Inr (Some p)")
    case False
    then obtain r where r: "ptr_add p (FDS_HEADER_SIZE + unat (tl_length_words (h_tl (header_at m p)))) = Inr r"
      "next_valid m e r = Inr (Some q)"
      using less(2) by (subst (asm) (1 2) next_valid_unfold) (auto simp: then_do_Inr_iff split: if_splits)
    then have "unat p < unat r" by (simp add: ptr_add_Inr FDS_HEADER_SIZE_def)
    moreover have "unat r < 2 ^ 32" using unsigned_less [of r, where 'a = nat] by simp
    ultimately have "r \<le> q" by (intro less(1) r) simp
    then show ?thesis using \<open>unat p < unat r\<close> by (simp add: word_le_nat_alt)
  qed (use less(2) in simp)
qed

lemma record_find_next_greater:
  assumes "record_find_next page p s = Inr (Some q)"
  shows "p < q"
proof -
  let ?first = "if p \<noteq> 0
    then ptr_add p (FDS_HEADER_SIZE + unat (tl_length_words (h_tl (header_at (fds_mem s) p))))
    else ptr_add (p_addr (m_pages s ! page)) FDS_PAGE_TAG_SIZE"
  obtain e where e: "?first = Inr e" and q: "e \<le> q"
    using assms by (auto simp only: record_find_next_def then_do_Inr_iff load_at_Inr_iff dest!: next_valid_ge)
  obtain b n where b: "0 < n" "ptr_add b n = Inr e" "p \<noteq> 0 \<longrightarrow> b = p"
  proof (cases "p = 0")
    case True
    then show ?thesis using e by (intro that [of FDS_PAGE_TAG_SIZE]) (simp_all add: FDS_PAGE_TAG_SIZE_def)
  next
    case False
    then show ?thesis using e by (intro that [of "FDS_HEADER_SIZE + _" p]) (simp_all add: FDS_HEADER_SIZE_def)
  qed
  then have "unat b < unat q" using q by (simp add: ptr_add_Inr word_le_nat_alt)
  then show ?thesis using b(3) by (cases "p = 0") (simp_all add: word_less_nat_alt)
qed

text \<open>\<open>while (record_find_next(page, &p))\<close>, left when a header meets \<open>good\<close>.\<close>

function find_record :: "(fds_header_t \<Rightarrow> bool) \<Rightarrow> nat \<Rightarrow> u32 \<Rightarrow> 'm fds_st \<Rightarrow> u32 option result" where
  "find_record good page p s =
     (case record_find_next page p s of
        Inl e \<Rightarrow> Inl e
      | Inr None \<Rightarrow> Inr None
      | Inr (Some q) \<Rightarrow> if good (header_at (fds_mem s) q) then Inr (Some q) else find_record good page q s)"
  by pat_completeness auto

termination find_record
proof (relation "measure (\<lambda>(_, _, p, _). 2 ^ 32 - unat p)", goal_cases)
  case (2 good page p s r q)
  then have "p < q" using record_find_next_greater by blast
  then have "unat p < unat q" by (simp add: word_less_nat_alt)
  moreover have "unat q < 2 ^ 32" using unsigned_less [of q, where 'a = nat] by simp
  ultimately show ?case by simp
qed simp

declare find_record.simps [simp del]

text \<open>The search of \<open>record_find_by_desc\<close> through the pages; \<open>*p_page\<close> is left at the end on failure.\<close>

fun find_id_in_pages :: "u32 \<Rightarrow> nat list \<Rightarrow> 'm fds_st \<Rightarrow> (u32 \<times> nat) option result" where
  "find_id_in_pages rid [] s = Inr None"
| "find_id_in_pages rid (page # pages) s =
     then_do (find_record (\<lambda>h. record_id h = rid) page 0 s) (\<lambda>r.
     case r of Some q \<Rightarrow> Inr (Some (q, page)) | None \<Rightarrow> find_id_in_pages rid pages s)"

definition record_find_by_desc :: "fds_record_desc_t \<Rightarrow> 'm fds_st \<Rightarrow> (u16 option \<times> fds_record_desc_t) result" where
  "record_find_by_desc d s =
     then_do (address_is_valid (d_p_record d) s) (\<lambda>valid.
     if valid \<and> d_gc_run_count d = gc_run_count (m_gc s) \<and> d_record_id d = record_id (header_at (fds_mem s) (d_p_record d))
     then Inr (page_from_record (d_p_record d) s, d)
     else
       then_do (find_id_in_pages (d_record_id d) [0..<FDS_MAX_PAGES s] s) (\<lambda>r.
       case r of
         None \<Rightarrow> Inr (None, d)
       | Some (q, page) \<Rightarrow> Inr (Some (of_nat page), d\<lparr>d_p_record := q, d_gc_run_count := gc_run_count (m_gc s)\<rparr>)))"

text \<open>The search of \<open>record_find\<close>: the pages from the token's on, and the address in the token.\<close>

fun find_in_pages :: "(fds_header_t \<Rightarrow> bool) \<Rightarrow> nat list \<Rightarrow> u32 \<Rightarrow> 'm fds_st \<Rightarrow> ((u32 \<times> nat) option \<times> u32) result" where
  "find_in_pages good [] p s = Inr (None, p)"
| "find_in_pages good (page # pages) p s =
     then_do (load_at (m_pages s) page) (\<lambda>pg.
     if page_type pg \<noteq> FDS_PAGE_DATA then find_in_pages good pages p s
     else
       then_do (find_record good page p s) (\<lambda>r.
       case r of Some q \<Rightarrow> Inr (Some (q, page), q) | None \<Rightarrow> find_in_pages good pages 0 s))"

definition matches :: "u16 option \<Rightarrow> u16 option \<Rightarrow> fds_header_t \<Rightarrow> bool" where
  "matches p_file_id p_record_key h \<longleftrightarrow>
     (\<forall>f \<in> set_option p_file_id. file_id (h_ic h) = f) \<and> (\<forall>k \<in> set_option p_record_key. record_key (h_tl h) = k)"

definition record_find ::
  "u16 option \<Rightarrow> u16 option \<Rightarrow> fds_record_desc_t option \<Rightarrow> fds_find_token_t option \<Rightarrow> 'm fds_st
   \<Rightarrow> (u32 \<times> fds_record_desc_t option \<times> fds_find_token_t option) result" where
  "record_find p_file_id p_record_key p_desc p_token s =
     (if \<not> flag_is_set FDS_FLAG_INITIALIZED s then Inr (FDS_ERR_NOT_INITIALIZED, p_desc, p_token)
      else
        case (p_desc, p_token) of
          (Some d, Some t) \<Rightarrow>
            then_do (find_in_pages (matches p_file_id p_record_key) [unat (ft_page t)..<FDS_MAX_PAGES s] (ft_p_addr t) s) (\<lambda>(r, p).
            case r of
              Some (q, page) \<Rightarrow>
                Inr (FDS_SUCCESS,
                  Some (d\<lparr>d_record_id := record_id (header_at (fds_mem s) q), d_p_record := q, d_gc_run_count := gc_run_count (m_gc s)\<rparr>),
                  Some (t\<lparr>ft_p_addr := q, ft_page := of_nat page\<rparr>))
            | None \<Rightarrow>
                Inr (FDS_ERR_NOT_FOUND, Some d,
                  Some (t\<lparr>ft_p_addr := p, ft_page := (if unat (ft_page t) < FDS_MAX_PAGES s then of_nat (FDS_MAX_PAGES s) else ft_page t)\<rparr>)))
        | _ \<Rightarrow> Inr (FDS_ERR_NULL_ARG, p_desc, p_token))"

text \<open>The loop of \<open>dirty_records_stat\<close>: \<open>*p_dirty_records\<close> and \<open>*p_word_count\<close>.\<close>

function dirty_stat_loop :: "(u32 \<Rightarrow> u32) \<Rightarrow> u32 \<Rightarrow> u32 \<Rightarrow> u16 \<Rightarrow> u16 \<Rightarrow> (u16 \<times> u16) result" where
  "dirty_stat_loop m p_end p records words =
     (if p < p_end \<and> m p \<noteq> FDS_ERASED_WORD
      then
        let h = header_at m p; n = FDS_HEADER_SIZE + unat (tl_length_words (h_tl h));
            records' = (if header_is_valid h then records else records + 1);
            words' = (if header_is_valid h then words else words + of_nat n)
        in if unat p + 4 * n < 2 ^ 32
           then dirty_stat_loop m p_end (p + of_nat (4 * n)) records' words'
           else Inl Out_Of_Bounds
      else Inr (records, words))"
  by pat_completeness auto

termination dirty_stat_loop
proof (relation "measure (\<lambda>(m, e, p, _). 2 ^ 32 - unat p)", goal_cases)
  case (2 m p_end p records words h n records' words')
  from jump_forward [OF 2(6)] 2(3,6) show ?case by (simp add: FDS_HEADER_SIZE_def)
qed simp

declare dirty_stat_loop.simps [simp del]

definition dirty_records_stat :: "nat \<Rightarrow> u16 \<Rightarrow> u16 \<Rightarrow> 'm fds_st \<Rightarrow> (u16 \<times> u16) result" where
  "dirty_records_stat page records words s =
     then_do (load_at (m_pages s) page) (\<lambda>pg.
     then_do (ptr_add (p_addr pg) FDS_PAGE_TAG_SIZE) (\<lambda>p.
     then_do (ptr_add (p_addr pg) (FDS_PAGE_SIZE s)) (\<lambda>p_end.
     dirty_stat_loop (fds_mem s) p_end p records words)))"

section \<open>Queues\<close>

definition set_op :: "nat \<Rightarrow> fds_op_t \<Rightarrow> 'm fds_st \<Rightarrow> 'm fds_st result" where
  "set_op i op s =
     then_do (store_at (oq_op (m_op_queue s)) i op) (\<lambda>q. Inr (s\<lparr>m_op_queue := (m_op_queue s)\<lparr>oq_op := q\<rparr>\<rparr>))"

definition get_op :: "nat \<Rightarrow> 'm fds_st \<Rightarrow> fds_op_t result" where
  "get_op i s = load_at (oq_op (m_op_queue s)) i"

definition op_queue_advance :: "'m fds_st \<Rightarrow> (bool \<times> 'm fds_st) result" where
  "op_queue_advance s =
     then_do (set_op (unat (oq_rp (m_op_queue s))) fds_op_zero s) (\<lambda>s1.
     let q = m_op_queue s1;
         q1 = (if oq_count q \<noteq> 0 then q\<lparr>oq_rp := (oq_rp q + 1) mod FDS_OP_QUEUE_SIZE s1, oq_count := oq_count q - 1\<rparr> else q)
     in Inr (oq_count q1 \<noteq> 0, s1\<lparr>m_op_queue := q1\<rparr>))"

text \<open>A pointer into the chunk queue is an index.\<close>

definition chunk_queue_next :: "nat \<Rightarrow> 'm fds_st \<Rightarrow> nat" where
  "chunk_queue_next i s = (if i \<noteq> unat (FDS_CHUNK_QUEUE_SIZE s - 1) then Suc i else 0)"

definition chunk_queue_get_and_advance :: "'m fds_st \<Rightarrow> nat option \<times> 'm fds_st" where
  "chunk_queue_get_and_advance s =
     (let q = m_chunk_queue s in
      if cq_count q \<noteq> 0
      then (Some (unat (cq_rp q)),
            s\<lparr>m_chunk_queue := q\<lparr>cq_rp := (cq_rp q + 1) mod FDS_CHUNK_QUEUE_SIZE s, cq_count := cq_count q - 1\<rparr>\<rparr>)
      else (None, s))"

definition chunk_queue_skip :: "fds_op_t \<Rightarrow> 'm fds_st \<Rightarrow> 'm fds_st" where
  "chunk_queue_skip op s =
     (if op_code op = FDS_OP_WRITE \<or> op_code op = FDS_OP_UPDATE
      then s\<lparr>m_chunk_queue := (m_chunk_queue s)\<lparr>cq_rp := cq_rp (m_chunk_queue s) + ucast (w_chunk_count op),
                                               cq_count := cq_count (m_chunk_queue s) - ucast (w_chunk_count op)\<rparr>\<rparr>
      else s)"

text \<open>The loop of \<open>op_enqueue\<close>: \<open>dst\<close> is \<open>p_chunk_dst\<close>.\<close>

fun put_chunks :: "fds_record_chunk_t list \<Rightarrow> nat \<Rightarrow> nat \<Rightarrow> nat \<Rightarrow> 'm fds_st \<Rightarrow> 'm fds_st result" where
  "put_chunks p_chunk i 0 dst s = Inr s"
| "put_chunks p_chunk i (Suc n) dst s =
     then_do (load_at p_chunk i) (\<lambda>c.
     then_do (store_at (cq_chunk (m_chunk_queue s)) dst c) (\<lambda>q.
     put_chunks p_chunk (Suc i) n (chunk_queue_next dst s) (s\<lparr>m_chunk_queue := (m_chunk_queue s)\<lparr>cq_chunk := q\<rparr>\<rparr>)))"

definition op_enqueue :: "fds_op_t \<Rightarrow> u32 \<Rightarrow> fds_record_chunk_t list \<Rightarrow> 'm fds_st \<Rightarrow> (bool \<times> 'm fds_st) result" where
  "op_enqueue op num_chunks p_chunk s =
     (let oq = m_op_queue s in
      if oq_count oq \<le> FDS_OP_QUEUE_SIZE s - 1 \<and> cq_count (m_chunk_queue s) \<le> FDS_CHUNK_QUEUE_SIZE s - num_chunks
      then
        then_do (set_op (unat ((oq_count oq + oq_rp oq) mod FDS_OP_QUEUE_SIZE s)) op s) (\<lambda>s1.
        let s2 = s1\<lparr>m_op_queue := (m_op_queue s1)\<lparr>oq_count := oq_count oq + 1\<rparr>\<rparr>; cq = m_chunk_queue s2 in
        if num_chunks \<noteq> 0
        then then_do (put_chunks p_chunk 0 (unat num_chunks) (unat ((cq_count cq + cq_rp cq) mod FDS_CHUNK_QUEUE_SIZE s2)) s2) (\<lambda>s3.
             Inr (True, s3\<lparr>m_chunk_queue := (m_chunk_queue s3)\<lparr>cq_count := cq_count (m_chunk_queue s3) + num_chunks\<rparr>\<rparr>))
        else Inr (True, s2))
      else Inr (False, s))"

section \<open>Initialisation\<close>

text \<open>The body of the loop of \<open>pages_init\<close>: \<open>ret\<close>, \<open>page\<close> and \<open>swap_set_but_not_found\<close>.\<close>

definition page_init :: "nat \<Rightarrow> u32 \<times> u16 \<times> bool \<times> 'm fds_st \<Rightarrow> (u32 \<times> u16 \<times> bool \<times> 'm fds_st) result" where
  "page_init i x =
     (case x of (ret, page, swap_set, s) \<Rightarrow>
      then_do (the_fds_config s) (\<lambda>c.
      let p = p_start_addr c + of_nat (4 * (i * FDS_PAGE_SIZE s));
          erased = (\<lambda>a pg. pg\<lparr>page_type := FDS_PAGE_ERASED, p_addr := a, write_offset := of_nat FDS_PAGE_TAG_SIZE\<rparr>)
      in case page_identify p s of
           FDS_PAGE_UNDEFINED \<Rightarrow>
             if page_is_erased p s
             then
               if sw_p_addr (m_swap_page s) \<noteq> 0
               then then_do (upd_page (unat page) (erased p) s) (\<lambda>s1.
                    Inr (ret OR PAGE_ERASED, page + 1, swap_set, s1\<lparr>m_gc := (m_gc s1)\<lparr>gc_cur_page := page\<rparr>\<rparr>))
               else Inr (ret OR PAGE_ERASED, page, True, s\<lparr>m_swap_page := \<lparr>sw_p_addr = p, sw_write_offset = of_nat FDS_PAGE_TAG_SIZE\<rparr>\<rparr>)
             else then_do (upd_page (unat page) (\<lambda>pg. pg\<lparr>page_type := FDS_PAGE_UNDEFINED\<rparr>) s) (\<lambda>s1.
                  Inr (ret, page + 1, swap_set, s1))
         | FDS_PAGE_DATA \<Rightarrow>
             then_do (upd_page (unat page) (\<lambda>pg. pg\<lparr>page_type := FDS_PAGE_DATA, p_addr := p\<rparr>) s) (\<lambda>s1.
             then_do (page_scan p s1) (\<lambda>(words, dirty, s2).
             then_do (upd_page (unat page) (\<lambda>pg. pg\<lparr>write_offset := words, can_gc := dirty\<rparr>) s2) (\<lambda>s3.
             Inr (ret OR PAGE_DATA, page + 1, swap_set, s3))))
         | FDS_PAGE_SWAP \<Rightarrow>
             then_do (if swap_set
                      then then_do (upd_page (unat page) (erased (sw_p_addr (m_swap_page s))) s) (\<lambda>s1. Inr (page + 1, s1))
                      else Inr (page, s)) (\<lambda>(page1, s1).
             then_do (page_scan p s1) (\<lambda>(words, dirty, s2).
             Inr (ret OR (if words = of_nat FDS_PAGE_TAG_SIZE then SWAP_EMPTY else SWAP_DIRTY), page1, swap_set,
                  s2\<lparr>m_swap_page := \<lparr>sw_p_addr = p, sw_write_offset = words\<rparr>\<rparr>)))
         | FDS_PAGE_ERASED \<Rightarrow> Inr x))"

definition pages_init :: "'m fds_st \<Rightarrow> (u32 \<times> 'm fds_st) result" where
  "pages_init s =
     then_do (for_each page_init [0..<FDS_VIRTUAL_PAGES s] (NO_PAGES, 0, False, s)) (\<lambda>(ret, page, swap_set, s1). Inr (ret, s1))"

end
