(* ===== verification/FdsExec.thy ===== *)
theory FdsExec
  imports FdsPages
begin

text \<open>
  Carrying out the operations of the flash data storage (fds.c, from \<open>record_header_write_begin\<close> to \<open>fs_event_handler\<close>):
  each operation is a machine of steps, a step makes one request to the flash storage module and says which step is next.
  \<open>cb\<close> stands for the callbacks of the flash storage module; it can be called while a request is made, if the SoftDevice refuses.
  A pointer \<open>p_op\<close> is an index into the queue.
\<close>

unbundle bit_operations_syntax

section \<open>Writing records\<close>

definition upd_op_step :: "nat \<Rightarrow> (fds_op_t \<Rightarrow> fds_op_t) \<Rightarrow> 'm fds_st \<Rightarrow> 'm fds_st result" where
  "upd_op_step i f s = then_do (get_op i s) (\<lambda>op. set_op i (f op) s)"

definition success_or_busy :: "u32 \<Rightarrow> u32" where
  "success_or_busy ret = (if ret = fs_code FS_SUCCESS then FDS_SUCCESS else FDS_ERR_BUSY)"

definition record_header_write_begin :: "'m fds_fs_cb \<Rightarrow> nat \<Rightarrow> u32 \<Rightarrow> 'm fds_st \<Rightarrow> (u32 \<times> 'm fds_st) result" where
  "record_header_write_begin cb i p s =
     then_do (store_words cb (p + of_nat (4 * FDS_OFFSET_TL)) (op_header_addr s i) FDS_HEADER_SIZE_TL s) (\<lambda>(ret, s1).
     then_do (upd_op_step i (\<lambda>op. op\<lparr>w_step := FDS_OP_WRITE_RECORD_ID\<rparr>) s1) (\<lambda>s2.
     Inr (success_or_busy ret, s2)))"

definition record_header_write_id :: "'m fds_fs_cb \<Rightarrow> nat \<Rightarrow> u32 \<Rightarrow> 'm fds_st \<Rightarrow> (u32 \<times> 'm fds_st) result" where
  "record_header_write_id cb i p s =
     then_do (store_words cb (p + of_nat (4 * FDS_OFFSET_ID)) (op_header_addr s i + 8) FDS_HEADER_SIZE_ID s) (\<lambda>(ret, s1).
     then_do (upd_op_step i (\<lambda>op. op\<lparr>w_step :=
       (if w_chunk_count op \<noteq> 0 then FDS_OP_WRITE_CHUNKS else FDS_OP_WRITE_HEADER_FINALIZE)\<rparr>) s1) (\<lambda>s2.
     Inr (success_or_busy ret, s2)))"

definition record_header_write_finalize :: "'m fds_fs_cb \<Rightarrow> nat \<Rightarrow> u32 \<Rightarrow> 'm fds_st \<Rightarrow> (u32 \<times> 'm fds_st) result" where
  "record_header_write_finalize cb i p s =
     then_do (store_words cb (p + of_nat (4 * FDS_OFFSET_IC)) (op_header_addr s i + 4) FDS_HEADER_SIZE_IC s) (\<lambda>(ret, s1).
     then_do (upd_op_step i (\<lambda>op. op\<lparr>w_step :=
       (if op_code op = FDS_OP_UPDATE then FDS_OP_WRITE_FLAG_DIRTY else FDS_OP_WRITE_DONE)\<rparr>) s1) (\<lambda>s2.
     Inr (success_or_busy ret, s2)))"

definition record_header_flag_dirty :: "'m fds_fs_cb \<Rightarrow> u32 \<Rightarrow> 'm fds_st \<Rightarrow> (u32 \<times> 'm fds_st) result" where
  "record_header_flag_dirty cb p_record s =
     then_do (store_words cb p_record (tl_dirty_addr s) FDS_HEADER_SIZE_TL s) (\<lambda>(ret, s1). Inr (success_or_busy ret, s1))"

definition desc_zero :: fds_record_desc_t where
  "desc_zero = \<lparr>d_record_id = 0, d_p_record = 0, d_gc_run_count = 0, d_record_is_open = False\<rparr>"

definition record_find_and_delete :: "'m fds_fs_cb \<Rightarrow> nat \<Rightarrow> 'm fds_st \<Rightarrow> (u32 \<times> 'm fds_st) result" where
  "record_find_and_delete cb i s =
     then_do (get_op i s) (\<lambda>op.
     then_do (record_find_by_desc (desc_zero\<lparr>d_record_id := del_record_to_delete op\<rparr>) s) (\<lambda>(page, d).
     case page of
       Some page \<Rightarrow>
         let h = header_at (fds_mem s) (d_p_record d) in
         then_do (upd_op_step i (\<lambda>op. op\<lparr>del_file_id := file_id (h_ic h), del_record_key := record_key (h_tl h)\<rparr>) s) (\<lambda>s1.
         then_do (record_header_flag_dirty cb (d_p_record d) s1) (\<lambda>(ret, s2).
         then_do (upd_page (unat page) (\<lambda>pg. pg\<lparr>can_gc := True\<rparr>) s2) (\<lambda>s3.
         Inr (ret, s3))))
     | None \<Rightarrow> Inr (FDS_ERR_NOT_FOUND, s)))"

text \<open>\<open>desc\<close> is set by \<open>record_find\<close> whenever it is read.\<close>

definition file_find_and_delete :: "'m fds_fs_cb \<Rightarrow> nat \<Rightarrow> 'm fds_st \<Rightarrow> (u32 \<times> 'm fds_st) result" where
  "file_find_and_delete cb i s =
     then_do (get_op i s) (\<lambda>op.
     then_do (record_find (Some (del_file_id op)) None (Some desc_zero) (Some (fd_tok s)) s) (\<lambda>(ret, d, t).
     let s1 = s\<lparr>fd_tok := the t\<rparr> in
     if ret = FDS_SUCCESS
     then then_do (record_header_flag_dirty cb (d_p_record (the d)) s1) (\<lambda>(ret1, s2).
          then_do (upd_page (unat (ft_page (fd_tok s2))) (\<lambda>pg. pg\<lparr>can_gc := True\<rparr>) s2) (\<lambda>s3.
          Inr (ret1, s3)))
     else Inr (ret, s1\<lparr>fd_tok := \<lparr>ft_p_addr = 0, ft_page = 0\<rparr>\<rparr>)))"

definition record_write_chunk :: "'m fds_fs_cb \<Rightarrow> nat \<Rightarrow> u32 \<Rightarrow> 'm fds_st \<Rightarrow> (u32 \<times> 'm fds_st) result" where
  "record_write_chunk cb i p s =
     (let (p_chunk, s1) = chunk_queue_get_and_advance s in
      case p_chunk of
        None \<Rightarrow> Inl Null_Deref
      | Some k \<Rightarrow>
          then_do (get_op i s1) (\<lambda>op.
          then_do (load_at (cq_chunk (m_chunk_queue s1)) k) (\<lambda>c.
          then_do (store_words cb (p + 4 * ucast (w_chunk_offset op)) (ch_p_data c) (ch_length_words c) s1) (\<lambda>(ret, s2).
          then_do (load_at (cq_chunk (m_chunk_queue s2)) k) (\<lambda>c.
          then_do (upd_op_step i (\<lambda>op.
            let op1 = op\<lparr>w_chunk_offset := w_chunk_offset op + ch_length_words c, w_chunk_count := w_chunk_count op - 1\<rparr>
            in if w_chunk_count op1 = 0 then op1\<lparr>w_step := FDS_OP_WRITE_HEADER_FINALIZE\<rparr> else op1) s2) (\<lambda>s3.
          Inr (success_or_busy ret, s3)))))))"

text \<open>Six bytes of the record at \<open>p\<close>, then from the eighth byte on.\<close>

definition crc_verify_success :: "u16 \<Rightarrow> u16 \<Rightarrow> u32 \<Rightarrow> 'm fds_st \<Rightarrow> bool result" where
  "crc_verify_success crc len_words p s =
     then_do (crc16_compute (take 6 (mem_bytes (fds_mem s) p 2)) 6 None) (\<lambda>c.
     then_do (crc16_compute (mem_bytes (fds_mem s) (p + 8) (unat FDS_HEADER_SIZE_ID + unat len_words))
       (of_nat ((unat FDS_HEADER_SIZE_ID + unat len_words) * 4)) (Some c)) (\<lambda>computed_crc.
     Inr (computed_crc = crc)))"

section \<open>Garbage collection\<close>

definition upd_gc :: "(fds_gc_data_t \<Rightarrow> fds_gc_data_t) \<Rightarrow> 'm fds_st \<Rightarrow> 'm fds_st" where
  "upd_gc f s = s\<lparr>m_gc := f (m_gc s)\<rparr>"

definition set_gc_state :: "fds_gc_state_t \<Rightarrow> 'm fds_st \<Rightarrow> 'm fds_st" where
  "set_gc_state st = upd_gc (\<lambda>g. g\<lparr>gc_state := st\<rparr>)"

definition gc_page :: "'m fds_st \<Rightarrow> nat" where "gc_page s = unat (gc_cur_page (m_gc s))"

definition gc_init :: "'m fds_st \<Rightarrow> 'm fds_st" where
  "gc_init s = upd_gc (\<lambda>g. g\<lparr>gc_run_count := gc_run_count g + 1, gc_cur_page := 0, gc_resume := False,
     do_gc_page := map (\<lambda>pg. page_type pg = FDS_PAGE_DATA) (m_pages s)\<rparr>) s"

text \<open>\<open>do_gc_page\<close> has an element for every page, too; the loop of \<open>gc_page_next\<close> from page \<open>i\<close> on.\<close>

function gc_next_from :: "nat \<Rightarrow> fds_page_t list \<Rightarrow> bool list \<Rightarrow> (nat option \<times> bool list) result" where
  "gc_next_from i pages do_gc =
     (if i < length pages
      then
        then_do (load_at do_gc i) (\<lambda>g.
        if g then
          if records_open (pages ! i) = 0 \<and> can_gc (pages ! i) then Inr (Some i, do_gc[i := False])
          else gc_next_from (Suc i) pages (do_gc[i := False])
        else gc_next_from (Suc i) pages do_gc)
      else Inr (None, do_gc))"
  by pat_completeness auto

termination gc_next_from
  by (relation "measure (\<lambda>(i, pages, _). length pages - i)") auto

declare gc_next_from.simps [simp del]

definition gc_page_next :: "'m fds_st \<Rightarrow> (nat option \<times> 'm fds_st) result" where
  "gc_page_next s =
     then_do (gc_next_from 0 (m_pages s) (do_gc_page (m_gc s))) (\<lambda>(r, d). Inr (r, upd_gc (\<lambda>g. g\<lparr>do_gc_page := d\<rparr>) s))"

definition gc_swap_erase :: "'m fds_fs_cb \<Rightarrow> 'm fds_st \<Rightarrow> (u32 \<times> 'm fds_st) result" where
  "gc_swap_erase cb s =
     (let s1 = set_gc_state GC_DISCARD_SWAP s;
          s2 = s1\<lparr>m_swap_page := (m_swap_page s1)\<lparr>sw_write_offset := of_nat FDS_PAGE_TAG_SIZE\<rparr>\<rparr>
      in erase_vpage cb (sw_p_addr (m_swap_page s2)) s2)"

definition gc_page_erase :: "'m fds_fs_cb \<Rightarrow> 'm fds_st \<Rightarrow> (u32 \<times> 'm fds_st) result" where
  "gc_page_erase cb s =
     then_do (load_at (m_pages s) (gc_page s)) (\<lambda>pg.
     if records_open pg = 0
     then then_do (erase_vpage cb (p_addr pg) s) (\<lambda>(ret, s1). Inr (ret, set_gc_state GC_ERASE_PAGE s1))
     else gc_swap_erase cb s)"

definition gc_record_copy :: "'m fds_fs_cb \<Rightarrow> 'm fds_st \<Rightarrow> (u32 \<times> 'm fds_st) result" where
  "gc_record_copy cb s =
     (let src = gc_p_record_src (m_gc s);
          p_dest = sw_p_addr (m_swap_page s) + 4 * ucast (sw_write_offset (m_swap_page s));
          record_len = of_nat FDS_HEADER_SIZE + tl_length_words (h_tl (header_at (fds_mem s) src))
      in store_words cb p_dest src record_len (set_gc_state GC_COPY_RECORD s))"

definition gc_record_find_next :: "'m fds_fs_cb \<Rightarrow> 'm fds_st \<Rightarrow> (u32 \<times> 'm fds_st) result" where
  "gc_record_find_next cb s =
     then_do (record_find_next (gc_page s) (gc_p_record_src (m_gc s)) s) (\<lambda>r.
     case r of
       Some q \<Rightarrow> gc_record_copy cb (upd_gc (\<lambda>g. g\<lparr>gc_p_record_src := q\<rparr>) s)
     | None \<Rightarrow> gc_page_erase cb s)"

definition gc_swap_promote :: "'m fds_fs_cb \<Rightarrow> 'm fds_st \<Rightarrow> (u32 \<times> 'm fds_st) result" where
  "gc_swap_promote cb s =
     (let s1 = set_gc_state GC_PROMOTE_SWAP s in
      then_do (load_at (m_pages s1) (gc_page s1)) (\<lambda>pg. page_tag_write_data cb (p_addr pg) s1))"

definition gc_tag_new_swap :: "'m fds_fs_cb \<Rightarrow> 'm fds_st \<Rightarrow> (u32 \<times> 'm fds_st) result" where
  "gc_tag_new_swap cb s =
     page_tag_write_swap cb (upd_gc (\<lambda>g. g\<lparr>gc_state := GC_TAG_NEW_SWAP, gc_p_record_src := 0\<rparr>) s)"

definition gc_next_page :: "'m fds_fs_cb \<Rightarrow> 'm fds_st \<Rightarrow> (u32 \<times> 'm fds_st) result" where
  "gc_next_page cb s =
     then_do (gc_page_next s) (\<lambda>(r, s1).
     case r of
       None \<Rightarrow> Inr (FDS_OP_COMPLETED, upd_gc (\<lambda>g. g\<lparr>gc_state := GC_BEGIN, gc_cur_page := 0, gc_p_record_src := 0\<rparr>) s1)
     | Some i \<Rightarrow> gc_record_find_next cb (upd_gc (\<lambda>g. g\<lparr>gc_cur_page := of_nat i\<rparr>) s1))"

definition gc_update_swap_offset :: "'m fds_st \<Rightarrow> 'm fds_st" where
  "gc_update_swap_offset s =
     s\<lparr>m_swap_page := (m_swap_page s)\<lparr>sw_write_offset := sw_write_offset (m_swap_page s)
        + (of_nat FDS_HEADER_SIZE + tl_length_words (h_tl (header_at (fds_mem s) (gc_p_record_src (m_gc s)))))\<rparr>\<rparr>"

definition gc_swap_pages :: "'m fds_st \<Rightarrow> 'm fds_st result" where
  "gc_swap_pages s =
     (let sw = m_swap_page s in
      then_do (load_at (m_pages s) (gc_page s)) (\<lambda>pg.
      upd_page (gc_page s) (\<lambda>pg. pg\<lparr>p_addr := sw_p_addr sw, write_offset := sw_write_offset sw\<rparr>)
        (s\<lparr>m_swap_page := \<lparr>sw_p_addr = p_addr pg, sw_write_offset = of_nat FDS_PAGE_TAG_SIZE\<rparr>\<rparr>)))"

definition gc_state_advance :: "'m fds_st \<Rightarrow> 'm fds_st result" where
  "gc_state_advance s =
     (case gc_state (m_gc s) of
        GC_BEGIN \<Rightarrow> Inr (set_gc_state GC_NEXT_PAGE (gc_init s))
      | GC_COPY_RECORD \<Rightarrow> Inr (set_gc_state GC_FIND_NEXT_RECORD (gc_update_swap_offset s))
      | GC_ERASE_PAGE \<Rightarrow> then_do (gc_swap_pages s) (\<lambda>s1. Inr (set_gc_state GC_PROMOTE_SWAP s1))
      | GC_DISCARD_SWAP \<Rightarrow> Inr (set_gc_state GC_TAG_NEW_SWAP s)
      | GC_PROMOTE_SWAP \<Rightarrow> Inr (set_gc_state GC_TAG_NEW_SWAP s)
      | GC_TAG_NEW_SWAP \<Rightarrow> Inr (set_gc_state GC_NEXT_PAGE s)
      | _ \<Rightarrow> Inr s)"

section \<open>Executing operations\<close>

definition init_tag_data :: "'m fds_fs_cb \<Rightarrow> 'm fds_st \<Rightarrow> (u32 \<times> bool \<times> 'm fds_st) result" where
  "init_tag_data cb s =
     (case find (\<lambda>i. page_type (m_pages s ! i) = FDS_PAGE_ERASED) [0..<FDS_MAX_PAGES s] of
        None \<Rightarrow> Inr (FDS_ERR_INTERNAL, False, s)
      | Some i \<Rightarrow>
          then_do (page_tag_write_data cb (p_addr (m_pages s ! i)) s) (\<lambda>(ret, s1).
          then_do (upd_page i (\<lambda>pg. pg\<lparr>page_type := FDS_PAGE_DATA\<rparr>) s1) (\<lambda>s2.
          Inr (ret, True, s2))))"

definition init_promote_swap :: "'m fds_fs_cb \<Rightarrow> 'm fds_st \<Rightarrow> (u32 \<times> 'm fds_st) result" where
  "init_promote_swap cb s =
     then_do (page_tag_write_data cb (sw_p_addr (m_swap_page s)) s) (\<lambda>(ret, s1).
     let sw = m_swap_page s1 in
     then_do (load_at (m_pages s1) (gc_page s1)) (\<lambda>pg.
     then_do (upd_page (gc_page s1)
         (\<lambda>pg. pg\<lparr>p_addr := sw_p_addr sw, write_offset := sw_write_offset sw, page_type := FDS_PAGE_DATA\<rparr>)
         (s1\<lparr>m_swap_page := \<lparr>sw_p_addr = p_addr pg, sw_write_offset = of_nat FDS_PAGE_TAG_SIZE\<rparr>\<rparr>)) (\<lambda>s2.
     Inr (ret, s2))))"

definition set_i_step :: "nat \<Rightarrow> fds_init_step_t \<Rightarrow> 'm fds_st \<Rightarrow> 'm fds_st result" where
  "set_i_step i st = upd_op_step i (\<lambda>op. op\<lparr>i_step := st\<rparr>)"

text \<open>What follows the switch: a request that was not taken ends the initialisation.\<close>

definition init_answer :: "u32 \<times> 'm fds_st \<Rightarrow> (u32 \<times> 'm fds_st) result" where
  "init_answer x =
     (case x of (ret, s) \<Rightarrow>
      if ret \<noteq> FDS_SUCCESS then Inr (FDS_ERR_BUSY, flag_clear FDS_FLAG_INITIALIZING s) else Inr (FDS_OP_EXECUTING, s))"

definition init_execute :: "'m fds_fs_cb \<Rightarrow> fs_ret_t \<Rightarrow> nat \<Rightarrow> 'm fds_st \<Rightarrow> (u32 \<times> 'm fds_st) result" where
  "init_execute cb prev_ret i s =
     (if prev_ret \<noteq> FS_SUCCESS then Inr (FDS_ERR_OPERATION_TIMEOUT, flag_clear FDS_FLAG_INITIALIZING s)
      else
        then_do (get_op i s) (\<lambda>op.
        case i_step op of
          FDS_OP_INIT_TAG_SWAP \<Rightarrow>
            then_do (page_tag_write_swap cb s) (\<lambda>(ret, s1).
            then_do (set_i_step i FDS_OP_INIT_TAG_DATA s1) (\<lambda>s2. init_answer (ret, s2)))
        | FDS_OP_INIT_TAG_DATA \<Rightarrow>
            then_do (init_tag_data cb s) (\<lambda>(ret, write_reqd, s1).
            if \<not> write_reqd
            then Inr (FDS_OP_COMPLETED, flag_clear FDS_FLAG_INITIALIZING (flag_set FDS_FLAG_INITIALIZED s1))
            else init_answer (ret, s1))
        | FDS_OP_INIT_ERASE_SWAP \<Rightarrow>
            then_do (erase_vpage cb (sw_p_addr (m_swap_page s)) s) (\<lambda>(ret, s1).
            then_do (set_i_step i FDS_OP_INIT_TAG_SWAP
              (s1\<lparr>m_swap_page := (m_swap_page s1)\<lparr>sw_write_offset := of_nat FDS_PAGE_TAG_SIZE\<rparr>\<rparr>)) (\<lambda>s2.
            init_answer (ret, s2)))
        | FDS_OP_INIT_PROMOTE_SWAP \<Rightarrow>
            then_do (init_promote_swap cb s) (\<lambda>(ret, s1).
            then_do (set_i_step i FDS_OP_INIT_TAG_SWAP s1) (\<lambda>s2. init_answer (ret, s2)))))"

text \<open>
  The step \<open>FDS_OP_WRITE_FIND_RECORD\<close> of an update returns at once if there is no such record, and goes on with the header if there is.
\<close>

definition write_find_record :: "nat \<Rightarrow> 'm fds_st \<Rightarrow> (bool \<times> 'm fds_st) result" where
  "write_find_record i s =
     then_do (get_op i s) (\<lambda>op.
     then_do (record_find_by_desc ((we_desc s)\<lparr>d_p_record := 0, d_record_id := w_record_to_delete op\<rparr>) s) (\<lambda>(page, d).
     Inr (page \<noteq> None, s\<lparr>we_desc := d\<rparr>)))"

definition write_done :: "nat \<Rightarrow> u32 \<Rightarrow> 'm fds_st \<Rightarrow> u32 result" where
  "write_done i p s =
     (if cfg_fds_crc s \<and> flag_is_set FDS_FLAG_VERIFY_CRC s
      then
        then_do (get_op i s) (\<lambda>op.
        then_do (crc_verify_success (crc16 (h_ic (w_header op))) (tl_length_words (h_tl (w_header op))) p s) (\<lambda>v.
        Inr (if v then FDS_OP_COMPLETED else FDS_ERR_CRC_CHECK_FAILED)))
      else Inr FDS_OP_COMPLETED)"

text \<open>One step; the flag says whether the function has returned.\<close>

definition write_step :: "'m fds_fs_cb \<Rightarrow> fds_write_step_t \<Rightarrow> nat \<Rightarrow> u32 \<Rightarrow> 'm fds_st \<Rightarrow> (bool \<times> u32 \<times> 'm fds_st) result" where
  "write_step cb st i p s =
     (let continue = (\<lambda>m. then_do m (\<lambda>(ret, s1). Inr (False, ret, s1))) in
      case st of
        FDS_OP_WRITE_FIND_RECORD \<Rightarrow>
          then_do (write_find_record i s) (\<lambda>(found, s1).
          if \<not> found then Inr (True, FDS_ERR_NOT_FOUND, s1) else continue (record_header_write_begin cb i p s1))
      | FDS_OP_WRITE_HEADER_BEGIN \<Rightarrow> continue (record_header_write_begin cb i p s)
      | FDS_OP_WRITE_RECORD_ID \<Rightarrow> continue (record_header_write_id cb i p s)
      | FDS_OP_WRITE_CHUNKS \<Rightarrow> continue (record_write_chunk cb i p s)
      | FDS_OP_WRITE_HEADER_FINALIZE \<Rightarrow> continue (record_header_write_finalize cb i p s)
      | FDS_OP_WRITE_FLAG_DIRTY \<Rightarrow>
          continue (then_do (record_header_flag_dirty cb (d_p_record (we_desc s)) s) (\<lambda>(ret, s1).
            then_do (upd_op_step i (\<lambda>op. op\<lparr>w_step := FDS_OP_WRITE_DONE\<rparr>) s1) (\<lambda>s2. Inr (ret, s2))))
      | FDS_OP_WRITE_DONE \<Rightarrow> then_do (write_done i p s) (\<lambda>ret. Inr (False, ret, s)))"

definition write_execute :: "'m fds_fs_cb \<Rightarrow> fs_ret_t \<Rightarrow> nat \<Rightarrow> 'm fds_st \<Rightarrow> (u32 \<times> 'm fds_st) result" where
  "write_execute cb prev_ret i s =
     then_do (get_op i s) (\<lambda>op.
     let page = unat (w_page op) in
     if prev_ret \<noteq> FS_SUCCESS
     then then_do (page_offsets_update page (tl_length_words (h_tl (w_header op))) s) (\<lambda>s1. Inr (FDS_ERR_OPERATION_TIMEOUT, s1))
     else
       then_do (load_at (m_pages s) page) (\<lambda>pg.
       then_do (write_step cb (w_step op) i (p_addr pg + 4 * ucast (write_offset pg)) s) (\<lambda>(returned, ret, s1).
       if returned then Inr (ret, s1)
       else if ret \<noteq> FDS_OP_EXECUTING
       then then_do (get_op i s1) (\<lambda>op.
            then_do (page_offsets_update page (tl_length_words (h_tl (w_header op))) s1) (\<lambda>s2. Inr (ret, s2)))
       else Inr (ret, s1))))"

definition delete_execute :: "'m fds_fs_cb \<Rightarrow> fs_ret_t \<Rightarrow> nat \<Rightarrow> 'm fds_st \<Rightarrow> (u32 \<times> 'm fds_st) result" where
  "delete_execute cb prev_ret i s =
     (if prev_ret \<noteq> FS_SUCCESS then Inr (FDS_ERR_OPERATION_TIMEOUT, s)
      else
        then_do (get_op i s) (\<lambda>op.
        case del_step op of
          FDS_OP_DEL_RECORD_FLAG_DIRTY \<Rightarrow>
            then_do (record_find_and_delete cb i s) (\<lambda>(ret, s1).
            then_do (upd_op_step i (\<lambda>op. op\<lparr>del_step := FDS_OP_DEL_DONE\<rparr>) s1) (\<lambda>s2.
            Inr (ret, s2)))
        | FDS_OP_DEL_FILE_FLAG_DIRTY \<Rightarrow>
            then_do (file_find_and_delete cb i s) (\<lambda>(ret, s1).
            Inr (if ret = FDS_ERR_NOT_FOUND then FDS_OP_COMPLETED else ret, s1))
        | FDS_OP_DEL_DONE \<Rightarrow> Inr (FDS_OP_COMPLETED, s)))"

definition gc_execute :: "'m fds_fs_cb \<Rightarrow> fs_ret_t \<Rightarrow> 'm fds_st \<Rightarrow> (u32 \<times> 'm fds_st) result" where
  "gc_execute cb prev_ret s =
     (if prev_ret \<noteq> FS_SUCCESS then Inr (FDS_ERR_OPERATION_TIMEOUT, s)
      else
        then_do (if gc_resume (m_gc s) then Inr (upd_gc (\<lambda>g. g\<lparr>gc_resume := False\<rparr>) s) else gc_state_advance s) (\<lambda>s1.
        case gc_state (m_gc s1) of
          GC_NEXT_PAGE \<Rightarrow> gc_next_page cb s1
        | GC_FIND_NEXT_RECORD \<Rightarrow> gc_record_find_next cb s1
        | GC_COPY_RECORD \<Rightarrow> gc_record_copy cb s1
        | GC_ERASE_PAGE \<Rightarrow> gc_page_erase cb s1
        | GC_PROMOTE_SWAP \<Rightarrow> gc_swap_promote cb s1
        | GC_TAG_NEW_SWAP \<Rightarrow> gc_tag_new_swap cb s1
        | _ \<Rightarrow> Inr (FDS_ERR_INTERNAL, s1)))"

text \<open>The switch of \<open>queue_process\<close>.\<close>

definition op_execute :: "'m fds_fs_cb \<Rightarrow> fs_ret_t \<Rightarrow> nat \<Rightarrow> 'm fds_st \<Rightarrow> (u32 \<times> 'm fds_st) result" where
  "op_execute cb prev_ret i s =
     then_do (get_op i s) (\<lambda>op.
     case op_code op of
       FDS_OP_INIT \<Rightarrow> init_execute cb prev_ret i s
     | FDS_OP_WRITE \<Rightarrow> write_execute cb prev_ret i s
     | FDS_OP_UPDATE \<Rightarrow> write_execute cb prev_ret i s
     | FDS_OP_DEL_RECORD \<Rightarrow> delete_execute cb prev_ret i s
     | FDS_OP_DEL_FILE \<Rightarrow> delete_execute cb prev_ret i s
     | FDS_OP_GC \<Rightarrow> gc_execute cb prev_ret s
     | FDS_OP_NONE \<Rightarrow> Inr (FDS_ERR_INTERNAL, s))"

text \<open>What the operation that has ended leaves to do: the event, and to advance the queue; the flag says whether it goes on.\<close>

definition op_finish :: "'m fds_user_cb \<Rightarrow> nat \<Rightarrow> u32 \<Rightarrow> 'm fds_st \<Rightarrow> (bool \<times> 'm fds_st) result" where
  "op_finish users i ret s =
     then_do (get_op i s) (\<lambda>op.
     let evt = uninit_evt s;
         (evt1, s1) = (if ret = FDS_OP_COMPLETED then (evt\<lparr>ev_result := FDS_SUCCESS\<rparr>, s)
                       else (evt\<lparr>ev_result := ret\<rparr>, chunk_queue_skip op s))
     in then_do (event_send users (event_prepare op evt1) s1) op_queue_advance)"

text \<open>
  The function calls itself for the operation that is next, and is called again within a request that the SoftDevice
  refuses; \<open>depth\<close> bounds the nesting. The flash storage module calls \<open>fs_event_handler\<close> for the configuration of this
  module, whose callback has number 0; \<open>others\<close> are the callbacks of other configurations.
\<close>

fun queue_process_nested ::
  "'m fds_user_cb \<Rightarrow> 'm fds_fs_cb \<Rightarrow> nat \<Rightarrow> fs_ret_t \<Rightarrow> 'm fds_st \<Rightarrow> 'm fds_st result" where
  "queue_process_nested users others 0 prev_ret s = Inl Hang"
| "queue_process_nested users others (Suc depth) prev_ret s =
     (let i = unat (oq_rp (m_op_queue s));
          cb = (\<lambda>f e r. if f = 0 then queue_process_nested users others depth r else others f e r)
      in then_do (op_execute cb prev_ret i s) (\<lambda>(ret, s1).
         if ret \<noteq> FDS_OP_EXECUTING
         then then_do (op_finish users i ret s1) (\<lambda>(more, s2).
              if more then queue_process_nested users others depth FS_SUCCESS s2
              else Inr (flag_clear FDS_FLAG_PROCESSING s2))
         else Inr s1))"

text \<open>The callbacks of the users of this module, those of the other users of the flash storage module, and the bound on the nesting.\<close>

record 'm fds_env =
  env_users :: "'m fds_user_cb"
  env_others :: "'m fds_fs_cb"
  env_depth :: nat

definition fds_queue_process :: "'m fds_env \<Rightarrow> fs_ret_t \<Rightarrow> 'm fds_st \<Rightarrow> 'm fds_st result" where
  "fds_queue_process E = queue_process_nested (env_users E) (env_others E) (env_depth E)"

definition fds_queue_start :: "'m fds_env \<Rightarrow> 'm fds_st \<Rightarrow> 'm fds_st result" where
  "fds_queue_start E s =
     (if \<not> flag_is_set FDS_FLAG_PROCESSING s
      then fds_queue_process E FS_SUCCESS (flag_set FDS_FLAG_PROCESSING s) else Inr s)"

definition fs_event_handler :: "'m fds_env \<Rightarrow> fs_evt_t \<Rightarrow> fs_ret_t \<Rightarrow> 'm fds_st \<Rightarrow> 'm fds_st result" where
  "fs_event_handler E evt prev_ret = fds_queue_process E prev_ret"

text \<open>All callbacks of the flash storage module.\<close>

definition fs_callbacks :: "'m fds_env \<Rightarrow> 'm fds_fs_cb" where
  "fs_callbacks E f evt r = (if f = 0 then fs_event_handler E evt r else env_others E f evt r)"

end
