(* ===== verification/FdsApi.thy ===== *)
theory FdsApi
  imports FdsExec
begin

text \<open>
  The interface of the flash data storage (fds.c, from \<open>write_enqueue\<close> on). A pointer argument that may be \<open>NULL\<close> is an option;
  what the function writes through it is part of the result.
\<close>

unbundle bit_operations_syntax

section \<open>Writing\<close>

text \<open>\<open>length_words\<close> is the sum of the chunks' lengths, in 16 bits.\<close>

fun chunks_length :: "fds_record_chunk_t list \<Rightarrow> nat \<Rightarrow> nat \<Rightarrow> u16 \<Rightarrow> u16 result" where
  "chunks_length p_chunks i 0 acc = Inr acc"
| "chunks_length p_chunks i (Suc n) acc =
     then_do (load_at p_chunks i) (\<lambda>c. chunks_length p_chunks (Suc i) n (acc + ch_length_words c))"

fun chunks_crc :: "(u32 \<Rightarrow> u32) \<Rightarrow> fds_record_chunk_t list \<Rightarrow> nat \<Rightarrow> nat \<Rightarrow> u16 \<Rightarrow> u16 result" where
  "chunks_crc m p_chunks i 0 crc = Inr crc"
| "chunks_crc m p_chunks i (Suc n) crc =
     then_do (load_at p_chunks i) (\<lambda>c.
     then_do (crc16_compute (mem_bytes m (ch_p_data c) (unat (ch_length_words c))) (of_nat (unat (ch_length_words c) * 4)) (Some crc)) (\<lambda>crc1.
     chunks_crc m p_chunks (Suc i) n crc1))"

text \<open>The bytes of the header in memory.\<close>

definition header_bytes :: "fds_header_t \<Rightarrow> u8 list" where
  "header_bytes h = word_bytes (word_of_tl (h_tl h)) @ word_bytes (word_of_ic (h_ic h)) @ word_bytes (record_id h)"

definition record_crc :: "fds_header_t \<Rightarrow> fds_record_t \<Rightarrow> 'm fds_st \<Rightarrow> u16 result" where
  "record_crc h r s =
     (if cfg_fds_crc s
      then
        then_do (crc16_compute (take 6 (header_bytes h)) 6 None) (\<lambda>c1.
        then_do (crc16_compute (word_bytes (record_id h)) 4 (Some c1)) (\<lambda>c2.
        chunks_crc (fds_mem s) (rec_p_chunks r) 0 (unat (rec_num_chunks r)) c2))
      else Inr 0)"

text \<open>
  Space for the record: reserved now, or before, by \<open>fds_reserve\<close>.
\<close>

definition write_space :: "fds_record_t \<Rightarrow> fds_reserve_token_t option \<Rightarrow> 'm fds_st \<Rightarrow> (u32 \<times> (u16 \<times> u16) \<times> 'm fds_st) result" where
  "write_space r p_tok s =
     (case p_tok of
        None \<Rightarrow>
          then_do (chunks_length (rec_p_chunks r) 0 (unat (rec_num_chunks r)) 0) (\<lambda>length_words.
          case write_space_reserve length_words s of
            (ret, Some page, s1) \<Rightarrow> Inr (ret, (page, length_words), s1)
          | (ret, None, s1) \<Rightarrow> Inr (ret, (0, length_words), s1))
      | Some t \<Rightarrow> Inr (FDS_SUCCESS, (rt_page t, rt_length_words t), s))"

text \<open>The operation, without its CRC; the members that are not set are uninitialised.\<close>

definition write_op :: "fds_op_code_t \<Rightarrow> fds_record_desc_t option \<Rightarrow> fds_record_t \<Rightarrow> u16 \<Rightarrow> u16 \<Rightarrow> u32 \<Rightarrow> 'm fds_st \<Rightarrow> fds_op_t result" where
  "write_op code p_desc r page length_words rid s =
     (let op = (uninit_op s)\<lparr>op_code := code, w_step := FDS_OP_WRITE_HEADER_BEGIN, w_page := page,
            w_chunk_count := ucast (rec_num_chunks r), w_chunk_offset := of_nat FDS_OFFSET_DATA,
            w_header := \<lparr>h_tl = \<lparr>record_key = rec_key r, tl_length_words = length_words\<rparr>,
                         h_ic = \<lparr>file_id = rec_file_id r, crc16 = crc16 (h_ic (w_header (uninit_op s)))\<rparr>, record_id = rid\<rparr>\<rparr>
      in if code = FDS_OP_UPDATE
         then case p_desc of
                None \<Rightarrow> Inl Null_Deref
              | Some d \<Rightarrow> Inr (op\<lparr>w_step := FDS_OP_WRITE_FIND_RECORD, w_record_to_delete := d_record_id d\<rparr>)
         else Inr op)"

definition write_enqueue ::
  "'m fds_env \<Rightarrow> fds_record_desc_t option \<Rightarrow> fds_record_t option \<Rightarrow> fds_reserve_token_t option \<Rightarrow> fds_op_code_t
   \<Rightarrow> 'm fds_st \<Rightarrow> (u32 \<times> fds_record_desc_t option \<times> 'm fds_st) result" where
  "write_enqueue E p_desc p_record p_tok code s =
     (if \<not> flag_is_set FDS_FLAG_INITIALIZED s then Inr (FDS_ERR_NOT_INITIALIZED, p_desc, s)
      else
        case p_record of
          None \<Rightarrow> Inr (FDS_ERR_NULL_ARG, p_desc, s)
        | Some r \<Rightarrow>
            if rec_file_id r = FDS_FILE_ID_INVALID \<or> rec_key r = FDS_RECORD_KEY_DIRTY then Inr (FDS_ERR_INVALID_ARG, p_desc, s)
            else
              then_do (chunk_is_aligned (rec_p_chunks r) 0 (unat (rec_num_chunks r))) (\<lambda>aligned.
              if \<not> aligned then Inr (FDS_ERR_UNALIGNED_ADDR, p_desc, s)
              else
                then_do (write_space r p_tok s) (\<lambda>(ret, (page, length_words), s1).
                if ret \<noteq> FDS_SUCCESS then Inr (ret, p_desc, s1)
                else
                  let (rid, s2) = record_id_new s1 in
                  then_do (write_op code p_desc r page length_words rid s2) (\<lambda>op.
                  then_do (record_crc (w_header op) r s2) (\<lambda>crc.
                  let op1 = op\<lparr>w_header := (w_header op)\<lparr>h_ic := (h_ic (w_header op))\<lparr>crc16 := crc\<rparr>\<rparr>\<rparr> in
                  then_do (op_enqueue op1 (ucast (rec_num_chunks r)) (rec_p_chunks r) s2) (\<lambda>(queued, s3).
                  if \<not> queued
                  then then_do (write_space_free length_words page s3) (\<lambda>s4. Inr (FDS_ERR_NO_SPACE_IN_QUEUES, p_desc, s4))
                  else
                    then_do (fds_queue_start E s3) (\<lambda>s4.
                    Inr (FDS_SUCCESS,
                      map_option (\<lambda>d. d\<lparr>d_p_record := 0, d_record_id := record_id (w_header op1), d_record_is_open := False,
                                       d_gc_run_count := gc_run_count (m_gc s3)\<rparr>) p_desc, s4))))))))"

definition fds_record_write ::
  "'m fds_env \<Rightarrow> fds_record_desc_t option \<Rightarrow> fds_record_t option \<Rightarrow> 'm fds_st \<Rightarrow> (u32 \<times> fds_record_desc_t option \<times> 'm fds_st) result" where
  "fds_record_write E p_desc p_record = write_enqueue E p_desc p_record None FDS_OP_WRITE"

definition fds_record_write_reserved ::
  "'m fds_env \<Rightarrow> fds_record_desc_t option \<Rightarrow> fds_record_t option \<Rightarrow> fds_reserve_token_t option \<Rightarrow> 'm fds_st
   \<Rightarrow> (u32 \<times> fds_record_desc_t option \<times> 'm fds_st) result" where
  "fds_record_write_reserved E p_desc p_record p_tok s =
     (if p_tok = None then Inr (FDS_ERR_NULL_ARG, p_desc, s) else write_enqueue E p_desc p_record p_tok FDS_OP_WRITE s)"

definition fds_record_update ::
  "'m fds_env \<Rightarrow> fds_record_desc_t option \<Rightarrow> fds_record_t option \<Rightarrow> 'm fds_st \<Rightarrow> (u32 \<times> fds_record_desc_t option \<times> 'm fds_st) result" where
  "fds_record_update E p_desc p_record s =
     (if p_desc = None then Inr (FDS_ERR_NULL_ARG, p_desc, s) else write_enqueue E p_desc p_record None FDS_OP_UPDATE s)"

section \<open>Users and initialisation\<close>

definition fds_register :: "nat option \<Rightarrow> 'm fds_st \<Rightarrow> (u32 \<times> 'm fds_st) result" where
  "fds_register cb s =
     (if unat (m_users s) = FDS_MAX_USERS s then Inr (FDS_ERR_USER_LIMIT_REACHED, s)
      else
        then_do (store_at (m_cb_table s) (unat (m_users s)) cb) (\<lambda>t.
        Inr (FDS_SUCCESS, s\<lparr>m_cb_table := t, m_users := m_users s + 1\<rparr>)))"

text \<open>The event of \<open>fds_init\<close> is initialised, with zeros in what is not named.\<close>

definition evt_success :: fds_evt_t where
  "evt_success = \<lparr>ev_id = FDS_EVT_INIT, ev_result = FDS_SUCCESS, ev_record_id = 0, ev_file_id = 0, ev_record_key = 0,
     ev_is_record_updated = False\<rparr>"

text \<open>\<open>fs_init\<close> and then the survey.\<close>

definition fs_init_and_survey :: "'m fds_st \<Rightarrow> (u32 \<times> 'm fds_st) result" where
  "fs_init_and_survey s = then_do (fs_init s) (\<lambda>(_, s1). pages_init s1)"

definition init_op :: "u32 \<Rightarrow> 'm fds_st \<Rightarrow> fds_op_t" where
  "init_op init_opts s =
     (let op = (uninit_op s)\<lparr>op_code := FDS_OP_INIT\<rparr> in
      if init_opts = FRESH_INSTALL \<or> init_opts = TAG_SWAP then op\<lparr>i_step := FDS_OP_INIT_TAG_SWAP\<rparr>
      else if init_opts = PROMOTE_SWAP \<or> init_opts = PROMOTE_SWAP_INST then op\<lparr>i_step := FDS_OP_INIT_PROMOTE_SWAP\<rparr>
      else if init_opts = DISCARD_SWAP then op\<lparr>i_step := FDS_OP_INIT_ERASE_SWAP\<rparr>
      else if init_opts = TAG_DATA \<or> init_opts = TAG_DATA_INST then op\<lparr>i_step := FDS_OP_INIT_TAG_DATA\<rparr>
      else op)"

definition fds_init :: "'m fds_env \<Rightarrow> 'm fds_st \<Rightarrow> (u32 \<times> 'm fds_st) result" where
  "fds_init E s =
     (if flag_is_set FDS_FLAG_INITIALIZED s
      then then_do (event_send (env_users E) evt_success s) (\<lambda>s1. Inr (FDS_SUCCESS, s1))
      else if flag_is_set FDS_FLAG_INITIALIZING s then Inr (FDS_SUCCESS, s)
      else
        then_do (fs_init_and_survey (flag_set FDS_FLAG_INITIALIZING s)) (\<lambda>(init_opts, s1).
        if init_opts = NO_PAGES then Inr (FDS_ERR_NO_PAGES, s1)
        else if init_opts = ALREADY_INSTALLED
        then then_do (event_send (env_users E) evt_success (flag_clear FDS_FLAG_INITIALIZING (flag_set FDS_FLAG_INITIALIZED s1))) (\<lambda>s2.
             Inr (FDS_SUCCESS, s2))
        else
          then_do (op_enqueue (init_op init_opts s1) 0 [] s1) (\<lambda>(_, s2).
          then_do (fds_queue_start E s2) (\<lambda>s3. Inr (FDS_SUCCESS, s3)))))"

section \<open>Reading\<close>

text \<open>The last component is \<open>*p_flash_rec\<close>, if it has been set.\<close>

definition fds_record_open ::
  "fds_record_desc_t option \<Rightarrow> bool \<Rightarrow> 'm fds_st \<Rightarrow> (u32 \<times> fds_record_desc_t option \<times> fds_flash_record_t option \<times> 'm fds_st) result" where
  "fds_record_open p_desc has_flash_rec s =
     (case p_desc of
        None \<Rightarrow> Inr (FDS_ERR_NULL_ARG, p_desc, None, s)
      | Some d0 \<Rightarrow>
          if \<not> has_flash_rec then Inr (FDS_ERR_NULL_ARG, p_desc, None, s)
          else
            then_do (record_find_by_desc d0 s) (\<lambda>(page, d).
            case page of
              None \<Rightarrow> Inr (FDS_ERR_NOT_FOUND, Some d, None, s)
            | Some page \<Rightarrow>
                let h = header_at (fds_mem s) (d_p_record d) in
                then_do (if cfg_fds_crc s then crc_verify_success (crc16 (h_ic h)) (tl_length_words (h_tl h)) (d_p_record d) s
                         else Inr True) (\<lambda>good.
                if \<not> good then Inr (FDS_ERR_CRC_CHECK_FAILED, Some d, None, s)
                else
                  then_do (upd_page (unat page) (\<lambda>pg. pg\<lparr>records_open := records_open pg + 1\<rparr>) s) (\<lambda>s1.
                  Inr (FDS_SUCCESS, Some (d\<lparr>d_record_is_open := True\<rparr>),
                       Some \<lparr>fr_p_header = d_p_record d, fr_p_data = d_p_record d + of_nat (4 * FDS_HEADER_SIZE)\<rparr>, s1)))))"

definition fds_record_close :: "fds_record_desc_t option \<Rightarrow> 'm fds_st \<Rightarrow> (u32 \<times> fds_record_desc_t option \<times> 'm fds_st) result" where
  "fds_record_close p_desc s =
     (case p_desc of
        None \<Rightarrow> Inr (FDS_ERR_NULL_ARG, p_desc, s)
      | Some d0 \<Rightarrow>
          then_do (record_find_by_desc d0 s) (\<lambda>(page, d).
          case page of
            None \<Rightarrow> Inr (FDS_ERR_NOT_FOUND, Some d, s)
          | Some page \<Rightarrow>
              then_do (load_at (m_pages s) (unat page)) (\<lambda>pg.
              if records_open pg > 0 \<and> d_record_is_open d
              then then_do (upd_page (unat page) (\<lambda>pg. pg\<lparr>records_open := records_open pg - 1\<rparr>) s) (\<lambda>s1.
                   Inr (FDS_SUCCESS, Some (d\<lparr>d_record_is_open := False\<rparr>), s1))
              else Inr (FDS_ERR_NO_OPEN_RECORDS, Some d, s))))"

section \<open>Reservations\<close>

definition fds_reserve :: "fds_reserve_token_t option \<Rightarrow> u16 \<Rightarrow> 'm fds_st \<Rightarrow> u32 \<times> fds_reserve_token_t option \<times> 'm fds_st" where
  "fds_reserve p_tok length_words s =
     (if \<not> flag_is_set FDS_FLAG_INITIALIZED s then (FDS_ERR_NOT_INITIALIZED, p_tok, s)
      else
        case p_tok of
          None \<Rightarrow> (FDS_ERR_NULL_ARG, p_tok, s)
        | Some t \<Rightarrow>
            (case write_space_reserve length_words s of
               (ret, Some page, s1) \<Rightarrow> (ret, Some \<lparr>rt_page = page, rt_length_words = length_words\<rparr>, s1)
             | (ret, None, s1) \<Rightarrow> (ret, p_tok, s1)))"

text \<open>The difference is computed as an \<open>int\<close>.\<close>

definition fds_reserve_cancel :: "fds_reserve_token_t option \<Rightarrow> 'm fds_st \<Rightarrow> (u32 \<times> fds_reserve_token_t option \<times> 'm fds_st) result" where
  "fds_reserve_cancel p_tok s =
     (if \<not> flag_is_set FDS_FLAG_INITIALIZED s then Inr (FDS_ERR_NOT_INITIALIZED, p_tok, s)
      else
        case p_tok of
          None \<Rightarrow> Inr (FDS_ERR_NULL_ARG, p_tok, s)
        | Some t \<Rightarrow>
            if unat (rt_page t) > FDS_MAX_PAGES s then Inr (FDS_ERR_INVALID_ARG, p_tok, s)
            else
              then_do (load_at (m_pages s) (unat (rt_page t))) (\<lambda>pg.
              if int (unat (words_reserved pg)) - (int FDS_HEADER_SIZE + int (unat (rt_length_words t))) \<ge> 0
              then then_do (write_space_free (rt_length_words t) (rt_page t) s) (\<lambda>s1.
                   Inr (FDS_SUCCESS, Some \<lparr>rt_page = 0, rt_length_words = 0\<rparr>, s1))
              else Inr (FDS_ERR_INVALID_ARG, p_tok, s)))"

section \<open>Deleting and garbage collection\<close>

text \<open>Queue an operation without chunks; \<open>prepare\<close> is done if it is queued, before the queue is started.\<close>

definition enqueue_and_start :: "'m fds_env \<Rightarrow> fds_op_t \<Rightarrow> ('m fds_st \<Rightarrow> 'm fds_st) \<Rightarrow> 'm fds_st \<Rightarrow> (u32 \<times> 'm fds_st) result" where
  "enqueue_and_start E op prepare s =
     then_do (op_enqueue op 0 [] s) (\<lambda>(queued, s1).
     if queued then then_do (fds_queue_start E (prepare s1)) (\<lambda>s2. Inr (FDS_SUCCESS, s2))
     else Inr (FDS_ERR_NO_SPACE_IN_QUEUES, s1))"

definition fds_record_delete :: "'m fds_env \<Rightarrow> fds_record_desc_t option \<Rightarrow> 'm fds_st \<Rightarrow> (u32 \<times> 'm fds_st) result" where
  "fds_record_delete E p_desc s =
     (if \<not> flag_is_set FDS_FLAG_INITIALIZED s then Inr (FDS_ERR_NOT_INITIALIZED, s)
      else
        case p_desc of
          None \<Rightarrow> Inr (FDS_ERR_NULL_ARG, s)
        | Some d \<Rightarrow>
            enqueue_and_start E ((uninit_op s)\<lparr>op_code := FDS_OP_DEL_RECORD, del_step := FDS_OP_DEL_RECORD_FLAG_DIRTY,
              del_record_to_delete := d_record_id d\<rparr>) id s)"

definition fds_file_delete :: "'m fds_env \<Rightarrow> u16 \<Rightarrow> 'm fds_st \<Rightarrow> (u32 \<times> 'm fds_st) result" where
  "fds_file_delete E fid s =
     (if \<not> flag_is_set FDS_FLAG_INITIALIZED s then Inr (FDS_ERR_NOT_INITIALIZED, s)
      else if fid = FDS_FILE_ID_INVALID then Inr (FDS_ERR_INVALID_ARG, s)
      else
        enqueue_and_start E ((uninit_op s)\<lparr>op_code := FDS_OP_DEL_FILE, del_step := FDS_OP_DEL_FILE_FLAG_DIRTY,
          del_file_id := fid\<rparr>) id s)"

definition fds_gc :: "'m fds_env \<Rightarrow> 'm fds_st \<Rightarrow> (u32 \<times> 'm fds_st) result" where
  "fds_gc E s =
     (if \<not> flag_is_set FDS_FLAG_INITIALIZED s then Inr (FDS_ERR_NOT_INITIALIZED, s)
      else
        enqueue_and_start E ((uninit_op s)\<lparr>op_code := FDS_OP_GC\<rparr>)
          (\<lambda>s1. if gc_state (m_gc s1) \<noteq> GC_BEGIN then upd_gc (\<lambda>g. g\<lparr>gc_resume := True\<rparr>) s1 else s1) s)"

section \<open>Finding\<close>

definition fds_record_iterate ::
  "fds_record_desc_t option \<Rightarrow> fds_find_token_t option \<Rightarrow> 'm fds_st \<Rightarrow> (u32 \<times> fds_record_desc_t option \<times> fds_find_token_t option) result" where
  "fds_record_iterate = record_find None None"

definition fds_record_find ::
  "u16 \<Rightarrow> u16 \<Rightarrow> fds_record_desc_t option \<Rightarrow> fds_find_token_t option \<Rightarrow> 'm fds_st \<Rightarrow> (u32 \<times> fds_record_desc_t option \<times> fds_find_token_t option) result" where
  "fds_record_find fid key = record_find (Some fid) (Some key)"

definition fds_record_find_by_key ::
  "u16 \<Rightarrow> fds_record_desc_t option \<Rightarrow> fds_find_token_t option \<Rightarrow> 'm fds_st \<Rightarrow> (u32 \<times> fds_record_desc_t option \<times> fds_find_token_t option) result" where
  "fds_record_find_by_key key = record_find None (Some key)"

definition fds_record_find_in_file ::
  "u16 \<Rightarrow> fds_record_desc_t option \<Rightarrow> fds_find_token_t option \<Rightarrow> 'm fds_st \<Rightarrow> (u32 \<times> fds_record_desc_t option \<times> fds_find_token_t option) result" where
  "fds_record_find_in_file fid = record_find (Some fid) None"

definition fds_descriptor_from_rec_id :: "fds_record_desc_t option \<Rightarrow> u32 \<Rightarrow> u32 \<times> fds_record_desc_t option" where
  "fds_descriptor_from_rec_id p_desc rid =
     (case p_desc of None \<Rightarrow> (FDS_ERR_NULL_ARG, None) | Some _ \<Rightarrow> (FDS_SUCCESS, Some (desc_zero\<lparr>d_record_id := rid\<rparr>)))"

definition fds_record_id_from_desc :: "fds_record_desc_t option \<Rightarrow> u32 option \<Rightarrow> u32 \<times> u32 option" where
  "fds_record_id_from_desc p_desc p_record_id =
     (case (p_desc, p_record_id) of
        (Some d, Some _) \<Rightarrow> (FDS_SUCCESS, Some (d_record_id d))
      | _ \<Rightarrow> (FDS_ERR_NULL_ARG, p_record_id))"

section \<open>Statistics\<close>

text \<open>\<open>while (record_find_next(i, &p_record)) valid_records++\<close>.\<close>

function count_valid :: "nat \<Rightarrow> u32 \<Rightarrow> u16 \<Rightarrow> 'm fds_st \<Rightarrow> u16 result" where
  "count_valid page p acc s =
     (case record_find_next page p s of
        Inl e \<Rightarrow> Inl e
      | Inr None \<Rightarrow> Inr acc
      | Inr (Some q) \<Rightarrow> count_valid page q (acc + 1) s)"
  by pat_completeness auto

termination count_valid
proof (relation "measure (\<lambda>(_, p, _). 2 ^ 32 - unat p)", goal_cases)
  case (2 page p acc s r q)
  then have "p < q" using record_find_next_greater by blast
  then show ?case using unsigned_less [of q, where 'a = nat] by (simp add: word_less_nat_alt)
qed simp

declare count_valid.simps [simp del]

definition stat_page :: "'m fds_st \<Rightarrow> nat \<Rightarrow> fds_stat_t \<Rightarrow> fds_stat_t result" where
  "stat_page s i st =
     then_do (load_at (m_pages s) i) (\<lambda>pg.
     let used = write_offset pg + words_reserved pg;
         contig_words = of_nat (FDS_PAGE_SIZE s) - used
     in then_do (count_valid i 0 (valid_records st) s) (\<lambda>valid.
        then_do (dirty_records_stat i (dirty_records st) (freeable_words st) s) (\<lambda>(dirty, freeable).
        Inr (st\<lparr>open_records := open_records st + records_open pg,
                stat_words_reserved := stat_words_reserved st + words_reserved pg,
                words_used := words_used st + used,
                largest_contig := (if contig_words > largest_contig st then contig_words else largest_contig st),
                valid_records := valid, dirty_records := dirty, freeable_words := freeable\<rparr>))))"

definition stat_zero :: fds_stat_t where
  "stat_zero = \<lparr>open_records = 0, valid_records = 0, dirty_records = 0, stat_words_reserved = 0, words_used = 0,
     largest_contig = 0, freeable_words = 0\<rparr>"

definition fds_stat :: "fds_stat_t option \<Rightarrow> 'm fds_st \<Rightarrow> (u32 \<times> fds_stat_t option) result" where
  "fds_stat p_stat s =
     (if \<not> flag_is_set FDS_FLAG_INITIALIZED s then Inr (FDS_ERR_NOT_INITIALIZED, p_stat)
      else
        case p_stat of
          None \<Rightarrow> Inr (FDS_ERR_NULL_ARG, p_stat)
        | Some _ \<Rightarrow> then_do (for_each (stat_page s) [0..<FDS_MAX_PAGES s] stat_zero) (\<lambda>st. Inr (FDS_SUCCESS, Some st)))"

definition fds_verify_crc_on_writes :: "bool \<Rightarrow> 'm fds_st \<Rightarrow> u32 \<times> 'm fds_st" where
  "fds_verify_crc_on_writes enable s =
     (FDS_SUCCESS, if enable then flag_set FDS_FLAG_VERIFY_CRC s else flag_clear FDS_FLAG_VERIFY_CRC s)"

end
