(* ===== verification/FdsScan.thy ===== *)
theory FdsScan
  imports FdsApi
begin

text \<open>
  What the searches of the flash data storage find. \<open>page_recs\<close> lists the addresses of the records from an address to the end of a page,
  valid or not, as they follow from the lengths in their headers. The loops of fds.c are functions of this list, and
  repeated calls of \<open>fds_record_find\<close> and its relatives give every valid record of the data pages that matches, once and in order.
\<close>

unbundle bit_operations_syntax

section \<open>The records of a page\<close>

definition rec_len :: "(u32 \<Rightarrow> u32) \<Rightarrow> u32 \<Rightarrow> nat" where
  "rec_len m p = FDS_HEADER_SIZE + unat (tl_length_words (h_tl (header_at m p)))"

lemma rec_len_bounds: "0 < rec_len m p" "rec_len m p < 65539"
  using unat_less_u16 [of "tl_length_words (h_tl (header_at m p))"] by (simp_all add: rec_len_def FDS_HEADER_SIZE_def)

text \<open>No record that begins below \<open>e\<close> reaches the end of memory.\<close>

definition low :: "u32 \<Rightarrow> bool" where "low e \<longleftrightarrow> unat e + 4 * 65538 < 2 ^ 32"

lemma low_jump:
  assumes "low e" and "p < e"
  shows "unat p + 4 * rec_len m p < 2 ^ 32" and "unat (p + of_nat (4 * rec_len m p)) = unat p + 4 * rec_len m p"
proof -
  show l: "unat p + 4 * rec_len m p < 2 ^ 32"
    using assms rec_len_bounds(2) [of m p] by (simp add: low_def word_less_nat_alt)
  then show "unat (p + of_nat (4 * rec_len m p)) = unat p + 4 * rec_len m p" by (simp only: jump_forward)
qed

definition next_rec :: "(u32 \<Rightarrow> u32) \<Rightarrow> u32 \<Rightarrow> u32" where "next_rec m p = p + of_nat (4 * rec_len m p)"

lemma next_rec_greater: "low e \<Longrightarrow> p < e \<Longrightarrow> p < next_rec m p"
  using low_jump(2) [of e p m] rec_len_bounds(1) [of m p] by (simp add: next_rec_def word_less_nat_alt)

function page_recs :: "(u32 \<Rightarrow> u32) \<Rightarrow> u32 \<Rightarrow> u32 \<Rightarrow> u32 list" where
  "page_recs m e p =
     (if p < e \<and> low e \<and> m p \<noteq> FDS_ERASED_WORD then p # page_recs m e (next_rec m p) else [])"
  by pat_completeness auto

termination page_recs
proof (relation "measure (\<lambda>(m, e, p). 2 ^ 32 - unat p)", goal_cases)
  case (2 m e p)
  then have "p < next_rec m p" using next_rec_greater [of e p m] by blast
  then show ?case using unsigned_less [of "next_rec m p", where 'a = nat] by (simp add: word_less_nat_alt)
qed simp

declare page_recs.simps [simp del]

lemma page_recs_cases:
  assumes "low e"
  obtains "p < e" "m p \<noteq> FDS_ERASED_WORD" "page_recs m e p = p # page_recs m e (next_rec m p)" "p < next_rec m p"
  | "\<not> (p < e \<and> m p \<noteq> FDS_ERASED_WORD)" "page_recs m e p = []"
  using assms by (cases "p < e \<and> m p \<noteq> FDS_ERASED_WORD") (auto simp: page_recs.simps [of m e p] next_rec_greater)

lemma page_recs_induct [consumes 1, case_names page_recs]:
  assumes "low e"
    and "\<And>p. (p < e \<Longrightarrow> m p \<noteq> FDS_ERASED_WORD \<Longrightarrow> P (next_rec m p)) \<Longrightarrow> P p"
  shows "P p"
proof (induction "2 ^ 32 - unat p" arbitrary: p rule: less_induct)
  case less
  show ?case
  proof (rule assms(2))
    assume "p < e"
    then have "unat p < unat (next_rec m p)" using next_rec_greater [OF assms(1)] by (simp add: word_less_nat_alt)
    then show "P (next_rec m p)" using unsigned_less [of "next_rec m p", where 'a = nat] by (intro less) simp
  qed
qed

lemma page_recs_bounds: "q \<in> set (page_recs m e p) \<Longrightarrow> p \<le> q \<and> q < e"
proof (cases "low e")
  case True
  assume "q \<in> set (page_recs m e p)"
  with True show ?thesis
  proof (induction p rule: page_recs_induct [where m = m])
    case (page_recs p)
    show ?case
    proof (rule page_recs_cases [OF True, of p m])
      assume a: "p < e" "m p \<noteq> FDS_ERASED_WORD" "page_recs m e p = p # page_recs m e (next_rec m p)" "p < next_rec m p"
      then show ?thesis using page_recs by (cases "q = p") auto
    qed (use page_recs in simp)
  qed
qed (simp add: page_recs.simps [of m e p])

section \<open>The loops\<close>

text \<open>What a search may give, said without the code: a record with a file ID and a key.\<close>

definition valid_rec :: "(u32 \<Rightarrow> u32) \<Rightarrow> u32 \<Rightarrow> bool" where
  "valid_rec m p \<longleftrightarrow> file_id (h_ic (header_at m p)) \<noteq> 0xFFFF \<and> record_key (h_tl (header_at m p)) \<noteq> 0"

lemma valid_rec_header: "valid_rec m p \<longleftrightarrow> header_is_valid (header_at m p)"
  by (simp add: valid_rec_def header_is_valid_def FDS_FILE_ID_INVALID_def FDS_RECORD_KEY_DIRTY_def)

lemma ptr_add_rec: "low e \<Longrightarrow> p < e \<Longrightarrow> ptr_add p (FDS_HEADER_SIZE + unat (tl_length_words (h_tl (header_at m p)))) = Inr (next_rec m p)"
  using low_jump(1) [of e p m] by (simp add: ptr_add_def next_rec_def rec_len_def)

lemma next_valid_recs:
  assumes "low e"
  shows "next_valid m e p = Inr (find (valid_rec m) (page_recs m e p))"
  using assms
proof (induction p rule: page_recs_induct [where m = m])
  case (page_recs p)
  show ?case
    by (rule page_recs_cases [OF assms, of p m])
      (use page_recs assms in \<open>auto simp: next_valid_unfold [of m e p] valid_rec_header ptr_add_rec [OF assms]\<close>)
qed

definition scan_latest :: "(u32 \<Rightarrow> u32) \<Rightarrow> u32 \<Rightarrow> u32 \<Rightarrow> u32" where
  "scan_latest m p latest = (if valid_rec m p \<and> record_id (header_at m p) > latest then record_id (header_at m p) else latest)"

lemma page_scan_loop_unfold:
  "page_scan_loop m e p words dirty latest =
     (if p < e \<and> m p \<noteq> FDS_ERASED_WORD
      then then_do (ptr_add p (FDS_HEADER_SIZE + unat (tl_length_words (h_tl (header_at m p))))) (\<lambda>q.
           page_scan_loop m e q (words + of_nat (rec_len m p)) (dirty \<or> \<not> valid_rec m p) (scan_latest m p latest))
      else Inr (words, dirty, latest))"
  by (subst page_scan_loop.simps) (simp add: Let_def ptr_add_def rec_len_def valid_rec_header scan_latest_def)

lemma page_scan_loop_recs:
  assumes "low e"
  shows "page_scan_loop m e p words dirty latest =
    Inr (words + of_nat (\<Sum>q \<leftarrow> page_recs m e p. rec_len m q), dirty \<or> list_ex (Not \<circ> valid_rec m) (page_recs m e p),
         fold (scan_latest m) (page_recs m e p) latest)"
  using assms
proof (induction p arbitrary: words dirty latest rule: page_recs_induct [where m = m])
  case (page_recs p)
  show ?case
    by (rule page_recs_cases [OF assms, of p m])
      (use page_recs assms in \<open>auto simp: page_scan_loop_unfold [of m e p] ptr_add_rec [OF assms]\<close>)
qed

lemma dirty_stat_loop_unfold:
  "dirty_stat_loop m e p records words =
     (if p < e \<and> m p \<noteq> FDS_ERASED_WORD
      then then_do (ptr_add p (FDS_HEADER_SIZE + unat (tl_length_words (h_tl (header_at m p))))) (\<lambda>q.
           if valid_rec m p then dirty_stat_loop m e q records words
           else dirty_stat_loop m e q (records + 1) (words + of_nat (rec_len m p)))
      else Inr (records, words))"
  by (subst dirty_stat_loop.simps) (simp add: Let_def ptr_add_def rec_len_def valid_rec_header)

lemma dirty_stat_loop_recs:
  assumes "low e"
  shows "dirty_stat_loop m e p records words =
    Inr (records + of_nat (length (filter (Not \<circ> valid_rec m) (page_recs m e p))),
         words + of_nat (\<Sum>q \<leftarrow> filter (Not \<circ> valid_rec m) (page_recs m e p). rec_len m q))"
  using assms
proof (induction p arbitrary: records words rule: page_recs_induct [where m = m])
  case (page_recs p)
  show ?case
    by (rule page_recs_cases [OF assms, of p m])
      (use page_recs assms in \<open>auto simp: dirty_stat_loop_unfold [of m e p] ptr_add_rec [OF assms]\<close>)
qed

section \<open>Searching in a page\<close>

text \<open>The page is in low memory, and it does not begin at \<open>NULL\<close>.\<close>

definition page_end :: "'m fds_st \<Rightarrow> fds_page_t \<Rightarrow> u32" where
  "page_end s pg = p_addr pg + of_nat (4 * FDS_PAGE_SIZE s)"

definition page_low :: "'m fds_st \<Rightarrow> fds_page_t \<Rightarrow> bool" where
  "page_low s pg \<longleftrightarrow> unat (p_addr pg) + 4 * (FDS_PAGE_SIZE s + 65538) < 2 ^ 32 \<and> FDS_PAGE_TAG_SIZE \<le> FDS_PAGE_SIZE s"

definition recs_of :: "'m fds_st \<Rightarrow> fds_page_t \<Rightarrow> u32 list" where
  "recs_of s pg = page_recs (fds_mem s) (page_end s pg) (p_addr pg + 8)"

lemma page_low_ptrs:
  assumes "page_low s pg"
  shows "ptr_add (p_addr pg) FDS_PAGE_TAG_SIZE = Inr (p_addr pg + 8)"
    "ptr_add (p_addr pg) (FDS_PAGE_SIZE s) = Inr (page_end s pg)" "low (page_end s pg)" "p_addr pg < p_addr pg + 8"
proof -
  have l: "unat (p_addr pg) + 4 * FDS_PAGE_SIZE s < 2 ^ 32" "unat (p_addr pg) + 4 * 2 < 2 ^ 32"
    using assms by (simp_all add: page_low_def FDS_PAGE_TAG_SIZE_def)
  have u: "unat (page_end s pg) = unat (p_addr pg) + 4 * FDS_PAGE_SIZE s"
    unfolding page_end_def by (rule jump_forward [OF l(1)])
  show "low (page_end s pg)" using assms by (simp add: low_def u page_low_def)
  show "ptr_add (p_addr pg) FDS_PAGE_TAG_SIZE = Inr (p_addr pg + 8)"
    using l(2) by (simp add: ptr_add_def FDS_PAGE_TAG_SIZE_def)
  show "ptr_add (p_addr pg) (FDS_PAGE_SIZE s) = Inr (page_end s pg)"
    using l(1) by (simp add: ptr_add_def page_end_def)
  show "p_addr pg < p_addr pg + 8"
    using jump_forward [OF l(2)] by (simp add: word_less_nat_alt)
qed

lemma rec_not_null: "page_low s pg \<Longrightarrow> q \<in> set (recs_of s pg) \<Longrightarrow> q \<noteq> 0"
  using page_recs_bounds [of q "fds_mem s" "page_end s pg" "p_addr pg + 8"] page_low_ptrs(4) [of s pg]
  by (auto simp: recs_of_def word_le_nat_alt word_less_nat_alt)

lemma find_next_first:
  "page < length (m_pages s) \<Longrightarrow> page_low s (m_pages s ! page) \<Longrightarrow>
   record_find_next page 0 s = Inr (find (valid_rec (fds_mem s)) (recs_of s (m_pages s ! page)))"
  by (simp add: record_find_next_def load_at_def page_low_ptrs next_valid_recs recs_of_def)

text \<open>What follows a record in the list is the list from the next record on.\<close>

lemma page_recs_split:
  assumes "low e" and "page_recs m e p = xs @ q # ys"
  shows "ys = page_recs m e (next_rec m q) \<and> q < e"
  using assms
proof (induction xs arbitrary: p)
  case Nil
  then show ?case by (cases rule: page_recs_cases [OF Nil(1), of p m]) auto
next
  case (Cons x xs)
  then show ?case by (cases rule: page_recs_cases [OF Cons(2), of p m]) auto
qed

lemma find_next_after:
  assumes "page < length (m_pages s)" and "page_low s (m_pages s ! page)"
    and "recs_of s (m_pages s ! page) = xs @ q # ys"
  shows "record_find_next page q s = Inr (find (valid_rec (fds_mem s)) ys)"
proof -
  have l: "low (page_end s (m_pages s ! page))" using assms(2) by (rule page_low_ptrs)
  have "q \<noteq> 0" using assms by (intro rec_not_null [OF assms(2)]) simp
  moreover have "ys = page_recs (fds_mem s) (page_end s (m_pages s ! page)) (next_rec (fds_mem s) q)"
    "q < page_end s (m_pages s ! page)"
    using page_recs_split [OF l] assms(3) by (auto simp: recs_of_def)
  ultimately show ?thesis
    using assms(1,2) l by (simp add: record_find_next_def load_at_def page_low_ptrs next_valid_recs ptr_add_rec [OF l])
qed


section \<open>Searching in all pages\<close>

definition hit :: "(fds_header_t \<Rightarrow> bool) \<Rightarrow> 'm fds_st \<Rightarrow> u32 \<Rightarrow> bool" where
  "hit good s q \<longleftrightarrow> valid_rec (fds_mem s) q \<and> good (header_at (fds_mem s) q)"

text \<open>\<open>ys\<close> is what is left of a page after the record at \<open>p\<close>, or all of it if \<open>p\<close> is \<open>NULL\<close>.\<close>

definition left_of :: "'m fds_st \<Rightarrow> fds_page_t \<Rightarrow> u32 \<Rightarrow> u32 list \<Rightarrow> bool" where
  "left_of s pg p ys \<longleftrightarrow> p = 0 \<and> ys = recs_of s pg \<or> (\<exists>xs. recs_of s pg = xs @ p # ys)"

lemma left_of_start: "left_of s pg 0 (recs_of s pg)"
  by (simp add: left_of_def)

lemma left_of_later: "left_of s pg p (xs @ q # ys) \<Longrightarrow> left_of s pg q ys"
  unfolding left_of_def by (metis append.assoc append_Cons)

lemma find_next_left:
  "page < length (m_pages s) \<Longrightarrow> page_low s (m_pages s ! page) \<Longrightarrow> left_of s (m_pages s ! page) p ys \<Longrightarrow>
   record_find_next page p s = Inr (find (valid_rec (fds_mem s)) ys)"
  by (auto simp: left_of_def find_next_first find_next_after)

lemma find_SomeE:
  assumes "find P ys = Some q"
  obtains as bs where "ys = as @ q # bs" and "P q" and "\<forall>x \<in> set as. \<not> P x"
proof -
  obtain i where i: "i < length ys" "P (ys ! i)" "q = ys ! i" "\<forall>j < i. \<not> P (ys ! j)"
    using assms by (auto simp: find_Some_iff)
  have "ys = take i ys @ q # drop (Suc i) ys" using i by (simp add: id_take_nth_drop)
  moreover have "\<forall>x \<in> set (take i ys). \<not> P x" using i by (auto simp: in_set_conv_nth)
  ultimately show ?thesis using that i(2,3) by blast
qed

lemma find_append_none: "\<forall>x \<in> set as. \<not> P x \<Longrightarrow> find P (as @ bs) = find P bs"
  by (induction as) auto

lemma find_record_left:
  assumes "page < length (m_pages s)" and "page_low s (m_pages s ! page)" and "left_of s (m_pages s ! page) p ys"
  shows "find_record good page p s = Inr (find (hit good s) ys)"
  using assms(3)
proof (induction "length ys" arbitrary: p ys rule: less_induct)
  case less
  note n = find_next_left [OF assms(1,2) less(2)]
  show ?case
  proof (cases "find (valid_rec (fds_mem s)) ys")
    case None
    then have "find (hit good s) ys = None" by (auto simp: find_None_iff hit_def)
    then show ?thesis using n None by (simp add: find_record.simps [of good page p s])
  next
    case (Some q)
    then obtain as bs where b: "ys = as @ q # bs" "valid_rec (fds_mem s) q" "\<forall>x \<in> set as. \<not> valid_rec (fds_mem s) x"
      by (rule find_SomeE)
    have "find (hit good s) ys = find (hit good s) (q # bs)"
      unfolding b(1) by (rule find_append_none) (use b(3) in \<open>auto simp: hit_def\<close>)
    moreover have "find_record good page q s = Inr (find (hit good s) bs)"
      by (rule less(1)) (use b(1) less(2) left_of_later in auto)
    ultimately show ?thesis using n Some b(2) by (simp add: find_record.simps [of good page p s] hit_def)
  qed
qed

definition hits :: "(fds_header_t \<Rightarrow> bool) \<Rightarrow> 'm fds_st \<Rightarrow> nat \<Rightarrow> u32 list" where
  "hits good s page =
     (if page_type (m_pages s ! page) = FDS_PAGE_DATA then filter (hit good s) (recs_of s (m_pages s ! page)) else [])"

definition data_pages_low :: "'m fds_st \<Rightarrow> bool" where
  "data_pages_low s \<longleftrightarrow> (\<forall>pg \<in> set (m_pages s). page_type pg = FDS_PAGE_DATA \<longrightarrow> page_low s pg) \<and> length (m_pages s) < 2 ^ 16"

text \<open>What a search that starts at a page, after the record at \<open>p\<close>, can still find.\<close>

definition to_find :: "(fds_header_t \<Rightarrow> bool) \<Rightarrow> 'm fds_st \<Rightarrow> nat \<Rightarrow> u32 \<Rightarrow> u32 list \<Rightarrow> bool" where
  "to_find good s page p L \<longleftrightarrow>
     page < length (m_pages s) \<and> page_type (m_pages s ! page) = FDS_PAGE_DATA \<and>
       (\<exists>ys. left_of s (m_pages s ! page) p ys \<and>
             L = filter (hit good s) ys @ concat (map (hits good s) [Suc page..<length (m_pages s)])) \<or>
     p = 0 \<and> L = concat (map (hits good s) [page..<length (m_pages s)])"

lemma to_find_page:
  assumes "to_find good s page p L" and "page < length (m_pages s)" and "page_type (m_pages s ! page) = FDS_PAGE_DATA"
  shows "\<exists>ys. left_of s (m_pages s ! page) p ys \<and>
    L = filter (hit good s) ys @ concat (map (hits good s) [Suc page..<length (m_pages s)])"
proof -
  have u: "[page..<length (m_pages s)] = page # [Suc page..<length (m_pages s)]" using assms(2) by (rule upt_conv_Cons)
  show ?thesis
    using assms left_of_start [of s "m_pages s ! page"] by (auto simp: to_find_def u hits_def)
qed

lemma filter_ConsE:
  assumes "filter P ys = x # xs"
  obtains as bs where "ys = as @ x # bs" and "find P ys = Some x" and "xs = filter P bs"
proof -
  obtain as bs where "ys = as @ x # bs" "\<forall>u \<in> set as. \<not> P u" "P x" "xs = filter P bs"
    using assms by (auto simp: filter_eq_Cons_iff)
  moreover from this have "find P ys = Some x" by (simp add: find_append_none)
  ultimately show ?thesis using that by blast
qed

lemma find_in_pages_ok:
  assumes "data_pages_low s" and "to_find good s page p L"
  shows "(L = [] \<longrightarrow> (\<exists>p'. find_in_pages good [page..<length (m_pages s)] p s = Inr (None, p'))) \<and>
    (L \<noteq> [] \<longrightarrow> (\<exists>page'. find_in_pages good [page..<length (m_pages s)] p s = Inr (Some (hd L, page'), hd L) \<and>
       page' < length (m_pages s) \<and> to_find good s page' (hd L) (tl L)))"
  using assms(2)
proof (induction "length (m_pages s) - page" arbitrary: page p)
  case 0
  then show ?case by (auto simp: to_find_def)
next
  case (Suc n)
  then have lt: "page < length (m_pages s)" by simp
  have u: "[page..<length (m_pages s)] = page # [Suc page..<length (m_pages s)]" using lt by (rule upt_conv_Cons)
  show ?case
  proof (cases "page_type (m_pages s ! page) = FDS_PAGE_DATA")
    case False
    then have "to_find good s (Suc page) p L" using Suc(3) by (auto simp: to_find_def u hits_def)
    from Suc(1) [OF _ this] False lt Suc(2) show ?thesis by (simp add: u load_at_def)
  next
    case True
    have low: "page_low s (m_pages s ! page)" using assms(1) True lt by (simp add: data_pages_low_def)
    obtain ys where ys: "left_of s (m_pages s ! page) p ys"
      "L = filter (hit good s) ys @ concat (map (hits good s) [Suc page..<length (m_pages s)])"
      using to_find_page [OF Suc(3) lt True] by blast
    note f = find_record_left [OF lt low ys(1), of good]
    show ?thesis
    proof (cases "filter (hit good s) ys")
      case Nil
      then have "find (hit good s) ys = None" by (simp add: find_None_iff filter_empty_conv)
      moreover have "to_find good s (Suc page) 0 L" using ys(2) Nil by (simp add: to_find_def)
      from Suc(1) [OF _ this] Suc(2) have "?thesis" if "find_record good page p s = Inr None"
        using that True lt by (simp add: u load_at_def)
      ultimately show ?thesis using f by simp
    next
      case (Cons x xs)
      from filter_ConsE [OF this] obtain as bs where b: "ys = as @ x # bs" "find (hit good s) ys = Some x" "xs = filter (hit good s) bs"
        by blast
      have "left_of s (m_pages s ! page) x bs" using left_of_later ys(1) b(1) by blast
      then have "to_find good s page x (tl L)" using lt True ys(2) Cons b(3) by (auto simp: to_find_def)
      then show ?thesis using f b(2) Cons ys(2) True lt by (simp add: u load_at_def)
    qed
  qed
qed

text \<open>All matching records, by repeated calls; \<open>n\<close> bounds the number of calls.\<close>

fun find_all :: "nat \<Rightarrow> u16 option \<Rightarrow> u16 option \<Rightarrow> fds_find_token_t \<Rightarrow> 'm fds_st \<Rightarrow> u32 list result" where
  "find_all 0 f k t s = Inr []"
| "find_all (Suc n) f k t s =
     then_do (record_find f k (Some desc_zero) (Some t) s) (\<lambda>(ret, d, t').
     if ret = FDS_SUCCESS then then_do (find_all n f k (the t') s) (\<lambda>xs. Inr (d_p_record (the d) # xs)) else Inr [])"

lemma find_all_ok:
  assumes "data_pages_low s" and "flag_is_set FDS_FLAG_INITIALIZED s"
    and "to_find (matches f k) s (unat (ft_page t)) (ft_p_addr t) L" and "length L < n"
  shows "find_all n f k t s = Inr L"
  using assms(3,4)
proof (induction n arbitrary: t L)
  case (Suc n)
  note r = find_in_pages_ok [OF assms(1) Suc(2)]
  show ?case
  proof (cases L)
    case Nil
    then obtain p' where "find_in_pages (matches f k) [unat (ft_page t)..<length (m_pages s)] (ft_p_addr t) s = Inr (None, p')"
      using r by blast
    then show ?thesis
      using Nil assms(2) by (simp add: record_find_def FDS_MAX_PAGES_def FDS_SUCCESS_def FDS_ERR_NOT_FOUND_def)
  next
    case (Cons x xs)
    then obtain page' where p: "find_in_pages (matches f k) [unat (ft_page t)..<length (m_pages s)] (ft_p_addr t) s = Inr (Some (x, page'), x)"
      "page' < length (m_pages s)" "to_find (matches f k) s page' x xs"
      using r by auto
    have "page' < 2 ^ 16" using p(2) assms(1) by (simp add: data_pages_low_def)
    then have "unat (of_nat page' :: u16) = page'" by (simp add: unsigned_of_nat take_bit_nat_eq_self_iff)
    then have "find_all n f k (t\<lparr>ft_p_addr := x, ft_page := of_nat page'\<rparr>) s = Inr xs"
      using p(3) Suc(3) Cons by (intro Suc(1)) simp_all
    then show ?thesis
      using p(1) Cons assms(2) by (simp add: record_find_def FDS_MAX_PAGES_def)
  qed
qed simp

text \<open>A search names a file, a key, both or neither.\<close>

definition wanted :: "u16 option \<Rightarrow> u16 option \<Rightarrow> fds_header_t \<Rightarrow> bool" where
  "wanted f k h \<longleftrightarrow> f \<in> {None, Some (file_id (h_ic h))} \<and> k \<in> {None, Some (record_key (h_tl h))}"

lemma wanted_matches: "wanted f k = matches f k"
  by (cases f; cases k) (auto simp: fun_eq_iff wanted_def matches_def)

definition matching_recs :: "u16 option \<Rightarrow> u16 option \<Rightarrow> 'm fds_st \<Rightarrow> u32 list" where
  "matching_recs f k s = concat (map (hits (wanted f k) s) [0..<length (m_pages s)])"

definition token_zero :: fds_find_token_t where "token_zero = \<lparr>ft_p_addr = 0, ft_page = 0\<rparr>"

lemma to_find_all: "to_find (matches f k) s 0 0 (matching_recs f k s)"
  by (simp add: to_find_def matching_recs_def wanted_matches)

end
