(* ===== verification/FstorageInv.thy ===== *)
theory FstorageInv
  imports FstorageQueue
begin

text \<open>
  The invariant of fstorage: the queue is a ring of valid operations, the module waits for an event of the SoftDevice exactly while
  there is something in the queue, and every request so far was within the flash space of a configuration. Callbacks
  may call the module again.
\<close>

unbundle bit_operations_syntax

section \<open>Invariant\<close>

abbreviation processing :: "'m fs \<Rightarrow> bool" where "processing s \<equiv> has_flag FS_FLAG_PROCESSING s"
abbreviation req_pending :: "'m fs \<Rightarrow> bool" where "req_pending s \<equiv> has_flag FS_FLAG_FLASH_REQ_PENDING s"

text \<open>The page numbers of the flash have 16 bits.\<close>

definition config_ok :: "'m fs \<Rightarrow> fs_config_t \<Rightarrow> bool" where
  "config_ok s c \<longleftrightarrow> fs_callback c \<noteq> None \<and> unat (p_end_addr c) \<le> 65535 * unat (FS_PAGE_SIZE s)"

definition fs_base :: "'m fs \<Rightarrow> bool" where
  "fs_base s \<longleftrightarrow> fs_ring s \<and> 0 < FS_MAX_WRITE_SIZE_WORDS s \<and> (FS_PAGE_SIZE s = 1024 \<or> FS_PAGE_SIZE s = 4096) \<and>
     \<not> cfg_dfu_signing s \<and> (\<forall>c \<in> set (fs_data s). config_ok s c) \<and> (\<forall>r \<in> set (sd_log s). request_ok s r) \<and>
     \<not> (processing s \<and> req_pending s)"

text \<open>While a callback runs the operation at the head may be complete.\<close>

definition fs_busy :: "'m fs \<Rightarrow> bool" where
  "fs_busy s \<longleftrightarrow> fs_base s \<and> processing s \<and> 0 < fs_count s \<and> (\<forall>op \<in> set (tl (fs_queue s)). op_ok s op)"

definition fs_inv :: "'m fs \<Rightarrow> bool" where
  "fs_inv s \<longleftrightarrow> fs_base s \<and> (0 < fs_count s \<longleftrightarrow> processing s \<or> req_pending s) \<and>
     (\<forall>op \<in> set (fs_queue s). op_ok s op)"

definition fs_more :: "'m fs \<Rightarrow> 'm fs \<Rightarrow> bool" where
  "fs_more s t \<longleftrightarrow> same_config s t \<and> (\<exists>ops. fs_queue t = fs_queue s @ ops)"

text \<open>Callbacks return, and leave the module with the same operations or more.\<close>

definition cb_ok :: "'m fs_cb \<Rightarrow> bool" where
  "cb_ok cb \<longleftrightarrow> (\<forall>f e r s. fs_busy s \<longrightarrow> ok (cb f e r s) (\<lambda>t. fs_busy t \<and> fs_more s t))"

lemma fs_more_refl [simp]: "fs_more s s"
  by (simp add: fs_more_def)

lemma fs_more_head:
  assumes "fs_more s t" and "0 < fs_count s"
  shows "hd (fs_queue t) = hd (fs_queue s)"
proof -
  have "fs_queue s \<noteq> []" using assms(2) by (simp add: word_neq_0_conv)
  then show ?thesis using assms(1) by (auto simp: fs_more_def)
qed

text \<open>Changes of flags, counters and log do not touch the queue.\<close>

definition quiet_update :: "'m fs \<Rightarrow> 'm fs \<Rightarrow> bool" where
  "quiet_update s t \<longleftrightarrow> same_config s t \<and> fs_op t = fs_op s \<and> fs_rp t = fs_rp s \<and> fs_count t = fs_count s"

lemma quiet_queue:
  assumes "quiet_update s t"
  shows "fs_ring t = fs_ring s" "fs_queue t = fs_queue s" "fs_count t = fs_count s" "same_config s t"
    "op_ok t op = op_ok s op" "request_ok t r = request_ok s r"
proof -
  have c: "same_config s t" and e: "fs_op t = fs_op s" "fs_rp t = fs_rp s" "fs_count t = fs_count s"
    using assms by (simp_all add: quiet_update_def)
  show "fs_ring t = fs_ring s" "fs_queue t = fs_queue s"
    unfolding fs_ring_def fs_queue_def e same_config_fields [OF c] by (rule refl)+
  show "fs_count t = fs_count s" "same_config s t" by (rule e(3), rule c)
  show "op_ok t op = op_ok s op" "request_ok t r = request_ok s r" by (rule same_config_ok [OF c])+
qed

lemma quiet_base:
  assumes "quiet_update s t" and "fs_base s" and "\<forall>r \<in> set (sd_log t). request_ok s r" and "\<not> (processing t \<and> req_pending t)"
  shows "fs_base t"
proof -
  have c: "same_config s t" by (rule quiet_queue(4) [OF assms(1)])
  then have d: "cfg_dfu_signing t = cfg_dfu_signing s" by (simp add: same_config_def)
  show ?thesis
    using assms(2-4)
    unfolding fs_base_def config_ok_def quiet_queue [OF assms(1)] same_config_fields [OF c] d by simp
qed

lemma quiet_flags [simp]:
  "quiet_update s (set_flag FS_FLAG_PROCESSING s)" "quiet_update s (set_flag FS_FLAG_FLASH_REQ_PENDING s)"
  "quiet_update s (clear_flag FS_FLAG_PROCESSING s)" "quiet_update s (clear_flag FS_FLAG_FLASH_REQ_PENDING s)"
  by (simp_all add: quiet_update_def same_config_def, simp_all add: set_flag_def clear_flag_def)

lemma quiet_fields [simp]:
  "quiet_update s (s\<lparr>fs_retry_count := n\<rparr>)" "quiet_update s (s\<lparr>sd_n := k, sd_log := l\<rparr>)"
  by (simp_all add: quiet_update_def same_config_def has_flag_def)

lemma quiet_trans: "quiet_update s t \<Longrightarrow> quiet_update t u \<Longrightarrow> quiet_update s u"
  by (auto simp: quiet_update_def intro: same_config_trans)

lemma flag_fields [simp]: "sd_log (set_flag f s) = sd_log s" "sd_log (clear_flag f s) = sd_log s"
  by (simp_all add: set_flag_def clear_flag_def)

lemma has_flag_fields [simp]:
  "has_flag f (s\<lparr>fs_retry_count := n\<rparr>) = has_flag f s" "has_flag f (s\<lparr>sd_n := k, sd_log := l\<rparr>) = has_flag f s"
  "has_flag f (upd_op i op s) = has_flag f s" "has_flag f (fs_put op s) = has_flag f s"
  by (simp_all add: has_flag_def upd_op_def fs_put_def)

section \<open>Events\<close>

lemma op_ok_callback:
  assumes "op_ok s op" and "fs_base s"
  shows "\<exists>c f. the_config (op_p_config op) s = Inr c \<and> fs_callback c = Some f"
  using assms by (auto simp: op_ok_def the_config_def load_at_def fs_base_def config_ok_def)

lemma send_event_ok:
  assumes "cb_ok cb" and "fs_busy s" and "the_config (op_p_config op) s = Inr c" and "fs_callback c = Some f"
  shows "ok (send_event cb op r s) (\<lambda>t. fs_busy t \<and> fs_more s t)"
  using assms by (simp add: send_event_def cb_ok_def Let_def)

section \<open>Processing\<close>

lemma unat_ucast_u16: "unat (ucast (x :: u16) :: u32) = unat x"
  using unsigned_less [of x, where 'a = nat] by (simp add: unsigned_ucast_eq take_bit_nat_eq_self)

lemma chunk_bounds:
  assumes "st_offset op < st_length_words op" and "0 < FS_MAX_WRITE_SIZE_WORDS s"
  shows "0 < chunk_len op s" "chunk_len op s \<le> FS_MAX_WRITE_SIZE_WORDS s"
    "unat (st_offset op) + unat (chunk_len op s) \<le> unat (st_length_words op)"
proof -
  have d: "unat (st_length_words op - st_offset op) = unat (st_length_words op) - unat (st_offset op)"
    using assms(1) by (simp add: unat_sub word_le_nat_alt word_less_nat_alt)
  have o: "unat (st_offset op) < unat (st_length_words op)" using assms(1) by (simp add: word_less_nat_alt)
  have c: "uint (st_length_words op) - uint (st_offset op) < uint (FS_MAX_WRITE_SIZE_WORDS s) \<longleftrightarrow>
      unat (st_length_words op) - unat (st_offset op) < unat (FS_MAX_WRITE_SIZE_WORDS s)"
    using o unfolding uint_nat by linarith
  show "0 < chunk_len op s" "chunk_len op s \<le> FS_MAX_WRITE_SIZE_WORDS s"
      "unat (st_offset op) + unat (chunk_len op s) \<le> unat (st_length_words op)"
    using o d assms(2) by (auto simp: chunk_len_def c word_less_nat_alt word_le_nat_alt)
qed

lemma execute_in_space:
  assumes "fs_base s" and "op_ok s op"
  shows "op_op_code op = FS_OP_STORE \<Longrightarrow> request_ok s (Flash_Write (st_p_dest op + 4 * ucast (st_offset op))
      (st_p_src op + 4 * ucast (st_offset op)) (chunk_len op s))"
    "op_op_code op = FS_OP_ERASE \<Longrightarrow> request_ok s (Page_Erase (er_page op))"
proof -
  obtain i where i: "i < length (fs_data s)" "op_p_config op = Some i" using assms(2) by (auto simp: op_ok_def)
  let ?c = "fs_data s ! i"
  have c: "?c \<in> set (fs_data s)" using i by simp
  show "request_ok s (Page_Erase (er_page op))" if "op_op_code op = FS_OP_ERASE"
  proof -
    have e: "unat (p_start_addr ?c) \<le> unat (er_page op) * unat (FS_PAGE_SIZE s)"
      "(unat (er_page op) + (unat (er_pages_to_erase op) - unat (er_pages_erased op))) * unat (FS_PAGE_SIZE s) \<le> unat (p_end_addr ?c)"
      "unat (er_pages_erased op) < unat (er_pages_to_erase op)"
      using assms(2) that i by (auto simp: op_ok_def word_less_nat_alt)
    have "(unat (er_page op) + 1) * unat (FS_PAGE_SIZE s) \<le>
        (unat (er_page op) + (unat (er_pages_to_erase op) - unat (er_pages_erased op))) * unat (FS_PAGE_SIZE s)"
      using e(3) by (intro mult_le_mono1) simp
    then show ?thesis using e c by (auto simp: request_ok_def in_space_def intro!: bexI [of _ ?c])
  qed
  show "request_ok s (Flash_Write (st_p_dest op + 4 * ucast (st_offset op)) (st_p_src op + 4 * ucast (st_offset op)) (chunk_len op s))"
    if "op_op_code op = FS_OP_STORE"
  proof -
    have e: "unat (p_start_addr ?c) \<le> unat (st_p_dest op)"
      "unat (st_p_dest op) + 4 * unat (st_length_words op) \<le> unat (p_end_addr ?c)" "st_offset op < st_length_words op"
      using assms(2) that i by (auto simp: op_ok_def)
    note b = chunk_bounds [OF e(3), of s]
    have m: "0 < FS_MAX_WRITE_SIZE_WORDS s" using assms(1) by (simp add: fs_base_def)
    have "unat (4 * ucast (st_offset op) :: u32) = 4 * unat (st_offset op)"
      using unsigned_less [of "st_offset op", where 'a = nat] by (simp add: unat_word_ariths unat_ucast_u16)
    moreover have "unat (st_p_dest op) + 4 * unat (st_offset op) < 2 ^ 32"
      using e(2,3) unsigned_less [of "p_end_addr ?c", where 'a = nat] by (simp add: word_less_nat_alt)
    ultimately have "unat (st_p_dest op + 4 * ucast (st_offset op)) = unat (st_p_dest op) + 4 * unat (st_offset op)"
      by (simp add: unat_word_ariths)
    then show ?thesis using e b(1) [OF m] b(2) [OF m] b(3) [OF m] c
      by (auto simp: request_ok_def in_space_def intro!: bexI [of _ ?c])
  qed
qed

section \<open>Preservation\<close>

lemma request_base:
  assumes "fs_base s" and "request_ok s r"
  shows "quiet_update s (snd (sd_request r s))" "fs_base (snd (sd_request r s))"
    "has_flag f (snd (sd_request r s)) = has_flag f s"
proof -
  show q: "quiet_update s (snd (sd_request r s))" by (simp add: sd_request_def)
  show "fs_base (snd (sd_request r s))"
    by (rule quiet_base [OF q assms(1)]) (use assms in \<open>auto simp: fs_base_def sd_request_def\<close>)
qed (simp add: sd_request_def)

lemma busy_to_inv: "fs_busy s \<Longrightarrow> op_ok s (hd (fs_queue s)) \<Longrightarrow> fs_inv s"
  by (cases "fs_queue s") (auto simp: fs_busy_def fs_inv_def)

lemma inv_to_busy: "fs_inv s \<Longrightarrow> processing s \<Longrightarrow> fs_busy s"
  by (cases "fs_queue s") (auto simp: fs_busy_def fs_inv_def)

lemma process_ok:
  assumes "cb_ok cb" and "fs_inv s" and "processing s"
  shows "ok (queue_process cb s) fs_inv"
proof -
  have b: "fs_base s" "0 < fs_count s" "fs_ring s" using assms(2,3) by (auto simp: fs_inv_def fs_base_def)
  define op where "op = hd (fs_queue s)"
  have "op \<in> set (fs_queue s)" using b(2) by (simp add: op_def word_neq_0_conv)
  then have op: "op_ok s op" using assms(2) by (simp add: fs_inv_def)
  define r where "r = (if op_op_code op = FS_OP_STORE then Flash_Write (st_p_dest op + 4 * ucast (st_offset op))
    (st_p_src op + 4 * ucast (st_offset op)) (chunk_len op s) else Page_Erase (er_page op))"
  have code: "op_op_code op = FS_OP_STORE \<or> op_op_code op = FS_OP_ERASE"
    using op by (cases "op_op_code op") (auto simp: op_ok_def)
  then have r: "request_ok s r" using execute_in_space [OF b(1) op] by (auto simp: r_def)
  obtain ret s1 where s1: "sd_request r s = (ret, s1)" by fastforce
  note q = request_base [OF b(1) r, unfolded s1 snd_conv]
  have step: "queue_process cb s = (if ret = NRF_ERROR_BUSY
        then Inr (set_flag FS_FLAG_FLASH_REQ_PENDING (clear_flag FS_FLAG_PROCESSING s1))
        else if ret \<noteq> NRF_SUCCESS then send_event cb op FS_ERR_INTERNAL s1 else Inr s1)"
    using b(2) code fs_head [OF b(3,2)] s1
    by (auto simp: queue_process_def store_execute_def erase_execute_def r_def op_def [symmetric] Let_def)
  have inv1: "fs_inv s1" using assms(2) q by (simp add: fs_inv_def quiet_queue)
  let ?p = "set_flag FS_FLAG_FLASH_REQ_PENDING (clear_flag FS_FLAG_PROCESSING s1)"
  have qp: "quiet_update s1 ?p" by (meson quiet_flags quiet_trans)
  have "fs_base ?p" by (rule quiet_base [OF qp q(2)]) (use q(2) in \<open>simp_all add: fs_base_def\<close>)
  then have pend: "fs_inv ?p" using inv1 assms(3) b(2) q by (simp add: fs_inv_def quiet_queue [OF qp] quiet_queue [OF q(1)])
  have busy: "fs_busy s1" using inv1 assms(3) q(3) by (simp add: inv_to_busy)
  have head: "hd (fs_queue s1) = op" "op_ok s1 op" using q(1) op by (simp_all add: quiet_queue op_def)
  obtain c f where cf: "the_config (op_p_config op) s1 = Inr c" "fs_callback c = Some f" using op_ok_callback [OF head(2) q(2)] by blast
  have "ok (send_event cb op FS_ERR_INTERNAL s1) fs_inv"
  proof (rule ok_mono [OF send_event_ok [OF assms(1) busy cf]])
    fix t assume t: "fs_busy t \<and> fs_more s1 t"
    have "hd (fs_queue t) = op" using fs_more_head [of s1 t] t busy head(1) by (simp add: fs_busy_def)
    moreover have "op_ok t op" using t head(2) same_config_ok(1) [of s1 t op] by (simp add: fs_more_def)
    ultimately show "fs_inv t" using t by (simp add: busy_to_inv)
  qed
  then show ?thesis unfolding step using pend inv1 by simp
qed

lemma finish_ok:
  assumes "cb_ok cb" and "fs_busy s" and "the_config (op_p_config op) s = Inr c" and "fs_callback c = Some f"
  shows "ok (then_do (send_event cb op r s) (\<lambda>t. Inr (queue_advance t))) (\<lambda>t. fs_inv t \<and> \<not> req_pending t)"
proof -
  have adv: "fs_inv (queue_advance t) \<and> \<not> req_pending (queue_advance t)" if t: "fs_busy t" for t :: "'a fs"
  proof -
    have b: "fs_base t" "fs_ring t" "0 < fs_count t" "processing t" "\<not> req_pending t" "\<forall>op \<in> set (tl (fs_queue t)). op_ok t op"
      using t by (auto simp: fs_busy_def fs_base_def)
    note a = queue_advance_ok [OF b(2,3)]
    have count: "fs_count (queue_advance t) = fs_count t - 1"
      by (simp add: queue_advance_def Let_def clear_flag_def)
    have flags: "fs_flags (queue_advance t) = fs_flags (if fs_count t - 1 = 0 then clear_flag FS_FLAG_PROCESSING t else t)"
      by (simp add: queue_advance_def Let_def clear_flag_def)
    note hf = has_flag_cong [OF flags]
    have "same_config t (queue_advance t)"
      using hf [of FS_FLAG_INITIALIZED] a(3)
      by (simp add: same_config_def) (simp add: queue_advance_def Let_def clear_flag_def)
    note c = same_config_ok [OF this] same_config_fields [OF this] this
    have log: "sd_log (queue_advance t) = sd_log t" by (simp add: queue_advance_def Let_def clear_flag_def)
    have dfu: "cfg_dfu_signing (queue_advance t) = cfg_dfu_signing t" using c by (simp add: same_config_def)
    have pend: "\<not> req_pending (queue_advance t)" using b(5) hf [of FS_FLAG_FLASH_REQ_PENDING] by simp
    have proc: "processing (queue_advance t) \<longleftrightarrow> 0 < fs_count (queue_advance t)"
      using b(4) hf [of FS_FLAG_PROCESSING] count by (simp add: word_gt_0)
    have "fs_base (queue_advance t)"
      using b(1) a(1) pend unfolding fs_base_def config_ok_def c log dfu by simp
    then show ?thesis using b(6) proc pend unfolding fs_inv_def a(2) c by simp
  qed
  show ?thesis
    by (rule ok_then_doI [OF send_event_ok [OF assms]]) (use adv in simp)
qed

lemma update_head:
  assumes "fs_inv s" and "processing s" and "s' = s\<lparr>fs_retry_count := n\<rparr>"
  shows "fs_busy (upd_op (unat (fs_rp s)) op s')" "fs_queue (upd_op (unat (fs_rp s)) op s') = op # tl (fs_queue s)"
    "same_config s (upd_op (unat (fs_rp s)) op s')"
proof -
  let ?t = "upd_op (unat (fs_rp s)) op s'"
  have b: "fs_base s" "fs_ring s" "0 < fs_count s" using assms(1,2) by (auto simp: fs_inv_def fs_base_def)
  have q: "fs_ring s'" "fs_queue s' = fs_queue s" "fs_count s' = fs_count s" "fs_rp s' = fs_rp s" "same_config s s'"
    using quiet_queue [of s s'] b(2) by (simp_all add: assms(3))
  note h = fs_set_head [OF q(1), unfolded q(2-4), OF b(3), of op]
  show "fs_queue ?t = op # tl (fs_queue s)" by (rule h(2))
  show c: "same_config s ?t" using q(5) by (simp add: same_config_def upd_op_def has_flag_def)
  have f: "has_flag f ?t = has_flag f s" for f by (simp add: assms(3))
  have log: "sd_log ?t = sd_log s" "fs_count ?t = fs_count s" by (simp_all add: upd_op_def assms(3))
  have dfu: "cfg_dfu_signing ?t = cfg_dfu_signing s" using c by (simp add: same_config_def)
  have "fs_base ?t"
    using b(1) h(1) unfolding fs_base_def config_ok_def same_config_ok [OF c] same_config_fields [OF c] log dfu f by simp
  moreover have "\<forall>op \<in> set (tl (fs_queue s)). op_ok s op"
    using assms(1) b(3) by (cases "fs_queue s") (auto simp: fs_inv_def)
  ultimately show "fs_busy ?t"
    using assms(2) b(3) unfolding fs_busy_def h(2) same_config_ok [OF c] log f by simp
qed

lemma store_progress:
  assumes "op_ok s op" and "op_op_code op = FS_OP_STORE" and "0 < FS_MAX_WRITE_SIZE_WORDS s"
    and "st_offset op + chunk_len op s \<noteq> st_length_words op"
  shows "op_ok s (op\<lparr>st_offset := st_offset op + chunk_len op s\<rparr>)"
proof -
  have o: "st_offset op < st_length_words op" using assms(1,2) by (auto simp: op_ok_def)
  note b = chunk_bounds [OF o assms(3)]
  have u: "unat (st_offset op + chunk_len op s) = unat (st_offset op) + unat (chunk_len op s)"
    using b(3) unsigned_less [of "st_length_words op", where 'a = nat] by (simp add: unat_word_ariths)
  then have "st_offset op + chunk_len op s < st_length_words op"
    using b(3) assms(4) by (metis le_neq_implies_less word_less_nat_alt word_unat_eq_iff)
  then show ?thesis using assms(1,2) by (auto simp: op_ok_def)
qed

lemma erase_progress:
  assumes "op_ok s op" and "op_op_code op = FS_OP_ERASE" and "fs_base s" and "er_pages_erased op + 1 \<noteq> er_pages_to_erase op"
  shows "op_ok s (op\<lparr>er_page := er_page op + 1, er_pages_erased := er_pages_erased op + 1\<rparr>)"
proof -
  let ?p = "unat (er_page op)" and ?e = "unat (er_pages_erased op)" and ?n = "unat (er_pages_to_erase op)" and ?P = "unat (FS_PAGE_SIZE s)"
  obtain i where i: "op_p_config op = Some i" "i < length (fs_data s)" "unat (p_start_addr (fs_data s ! i)) \<le> ?p * ?P"
      "(?p + (?n - ?e)) * ?P \<le> unat (p_end_addr (fs_data s ! i))" "?e < ?n"
    using assms(1,2) by (auto simp: op_ok_def word_less_nat_alt)
  have "config_ok s (fs_data s ! i)" using assms(3) i(2) by (simp add: fs_base_def)
  then have "unat (p_end_addr (fs_data s ! i)) \<le> 65535 * ?P" by (simp add: config_ok_def)
  then have "(?p + (?n - ?e)) * ?P \<le> 65535 * ?P" using i(4) by (rule order_trans [rotated])
  moreover have "0 < ?P" using assms(3) by (auto simp: fs_base_def)
  ultimately have p: "?p + (?n - ?e) \<le> 65535" by simp
  have e: "unat (er_pages_erased op + 1) = ?e + 1" "unat (er_page op + 1) = ?p + 1"
    using i(5) p unsigned_less [of "er_pages_to_erase op", where 'a = nat] by (simp_all add: unat_word_ariths)
  then have "?e + 1 < ?n" using i(5) assms(4) by (metis Suc_eq_plus1 Suc_leI le_neq_implies_less word_unat_eq_iff)
  moreover have "?p + 1 + (?n - (?e + 1)) = ?p + (?n - ?e)" using i(5) by simp
  moreover have "?p * ?P \<le> (?p + 1) * ?P" by simp
  ultimately show ?thesis
    using i assms(2) e by (simp add: op_ok_def word_less_nat_alt)
qed

lemma success_ok:
  assumes "cb_ok cb" and "fs_inv s" and "processing s"
  shows "ok (on_operation_success cb (unat (fs_rp s)) s) (\<lambda>t. fs_inv t \<and> \<not> req_pending t)"
proof -
  define op where "op = hd (fs_queue s)"
  have b: "fs_base s" "0 < fs_count s" "fs_ring s" using assms(2,3) by (auto simp: fs_inv_def fs_base_def)
  have "op \<in> set (fs_queue s)" using b(2) by (simp add: op_def word_neq_0_conv)
  then have op: "op_ok s op" using assms(2) by (simp add: fs_inv_def)
  define s' where "s' = s\<lparr>fs_retry_count := 0\<rparr>"
  have load: "load_at (fs_op s') (unat (fs_rp s)) = Inr op" using fs_head [OF b(3,2)] by (simp add: s'_def op_def)
  have chunk: "chunk_len op s' = chunk_len op s" by (simp add: chunk_len_def s'_def)
  note upd = update_head [OF assms(2,3) s'_def]
  have fin: "ok (then_do (send_event cb op1 FS_SUCCESS (upd_op (unat (fs_rp s)) op1 s')) (\<lambda>t. Inr (queue_advance t)))
      (\<lambda>t. fs_inv t \<and> \<not> req_pending t)" if c: "op_p_config op1 = op_p_config op" for op1
  proof -
    obtain c f where "the_config (op_p_config op) s = Inr c" "fs_callback c = Some f" using op_ok_callback [OF op b(1)] by blast
    moreover have "the_config (op_p_config op1) (upd_op (unat (fs_rp s)) op1 s') = the_config (op_p_config op) s"
      using c by (simp add: the_config_def upd_op_def s'_def split: option.split)
    ultimately show ?thesis using finish_ok [OF assms(1) upd(1) [of op1]] by simp
  qed
  have more: "fs_inv (upd_op (unat (fs_rp s)) op1 s') \<and> \<not> req_pending (upd_op (unat (fs_rp s)) op1 s')" if o: "op_ok s op1" for op1
  proof -
    have "op_ok (upd_op (unat (fs_rp s)) op1 s') (hd (fs_queue (upd_op (unat (fs_rp s)) op1 s')))"
      unfolding upd(2) same_config_ok(1) [OF upd(3)] using o by simp
    then show ?thesis using busy_to_inv [OF upd(1)] upd(1) [of op1] by (simp add: fs_busy_def fs_base_def)
  qed
  show ?thesis
  proof (cases "op_op_code op")
    case FS_OP_NONE
    then show ?thesis using op by (auto simp: op_ok_def)
  next
    case FS_OP_STORE
    show ?thesis
    proof (cases "st_offset op + chunk_len op s = st_length_words op")
      case True
      then show ?thesis
        using FS_OP_STORE load chunk fin [of "op\<lparr>st_offset := st_offset op + chunk_len op s\<rparr>"]
        by (simp add: on_operation_success_def Let_def s'_def [symmetric])
    next
      case False
      then show ?thesis
        using FS_OP_STORE load chunk more [OF store_progress [OF op FS_OP_STORE _ False]] b(1)
        by (simp add: on_operation_success_def Let_def s'_def [symmetric] fs_base_def)
    qed
  next
    case FS_OP_ERASE
    show ?thesis
    proof (cases "er_pages_erased op + 1 = er_pages_to_erase op")
      case True
      then show ?thesis
        using FS_OP_ERASE load fin [of "op\<lparr>er_page := er_page op + 1, er_pages_erased := er_pages_erased op + 1\<rparr>"]
        by (simp add: on_operation_success_def Let_def s'_def [symmetric])
    next
      case False
      then show ?thesis
        using FS_OP_ERASE load more [OF erase_progress [OF op FS_OP_ERASE b(1) False]]
        by (simp add: on_operation_success_def Let_def s'_def [symmetric])
    qed
  qed
qed

lemma failure_ok:
  assumes "cb_ok cb" and "fs_inv s" and "processing s"
  shows "ok (on_operation_failure cb (unat (fs_rp s)) s) (\<lambda>t. fs_inv t \<and> \<not> req_pending t)"
proof -
  let ?s1 = "s\<lparr>fs_retry_count := fs_retry_count s + 1\<rparr>" and ?s2 = "s\<lparr>fs_retry_count := 0\<rparr>"
  have b: "fs_base s" "0 < fs_count s" "fs_ring s" "\<not> req_pending s"
    using assms(2,3) by (auto simp: fs_inv_def fs_base_def)
  have inv: "fs_inv (s\<lparr>fs_retry_count := n\<rparr>)" for n
  proof -
    have "fs_base (s\<lparr>fs_retry_count := n\<rparr>)"
      by (rule quiet_base [OF quiet_fields(1) b(1)]) (use b in \<open>simp_all add: fs_base_def\<close>)
    then show ?thesis using assms(2) by (simp add: fs_inv_def quiet_queue [OF quiet_fields(1) [of s n]])
  qed
  have "hd (fs_queue s) \<in> set (fs_queue s)" using b(2) by (simp add: word_neq_0_conv)
  then have "op_ok s (hd (fs_queue s))" using assms(2) by (simp add: fs_inv_def)
  then obtain c f where "the_config (op_p_config (hd (fs_queue s))) s = Inr c" "fs_callback c = Some f"
    using op_ok_callback b(1) by blast
  moreover have "the_config x ?s2 = the_config x s" for x by (simp add: the_config_def split: option.split)
  ultimately have "ok (then_do (send_event cb (hd (fs_queue s)) FS_ERR_OPERATION_TIMEOUT ?s2) (\<lambda>t. Inr (queue_advance t)))
      (\<lambda>t. fs_inv t \<and> \<not> req_pending t)"
    using finish_ok [OF assms(1) inv_to_busy [OF inv [of 0]]] assms(3) by simp
  then show ?thesis
    using inv [of "fs_retry_count s + 1"] b(4) fs_head [OF b(3,2)] by (simp add: on_operation_failure_def Let_def)
qed

text \<open>An event of the SoftDevice.\<close>

lemma sys_event_ok:
  assumes "cb_ok cb" and "fs_inv s"
  shows "ok (fs_sys_event_handler cb e s) fs_inv"
proof -
  have process: "ok (queue_process cb t) fs_inv" if "fs_inv t" "\<not> req_pending t" for t
  proof (cases "processing t")
    case True
    then show ?thesis using process_ok assms(1) that(1) by blast
  next
    case False
    then have "\<not> 0 < fs_count t" using that by (simp add: fs_inv_def)
    then show ?thesis using that(1) by (simp add: queue_process_def)
  qed
  show ?thesis
  proof (cases "processing s")
    case True
    then have "\<not> req_pending s" using assms(2) by (auto simp: fs_inv_def fs_base_def)
    then have "ok (case e of NRF_EVT_FLASH_OPERATION_SUCCESS \<Rightarrow> on_operation_success cb (unat (fs_rp s)) s
        | NRF_EVT_FLASH_OPERATION_ERROR \<Rightarrow> on_operation_failure cb (unat (fs_rp s)) s | NRF_EVT_OTHER \<Rightarrow> Inr s)
        (\<lambda>t. fs_inv t \<and> \<not> req_pending t)"
      using success_ok [OF assms True] failure_ok [OF assms True] assms(2) by (cases e) simp_all
    then show ?thesis using True process
      unfolding fs_sys_event_handler_def Let_def by (auto intro!: ok_then_doI elim!: ok_mono)
  next
    case False
    show ?thesis
    proof (cases "req_pending s")
      case True
      then have c: "0 < fs_count s" "fs_base s" "\<forall>op \<in> set (fs_queue s). op_ok s op" using assms(2) by (auto simp: fs_inv_def)
      let ?t = "set_flag FS_FLAG_PROCESSING (clear_flag FS_FLAG_FLASH_REQ_PENDING s)"
      have q: "quiet_update s ?t" by (meson quiet_flags quiet_trans)
      have "fs_base ?t" by (rule quiet_base [OF q c(2)]) (use c(2) in \<open>simp_all add: fs_base_def\<close>)
      then have "fs_inv ?t" using c by (simp add: fs_inv_def quiet_queue [OF q])
      moreover have "fs_count (clear_flag FS_FLAG_FLASH_REQ_PENDING s) = fs_count s" by (simp add: clear_flag_def)
      ultimately show ?thesis using False True c(1) process [of ?t]
        by (simp add: fs_sys_event_handler_def Let_def)
    next
      case pend: False
      then show ?thesis using False process [OF assms(2)] by (simp add: fs_sys_event_handler_def Let_def)
    qed
  qed
qed

end
