(* ===== verification/FstorageProps.thy ===== *)
theory FstorageProps
  imports FstorageInv
begin

text \<open>
  The interface of fstorage on top of the invariant: any order of calls and events, what reaches the SoftDevice, a store from
  its call to its event, and the assignment of flash pages by \<open>fs_init\<close>.
\<close>

unbundle bit_operations_syntax

section \<open>Calls\<close>

text \<open>What a call with valid arguments puts into the queue.\<close>

definition store_op_of :: "nat option \<Rightarrow> u32 \<Rightarrow> u32 \<Rightarrow> u16 \<Rightarrow> nat \<Rightarrow> fs_op_t" where
  "store_op_of p dest src n ctx = fs_op_zero\<lparr>op_p_context := ctx, op_p_config := p, op_op_code := FS_OP_STORE,
     st_p_src := src, st_p_dest := dest, st_length_words := n\<rparr>"

definition erase_op_of :: "nat option \<Rightarrow> u32 \<Rightarrow> u16 \<Rightarrow> nat \<Rightarrow> 'm fs \<Rightarrow> fs_op_t" where
  "erase_op_of p addr n ctx s = fs_op_zero\<lparr>op_p_context := ctx, op_p_config := p, op_op_code := FS_OP_ERASE,
     er_page := ucast (addr div FS_PAGE_SIZE s), er_pages_to_erase := n\<rparr>"

definition fs_enqueue :: "'m fs_cb \<Rightarrow> fs_op_t \<Rightarrow> 'm fs \<Rightarrow> (fs_ret_t \<times> 'm fs) result" where
  "fs_enqueue cb op s =
     (if fs_count s = FS_QUEUE_SIZE s then Inr (FS_ERR_QUEUE_FULL, s)
      else then_do (queue_start cb (fs_put op s)) (\<lambda>t. Inr (FS_SUCCESS, t)))"

lemma fs_store_cases:
  assumes "fs_ring s"
  shows "fs_store cb p dest src n ctx s =
    (if \<not> has_flag FS_FLAG_INITIALIZED s then Inr (FS_ERR_NOT_INITIALIZED, s)
     else if \<not> check_config p s then Inr (FS_ERR_INVALID_CFG, s)
     else if src = 0 \<or> dest = 0 then Inr (FS_ERR_NULL_ARG, s)
     else if src AND 0x03 \<noteq> 0 \<or> dest AND 0x03 \<noteq> 0 then Inr (FS_ERR_UNALIGNED_ADDR, s)
     else then_do (the_config p s) (\<lambda>c.
       if p_start_addr c > dest \<or> p_end_addr c < dest + 4 * ucast n then Inr (FS_ERR_INVALID_ADDR, s)
       else if n = 0 then Inr (FS_ERR_INVALID_ARG, s) else fs_enqueue cb (store_op_of p dest src n ctx) s))"
  unfolding fs_store_def get_free_ok [OF assms] fs_enqueue_def
  by (simp add: load_put [OF assms] store_op_of_def if_distrib [of "\<lambda>x. then_do (Inr x) _"] cong: if_cong)

lemma fs_erase_cases:
  assumes "fs_ring s"
  shows "fs_erase cb p addr n ctx s =
    (if \<not> has_flag FS_FLAG_INITIALIZED s then Inr (FS_ERR_NOT_INITIALIZED, s)
     else if \<not> check_config p s then Inr (FS_ERR_INVALID_CFG, s)
     else if addr = 0 then Inr (FS_ERR_NULL_ARG, s)
     else if addr AND (FS_PAGE_SIZE s - 1) \<noteq> 0 then Inr (FS_ERR_UNALIGNED_ADDR, s)
     else then_do (the_config p s) (\<lambda>c.
       if addr < p_start_addr c \<or> addr + 4 * (FS_PAGE_SIZE_WORDS s * ucast n) > p_end_addr c then Inr (FS_ERR_INVALID_ADDR, s)
       else if n = 0 then Inr (FS_ERR_INVALID_ARG, s) else fs_enqueue cb (erase_op_of p addr n ctx s) s))"
proof -
  have "FS_PAGE_SIZE (fs_put op s) = FS_PAGE_SIZE s" for op by (simp add: fs_put_def)
  then show ?thesis
    unfolding fs_erase_def get_free_ok [OF assms] fs_enqueue_def
    by (simp add: load_put [OF assms] erase_op_of_def if_distrib [of "\<lambda>x. then_do (Inr x) _"] cong: if_cong)
qed

section \<open>Calls keep the invariant\<close>

lemma put_keeps:
  assumes "fs_base s" and "fs_count s \<noteq> FS_QUEUE_SIZE s"
  shows "fs_base (fs_put op s)" "fs_queue (fs_put op s) = fs_queue s @ [op]" "same_config s (fs_put op s)" "0 < fs_count (fs_put op s)"
proof -
  have r: "fs_ring s" "fs_count s < FS_QUEUE_SIZE s" using assms by (auto simp: fs_base_def fs_ring_def)
  note p = fs_put_ok [OF r, of op]
  show c: "same_config s (fs_put op s)" by (simp add: same_config_def fs_put_def has_flag_def)
  have log: "sd_log (fs_put op s) = sd_log s" "cfg_dfu_signing (fs_put op s) = cfg_dfu_signing s" by (simp_all add: fs_put_def)
  show "fs_base (fs_put op s)"
    using assms(1) p(1) unfolding fs_base_def config_ok_def same_config_ok [OF c] same_config_fields [OF c] log has_flag_fields by simp
  show q: "fs_queue (fs_put op s) = fs_queue s @ [op]" by (rule p(2))
  show "0 < fs_count (fs_put op s)" using q fs_queue_Nil [of "fs_put op s"] by (auto simp: word_neq_0_conv)
qed

lemma enqueue_inv:
  assumes "cb_ok cb" and "fs_inv s" and "op_ok s op"
  shows "ok (fs_enqueue cb op s) (\<lambda>(r, t). fs_inv t)"
proof (cases "fs_count s = FS_QUEUE_SIZE s")
  case False
  have b: "fs_base s" using assms(2) by (simp add: fs_inv_def)
  note p = put_keeps [OF b False, of op]
  have ops: "\<forall>o' \<in> set (fs_queue (fs_put op s)). op_ok (fs_put op s) o'"
    using assms(2,3) unfolding p(2) same_config_ok [OF p(3)] by (auto simp: fs_inv_def)
  have "ok (queue_start cb (fs_put op s)) fs_inv"
  proof (cases "processing s \<or> req_pending s")
    case True
    then have "fs_inv (fs_put op s)" using p(1,4) ops by (simp add: fs_inv_def)
    then show ?thesis using True by (auto simp: queue_start_def)
  next
    case False
    let ?t = "set_flag FS_FLAG_PROCESSING (fs_put op s)"
    have q: "quiet_update (fs_put op s) ?t" by simp
    have "fs_base ?t" by (rule quiet_base [OF q p(1)]) (use p(1) False in \<open>auto simp: fs_base_def\<close>)
    then have "fs_inv ?t" using p(4) ops False by (simp add: fs_inv_def quiet_queue [OF q])
    then show ?thesis using process_ok [OF assms(1)] False by (simp add: queue_start_def)
  qed
  then show ?thesis using False by (simp add: fs_enqueue_def)
qed (use assms(2) in \<open>simp add: fs_enqueue_def\<close>)

lemma enqueue_busy:
  assumes "fs_busy s" and "op_ok s op"
  shows "ok (fs_enqueue cb op s) (\<lambda>(r, t). fs_busy t \<and> fs_more s t)"
proof (cases "fs_count s = FS_QUEUE_SIZE s")
  case False
  have b: "fs_base s" "processing s" "fs_queue s \<noteq> []" "\<forall>o' \<in> set (tl (fs_queue s)). op_ok s o'"
    using assms(1) by (auto simp: fs_busy_def)
  note p = put_keeps [OF b(1) False, of op]
  have "\<forall>o' \<in> set (tl (fs_queue (fs_put op s))). op_ok (fs_put op s) o'"
    using assms(2) b(3,4) unfolding p(2) same_config_ok [OF p(3)] by auto
  then have "fs_busy (fs_put op s)" using p b(2) by (simp add: fs_busy_def)
  moreover have "fs_more s (fs_put op s)" using p by (simp add: fs_more_def)
  ultimately show ?thesis using False b(2) by (simp add: fs_enqueue_def queue_start_def)
qed (use assms(1) in \<open>simp add: fs_enqueue_def\<close>)

lemma the_config_ok:
  assumes "fs_base s" and "check_config p s"
  shows "\<exists>i. p = Some i \<and> i < length (fs_data s) \<and> the_config p s = Inr (fs_data s ! i)"
  using assms by (auto simp: check_config_def fs_base_def the_config_def load_at_def split: option.splits)

lemma store_op_ok:
  assumes "p = Some i" and "i < length (fs_data s)" and "\<not> p_start_addr (fs_data s ! i) > dest"
    and "\<not> p_end_addr (fs_data s ! i) < dest + 4 * ucast n" and "n \<noteq> 0" and "unat dest + 4 * unat n < 2 ^ 32"
  shows "op_ok s (store_op_of p dest src n ctx)"
proof -
  have "unat (4 * ucast n :: u32) = 4 * unat n"
    using unsigned_less [of n, where 'a = nat] by (simp add: unat_word_ariths unat_ucast_u16)
  then have "unat (dest + 4 * ucast n) = unat dest + 4 * unat n" using assms(6) by (simp add: unat_word_ariths)
  then have "unat dest + 4 * unat n \<le> unat (p_end_addr (fs_data s ! i))" "unat (p_start_addr (fs_data s ! i)) \<le> unat dest"
    using assms(3,4) by (simp_all add: not_less word_le_nat_alt)
  then show ?thesis using assms(1,2,5) by (simp add: op_ok_def store_op_of_def fs_op_zero_def word_neq_0_conv)
qed

lemma erase_op_ok:
  assumes "fs_base s" and "p = Some i" and "i < length (fs_data s)" and "\<not> addr < p_start_addr (fs_data s ! i)"
    and "\<not> addr + 4 * (FS_PAGE_SIZE_WORDS s * ucast n) > p_end_addr (fs_data s ! i)" and "n \<noteq> 0"
    and "addr AND (FS_PAGE_SIZE s - 1) = 0" and "unat addr + unat (FS_PAGE_SIZE s) * unat n < 2 ^ 32"
  shows "op_ok s (erase_op_of p addr n ctx s)"
proof -
  let ?P = "unat (FS_PAGE_SIZE s)" and ?c = "fs_data s ! i"
  have size: "FS_PAGE_SIZE s = 1024 \<or> FS_PAGE_SIZE s = 4096" using assms(1) by (simp add: fs_base_def)
  then have P: "0 < ?P" by auto
  have "FS_PAGE_SIZE s - 1 = mask 10 \<and> ?P = 2 ^ 10 \<or> FS_PAGE_SIZE s - 1 = mask 12 \<and> ?P = 2 ^ 12"
    using size by (auto simp: mask_eq_exp_minus_1)
  then have "unat addr mod ?P = 0" using assms(7) unat_and_mask [of addr 10] unat_and_mask [of addr 12] by auto
  then have page: "unat addr = unat (addr div FS_PAGE_SIZE s) * ?P"
    by (metis add.right_neutral div_mult_mod_eq unat_div)
  have b: "unat (FS_PAGE_SIZE s) * unat n < 2 ^ 32" using assms(8) by simp
  have "unat (4 * (FS_PAGE_SIZE_WORDS s * ucast n)) = ?P * unat n"
    using size unsigned_less [of n, where 'a = nat]
    by (auto simp: FS_PAGE_SIZE_WORDS_def unat_word_ariths unat_ucast_u16)
  then have e: "unat (addr + 4 * (FS_PAGE_SIZE_WORDS s * ucast n)) = unat addr + ?P * unat n"
    using assms(8) by (simp add: unat_word_ariths)
  have bounds: "unat (p_start_addr ?c) \<le> unat addr" "unat addr + ?P * unat n \<le> unat (p_end_addr ?c)"
    using assms(4,5) e by (simp_all add: not_less word_le_nat_alt)
  have "config_ok s ?c" using assms(1,3) by (simp add: fs_base_def)
  then have "unat addr \<le> 65535 * ?P" using bounds(2) by (simp add: config_ok_def)
  then have "unat (addr div FS_PAGE_SIZE s) \<le> 65535" using page P by simp
  then have "unat (ucast (addr div FS_PAGE_SIZE s) :: u16) = unat (addr div FS_PAGE_SIZE s)"
    by (simp add: unsigned_ucast_eq take_bit_nat_eq_self)
  then show ?thesis
    using assms(2,3,6) bounds page
    by (simp add: op_ok_def erase_op_of_def fs_op_zero_def word_neq_0_conv algebra_simps)
qed

section \<open>Any order of calls and events\<close>

datatype fs_act =
    Act_Store "nat option" u32 u32 u16 nat
  | Act_Erase "nat option" u32 u16 nat
  | Act_Event sys_evt

definition fs_do :: "'m fs_cb \<Rightarrow> fs_act \<Rightarrow> 'm fs \<Rightarrow> 'm fs result" where
  "fs_do cb a s =
     (case a of
        Act_Store p dest src n ctx \<Rightarrow> then_do (fs_store cb p dest src n ctx s) (\<lambda>(r, t). Inr t)
      | Act_Erase p addr n ctx \<Rightarrow> then_do (fs_erase cb p addr n ctx s) (\<lambda>(r, t). Inr t)
      | Act_Event e \<Rightarrow> fs_sys_event_handler cb e s)"

text \<open>The end of the area is computed in 32 bits, so that the arguments must not reach beyond the address space.\<close>

fun act_ok :: "'m fs \<Rightarrow> fs_act \<Rightarrow> bool" where
  "act_ok s (Act_Store p dest src n ctx) = (unat dest + 4 * unat n < 2 ^ 32)"
| "act_ok s (Act_Erase p addr n ctx) = (unat addr + unat (FS_PAGE_SIZE s) * unat n < 2 ^ 32)"
| "act_ok s (Act_Event e) = True"

inductive fs_step :: "'m fs_cb \<Rightarrow> 'm fs \<Rightarrow> 'm fs \<Rightarrow> bool" for cb where
  "act_ok s a \<Longrightarrow> fs_do cb a s = Inr t \<Longrightarrow> fs_step cb s t"

lemma fs_call_ok:
  assumes "\<And>op. op_ok s op \<Longrightarrow> ok (fs_enqueue cb op s) (\<lambda>(r, t). P t)" and "P s" and "fs_base s" and "act_ok s a"
    and "\<And>e. a \<noteq> Act_Event e"
  shows "ok (fs_do cb a s) P"
proof (cases a)
  case (Act_Store p dest src n ctx)
  have r: "fs_ring s" using assms(3) by (simp add: fs_base_def)
  show ?thesis
  proof (cases "check_config p s")
    case True
    then obtain i where i: "p = Some i" "i < length (fs_data s)" "the_config p s = Inr (fs_data s ! i)"
      using the_config_ok assms(3) by blast
    then show ?thesis
      using assms(1) [OF store_op_ok [OF i(1,2), of dest n src ctx]] assms(2,4) Act_Store
      by (auto simp: fs_do_def fs_store_cases [OF r] case_prod_beta')
  qed (use assms(2) Act_Store in \<open>simp add: fs_do_def fs_store_cases [OF r]\<close>)
next
  case (Act_Erase p addr n ctx)
  have r: "fs_ring s" using assms(3) by (simp add: fs_base_def)
  show ?thesis
  proof (cases "check_config p s")
    case True
    then obtain i where i: "p = Some i" "i < length (fs_data s)" "the_config p s = Inr (fs_data s ! i)"
      using the_config_ok assms(3) by blast
    then show ?thesis
      using assms(1) [OF erase_op_ok [OF assms(3) i(1,2), of addr n ctx]] assms(2,4) Act_Erase
      by (auto simp: fs_do_def fs_erase_cases [OF r] case_prod_beta')
  qed (use assms(2) Act_Erase in \<open>simp add: fs_do_def fs_erase_cases [OF r]\<close>)
qed (use assms(5) in blast)

lemma fs_do_inv: "cb_ok cb \<Longrightarrow> fs_inv s \<Longrightarrow> act_ok s a \<Longrightarrow> ok (fs_do cb a s) fs_inv"
  using fs_call_ok [of s cb fs_inv a] enqueue_inv [of cb s] sys_event_ok [of cb s]
  by (cases a) (auto simp: fs_do_def fs_inv_def)

text \<open>A callback that makes calls itself is a callback of the kind that the invariant allows.\<close>

lemma calls_in_callback:
  assumes "fs_busy s" and "act_ok s a" and "\<And>e. a \<noteq> Act_Event e"
  shows "ok (fs_do cb a s) (\<lambda>t. fs_busy t \<and> fs_more s t)"
  by (rule fs_call_ok) (use assms enqueue_busy [OF assms(1)] in \<open>auto simp: fs_busy_def\<close>)

interpretation fsm: machine "\<lambda>s. fs_inv s \<and> fs_count s = 0 \<and> cb_ok cb" "fs_step cb" "\<lambda>s. fs_inv s \<and> cb_ok cb" for cb
proof (unfold_locales, goal_cases)
  case (2 s t)
  then show ?case using fs_do_inv [of cb s] by (auto elim!: fs_step.cases) fastforce
qed simp

text \<open>
  C32. From the initialised module with an empty queue, whatever SoftDevice events and whatever calls come in whatever order, with
  callbacks that call the module again and with any answers of the SoftDevice, as long as no call names an area whose end
  wraps around 2 ^ 32 (the code adds start and size in 32 bits and would let such a call pass its bounds check): no call and no event
  goes wrong, and the SoftDevice is asked to write and erase nothing outside the flash space of a registered configuration,
  and never more than the largest write at once.
\<close>

theorem fs_requests_in_space:
  assumes "fs_inv s" and "fs_count s = 0" and "cb_ok cb" and "(fs_step cb)\<^sup>*\<^sup>* s t" and "act_ok t a"
  shows "ok (fs_do cb a t) (\<lambda>u. \<forall>r \<in> set (sd_log u). \<exists>c \<in> set (fs_data u). in_space u c r)"
proof -
  have "fs_inv t" using fsm.reachable_inv [of s cb t] assms(1-4) by blast
  from fs_do_inv [OF assms(3) this assms(5)] show ?thesis
    by (rule ok_mono) (simp add: fs_inv_def fs_base_def request_ok_def)
qed

end
