(* ===== verification/FstorageStore.thy ===== *)
theory FstorageStore
  imports FstorageProps
begin

text \<open>A store operation from its call to its event: what is written, word by word, and when the application is told.\<close>

unbundle bit_operations_syntax

section \<open>Words\<close>

text \<open>The words that a request writes, as pairs of destination and source.\<close>

fun words_of :: "flash_request \<Rightarrow> (u32 \<times> u32) list" where
  "words_of (Flash_Write d src n) = map (\<lambda>i. (d + 4 * of_nat i, src + 4 * of_nat i)) [0..<unat n]"
| "words_of (Page_Erase p) = []"

definition word_pair :: "fs_op_t \<Rightarrow> nat \<Rightarrow> u32 \<times> u32" where
  "word_pair op i = (st_p_dest op + 4 * of_nat i, st_p_src op + 4 * of_nat i)"

lemma ucast_of_nat_u16: "n < 2 ^ 16 \<Longrightarrow> (ucast (of_nat n :: u16) :: u32) = of_nat n"
  by (simp add: word_unat_eq_iff unat_ucast_u16 unsigned_of_nat take_bit_nat_eq_self)

lemma words_of_chunk:
  assumes "j + m < 2 ^ 16"
  shows "words_of (Flash_Write (d + 4 * ucast (of_nat j :: u16)) (src + 4 * ucast (of_nat j :: u16)) (of_nat m)) =
    map (\<lambda>i. (d + 4 * of_nat i, src + 4 * of_nat i)) [j..<j + m]"
proof -
  have "unat (of_nat m :: u16) = m" using assms by (simp add: unsigned_of_nat take_bit_nat_eq_self)
  moreover have "(ucast (of_nat j :: u16) :: u32) = of_nat j" using assms by (simp add: ucast_of_nat_u16)
  moreover have "[j..<j + m] = map (\<lambda>i. i + j) [0..<m]" by (simp add: map_add_upt add.commute)
  ultimately show ?thesis by (simp add: algebra_simps)
qed

section \<open>Progress of a store\<close>

abbreviation max_words :: "'m fs \<Rightarrow> nat" where "max_words s \<equiv> unat (FS_MAX_WRITE_SIZE_WORDS s)"

text \<open>The words before \<open>j\<close> are written and the next piece has been asked for.\<close>

definition writing :: "'m fs \<Rightarrow> fs_op_t \<Rightarrow> nat \<Rightarrow> 'm fs \<Rightarrow> bool" where
  "writing s0 op j s \<longleftrightarrow> fs_ring s \<and> processing s \<and> j < unat (st_length_words op) \<and> op_op_code op = FS_OP_STORE \<and>
     fs_queue s = [op\<lparr>st_offset := of_nat j\<rparr>] \<and> (\<forall>k \<ge> sd_n s. sd_answers s k = NRF_SUCCESS) \<and>
     fs_data s = fs_data s0 \<and> FS_MAX_WRITE_SIZE_WORDS s = FS_MAX_WRITE_SIZE_WORDS s0 \<and>
     (\<exists>rs. sd_log s = sd_log s0 @ rs \<and>
       concat (map words_of rs) = map (word_pair op) [0..<min (unat (st_length_words op)) (j + max_words s0)])"

lemma chunk_at:
  assumes "j < unat (st_length_words op)"
  shows "chunk_len (op\<lparr>st_offset := of_nat j\<rparr>) s = of_nat (min (max_words s) (unat (st_length_words op) - j))"
proof -
  have j: "unat (of_nat j :: u16) = j"
    using assms unsigned_less [of "st_length_words op", where 'a = nat] by (simp add: unsigned_of_nat take_bit_nat_eq_self)
  then have u: "uint (of_nat j :: u16) = int j" by (simp add: uint_nat)
  have "st_length_words op - of_nat j = (of_nat (unat (st_length_words op) - j) :: u16)"
    using assms by (simp add: of_nat_diff)
  moreover have "uint (st_length_words op) - uint (of_nat j :: u16) < uint (FS_MAX_WRITE_SIZE_WORDS s) \<longleftrightarrow>
      unat (st_length_words op) - j < max_words s"
    using assms unfolding uint_nat j by (intro iffI) linarith+
  ultimately show ?thesis by (auto simp: chunk_len_def min_def)
qed

text \<open>Handing the next piece to the SoftDevice.\<close>

lemma process_writing:
  assumes "fs_ring s" and "processing s" and "fs_queue s = [op\<lparr>st_offset := of_nat j\<rparr>]" and "op_op_code op = FS_OP_STORE"
    and "j < unat (st_length_words op)" and "\<forall>k \<ge> sd_n s. sd_answers s k = NRF_SUCCESS"
    and "fs_data s = fs_data s0" and "FS_MAX_WRITE_SIZE_WORDS s = FS_MAX_WRITE_SIZE_WORDS s0"
    and "sd_log s = sd_log s0 @ rs" and "concat (map words_of rs) = map (word_pair op) [0..<j]"
  shows "ok (queue_process cb s) (writing s0 op j)"
proof -
  let ?op = "op\<lparr>st_offset := of_nat j\<rparr>" and ?N = "unat (st_length_words op)"
  let ?m = "min (max_words s) (?N - j)"
  let ?r = "Flash_Write (st_p_dest op + 4 * ucast (of_nat j :: u16)) (st_p_src op + 4 * ucast (of_nat j :: u16)) (of_nat ?m)"
  have c: "0 < fs_count s" using assms(3) fs_queue_Nil [of s] by (auto simp: word_neq_0_conv)
  have run: "queue_process cb s = Inr (s\<lparr>sd_n := Suc (sd_n s), sd_log := sd_log s @ [?r]\<rparr>)" (is "_ = Inr ?t")
    using c fs_head [OF assms(1) c] assms(3,4,6) chunk_at [OF assms(5), of s]
    by (simp add: queue_process_def store_execute_def sd_request_def)
  have q: "quiet_update s ?t" by simp
  have "j + ?m < 2 ^ 16" using unsigned_less [of "st_length_words op", where 'a = nat] assms(5) by simp
  then have "words_of ?r = map (word_pair op) [j..<j + ?m]" using words_of_chunk [of j ?m] by (simp add: word_pair_def)
  moreover have "[0..<j] @ [j..<j + ?m] = [0..<j + ?m]" using upt_add_eq_append [of 0 j ?m] by simp
  moreover have "concat (map words_of (rs @ [?r])) = concat (map words_of rs) @ words_of ?r" by (simp del: words_of.simps)
  ultimately have "concat (map words_of (rs @ [?r])) = map (word_pair op) [0..<j + ?m]"
    unfolding assms(10) by (metis map_append)
  moreover have "j + ?m = min ?N (j + max_words s0)" using assms(5,8) by simp
  ultimately have "\<exists>rs'. sd_log ?t = sd_log s0 @ rs' \<and> concat (map words_of rs') = map (word_pair op) [0..<min ?N (j + max_words s0)]"
    using assms(9) by (intro exI [of _ "rs @ [?r]"]) (simp del: concat_append map_append)
  then show ?thesis
    unfolding run ok_Inr writing_def quiet_queue [OF q]
    using assms(1-8) by simp
qed

text \<open>A piece that is not the last.\<close>

lemma writing_step:
  assumes "writing s0 op j s" and "j + max_words s0 < unat (st_length_words op)"
  shows "ok (fs_sys_event_handler cb NRF_EVT_FLASH_OPERATION_SUCCESS s) (writing s0 op (j + max_words s0))"
proof -
  note w = assms(1) [unfolded writing_def]
  define M where "M = max_words s0"
  let ?op = "op\<lparr>st_offset := of_nat j\<rparr>" and ?op1 = "op\<lparr>st_offset := of_nat (j + M)\<rparr>" and ?N = "unat (st_length_words op)"
  define s1 where "s1 = upd_op (unat (fs_rp s)) ?op1 (s\<lparr>fs_retry_count := 0\<rparr>)"
  have c: "0 < fs_count s" using w fs_queue_Nil [of s] by (auto simp: word_neq_0_conv)
  have q: "quiet_update s (s\<lparr>fs_retry_count := 0\<rparr>)" by simp
  have h: "fs_ring s1" "fs_queue s1 = [?op1]"
    using fs_set_head [of "s\<lparr>fs_retry_count := 0\<rparr>" ?op1] w c quiet_queue [OF q] by (simp_all add: s1_def)
  have chunk: "chunk_len ?op (s\<lparr>fs_retry_count := 0\<rparr>) = of_nat M"
    using chunk_at [of j op "s\<lparr>fs_retry_count := 0\<rparr>"] w assms(2) by (simp add: M_def)
  have "unat (of_nat (j + M) :: u16) = j + M"
    using assms(2) unsigned_less [of "st_length_words op", where 'a = nat]
    by (simp add: unsigned_of_nat take_bit_nat_eq_self M_def del: of_nat_add)
  then have "of_nat (j + M) \<noteq> st_length_words op" using assms(2) M_def by (metis less_irrefl)
  then have "on_operation_success cb (unat (fs_rp s)) s = Inr s1"
    using w c fs_head [of s] chunk by (simp add: on_operation_success_def Let_def s1_def)
  then have run: "fs_sys_event_handler cb NRF_EVT_FLASH_OPERATION_SUCCESS s = queue_process cb s1"
    using w by (simp add: fs_sys_event_handler_def Let_def)
  obtain rs where rs: "sd_log s = sd_log s0 @ rs" "concat (map words_of rs) = map (word_pair op) [0..<j + M]"
    using w assms(2) by (auto simp: M_def min_def)
  have f: "sd_n s1 = sd_n s" "sd_answers s1 = sd_answers s" "fs_data s1 = fs_data s" "sd_log s1 = sd_log s"
    "FS_MAX_WRITE_SIZE_WORDS s1 = FS_MAX_WRITE_SIZE_WORDS s" "processing s1 = processing s"
    by (simp_all add: s1_def, simp_all add: upd_op_def)
  show ?thesis unfolding run M_def [symmetric]
    by (rule process_writing [where rs = rs]) (use w h rs f assms(2) in \<open>auto simp: M_def\<close>)
qed

text \<open>The last piece: the application is told, and only then the operation leaves the queue.\<close>

definition store_evt :: "fs_op_t \<Rightarrow> fs_evt_t" where
  "store_evt op = \<lparr>evt_id = FS_EVT_STORE, evt_p_context = op_p_context op, evt_p_data = st_p_dest op,
     evt_length_words = st_length_words op, evt_first_page = 0, evt_last_page = 0\<rparr>"

lemma writing_done:
  assumes "writing s0 op j s" and "unat (st_length_words op) \<le> j + max_words s0"
    and "the_config (op_p_config op) s0 = Inr c" and "fs_callback c = Some f"
  shows "\<exists>u. sd_log u = sd_log s \<and> fs_sys_event_handler cb NRF_EVT_FLASH_OPERATION_SUCCESS s =
    then_do (cb f (store_evt op) FS_SUCCESS u) (\<lambda>t. queue_process cb (queue_advance t))"
proof -
  note w = assms(1) [unfolded writing_def]
  let ?op = "op\<lparr>st_offset := of_nat j\<rparr>" and ?op1 = "op\<lparr>st_offset := st_length_words op\<rparr>" and ?N = "unat (st_length_words op)"
  define u where "u = upd_op (unat (fs_rp s)) ?op1 (s\<lparr>fs_retry_count := 0\<rparr>)"
  have c: "0 < fs_count s" using w fs_queue_Nil [of s] by (auto simp: word_neq_0_conv)
  have "?N - j \<le> max_words (s\<lparr>fs_retry_count := 0\<rparr>)" using w assms(2) by simp
  then have "min (max_words (s\<lparr>fs_retry_count := 0\<rparr>)) (?N - j) = ?N - j" by (rule min_absorb2)
  then have "chunk_len ?op (s\<lparr>fs_retry_count := 0\<rparr>) = of_nat (?N - j)"
    using chunk_at [of j op "s\<lparr>fs_retry_count := 0\<rparr>"] w by simp
  then have last: "of_nat j + chunk_len ?op (s\<lparr>fs_retry_count := 0\<rparr>) = st_length_words op"
    using w by (simp add: of_nat_diff)
  have load: "load_at (fs_op s) (unat (fs_rp s)) = Inr ?op" using w c fs_head [of s] by simp
  have "the_config (op_p_config op) u = Inr c"
    using assms(3) w by (simp add: u_def upd_op_def the_config_def split: option.splits)
  then have "send_event cb ?op1 FS_SUCCESS u = cb f (store_evt op) FS_SUCCESS u"
    using w assms(4) by (simp add: send_event_def store_evt_def)
  then have "on_operation_success cb (unat (fs_rp s)) s = then_do (cb f (store_evt op) FS_SUCCESS u) (\<lambda>t. Inr (queue_advance t))"
    using w load last by (simp add: on_operation_success_def Let_def u_def)
  then have "fs_sys_event_handler cb NRF_EVT_FLASH_OPERATION_SUCCESS s =
      then_do (cb f (store_evt op) FS_SUCCESS u) (\<lambda>t. queue_process cb (queue_advance t))"
    using w by (simp add: fs_sys_event_handler_def Let_def then_do_def split: sum.split)
  moreover have "sd_log u = sd_log s" by (simp add: u_def upd_op_def)
  ultimately show ?thesis by blast
qed

section \<open>The whole store\<close>

fun fs_successes :: "'m fs_cb \<Rightarrow> nat \<Rightarrow> 'm fs \<Rightarrow> 'm fs result" where
  "fs_successes cb 0 s = Inr s"
| "fs_successes cb (Suc k) s = then_do (fs_sys_event_handler cb NRF_EVT_FLASH_OPERATION_SUCCESS s) (fs_successes cb k)"

lemma writing_steps:
  "writing s0 op j s \<Longrightarrow> j + k * max_words s0 < unat (st_length_words op) \<Longrightarrow>
   ok (fs_successes cb k s) (writing s0 op (j + k * max_words s0))"
proof (induction k arbitrary: j s)
  case (Suc k)
  have "j + max_words s0 < unat (st_length_words op)" using Suc.prems(2) by simp
  then have "ok (fs_sys_event_handler cb NRF_EVT_FLASH_OPERATION_SUCCESS s) (writing s0 op (j + max_words s0))"
    by (rule writing_step [OF Suc.prems(1)])
  then show ?case
    using Suc.IH [of "j + max_words s0"] Suc.prems(2) by (auto simp: add.assoc intro: ok_then_doI elim!: ok_mono)
qed simp

lemma store_starts:
  assumes "fs_base s" and "fs_count s = 0" and "\<not> processing s" and "\<not> req_pending s" and "0 < FS_QUEUE_SIZE s"
    and "\<forall>k \<ge> sd_n s. sd_answers s k = NRF_SUCCESS" and "op_op_code op = FS_OP_STORE" and "st_offset op = 0"
    and "st_length_words op \<noteq> 0"
  shows "ok (fs_enqueue cb op s) (\<lambda>(r, t). r = FS_SUCCESS \<and> writing s op 0 t)"
proof -
  let ?t = "set_flag FS_FLAG_PROCESSING (fs_put op s)"
  have n: "fs_count s \<noteq> FS_QUEUE_SIZE s" using assms(2,5) by auto
  have e: "fs_queue s = []" using assms(2) by simp
  note p = put_keeps [OF assms(1) n, of op, unfolded e append_Nil]
  have q: "quiet_update (fs_put op s) ?t" by simp
  have "ok (queue_process cb ?t) (writing s op 0)"
  proof (rule process_writing [where rs = "[]"])
    show "fs_ring ?t" using p(1) quiet_queue [OF q] by (simp add: fs_base_def)
    show "fs_queue ?t = [op\<lparr>st_offset := of_nat 0\<rparr>]" using p(2) assms(8) quiet_queue [OF q] by simp
    show "0 < unat (st_length_words op)" using assms(9) by (simp add: unat_gt_0)
  qed (use assms(6,7) in \<open>simp_all add: set_flag_def fs_put_def has_flag_def FS_FLAG_PROCESSING_def\<close>)
  then show ?thesis using n assms(3,4) by (simp add: fs_enqueue_def queue_start_def)
qed

text \<open>
  C33. A store that an idle module accepts is written word by word, in order, each word once and from the right source, in pieces of at most
  the largest write; after exactly as many success events of the SoftDevice as there are pieces the application gets one
  event with what it asked for, and nothing else is written meanwhile.
\<close>

theorem fs_store_writes_all:
  assumes "fs_inv s" and "fs_count s = 0" and "has_flag FS_FLAG_INITIALIZED s" and "0 < FS_QUEUE_SIZE s"
    and "\<forall>k \<ge> sd_n s. sd_answers s k = NRF_SUCCESS" and "i < length (fs_data s)" and "fs_callback (fs_data s ! i) = Some f"
    and "src \<noteq> 0" and "dest \<noteq> 0" and "src AND 0x03 = 0" and "dest AND 0x03 = 0" and "n \<noteq> 0"
    and "p_start_addr (fs_data s ! i) \<le> dest" and "unat dest + 4 * unat n \<le> unat (p_end_addr (fs_data s ! i))"
  shows "ok (fs_store cb (Some i) dest src n ctx s) (\<lambda>(r, s1). r = FS_SUCCESS \<and>
    ok (fs_successes cb ((unat n - 1) div unat (FS_MAX_WRITE_SIZE_WORDS s)) s1) (\<lambda>s2.
      \<exists>rs u. sd_log s2 = sd_log s @ rs \<and> sd_log u = sd_log s2 \<and>
        concat (map words_of rs) = map (\<lambda>k. (dest + 4 * of_nat k, src + 4 * of_nat k)) [0..<unat n] \<and>
        fs_sys_event_handler cb NRF_EVT_FLASH_OPERATION_SUCCESS s2 =
          then_do (cb f \<lparr>evt_id = FS_EVT_STORE, evt_p_context = ctx, evt_p_data = dest, evt_length_words = n,
              evt_first_page = 0, evt_last_page = 0\<rparr> FS_SUCCESS u)
            (\<lambda>t. queue_process cb (queue_advance t))))"
proof -
  let ?op = "store_op_of (Some i) dest src n ctx" and ?M = "max_words s" and ?N = "unat n"
  let ?k = "(?N - 1) div ?M"
  have op: "op_op_code ?op = FS_OP_STORE" "st_offset ?op = 0" "st_length_words ?op = n" "op_p_config ?op = Some i"
      "store_evt ?op = \<lparr>evt_id = FS_EVT_STORE, evt_p_context = ctx, evt_p_data = dest, evt_length_words = n,
         evt_first_page = 0, evt_last_page = 0\<rparr>" "word_pair ?op = (\<lambda>k. (dest + 4 * of_nat k, src + 4 * of_nat k))"
    by (simp_all add: store_op_of_def fs_op_zero_def store_evt_def word_pair_def fun_eq_iff)
  have b: "fs_base s" "\<not> processing s" "\<not> req_pending s" "fs_ring s" "0 < ?M"
    using assms(1,2) by (auto simp: fs_inv_def fs_base_def unat_gt_0 word_neq_0_conv)
  have c: "check_config (Some i) s" "the_config (Some i) s = Inr (fs_data s ! i)"
    using assms(6) by (simp_all add: check_config_def the_config_def load_at_def)
  have "unat (4 * ucast n :: u32) = 4 * ?N"
    using unsigned_less [of n, where 'a = nat] by (simp add: unat_word_ariths unat_ucast_u16)
  then have "unat (dest + 4 * ucast n) = unat dest + 4 * ?N"
    using assms(14) unsigned_less [of "p_end_addr (fs_data s ! i)", where 'a = nat] by (simp add: unat_word_ariths)
  then have "\<not> p_end_addr (fs_data s ! i) < dest + 4 * ucast n" using assms(14) by (simp add: word_less_nat_alt)
  then have store: "fs_store cb (Some i) dest src n ctx s = fs_enqueue cb ?op s"
    using fs_store_cases [OF b(4), of cb "Some i" dest src n ctx] assms(3,8-13) c by (auto dest: leD)
  have N: "0 < ?N" using assms(12) by (simp add: unat_gt_0)
  have k: "?k * ?M < ?N" "?N \<le> ?k * ?M + ?M"
  proof -
    have "?N - 1 = ?k * ?M + (?N - 1) mod ?M" "(?N - 1) mod ?M < ?M" using b(5) by simp_all
    then show "?k * ?M < ?N" "?N \<le> ?k * ?M + ?M" using N by linarith+
  qed
  have final: "\<exists>rs u. sd_log s2 = sd_log s @ rs \<and> sd_log u = sd_log s2 \<and> concat (map words_of rs) = map (word_pair ?op) [0..<?N] \<and>
      fs_sys_event_handler cb NRF_EVT_FLASH_OPERATION_SUCCESS s2 =
        then_do (cb f (store_evt ?op) FS_SUCCESS u) (\<lambda>t. queue_process cb (queue_advance t))"
    if w: "writing s ?op (?k * ?M) s2" for s2
  proof -
    obtain rs where "sd_log s2 = sd_log s @ rs" "concat (map words_of rs) = map (word_pair ?op) [0..<?N]"
      using w k(2) unfolding writing_def op(3) by (auto simp: min_absorb1)
    moreover obtain u where "sd_log u = sd_log s2" "fs_sys_event_handler cb NRF_EVT_FLASH_OPERATION_SUCCESS s2 =
        then_do (cb f (store_evt ?op) FS_SUCCESS u) (\<lambda>t. queue_process cb (queue_advance t))"
      using writing_done [OF w, of "fs_data s ! i" f cb] k(2) c(2) assms(7) op by auto
    ultimately show ?thesis by blast
  qed
  show ?thesis unfolding store
  proof (rule ok_mono [OF store_starts [OF b(1) assms(2) b(2,3) assms(4,5) op(1,2)]])
    fix x assume x: "case x of (r, t) \<Rightarrow> r = FS_SUCCESS \<and> writing s ?op 0 t"
    obtain s1 where s1: "x = (FS_SUCCESS, s1)" "writing s ?op 0 s1" using x by (cases x) auto
    have "ok (fs_successes cb ?k s1) (writing s ?op (?k * ?M))"
      using writing_steps [OF s1(2), of ?k] k(1) op(3) by simp
    note steps = ok_mono [OF this final]
    show "case x of (r, s1) \<Rightarrow> r = FS_SUCCESS \<and> ok (fs_successes cb ?k s1) (\<lambda>s2.
        \<exists>rs u. sd_log s2 = sd_log s @ rs \<and> sd_log u = sd_log s2 \<and>
          concat (map words_of rs) = map (\<lambda>k. (dest + 4 * of_nat k, src + 4 * of_nat k)) [0..<?N] \<and>
          fs_sys_event_handler cb NRF_EVT_FLASH_OPERATION_SUCCESS s2 =
            then_do (cb f \<lparr>evt_id = FS_EVT_STORE, evt_p_context = ctx, evt_p_data = dest, evt_length_words = n,
                evt_first_page = 0, evt_last_page = 0\<rparr> FS_SUCCESS u)
              (\<lambda>t. queue_process cb (queue_advance t)))"
      unfolding s1(1) prod.case op(5,6) [symmetric] by (intro conjI refl steps)
  qed (use assms(12) op in simp)
qed

end
