(* ===== verification/FstorageInit.thy ===== *)
theory FstorageInit
  imports FstorageStore
begin

text \<open>
  What an error of the SoftDevice does to the queue, how \<open>fs_init\<close> divides the flash among the registered configurations, and sample
  states.
\<close>

unbundle bit_operations_syntax

section \<open>An error of the SoftDevice\<close>

fun fs_run :: "'m fs_cb \<Rightarrow> fs_act list \<Rightarrow> 'm fs \<Rightarrow> 'm fs result" where
  "fs_run cb [] s = Inr s"
| "fs_run cb (a # as) s = then_do (fs_do cb a s) (fs_run cb as)"

lemma enqueue_processing:
  "processing s \<Longrightarrow> fs_enqueue cb op s = Inr (if fs_count s = FS_QUEUE_SIZE s then (FS_ERR_QUEUE_FULL, s) else (FS_SUCCESS, fs_put op s))"
  by (simp add: fs_enqueue_def queue_start_def)

lemma calls_only_queue:
  assumes "fs_busy s" and "\<forall>a \<in> set as. act_ok s a \<and> (\<forall>e. a \<noteq> Act_Event e)"
  shows "ok (fs_run cb as s) (\<lambda>u. fs_busy u \<and> fs_more s u \<and> sd_log u = sd_log s \<and> fstorage.more u = fstorage.more s)"
  using assms
proof (induction as arbitrary: s)
  case (Cons a as)
  have one: "ok (fs_do cb a s) (\<lambda>t. (fs_busy t \<and> fs_more s t) \<and> sd_log t = sd_log s \<and> fstorage.more t = fstorage.more s)"
  proof (subst ok_conj, intro conjI)
    show "ok (fs_do cb a s) (\<lambda>t. fs_busy t \<and> fs_more s t)" by (rule calls_in_callback) (use Cons.prems in auto)
    have "processing s" "fs_base s" using Cons.prems(1) by (simp_all add: fs_busy_def)
    then show "ok (fs_do cb a s) (\<lambda>t. sd_log t = sd_log s \<and> fstorage.more t = fstorage.more s)"
      by (intro fs_call_ok) (use Cons.prems(2) in \<open>auto simp: enqueue_processing fs_put_def\<close>)
  qed
  then obtain t where t: "fs_do cb a s = Inr t" "fs_busy t" "fs_more s t" "sd_log t = sd_log s" "fstorage.more t = fstorage.more s" unfolding ok_iff by blast
  have "FS_PAGE_SIZE t = FS_PAGE_SIZE s" using t(3) by (simp add: fs_more_def same_config_def)
  then have "act_ok t a' = act_ok s a'" for a' by (cases a') simp_all
  then have "ok (fs_run cb as t) (\<lambda>u. fs_busy u \<and> fs_more t u \<and> sd_log u = sd_log t \<and> fstorage.more u = fstorage.more t)"
    using Cons.IH [OF t(2)] Cons.prems(2) by simp
  then show ?case
    using t by (auto simp: fs_more_def elim!: ok_mono intro: same_config_trans)
qed simp

text \<open>The application notes the events it gets: the handler, the event and the result.\<close>

record fs_app = fstorage +
  app_events :: "(nat \<times> fs_evt_t \<times> fs_ret_t) list"

definition note_event :: "nat \<Rightarrow> fs_evt_t \<Rightarrow> fs_ret_t \<Rightarrow> fs_app \<Rightarrow> fs_app result" where
  "note_event f e r s = Inr (s\<lparr>app_events := app_events s @ [(f, e, r)]\<rparr>)"

text \<open>A call is refused, or it appends an operation while there is room; nothing reaches the SoftDevice.\<close>

definition only_queued :: "'m fs \<Rightarrow> fs_ret_t \<times> 'm fs \<Rightarrow> bool" where
  "only_queued s x \<longleftrightarrow> (case x of (r, t) \<Rightarrow> sd_log t = sd_log s \<and> (fs_count s = FS_QUEUE_SIZE s \<longrightarrow> r \<noteq> FS_SUCCESS) \<and>
     (if r = FS_SUCCESS then \<exists>op. fs_queue t = fs_queue s @ [op] else t = s))"

lemma calls_only_queued:
  assumes "fs_busy s"
  shows "ok (fs_store cb p dest src n ctx s) (only_queued s)" "ok (fs_erase cb p addr m ctx s) (only_queued s)"
proof -
  have b: "fs_base s" "processing s" "fs_ring s" using assms by (simp_all add: fs_busy_def fs_base_def)
  have e: "ok (fs_enqueue cb op s) (only_queued s)" for op
    using put_keeps(2) [OF b(1), of op] by (auto simp: enqueue_processing [OF b(2)] only_queued_def fs_put_def [of op s])
  show "ok (fs_store cb p dest src n ctx s) (only_queued s)"
    using the_config_ok [OF b(1), of p] e by (auto simp: fs_store_cases [OF b(3)] only_queued_def)
  show "ok (fs_erase cb p addr m ctx s) (only_queued s)"
    using the_config_ok [OF b(1), of p] e by (auto simp: fs_erase_cases [OF b(3)] only_queued_def)
qed

lemma quiet_app_events: "quiet_update s (s\<lparr>app_events := x\<rparr>)"
  by (simp add: quiet_update_def same_config_def has_flag_def)

lemma note_event_cb: "cb_ok note_event"
  unfolding cb_ok_def note_event_def ok_Inr
proof (intro allI impI conjI)
  fix f :: nat and e r and s :: fs_app
  let ?t = "s\<lparr>app_events := app_events s @ [(f, e, r)]\<rparr>"
  assume busy: "fs_busy s"
  note q = quiet_queue [OF quiet_app_events [of s "app_events s @ [(f, e, r)]"]]
  have "fs_base ?t"
    by (rule quiet_base [OF quiet_app_events]) (use busy in \<open>auto simp: fs_busy_def fs_base_def has_flag_def\<close>)
  then show "fs_busy ?t" using busy by (simp add: fs_busy_def q has_flag_def)
  show "fs_more s ?t" by (simp add: fs_more_def q)
qed

lemma app_events_more: "fstorage.more s = fstorage.more t \<Longrightarrow> app_events s = app_events t"
  by (cases s; cases t) simp

text \<open>
  C35. When the SoftDevice refuses the request of the first store on an idle module with an error other than busy, \<open>fs_store\<close> succeeds
  and the application gets the event of that store with \<open>FS_ERR_INTERNAL\<close>, but the operation stays at the head of the queue and
  the module believes that it is being processed: after any further calls (naming areas that do not wrap around) no more events have come and
  nothing more has been asked of the SoftDevice, and each call that follows is refused without effect or, while there is room, queued as well.
  (Only an event that reaches \<open>fs_sys_event_handler\<close> makes the module ask again.)
\<close>

theorem fs_stalls_after_error:
  assumes "fs_inv s" and "fs_count s = 0" and "has_flag FS_FLAG_INITIALIZED s" and "0 < FS_QUEUE_SIZE s"
    and "sd_answers s (sd_n s) \<noteq> NRF_SUCCESS" and "sd_answers s (sd_n s) \<noteq> NRF_ERROR_BUSY" and "i < length (fs_data s)"
    and "src \<noteq> 0" and "dest \<noteq> 0" and "src AND 0x03 = 0" and "dest AND 0x03 = 0" and "n \<noteq> 0"
    and "p_start_addr (fs_data s ! i) \<le> dest" and "unat dest + 4 * unat n \<le> unat (p_end_addr (fs_data s ! i))"
    and "\<forall>a \<in> set as. act_ok s a \<and> (\<forall>e. a \<noteq> Act_Event e)" and "fs_callback (fs_data s ! i) = Some f"
  shows "ok (fs_store note_event (Some i) dest src n ctx s) (\<lambda>(r, t). r = FS_SUCCESS \<and> length (sd_log t) = Suc (length (sd_log s)) \<and>
    app_events t = app_events s @ [(f, \<lparr>evt_id = FS_EVT_STORE, evt_p_context = ctx, evt_p_data = dest, evt_length_words = n,
      evt_first_page = 0, evt_last_page = 0\<rparr>, FS_ERR_INTERNAL)] \<and>
    ok (fs_run note_event as t) (\<lambda>u. sd_log u = sd_log t \<and> app_events u = app_events t \<and> processing u \<and>
      hd (fs_queue u) = store_op_of (Some i) dest src n ctx \<and>
      (\<forall>p d sr m c. ok (fs_store note_event p d sr m c u) (only_queued u)) \<and>
      (\<forall>p a m c. ok (fs_erase note_event p a m c u) (only_queued u))))"
proof -
  let ?cb = note_event and ?op = "store_op_of (Some i) dest src n ctx"
  have b: "fs_base s" "\<not> processing s" "\<not> req_pending s" "fs_ring s"
    using assms(1,2) by (auto simp: fs_inv_def fs_base_def)
  have nw: "unat dest + 4 * unat n < 2 ^ 32"
    using assms(14) unsigned_less [of "p_end_addr (fs_data s ! i)", where 'a = nat] by simp
  have c: "check_config (Some i) s" "the_config (Some i) s = Inr (fs_data s ! i)"
    using assms(7) by (simp_all add: check_config_def the_config_def load_at_def)
  have "unat (4 * ucast n :: u32) = 4 * unat n"
    using unsigned_less [of n, where 'a = nat] by (simp add: unat_word_ariths unat_ucast_u16)
  then have "unat (dest + 4 * ucast n) = unat dest + 4 * unat n" using nw by (simp add: unat_word_ariths)
  then have le: "\<not> p_end_addr (fs_data s ! i) < dest + 4 * ucast n" using assms(14) by (simp add: word_less_nat_alt)
  then have store: "fs_store ?cb (Some i) dest src n ctx s = fs_enqueue ?cb ?op s"
    using fs_store_cases [OF b(4), of ?cb "Some i" dest src n ctx] assms(3,8-13) c by (auto dest: leD)
  have op: "op_ok s ?op" by (rule store_op_ok) (use assms(7,12,13) le nw in \<open>auto dest: leD\<close>)
  have full: "fs_count s \<noteq> FS_QUEUE_SIZE s" and e: "fs_queue s = []" using assms(2,4) by auto
  define t where "t = set_flag FS_FLAG_PROCESSING (fs_put ?op s)"
  have q: "quiet_update (fs_put ?op s) t" by (simp add: t_def)
  note p = put_keeps [OF b(1) full, of ?op, unfolded e append_Nil]
  have ring: "fs_ring (fs_put ?op s)" using p(1) by (simp add: fs_base_def)
  have fields: "sd_n t = sd_n s" "sd_answers t = sd_answers s" "sd_log t = sd_log s" "fs_data t = fs_data s"
    by (simp_all add: t_def set_flag_def fs_put_def)
  have t: "fs_ring t" "fs_queue t = [?op]" "0 < fs_count t" "processing t"
    unfolding quiet_queue [OF q] by (rule ring, rule p(2), rule p(4), simp add: t_def)
  note t = t(1-3) fields(1-3) t(4) fields(4) same_config_trans [OF p(3) quiet_queue(4) [OF q]]
  define req where "req = Flash_Write (st_p_dest ?op + 4 * ucast (st_offset ?op)) (st_p_src ?op + 4 * ucast (st_offset ?op)) (chunk_len ?op t)"
  have code: "op_op_code ?op = FS_OP_STORE" "op_p_config ?op = Some i" by (simp_all add: store_op_of_def)
  define w where "w = snd (sd_request req t)"
  define v where "v = w\<lparr>app_events := app_events w @ [(f, \<lparr>evt_id = FS_EVT_STORE, evt_p_context = ctx, evt_p_data = dest,
    evt_length_words = n, evt_first_page = 0, evt_last_page = 0\<rparr>, FS_ERR_INTERNAL)]\<rparr>"
  have w: "fs_data w = fs_data s" "sd_log w = sd_log s @ [req]" "app_events w = app_events s"
    using t by (simp_all add: w_def sd_request_def t_def set_flag_def fs_put_def)
  have v: "sd_log v = sd_log s @ [req]" using w by (simp add: v_def)
  have "send_event ?cb ?op FS_ERR_INTERNAL w = Inr v"
    using code assms(7,16) w(1)
    by (simp add: send_event_def the_config_def load_at_def note_event_def v_def store_op_of_def fs_op_zero_def)
  then have run: "queue_process ?cb t = Inr v"
    using fs_head [OF t(1,3)] t(2-5) assms(5,6) code
    by (simp add: queue_process_def store_execute_def sd_request_def req_def w_def)
  then have run': "fs_store ?cb (Some i) dest src n ctx s = Inr (FS_SUCCESS, v)"
    using full b(2,3) by (simp add: store fs_enqueue_def queue_start_def t_def)
  have qv: "quiet_update t v" by (simp add: v_def w_def sd_request_def quiet_update_def same_config_def has_flag_def)
  have "ok (fs_enqueue ?cb ?op s) (\<lambda>(r, u). fs_inv u)"
    by (rule enqueue_inv [OF note_event_cb assms(1) op])
  then have "fs_inv v" using run' store by simp
  moreover have "processing v" using t(7) by (simp add: v_def w_def sd_request_def has_flag_def)
  ultimately have busy: "fs_busy v" by (rule inv_to_busy)
  have "same_config s v" using same_config_trans [OF t(9) quiet_queue(4) [OF qv]] .
  then have "FS_PAGE_SIZE v = FS_PAGE_SIZE s" by (simp add: same_config_def)
  then have "act_ok v a = act_ok s a" for a by (cases a) simp_all
  then have "ok (fs_run ?cb as v) (\<lambda>u. fs_busy u \<and> fs_more v u \<and> sd_log u = sd_log v \<and> fstorage.more u = fstorage.more v)"
    using calls_only_queue [OF busy] assms(15) by simp
  moreover have "fs_queue v = [?op]" using t(2) quiet_queue [OF qv] by simp
  moreover have "app_events v = app_events s @ [(f, \<lparr>evt_id = FS_EVT_STORE, evt_p_context = ctx, evt_p_data = dest,
      evt_length_words = n, evt_first_page = 0, evt_last_page = 0\<rparr>, FS_ERR_INTERNAL)]"
    using w(3) by (simp add: v_def)
  ultimately show ?thesis
    unfolding run' using v
    by (auto simp: fs_more_def fs_busy_def intro: calls_only_queued [unfolded fs_busy_def] dest: app_events_more elim!: ok_mono)
qed

section \<open>Dividing the flash\<close>

text \<open>The bytes that configuration \<open>j\<close> asks for, and those of all configurations of higher priority.\<close>

definition space :: "'m fs \<Rightarrow> nat \<Rightarrow> nat" where
  "space s j = unat (num_pages (fs_data s ! j)) * unat (FS_PAGE_SIZE s)"

definition higher :: "'m fs \<Rightarrow> nat \<Rightarrow> nat set" where
  "higher s i = {j. j < length (fs_data s) \<and> fs_priority (fs_data s ! i) < fs_priority (fs_data s ! j)}"

definition given :: "fs_config_t list \<Rightarrow> nat set" where
  "given cs = {j. j < length cs \<and> has_space (cs ! j)}"

lemma max_body_picks:
  assumes "k \<le> length cs" and "\<And>j. j < length cs \<Longrightarrow> 0 < fs_priority (cs ! j)"
  shows "let (p, m) = fold (max_body cs) [0..<k] (0, m0) in
    (if {j. j < k \<and> \<not> has_space (cs ! j)} = {} then p = 0
     else \<exists>j. j < k \<and> \<not> has_space (cs ! j) \<and> p = fs_priority (cs ! j) \<and> m = of_nat j \<and>
       (\<forall>i < k. \<not> has_space (cs ! i) \<longrightarrow> fs_priority (cs ! i) \<le> fs_priority (cs ! j)))"
  using assms(1)
proof (induction k)
  case (Suc k)
  obtain p m where pm: "fold (max_body cs) [0..<k] (0, m0) = (p, m)" by fastforce
  have pos: "0 < fs_priority (cs ! k)" using assms(2) Suc.prems by simp
  note IH = Suc.IH [unfolded pm Let_def prod.case]
  have step: "fold (max_body cs) [0..<Suc k] (0, m0) = max_body cs k (p, m)" by (simp add: pm)
  consider "has_space (cs ! k)" | "\<not> has_space (cs ! k)" "p < fs_priority (cs ! k)"
    | "\<not> has_space (cs ! k)" "\<not> p < fs_priority (cs ! k)" by blast
  then show ?case
  proof cases
    case 1
    then show ?thesis unfolding step using IH Suc.prems
      by (auto simp: max_body_def less_Suc_eq split: if_splits)
  next
    case 2
    have "fs_priority (cs ! i) \<le> fs_priority (cs ! k)" if "i < k" "\<not> has_space (cs ! i)" for i
      using IH Suc.prems that 2(2) by (auto split: if_splits intro: order_trans [OF _ less_imp_le])
    then show ?thesis unfolding step using 2 by (auto simp: max_body_def less_Suc_eq)
  next
    case 3
    then have "p \<noteq> 0" using pos by auto
    then obtain j where "j < k" "\<not> has_space (cs ! j)" "p = fs_priority (cs ! j)" "m = of_nat j"
        "\<forall>i < k. \<not> has_space (cs ! i) \<longrightarrow> fs_priority (cs ! i) \<le> fs_priority (cs ! j)"
      using IH Suc.prems by (auto split: if_splits)
    then show ?thesis unfolding step using 3 by (auto simp: max_body_def less_Suc_eq not_less)
  qed
qed simp

text \<open>What holds when \<open>k\<close> configurations have their space: they are those of the highest priorities.\<close>

definition same_cfgs :: "'m fs \<Rightarrow> 'm fs \<Rightarrow> bool" where
  "same_cfgs s t \<longleftrightarrow> length (fs_data t) = length (fs_data s) \<and> FS_PAGE_SIZE t = FS_PAGE_SIZE s \<and>
     (\<forall>j < length (fs_data s). fs_priority (fs_data t ! j) = fs_priority (fs_data s ! j) \<and>
        num_pages (fs_data t ! j) = num_pages (fs_data s ! j) \<and> fs_callback (fs_data t ! j) = fs_callback (fs_data s ! j))"

definition placed :: "nat \<Rightarrow> 'm fs \<Rightarrow> nat \<Rightarrow> fs_config_t \<Rightarrow> bool" where
  "placed e s j c \<longleftrightarrow> unat (p_end_addr c) = e - sum (space s) (higher s j) \<and>
     unat (p_start_addr c) = e - sum (space s) (higher s j) - space s j"

definition division :: "nat \<Rightarrow> 'm fs \<Rightarrow> nat \<Rightarrow> u32 \<times> 'm fs \<Rightarrow> bool" where
  "division e s k x \<longleftrightarrow> (case x of (cur, t) \<Rightarrow> same_cfgs s t \<and> card (given (fs_data t)) = k \<and>
     (\<forall>j \<in> given (fs_data t). higher s j \<subseteq> given (fs_data t)) \<and> unat cur = e - sum (space s) (given (fs_data t)) \<and>
     (\<forall>j \<in> given (fs_data t). placed e s j (fs_data t ! j)))"

lemma assign_space_ok:
  assumes "division e s k (cur, t)" and "k < length (fs_data s)" and "length (fs_data s) < 256"
    and "\<And>j. j < length (fs_data s) \<Longrightarrow> 0 < fs_priority (fs_data s ! j)"
    and "distinct (map fs_priority (fs_data s))" and "FS_PAGE_SIZE s = 1024 \<or> FS_PAGE_SIZE s = 4096"
    and "sum (space s) {..<length (fs_data s)} < e"
  shows "ok (assign_space k (cur, t)) (division e s (Suc k))"
proof -
  let ?n = "length (fs_data s)" and ?D = "given (fs_data t)"
  note d = assms(1) [unfolded division_def prod.case]
  note sc = d [THEN conjunct1, unfolded same_cfgs_def]
  have D: "?D \<subseteq> {..<?n}" using sc by (auto simp: given_def)
  then have fin: "finite ?D" by (rule finite_subset) simp
  have prio: "fs_priority (fs_data t ! j) = fs_priority (fs_data s ! j)" if "j < ?n" for j using sc that by simp
  have "?D \<noteq> {..<?n}" using d assms(2) by auto
  then have "{j. j < ?n \<and> \<not> has_space (fs_data t ! j)} \<noteq> {}" using D sc by (auto simp: given_def)
  then obtain p m where pick: "fold (max_body (fs_data t)) [0..<length (fs_data t)] (0, of_nat k) = (p, of_nat m)"
      and m: "m < ?n" "\<not> has_space (fs_data t ! m)"
      and best: "\<forall>i < ?n. \<not> has_space (fs_data t ! i) \<longrightarrow> fs_priority (fs_data t ! i) \<le> fs_priority (fs_data t ! m)"
    using max_body_picks [of ?n "fs_data t" "of_nat k"] sc assms(4)
    by (cases "fold (max_body (fs_data t)) [0..<?n] (0, of_nat k)") (auto split: if_splits)
  have mD: "m \<notin> ?D" using m(2) by (simp add: given_def)
  have higher_m: "higher s m = ?D"
  proof (intro equalityI subsetI)
    fix j assume "j \<in> higher s m"
    then have "j < ?n" "fs_priority (fs_data s ! m) < fs_priority (fs_data s ! j)" by (auto simp: higher_def)
    then show "j \<in> ?D" using best prio m(1) sc by (auto simp: given_def not_le [symmetric])
  next
    fix j assume j: "j \<in> ?D"
    then have jn: "j < ?n" "j \<noteq> m" using D mD by auto
    then have "fs_priority (fs_data s ! j) \<noteq> fs_priority (fs_data s ! m)"
      using assms(5) m(1) by (simp add: distinct_conv_nth)
    moreover have "m \<notin> higher s j" using d j mD by blast
    then have "\<not> fs_priority (fs_data s ! j) < fs_priority (fs_data s ! m)" using m(1) by (simp add: higher_def)
    ultimately show "j \<in> higher s m" using jn(1) by (auto simp: higher_def)
  qed
  let ?sz = "space s m" and ?S = "sum (space s) ?D"
  have "sum (space s) (insert m ?D) \<le> sum (space s) {..<?n}" by (rule sum_mono2) (use D m(1) in auto)
  then have total: "?S + ?sz < e" using assms(7) mD fin by simp
  have size: "unat (4 * (ucast (num_pages (fs_data t ! m)) * FS_PAGE_SIZE_WORDS t)) = ?sz"
    using assms(6) sc m(1) unsigned_less [of "num_pages (fs_data s ! m)", where 'a = nat]
    by (auto simp: FS_PAGE_SIZE_WORDS_def space_def unat_word_ariths unsigned_ucast_eq take_bit_nat_eq_self)
  define start where "start = cur - 4 * (ucast (num_pages (fs_data t ! m)) * FS_PAGE_SIZE_WORDS t)"
  have cur: "unat cur = e - ?S" using d by simp
  have start: "unat start = e - ?S - ?sz"
    unfolding start_def using size cur total by (simp add: unat_sub word_le_nat_alt)
  have nz: "start \<noteq> 0" "cur \<noteq> 0" using start cur total by (auto simp flip: unat_eq_0)
  define c where "c = (fs_data t ! m)\<lparr>p_start_addr := start, p_end_addr := cur\<rparr>"
  define u where "u = t\<lparr>fs_data := (fs_data t)[m := c]\<rparr>"
  have um: "unat (of_nat m :: u8) = m" using m(1) assms(3) by (simp add: unsigned_of_nat take_bit_nat_eq_self)
  have run: "assign_space k (cur, t) = Inr (start, u)"
    using pick um m(1) sc by (simp add: assign_space_def load_at_def Let_def start_def c_def u_def)
  have D': "given (fs_data u) = insert m ?D"
    using m(1) sc nz by (auto simp: given_def u_def c_def has_space_def nth_list_update)
  have nth: "fs_data u ! j = (if j = m then c else fs_data t ! j)" if "j < ?n" for j
    using that m(1) sc by (simp add: u_def nth_list_update)
  have "length (fs_data u) = ?n" "FS_PAGE_SIZE u = FS_PAGE_SIZE s" using sc by (simp_all add: u_def)
  then have "same_cfgs s u" using sc by (simp add: same_cfgs_def nth) (simp add: c_def)
  moreover have "card (insert m ?D) = Suc k" using d mD fin by simp
  moreover have "\<forall>j \<in> insert m ?D. higher s j \<subseteq> insert m ?D" using d higher_m by auto
  moreover have "unat start = e - sum (space s) (insert m ?D)" using start mD fin by simp
  moreover have "placed e s j (fs_data u ! j)" if "j \<in> insert m ?D" for j
  proof (cases "j = m")
    case True
    then show ?thesis using m(1) sc start cur by (simp add: placed_def u_def c_def higher_m)
  next
    case False
    then show ?thesis using that d by (auto simp: u_def)
  qed
  ultimately show ?thesis unfolding run ok_Inr division_def prod.case D' by blast
qed


section \<open>Examples\<close>

text \<open>Two users, which ask for two and three pages; the bootloader begins at 0x7A000. Pieces of at most 4 words.\<close>

definition sample_cfgs :: "fs_config_t list" where
  "sample_cfgs = [\<lparr>p_start_addr = 0, p_end_addr = 0, fs_callback = Some 1, num_pages = 2, fs_priority = 1\<rparr>,
     \<lparr>p_start_addr = 0, p_end_addr = 0, fs_callback = Some 2, num_pages = 3, fs_priority = 7\<rparr>]"

definition sample_fs0 :: "ret_code \<Rightarrow> fstorage" where
  "sample_fs0 answer = \<lparr>fs_flags = 0, fs_op = replicate 3 fs_op_zero, fs_rp = 2, fs_count = 0, fs_retry_count = 0, fs_data = sample_cfgs,
     FS_QUEUE_SIZE = 3, FS_OP_MAX_RETRIES = 3, FS_MAX_WRITE_SIZE_WORDS = 4, FS_PAGE_SIZE = 4096, cfg_dfu_signing = False,
     NRFFW0 = 0x7A000, CODESIZE = 128, sd_answers = (\<lambda>_. answer), sd_n = 0, sd_log = []\<rparr>"

text \<open>After \<open>fs_init\<close>.\<close>

definition sample_fs :: "ret_code \<Rightarrow> fstorage" where
  "sample_fs answer = (sample_fs0 answer)\<lparr>fs_flags := 1, fs_data :=
     [(sample_cfgs ! 0)\<lparr>p_start_addr := 0x75000, p_end_addr := 0x77000\<rparr>, (sample_cfgs ! 1)\<lparr>p_start_addr := 0x77000, p_end_addr := 0x7A000\<rparr>]\<rparr>"

lemma fs_inv_empty: "fs_base s \<Longrightarrow> fs_count s = 0 \<Longrightarrow> \<not> processing s \<Longrightarrow> \<not> req_pending s \<Longrightarrow> fs_inv s"
  using fs_queue_Nil [of s] by (simp add: fs_inv_def del: fs_queue_Nil)

lemma sample_fs_inv: "fs_inv (sample_fs r)"
  by (rule fs_inv_empty)
    (simp_all add: fs_base_def fs_ring_def sample_fs_def sample_fs0_def config_ok_def sample_cfgs_def has_flag_def fs_flag_defs)

lemma sample_cb_ok: "cb_ok (\<lambda>_ _ _ s. Inr s)"
  by (simp add: cb_ok_def)

lemmas sample_fs_simps = sample_fs_def sample_fs0_def sample_cfgs_def

lemma sample_fs_init: "has_flag FS_FLAG_INITIALIZED (sample_fs r)"
  by (simp add: sample_fs_def has_flag_def fs_flag_defs)

theorem fs_requests_in_space_witness:
  "ok (fs_do (\<lambda>_ _ _ s. Inr s) (Act_Store (Some 0) 0x75000 0x20000000 10 5) (sample_fs NRF_SUCCESS))
    (\<lambda>u. \<forall>r \<in> set (sd_log u). \<exists>c \<in> set (fs_data u). in_space u c r)"
  by (rule fs_requests_in_space [OF sample_fs_inv _ sample_cb_ok rtranclp.rtrancl_refl]) (simp_all add: sample_fs_simps)

theorem fs_store_writes_all_witness:
  "ok (fs_store (\<lambda>_ _ _ s. Inr s) (Some 0) 0x75000 0x20000000 10 5 (sample_fs NRF_SUCCESS)) (\<lambda>(r, s1). r = FS_SUCCESS \<and>
    ok (fs_successes (\<lambda>_ _ _ s. Inr s) ((unat (10 :: u16) - 1) div unat (FS_MAX_WRITE_SIZE_WORDS (sample_fs NRF_SUCCESS))) s1) (\<lambda>s2.
      \<exists>rs u. sd_log s2 = sd_log (sample_fs NRF_SUCCESS) @ rs \<and> sd_log u = sd_log s2 \<and>
        concat (map words_of rs) = map (\<lambda>k. (0x75000 + 4 * of_nat k, 0x20000000 + 4 * of_nat k)) [0..<unat (10 :: u16)] \<and>
        fs_sys_event_handler (\<lambda>_ _ _ s. Inr s) NRF_EVT_FLASH_OPERATION_SUCCESS s2 =
          then_do (Inr u) (\<lambda>t. queue_process (\<lambda>_ _ _ s. Inr s) (queue_advance t))))"
  by (rule fs_store_writes_all [OF sample_fs_inv _ sample_fs_init, where f = 1]) (simp_all add: sample_fs_simps)

definition sample_fs_app :: "ret_code \<Rightarrow> fs_app" where
  "sample_fs_app r = fstorage.extend (sample_fs r) \<lparr>app_events = []\<rparr>"

lemma sample_fs_app_simps:
  "fs_data (sample_fs_app r) = fs_data (sample_fs r)" "fs_count (sample_fs_app r) = 0"
  "FS_QUEUE_SIZE (sample_fs_app r) = 3" "sd_answers (sample_fs_app r) = (\<lambda>_. r)"
  "FS_PAGE_SIZE (sample_fs_app r) = 4096" "sd_log (sample_fs_app r) = []" "app_events (sample_fs_app r) = []"
  by (simp_all add: sample_fs_app_def fstorage.extend_def sample_fs_simps)

lemma sample_fs_app_inv: "fs_inv (sample_fs_app r)" "has_flag FS_FLAG_INITIALIZED (sample_fs_app r)"
  by (rule fs_inv_empty)
    (simp_all add: fs_base_def fs_ring_def sample_fs_app_def fstorage.extend_def sample_fs_def sample_fs0_def config_ok_def
      sample_cfgs_def has_flag_def fs_flag_defs)

theorem fs_stalls_after_error_witness:
  "ok (fs_store note_event (Some 0) 0x75000 0x20000000 10 5 (sample_fs_app NRF_ERROR_INTERNAL)) (\<lambda>(r, t). r = FS_SUCCESS \<and>
    length (sd_log t) = 1 \<and>
    app_events t = [(1, \<lparr>evt_id = FS_EVT_STORE, evt_p_context = 5, evt_p_data = 0x75000, evt_length_words = 10,
      evt_first_page = 0, evt_last_page = 0\<rparr>, FS_ERR_INTERNAL)] \<and>
    ok (fs_run note_event [Act_Store (Some 1) 0x77000 0x20000000 4 6] t)
      (\<lambda>u. sd_log u = sd_log t \<and> processing u \<and> hd (fs_queue u) = store_op_of (Some 0) 0x75000 0x20000000 10 5))"
proof -
  have call: "\<forall>a \<in> set [Act_Store (Some 1) 0x77000 0x20000000 4 6].
      act_ok (sample_fs_app NRF_ERROR_INTERNAL) a \<and> (\<forall>e. a \<noteq> Act_Event e)" by simp
  have "ok (fs_store note_event (Some 0) 0x75000 0x20000000 10 5 (sample_fs_app NRF_ERROR_INTERNAL)) (\<lambda>(r, t). r = FS_SUCCESS \<and>
      length (sd_log t) = Suc (length (sd_log (sample_fs_app NRF_ERROR_INTERNAL))) \<and>
      app_events t = app_events (sample_fs_app NRF_ERROR_INTERNAL) @ [(1, \<lparr>evt_id = FS_EVT_STORE, evt_p_context = 5,
        evt_p_data = 0x75000, evt_length_words = 10, evt_first_page = 0, evt_last_page = 0\<rparr>, FS_ERR_INTERNAL)] \<and>
      ok (fs_run note_event [Act_Store (Some 1) 0x77000 0x20000000 4 6] t) (\<lambda>u. sd_log u = sd_log t \<and>
        app_events u = app_events t \<and> processing u \<and> hd (fs_queue u) = store_op_of (Some 0) 0x75000 0x20000000 10 5 \<and>
        (\<forall>p d sr m c. ok (fs_store note_event p d sr m c u) (only_queued u)) \<and>
        (\<forall>p a m c. ok (fs_erase note_event p a m c u) (only_queued u))))"
    by (rule fs_stalls_after_error [OF sample_fs_app_inv(1) _ sample_fs_app_inv(2) _ _ _ _ _ _ _ _ _ _ _ call])
      (simp_all add: sample_fs_app_simps sample_fs_simps)
  then show ?thesis by (auto simp: sample_fs_app_simps elim!: ok_mono)
qed


end
