(* ===== verification/FdsFind.thy ===== *)
theory FdsFind
  imports FdsScan FstorageInit
begin

text \<open>
  Searching, counting and reserving: the interface functions of the flash data storage that make no request to flash. Sample states.
\<close>

unbundle bit_operations_syntax

section \<open>Searching\<close>

text \<open>
  C36. Repeated calls of \<open>fds_record_find\<close>, \<open>fds_record_find_by_key\<close>, \<open>fds_record_find_in_file\<close> or \<open>fds_record_iterate\<close> with a token that
  was zero before the first (they are \<open>record_find\<close> with or without a file and a key) give exactly the
  records of the data pages that are valid and match, each once, page by page and in the order in which they were written, and then end; dirty
  records and those without a file ID are passed over whatever their length.
\<close>

theorem fds_find_all:
  assumes "flag_is_set FDS_FLAG_INITIALIZED s" and "length (m_pages s) < 2 ^ 16"
    and "\<forall>pg \<in> set (m_pages s). page_type pg = FDS_PAGE_DATA \<longrightarrow> page_low s pg"
    and "length (matching_recs f k s) < n"
  shows "find_all n f k token_zero s = Inr (matching_recs f k s)"
  by (rule find_all_ok [OF _ assms(1) _ assms(4)]) (use assms to_find_all in \<open>simp_all add: data_pages_low_def token_zero_def\<close>)

section \<open>Counting\<close>

definition valid_in :: "'m fds_st \<Rightarrow> fds_page_t \<Rightarrow> u32 list" where
  "valid_in s pg = filter (valid_rec (fds_mem s)) (recs_of s pg)"

definition dirty_in :: "'m fds_st \<Rightarrow> fds_page_t \<Rightarrow> u32 list" where
  "dirty_in s pg = filter (Not \<circ> valid_rec (fds_mem s)) (recs_of s pg)"

lemma count_valid_left:
  assumes "page < length (m_pages s)" and "page_low s (m_pages s ! page)" and "left_of s (m_pages s ! page) p ys"
  shows "count_valid page p acc s = Inr (acc + of_nat (length (filter (valid_rec (fds_mem s)) ys)))"
  using assms(3)
proof (induction "length ys" arbitrary: p ys acc rule: less_induct)
  case less
  note n = find_next_left [OF assms(1,2) less(2)]
  show ?case
  proof (cases "find (valid_rec (fds_mem s)) ys")
    case None
    then have "filter (valid_rec (fds_mem s)) ys = []" by (auto simp: find_None_iff filter_empty_conv)
    then show ?thesis using n None by (simp add: count_valid.simps [of page p acc s])
  next
    case (Some q)
    then obtain as bs where b: "ys = as @ q # bs" "valid_rec (fds_mem s) q" "\<forall>x \<in> set as. \<not> valid_rec (fds_mem s) x"
      by (rule find_SomeE)
    have "filter (valid_rec (fds_mem s)) as = []" using b(3) by (simp add: filter_empty_conv)
    moreover have "count_valid page q (acc + 1) s = Inr (acc + 1 + of_nat (length (filter (valid_rec (fds_mem s)) bs)))"
      by (rule less(1)) (use b(1) less(2) left_of_later in auto)
    ultimately show ?thesis using n Some b(1,2) by (simp add: count_valid.simps [of page p acc s])
  qed
qed

definition page_used :: "fds_page_t \<Rightarrow> u16" where "page_used pg = write_offset pg + words_reserved pg"

definition contiguous :: "'m fds_st \<Rightarrow> fds_page_t \<Rightarrow> u16" where
  "contiguous s pg = of_nat (FDS_PAGE_SIZE s) - page_used pg"

definition stat_of :: "'m fds_st \<Rightarrow> fds_page_t list \<Rightarrow> fds_stat_t" where
  "stat_of s pages =
     \<lparr>open_records = (\<Sum>pg \<leftarrow> pages. records_open pg),
      valid_records = of_nat (\<Sum>pg \<leftarrow> pages. length (valid_in s pg)),
      dirty_records = of_nat (\<Sum>pg \<leftarrow> pages. length (dirty_in s pg)),
      stat_words_reserved = (\<Sum>pg \<leftarrow> pages. words_reserved pg),
      words_used = (\<Sum>pg \<leftarrow> pages. page_used pg),
      largest_contig = fold max (map (contiguous s) pages) 0,
      freeable_words = of_nat (\<Sum>pg \<leftarrow> pages. \<Sum>q \<leftarrow> dirty_in s pg. rec_len (fds_mem s) q)\<rparr>"

lemma stat_page_step:
  assumes "i < length (m_pages s)" and "page_low s (m_pages s ! i)"
  shows "stat_page s i (stat_of s (take i (m_pages s))) = Inr (stat_of s (take (Suc i) (m_pages s)))"
proof -
  let ?pg = "m_pages s ! i"
  have c: "count_valid i 0 acc s = Inr (acc + of_nat (length (valid_in s ?pg)))" for acc
    unfolding valid_in_def by (rule count_valid_left [OF assms left_of_start])
  have d: "dirty_records_stat i r w s = Inr (r + of_nat (length (dirty_in s ?pg)), w + of_nat (\<Sum>q \<leftarrow> dirty_in s ?pg. rec_len (fds_mem s) q))" for r w
    using assms
    by (simp add: dirty_records_stat_def load_at_def page_low_ptrs dirty_stat_loop_recs dirty_in_def recs_of_def)
  have t: "take (Suc i) (m_pages s) = take i (m_pages s) @ [?pg]" using assms(1) by (rule take_Suc_conv_app_nth)
  have m: "(if a > b then a else b) = max a b" for a b :: u16 by (auto simp: max_def)
  show ?thesis
    unfolding t using assms(1)
    by (simp add: stat_page_def load_at_def c d stat_of_def Let_def page_used_def [symmetric] contiguous_def [symmetric] m)
qed

text \<open>
  \<open>fds_stat\<close> counts what the search sees: the valid and the dirty records of all pages and the words that garbage
  collection can free, and it adds up open records and the words used and reserved, and gives the largest free space
  of a page; every number is taken modulo 2 ^ 16, and neither the flash nor the state is changed.
\<close>

theorem fds_stat_counts:
  assumes "flag_is_set FDS_FLAG_INITIALIZED s" and "\<forall>pg \<in> set (m_pages s). page_low s pg"
  shows "fds_stat (Some x) s = Inr (FDS_SUCCESS, Some (stat_of s (m_pages s)))"
proof -
  have "ok (for_each (stat_page s) [0..<FDS_MAX_PAGES s] stat_zero) (\<lambda>st. st = stat_of s (take (FDS_MAX_PAGES s) (m_pages s)))"
  proof (rule for_each_upt)
    show "stat_zero = stat_of s (take 0 (m_pages s))" by (simp add: stat_zero_def stat_of_def)
    fix i st assume i: "i < FDS_MAX_PAGES s" and st: "st = stat_of s (take i (m_pages s))"
    then have l: "i < length (m_pages s)" "page_low s (m_pages s ! i)" using assms(2) by (simp_all add: FDS_MAX_PAGES_def)
    show "ok (stat_page s i st) (\<lambda>st. st = stat_of s (take (Suc i) (m_pages s)))" unfolding st stat_page_step [OF l] by simp
  qed
  then show ?thesis using assms(1) by (auto simp: fds_stat_def FDS_MAX_PAGES_def ok_iff)
qed

section \<open>Reserving\<close>

lemma find_index_lt: "find P [0..<n] = Some i \<Longrightarrow> i < n \<and> P i"
  by (auto simp: find_Some_iff)

lemma unat_u16_nat: "n < 2 ^ 16 \<Longrightarrow> unat (of_nat n :: u16) = n"
  by (simp add: unsigned_of_nat take_bit_nat_eq_self_iff)

text \<open>
  \<open>fds_reserve\<close> takes the record's words, header included, on the first data page where they fit below the page's end, and
  \<open>fds_reserve_cancel\<close> gives back exactly what the token stands for: afterwards the state is the one before. A record too long for a page
  is refused, and so is one that finds no page, with nothing changed.
\<close>

theorem fds_reserve_cancel_roundtrip:
  assumes "flag_is_set FDS_FLAG_INITIALIZED s" and "length (m_pages s) < 2 ^ 16" and "unat n + 3 < 2 ^ 16"
    and "\<forall>pg \<in> set (m_pages s). unat (write_offset pg) + unat (words_reserved pg) \<le> FDS_PAGE_SIZE s"
    and "2 * FDS_PAGE_SIZE s < 2 ^ 16"
  shows "(case fds_reserve (Some t) n s of (ret, t', s') \<Rightarrow>
    if unat n + 3 \<ge> FDS_PAGE_SIZE s - 2 then ret = FDS_ERR_RECORD_TOO_LARGE \<and> s' = s
    else if \<exists>i < length (m_pages s). page_type (m_pages s ! i) = FDS_PAGE_DATA \<and>
        unat n + 3 + unat (write_offset (m_pages s ! i)) + unat (words_reserved (m_pages s ! i)) < FDS_PAGE_SIZE s
    then ret = FDS_SUCCESS \<and>
      (\<exists>i < length (m_pages s). t' = Some \<lparr>rt_page = of_nat i, rt_length_words = n\<rparr> \<and> page_type (m_pages s ! i) = FDS_PAGE_DATA \<and>
        unat n + 3 + unat (write_offset (m_pages s ! i)) + unat (words_reserved (m_pages s ! i)) < FDS_PAGE_SIZE s \<and>
        m_pages s' = (m_pages s)[i := (m_pages s ! i)\<lparr>words_reserved := words_reserved (m_pages s ! i) + (n + 3)\<rparr>]) \<and>
      fds_reserve_cancel t' s' = Inr (FDS_SUCCESS, Some \<lparr>rt_page = 0, rt_length_words = 0\<rparr>, s)
    else ret = FDS_ERR_NO_SPACE_IN_FLASH \<and> s' = s)"
proof -
  let ?n = "n + 3 :: u16" and ?N = "unat n + 3"
  have N: "unat ?n = ?N" using assms(3) by (simp add: unat_word_ariths)
  have space: "page_has_space (m_pages s ! i) ?n s \<longleftrightarrow>
      ?N + unat (write_offset (m_pages s ! i)) + unat (words_reserved (m_pages s ! i)) < FDS_PAGE_SIZE s"
    if "i < length (m_pages s)" "?N < FDS_PAGE_SIZE s - 2" for i
  proof -
    have l: "unat (write_offset (m_pages s ! i)) + unat (words_reserved (m_pages s ! i)) \<le> FDS_PAGE_SIZE s"
      using assms(4) that(1) by simp
    have "unat (?n + write_offset (m_pages s ! i)) = ?N + unat (write_offset (m_pages s ! i))"
      using l that(2) assms(5) N by (subst unat_add_lem [THEN iffD1]) simp_all
    then have "unat (?n + write_offset (m_pages s ! i) + words_reserved (m_pages s ! i)) =
        ?N + unat (write_offset (m_pages s ! i)) + unat (words_reserved (m_pages s ! i))"
      using l that(2) assms(5) by (subst unat_add_lem [THEN iffD1]) simp_all
    then show ?thesis by (simp add: page_has_space_def)
  qed
  let ?good = "\<lambda>i. page_type (m_pages s ! i) = FDS_PAGE_DATA \<and> page_has_space (m_pages s ! i) ?n s"
  have large: "int (unat ?n) \<ge> int (FDS_PAGE_SIZE s) - int FDS_PAGE_TAG_SIZE \<longleftrightarrow> ?N \<ge> FDS_PAGE_SIZE s - 2"
    unfolding N FDS_PAGE_TAG_SIZE_def by arith
  have reserve: "fds_reserve (Some t) n s =
     (if ?N \<ge> FDS_PAGE_SIZE s - 2 then (FDS_ERR_RECORD_TOO_LARGE, Some t, s)
      else case find ?good [0..<length (m_pages s)] of
        None \<Rightarrow> (FDS_ERR_NO_SPACE_IN_FLASH, Some t, s)
      | Some i \<Rightarrow> (FDS_SUCCESS, Some \<lparr>rt_page = of_nat i, rt_length_words = n\<rparr>, s\<lparr>m_pages := (m_pages s)[i := (m_pages s ! i)
              \<lparr>words_reserved := words_reserved (m_pages s ! i) + ?n\<rparr>]\<rparr>))"
    using assms(1) large
    by (simp add: fds_reserve_def write_space_reserve_def Let_def FDS_HEADER_SIZE_def FDS_MAX_PAGES_def split: option.split)
  show ?thesis
  proof (cases "?N \<ge> FDS_PAGE_SIZE s - 2")
    case False
    then have fits: "?N < FDS_PAGE_SIZE s - 2" by simp
    show ?thesis
    proof (cases "find ?good [0..<length (m_pages s)]")
      case None
      then have e: "(\<exists>i < length (m_pages s). page_type (m_pages s ! i) = FDS_PAGE_DATA \<and>
        ?N + unat (write_offset (m_pages s ! i)) + unat (words_reserved (m_pages s ! i)) < FDS_PAGE_SIZE s) = False"
        using space fits by (fastforce simp: find_None_iff)
      show ?thesis unfolding reserve None e using False by simp
    next
      case (Some i)
      then have i: "i < length (m_pages s)" "page_type (m_pages s ! i) = FDS_PAGE_DATA"
          "?N + unat (write_offset (m_pages s ! i)) + unat (words_reserved (m_pages s ! i)) < FDS_PAGE_SIZE s"
        using find_index_lt [OF Some] space fits by auto
      let ?pg = "m_pages s ! i"
      let ?s = "s\<lparr>m_pages := (m_pages s)[i := ?pg\<lparr>words_reserved := words_reserved ?pg + ?n\<rparr>]\<rparr>"
      have u: "unat (of_nat i :: u16) = i" using i(1) assms(2) by (intro unat_u16_nat) simp
      have "unat (words_reserved ?pg + ?n) = unat (words_reserved ?pg) + ?N"
        using i(3) assms(5) N by (subst unat_add_lem [THEN iffD1]) simp_all
      then have "3 + uint n \<le> uint (words_reserved ?pg + ?n)" unfolding uint_nat by linarith
      moreover have "?pg\<lparr>words_reserved := words_reserved ?pg + ?n - ?n\<rparr> = ?pg" by simp
      moreover have "flag_is_set FDS_FLAG_INITIALIZED ?s" using assms(1) by (simp add: flag_is_set_def)
      ultimately have "fds_reserve_cancel (Some \<lparr>rt_page = of_nat i, rt_length_words = n\<rparr>) ?s =
          Inr (FDS_SUCCESS, Some \<lparr>rt_page = 0, rt_length_words = 0\<rparr>, s)"
        using i(1) u
        by (simp add: fds_reserve_cancel_def write_space_free_def upd_page_def load_at_def FDS_MAX_PAGES_def FDS_HEADER_SIZE_def)
      then show ?thesis using False Some i by (auto simp: reserve)
    qed
  qed (simp add: reserve)
qed

end
