(* ===== verification/FdsSample.thy ===== *)
theory FdsSample
  imports FdsFind
begin

text \<open>
  A flash data storage with three virtual pages of 256 words below address 0x40000, the first of them the swap: one data page with
  a valid record, a deleted one and a valid one without data, the other data page empty. Its operation queue holds two operations, the chunk queue three chunks.
\<close>

unbundle bit_operations_syntax

definition mem_words :: "(u32 \<times> u32) list \<Rightarrow> u32 \<Rightarrow> u32" where
  "mem_words ws a = (case map_of ws a of None \<Rightarrow> FDS_ERASED_WORD | Some w \<Rightarrow> w)"

definition sample_words :: "(u32 \<times> u32) list" where
  "sample_words =
     [(0x3F400, FDS_PAGE_TAG_MAGIC), (0x3F404, FDS_PAGE_TAG_SWAP), (0x3F800, FDS_PAGE_TAG_MAGIC), (0x3F804, FDS_PAGE_TAG_DATA),
      (0x3F808, 0x00010011), (0x3F80C, 0x12340005), (0x3F810, 1), (0x3F814, 0xCAFE),
      (0x3F818, 0x00020000), (0x3F81C, 0x43210005), (0x3F820, 2), (0x3F824, 0), (0x3F828, 0),
      (0x3F82C, 0x00000012), (0x3F830, 0x00000005), (0x3F834, 3),
      (0x3FC00, FDS_PAGE_TAG_MAGIC), (0x3FC04, FDS_PAGE_TAG_DATA)]"

definition sample_page :: "u32 \<Rightarrow> u16 \<Rightarrow> bool \<Rightarrow> fds_page_t" where
  "sample_page a n g = \<lparr>page_type = FDS_PAGE_DATA, p_addr = a, write_offset = n, words_reserved = 0, records_open = 0, can_gc = g\<rparr>"

definition chunk0 :: fds_record_chunk_t where "chunk0 = \<lparr>ch_p_data = 0, ch_length_words = 0\<rparr>"

definition evt0 :: fds_evt_t where
  "evt0 = \<lparr>ev_id = FDS_EVT_GC, ev_result = 0, ev_record_id = 0, ev_file_id = 0, ev_record_key = 0, ev_is_record_updated = False\<rparr>"

definition fds_config :: fs_config_t where
  "fds_config = \<lparr>p_start_addr = 0x3F400, p_end_addr = 0x40000, fs_callback = Some 0, num_pages = 3, fs_priority = 0xFF\<rparr>"

definition sample_fds :: "ret_code \<Rightarrow> fds" where
  "sample_fds answer =
     \<lparr>fs_flags = 1, fs_op = replicate 3 fs_op_zero, fs_rp = 0, fs_count = 0, fs_retry_count = 0, fs_data = [fds_config],
      FS_QUEUE_SIZE = 3, FS_OP_MAX_RETRIES = 3, FS_MAX_WRITE_SIZE_WORDS = 8, FS_PAGE_SIZE = 1024, cfg_dfu_signing = False,
      NRFFW0 = 0xFFFFFFFF, CODESIZE = 256, sd_answers = (\<lambda>_. answer), sd_n = 0, sd_log = [],
      m_flags = FDS_FLAG_INITIALIZED, m_users = 1, m_cb_table = [Some 7, None], m_latest_rec_id = 3,
      m_op_queue = \<lparr>oq_op = replicate 2 fds_op_zero, oq_rp = 0, oq_count = 0\<rparr>,
      m_chunk_queue = \<lparr>cq_chunk = replicate 3 chunk0, cq_rp = 2, cq_count = 0\<rparr>,
      m_pages = [sample_page 0x3F800 14 True, sample_page 0x3FC00 2 False],
      m_swap_page = \<lparr>sw_p_addr = 0x3F400, sw_write_offset = 2\<rparr>,
      m_gc = \<lparr>gc_state = GC_BEGIN, gc_cur_page = 0, gc_p_record_src = 0, gc_run_count = 0, do_gc_page = [False, False], gc_resume = False\<rparr>,
      we_desc = desc_zero, fd_tok = token_zero, FDS_VIRTUAL_PAGE_SIZE = 256, FDS_PHY_PAGE_SIZE = 256, cfg_fds_crc = False, fds_cfg = 0,
      fds_mem = mem_words sample_words, op_header_addr = (\<lambda>i. 0x20000100 + of_nat (64 * i)), page_tag_swap_addr = 0x200, page_tag_data_addr = 0x208,
      tl_dirty_addr = 0x210, uninit_op = fds_op_zero, uninit_evt = evt0, fds_evts = []\<rparr>"

definition fds_sample_env :: "unit fds_env" where
  "fds_sample_env = \<lparr>env_users = (\<lambda>_ _ s. Inr s), env_others = (\<lambda>_ _ _ s. Inr s), env_depth = 5\<rparr>"

lemmas sample_fds_simps = sample_fds_def sample_page_def fds_config_def FDS_PAGE_SIZE_def

lemma sample_initialized: "flag_is_set FDS_FLAG_INITIALIZED (sample_fds r)"
  by (simp add: sample_fds_def flag_is_set_def FDS_FLAG_INITIALIZED_def)

lemma sample_pages_low: "\<forall>pg \<in> set (m_pages (sample_fds r)). page_low (sample_fds r) pg"
  by (simp add: sample_fds_simps page_low_def FDS_PAGE_TAG_SIZE_def)

lemma sample_recs:
  "recs_of (sample_fds r) (sample_page 0x3F800 n g) = [0x3F808, 0x3F818, 0x3F82C]"
  "recs_of (sample_fds r) (sample_page 0x3FC00 n g) = []"
proof -
  have l: "low 0x3FC00" "low 0x40000" by (simp_all add: low_def)
  have m: "mem_words sample_words 0x3F808 = 0x00010011" "mem_words sample_words 0x3F818 = 0x00020000"
    "mem_words sample_words 0x3F82C = 0x00000012" "mem_words sample_words 0x3F838 = FDS_ERASED_WORD"
    "mem_words sample_words 0x3FC08 = FDS_ERASED_WORD"
    by (simp_all add: mem_words_def sample_words_def)
  have t: "tl_of_word 0x00010011 = \<lparr>record_key = 17, tl_length_words = 1\<rparr>" "tl_of_word 0x00020000 = \<lparr>record_key = 0, tl_length_words = 2\<rparr>"
    "tl_of_word 0x00000012 = \<lparr>record_key = 18, tl_length_words = 0\<rparr>"
    by (simp_all add: tl_of_word_def)
  have n: "next_rec (mem_words sample_words) 0x3F808 = 0x3F818" "next_rec (mem_words sample_words) 0x3F818 = 0x3F82C"
    "next_rec (mem_words sample_words) 0x3F82C = 0x3F838"
    by (simp_all add: next_rec_def rec_len_def header_at_def m t FDS_HEADER_SIZE_def)
  show "recs_of (sample_fds r) (sample_page 0x3F800 n g) = [0x3F808, 0x3F818, 0x3F82C]"
    by (simp add: recs_of_def page_end_def sample_fds_simps page_recs.simps [of _ "0x3FC00"] l m n FDS_ERASED_WORD_def)
  show "recs_of (sample_fds r) (sample_page 0x3FC00 n g) = []"
    by (simp add: recs_of_def page_end_def sample_fds_simps page_recs.simps [of _ "0x40000"] l m FDS_ERASED_WORD_def)
qed

lemma sample_headers:
  "header_at (mem_words sample_words) 0x3F808 =
     \<lparr>h_tl = \<lparr>record_key = 17, tl_length_words = 1\<rparr>, h_ic = \<lparr>file_id = 5, crc16 = 0x1234\<rparr>, record_id = 1\<rparr>"
  "header_at (mem_words sample_words) 0x3F818 =
     \<lparr>h_tl = \<lparr>record_key = 0, tl_length_words = 2\<rparr>, h_ic = \<lparr>file_id = 5, crc16 = 0x4321\<rparr>, record_id = 2\<rparr>"
  "header_at (mem_words sample_words) 0x3F82C =
     \<lparr>h_tl = \<lparr>record_key = 18, tl_length_words = 0\<rparr>, h_ic = \<lparr>file_id = 5, crc16 = 0\<rparr>, record_id = 3\<rparr>"
  by (simp_all add: header_at_def mem_words_def sample_words_def tl_of_word_def ic_of_word_def)

lemma sample_matching: "matching_recs (Some 5) None (sample_fds r) = [0x3F808, 0x3F82C]"
proof -
  have "m_pages (sample_fds r) = [sample_page 0x3F800 14 True, sample_page 0x3FC00 2 False]" "fds_mem (sample_fds r) = mem_words sample_words"
    by (simp_all add: sample_fds_def)
  moreover have "page_type (sample_page a n g) = FDS_PAGE_DATA" for a n g by (simp add: sample_page_def)
  ultimately show ?thesis
    by (simp add: matching_recs_def hits_def sample_recs hit_def valid_rec_header sample_headers header_is_valid_def wanted_def
        FDS_FILE_ID_INVALID_def FDS_RECORD_KEY_DIRTY_def upt_rec)
qed

theorem fds_find_all_witness: "find_all 3 (Some 5) None token_zero (sample_fds NRF_SUCCESS) = Inr [0x3F808, 0x3F82C]"
  using fds_find_all [OF sample_initialized, of NRF_SUCCESS "Some 5" None 3] sample_pages_low [of NRF_SUCCESS]
  by (simp add: sample_matching) (simp add: sample_fds_def)

theorem fds_stat_counts_witness:
  "fds_stat (Some stat_zero) (sample_fds NRF_SUCCESS) =
     Inr (FDS_SUCCESS, Some (stat_of (sample_fds NRF_SUCCESS) (m_pages (sample_fds NRF_SUCCESS))))"
  by (rule fds_stat_counts [OF sample_initialized sample_pages_low])

theorem fds_reserve_cancel_roundtrip_witness:
  "(case fds_reserve (Some \<lparr>rt_page = 9, rt_length_words = 9\<rparr>) 240 (sample_fds NRF_SUCCESS) of (ret, t', s') \<Rightarrow>
     ret = FDS_SUCCESS \<and> fds_reserve_cancel t' s' = Inr (FDS_SUCCESS, Some \<lparr>rt_page = 0, rt_length_words = 0\<rparr>, sample_fds NRF_SUCCESS))"
proof -
  have "\<exists>i < length (m_pages (sample_fds NRF_SUCCESS)). page_type (m_pages (sample_fds NRF_SUCCESS) ! i) = FDS_PAGE_DATA \<and>
      unat (240 :: u16) + 3 + unat (write_offset (m_pages (sample_fds NRF_SUCCESS) ! i)) +
      unat (words_reserved (m_pages (sample_fds NRF_SUCCESS) ! i)) < FDS_PAGE_SIZE (sample_fds NRF_SUCCESS)"
    by (intro exI [of _ 1]) (simp add: sample_fds_simps)
  moreover have "\<not> FDS_PAGE_SIZE (sample_fds NRF_SUCCESS) - 2 \<le> unat (240 :: u16) + 3" by (simp add: sample_fds_simps)
  moreover have "length (m_pages (sample_fds NRF_SUCCESS)) < 2 ^ 16" "2 * FDS_PAGE_SIZE (sample_fds NRF_SUCCESS) < 2 ^ 16"
    "\<forall>pg \<in> set (m_pages (sample_fds NRF_SUCCESS)). unat (write_offset pg) + unat (words_reserved pg) \<le> FDS_PAGE_SIZE (sample_fds NRF_SUCCESS)"
    by (simp_all add: sample_fds_simps)
  ultimately show ?thesis
    using fds_reserve_cancel_roundtrip [OF sample_initialized, of NRF_SUCCESS 240 "\<lparr>rt_page = 9, rt_length_words = 9\<rparr>"]
    by (simp only: if_True if_False) (auto split: prod.splits)
qed

end
