(* ===== verification/FstorageWork.thy ===== *)
theory FstorageWork
  imports FstorageStore
begin

text \<open>
  A store or an erasure at work while the SoftDevice accepts every request, seen from the user of fstorage: nothing happens until the last piece is
  done; then the callback is called, and what it asks for is started next.
\<close>

unbundle bit_operations_syntax

section \<open>Progress\<close>

text \<open>Words or pages; how many there are, how many a request covers, and the operation when \<open>j\<close> are done.\<close>

definition op_total :: "fs_op_t \<Rightarrow> nat" where
  "op_total op = (case op_op_code op of
     FS_OP_STORE \<Rightarrow> unat (st_length_words op) | FS_OP_ERASE \<Rightarrow> unat (er_pages_to_erase op) | FS_OP_NONE \<Rightarrow> 0)"

definition op_piece :: "fs_op_t \<Rightarrow> 'm fs \<Rightarrow> nat" where
  "op_piece op s = (case op_op_code op of FS_OP_STORE \<Rightarrow> max_words s | _ \<Rightarrow> 1)"

definition op_at :: "fs_op_t \<Rightarrow> nat \<Rightarrow> fs_op_t" where
  "op_at op j = (case op_op_code op of
     FS_OP_STORE \<Rightarrow> op\<lparr>st_offset := of_nat j\<rparr>
   | FS_OP_ERASE \<Rightarrow> op\<lparr>er_page := er_page op + of_nat j, er_pages_erased := of_nat j\<rparr>
   | FS_OP_NONE \<Rightarrow> op)"

definition sd_willing :: "'m fs \<Rightarrow> bool" where
  "sd_willing s \<longleftrightarrow> (\<forall>k \<ge> sd_n s. sd_answers s k = NRF_SUCCESS)"

definition at_work :: "fs_op_t \<Rightarrow> nat \<Rightarrow> 'm fs \<Rightarrow> bool" where
  "at_work op j s \<longleftrightarrow> fs_ring s \<and> processing s \<and> fs_queue s = [op_at op j] \<and> j < op_total op \<and> sd_willing s"

text \<open>In the callback the operation that is done is still in the queue, before what the callback asks for.\<close>

definition in_callback :: "fs_op_t list \<Rightarrow> 'm fs \<Rightarrow> bool" where
  "in_callback ops s \<longleftrightarrow> fs_ring s \<and> processing s \<and> (\<exists>op. fs_queue s = op # ops) \<and> sd_willing s"

text \<open>Only the module's own variables have changed.\<close>

definition fs_inner :: "'m fs \<Rightarrow> 'm fs \<Rightarrow> bool" where
  "fs_inner s t \<longleftrightarrow> fstorage.more t = fstorage.more s \<and> same_config s t \<and> (req_pending t \<longleftrightarrow> req_pending s)"

lemma fs_inner_refl [simp]: "fs_inner s s"
  by (simp add: fs_inner_def)

lemma fs_inner_trans: "fs_inner s t \<Longrightarrow> fs_inner t u \<Longrightarrow> fs_inner s u"
  by (auto simp: fs_inner_def intro: same_config_trans)

lemma fs_more_projs [simp]:
  "fstorage.more (set_flag f s) = fstorage.more s" "fstorage.more (clear_flag f s) = fstorage.more s"
  "fstorage.more (upd_op i op s) = fstorage.more s" "fstorage.more (fs_put op s) = fstorage.more s"
  "fstorage.more (queue_advance s) = fstorage.more s"
  by (simp_all add: set_flag_def clear_flag_def upd_op_def fs_put_def queue_advance_def Let_def)

lemma config_fields:
  "fs_data (set_flag f s) = fs_data s" "FS_QUEUE_SIZE (set_flag f s) = FS_QUEUE_SIZE s" "FS_PAGE_SIZE (set_flag f s) = FS_PAGE_SIZE s"
  "FS_MAX_WRITE_SIZE_WORDS (set_flag f s) = FS_MAX_WRITE_SIZE_WORDS s" "cfg_dfu_signing (set_flag f s) = cfg_dfu_signing s"
  "fs_data (fs_put op s) = fs_data s" "FS_QUEUE_SIZE (fs_put op s) = FS_QUEUE_SIZE s" "FS_PAGE_SIZE (fs_put op s) = FS_PAGE_SIZE s"
  "FS_MAX_WRITE_SIZE_WORDS (fs_put op s) = FS_MAX_WRITE_SIZE_WORDS s" "cfg_dfu_signing (fs_put op s) = cfg_dfu_signing s"
  by (simp_all add: set_flag_def fs_put_def)

lemma op_at_0: "st_offset op = 0 \<Longrightarrow> er_pages_erased op = 0 \<Longrightarrow> op_at op 0 = op"
  by (cases op) (simp add: op_at_def split: fs_op_code_t.split)

lemma op_at_code [simp]: "op_op_code (op_at op j) = op_op_code op" "op_p_config (op_at op j) = op_p_config op"
  by (simp_all add: op_at_def split: fs_op_code_t.split)

section \<open>Requests\<close>

text \<open>The next request is accepted.\<close>

lemma process_accepted:
  assumes "fs_ring s" and "fs_queue s = op_at op j # ops" and "op_op_code op \<noteq> FS_OP_NONE" and "sd_willing s"
  shows "\<exists>r. queue_process cb s = Inr (s\<lparr>sd_n := Suc (sd_n s), sd_log := sd_log s @ [r]\<rparr>)"
proof -
  have c: "0 < fs_count s" using assms(2) fs_queue_Nil [of s] by (auto simp: word_neq_0_conv)
  have "load_at (fs_op s) (unat (fs_rp s)) = Inr (op_at op j)" using fs_head [OF assms(1) c] assms(2) by simp
  then show ?thesis
    using c assms(3,4)
    by (auto simp: queue_process_def store_execute_def erase_execute_def sd_request_def sd_willing_def split: fs_op_code_t.split)
qed

lemma log_inner: "fs_inner s (s\<lparr>sd_n := k, sd_log := l\<rparr>)"
  by (simp add: fs_inner_def same_config_def has_flag_def)

lemma process_at_work:
  assumes "fs_ring s" and "processing s" and "fs_queue s = [op_at op j]" and "j < op_total op" and "sd_willing s"
  shows "ok (queue_process cb s) (\<lambda>t. at_work op j t \<and> fs_inner s t)"
proof -
  have "op_op_code op \<noteq> FS_OP_NONE" using assms(4) by (auto simp: op_total_def)
  then obtain r where "queue_process cb s = Inr (s\<lparr>sd_n := Suc (sd_n s), sd_log := sd_log s @ [r]\<rparr>)" (is "_ = Inr ?t")
    using process_accepted [OF assms(1,3) _ assms(5)] by blast
  moreover have q: "quiet_update s ?t" by simp
  have "at_work op j ?t"
    using assms unfolding at_work_def quiet_queue [OF q] by (simp add: sd_willing_def)
  ultimately show ?thesis using log_inner by simp
qed

section \<open>Success events\<close>

lemma config_inner: "same_config s t \<Longrightarrow> op_piece op t = op_piece op s"
  by (simp add: op_piece_def same_config_def split: fs_op_code_t.split)

lemma of_nat_eq_u16: "n < 2 ^ 16 \<Longrightarrow> m < 2 ^ 16 \<Longrightarrow> (of_nat n :: u16) = of_nat m \<longleftrightarrow> n = m"
  by (simp add: word_of_nat_eq_iff take_bit_nat_eq_self)

lemma op_total_less: "op_total op < 2 ^ 16"
  using unsigned_less [of "st_length_words op", where 'a = nat] unsigned_less [of "er_pages_to_erase op", where 'a = nat]
  by (simp add: op_total_def split: fs_op_code_t.split)

text \<open>The operation after a success event, and whether it is done.\<close>

lemma on_success_at_work:
  assumes "at_work op j s" and "0 < op_piece op s"
  defines "m \<equiv> min (op_total op) (j + op_piece op s)"
  defines "u \<equiv> upd_op (unat (fs_rp s)) (op_at op m) (s\<lparr>fs_retry_count := 0\<rparr>)"
  shows "on_operation_success cb (unat (fs_rp s)) s =
    (if m = op_total op then then_do (send_event cb (op_at op m) FS_SUCCESS u) (\<lambda>t. Inr (queue_advance t)) else Inr u)"
proof -
  note w = assms(1) [unfolded at_work_def]
  have c: "0 < fs_count s" using w fs_queue_Nil [of s] by (auto simp: word_neq_0_conv)
  have load: "load_at (fs_op s) (unat (fs_rp s)) = Inr (op_at op j)" using fs_head [of s] c w by simp
  have m: "m < 2 ^ 16" using op_total_less [of op] by (simp add: m_def)
  note eq = of_nat_eq_u16 [OF m op_total_less, of op]
  show ?thesis
  proof (cases "op_op_code op")
    case FS_OP_NONE
    then show ?thesis using w by (simp add: op_total_def)
  next
    case FS_OP_STORE
    have j: "j < unat (st_length_words op)" using w FS_OP_STORE by (simp add: op_total_def)
    have "of_nat j + chunk_len (op\<lparr>st_offset := of_nat j\<rparr>) (s\<lparr>fs_retry_count := 0\<rparr>) =
        of_nat (j + min (max_words s) (unat (st_length_words op) - j))"
      using chunk_at [OF j, of "s\<lparr>fs_retry_count := 0\<rparr>"] by simp
    also have "j + min (max_words s) (unat (st_length_words op) - j) = m"
      using j FS_OP_STORE by (simp add: m_def op_total_def op_piece_def)
    finally show ?thesis
      using FS_OP_STORE load eq by (simp add: on_operation_success_def Let_def op_at_def u_def op_total_def)
  next
    case FS_OP_ERASE
    have "m = Suc j" using w FS_OP_ERASE by (simp add: m_def op_total_def op_piece_def)
    then have h: "(op_at op j)\<lparr>er_page := er_page (op_at op j) + 1, er_pages_erased := er_pages_erased (op_at op j) + 1\<rparr> = op_at op m"
      "of_nat m = er_pages_erased (op_at op m)" "er_pages_to_erase (op_at op m) = er_pages_to_erase op"
      using FS_OP_ERASE by (simp_all add: op_at_def ac_simps)
    have "er_pages_erased (op_at op m) = er_pages_to_erase (op_at op m) \<longleftrightarrow> m = op_total op"
      using eq FS_OP_ERASE unfolding h(3) h(2) [symmetric] by (simp add: op_total_def)
    then show ?thesis
      using FS_OP_ERASE load by (simp add: on_operation_success_def Let_def u_def h(1))
  qed
qed

lemma event_at_work:
  assumes "at_work op j s"
  shows "fs_sys_event_handler cb NRF_EVT_FLASH_OPERATION_SUCCESS s =
    then_do (on_operation_success cb (unat (fs_rp s)) s) (queue_process cb)"
  using assms by (simp add: fs_sys_event_handler_def at_work_def Let_def)

lemma upd_inner:
  assumes "fs_ring s" and "fs_queue s = op # ops" and "processing s" and "sd_willing s"
    and u: "u = upd_op (unat (fs_rp s)) op' (s\<lparr>fs_retry_count := n\<rparr>)"
  shows "fs_ring u" "fs_queue u = op' # ops" "processing u" "sd_willing u" "fs_inner s u"
proof -
  have c: "0 < fs_count s" using assms(2) fs_queue_Nil [of s] by (auto simp: word_neq_0_conv)
  have q: "quiet_update s (s\<lparr>fs_retry_count := n\<rparr>)" by simp
  show "fs_ring u" "fs_queue u = op' # ops"
    using fs_set_head [of "s\<lparr>fs_retry_count := n\<rparr>" op'] assms(1,2) c quiet_queue [OF q] by (simp_all add: u)
  show "processing u" "sd_willing u" using assms(3,4) by (simp_all add: u sd_willing_def) (simp add: upd_op_def)
  show "fs_inner s u"
    by (simp add: u fs_inner_def) (simp add: same_config_def has_flag_def upd_op_def)
qed

text \<open>An event before the last.\<close>

lemma work_step:
  assumes "at_work op j s" and "0 < op_piece op s" and "j + op_piece op s < op_total op"
  shows "ok (fs_sys_event_handler cb NRF_EVT_FLASH_OPERATION_SUCCESS s) (\<lambda>t. at_work op (j + op_piece op s) t \<and> fs_inner s t)"
proof -
  note w = assms(1) [unfolded at_work_def]
  define u where "u = upd_op (unat (fs_rp s)) (op_at op (j + op_piece op s)) (s\<lparr>fs_retry_count := 0\<rparr>)"
  have "on_operation_success cb (unat (fs_rp s)) s = Inr u"
    using on_success_at_work [OF assms(1,2), of cb] assms(3) by (simp add: u_def min_def)
  moreover have "ok (queue_process cb u) (\<lambda>t. at_work op (j + op_piece op s) t \<and> fs_inner u t)"
    by (rule process_at_work) (use upd_inner [of s "op_at op j" "[]", OF _ _ _ _ u_def] w assms(3) in \<open>simp_all add: u_def\<close>)
  moreover have "fs_inner s u" using upd_inner(5) [of s "op_at op j" "[]", OF _ _ _ _ u_def] w by (simp add: u_def)
  ultimately show ?thesis
    by (auto simp: event_at_work [OF assms(1)] elim!: ok_mono intro: fs_inner_trans)
qed

definition work_events :: "fs_op_t \<Rightarrow> 'm fs \<Rightarrow> nat" where
  "work_events op s = (op_total op - 1) div op_piece op s"

lemma work_steps:
  assumes "0 < op_piece op s0"
  shows "at_work op j s \<Longrightarrow> same_config s0 s \<Longrightarrow> j + k * op_piece op s0 < op_total op \<Longrightarrow>
   ok (fs_successes cb k s) (\<lambda>t. at_work op (j + k * op_piece op s0) t \<and> fs_inner s t)"
proof (induction k arbitrary: j s)
  case (Suc k)
  let ?d = "op_piece op s0"
  have p: "op_piece op s = ?d" using Suc.prems(2) by (rule config_inner)
  have l: "j + ?d < op_total op" using Suc.prems(3) by simp
  have step: "ok (fs_sys_event_handler cb NRF_EVT_FLASH_OPERATION_SUCCESS s) (\<lambda>t. at_work op (j + ?d) t \<and> fs_inner s t)"
    using work_step [OF Suc.prems(1), of cb] l assms(1) by (simp add: p)
  show ?case unfolding fs_successes.simps
  proof (rule ok_then_doI [OF step])
    fix t assume t: "at_work op (j + ?d) t \<and> fs_inner s t"
    then have "same_config s0 t" using Suc.prems(2) by (auto simp: fs_inner_def intro: same_config_trans)
    then have "ok (fs_successes cb k t) (\<lambda>v. at_work op (j + ?d + k * ?d) v \<and> fs_inner t v)"
      using t Suc.prems(3) by (intro Suc.IH) (simp_all add: add.assoc)
    then show "ok (fs_successes cb k t) (\<lambda>v. at_work op (j + Suc k * ?d) v \<and> fs_inner s v)"
      using t by (auto simp: add.assoc elim!: ok_mono intro: fs_inner_trans)
  qed
qed simp

text \<open>The last event: the callback, then the next request.\<close>

lemma work_done:
  assumes "at_work op (work_events op s0 * op_piece op s0) s" and "0 < op_piece op s" and "same_config s0 s"
    and "the_config (op_p_config op) s = Inr c" and "fs_callback c = Some f"
  shows "\<exists>evt u. in_callback [] u \<and> fs_inner s u \<and>
    fs_sys_event_handler cb NRF_EVT_FLASH_OPERATION_SUCCESS s =
      then_do (cb f evt FS_SUCCESS u) (\<lambda>t. queue_process cb (queue_advance t))"
proof -
  note w = assms(1) [unfolded at_work_def]
  let ?d = "op_piece op s0" and ?N = "op_total op"
  let ?j = "work_events op s0 * ?d"
  have d: "op_piece op s = ?d" "0 < ?d" using config_inner [OF assms(3), of op] assms(2) by simp_all
  have "?N - 1 = (?N - 1) div ?d * ?d + (?N - 1) mod ?d" by (rule div_mult_mod_eq [symmetric])
  moreover have "(?N - 1) mod ?d < ?d" using d(2) by simp
  ultimately have "?N \<le> ?j + ?d" unfolding work_events_def by linarith
  then have m: "min ?N (?j + op_piece op s) = ?N" using d(1) by simp
  define u where "u = upd_op (unat (fs_rp s)) (op_at op ?N) (s\<lparr>fs_retry_count := 0\<rparr>)"
  have i: "fs_inner s u" "fs_ring u" "fs_queue u = [op_at op ?N]" "processing u" "sd_willing u"
    using upd_inner [of s "op_at op ?j" "[]", OF _ _ _ _ u_def] w by simp_all
  have "the_config (op_p_config op) u = Inr c"
    using assms(4) i(1) by (auto simp: fs_inner_def same_config_def the_config_def split: option.splits)
  then obtain evt where "send_event cb (op_at op ?N) FS_SUCCESS u = cb f evt FS_SUCCESS u"
    using assms(5) by (simp add: send_event_def Let_def)
  then have "fs_sys_event_handler cb NRF_EVT_FLASH_OPERATION_SUCCESS s =
      then_do (cb f evt FS_SUCCESS u) (\<lambda>t. queue_process cb (queue_advance t))"
    using on_success_at_work [OF assms(1,2), of cb] m
    by (simp add: event_at_work [OF assms(1)] u_def then_do_def split: sum.split)
  moreover have "in_callback [] u" using i by (simp add: in_callback_def)
  ultimately show ?thesis using i(1) by blast
qed

section \<open>What the callback leaves\<close>

lemma advance_inner:
  assumes "in_callback ops s"
  shows "fs_ring (queue_advance s)" "fs_queue (queue_advance s) = ops" "sd_willing (queue_advance s)" "fs_inner s (queue_advance s)"
    "processing (queue_advance s) \<longleftrightarrow> ops \<noteq> []"
proof -
  note w = assms [unfolded in_callback_def]
  obtain op where q: "fs_queue s = op # ops" using w by blast
  have c: "0 < fs_count s" using q fs_queue_Nil [of s] by (auto simp: word_neq_0_conv)
  have r: "fs_ring s" using w by blast
  show "fs_ring (queue_advance s)" by (rule queue_advance_ok(1) [OF r c])
  show o: "fs_queue (queue_advance s) = ops" using queue_advance_ok(2) [OF r c] q by simp
  show "sd_willing (queue_advance s)" using w by (simp add: sd_willing_def queue_advance_def Let_def clear_flag_def)
  let ?s1 = "s\<lparr>fs_count := fs_count s - 1\<rparr>"
  have f: "has_flag g (queue_advance s) = has_flag g (if fs_count s - 1 = 0 then clear_flag FS_FLAG_PROCESSING ?s1 else ?s1)" for g
    by (simp add: queue_advance_def Let_def has_flag_def clear_flag_def)
  have g: "has_flag g (s\<lparr>fs_count := n\<rparr>) = has_flag g s" for g n by (simp add: has_flag_def)
  have e: "fs_count s - 1 = 0 \<longleftrightarrow> ops = []"
    using o fs_queue_Nil [of "queue_advance s"] by (simp add: queue_advance_def Let_def clear_flag_def)
  show "processing (queue_advance s) \<longleftrightarrow> ops \<noteq> []" using f e w g by simp
  have "fs_data (queue_advance s) = fs_data s" "FS_QUEUE_SIZE (queue_advance s) = FS_QUEUE_SIZE s"
    "FS_MAX_WRITE_SIZE_WORDS (queue_advance s) = FS_MAX_WRITE_SIZE_WORDS s" "FS_PAGE_SIZE (queue_advance s) = FS_PAGE_SIZE s"
    "cfg_dfu_signing (queue_advance s) = cfg_dfu_signing s"
    by (simp_all add: queue_advance_def Let_def clear_flag_def)
  moreover have "has_flag FS_FLAG_INITIALIZED (queue_advance s) = has_flag FS_FLAG_INITIALIZED s"
      "req_pending (queue_advance s) = req_pending s"
    using f g by simp_all
  ultimately show "fs_inner s (queue_advance s)" by (simp add: fs_inner_def same_config_def)
qed

definition fs_quiet :: "'m fs \<Rightarrow> bool" where
  "fs_quiet s \<longleftrightarrow> fs_ring s \<and> fs_queue s = [] \<and> \<not> processing s \<and> \<not> req_pending s \<and> sd_willing s"

lemma after_callback_idle:
  assumes "in_callback [] s" and "\<not> req_pending s"
  shows "ok (queue_process cb (queue_advance s)) (\<lambda>t. fs_quiet t \<and> fs_inner s t)"
proof -
  note a = advance_inner [OF assms(1)]
  have "\<not> 0 < fs_count (queue_advance s)" using a(2) fs_queue_Nil [of "queue_advance s"] by simp
  then have "queue_process cb (queue_advance s) = Inr (queue_advance s)" by (simp add: queue_process_def)
  then show ?thesis using a assms(2) by (simp add: fs_quiet_def fs_inner_def)
qed

lemma after_callback_work:
  assumes "in_callback [op] s" and "st_offset op = 0" and "er_pages_erased op = 0" and "0 < op_total op"
  shows "ok (queue_process cb (queue_advance s)) (\<lambda>t. at_work op 0 t \<and> fs_inner s t)"
proof -
  note a = advance_inner [OF assms(1)]
  have "ok (queue_process cb (queue_advance s)) (\<lambda>t. at_work op 0 t \<and> fs_inner (queue_advance s) t)"
    by (rule process_at_work) (use a assms(2-4) in \<open>simp_all add: op_at_0\<close>)
  then show ?thesis using a(4) by (auto elim!: ok_mono intro: fs_inner_trans)
qed

section \<open>Asking\<close>

text \<open>In a callback an operation that fits is appended; otherwise it is started at once.\<close>

lemma enqueue_in_callback:
  assumes "in_callback ops s" and "fs_count s \<noteq> FS_QUEUE_SIZE s"
  shows "fs_enqueue cb op s = Inr (FS_SUCCESS, fs_put op s)" "in_callback (ops @ [op]) (fs_put op s)" "fs_inner s (fs_put op s)"
proof -
  note w = assms(1) [unfolded in_callback_def]
  have r: "fs_ring s" "fs_count s < FS_QUEUE_SIZE s" using w assms(2) by (auto simp: fs_ring_def)
  show "fs_enqueue cb op s = Inr (FS_SUCCESS, fs_put op s)"
    using assms(2) w by (simp add: fs_enqueue_def queue_start_def)
  show "in_callback (ops @ [op]) (fs_put op s)"
    using w fs_put_ok [OF r, of op] by (auto simp: in_callback_def sd_willing_def fs_put_def has_flag_def)
  show "fs_inner s (fs_put op s)" by (simp add: fs_inner_def) (simp add: same_config_def fs_put_def has_flag_def)
qed

lemma enqueue_quiet:
  assumes "fs_quiet s" and "0 < FS_QUEUE_SIZE s" and "st_offset op = 0" and "er_pages_erased op = 0" and "0 < op_total op"
  shows "ok (fs_enqueue cb op s) (\<lambda>(r, t). r = FS_SUCCESS \<and> at_work op 0 t \<and> fs_inner s t)"
proof -
  note w = assms(1) [unfolded fs_quiet_def]
  let ?t = "set_flag FS_FLAG_PROCESSING (fs_put op s)"
  have c: "fs_count s = 0" using w fs_queue_Nil [of s] by simp
  then have n: "fs_count s \<noteq> FS_QUEUE_SIZE s" "fs_count s < FS_QUEUE_SIZE s" using assms(2) by auto
  have r: "fs_ring s" using w by blast
  have q: "quiet_update (fs_put op s) ?t" by simp
  have i: "fs_inner s ?t"
    by (simp add: fs_inner_def same_config_def config_fields)
  have "ok (queue_process cb ?t) (\<lambda>v. at_work op 0 v \<and> fs_inner ?t v)"
  proof (rule process_at_work)
    show "fs_ring ?t" "fs_queue ?t = [op_at op 0]"
      using fs_put_ok [OF r n(2), of op] w quiet_queue [OF q] assms(3,4) by (simp_all add: op_at_0)
  qed (use w assms(5) in \<open>simp_all add: sd_willing_def, simp_all add: set_flag_def fs_put_def\<close>)
  then have "ok (queue_process cb ?t) (\<lambda>v. at_work op 0 v \<and> fs_inner s v)"
    using i by (auto elim!: ok_mono intro: fs_inner_trans)
  then show ?thesis using n(1) w by (simp add: fs_enqueue_def queue_start_def)
qed

end
