(* ===== verification/FdsLink.thy ===== *)
theory FdsLink
  imports FdsSample FstorageWork
begin

text \<open>
  The flash data storage together with the flash storage module and the flash. \<open>carry_out\<close> is the SoftDevice carrying out the
  request at the head of the flash storage queue: the flash changes, piece by piece as \<open>FstorageWork\<close> says, and at the last piece the module
  calls back. What is written comes from the module's own variables or from memory (\<open>source_word\<close>); writing can only clear bits.
\<close>

unbundle bit_operations_syntax

section \<open>Two parts of the state\<close>

text \<open>What a function of fds.c itself changes does not touch the variables of fstorage.c.\<close>

definition fs_same :: "'m fds_st \<Rightarrow> 'm fds_st \<Rightarrow> bool" where
  "fs_same s t \<longleftrightarrow> fstorage.truncate t = fstorage.truncate s"

lemma fs_same_refl [simp]: "fs_same s s"
  by (simp add: fs_same_def)

lemma fs_same_trans: "fs_same s t \<Longrightarrow> fs_same t u \<Longrightarrow> fs_same s u"
  by (simp add: fs_same_def)

lemma fs_same_updates [simp]:
  "fs_same s (t\<lparr>m_flags := a1\<rparr>) = fs_same s t" "fs_same s (t\<lparr>m_latest_rec_id := a2\<rparr>) = fs_same s t"
  "fs_same s (t\<lparr>m_op_queue := a3\<rparr>) = fs_same s t" "fs_same s (t\<lparr>m_chunk_queue := a4\<rparr>) = fs_same s t"
  "fs_same s (t\<lparr>m_pages := a5\<rparr>) = fs_same s t" "fs_same s (t\<lparr>m_swap_page := a6\<rparr>) = fs_same s t"
  "fs_same s (t\<lparr>m_gc := a7\<rparr>) = fs_same s t" "fs_same s (t\<lparr>we_desc := a8\<rparr>) = fs_same s t"
  "fs_same s (t\<lparr>fd_tok := a9\<rparr>) = fs_same s t" "fs_same s (t\<lparr>fds_mem := a10\<rparr>) = fs_same s t"
  "fs_same s (t\<lparr>fds_evts := a11\<rparr>) = fs_same s t"
  by (cases t; simp add: fs_same_def fstorage.truncate_def)+

lemma fs_same_fields:
  assumes "fs_same s t"
  shows "fs_flags t = fs_flags s" "fs_op t = fs_op s" "fs_rp t = fs_rp s" "fs_count t = fs_count s" "fs_data t = fs_data s"
    "FS_QUEUE_SIZE t = FS_QUEUE_SIZE s" "FS_MAX_WRITE_SIZE_WORDS t = FS_MAX_WRITE_SIZE_WORDS s" "FS_PAGE_SIZE t = FS_PAGE_SIZE s"
    "cfg_dfu_signing t = cfg_dfu_signing s" "sd_n t = sd_n s" "sd_answers t = sd_answers s"
  using assms by (cases s, cases t, simp add: fs_same_def fstorage.truncate_def)+

lemma fs_same_queue:
  assumes "fs_same s t"
  shows "fs_ring t = fs_ring s" "fs_queue t = fs_queue s" "has_flag f t = has_flag f s" "sd_willing t = sd_willing s"
    "in_callback ops t = in_callback ops s" "at_work op j t = at_work op j s" "fs_quiet t = fs_quiet s" "same_config v t = same_config v s"
    "work_events op t = work_events op s" "op_piece op t = op_piece op s"
proof -
  note f = fs_same_fields [OF assms]
  show q: "fs_ring t = fs_ring s" "fs_queue t = fs_queue s" "has_flag f t = has_flag f s" "sd_willing t = sd_willing s" for f
    by (simp_all add: fs_ring_def fs_queue_def has_flag_def sd_willing_def f)
  show "in_callback ops t = in_callback ops s" "at_work op j t = at_work op j s" "fs_quiet t = fs_quiet s" "same_config v t = same_config v s"
    by (simp_all only: in_callback_def at_work_def fs_quiet_def same_config_def q f)
  show "work_events op t = work_events op s" "op_piece op t = op_piece op s"
    by (simp_all add: work_events_def op_piece_def f split: fs_op_code_t.split)
qed

text \<open>What fstorage changes does not touch the variables of fds.c.\<close>

lemma fds_more_fields:
  assumes "fstorage.more t = fstorage.more (s :: 'm fds_st)"
  shows "m_flags t = m_flags s" "m_cb_table t = m_cb_table s" "m_latest_rec_id t = m_latest_rec_id s" "m_op_queue t = m_op_queue s"
    "m_chunk_queue t = m_chunk_queue s" "m_pages t = m_pages s" "m_swap_page t = m_swap_page s" "m_gc t = m_gc s" "we_desc t = we_desc s"
    "fd_tok t = fd_tok s" "FDS_VIRTUAL_PAGE_SIZE t = FDS_VIRTUAL_PAGE_SIZE s" "FDS_PHY_PAGE_SIZE t = FDS_PHY_PAGE_SIZE s" "cfg_fds_crc t = cfg_fds_crc s" "fds_cfg t = fds_cfg s" "fds_mem t = fds_mem s"
    "op_header_addr t = op_header_addr s" "page_tag_swap_addr t = page_tag_swap_addr s" "page_tag_data_addr t = page_tag_data_addr s"
    "tl_dirty_addr t = tl_dirty_addr s" "uninit_op t = uninit_op s" "uninit_evt t = uninit_evt s" "fds_evts t = fds_evts s"
  using assms by (cases s, cases t, simp)+

lemmas fs_inner_fields = fds_more_fields [OF fs_inner_def [THEN iffD1, THEN conjunct1]]

lemma fs_inner_updates:
  assumes "fs_inner s (t :: 'm fds_st)"
  shows "fs_inner (s\<lparr>m_flags := a1\<rparr>) (t\<lparr>m_flags := a1\<rparr>)" "fs_inner (s\<lparr>m_op_queue := a3\<rparr>) (t\<lparr>m_op_queue := a3\<rparr>)"
    "fs_inner (s\<lparr>m_chunk_queue := a4\<rparr>) (t\<lparr>m_chunk_queue := a4\<rparr>)" "fs_inner (s\<lparr>m_pages := a5\<rparr>) (t\<lparr>m_pages := a5\<rparr>)"
    "fs_inner (s\<lparr>m_swap_page := a6\<rparr>) (t\<lparr>m_swap_page := a6\<rparr>)" "fs_inner (s\<lparr>m_gc := a7\<rparr>) (t\<lparr>m_gc := a7\<rparr>)"
    "fs_inner (s\<lparr>we_desc := a8\<rparr>) (t\<lparr>we_desc := a8\<rparr>)" "fs_inner (s\<lparr>fd_tok := a9\<rparr>) (t\<lparr>fd_tok := a9\<rparr>)"
    "fs_inner (s\<lparr>fds_mem := a10\<rparr>) (t\<lparr>fds_mem := a10\<rparr>)" "fs_inner (s\<lparr>fds_evts := a11\<rparr>) (t\<lparr>fds_evts := a11\<rparr>)"
  using assms by (cases s, cases t, simp add: fs_inner_def same_config_def has_flag_def)+

section \<open>The flash\<close>

definition m_fds_tl_dirty :: fds_tl_t where
  "m_fds_tl_dirty = \<lparr>record_key = FDS_RECORD_KEY_DIRTY, tl_length_words = 0xFFFF\<rparr>"

definition page_tag_swap :: "u32 list" where "page_tag_swap = [FDS_PAGE_TAG_MAGIC, FDS_PAGE_TAG_SWAP]"
definition page_tag_data :: "u32 list" where "page_tag_data = [FDS_PAGE_TAG_MAGIC, FDS_PAGE_TAG_DATA]"

definition header_words :: "fds_header_t \<Rightarrow> u32 list" where
  "header_words h = [word_of_tl (h_tl h), word_of_ic (h_ic h), record_id h]"

text \<open>The word at an address of one of the module's own variables.\<close>

definition word_in :: "u32 \<Rightarrow> u32 list \<Rightarrow> u32 \<Rightarrow> u32 option" where
  "word_in base ws a = (if unat (a - base) div 4 < length ws then Some (ws ! (unat (a - base) div 4)) else None)"

definition static_vars :: "'m fds_st \<Rightarrow> (u32 \<times> u32 list) list" where
  "static_vars s =
     map (\<lambda>i. (op_header_addr s i, header_words (w_header (oq_op (m_op_queue s) ! i)))) [0..<length (oq_op (m_op_queue s))] @
     [(page_tag_swap_addr s, page_tag_swap), (page_tag_data_addr s, page_tag_data), (tl_dirty_addr s, [word_of_tl m_fds_tl_dirty])]"

fun static_word :: "(u32 \<times> u32 list) list \<Rightarrow> u32 \<Rightarrow> u32 option" where
  "static_word [] a = None"
| "static_word ((base, ws) # vs) a = (case word_in base ws a of Some w \<Rightarrow> Some w | None \<Rightarrow> static_word vs a)"

definition source_word :: "'m fds_st \<Rightarrow> u32 \<Rightarrow> u32" where
  "source_word s a = (case static_word (static_vars s) a of Some w \<Rightarrow> w | None \<Rightarrow> fds_mem s a)"

definition program_words :: "u32 \<Rightarrow> nat \<Rightarrow> (nat \<Rightarrow> u32) \<Rightarrow> (u32 \<Rightarrow> u32) \<Rightarrow> u32 \<Rightarrow> u32" where
  "program_words dest n f m a =
     (if (a - dest) AND 3 = 0 \<and> unat (a - dest) div 4 < n then m a AND f (unat (a - dest) div 4) else m a)"

definition erase_words :: "u32 \<Rightarrow> nat \<Rightarrow> (u32 \<Rightarrow> u32) \<Rightarrow> u32 \<Rightarrow> u32" where
  "erase_words dest n m a = (if (a - dest) AND 3 = 0 \<and> unat (a - dest) div 4 < n then FDS_ERASED_WORD else m a)"

definition carried :: "fs_op_t \<Rightarrow> 'm fds_st \<Rightarrow> 'm fds_st" where
  "carried op s = s\<lparr>fds_mem :=
     (case op_op_code op of
        FS_OP_STORE \<Rightarrow> program_words (st_p_dest op) (unat (st_length_words op)) (\<lambda>k. source_word s (st_p_src op + of_nat (4 * k))) (fds_mem s)
      | FS_OP_ERASE \<Rightarrow> erase_words (ucast (er_page op) * FS_PAGE_SIZE s) (unat (er_pages_to_erase op) * unat (FS_PAGE_SIZE s) div 4) (fds_mem s)
      | FS_OP_NONE \<Rightarrow> fds_mem s)\<rparr>"

definition carry_out :: "'m fds_env \<Rightarrow> 'm fds_st \<Rightarrow> 'm fds_st result" where
  "carry_out E s =
     (let op = hd (fs_queue s) in
      then_do (fs_successes (fs_callbacks E) (work_events op s) s) (\<lambda>s1.
      fs_sys_event_handler (fs_callbacks E) NRF_EVT_FLASH_OPERATION_SUCCESS (carried op s1)))"

fun carry_outs :: "'m fds_env \<Rightarrow> nat \<Rightarrow> 'm fds_st \<Rightarrow> 'm fds_st result" where
  "carry_outs E 0 s = Inr s"
| "carry_outs E (Suc n) s = then_do (carry_out E s) (carry_outs E n)"

section \<open>One request\<close>

text \<open>fstorage is set up for this module, which has the callback with number 0.\<close>

definition fds_area :: "'m fds_st \<Rightarrow> fs_config_t" where "fds_area s = fs_data s ! fds_cfg s"

definition linked :: "'m fds_st \<Rightarrow> bool" where
  "linked s \<longleftrightarrow> fds_cfg s < length (fs_data s) \<and> fs_callback (fds_area s) = Some 0 \<and> has_flag FS_FLAG_INITIALIZED s \<and>
     1 < FS_QUEUE_SIZE s \<and> 0 < FS_MAX_WRITE_SIZE_WORDS s \<and> (FS_PAGE_SIZE s = 1024 \<or> FS_PAGE_SIZE s = 4096)"

lemma linked_inner: "fs_inner s t \<Longrightarrow> linked t = linked (s :: 'm fds_st)"
  using fs_inner_fields(14) [of s t] by (auto simp: linked_def fds_area_def fs_inner_def same_config_def)

lemma linked_same: "fs_same s t \<Longrightarrow> fds_cfg t = fds_cfg s \<Longrightarrow> linked t = linked s"
  using fs_same_queue(3) [of s t FS_FLAG_INITIALIZED] by (simp add: linked_def fds_area_def fs_same_fields)

lemma op_piece_pos: "linked s \<Longrightarrow> 0 < op_piece op s"
  by (auto simp: op_piece_def linked_def unat_gt_0 word_neq_0_conv split: fs_op_code_t.split)

definition our_op :: "'m fds_st \<Rightarrow> fs_op_t \<Rightarrow> bool" where
  "our_op s op \<longleftrightarrow> op_p_config op = Some (fds_cfg s) \<and> st_offset op = 0 \<and> er_pages_erased op = 0"

lemma carried_same: "fs_same s (carried op s)" "fds_cfg (carried op s) = fds_cfg s"
  by (simp_all add: carried_def)

lemma carried_inner:
  assumes "fs_inner s (t :: 'm fds_st)"
  shows "fs_inner (carried op s) (carried op t)"
proof -
  have "static_vars t = static_vars s" by (simp add: static_vars_def fs_inner_fields [OF assms])
  then have "source_word t = source_word s" by (simp add: source_word_def fun_eq_iff fs_inner_fields [OF assms] split: option.split)
  moreover have "FS_PAGE_SIZE t = FS_PAGE_SIZE s" using assms by (simp add: fs_inner_def same_config_def)
  ultimately show ?thesis
    unfolding carried_def by (simp only: fs_inner_fields [OF assms]) (rule fs_inner_updates(9) [OF assms])
qed

lemma carry_out_cases:
  assumes "at_work op 0 s" and "linked s" and "our_op s op"
  obtains u where "in_callback [] u" and "fs_inner (carried op s) u"
    and "carry_out E s = then_do (fds_queue_process E FS_SUCCESS u) (\<lambda>t. queue_process (fs_callbacks E) (queue_advance t))"
proof -
  let ?cb = "fs_callbacks E" and ?k = "work_events op s"
  have d: "0 < op_piece op s" using op_piece_pos assms(2) by blast
  have q: "fs_queue s = [op]" using assms(1,3) by (simp add: at_work_def our_op_def op_at_0)
  have t: "0 < op_total op" using assms(1) by (simp add: at_work_def)
  have "?k * op_piece op s \<le> op_total op - 1" unfolding work_events_def by (rule div_times_less_eq_dividend)
  then have "?k * op_piece op s < op_total op" using t by linarith
  then have "ok (fs_successes ?cb ?k s) (\<lambda>v. at_work op (?k * op_piece op s) v \<and> fs_inner s v)"
    using work_steps [OF d assms(1) same_config_refl, of ?k ?cb] by simp
  then obtain s1 where s1: "fs_successes ?cb ?k s = Inr s1" "at_work op (?k * op_piece op s) s1" "fs_inner s s1"
    by (auto simp: ok_iff)
  let ?s2 = "carried op s1"
  note same = carried_same [where s = s1 and op = op]
  have l: "linked ?s2" using assms(2) linked_inner [OF s1(3)] linked_same [OF same] by simp
  have w: "at_work op (?k * op_piece op s) ?s2" using s1(2) fs_same_queue(6) [OF same(1)] by simp
  have c: "same_config s ?s2" using s1(3) fs_same_queue(8) [OF same(1)] by (simp add: fs_inner_def)
  have "fds_cfg ?s2 = fds_cfg s" using same(2) fs_inner_fields(14) [OF s1(3)] by simp
  then have "the_config (op_p_config op) ?s2 = Inr (fds_area ?s2)"
    using l assms(3) by (simp add: our_op_def the_config_def load_at_def linked_def fds_area_def)
  moreover have "fs_callback (fds_area ?s2) = Some 0" using l by (simp add: linked_def)
  ultimately obtain evt u where u: "in_callback [] u" "fs_inner ?s2 u"
      "fs_sys_event_handler ?cb NRF_EVT_FLASH_OPERATION_SUCCESS ?s2 = then_do (?cb 0 evt FS_SUCCESS u) (\<lambda>t. queue_process ?cb (queue_advance t))"
    using work_done [OF w op_piece_pos [OF l] c] by blast
  have "?cb 0 evt FS_SUCCESS u = fds_queue_process E FS_SUCCESS u" by (simp add: fs_callbacks_def fs_event_handler_def)
  then show ?thesis
    using that [OF u(1)] u(2,3) s1(1) carried_inner [OF s1(3)] q
    by (auto simp: carry_out_def intro: fs_inner_trans)
qed

text \<open>The callback asks for the next request, or it does not.\<close>

lemma carry_out_work:
  assumes "at_work op 0 s" and "linked s" and "our_op s op" and "our_op s op'" and "0 < op_total op'"
    and "\<And>u. in_callback [] u \<Longrightarrow> fs_inner (carried op s) u \<Longrightarrow>
      ok (fds_queue_process E FS_SUCCESS u) (\<lambda>t. in_callback [op'] t \<and> fs_inner v t)"
  shows "ok (carry_out E s) (\<lambda>t. at_work op' 0 t \<and> fs_inner v t)"
proof -
  obtain u where u: "in_callback [] u" "fs_inner (carried op s) u"
    "carry_out E s = then_do (fds_queue_process E FS_SUCCESS u) (\<lambda>t. queue_process (fs_callbacks E) (queue_advance t))"
    using carry_out_cases [OF assms(1-3)] by metis
  show ?thesis unfolding u(3)
  proof (rule ok_then_doI [OF assms(6) [OF u(1,2)]])
    fix t assume t: "in_callback [op'] t \<and> fs_inner v t"
    then have "ok (queue_process (fs_callbacks E) (queue_advance t)) (\<lambda>t'. at_work op' 0 t' \<and> fs_inner t t')"
      using assms(4,5) by (intro after_callback_work) (simp_all add: our_op_def)
    then show "ok (queue_process (fs_callbacks E) (queue_advance t)) (\<lambda>t'. at_work op' 0 t' \<and> fs_inner v t')"
      using t by (auto elim!: ok_mono intro: fs_inner_trans)
  qed
qed

lemma carry_out_idle:
  assumes "at_work op 0 s" and "linked s" and "our_op s op"
    and "\<And>u. in_callback [] u \<Longrightarrow> fs_inner (carried op s) u \<Longrightarrow>
      ok (fds_queue_process E FS_SUCCESS u) (\<lambda>t. in_callback [] t \<and> fs_inner v t)"
    and "\<not> req_pending v"
  shows "ok (carry_out E s) (\<lambda>t. fs_quiet t \<and> fs_inner v t)"
proof -
  obtain u where u: "in_callback [] u" "fs_inner (carried op s) u"
    "carry_out E s = then_do (fds_queue_process E FS_SUCCESS u) (\<lambda>t. queue_process (fs_callbacks E) (queue_advance t))"
    using carry_out_cases [OF assms(1-3)] by metis
  show ?thesis unfolding u(3)
  proof (rule ok_then_doI [OF assms(4) [OF u(1,2)]])
    fix t assume t: "in_callback [] t \<and> fs_inner v t"
    then have "\<not> req_pending t" using assms(5) by (simp add: fs_inner_def)
    then have "ok (queue_process (fs_callbacks E) (queue_advance t)) (\<lambda>t'. fs_quiet t' \<and> fs_inner t t')"
      using t by (intro after_callback_idle) simp_all
    then show "ok (queue_process (fs_callbacks E) (queue_advance t)) (\<lambda>t'. fs_quiet t' \<and> fs_inner v t')"
      using t by (auto elim!: ok_mono intro: fs_inner_trans)
  qed
qed

section \<open>Asking for a store\<close>

definition store_args :: "'m fds_st \<Rightarrow> u32 \<Rightarrow> u32 \<Rightarrow> u16 \<Rightarrow> bool" where
  "store_args s dest src n \<longleftrightarrow> src \<noteq> 0 \<and> dest \<noteq> 0 \<and> src AND 3 = 0 \<and> dest AND 3 = 0 \<and> n \<noteq> 0 \<and>
     p_start_addr (fds_area s) \<le> dest \<and> unat dest + 4 * unat n \<le> unat (p_end_addr (fds_area s))"

definition fds_store_op :: "'m fds_st \<Rightarrow> u32 \<Rightarrow> u32 \<Rightarrow> u16 \<Rightarrow> fs_op_t" where
  "fds_store_op s dest src n = store_op_of (Some (fds_cfg s)) dest src n 0"

lemma store_op_simps [simp]:
  "our_op s (fds_store_op s dest src n)" "op_total (fds_store_op s dest src n) = unat n"
  "st_p_dest (fds_store_op s dest src n) = dest" "st_p_src (fds_store_op s dest src n) = src"
  "st_length_words (fds_store_op s dest src n) = n" "op_op_code (fds_store_op s dest src n) = FS_OP_STORE"
  by (simp_all add: fds_store_op_def store_op_of_def our_op_def fs_op_zero_def op_total_def)

lemma store_words_enqueue:
  assumes "fs_ring s" and "linked s" and "store_args s dest src n"
  shows "store_words cb dest src n s = then_do (fs_enqueue cb (fds_store_op s dest src n) s) (\<lambda>(r, t). Inr (fs_code r, t))"
proof -
  have "unat (4 * ucast n :: u32) = 4 * unat n"
    using unsigned_less [of n, where 'a = nat] by (simp add: unat_word_ariths unat_ucast_u16)
  then have "unat (dest + 4 * ucast n) = unat dest + 4 * unat n"
    using assms(3) unsigned_less [of "p_end_addr (fds_area s)", where 'a = nat] by (simp add: store_args_def unat_word_ariths)
  then have "\<not> p_end_addr (fds_area s) < dest + 4 * ucast n" using assms(3) by (simp add: store_args_def word_less_nat_alt)
  then show ?thesis
    using fs_store_cases [OF assms(1), of cb "Some (fds_cfg s)" dest src n 0] assms(2,3)
    by (auto simp: store_words_def fds_store_op_def linked_def store_args_def check_config_def the_config_def load_at_def fds_area_def
        simp flip: not_le)
qed

lemma store_in_callback:
  assumes "in_callback [] s" and "linked s" and "store_args s dest src n"
  defines "t \<equiv> fs_put (fds_store_op s dest src n) s"
  shows "store_words cb dest src n s = Inr (0, t)" "in_callback [fds_store_op s dest src n] t" "fs_inner s t"
proof -
  have r: "fs_ring s" using assms(1) by (simp add: in_callback_def)
  obtain op where "fs_queue s = [op]" using assms(1) by (auto simp: in_callback_def)
  then have "unat (fs_count s) = 1" using length_fs_queue [of s] by simp
  then have c: "fs_count s \<noteq> FS_QUEUE_SIZE s" using assms(2) by (auto simp: linked_def word_less_nat_alt)
  note e = enqueue_in_callback [OF assms(1) c]
  show "store_words cb dest src n s = Inr (0, t)" unfolding store_words_enqueue [OF r assms(2,3)] e t_def by simp
  show "in_callback [fds_store_op s dest src n] t" "fs_inner s t" using e by (simp_all add: t_def)
qed

lemma store_quiet:
  assumes "fs_quiet s" and "linked s" and "store_args s dest src n"
  shows "ok (store_words cb dest src n s) (\<lambda>(r, t). r = 0 \<and> at_work (fds_store_op s dest src n) 0 t \<and> fs_inner s t)"
proof -
  have r: "fs_ring s" using assms(1) by (simp add: fs_quiet_def)
  have "0 < FS_QUEUE_SIZE s" using assms(2) by (auto simp: linked_def word_less_nat_alt)
  then have "ok (fs_enqueue cb (fds_store_op s dest src n) s) (\<lambda>(r, t). r = FS_SUCCESS \<and> at_work (fds_store_op s dest src n) 0 t \<and> fs_inner s t)"
    by (rule enqueue_quiet [OF assms(1)])
      (use assms(3) store_op_simps(1) [of s dest src n] in \<open>auto simp: our_op_def store_args_def unat_gt_0\<close>)
  then show ?thesis unfolding store_words_enqueue [OF r assms(2,3)] by (auto simp: ok_iff)
qed

end
