(* ===== verification/FdsQueues.thy ===== *)
theory FdsQueues
  imports FdsSample
begin

text \<open>
  The two queues of the flash data storage, of operations and of the chunks of their records, are bounded queues; what is entered together leaves in
  order. Where the code leaves the abstract queue: the chunks of a failed operation.
\<close>

unbundle bit_operations_syntax

section \<open>Positions\<close>

lemma unat_of_nat_len: "n < 2 ^ 31 \<Longrightarrow> unat (of_nat n :: u32) = n"
  by (rule unat_of_nat_u32) simp

lemma unat_mod_len:
  assumes "n < 2 ^ 31" and "unat a < 2 ^ 31" and "unat b < 2 ^ 31"
  shows "unat ((a + b) mod (of_nat n :: u32)) = (unat a + unat b) mod n"
proof -
  have "unat (a + b) = unat a + unat b" using assms(2,3) by (subst unat_add_lem [THEN iffD1]) simp_all
  then show ?thesis using assms(1) by (simp add: unat_mod_distrib unat_of_nat_len)
qed

lemma ring_slice_other:
  assumes "unat n < length buf" and "st < length buf"
  shows "ring_slice (buf[st := x]) (Suc st mod length buf) (unat n) = ring_slice buf (Suc st mod length buf) (unat n)"
proof (rule nth_equalityI)
  fix i assume "i < length (ring_slice (buf[st := x]) (Suc st mod length buf) (unat n))"
  then have i: "i < unat n" by simp
  have "(st + Suc i) mod length buf \<noteq> (st + 0) mod length buf"
    using mod_add_inj_less [of 0 "Suc i" "length buf" st] i assms(1) by fastforce
  then have "Suc (st + i) mod length buf \<noteq> st" using assms(2) by simp
  then show "ring_slice (buf[st := x]) (Suc st mod length buf) (unat n) ! i = ring_slice buf (Suc st mod length buf) (unat n) ! i"
    using i by (simp add: ring_slice_nth mod_simps nth_list_update)
qed simp

section \<open>The chunk queue\<close>

definition chunk_ring :: "fds_chunk_queue_t \<Rightarrow> bool" where
  "chunk_ring q \<longleftrightarrow> length (cq_chunk q) < 2 ^ 31 \<and> unat (cq_rp q) < length (cq_chunk q) \<and> unat (cq_count q) \<le> length (cq_chunk q)"

definition chunk_list :: "fds_chunk_queue_t \<Rightarrow> fds_record_chunk_t list" where
  "chunk_list q = ring_slice (cq_chunk q) (unat (cq_rp q)) (unat (cq_count q))"

definition chunk_end :: "fds_chunk_queue_t \<Rightarrow> nat" where
  "chunk_end q = (unat (cq_rp q) + unat (cq_count q)) mod length (cq_chunk q)"

definition chunk_put :: "fds_record_chunk_t \<Rightarrow> fds_chunk_queue_t \<Rightarrow> fds_chunk_queue_t" where
  "chunk_put c q = q\<lparr>cq_chunk := (cq_chunk q)[chunk_end q := c], cq_count := cq_count q + 1\<rparr>"

definition chunk_take :: "fds_chunk_queue_t \<Rightarrow> fds_chunk_queue_t" where
  "chunk_take q = q\<lparr>cq_rp := (cq_rp q + 1) mod of_nat (length (cq_chunk q)), cq_count := cq_count q - 1\<rparr>"

lemma length_chunk_list [simp]: "length (chunk_list q) = unat (cq_count q)"
  by (simp add: chunk_list_def)

lemma chunk_list_Nil [simp]: "chunk_list q = [] \<longleftrightarrow> cq_count q = 0"
  by (simp add: chunk_list_def unat_eq_0)

lemma unat_suc_u32: "unat (x :: u32) < 2 ^ 31 \<Longrightarrow> unat (x + 1) = Suc (unat x)"
  by (subst unat_add_lem [THEN iffD1]) simp_all

lemma chunk_put_ok:
  assumes "chunk_ring q" and "unat (cq_count q) < length (cq_chunk q)"
  shows "chunk_ring (chunk_put c q)" "chunk_list (chunk_put c q) = chunk_list q @ [c]"
    "length (cq_chunk (chunk_put c q)) = length (cq_chunk q)"
proof -
  have u: "unat (cq_count q + 1) = Suc (unat (cq_count q))"
    using assms by (intro unat_suc_u32) (simp add: chunk_ring_def)
  show "chunk_ring (chunk_put c q)" using assms u by (simp add: chunk_ring_def chunk_put_def)
  show "chunk_list (chunk_put c q) = chunk_list q @ [c]"
    using ring_slice_snoc [OF assms(2)] u by (simp add: chunk_list_def chunk_put_def chunk_end_def)
  show "length (cq_chunk (chunk_put c q)) = length (cq_chunk q)" by (simp add: chunk_put_def)
qed

lemma chunk_take_ok:
  assumes "chunk_ring q" and "cq_count q \<noteq> 0"
  shows "chunk_ring (chunk_take q)" "chunk_list (chunk_take q) = tl (chunk_list q)"
    "length (cq_chunk (chunk_take q)) = length (cq_chunk q)"
proof -
  have c: "0 < unat (cq_count q)" using assms(2) by (simp add: unat_gt_0)
  have n: "unat (cq_count q - 1) = unat (cq_count q) - 1" using assms(2) by (rule unat_minus_one)
  have r: "unat ((cq_rp q + 1) mod of_nat (length (cq_chunk q))) = Suc (unat (cq_rp q)) mod length (cq_chunk q)"
    using unat_mod_len [of "length (cq_chunk q)" "cq_rp q" 1] assms(1) by (simp add: chunk_ring_def)
  have l: "0 < length (cq_chunk q)" using assms(1) by (auto simp: chunk_ring_def)
  show "chunk_ring (chunk_take q)" using assms(1) n r l by (auto simp: chunk_ring_def chunk_take_def)
  show "chunk_list (chunk_take q) = tl (chunk_list q)"
    using ring_slice_tl [OF c] n r by (simp add: chunk_list_def chunk_take_def)
  show "length (cq_chunk (chunk_take q)) = length (cq_chunk q)" by (simp add: chunk_take_def)
qed

lemma chunk_hd: "chunk_ring q \<Longrightarrow> cq_count q \<noteq> 0 \<Longrightarrow> cq_chunk q ! unat (cq_rp q) = hd (chunk_list q)"
  using ring_slice_hd [of "unat (cq_count q)" "cq_chunk q" "unat (cq_rp q)"]
  by (simp add: chunk_list_def chunk_ring_def unat_gt_0)

interpretation cq: bounded_queue chunk_ring chunk_list "\<lambda>q. length (cq_chunk q)" chunk_put chunk_take "\<lambda>q. cq_chunk q ! unat (cq_rp q)"
  by unfold_locales (simp_all add: chunk_put_ok chunk_take_ok chunk_hd, simp add: chunk_ring_def)

section \<open>The queue of operations\<close>

definition op_ring :: "fds_op_queue_t \<Rightarrow> bool" where
  "op_ring q \<longleftrightarrow> length (oq_op q) < 2 ^ 31 \<and> unat (oq_rp q) < length (oq_op q) \<and> unat (oq_count q) \<le> length (oq_op q)"

definition op_list :: "fds_op_queue_t \<Rightarrow> fds_op_t list" where
  "op_list q = ring_slice (oq_op q) (unat (oq_rp q)) (unat (oq_count q))"

definition op_end :: "fds_op_queue_t \<Rightarrow> nat" where
  "op_end q = (unat (oq_rp q) + unat (oq_count q)) mod length (oq_op q)"

definition op_put :: "fds_op_t \<Rightarrow> fds_op_queue_t \<Rightarrow> fds_op_queue_t" where
  "op_put op q = q\<lparr>oq_op := (oq_op q)[op_end q := op], oq_count := oq_count q + 1\<rparr>"

definition op_take :: "fds_op_queue_t \<Rightarrow> fds_op_queue_t" where
  "op_take q = q\<lparr>oq_op := (oq_op q)[unat (oq_rp q) := fds_op_zero], oq_rp := (oq_rp q + 1) mod of_nat (length (oq_op q)),
                 oq_count := oq_count q - 1\<rparr>"

lemma length_op_list [simp]: "length (op_list q) = unat (oq_count q)"
  by (simp add: op_list_def)

lemma op_list_Nil [simp]: "op_list q = [] \<longleftrightarrow> oq_count q = 0"
  by (simp add: op_list_def unat_eq_0)

lemma op_put_ok:
  assumes "op_ring q" and "unat (oq_count q) < length (oq_op q)"
  shows "op_ring (op_put op q)" "op_list (op_put op q) = op_list q @ [op]" "length (oq_op (op_put op q)) = length (oq_op q)"
proof -
  have u: "unat (oq_count q + 1) = Suc (unat (oq_count q))"
    using assms by (intro unat_suc_u32) (simp add: op_ring_def)
  show "op_ring (op_put op q)" using assms u by (simp add: op_ring_def op_put_def)
  show "op_list (op_put op q) = op_list q @ [op]"
    using ring_slice_snoc [OF assms(2)] u by (simp add: op_list_def op_put_def op_end_def)
  show "length (oq_op (op_put op q)) = length (oq_op q)" by (simp add: op_put_def)
qed

lemma op_take_ok:
  assumes "op_ring q" and "oq_count q \<noteq> 0"
  shows "op_ring (op_take q)" "op_list (op_take q) = tl (op_list q)" "length (oq_op (op_take q)) = length (oq_op q)"
proof -
  have c: "0 < unat (oq_count q)" using assms(2) by (simp add: unat_gt_0)
  have n: "unat (oq_count q - 1) = unat (oq_count q) - 1" using assms(2) by (rule unat_minus_one)
  have r: "unat ((oq_rp q + 1) mod of_nat (length (oq_op q))) = Suc (unat (oq_rp q)) mod length (oq_op q)"
    using unat_mod_len [of "length (oq_op q)" "oq_rp q" 1] assms(1) by (simp add: op_ring_def)
  have l: "0 < length (oq_op q)" using assms(1) by (auto simp: op_ring_def)
  show "op_ring (op_take q)" using assms(1) n r l by (auto simp: op_ring_def op_take_def)
  have m: "unat (oq_count q - 1) < length (oq_op q)" using assms(1) n c unfolding op_ring_def by linarith
  have "unat (oq_rp q) < length (oq_op q)" using assms(1) by (simp add: op_ring_def)
  then show "op_list (op_take q) = tl (op_list q)"
    using ring_slice_tl [OF c, of "oq_op q" "unat (oq_rp q)"] r ring_slice_other [OF m, of "unat (oq_rp q)" fds_op_zero]
    by (simp add: op_list_def op_take_def n)
  show "length (oq_op (op_take q)) = length (oq_op q)" by (simp add: op_take_def)
qed

lemma op_hd: "op_ring q \<Longrightarrow> oq_count q \<noteq> 0 \<Longrightarrow> oq_op q ! unat (oq_rp q) = hd (op_list q)"
  using ring_slice_hd [of "unat (oq_count q)" "oq_op q" "unat (oq_rp q)"]
  by (simp add: op_list_def op_ring_def unat_gt_0)

interpretation oq: bounded_queue op_ring op_list "\<lambda>q. length (oq_op q)" op_put op_take "\<lambda>q. oq_op q ! unat (oq_rp q)"
  by unfold_locales (simp_all add: op_put_ok op_take_ok op_hd, simp add: op_ring_def)

section \<open>The code\<close>

lemma op_queue_advance_ok:
  assumes "op_ring (m_op_queue s)" and "oq_count (m_op_queue s) \<noteq> 0"
  shows "op_queue_advance s = Inr (length (op_list (m_op_queue s)) \<noteq> 1, s\<lparr>m_op_queue := op_take (m_op_queue s)\<rparr>)"
proof -
  have "oq_count (m_op_queue s) - 1 \<noteq> 0 \<longleftrightarrow> unat (oq_count (m_op_queue s)) \<noteq> 1"
    by (metis eq_iff_diff_eq_0 unsigned_1 word_unat_eq_iff)
  then show ?thesis
    using assms by (simp add: op_queue_advance_def set_op_def store_at_def op_ring_def Let_def op_take_def FDS_OP_QUEUE_SIZE_def)
qed

lemma chunk_get_ok:
  assumes "chunk_ring (m_chunk_queue s)" and "cq_count (m_chunk_queue s) \<noteq> 0"
  shows "chunk_queue_get_and_advance s = (Some (unat (cq_rp (m_chunk_queue s))), s\<lparr>m_chunk_queue := chunk_take (m_chunk_queue s)\<rparr>)"
    "load_at (cq_chunk (m_chunk_queue s)) (unat (cq_rp (m_chunk_queue s))) = Inr (hd (chunk_list (m_chunk_queue s)))"
  using assms chunk_hd [OF assms]
  by (simp_all add: chunk_queue_get_and_advance_def Let_def chunk_take_def FDS_CHUNK_QUEUE_SIZE_def load_at_def chunk_ring_def)

lemma put_chunks_ok:
  assumes "chunk_ring q" and "unat (cq_count q) + n \<le> length (cq_chunk q)" and "i + n \<le> length cs"
    and "m_chunk_queue s = q\<lparr>cq_count := c0\<rparr>"
  shows "put_chunks cs i n (chunk_end q) s =
    Inr (s\<lparr>m_chunk_queue := (fold chunk_put (take n (drop i cs)) q)\<lparr>cq_count := c0\<rparr>\<rparr>)"
  using assms
proof (induction n arbitrary: i q s)
  case 0
  then show ?case by simp
next
  case (Suc n)
  let ?q = "chunk_put (cs ! i) q" and ?N = "length (cq_chunk q)"
  have z: "0 < ?N" using Suc.prems(2) by linarith
  have l: "unat (cq_count q) < ?N" "chunk_end q < ?N" using Suc.prems(2) z by (simp, simp only: chunk_end_def mod_less_divisor)
  note p = chunk_put_ok [OF Suc.prems(1) l(1), of "cs ! i"]
  have u: "unat (cq_count q + 1) = Suc (unat (cq_count q))"
    using Suc.prems(1) l by (intro unat_suc_u32) (simp add: chunk_ring_def)
  have "unat (of_nat ?N - 1 :: u32) = ?N - 1"
    using Suc.prems(1) l unat_of_nat_len [of ?N] unat_minus_one [of "of_nat ?N :: u32"]
    by (metis chunk_ring_def not_less_zero unsigned_0)
  then have nxt: "chunk_queue_next (chunk_end q) s = chunk_end ?q"
    using l u Suc.prems(4)
    by (auto simp: chunk_queue_next_def FDS_CHUNK_QUEUE_SIZE_def chunk_end_def chunk_put_def mod_Suc)
  let ?s = "s\<lparr>m_chunk_queue := ?q\<lparr>cq_count := c0\<rparr>\<rparr>"
  have s: "s\<lparr>m_chunk_queue := (m_chunk_queue s)\<lparr>cq_chunk := (cq_chunk q)[chunk_end q := cs ! i]\<rparr>\<rparr> = ?s"
    using Suc.prems(4) by (simp add: chunk_put_def)
  have IH: "put_chunks cs (Suc i) n (chunk_end ?q) ?s = Inr (?s\<lparr>m_chunk_queue := (fold chunk_put (take n (drop (Suc i) cs)) ?q)\<lparr>cq_count := c0\<rparr>\<rparr>)"
    by (rule Suc.IH) (use Suc.prems p l u in \<open>simp_all add: chunk_put_def\<close>)
  have "take (Suc n) (drop i cs) = cs ! i # take n (drop (Suc i) cs)"
    using Suc.prems(3) by (simp add: Cons_nth_drop_Suc [symmetric])
  moreover have "cq_chunk (m_chunk_queue s) = cq_chunk q" using Suc.prems(4) by simp
  moreover have "load_at cs i = Inr (cs ! i)" "store_at (cq_chunk q) (chunk_end q) (cs ! i) = Inr ((cq_chunk q)[chunk_end q := cs ! i])"
    using Suc.prems(3) l by (simp_all add: load_at_def store_at_def)
  ultimately show ?case using IH s nxt by simp
qed

text \<open>Both queues have room.\<close>

lemma op_enqueue_ok:
  assumes "op_ring (m_op_queue s)" and "chunk_ring (m_chunk_queue s)" and "unat (oq_count (m_op_queue s)) < length (oq_op (m_op_queue s))"
    and "unat (cq_count (m_chunk_queue s)) + unat n \<le> length (cq_chunk (m_chunk_queue s))" and "unat n \<le> length cs"
  shows "op_enqueue op n cs s =
    Inr (True, s\<lparr>m_op_queue := op_put op (m_op_queue s), m_chunk_queue := fold chunk_put (take (unat n) cs) (m_chunk_queue s)\<rparr>)"
proof -
  let ?oq = "m_op_queue s" and ?cq = "m_chunk_queue s"
  let ?N = "length (oq_op ?oq)" and ?C = "length (cq_chunk ?cq)"
  have N: "?N < 2 ^ 31" "?C < 2 ^ 31" "0 < ?N" "0 < ?C" using assms(1,2) by (auto simp: op_ring_def chunk_ring_def)
  have "unat (of_nat ?N - 1 :: u32) = ?N - 1"
    using N unat_of_nat_len [of ?N] unat_minus_one [of "of_nat ?N :: u32"] by (metis not_less_zero unsigned_0)
  then have c1: "oq_count ?oq \<le> FDS_OP_QUEUE_SIZE s - 1" using assms(3) by (simp add: word_le_nat_alt FDS_OP_QUEUE_SIZE_def)
  have n: "n \<le> of_nat ?C" using assms(4) N by (simp add: word_le_nat_alt unat_of_nat_len)
  have "unat (of_nat ?C - n) = ?C - unat n" using unat_sub [OF n] N by (simp add: unat_of_nat_len)
  then have c2: "cq_count ?cq \<le> FDS_CHUNK_QUEUE_SIZE s - n" using assms(4) by (simp add: word_le_nat_alt FDS_CHUNK_QUEUE_SIZE_def)
  have e: "unat ((oq_count ?oq + oq_rp ?oq) mod FDS_OP_QUEUE_SIZE s) = op_end ?oq"
    using unat_mod_len [OF N(1), of "oq_count ?oq" "oq_rp ?oq"] assms(1) N
    by (simp add: FDS_OP_QUEUE_SIZE_def op_end_def op_ring_def add.commute)
  have d: "unat ((cq_count ?cq + cq_rp ?cq) mod of_nat ?C) = chunk_end ?cq"
    using unat_mod_len [OF N(2), of "cq_count ?cq" "cq_rp ?cq"] assms(2) N
    by (simp add: chunk_end_def chunk_ring_def add.commute)
  have oe: "op_end ?oq < ?N" using N by (simp add: op_end_def)
  let ?s = "s\<lparr>m_op_queue := op_put op ?oq\<rparr>"
  have set: "set_op (op_end ?oq) op s = Inr (s\<lparr>m_op_queue := ?oq\<lparr>oq_op := (oq_op ?oq)[op_end ?oq := op]\<rparr>\<rparr>)"
    using oe by (simp add: set_op_def store_at_def)
  have put: "put_chunks cs 0 (unat n) (chunk_end ?cq) ?s =
      Inr (?s\<lparr>m_chunk_queue := (fold chunk_put (take (unat n) cs) ?cq)\<lparr>cq_count := cq_count ?cq\<rparr>\<rparr>)"
    using put_chunks_ok [OF assms(2,4), of 0 cs ?s "cq_count ?cq"] assms(5) by simp
  have "cq_count (fold chunk_put xs q) = cq_count q + of_nat (length xs)" for xs q
    by (induction xs arbitrary: q) (simp_all add: chunk_put_def)
  then have cnt: "cq_count (fold chunk_put (take (unat n) cs) ?cq) = cq_count ?cq + n" using assms(5) by (simp add: min_def)
  show ?thesis
  proof (cases "n = 0")
    case True
    then show ?thesis using c1 c2 set by (simp add: op_enqueue_def Let_def e op_put_def)
  next
    case False
    have "s\<lparr>m_op_queue := (?oq\<lparr>oq_op := (oq_op ?oq)[op_end ?oq := op]\<rparr>)\<lparr>oq_count := oq_count ?oq + 1\<rparr>\<rparr> = ?s" by (simp add: op_put_def)
    moreover have "(fold chunk_put (take (unat n) cs) ?cq)\<lparr>cq_count := cq_count ?cq + n\<rparr> = fold chunk_put (take (unat n) cs) ?cq"
      using cnt by (cases "fold chunk_put (take (unat n) cs) ?cq") simp
    ultimately show ?thesis
      using False c1 c2 set put
      by (simp add: op_enqueue_def Let_def e d FDS_CHUNK_QUEUE_SIZE_def)
  qed
qed

text \<open>One of them has not.\<close>

lemma op_enqueue_full:
  assumes "op_ring (m_op_queue s)" and "chunk_ring (m_chunk_queue s)" and "unat n \<le> length (cq_chunk (m_chunk_queue s))"
    and "unat (oq_count (m_op_queue s)) = length (oq_op (m_op_queue s)) \<or>
      length (cq_chunk (m_chunk_queue s)) < unat (cq_count (m_chunk_queue s)) + unat n"
  shows "op_enqueue op n cs s = Inr (False, s)"
proof -
  let ?oq = "m_op_queue s" and ?cq = "m_chunk_queue s"
  let ?N = "length (oq_op ?oq)" and ?C = "length (cq_chunk ?cq)"
  have N: "?N < 2 ^ 31" "?C < 2 ^ 31" "0 < ?N" "0 < ?C" using assms(1,2) by (auto simp: op_ring_def chunk_ring_def)
  have o: "unat (of_nat ?N - 1 :: u32) = ?N - 1"
    using N unat_of_nat_len [of ?N] unat_minus_one [of "of_nat ?N :: u32"] by (metis not_less_zero unsigned_0)
  have n: "n \<le> of_nat ?C" using assms(3) N by (simp add: word_le_nat_alt unat_of_nat_len)
  have c: "unat (of_nat ?C - n) = ?C - unat n" using unat_sub [OF n] N by (simp add: unat_of_nat_len)
  have "\<not> (unat (oq_count ?oq) \<le> ?N - 1 \<and> unat (cq_count ?cq) \<le> ?C - unat n)"
    by (rule notI, rule disjE [OF assms(4)]) (use N assms(3) in linarith)+
  then have "\<not> (oq_count ?oq \<le> FDS_OP_QUEUE_SIZE s - 1 \<and> cq_count ?cq \<le> FDS_CHUNK_QUEUE_SIZE s - n)"
    unfolding word_le_nat_alt FDS_OP_QUEUE_SIZE_def FDS_CHUNK_QUEUE_SIZE_def o c .
  then show ?thesis unfolding op_enqueue_def Let_def by (rule if_not_P)
qed

end
