(* ===== verification/FdsFlash.thy ===== *)
theory FdsFlash
  imports FdsLink FdsQueues
begin

text \<open>
  What is in the flash: a record as a list of words, where a request takes its words from, and how the list of
  records of a page grows by the record that is being written.
\<close>

unbundle bit_operations_syntax

section \<open>Words of a region\<close>

text \<open>The address of word \<open>k\<close> from \<open>p\<close>, with room for \<open>n\<close> words.\<close>

definition word_at :: "u32 \<Rightarrow> nat \<Rightarrow> u32" where "word_at p k = p + of_nat (4 * k)"

definition fits :: "u32 \<Rightarrow> nat \<Rightarrow> bool" where "fits p n \<longleftrightarrow> unat p + 4 * n < 2 ^ 32"

lemma unat_word_at: "fits p n \<Longrightarrow> k \<le> n \<Longrightarrow> unat (word_at p k) = unat p + 4 * k"
  unfolding word_at_def by (rule jump_forward) (simp add: fits_def)

lemma word_at_0 [simp]: "word_at p 0 = p"
  by (simp add: word_at_def)

lemma word_at_add: "word_at (word_at p j) k = word_at p (j + k)"
  by (simp add: word_at_def)

lemma fits_mono: "fits p n \<Longrightarrow> k \<le> n \<Longrightarrow> fits p k"
  by (simp add: fits_def)

lemma fits_shift: "fits p n \<Longrightarrow> j + k \<le> n \<Longrightarrow> fits (word_at p j) k"
  using unat_word_at [of p n j] by (simp add: fits_def)

lemma and_3: "(a :: u32) AND 3 = 0 \<longleftrightarrow> 4 dvd unat a"
proof -
  have "(3 :: u32) = mask 2" by (simp add: mask_eq_exp_minus_1)
  then have "unat (a AND 3) = unat a mod 4" using unat_and_mask [of a 2] by simp
  then show ?thesis by (metis dvd_eq_mod_eq_0 unat_eq_0)
qed

lemma aligned_word_at: "p AND 3 = 0 \<Longrightarrow> fits p n \<Longrightarrow> k \<le> n \<Longrightarrow> word_at p k AND 3 = 0"
  by (simp add: and_3 unat_word_at)

text \<open>An address is a word of the region, or it is none.\<close>

definition index_in :: "u32 \<Rightarrow> u32 \<Rightarrow> nat \<Rightarrow> nat option" where
  "index_in a p n = (if (a - p) AND 3 = 0 \<and> unat (a - p) div 4 < n then Some (unat (a - p) div 4) else None)"

lemma index_in_word_at: "fits p n \<Longrightarrow> index_in (word_at p k) p n = (if k < n then Some k else None)" if "k < 2 ^ 30"
proof -
  have "unat (of_nat (4 * k) :: u32) = 4 * k" by (rule unat_of_nat_u32) (use that in simp)
  then show ?thesis by (simp add: index_in_def word_at_def and_3)
qed

lemma index_in_Some: "index_in a p n = Some k \<Longrightarrow> k < n \<and> a = word_at p k"
proof -
  assume i: "index_in a p n = Some k"
  then have k: "4 dvd unat (a - p)" "k = unat (a - p) div 4" "k < n"
    by (auto simp: index_in_def and_3 split: if_splits)
  then have "unat (a - p) = 4 * k" by simp
  moreover have "unat (of_nat (4 * k) :: u32) = 4 * k"
    using \<open>unat (a - p) = 4 * k\<close> unsigned_less [of "a - p", where 'a = nat] by (intro unat_of_nat_u32) simp
  ultimately have "a - p = of_nat (4 * k)" by (simp only: word_unat_eq_iff)
  then have "a = p + of_nat (4 * k)" by (simp only: diff_eq_eq add.commute)
  then show ?thesis using k(3) by (simp add: word_at_def)
qed

lemma program_words_index:
  "program_words dest n f m a = (case index_in a dest n of Some k \<Rightarrow> m a AND f k | None \<Rightarrow> m a)"
  by (simp add: program_words_def index_in_def)

text \<open>Words \<open>W\<close> of a record are in the flash.\<close>

definition put_words :: "u32 \<Rightarrow> u32 list \<Rightarrow> nat set \<Rightarrow> (u32 \<Rightarrow> u32) \<Rightarrow> u32 \<Rightarrow> u32" where
  "put_words p ws W m a = (case index_in a p (length ws) of Some k \<Rightarrow> if k \<in> W then ws ! k else m a | None \<Rightarrow> m a)"

lemma put_words_at:
  assumes "fits p n" and "k < n"
  shows "put_words p ws W m (word_at p k) = (if k < length ws \<and> k \<in> W then ws ! k else m (word_at p k))"
proof -
  have "k < 2 ^ 30" using assms by (simp add: fits_def)
  have "(word_at p k - p) AND 3 = 0 \<and> unat (word_at p k - p) div 4 = k"
  proof -
    have "unat (of_nat (4 * k) :: u32) = 4 * k" by (rule unat_of_nat_u32) (use \<open>k < 2 ^ 30\<close> in simp)
    then show ?thesis by (simp add: word_at_def and_3)
  qed
  then show ?thesis by (simp add: put_words_def index_in_def)
qed

lemma put_words_outside: "\<forall>k < length ws. a \<noteq> word_at p k \<Longrightarrow> put_words p ws W m a = m a"
  using index_in_Some [of a p "length ws"] by (auto simp: put_words_def split: option.split)

lemma put_words_none: "put_words p ws {} m = m"
  by (auto simp: put_words_def fun_eq_iff split: option.split)

text \<open>A request that writes some of the words of a record to erased flash.\<close>

lemma program_put_words:
  assumes "fits p (length ws)" and "j + n \<le> length ws" and "W \<inter> {j..<j + n} = {}"
    and "\<forall>k < n. f k = ws ! (j + k)" and "\<forall>k < n. m (word_at p (j + k)) = FDS_ERASED_WORD"
  shows "program_words (word_at p j) n f (put_words p ws W m) = put_words p ws (W \<union> {j..<j + n}) m"
proof
  fix a
  have pj: "fits (word_at p j) n" by (rule fits_shift [OF assms(1,2)])
  show "program_words (word_at p j) n f (put_words p ws W m) a = put_words p ws (W \<union> {j..<j + n}) m a"
  proof (cases "index_in a (word_at p j) n")
    case (Some k)
    then have k: "k < n" "a = word_at p (j + k)" using index_in_Some [OF Some] by (simp_all add: word_at_add)
    have l: "j + k < length ws" using k(1) assms(2) by simp
    have "j + k \<notin> W" using assms(3) k(1) by auto
    then have "put_words p ws W m a = FDS_ERASED_WORD" using put_words_at [OF assms(1) l] assms(5) k by simp
    moreover have "put_words p ws (W \<union> {j..<j + n}) m a = ws ! (j + k)"
      using put_words_at [OF assms(1) l] l k by simp
    moreover have "FDS_ERASED_WORD AND x = x" for x
    proof -
      have e: "FDS_ERASED_WORD = - 1" by (simp add: FDS_ERASED_WORD_def)
      show ?thesis unfolding e by simp
    qed
    ultimately show ?thesis using Some assms(4) k(1) by (simp add: program_words_index)
  next
    case None
    have "put_words p ws W m a = put_words p ws (W \<union> {j..<j + n}) m a"
    proof (cases "index_in a p (length ws)")
      case (Some i)
      then have i: "i < length ws" "a = word_at p i" using index_in_Some [OF Some] by simp_all
      have "\<not> (j \<le> i \<and> i < j + n)"
      proof
        assume r: "j \<le> i \<and> i < j + n"
        then have "a = word_at (word_at p j) (i - j)" using i(2) by (simp add: word_at_add)
        moreover have "i - j < 2 ^ 30" using assms(1) i(1) by (simp add: fits_def)
        moreover have "i - j < n" using r by linarith
        ultimately have "index_in a (word_at p j) n = Some (i - j)" using index_in_word_at [of "i - j", OF _ pj] by simp
        then show False using None by simp
      qed
      then show ?thesis using Some by (auto simp: put_words_def)
    qed (simp add: put_words_def)
    then show ?thesis using None by (simp add: program_words_index)
  qed
qed

section \<open>Where the words come from\<close>

text \<open>The linker keeps the headers in the queue apart.\<close>

definition headers_apart :: "'m fds_st \<Rightarrow> bool" where
  "headers_apart s \<longleftrightarrow> (\<forall>i < length (oq_op (m_op_queue s)).
     op_header_addr s i \<noteq> 0 \<and> op_header_addr s i AND 3 = 0 \<and> fits (op_header_addr s i) 3 \<and>
     (\<forall>j < length (oq_op (m_op_queue s)). i \<noteq> j \<longrightarrow>
        unat (op_header_addr s i) + 12 \<le> unat (op_header_addr s j) \<or> unat (op_header_addr s j) + 12 \<le> unat (op_header_addr s i)))"

lemma word_in_own: "fits p (length ws) \<Longrightarrow> k < length ws \<Longrightarrow> word_in p ws (word_at p k) = Some (ws ! k)"
proof -
  assume "fits p (length ws)" and k: "k < length ws"
  then have "k < 2 ^ 30" by (simp add: fits_def)
  then have "unat (of_nat (4 * k) :: u32) = 4 * k" by (intro unat_of_nat_u32) simp
  then show ?thesis using k by (simp add: word_in_def word_at_def)
qed

lemma word_in_other:
  assumes "length ws \<le> 3" and "unat p + 12 \<le> unat a \<or> unat a < unat p \<and> unat p + 12 \<le> 2 ^ 32"
  shows "word_in p ws a = None"
proof -
  have "12 \<le> unat (a - p)"
    using assms(2) unsigned_less [of a, where 'a = nat] by (auto simp: unat_sub_if_size word_size)
  then have "\<not> unat (a - p) div 4 < length ws" using assms(1) by linarith
  then show ?thesis by (simp add: word_in_def)
qed

lemma static_word_map:
  assumes "i < n" and "\<forall>j < n. j \<noteq> i \<longrightarrow> word_in (h j) (ws j) a = None" and "word_in (h i) (ws i) a = Some w" and "m \<le> i"
  shows "static_word (map (\<lambda>j. (h j, ws j)) [m..<n] @ vs) a = Some w"
  using assms(4)
proof (induction "i - m" arbitrary: m)
  case 0
  then have "m = i" by simp
  then show ?case using assms(1,3) by (simp add: upt_conv_Cons)
next
  case (Suc d)
  then have "m < n" "m \<noteq> i" using assms(1) by simp_all
  moreover from this have "static_word (map (\<lambda>j. (h j, ws j)) [Suc m..<n] @ vs) a = Some w" using Suc by (intro Suc.hyps) simp_all
  ultimately show ?case using assms(2) by (simp add: upt_conv_Cons)
qed

lemma source_header:
  assumes "headers_apart s" and "i < length (oq_op (m_op_queue s))" and "k < 3"
  shows "source_word s (word_at (op_header_addr s i) k) = header_words (w_header (oq_op (m_op_queue s) ! i)) ! k"
proof -
  let ?n = "length (oq_op (m_op_queue s))" and ?h = "op_header_addr s"
  let ?ws = "\<lambda>i. header_words (w_header (oq_op (m_op_queue s) ! i))" and ?a = "word_at (op_header_addr s i) k"
  have l: "length (?ws j) = 3" for j by (simp add: header_words_def)
  have f: "fits (?h j) 3" if "j < ?n" for j using assms(1) that by (simp add: headers_apart_def)
  have a: "unat ?a = unat (?h i) + 4 * k" using unat_word_at [OF f [OF assms(2)], of k] assms(3) by simp
  have other: "\<forall>j < ?n. j \<noteq> i \<longrightarrow> word_in (?h j) (?ws j) ?a = None"
  proof (intro allI impI)
    fix j assume j: "j < ?n" "j \<noteq> i"
    then have "unat (?h i) + 12 \<le> unat (?h j) \<or> unat (?h j) + 12 \<le> unat (?h i)"
      using assms(1,2) unfolding headers_apart_def by metis
    moreover have "unat (?h j) + 12 \<le> 2 ^ 32" using f [OF j(1)] by (simp add: fits_def)
    ultimately have "unat (?h j) + 12 \<le> unat ?a \<or> unat ?a < unat (?h j) \<and> unat (?h j) + 12 \<le> 2 ^ 32"
      using a assms(3) by linarith
    then show "word_in (?h j) (?ws j) ?a = None" using l [of j] by (intro word_in_other) simp_all
  qed
  have own: "word_in (?h i) (?ws i) ?a = Some (?ws i ! k)"
    using word_in_own [of "?h i" "?ws i" k] f [OF assms(2)] l [of i] assms(3) by simp
  show ?thesis
    unfolding source_word_def static_vars_def
    by (simp only: static_word_map [where h = ?h and ws = ?ws, OF assms(2) other own le0] option.case)
qed

text \<open>Data of the application, which is none of the module's variables.\<close>

definition app_data :: "'m fds_st \<Rightarrow> u32 \<Rightarrow> bool" where
  "app_data s a \<longleftrightarrow> static_word (static_vars s) a = None"

lemma source_data: "app_data s a \<Longrightarrow> source_word s a = fds_mem s a"
  by (simp add: source_word_def app_data_def)

lemma static_word_None:
  "static_word vs a = None \<longleftrightarrow> (\<forall>(b, ws) \<in> set vs. word_in b ws a = None)"
  by (induction vs) (auto split: option.splits)

lemma word_in_None: "length ws = length ws' \<Longrightarrow> word_in b ws a = None \<longleftrightarrow> word_in b ws' a = None"
  by (simp add: word_in_def)

lemma app_data_cong:
  assumes "op_header_addr t = op_header_addr s" and "length (oq_op (m_op_queue t)) = length (oq_op (m_op_queue s))"
    and "page_tag_swap_addr t = page_tag_swap_addr s" and "page_tag_data_addr t = page_tag_data_addr s" and "tl_dirty_addr t = tl_dirty_addr s"
  shows "app_data t a = app_data s a"
proof -
  have "word_in b (header_words h) a = None \<longleftrightarrow> \<not> unat (a - b) div 4 < 3" for b h
    by (simp add: word_in_def header_words_def)
  then show ?thesis
    unfolding app_data_def static_word_None static_vars_def assms by simp
qed

section \<open>The records of a page\<close>

lemma page_recs_prefix:
  assumes "low e" and "unat a + 4 * (\<Sum>q \<leftarrow> page_recs m e a. rec_len m q) \<le> unat e"
    and "\<forall>x. unat a \<le> unat x \<and> unat x < unat a + 4 * (\<Sum>q \<leftarrow> page_recs m e a. rec_len m q) \<longrightarrow> m' x = m x"
  shows "page_recs m' e a = page_recs m e a @ page_recs m' e (word_at a (\<Sum>q \<leftarrow> page_recs m e a. rec_len m q)) \<and>
    (\<forall>q \<in> set (page_recs m e a). header_at m' q = header_at m q)"
  using assms(2,3)
proof (induction a rule: page_recs_induct [OF assms(1), where m = m])
  case (1 p)
  show ?case
  proof (rule page_recs_cases [OF assms(1), of p m])
    assume c: "p < e" "m p \<noteq> FDS_ERASED_WORD" "page_recs m e p = p # page_recs m e (next_rec m p)" "p < next_rec m p"
    let ?S = "\<Sum>q \<leftarrow> page_recs m e (next_rec m p). rec_len m q"
    have u: "unat (next_rec m p) = unat p + 4 * rec_len m p" using low_jump(2) [OF assms(1) c(1)] by (simp add: next_rec_def)
    have s: "(\<Sum>q \<leftarrow> page_recs m e p. rec_len m q) = rec_len m p + ?S" using c(3) by simp
    have r: "3 \<le> rec_len m p" by (simp add: rec_len_def FDS_HEADER_SIZE_def)
    have le: "unat p + 4 * (rec_len m p + ?S) \<le> unat e" using 1(2) s by simp
    have lt: "unat p + 12 < 2 ^ 32" using le r assms(1) by (simp add: low_def)
    have eq: "m' x = m x" if "unat p \<le> unat x" "unat x < unat p + 4 * (rec_len m p + ?S)" for x
      using 1(3) that unfolding s by blast
    have "unat (p + 4) = unat p + 4" "unat (p + 8) = unat p + 8"
      using lt jump_forward [of p 1] jump_forward [of p 2] by simp_all
    then have w: "m' p = m p" "m' (p + 4) = m (p + 4)" "m' (p + 8) = m (p + 8)" using r by (intro eq; simp)+
    then have h: "header_at m' p = header_at m p" by (simp add: header_at_def)
    then have n: "next_rec m' p = next_rec m p" by (simp add: next_rec_def rec_len_def)
    have IH: "page_recs m' e (next_rec m p) = page_recs m e (next_rec m p) @ page_recs m' e (word_at (next_rec m p) ?S) \<and>
        (\<forall>q \<in> set (page_recs m e (next_rec m p)). header_at m' q = header_at m q)"
      by (rule 1(1) [OF c(1,2)]) (use le u eq in auto)
    have "word_at (next_rec m p) ?S = word_at p (rec_len m p + ?S)" by (simp add: next_rec_def word_at_def)
    moreover have "page_recs m' e p = p # page_recs m' e (next_rec m p)"
      using page_recs.simps [of m' e p] c(1,2) w(1) n assms(1) by simp
    ultimately show ?thesis using IH h c(3) s by simp
  qed simp
qed


text \<open>A data page in order: within the area of the module, its records followed by erased words only.\<close>

definition page_ok :: "'m fds_st \<Rightarrow> fds_page_t \<Rightarrow> bool" where
  "page_ok s pg \<longleftrightarrow> page_low s pg \<and> 2 * FDS_PAGE_SIZE s < 2 ^ 16 \<and> p_addr pg AND 3 = 0 \<and> p_addr pg \<noteq> 0 \<and>
     p_start_addr (fds_area s) \<le> p_addr pg \<and> unat (p_addr pg) + 4 * FDS_PAGE_SIZE s \<le> unat (p_end_addr (fds_area s)) \<and>
     2 + (\<Sum>q \<leftarrow> recs_of s pg. rec_len (fds_mem s) q) = unat (write_offset pg) \<and>
     unat (write_offset pg) + unat (words_reserved pg) \<le> FDS_PAGE_SIZE s \<and>
     (\<forall>k < FDS_PAGE_SIZE s. unat (write_offset pg) \<le> k \<longrightarrow> fds_mem s (word_at (p_addr pg) k) = FDS_ERASED_WORD)"

definition free_addr :: "fds_page_t \<Rightarrow> u32" where "free_addr pg = word_at (p_addr pg) (unat (write_offset pg))"

lemma page_ok_fits: "page_ok s pg \<Longrightarrow> fits (p_addr pg) (FDS_PAGE_SIZE s)"
  by (simp add: page_ok_def page_low_def fits_def)

lemma unat_page_end: "page_ok s pg \<Longrightarrow> unat (page_end s pg) = unat (p_addr pg) + 4 * FDS_PAGE_SIZE s"
  using unat_word_at [OF page_ok_fits, of s pg "FDS_PAGE_SIZE s"] by (simp add: page_end_def word_at_def)

text \<open>The list of records only depends on the words before the free ones.\<close>

lemma recs_under:
  assumes "page_ok s pg" and "\<forall>k < unat (write_offset pg). m' (word_at (p_addr pg) k) = fds_mem s (word_at (p_addr pg) k)"
    and "\<forall>x. x AND 3 \<noteq> 0 \<longrightarrow> m' x = fds_mem s x"
  shows "page_recs m' (page_end s pg) (p_addr pg + 8) = recs_of s pg @ page_recs m' (page_end s pg) (free_addr pg) \<and>
    (\<forall>q \<in> set (recs_of s pg). header_at m' q = header_at (fds_mem s) q)"
proof -
  let ?a = "p_addr pg + 8" and ?S = "\<Sum>q \<leftarrow> recs_of s pg. rec_len (fds_mem s) q"
  have w: "2 + ?S = unat (write_offset pg)" "unat (write_offset pg) \<le> FDS_PAGE_SIZE s" "page_low s pg"
    using assms(1) by (simp_all add: page_ok_def)
  note f = page_ok_fits [OF assms(1)]
  have a: "?a = word_at (p_addr pg) 2" by (simp add: word_at_def)
  then have u: "unat ?a = unat (p_addr pg) + 8" using unat_word_at [OF f, of 2] w by simp
  have agree: "m' x = fds_mem s x" if x: "unat ?a \<le> unat x" "unat x < unat ?a + 4 * ?S" for x
  proof (cases "x AND 3 = 0")
    case True
    let ?k = "(unat x - unat (p_addr pg)) div 4"
    have d: "4 dvd unat x" "4 dvd unat (p_addr pg)" using True assms(1) by (simp_all add: and_3 page_ok_def)
    then have "4 * ?k = unat x - unat (p_addr pg)" by simp
    then have k: "unat x = unat (p_addr pg) + 4 * ?k" "?k < unat (write_offset pg)" using x u w(1) by linarith+
    have "unat x = unat (word_at (p_addr pg) ?k)" using k w(2) unat_word_at [OF f, of ?k] by linarith
    then have "x = word_at (p_addr pg) ?k" by (simp only: word_unat_eq_iff)
    then show ?thesis using assms(2) k(2) by metis
  qed (use assms(3) in simp)
  have "page_recs m' (page_end s pg) ?a = page_recs (fds_mem s) (page_end s pg) ?a @
      page_recs m' (page_end s pg) (word_at ?a (\<Sum>q \<leftarrow> page_recs (fds_mem s) (page_end s pg) ?a. rec_len (fds_mem s) q)) \<and>
      (\<forall>q \<in> set (page_recs (fds_mem s) (page_end s pg) ?a). header_at m' q = header_at (fds_mem s) q)"
    by (rule page_recs_prefix [OF page_low_ptrs(3) [OF w(3)]])
      (use agree u w unat_page_end [OF assms(1)] in \<open>simp_all add: recs_of_def\<close>)
  moreover have "word_at ?a ?S = free_addr pg" unfolding a word_at_add free_addr_def w(1) by (rule refl)
  ultimately show ?thesis by (simp add: recs_of_def)
qed

lemma recs_same:
  assumes "page_ok s pg" and "\<forall>k < FDS_PAGE_SIZE s. m' (word_at (p_addr pg) k) = fds_mem s (word_at (p_addr pg) k)"
    and "\<forall>x. x AND 3 \<noteq> 0 \<longrightarrow> m' x = fds_mem s x"
  shows "page_recs m' (page_end s pg) (p_addr pg + 8) = recs_of s pg"
proof -
  have w: "unat (write_offset pg) \<le> FDS_PAGE_SIZE s" using assms(1) by (simp add: page_ok_def)
  have "\<not> (free_addr pg < page_end s pg \<and> m' (free_addr pg) \<noteq> FDS_ERASED_WORD)"
  proof (cases "unat (write_offset pg) < FDS_PAGE_SIZE s")
    case True
    then have "m' (free_addr pg) = FDS_ERASED_WORD" using assms(1,2) by (simp add: page_ok_def free_addr_def)
    then show ?thesis by simp
  next
    case False
    then have "unat (free_addr pg) = unat (page_end s pg)"
      using w unat_word_at [OF page_ok_fits [OF assms(1)] w] unat_page_end [OF assms(1)] by (simp add: free_addr_def)
    then show ?thesis by (simp add: word_less_nat_alt)
  qed
  then have "page_recs m' (page_end s pg) (free_addr pg) = []" by (auto simp: page_recs.simps [of m' _ "free_addr pg"])
  then show ?thesis using recs_under [OF assms(1), of m'] assms(2,3) w by simp
qed

section \<open>A record that is being written\<close>

lemma tl_word_inv [simp]: "tl_of_word (word_of_tl t) = t"
  by (cases t) (simp add: tl_of_word_def word_of_tl_def, intro conjI bit_word_eqI; auto simp: bit_simps dest: bit_imp_le_length)

lemma ic_word_inv [simp]: "ic_of_word (word_of_ic t) = t"
  by (cases t) (simp add: ic_of_word_def word_of_ic_def, intro conjI bit_word_eqI; auto simp: bit_simps dest: bit_imp_le_length)

lemma ic_erased: "ic_of_word FDS_ERASED_WORD = \<lparr>file_id = 0xFFFF, crc16 = 0xFFFF\<rparr>"
  by (simp add: ic_of_word_def FDS_ERASED_WORD_def)

lemma tl_erased: "tl_of_word FDS_ERASED_WORD = \<lparr>record_key = 0xFFFF, tl_length_words = 0xFFFF\<rparr>"
  by (simp add: tl_of_word_def FDS_ERASED_WORD_def)

definition record_words :: "fds_header_t \<Rightarrow> u32 list \<Rightarrow> u32 list" where
  "record_words h ds = header_words h @ ds"

lemma put_words_aligned: "p AND 3 = 0 \<Longrightarrow> fits p (length ws) \<Longrightarrow> x AND 3 \<noteq> 0 \<Longrightarrow> put_words p ws W m x = m x"
  using aligned_word_at [of p "length ws"] by (intro put_words_outside) auto

lemma recs_grow:
  assumes "page_ok s pg" and "unat (tl_length_words (h_tl h)) = length ds"
    and "unat (write_offset pg) + 3 + length ds \<le> FDS_PAGE_SIZE s" and "0 \<in> W"
  defines "p \<equiv> free_addr pg" and "m' \<equiv> put_words (free_addr pg) (record_words h ds) W (fds_mem s)"
  shows "page_recs m' (page_end s pg) (p_addr pg + 8) = recs_of s pg @ [p]"
    "\<forall>q \<in> set (recs_of s pg). header_at m' q = header_at (fds_mem s) q"
    "header_at m' p = \<lparr>h_tl = h_tl h, h_ic = (if 1 \<in> W then h_ic h else \<lparr>file_id = 0xFFFF, crc16 = 0xFFFF\<rparr>),
       record_id = (if 2 \<in> W then record_id h else FDS_ERASED_WORD)\<rparr>"
proof -
  let ?a = "p_addr pg" and ?O = "unat (write_offset pg)" and ?P = "FDS_PAGE_SIZE s" and ?ws = "record_words h ds" and ?e = "page_end s pg"
  note f = page_ok_fits [OF assms(1)]
  have l: "length ?ws = 3 + length ds" by (simp add: record_words_def header_words_def)
  have p: "p = word_at ?a ?O" by (simp add: p_def free_addr_def)
  have fp: "fits p (?P - ?O)" unfolding p by (rule fits_shift [OF f]) (use assms(3) in simp)
  have m: "m' = put_words p ?ws W (fds_mem s)" by (simp add: m'_def p_def)
  have fw: "fits p (length ?ws)" by (rule fits_mono [OF fp]) (use l assms(3) in simp)
  have up: "unat p = unat ?a + 4 * ?O" unfolding p by (rule unat_word_at [OF f]) (use assms(3) in simp)
  have erased: "fds_mem s (word_at p k) = FDS_ERASED_WORD" if "k < ?P - ?O" for k
    using assms(1) that unfolding p word_at_add by (simp add: page_ok_def)
  have at: "m' (word_at p k) = (if k < length ?ws \<and> k \<in> W then ?ws ! k else FDS_ERASED_WORD)" if "k < ?P - ?O" for k
    unfolding m using put_words_at [OF fp that] erased [OF that] by simp
  have before: "m' (word_at ?a k) = fds_mem s (word_at ?a k)" if "k < ?O" for k
  proof -
    have "word_at ?a k \<noteq> word_at p j" if j: "j < length ?ws" for j
    proof
      assume "word_at ?a k = word_at p j"
      then have "unat ?a + 4 * k = unat ?a + 4 * (?O + j)"
        using unat_word_at [OF f, of k] unat_word_at [OF f, of "?O + j"] \<open>k < ?O\<close> j l assms(3) unfolding p word_at_add by simp
      then show False using \<open>k < ?O\<close> by simp
    qed
    then show ?thesis unfolding m by (intro put_words_outside) blast
  qed
  have al: "p AND 3 = 0" unfolding p by (rule aligned_word_at [OF _ f]) (use assms(1,3) in \<open>simp_all add: page_ok_def\<close>)
  have odd: "\<forall>x. x AND 3 \<noteq> 0 \<longrightarrow> m' x = fds_mem s x" unfolding m using put_words_aligned [OF al fw] by simp
  have u: "page_recs m' ?e (?a + 8) = recs_of s pg @ page_recs m' ?e p \<and> (\<forall>q \<in> set (recs_of s pg). header_at m' q = header_at (fds_mem s) q)"
    unfolding p_def by (rule recs_under [OF assms(1)]) (use before odd in simp_all)
  then show "\<forall>q \<in> set (recs_of s pg). header_at m' q = header_at (fds_mem s) q" by blast
  have w3: "p + 4 = word_at p 1" "p + 8 = word_at p 2" by (simp_all add: word_at_def)
  have room: "0 < ?P - ?O" "1 < ?P - ?O" "2 < ?P - ?O" using assms(3) by linarith+
  have i3: "m' p = word_of_tl (h_tl h)" "m' (p + 4) = (if 1 \<in> W then word_of_ic (h_ic h) else FDS_ERASED_WORD)"
    "m' (p + 8) = (if 2 \<in> W then record_id h else FDS_ERASED_WORD)"
    using at [OF room(1)] at [OF room(2)] at [OF room(3)] assms(4) l unfolding w3
    by (simp_all add: record_words_def header_words_def)
  then show h: "header_at m' p = \<lparr>h_tl = h_tl h, h_ic = (if 1 \<in> W then h_ic h else \<lparr>file_id = 0xFFFF, crc16 = 0xFFFF\<rparr>),
       record_id = (if 2 \<in> W then record_id h else FDS_ERASED_WORD)\<rparr>"
    by (simp add: header_at_def ic_erased)
  have rl: "rec_len m' p = 3 + length ds" by (simp add: rec_len_def h assms(2) FDS_HEADER_SIZE_def)
  have ne: "m' p \<noteq> FDS_ERASED_WORD"
  proof
    assume "m' p = FDS_ERASED_WORD"
    then have "h_tl h = tl_of_word FDS_ERASED_WORD" using i3(1) by (metis tl_word_inv)
    then have "length ds = 65535" using assms(2) by (simp add: tl_erased)
    then show False using assms(1,3) by (simp add: page_ok_def)
  qed
  have e: "unat ?e = unat ?a + 4 * ?P" by (rule unat_page_end [OF assms(1)])
  have lt: "p < ?e" using up e room by (simp add: word_less_nat_alt)
  have low: "low ?e" using assms(1) by (auto simp: page_ok_def intro: page_low_ptrs)
  have n: "next_rec m' p = word_at p (3 + length ds)" by (simp add: next_rec_def rl word_at_def)
  have "page_recs m' ?e (next_rec m' p) = []"
  proof (cases "3 + length ds < ?P - ?O")
    case True
    then have "m' (next_rec m' p) = FDS_ERASED_WORD" unfolding n using at [OF True] l by simp
    then show ?thesis by (simp add: page_recs.simps [of m' ?e "next_rec m' p"])
  next
    case False
    then have "unat (next_rec m' p) = unat ?e"
      unfolding n using unat_word_at [OF fw, of "3 + length ds"] l up e assms(3) by simp
    then show ?thesis by (simp add: page_recs.simps [of m' ?e "next_rec m' p"] word_less_nat_alt)
  qed
  then show "page_recs m' ?e (?a + 8) = recs_of s pg @ [p]"
    using u lt low ne page_recs.simps [of m' ?e p] by simp
qed

end
