(* ===== verification/FdsWrite.thy ===== *)
theory FdsWrite
  imports FdsFlash
begin

text \<open>
  Writing a record, from the call of \<open>fds_record_write\<close> to its event: the steps of \<open>write_execute\<close>, what is in the flash after
  each of them, and that a search sees the record as soon as its last word is written and not before.
\<close>

unbundle bit_operations_syntax

section \<open>Running a step\<close>

text \<open>The users' handlers return and do not call the module.\<close>

definition env_quiet :: "'m fds_env \<Rightarrow> bool" where
  "env_quiet E \<longleftrightarrow> 0 < env_depth E \<and> (\<forall>f e s. env_users E f e s = Inr s)"

lemma free_addr_ptr: "p_addr pg + 4 * ucast (write_offset pg) = free_addr pg"
proof -
  have "(ucast (write_offset pg) :: u32) = of_nat (unat (write_offset pg))" by (simp add: word_unat_eq_iff unat_of_nat_u32 order_less_trans [OF unat_less_u16])
  then show ?thesis by (simp add: free_addr_def word_at_def)
qed

definition cur_op :: "'m fds_st \<Rightarrow> nat" where "cur_op s = unat (oq_rp (m_op_queue s))"

lemma process_unfold:
  assumes "0 < env_depth E"
  shows "\<exists>cb. fds_queue_process E r s = then_do (op_execute cb r (cur_op s) s) (\<lambda>(ret, s1).
    if ret \<noteq> FDS_OP_EXECUTING
    then then_do (op_finish (env_users E) (cur_op s) ret s1) (\<lambda>(more, s2).
         if more then queue_process_nested (env_users E) (env_others E) (env_depth E - 1) FS_SUCCESS s2
         else Inr (flag_clear FDS_FLAG_PROCESSING s2))
    else Inr s1)"
proof -
  obtain n where n: "env_depth E = Suc n" using assms by (cases "env_depth E") auto
  let ?cb = "\<lambda>f e r. if f = 0 then queue_process_nested (env_users E) (env_others E) n r else env_others E f e r"
  show ?thesis by (rule exI [of _ ?cb]) (simp add: fds_queue_process_def Let_def cur_op_def n cong: if_cong)
qed

lemma process_continues:
  assumes "0 < env_depth E" and "\<And>cb. ok (op_execute cb r (cur_op s) s) (\<lambda>(ret, t). ret = 0 \<and> Q t)"
  shows "ok (fds_queue_process E r s) Q"
proof -
  obtain cb where "fds_queue_process E r s = then_do (op_execute cb r (cur_op s) s) (\<lambda>(ret, s1).
    if ret \<noteq> FDS_OP_EXECUTING
    then then_do (op_finish (env_users E) (cur_op s) ret s1) (\<lambda>(more, s2).
         if more then queue_process_nested (env_users E) (env_others E) (env_depth E - 1) FS_SUCCESS s2
         else Inr (flag_clear FDS_FLAG_PROCESSING s2))
    else Inr s1)"
    using process_unfold [OF assms(1)] by blast
  then show ?thesis using assms(2) [of cb] by (auto simp: FDS_OP_EXECUTING_def elim!: ok_mono)
qed

text \<open>The operation at the head of the queue is done, and it was the only one.\<close>

definition op_done :: "fds_op_t \<Rightarrow> u32 \<Rightarrow> 'm fds_st \<Rightarrow> 'm fds_st" where
  "op_done op ret t =
     flag_clear FDS_FLAG_PROCESSING (t\<lparr>fds_evts := fds_evts t @ [event_prepare op ((uninit_evt t)\<lparr>ev_result := ret\<rparr>)],
       m_op_queue := op_take (m_op_queue t)\<rparr>)"

lemma event_send_quiet:
  assumes "env_quiet E"
  shows "event_send (env_users E) evt s = Inr (s\<lparr>fds_evts := fds_evts s @ [evt]\<rparr>)"
proof -
  let ?s = "s\<lparr>fds_evts := fds_evts s @ [evt]\<rparr>"
  have "ok (for_each (\<lambda>user s. then_do (load_at (m_cb_table s) user) (\<lambda>cb.
         case cb of None \<Rightarrow> Inr s | Some f \<Rightarrow> env_users E f evt s)) [0..<FDS_MAX_USERS s] ?s) (\<lambda>t. t = ?s)"
    by (rule for_each_upt) (use assms in \<open>auto simp: FDS_MAX_USERS_def env_quiet_def split: option.split\<close>)
  then show ?thesis by (auto simp: event_send_def ok_iff)
qed

lemma process_completes:
  assumes "env_quiet E" and "\<And>cb. op_execute cb r (cur_op s) s = Inr (FDS_OP_COMPLETED, t)"
    and "op_ring (m_op_queue t)" and "op_list (m_op_queue t) = [op]" and "cur_op t = cur_op s"
  shows "fds_queue_process E r s = Inr (op_done op FDS_SUCCESS t)"
proof -
  have d: "0 < env_depth E" using assms(1) by (simp add: env_quiet_def)
  have c: "oq_count (m_op_queue t) \<noteq> 0" "unat (oq_count (m_op_queue t)) = 1"
    using assms(4) op_list_Nil [of "m_op_queue t"] length_op_list [of "m_op_queue t"] by auto
  have g: "get_op (cur_op s) t = Inr op"
    using op_hd [OF assms(3) c(1)] assms(3,4) unfolding assms(5) [symmetric]
    by (simp add: get_op_def load_at_def cur_op_def op_ring_def)
  let ?evt = "event_prepare op ((uninit_evt t)\<lparr>ev_result := FDS_SUCCESS\<rparr>)" and ?t = "t\<lparr>fds_evts := fds_evts t @ [event_prepare op ((uninit_evt t)\<lparr>ev_result := FDS_SUCCESS\<rparr>)]\<rparr>"
  have a: "op_queue_advance ?t = Inr (False, ?t\<lparr>m_op_queue := op_take (m_op_queue t)\<rparr>)"
    using op_queue_advance_ok [of ?t] assms(3) c by simp
  have "op_finish (env_users E) (cur_op s) FDS_OP_COMPLETED t = Inr (False, ?t\<lparr>m_op_queue := op_take (m_op_queue t)\<rparr>)"
    using g a event_send_quiet [OF assms(1), of ?evt t] by (simp add: op_finish_def Let_def)
  then show ?thesis
    using process_unfold [OF d, of r s] assms(2) by (auto simp: op_done_def fds_codes)
qed

section \<open>The steps of a write\<close>

text \<open>The state \<open>b\<close> with another operation, chunk queue and memory.\<close>

definition at_job :: "'m fds_st \<Rightarrow> fds_op_t \<Rightarrow> fds_chunk_queue_t \<Rightarrow> (u32 \<Rightarrow> u32) \<Rightarrow> 'm fds_st" where
  "at_job b q cq m = b\<lparr>m_op_queue := (m_op_queue b)\<lparr>oq_op := (oq_op (m_op_queue b))[cur_op b := q]\<rparr>, m_chunk_queue := cq, fds_mem := m\<rparr>"

lemma at_job_fields [simp]:
  "m_op_queue (at_job b q cq m) = (m_op_queue b)\<lparr>oq_op := (oq_op (m_op_queue b))[cur_op b := q]\<rparr>"
  "m_chunk_queue (at_job b q cq m) = cq" "fds_mem (at_job b q cq m) = m" "m_pages (at_job b q cq m) = m_pages b"
  "cur_op (at_job b q cq m) = cur_op b" "op_header_addr (at_job b q cq m) = op_header_addr b" "m_flags (at_job b q cq m) = m_flags b"
  "fds_evts (at_job b q cq m) = fds_evts b" "uninit_evt (at_job b q cq m) = uninit_evt b" "fds_cfg (at_job b q cq m) = fds_cfg b"
  "cfg_fds_crc (at_job b q cq m) = cfg_fds_crc b" "page_tag_swap_addr (at_job b q cq m) = page_tag_swap_addr b"
  "page_tag_data_addr (at_job b q cq m) = page_tag_data_addr b" "tl_dirty_addr (at_job b q cq m) = tl_dirty_addr b"
  by (simp_all add: at_job_def cur_op_def)

lemma at_job_same: "fs_same b (at_job b q cq m)"
  by (simp add: at_job_def)

text \<open>\<open>u\<close> is such a state, up to the variables of fstorage.\<close>

definition in_job :: "'m fds_st \<Rightarrow> fds_op_t \<Rightarrow> fds_chunk_queue_t \<Rightarrow> (u32 \<Rightarrow> u32) \<Rightarrow> 'm fds_st \<Rightarrow> bool" where
  "in_job b q cq m u \<longleftrightarrow> fs_inner (at_job b q cq m) u"

lemma in_job_fields:
  assumes "in_job b q cq m u"
  shows "m_op_queue u = (m_op_queue b)\<lparr>oq_op := (oq_op (m_op_queue b))[cur_op b := q]\<rparr>" "m_chunk_queue u = cq" "fds_mem u = m"
    "m_pages u = m_pages b" "cur_op u = cur_op b" "op_header_addr u = op_header_addr b" "m_flags u = m_flags b" "cfg_fds_crc u = cfg_fds_crc b"
    "fds_cfg u = fds_cfg b" "linked u = linked b" "fds_area u = fds_area b"
proof -
  have i: "fs_inner (at_job b q cq m) u" using assms by (simp add: in_job_def)
  note f = fs_inner_fields [OF i]
  show "m_op_queue u = (m_op_queue b)\<lparr>oq_op := (oq_op (m_op_queue b))[cur_op b := q]\<rparr>" "m_chunk_queue u = cq" "fds_mem u = m"
    "m_pages u = m_pages b" "op_header_addr u = op_header_addr b" "m_flags u = m_flags b" "cfg_fds_crc u = cfg_fds_crc b"
    by (simp_all add: f)
  then show "cur_op u = cur_op b" by (simp add: cur_op_def)
  show c: "fds_cfg u = fds_cfg b" by (simp add: f)
  show "linked u = linked b" using linked_inner [OF i] linked_same [OF at_job_same [of b q cq m]] by simp
  have "fs_data u = fs_data b" using i fs_same_fields(5) [OF at_job_same [of b q cq m]] by (simp add: fs_inner_def same_config_def)
  then show "fds_area u = fds_area b" by (simp add: fds_area_def c)
qed

lemma in_job_op:
  assumes "in_job b q cq m u" and "cur_op b < length (oq_op (m_op_queue b))"
  shows "get_op (cur_op u) u = Inr q"
  using in_job_fields [OF assms(1)] assms(2) by (simp add: get_op_def load_at_def)

lemma in_job_inner: "in_job b q cq m u \<Longrightarrow> fs_inner u v \<Longrightarrow> in_job b q cq m v"
  by (auto simp: in_job_def intro: fs_inner_trans)

lemma in_job_set_op:
  assumes "in_job b q cq m v"
  shows "in_job b q' cq m (v\<lparr>m_op_queue := (m_op_queue v)\<lparr>oq_op := (oq_op (m_op_queue v))[cur_op b := q']\<rparr>\<rparr>)"
proof -
  let ?o = "(m_op_queue v)\<lparr>oq_op := (oq_op (m_op_queue v))[cur_op b := q']\<rparr>"
  have i: "fs_inner (at_job b q cq m) v" using assms by (simp add: in_job_def)
  have "(at_job b q cq m)\<lparr>m_op_queue := ?o\<rparr> = at_job b q' cq m"
    using in_job_fields(1) [OF assms] by (simp add: at_job_def)
  then show ?thesis using fs_inner_updates(2) [OF i, of ?o] by (simp add: in_job_def)
qed

lemma in_job_set_chunks:
  assumes "in_job b q cq m v"
  shows "in_job b q cq' m (v\<lparr>m_chunk_queue := cq'\<rparr>)"
proof -
  have i: "fs_inner (at_job b q cq m) v" using assms by (simp add: in_job_def)
  have "(at_job b q cq m)\<lparr>m_chunk_queue := cq'\<rparr> = at_job b q cq' m" by (simp add: at_job_def)
  then show ?thesis using fs_inner_updates(3) [OF i, of cq'] by (simp add: in_job_def)
qed

text \<open>
  A request and the change of the operation that goes with it. \<open>C\<close> says what fstorage does with the request: it is appended in a
  callback, or it is at work.
\<close>

definition fs_pred :: "('m fds_st \<Rightarrow> bool) \<Rightarrow> bool" where
  "fs_pred C \<longleftrightarrow> (\<forall>v w. fs_same v w \<longrightarrow> C v = C w)"

lemma fs_pred_simps [simp]: "fs_pred (in_callback ops)" "fs_pred (at_work op j)"
  by (simp_all add: fs_pred_def fs_same_queue)

lemma request_and_step:
  assumes "in_job b q cq m u" and "cur_op b < length (oq_op (m_op_queue b))" and "fs_pred C"
    and "ok (store_words cb d a n u) (\<lambda>(r, t). r = 0 \<and> C t \<and> fs_inner u t)"
  shows "ok (then_do (store_words cb d a n u) (\<lambda>(ret, s1). then_do (upd_op_step (cur_op u) f s1) (\<lambda>s2. Inr (success_or_busy ret, s2))))
    (\<lambda>(ret, t). ret = 0 \<and> C t \<and> in_job b (f q) cq m t)"
proof (rule ok_then_doI [OF assms(4)])
  fix x assume x: "case x of (r, t) \<Rightarrow> r = (0 :: u32) \<and> C t \<and> fs_inner u t"
  obtain v where v: "x = (0, v)" "C v" "fs_inner u v" using x by (cases x) auto
  have j: "in_job b q cq m v" by (rule in_job_inner [OF assms(1) v(3)])
  have c: "cur_op u = cur_op b" "cur_op v = cur_op b" using in_job_fields(5) assms(1) j by blast+
  let ?t = "v\<lparr>m_op_queue := (m_op_queue v)\<lparr>oq_op := (oq_op (m_op_queue v))[cur_op b := f q]\<rparr>\<rparr>"
  have "upd_op_step (cur_op u) f v = Inr ?t"
    using in_job_op [OF j assms(2)] in_job_fields(1) [OF j] assms(2) by (simp add: upd_op_step_def c set_op_def store_at_def)
  moreover have "C ?t" using v(2) assms(3) unfolding fs_pred_def by (metis fs_same_refl fs_same_updates(3))
  ultimately show "ok (case x of (ret, s1) \<Rightarrow> then_do (upd_op_step (cur_op u) f s1) (\<lambda>s2. Inr (success_or_busy ret, s2)))
      (\<lambda>(ret, t). ret = 0 \<and> C t \<and> in_job b (f q) cq m t)"
    using in_job_set_op [OF j, of "f q"] by (simp add: v(1) success_or_busy_def FDS_SUCCESS_def)
qed

definition job_addr :: "'m fds_st \<Rightarrow> fds_op_t \<Rightarrow> u32" where
  "job_addr b q = free_addr (m_pages b ! unat (w_page q))"

definition writes :: "'m fds_st \<Rightarrow> fds_op_t \<Rightarrow> bool" where
  "writes b q \<longleftrightarrow> op_code q = FDS_OP_WRITE \<and> unat (w_page q) < length (m_pages b) \<and> cur_op b < length (oq_op (m_op_queue b))"

lemma write_step_continues:
  assumes "env_quiet E" and "writes b q" and "in_job b q cq m u"
    and "\<And>cb. ok (write_step cb (w_step q) (cur_op u) (job_addr b q) u) (\<lambda>(r, ret, t). \<not> r \<and> ret = 0 \<and> Q t)"
  shows "ok (fds_queue_process E FS_SUCCESS u) Q"
proof (rule process_continues)
  show "0 < env_depth E" using assms(1) by (simp add: env_quiet_def)
  fix cb
  have g: "get_op (cur_op u) u = Inr q" using in_job_op [OF assms(3)] assms(2) by (simp add: writes_def)
  have l: "load_at (m_pages u) (unat (w_page q)) = Inr (m_pages b ! unat (w_page q))"
    using in_job_fields(4) [OF assms(3)] assms(2) by (simp add: load_at_def writes_def)
  show "ok (op_execute cb FS_SUCCESS (cur_op u) u) (\<lambda>(ret, t). ret = 0 \<and> Q t)"
    using g l assms(2) assms(4) [of cb]
    by (auto simp: op_execute_def write_execute_def Let_def writes_def free_addr_ptr job_addr_def FDS_OP_EXECUTING_def ok_iff)
qed


section \<open>A record and its chunks\<close>

definition chunk_words :: "(u32 \<Rightarrow> u32) \<Rightarrow> fds_record_chunk_t \<Rightarrow> u32 list" where
  "chunk_words m c = map (\<lambda>k. m (word_at (ch_p_data c) k)) [0..<unat (ch_length_words c)]"

definition data_words :: "(u32 \<Rightarrow> u32) \<Rightarrow> fds_record_chunk_t list \<Rightarrow> u32 list" where
  "data_words m cs = concat (map (chunk_words m) cs)"

lemma length_chunk_words [simp]: "length (chunk_words m c) = unat (ch_length_words c)"
  by (simp add: chunk_words_def)

text \<open>A chunk of the application: not empty, aligned, and neither a variable of the module nor in its flash area.\<close>

definition chunk_ok :: "'m fds_st \<Rightarrow> fds_record_chunk_t \<Rightarrow> bool" where
  "chunk_ok s c \<longleftrightarrow> ch_length_words c \<noteq> 0 \<and> ch_p_data c \<noteq> 0 \<and> is_word_aligned (ch_p_data c) \<and> fits (ch_p_data c) (unat (ch_length_words c)) \<and>
     (\<forall>k < unat (ch_length_words c). let a = word_at (ch_p_data c) k in app_data s a \<and>
        \<not> (p_start_addr (fds_area s) \<le> a \<and> a < p_end_addr (fds_area s)))"

definition job_page :: "'m fds_st \<Rightarrow> fds_op_t \<Rightarrow> fds_page_t" where "job_page b q = m_pages b ! unat (w_page q)"

definition job_ok :: "'m fds_st \<Rightarrow> fds_op_t \<Rightarrow> fds_record_chunk_t list \<Rightarrow> bool" where
  "job_ok b op cs \<longleftrightarrow> writes b op \<and> linked b \<and> headers_apart b \<and> page_ok b (job_page b op) \<and>
     unat (write_offset (job_page b op)) + 3 + length (data_words (fds_mem b) cs) \<le> FDS_PAGE_SIZE b \<and>
     unat (tl_length_words (h_tl (w_header op))) = length (data_words (fds_mem b) cs) \<and>
     w_chunk_count op = of_nat (length cs) \<and> length cs < 2 ^ 8 \<and> w_chunk_offset op = 3 \<and> (\<forall>c \<in> set cs. chunk_ok b c) \<and>
     oq_op (m_op_queue b) ! cur_op b = op \<and> op_ring (m_op_queue b) \<and> oq_count (m_op_queue b) = 1 \<and>
     chunk_ring (m_chunk_queue b) \<and> chunk_list (m_chunk_queue b) = cs"

definition the_words :: "'m fds_st \<Rightarrow> fds_op_t \<Rightarrow> fds_record_chunk_t list \<Rightarrow> u32 list" where
  "the_words b op cs = record_words (w_header op) (data_words (fds_mem b) cs)"

lemma length_the_words: "length (the_words b op cs) = 3 + length (data_words (fds_mem b) cs)"
  by (simp add: the_words_def record_words_def header_words_def)

lemma the_words_header: "k < 3 \<Longrightarrow> the_words b op cs ! k = header_words (w_header op) ! k"
  by (auto simp: the_words_def record_words_def header_words_def numeral_3_eq_3 less_Suc_eq)

lemma job_fits:
  assumes "job_ok b op cs"
  shows "fits (job_addr b op) (length (the_words b op cs))"
    "k \<le> length (the_words b op cs) \<Longrightarrow> unat (word_at (job_addr b op) k) = unat (p_addr (job_page b op)) + 4 * (unat (write_offset (job_page b op)) + k)"
    "k < length (the_words b op cs) \<Longrightarrow> fds_mem b (word_at (job_addr b op) k) = FDS_ERASED_WORD"
    "k < length (the_words b op cs) \<Longrightarrow> p_start_addr (fds_area b) \<le> word_at (job_addr b op) k \<and> word_at (job_addr b op) k < p_end_addr (fds_area b)"
    "k < length (the_words b op cs) \<Longrightarrow> word_at (job_addr b op) k AND 3 = 0 \<and> word_at (job_addr b op) k \<noteq> 0"
proof -
  let ?pg = "job_page b op" and ?L = "length (the_words b op cs)"
  let ?O = "unat (write_offset (job_page b op))"
  have ok: "page_ok b ?pg" and l: "?O + ?L \<le> FDS_PAGE_SIZE b" using assms by (simp_all add: job_ok_def length_the_words)
  note f = page_ok_fits [OF ok]
  have p: "job_addr b op = word_at (p_addr ?pg) ?O" by (simp add: job_addr_def free_addr_def job_page_def)
  show "fits (job_addr b op) ?L" unfolding p by (rule fits_shift [OF f l])
  have u: "unat (word_at (job_addr b op) k) = unat (p_addr ?pg) + 4 * (?O + k)" if "k \<le> ?L" for k
    unfolding p word_at_add by (rule unat_word_at [OF f]) (use that l in simp)
  then show "k \<le> ?L \<Longrightarrow> unat (word_at (job_addr b op) k) = unat (p_addr ?pg) + 4 * (?O + k)" by blast
  show "k < ?L \<Longrightarrow> fds_mem b (word_at (job_addr b op) k) = FDS_ERASED_WORD"
    using ok l unfolding p word_at_add by (simp add: page_ok_def)
  have e: "p_start_addr (fds_area b) \<le> p_addr ?pg" "unat (p_addr ?pg) + 4 * FDS_PAGE_SIZE b \<le> unat (p_end_addr (fds_area b))"
    using ok by (simp_all add: page_ok_def)
  show "k < ?L \<Longrightarrow> p_start_addr (fds_area b) \<le> word_at (job_addr b op) k \<and> word_at (job_addr b op) k < p_end_addr (fds_area b)"
    using u [of k] e l by (simp add: word_le_nat_alt word_less_nat_alt)
  show "k < ?L \<Longrightarrow> word_at (job_addr b op) k AND 3 = 0 \<and> word_at (job_addr b op) k \<noteq> 0"
  proof -
    assume k: "k < ?L"
    have "4 dvd unat (p_addr ?pg)" "unat (p_addr ?pg) \<noteq> 0" using ok by (simp_all add: page_ok_def and_3 unat_eq_0)
    then have "4 dvd unat (word_at (job_addr b op) k)" "unat (word_at (job_addr b op) k) \<noteq> 0" using u [of k] k by simp_all
    then show ?thesis by (auto simp: and_3)
  qed
qed

text \<open>A request for some words of the record.\<close>

lemma job_store_args:
  assumes "job_ok b op cs" and "src \<noteq> 0" and "src AND 3 = 0" and "n \<noteq> 0" and "j + unat n \<le> length (the_words b op cs)"
  shows "store_args b (word_at (job_addr b op) j) src n"
proof -
  have n: "0 < unat n" using assms(4) by (simp add: unat_gt_0)
  have j: "j < length (the_words b op cs)" "j \<le> length (the_words b op cs)" using assms(5) n by linarith+
  have "unat (word_at (job_addr b op) j) + 4 * unat n \<le> unat (p_end_addr (fds_area b))"
    using job_fits(2) [OF assms(1) j(2)] assms(1,5) by (simp add: job_ok_def page_ok_def length_the_words)
  then show ?thesis using assms(2-4) job_fits(4,5) [OF assms(1) j(1)] by (simp add: store_args_def)
qed

lemma in_job_store_args: "in_job b q cq m u \<Longrightarrow> store_args u d a n = store_args b d a n"
  using in_job_fields(11) [of b q cq m u] by (simp add: store_args_def)

lemma in_job_store_op: "in_job b q cq m u \<Longrightarrow> fds_store_op u d a n = fds_store_op b d a n"
  using in_job_fields(9) [of b q cq m u] by (simp add: fds_store_op_def)

text \<open>The request that a step makes within the callback.\<close>

lemma job_request:
  assumes "job_ok b op cs" and "in_job b q cq m u" and "in_callback [] u" and "store_args b d a n"
  shows "ok (then_do (store_words cb d a n u) (\<lambda>(ret, s1). then_do (upd_op_step (cur_op u) f s1) (\<lambda>s2. Inr (success_or_busy ret, s2))))
    (\<lambda>(ret, t). ret = 0 \<and> in_callback [fds_store_op b d a n] t \<and> in_job b (f q) cq m t)"
proof (rule request_and_step [OF assms(2)])
  show "cur_op b < length (oq_op (m_op_queue b))" using assms(1) by (simp add: job_ok_def writes_def)
  have "linked u" using in_job_fields(10) [OF assms(2)] assms(1) by (simp add: job_ok_def)
  moreover have "store_args u d a n" using in_job_store_args [OF assms(2)] assms(4) by simp
  ultimately show "ok (store_words cb d a n u) (\<lambda>(r, t). r = 0 \<and> in_callback [fds_store_op b d a n] t \<and> fs_inner u t)"
    using store_in_callback [OF assms(3)] in_job_store_op [OF assms(2)] by simp
qed simp

lemma header_addr_ok:
  assumes "job_ok b op cs" and "k < 3"
  shows "word_at (op_header_addr b (cur_op b)) k \<noteq> 0" "word_at (op_header_addr b (cur_op b)) k AND 3 = 0"
proof -
  let ?h = "op_header_addr b (cur_op b)"
  have h: "?h \<noteq> 0" "?h AND 3 = 0" "fits ?h 3"
    using assms(1) by (auto simp: job_ok_def headers_apart_def writes_def)
  then have "unat (word_at ?h k) = unat ?h + 4 * k" using unat_word_at [of ?h 3 k] assms(2) by simp
  moreover have "unat ?h \<noteq> 0" using h(1) by (simp add: unat_eq_0)
  ultimately have "unat (word_at ?h k) \<noteq> 0" by simp
  then show "word_at ?h k \<noteq> 0" by auto
  show "word_at ?h k AND 3 = 0" by (rule aligned_word_at [OF h(2,3)]) (use assms(2) in simp)
qed

text \<open>What is in the flash when it is carried out.\<close>

definition job_mem :: "'m fds_st \<Rightarrow> fds_op_t \<Rightarrow> fds_record_chunk_t list \<Rightarrow> nat set \<Rightarrow> u32 \<Rightarrow> u32" where
  "job_mem b op cs W = put_words (job_addr b op) (the_words b op cs) W (fds_mem b)"

lemma in_job_carried:
  assumes "in_job b q cq m s"
  shows "in_job b q cq (program_words d (unat n) (\<lambda>k. source_word s (word_at a k)) m) (carried (fds_store_op b d a n) s)"
proof -
  let ?m = "program_words d (unat n) (\<lambda>k. source_word s (word_at a k)) m"
  have i: "fs_inner (at_job b q cq m) s" using assms by (simp add: in_job_def)
  have "(at_job b q cq m)\<lparr>fds_mem := ?m\<rparr> = at_job b q cq ?m" by (simp add: at_job_def)
  moreover have "carried (fds_store_op b d a n) s = s\<lparr>fds_mem := ?m\<rparr>"
    using in_job_fields(3) [OF assms] by (simp add: carried_def word_at_def)
  ultimately show ?thesis using fs_inner_updates(9) [OF i, of ?m] by (simp add: in_job_def)
qed

lemma carried_words:
  assumes "job_ok b op cs" and "in_job b q cq (job_mem b op cs W) s" and "j + unat n \<le> length (the_words b op cs)"
    and "W \<inter> {j..<j + unat n} = {}" and "\<forall>k < unat n. source_word s (word_at a k) = the_words b op cs ! (j + k)"
  shows "in_job b q cq (job_mem b op cs (W \<union> {j..<j + unat n})) (carried (fds_store_op b (word_at (job_addr b op) j) a n) s)"
proof -
  have "program_words (word_at (job_addr b op) j) (unat n) (\<lambda>k. source_word s (word_at a k)) (job_mem b op cs W) =
      job_mem b op cs (W \<union> {j..<j + unat n})"
    unfolding job_mem_def
  proof (rule program_put_words [OF job_fits(1) [OF assms(1)] assms(3,4,5)], intro allI impI)
    fix k assume "k < unat n"
    then have "j + k < length (the_words b op cs)" using assms(3) by linarith
    then show "fds_mem b (word_at (job_addr b op) (j + k)) = FDS_ERASED_WORD" by (rule job_fits(3) [OF assms(1)])
  qed
  then show ?thesis using in_job_carried [OF assms(2), of "word_at (job_addr b op) j" n a] by simp
qed

end
