(* ===== verification/FdsStage.thy ===== *)
theory FdsStage
  imports FdsWrite
begin

text \<open>
  The stages of a write: request \<open>i\<close> of the operation is at work, and the words of the requests before it are in the flash. The first request
  writes the key and the length, the second the record's ID, then come the chunks, and the last one the file's ID and the checksum.
\<close>

unbundle bit_operations_syntax

section \<open>Requests\<close>

definition chunk_off :: "fds_record_chunk_t list \<Rightarrow> nat \<Rightarrow> nat" where
  "chunk_off cs j = (\<Sum>c \<leftarrow> take j cs. unat (ch_length_words c))"

lemma chunk_off_0 [simp]: "chunk_off cs 0 = 0"
  by (simp add: chunk_off_def)

lemma chunk_off_Suc: "j < length cs \<Longrightarrow> chunk_off cs (Suc j) = chunk_off cs j + unat (ch_length_words (cs ! j))"
  by (simp add: chunk_off_def take_Suc_conv_app_nth)

lemma length_data_words: "length (data_words m cs) = chunk_off cs (length cs)"
  by (simp add: data_words_def length_concat chunk_off_def comp_def)

lemma chunk_off_le: "chunk_off cs j \<le> length (data_words m cs)"
proof -
  have "chunk_off cs (length cs) = chunk_off cs j + (\<Sum>c \<leftarrow> drop j cs. unat (ch_length_words c))"
    unfolding chunk_off_def by (metis append_take_drop_id map_append sum_list_append take_all_iff order_refl)
  then show ?thesis by (simp add: length_data_words)
qed

lemma data_words_nth:
  assumes "j < length cs" and "k < unat (ch_length_words (cs ! j))"
  shows "data_words m cs ! (chunk_off cs j + k) = m (word_at (ch_p_data (cs ! j)) k)"
proof -
  have "cs = take j cs @ cs ! j # drop (Suc j) cs" using assms(1) by (rule id_take_nth_drop)
  then have "data_words m cs = data_words m (take j cs) @ chunk_words m (cs ! j) @ data_words m (drop (Suc j) cs)"
    unfolding data_words_def by (metis concat.simps(2) concat_append list.simps(9) map_append)
  moreover have "length (data_words m (take j cs)) = chunk_off cs j"
    by (simp add: data_words_def length_concat chunk_off_def comp_def)
  ultimately show ?thesis using assms(2) by (simp add: nth_append chunk_words_def)
qed

text \<open>The place in the record, the source and the length of request \<open>i\<close>.\<close>

definition req_at :: "fds_record_chunk_t list \<Rightarrow> nat \<Rightarrow> nat" where
  "req_at cs i = (if i = 0 then 0 else if i = 1 then 2 else if i < length cs + 2 then 3 + chunk_off cs (i - 2) else 1)"

definition req_src :: "'m fds_st \<Rightarrow> fds_record_chunk_t list \<Rightarrow> nat \<Rightarrow> u32" where
  "req_src b cs i = (if 2 \<le> i \<and> i < length cs + 2 then ch_p_data (cs ! (i - 2)) else word_at (op_header_addr b (cur_op b)) (req_at cs i))"

definition req_len :: "fds_record_chunk_t list \<Rightarrow> nat \<Rightarrow> u16" where
  "req_len cs i = (if 2 \<le> i \<and> i < length cs + 2 then ch_length_words (cs ! (i - 2)) else 1)"

definition req_op :: "'m fds_st \<Rightarrow> fds_op_t \<Rightarrow> fds_record_chunk_t list \<Rightarrow> nat \<Rightarrow> fs_op_t" where
  "req_op b op cs i = fds_store_op b (word_at (job_addr b op) (req_at cs i)) (req_src b cs i) (req_len cs i)"

text \<open>The words that are in the flash when the first \<open>i\<close> requests are carried out.\<close>

definition req_done :: "fds_record_chunk_t list \<Rightarrow> nat \<Rightarrow> nat set" where
  "req_done cs i = (if i = 0 then {} else if i = 1 then {0} else if i \<le> length cs + 2 then {0, 2} \<union> {3..<3 + chunk_off cs (i - 2)}
     else {..<3 + chunk_off cs (length cs)})"

lemma req_done_Suc:
  assumes "i \<le> length cs + 2"
  shows "req_done cs (Suc i) = req_done cs i \<union> {req_at cs i..<req_at cs i + unat (req_len cs i)}"
    "req_done cs i \<inter> {req_at cs i..<req_at cs i + unat (req_len cs i)} = {}"
proof -
  consider "i = 0" | "i = 1" | j where "i = j + 2" "j < length cs" | "i = length cs + 2" "2 \<le> i"
    using assms by (metis One_nat_def Suc_1 add.commute le_Suc_eq le_add_diff_inverse2 less_2_cases not_less nat_add_left_cancel_less order_le_less)
  then have "req_done cs (Suc i) = req_done cs i \<union> {req_at cs i..<req_at cs i + unat (req_len cs i)} \<and>
      req_done cs i \<inter> {req_at cs i..<req_at cs i + unat (req_len cs i)} = {}"
  proof cases
    case 3
    then show ?thesis using chunk_off_Suc [OF 3(2)] by (auto simp: req_done_def req_at_def req_len_def)
  next
    case 4
    have "{..<3 + n} = {0, 2} \<union> {3..<3 + n} \<union> {1}" for n :: nat by auto
    then show ?thesis using 4 by (auto simp: req_done_def req_at_def req_len_def)
  qed (auto simp: req_done_def req_at_def req_len_def)
  then show "req_done cs (Suc i) = req_done cs i \<union> {req_at cs i..<req_at cs i + unat (req_len cs i)}"
    "req_done cs i \<inter> {req_at cs i..<req_at cs i + unat (req_len cs i)} = {}" by blast+
qed

lemma req_len_pos:
  assumes "job_ok b op cs"
  shows "req_len cs i \<noteq> 0"
  using assms by (auto simp: req_len_def job_ok_def chunk_ok_def)

lemma chunk_req:
  assumes "2 \<le> i" and "i < length cs + 2"
  obtains j where "i = j + 2" and "j < length cs" and "req_at cs i = 3 + chunk_off cs j" and "req_len cs i = ch_length_words (cs ! j)"
    and "req_src b cs i = ch_p_data (cs ! j)" and "cs ! j \<in> set cs"
proof -
  have "i = (i - 2) + 2" "i - 2 < length cs" using assms by linarith+
  then show ?thesis using that [of "i - 2"] assms by (simp add: req_at_def req_len_def req_src_def)
qed

lemma header_req:
  assumes "\<not> (2 \<le> i \<and> i < length cs + 2)"
  shows "req_at cs i < 3" "req_len cs i = 1" "req_src b cs i = word_at (op_header_addr b (cur_op b)) (req_at cs i)"
  using assms by (auto simp: req_at_def req_len_def req_src_def)

lemma req_inside: "req_at cs i + unat (req_len cs i) \<le> length (the_words b op cs)"
proof (cases "2 \<le> i \<and> i < length cs + 2")
  case True
  then obtain j where "j < length cs" "req_at cs i = 3 + chunk_off cs j" "req_len cs i = ch_length_words (cs ! j)"
    using chunk_req by blast
  then show ?thesis using chunk_off_le [of cs "Suc j" "fds_mem b"] chunk_off_Suc [of j cs] by (simp add: length_the_words)
next
  case False
  then show ?thesis using header_req [OF False] by (simp add: length_the_words)
qed

lemma req_store_args:
  assumes "job_ok b op cs"
  shows "store_args b (word_at (job_addr b op) (req_at cs i)) (req_src b cs i) (req_len cs i)"
proof (rule job_store_args [OF assms _ _ req_len_pos [OF assms] req_inside])
  have "req_src b cs i \<noteq> 0 \<and> req_src b cs i AND 3 = 0"
  proof (cases "2 \<le> i \<and> i < length cs + 2")
    case True
    then obtain j where "req_src b cs i = ch_p_data (cs ! j)" "cs ! j \<in> set cs" using chunk_req by metis
    then show ?thesis using assms by (simp add: job_ok_def chunk_ok_def is_word_aligned_def)
  next
    case False
    then show ?thesis using header_addr_ok [OF assms, of "req_at cs i"] header_req(1,2) [OF False] header_req(3) [OF False, of b] by simp
  qed
  then show "req_src b cs i \<noteq> 0" "req_src b cs i AND 3 = 0" by blast+
qed

text \<open>Where the words of a request come from, while the operation is in the queue.\<close>

lemma req_words:
  assumes "job_ok b op cs" and "in_job b q cq (job_mem b op cs W) s" and "w_header q = w_header op" and "k < unat (req_len cs i)"
  shows "source_word s (word_at (req_src b cs i) k) = the_words b op cs ! (req_at cs i + k)"
proof -
  note f = in_job_fields [OF assms(2)]
  have c: "cur_op b < length (oq_op (m_op_queue b))" using assms(1) by (simp add: job_ok_def writes_def)
  have e: "op_header_addr s = op_header_addr b" "page_tag_swap_addr s = page_tag_swap_addr b" "page_tag_data_addr s = page_tag_data_addr b"
    "tl_dirty_addr s = tl_dirty_addr b"
    using fs_inner_fields [of "at_job b q cq (job_mem b op cs W)" s] assms(2) by (simp_all add: in_job_def)
  show ?thesis
  proof (cases "2 \<le> i \<and> i < length cs + 2")
    case True
    then obtain j where j: "j < length cs" "req_at cs i = 3 + chunk_off cs j" "req_len cs i = ch_length_words (cs ! j)"
      "req_src b cs i = ch_p_data (cs ! j)" "cs ! j \<in> set cs"
      using chunk_req by metis
    have k: "k < unat (ch_length_words (cs ! j))" using assms(4) j(3) by simp
    let ?a = "word_at (ch_p_data (cs ! j)) k"
    have a: "app_data b ?a" "\<not> (p_start_addr (fds_area b) \<le> ?a \<and> ?a < p_end_addr (fds_area b))"
      using assms(1) j(5) k by (auto simp: job_ok_def chunk_ok_def Let_def)
    have "app_data s ?a = app_data b ?a" by (rule app_data_cong) (simp_all add: e f)
    then have "source_word s ?a = job_mem b op cs W ?a" using a(1) source_data f(3) by metis
    also have "\<dots> = fds_mem b ?a"
      unfolding job_mem_def by (rule put_words_outside) (use a(2) job_fits(4) [OF assms(1)] in metis)
    also have "\<dots> = the_words b op cs ! (3 + (chunk_off cs j + k))"
      using data_words_nth [OF j(1) k] by (simp add: the_words_def record_words_def header_words_def numeral_3_eq_3)
    finally show ?thesis using j by (simp add: add.assoc)
  next
    case False
    note h = header_req(1,2) [OF False] header_req(3) [OF False, of b]
    have k: "k = 0" using assms(4) h(2) by simp
    have "headers_apart s" using assms(1) by (simp add: job_ok_def headers_apart_def f)
    then have "source_word s (word_at (op_header_addr s (cur_op b)) (req_at cs i)) =
        header_words (w_header (oq_op (m_op_queue s) ! cur_op b)) ! req_at cs i"
      by (rule source_header) (use c h f in simp_all)
    then show ?thesis using c h k by (simp add: f assms(3) the_words_header)
  qed
qed

lemma carried_req:
  assumes "job_ok b op cs" and "in_job b q cq (job_mem b op cs (req_done cs i)) s" and "w_header q = w_header op" and "i \<le> length cs + 2"
  shows "in_job b q cq (job_mem b op cs (req_done cs (Suc i))) (carried (req_op b op cs i) s)"
  unfolding req_op_def req_done_Suc(1) [OF assms(4)]
  by (rule carried_words [OF assms(1,2) req_inside req_done_Suc(2) [OF assms(4)]]) (use req_words [OF assms(1-3)] in blast)

section \<open>Stages\<close>

text \<open>The operation and the chunk queue while request \<open>i\<close> is at work.\<close>

definition stage_op :: "fds_op_t \<Rightarrow> fds_record_chunk_t list \<Rightarrow> nat \<Rightarrow> fds_op_t" where
  "stage_op op cs i =
     (if i = 0 then op\<lparr>w_step := FDS_OP_WRITE_RECORD_ID\<rparr>
      else let j = min (i - 1) (length cs) in
        op\<lparr>w_step := (if i = length cs + 2 then FDS_OP_WRITE_DONE else if j = length cs then FDS_OP_WRITE_HEADER_FINALIZE else FDS_OP_WRITE_CHUNKS),
           w_chunk_offset := 3 + of_nat (chunk_off cs j), w_chunk_count := of_nat (length cs - j)\<rparr>)"

definition stage_chunks :: "'m fds_st \<Rightarrow> fds_record_chunk_t list \<Rightarrow> nat \<Rightarrow> fds_chunk_queue_t" where
  "stage_chunks b cs i = (chunk_take ^^ min (i - 1) (length cs)) (m_chunk_queue b)"

lemma stage_op_same [simp]:
  "w_header (stage_op op cs i) = w_header op" "w_page (stage_op op cs i) = w_page op" "op_code (stage_op op cs i) = op_code op"
  by (simp_all add: stage_op_def Let_def)

lemma stage_op_writes: "writes b (stage_op op cs i) = writes b op" "job_addr b (stage_op op cs i) = job_addr b op"
  by (simp_all add: writes_def job_addr_def)

lemma chunk_takes:
  assumes "chunk_ring q" and "j \<le> length (chunk_list q)"
  shows "chunk_ring ((chunk_take ^^ j) q) \<and> chunk_list ((chunk_take ^^ j) q) = drop j (chunk_list q)"
  using assms(2)
proof (induction j)
  case 0
  then show ?case using assms(1) by simp
next
  case (Suc j)
  let ?q = "(chunk_take ^^ j) q"
  have IH: "chunk_ring ?q" "chunk_list ?q = drop j (chunk_list q)" using Suc by simp_all
  then have "cq_count ?q \<noteq> 0" using Suc.prems chunk_list_Nil [of ?q] by simp
  then show ?case using chunk_take_ok [OF IH(1)] IH(2) by (simp add: tl_drop drop_Suc)
qed

lemma stage_chunks_ok:
  assumes "job_ok b op cs" and "i < length cs"
  shows "chunk_ring (stage_chunks b cs (Suc i))" "cq_count (stage_chunks b cs (Suc i)) \<noteq> 0" "hd (chunk_list (stage_chunks b cs (Suc i))) = cs ! i"
    "stage_chunks b cs (Suc (Suc i)) = chunk_take (stage_chunks b cs (Suc i))"
proof -
  have q: "chunk_ring (m_chunk_queue b)" "chunk_list (m_chunk_queue b) = cs" using assms(1) by (simp_all add: job_ok_def)
  have l: "chunk_ring (stage_chunks b cs (Suc i)) \<and> chunk_list (stage_chunks b cs (Suc i)) = drop i cs"
    using chunk_takes [OF q(1), of i] q(2) assms(2) by (simp add: stage_chunks_def)
  then show "chunk_ring (stage_chunks b cs (Suc i))" "hd (chunk_list (stage_chunks b cs (Suc i))) = cs ! i"
    using assms(2) by (simp_all add: hd_drop_conv_nth)
  show "cq_count (stage_chunks b cs (Suc i)) \<noteq> 0" using l assms(2) chunk_list_Nil [of "stage_chunks b cs (Suc i)"] by simp
  show "stage_chunks b cs (Suc (Suc i)) = chunk_take (stage_chunks b cs (Suc i))" using assms(2) by (simp add: stage_chunks_def)
qed

text \<open>The step that makes the next request. \<open>C\<close> is as in \<open>request_and_step\<close>.\<close>

lemma stage_begin:
  assumes "job_ok b op cs" and "w_step op = FDS_OP_WRITE_HEADER_BEGIN" and "in_job b op (m_chunk_queue b) m u" and "fs_pred C"
    and "ok (store_words cb (job_addr b op) (op_header_addr b (cur_op b)) 1 u) (\<lambda>(r, t). r = 0 \<and> C t \<and> fs_inner u t)"
  shows "ok (write_step cb (w_step op) (cur_op u) (job_addr b op) u)
    (\<lambda>(r, ret, t). \<not> r \<and> ret = 0 \<and> C t \<and> in_job b (stage_op op cs 0) (stage_chunks b cs 0) m t)"
proof -
  have c: "cur_op b < length (oq_op (m_op_queue b))" using assms(1) by (simp add: job_ok_def writes_def)
  note f = in_job_fields [OF assms(3)]
  have "stage_chunks b cs 0 = m_chunk_queue b" by (simp add: stage_chunks_def)
  then show ?thesis
    using request_and_step [OF assms(3) c assms(4,5), of "\<lambda>op. op\<lparr>w_step := FDS_OP_WRITE_RECORD_ID\<rparr>"] assms(2)
    by (simp add: write_step_def record_header_write_begin_def FDS_OFFSET_TL_def FDS_HEADER_SIZE_TL_def f stage_op_def case_prod_beta)
qed

lemma u8_zero: "n < 2 ^ 8 \<Longrightarrow> (of_nat n :: u8) = 0 \<longleftrightarrow> n = 0"
  by (auto simp: word_of_nat_eq_0_iff dest: dvd_imp_le)

definition next_stage :: "'m fds_st \<Rightarrow> fds_op_t \<Rightarrow> fds_record_chunk_t list \<Rightarrow> nat \<Rightarrow> (u32 \<Rightarrow> u32) \<Rightarrow> bool \<times> u32 \<times> 'm fds_st \<Rightarrow> bool" where
  "next_stage b op cs i m x = (case x of (r, ret, t) \<Rightarrow>
     \<not> r \<and> ret = 0 \<and> in_callback [req_op b op cs i] t \<and> in_job b (stage_op op cs i) (stage_chunks b cs i) m t)"

lemma stage_id:
  assumes "job_ok b op cs" and "in_job b (stage_op op cs 0) (stage_chunks b cs 0) m u" and "in_callback [] u"
  shows "ok (write_step cb FDS_OP_WRITE_RECORD_ID (cur_op u) (job_addr b op) u) (next_stage b op cs 1 m)"
proof -
  let ?f = "\<lambda>op. op\<lparr>w_step := (if w_chunk_count op \<noteq> 0 then FDS_OP_WRITE_CHUNKS else FDS_OP_WRITE_HEADER_FINALIZE)\<rparr>"
  note f = in_job_fields [OF assms(2)]
  have j: "w_chunk_count op = of_nat (length cs)" "w_chunk_offset op = 3" "length cs < 2 ^ 8" using assms(1) by (simp_all add: job_ok_def)
  have "?f (stage_op op cs 0) = stage_op op cs 1" using j u8_zero [OF j(3)] by (cases op) (simp add: stage_op_def)
  moreover have "stage_chunks b cs 1 = stage_chunks b cs 0" by (simp add: stage_chunks_def)
  moreover have "req_op b op cs 1 = fds_store_op b (word_at (job_addr b op) 2) (op_header_addr b (cur_op b) + 8) 1"
    by (simp add: req_op_def req_at_def req_src_def req_len_def word_at_def)
  moreover have "store_args b (word_at (job_addr b op) 2) (op_header_addr b (cur_op b) + 8) 1"
    using req_store_args [OF assms(1), of 1] by (simp add: req_at_def req_src_def req_len_def word_at_def)
  ultimately show ?thesis
    using job_request [OF assms(1-3), of "word_at (job_addr b op) 2" "op_header_addr b (cur_op b) + 8" 1 cb ?f]
    by (simp add: write_step_def record_header_write_id_def FDS_OFFSET_ID_def FDS_HEADER_SIZE_ID_def f word_at_def next_stage_def case_prod_beta)
qed

lemma stage_finalize:
  assumes "job_ok b op cs" and "in_job b (stage_op op cs (Suc (length cs))) (stage_chunks b cs (Suc (length cs))) m u" and "in_callback [] u"
  shows "ok (write_step cb FDS_OP_WRITE_HEADER_FINALIZE (cur_op u) (job_addr b op) u) (next_stage b op cs (length cs + 2) m)"
proof -
  let ?f = "\<lambda>op. op\<lparr>w_step := (if op_code op = FDS_OP_UPDATE then FDS_OP_WRITE_FLAG_DIRTY else FDS_OP_WRITE_DONE)\<rparr>"
  note f = in_job_fields [OF assms(2)]
  have c: "op_code op = FDS_OP_WRITE" using assms(1) by (simp add: job_ok_def writes_def)
  have "?f (stage_op op cs (Suc (length cs))) = stage_op op cs (length cs + 2)" using c by (cases op) (simp add: stage_op_def Let_def)
  moreover have "stage_chunks b cs (length cs + 2) = stage_chunks b cs (Suc (length cs))" by (simp add: stage_chunks_def)
  moreover have "req_op b op cs (length cs + 2) = fds_store_op b (word_at (job_addr b op) 1) (op_header_addr b (cur_op b) + 4) 1"
    by (simp add: req_op_def req_at_def req_src_def req_len_def word_at_def)
  moreover have "store_args b (word_at (job_addr b op) 1) (op_header_addr b (cur_op b) + 4) 1"
    using req_store_args [OF assms(1), of "length cs + 2"] by (simp add: req_at_def req_src_def req_len_def word_at_def)
  ultimately show ?thesis
    using job_request [OF assms(1-3), of "word_at (job_addr b op) 1" "op_header_addr b (cur_op b) + 4" 1 cb ?f]
    by (simp add: write_step_def record_header_write_finalize_def FDS_OFFSET_IC_def FDS_HEADER_SIZE_IC_def f word_at_def next_stage_def case_prod_beta)
qed

definition after_chunk :: "fds_record_chunk_t \<Rightarrow> fds_op_t \<Rightarrow> fds_op_t" where
  "after_chunk c = (\<lambda>op.
      let op1 = op\<lparr>w_chunk_offset := w_chunk_offset op + ch_length_words c, w_chunk_count := w_chunk_count op - 1\<rparr>
      in if w_chunk_count op1 = 0 then op1\<lparr>w_step := FDS_OP_WRITE_HEADER_FINALIZE\<rparr> else op1)"

lemma after_chunk_stage:
  assumes "length cs < 2 ^ 8" and "j < length cs"
  shows "after_chunk (cs ! j) (stage_op op cs (Suc j)) = stage_op op cs (Suc (Suc j))"
proof -
  have "of_nat (length cs - j) - 1 = (of_nat (length cs - Suc j) :: u8)"
    using assms(2) by (metis Suc_diff_Suc of_nat_Suc add_diff_cancel_left')
  moreover have "(of_nat (length cs - Suc j) :: u8) = 0 \<longleftrightarrow> Suc j = length cs" using assms u8_zero [of "length cs - Suc j"] by (auto simp del: of_nat_diff)
  moreover have "of_nat (chunk_off cs (Suc j)) = of_nat (chunk_off cs j) + ch_length_words (cs ! j)"
    using chunk_off_Suc [OF assms(2)] by simp
  ultimately show ?thesis using assms(2) by (cases op) (auto simp: after_chunk_def stage_op_def Let_def add.assoc simp del: of_nat_diff)
qed

lemma stage_chunk:
  assumes "job_ok b op cs" and "in_job b (stage_op op cs (Suc j)) (stage_chunks b cs (Suc j)) m u" and "in_callback [] u" and "j < length cs"
  shows "ok (write_step cb FDS_OP_WRITE_CHUNKS (cur_op u) (job_addr b op) u) (next_stage b op cs (Suc (Suc j)) m)"
proof -
  let ?c = "cs ! j" and ?d = "word_at (job_addr b op) (3 + chunk_off cs j)" and ?k = "unat (cq_rp (m_chunk_queue u))"
  let ?s = "u\<lparr>m_chunk_queue := chunk_take (m_chunk_queue u)\<rparr>"
  note f = in_job_fields [OF assms(2)]
  note q = stage_chunks_ok [OF assms(1,4)]
  have g: "chunk_queue_get_and_advance u = (Some ?k, ?s)" "load_at (cq_chunk (m_chunk_queue u)) ?k = Inr ?c"
    using chunk_get_ok [of u] q(1-3) by (simp_all add: f)
  have t: "cq_chunk (chunk_take x) = cq_chunk x" for x by (simp add: chunk_take_def)
  have s: "in_job b (stage_op op cs (Suc j)) (stage_chunks b cs (Suc (Suc j))) m ?s"
    using in_job_set_chunks [OF assms(2)] q(4) f(2) by simp
  have i: "in_callback [] ?s" using assms(3) fs_same_queue(5) [of u ?s "[]"] by simp
  have o: "get_op (cur_op u) ?s = Inr (stage_op op cs (Suc j))"
    using in_job_op [OF s] assms(1) in_job_fields(5) [OF s] f(5) by (simp add: job_ok_def writes_def)
  have r: "req_op b op cs (Suc (Suc j)) = fds_store_op b ?d (ch_p_data ?c) (ch_length_words ?c)"
    using assms(4) by (simp add: req_op_def req_at_def req_src_def req_len_def)
  have a: "store_args b ?d (ch_p_data ?c) (ch_length_words ?c)"
    using req_store_args [OF assms(1), of "Suc (Suc j)"] assms(4) by (simp add: req_at_def req_src_def req_len_def)
  have "linked ?s" using in_job_fields(10) [OF s] assms(1) by (simp add: job_ok_def)
  moreover have "store_args ?s ?d (ch_p_data ?c) (ch_length_words ?c)" using in_job_store_args [OF s] a by simp
  ultimately obtain v where v: "store_words cb ?d (ch_p_data ?c) (ch_length_words ?c) ?s = Inr (0, v)" "fs_inner ?s v"
    using store_in_callback(1,3) [OF i, of ?d "ch_p_data ?c" "ch_length_words ?c"] by blast
  have l: "load_at (cq_chunk (m_chunk_queue v)) ?k = Inr ?c" using g(2) fs_inner_fields(5) [OF v(2)] by (simp add: t)
  have w: "3 + chunk_off cs j < 2 ^ 16"
    using assms(1) chunk_off_le [of cs j "fds_mem b"] by (simp add: job_ok_def page_ok_def)
  then have "unat (3 + of_nat (chunk_off cs j) :: u16) = 3 + chunk_off cs j"
    by (simp add: unat_word_ariths unsigned_of_nat take_bit_eq_mod)
  moreover have "unat (of_nat (3 + chunk_off cs j) :: u32) = 3 + chunk_off cs j" by (rule unat_of_nat_u32) (use w in simp)
  ultimately have "(ucast (3 + of_nat (chunk_off cs j) :: u16) :: u32) = of_nat (3 + chunk_off cs j)"
    by (simp only: word_unat_eq_iff unat_ucast_u16)
  then have p: "job_addr b op + 4 * ucast (w_chunk_offset (stage_op op cs (Suc j))) = ?d"
    using assms(4) by (simp add: stage_op_def word_at_def)
  have n: "after_chunk ?c (stage_op op cs (Suc j)) = stage_op op cs (Suc (Suc j))"
    by (rule after_chunk_stage) (use assms(1,4) in \<open>simp_all add: job_ok_def\<close>)
  have "ok (then_do (upd_op_step (cur_op u) (after_chunk ?c) v) (\<lambda>s2. Inr (0 :: u32, s2)))
     (\<lambda>(ret, t). ret = 0 \<and> in_callback [req_op b op cs (Suc (Suc j))] t \<and> in_job b (stage_op op cs (Suc (Suc j))) (stage_chunks b cs (Suc (Suc j))) m t)"
    using job_request [OF assms(1) s i a, of cb "after_chunk ?c"] v(1) in_job_fields(5) [OF s]
    by (simp add: r n f success_or_busy_def FDS_SUCCESS_def)
  then show ?thesis
    using g v(1) l o p
    by (simp add: write_step_def record_write_chunk_def t next_stage_def case_prod_beta success_or_busy_def FDS_SUCCESS_def after_chunk_def)
qed

definition at_stage :: "'m fds_st \<Rightarrow> fds_op_t \<Rightarrow> fds_record_chunk_t list \<Rightarrow> nat \<Rightarrow> 'm fds_st \<Rightarrow> bool" where
  "at_stage b op cs i s \<longleftrightarrow> at_work (req_op b op cs i) 0 s \<and>
     in_job b (stage_op op cs i) (stage_chunks b cs i) (job_mem b op cs (req_done cs i)) s"

lemma at_stage_our_op: "at_stage b op cs i s \<Longrightarrow> our_op s (req_op b op cs j)"
  unfolding at_stage_def req_op_def using in_job_store_op store_op_simps(1) by metis

lemma stage_next:
  assumes "job_ok b op cs" and "env_quiet E" and "at_stage b op cs i s" and "i < length cs + 2"
  shows "ok (carry_out E s) (at_stage b op cs (Suc i))"
proof -
  let ?m = "job_mem b op cs (req_done cs (Suc i))"
  have w: "at_work (req_op b op cs i) 0 s" "in_job b (stage_op op cs i) (stage_chunks b cs i) (job_mem b op cs (req_done cs i)) s"
    using assms(3) by (simp_all add: at_stage_def)
  have l: "linked s" using in_job_fields(10) [OF w(2)] assms(1) by (simp add: job_ok_def)
  have n: "0 < op_total (req_op b op cs (Suc i))" using req_len_pos [OF assms(1)] by (simp add: req_op_def unat_gt_0)
  have c: "in_job b (stage_op op cs i) (stage_chunks b cs i) ?m (carried (req_op b op cs i) s)"
    by (rule carried_req [OF assms(1) w(2)]) (use assms(4) in simp_all)
  have wr: "writes b (stage_op op cs i)" using assms(1) by (simp add: stage_op_writes job_ok_def)
  have "ok (carry_out E s) (\<lambda>t. at_work (req_op b op cs (Suc i)) 0 t \<and> fs_inner (at_job b (stage_op op cs (Suc i)) (stage_chunks b cs (Suc i)) ?m) t)"
  proof (rule carry_out_work [OF w(1) l at_stage_our_op [OF assms(3)] at_stage_our_op [OF assms(3)] n])
    fix u assume u: "in_callback [] u" "fs_inner (carried (req_op b op cs i) s) u"
    have j: "in_job b (stage_op op cs i) (stage_chunks b cs i) ?m u" by (rule in_job_inner [OF c u(2)])
    have "ok (fds_queue_process E FS_SUCCESS u)
        (\<lambda>t. in_callback [req_op b op cs (Suc i)] t \<and> in_job b (stage_op op cs (Suc i)) (stage_chunks b cs (Suc i)) ?m t)"
    proof (rule write_step_continues [OF assms(2) wr j])
      fix cb
      have "ok (write_step cb (w_step (stage_op op cs i)) (cur_op u) (job_addr b op) u) (next_stage b op cs (Suc i) ?m)"
      proof (cases i)
        case 0
        then show ?thesis using stage_id [OF assms(1) _ u(1)] j by (simp add: stage_op_def)
      next
        case (Suc k)
        show ?thesis
        proof (cases "k < length cs")
          case True
          then show ?thesis using stage_chunk [OF assms(1) _ u(1) True] j Suc by (simp add: stage_op_def)
        next
          case False
          then have "i = Suc (length cs)" using Suc assms(4) by simp
          then show ?thesis using stage_finalize [OF assms(1) _ u(1)] j by (simp add: stage_op_def)
        qed
      qed
      then show "ok (write_step cb (w_step (stage_op op cs i)) (cur_op u) (job_addr b (stage_op op cs i)) u)
          (\<lambda>(r, ret, t). \<not> r \<and> ret = 0 \<and> in_callback [req_op b op cs (Suc i)] t \<and> in_job b (stage_op op cs (Suc i)) (stage_chunks b cs (Suc i)) ?m t)"
        by (simp add: stage_op_writes next_stage_def [abs_def])
    qed
    then show "ok (fds_queue_process E FS_SUCCESS u)
        (\<lambda>t. in_callback [req_op b op cs (Suc i)] t \<and> fs_inner (at_job b (stage_op op cs (Suc i)) (stage_chunks b cs (Suc i)) ?m) t)"
      by (simp add: in_job_def)
  qed
  then show ?thesis by (simp add: at_stage_def [abs_def] in_job_def)
qed

lemma stages:
  assumes "job_ok b op cs" and "env_quiet E" and "at_stage b op cs i s" and "i + n \<le> length cs + 2"
  shows "ok (carry_outs E n s) (at_stage b op cs (i + n))"
  using assms(3,4)
proof (induction n arbitrary: i s)
  case (Suc n)
  show ?case unfolding carry_outs.simps
  proof (rule ok_then_doI [OF stage_next [OF assms(1,2) Suc.prems(1)]])
    fix t assume "at_stage b op cs (Suc i) t"
    then show "ok (carry_outs E n t) (at_stage b op cs (i + Suc n))" using Suc.IH [of "Suc i" t] Suc.prems(2) by simp
  qed (use Suc.prems in simp)
qed simp

end
