(* ===== verification/FdsWritten.thy ===== *)
theory FdsWritten
  imports FdsStage
begin

text \<open>
  The end of a write: the offsets of its page are moved on, the event is sent, and the record is what a search finds. Before the
  last word is written a search sees what it saw before.
\<close>

unbundle bit_operations_syntax

section \<open>The last step\<close>

definition written_page :: "fds_op_t \<Rightarrow> fds_page_t \<Rightarrow> fds_page_t" where
  "written_page op pg = pg\<lparr>write_offset := write_offset pg + (of_nat FDS_HEADER_SIZE + tl_length_words (h_tl (w_header op))),
     words_reserved := words_reserved pg - (of_nat FDS_HEADER_SIZE + tl_length_words (h_tl (w_header op)))\<rparr>"

definition all_words :: "'m fds_st \<Rightarrow> fds_op_t \<Rightarrow> fds_record_chunk_t list \<Rightarrow> u32 \<Rightarrow> u32" where
  "all_words b op cs = job_mem b op cs (req_done cs (length cs + 3))"

definition with_written :: "fds_op_t \<Rightarrow> 'm fds_st \<Rightarrow> 'm fds_st" where
  "with_written op s = s\<lparr>m_pages := (m_pages s)[unat (w_page op) := written_page op (m_pages s ! unat (w_page op))]\<rparr>"

definition write_end :: "'m fds_st \<Rightarrow> fds_op_t \<Rightarrow> fds_record_chunk_t list \<Rightarrow> 'm fds_st" where
  "write_end b op cs = op_done (stage_op op cs (length cs + 2)) FDS_SUCCESS
     (with_written op (at_job b (stage_op op cs (length cs + 2)) (stage_chunks b cs (length cs + 2)) (all_words b op cs)))"

text \<open>The checksum in the header is that of the words.\<close>

definition crc_ok :: "'m fds_st \<Rightarrow> fds_op_t \<Rightarrow> fds_record_chunk_t list \<Rightarrow> bool" where
  "crc_ok b op cs \<longleftrightarrow> cfg_fds_crc b \<longrightarrow> (\<forall>s :: 'm fds_st. fds_mem s = all_words b op cs \<longrightarrow>
     crc_verify_success (crc16 (h_ic (w_header op))) (tl_length_words (h_tl (w_header op))) (job_addr b op) s = Inr True)"

lemma op_done_inner:
  assumes "fs_inner s (t :: 'm fds_st)"
  shows "fs_inner (op_done op r (with_written op' s)) (op_done op r (with_written op' t))"
proof -
  note f = fs_inner_fields [OF assms]
  show ?thesis
    unfolding op_done_def with_written_def flag_clear_def
    by (simp add: f) (intro fs_inner_updates assms)
qed

lemma op_executed:
  assumes "job_ok b op cs" and "crc_ok b op cs"
    and "in_job b (stage_op op cs (length cs + 2)) (stage_chunks b cs (length cs + 2)) (all_words b op cs) u"
  shows "op_execute cb FS_SUCCESS (cur_op u) u = Inr (FDS_OP_COMPLETED, with_written op u)"
proof -
  let ?q = "stage_op op cs (length cs + 2)"
  note f = in_job_fields [OF assms(3)]
  have w: "writes b ?q" using assms(1) by (simp add: stage_op_writes job_ok_def)
  have g: "get_op (cur_op u) u = Inr ?q" using in_job_op [OF assms(3)] w by (simp add: writes_def)
  have l: "load_at (m_pages u) (unat (w_page op)) = Inr (m_pages b ! unat (w_page op))" "unat (w_page op) < length (m_pages b)"
    using w by (simp_all add: f load_at_def writes_def)
  have s: "w_step ?q = FDS_OP_WRITE_DONE" by (simp add: stage_op_def Let_def)
  have "write_done (cur_op u) (job_addr b op) u = Inr FDS_OP_COMPLETED"
    using assms(2) g by (simp add: write_done_def crc_ok_def f)
  then show ?thesis
    using g l s w
    by (simp add: op_execute_def write_execute_def Let_def writes_def free_addr_ptr write_step_def job_addr_def
        page_offsets_update_def upd_page_def f store_at_def with_written_def written_page_def fds_codes)
qed

lemma stage_last:
  assumes "job_ok b op cs" and "crc_ok b op cs" and "env_quiet E" and "at_stage b op cs (length cs + 2) s" and "\<not> req_pending b"
  shows "ok (carry_out E s) (\<lambda>t. fs_quiet t \<and> fs_inner (write_end b op cs) t)"
proof -
  let ?n = "length cs + 2" and ?v = "at_job b (stage_op op cs (length cs + 2)) (stage_chunks b cs (length cs + 2)) (all_words b op cs)"
  let ?q = "stage_op op cs (length cs + 2)"
  have w: "at_work (req_op b op cs ?n) 0 s" "in_job b ?q (stage_chunks b cs ?n) (job_mem b op cs (req_done cs ?n)) s"
    using assms(4) by (simp_all add: at_stage_def)
  have l: "linked s" using in_job_fields(10) [OF w(2)] assms(1) by (simp add: job_ok_def)
  have n: "length cs + 3 = Suc ?n" by simp
  have c: "in_job b ?q (stage_chunks b cs ?n) (all_words b op cs) (carried (req_op b op cs ?n) s)"
    unfolding all_words_def n by (rule carried_req [OF assms(1) w(2)]) simp_all
  have p: "\<not> req_pending (write_end b op cs)"
    using assms(5) by (simp add: write_end_def op_done_def with_written_def at_job_def flag_clear_def has_flag_def)
  show ?thesis
  proof (rule carry_out_idle [OF w(1) l at_stage_our_op [OF assms(4)] _ p])
    fix u assume u: "in_callback [] u" "fs_inner (carried (req_op b op cs ?n) s) u"
    have j: "in_job b ?q (stage_chunks b cs ?n) (all_words b op cs) u" by (rule in_job_inner [OF c u(2)])
    note f = in_job_fields [OF j]
    let ?t = "with_written op u"
    have q: "op_ring (m_op_queue ?t)" "op_list (m_op_queue ?t) = [?q]" "cur_op ?t = cur_op u"
    proof -
      have o: "op_ring (m_op_queue b)" "oq_count (m_op_queue b) = 1" "cur_op b < length (oq_op (m_op_queue b))"
        using assms(1) by (simp_all add: job_ok_def writes_def)
      then show r: "op_ring (m_op_queue ?t)" by (simp add: with_written_def f op_ring_def)
      have "ring_slice ((oq_op (m_op_queue b))[cur_op b := ?q]) (cur_op b) 1 = [?q]"
        using o(3) by (simp add: ring_slice_def)
      then show "op_list (m_op_queue ?t) = [?q]" using o(2) by (simp add: with_written_def f op_list_def cur_op_def)
      show "cur_op ?t = cur_op u" by (simp add: with_written_def cur_op_def)
    qed
    have "fds_queue_process E FS_SUCCESS u = Inr (op_done ?q FDS_SUCCESS ?t)"
      by (rule process_completes [OF assms(3) op_executed [OF assms(1,2) j] q])
    moreover have "fs_inner (write_end b op cs) (op_done ?q FDS_SUCCESS ?t)"
      unfolding write_end_def by (rule op_done_inner) (use j in \<open>simp add: in_job_def\<close>)
    moreover have "in_callback [] (op_done ?q FDS_SUCCESS ?t)"
      using u(1) fs_same_queue(5) [of u "op_done ?q FDS_SUCCESS ?t" "[]"]
      by (simp add: op_done_def with_written_def flag_clear_def)
    ultimately show "ok (fds_queue_process E FS_SUCCESS u) (\<lambda>t. in_callback [] t \<and> fs_inner (write_end b op cs) t)" by simp
  qed
qed

section \<open>The checksum\<close>

definition word_list_bytes :: "u32 list \<Rightarrow> u8 list" where
  "word_list_bytes ws = concat (map word_bytes ws)"

lemma length_word_list_bytes [simp]: "length (word_list_bytes ws) = 4 * length ws"
  by (induction ws) (simp_all add: word_list_bytes_def word_bytes_def)

lemma mem_bytes_words: "mem_bytes m p n = word_list_bytes (map (\<lambda>k. m (word_at p k)) [0..<n])"
  by (simp add: mem_bytes_def word_list_bytes_def word_at_def comp_def)

lemma crc_of_words:
  assumes "4 * length ws < 2 ^ 32"
  shows "crc16_compute (word_list_bytes ws) (of_nat (length ws * 4)) (Some c) = Inr (fold crc16_step (word_list_bytes ws) c)"
proof -
  have "unat (of_nat (length ws * 4) :: u32) = 4 * length ws" using unat_of_nat_u32 [of "length ws * 4"] assms by (simp add: mult.commute)
  then show ?thesis using crc16_compute_fold [of "word_list_bytes ws" "of_nat (length ws * 4)" "Some c"] by simp
qed

lemma chunks_crc_fold:
  assumes "i + n \<le> length p"
  shows "chunks_crc m p i n c = Inr (fold crc16_step (word_list_bytes (data_words m (take n (drop i p)))) c)"
  using assms
proof (induction n arbitrary: i c)
  case 0
  then show ?case by (simp add: data_words_def word_list_bytes_def)
next
  case (Suc n)
  let ?c = "p ! i"
  have l: "load_at p i = Inr ?c" using Suc.prems by (simp add: load_at_def)
  have t: "take (Suc n) (drop i p) = ?c # take n (drop (Suc i) p)" using Suc.prems by (simp add: Cons_nth_drop_Suc [symmetric])
  have b: "mem_bytes m (ch_p_data ?c) (unat (ch_length_words ?c)) = word_list_bytes (chunk_words m ?c)"
    by (simp add: mem_bytes_words chunk_words_def)
  have "4 * length (chunk_words m ?c) < 2 ^ 32" using unat_less_u16 [of "ch_length_words ?c"] by simp
  from crc_of_words [OF this]
  show ?case using Suc.IH [of "Suc i"] Suc.prems l t b
    by (simp add: data_words_def word_list_bytes_def mult.commute)
qed

lemma six_bytes: "take 6 (word_list_bytes (header_words h)) = take 6 (word_bytes (word_of_tl (h_tl h)) @ word_bytes (word_of_ic \<lparr>file_id = file_id (h_ic h), crc16 = c\<rparr>))"
proof -
  have "(ucast (word_of_ic \<lparr>file_id = f, crc16 = x\<rparr>) :: u8) = ucast (word_of_ic \<lparr>file_id = f, crc16 = y\<rparr>)"
    "(ucast (drop_bit 8 (word_of_ic \<lparr>file_id = f, crc16 = x\<rparr>)) :: u8) = ucast (drop_bit 8 (word_of_ic \<lparr>file_id = f, crc16 = y\<rparr>))" for f x y
    by (rule bit_word_eqI; simp add: word_of_ic_def bit_simps)+
  from this [of "file_id (h_ic h)" "crc16 (h_ic h)" c] show ?thesis
    by (cases "h_ic h") (simp add: word_list_bytes_def header_words_def word_bytes_def)
qed

definition words_crc :: "u32 list \<Rightarrow> u16" where
  "words_crc ws = fold crc16_step (take 6 (word_list_bytes ws) @ drop 8 (word_list_bytes ws)) 0xFFFF"

lemma record_crc_fold:
  assumes "unat (rec_num_chunks r) \<le> length (rec_p_chunks r)"
  shows "record_crc h r s = Inr (if cfg_fds_crc s
    then words_crc (record_words h (data_words (fds_mem s) (take (unat (rec_num_chunks r)) (rec_p_chunks r)))) else 0)"
proof -
  have 6: "take 6 (header_bytes h) = take 6 (word_list_bytes (header_words h))"
    by (simp add: header_bytes_def word_list_bytes_def header_words_def word_bytes_def)
  have 8: "drop 8 (word_list_bytes (record_words h ds)) = word_bytes (record_id h) @ word_list_bytes ds"
    "take 6 (word_list_bytes (record_words h ds)) = take 6 (word_list_bytes (header_words h))" for ds
    by (simp_all add: word_list_bytes_def record_words_def header_words_def word_bytes_def)
  have "length (word_bytes w) = 4" "length (header_words h) = 3" for w by (simp_all add: word_bytes_def header_words_def)
  then show ?thesis
    using chunks_crc_fold [of 0 "unat (rec_num_chunks r)" "rec_p_chunks r"] assms
    by (simp add: record_crc_def 6 8 words_crc_def crc16_compute_fold)
qed

lemma crc_verify_words:
  assumes "\<forall>k < length ws. fds_mem s (word_at p k) = ws ! k" and "length ws = 3 + unat len"
  shows "crc_verify_success crc len p s = Inr (words_crc ws = crc)"
proof -
  obtain a b vs where ws: "ws = a # b # vs" "length vs = 1 + unat len"
    using assms(2) by (cases ws rule: remdups_adj.cases) auto
  have "map (\<lambda>k. fds_mem s (word_at p k)) [0..<2] = [a, b]"
    using assms(1) [rule_format, of 0] assms(1) [rule_format, of 1] ws(1) by (simp add: upt_rec)
  then have 6: "take 6 (mem_bytes (fds_mem s) p 2) = take 6 (word_list_bytes ws)"
    by (simp add: mem_bytes_words word_list_bytes_def ws(1) word_bytes_def)
  have p8: "p + 8 = word_at p 2" by (simp add: word_at_def)
  have "map (\<lambda>k. fds_mem s (word_at (word_at p 2) k)) [0..<length vs] = vs"
  proof (rule nth_equalityI)
    fix i assume "i < length (map (\<lambda>k. fds_mem s (word_at (word_at p 2) k)) [0..<length vs])"
    then show "map (\<lambda>k. fds_mem s (word_at (word_at p 2) k)) [0..<length vs] ! i = vs ! i"
      using assms(1) [rule_format, of "2 + i"] ws(1) by (simp add: word_at_add)
  qed simp
  then have 8: "mem_bytes (fds_mem s) (p + 8) (1 + unat len) = word_list_bytes vs"
    by (simp only: mem_bytes_words p8 ws(2))
  have d: "drop 8 (word_list_bytes ws) = word_list_bytes vs" by (simp add: ws(1) word_list_bytes_def word_bytes_def)
  have "4 * length vs < 2 ^ 32" using ws(2) unat_less_u16 [of len] by simp
  note c = crc_of_words [OF this, unfolded ws(2)]
  have h: "unat FDS_HEADER_SIZE_ID = 1" by (simp add: FDS_HEADER_SIZE_ID_def)
  have l: "length (take 6 (word_list_bytes ws)) = unat (6 :: u32)" by (simp add: ws)
  show ?thesis
    unfolding crc_verify_success_def 6 8 h crc16_compute_fold [OF l] words_crc_def d then_do_simps c by simp
qed

lemma all_words_at:
  assumes "job_ok b op cs" and "k < length (the_words b op cs)"
  shows "all_words b op cs (word_at (job_addr b op) k) = the_words b op cs ! k"
  unfolding all_words_def job_mem_def
  using put_words_at [OF job_fits(1) [OF assms(1)] assms(2)] assms(2)
  by (simp add: req_done_def length_the_words length_data_words)

lemma crc_ok_written:
  assumes "job_ok b op cs" and "cfg_fds_crc b \<longrightarrow> crc16 (h_ic (w_header op)) = words_crc (the_words b op cs)"
  shows "crc_ok b op cs"
  unfolding crc_ok_def
proof (intro impI allI)
  fix s :: "'a fds_st" assume c: "cfg_fds_crc b" and m: "fds_mem s = all_words b op cs"
  have "length (the_words b op cs) = 3 + unat (tl_length_words (h_tl (w_header op)))"
    using assms(1) by (simp add: job_ok_def length_the_words)
  then show "crc_verify_success (crc16 (h_ic (w_header op))) (tl_length_words (h_tl (w_header op))) (job_addr b op) s = Inr True"
    using crc_verify_words [of "the_words b op cs" s "job_addr b op"] all_words_at [OF assms(1)] assms(2) c m by simp
qed

lemma words_crc_header:
  "words_crc (record_words (h\<lparr>h_ic := (h_ic h)\<lparr>crc16 := c\<rparr>\<rparr>) ds) = words_crc (record_words h ds)"
proof -
  let ?h = "h\<lparr>h_ic := (h_ic h)\<lparr>crc16 := c\<rparr>\<rparr>"
  have 8: "drop 8 (word_list_bytes (record_words g ds)) = word_bytes (record_id g) @ word_list_bytes ds"
    "take 6 (word_list_bytes (record_words g ds)) = take 6 (word_list_bytes (header_words g))" for g
    by (simp_all add: word_list_bytes_def record_words_def header_words_def word_bytes_def)
  show ?thesis using six_bytes [of h 0] six_bytes [of ?h 0] by (simp add: words_crc_def 8)
qed

end
