(* ===== verification/FdsRecord.thy ===== *)
theory FdsRecord
  imports FdsWritten
begin

text \<open>
  \<open>fds_record_write\<close> on an idle module, to its event: the call, the requests, and what a search sees before and after the last of them.
\<close>

unbundle bit_operations_syntax

section \<open>The idle module\<close>

definition pages_apart :: "'m fds_st \<Rightarrow> bool" where
  "pages_apart s \<longleftrightarrow> (\<forall>i < length (m_pages s). \<forall>j < length (m_pages s). i \<noteq> j \<longrightarrow>
     page_type (m_pages s ! i) = FDS_PAGE_DATA \<longrightarrow> page_type (m_pages s ! j) = FDS_PAGE_DATA \<longrightarrow>
       unat (p_addr (m_pages s ! i)) + 4 * FDS_PAGE_SIZE s \<le> unat (p_addr (m_pages s ! j)) \<or>
       unat (p_addr (m_pages s ! j)) + 4 * FDS_PAGE_SIZE s \<le> unat (p_addr (m_pages s ! i)))"

definition fds_ready :: "'m fds_st \<Rightarrow> bool" where
  "fds_ready s \<longleftrightarrow> flag_is_set FDS_FLAG_INITIALIZED s \<and> \<not> flag_is_set FDS_FLAG_PROCESSING s \<and> linked s \<and> fs_quiet s \<and> headers_apart s \<and>
     op_ring (m_op_queue s) \<and> oq_count (m_op_queue s) = 0 \<and> chunk_ring (m_chunk_queue s) \<and> cq_count (m_chunk_queue s) = 0 \<and>
     length (m_pages s) < 2 ^ 16 \<and> (\<forall>pg \<in> set (m_pages s). page_type pg = FDS_PAGE_DATA \<longrightarrow> page_ok s pg) \<and> pages_apart s"

definition the_chunks :: "fds_record_t \<Rightarrow> fds_record_chunk_t list" where
  "the_chunks r = take (unat (rec_num_chunks r)) (rec_p_chunks r)"

definition record_ok :: "'m fds_st \<Rightarrow> fds_record_t \<Rightarrow> bool" where
  "record_ok s r \<longleftrightarrow> rec_file_id r \<noteq> FDS_FILE_ID_INVALID \<and> rec_key r \<noteq> FDS_RECORD_KEY_DIRTY \<and>
     unat (rec_num_chunks r) \<le> length (rec_p_chunks r) \<and> unat (rec_num_chunks r) \<le> length (cq_chunk (m_chunk_queue s)) \<and>
     unat (rec_num_chunks r) < 2 ^ 8 \<and> (\<forall>c \<in> set (the_chunks r). chunk_ok s c)"

definition record_len :: "fds_record_t \<Rightarrow> nat" where "record_len r = chunk_off (the_chunks r) (length (the_chunks r))"

text \<open>Page \<open>i\<close> has room for the record.\<close>

definition page_room :: "'m fds_st \<Rightarrow> nat \<Rightarrow> nat \<Rightarrow> bool" where
  "page_room s n i \<longleftrightarrow> i < length (m_pages s) \<and> page_type (m_pages s ! i) = FDS_PAGE_DATA \<and>
     n + 3 + unat (write_offset (m_pages s ! i)) + unat (words_reserved (m_pages s ! i)) < FDS_PAGE_SIZE s"

lemma chunks_aligned:
  assumes "i + n \<le> length p" and "\<forall>c \<in> set (take n (drop i p)). is_word_aligned (ch_p_data c)"
  shows "chunk_is_aligned p i n = Inr True"
  using assms
proof (induction n arbitrary: i)
  case (Suc n)
  have "take (Suc n) (drop i p) = p ! i # take n (drop (Suc i) p)" using Suc.prems by (simp add: Cons_nth_drop_Suc [symmetric])
  then show ?case using Suc by (simp add: load_at_def)
qed simp

lemma chunks_length_sum:
  assumes "i + n \<le> length p"
  shows "chunks_length p i n acc = Inr (acc + of_nat (\<Sum>c \<leftarrow> take n (drop i p). unat (ch_length_words c)))"
  using assms
proof (induction n arbitrary: i acc)
  case (Suc n)
  have "take (Suc n) (drop i p) = p ! i # take n (drop (Suc i) p)" using Suc.prems by (simp add: Cons_nth_drop_Suc [symmetric])
  then show ?case using Suc by (simp add: load_at_def add.assoc)
qed simp

lemma reserve_ok:
  assumes "fds_ready s" and "page_room s n j" and "n + 3 < FDS_PAGE_SIZE s - 2"
  obtains i where "page_room s n i" and "write_space_reserve (of_nat n) s = (FDS_SUCCESS, Some (of_nat i),
    s\<lparr>m_pages := (m_pages s)[i := (m_pages s ! i)\<lparr>words_reserved := words_reserved (m_pages s ! i) + of_nat (n + 3)\<rparr>]\<rparr>)"
proof -
  have j: "j < length (m_pages s)" "page_type (m_pages s ! j) = FDS_PAGE_DATA" using assms(2) by (simp_all add: page_room_def)
  then have "page_ok s (m_pages s ! j)" using assms(1) by (simp add: fds_ready_def)
  then have P: "2 * FDS_PAGE_SIZE s < 2 ^ 16" by (simp add: page_ok_def)
  let ?n = "of_nat n + 3 :: u16"
  have N: "unat ?n = n + 3" "?n = of_nat (n + 3)"
    using assms(3) P unat_u16_nat [of "n + 3"] by (simp_all add: add.commute)
  have space: "page_has_space (m_pages s ! i) ?n s \<longleftrightarrow>
      n + 3 + unat (write_offset (m_pages s ! i)) + unat (words_reserved (m_pages s ! i)) < FDS_PAGE_SIZE s"
    if "i < length (m_pages s)" "page_type (m_pages s ! i) = FDS_PAGE_DATA" for i
  proof -
    have l: "unat (write_offset (m_pages s ! i)) + unat (words_reserved (m_pages s ! i)) \<le> FDS_PAGE_SIZE s"
      using assms(1) that by (simp add: fds_ready_def page_ok_def)
    have "unat (?n + write_offset (m_pages s ! i)) = n + 3 + unat (write_offset (m_pages s ! i))"
      using l assms(3) P N(1) by (subst unat_add_lem [THEN iffD1]) simp_all
    then have "unat (?n + write_offset (m_pages s ! i) + words_reserved (m_pages s ! i)) =
        n + 3 + unat (write_offset (m_pages s ! i)) + unat (words_reserved (m_pages s ! i))"
      using l assms(3) P by (subst unat_add_lem [THEN iffD1]) simp_all
    then show ?thesis by (simp add: page_has_space_def)
  qed
  let ?good = "\<lambda>i. page_type (m_pages s ! i) = FDS_PAGE_DATA \<and> page_has_space (m_pages s ! i) ?n s"
  have "?good j" using space j assms(2) by (simp add: page_room_def)
  then obtain i where i: "find ?good [0..<length (m_pages s)] = Some i"
    using j(1) by (cases "find ?good [0..<length (m_pages s)]") (auto simp: find_None_iff)
  then have g: "i < length (m_pages s)" "?good i" using find_index_lt [of ?good] by blast+
  have "page_room s n i" using g space [of i] by (simp add: page_room_def)
  moreover have "\<not> int (unat ?n) \<ge> int (FDS_PAGE_SIZE s) - int FDS_PAGE_TAG_SIZE"
    unfolding N(1) FDS_PAGE_TAG_SIZE_def using assms(3) by linarith
  ultimately show ?thesis
    using that [of i] i by (simp add: write_space_reserve_def Let_def FDS_HEADER_SIZE_def FDS_MAX_PAGES_def)
qed

section \<open>The call\<close>

definition new_header :: "'m fds_st \<Rightarrow> fds_record_t \<Rightarrow> fds_header_t" where
  "new_header s r =
     (let h = \<lparr>h_tl = \<lparr>record_key = rec_key r, tl_length_words = of_nat (record_len r)\<rparr>, h_ic = \<lparr>file_id = rec_file_id r, crc16 = 0\<rparr>,
               record_id = m_latest_rec_id s + 1\<rparr>
      in h\<lparr>h_ic := (h_ic h)\<lparr>crc16 := (if cfg_fds_crc s then words_crc (record_words h (data_words (fds_mem s) (the_chunks r))) else 0)\<rparr>\<rparr>)"

definition new_op :: "'m fds_st \<Rightarrow> fds_record_t \<Rightarrow> nat \<Rightarrow> fds_op_t" where
  "new_op s r i = (uninit_op s)\<lparr>op_code := FDS_OP_WRITE, w_step := FDS_OP_WRITE_HEADER_BEGIN, w_page := of_nat i,
     w_chunk_count := ucast (rec_num_chunks r), w_chunk_offset := 3, w_header := new_header s r\<rparr>"

definition reserved :: "'m fds_st \<Rightarrow> nat \<Rightarrow> nat \<Rightarrow> fds_page_t list" where
  "reserved s n i = (m_pages s)[i := (m_pages s ! i)\<lparr>words_reserved := words_reserved (m_pages s ! i) + of_nat (n + 3)\<rparr>]"

text \<open>The state in which the first step is made.\<close>

definition started :: "'m fds_st \<Rightarrow> fds_record_t \<Rightarrow> nat \<Rightarrow> 'm fds_st" where
  "started s r i = flag_set FDS_FLAG_PROCESSING (s\<lparr>m_pages := reserved s (record_len r) i, m_latest_rec_id := m_latest_rec_id s + 1,
     m_op_queue := op_put (new_op s r i) (m_op_queue s), m_chunk_queue := fold chunk_put (the_chunks r) (m_chunk_queue s)\<rparr>)"

lemma length_the_chunks: "unat (rec_num_chunks r) \<le> length (rec_p_chunks r) \<Longrightarrow> length (the_chunks r) = unat (rec_num_chunks r)"
  by (simp add: the_chunks_def)

lemma new_header_fields [simp]:
  "h_tl (new_header s r) = \<lparr>record_key = rec_key r, tl_length_words = of_nat (record_len r)\<rparr>"
  "file_id (h_ic (new_header s r)) = rec_file_id r" "record_id (new_header s r) = m_latest_rec_id s + 1"
  by (simp_all add: new_header_def Let_def)

lemma new_header_crc: "cfg_fds_crc s \<Longrightarrow> crc16 (h_ic (new_header s r)) = words_crc (record_words (new_header s r) (data_words (fds_mem s) (the_chunks r)))"
  unfolding new_header_def Let_def words_crc_header by simp

lemma write_call:
  assumes "fds_ready s" and "record_ok s r" and "page_room s (record_len r) j" and "record_len r + 3 < FDS_PAGE_SIZE s - 2"
  obtains i where "page_room s (record_len r) i"
    and "fds_record_write E d (Some r) s = then_do (fds_queue_process E FS_SUCCESS (started s r i)) (\<lambda>t. Inr (FDS_SUCCESS,
      map_option (\<lambda>d. d\<lparr>d_p_record := 0, d_record_id := m_latest_rec_id s + 1, d_record_is_open := False, d_gc_run_count := gc_run_count (m_gc s)\<rparr>) d, t))"
proof -
  obtain i where i: "page_room s (record_len r) i" "write_space_reserve (of_nat (record_len r)) s =
      (FDS_SUCCESS, Some (of_nat i), s\<lparr>m_pages := reserved s (record_len r) i\<rparr>)"
    using reserve_ok [OF assms(1,3,4)] unfolding reserved_def by blast
  note r = assms(2) [unfolded record_ok_def]
  have l: "unat (rec_num_chunks r) \<le> length (rec_p_chunks r)" "length (the_chunks r) = unat (rec_num_chunks r)"
    using r length_the_chunks by blast+
  have a: "chunk_is_aligned (rec_p_chunks r) 0 (unat (rec_num_chunks r)) = Inr True"
    by (rule chunks_aligned) (use r in \<open>auto simp: the_chunks_def chunk_ok_def\<close>)
  have n: "chunks_length (rec_p_chunks r) 0 (unat (rec_num_chunks r)) 0 = Inr (of_nat (record_len r))"
    using chunks_length_sum [of 0 "unat (rec_num_chunks r)" "rec_p_chunks r" 0] l
    by (simp add: record_len_def chunk_off_def the_chunks_def)
  let ?s1 = "s\<lparr>m_pages := reserved s (record_len r) i\<rparr>" and ?s2 = "s\<lparr>m_pages := reserved s (record_len r) i, m_latest_rec_id := m_latest_rec_id s + 1\<rparr>"
  have sp: "write_space r None s = Inr (FDS_SUCCESS, (of_nat i, of_nat (record_len r)), ?s1)"
    by (simp add: write_space_def n i(2))
  have rid: "record_id_new ?s1 = (m_latest_rec_id s + 1, ?s2)" by (simp add: record_id_new_def)
  let ?h = "\<lparr>h_tl = \<lparr>record_key = rec_key r, tl_length_words = of_nat (record_len r)\<rparr>,
      h_ic = \<lparr>file_id = rec_file_id r, crc16 = crc16 (h_ic (w_header (uninit_op s)))\<rparr>, record_id = m_latest_rec_id s + 1\<rparr>"
  let ?op = "(uninit_op s)\<lparr>op_code := FDS_OP_WRITE, w_step := FDS_OP_WRITE_HEADER_BEGIN, w_page := of_nat i,
     w_chunk_count := ucast (rec_num_chunks r), w_chunk_offset := 3, w_header := ?h\<rparr>"
  have op: "write_op FDS_OP_WRITE d r (of_nat i) (of_nat (record_len r)) (m_latest_rec_id s + 1) ?s2 = Inr ?op"
    by (simp add: write_op_def Let_def FDS_OFFSET_DATA_def)
  obtain c where c: "record_crc (w_header ?op) r ?s2 = Inr c" "?op\<lparr>w_header := (w_header ?op)\<lparr>h_ic := (h_ic (w_header ?op))\<lparr>crc16 := c\<rparr>\<rparr>\<rparr> = new_op s r i"
    using words_crc_header [of 0 ?h "data_words (fds_mem s) (the_chunks r)"]
    by (simp add: record_crc_fold [OF l(1)] new_op_def new_header_def Let_def the_chunks_def)
  have e: "op_enqueue (new_op s r i) (ucast (rec_num_chunks r)) (rec_p_chunks r) ?s2 =
      Inr (True, ?s2\<lparr>m_op_queue := op_put (new_op s r i) (m_op_queue s), m_chunk_queue := fold chunk_put (the_chunks r) (m_chunk_queue s)\<rparr>)"
  proof -
    have q: "op_ring (m_op_queue ?s2)" "chunk_ring (m_chunk_queue ?s2)" "unat (oq_count (m_op_queue ?s2)) < length (oq_op (m_op_queue ?s2))"
      using assms(1) by (auto simp: fds_ready_def op_ring_def)
    have c: "unat (cq_count (m_chunk_queue ?s2)) + unat (rec_num_chunks r) \<le> length (cq_chunk (m_chunk_queue ?s2))"
      using assms(1) r by (simp add: fds_ready_def)
    show ?thesis using op_enqueue_ok [OF q, of "ucast (rec_num_chunks r)" "rec_p_chunks r" "new_op s r i"] c l(1)
      by (simp add: the_chunks_def unat_ucast_u16)
  qed
  show ?thesis
    by (rule that [OF i(1)]) (use assms(1) r a sp rid op c e in
      \<open>simp add: fds_record_write_def write_enqueue_def fds_ready_def fds_queue_start_def flag_is_set_def started_def new_op_def\<close>)
qed

section \<open>The operation in the queue\<close>

lemma started_fields [simp]:
  "fds_mem (started s r i) = fds_mem s" "m_pages (started s r i) = reserved s (record_len r) i" "FDS_PAGE_SIZE (started s r i) = FDS_PAGE_SIZE s"
  "op_header_addr (started s r i) = op_header_addr s" "page_tag_swap_addr (started s r i) = page_tag_swap_addr s"
  "page_tag_data_addr (started s r i) = page_tag_data_addr s" "tl_dirty_addr (started s r i) = tl_dirty_addr s"
  "m_op_queue (started s r i) = op_put (new_op s r i) (m_op_queue s)" "cfg_fds_crc (started s r i) = cfg_fds_crc s"
  "m_chunk_queue (started s r i) = fold chunk_put (the_chunks r) (m_chunk_queue s)" "fds_cfg (started s r i) = fds_cfg s"
  "m_flags (started s r i) = m_flags s OR FDS_FLAG_PROCESSING" "fds_evts (started s r i) = fds_evts s" "uninit_evt (started s r i) = uninit_evt s"
  "m_latest_rec_id (started s r i) = m_latest_rec_id s + 1"
  by (simp_all add: started_def flag_set_def FDS_PAGE_SIZE_def)

lemma started_same [simp]: "fs_same s (started s r i)"
  by (simp add: started_def flag_set_def)

lemma started_area [simp]: "fds_area (started s r i) = fds_area s"
  by (simp add: fds_area_def fs_same_fields(5) [OF started_same])

lemma new_op_fields [simp]:
  "op_code (new_op s r i) = FDS_OP_WRITE" "w_step (new_op s r i) = FDS_OP_WRITE_HEADER_BEGIN" "w_page (new_op s r i) = of_nat i"
  "w_chunk_count (new_op s r i) = ucast (rec_num_chunks r)" "w_chunk_offset (new_op s r i) = 3" "w_header (new_op s r i) = new_header s r"
  by (simp_all add: new_op_def)

lemma page_ok_cong:
  assumes "fds_mem t = fds_mem s" and "fds_area t = fds_area s" and "FDS_PAGE_SIZE t = FDS_PAGE_SIZE s" and "p_addr pg' = p_addr pg" and
    "write_offset pg' = write_offset pg" and "unat (write_offset pg) + unat (words_reserved pg') \<le> FDS_PAGE_SIZE s" and "page_ok s pg"
  shows "page_ok t pg'"
  using assms by (simp add: page_ok_def page_low_def recs_of_def page_end_def)

lemma chunk_ok_cong:
  assumes "fds_area t = fds_area s" and "\<And>a. app_data t a = app_data s a"
  shows "chunk_ok t c = chunk_ok s c"
  using assms by (simp add: chunk_ok_def)

lemma fold_chunk_put:
  assumes "chunk_ring q" and "unat (cq_count q) + length cs \<le> length (cq_chunk q)"
  shows "chunk_ring (fold chunk_put cs q) \<and> chunk_list (fold chunk_put cs q) = chunk_list q @ cs \<and>
    length (cq_chunk (fold chunk_put cs q)) = length (cq_chunk q)"
  using assms
proof (induction cs arbitrary: q)
  case (Cons c cs)
  have l: "unat (cq_count q) < length (cq_chunk q)" using Cons.prems(2) by simp
  note p = chunk_put_ok [OF Cons.prems(1) l, of c]
  have "unat (cq_count (chunk_put c q)) = Suc (unat (cq_count q))" using arg_cong [OF p(2), of length] by simp
  then show ?case using Cons.IH [OF p(1)] Cons.prems(2) p by simp
qed simp

lemma reserved_page:
  assumes "fds_ready s" and "page_room s n i" and "n + 3 < FDS_PAGE_SIZE s - 2"
  shows "unat (words_reserved (reserved s n i ! i)) = unat (words_reserved (m_pages s ! i)) + n + 3"
    "page_ok s (m_pages s ! i)" "i < 2 ^ 16"
proof -
  have i: "i < length (m_pages s)" "page_type (m_pages s ! i) = FDS_PAGE_DATA" using assms(2) by (simp_all add: page_room_def)
  then show ok: "page_ok s (m_pages s ! i)" using assms(1) by (simp add: fds_ready_def)
  show "i < 2 ^ 16" using assms(1) i(1) by (simp add: fds_ready_def)
  have "2 * FDS_PAGE_SIZE s < 2 ^ 16" using ok by (simp add: page_ok_def)
  then have "n + 3 < 2 ^ 16" using assms(3) by linarith
  then have "unat (of_nat (n + 3) :: u16) = n + 3" by (rule unat_u16_nat)
  then have "unat (words_reserved (m_pages s ! i) + of_nat (n + 3)) = unat (words_reserved (m_pages s ! i)) + (n + 3)"
    using ok assms(2) by (subst unat_add_lem [THEN iffD1]) (simp_all add: page_ok_def page_room_def)
  then show "unat (words_reserved (reserved s n i ! i)) = unat (words_reserved (m_pages s ! i)) + n + 3"
    using i(1) by (simp add: reserved_def)
qed

lemma started_op:
  assumes "fds_ready s"
  shows "op_ring (m_op_queue (started s r i))" "op_list (m_op_queue (started s r i)) = [new_op s r i]" "oq_count (m_op_queue (started s r i)) = 1"
    "cur_op (started s r i) < length (oq_op (m_op_queue (started s r i)))" "oq_op (m_op_queue (started s r i)) ! cur_op (started s r i) = new_op s r i"
proof -
  have q: "op_ring (m_op_queue s)" "oq_count (m_op_queue s) = 0" using assms by (simp_all add: fds_ready_def)
  then have "unat (oq_count (m_op_queue s)) < length (oq_op (m_op_queue s))" by (auto simp: op_ring_def)
  note p = op_put_ok [OF q(1) this, of "new_op s r i"]
  show r: "op_ring (m_op_queue (started s r i))" "op_list (m_op_queue (started s r i)) = [new_op s r i]" using p q(2) by simp_all
  show c: "oq_count (m_op_queue (started s r i)) = 1" using q(2) by (simp add: op_put_def)
  then show "cur_op (started s r i) < length (oq_op (m_op_queue (started s r i)))" using r(1) by (simp add: cur_op_def op_ring_def)
  show "oq_op (m_op_queue (started s r i)) ! cur_op (started s r i) = new_op s r i"
    using op_hd [OF r(1)] c r(2) by (simp add: cur_op_def)
qed

lemma started_job:
  assumes "fds_ready s" and "record_ok s r" and "page_room s (record_len r) i" and "record_len r + 3 < FDS_PAGE_SIZE s - 2"
  shows "job_ok (started s r i) (new_op s r i) (the_chunks r)"
proof -
  let ?b = "started s r i" and ?n = "record_len r"
  note o = started_op [OF assms(1), of r i] and p = reserved_page [OF assms(1,3,4)]
  have i: "i < length (m_pages s)" "unat (of_nat i :: u16) = i" using assms(3) p(3) unat_u16_nat by (simp_all add: page_room_def)
  have l: "length (the_chunks r) = unat (rec_num_chunks r)" "length (the_chunks r) < 2 ^ 8"
    using assms(2) length_the_chunks [of r] by (simp_all add: record_ok_def)
  have "chunk_ring (m_chunk_queue ?b) \<and> chunk_list (m_chunk_queue ?b) = chunk_list (m_chunk_queue s) @ the_chunks r"
    using fold_chunk_put [of "m_chunk_queue s" "the_chunks r"] assms(1,2) l(1) by (simp add: fds_ready_def record_ok_def)
  then have c: "chunk_ring (m_chunk_queue ?b)" "chunk_list (m_chunk_queue ?b) = the_chunks r"
    using assms(1) chunk_list_Nil [of "m_chunk_queue s"] by (simp_all add: fds_ready_def)
  have j: "job_page ?b (new_op s r i) = reserved s ?n i ! i" by (simp add: job_page_def i(2))
  have same: "p_addr (reserved s ?n i ! i) = p_addr (m_pages s ! i)" "write_offset (reserved s ?n i ! i) = write_offset (m_pages s ! i)"
    using i(1) by (simp_all add: reserved_def)
  have pg: "page_ok ?b (job_page ?b (new_op s r i))"
    unfolding j by (rule page_ok_cong [OF _ _ _ same _ p(2)]) (use p(1) assms(3) in \<open>simp_all add: page_room_def\<close>)
  have ch: "chunk_ok ?b c = chunk_ok s c" for c
    by (rule chunk_ok_cong) (simp, rule app_data_cong, simp_all add: op_put_def)
  have n: "length (data_words (fds_mem s) (the_chunks r)) = ?n" by (simp add: length_data_words record_len_def)
  have "2 * FDS_PAGE_SIZE s < 2 ^ 16" using p(2) by (simp add: page_ok_def)
  then have "?n < 2 ^ 16" using assms(4) by linarith
  then have "unat (of_nat ?n :: u16) = ?n" by (rule unat_u16_nat)
  moreover have "(ucast (rec_num_chunks r) :: u8) = of_nat (length (the_chunks r))"
    by (simp add: l(1) unsigned_ucast_eq word_unat_eq_iff unsigned_of_nat)
  moreover have "headers_apart ?b" using assms(1) by (simp add: fds_ready_def headers_apart_def op_put_def)
  moreover have "linked ?b" using assms(1) linked_same [OF started_same, of s r i] by (simp add: fds_ready_def)
  moreover have "writes ?b (new_op s r i)" using o(4) i by (simp add: writes_def reserved_def)
  ultimately show ?thesis
    unfolding job_ok_def
    using pg j same c o l(2) ch n assms(2,3) by (simp add: record_ok_def page_room_def)
qed

end
