(* ===== verification/FdsProps.thy ===== *)
theory FdsProps
  imports FdsRecord
begin

text \<open>
  The properties of writing a record: when its last word is in the flash searches find it, behind the records of its page, and until then they find
  what they found before the call.
\<close>

unbundle bit_operations_syntax

section \<open>All requests\<close>

lemma carry_outs_add: "carry_outs E (m + n) s = then_do (carry_outs E m s) (carry_outs E n)"
proof (induction m arbitrary: s)
  case (Suc m)
  then show ?case by (cases "carry_out E s") simp_all
qed simp

lemma started_runs:
  assumes "job_ok b op cs" and "env_quiet E" and "fs_quiet b" and "w_step op = FDS_OP_WRITE_HEADER_BEGIN"
  shows "ok (fds_queue_process E FS_SUCCESS b) (at_stage b op cs 0)"
proof -
  have o: "oq_op (m_op_queue b) ! cur_op b = op" "linked b" "writes b op" using assms(1) by (simp_all add: job_ok_def)
  have "at_job b op (m_chunk_queue b) (fds_mem b) = b" unfolding at_job_def o(1) [symmetric] by simp
  then have j: "in_job b op (m_chunk_queue b) (fds_mem b) b" by (simp add: in_job_def)
  have r: "req_op b op cs 0 = fds_store_op b (job_addr b op) (op_header_addr b (cur_op b)) 1"
    and a: "store_args b (job_addr b op) (op_header_addr b (cur_op b)) 1"
    using req_store_args [OF assms(1), of 0] by (simp_all add: req_op_def req_at_def req_src_def req_len_def)
  have m: "job_mem b op cs (req_done cs 0) = fds_mem b" by (simp add: job_mem_def req_done_def put_words_none)
  show ?thesis
  proof (rule write_step_continues [OF assms(2) o(3) j])
    fix cb
    have "ok (store_words cb (job_addr b op) (op_header_addr b (cur_op b)) 1 b) (\<lambda>(r, t). r = 0 \<and> at_work (req_op b op cs 0) 0 t \<and> fs_inner b t)"
      unfolding r by (rule store_quiet [OF assms(3) o(2) a])
    from stage_begin [OF assms(1,4) j _ this]
    show "ok (write_step cb (w_step op) (cur_op b) (job_addr b op) b) (\<lambda>(r, ret, t). \<not> r \<and> ret = 0 \<and> at_stage b op cs 0 t)"
      by (simp add: at_stage_def m)
  qed
qed

lemma write_runs:
  assumes "job_ok b op cs" and "env_quiet E" and "at_stage b op cs 0 s" and "\<not> req_pending b" and "crc_ok b op cs"
  shows "n < length cs + 3 \<Longrightarrow> ok (carry_outs E n s) (at_stage b op cs n)"
    "ok (carry_outs E (length cs + 3) s) (\<lambda>t. fs_quiet t \<and> fs_inner (write_end b op cs) t)"
proof -
  show "n < length cs + 3 \<Longrightarrow> ok (carry_outs E n s) (at_stage b op cs n)"
    using stages [OF assms(1,2,3), of n] by simp
  have n: "length cs + 3 = (length cs + 2) + 1" by simp
  show "ok (carry_outs E (length cs + 3) s) (\<lambda>t. fs_quiet t \<and> fs_inner (write_end b op cs) t)"
    unfolding n carry_outs_add [of E "length cs + 2" 1]
  proof (rule ok_then_doI)
    show "ok (carry_outs E (length cs + 2) s) (at_stage b op cs (length cs + 2))"
      using stages [OF assms(1,2,3), of "length cs + 2"] by simp
    fix t assume "at_stage b op cs (length cs + 2) t"
    from stage_last [OF assms(1,5,2) this assms(4)]
    have "ok (carry_out E t) (\<lambda>t. fs_quiet t \<and> fs_inner (write_end b op cs) t)" .
    then show "ok (carry_outs E 1 t) (\<lambda>t. fs_quiet t \<and> fs_inner (write_end b op cs) t)" by (auto simp: ok_iff)
  qed
qed

section \<open>What a search sees\<close>

text \<open>The records of a page that the words do not reach.\<close>

lemma other_page:
  fixes W :: "nat set"
  assumes "page_ok s pg" and "p AND 3 = 0" and "fits p (length ws)"
    and "\<forall>k < length ws. unat (word_at p k) < unat (p_addr pg) \<or> unat (p_addr pg) + 4 * FDS_PAGE_SIZE s \<le> unat (word_at p k)"
  defines "m' \<equiv> put_words p ws W (fds_mem s)"
  shows "page_recs m' (page_end s pg) (p_addr pg + 8) = recs_of s pg" "\<forall>q \<in> set (recs_of s pg). header_at m' q = header_at (fds_mem s) q"
    "\<forall>k < FDS_PAGE_SIZE s. m' (word_at (p_addr pg) k) = fds_mem s (word_at (p_addr pg) k)"
proof -
  show w: "\<forall>k < FDS_PAGE_SIZE s. m' (word_at (p_addr pg) k) = fds_mem s (word_at (p_addr pg) k)"
  proof (intro allI impI)
    fix k assume k: "k < FDS_PAGE_SIZE s"
    have u: "unat (word_at (p_addr pg) k) = unat (p_addr pg) + 4 * k"
      using unat_word_at [OF page_ok_fits [OF assms(1)], of k] k by simp
    have "word_at (p_addr pg) k \<noteq> word_at p j" if "j < length ws" for j
      using assms(4) [rule_format, OF that] u k by auto
    then show "m' (word_at (p_addr pg) k) = fds_mem s (word_at (p_addr pg) k)" unfolding m'_def by (intro put_words_outside) blast
  qed
  have odd: "\<forall>x. x AND 3 \<noteq> 0 \<longrightarrow> m' x = fds_mem s x" unfolding m'_def using put_words_aligned [OF assms(2,3)] by simp
  show "page_recs m' (page_end s pg) (p_addr pg + 8) = recs_of s pg" by (rule recs_same [OF assms(1) w odd])
  have "unat (write_offset pg) \<le> FDS_PAGE_SIZE s" using assms(1) by (simp add: page_ok_def)
  then have "\<forall>k < unat (write_offset pg). m' (word_at (p_addr pg) k) = fds_mem s (word_at (p_addr pg) k)" using w by simp
  then show "\<forall>q \<in> set (recs_of s pg). header_at m' q = header_at (fds_mem s) q" using recs_under [OF assms(1) _ odd] by blast
qed

lemma hits_page:
  assumes "page_type (m_pages t ! k) = FDS_PAGE_DATA" and "recs_of t (m_pages t ! k) = xs" and "\<forall>q \<in> set xs. header_at (fds_mem t) q = header_at m q"
  shows "hits good t k = filter (\<lambda>q. valid_rec m q \<and> good (header_at m q)) xs"
  using assms by (auto simp: hits_def hit_def valid_rec_header intro!: filter_cong)

text \<open>Another memory and other counters, but the same pages.\<close>

definition same_pages :: "'m fds_st \<Rightarrow> 'm fds_st \<Rightarrow> bool" where
  "same_pages s t \<longleftrightarrow> FDS_PAGE_SIZE t = FDS_PAGE_SIZE s \<and> length (m_pages t) = length (m_pages s) \<and>
     (\<forall>k < length (m_pages s). page_type (m_pages t ! k) = page_type (m_pages s ! k) \<and> p_addr (m_pages t ! k) = p_addr (m_pages s ! k))"

lemma reserved_same: "same_pages s (started s r i)"
  by (cases "i < length (m_pages s)") (auto simp: same_pages_def reserved_def nth_list_update)

lemma recs_of_same: "FDS_PAGE_SIZE t = FDS_PAGE_SIZE s \<Longrightarrow> p_addr pg' = p_addr pg \<Longrightarrow>
    recs_of t pg' = page_recs (fds_mem t) (page_end s pg) (p_addr pg + 8)"
  by (simp add: recs_of_def page_end_def)

lemma job_apart:
  assumes "fds_ready s" and "record_ok s r" and "page_room s (record_len r) i" and "record_len r + 3 < FDS_PAGE_SIZE s - 2"
    and "k < length (m_pages s)" and "k \<noteq> i" and "page_type (m_pages s ! k) = FDS_PAGE_DATA"
    and "fds_mem t = job_mem (started s r i) (new_op s r i) (the_chunks r) W" and "same_pages s t"
  shows "recs_of t (m_pages t ! k) = recs_of s (m_pages s ! k)" "\<forall>q \<in> set (recs_of s (m_pages s ! k)). header_at (fds_mem t) q = header_at (fds_mem s) q"
    "\<forall>j < FDS_PAGE_SIZE s. fds_mem t (word_at (p_addr (m_pages s ! k)) j) = fds_mem s (word_at (p_addr (m_pages s ! k)) j)"
proof -
  let ?b = "started s r i" and ?op = "new_op s r i" and ?cs = "the_chunks r" and ?pg = "m_pages s ! k"
  note job = started_job [OF assms(1-4)]
  have i: "i < length (m_pages s)" "page_type (m_pages s ! i) = FDS_PAGE_DATA" "unat (of_nat i :: u16) = i"
    using assms(3) reserved_page(3) [OF assms(1,3,4)] unat_u16_nat by (simp_all add: page_room_def)
  have ok: "page_ok s ?pg" using assms(1,5,7) by (simp add: fds_ready_def)
  have j: "p_addr (job_page ?b ?op) = p_addr (m_pages s ! i)" "write_offset (job_page ?b ?op) = write_offset (m_pages s ! i)"
    using i by (simp_all add: job_page_def reserved_def)
  have l: "unat (write_offset (m_pages s ! i)) + length (the_words ?b ?op ?cs) \<le> FDS_PAGE_SIZE s"
    using job j by (simp add: job_ok_def length_the_words)
  have 0: "0 < length (the_words ?b ?op ?cs)" by (simp add: length_the_words)
  have apart: "unat (p_addr (m_pages s ! i)) + 4 * FDS_PAGE_SIZE s \<le> unat (p_addr ?pg) \<or> unat (p_addr ?pg) + 4 * FDS_PAGE_SIZE s \<le> unat (p_addr (m_pages s ! i))"
    using assms(1,5,6,7) i unfolding fds_ready_def pages_apart_def by blast
  have out: "\<forall>j < length (the_words ?b ?op ?cs). unat (word_at (job_addr ?b ?op) j) < unat (p_addr ?pg) \<or>
      unat (p_addr ?pg) + 4 * FDS_PAGE_SIZE s \<le> unat (word_at (job_addr ?b ?op) j)"
  proof (intro allI impI)
    fix n assume n: "n < length (the_words ?b ?op ?cs)"
    then have "unat (word_at (job_addr ?b ?op) n) = unat (p_addr (m_pages s ! i)) + 4 * (unat (write_offset (m_pages s ! i)) + n)"
      using job_fits(2) [OF job, of n] j by simp
    then show "unat (word_at (job_addr ?b ?op) n) < unat (p_addr ?pg) \<or>
      unat (p_addr ?pg) + 4 * FDS_PAGE_SIZE s \<le> unat (word_at (job_addr ?b ?op) n)"
      using apart n l by (elim disjE) (simp, linarith?)+
  qed
  have al: "job_addr ?b ?op AND 3 = 0" using job_fits(5) [OF job 0] by simp
  have m: "fds_mem t = put_words (job_addr ?b ?op) (the_words ?b ?op ?cs) W (fds_mem s)" using assms(8) by (simp add: job_mem_def)
  have e: "recs_of t (m_pages t ! k) = page_recs (fds_mem t) (page_end s ?pg) (p_addr ?pg + 8)"
    by (rule recs_of_same) (use assms(5,9) in \<open>simp_all add: same_pages_def\<close>)
  note o = other_page [OF ok al job_fits(1) [OF job] out, of W, folded m]
  show "recs_of t (m_pages t ! k) = recs_of s ?pg" using o(1) e by simp
  show "\<forall>q \<in> set (recs_of s ?pg). header_at (fds_mem t) q = header_at (fds_mem s) q"
    "\<forall>j < FDS_PAGE_SIZE s. fds_mem t (word_at (p_addr ?pg) j) = fds_mem s (word_at (p_addr ?pg) j)" using o(2,3) by blast+
qed

lemma job_grows:
  assumes "fds_ready s" and "record_ok s r" and "page_room s (record_len r) i" and "record_len r + 3 < FDS_PAGE_SIZE s - 2"
    and "fds_mem t = job_mem (started s r i) (new_op s r i) (the_chunks r) W" and "same_pages s t" and "0 \<in> W"
  defines "p \<equiv> free_addr (m_pages s ! i)"
  shows "recs_of t (m_pages t ! i) = recs_of s (m_pages s ! i) @ [p]"
    "\<forall>q \<in> set (recs_of s (m_pages s ! i)). header_at (fds_mem t) q = header_at (fds_mem s) q"
    "header_at (fds_mem t) p = \<lparr>h_tl = h_tl (new_header s r), h_ic = (if 1 \<in> W then h_ic (new_header s r) else \<lparr>file_id = 0xFFFF, crc16 = 0xFFFF\<rparr>),
       record_id = (if 2 \<in> W then record_id (new_header s r) else FDS_ERASED_WORD)\<rparr>"
proof -
  let ?b = "started s r i" and ?op = "new_op s r i" and ?cs = "the_chunks r" and ?pg = "m_pages s ! i"
  note job = started_job [OF assms(1-4)]
  have i: "i < length (m_pages s)" "unat (of_nat i :: u16) = i"
    using assms(3) reserved_page(3) [OF assms(1,3,4)] unat_u16_nat by (simp_all add: page_room_def)
  have j: "job_page ?b ?op = reserved s (record_len r) i ! i" by (simp add: job_page_def i(2))
  have same: "p_addr (reserved s (record_len r) i ! i) = p_addr ?pg" "write_offset (reserved s (record_len r) i ! i) = write_offset ?pg"
    using i(1) by (simp_all add: reserved_def)
  let ?ds = "data_words (fds_mem s) ?cs"
  have a: "job_addr ?b ?op = p" "free_addr (job_page ?b ?op) = p" unfolding p_def j job_addr_def free_addr_def by (simp_all add: i(2) same)
  have ok: "page_ok ?b (job_page ?b ?op)" "unat (tl_length_words (h_tl (new_header s r))) = length ?ds"
    "unat (write_offset (job_page ?b ?op)) + 3 + length ?ds \<le> FDS_PAGE_SIZE ?b"
    using job by (simp_all add: job_ok_def)
  note g = recs_grow [OF ok assms(7)]
  have m: "fds_mem t = put_words p (record_words (new_header s r) ?ds) W (fds_mem ?b)"
    using assms(5) by (simp add: job_mem_def a the_words_def)
  have e: "page_recs (fds_mem t) (page_end ?b (job_page ?b ?op)) (p_addr (job_page ?b ?op) + 8) = recs_of t (m_pages t ! i)"
    "recs_of ?b (job_page ?b ?op) = recs_of s ?pg"
    using assms(6) i(1) unfolding j by (simp_all add: recs_of_def page_end_def same same_pages_def)
  show "recs_of t (m_pages t ! i) = recs_of s ?pg @ [p]" using g(1) unfolding a m [symmetric] e .
  show "\<forall>q \<in> set (recs_of s ?pg). header_at (fds_mem t) q = header_at (fds_mem s) q"
    using g(2) unfolding a m [symmetric] e by simp
  show "header_at (fds_mem t) p = \<lparr>h_tl = h_tl (new_header s r), h_ic = (if 1 \<in> W then h_ic (new_header s r) else \<lparr>file_id = 0xFFFF, crc16 = 0xFFFF\<rparr>),
       record_id = (if 2 \<in> W then record_id (new_header s r) else FDS_ERASED_WORD)\<rparr>"
    using g(3) unfolding a m [symmetric] .
qed

section \<open>The module afterwards\<close>

definition written_evt :: "'m fds_st \<Rightarrow> fds_record_t \<Rightarrow> fds_evt_t" where
  "written_evt s r = (uninit_evt s)\<lparr>ev_id := FDS_EVT_WRITE, ev_result := FDS_SUCCESS, ev_record_id := m_latest_rec_id s + 1,
     ev_file_id := rec_file_id r, ev_record_key := rec_key r\<rparr>"

lemma write_end_fields [simp]:
  "fds_mem (write_end b op cs) = all_words b op cs"
  "m_pages (write_end b op cs) = (m_pages b)[unat (w_page op) := written_page op (m_pages b ! unat (w_page op))]"
  "m_flags (write_end b op cs) = m_flags b AND NOT FDS_FLAG_PROCESSING" "m_chunk_queue (write_end b op cs) = stage_chunks b cs (length cs + 2)"
  "m_op_queue (write_end b op cs) = op_take ((m_op_queue b)\<lparr>oq_op := (oq_op (m_op_queue b))[cur_op b := stage_op op cs (length cs + 2)]\<rparr>)"
  "op_header_addr (write_end b op cs) = op_header_addr b" "fds_cfg (write_end b op cs) = fds_cfg b" "FDS_PAGE_SIZE (write_end b op cs) = FDS_PAGE_SIZE b"
  "fds_evts (write_end b op cs) = fds_evts b @ [event_prepare (stage_op op cs (length cs + 2)) ((uninit_evt b)\<lparr>ev_result := FDS_SUCCESS\<rparr>)]"
  "cfg_fds_crc (write_end b op cs) = cfg_fds_crc b"
  by (simp_all add: write_end_def op_done_def with_written_def flag_clear_def FDS_PAGE_SIZE_def at_job_def)

lemma write_end_same: "fs_same b (write_end b op cs)"
  by (simp add: write_end_def op_done_def with_written_def flag_clear_def at_job_same)

lemma inner_page_size: "fs_inner s (t :: 'm fds_st) \<Longrightarrow> FDS_PAGE_SIZE t = FDS_PAGE_SIZE s"
  by (simp add: FDS_PAGE_SIZE_def fs_inner_fields(11))

lemma inner_area: "fs_inner s (t :: 'm fds_st) \<Longrightarrow> fds_area t = fds_area s"
  using fs_inner_fields(14) [of s t] by (simp add: fds_area_def fs_inner_def same_config_def)

text \<open>The write is done; \<open>b\<close> is the state in which it was started.\<close>

definition write_over :: "'m fds_st \<Rightarrow> fds_record_t \<Rightarrow> nat \<Rightarrow> 'm fds_st \<Rightarrow> bool" where
  "write_over s r i t \<longleftrightarrow> fs_quiet t \<and> fs_inner (write_end (started s r i) (new_op s r i) (the_chunks r)) t"

lemma write_over_fields:
  assumes "write_over s r i t" and "i < 2 ^ 16"
  shows "fds_mem t = all_words (started s r i) (new_op s r i) (the_chunks r)" "same_pages s t" "fds_area t = fds_area s"
    "m_pages t = (reserved s (record_len r) i)[i := written_page (new_op s r i) (reserved s (record_len r) i ! i)]"
    "fds_evts t = fds_evts s @ [written_evt s r]" "m_flags t = (m_flags s OR FDS_FLAG_PROCESSING) AND NOT FDS_FLAG_PROCESSING"
    "cfg_fds_crc t = cfg_fds_crc s" "linked t = linked s"
proof -
  let ?e = "write_end (started s r i) (new_op s r i) (the_chunks r)"
  have e: "fs_inner ?e t" using assms(1) by (simp add: write_over_def)
  note f = fs_inner_fields [OF e]
  have u: "unat (of_nat i :: u16) = i" by (rule unat_u16_nat) (rule assms(2))
  show "fds_mem t = all_words (started s r i) (new_op s r i) (the_chunks r)" "cfg_fds_crc t = cfg_fds_crc s"
    "m_flags t = (m_flags s OR FDS_FLAG_PROCESSING) AND NOT FDS_FLAG_PROCESSING" by (simp_all add: f)
  show m: "m_pages t = (reserved s (record_len r) i)[i := written_page (new_op s r i) (reserved s (record_len r) i ! i)]" by (simp add: f u)
  have "page_type (reserved s (record_len r) i ! k) = page_type (m_pages s ! k) \<and> p_addr (reserved s (record_len r) i ! k) = p_addr (m_pages s ! k)"
    if "k < length (m_pages s)" for k
    using reserved_same [of s r i] that by (simp add: same_pages_def)
  moreover have "length (reserved s (record_len r) i) = length (m_pages s)" by (simp add: reserved_def)
  ultimately show "same_pages s t"
    unfolding same_pages_def m
    by (cases "i < length (m_pages s)") (auto simp: inner_page_size [OF e] nth_list_update written_page_def)
  have "fds_area ?e = fds_area (started s r i)" by (simp add: fds_area_def fs_same_fields(5) [OF write_end_same])
  then show "fds_area t = fds_area s" using inner_area [OF e] by simp
  show "fds_evts t = fds_evts s @ [written_evt s r]" by (simp add: f event_prepare_def written_evt_def)
  have "linked ?e = linked (started s r i)" by (rule linked_same [OF write_end_same]) simp
  moreover have "linked (started s r i) = linked s" by (rule linked_same [OF started_same]) simp
  ultimately show "linked t = linked s" using linked_inner [OF e] by simp
qed

lemma write_over_queues:
  assumes "fds_ready s" and "job_ok (started s r i) (new_op s r i) (the_chunks r)" and "write_over s r i t"
  shows "op_ring (m_op_queue t)" "oq_count (m_op_queue t) = 0" "chunk_ring (m_chunk_queue t)" "cq_count (m_chunk_queue t) = 0" "headers_apart t"
proof -
  let ?b = "started s r i" and ?op = "new_op s r i" and ?cs = "the_chunks r"
  have e: "fs_inner (write_end ?b ?op ?cs) t" using assms(3) by (simp add: write_over_def)
  note f = fs_inner_fields [OF e]
  let ?q = "(m_op_queue ?b)\<lparr>oq_op := (oq_op (m_op_queue ?b))[cur_op ?b := stage_op ?op ?cs (length ?cs + 2)]\<rparr>"
  have q: "op_ring (m_op_queue ?b)" "oq_count (m_op_queue ?b) = 1" using assms(2) by (simp_all add: job_ok_def)
  have r: "op_ring ?q" "oq_count ?q \<noteq> 0" "oq_count ?q = 1" using q by (simp_all add: op_ring_def del: started_fields)
  note t = op_take_ok [OF r(1,2)]
  have m: "m_op_queue t = op_take ?q" using f(4) by (simp del: started_fields)
  show "op_ring (m_op_queue t)" using t(1) m by simp
  show "oq_count (m_op_queue t) = 0" using r(3) unfolding m op_take_def by simp
  have c: "chunk_ring (m_chunk_queue ?b)" "chunk_list (m_chunk_queue ?b) = ?cs" using assms(2) by (simp_all add: job_ok_def)
  have "length ?cs \<le> length (chunk_list (m_chunk_queue ?b))" unfolding c(2) by simp
  note k = chunk_takes [OF c(1) this, unfolded c(2)]
  have d: "m_chunk_queue t = (chunk_take ^^ length ?cs) (m_chunk_queue ?b)" using f(5) by (simp add: stage_chunks_def del: started_fields)
  show "chunk_ring (m_chunk_queue t)" using k d by simp
  have "chunk_list (m_chunk_queue t) = []" unfolding d using k by simp
  then show "cq_count (m_chunk_queue t) = 0" by (rule chunk_list_Nil [THEN iffD1])
  have "length (oq_op (m_op_queue t)) = length (oq_op (m_op_queue ?b))" using t(3) m by simp
  then show "headers_apart t" using assms(2) f(16) by (simp add: job_ok_def headers_apart_def del: started_fields)
qed

lemma all_words_done: "all_words b op cs = job_mem b op cs (req_done cs (length cs + 3))" "{0, 1, 2} \<subseteq> req_done cs (length cs + 3)"
  by (auto simp: all_words_def req_done_def)

lemma rec_len_cong: "header_at m' q = header_at m q \<Longrightarrow> rec_len m' q = rec_len m q"
  by (simp add: rec_len_def)

lemma written_page_fields:
  assumes "fds_ready s" and "page_room s (record_len r) i" and "record_len r + 3 < FDS_PAGE_SIZE s - 2" and "write_over s r i t"
  shows "m_pages t ! i = (m_pages s ! i)\<lparr>write_offset := write_offset (m_pages s ! i) + of_nat (record_len r + 3)\<rparr>"
    "unat (write_offset (m_pages t ! i)) = unat (write_offset (m_pages s ! i)) + record_len r + 3"
    "k \<noteq> i \<Longrightarrow> m_pages t ! k = m_pages s ! k"
proof -
  note p = reserved_page [OF assms(1-3)]
  note f = write_over_fields [OF assms(4) p(3)]
  have i: "i < length (m_pages s)" using assms(2) by (simp add: page_room_def)
  then show m: "m_pages t ! i = (m_pages s ! i)\<lparr>write_offset := write_offset (m_pages s ! i) + of_nat (record_len r + 3)\<rparr>"
    by (simp add: f(4) reserved_def written_page_def FDS_HEADER_SIZE_def add.commute)
  have P: "2 * FDS_PAGE_SIZE s < 2 ^ 16" using p(2) by (simp add: page_ok_def)
  have "unat (of_nat (record_len r + 3) :: u16) = record_len r + 3" by (rule unat_u16_nat) (use P assms(3) in linarith)
  then have "unat (write_offset (m_pages s ! i) + of_nat (record_len r + 3)) = unat (write_offset (m_pages s ! i)) + (record_len r + 3)"
    using assms(2) P by (subst unat_add_lem [THEN iffD1]) (simp_all add: page_room_def)
  then show "unat (write_offset (m_pages t ! i)) = unat (write_offset (m_pages s ! i)) + record_len r + 3" by (simp add: m)
  show "k \<noteq> i \<Longrightarrow> m_pages t ! k = m_pages s ! k" by (simp add: f(4) reserved_def)
qed

lemma write_over_page:
  assumes "fds_ready s" and "record_ok s r" and "page_room s (record_len r) i" and "record_len r + 3 < FDS_PAGE_SIZE s - 2" and "write_over s r i t"
  shows "page_ok t (m_pages t ! i)"
proof -
  let ?b = "started s r i" and ?op = "new_op s r i" and ?cs = "the_chunks r" and ?pg = "m_pages s ! i" and ?n = "record_len r"
  note p = reserved_page [OF assms(1,3,4)]
  note f = write_over_fields [OF assms(5) p(3)] and w = written_page_fields [OF assms(1,3-5)]
  note job = started_job [OF assms(1-4)] and fits = page_ok_fits [OF p(2)]
  have P: "FDS_PAGE_SIZE t = FDS_PAGE_SIZE s" using f(2) by (simp add: same_pages_def)
  have m: "fds_mem t = job_mem ?b ?op ?cs (req_done ?cs (length ?cs + 3))" using f(1) all_words_done(1) by simp
  have d: "0 \<in> req_done ?cs (length ?cs + 3)" using all_words_done(2) [of ?cs] by blast
  note g = job_grows [OF assms(1-4) m f(2) d]
  have n: "?n + 3 + unat (write_offset ?pg) + unat (words_reserved ?pg) < FDS_PAGE_SIZE s" using assms(3) by (simp add: page_room_def)
  have "?n < 2 ^ 16" using n p(2) by (simp add: page_ok_def)
  then have l: "rec_len (fds_mem t) (free_addr ?pg) = ?n + 3"
    using unat_u16_nat [of ?n] by (simp add: rec_len_def g(3) FDS_HEADER_SIZE_def)
  have "map (rec_len (fds_mem t)) (recs_of s ?pg) = map (rec_len (fds_mem s)) (recs_of s ?pg)"
    using g(2) rec_len_cong by (intro map_cong) blast+
  then have sum: "(\<Sum>q \<leftarrow> recs_of t (m_pages t ! i). rec_len (fds_mem t) q) = (\<Sum>q \<leftarrow> recs_of s ?pg. rec_len (fds_mem s) q) + (?n + 3)"
    by (simp only: g(1) map_append sum_list_append list.map sum_list.Cons sum_list.Nil l add_0_right)
  have erased: "fds_mem t (word_at (p_addr ?pg) k) = FDS_ERASED_WORD" if k: "k < FDS_PAGE_SIZE s" "unat (write_offset ?pg) + ?n + 3 \<le> k" for k
  proof -
    have u: "unat (word_at (p_addr ?pg) k) = unat (p_addr ?pg) + 4 * k" using unat_word_at [OF fits, of k] k(1) by simp
    have i: "i < length (m_pages s)" "unat (of_nat i :: u16) = i" using assms(3) p(3) unat_u16_nat by (simp_all add: page_room_def)
    have j: "p_addr (job_page ?b ?op) = p_addr ?pg" "write_offset (job_page ?b ?op) = write_offset ?pg"
      using i by (simp_all add: job_page_def reserved_def)
    have L: "length (the_words ?b ?op ?cs) = ?n + 3" by (simp add: length_the_words length_data_words record_len_def)
    have "word_at (p_addr ?pg) k \<noteq> word_at (job_addr ?b ?op) q" if "q < length (the_words ?b ?op ?cs)" for q
    proof
      assume "word_at (p_addr ?pg) k = word_at (job_addr ?b ?op) q"
      then have "unat (p_addr ?pg) + 4 * k = unat (p_addr ?pg) + 4 * (unat (write_offset ?pg) + q)"
        using u job_fits(2) [OF job, of q] that j by simp
      then show False using that L k(2) by simp
    qed
    then have "fds_mem t (word_at (p_addr ?pg) k) = fds_mem s (word_at (p_addr ?pg) k)"
      unfolding m job_mem_def using put_words_outside [of "the_words ?b ?op ?cs"] by simp
    then show ?thesis using p(2) k by (simp add: page_ok_def)
  qed
  have a: "p_addr (m_pages t ! i) = p_addr ?pg" "words_reserved (m_pages t ! i) = words_reserved ?pg" by (simp_all add: w(1))
  show ?thesis
    using p(2) n erased unfolding page_ok_def page_low_def P f(3) a w(2) sum by (auto simp: add.assoc)
qed

lemma write_over_ready:
  assumes "fds_ready s" and "record_ok s r" and "page_room s (record_len r) i" and "record_len r + 3 < FDS_PAGE_SIZE s - 2" and "write_over s r i t"
  shows "fds_ready t"
proof -
  note p = reserved_page [OF assms(1,3,4)]
  note f = write_over_fields [OF assms(5) p(3)] and w = written_page_fields [OF assms(1,3-5)]
  note job = started_job [OF assms(1-4)]
  have m: "fds_mem t = job_mem (started s r i) (new_op s r i) (the_chunks r) (req_done (the_chunks r) (length (the_chunks r) + 3))"
    using f(1) all_words_done(1) by simp
  have sp: "FDS_PAGE_SIZE t = FDS_PAGE_SIZE s" "length (m_pages t) = length (m_pages s)" using f(2) by (simp_all add: same_pages_def)
  have "page_ok t (m_pages t ! k)" if k: "k < length (m_pages t)" "page_type (m_pages t ! k) = FDS_PAGE_DATA" for k
  proof (cases "k = i")
    case True
    then show ?thesis using write_over_page [OF assms] by simp
  next
    case False
    have s: "k < length (m_pages s)" "page_type (m_pages s ! k) = FDS_PAGE_DATA" using k sp(2) w(3) [OF False] by simp_all
    note o = job_apart [OF assms(1-4) s(1) False s(2) m f(2)]
    have "map (rec_len (fds_mem t)) (recs_of s (m_pages s ! k)) = map (rec_len (fds_mem s)) (recs_of s (m_pages s ! k))"
      using o(2) rec_len_cong by (intro map_cong) blast+
    then have "(\<Sum>q \<leftarrow> recs_of s (m_pages s ! k). rec_len (fds_mem t) q) = (\<Sum>q \<leftarrow> recs_of s (m_pages s ! k). rec_len (fds_mem s) q)"
      by (rule arg_cong)
    moreover have "page_ok s (m_pages s ! k)" using assms(1) s by (simp add: fds_ready_def)
    ultimately show ?thesis
      using o(1,3) unfolding page_ok_def page_low_def sp f(3) w(3) [OF False] by simp
  qed
  then have "\<forall>pg \<in> set (m_pages t). page_type pg = FDS_PAGE_DATA \<longrightarrow> page_ok t pg" by (metis in_set_conv_nth)
  moreover have "pages_apart t" using assms(1) f(2) unfolding fds_ready_def pages_apart_def same_pages_def by auto
  moreover have "flag_is_set FDS_FLAG_INITIALIZED t \<and> \<not> flag_is_set FDS_FLAG_PROCESSING t"
  proof -
    have "((m OR FDS_FLAG_PROCESSING) AND NOT FDS_FLAG_PROCESSING) AND FDS_FLAG_INITIALIZED = m AND FDS_FLAG_INITIALIZED" for m
      by (rule bit_word_eqI) (auto simp: FDS_FLAG_PROCESSING_def FDS_FLAG_INITIALIZED_def bit_simps)
    moreover have "((m OR FDS_FLAG_PROCESSING) AND NOT FDS_FLAG_PROCESSING) AND FDS_FLAG_PROCESSING = 0" for m
      by (rule bit_word_eqI) (auto simp: bit_simps)
    ultimately show ?thesis using assms(1) by (simp add: flag_is_set_def f(6) fds_ready_def)
  qed
  ultimately show ?thesis
    using write_over_queues [OF assms(1) job assms(5)] assms(1,5) sp(2) f(8) by (simp add: fds_ready_def write_over_def)
qed

section \<open>Properties\<close>

lemma hits_before:
  assumes "fds_ready s" and "record_ok s r" and "page_room s (record_len r) i" and "record_len r + 3 < FDS_PAGE_SIZE s - 2"
    and "fds_mem t = job_mem (started s r i) (new_op s r i) (the_chunks r) W" and "same_pages s t" and "W = {} \<or> 0 \<in> W" and "1 \<notin> W"
    and "k < length (m_pages s)"
  shows "hits good t k = hits good s k"
proof (cases "page_type (m_pages s ! k) = FDS_PAGE_DATA")
  case True
  have d: "page_type (m_pages t ! k) = FDS_PAGE_DATA" using True assms(6,9) by (simp add: same_pages_def)
  have old: "hits good s k = filter (\<lambda>q. valid_rec (fds_mem s) q \<and> good (header_at (fds_mem s) q)) (recs_of s (m_pages s ! k))"
    by (rule hits_page [OF True]) simp_all
  consider "W = {}" | "k \<noteq> i" | "0 \<in> W" "k = i" using assms(7) by blast
  then show ?thesis
  proof cases
    case 1
    then have m: "fds_mem t = fds_mem s" using assms(5) by (simp add: job_mem_def put_words_none)
    have "recs_of t (m_pages t ! k) = recs_of s (m_pages s ! k)"
      using assms(6,9) m by (simp add: recs_of_def page_end_def same_pages_def)
    from hits_page [OF d this, of "fds_mem s" good] show ?thesis using m old by simp
  next
    case 2
    note o = job_apart [OF assms(1-4,9) 2 True assms(5,6)]
    show ?thesis using hits_page [OF d o(1,2), of good] old by simp
  next
    case 3
    note g = job_grows [OF assms(1-6) 3(1)]
    let ?p = "free_addr (m_pages s ! i)" and ?rs = "recs_of s (m_pages s ! i)"
    have "\<not> valid_rec (fds_mem t) ?p"
      using assms(8) by (simp add: valid_rec_header g(3) header_is_valid_def FDS_FILE_ID_INVALID_def)
    moreover have "hits good t k = filter (\<lambda>q. valid_rec (fds_mem t) q \<and> good (header_at (fds_mem t) q)) (?rs @ [?p])"
      by (rule hits_page [OF d]) (use g(1) 3(2) in simp_all)
    moreover have "filter (\<lambda>q. valid_rec (fds_mem t) q \<and> good (header_at (fds_mem t) q)) ?rs =
        filter (\<lambda>q. valid_rec (fds_mem s) q \<and> good (header_at (fds_mem s) q)) ?rs"
      using g(2) by (intro filter_cong) (simp_all add: valid_rec_header)
    ultimately show ?thesis using old 3(2) by simp
  qed
next
  case False
  then show ?thesis using assms(6,9) by (simp add: hits_def same_pages_def)
qed

lemma stage_same_pages:
  assumes "at_stage (started s r i) (new_op s r i) (the_chunks r) n t"
  shows "same_pages s t" "fds_mem t = job_mem (started s r i) (new_op s r i) (the_chunks r) (req_done (the_chunks r) n)"
proof -
  let ?b = "started s r i"
  obtain q cq m where j: "in_job ?b q cq m t" "m = job_mem ?b (new_op s r i) (the_chunks r) (req_done (the_chunks r) n)"
    using assms by (auto simp: at_stage_def)
  then show "fds_mem t = job_mem (started s r i) (new_op s r i) (the_chunks r) (req_done (the_chunks r) n)" using in_job_fields(3) by blast
  have "m_pages t = m_pages ?b" using in_job_fields(4) [OF j(1)] .
  moreover have "FDS_PAGE_SIZE t = FDS_PAGE_SIZE ?b" using j(1) inner_page_size [of "at_job ?b q cq m" t] by (simp add: in_job_def FDS_PAGE_SIZE_def at_job_def)
  ultimately show "same_pages s t" using reserved_same [of s r i] by (simp add: same_pages_def)
qed

text \<open>What the call leaves in the caller's descriptor.\<close>

definition written_desc :: "'m fds_st \<Rightarrow> fds_record_desc_t option \<Rightarrow> fds_record_desc_t option" where
  "written_desc s = map_option (\<lambda>d. d\<lparr>d_p_record := 0, d_record_id := m_latest_rec_id s + 1, d_record_is_open := False,
     d_gc_run_count := gc_run_count (m_gc s)\<rparr>)"

lemma write_starts:
  assumes "fds_ready s" and "env_quiet E" and "record_ok s r" and "page_room s (record_len r) j" and "record_len r + 3 < FDS_PAGE_SIZE s - 2"
  obtains i where "page_room s (record_len r) i" and "job_ok (started s r i) (new_op s r i) (the_chunks r)"
    and "crc_ok (started s r i) (new_op s r i) (the_chunks r)" and "\<not> req_pending (started s r i)"
    and "ok (fds_record_write E d (Some r) s) (\<lambda>(ret, d', t). ret = FDS_SUCCESS \<and> d' = written_desc s d \<and> at_stage (started s r i) (new_op s r i) (the_chunks r) 0 t)"
proof -
  obtain i where i: "page_room s (record_len r) i" "fds_record_write E d (Some r) s = then_do (fds_queue_process E FS_SUCCESS (started s r i))
      (\<lambda>t. Inr (FDS_SUCCESS, map_option (\<lambda>d. d\<lparr>d_p_record := 0, d_record_id := m_latest_rec_id s + 1, d_record_is_open := False,
        d_gc_run_count := gc_run_count (m_gc s)\<rparr>) d, t))"
    using write_call [OF assms(1,3-5)] by blast
  note job = started_job [OF assms(1,3) i(1) assms(5)]
  have q: "fs_quiet (started s r i)" using assms(1) fs_same_queue(7) [OF started_same, of s r i] by (simp add: fds_ready_def)
  have crc: "crc_ok (started s r i) (new_op s r i) (the_chunks r)"
    by (rule crc_ok_written [OF job]) (use new_header_crc [of s r] in \<open>simp add: the_words_def\<close>)
  have "ok (fds_queue_process E FS_SUCCESS (started s r i)) (at_stage (started s r i) (new_op s r i) (the_chunks r) 0)"
    by (rule started_runs [OF job assms(2) q]) simp
  then show ?thesis using that [OF i(1) job crc] q i(2) by (simp add: fs_quiet_def written_desc_def)
qed

definition record_found :: "'m fds_st \<Rightarrow> fds_record_t \<Rightarrow> nat \<Rightarrow> u32 \<Rightarrow> 'm fds_st \<Rightarrow> bool" where
  "record_found s r i p t \<longleftrightarrow> header_at (fds_mem t) p = new_header s r \<and>
     (\<forall>k < record_len r. fds_mem t (word_at p (3 + k)) = data_words (fds_mem s) (the_chunks r) ! k) \<and>
     (cfg_fds_crc s \<longrightarrow> crc_verify_success (crc16 (h_ic (new_header s r))) (tl_length_words (h_tl (new_header s r))) p t = Inr True) \<and>
     (\<forall>good. \<forall>k < length (m_pages s). hits good t k = hits good s k @ (if k = i \<and> good (new_header s r) then [p] else []))"

lemma write_over_found:
  assumes "fds_ready s" and "record_ok s r" and "page_room s (record_len r) i" and "record_len r + 3 < FDS_PAGE_SIZE s - 2"
    and "job_ok (started s r i) (new_op s r i) (the_chunks r)" and "crc_ok (started s r i) (new_op s r i) (the_chunks r)" and "write_over s r i t"
  shows "fds_ready t" "fds_evts t = fds_evts s @ [written_evt s r]" "record_found s r i (free_addr (m_pages s ! i)) t"
proof -
  let ?b = "started s r i" and ?op = "new_op s r i" and ?cs = "the_chunks r" and ?p = "free_addr (m_pages s ! i)"
  note f = write_over_fields [OF assms(7) reserved_page(3) [OF assms(1,3,4)]]
  show "fds_ready t" "fds_evts t = fds_evts s @ [written_evt s r]" using write_over_ready [OF assms(1-4,7)] f(5) by blast+
  have m: "fds_mem t = job_mem ?b ?op ?cs (req_done ?cs (length ?cs + 3))" using f(1) all_words_done(1) by simp
  have d: "0 \<in> req_done ?cs (length ?cs + 3)" "1 \<in> req_done ?cs (length ?cs + 3)" "2 \<in> req_done ?cs (length ?cs + 3)"
    using all_words_done(2) [of ?cs] by blast+
  note g = job_grows [OF assms(1-4) m f(2) d(1)]
  have i: "i < length (m_pages s)" "page_type (m_pages s ! i) = FDS_PAGE_DATA" "unat (of_nat i :: u16) = i"
    using assms(3) reserved_page(3) [OF assms(1,3,4)] unat_u16_nat by (simp_all add: page_room_def)
  have a: "job_addr ?b ?op = ?p" using i by (simp add: job_addr_def free_addr_def reserved_def)
  have h: "header_at (fds_mem t) ?p = new_header s r" using g(3) d by (cases "new_header s r") (simp add: new_header_def Let_def)
  have "fds_mem t (word_at ?p (3 + k)) = data_words (fds_mem s) ?cs ! k" if "k < record_len r" for k
    using all_words_at [OF assms(5), of "3 + k"] that f(1) a
    by (simp add: length_the_words length_data_words record_len_def the_words_def record_words_def header_words_def numeral_3_eq_3)
  moreover have "cfg_fds_crc s \<longrightarrow> crc_verify_success (crc16 (h_ic (new_header s r))) (tl_length_words (h_tl (new_header s r))) ?p t = Inr True"
    using assms(6) f(1) by (simp add: crc_ok_def a)
  moreover have "hits good t k = hits good s k @ (if k = i \<and> good (new_header s r) then [?p] else [])" if k: "k < length (m_pages s)" for good k
  proof (cases "page_type (m_pages s ! k) = FDS_PAGE_DATA")
    case True
    have dt: "page_type (m_pages t ! k) = FDS_PAGE_DATA" using True f(2) k by (simp add: same_pages_def)
    have old: "hits good s k = filter (\<lambda>q. valid_rec (fds_mem s) q \<and> good (header_at (fds_mem s) q)) (recs_of s (m_pages s ! k))"
      by (rule hits_page [OF True]) simp_all
    show ?thesis
    proof (cases "k = i")
      case False
      note o = job_apart [OF assms(1-4) k False True m f(2)]
      show ?thesis using hits_page [OF dt o(1,2), of good] old False by simp
    next
      case e: True
      let ?rs = "recs_of s (m_pages s ! i)"
      have "valid_rec (fds_mem t) ?p" using assms(2) by (simp add: valid_rec_header h header_is_valid_def record_ok_def)
      moreover have "hits good t i = filter (\<lambda>q. valid_rec (fds_mem t) q \<and> good (header_at (fds_mem t) q)) (?rs @ [?p])"
        by (rule hits_page) (use dt g(1) e in simp_all)
      moreover have "filter (\<lambda>q. valid_rec (fds_mem t) q \<and> good (header_at (fds_mem t) q)) ?rs =
          filter (\<lambda>q. valid_rec (fds_mem s) q \<and> good (header_at (fds_mem s) q)) ?rs"
        using g(2) by (intro filter_cong) (simp_all add: valid_rec_header)
      ultimately show ?thesis using old e h by simp
    qed
  next
    case False
    then have "k \<noteq> i" using i by blast
    then show ?thesis using False f(2) k by (simp add: hits_def same_pages_def)
  qed
  ultimately show "record_found s r i ?p t" using h by (simp add: record_found_def)
qed

text \<open>
  C37. A record that is written on an idle module, in an environment that does not call back into it, gets its success event when the last
  of its requests (two for the header, one for a chunk, one for the rest of the header) is done. It is behind the older records of
  a page with room, with the header and the data of the call, its checksum is right, searches find it and all they found before, and the module is idle again.
\<close>

theorem fds_write_found:
  assumes "fds_ready s" and "env_quiet E" and "record_ok s r" and "page_room s (record_len r) j" and "record_len r + 3 < FDS_PAGE_SIZE s - 2"
  shows "ok (fds_record_write E d (Some r) s) (\<lambda>(ret, d', s1). ret = FDS_SUCCESS \<and> d' = written_desc s d \<and>
    ok (carry_outs E (unat (rec_num_chunks r) + 3) s1) (\<lambda>t. fds_ready t \<and> fds_evts t = fds_evts s @ [written_evt s r] \<and>
      (\<exists>i p. page_room s (record_len r) i \<and> record_found s r i p t)))"
proof -
  obtain i where i: "page_room s (record_len r) i" "job_ok (started s r i) (new_op s r i) (the_chunks r)"
    "crc_ok (started s r i) (new_op s r i) (the_chunks r)" "\<not> req_pending (started s r i)"
    "ok (fds_record_write E d (Some r) s) (\<lambda>(ret, d', t). ret = FDS_SUCCESS \<and> d' = written_desc s d \<and> at_stage (started s r i) (new_op s r i) (the_chunks r) 0 t)"
    using write_starts [OF assms, of d] by blast
  have n: "unat (rec_num_chunks r) = length (the_chunks r)" using assms(3) length_the_chunks [of r] by (simp add: record_ok_def)
  have "ok (carry_outs E (unat (rec_num_chunks r) + 3) s1) (\<lambda>t. fds_ready t \<and> fds_evts t = fds_evts s @ [written_evt s r] \<and>
      (\<exists>i p. page_room s (record_len r) i \<and> record_found s r i p t))" if "at_stage (started s r i) (new_op s r i) (the_chunks r) 0 s1" for s1
  proof (rule ok_mono [OF write_runs(2) [OF i(2) assms(2) that i(4,3), folded n]])
    fix t assume "fs_quiet t \<and> fs_inner (write_end (started s r i) (new_op s r i) (the_chunks r)) t"
    then have "write_over s r i t" by (simp add: write_over_def)
    then show "fds_ready t \<and> fds_evts t = fds_evts s @ [written_evt s r] \<and> (\<exists>i p. page_room s (record_len r) i \<and> record_found s r i p t)"
      using write_over_found [OF assms(1,3) i(1) assms(5) i(2,3)] i(1) by blast
  qed
  then show ?thesis using i(5) by (auto elim!: ok_mono)
qed

text \<open>
  C38. Until then, after any smaller number of requests, every search gives what it gave before the call: a record that is being written
  is skipped as long as the last word of its header is missing, so that a reset leaves either the whole record or none.
\<close>

theorem fds_write_atomic:
  assumes "fds_ready s" and "env_quiet E" and "record_ok s r" and "page_room s (record_len r) j" and "record_len r + 3 < FDS_PAGE_SIZE s - 2"
    and "n < unat (rec_num_chunks r) + 3"
  shows "ok (fds_record_write E d (Some r) s) (\<lambda>(ret, d', s1). ret = FDS_SUCCESS \<and>
    ok (carry_outs E n s1) (\<lambda>t. \<forall>good. \<forall>k < length (m_pages s). hits good t k = hits good s k))"
proof -
  obtain i where i: "page_room s (record_len r) i" "job_ok (started s r i) (new_op s r i) (the_chunks r)"
    "crc_ok (started s r i) (new_op s r i) (the_chunks r)" "\<not> req_pending (started s r i)"
    "ok (fds_record_write E d (Some r) s) (\<lambda>(ret, d', t). ret = FDS_SUCCESS \<and> d' = written_desc s d \<and> at_stage (started s r i) (new_op s r i) (the_chunks r) 0 t)"
    using write_starts [OF assms(1-5), of d] by blast
  have n: "n < length (the_chunks r) + 3" using assms(3,6) length_the_chunks [of r] by (simp add: record_ok_def)
  then have w: "1 \<notin> req_done (the_chunks r) n" "req_done (the_chunks r) n = {} \<or> 0 \<in> req_done (the_chunks r) n"
    by (auto simp: req_done_def)
  have "ok (carry_outs E n s1) (\<lambda>t. \<forall>good. \<forall>k < length (m_pages s). hits good t k = hits good s k)"
    if "at_stage (started s r i) (new_op s r i) (the_chunks r) 0 s1" for s1
  proof (rule ok_mono [OF write_runs(1) [OF i(2) assms(2) that i(4,3) n]])
    fix t assume t: "at_stage (started s r i) (new_op s r i) (the_chunks r) n t"
    note p = stage_same_pages [OF t]
    show "\<forall>good. \<forall>k < length (m_pages s). hits good t k = hits good s k"
      using hits_before [OF assms(1,3) i(1) assms(5) p(2,1) w(2,1)] by blast
  qed
  then show ?thesis using i(5) by (auto elim!: ok_mono)
qed

end
