(* ===== verification/FdsInit.thy ===== *)
theory FdsInit
  imports FdsProps
begin

text \<open>
  \<open>fds_init\<close> on a flash that is in use: the survey of the pages finds the swap page and every record, and leaves the module
  ready in the sense of \<open>FdsProps\<close>. And a flash on which it goes wrong.
\<close>

unbundle bit_operations_syntax

section \<open>The flash\<close>

definition vpage_at :: "'m fds_st \<Rightarrow> nat \<Rightarrow> u32" where
  "vpage_at s k = p_start_addr (fds_area s) + of_nat (4 * (k * FDS_PAGE_SIZE s))"

definition vpage_recs :: "'m fds_st \<Rightarrow> nat \<Rightarrow> u32 list" where
  "vpage_recs s k = page_recs (fds_mem s) (vpage_at s k + of_nat (4 * FDS_PAGE_SIZE s)) (vpage_at s k + 8)"

definition vpage_used :: "'m fds_st \<Rightarrow> nat \<Rightarrow> nat" where
  "vpage_used s k = 2 + (\<Sum>q \<leftarrow> vpage_recs s k. rec_len (fds_mem s) q)"

text \<open>The area: the sizes are those of the configuration, the end is far from the end of memory.\<close>

definition area_ok :: "'m fds_st \<Rightarrow> bool" where
  "area_ok s \<longleftrightarrow> fds_cfg s < length (fs_data s) \<and> p_start_addr (fds_area s) \<noteq> 0 \<and> p_start_addr (fds_area s) AND 3 = 0 \<and>
     unat (p_start_addr (fds_area s)) + 4 * (FDS_VIRTUAL_PAGES s * FDS_PAGE_SIZE s) \<le> unat (p_end_addr (fds_area s)) \<and>
     unat (p_end_addr (fds_area s)) + 4 * 65538 < 2 ^ 32 \<and> 2 \<le> FDS_PAGE_SIZE s \<and> 2 * FDS_PAGE_SIZE s < 2 ^ 16 \<and>
     0 < length (m_pages s) \<and> length (m_pages s) < 2 ^ 16"

text \<open>A data page: its records, then erased words only.\<close>

definition vpage_data :: "'m fds_st \<Rightarrow> nat \<Rightarrow> bool" where
  "vpage_data s k \<longleftrightarrow> page_identify (vpage_at s k) s = FDS_PAGE_DATA \<and> vpage_used s k \<le> FDS_PAGE_SIZE s \<and>
     (\<forall>j < FDS_PAGE_SIZE s. vpage_used s k \<le> j \<longrightarrow> fds_mem s (word_at (vpage_at s k) j) = FDS_ERASED_WORD)"

text \<open>The flash is installed: virtual page \<open>w\<close> is the swap page and empty, all others are data pages.\<close>

definition installed :: "'m fds_st \<Rightarrow> nat \<Rightarrow> bool" where
  "installed s w \<longleftrightarrow> area_ok s \<and> w < FDS_VIRTUAL_PAGES s \<and> page_identify (vpage_at s w) s = FDS_PAGE_SWAP \<and> vpage_recs s w = [] \<and>
     (\<forall>k < FDS_VIRTUAL_PAGES s. k \<noteq> w \<longrightarrow> vpage_data s k)"

lemma unat_vpage_at:
  assumes "area_ok s" and "k < FDS_VIRTUAL_PAGES s"
  shows "unat (vpage_at s k) = unat (p_start_addr (fds_area s)) + 4 * (k * FDS_PAGE_SIZE s)"
    "unat (vpage_at s k) + 4 * FDS_PAGE_SIZE s \<le> unat (p_end_addr (fds_area s))"
proof -
  have "(k + 1) * FDS_PAGE_SIZE s \<le> FDS_VIRTUAL_PAGES s * FDS_PAGE_SIZE s" by (rule mult_le_mono1) (use assms(2) in simp)
  then have l: "unat (p_start_addr (fds_area s)) + 4 * (k * FDS_PAGE_SIZE s) + 4 * FDS_PAGE_SIZE s \<le> unat (p_end_addr (fds_area s))"
    using assms(1) by (simp add: area_ok_def)
  then have "unat (p_start_addr (fds_area s)) + 4 * (k * FDS_PAGE_SIZE s) < 2 ^ 32" using assms(1) unfolding area_ok_def by linarith
  from jump_forward [OF this] show u: "unat (vpage_at s k) = unat (p_start_addr (fds_area s)) + 4 * (k * FDS_PAGE_SIZE s)"
    by (simp only: vpage_at_def)
  show "unat (vpage_at s k) + 4 * FDS_PAGE_SIZE s \<le> unat (p_end_addr (fds_area s))" using u l by simp
qed

text \<open>The scan of a page gives the number of its words in use and the largest of the record IDs.\<close>

definition vpage_latest :: "'m fds_st \<Rightarrow> nat \<Rightarrow> u32 \<Rightarrow> u32" where
  "vpage_latest s k = fold (scan_latest (fds_mem s)) (vpage_recs s k)"

definition vpage_dirty :: "'m fds_st \<Rightarrow> nat \<Rightarrow> bool" where
  "vpage_dirty s k \<longleftrightarrow> list_ex (Not \<circ> valid_rec (fds_mem s)) (vpage_recs s k)"

lemma page_scan_ok:
  assumes "area_ok s" and "k < FDS_VIRTUAL_PAGES s" and "fds_mem t = fds_mem s" and "FDS_PAGE_SIZE t = FDS_PAGE_SIZE s"
  shows "page_scan (vpage_at s k) t =
    Inr (of_nat (vpage_used s k), vpage_dirty s k, t\<lparr>m_latest_rec_id := vpage_latest s k (m_latest_rec_id t)\<rparr>)"
proof -
  note u = unat_vpage_at [OF assms(1,2)]
  let ?pg = "\<lparr>page_type = FDS_PAGE_DATA, p_addr = vpage_at s k, write_offset = 0, words_reserved = 0, records_open = 0, can_gc = False\<rparr>"
  have "page_low t ?pg" using u(2) assms(1,4) by (simp add: page_low_def area_ok_def FDS_PAGE_TAG_SIZE_def)
  note p = page_low_ptrs [OF this]
  have "page_scan (vpage_at s k) t = Inr (of_nat FDS_PAGE_TAG_SIZE + of_nat (\<Sum>q \<leftarrow> vpage_recs s k. rec_len (fds_mem s) q), vpage_dirty s k,
      t\<lparr>m_latest_rec_id := vpage_latest s k (m_latest_rec_id t)\<rparr>)"
    using p by (simp add: page_scan_def page_scan_loop_recs assms(3,4) page_end_def vpage_recs_def vpage_latest_def vpage_dirty_def)
  then show ?thesis by (simp add: vpage_used_def FDS_PAGE_TAG_SIZE_def)
qed

section \<open>The survey\<close>

text \<open>Before round \<open>n\<close> that many elements of \<open>m_pages\<close> are filled; element \<open>k\<close> stands for a page before or behind the swap page.\<close>

definition slots :: "nat \<Rightarrow> nat \<Rightarrow> nat" where "slots w n = (if w < n then n - 1 else n)"
definition slot_page :: "nat \<Rightarrow> nat \<Rightarrow> nat" where "slot_page w k = (if k < w then k else Suc k)"

definition surveyed :: "'m fds_st \<Rightarrow> nat \<Rightarrow> fds_page_t \<Rightarrow> fds_page_t" where
  "surveyed s k pg = pg\<lparr>page_type := FDS_PAGE_DATA, p_addr := vpage_at s k, write_offset := of_nat (vpage_used s k), can_gc := vpage_dirty s k\<rparr>"

definition survey_state :: "'m fds_st \<Rightarrow> nat \<Rightarrow> nat \<Rightarrow> 'm fds_st" where
  "survey_state s w n = s\<lparr>m_pages := map (\<lambda>k. if k < slots w n then surveyed s (slot_page w k) (m_pages s ! k) else m_pages s ! k) [0..<length (m_pages s)],
     m_swap_page := (if w < n then \<lparr>sw_p_addr = vpage_at s w, sw_write_offset = 2\<rparr> else m_swap_page s),
     m_latest_rec_id := fold (vpage_latest s) [0..<n] (m_latest_rec_id s)\<rparr>"

definition survey_ret :: "nat \<Rightarrow> nat \<Rightarrow> u32" where
  "survey_ret w n = (if 0 < slots w n then PAGE_DATA else 0) OR (if w < n then SWAP_EMPTY else 0)"

lemma survey_state_fields [simp]:
  "fds_mem (survey_state s w n) = fds_mem s" "FDS_PAGE_SIZE (survey_state s w n) = FDS_PAGE_SIZE s" "length (m_pages (survey_state s w n)) = length (m_pages s)"
  "m_latest_rec_id (survey_state s w n) = fold (vpage_latest s) [0..<n] (m_latest_rec_id s)" "fds_cfg (survey_state s w n) = fds_cfg s"
  "fs_same s (survey_state s w n)"
  by (simp_all add: survey_state_def FDS_PAGE_SIZE_def)

lemma identify_cong: "fds_mem t = fds_mem s \<Longrightarrow> page_identify a t = page_identify a s"
  by (simp add: page_identify_def)

lemma survey_config:
  assumes "area_ok s"
  shows "the_fds_config (survey_state s w n) = Inr (fds_area s)"
proof -
  have "fs_data (survey_state s w n) = fs_data s" by (rule fs_same_fields(5)) simp
  then show ?thesis using assms by (simp add: the_fds_config_def load_at_def fds_area_def area_ok_def)
qed

lemma survey_swap:
  assumes "installed s w"
  shows "page_init w (survey_ret w w, of_nat w, False, survey_state s w w) = Inr (survey_ret w (Suc w), of_nat w, False, survey_state s w (Suc w))"
proof -
  have i: "area_ok s" "w < FDS_VIRTUAL_PAGES s" "page_identify (vpage_at s w) s = FDS_PAGE_SWAP" "vpage_recs s w = []"
    using assms by (simp_all add: installed_def)
  have u: "vpage_used s w = 2" "vpage_latest s w l = l" for l by (simp_all add: vpage_used_def vpage_latest_def i(4))
  have sc: "page_scan (vpage_at s w) (survey_state s w w) = Inr (2, vpage_dirty s w, survey_state s w w)"
    using page_scan_ok [OF i(1,2), of "survey_state s w w"] by (simp add: u del: survey_state_fields(4))
  have p: "page_identify (vpage_at s w) (survey_state s w w) = FDS_PAGE_SWAP" using i(3) identify_cong [of "survey_state s w w" s] by simp
  have a: "p_start_addr (fds_area s) + of_nat (4 * (w * FDS_PAGE_SIZE s)) = vpage_at s w" by (simp only: vpage_at_def)
  have "(survey_state s w w)\<lparr>m_swap_page := \<lparr>sw_p_addr = vpage_at s w, sw_write_offset = 2\<rparr>\<rparr> = survey_state s w (Suc w)"
    by (simp add: survey_state_def slots_def u cong: if_cong)
  moreover have "survey_ret w w OR SWAP_EMPTY = survey_ret w (Suc w)" by (simp add: survey_ret_def slots_def)
  ultimately show ?thesis
    unfolding page_init_def prod.case survey_config [OF i(1)] then_do_simps Let_def survey_state_fields a p
    by (simp add: sc FDS_PAGE_TAG_SIZE_def)
qed

lemma survey_data:
  assumes "installed s w" and "n < FDS_VIRTUAL_PAGES s" and "n \<noteq> w"
  shows "page_init n (survey_ret w n, of_nat (slots w n), False, survey_state s w n) =
    Inr (survey_ret w (Suc n), of_nat (slots w (Suc n)), False, survey_state s w (Suc n))"
proof -
  let ?t = "survey_state s w n" and ?k = "slots w n"
  have i: "area_ok s" "vpage_data s n" "w < FDS_VIRTUAL_PAGES s" using assms by (simp_all add: installed_def)
  have k: "?k < length (m_pages s)" "slot_page w ?k = n" "slots w (Suc n) = Suc ?k"
    using assms(2,3) i(3) by (auto simp: slots_def slot_page_def FDS_VIRTUAL_PAGES_def FDS_MAX_PAGES_def)
  have "?k < 2 ^ 16" using k(1) i(1) by (simp add: area_ok_def)
  then have kk: "unat (of_nat ?k :: u16) = ?k" by (rule unat_u16_nat)
  have p: "page_identify (vpage_at s n) ?t = FDS_PAGE_DATA" using i(2) identify_cong [of ?t s] by (simp add: vpage_data_def)
  have a: "p_start_addr (fds_area s) + of_nat (4 * (n * FDS_PAGE_SIZE s)) = vpage_at s n" by (simp only: vpage_at_def)
  have m: "m_pages ?t ! ?k = m_pages s ! ?k" using k(1) by (simp add: survey_state_def)
  let ?f = "\<lambda>pg. pg\<lparr>page_type := FDS_PAGE_DATA, p_addr := vpage_at s n\<rparr>"
  let ?t1 = "?t\<lparr>m_pages := (m_pages ?t)[?k := ?f (m_pages s ! ?k)]\<rparr>"
  have u1: "upd_page ?k ?f ?t = Inr ?t1" using k(1) m by (simp add: upd_page_def load_at_def)
  let ?t2 = "?t1\<lparr>m_latest_rec_id := vpage_latest s n (m_latest_rec_id ?t1)\<rparr>"
  have sc: "page_scan (vpage_at s n) ?t1 = Inr (of_nat (vpage_used s n), vpage_dirty s n, ?t2)"
    by (rule page_scan_ok [OF i(1) assms(2)]) (simp_all add: FDS_PAGE_SIZE_def survey_state_def)
  have u2: "upd_page ?k (\<lambda>pg. pg\<lparr>write_offset := of_nat (vpage_used s n), can_gc := vpage_dirty s n\<rparr>) ?t2 = Inr (survey_state s w (Suc n))"
  proof -
    have "(m_pages ?t)[?k := surveyed s n (m_pages s ! ?k)] = m_pages (survey_state s w (Suc n))"
    proof (rule nth_equalityI)
      fix j assume "j < length ((m_pages ?t)[?k := surveyed s n (m_pages s ! ?k)])"
      then have j: "j < length (m_pages s)" by simp
      then show "(m_pages ?t)[?k := surveyed s n (m_pages s ! ?k)] ! j = m_pages (survey_state s w (Suc n)) ! j"
        using k by (auto simp: survey_state_def nth_list_update)
    qed simp
    moreover have "(w < Suc n) = (w < n)" using assms(3) by auto
    ultimately show ?thesis
      using k(1) by (simp add: upd_page_def load_at_def surveyed_def) (simp add: survey_state_def)
  qed
  have r: "survey_ret w n OR PAGE_DATA = survey_ret w (Suc n)"
  proof -
    have "(w < Suc n) = (w < n)" using assms(3) by auto
    then show ?thesis unfolding survey_ret_def k(3)
      by (intro bit_word_eqI) (auto simp: bit_simps)
  qed
  show ?thesis
    unfolding page_init_def prod.case survey_config [OF i(1)] then_do_simps Let_def survey_state_fields a p
    using u1 sc u2 r k(3) by (simp add: kk add.commute)
qed

lemma survey_ok:
  fixes s :: "'a fds_st"
  assumes "installed s w"
  shows "pages_init s = Inr (ALREADY_INSTALLED, survey_state s w (FDS_VIRTUAL_PAGES s))"
proof -
  let ?I = "\<lambda>n (x :: u32 \<times> u16 \<times> bool \<times> 'a fds_st). x = (survey_ret w n, of_nat (slots w n), False, survey_state s w n)"
  have i: "area_ok s" "w < FDS_VIRTUAL_PAGES s" using assms by (simp_all add: installed_def)
  have zero: "survey_state s w 0 = s"
    by (cases s) (simp add: survey_state_def slots_def map_nth)
  have "ok (for_each page_init [0..<FDS_VIRTUAL_PAGES s] (NO_PAGES, 0, False, s)) (?I (FDS_VIRTUAL_PAGES s))"
  proof (rule for_each_upt)
    show "?I 0 (NO_PAGES, 0, False, s)" by (simp add: zero survey_ret_def NO_PAGES_def slots_def)
  next
    fix n x assume n: "n < FDS_VIRTUAL_PAGES s" and x: "?I n x"
    show "ok (page_init n x) (?I (Suc n))"
    proof (cases "n = w")
      case True
      then show ?thesis using survey_swap [OF assms] x by (simp add: slots_def)
    next
      case False
      then show ?thesis using survey_data [OF assms n] x by simp
    qed
  qed
  moreover have "survey_ret w (FDS_VIRTUAL_PAGES s) = ALREADY_INSTALLED"
    using i by (simp add: survey_ret_def slots_def ALREADY_INSTALLED_def FDS_VIRTUAL_PAGES_def FDS_MAX_PAGES_def area_ok_def)
  ultimately show ?thesis unfolding ok_iff by (auto simp: pages_init_def)
qed

section \<open>Afterwards\<close>

text \<open>The state after a reset, when fstorage has its areas.\<close>

definition fds_fresh :: "'m fds_st \<Rightarrow> bool" where
  "fds_fresh s \<longleftrightarrow> linked s \<and> fs_quiet s \<and> headers_apart s \<and> op_ring (m_op_queue s) \<and> oq_count (m_op_queue s) = 0 \<and>
     chunk_ring (m_chunk_queue s) \<and> cq_count (m_chunk_queue s) = 0 \<and> \<not> flag_is_set FDS_FLAG_PROCESSING s \<and>
     (\<forall>pg \<in> set (m_pages s). words_reserved pg = 0)"

definition init_end :: "'m fds_st \<Rightarrow> nat \<Rightarrow> 'm fds_st" where
  "init_end s w = (let t = flag_clear FDS_FLAG_INITIALIZING (flag_set FDS_FLAG_INITIALIZED (survey_state s w (FDS_VIRTUAL_PAGES s)))
     in t\<lparr>fds_evts := fds_evts t @ [evt_success]\<rparr>)"

lemma all_slots:
  assumes "installed s w"
  shows "slots w (FDS_VIRTUAL_PAGES s) = length (m_pages s)"
    "k < length (m_pages s) \<Longrightarrow> slot_page w k < FDS_VIRTUAL_PAGES s \<and> slot_page w k \<noteq> w"
  using assms by (auto simp: installed_def slots_def slot_page_def FDS_VIRTUAL_PAGES_def FDS_MAX_PAGES_def)

lemma init_end_fields:
  assumes "installed s w"
  shows "fds_mem (init_end s w) = fds_mem s" "FDS_PAGE_SIZE (init_end s w) = FDS_PAGE_SIZE s" "length (m_pages (init_end s w)) = length (m_pages s)"
    "k < length (m_pages s) \<Longrightarrow> m_pages (init_end s w) ! k = surveyed s (slot_page w k) (m_pages s ! k)"
    "fs_same s (init_end s w)" "fds_area (init_end s w) = fds_area s" "fds_evts (init_end s w) = fds_evts s @ [evt_success]"
    "m_flags (init_end s w) = (m_flags s OR FDS_FLAG_INITIALIZED) AND NOT FDS_FLAG_INITIALIZING"
    "m_latest_rec_id (init_end s w) = fold (vpage_latest s) [0..<FDS_VIRTUAL_PAGES s] (m_latest_rec_id s)"
proof -
  show "fds_mem (init_end s w) = fds_mem s" "FDS_PAGE_SIZE (init_end s w) = FDS_PAGE_SIZE s" "length (m_pages (init_end s w)) = length (m_pages s)"
    "k < length (m_pages s) \<Longrightarrow> m_pages (init_end s w) ! k = surveyed s (slot_page w k) (m_pages s ! k)"
    "fds_evts (init_end s w) = fds_evts s @ [evt_success]"
    "m_flags (init_end s w) = (m_flags s OR FDS_FLAG_INITIALIZED) AND NOT FDS_FLAG_INITIALIZING"
    "m_latest_rec_id (init_end s w) = fold (vpage_latest s) [0..<FDS_VIRTUAL_PAGES s] (m_latest_rec_id s)"
    using all_slots(1) [OF assms] by (simp_all add: init_end_def Let_def flag_clear_def flag_set_def survey_state_def FDS_PAGE_SIZE_def)
  show f: "fs_same s (init_end s w)" by (simp add: init_end_def Let_def flag_clear_def flag_set_def survey_state_def)
  have "fds_cfg (init_end s w) = fds_cfg s" by (simp add: init_end_def Let_def flag_clear_def flag_set_def survey_state_def)
  then show "fds_area (init_end s w) = fds_area s" by (simp add: fds_area_def fs_same_fields(5) [OF f])
qed

lemma surveyed_recs:
  "FDS_PAGE_SIZE t = FDS_PAGE_SIZE s \<Longrightarrow> fds_mem t = fds_mem s \<Longrightarrow> recs_of t (surveyed s k pg) = vpage_recs s k"
  by (simp add: recs_of_def page_end_def vpage_recs_def surveyed_def)

lemma surveyed_ok:
  assumes "area_ok s" and "k < FDS_VIRTUAL_PAGES s" and "vpage_data s k" and "words_reserved pg = 0"
    and "FDS_PAGE_SIZE t = FDS_PAGE_SIZE s" and "fds_mem t = fds_mem s" and "fds_area t = fds_area s"
  shows "page_ok t (surveyed s k pg)"
proof -
  note u = unat_vpage_at [OF assms(1,2)]
  have a: "p_addr (surveyed s k pg) = vpage_at s k" "words_reserved (surveyed s k pg) = 0" "write_offset (surveyed s k pg) = of_nat (vpage_used s k)"
    using assms(4) by (simp_all add: surveyed_def)
  have l: "vpage_used s k \<le> FDS_PAGE_SIZE s" "\<forall>j < FDS_PAGE_SIZE s. vpage_used s k \<le> j \<longrightarrow> fds_mem s (word_at (vpage_at s k) j) = FDS_ERASED_WORD"
    using assms(3) by (simp_all add: vpage_data_def)
  have P: "2 * FDS_PAGE_SIZE s < 2 ^ 16" "2 \<le> FDS_PAGE_SIZE s" using assms(1) by (simp_all add: area_ok_def)
  have n: "unat (of_nat (vpage_used s k) :: u16) = vpage_used s k" by (rule unat_u16_nat) (use l(1) P in linarith)
  have "4 dvd unat (vpage_at s k)" "unat (vpage_at s k) \<noteq> 0" using u(1) assms(1) by (simp_all add: area_ok_def and_3 unat_eq_0)
  then have "vpage_at s k AND 3 = 0" "vpage_at s k \<noteq> 0" by (auto simp: and_3)
  moreover have "unat (vpage_at s k) + 4 * (FDS_PAGE_SIZE s + 65538) < 2 ^ 32" using u(2) assms(1) by (simp add: area_ok_def)
  moreover have "p_start_addr (fds_area s) \<le> vpage_at s k" using u(1) by (simp add: word_le_nat_alt)
  ultimately show ?thesis
    using P l u(2) surveyed_recs [OF assms(5,6), of k pg]
    by (simp add: page_ok_def page_low_def a n assms(5-7) FDS_PAGE_TAG_SIZE_def) (simp add: vpage_used_def)
qed

lemma scan_latest_ge: "l \<le> fold (scan_latest m) ps l" "q \<in> set ps \<Longrightarrow> valid_rec m q \<Longrightarrow> record_id (header_at m q) \<le> fold (scan_latest m) ps l"
proof (induction ps arbitrary: l)
  case (Cons p ps)
  have s: "l \<le> scan_latest m p l" "valid_rec m p \<Longrightarrow> record_id (header_at m p) \<le> scan_latest m p l" for l
    by (auto simp: scan_latest_def)
  {
    case 1
    then show ?case using order.trans [OF s(1) Cons.IH(1)] by simp
  next
    case 2
    then show ?case using order.trans [OF s(2) Cons.IH(1)] Cons.IH(2) by (cases "q = p") auto
  }
qed simp_all

lemma all_latest:
  assumes "k < n" and "q \<in> set (vpage_recs s k)" and "valid_rec (fds_mem s) q"
  shows "record_id (header_at (fds_mem s) q) \<le> fold (vpage_latest s) [0..<n] l"
  using assms(1)
proof (induction n)
  case (Suc n)
  let ?l = "fold (vpage_latest s) [0..<n] l"
  have "fold (vpage_latest s) [0..<Suc n] l = fold (scan_latest (fds_mem s)) (vpage_recs s n) ?l" by (simp add: vpage_latest_def [of s n])
  moreover have "record_id (header_at (fds_mem s) q) \<le> fold (scan_latest (fds_mem s)) (vpage_recs s n) ?l"
  proof (cases "k = n")
    case True
    then show ?thesis using scan_latest_ge(2) assms(2,3) by blast
  next
    case False
    then show ?thesis using order.trans [OF Suc.IH scan_latest_ge(1)] Suc.prems by simp
  qed
  ultimately show ?case by simp
qed simp

lemma init_end_ready:
  assumes "installed s w" and "fds_fresh s"
  shows "fds_ready (init_end s w)"
proof -
  let ?t = "init_end s w"
  have area: "area_ok s" using assms(1) by (simp add: installed_def)
  note f = init_end_fields [OF assms(1)] and sl = all_slots(2) [OF assms(1)]
  have q: "m_op_queue ?t = m_op_queue s" "m_chunk_queue ?t = m_chunk_queue s" "op_header_addr ?t = op_header_addr s" "fds_cfg ?t = fds_cfg s"
    by (simp_all add: init_end_def Let_def flag_clear_def flag_set_def survey_state_def)
  have "page_ok ?t (m_pages ?t ! k)" if k: "k < length (m_pages s)" for k
  proof -
    have "words_reserved (m_pages s ! k) = 0" using assms(2) k by (simp add: fds_fresh_def)
    moreover have "vpage_data s (slot_page w k)" using sl [OF k] assms(1) by (simp add: installed_def)
    ultimately show ?thesis unfolding f(4) [OF k] using surveyed_ok [OF area _ _ _ f(2,1,6)] sl [OF k] by blast
  qed
  then have "\<forall>pg \<in> set (m_pages ?t). page_ok ?t pg" using f(3) by (metis in_set_conv_nth)
  moreover have "pages_apart ?t"
    unfolding pages_apart_def
  proof (intro allI impI)
    fix i j assume ij: "i < length (m_pages ?t)" "j < length (m_pages ?t)" "i \<noteq> j"
    then have l: "i < length (m_pages s)" "j < length (m_pages s)" using f(3) by simp_all
    have p: "p_addr (m_pages ?t ! i) = vpage_at s (slot_page w i)" "p_addr (m_pages ?t ! j) = vpage_at s (slot_page w j)"
      using f(4) l by (simp_all add: surveyed_def)
    have "slot_page w i < slot_page w j \<or> slot_page w j < slot_page w i" using ij(3) by (auto simp: slot_page_def)
    moreover have "a * P + P \<le> b * P" if "a < b" for a b P :: nat
    proof -
      have "Suc a * P \<le> b * P" by (rule mult_le_mono1) (use that in simp)
      then show ?thesis by simp
    qed
    ultimately have "slot_page w i * FDS_PAGE_SIZE s + FDS_PAGE_SIZE s \<le> slot_page w j * FDS_PAGE_SIZE s \<or>
        slot_page w j * FDS_PAGE_SIZE s + FDS_PAGE_SIZE s \<le> slot_page w i * FDS_PAGE_SIZE s" by blast
    then show "unat (p_addr (m_pages ?t ! i)) + 4 * FDS_PAGE_SIZE ?t \<le> unat (p_addr (m_pages ?t ! j)) \<or>
        unat (p_addr (m_pages ?t ! j)) + 4 * FDS_PAGE_SIZE ?t \<le> unat (p_addr (m_pages ?t ! i))"
      unfolding p f(2) using unat_vpage_at(1) [OF area] sl [OF l(1)] sl [OF l(2)] by auto
  qed
  moreover have "flag_is_set FDS_FLAG_INITIALIZED ?t" "\<not> flag_is_set FDS_FLAG_PROCESSING ?t"
  proof -
    have "((m OR FDS_FLAG_INITIALIZED) AND NOT FDS_FLAG_INITIALIZING) AND FDS_FLAG_INITIALIZED = FDS_FLAG_INITIALIZED" for m
      by (rule bit_word_eqI) (auto simp: FDS_FLAG_INITIALIZING_def FDS_FLAG_INITIALIZED_def bit_simps)
    then show "flag_is_set FDS_FLAG_INITIALIZED ?t" by (simp add: flag_is_set_def f(8)) (simp add: FDS_FLAG_INITIALIZED_def)
    have "((m OR FDS_FLAG_INITIALIZED) AND NOT FDS_FLAG_INITIALIZING) AND FDS_FLAG_PROCESSING = m AND FDS_FLAG_PROCESSING" for m
      by (rule bit_word_eqI) (auto simp: FDS_FLAG_INITIALIZING_def FDS_FLAG_INITIALIZED_def FDS_FLAG_PROCESSING_def bit_simps intro: gr0I)
    then show "\<not> flag_is_set FDS_FLAG_PROCESSING ?t" using assms(2) by (simp add: flag_is_set_def f(8) fds_fresh_def)
  qed
  moreover have "linked ?t" "fs_quiet ?t" using linked_same [OF f(5) q(4)] fs_same_queue(7) [OF f(5)] assms(2) by (simp_all add: fds_fresh_def)
  moreover have "headers_apart ?t" using assms(2) by (simp add: fds_fresh_def headers_apart_def q)
  ultimately show ?thesis using assms(2) area f(3) by (simp add: fds_ready_def fds_fresh_def q area_ok_def)
qed

lemma init_end_hits:
  assumes "installed s w" and "k < length (m_pages s)"
  shows "hits good (init_end s w) k = filter (hit good s) (vpage_recs s (slot_page w k))"
proof -
  note f = init_end_fields [OF assms(1)]
  have "hit good (init_end s w) = hit good s" by (simp add: hit_def fun_eq_iff f(1))
  then show ?thesis using surveyed_recs [OF f(2,1)] by (simp add: hits_def f(4) [OF assms(2)] surveyed_def)
qed

text \<open>\<open>fs_init\<close> changes the variables of fstorage only.\<close>

lemma for_each_keeps:
  assumes "\<And>i x y. body i x = Inr y \<Longrightarrow> f y = f x" and "for_each body is x = Inr y"
  shows "f y = f x"
  using assms(2)
proof (induction "is" arbitrary: x)
  case (Cons i "is")
  then obtain z where "body i x = Inr z" "for_each body is z = Inr y" by (auto simp: then_do_Inr_iff)
  then show ?case using Cons.IH assms(1) by metis
qed simp

lemma fs_init_more: "fs_init s = Inr (c, t) \<Longrightarrow> fstorage.more t = fstorage.more s"
  using for_each_keeps [of assign_space "\<lambda>x. fstorage.more (snd x)"]
  by (fastforce simp: fs_init_def then_do_Inr_iff assign_space_def Let_def split: if_splits prod.splits)

section \<open>Properties\<close>

text \<open>
  C39. After a reset \<open>fds_init\<close> finds an installed flash as it was left: it succeeds at once, with its event; every data page is entered once, with all its
  records, in the order of the flash; the module is ready to write, and the IDs it gives to new records are above those of all valid records.
\<close>

theorem fds_init_finds_records:
  assumes "env_quiet E" and "\<not> flag_is_set FDS_FLAG_INITIALIZED s" and "\<not> flag_is_set FDS_FLAG_INITIALIZING s"
    and "fs_init (flag_set FDS_FLAG_INITIALIZING s) = Inr (c, s0)" and "fds_fresh s0" and "installed s0 w"
  shows "ok (fds_init E s) (\<lambda>(ret, t). ret = FDS_SUCCESS \<and> fds_ready t \<and> fds_evts t = fds_evts s @ [evt_success] \<and>
    (\<forall>good. \<forall>k < length (m_pages s0). hits good t k = filter (hit good s0) (vpage_recs s0 (slot_page w k))) \<and>
    (\<forall>k < FDS_VIRTUAL_PAGES s0. \<forall>q \<in> set (vpage_recs s0 k). valid_rec (fds_mem s0) q \<longrightarrow> record_id (header_at (fds_mem s0) q) \<le> m_latest_rec_id t))"
proof -
  have m: "fstorage.more s0 = fstorage.more (flag_set FDS_FLAG_INITIALIZING s)" by (rule fs_init_more [OF assms(4)])
  have e: "fds_evts s0 = fds_evts s" using fds_more_fields(22) [OF m] by (simp add: flag_set_def)
  have "event_send (env_users E) evt_success (flag_clear FDS_FLAG_INITIALIZING (flag_set FDS_FLAG_INITIALIZED (survey_state s0 w (FDS_VIRTUAL_PAGES s0)))) =
      Inr (init_end s0 w)"
    using event_send_quiet [OF assms(1)] by (simp add: init_end_def Let_def)
  moreover have "ALREADY_INSTALLED \<noteq> NO_PAGES" by (simp add: fds_init_opts)
  ultimately have i: "fds_init E s = Inr (FDS_SUCCESS, init_end s0 w)"
    using assms(2-4) survey_ok [OF assms(6)] by (simp add: fds_init_def fs_init_and_survey_def)
  note f = init_end_fields [OF assms(6)]
  have "\<forall>k < FDS_VIRTUAL_PAGES s0. \<forall>q \<in> set (vpage_recs s0 k). valid_rec (fds_mem s0) q \<longrightarrow>
      record_id (header_at (fds_mem s0) q) \<le> m_latest_rec_id (init_end s0 w)"
    unfolding f(9) using all_latest by blast
  then show ?thesis
    unfolding i using init_end_ready [OF assms(6,5)] init_end_hits [OF assms(6)] e by (simp add: f(7))
qed

text \<open>The survey of three pages: a data page, an erased page, and the swap page with the records of an interrupted garbage collection.\<close>

lemma survey_interrupted:
  assumes "area_ok s" and "length (m_pages s) = 2" and "sw_p_addr (m_swap_page s) = 0"
    and "page_identify (vpage_at s 0) s = FDS_PAGE_DATA" and "page_identify (vpage_at s 1) s = FDS_PAGE_UNDEFINED"
    and "page_is_erased (vpage_at s 1) s" and "page_identify (vpage_at s 2) s = FDS_PAGE_SWAP"
    and "vpage_recs s 2 \<noteq> []" and "vpage_used s 2 \<le> FDS_PAGE_SIZE s"
  shows "ok (pages_init s) (\<lambda>(opts, t). opts = PROMOTE_SWAP_INST \<and> fs_same s t \<and> fds_cfg t = fds_cfg s \<and> page_tag_data_addr t = page_tag_data_addr s \<and>
    m_gc t = m_gc s \<and> sw_p_addr (m_swap_page t) = vpage_at s 2 \<and> length (m_pages t) = 2 \<and> p_addr (m_pages t ! 0) = vpage_at s 0 \<and>
    page_type (m_pages t ! 1) = FDS_PAGE_ERASED)"
proof -
  obtain x y where pg: "m_pages s = [x, y]" using assms(2) by (metis One_nat_def Suc_1 length_0_conv length_Suc_conv)
  have c: "the_fds_config t = Inr (fds_area s)" if "fs_same s t" "fds_cfg t = fds_cfg s" for t
    using that(2) assms(1) fs_same_fields(5) [OF that(1)] by (simp add: the_fds_config_def load_at_def fds_area_def area_ok_def)
  have a: "p_start_addr (fds_area s) + of_nat (4 * (k * FDS_PAGE_SIZE s)) = vpage_at s k" for k by (simp only: vpage_at_def)
  have "2 * FDS_PAGE_SIZE s < 2 ^ 16" using assms(1) by (simp add: area_ok_def)
  then have n: "unat (of_nat (vpage_used s 2) :: u16) = vpage_used s 2" by (intro unat_u16_nat) (use assms(9) in linarith)
  have "hd (vpage_recs s 2) \<in> set (vpage_recs s 2)" using assms(8) by simp
  then have "vpage_used s 2 \<noteq> 2" using rec_len_bounds(1) [of "fds_mem s" "hd (vpage_recs s 2)"] by (auto simp: vpage_used_def)
  then have u: "(of_nat (vpage_used s 2) :: u16) \<noteq> of_nat FDS_PAGE_TAG_SIZE" using n by (auto simp: FDS_PAGE_TAG_SIZE_def)
  let ?s1 = "s\<lparr>m_pages := [surveyed s 0 x, y], m_latest_rec_id := vpage_latest s 0 (m_latest_rec_id s)\<rparr>"
  have 0: "page_init 0 (NO_PAGES, 0, False, s) = Inr (PAGE_DATA, 1, False, ?s1)"
  proof -
    have "page_scan (vpage_at s 0) (s\<lparr>m_pages := [x\<lparr>page_type := FDS_PAGE_DATA, p_addr := vpage_at s 0\<rparr>, y]\<rparr>) = Inr (of_nat (vpage_used s 0), vpage_dirty s 0,
        s\<lparr>m_pages := [x\<lparr>page_type := FDS_PAGE_DATA, p_addr := vpage_at s 0\<rparr>, y], m_latest_rec_id := vpage_latest s 0 (m_latest_rec_id s)\<rparr>)"
      using page_scan_ok [OF assms(1), of 0 "s\<lparr>m_pages := [x\<lparr>page_type := FDS_PAGE_DATA, p_addr := vpage_at s 0\<rparr>, y]\<rparr>"]
      by (simp add: FDS_VIRTUAL_PAGES_def FDS_PAGE_SIZE_def)
    then show ?thesis
      unfolding page_init_def prod.case c [OF fs_same_refl refl] then_do_simps Let_def a assms(4)
      by (simp add: upd_page_def load_at_def pg surveyed_def NO_PAGES_def)
  qed
  let ?s2 = "?s1\<lparr>m_swap_page := \<lparr>sw_p_addr = vpage_at s 1, sw_write_offset = 2\<rparr>\<rparr>"
  have e: "page_identify p ?s1 = page_identify p s" "page_is_erased p ?s1 = page_is_erased p s" "FDS_PAGE_SIZE ?s1 = FDS_PAGE_SIZE s"
    "page_identify p ?s2 = page_identify p s" "FDS_PAGE_SIZE ?s2 = FDS_PAGE_SIZE s" for p
    by (simp_all add: page_identify_def page_is_erased_def FDS_PAGE_SIZE_def)
  have c1: "the_fds_config ?s1 = Inr (fds_area s)" "the_fds_config ?s2 = Inr (fds_area s)" by (rule c; simp)+
  have 1: "page_init 1 (PAGE_DATA, 1, False, ?s1) = Inr (PAGE_DATA OR PAGE_ERASED, 1, True, ?s2)"
    unfolding page_init_def prod.case c1 then_do_simps Let_def e a assms(5)
    using assms(3,6) by (simp add: FDS_PAGE_TAG_SIZE_def)
  let ?y = "y\<lparr>page_type := FDS_PAGE_ERASED, p_addr := vpage_at s 1, write_offset := 2\<rparr>"
  let ?s3 = "?s2\<lparr>m_pages := [surveyed s 0 x, ?y]\<rparr>"
  have sc: "page_scan (vpage_at s 2) ?s3 = Inr (of_nat (vpage_used s 2), vpage_dirty s 2, ?s3\<lparr>m_latest_rec_id := vpage_latest s 2 (m_latest_rec_id ?s3)\<rparr>)"
    by (rule page_scan_ok [OF assms(1)]) (use assms(2) in \<open>simp_all add: FDS_VIRTUAL_PAGES_def FDS_MAX_PAGES_def FDS_PAGE_SIZE_def\<close>)
  have 2: "page_init 2 (PAGE_DATA OR PAGE_ERASED, 1, True, ?s2) = Inr (PAGE_DATA OR PAGE_ERASED OR SWAP_DIRTY, 2, True,
      ?s3\<lparr>m_latest_rec_id := vpage_latest s 2 (m_latest_rec_id ?s3), m_swap_page := \<lparr>sw_p_addr = vpage_at s 2, sw_write_offset = of_nat (vpage_used s 2)\<rparr>\<rparr>)"
    unfolding page_init_def prod.case c1 then_do_simps Let_def e a assms(7)
    using sc u by (simp add: upd_page_def load_at_def FDS_PAGE_TAG_SIZE_def or.assoc)
  have "[0..<FDS_VIRTUAL_PAGES s] = [0, 1, 2]" using assms(2) by (simp add: FDS_VIRTUAL_PAGES_def FDS_MAX_PAGES_def upt_rec)
  then show ?thesis
    unfolding pages_init_def by (simp only: for_each.simps 0 1 2 then_do_simps prod.case ok_Inr) (simp add: fds_init_opts surveyed_def)
qed

text \<open>
  C40. An interrupted garbage collection can lose data. On three pages that a reset finds in the order data, erased, swap, the swap page with copied records (and with the index of
  the garbage collection still 0, as after a reset), the survey enters the erased page behind the data page without recording its index, and the step that promotes the swap exchanges
  it with page 0 instead: the data page with all its records becomes the swap page, to be filled from its first word by the next collection.
\<close>

theorem fds_init_promotes_over_data:
  assumes "area_ok s" and "linked s" and "fs_quiet s" and "length (m_pages s) = 2" and "sw_p_addr (m_swap_page s) = 0" and "gc_cur_page (m_gc s) = 0"
    and "page_identify (vpage_at s 0) s = FDS_PAGE_DATA" and "page_identify (vpage_at s 1) s = FDS_PAGE_UNDEFINED"
    and "page_is_erased (vpage_at s 1) s" and "page_identify (vpage_at s 2) s = FDS_PAGE_SWAP"
    and "vpage_recs s 2 \<noteq> []" and "vpage_used s 2 \<le> FDS_PAGE_SIZE s" and "page_tag_data_addr s \<noteq> 0" and "page_tag_data_addr s AND 3 = 0"
  shows "ok (pages_init s) (\<lambda>(opts, t). opts = PROMOTE_SWAP_INST \<and> page_type (m_pages t ! 1) = FDS_PAGE_ERASED \<and>
    ok (init_promote_swap cb t) (\<lambda>(ret, u). ret = FDS_SUCCESS \<and> m_swap_page u = \<lparr>sw_p_addr = vpage_at s 0, sw_write_offset = 2\<rparr>))"
proof -
  have "ok (init_promote_swap cb t) (\<lambda>(ret, u). ret = FDS_SUCCESS \<and> m_swap_page u = \<lparr>sw_p_addr = vpage_at s 0, sw_write_offset = 2\<rparr>)"
    if t: "fs_same s t" "fds_cfg t = fds_cfg s" "page_tag_data_addr t = page_tag_data_addr s" "m_gc t = m_gc s" "sw_p_addr (m_swap_page t) = vpage_at s 2"
      "length (m_pages t) = 2" "p_addr (m_pages t ! 0) = vpage_at s 0" for t
  proof -
    have q: "fs_quiet t" "linked t" using assms(2,3) fs_same_queue(7) [OF t(1)] linked_same [OF t(1,2)] by simp_all
    have area: "fds_area t = fds_area s" using t(2) fs_same_fields(5) [OF t(1)] by (simp add: fds_area_def)
    have u: "unat (vpage_at s 2) = unat (p_start_addr (fds_area s)) + 8 * FDS_PAGE_SIZE s" "unat (vpage_at s 2) + 4 * FDS_PAGE_SIZE s \<le> unat (p_end_addr (fds_area s))"
      using unat_vpage_at [OF assms(1), of 2] assms(4) by (simp_all add: FDS_VIRTUAL_PAGES_def FDS_MAX_PAGES_def)
    have "4 dvd unat (vpage_at s 2)" "unat (vpage_at s 2) \<noteq> 0" using u(1) assms(1) by (simp_all add: area_ok_def and_3 unat_eq_0)
    then have "vpage_at s 2 AND 3 = 0" "vpage_at s 2 \<noteq> 0" by (auto simp: and_3)
    then have "store_args t (vpage_at s 2) (page_tag_data_addr t) (of_nat FDS_PAGE_TAG_SIZE)"
      using assms(1,13,14) u t(3) area by (simp add: store_args_def FDS_PAGE_TAG_SIZE_def area_ok_def word_le_nat_alt)
    from store_quiet [OF q this, of cb]
    have "ok (page_tag_write_data cb (sw_p_addr (m_swap_page t)) t) (\<lambda>(r, v). r = 0 \<and> fs_inner t v)"
      unfolding page_tag_write_data_def t(5) by (auto elim!: ok_mono)
    then obtain v where v: "page_tag_write_data cb (sw_p_addr (m_swap_page t)) t = Inr (0, v)" "fs_inner t v" by (auto simp: ok_iff)
    note f = fs_inner_fields [OF v(2)]
    have "gc_page v = 0" using t(4) assms(6) by (simp add: gc_page_def f)
    then show ?thesis
      using v(1) t(6,7) by (simp add: init_promote_swap_def Let_def load_at_def upd_page_def f FDS_SUCCESS_def FDS_PAGE_TAG_SIZE_def)
  qed
  then show ?thesis using survey_interrupted [OF assms(1,4,5,7-12)] by (auto elim!: ok_mono)
qed

end
