(* ===== verification/FdsExample.thy ===== *)
theory FdsExample
  imports FdsInit
begin

text \<open>A record of two chunks written to the sample storage, whose second page is empty; the sample storage after a reset; a flash on which \<open>fds_init\<close> goes wrong.\<close>

unbundle bit_operations_syntax

definition crc_fds :: fds where "crc_fds = (sample_fds NRF_SUCCESS)\<lparr>cfg_fds_crc := True\<rparr>"

definition sample_record :: fds_record_t where
  "sample_record = \<lparr>rec_file_id = 7, rec_key = 0x22, rec_p_chunks = [\<lparr>ch_p_data = 0x20001000, ch_length_words = 1\<rparr>,
     \<lparr>ch_p_data = 0x20002000, ch_length_words = 2\<rparr>], rec_num_chunks = 2\<rparr>"

lemma mem_words_erased: "a \<notin> fst ` set ws \<Longrightarrow> mem_words ws a = FDS_ERASED_WORD"
  by (simp add: mem_words_def map_of_eq_None_iff [THEN iffD2])

lemma all_below_2: "(\<forall>k < 2. P k) \<longleftrightarrow> P 0 \<and> P (1 :: nat)" "(\<forall>k \<in> {0..<2}. P k) \<longleftrightarrow> P 0 \<and> P (1 :: nat)"
  by (auto simp: less_2_cases_iff)

lemma sample_env_quiet: "env_quiet fds_sample_env"
  by (simp add: env_quiet_def fds_sample_env_def)

lemma crc_fds_fields [simp]:
  "m_pages crc_fds = [sample_page 0x3F800 14 True, sample_page 0x3FC00 2 False]" "fds_mem crc_fds = mem_words sample_words"
  "FDS_PAGE_SIZE crc_fds = 256" "fds_area crc_fds = fds_config" "m_flags crc_fds = FDS_FLAG_INITIALIZED"
  by (simp_all add: crc_fds_def sample_fds_simps fds_area_def)

lemma sample_page_fields [simp]:
  "p_addr (sample_page a n g) = a" "write_offset (sample_page a n g) = n" "words_reserved (sample_page a n g) = 0"
  "page_type (sample_page a n g) = FDS_PAGE_DATA"
  by (simp_all add: sample_page_def)

lemma crc_fds_recs:
  "recs_of crc_fds (sample_page 0x3F800 n g) = [0x3F808, 0x3F818, 0x3F82C]" "recs_of crc_fds (sample_page 0x3FC00 n g) = []"
  using sample_recs(1) [of NRF_SUCCESS n g] sample_recs(2) [of NRF_SUCCESS n g] by (simp_all add: recs_of_def page_end_def crc_fds_def FDS_PAGE_SIZE_def)

lemma sample_erased:
  assumes "k < 256"
  shows "14 \<le> k \<Longrightarrow> mem_words sample_words (word_at 0x3F800 k) = FDS_ERASED_WORD"
    "2 \<le> k \<Longrightarrow> mem_words sample_words (word_at 0x3FC00 k) = FDS_ERASED_WORD"
proof -
  have u: "unat (word_at 0x3F800 k) = 0x3F800 + 4 * k" "unat (word_at 0x3FC00 k) = 0x3FC00 + 4 * k"
    using assms unat_word_at [of "0x3F800" 256 k] unat_word_at [of "0x3FC00" 256 k] by (simp_all add: fits_def)
  show "14 \<le> k \<Longrightarrow> mem_words sample_words (word_at 0x3F800 k) = FDS_ERASED_WORD"
    by (rule mem_words_erased) (use u(1) assms in \<open>simp add: sample_words_def word_unat_eq_iff\<close>)
  show "2 \<le> k \<Longrightarrow> mem_words sample_words (word_at 0x3FC00 k) = FDS_ERASED_WORD"
    by (rule mem_words_erased) (use u(2) assms in \<open>simp add: sample_words_def word_unat_eq_iff\<close>)
qed

lemma crc_fds_pages: "page_ok crc_fds (sample_page 0x3F800 14 True)" "page_ok crc_fds (sample_page 0x3FC00 2 False)"
  using sample_erased
  by (simp_all add: page_ok_def page_low_def crc_fds_recs fds_config_def rec_len_def sample_headers FDS_HEADER_SIZE_def FDS_PAGE_TAG_SIZE_def)

lemma crc_fds_ready: "fds_ready crc_fds"
proof -
  have l: "linked crc_fds" by (simp add: linked_def) (simp add: crc_fds_def sample_fds_def fds_config_def has_flag_def FS_FLAG_INITIALIZED_def)
  have q: "fs_quiet crc_fds"
    by (simp add: fs_quiet_def fs_ring_def has_flag_def sd_willing_def crc_fds_def sample_fds_def fs_flag_defs)
  have h: "headers_apart crc_fds" by (simp add: headers_apart_def crc_fds_def sample_fds_def fits_def all_below_2)
  have "op_ring (m_op_queue crc_fds)" "oq_count (m_op_queue crc_fds) = 0" "chunk_ring (m_chunk_queue crc_fds)" "cq_count (m_chunk_queue crc_fds) = 0"
    by (simp_all add: op_ring_def chunk_ring_def crc_fds_def sample_fds_def)
  moreover have "pages_apart crc_fds" by (simp add: pages_apart_def less_Suc_eq all_conj_distrib)
  ultimately show ?thesis
    using l q h crc_fds_pages by (simp add: fds_ready_def flag_is_set_def FDS_FLAG_INITIALIZED_def FDS_FLAG_PROCESSING_def)
qed

lemma sample_chunks: "the_chunks sample_record = rec_p_chunks sample_record" "record_len sample_record = 3"
  by (simp_all add: the_chunks_def record_len_def chunk_off_def sample_record_def)

lemma sample_record_ok: "record_ok crc_fds sample_record"
proof -
  have "chunk_ok crc_fds \<lparr>ch_p_data = 0x20001000, ch_length_words = 1\<rparr>"
    by (simp add: chunk_ok_def fits_def is_word_aligned_def app_data_def static_word_None static_vars_def word_in_def word_at_def fds_config_def)
      (simp add: crc_fds_def sample_fds_def page_tag_swap_def page_tag_data_def header_words_def all_below_2)
  moreover have "chunk_ok crc_fds \<lparr>ch_p_data = 0x20002000, ch_length_words = 2\<rparr>"
    by (simp add: chunk_ok_def fits_def is_word_aligned_def app_data_def static_word_None static_vars_def word_in_def word_at_def fds_config_def
        all_below_2)
      (simp add: crc_fds_def sample_fds_def page_tag_swap_def page_tag_data_def header_words_def all_below_2)
  ultimately show ?thesis
    using sample_chunks(1)
    by (simp add: record_ok_def) (simp add: sample_record_def crc_fds_def sample_fds_def FDS_FILE_ID_INVALID_def FDS_RECORD_KEY_DIRTY_def)
qed

lemma crc_fds_room: "page_room crc_fds (record_len sample_record) 1"
  by (simp add: page_room_def sample_chunks)

theorem fds_write_found_witness:
  "ok (fds_record_write fds_sample_env (Some desc_zero) (Some sample_record) crc_fds) (\<lambda>(ret, d', s1). ret = FDS_SUCCESS \<and> d' = written_desc crc_fds (Some desc_zero) \<and>
    ok (carry_outs fds_sample_env (unat (rec_num_chunks sample_record) + 3) s1) (\<lambda>t. fds_ready t \<and> fds_evts t = fds_evts crc_fds @ [written_evt crc_fds sample_record] \<and>
      (\<exists>i p. page_room crc_fds (record_len sample_record) i \<and> record_found crc_fds sample_record i p t)))"
  by (rule fds_write_found [OF crc_fds_ready sample_env_quiet sample_record_ok crc_fds_room]) (simp add: sample_chunks)

theorem fds_write_atomic_witness:
  "ok (fds_record_write fds_sample_env None (Some sample_record) crc_fds) (\<lambda>(ret, d', s1). ret = FDS_SUCCESS \<and>
    ok (carry_outs fds_sample_env 4 s1) (\<lambda>t. \<forall>good. \<forall>k < length (m_pages crc_fds). hits good t k = hits good crc_fds k))"
  by (rule fds_write_atomic [OF crc_fds_ready sample_env_quiet sample_record_ok crc_fds_room])
    (simp add: sample_chunks, simp add: sample_record_def)

section \<open>After a reset\<close>

definition blank_page :: fds_page_t where
  "blank_page = \<lparr>page_type = FDS_PAGE_UNDEFINED, p_addr = 0, write_offset = 0, words_reserved = 0, records_open = 0, can_gc = False\<rparr>"

definition reset_fds :: "(u32 \<times> u32) list \<Rightarrow> fds" where
  "reset_fds ws = (sample_fds NRF_SUCCESS)\<lparr>m_flags := 0, m_latest_rec_id := 0, m_pages := [blank_page, blank_page],
     m_swap_page := \<lparr>sw_p_addr = 0, sw_write_offset = 0\<rparr>, fds_mem := mem_words ws\<rparr>"

lemma reset_fds_fields [simp]:
  "m_pages (reset_fds ws) = [blank_page, blank_page]" "fds_mem (reset_fds ws) = mem_words ws" "FDS_PAGE_SIZE (reset_fds ws) = 256"
  "fds_area (reset_fds ws) = fds_config" "FDS_VIRTUAL_PAGES (reset_fds ws) = 3" "m_flags (reset_fds ws) = 0" "fs_same crc_fds (reset_fds ws)"
  "fds_cfg (reset_fds ws) = 0" "sw_p_addr (m_swap_page (reset_fds ws)) = 0" "gc_cur_page (m_gc (reset_fds ws)) = 0"
  "page_tag_data_addr (reset_fds ws) = 0x208" "fds_evts (reset_fds ws) = []" "m_latest_rec_id (reset_fds ws) = 0"
  by (simp_all add: reset_fds_def sample_fds_simps fds_area_def FDS_VIRTUAL_PAGES_def FDS_MAX_PAGES_def)
    (simp_all add: crc_fds_def sample_fds_def fs_same_def fstorage.truncate_def fds_config_def)

lemma flag_set_fields [simp]:
  "m_pages (flag_set f s) = m_pages s" "fds_mem (flag_set f s) = fds_mem s" "FDS_PAGE_SIZE (flag_set f s) = FDS_PAGE_SIZE s"
  "fds_cfg (flag_set f s) = fds_cfg s" "fs_same s (flag_set f s)" "FDS_VIRTUAL_PAGES (flag_set f s) = FDS_VIRTUAL_PAGES s"
  by (simp_all add: flag_set_def FDS_PAGE_SIZE_def FDS_VIRTUAL_PAGES_def FDS_MAX_PAGES_def)

lemma flag_set_area [simp]: "fds_area (flag_set f s) = fds_area s"
  by (simp add: fds_area_def fs_same_fields(5) [of s "flag_set f s"])

lemma reset_area_ok: "area_ok (reset_fds ws)" "area_ok (flag_set f (reset_fds ws))"
proof -
  have "fs_data (reset_fds ws) = [fds_config]" "fs_data (flag_set f (reset_fds ws)) = [fds_config]"
    by (simp_all add: reset_fds_def sample_fds_def flag_set_def)
  then show "area_ok (reset_fds ws)" "area_ok (flag_set f (reset_fds ws))" by (simp_all add: area_ok_def fds_config_def)
qed

lemma reset_vpages:
  "vpage_at (reset_fds ws) 0 = 0x3F400" "vpage_at (reset_fds ws) 1 = 0x3F800" "vpage_at (reset_fds ws) (Suc 0) = 0x3F800" "vpage_at (reset_fds ws) 2 = 0x3FC00"
  "vpage_at (flag_set f (reset_fds ws)) k = vpage_at (reset_fds ws) k" "vpage_recs (flag_set f (reset_fds ws)) k = vpage_recs (reset_fds ws) k"
  "vpage_used (flag_set f (reset_fds ws)) k = vpage_used (reset_fds ws) k"
  by (simp_all add: vpage_at_def fds_config_def vpage_recs_def vpage_used_def)

lemma reset_recs:
  "vpage_recs (reset_fds sample_words) 0 = []" "vpage_recs (reset_fds sample_words) 1 = [0x3F808, 0x3F818, 0x3F82C]" "vpage_recs (reset_fds sample_words) 2 = []"
proof -
  have "mem_words sample_words 0x3F408 = FDS_ERASED_WORD" by (simp add: mem_words_def sample_words_def)
  then show "vpage_recs (reset_fds sample_words) 0 = []" by (simp add: vpage_recs_def reset_vpages page_recs.simps [of _ _ "0x3F408"])
  show "vpage_recs (reset_fds sample_words) 1 = [0x3F808, 0x3F818, 0x3F82C]" "vpage_recs (reset_fds sample_words) 2 = []"
    using crc_fds_recs by (simp_all add: vpage_recs_def reset_vpages recs_of_def page_end_def)
qed

lemma reset_installed: "installed (flag_set f (reset_fds sample_words)) 0"
proof -
  have t: "mem_words sample_words 0x3F400 = FDS_PAGE_TAG_MAGIC" "mem_words sample_words 0x3F404 = FDS_PAGE_TAG_SWAP"
    "mem_words sample_words 0x3F800 = FDS_PAGE_TAG_MAGIC" "mem_words sample_words 0x3F804 = FDS_PAGE_TAG_DATA"
    "mem_words sample_words 0x3FC00 = FDS_PAGE_TAG_MAGIC" "mem_words sample_words 0x3FC04 = FDS_PAGE_TAG_DATA"
    by (simp_all add: mem_words_def sample_words_def)
  have u: "vpage_used (reset_fds sample_words) (Suc 0) = 14" "vpage_used (reset_fds sample_words) 2 = 2"
    using reset_recs by (simp_all add: vpage_used_def rec_len_def sample_headers FDS_HEADER_SIZE_def)
  have id: "page_identify 0x3F400 (flag_set f (reset_fds sample_words)) = FDS_PAGE_SWAP"
    "page_identify 0x3F800 (flag_set f (reset_fds sample_words)) = FDS_PAGE_DATA"
    "page_identify 0x3FC00 (flag_set f (reset_fds sample_words)) = FDS_PAGE_DATA"
    by (simp_all add: page_identify_def t FDS_PAGE_TAG_WORD_0_def FDS_PAGE_TAG_WORD_1_def)
      (simp_all add: FDS_PAGE_TAG_SWAP_def FDS_PAGE_TAG_DATA_def)
  have "vpage_data (flag_set f (reset_fds sample_words)) (Suc 0)" "vpage_data (flag_set f (reset_fds sample_words)) 2"
    using sample_erased by (simp_all add: vpage_data_def reset_vpages id u)
  then show ?thesis
    using reset_area_ok(2) id(1) reset_recs(1)
    by (auto simp: installed_def reset_vpages less_Suc_eq numeral_3_eq_3 numeral_2_eq_2)
qed

lemma reset_fresh: "fds_fresh (flag_set FDS_FLAG_INITIALIZING (reset_fds ws))"
proof -
  let ?s = "flag_set FDS_FLAG_INITIALIZING (reset_fds ws)"
  have same: "fs_same crc_fds ?s" using fs_same_trans [of crc_fds "reset_fds ws" ?s] by simp
  have r: "linked crc_fds" "fs_quiet crc_fds" "headers_apart crc_fds" "fds_cfg crc_fds = 0" using crc_fds_ready by (simp_all add: fds_ready_def crc_fds_def sample_fds_def)
  have q: "m_op_queue ?s = m_op_queue crc_fds" "m_chunk_queue ?s = m_chunk_queue crc_fds" "op_header_addr ?s = op_header_addr crc_fds"
    by (simp_all add: flag_set_def reset_fds_def crc_fds_def)
  have "linked ?s" "fs_quiet ?s" using r linked_same [OF same] fs_same_queue(7) [OF same] by simp_all
  moreover have "headers_apart ?s" using r(3) by (simp add: headers_apart_def q)
  moreover have "\<not> flag_is_set FDS_FLAG_PROCESSING ?s" by (simp add: flag_is_set_def flag_set_def FDS_FLAG_PROCESSING_def FDS_FLAG_INITIALIZING_def)
  ultimately show ?thesis using crc_fds_ready by (simp add: fds_fresh_def fds_ready_def q blank_page_def)
qed

lemma reset_fs_init: "fs_init (flag_set f (reset_fds ws)) = Inr (FS_SUCCESS, flag_set f (reset_fds ws))"
  by (simp add: fs_init_def) (simp add: flag_set_def reset_fds_def sample_fds_def has_flag_def FS_FLAG_INITIALIZED_def)

theorem fds_init_finds_records_witness:
  "let s = reset_fds sample_words; s0 = flag_set FDS_FLAG_INITIALIZING s in
   ok (fds_init fds_sample_env s) (\<lambda>(ret, t). ret = FDS_SUCCESS \<and> fds_ready t \<and> fds_evts t = fds_evts s @ [evt_success] \<and>
    (\<forall>good. \<forall>k < length (m_pages s0). hits good t k = filter (hit good s0) (vpage_recs s0 (slot_page 0 k))) \<and>
    (\<forall>k < FDS_VIRTUAL_PAGES s0. \<forall>q \<in> set (vpage_recs s0 k). valid_rec (fds_mem s0) q \<longrightarrow> record_id (header_at (fds_mem s0) q) \<le> m_latest_rec_id t))"
  unfolding Let_def
  by (rule fds_init_finds_records [OF sample_env_quiet _ _ reset_fs_init reset_fresh reset_installed]) (simp_all add: flag_is_set_def)

text \<open>A collection of page 1 into page 2 was interrupted after the erasure.\<close>

definition interrupted_words :: "(u32 \<times> u32) list" where
  "interrupted_words = [(0x3F400, FDS_PAGE_TAG_MAGIC), (0x3F404, FDS_PAGE_TAG_DATA), (0x3F408, 0x00010011), (0x3F40C, 0x12340005), (0x3F410, 1), (0x3F414, 0xCAFE),
     (0x3FC00, FDS_PAGE_TAG_MAGIC), (0x3FC04, FDS_PAGE_TAG_SWAP), (0x3FC08, 0x00000012), (0x3FC0C, 5), (0x3FC10, 2)]"

lemma interrupted_flash:
  "page_identify 0x3F400 (reset_fds interrupted_words) = FDS_PAGE_DATA" "page_identify 0x3F800 (reset_fds interrupted_words) = FDS_PAGE_UNDEFINED"
  "page_identify 0x3FC00 (reset_fds interrupted_words) = FDS_PAGE_SWAP"
  by (simp_all add: page_identify_def mem_words_def interrupted_words_def FDS_PAGE_TAG_WORD_0_def FDS_PAGE_TAG_WORD_1_def FDS_PAGE_TAG_SWAP_def FDS_PAGE_TAG_DATA_def
      FDS_PAGE_TAG_MAGIC_def FDS_ERASED_WORD_def)

lemma interrupted_erased: "page_is_erased 0x3F800 (reset_fds interrupted_words)"
proof -
  have "mem_words interrupted_words (word_at 0x3F800 k) = FDS_ERASED_WORD" if k: "k < 256" for k
  proof (rule mem_words_erased)
    have "unat (word_at 0x3F800 k) = 0x3F800 + 4 * k" using k unat_word_at [of "0x3F800" 256 k] by (simp add: fits_def)
    then show "word_at 0x3F800 k \<notin> fst ` set interrupted_words" using k by (simp add: interrupted_words_def word_unat_eq_iff)
  qed
  then show ?thesis by (simp add: page_is_erased_def list_all_iff word_at_def)
qed

lemma interrupted_recs: "vpage_recs (reset_fds interrupted_words) 2 = [0x3FC08]" "vpage_used (reset_fds interrupted_words) 2 = 5"
proof -
  have l: "low 0x40000" by (simp add: low_def)
  have m: "mem_words interrupted_words 0x3FC08 = 0x00000012" "mem_words interrupted_words 0x3FC14 = FDS_ERASED_WORD"
    by (simp_all add: mem_words_def interrupted_words_def)
  have t: "tl_of_word 0x00000012 = \<lparr>record_key = 18, tl_length_words = 0\<rparr>" by (simp add: tl_of_word_def)
  have n: "rec_len (mem_words interrupted_words) 0x3FC08 = 3" "next_rec (mem_words interrupted_words) 0x3FC08 = 0x3FC14"
    by (simp_all add: next_rec_def rec_len_def header_at_def m t FDS_HEADER_SIZE_def)
  show r: "vpage_recs (reset_fds interrupted_words) 2 = [0x3FC08]"
    by (simp add: vpage_recs_def reset_vpages page_recs.simps [of _ "0x40000"] l m n FDS_ERASED_WORD_def)
  show "vpage_used (reset_fds interrupted_words) 2 = 5" by (simp add: vpage_used_def r n)
qed

theorem fds_init_promotes_over_data_witness:
  "ok (pages_init (reset_fds interrupted_words)) (\<lambda>(opts, t). opts = PROMOTE_SWAP_INST \<and> page_type (m_pages t ! 1) = FDS_PAGE_ERASED \<and>
    ok (init_promote_swap (\<lambda>_ _ _ s. Inr s) t) (\<lambda>(ret, u). ret = FDS_SUCCESS \<and>
      m_swap_page u = \<lparr>sw_p_addr = vpage_at (reset_fds interrupted_words) 0, sw_write_offset = 2\<rparr>))"
proof -
  let ?s = "reset_fds interrupted_words"
  have "linked ?s" "fs_quiet ?s"
    using crc_fds_ready linked_same [of crc_fds ?s] fs_same_queue(7) [of crc_fds ?s] by (simp_all add: fds_ready_def) (simp add: crc_fds_def sample_fds_def)
  from fds_init_promotes_over_data [OF reset_area_ok(1) this]
  show ?thesis using interrupted_flash interrupted_erased interrupted_recs by (simp add: reset_vpages)
qed

end
