(* ===== verification/MemManager.thy ===== *)
theory MemManager
  imports LibCommon
begin

text \<open>
  The memory manager components/libraries/mem_manager/mem_manager.c: static memory cut into blocks of seven size categories,
  with a bitmap of the free ones. The configuration is the count and the size of each category, from sdk_config.h; \<open>None\<close> is a
  category whose macros are not defined. A pointer into \<open>m_memory\<close> is its offset, \<open>NULL\<close> is \<open>None\<close>. Parameter checks are on (the default), diagnostics off; every error
  code carries \<open>MEMORY_MANAGER_ERR_BASE\<close>, which is left out.
\<close>

unbundle bit_operations_syntax

section \<open>Configuration\<close>

type_synonym mm_config = "(nat \<times> nat) option list"

definition BLOCK_CAT_COUNT :: nat where "BLOCK_CAT_COUNT = 7"

definition BLOCK_COUNT :: "mm_config \<Rightarrow> nat \<Rightarrow> nat" where
  "BLOCK_COUNT c i = (case c ! i of None \<Rightarrow> 0 | Some (n, z) \<Rightarrow> n)"

definition BLOCK_SIZE :: "mm_config \<Rightarrow> nat \<Rightarrow> nat" where
  "BLOCK_SIZE c i = (case c ! i of None \<Rightarrow> 0 | Some (n, z) \<Rightarrow> z)"

text \<open>Of an undefined category the start, the end and the start in memory are set to 0.\<close>

fun BLOCK_START :: "mm_config \<Rightarrow> nat \<Rightarrow> nat" where
  "BLOCK_START c 0 = 0"
| "BLOCK_START c (Suc i) = (if c ! Suc i = None then 0 else BLOCK_START c i + BLOCK_COUNT c i)"

definition BLOCK_END :: "mm_config \<Rightarrow> nat \<Rightarrow> nat" where
  "BLOCK_END c i = (if c ! i = None then 0 else BLOCK_START c i + BLOCK_COUNT c i)"

definition MEMORY_SIZE :: "mm_config \<Rightarrow> nat \<Rightarrow> nat" where
  "MEMORY_SIZE c i = BLOCK_COUNT c i * BLOCK_SIZE c i"

fun MEMORY_START :: "mm_config \<Rightarrow> nat \<Rightarrow> nat" where
  "MEMORY_START c 0 = 0"
| "MEMORY_START c (Suc i) = (if c ! Suc i = None then 0 else MEMORY_START c i + MEMORY_SIZE c i)"

text \<open>With no block at all the file does not compile.\<close>

definition MAX_MEM_SIZE :: "mm_config \<Rightarrow> nat" where
  "MAX_MEM_SIZE c = (case find (\<lambda>i. BLOCK_COUNT c i \<noteq> 0) (rev [0..<BLOCK_CAT_COUNT]) of Some i \<Rightarrow> BLOCK_SIZE c i | None \<Rightarrow> 0)"

text \<open>The last summand is the count of XLARGE again, as in the source.\<close>

definition TOTAL_BLOCK_COUNT :: "mm_config \<Rightarrow> nat" where
  "TOTAL_BLOCK_COUNT c =
     BLOCK_COUNT c 0 + BLOCK_COUNT c 1 + BLOCK_COUNT c 2 + BLOCK_COUNT c 3 + BLOCK_COUNT c 4 + BLOCK_COUNT c 5 + BLOCK_COUNT c 5"

definition TOTAL_MEMORY_SIZE :: "mm_config \<Rightarrow> nat" where
  "TOTAL_MEMORY_SIZE c =
     MEMORY_SIZE c 0 + MEMORY_SIZE c 1 + MEMORY_SIZE c 2 + MEMORY_SIZE c 3 + MEMORY_SIZE c 4 + MEMORY_SIZE c 5 + MEMORY_SIZE c 6"

definition BITMAP_SIZE :: nat where "BITMAP_SIZE = 32"

definition BLOCK_BITMAP_ARRAY_SIZE :: "mm_config \<Rightarrow> nat" where
  "BLOCK_BITMAP_ARRAY_SIZE c = (TOTAL_BLOCK_COUNT c + BITMAP_SIZE - 1) div BITMAP_SIZE"

definition m_block_size :: "mm_config \<Rightarrow> nat \<Rightarrow> u32" where "m_block_size c i = of_nat (BLOCK_SIZE c i)"
definition m_block_start :: "mm_config \<Rightarrow> nat \<Rightarrow> u32" where "m_block_start c i = of_nat (BLOCK_START c i)"
definition m_block_end :: "mm_config \<Rightarrow> nat \<Rightarrow> u32" where "m_block_end c i = of_nat (BLOCK_END c i)"
definition m_block_mem_start :: "mm_config \<Rightarrow> nat \<Rightarrow> u32" where "m_block_mem_start c i = of_nat (MEMORY_START c i)"

section \<open>State\<close>

record mem_manager =
  mm_cfg :: mm_config
  m_memory :: "u8 list"
  m_mem_pool :: "u32 list"
  m_module_initialized :: bool

definition mem_manager_start :: "mm_config \<Rightarrow> mem_manager" where
  "mem_manager_start c =
     \<lparr>mm_cfg = c, m_memory = replicate (TOTAL_MEMORY_SIZE c) 0, m_mem_pool = replicate (BLOCK_BITMAP_ARRAY_SIZE c) 0,
      m_module_initialized = False\<rparr>"

section \<open>Blocks\<close>

definition get_block_coordinates :: "u32 \<Rightarrow> u32 \<times> u32" where
  "get_block_coordinates block_index =
     (let x = block_index div of_nat BITMAP_SIZE in (x, block_index - x * of_nat BITMAP_SIZE))"

definition block_init :: "u32 \<Rightarrow> mem_manager \<Rightarrow> mem_manager result" where
  "block_init block_index s =
     (case get_block_coordinates block_index of (x, y) \<Rightarrow>
      then_do (load_at (m_mem_pool s) (unat x)) (\<lambda>w.
      then_do (store_at (m_mem_pool s) (unat x) (w OR push_bit (unat y) 1)) (\<lambda>pool.
      Inr (s\<lparr>m_mem_pool := pool\<rparr>))))"

definition get_block_cat :: "mm_config \<Rightarrow> u32 \<Rightarrow> u32 \<Rightarrow> nat" where
  "get_block_cat c req block_index =
     (case find (\<lambda>i. req \<noteq> 0 \<and> req \<le> m_block_size c i \<and> m_block_end c i \<noteq> m_block_start c i \<or> block_index < m_block_end c i)
        [0..<BLOCK_CAT_COUNT] of Some i \<Rightarrow> i | None \<Rightarrow> 0)"

definition get_block_size :: "mm_config \<Rightarrow> u32 \<Rightarrow> u32" where
  "get_block_size c block_index = m_block_size c (get_block_cat c 0 block_index)"

definition is_block_free :: "u32 \<Rightarrow> mem_manager \<Rightarrow> bool result" where
  "is_block_free block_index s =
     (case get_block_coordinates block_index of (x, y) \<Rightarrow>
      then_do (load_at (m_mem_pool s) (unat x)) (\<lambda>w. Inr (drop_bit (unat y) w AND 1 \<noteq> 0)))"

definition block_allocate :: "u32 \<Rightarrow> mem_manager \<Rightarrow> mem_manager result" where
  "block_allocate block_index s =
     (case get_block_coordinates block_index of (x, y) \<Rightarrow>
      then_do (load_at (m_mem_pool s) (unat x)) (\<lambda>w.
      then_do (store_at (m_mem_pool s) (unat x) (w AND NOT (push_bit (unat y) 1))) (\<lambda>pool.
      Inr (s\<lparr>m_mem_pool := pool\<rparr>))))"

section \<open>Interface\<close>

definition nrf_mem_init :: "mem_manager \<Rightarrow> (ret_code \<times> mem_manager) result" where
  "nrf_mem_init s =
     then_do (for_each (\<lambda>i. block_init (of_nat i)) [0..<TOTAL_BLOCK_COUNT (mm_cfg s)] s) (\<lambda>s1.
     Inr (NRF_SUCCESS, s1\<lparr>m_module_initialized := True\<rparr>))"

text \<open>The loop of \<open>nrf_mem_reserve\<close> over the block indices; it gives \<open>*pp_buffer\<close> and \<open>*p_size\<close> if it finds a block.\<close>

fun reserve_loop :: "nat list \<Rightarrow> u32 \<Rightarrow> mem_manager \<Rightarrow> ((u32 \<times> u32) option \<times> mem_manager) result" where
  "reserve_loop [] memory_index s = Inr (None, s)"
| "reserve_loop (b # bs) memory_index s =
     (let block_size = get_block_size (mm_cfg s) (of_nat b) in
      then_do (is_block_free (of_nat b) s) (\<lambda>free.
      if free then then_do (block_allocate (of_nat b) s) (\<lambda>s1. Inr (Some (memory_index, block_size), s1))
      else reserve_loop bs (memory_index + block_size) s))"

text \<open>
  \<open>pp_buffer\<close> and \<open>p_size\<close> are what the arguments point to, or \<open>None\<close> if they are \<open>NULL\<close>; the result has what they point to afterwards.
\<close>

definition nrf_mem_reserve ::
  "u32 option option \<Rightarrow> u32 option \<Rightarrow> mem_manager \<Rightarrow> (ret_code \<times> u32 option option \<times> u32 option \<times> mem_manager) result" where
  "nrf_mem_reserve pp_buffer p_size s =
     (if \<not> m_module_initialized s then Inr (NRF_ERROR_INVALID_STATE, pp_buffer, p_size, s)
      else if pp_buffer = None then Inr (NRF_ERROR_NULL, pp_buffer, p_size, s)
      else
        case p_size of
          None \<Rightarrow> Inr (NRF_ERROR_NULL, pp_buffer, p_size, s)
        | Some requested_size \<Rightarrow>
            if requested_size = 0 \<or> requested_size > of_nat (MAX_MEM_SIZE (mm_cfg s))
            then Inr (NRF_ERROR_INVALID_PARAM, pp_buffer, p_size, s)
            else
              let c = mm_cfg s;
                  block_cat = get_block_cat c requested_size (of_nat (TOTAL_BLOCK_COUNT c))
              in then_do (reserve_loop [unat (m_block_start c block_cat)..<TOTAL_BLOCK_COUNT c] (m_block_mem_start c block_cat) s)
                   (\<lambda>(found, s1).
                    case found of
                      None \<Rightarrow> Inr (NRF_ERROR_NO_MEM, pp_buffer, p_size, s1)
                    | Some (memory_index, block_size) \<Rightarrow> Inr (NRF_SUCCESS, Some (Some memory_index), Some block_size, s1)))"

definition nrf_malloc :: "u32 \<Rightarrow> mem_manager \<Rightarrow> (u32 option \<times> mem_manager) result" where
  "nrf_malloc req s =
     then_do (nrf_mem_reserve (Some None) (Some req) s) (\<lambda>(retval, buffer, allocated_size, s1).
     Inr (if retval \<noteq> NRF_SUCCESS then None else the buffer, s1))"

text \<open>\<open>memset(buffer, 0, n)\<close> with \<open>buffer\<close> pointing into \<open>m_memory\<close>.\<close>

definition clear_memory :: "u32 \<Rightarrow> u32 \<Rightarrow> mem_manager \<Rightarrow> mem_manager result" where
  "clear_memory buffer n s =
     then_do (memcpy (m_memory s) (unat buffer) (replicate (unat n) 0) 0 (unat n)) (\<lambda>mem. Inr (s\<lparr>m_memory := mem\<rparr>))"

definition nrf_calloc :: "u32 \<Rightarrow> u32 \<Rightarrow> mem_manager \<Rightarrow> (u32 option \<times> mem_manager) result" where
  "nrf_calloc count req s =
     then_do (nrf_mem_reserve (Some None) (Some (req * count)) s) (\<lambda>(retval, buffer, allocated_size, s1).
     if retval = NRF_SUCCESS
     then
       case the buffer of
         None \<Rightarrow> Inl Null_Deref
       | Some p \<Rightarrow> then_do (clear_memory p (the allocated_size) s1) (\<lambda>s2. Inr (Some p, s2))
     else Inr (None, s1))"

text \<open>The loop of \<open>nrf_free\<close>.\<close>

fun free_loop :: "nat list \<Rightarrow> u32 \<Rightarrow> u32 \<Rightarrow> mem_manager \<Rightarrow> mem_manager result" where
  "free_loop [] memory_index p s = Inr s"
| "free_loop (b # bs) memory_index p s =
     (if memory_index = p then block_init (of_nat b) s
      else free_loop bs (memory_index + get_block_size (mm_cfg s) (of_nat b)) p s)"

definition nrf_free :: "u32 option \<Rightarrow> mem_manager \<Rightarrow> mem_manager result" where
  "nrf_free p_mem s =
     (if \<not> m_module_initialized s then Inr s
      else case p_mem of None \<Rightarrow> Inr s | Some p \<Rightarrow> free_loop [0..<TOTAL_BLOCK_COUNT (mm_cfg s)] 0 p s)"

definition nrf_realloc :: "u32 option \<Rightarrow> u32 \<Rightarrow> u32 option" where
  "nrf_realloc p_mem req = p_mem"

section \<open>Blocks as a list\<close>

text \<open>The sizes of all blocks in their order, and the offset of a block.\<close>

definition blocks_of :: "(nat \<times> nat) list \<Rightarrow> nat list" where
  "blocks_of ps = concat (map (\<lambda>(n, z). replicate n z) ps)"

definition blocks :: "mm_config \<Rightarrow> nat list" where "blocks c = blocks_of (map the c)"

definition block_addr :: "mm_config \<Rightarrow> nat \<Rightarrow> nat" where "block_addr c k = sum_list (take k (blocks c))"

definition mm_config_ok :: "mm_config \<Rightarrow> bool" where
  "mm_config_ok c \<longleftrightarrow>
     length c = 7 \<and> None \<notin> set c \<and> BLOCK_COUNT c 6 = BLOCK_COUNT c 5 \<and>
     sorted (blocks c) \<and> blocks c \<noteq> [] \<and> hd (blocks c) \<noteq> 0 \<and> sum_list (blocks c) < 2 ^ 32"

lemma blocks_of_simps [simp]:
  "blocks_of [] = []"
  "blocks_of ((n, z) # ps) = replicate n z @ blocks_of ps"
  "blocks_of (ps @ qs) = blocks_of ps @ blocks_of qs"
  by (simp_all add: blocks_of_def)

lemma blocks_split:
  assumes "i < length ps"
  shows "blocks_of ps = blocks_of (take i ps) @ replicate (fst (ps ! i)) (snd (ps ! i)) @ blocks_of (drop (Suc i) ps)"
  by (subst id_take_nth_drop [OF assms]) (cases "ps ! i", simp)

lemma blocks_take_Suc:
  "i < length ps \<Longrightarrow> blocks_of (take (Suc i) ps) = blocks_of (take i ps) @ replicate (fst (ps ! i)) (snd (ps ! i))"
  by (cases "ps ! i") (simp add: take_Suc_conv_app_nth)

lemma config_entry:
  assumes "None \<notin> set c" and "i < length c"
  shows "c ! i \<noteq> None" "BLOCK_COUNT c i = fst (map the c ! i)" "BLOCK_SIZE c i = snd (map the c ! i)"
proof -
  show "c ! i \<noteq> None" using assms by (metis nth_mem)
  then show "BLOCK_COUNT c i = fst (map the c ! i)" "BLOCK_SIZE c i = snd (map the c ! i)"
    using assms(2) by (auto simp: BLOCK_COUNT_def BLOCK_SIZE_def)
qed

lemma starts:
  assumes "None \<notin> set c" and "i < length c"
  shows "BLOCK_START c i = length (blocks_of (take i (map the c)))"
    and "MEMORY_START c i = sum_list (blocks_of (take i (map the c)))"
  using assms(2)
proof (induction i)
  case (Suc i)
  {
    case 1
    then show ?case using Suc(1) config_entry [OF assms(1), of "Suc i"] config_entry [OF assms(1), of i] by (auto simp: blocks_take_Suc)
  next
    case 2
    then show ?case
      using Suc(2) config_entry [OF assms(1), of "Suc i"] config_entry [OF assms(1), of i]
      by (auto simp: blocks_take_Suc MEMORY_SIZE_def sum_list_replicate)
  }
qed simp_all

lemma ends:
  assumes "None \<notin> set c" and "i < length c"
  shows "BLOCK_END c i = length (blocks_of (take (Suc i) (map the c)))"
  using config_entry [OF assms] assms(2) by (auto simp: BLOCK_END_def starts [OF assms] blocks_take_Suc)

lemma upt_7: "[0..<7] = [0, 1, 2, 3, 4, 5, 6 :: nat]"
  by (simp add: upt_rec)

lemma totals:
  assumes "mm_config_ok c"
  shows "TOTAL_BLOCK_COUNT c = length (blocks c)" "TOTAL_MEMORY_SIZE c = sum_list (blocks c)"
proof -
  have "length c = 7" and n: "None \<notin> set c" and x: "BLOCK_COUNT c 6 = BLOCK_COUNT c 5" using assms by (simp_all add: mm_config_ok_def)
  then have m: "map the c = map (\<lambda>i. (BLOCK_COUNT c i, BLOCK_SIZE c i)) [0, 1, 2, 3, 4, 5, 6]"
    using config_entry(2,3) [OF n] unfolding upt_7 [symmetric] by (intro nth_equalityI) (simp_all add: prod_eq_iff)
  show "TOTAL_BLOCK_COUNT c = length (blocks c)"
    using x unfolding blocks_def m TOTAL_BLOCK_COUNT_def by simp
  show "TOTAL_MEMORY_SIZE c = sum_list (blocks c)"
    unfolding blocks_def m TOTAL_MEMORY_SIZE_def by (simp add: MEMORY_SIZE_def sum_list_replicate)
qed

end
