(* ===== verification/MemBlocks.thy ===== *)
theory MemBlocks
  imports MemManager
begin

text \<open>
  The tables of the memory manager and its bitmap, read as the list of blocks: for a configuration with every category defined (\<open>mm_config_ok\<close>)
  the lookup of a block's size, of the category of a size, and of a bit give what the list says.
\<close>

unbundle bit_operations_syntax

section \<open>Sizes\<close>

lemma sizes_pos:
  assumes "mm_config_ok c" and "z \<in> set (blocks c)"
  shows "0 < z"
proof -
  have "hd (blocks c) \<le> z"
    using assms by (cases "blocks c") (auto simp: mm_config_ok_def)
  then show ?thesis using assms by (simp add: mm_config_ok_def)
qed

lemma sum_list_pos_length: "(\<And>z. z \<in> set zs \<Longrightarrow> 0 < z) \<Longrightarrow> length zs \<le> sum_list (zs :: nat list)"
proof (induction zs)
  case (Cons z zs)
  then have "length zs \<le> sum_list zs" "0 < z" by simp_all
  then show ?case by simp
qed simp

lemma blocks_bounds:
  assumes "mm_config_ok c"
  shows "length (blocks c) < 2 ^ 32" "z \<in> set (blocks c) \<Longrightarrow> z < 2 ^ 32"
  using sum_list_pos_length [of "blocks c"] sizes_pos [OF assms] assms member_le_sum_list [of z "blocks c"]
  by (auto simp: mm_config_ok_def)

lemma of_nat_u32_order:
  assumes "m < 2 ^ 32" and "n < 2 ^ 32"
  shows "(of_nat m :: u32) < of_nat n \<longleftrightarrow> m < n" "(of_nat m :: u32) \<le> of_nat n \<longleftrightarrow> m \<le> n" "(of_nat m :: u32) = of_nat n \<longleftrightarrow> m = n"
  using unat_of_nat_u32 [OF assms(1)] unat_of_nat_u32 [OF assms(2)]
  by (simp_all add: word_less_nat_alt word_le_nat_alt) metis

text \<open>Category \<open>i\<close> is the part of the list from its start to its end.\<close>

lemma category_bounds:
  assumes "mm_config_ok c" and "i < 7"
  shows "BLOCK_END c i = BLOCK_START c i + BLOCK_COUNT c i" "BLOCK_END c i \<le> length (blocks c)"
    "Suc i < 7 \<Longrightarrow> BLOCK_START c (Suc i) = BLOCK_END c i" "BLOCK_END c 6 = length (blocks c)"
proof -
  have n: "None \<notin> set c" and l: "length c = 7" using assms by (simp_all add: mm_config_ok_def)
  show "BLOCK_END c i = BLOCK_START c i + BLOCK_COUNT c i"
    using config_entry(1) [OF n, of i] assms(2) l by (auto simp: BLOCK_END_def)
  have "blocks_of (map the c) = blocks_of (take (Suc i) (map the c)) @ blocks_of (drop (Suc i) (map the c))"
    by (metis append_take_drop_id blocks_of_simps(3))
  then show "BLOCK_END c i \<le> length (blocks c)"
    using ends [OF n, of i] assms(2) l by (simp add: blocks_def)
  show "BLOCK_START c (Suc i) = BLOCK_END c i" if "Suc i < 7"
    using that ends [OF n, of i] starts(1) [OF n, of "Suc i"] l by simp
  show "BLOCK_END c 6 = length (blocks c)"
    using ends [OF n, of 6] l by (simp add: blocks_def)
qed

lemma category_size:
  assumes "mm_config_ok c" and "i < 7" and "BLOCK_START c i \<le> k" and "k < BLOCK_END c i"
  shows "blocks c ! k = BLOCK_SIZE c i"
proof -
  have n: "None \<notin> set c" and l: "i < length c" using assms by (simp_all add: mm_config_ok_def)
  have "blocks c = blocks_of (take i (map the c)) @ replicate (BLOCK_COUNT c i) (BLOCK_SIZE c i) @ blocks_of (drop (Suc i) (map the c))"
    unfolding blocks_def using blocks_split [of i "map the c"] config_entry(2,3) [OF n l] l by simp
  moreover have "k - BLOCK_START c i < BLOCK_COUNT c i" using assms(3,4) category_bounds(1) [OF assms(1,2)] by linarith
  ultimately show ?thesis using assms(3) starts(1) [OF n l] by (simp add: nth_append)
qed

lemma category_of:
  assumes "mm_config_ok c" and "k < length (blocks c)"
  obtains i where "i < 7" and "BLOCK_START c i \<le> k" and "k < BLOCK_END c i" and "\<forall>j < i. BLOCK_END c j \<le> k"
proof -
  let ?P = "\<lambda>i. k < BLOCK_END c i"
  have "?P 6" using assms category_bounds(4) [of c 0] by simp
  then have l: "?P (LEAST i. ?P i)" and le: "(LEAST i. ?P i) \<le> 6" by (rule LeastI, rule Least_le)
  have b: "BLOCK_END c j \<le> k" if "j < (LEAST i. ?P i)" for j
    using not_less_Least [OF that] by simp
  have "BLOCK_START c (LEAST i. ?P i) \<le> k"
  proof (cases "LEAST i. ?P i")
    case (Suc j)
    then show ?thesis using b [of j] category_bounds(3) [OF assms(1), of j] le by simp
  qed simp
  then show thesis using that [of "LEAST i. ?P i"] l le b by simp
qed

lemma category_first:
  assumes "mm_config_ok c" and "i < 7" and "BLOCK_COUNT c i \<noteq> 0"
  shows "blocks c ! BLOCK_START c i = BLOCK_SIZE c i" "BLOCK_START c i < length (blocks c)"
  using category_size [OF assms(1,2), of "BLOCK_START c i"] category_bounds(1,2) [OF assms(1,2)] assms(3) by simp_all

lemma category_addr:
  assumes "mm_config_ok c" and "i < 7"
  shows "MEMORY_START c i = block_addr c (BLOCK_START c i)"
proof -
  have n: "None \<notin> set c" and l: "i < length c" using assms by (simp_all add: mm_config_ok_def)
  have "blocks c = blocks_of (take i (map the c)) @ blocks_of (drop i (map the c))"
    unfolding blocks_def by (metis append_take_drop_id blocks_of_simps(3))
  then have "take (BLOCK_START c i) (blocks c) = blocks_of (take i (map the c))" using starts(1) [OF n l] by simp
  then show ?thesis using starts(2) [OF n l] by (simp add: block_addr_def)
qed

section \<open>Lookups\<close>

lemma get_block_size_nth:
  assumes "mm_config_ok c" and "k < length (blocks c)"
  shows "get_block_size c (of_nat k) = of_nat (blocks c ! k)"
proof -
  obtain i where i: "i < 7" "BLOCK_START c i \<le> k" "k < BLOCK_END c i" "\<forall>j < i. BLOCK_END c j \<le> k"
    by (rule category_of [OF assms])
  have b: "(of_nat k :: u32) < m_block_end c j \<longleftrightarrow> k < BLOCK_END c j" if "j < 7" for j
    using blocks_bounds(1) [OF assms(1)] category_bounds(2) [OF assms(1) that] assms(2)
    unfolding m_block_end_def by (intro of_nat_u32_order(1)) simp_all
  have "get_block_cat c 0 (of_nat k) = i"
    using find_upt_first [of i 7 "\<lambda>i. (of_nat k :: u32) < m_block_end c i"] i b
    by (force simp: get_block_cat_def BLOCK_CAT_COUNT_def)
  then show ?thesis using category_size [OF assms(1) i(1-3)] by (simp add: get_block_size_def m_block_size_def)
qed

text \<open>The category of a size: the blocks from its start on are those that are large enough.\<close>

lemma get_block_cat_size:
  assumes "mm_config_ok c" and "n \<noteq> 0" and "\<exists>z \<in> set (blocks c). unat n \<le> z"
  defines "i \<equiv> get_block_cat c n (of_nat (TOTAL_BLOCK_COUNT c))"
  shows "i < 7" "\<And>k. k < length (blocks c) \<Longrightarrow> unat n \<le> blocks c ! k \<longleftrightarrow> BLOCK_START c i \<le> k"
proof -
  let ?P = "\<lambda>i. unat n \<le> BLOCK_SIZE c i \<and> BLOCK_COUNT c i \<noteq> 0"
  have p: "n \<noteq> 0 \<and> n \<le> m_block_size c j \<and> m_block_end c j \<noteq> m_block_start c j \<or>
      of_nat (TOTAL_BLOCK_COUNT c) < m_block_end c j \<longleftrightarrow> ?P j" if "j < 7" for j
  proof -
    have e: "BLOCK_END c j < 2 ^ 32" "BLOCK_START c j < 2 ^ 32" "length (blocks c) < 2 ^ 32"
      using blocks_bounds(1) [OF assms(1)] category_bounds(1,2) [OF assms(1) that] by simp_all
    have t: "\<not> (of_nat (TOTAL_BLOCK_COUNT c) :: u32) < m_block_end c j"
      using e category_bounds(2) [OF assms(1) that] unfolding m_block_end_def totals(1) [OF assms(1)]
      by (subst of_nat_u32_order(1)) simp_all
    have d: "m_block_end c j \<noteq> m_block_start c j \<longleftrightarrow> BLOCK_COUNT c j \<noteq> 0"
      using e category_bounds(1) [OF assms(1) that] unfolding m_block_end_def m_block_start_def
      by (subst of_nat_u32_order(3)) simp_all
    have "n \<le> m_block_size c j \<longleftrightarrow> unat n \<le> BLOCK_SIZE c j" if "BLOCK_COUNT c j \<noteq> 0"
    proof -
      have "BLOCK_SIZE c j \<in> set (blocks c)"
        using category_first [OF assms(1) \<open>j < 7\<close> that] by (metis nth_mem)
      then show ?thesis
        using unat_of_nat_u32 [of "BLOCK_SIZE c j"] blocks_bounds(2) [OF assms(1)] by (simp add: m_block_size_def word_le_nat_alt)
    qed
    then show ?thesis using t d assms(2) by blast
  qed
  obtain k where k: "k < length (blocks c)" "unat n \<le> blocks c ! k" using assms(3) by (auto simp: in_set_conv_nth)
  obtain i0 where i0: "i0 < 7" "BLOCK_START c i0 \<le> k" "k < BLOCK_END c i0"
    by (rule category_of [OF assms(1) k(1)])
  then have "?P i0" using category_size [OF assms(1) i0] k(2) category_bounds(1) [OF assms(1) i0(1)] by auto
  then have P: "?P (LEAST i. ?P i)" and le: "(LEAST i. ?P i) \<le> i0" by (rule LeastI, rule Least_le)
  have least: "\<not> ?P j" if "j < (LEAST i. ?P i)" for j using not_less_Least [OF that] .
  have i: "i = (LEAST i. ?P i)"
  proof -
    have "find (\<lambda>j. n \<noteq> 0 \<and> n \<le> m_block_size c j \<and> m_block_end c j \<noteq> m_block_start c j \<or>
        of_nat (TOTAL_BLOCK_COUNT c) < m_block_end c j) [0..<7] = Some (LEAST i. ?P i)" (is "find ?Q _ = Some ?L")
    proof (rule find_upt_first)
      show l: "?L < 7" using le i0(1) by simp
      show "?Q ?L" using p [OF l] P by blast
      fix j assume "j < ?L"
      then show "\<not> ?Q j" using p [of j] least [of j] l by linarith
    qed
    then show ?thesis unfolding i_def get_block_cat_def BLOCK_CAT_COUNT_def by simp
  qed
  show "i < 7" using i le i0(1) by simp
  fix k assume k: "k < length (blocks c)"
  have s: "sorted (blocks c)" using assms(1) by (simp add: mm_config_ok_def)
  show "unat n \<le> blocks c ! k \<longleftrightarrow> BLOCK_START c i \<le> k"
  proof (cases "BLOCK_START c i \<le> k")
    case True
    then have "BLOCK_SIZE c i \<le> blocks c ! k"
      using category_first [OF assms(1) \<open>i < 7\<close>] P i s k by (metis sorted_nth_mono)
    then show ?thesis using True P i by simp
  next
    case False
    obtain j where j: "j < 7" "BLOCK_START c j \<le> k" "k < BLOCK_END c j" "\<forall>l < j. BLOCK_END c l \<le> k"
      by (rule category_of [OF assms(1) k])
    have "j < i"
    proof (rule ccontr)
      assume "\<not> j < i"
      then consider "j = i" | "i < j" by linarith
      then show False
        using False j(2) j(4) [THEN spec, of i] category_bounds(1) [OF assms(1) \<open>i < 7\<close>] by cases simp_all
    qed
    then have "\<not> ?P j" unfolding i by (rule least)
    moreover have "BLOCK_COUNT c j \<noteq> 0" using category_bounds(1) [OF assms(1) j(1)] j(2,3) by linarith
    ultimately have "\<not> unat n \<le> blocks c ! k" unfolding category_size [OF assms(1) j(1-3)] by blast
    then show ?thesis using False by blast
  qed
qed

lemma MAX_MEM_SIZE_last:
  assumes "mm_config_ok c"
  shows "MAX_MEM_SIZE c = last (blocks c)"
proof -
  have ne: "blocks c \<noteq> []" using assms by (simp add: mm_config_ok_def)
  let ?k = "length (blocks c) - 1"
  have "?k < length (blocks c)" using ne by simp
  then obtain i where i: "i < 7" "BLOCK_START c i \<le> ?k" "?k < BLOCK_END c i"
    by (rule category_of [OF assms])
  have "BLOCK_COUNT c j = 0" if "i < j" "j < 7" for j
  proof -
    have beyond: "length (blocks c) \<le> BLOCK_END c l" if "i \<le> l" "l < 7" for l
      using that(1,2)
    proof (induction rule: dec_induct)
      case base
      then show ?case using i(3) by simp
    next
      case (step l)
      then show ?case using category_bounds(1) [OF assms, of "Suc l"] category_bounds(3) [OF assms, of l] by simp
    qed
    obtain l where "j = Suc l" using \<open>i < j\<close> by (metis less_imp_Suc_add)
    then show ?thesis
      using that beyond [of l] category_bounds(1,2) [OF assms, of j] category_bounds(3) [OF assms, of l] by simp
  qed
  moreover have "BLOCK_COUNT c i \<noteq> 0" using i category_bounds(1) [OF assms i(1)] by auto
  ultimately have "find (\<lambda>i. BLOCK_COUNT c i \<noteq> 0) (rev [0..<7]) = Some i"
    using i(1) by (auto simp: find_Some_iff rev_nth intro!: exI [of _ "6 - i"])
  then show ?thesis
    using category_size [OF assms i] ne by (simp add: MAX_MEM_SIZE_def BLOCK_CAT_COUNT_def last_conv_nth)
qed

lemma blocks_le_MAX: "mm_config_ok c \<Longrightarrow> z \<in> set (blocks c) \<Longrightarrow> z \<le> MAX_MEM_SIZE c"
  by (auto simp: MAX_MEM_SIZE_last mm_config_ok_def in_set_conv_nth last_conv_nth intro!: sorted_nth_mono)

end
