(* ===== verification/MemProps.thy ===== *)
theory MemProps
  imports MemBlocks
begin

text \<open>
  The memory manager gives out blocks first fit, and what it has given out stays apart.
\<close>

unbundle bit_operations_syntax

section \<open>The bitmap\<close>

definition block_free :: "mem_manager \<Rightarrow> nat \<Rightarrow> bool" where
  "block_free s k = bit (m_mem_pool s ! (k div 32)) (k mod 32)"

definition mark_free :: "nat \<Rightarrow> mem_manager \<Rightarrow> mem_manager" where
  "mark_free k s = s\<lparr>m_mem_pool := (m_mem_pool s)[k div 32 := m_mem_pool s ! (k div 32) OR push_bit (k mod 32) 1]\<rparr>"

definition mark_used :: "nat \<Rightarrow> mem_manager \<Rightarrow> mem_manager" where
  "mark_used k s = s\<lparr>m_mem_pool := (m_mem_pool s)[k div 32 := m_mem_pool s ! (k div 32) AND NOT (push_bit (k mod 32) 1)]\<rparr>"

definition in_bitmap :: "mem_manager \<Rightarrow> nat \<Rightarrow> bool" where
  "in_bitmap s k \<longleftrightarrow> k < 2 ^ 32 \<and> k div 32 < length (m_mem_pool s)"

lemma get_block_coordinates_nat:
  assumes "k < 2 ^ 32"
  obtains x y where "get_block_coordinates (of_nat k) = (x, y)" and "unat x = k div 32" and "unat y = k mod 32"
proof (rule that)
  show "get_block_coordinates (of_nat k) = (of_nat k div 32, of_nat k mod 32)"
    by (simp add: get_block_coordinates_def BITMAP_SIZE_def Let_def minus_div_mult_eq_mod)
  show "unat (of_nat k div 32 :: u32) = k div 32" "unat (of_nat k mod 32 :: u32) = k mod 32"
    using unat_of_nat_u32 [OF assms] by (simp_all add: unat_div unat_mod)
qed

lemma bitmap_ops:
  assumes "in_bitmap s k"
  shows "is_block_free (of_nat k) s = Inr (block_free s k)"
    and "block_init (of_nat k) s = Inr (mark_free k s)"
    and "block_allocate (of_nat k) s = Inr (mark_used k s)"
proof -
  have "k < 2 ^ 32" using assms unfolding in_bitmap_def by blast
  then obtain x y where xy: "get_block_coordinates (of_nat k) = (x, y)" "unat x = k div 32" "unat y = k mod 32"
    by (rule get_block_coordinates_nat)
  have "drop_bit n w AND 1 \<noteq> 0 \<longleftrightarrow> bit w n" for n and w :: u32
    by (simp add: and_one_eq bit_iff_odd_drop_bit even_iff_mod_2_eq_zero)
  then show "is_block_free (of_nat k) s = Inr (block_free s k)"
    using assms by (simp add: is_block_free_def xy load_at_def in_bitmap_def block_free_def)
  show "block_init (of_nat k) s = Inr (mark_free k s)" "block_allocate (of_nat k) s = Inr (mark_used k s)"
    using assms by (simp_all add: block_init_def block_allocate_def xy load_at_def store_at_def in_bitmap_def mark_free_def mark_used_def)
qed

lemma mark_simps [simp]:
  "mm_cfg (mark_free k s) = mm_cfg s" "mm_cfg (mark_used k s) = mm_cfg s"
  "m_memory (mark_free k s) = m_memory s" "m_memory (mark_used k s) = m_memory s"
  "m_module_initialized (mark_free k s) = m_module_initialized s" "m_module_initialized (mark_used k s) = m_module_initialized s"
  "length (m_mem_pool (mark_free k s)) = length (m_mem_pool s)" "length (m_mem_pool (mark_used k s)) = length (m_mem_pool s)"
  by (simp_all add: mark_free_def mark_used_def)

lemma block_free_mark:
  assumes "in_bitmap s k"
  shows "block_free (mark_free k s) j \<longleftrightarrow> j = k \<or> block_free s j"
    and "block_free (mark_used k s) j \<longleftrightarrow> j \<noteq> k \<and> block_free s j"
proof -
  have e: "j = k \<longleftrightarrow> j div 32 = k div 32 \<and> j mod 32 = k mod 32" by (metis div_mod_decomp)
  have m: "bit (2 ^ m :: u32) n \<longleftrightarrow> n = m" if "m < 32" for m n
    using that by (simp add: bit_exp_iff) blast
  show "block_free (mark_free k s) j \<longleftrightarrow> j = k \<or> block_free s j" "block_free (mark_used k s) j \<longleftrightarrow> j \<noteq> k \<and> block_free s j"
    using assms unfolding e
    by (auto simp: block_free_def mark_free_def mark_used_def in_bitmap_def nth_list_update bit_or_iff bit_and_iff bit_not_iff_eq m)
qed

section \<open>The state between calls\<close>

definition mm_ok :: "mem_manager \<Rightarrow> bool" where
  "mm_ok s \<longleftrightarrow>
     mm_config_ok (mm_cfg s) \<and> m_module_initialized s \<and>
     length (m_mem_pool s) = BLOCK_BITMAP_ARRAY_SIZE (mm_cfg s) \<and> length (m_memory s) = TOTAL_MEMORY_SIZE (mm_cfg s)"

lemma div_32_less: "k < n \<Longrightarrow> k div 32 < (n + 31) div (32 :: nat)"
  using div_le_mono [of "k + 32" "n + 31" 32] by simp

lemma block_in_bitmap:
  assumes "mm_config_ok (mm_cfg s)" and "length (m_mem_pool s) = BLOCK_BITMAP_ARRAY_SIZE (mm_cfg s)" and "k < length (blocks (mm_cfg s))"
  shows "in_bitmap s k"
  using assms(2,3) blocks_bounds(1) [OF assms(1)] div_32_less [OF assms(3)]
  by (simp add: in_bitmap_def BLOCK_BITMAP_ARRAY_SIZE_def BITMAP_SIZE_def totals(1) [OF assms(1)])

lemma mm_ok_bitmap: "mm_ok s \<Longrightarrow> k < length (blocks (mm_cfg s)) \<Longrightarrow> in_bitmap s k"
  by (rule block_in_bitmap) (simp_all add: mm_ok_def)

lemma mm_ok_mark [simp]: "mm_ok (mark_free k s) = mm_ok s" "mm_ok (mark_used k s) = mm_ok s"
  by (simp_all add: mm_ok_def)

lemma block_addr_Suc: "k < length (blocks c) \<Longrightarrow> block_addr c (Suc k) = block_addr c k + blocks c ! k"
  by (simp add: block_addr_def take_Suc_conv_app_nth)

lemma block_addr_mono: "j \<le> k \<Longrightarrow> block_addr c j \<le> block_addr c k"
  by (auto simp: block_addr_def le_iff_add take_add)

lemma block_area:
  assumes "j < k" and "k \<le> length (blocks c)"
  shows "block_addr c j + blocks c ! j \<le> block_addr c k"
  using block_addr_mono [of "Suc j" k c] assms by (simp add: block_addr_Suc)

lemma block_addr_end: "block_addr c (length (blocks c)) = sum_list (blocks c)"
  by (simp add: block_addr_def)

lemma block_addr_bound:
  assumes "mm_config_ok c" and "k \<le> length (blocks c)"
  shows "block_addr c k < 2 ^ 32"
  using block_addr_mono [OF assms(2), of c] assms(1) by (simp add: block_addr_end mm_config_ok_def)

lemma block_addr_inj:
  assumes "mm_config_ok c" and "j < length (blocks c)" and "k < length (blocks c)" and "block_addr c j = block_addr c k"
  shows "j = k"
proof (rule ccontr)
  assume "j \<noteq> k"
  moreover have "0 < blocks c ! j" "0 < blocks c ! k" using sizes_pos [OF assms(1)] assms(2,3) by simp_all
  ultimately show False
    using block_area [of j k c] block_area [of k j c] assms(2-4) by (cases j k rule: linorder_cases) simp_all
qed

section \<open>The loops\<close>

lemma reserve_loop_find:
  assumes "mm_ok s" and "a \<le> length (blocks (mm_cfg s))"
  shows "reserve_loop [a..<length (blocks (mm_cfg s))] (of_nat (block_addr (mm_cfg s) a)) s =
    (case find (block_free s) [a..<length (blocks (mm_cfg s))] of
       None \<Rightarrow> Inr (None, s)
     | Some k \<Rightarrow> Inr (Some (of_nat (block_addr (mm_cfg s) k), of_nat (blocks (mm_cfg s) ! k)), mark_used k s))"
  using assms(2)
proof (induction rule: inc_induct)
  case (step a)
  let ?c = "mm_cfg s"
  have c: "mm_config_ok ?c" using assms(1) by (simp add: mm_ok_def)
  have "(of_nat (block_addr ?c (Suc a)) :: u32) = of_nat (block_addr ?c a) + of_nat (blocks ?c ! a)"
    using step by (simp add: block_addr_Suc)
  moreover have "[a..<length (blocks ?c)] = a # [Suc a..<length (blocks ?c)]" using step by (simp add: upt_conv_Cons)
  ultimately show ?case
    using step bitmap_ops [OF mm_ok_bitmap [OF assms(1)]] by (simp add: get_block_size_nth [OF c] Let_def)
qed simp

lemma free_loop_find:
  assumes "mm_ok s" and "a \<le> length (blocks (mm_cfg s))"
  shows "free_loop [a..<length (blocks (mm_cfg s))] (of_nat (block_addr (mm_cfg s) a)) p s =
    Inr (case find (\<lambda>k. block_addr (mm_cfg s) k = unat p) [a..<length (blocks (mm_cfg s))] of None \<Rightarrow> s | Some k \<Rightarrow> mark_free k s)"
  using assms(2)
proof (induction rule: inc_induct)
  case (step a)
  let ?c = "mm_cfg s"
  have c: "mm_config_ok ?c" using assms(1) by (simp add: mm_ok_def)
  have "(of_nat (block_addr ?c (Suc a)) :: u32) = of_nat (block_addr ?c a) + of_nat (blocks ?c ! a)"
    using step by (simp add: block_addr_Suc)
  moreover have "(of_nat (block_addr ?c a) :: u32) = p \<longleftrightarrow> block_addr ?c a = unat p"
    using unat_of_nat_u32 [OF block_addr_bound [OF c, of a]] step by (simp add: word_unat_eq_iff)
  moreover have "[a..<length (blocks ?c)] = a # [Suc a..<length (blocks ?c)]" using step by (simp add: upt_conv_Cons)
  ultimately show ?case
    using step bitmap_ops [OF mm_ok_bitmap [OF assms(1)]] by (simp add: get_block_size_nth [OF c])
qed simp

lemma find_upt_suffix:
  assumes "a \<le> n" and "\<And>k. k < n \<Longrightarrow> Q k \<longleftrightarrow> a \<le> k"
  shows "find P [a..<n] = find (\<lambda>k. P k \<and> Q k) [0..<n]"
proof -
  have "[0..<n] = [0..<a] @ [a..<n]" using assms(1) by (metis le_add_diff_inverse upt_add_eq_append zero_le)
  moreover have "find (\<lambda>k. P k \<and> Q k) (xs @ ys) = find (\<lambda>k. P k \<and> Q k) ys" if "\<forall>k \<in> set xs. \<not> Q k" for xs ys
    using that by (induction xs) auto
  moreover have "find (\<lambda>k. P k \<and> Q k) [a..<n] = find P [a..<n]" by (rule find_cong) (use assms in auto)
  ultimately show ?thesis using assms by simp
qed

section \<open>First fit\<close>

lemma mem_reserve_find:
  assumes "mm_ok s"
  shows "nrf_mem_reserve (Some b) (Some n) s =
    Inr (if n = 0 \<or> (\<forall>z \<in> set (blocks (mm_cfg s)). z < unat n) then (NRF_ERROR_INVALID_PARAM, Some b, Some n, s)
      else case find (\<lambda>k. block_free s k \<and> unat n \<le> blocks (mm_cfg s) ! k) [0..<length (blocks (mm_cfg s))] of
        None \<Rightarrow> (NRF_ERROR_NO_MEM, Some b, Some n, s)
      | Some k \<Rightarrow> (NRF_SUCCESS, Some (Some (of_nat (block_addr (mm_cfg s) k))), Some (of_nat (blocks (mm_cfg s) ! k)), mark_used k s))"
proof -
  let ?c = "mm_cfg s"
  have c: "mm_config_ok ?c" and m: "m_module_initialized s" using assms by (simp_all add: mm_ok_def)
  have "MAX_MEM_SIZE ?c \<in> set (blocks ?c)" using c by (simp add: MAX_MEM_SIZE_last mm_config_ok_def)
  then have max: "n > of_nat (MAX_MEM_SIZE ?c) \<longleftrightarrow> (\<forall>z \<in> set (blocks ?c). z < unat n)"
    using unat_of_nat_u32 [OF blocks_bounds(2) [OF c]] blocks_le_MAX [OF c] by (force simp: word_less_nat_alt)
  show ?thesis
  proof (cases "n = 0 \<or> (\<forall>z \<in> set (blocks ?c). z < unat n)")
    case False
    note t = totals(1) [OF c]
    let ?i = "get_block_cat ?c n (of_nat (length (blocks ?c)))"
    have i: "?i < 7" "\<And>k. k < length (blocks ?c) \<Longrightarrow> unat n \<le> blocks ?c ! k \<longleftrightarrow> BLOCK_START ?c ?i \<le> k"
      using get_block_cat_size [OF c, of n, unfolded t] False by (auto simp: not_less)
    have l: "BLOCK_START ?c ?i \<le> length (blocks ?c)" using category_bounds(1,2) [OF c i(1)] by simp
    have "unat (m_block_start ?c ?i) = BLOCK_START ?c ?i"
      unfolding m_block_start_def by (rule unat_of_nat_u32) (use l blocks_bounds(1) [OF c] in simp)
    then have e: "reserve_loop [unat (m_block_start ?c ?i)..<length (blocks ?c)] (m_block_mem_start ?c ?i) s =
        reserve_loop [BLOCK_START ?c ?i..<length (blocks ?c)] (of_nat (block_addr ?c (BLOCK_START ?c ?i))) s"
      by (simp add: t m_block_mem_start_def category_addr [OF c i(1)])
    show ?thesis
      using False m max t reserve_loop_find [OF assms l] find_upt_suffix [OF l i(2), of "block_free s"]
      by (auto simp: nrf_mem_reserve_def Let_def e split: option.split)
  qed (use m max in \<open>auto simp: nrf_mem_reserve_def\<close>)
qed

text \<open>
  The memory manager is first fit over its blocks in the order of their sizes: a request for no bytes, or for more than the largest block, is refused;
  otherwise the first free block that is large enough is marked as used, and its address and its full size are returned;
  if there is none the code is \<open>NRF_ERROR_NO_MEM\<close> and nothing changes. (Every category is defined, the sizes of those in use ascend, and
  the counts of XLARGE and XXLARGE agree.)
\<close>

theorem mem_reserve_first_fit:
  assumes "mm_ok s"
  shows "nrf_mem_reserve (Some b) (Some n) s =
    Inr (if n = 0 \<or> (\<forall>z \<in> set (blocks (mm_cfg s)). z < unat n) then (NRF_ERROR_INVALID_PARAM, Some b, Some n, s)
      else case find (\<lambda>k. block_free s k \<and> unat n \<le> blocks (mm_cfg s) ! k) [0..<length (blocks (mm_cfg s))] of
        None \<Rightarrow> (NRF_ERROR_NO_MEM, Some b, Some n, s)
      | Some k \<Rightarrow> (NRF_SUCCESS, Some (Some (of_nat (block_addr (mm_cfg s) k))), Some (of_nat (blocks (mm_cfg s) ! k)), mark_used k s))"
  by (rule mem_reserve_find [OF assms])

text \<open>\<open>nrf_free\<close> of the address of a block frees that block; of any other pointer it does nothing.\<close>

lemma mem_free_block:
  assumes "mm_ok s" and "k < length (blocks (mm_cfg s))"
  shows "nrf_free (Some (of_nat (block_addr (mm_cfg s) k))) s = Inr (mark_free k s)"
proof -
  let ?c = "mm_cfg s"
  have c: "mm_config_ok ?c" and m: "m_module_initialized s" using assms(1) by (simp_all add: mm_ok_def)
  have "find (\<lambda>j. block_addr ?c j = block_addr ?c k) [0..<length (blocks ?c)] = Some k"
    by (rule find_upt_first) (use assms(2) block_addr_inj [OF c _ assms(2)] in \<open>auto dest: less_trans\<close>)
  then show ?thesis
    using free_loop_find [OF assms(1), of 0 "of_nat (block_addr ?c k)"] m assms(2) unat_of_nat_u32 [OF block_addr_bound [OF c, of k]]
    by (simp add: nrf_free_def totals(1) [OF c] block_addr_def)
qed

lemma mem_free_other:
  assumes "mm_ok s" and "\<forall>k < length (blocks (mm_cfg s)). unat p \<noteq> block_addr (mm_cfg s) k"
  shows "nrf_free (Some p) s = Inr s"
proof -
  let ?c = "mm_cfg s"
  have c: "mm_config_ok ?c" and m: "m_module_initialized s" using assms(1) by (simp_all add: mm_ok_def)
  have "find (\<lambda>j. block_addr ?c j = unat p) [0..<length (blocks ?c)] = None"
    using assms(2) by (auto simp: find_None_iff)
  then show ?thesis
    using free_loop_find [OF assms(1), of 0 p] m by (simp add: nrf_free_def totals(1) [OF c] block_addr_def)
qed

section \<open>A client\<close>

text \<open>
  A client that reserves and frees: \<open>held\<close> lists the pointers and sizes it has been given and not freed, newest first; \<open>Mem_Free i\<close> frees the
  \<open>i\<close>-th of them.
\<close>

datatype mem_call = Mem_Reserve u32 | Mem_Free nat

fun mem_step :: "mem_call \<Rightarrow> (u32 \<times> u32) list \<times> mem_manager \<Rightarrow> ((u32 \<times> u32) list \<times> mem_manager) result" where
  "mem_step (Mem_Reserve n) (held, s) =
     then_do (nrf_mem_reserve (Some None) (Some n) s) (\<lambda>(ret, buffer, allocated, s1).
     Inr (if ret = NRF_SUCCESS then (the (the buffer), the allocated) # held else held, s1))"
| "mem_step (Mem_Free i) (held, s) =
     (if i < length held
      then then_do (nrf_free (Some (fst (held ! i))) s) (\<lambda>s1. Inr (take i held @ drop (Suc i) held, s1))
      else Inr (held, s))"

definition area :: "u32 \<times> u32 \<Rightarrow> nat set" where
  "area a = {unat (fst a)..<unat (fst a) + unat (snd a)}"

definition block_ptr :: "mm_config \<Rightarrow> nat \<Rightarrow> u32 \<times> u32" where
  "block_ptr c k = (of_nat (block_addr c k), of_nat (blocks c ! k))"

text \<open>What is held is blocks \<open>ks\<close>, and they are the ones marked as used.\<close>

definition holds :: "mem_manager \<Rightarrow> (u32 \<times> u32) list \<times> mem_manager \<Rightarrow> bool" where
  "holds s0 x \<longleftrightarrow>
     (case x of (held, s) \<Rightarrow>
      mm_ok s \<and> s\<lparr>m_mem_pool := m_mem_pool s0\<rparr> = s0 \<and> length (m_mem_pool s) = length (m_mem_pool s0) \<and>
      (\<exists>ks. held = map (block_ptr (mm_cfg s)) ks \<and> distinct ks \<and> set ks \<subseteq> {..<length (blocks (mm_cfg s))} \<and>
            (\<forall>k. block_free s k \<longleftrightarrow> block_free s0 k \<and> k \<notin> set ks) \<and> (\<forall>k \<in> set ks. block_free s0 k)))"

lemma area_block:
  assumes "mm_config_ok c" and "k < length (blocks c)"
  shows "area (block_ptr c k) = {block_addr c k..<block_addr c (Suc k)}"
    "unat (fst (block_ptr c k)) + unat (snd (block_ptr c k)) \<le> TOTAL_MEMORY_SIZE c" "0 < unat (snd (block_ptr c k))"
proof -
  have z: "blocks c ! k \<in> set (blocks c)" using assms(2) by simp
  have u: "unat (fst (block_ptr c k)) = block_addr c k" "unat (snd (block_ptr c k)) = blocks c ! k"
    using unat_of_nat_u32 [OF block_addr_bound [OF assms(1), of k]] unat_of_nat_u32 [OF blocks_bounds(2) [OF assms(1) z]] assms(2)
    by (simp_all add: block_ptr_def)
  show "area (block_ptr c k) = {block_addr c k..<block_addr c (Suc k)}"
    using assms(2) by (simp add: area_def u block_addr_Suc)
  show "unat (fst (block_ptr c k)) + unat (snd (block_ptr c k)) \<le> TOTAL_MEMORY_SIZE c"
    using block_area [OF assms(2) order_refl] by (simp add: u totals(2) [OF assms(1)] block_addr_end)
  show "0 < unat (snd (block_ptr c k))" using sizes_pos [OF assms(1) z] by (simp add: u)
qed

lemma area_disjoint:
  assumes "mm_config_ok c" and "j < length (blocks c)" and "k < length (blocks c)" and "j \<noteq> k"
  shows "disjnt (area (block_ptr c j)) (area (block_ptr c k))"
  using assms block_addr_mono [of "Suc j" k c] block_addr_mono [of "Suc k" j c]
  by (cases j k rule: linorder_cases) (auto simp: area_block disjnt_def)

lemma distinct_remove_nth:
  assumes "distinct ks" and "i < length ks"
  shows "distinct (take i ks @ drop (Suc i) ks)" "set ks = insert (ks ! i) (set (take i ks @ drop (Suc i) ks))"
    "ks ! i \<notin> set (take i ks @ drop (Suc i) ks)"
proof -
  have e: "ks = take i ks @ ks ! i # drop (Suc i) ks" using assms(2) by (rule id_take_nth_drop)
  then have "distinct (take i ks @ ks ! i # drop (Suc i) ks)" using assms(1) by simp
  then show "distinct (take i ks @ drop (Suc i) ks)" "ks ! i \<notin> set (take i ks @ drop (Suc i) ks)" by auto
  show "set ks = insert (ks ! i) (set (take i ks @ drop (Suc i) ks))" by (subst e) simp
qed

lemma holds_step:
  assumes "holds s0 x"
  shows "ok (mem_step call x) (holds s0)"
proof -
  obtain held s where x: "x = (held, s)" by (cases x)
  let ?c = "mm_cfg s"
  obtain ks where s: "mm_ok s" "s\<lparr>m_mem_pool := m_mem_pool s0\<rparr> = s0" "length (m_mem_pool s) = length (m_mem_pool s0)"
    and ks: "held = map (block_ptr ?c) ks" "distinct ks" "set ks \<subseteq> {..<length (blocks ?c)}"
      "\<forall>k. block_free s k \<longleftrightarrow> block_free s0 k \<and> k \<notin> set ks" "\<forall>k \<in> set ks. block_free s0 k"
    using assms by (auto simp: x holds_def)
  show ?thesis
  proof (cases call)
    case (Mem_Reserve n)
    let ?f = "find (\<lambda>k. block_free s k \<and> unat n \<le> blocks ?c ! k) [0..<length (blocks ?c)]"
    have "holds s0 (block_ptr ?c k # held, mark_used k s)" if "?f = Some k" for k
    proof -
      have k: "k < length (blocks ?c)" "block_free s k" using that by (auto simp: find_Some_iff)
      have "(mark_used k s)\<lparr>m_mem_pool := m_mem_pool s0\<rparr> = s0" using s(2) by (simp add: mark_used_def)
      then show ?thesis
        using s k ks block_free_mark(2) [OF mm_ok_bitmap [OF s(1) k(1)]]
        by (auto simp: holds_def intro!: exI [of _ "k # ks"])
    qed
    moreover have "holds s0 (held, s)" using assms x by simp
    ultimately show ?thesis
      by (auto simp: x Mem_Reserve mem_reserve_find [OF s(1)] block_ptr_def split: option.split)
  next
    case (Mem_Free i)
    show ?thesis
    proof (cases "i < length ks")
      case True
      let ?k = "ks ! i" and ?ks = "take i ks @ drop (Suc i) ks"
      have "?k \<in> set ks" using True by (rule nth_mem)
      moreover from this have "?k \<in> {..<length (blocks ?c)}" using ks(3) by blast
      ultimately have k: "?k < length (blocks ?c)" "?k \<in> set ks" by simp_all
      note d = distinct_remove_nth [OF ks(2) True]
      have "(mark_free ?k s)\<lparr>m_mem_pool := m_mem_pool s0\<rparr> = s0" using s(2) by (simp add: mark_free_def)
      then have "holds s0 (map (block_ptr ?c) ?ks, mark_free ?k s)"
        using s k ks(3-5) d block_free_mark(1) [OF mm_ok_bitmap [OF s(1) k(1)]]
        unfolding holds_def by (auto intro!: exI [of _ ?ks])
      then show ?thesis
        using True mem_free_block [OF s(1) k(1)]
        by (simp add: x Mem_Free ks(1) block_ptr_def take_map drop_map)
    qed (use assms in \<open>simp add: x Mem_Free ks(1)\<close>)
  qed
qed

text \<open>After initialisation every block is free.\<close>

lemma mem_init:
  assumes "mm_config_ok c"
  shows "ok (nrf_mem_init (mem_manager_start c)) (\<lambda>(ret, s). ret = NRF_SUCCESS \<and> mm_cfg s = c \<and> holds s ([], s) \<and>
    (\<forall>k < length (blocks c). block_free s k) \<and> m_memory s = replicate (TOTAL_MEMORY_SIZE c) 0)"
proof -
  let ?I = "\<lambda>n s. mm_cfg s = c \<and> length (m_mem_pool s) = BLOCK_BITMAP_ARRAY_SIZE c \<and>
    m_memory s = replicate (TOTAL_MEMORY_SIZE c) 0 \<and> (\<forall>k < n. block_free s k)"
  have "ok (for_each (\<lambda>i. block_init (of_nat i)) [0..<length (blocks c)] (mem_manager_start c)) (?I (length (blocks c)))"
  proof (rule for_each_upt)
    fix k s assume k: "k < length (blocks c)" and I: "?I k s"
    then have b: "in_bitmap s k" using block_in_bitmap [of s k] assms by simp
    show "ok (block_init (of_nat k) s) (?I (Suc k))"
      using I by (simp add: bitmap_ops(2) [OF b] block_free_mark(1) [OF b] less_Suc_eq)
  qed (simp add: mem_manager_start_def)
  moreover have "mm_cfg (mem_manager_start c) = c" by (simp add: mem_manager_start_def)
  ultimately show ?thesis
    using assms by (auto simp: nrf_mem_init_def totals(1) [OF assms] holds_def mm_ok_def block_free_def elim!: ok_mono)
qed

lemma for_each_invariant: "I s \<Longrightarrow> (\<And>x s. I s \<Longrightarrow> ok (body x s) I) \<Longrightarrow> ok (for_each body xs s) I"
proof (induction xs arbitrary: s)
  case (Cons x xs)
  show ?case using Cons(1) [OF _ Cons(3)] Cons(3) [OF Cons(2), of x] by (auto elim!: ok_mono)
qed simp

lemma block_free_ext:
  assumes "length (m_mem_pool s) = length (m_mem_pool t)" and "\<And>k. block_free s k = block_free t k"
  shows "m_mem_pool s = m_mem_pool t"
proof (rule nth_equalityI [OF assms(1)])
  fix i assume "i < length (m_mem_pool s)"
  show "m_mem_pool s ! i = m_mem_pool t ! i"
  proof (rule bit_word_eqI)
    fix n assume "n < LENGTH(32)"
    then show "bit (m_mem_pool s ! i) n = bit (m_mem_pool t ! i) n" using assms(2) [of "32 * i + n"] by (simp add: block_free_def)
  qed
qed

text \<open>
  What a client holds never overlaps. After \<open>nrf_mem_init\<close>, whatever it reserves and frees in whatever order, no call goes wrong, the
  areas it holds are not empty, lie within the memory and are pairwise disjoint; and once it has freed them all, the
  memory manager is as it was after \<open>nrf_mem_init\<close>: nothing leaks.
\<close>

theorem mem_blocks_apart:
  assumes "mm_config_ok c"
  shows "ok (nrf_mem_init (mem_manager_start c)) (\<lambda>(ret, s0). ret = NRF_SUCCESS \<and>
    ok (for_each mem_step calls ([], s0)) (\<lambda>(held, s).
      (\<forall>a \<in> set held. area a \<noteq> {} \<and> area a \<subseteq> {..<length (m_memory s)}) \<and>
      sorted_wrt (\<lambda>a b. disjnt (area a) (area b)) held \<and> (held = [] \<longrightarrow> s = s0)))"
proof (rule ok_mono [OF mem_init [OF assms]], clarify)
  fix s0 assume h: "holds s0 ([], s0)"
  let ?Q = "\<lambda>(held, s). (\<forall>a \<in> set held. area a \<noteq> {} \<and> area a \<subseteq> {..<length (m_memory s)}) \<and>
      sorted_wrt (\<lambda>a b. disjnt (area a) (area b)) held \<and> (held = [] \<longrightarrow> s = s0)"
  have "?Q x" if hx: "holds s0 x" for x
  proof -
    obtain held s where x: "x = (held, s)" by (cases x)
    let ?c = "mm_cfg s"
    obtain ks where s: "mm_ok s" "s\<lparr>m_mem_pool := m_mem_pool s0\<rparr> = s0" "length (m_mem_pool s) = length (m_mem_pool s0)"
      and ks: "held = map (block_ptr ?c) ks" "distinct ks" "set ks \<subseteq> {..<length (blocks ?c)}"
        "\<forall>k. block_free s k \<longleftrightarrow> block_free s0 k \<and> k \<notin> set ks"
      using hx by (auto simp: x holds_def)
    have c: "mm_config_ok ?c" and l: "length (m_memory s) = TOTAL_MEMORY_SIZE ?c" using s(1) by (simp_all add: mm_ok_def)
    have "area a \<noteq> {} \<and> area a \<subseteq> {..<length (m_memory s)}" if a: "a \<in> set held" for a
    proof -
      obtain k where k: "k < length (blocks ?c)" "a = block_ptr ?c k" using a ks(1,3) by auto
      show ?thesis using area_block(2,3) [OF c k(1)] unfolding k(2) area_def l by auto
    qed
    moreover have "sorted_wrt (\<lambda>a b. disjnt (area a) (area b)) held"
      unfolding ks(1) sorted_wrt_map
      using ks(2,3) by (induction ks) (auto intro!: area_disjoint [OF c])
    moreover have "s = s0" if "held = []"
    proof -
      have "m_mem_pool s = m_mem_pool s0" using that ks(1,4) s(3) by (intro block_free_ext) simp_all
      then have "s\<lparr>m_mem_pool := m_mem_pool s\<rparr> = s0" using s(2) by (simp only:)
      then show ?thesis by simp
    qed
    ultimately show ?thesis by (simp add: x)
  qed
  then show "NRF_SUCCESS = NRF_SUCCESS \<and> ok (for_each mem_step calls ([], s0)) ?Q"
    using for_each_invariant [of "holds s0" "([], s0)" mem_step calls, OF h holds_step] by (auto elim!: ok_mono)
qed

end
