(* ===== verification/MemExample.thy ===== *)
theory MemExample
  imports MemProps
begin

text \<open>
  The memory manager: what \<open>nrf_calloc\<close> does, a sample configuration as witness of the properties, and a configuration that leaves a
  category out, as mem_manager.h says one may.
\<close>

section \<open>Cleared memory\<close>

text \<open>\<open>nrf_calloc\<close> clears the block it reserves and nothing else; the product of its arguments is taken modulo 2 ^ 32.\<close>

lemma mem_calloc_clears:
  assumes "mm_ok s" and "z * n \<noteq> 0"
    and "find (\<lambda>k. block_free s k \<and> unat (z * n) \<le> blocks (mm_cfg s) ! k) [0..<length (blocks (mm_cfg s))] = Some k"
  shows "nrf_calloc n z s = Inr (Some (of_nat (block_addr (mm_cfg s) k)), (mark_used k s)\<lparr>m_memory :=
    take (block_addr (mm_cfg s) k) (m_memory s) @ replicate (blocks (mm_cfg s) ! k) 0 @ drop (block_addr (mm_cfg s) (Suc k)) (m_memory s)\<rparr>)"
proof -
  let ?c = "mm_cfg s"
  have c: "mm_config_ok ?c" and l: "length (m_memory s) = TOTAL_MEMORY_SIZE ?c" using assms(1) by (simp_all add: mm_ok_def)
  have k: "k < length (blocks ?c)" "unat (z * n) \<le> blocks ?c ! k" using assms(3) by (auto simp: find_Some_iff)
  have u: "unat (of_nat (block_addr ?c k) :: u32) = block_addr ?c k" "unat (of_nat (blocks ?c ! k) :: u32) = blocks ?c ! k"
    using k(1) by (intro unat_of_nat_u32 block_addr_bound [OF c] blocks_bounds(2) [OF c]; simp)+
  have "block_addr ?c k + blocks ?c ! k \<le> length (m_memory s)"
    using block_area [OF k(1) order_refl] by (simp add: l totals(2) [OF c] block_addr_end)
  moreover have "\<not> (\<forall>x \<in> set (blocks ?c). x < unat (z * n))" using k by (auto simp: not_less)
  ultimately show ?thesis
    using assms(2,3) by (simp add: nrf_calloc_def mem_reserve_find [OF assms(1)] clear_memory_def memcpy_def u block_addr_Suc k(1))
qed

section \<open>A sample\<close>

text \<open>Two blocks of 8 bytes and one of 16; the other categories have no block.\<close>

definition mm_sample_config :: mm_config where
  "mm_sample_config = [Some (0, 0), Some (2, 8), Some (0, 0), Some (1, 16), Some (0, 0), Some (0, 0), Some (0, 0)]"

lemma sample_blocks: "blocks mm_sample_config = [8, 8, 16]"
  by (simp add: blocks_def mm_sample_config_def numeral_2_eq_2)

lemma mm_sample_config_ok: "mm_config_ok mm_sample_config"
  unfolding mm_config_ok_def sample_blocks by (simp add: mm_sample_config_def BLOCK_COUNT_def)

text \<open>The first block of the sample is in use.\<close>

definition sample_mm :: mem_manager where
  "sample_mm = \<lparr>mm_cfg = mm_sample_config, m_memory = replicate 32 0, m_mem_pool = [6], m_module_initialized = True\<rparr>"

lemma sample_mm_ok: "mm_ok sample_mm"
  using mm_sample_config_ok totals [OF mm_sample_config_ok]
  by (simp add: mm_ok_def sample_mm_def sample_blocks BLOCK_BITMAP_ARRAY_SIZE_def BITMAP_SIZE_def)

lemma sample_free: "\<not> block_free sample_mm 0" "block_free sample_mm (Suc 0)" "block_free sample_mm 2"
  by (simp_all add: block_free_def sample_mm_def bit_simps)

theorem mem_reserve_first_fit_witness:
  "nrf_mem_reserve (Some None) (Some 5) sample_mm = Inr (NRF_SUCCESS, Some (Some 8), Some 8, mark_used (Suc 0) sample_mm)"
proof -
  have "mm_cfg sample_mm = mm_sample_config" by (simp add: sample_mm_def)
  then show ?thesis
    using mem_reserve_first_fit [OF sample_mm_ok, of None 5]
    by (simp add: sample_blocks sample_free block_addr_def upt_rec)
qed

theorem mem_blocks_apart_witness:
  "ok (nrf_mem_init (mem_manager_start mm_sample_config)) (\<lambda>(ret, s0). ret = NRF_SUCCESS \<and>
    ok (for_each mem_step [Mem_Reserve 5, Mem_Reserve 9, Mem_Free 1] ([], s0)) (\<lambda>(held, s).
      (\<forall>a \<in> set held. area a \<noteq> {} \<and> area a \<subseteq> {..<length (m_memory s)}) \<and>
      sorted_wrt (\<lambda>a b. disjnt (area a) (area b)) held \<and> (held = [] \<longrightarrow> s = s0)))"
  by (rule mem_blocks_apart [OF mm_sample_config_ok])

section \<open>A category left out\<close>

text \<open>The sample with the small category undefined, not counted 0.\<close>

definition gap_config :: mm_config where
  "gap_config = [Some (0, 0), Some (2, 8), None, Some (1, 16), Some (0, 0), Some (0, 0), Some (0, 0)]"

definition gap_mm :: mem_manager where
  "gap_mm = \<lparr>mm_cfg = gap_config, m_memory = replicate 32 0, m_mem_pool = [7], m_module_initialized = True\<rparr>"

text \<open>
  mem_manager.h allows to leave unwanted categories undefined, but then the categories after such a one start again at block 0. With two blocks of 8
  bytes and one of 16 and the category between them undefined, a request for 16 bytes
  succeeds and gets the first block of 8.
\<close>

theorem mem_undefined_category:
  "nrf_mem_init (mem_manager_start gap_config) = Inr (NRF_SUCCESS, gap_mm)"
  "nrf_mem_reserve (Some None) (Some 16) gap_mm = Inr (NRF_SUCCESS, Some (Some 0), Some 8, gap_mm\<lparr>m_mem_pool := [6]\<rparr>)"
  by code_simp+

text \<open>\<open>nrf_calloc\<close> of 2 ^ 29 + 1 elements of 8 bytes succeeds and gives a block of 8.\<close>

theorem mem_calloc_wraps: "nrf_calloc 0x20000001 8 sample_mm = Inr (Some 8, sample_mm\<lparr>m_mem_pool := [4]\<rparr>)"
  by code_simp

text \<open>
  \<open>TOTAL_BLOCK_COUNT\<close> adds the count of XLARGE in place of that of XXLARGE. With one block of 8 bytes, one of 16 in XLARGE and no XXLARGE, three
  blocks are managed: the second \<open>nrf_calloc\<close> of 9 bytes is given a block behind the end of \<open>m_memory\<close> and clears what is there.
\<close>

definition xlarge_config :: mm_config where
  "xlarge_config = [Some (1, 8), Some (0, 0), Some (0, 0), Some (0, 0), Some (0, 0), Some (1, 16), Some (0, 0)]"

theorem mem_count_of_xxlarge:
  "TOTAL_BLOCK_COUNT xlarge_config = 3" "TOTAL_MEMORY_SIZE xlarge_config = 24"
  "then_do (nrf_mem_init (mem_manager_start xlarge_config)) (\<lambda>(_, s).
   then_do (nrf_calloc 1 9 s) (\<lambda>(_, s1). nrf_calloc 1 9 s1)) = Inl Out_Of_Bounds"
  by code_simp+

end
