(* ===== verification/MappedFlags.thy ===== *)
theory MappedFlags
  imports LibCommon
begin

text \<open>
  Flags under keys, components/libraries/util/sdk_mapped_flags.c: a collection is a byte, and the flag of the \<open>i\<close>-th of eight registered
  keys is its bit \<open>i\<close>. A pointer argument is what it points to, or \<open>None\<close> for \<open>NULL\<close>.
\<close>

unbundle bit_operations_syntax

section \<open>The functions\<close>

definition SDK_MAPPED_FLAGS_N_KEYS :: nat where "SDK_MAPPED_FLAGS_N_KEYS = 8"
definition SDK_MAPPED_FLAGS_INVALID_INDEX :: u16 where "SDK_MAPPED_FLAGS_INVALID_INDEX = 0xFFFF"

text \<open>\<open>1U << index\<close> for the first two, \<open>1 << index\<close> for the third.\<close>

definition sdk_mapped_flags_set_by_index :: "u8 \<Rightarrow> u16 \<Rightarrow> u8 result" where
  "sdk_mapped_flags_set_by_index flags index =
     (if unat index < 32 then Inr (ucast ((ucast flags :: u32) OR push_bit (unat index) 1)) else Inl Bad_Shift)"

definition sdk_mapped_flags_clear_by_index :: "u8 \<Rightarrow> u16 \<Rightarrow> u8 result" where
  "sdk_mapped_flags_clear_by_index flags index =
     (if unat index < 32 then Inr (ucast ((ucast flags :: u32) AND NOT (push_bit (unat index) 1))) else Inl Bad_Shift)"

definition sdk_mapped_flags_get_by_index :: "u8 \<Rightarrow> u16 \<Rightarrow> bool result" where
  "sdk_mapped_flags_get_by_index flags index =
     (if unat index < 31 then Inr ((ucast flags :: u32) AND push_bit (unat index) 1 \<noteq> 0) else Inl Bad_Shift)"

fun first_index_loop :: "nat list \<Rightarrow> u8 \<Rightarrow> u16 result" where
  "first_index_loop [] flags = Inr SDK_MAPPED_FLAGS_INVALID_INDEX"
| "first_index_loop (i # is) flags =
     then_do (sdk_mapped_flags_get_by_index flags (of_nat i)) (\<lambda>b. if b then Inr (of_nat i) else first_index_loop is flags)"

definition sdk_mapped_flags_first_key_index_get :: "u8 \<Rightarrow> u16 result" where
  "sdk_mapped_flags_first_key_index_get = first_index_loop [0..<SDK_MAPPED_FLAGS_N_KEYS]"

definition update_flag :: "u16 \<Rightarrow> bool \<Rightarrow> nat \<Rightarrow> u8 list \<Rightarrow> u8 list result" where
  "update_flag i v j p_flags =
     then_do (load_at p_flags j) (\<lambda>f.
     then_do (if v then sdk_mapped_flags_set_by_index f i else sdk_mapped_flags_clear_by_index f i) (store_at p_flags j))"

fun update_loop :: "nat list \<Rightarrow> u16 list \<Rightarrow> u8 list \<Rightarrow> u32 \<Rightarrow> u16 \<Rightarrow> bool \<Rightarrow> u8 list result" where
  "update_loop [] p_keys p_flags n_flag_collections key v = Inr p_flags"
| "update_loop (i # is) p_keys p_flags n_flag_collections key v =
     then_do (load_at p_keys i) (\<lambda>k.
     if k = key then for_each (update_flag (of_nat i) v) [0..<unat n_flag_collections] p_flags
     else update_loop is p_keys p_flags n_flag_collections key v)"

definition sdk_mapped_flags_bulk_update_by_key ::
  "u16 list option \<Rightarrow> u8 list option \<Rightarrow> u32 \<Rightarrow> u16 \<Rightarrow> bool \<Rightarrow> u8 list option result" where
  "sdk_mapped_flags_bulk_update_by_key p_keys p_flags n_flag_collections key v =
     (case (p_keys, p_flags) of
        (Some keys, Some flags) \<Rightarrow>
          if n_flag_collections > 0
          then then_do (update_loop [0..<SDK_MAPPED_FLAGS_N_KEYS] keys flags n_flag_collections key v) (Inr \<circ> Some)
          else Inr p_flags
      | _ \<Rightarrow> Inr p_flags)"

definition sdk_mapped_flags_update_by_key :: "u16 list option \<Rightarrow> u8 list option \<Rightarrow> u16 \<Rightarrow> bool \<Rightarrow> u8 list option result" where
  "sdk_mapped_flags_update_by_key p_keys p_flags key v = sdk_mapped_flags_bulk_update_by_key p_keys p_flags 1 key v"

fun get_by_key_loop :: "nat list \<Rightarrow> u16 list \<Rightarrow> u8 \<Rightarrow> u16 \<Rightarrow> bool result" where
  "get_by_key_loop [] p_keys flags key = Inr False"
| "get_by_key_loop (i # is) p_keys flags key =
     then_do (load_at p_keys i) (\<lambda>k.
     if k = key then sdk_mapped_flags_get_by_index flags (of_nat i) else get_by_key_loop is p_keys flags key)"

definition sdk_mapped_flags_get_by_key :: "u16 list option \<Rightarrow> u8 \<Rightarrow> u16 \<Rightarrow> bool result" where
  "sdk_mapped_flags_get_by_key p_keys flags key =
     (case p_keys of None \<Rightarrow> Inr False | Some keys \<Rightarrow> get_by_key_loop [0..<SDK_MAPPED_FLAGS_N_KEYS] keys flags key)"

text \<open>The first \<open>len\<close> elements of \<open>flag_keys\<close>; the others are not set.\<close>

record sdk_mapped_flags_key_list_t =
  flag_keys :: "u16 list"

definition add_key :: "u16 list \<Rightarrow> u8 \<Rightarrow> nat \<Rightarrow> sdk_mapped_flags_key_list_t \<Rightarrow> sdk_mapped_flags_key_list_t result" where
  "add_key p_keys flags i key_list =
     then_do (sdk_mapped_flags_get_by_index flags (of_nat i)) (\<lambda>b.
     if b then
       then_do (load_at p_keys i) (\<lambda>k.
       if length (flag_keys key_list) < SDK_MAPPED_FLAGS_N_KEYS then Inr (key_list\<lparr>flag_keys := flag_keys key_list @ [k]\<rparr>) else Inl Out_Of_Bounds)
     else Inr key_list)"

definition sdk_mapped_flags_key_list_get :: "u16 list option \<Rightarrow> u8 \<Rightarrow> sdk_mapped_flags_key_list_t result" where
  "sdk_mapped_flags_key_list_get p_keys flags =
     (case p_keys of
        None \<Rightarrow> Inr \<lparr>flag_keys = []\<rparr>
      | Some keys \<Rightarrow> for_each (add_key keys flags) [0..<SDK_MAPPED_FLAGS_N_KEYS] \<lparr>flag_keys = []\<rparr>)"

definition count_flag :: "u8 \<Rightarrow> nat \<Rightarrow> u32 \<Rightarrow> u32 result" where
  "count_flag flags i n_flags_set =
     then_do (sdk_mapped_flags_get_by_index flags (of_nat i)) (\<lambda>b. Inr (if b then n_flags_set + 1 else n_flags_set))"

definition sdk_mapped_flags_n_flags_set :: "u8 \<Rightarrow> u32 result" where
  "sdk_mapped_flags_n_flags_set flags = for_each (count_flag flags) [0..<SDK_MAPPED_FLAGS_N_KEYS] 0"

definition sdk_mapped_flags_any_set :: "u8 \<Rightarrow> bool" where
  "sdk_mapped_flags_any_set flags \<longleftrightarrow> flags \<noteq> 0"

section \<open>Flags as a map from keys\<close>

lemma index_ops:
  assumes "i < 8"
  shows "sdk_mapped_flags_set_by_index f (of_nat i) = Inr (set_bit i f)"
    "sdk_mapped_flags_clear_by_index f (of_nat i) = Inr (unset_bit i f)"
    "sdk_mapped_flags_get_by_index f (of_nat i) = Inr (bit f i)"
proof -
  have u: "unat (of_nat i :: u16) = i" using assms by (simp add: unsigned_of_nat take_bit_nat_eq_self_iff)
  show "sdk_mapped_flags_set_by_index f (of_nat i) = Inr (set_bit i f)" "sdk_mapped_flags_clear_by_index f (of_nat i) = Inr (unset_bit i f)"
    unfolding sdk_mapped_flags_set_by_index_def sdk_mapped_flags_clear_by_index_def u
    using assms by (auto intro!: bit_word_eqI simp: bit_simps)
  have "(ucast f :: u32) AND push_bit i 1 \<noteq> 0 \<longleftrightarrow> bit f i"
    using assms and_exp_eq_0_iff_not_bit [of "ucast f :: u32" i] by (simp add: bit_ucast_iff)
  then show "sdk_mapped_flags_get_by_index f (of_nat i) = Inr (bit f i)"
    unfolding sdk_mapped_flags_get_by_index_def u using assms by simp
qed

text \<open>The index of a key is that of its first occurrence among the eight.\<close>

definition index_of :: "u16 list \<Rightarrow> u16 \<Rightarrow> nat option" where
  "index_of keys key = find (\<lambda>i. keys ! i = key) [0..<8]"

lemma index_of_less: "index_of keys key = Some i \<Longrightarrow> i < 8 \<and> keys ! i = key"
  by (auto simp: index_of_def find_Some_iff)

definition put_flag :: "nat \<Rightarrow> bool \<Rightarrow> u8 \<Rightarrow> u8" where
  "put_flag i v f = (if v then set_bit i f else unset_bit i f)"

lemma bit_put_flag: "j < 8 \<Longrightarrow> bit (put_flag i v f) j \<longleftrightarrow> (if j = i then v else bit f j)"
  by (simp add: put_flag_def bit_simps)

lemma update_all:
  assumes "i < 8" and "n \<le> length flags"
  shows "for_each (update_flag (of_nat i) v) [0..<n] flags = Inr (map (put_flag i v) (take n flags) @ drop n flags)"
proof -
  have "ok (for_each (update_flag (of_nat i) v) [0..<n] flags) (\<lambda>fs. fs = map (put_flag i v) (take n flags) @ drop n flags)"
  proof (rule for_each_upt)
    fix k fs assume k: "k < n" and fs: "fs = map (put_flag i v) (take k flags) @ drop k flags"
    have "fs ! k = flags ! k" "k < length fs" using k fs assms(2) by (simp_all add: nth_append)
    moreover have "fs[k := x] = map (put_flag i v) (take k flags) @ x # drop (Suc k) flags" for x
      using k fs assms(2) Cons_nth_drop_Suc [of k flags, symmetric] by (simp add: list_update_append)
    ultimately show "ok (update_flag (of_nat i) v k fs) (\<lambda>fs. fs = map (put_flag i v) (take (Suc k) flags) @ drop (Suc k) flags)"
      using k assms by (simp add: update_flag_def index_ops [OF assms(1)] put_flag_def take_Suc_conv_app_nth)
  qed simp
  then show ?thesis by (simp add: ok_iff)
qed

lemma update_loop_find:
  assumes "length keys = 8" and "\<forall>i \<in> set is. i < 8" and "unat n \<le> length flags"
  shows "update_loop is keys flags n key v =
    Inr (case find (\<lambda>i. keys ! i = key) is of None \<Rightarrow> flags | Some i \<Rightarrow> map (put_flag i v) (take (unat n) flags) @ drop (unat n) flags)"
  using assms by (induction "is") (auto simp: load_at_def update_all)

lemma get_by_key_loop_find:
  assumes "length keys = 8" and "\<forall>i \<in> set is. i < 8"
  shows "get_by_key_loop is keys f key = Inr (case find (\<lambda>i. keys ! i = key) is of None \<Rightarrow> False | Some i \<Rightarrow> bit f i)"
  using assms by (induction "is") (auto simp: load_at_def index_ops)

text \<open>What a collection says of a key: \<open>None\<close> if the key is not registered.\<close>

definition flag_of :: "u16 list \<Rightarrow> u8 \<Rightarrow> u16 \<Rightarrow> bool option" where
  "flag_of keys f key = map_option (bit f) (index_of keys key)"

lemma get_by_key_flag_of:
  assumes "length keys = 8"
  shows "sdk_mapped_flags_get_by_key (Some keys) f key = Inr (flag_of keys f key = Some True)"
  using get_by_key_loop_find [OF assms, of "[0..<8]" f key]
  by (auto simp: sdk_mapped_flags_get_by_key_def SDK_MAPPED_FLAGS_N_KEYS_def flag_of_def index_of_def split: option.split)

text \<open>
  An update by key sets the flag of that key in the first collections of the array, as many as are named, and no other flag: read as maps from the keys
  they are updated at the key, if it is registered, and the rest of the array is untouched.
\<close>

theorem flags_update_get:
  assumes "length keys = 8" and "0 < n" and "unat n \<le> length flags"
  shows "ok (sdk_mapped_flags_bulk_update_by_key (Some keys) (Some flags) n key v) (\<lambda>r. \<exists>flags'. r = Some flags' \<and>
    length flags' = length flags \<and> drop (unat n) flags' = drop (unat n) flags \<and>
    (\<forall>j < unat n. flag_of keys (flags' ! j) = (if key \<in> set keys then (flag_of keys (flags ! j))(key \<mapsto> v) else flag_of keys (flags ! j))))"
proof (cases "index_of keys key")
  case None
  then have "key \<notin> set keys" using assms(1) by (auto simp: index_of_def find_None_iff in_set_conv_nth)
  then show ?thesis
    using assms None update_loop_find [OF assms(1) _ assms(3), of "[0..<8]" key v]
    by (auto simp: sdk_mapped_flags_bulk_update_by_key_def SDK_MAPPED_FLAGS_N_KEYS_def index_of_def)
next
  case (Some i)
  let ?fs = "map (put_flag i v) (take (unat n) flags) @ drop (unat n) flags"
  have i: "i < 8" "keys ! i = key" using index_of_less [OF Some] by simp_all
  have "key \<in> set keys" using i assms(1) nth_mem [of i keys] by simp
  moreover have "flag_of keys (put_flag i v f) = (flag_of keys f)(key \<mapsto> v)" for f
  proof
    fix k
    show "flag_of keys (put_flag i v f) k = ((flag_of keys f)(key \<mapsto> v)) k"
      using Some i index_of_less [of keys k] bit_put_flag [of _ i v f]
      by (cases "index_of keys k") (auto simp: flag_of_def)
  qed
  moreover have "?fs ! j = put_flag i v (flags ! j)" if "j < unat n" for j
    using that assms(3) by (simp add: nth_append)
  ultimately show ?thesis
    using assms Some update_loop_find [OF assms(1) _ assms(3), of "[0..<8]" key v]
    by (simp add: sdk_mapped_flags_bulk_update_by_key_def SDK_MAPPED_FLAGS_N_KEYS_def index_of_def)
qed

section \<open>Enumeration\<close>

lemma first_index_find:
  "\<forall>i \<in> set is. i < 8 \<Longrightarrow> first_index_loop is f = Inr (case find (bit f) is of None \<Rightarrow> SDK_MAPPED_FLAGS_INVALID_INDEX | Some i \<Rightarrow> of_nat i)"
  by (induction "is") (auto simp: index_ops)

text \<open>The first index is that of the lowest bit, the key list has the keys of the set bits in order, and their number is returned.\<close>

theorem flags_enumerate:
  assumes "length keys = 8"
  shows "sdk_mapped_flags_first_key_index_get f =
      Inr (if f = 0 then SDK_MAPPED_FLAGS_INVALID_INDEX else of_nat (LEAST i. bit f i))"
    and "sdk_mapped_flags_key_list_get (Some keys) f = Inr \<lparr>flag_keys = map (nth keys) (filter (bit f) [0..<8])\<rparr>"
    and "sdk_mapped_flags_n_flags_set f = Inr (of_nat (card {i. bit f i}))"
proof -
  have b: "bit f i \<Longrightarrow> i < 8" for i using bit_imp_le_length [of f i] by simp
  have z: "f = 0 \<longleftrightarrow> (\<forall>i < 8. \<not> bit f i)" using b by (auto simp: bit_eq_iff)
  have "find (bit f) [0..<8] = (if f = 0 then None else Some (LEAST i. bit f i))"
  proof (cases "f = 0")
    case False
    then obtain i where "bit f i" using z by blast
    then have l: "bit f (LEAST i. bit f i)" by (rule LeastI)
    have "find (bit f) [0..<8] = Some (LEAST i. bit f i)"
      by (rule find_upt_first [where P = "bit f", OF b [OF l] l]) (rule not_less_Least)
    then show ?thesis using False by simp
  qed (simp add: find_None_iff)
  then show "sdk_mapped_flags_first_key_index_get f = Inr (if f = 0 then SDK_MAPPED_FLAGS_INVALID_INDEX else of_nat (LEAST i. bit f i))"
    by (simp add: sdk_mapped_flags_first_key_index_get_def SDK_MAPPED_FLAGS_N_KEYS_def first_index_find)
  have "ok (for_each (add_key keys f) [0..<8] \<lparr>flag_keys = []\<rparr>) (\<lambda>l. l = \<lparr>flag_keys = map (nth keys) (filter (bit f) [0..<8])\<rparr>)"
  proof (rule for_each_upt)
    fix k l assume k: "k < (8 :: nat)" and l: "l = \<lparr>flag_keys = map (nth keys) (filter (bit f) [0..<k])\<rparr>"
    have "length (flag_keys l) < 8" using k length_filter_le [of "bit f" "[0..<k]"] by (simp add: l)
    then show "ok (add_key keys f k l) (\<lambda>l. l = \<lparr>flag_keys = map (nth keys) (filter (bit f) [0..<Suc k])\<rparr>)"
      using k assms l by (simp add: add_key_def index_ops SDK_MAPPED_FLAGS_N_KEYS_def)
  qed simp
  then show "sdk_mapped_flags_key_list_get (Some keys) f = Inr \<lparr>flag_keys = map (nth keys) (filter (bit f) [0..<8])\<rparr>"
    by (simp add: sdk_mapped_flags_key_list_get_def SDK_MAPPED_FLAGS_N_KEYS_def ok_iff)
  have "ok (for_each (count_flag f) [0..<8] 0) (\<lambda>n. n = of_nat (length (filter (bit f) [0..<8])))"
    by (rule for_each_upt) (simp_all add: count_flag_def index_ops)
  moreover have "card {i. bit f i} = length (filter (bit f) [0..<8])"
  proof -
    have "{i. bit f i} = set (filter (bit f) [0..<8])" using b by auto
    then show ?thesis by (simp only: distinct_card [OF distinct_filter [OF distinct_upt]])
  qed
  ultimately show "sdk_mapped_flags_n_flags_set f = Inr (of_nat (card {i. bit f i}))"
    by (simp add: sdk_mapped_flags_n_flags_set_def SDK_MAPPED_FLAGS_N_KEYS_def ok_iff)
qed

end
