(* ===== verification/Spec2Isabelle.thy ===== *)
theory Spec2Isabelle
  imports EsbProps System AppFifo Slip Crc HciLink AppUartFifoProps Sha256Props AppScheduler AppMailbox AppTimerProps FdsExample MemExample MappedFlags
begin

text \<open>
  A wireless host ("box") and its devices talk over Nordic's Enhanced ShockBurst protocol (ESB).
  This development models the ESB module of the repository, the two applications on it and the
  libraries of the SDK in the repository that carry logic of their own, and proves what they promise.

  \<^bold>\<open>The program.\<close> The ESB module (components/proprietary_rf/esb/nrf_esb.c) is a packet radio driver:
  a transmitter (PTX) takes payloads from a queue, sends each with a packet ID, waits for an
  acknowledgment and retransmits; a receiver (PRX) acknowledges, drops duplicates and queues what is new. Everything
  after a call happens in the RADIO interrupt, which is dispatched through a function pointer. The
  box (examples/proprietary_rf/box/main.c) picks quiet channels, pairs up to six devices, and then
  hops over its channels and broadcasts a beacon in every interval; the devices
  (examples/proprietary_rf/device/main.c) follow the beacons and answer with data. The beacon says whose data
  was received in the last interval, so that a device sends it again if it was lost. Both
  keep their pairing record in a flash page (examples/proprietary_rf/common/app_common.c). The
  libraries are a byte FIFO, a SLIP codec, two checksums, a UART driver with a UART module, an HCI SLIP layer and a reliable HCI
  transport on it, a pool of receive buffers, an event scheduler, a mailbox, SHA-256, the application timers,
  the flash storage (a queue of writes and erasures for the SoftDevice) and the flash data storage, which keeps records in it, a memory manager
  and flags under keys.

  \<^bold>\<open>How code becomes definitions.\<close> A module's static variables, with the registers it touches, are one
  record; a function is a definition of the same name on it. Code that may go wrong has a
  result of type \<open>'a result\<close>: \<open>Inl\<close> of a \<open>fault\<close> (a null call, an access out of bounds, an endless busy-wait, a
  reset), or \<open>Inr\<close> (theory Prelude). Integers keep their width as words. A function pointer is an
  enumeration of the functions it can hold, a pointer that may be \<open>NULL\<close> an option, a pointer into an array
  an index. What the hardware answers to a poll is a stream in the state. Where one module calls back into another the
  state is an extensible record and the callback a function on the whole of it.

  \<^bold>\<open>The theories\<close>, in the order of the code:
  \<^item> Prelude: words, return codes, faults, arrays, busy-waits, rings; the interfaces \<open>bounded_queue\<close> and \<open>machine\<close>.
    LibCommon: powers of two, slots, the interface \<open>stream_codec\<close>.
  \<^item> EsbTypes, EsbFifo, EsbRadio, EsbTx, EsbRx, EsbApi: nrf_esb.h and nrf_esb.c, every function. EsbFifo
    interprets \<open>bounded_queue\<close> on the two payload FIFOs.
  \<^item> EsbInv, EsbMachine: the invariant \<open>esb_inv\<close>, kept by every function; the module as a transition system of
    calls, interrupts and changes of the radio in any order, an interpretation of \<open>machine\<close>. EsbSpec: the abstract
    specification (two queues and a packet-ID counter for every pipe) and the refinement. EsbLink: a packet over the air and a
    transaction under every sequence of outcomes. EsbSample, EsbProps: sample states and the properties.
  \<^item> AppEsb, AppCommon: the ESB interface as the applications use it; flash record, interval timer, configuration.
  \<^item> BoxSetup, Box, BoxProps: start-up and channel picking; pairing, beacons, handlers; properties.
    Device, DeviceProps: the device in the same way. System: box and device together; a pairing from the request to the slot.
  \<^item> AppFifo (libraries/fifo), Slip (slip), Crc (crc16, crc32), Sha256 and Sha256Props (sha256), AppScheduler (scheduler),
    AppMailbox (mailbox), HciMemPool (hci/hci_mem_pool.c), each with its abstract queue or reference
    algorithm and its properties. AppFifo is an interpretation of \<open>bounded_queue\<close>, Slip and HciProps of \<open>stream_codec\<close>.
  \<^item> DrvUart (drivers_nrf/uart/nrf_drv_uart.c), AppUart (uart/app_uart.c), HciSlip (hci/hci_slip.c), HciProps: three
    layers with callbacks from the interrupt upwards, and the frame as it goes over the wire and comes back. AppUartFifo and
    AppUartFifoProps: the buffered UART module (uart/app_uart_fifo.c) under any order of calls and interrupts, line errors included, with
    an event handler that puts and gets inside the interrupts.
  \<^item> HciTransport (hci/hci_transport.c, every function, on top of HciSlip, HciMemPool and Crc), HciPacket (the layout of packets and
    acknowledgments, writes to the SLIP layer), HciTransportProps (the queue of received packets), HciLink (both ends of the link).

  \<^item> AppTimer (libraries/timer/app_timer.c, every function): the list of running timers, the queue of operations and the two
    interrupts. AppTimerList: insertion and removal against a list of expiry times. AppTimerExpiry: the interrupt that
    calls the handlers. AppTimerUpdate: the interrupt that updates the list. AppTimerProps: the properties of the operations.
  \<^item> Fstorage (libraries/fstorage/fstorage.c, every function): flash operations in a queue, handed to the SoftDevice in pieces.
    FstorageQueue: the queue, an interpretation of \<open>bounded_queue\<close>. FstorageInv: the invariant under callbacks that call back. FstorageProps: any order
    of calls and events, an interpretation of \<open>machine\<close>. FstorageStore: a store from call to event. FstorageWork: the same in
    steps, for a user whose callback asks for more. FstorageInit: errors, \<open>fs_init\<close>, examples.
  \<^item> Fds, FdsPages, FdsExec, FdsApi (libraries/fds/fds.c, every function, on top of Fstorage): types and constants; pages, searches, queues and the survey of the flash;
    the step machines of the operations; the interface. FdsScan: the records of a page as a list, and the searches as functions of it. FdsFind:
    what repeated searches, statistics and reservations give. FdsQueues: both queues, interpretations of \<open>bounded_queue\<close>. FdsLink: fds.c on fstorage.c on a flash in which
    writing clears bits, and one request from start to callback. FdsFlash: words in the flash and how they change the list of records. FdsWrite, FdsStage, FdsWritten, FdsRecord,
    FdsProps: \<open>fds_record_write\<close> from the call through its requests to the event. FdsInit: \<open>fds_init\<close> after a reset. FdsSample, FdsExample: examples.
  \<^item> MemManager (libraries/mem_manager/mem_manager.c), MemBlocks, MemProps, MemExample: static memory in blocks of seven sizes; first fit, and what is
    reserved never overlaps; three configurations and requests that go wrong. MappedFlags (util/sdk_mapped_flags.c): flags of a byte as a map from keys.

  \<^bold>\<open>What the properties say.\<close> Safety: no reachable state of the ESB module makes a function or the interrupt go
  wrong; no call or event makes fstorage ask for flash outside its users' areas; a record that is being written is not found before its last word is in the flash; after a reset every record is found again. Liveness and termination: a transaction ends within its retransmission count, with success as soon as one round
  is acknowledged; a written SLIP packet is sent whole; a store reaches the flash word by word; an HCI packet without acknowledgment is given up after its repetitions;
  the scheduler drains its queue. Refinement: the queues of ESB, FIFO, scheduler, mailbox and HCI transport against abstract queues, every error code included; the
  list of timers, which keeps differences, against a list of expiry times. Timers: who expires at an interrupt, periodic timers without drift. Round trips: a packet crosses the link; a
  record survives the flash, also one of the flash data storage, with its checksum; a SLIP frame is decoded. Application: pairing slots, the beacon's protocol of missing data, channel
  scanning. Equivalence: CRC-16 against the bitwise algorithm;
  SHA-256 against FIPS 180-4. Error behaviour: inputs on
  which the code does what it should not, as theorems; they are the findings of the manifest.

  \<^bold>\<open>Bounds and fuel.\<close> Most loops are structural, or polls that are modelled as endless when they are (\<open>busy_wait\<close>, \<open>app_sched_execute\<close>).
  Fuel is used where a loop of the code is bounded by its data: \<open>transmit_loop\<close> gets two rounds for every byte of the packet and two more
  (a byte takes at most two successful puts); the search of the memory pool gets the size of its ring and its release loop the number of
  extracted buffers plus one; a polling UART transfer gets 255 rounds, the largest length; the
  scan of the timer operations gets 256, the number of its indices. Walks along the list of timers are partial functions without a result on a cyclic list. \<open>queue_process\<close> of fds.c
  calls itself for the next operation and is called again inside a request that the SoftDevice refuses: \<open>env_depth\<close> bounds that nesting, one level for each; when it is used up the model stops with \<open>Hang\<close>.
  Walks along the records of a page end because each is longer than its header and memory is finite. The theorems about these functions are
  total, so that the fuel is enough wherever they apply.

  \<^bold>\<open>Not modelled.\<close> Logging; the pin configuration. Of the UART driver the EasyDMA half, which the
  configuration of the applications does not compile for the nRF51. The other driver variants, the register headers, CMSIS, the
  start-up code and the SDK libraries that the applications do not use and that are listed as not modelled in the manifest: vendored code, most
  of it register access.

  The scheduler, the mailbox, the FIFO and the two queues of the flash data storage are modelled with their critical regions as atomic steps; the interleaving of interrupts with calls is modelled for
  the ESB module, where a step of the transition system is a whole call or a whole interrupt.
\<close>

end
